(* ===== verification/Odin_Prelude.thy ===== *)
theory Odin_Prelude
  imports Complex_Main
begin

text \<open>
  Shared vocabulary of the development: the types every component uses, the collections
  of facts that carry the component proofs, and the generic transition-system contracts
  (invariants, stable facts, one-shot events) that the stateful components instantiate.

  Clock readings and durations (\<^verbatim>\<open>time.time()\<close>, \<^verbatim>\<open>time.monotonic()\<close>) are exact
  rationals: the rounding of IEEE doubles is not modelled. Each operation that reads the
  clock takes the reading as an argument, and nothing assumes that two readings are
  ordered unless a theorem says so.
\<close>

type_synonym py_time = rat
type_synonym bytes = string

text \<open>The first of several checks that fails.\<close>

fun first_failure :: "'e option list \<Rightarrow> 'e option" where
  "first_failure [] = None"
| "first_failure (Some e # es) = Some e"
| "first_failure (None # es) = first_failure es"

named_theorems inv_intros \<open>preservation of component invariants, one fact per operation\<close>

section \<open>Lists\<close>

lemma distinct_map_key_unique:
  assumes "distinct (map key xs)" "x \<in> set xs" "y \<in> set xs" "key x = key y"
  shows "x = y"
  using assms by (auto simp: distinct_map dest: inj_onD)

lemma length_filter_key_le_1:
  assumes "distinct (map key xs)" "\<And>x. x \<in> set xs \<Longrightarrow> p x \<Longrightarrow> key x = k"
  shows "length (filter p xs) \<le> 1"
  using assms
proof (induction xs)
  case Nil
  then show ?case by simp
next
  case (Cons x xs)
  show ?case
  proof (cases "p x")
    case True
    with Cons.prems have "\<forall>y\<in>set xs. \<not> p y" by force
    then show ?thesis by (simp add: filter_False)
  next
    case False
    with Cons show ?thesis by simp
  qed
qed

lemma map_if_id [simp]: "(\<And>x. x \<in> set xs \<Longrightarrow> \<not> p x) \<Longrightarrow> map (\<lambda>x. if p x then f x else x) xs = xs"
  by (induction xs) auto

lemma filter_empty_length: "length (filter p xs) = 0 \<longleftrightarrow> (\<forall>x\<in>set xs. \<not> p x)"
  by (simp add: filter_empty_conv)

lemma list_all_mapI: "(\<And>x. x \<in> set xs \<Longrightarrow> P (g x)) \<Longrightarrow> list_all P (map g xs)"
  by (induction xs) auto

section \<open>Transition systems\<close>

text \<open>
  The contract of a stateful component: a step relation (one rule per operation, with
  arbitrary arguments, clock readings and faults) and an invariant every step keeps.
\<close>

locale step_invariant =
  fixes step :: "'s \<Rightarrow> 's \<Rightarrow> bool"
    and inv :: "'s \<Rightarrow> bool"
  assumes step_inv: "step s t \<Longrightarrow> inv s \<Longrightarrow> inv t"
begin

lemma steps_inv: "step\<^sup>*\<^sup>* s t \<Longrightarrow> inv s \<Longrightarrow> inv t"
  by (induction rule: rtranclp_induct) (auto intro: step_inv)

lemma stable_steps:
  assumes "\<And>s t. step s t \<Longrightarrow> inv s \<Longrightarrow> P s \<Longrightarrow> P t"
    and "step\<^sup>*\<^sup>* s t" "inv s" "P s"
  shows "P t"
  using assms(2-4)
proof (induction rule: rtranclp_induct)
  case base
  then show ?case by simp
next
  case (step t u)
  then show ?case using assms(1) steps_inv by blast
qed

end

text \<open>
  A one-shot event: firing it needs an unspent state, spends it, and no step of the
  system ever gives it back. Then no run fires it twice.
\<close>

locale one_shot = step_invariant +
  fixes fire :: "'s \<Rightarrow> 's \<Rightarrow> bool"
    and spent :: "'s \<Rightarrow> bool"
  assumes fire_step: "fire s t \<Longrightarrow> step s t"
    and fire_unspent: "fire s t \<Longrightarrow> inv s \<Longrightarrow> \<not> spent s"
    and fire_spends: "fire s t \<Longrightarrow> inv s \<Longrightarrow> spent t"
    and spent_step: "step s t \<Longrightarrow> inv s \<Longrightarrow> spent s \<Longrightarrow> spent t"
begin

lemma spent_steps: "step\<^sup>*\<^sup>* s t \<Longrightarrow> inv s \<Longrightarrow> spent s \<Longrightarrow> spent t"
  using stable_steps [of spent] spent_step by blast

lemma never_twice:
  assumes "inv s" "fire s t" "step\<^sup>*\<^sup>* t u"
  shows "\<not> fire u v"
proof -
  have "inv t" using assms fire_step step_inv by blast
  moreover have "spent t" using assms fire_spends by blast
  ultimately have "spent u" and "inv u" using assms(3) spent_steps steps_inv by blast+
  then show ?thesis using fire_unspent by blast
qed

end

end
