(* ===== verification/Sql_Table.thy ===== *)
theory Sql_Table
  imports Odin_Prelude "HOL-Library.Multiset"
begin

text \<open>
  The part of SQL that \<^verbatim>\<open>src/turn_state/store.py\<close> uses, over a table that is the list of
  its rows: \<^verbatim>\<open>UPDATE .. SET .. WHERE\<close> with its \<^verbatim>\<open>rowcount\<close>, \<^verbatim>\<open>DELETE .. WHERE\<close>,
  \<^verbatim>\<open>INSERT\<close> under a \<^verbatim>\<open>PRIMARY KEY\<close> (\<^const>\<open>None\<close> is \<^verbatim>\<open>sqlite3.IntegrityError\<close>),
  and \<^verbatim>\<open>SELECT .. WHERE\<close>. The laws of a keyed table are proved here once.
\<close>

definition sql_select :: "('r \<Rightarrow> bool) \<Rightarrow> 'r list \<Rightarrow> 'r list" where
  "sql_select p rows = filter p rows"

definition sql_update :: "('r \<Rightarrow> bool) \<Rightarrow> ('r \<Rightarrow> 'r) \<Rightarrow> 'r list \<Rightarrow> 'r list \<times> nat" where
  "sql_update p f rows = (map (\<lambda>r. if p r then f r else r) rows, length (filter p rows))"

definition sql_delete :: "('r \<Rightarrow> bool) \<Rightarrow> 'r list \<Rightarrow> 'r list \<times> nat" where
  "sql_delete p rows = (filter (\<lambda>r. \<not> p r) rows, length (filter p rows))"

definition sql_insert :: "('r \<Rightarrow> 'k) \<Rightarrow> 'r \<Rightarrow> 'r list \<Rightarrow> 'r list option" where
  "sql_insert key r rows = (if key r \<in> set (map key rows) then None else Some (rows @ [r]))"

text \<open>The row with a given primary key, and the constraint itself.\<close>

definition row_of :: "('r \<Rightarrow> 'k) \<Rightarrow> 'k \<Rightarrow> 'r list \<Rightarrow> 'r option" where
  "row_of key k rows = find (\<lambda>r. key r = k) rows"

definition pk_ok :: "('r \<Rightarrow> 'k) \<Rightarrow> 'r list \<Rightarrow> bool" where
  "pk_ok key rows \<longleftrightarrow> distinct (map key rows)"

lemma sql_update_simps [simp]:
  "fst (sql_update p f rows) = map (\<lambda>r. if p r then f r else r) rows"
  "snd (sql_update p f rows) = length (filter p rows)"
  by (simp_all add: sql_update_def)

lemma sql_delete_simps [simp]:
  "fst (sql_delete p rows) = filter (\<lambda>r. \<not> p r) rows"
  "snd (sql_delete p rows) = length (filter p rows)"
  by (simp_all add: sql_delete_def)

lemma map_key_update:
  assumes "\<And>r. r \<in> set rows \<Longrightarrow> p r \<Longrightarrow> key (f r) = key r"
  shows "map key (fst (sql_update p f rows)) = map key rows"
  using assms by (auto simp: comp_def)

lemma pk_ok_update [intro]:
  assumes "pk_ok key rows" "\<And>r. r \<in> set rows \<Longrightarrow> p r \<Longrightarrow> key (f r) = key r"
  shows "pk_ok key (map (\<lambda>r. if p r then f r else r) rows)"
  using map_key_update [of rows p key f] assms unfolding pk_ok_def sql_update_simps by metis

lemma pk_ok_map:
  assumes "pk_ok key rows" "\<And>r. r \<in> set rows \<Longrightarrow> key (g r) = key r"
  shows "pk_ok key (map g rows)"
proof -
  have "map key (map g rows) = map key rows" using assms(2) by simp
  then show ?thesis using assms(1) unfolding pk_ok_def by metis
qed

lemma pk_ok_filter [intro]: "pk_ok key rows \<Longrightarrow> pk_ok key (filter p rows)"
  by (simp add: pk_ok_def distinct_map_filter)

lemma pk_ok_insert [intro]:
  "pk_ok key rows \<Longrightarrow> sql_insert key r rows = Some rows' \<Longrightarrow> pk_ok key rows'"
  by (auto simp: pk_ok_def sql_insert_def split: if_splits)

lemma row_of_Some_iff:
  assumes "pk_ok key rows"
  shows "row_of key k rows = Some r \<longleftrightarrow> r \<in> set rows \<and> key r = k"
  using assms unfolding row_of_def pk_ok_def
  by (induction rows) (auto split: if_splits)

lemma row_of_None_iff: "row_of key k rows = None \<longleftrightarrow> k \<notin> key ` set rows"
  unfolding row_of_def by (induction rows) auto

lemma row_of_SomeD: "row_of key k rows = Some r \<Longrightarrow> r \<in> set rows \<and> key r = k"
  unfolding row_of_def by (induction rows) (auto split: if_splits)

lemma row_of_update:
  assumes "\<And>r. r \<in> set rows \<Longrightarrow> p r \<Longrightarrow> key (f r) = key r"
  shows "row_of key k (map (\<lambda>r. if p r then f r else r) rows)
       = map_option (\<lambda>r. if p r then f r else r) (row_of key k rows)"
  using assms unfolding row_of_def by (induction rows) auto

lemma row_of_append:
  "row_of key k (rows @ [r])
   = (case row_of key k rows of Some x \<Rightarrow> Some x | None \<Rightarrow> if key r = k then Some r else None)"
  unfolding row_of_def by (induction rows) auto

lemma row_of_filter:
  assumes "pk_ok key rows"
  shows "row_of key k (filter p rows)
       = (case row_of key k rows of None \<Rightarrow> None | Some r \<Rightarrow> if p r then Some r else None)"
  using assms
proof (cases "row_of key k rows")
  case None
  then have "row_of key k (filter p rows) = None" by (auto simp: row_of_None_iff)
  with None show ?thesis by simp
next
  case (Some r)
  have pk: "pk_ok key (filter p rows)" using assms by (rule pk_ok_filter)
  have r: "r \<in> set rows" "key r = k" using Some row_of_SomeD by metis+
  have "row_of key k (filter p rows) = (if p r then Some r else None)"
  proof (cases "p r")
    case True
    with r show ?thesis by (simp add: row_of_Some_iff [OF pk])
  next
    case False
    have "x = r" if "x \<in> set rows" "key x = k" for x
      using distinct_map_key_unique [of key rows x r] assms that r by (simp add: pk_ok_def)
    with False show ?thesis by (auto simp: row_of_None_iff)
  qed
  with Some show ?thesis by simp
qed

text \<open>A statement keyed on one primary key touches at most one row.\<close>

lemma rowcount_le_1:
  assumes "pk_ok key rows" "\<And>r. r \<in> set rows \<Longrightarrow> p r \<Longrightarrow> key r = k"
  shows "length (filter p rows) \<le> 1"
  using length_filter_key_le_1 [of key rows p k] assms by (simp add: pk_ok_def)

lemma rowcount_1_iff:
  assumes "pk_ok key rows" "\<And>r. r \<in> set rows \<Longrightarrow> p r \<Longrightarrow> key r = k"
  shows "length (filter p rows) = 1 \<longleftrightarrow> (\<exists>r. row_of key k rows = Some r \<and> p r)"
proof
  assume "length (filter p rows) = 1"
  then obtain r where "r \<in> set rows" "p r"
    by (metis filter_empty_length zero_neq_one)
  then show "\<exists>r. row_of key k rows = Some r \<and> p r"
    using assms row_of_Some_iff by metis
next
  assume "\<exists>r. row_of key k rows = Some r \<and> p r"
  then obtain r where "r \<in> set rows" "p r" using row_of_SomeD by metis
  then have "length (filter p rows) \<noteq> 0" using filter_empty_length by metis
  moreover have "length (filter p rows) \<le> 1" using assms by (rule rowcount_le_1)
  ultimately show "length (filter p rows) = 1" by linarith
qed

lemma update_unchanged:
  assumes "length (filter p rows) = 0"
  shows "map (\<lambda>r. if p r then f r else r) rows = rows"
  using assms by (simp add: filter_empty_conv)

end
