(* ===== verification/Json_Text.thy ===== *)
theory Json_Text
  imports Odin_Prelude "HOL-Library.Char_ord" "HOL-Library.List_Lexorder"
begin

text \<open>
  The JSON text that Python's \<^verbatim>\<open>json.dumps(.., sort_keys=True)\<close> writes, for the values the
  program serialises before it hashes or signs them. Separators are arguments: the audit
  signer passes \<^verbatim>\<open>(",", ":")\<close>, the turn store keeps the defaults \<^verbatim>\<open>(", ", ": ")\<close>. A string
  is a list of characters below code point 256; \<^verbatim>\<open>ensure_ascii\<close> escapes everything outside
  the printable ASCII range. A finite float is the lexeme \<^verbatim>\<open>float.__repr__\<close> gives it.
\<close>

datatype json =
    JNull
  | JBool bool
  | JInt int
  | JFloat string
  | JStr string
  | JList "json list"
  | JObj "(string \<times> json) list"

fun join :: "string \<Rightarrow> string list \<Rightarrow> string" where
  "join sep [] = []"
| "join sep [x] = x"
| "join sep (x # y # ys) = x @ sep @ join sep (y # ys)"

definition digit_char :: "nat \<Rightarrow> char" where
  "digit_char n = char_of (48 + n)"

fun nat_text :: "nat \<Rightarrow> string" where
  "nat_text n = (if n < 10 then [digit_char n] else nat_text (n div 10) @ [digit_char (n mod 10)])"

declare nat_text.simps [simp del]

definition int_text :: "int \<Rightarrow> string" where
  "int_text i = (if i < 0 then CHR ''-'' # nat_text (nat (- i)) else nat_text (nat i))"

definition hex_char :: "nat \<Rightarrow> char" where
  "hex_char n = (if n < 10 then char_of (48 + n) else char_of (87 + n))"

definition escape_char :: "char \<Rightarrow> string" where
  "escape_char c =
     (if c = CHR 0x22 then [CHR 0x5C, CHR 0x22]
      else if c = CHR 0x5C then [CHR 0x5C, CHR 0x5C]
      else if c = CHR 0x0A then [CHR 0x5C, CHR ''n'']
      else if c = CHR 0x0D then [CHR 0x5C, CHR ''r'']
      else if c = CHR 0x09 then [CHR 0x5C, CHR ''t'']
      else if c = CHR 0x0C then [CHR 0x5C, CHR ''f'']
      else if c = CHR 0x08 then [CHR 0x5C, CHR ''b'']
      else if 32 \<le> (of_char c :: nat) \<and> (of_char c :: nat) \<le> 126 then [c]
      else [CHR 0x5C, CHR ''u'', CHR ''0'', CHR ''0'',
            hex_char ((of_char c :: nat) div 16), hex_char ((of_char c :: nat) mod 16)])"

text \<open>The printable range read off the bits of the character, for evaluation.\<close>

lemma char_printable_bits:
  "32 \<le> (of_char c :: nat) \<and> (of_char c :: nat) \<le> 126 \<longleftrightarrow> \<not> digit7 c \<and> (digit6 c \<or> digit5 c) \<and> c \<noteq> CHR 0x7F"
proof (cases c)
  case (Char b0 b1 b2 b3 b4 b5 b6 b7)
  have n: "(of_char c :: nat) = of_bool b0 + 2 * of_bool b1 + 4 * of_bool b2 + 8 * of_bool b3 + 16 * of_bool b4
     + 32 * of_bool b5 + 64 * of_bool b6 + 128 * of_bool b7"
    by (simp add: Char)
  show ?thesis unfolding n by (cases b0; cases b1; cases b2; cases b3; cases b4; cases b5; cases b6; cases b7; simp add: Char)
qed

lemma escape_char_code [code]:
  "escape_char c =
     (if c = CHR 0x22 then [CHR 0x5C, CHR 0x22]
      else if c = CHR 0x5C then [CHR 0x5C, CHR 0x5C]
      else if \<not> digit7 c \<and> (digit6 c \<or> digit5 c) \<and> c \<noteq> CHR 0x7F then [c]
      else if c = CHR 0x0A then [CHR 0x5C, CHR ''n'']
      else if c = CHR 0x0D then [CHR 0x5C, CHR ''r'']
      else if c = CHR 0x09 then [CHR 0x5C, CHR ''t'']
      else if c = CHR 0x0C then [CHR 0x5C, CHR ''f'']
      else if c = CHR 0x08 then [CHR 0x5C, CHR ''b'']
      else [CHR 0x5C, CHR ''u'', CHR ''0'', CHR ''0'',
            hex_char ((of_char c :: nat) div 16), hex_char ((of_char c :: nat) mod 16)])"
  by (auto simp: escape_char_def char_printable_bits)

definition quote_text :: "string \<Rightarrow> string" where
  "quote_text s = CHR 0x22 # concat (map escape_char s) @ [CHR 0x22]"

text \<open>\<^verbatim>\<open>len(text.encode("utf-8"))\<close> of characters below 256.\<close>

definition utf8_length :: "string \<Rightarrow> nat" where
  "utf8_length s = sum_list (map (\<lambda>c. if (of_char c :: nat) < 128 then 1 else 2) s)"

text \<open>\<^verbatim>\<open>needle in text\<close>\<close>

fun occurs_in :: "string \<Rightarrow> string \<Rightarrow> bool" where
  "occurs_in needle [] = (needle = [])"
| "occurs_in needle (c # text) = (take (length needle) (c # text) = needle \<or> occurs_in needle text)"

text \<open>\<^verbatim>\<open>sort_keys=True\<close>: the entries of every object in key order.\<close>

fun sort_keys :: "json \<Rightarrow> json" where
  "sort_keys (JList vs) = JList (map sort_keys vs)"
| "sort_keys (JObj kvs) = JObj (sort_key fst (map (\<lambda>p. (fst p, sort_keys (snd p))) kvs))"
| "sort_keys v = v"

fun json_print :: "string \<Rightarrow> string \<Rightarrow> json \<Rightarrow> string" where
  "json_print isep ksep JNull = ''null''"
| "json_print isep ksep (JBool b) = (if b then ''true'' else ''false'')"
| "json_print isep ksep (JInt i) = int_text i"
| "json_print isep ksep (JFloat lexeme) = lexeme"
| "json_print isep ksep (JStr s) = quote_text s"
| "json_print isep ksep (JList vs) = CHR ''['' # join isep (map (json_print isep ksep) vs) @ '']''"
| "json_print isep ksep (JObj kvs) =
     CHR ''{'' # join isep (map (\<lambda>p. quote_text (fst p) @ ksep @ json_print isep ksep (snd p)) kvs) @ ''}''"

definition dumps_sorted :: "string \<Rightarrow> string \<Rightarrow> json \<Rightarrow> string" where
  "dumps_sorted isep ksep v = json_print isep ksep (sort_keys v)"

section \<open>Objects as dictionaries\<close>

text \<open>
  A JSON object is a Python \<^verbatim>\<open>dict\<close>: an association list in insertion order. Assignment
  keeps the position of an existing key and appends a new one. The operations serve every
  string-keyed \<^verbatim>\<open>dict\<close>, whatever its values.
\<close>

type_synonym dict = "(string \<times> json) list"

definition jget :: "string \<Rightarrow> (string \<times> 'v) list \<Rightarrow> 'v option" where
  "jget k kvs = map_of kvs k"

definition jhas :: "string \<Rightarrow> (string \<times> 'v) list \<Rightarrow> bool" where
  "jhas k kvs \<longleftrightarrow> k \<in> fst ` set kvs"

definition jdel :: "string \<Rightarrow> (string \<times> 'v) list \<Rightarrow> (string \<times> 'v) list" where
  "jdel k kvs = filter (\<lambda>p. fst p \<noteq> k) kvs"

definition jset :: "string \<Rightarrow> 'v \<Rightarrow> (string \<times> 'v) list \<Rightarrow> (string \<times> 'v) list" where
  "jset k v kvs =
     (if jhas k kvs then map (\<lambda>p. if fst p = k then (k, v) else p) kvs else kvs @ [(k, v)])"

definition jkeys :: "(string \<times> 'v) list \<Rightarrow> string list" where
  "jkeys kvs = map fst kvs"

definition same_keys :: "string list \<Rightarrow> string list \<Rightarrow> bool" where
  "same_keys xs ys \<longleftrightarrow> set xs = set ys"

lemma jhas_iff: "jhas k kvs \<longleftrightarrow> jget k kvs \<noteq> None"
  by (simp add: jhas_def jget_def map_of_eq_None_iff)

lemma jget_Cons: "jget k ((k', v) # kvs) = (if k = k' then Some v else jget k kvs)"
  by (simp add: jget_def)

lemma jget_Nil [simp]: "jget k [] = None"
  by (simp add: jget_def)

lemma jget_jdel: "jget k (jdel k' kvs) = (if k = k' then None else jget k kvs)"
  by (induction kvs) (auto simp: jdel_def jget_def)

lemma jget_map_snd: "jget k (map (\<lambda>p. (fst p, f (snd p))) kvs) = map_option f (jget k kvs)"
  by (induction kvs) (auto simp: jget_def)

lemma jget_append: "jget k (xs @ ys) = (case jget k xs of None \<Rightarrow> jget k ys | Some v \<Rightarrow> Some v)"
  by (induction xs) (auto simp: jget_def split: if_splits)

lemma jget_update: "jget k (map (\<lambda>p. if fst p = k' then (k', v) else p) kvs)
   = (if k = k' then (if jhas k kvs then Some v else None) else jget k kvs)"
  by (induction kvs) (auto simp: jget_Cons jhas_iff)

lemma jget_jset: "jget k (jset k' v kvs) = (if k = k' then Some v else jget k kvs)"
  by (auto simp: jset_def jget_update jget_append jget_Cons jhas_iff split: option.split)

lemma jkeys_jset: "jkeys (jset k v kvs) = (if jhas k kvs then jkeys kvs else jkeys kvs @ [k])"
  by (auto simp: jset_def jkeys_def comp_def intro!: map_cong)

lemma jkeys_jdel: "jkeys (jdel k kvs) = filter (\<lambda>x. x \<noteq> k) (jkeys kvs)"
  by (induction kvs) (auto simp: jdel_def jkeys_def)

lemma jhas_jkeys: "jhas k kvs \<longleftrightarrow> k \<in> set (jkeys kvs)"
  by (simp add: jhas_def jkeys_def)

lemma jset_jset_same: "jset k v (jset k w kvs) = jset k v kvs"
proof (cases "jhas k kvs")
  case True
  then have h: "jhas k (map (\<lambda>p. if fst p = k then (k, w) else p) kvs)"
    by (simp add: jhas_iff jget_update)
  show ?thesis using True h by (auto simp: jset_def)
next
  case False
  then have h: "jhas k (kvs @ [(k, w)])" by (simp add: jhas_def)
  have "map (\<lambda>p. if fst p = k then (k, v) else p) kvs = kvs"
    using False by (intro map_idI) (auto simp: jhas_def)
  then show ?thesis using False h by (simp add: jset_def)
qed

text \<open>Two dictionaries with the same bindings are the same value: key order does not matter.\<close>

lemma sort_fst_eqI:
  assumes "distinct (map fst xs)" "distinct (map fst ys)" "map_of xs = map_of ys"
  shows "sort_key fst xs = sort_key fst ys"
proof -
  have "set xs = set ys" using assms by (metis map_of_eq_Some_iff subset_antisym subsetI surj_pair)
  then have "set (sort_key fst xs) = set (sort_key fst ys)" by simp
  moreover have "distinct (map fst (sort_key fst zs))" if "distinct (map fst zs)" for zs :: "('a::linorder \<times> 'b) list"
    using that by (simp add: distinct_map)
  ultimately show ?thesis
    using assms map_sorted_distinct_set_unique [of fst "sort_key fst xs" "sort_key fst ys"]
    by (simp add: distinct_map inj_on_def)
qed

section \<open>Type tests on values\<close>

definition exact_int :: "json \<Rightarrow> bool" where
  "exact_int v = (case v of JInt _ \<Rightarrow> True | _ \<Rightarrow> False)"

definition int_val :: "json \<Rightarrow> int" where
  "int_val v = (case v of JInt i \<Rightarrow> i | _ \<Rightarrow> 0)"

definition int_from :: "int \<Rightarrow> json \<Rightarrow> bool" where
  "int_from lo v \<longleftrightarrow> exact_int v \<and> lo \<le> int_val v"

definition is_bool :: "json \<Rightarrow> bool" where
  "is_bool v = (case v of JBool _ \<Rightarrow> True | _ \<Rightarrow> False)"

definition is_str :: "json \<Rightarrow> bool" where
  "is_str v = (case v of JStr _ \<Rightarrow> True | _ \<Rightarrow> False)"

definition is_dict :: "json \<Rightarrow> bool" where
  "is_dict v = (case v of JObj _ \<Rightarrow> True | _ \<Rightarrow> False)"

definition list_of :: "(json \<Rightarrow> bool) \<Rightarrow> json \<Rightarrow> bool" where
  "list_of p v = (case v of JList vs \<Rightarrow> list_all p vs | _ \<Rightarrow> False)"

definition items :: "json \<Rightarrow> json list" where
  "items v = (case v of JList vs \<Rightarrow> vs | _ \<Rightarrow> [])"

definition entries :: "json \<Rightarrow> dict" where
  "entries v = (case v of JObj kvs \<Rightarrow> kvs | _ \<Rightarrow> [])"

definition unhashable :: "json \<Rightarrow> bool" where
  "unhashable v = (case v of JList _ \<Rightarrow> True | JObj _ \<Rightarrow> True | _ \<Rightarrow> False)"

definition text_in :: "json \<Rightarrow> string" where
  "text_in v = (case v of JStr s \<Rightarrow> s | _ \<Rightarrow> [])"

text \<open>Python's truth of a value; the empty text is the only false string.\<close>

fun truthy :: "json \<Rightarrow> bool" where
  "truthy JNull = False"
| "truthy (JBool b) = b"
| "truthy (JInt i) = (i \<noteq> 0)"
| "truthy (JFloat x) = (x \<notin> {''0.0'', ''-0.0''})"
| "truthy (JStr s) = (s \<noteq> [])"
| "truthy (JList vs) = (vs \<noteq> [])"
| "truthy (JObj kvs) = (kvs \<noteq> [])"

definition fget :: "string \<Rightarrow> dict \<Rightarrow> json" where
  "fget k kvs = (case jget k kvs of Some v \<Rightarrow> v | None \<Rightarrow> JNull)"

text \<open>\<^verbatim>\<open>v == n\<close> for an integer \<open>n\<close>: \<^verbatim>\<open>True == 1\<close> and \<^verbatim>\<open>2.0 == 2\<close> hold in Python.\<close>

definition eq_int :: "json \<Rightarrow> int \<Rightarrow> bool" where
  "eq_int v n =
     (case v of JInt i \<Rightarrow> i = n | JBool b \<Rightarrow> n = (if b then 1 else 0)
      | JFloat x \<Rightarrow> x = int_text n @ ''.0'' | _ \<Rightarrow> False)"

definition is_space :: "char \<Rightarrow> bool" where
  "is_space c \<longleftrightarrow> (let n = (of_char c :: nat) in
     (9 \<le> n \<and> n \<le> 13) \<or> (28 \<le> n \<and> n \<le> 32) \<or> n = 133 \<or> n = 160)"

definition strip :: "string \<Rightarrow> string" where
  "strip s = rev (dropWhile is_space (rev (dropWhile is_space s)))"

lemma entries_JObj [simp]: "entries (JObj kvs) = kvs"
  by (simp add: entries_def)

lemma is_bool_iff: "is_bool v \<longleftrightarrow> (\<exists>b. v = JBool b)"
  by (simp add: is_bool_def split: json.splits)

lemma exact_int_iff: "exact_int v \<longleftrightarrow> v = JInt (int_val v)"
  by (auto simp: exact_int_def int_val_def split: json.splits)

lemma is_str_iff: "is_str v \<longleftrightarrow> v = JStr (text_in v)"
  by (auto simp: is_str_def text_in_def split: json.splits)

lemma text_in_JStr [simp]: "text_in (JStr s) = s"
  by (simp add: text_in_def)

lemma is_dict_iff: "is_dict v \<longleftrightarrow> (\<exists>kvs. v = JObj kvs)"
  by (simp add: is_dict_def split: json.splits)

section \<open>Sorted objects\<close>

definition sorted_entries :: "dict \<Rightarrow> dict" where
  "sorted_entries kvs = sort_key fst (map (\<lambda>p. (fst p, sort_keys (snd p))) kvs)"

lemma sort_keys_JObj: "sort_keys (JObj kvs) = JObj (sorted_entries kvs)"
  by (simp add: sorted_entries_def)

lemma jget_filter: "jget k kvs = (case filter (\<lambda>p. fst p = k) kvs of [] \<Rightarrow> None | p # _ \<Rightarrow> Some (snd p))"
  by (induction kvs) (auto simp: jget_def)

lemma jget_sorted: "jget k (sorted_entries kvs) = map_option sort_keys (jget k kvs)"
proof -
  have "jget k (sort_key fst xs) = jget k xs" for xs :: dict
    unfolding jget_filter sort_key_stable ..
  then show ?thesis by (simp add: sorted_entries_def jget_map_snd)
qed

lemma fget_sorted: "fget k (sorted_entries kvs) = sort_keys (fget k kvs)"
  by (simp add: fget_def jget_sorted split: option.split)

lemma set_jkeys_sorted: "set (jkeys (sorted_entries kvs)) = set (jkeys kvs)"
  by (simp add: jkeys_def sorted_entries_def image_image)

lemma jhas_sorted: "jhas k (sorted_entries kvs) = jhas k kvs"
  by (simp add: jhas_jkeys set_jkeys_sorted)

lemma sort_keys_scalar:
  "sort_keys v = JStr x \<longleftrightarrow> v = JStr x" "sort_keys v = JNull \<longleftrightarrow> v = JNull"
  by (cases v; simp add: sort_keys_JObj)+

lemma fget_jset: "fget k (jset k' v kvs) = (if k = k' then v else fget k kvs)"
  by (simp add: fget_def jget_jset)

lemma fget_jdel: "fget k (jdel k' kvs) = (if k = k' then JNull else fget k kvs)"
  by (simp add: fget_def jget_jdel)

end
