(* ===== verification/Effect_Classifier.thy ===== *)
theory Effect_Classifier
  imports Json_Text
begin

text \<open>
  \<^verbatim>\<open>src/tools/effect_classifier.py\<close>: the code-owned classification of whether a tool call can
  change external state. Everything outside the audited list, and every persisted value
  that is not exactly the effect-free constant, is effect-capable.
\<close>

datatype tool_effect_class = EFFECT_FREE_OBSERVATION | EXTERNAL_EFFECT_CAPABLE

definition effect_free_observation_tools :: "string list" where
  "effect_free_observation_tools = [''wait_for_agents'']"

definition classify_tool_effect :: "string \<Rightarrow> json \<Rightarrow> tool_effect_class" where
  "classify_tool_effect tool tool_input =
     (if tool \<in> set effect_free_observation_tools then EFFECT_FREE_OBSERVATION
      else EXTERNAL_EFFECT_CAPABLE)"

fun effect_class_text :: "tool_effect_class \<Rightarrow> string" where
  "effect_class_text EFFECT_FREE_OBSERVATION = ''EFFECT_FREE_OBSERVATION''"
| "effect_class_text EXTERNAL_EFFECT_CAPABLE = ''EXTERNAL_EFFECT_CAPABLE''"

definition normalize_effect_class :: "json \<Rightarrow> tool_effect_class" where
  "normalize_effect_class v =
     (if v = JStr (effect_class_text EFFECT_FREE_OBSERVATION) then EFFECT_FREE_OBSERVATION
      else EXTERNAL_EFFECT_CAPABLE)"

lemma normalize_text [simp]: "normalize_effect_class (JStr (effect_class_text c)) = c"
  by (cases c) (simp_all add: normalize_effect_class_def)

end
