(* ===== verification/Turn_Store.thy ===== *)
theory Turn_Store
  imports Sql_Table Effect_Classifier
begin

text \<open>
  \<^verbatim>\<open>src/turn_state/store.py\<close>: the durable turn store. Its two SQLite tables are lists of rows,
  every SQL statement is one operation of \<^verbatim>\<open>Sql_Table\<close> with the statement's own
  \<^verbatim>\<open>WHERE\<close> clause, and every method is one definition that returns the method's outcome
  (its exception or its value) and the store after it. What the method reads from outside
  is an argument: clock readings, the random generation and token, the SHA-256 function
  (\<open>sha\<close>), the JSON decoder (\<open>loads\<close>), and \<open>fault\<close>, which says that the statement raises
  \<^verbatim>\<open>sqlite3.Error\<close> (and then changes nothing).
\<close>

section \<open>Data\<close>

datatype turn_status =
    ACTIVE | SUSPENDED | TERMINAL_COMPLETED | TERMINAL_CANCELLED | TERMINAL_FAILED
  | TERMINAL_REJECTED | TERMINAL_EXPIRED

definition TERMINAL :: "turn_status list" where
  "TERMINAL = [TERMINAL_COMPLETED, TERMINAL_CANCELLED, TERMINAL_FAILED, TERMINAL_REJECTED,
               TERMINAL_EXPIRED]"

datatype op_state =
    PREPARED | RUNNING | APPLIED | DEFINITELY_FAILED | OUTCOME_UNKNOWN
  | RECONCILED_APPLIED | RECONCILED_NOT_APPLIED | MANUAL_RESOLUTION_REQUIRED

definition NEVER_EXPIRE :: "op_state list" where
  "NEVER_EXPIRE = [OUTCOME_UNKNOWN, MANUAL_RESOLUTION_REQUIRED]"

datatype store_error = TurnStateUnavailableError | StaleTurnError | LedgerIntentError | ValueError

record turn_key =
  source :: string
  channel_id :: string
  message_id :: string

record turn_lease =
  lease_key :: turn_key
  generation :: string
  token :: string
  lease_revision :: int

record turn_row =
  tkey :: turn_key
  turn_generation :: string
  revision :: int
  lease_token :: "string option"
  lease_expires_at :: "py_time option"
  status :: turn_status
  recovery_deadline_utc :: "py_time option"
  last_progress_at :: py_time
  created_at :: py_time
  suspended_at :: "py_time option"
  guild_id :: "string option"
  user_id :: "string option"
  content_digest :: "string option"
  code_version :: "string option"
  schema_version :: int
  prompt_policy_hash :: "string option"
  tool_catalog_hash :: "string option"
  session_snapshot :: "string option"
  payload :: "string option"
  payload_digest :: "string option"

record op_row =
  op_turn :: turn_key
  op_generation :: string
  generation_seq :: int
  tool_call_id :: string
  state :: op_state
  tool_name :: string
  effect_class :: tool_effect_class
  iteration :: "int option"
  fingerprint :: "string option"
  result :: "string option"
  op_created_at :: py_time
  updated_at :: py_time

type_synonym op_id = "turn_key \<times> string \<times> int \<times> string"

definition op_key :: "op_row \<Rightarrow> op_id" where
  "op_key r = (op_turn r, op_generation r, generation_seq r, tool_call_id r)"

record turn_store =
  conn :: bool
  lease_ttl :: py_time
  turns :: "turn_row list"
  operations :: "op_row list"
  blobs :: "string \<Rightarrow> bytes option"

text \<open>The validation columns \<^verbatim>\<open>admit_turn_sync\<close> stores beside the identity.\<close>

record admission =
  a_guild_id :: "string option"
  a_user_id :: "string option"
  a_content_digest :: "string option"
  a_code_version :: "string option"
  a_prompt_policy_hash :: "string option"
  a_tool_catalog_hash :: "string option"
  a_session_snapshot :: "json option"

datatype disposition = Admitted | Already_processed | In_progress | Resumable | Store_unavailable

text \<open>One tool-call intent; an absent or falsy entry of the dict is the empty text or \<open>JNull\<close>.\<close>

record intent =
  i_tool_call_id :: string
  i_tool_name :: string
  i_tool_input :: json
  i_effect_class :: json

definition SCHEMA_VERSION :: int where
  "SCHEMA_VERSION = 1"

definition encode_payload :: "json \<Rightarrow> string" where
  "encode_payload p = dumps_sorted '', '' '': '' p"

definition payload_digest_of :: "(string \<Rightarrow> string) \<Rightarrow> string \<Rightarrow> string" where
  "payload_digest_of sha payload_text = sha payload_text"

definition effect_fingerprint :: "(string \<Rightarrow> string) \<Rightarrow> string \<Rightarrow> json \<Rightarrow> string" where
  "effect_fingerprint sha tool tool_input =
     sha (dumps_sorted '', '' '': '' (JObj [(''tool'', JStr tool), (''input'', tool_input)]))"

section \<open>The fence\<close>

text \<open>\<^verbatim>\<open>lease_expires_at > ?\<close> is not true of NULL.\<close>

definition lease_live :: "py_time \<Rightarrow> turn_row \<Rightarrow> bool" where
  "lease_live now r = (case lease_expires_at r of None \<Rightarrow> False | Some e \<Rightarrow> e > now)"

definition turn_fence :: "turn_lease \<Rightarrow> py_time \<Rightarrow> turn_row \<Rightarrow> bool" where
  "turn_fence l now r \<longleftrightarrow>
     tkey r = lease_key l \<and> turn_generation r = generation l \<and> revision r = lease_revision l
     \<and> lease_token r = Some (token l) \<and> status r = ACTIVE \<and> lease_live now r"

definition fence_holds :: "turn_lease \<Rightarrow> py_time \<Rightarrow> turn_store \<Rightarrow> bool" where
  "fence_holds l now s \<longleftrightarrow> list_ex (turn_fence l now) (turns s)"

definition fenced_update ::
  "bool \<Rightarrow> py_time \<Rightarrow> turn_lease \<Rightarrow> (turn_row \<Rightarrow> turn_row) \<Rightarrow> bool \<Rightarrow> turn_store
   \<Rightarrow> (store_error + turn_lease) \<times> turn_store" where
  "fenced_update fault t_fence l set_sql bump_revision s =
     (if \<not> conn s then (Inl TurnStateUnavailableError, s)
      else if fault then (Inl TurnStateUnavailableError, s)
      else
        (let new_revision = (if bump_revision then lease_revision l + 1 else lease_revision l);
             (rows, rowcount) =
               sql_update (turn_fence l t_fence) (\<lambda>r. (set_sql r)\<lparr>revision := new_revision\<rparr>) (turns s);
             s' = s\<lparr>turns := rows\<rparr>
         in if rowcount = 1 then (Inr (l\<lparr>lease_revision := new_revision\<rparr>), s')
            else (Inl StaleTurnError, s')))"

definition op_where :: "turn_lease \<Rightarrow> op_row \<Rightarrow> bool" where
  "op_where l r \<longleftrightarrow> op_turn r = lease_key l \<and> op_generation r = generation l"

section \<open>Admission and lifecycle\<close>

definition in_flight :: "op_row \<Rightarrow> bool" where
  "in_flight r \<longleftrightarrow> state r \<in> {PREPARED, RUNNING}"

definition suspend_row :: "py_time \<Rightarrow> turn_row \<Rightarrow> turn_row" where
  "suspend_row now r =
     r\<lparr>status := SUSPENDED, suspended_at := Some now, lease_token := None, lease_expires_at := None\<rparr>"

definition classify_existing_row ::
  "turn_key \<Rightarrow> py_time \<Rightarrow> turn_store \<Rightarrow> disposition \<times> turn_store" where
  "classify_existing_row key now s =
     (case row_of tkey key (turns s) of
        None \<Rightarrow> (In_progress, s)
      | Some row \<Rightarrow>
          if status row \<in> set TERMINAL then (Already_processed, s)
          else if status row = SUSPENDED then (Resumable, s)
          else if lease_live now row then (In_progress, s)
          else
            (Resumable,
             s\<lparr>turns := fst (sql_update (\<lambda>r. tkey r = key \<and> status r = ACTIVE) (suspend_row now) (turns s)),
               operations := fst (sql_update (\<lambda>r. op_turn r = key \<and> in_flight r)
                  (\<lambda>r. r\<lparr>state := OUTCOME_UNKNOWN, updated_at := now\<rparr>) (operations s))\<rparr>))"

definition fresh_row ::
  "turn_store \<Rightarrow> string \<Rightarrow> string \<Rightarrow> py_time \<Rightarrow> turn_key \<Rightarrow> admission \<Rightarrow> turn_row" where
  "fresh_row s gen tok now key a =
     \<lparr>tkey = key, turn_generation = gen, revision = 0, lease_token = Some tok,
      lease_expires_at = Some (now + lease_ttl s), status = ACTIVE, recovery_deadline_utc = None,
      last_progress_at = now, created_at = now, suspended_at = None, guild_id = a_guild_id a,
      user_id = a_user_id a, content_digest = a_content_digest a, code_version = a_code_version a,
      schema_version = SCHEMA_VERSION, prompt_policy_hash = a_prompt_policy_hash a,
      tool_catalog_hash = a_tool_catalog_hash a,
      session_snapshot = Some (json_print '', '' '': ''
        (case a_session_snapshot a of None \<Rightarrow> JObj [] | Some j \<Rightarrow> j)),
      payload = None, payload_digest = None\<rparr>"

definition admit_turn_sync ::
  "bool \<Rightarrow> string \<Rightarrow> string \<Rightarrow> py_time \<Rightarrow> turn_key \<Rightarrow> admission \<Rightarrow> turn_store
   \<Rightarrow> (turn_lease option \<times> disposition) \<times> turn_store" where
  "admit_turn_sync fault gen tok now key a s =
     (if \<not> conn s then ((None, Store_unavailable), s)
      else if fault then ((None, Store_unavailable), s)
      else case sql_insert tkey (fresh_row s gen tok now key a) (turns s) of
          None \<Rightarrow> (let (d, s') = classify_existing_row key now s in ((None, d), s'))
        | Some rows \<Rightarrow>
            ((Some \<lparr>lease_key = key, generation = gen, token = tok, lease_revision = 0\<rparr>, Admitted),
             s\<lparr>turns := rows\<rparr>))"

text \<open>SQLite's two-argument \<^verbatim>\<open>MAX\<close> is NULL when an argument is NULL.\<close>

definition sql_max :: "py_time option \<Rightarrow> py_time \<Rightarrow> py_time option" where
  "sql_max a b = map_option (\<lambda>x. max x b) a"

definition checkpoint_sync ::
  "(string \<Rightarrow> string) \<Rightarrow> bool \<Rightarrow> py_time \<Rightarrow> py_time \<Rightarrow> py_time \<Rightarrow> turn_lease \<Rightarrow> json \<Rightarrow> bool
   \<Rightarrow> py_time option \<Rightarrow> turn_store \<Rightarrow> (store_error + turn_lease) \<times> turn_store" where
  "checkpoint_sync sha fault t_renew t_progress t_fence l pay progressed deadline s =
     (let payload_text = encode_payload pay in
      fenced_update fault t_fence l
        (\<lambda>r. let r1 = r\<lparr>payload := Some payload_text,
                        payload_digest := Some (payload_digest_of sha payload_text),
                        lease_expires_at := sql_max (lease_expires_at r) (t_renew + lease_ttl s)\<rparr>;
                 r2 = (if progressed then r1\<lparr>last_progress_at := t_progress\<rparr> else r1)
             in (case deadline of None \<Rightarrow> r2 | Some d \<Rightarrow> r2\<lparr>recovery_deadline_utc := Some d\<rparr>))
        True s)"

definition heartbeat_sync ::
  "bool \<Rightarrow> py_time \<Rightarrow> py_time \<Rightarrow> turn_lease \<Rightarrow> turn_store \<Rightarrow> (store_error + turn_lease) \<times> turn_store" where
  "heartbeat_sync fault t_renew t_fence l s =
     fenced_update fault t_fence l
       (\<lambda>r. r\<lparr>lease_expires_at := sql_max (lease_expires_at r) (t_renew + lease_ttl s)\<rparr>) False s"

definition suspend_sync ::
  "(string \<Rightarrow> string) \<Rightarrow> bool \<Rightarrow> py_time \<Rightarrow> py_time \<Rightarrow> turn_lease \<Rightarrow> json \<Rightarrow> turn_store
   \<Rightarrow> (store_error + turn_lease) \<times> turn_store" where
  "suspend_sync sha fault now t_fence l pay s =
     (let payload_text = encode_payload pay in
      fenced_update fault t_fence l
        (\<lambda>r. suspend_row now (r\<lparr>payload := Some payload_text,
                               payload_digest := Some (payload_digest_of sha payload_text)\<rparr>))
        True s)"

definition close_row :: "turn_status \<Rightarrow> turn_row \<Rightarrow> turn_row" where
  "close_row st r =
     r\<lparr>status := st, payload := None, payload_digest := None, lease_token := None,
       lease_expires_at := None\<rparr>"

definition finish_sync ::
  "bool \<Rightarrow> py_time \<Rightarrow> turn_lease \<Rightarrow> turn_status \<Rightarrow> turn_store
   \<Rightarrow> (store_error + turn_lease) \<times> turn_store" where
  "finish_sync fault t_fence l st s =
     (if st \<notin> set TERMINAL then (Inl ValueError, s)
      else fenced_update fault t_fence l (close_row st) True s)"

section \<open>The side-effect ledger\<close>

definition intent_row ::
  "(string \<Rightarrow> string) \<Rightarrow> turn_lease \<Rightarrow> int \<Rightarrow> int option \<Rightarrow> py_time \<Rightarrow> intent \<Rightarrow> op_row" where
  "intent_row sha l seq iter now i =
     \<lparr>op_turn = lease_key l, op_generation = generation l, generation_seq = seq,
      tool_call_id = i_tool_call_id i, state = PREPARED,
      tool_name = (if i_tool_name i = [] then ''unknown'' else i_tool_name i),
      effect_class = normalize_effect_class (i_effect_class i), iteration = iter,
      fingerprint = Some (effect_fingerprint sha (i_tool_name i)
        (if i_tool_input i = JNull then JObj [] else i_tool_input i)),
      result = None, op_created_at = now, updated_at = now\<rparr>"

text \<open>
  One \<^verbatim>\<open>INSERT .. SELECT .. WHERE\<close> fence per intent, each with its own clock reading: a lost
  fence inserts no row (\<^verbatim>\<open>rowcount\<close> 0), an existing primary key is an integrity error.
\<close>

fun insert_intents ::
  "(string \<Rightarrow> string) \<Rightarrow> turn_lease \<Rightarrow> int \<Rightarrow> int option \<Rightarrow> py_time \<Rightarrow> (intent \<times> py_time) list
   \<Rightarrow> turn_store \<Rightarrow> store_error + turn_store" where
  "insert_intents sha l seq iter now [] s = Inr s"
| "insert_intents sha l seq iter now ((i, t_fence) # rest) s =
     (if \<not> fence_holds l t_fence s then Inl StaleTurnError
      else case sql_insert op_key (intent_row sha l seq iter now i) (operations s) of
          None \<Rightarrow> Inl LedgerIntentError
        | Some rows \<Rightarrow> insert_intents sha l seq iter now rest (s\<lparr>operations := rows\<rparr>))"

definition record_intents_sync ::
  "(string \<Rightarrow> string) \<Rightarrow> bool \<Rightarrow> py_time \<Rightarrow> turn_lease \<Rightarrow> int \<Rightarrow> (intent \<times> py_time) list
   \<Rightarrow> int option \<Rightarrow> turn_store \<Rightarrow> (store_error + unit) \<times> turn_store" where
  "record_intents_sync sha fault now l seq intents iter s =
     (let ids = map (\<lambda>p. i_tool_call_id (fst p)) intents in
      if list_ex (\<lambda>i. i = []) ids then (Inl LedgerIntentError, s)
      else if \<not> distinct ids then (Inl LedgerIntentError, s)
      else if \<not> conn s then (Inl TurnStateUnavailableError, s)
      else if fault then (Inl TurnStateUnavailableError, s)
      else case insert_intents sha l seq iter now intents s of
          Inl e \<Rightarrow> (Inl e, s)  \<comment> \<open>\<^verbatim>\<open>conn.rollback()\<close>\<close>
        | Inr s' \<Rightarrow> (Inr (), s'))"

definition op_target :: "turn_lease \<Rightarrow> int \<Rightarrow> string \<Rightarrow> op_row \<Rightarrow> bool" where
  "op_target l seq tcid r \<longleftrightarrow> op_where l r \<and> generation_seq r = seq \<and> tool_call_id r = tcid"

definition set_op_state ::
  "bool \<Rightarrow> py_time \<Rightarrow> py_time \<Rightarrow> turn_lease \<Rightarrow> int \<Rightarrow> string \<Rightarrow> op_state \<Rightarrow> string option
   \<Rightarrow> op_state list \<Rightarrow> bool \<Rightarrow> turn_store \<Rightarrow> (store_error + unit) \<times> turn_store" where
  "set_op_state fault now t_fence l seq tcid st result_text legal_sources tolerate_missing s =
     (if \<not> conn s then (Inl TurnStateUnavailableError, s)
      else if fault then (Inl TurnStateUnavailableError, s)
      else
        (let (rows, rowcount) =
           sql_update
             (\<lambda>r. op_target l seq tcid r \<and> state r \<in> set legal_sources \<and> fence_holds l t_fence s)
             (\<lambda>r. case result_text of
                 None \<Rightarrow> r\<lparr>state := st, updated_at := now\<rparr>
               | Some t \<Rightarrow> r\<lparr>state := st, result := Some t, updated_at := now\<rparr>)
             (operations s);
             s' = s\<lparr>operations := rows\<rparr>
         in if rowcount \<noteq> 1 \<and> \<not> tolerate_missing then (Inl StaleTurnError, s') else (Inr (), s')))"

definition settled_state :: "op_row \<Rightarrow> op_state" where
  "settled_state r =
     (if effect_class r = EFFECT_FREE_OBSERVATION then DEFINITELY_FAILED else OUTCOME_UNKNOWN)"

definition settle_uncertain_op ::
  "bool \<Rightarrow> py_time \<Rightarrow> py_time \<Rightarrow> turn_lease \<Rightarrow> int \<Rightarrow> string \<Rightarrow> string option \<Rightarrow> bool
   \<Rightarrow> turn_store \<Rightarrow> (store_error + unit) \<times> turn_store" where
  "settle_uncertain_op fault now t_fence l seq tcid result_text tolerate_missing s =
     (if \<not> conn s then (Inl TurnStateUnavailableError, s)
      else if fault then (Inl TurnStateUnavailableError, s)
      else
        (let (rows, rowcount) =
           sql_update
             (\<lambda>r. op_target l seq tcid r \<and> in_flight r \<and> fence_holds l t_fence s)
             (\<lambda>r. r\<lparr>state := settled_state r, result := result_text, updated_at := now\<rparr>)
             (operations s);
             s' = s\<lparr>operations := rows\<rparr>
         in if rowcount \<noteq> 1 \<and> \<not> tolerate_missing then (Inl StaleTurnError, s') else (Inr (), s')))"

definition mark_running_sync ::
  "bool \<Rightarrow> py_time \<Rightarrow> py_time \<Rightarrow> turn_lease \<Rightarrow> int \<Rightarrow> string \<Rightarrow> turn_store
   \<Rightarrow> (store_error + unit) \<times> turn_store" where
  "mark_running_sync fault now t_fence l seq tcid s =
     set_op_state fault now t_fence l seq tcid RUNNING None [PREPARED] False s"

definition settle_op_sync ::
  "bool \<Rightarrow> py_time \<Rightarrow> py_time \<Rightarrow> turn_lease \<Rightarrow> int \<Rightarrow> string \<Rightarrow> op_state \<Rightarrow> string option
   \<Rightarrow> turn_store \<Rightarrow> (store_error + unit) \<times> turn_store" where
  "settle_op_sync fault now t_fence l seq tcid st result_text s =
     (if st \<notin> {APPLIED, DEFINITELY_FAILED, OUTCOME_UNKNOWN} then (Inl ValueError, s)
      else if st = OUTCOME_UNKNOWN then
        settle_uncertain_op fault now t_fence l seq tcid result_text False s
      else set_op_state fault now t_fence l seq tcid st result_text [PREPARED, RUNNING] False s)"

definition settle_interrupted_sync ::
  "bool \<Rightarrow> py_time \<Rightarrow> py_time \<Rightarrow> turn_lease \<Rightarrow> int \<Rightarrow> string \<Rightarrow> string option
   \<Rightarrow> turn_store \<Rightarrow> (store_error + unit) \<times> turn_store" where
  "settle_interrupted_sync fault now t_fence l seq tcid result_text s =
     settle_uncertain_op fault now t_fence l seq tcid result_text True s"

section \<open>Resume\<close>

record resumable =
  rs_generation :: string
  rs_revision :: int
  rs_payload :: json
  rs_guild_id :: "string option"
  rs_user_id :: "string option"
  rs_content_digest :: "string option"
  rs_code_version :: "string option"
  rs_schema_version :: int
  rs_prompt_policy_hash :: "string option"
  rs_tool_catalog_hash :: "string option"
  rs_session_snapshot :: json
  rs_recovery_deadline_utc :: "py_time option"
  rs_last_progress_at :: py_time
  rs_suspended_at :: "py_time option"
  rs_operations :: "(int \<times> string \<times> op_state \<times> string \<times> tool_effect_class \<times> string option) list"

definition reject_resumable_sync :: "bool \<Rightarrow> turn_key \<Rightarrow> turn_store \<Rightarrow> turn_store" where
  "reject_resumable_sync fault key s =
     (if \<not> conn s \<or> fault then s
      else s\<lparr>turns := fst (sql_update (\<lambda>r. tkey r = key \<and> status r = SUSPENDED)
              (close_row TERMINAL_REJECTED) (turns s))\<rparr>)"

text \<open>\<^verbatim>\<open>SELECT .. ORDER BY generation_seq, tool_call_id\<close>.\<close>

definition op_view :: "op_row \<Rightarrow> int \<times> string \<times> op_state \<times> string \<times> tool_effect_class \<times> string option" where
  "op_view r = (generation_seq r, tool_call_id r, state r, tool_name r, effect_class r, result r)"

definition ordered_ops :: "turn_key \<Rightarrow> string \<Rightarrow> op_row list \<Rightarrow> op_row list" where
  "ordered_ops key gen rows =
     sort_key generation_seq (sort_key tool_call_id
       (sql_select (\<lambda>r. op_turn r = key \<and> op_generation r = gen) rows))"

definition load_resumable_sync ::
  "(string \<Rightarrow> string) \<Rightarrow> (string \<Rightarrow> json option) \<Rightarrow> bool \<Rightarrow> turn_key \<Rightarrow> turn_store
   \<Rightarrow> resumable option \<times> turn_store" where
  "load_resumable_sync sha loads reject_fault key s =
     (if \<not> conn s then (None, s)
      else case find (\<lambda>r. tkey r = key \<and> status r = SUSPENDED) (turns s) of
          None \<Rightarrow> (None, s)
        | Some row \<Rightarrow>
            (case payload row of
               None \<Rightarrow> (None, s)
             | Some payload_text \<Rightarrow>
                 if payload_digest row \<noteq> Some (payload_digest_of sha payload_text)
                 then (None, reject_resumable_sync reject_fault key s)
                 else case (loads payload_text,
                            loads (case session_snapshot row of None \<Rightarrow> ''{}'' | Some t \<Rightarrow> if t = [] then ''{}'' else t)) of
                     (Some pay, Some snap) \<Rightarrow>
                       (Some \<lparr>rs_generation = turn_generation row, rs_revision = revision row,
                              rs_payload = pay, rs_guild_id = guild_id row, rs_user_id = user_id row,
                              rs_content_digest = content_digest row, rs_code_version = code_version row,
                              rs_schema_version = schema_version row,
                              rs_prompt_policy_hash = prompt_policy_hash row,
                              rs_tool_catalog_hash = tool_catalog_hash row,
                              rs_session_snapshot = snap,
                              rs_recovery_deadline_utc = recovery_deadline_utc row,
                              rs_last_progress_at = last_progress_at row,
                              rs_suspended_at = suspended_at row,
                              rs_operations = map op_view
                                (ordered_ops key (turn_generation row) (operations s))\<rparr>, s)
                   | _ \<Rightarrow> (None, reject_resumable_sync reject_fault key s)))"

definition acquire_resume_lease_sync ::
  "bool \<Rightarrow> string \<Rightarrow> py_time \<Rightarrow> turn_key \<Rightarrow> string \<Rightarrow> turn_store
   \<Rightarrow> (store_error + turn_lease option) \<times> turn_store" where
  "acquire_resume_lease_sync fault tok now key expected_generation s =
     (if \<not> conn s then (Inr None, s)
      else if fault then (Inl TurnStateUnavailableError, s)
      else
        (let (rows, rowcount) =
           sql_update (\<lambda>r. tkey r = key \<and> status r = SUSPENDED \<and> turn_generation r = expected_generation)
             (\<lambda>r. r\<lparr>status := ACTIVE, lease_token := Some tok,
                    lease_expires_at := Some (now + lease_ttl s)\<rparr>) (turns s);
             s' = s\<lparr>turns := rows\<rparr>
         in if rowcount \<noteq> 1 then (Inr None, s')
            else case row_of tkey key rows of
                None \<Rightarrow> (Inr None, s')
              | Some row \<Rightarrow>
                  (Inr (Some \<lparr>lease_key = key, generation = expected_generation, token = tok,
                              lease_revision = revision row\<rparr>), s')))"

definition mark_ops_manual_sync ::
  "bool \<Rightarrow> py_time \<Rightarrow> turn_key \<Rightarrow> string \<Rightarrow> turn_store \<Rightarrow> (store_error + nat) \<times> turn_store" where
  "mark_ops_manual_sync fault now key gen s =
     (if \<not> conn s then (Inl TurnStateUnavailableError, s)
      else if fault then (Inr 0, s)
      else
        (let (rows, rowcount) =
           sql_update
             (\<lambda>r. op_turn r = key \<and> op_generation r = gen \<and> state r = OUTCOME_UNKNOWN
                  \<and> effect_class r = EXTERNAL_EFFECT_CAPABLE)
             (\<lambda>r. r\<lparr>state := MANUAL_RESOLUTION_REQUIRED, updated_at := now\<rparr>) (operations s)
         in (Inr rowcount, s\<lparr>operations := rows\<rparr>)))"

definition release_acquired_sync ::
  "bool \<Rightarrow> turn_lease \<Rightarrow> string option \<Rightarrow> turn_store \<Rightarrow> (store_error + unit) \<times> turn_store" where
  "release_acquired_sync fault l terminal_reason s =
     (if \<not> conn s then (Inl TurnStateUnavailableError, s)
      else if fault then (Inr (), s)
      else
        (Inr (), s\<lparr>turns := fst (sql_update
           (\<lambda>r. tkey r = lease_key l \<and> turn_generation r = generation l
                \<and> lease_token r = Some (token l) \<and> status r = ACTIVE)
           (case terminal_reason of
              Some _ \<Rightarrow> close_row TERMINAL_REJECTED
            | None \<Rightarrow> (\<lambda>r. r\<lparr>status := SUSPENDED, lease_token := None, lease_expires_at := None\<rparr>))
           (turns s))\<rparr>))"

definition turn_status_sync :: "turn_key \<Rightarrow> turn_store \<Rightarrow> turn_status option" where
  "turn_status_sync key s =
     (if \<not> conn s then None else map_option status (row_of tkey key (turns s)))"

definition list_suspended_sync :: "string option \<Rightarrow> turn_store \<Rightarrow> turn_row list" where
  "list_suspended_sync src s =
     (if \<not> conn s then []
      else sql_select (\<lambda>r. status r = SUSPENDED
             \<and> (case src of None \<Rightarrow> True | Some x \<Rightarrow> x = [] \<or> source (tkey r) = x)) (turns s))"

section \<open>Sweeps\<close>

text \<open>The loop over the stale rows: settle the turn's in-flight operations, then suspend it.\<close>

fun sweep_rows :: "py_time \<Rightarrow> turn_row list \<Rightarrow> nat \<Rightarrow> turn_store \<Rightarrow> nat \<times> turn_store" where
  "sweep_rows now [] ops s = (ops, s)"
| "sweep_rows now (row # rest) ops s =
     (let (orows, rowcount) =
        sql_update (\<lambda>r. op_turn r = tkey row \<and> op_generation r = turn_generation row \<and> in_flight r)
          (\<lambda>r. r\<lparr>state := settled_state r, updated_at := now\<rparr>) (operations s);
          trows = fst (sql_update (\<lambda>r. tkey r = tkey row) (suspend_row now) (turns s))
      in sweep_rows now rest (ops + rowcount) (s\<lparr>operations := orows, turns := trows\<rparr>))"

definition is_stale :: "bool \<Rightarrow> py_time \<Rightarrow> turn_row \<Rightarrow> bool" where
  "is_stale only_expired now r \<longleftrightarrow>
     status r = ACTIVE
     \<and> (only_expired \<longrightarrow> (case lease_expires_at r of None \<Rightarrow> True | Some e \<Rightarrow> e < now))"

definition sweep_active_sync ::
  "bool \<Rightarrow> py_time \<Rightarrow> turn_store \<Rightarrow> (store_error + nat \<times> nat) \<times> turn_store" where
  "sweep_active_sync only_expired now s =
     (if \<not> conn s then (Inl TurnStateUnavailableError, s)
      else
        (let stale = sql_select (is_stale only_expired now) (turns s);
             (ops, s') = sweep_rows now stale 0 s
         in (Inr (length stale, ops), s')))"

definition sweep_expired_active_sync :: "bool \<Rightarrow> py_time \<Rightarrow> turn_store \<Rightarrow> (nat \<times> nat) option \<times> turn_store" where
  "sweep_expired_active_sync fault now s =
     (if \<not> conn s \<or> fault then (None, s)
      else case sweep_active_sync True now s of
          (Inl _, s') \<Rightarrow> (None, s')
        | (Inr c, s') \<Rightarrow> (Some c, s'))"

record ttl_report =
  expired_turns :: nat
  expired_turn_keys :: "turn_key list"
  compacted_payloads :: nat
  ledger_rows_deleted :: nat

definition ttl_sweep_sync ::
  "bool \<Rightarrow> py_time \<Rightarrow> py_time \<Rightarrow> py_time \<Rightarrow> py_time \<Rightarrow> turn_store \<Rightarrow> ttl_report option \<times> turn_store" where
  "ttl_sweep_sync fault now resume_ttl_hours payload_retention_days ledger_retention_days s =
     (if \<not> conn s then (None, s)
      else if fault then
        (Some \<lparr>expired_turns = 0, expired_turn_keys = [], compacted_payloads = 0, ledger_rows_deleted = 0\<rparr>, s)
      else
        (let expiring = (\<lambda>r. status r = SUSPENDED \<and> last_progress_at r < now - resume_ttl_hours * 3600);
             keys = map tkey (sql_select expiring (turns s));
             (t1, expired) = sql_update expiring (\<lambda>r. r\<lparr>status := TERMINAL_EXPIRED\<rparr>) (turns s);
             (t2, payloads) = sql_update
                (\<lambda>r. payload r \<noteq> None \<and> status r \<in> set TERMINAL
                     \<and> last_progress_at r < now - payload_retention_days * 86400)
                (\<lambda>r. r\<lparr>payload := None, payload_digest := None\<rparr>) t1;
             (o1, ledger) = sql_delete
                (\<lambda>r. state r \<notin> set NEVER_EXPIRE \<and> updated_at r < now - ledger_retention_days * 86400
                     \<and> list_ex (\<lambda>t. tkey t = op_turn r \<and> status t \<in> set TERMINAL) t2)
                (operations s)
         in (Some \<lparr>expired_turns = expired, expired_turn_keys = (if expired \<noteq> 0 then keys else []),
                  compacted_payloads = payloads, ledger_rows_deleted = ledger\<rparr>,
             s\<lparr>turns := t2, operations := o1\<rparr>)))"

section \<open>Opening the store\<close>

text \<open>
  \<^verbatim>\<open>_migrate_schema_sync\<close> runs on every open: it binds a digest to legacy payloads and
  reconciles the operations of audited observation tools.
\<close>

definition migrate_schema_sync :: "(string \<Rightarrow> string) \<Rightarrow> py_time \<Rightarrow> turn_store \<Rightarrow> nat \<times> turn_store" where
  "migrate_schema_sync sha now s =
     (let t1 = fst (sql_update (\<lambda>r. payload r \<noteq> None \<and> payload_digest r = None)
                (\<lambda>r. r\<lparr>payload_digest := map_option (payload_digest_of sha) (payload r)\<rparr>) (turns s));
          observes = (\<lambda>r. tool_name r \<in> set effect_free_observation_tools);
          (o1, reconciled) = sql_update (\<lambda>r. observes r \<and> state r = OUTCOME_UNKNOWN)
             (\<lambda>r. r\<lparr>effect_class := EFFECT_FREE_OBSERVATION, state := RECONCILED_NOT_APPLIED,
                    updated_at := now\<rparr>) (operations s);
          o2 = fst (sql_update (\<lambda>r. observes r \<and> effect_class r \<noteq> EFFECT_FREE_OBSERVATION)
             (\<lambda>r. r\<lparr>effect_class := EFFECT_FREE_OBSERVATION\<rparr>) o1)
      in (reconciled, s\<lparr>turns := t1, operations := o2\<rparr>))"

text \<open>\<^verbatim>\<open>__init__\<close>: migrate, connect, sweep every ACTIVE turn; a failure leaves no connection.\<close>

definition open_store :: "(string \<Rightarrow> string) \<Rightarrow> bool \<Rightarrow> py_time \<Rightarrow> py_time \<Rightarrow> turn_store \<Rightarrow> turn_store" where
  "open_store sha fault now t_sweep s =
     (if fault then s\<lparr>conn := False\<rparr>
      else snd (sweep_active_sync False t_sweep ((snd (migrate_schema_sync sha now s))\<lparr>conn := True\<rparr>)))"

definition close_store :: "turn_store \<Rightarrow> turn_store" where
  "close_store s = s\<lparr>conn := False\<rparr>"

section \<open>Blobs\<close>

definition store_blob_sync ::
  "(string \<Rightarrow> string) \<Rightarrow> bool \<Rightarrow> bytes \<Rightarrow> turn_store \<Rightarrow> (store_error + string) \<times> turn_store" where
  "store_blob_sync sha fault data s =
     (let digest = sha data in
      case blobs s digest of
        Some _ \<Rightarrow> (Inr (''blob:'' @ digest), s)
      | None \<Rightarrow>
          if fault then (Inl TurnStateUnavailableError, s)
          else (Inr (''blob:'' @ digest), s\<lparr>blobs := (blobs s)(digest := Some data)\<rparr>))"

definition load_blob_sync ::
  "(string \<Rightarrow> string) \<Rightarrow> string \<Rightarrow> turn_store \<Rightarrow> store_error + bytes" where
  "load_blob_sync sha ref s =
     (let digest = (if take 5 ref = ''blob:'' then drop 5 ref else ref) in
      case blobs s digest of
        None \<Rightarrow> Inl TurnStateUnavailableError
      | Some data \<Rightarrow> if sha data \<noteq> digest then Inl TurnStateUnavailableError else Inr data)"

end
