(* ===== verification/Turn_Store_Spec.thy ===== *)
theory Turn_Store_Spec
  imports Turn_Store
begin

text \<open>
  What the turn store promises, and that the methods of \<^verbatim>\<open>Turn_Store\<close> keep it. The
  abstract system \<open>durable_step\<close> allows six kinds of change to the database (evolve a turn
  row, insert a fresh turn, evolve an operation, insert a PREPARED operation under an
  ACTIVE turn, drop an expired operation of a terminal turn, and changes of the
  connection and of the blob directory). Every method, with arbitrary arguments, clock readings
  and faults, is a run of it (\<open>store_step_durable\<close>), so facts about runs of
  the store are proved over six rules.
\<close>

section \<open>The abstract system\<close>

definition row_ok :: "(string \<Rightarrow> string) \<Rightarrow> turn_row \<Rightarrow> bool" where
  "row_ok sha r \<longleftrightarrow>
     (status r = ACTIVE \<longleftrightarrow> lease_token r \<noteq> None)
     \<and> (lease_token r = None \<longleftrightarrow> lease_expires_at r = None)
     \<and> payload_digest r = map_option (payload_digest_of sha) (payload r)
     \<and> (status r \<in> set TERMINAL \<and> status r \<noteq> TERMINAL_EXPIRED \<longrightarrow> payload r = None)"

definition op_ok :: "turn_row list \<Rightarrow> op_row \<Rightarrow> bool" where
  "op_ok trows r \<longleftrightarrow>
     tool_call_id r \<noteq> []
     \<and> list_ex (\<lambda>t. tkey t = op_turn r \<and> turn_generation t = op_generation r) trows"

definition store_inv :: "(string \<Rightarrow> string) \<Rightarrow> turn_store \<Rightarrow> bool" where
  "store_inv sha s \<longleftrightarrow>
     pk_ok tkey (turns s) \<and> pk_ok op_key (operations s)
     \<and> list_all (row_ok sha) (turns s) \<and> list_all (op_ok (turns s)) (operations s)
     \<and> (\<forall>d x. blobs s d = Some x \<longrightarrow> sha x = d)"

definition turn_evolves :: "(string \<Rightarrow> string) \<Rightarrow> turn_row \<Rightarrow> turn_row \<Rightarrow> bool" where
  "turn_evolves sha r r' \<longleftrightarrow>
     tkey r' = tkey r \<and> turn_generation r' = turn_generation r \<and> created_at r' = created_at r
     \<and> user_id r' = user_id r \<and> content_digest r' = content_digest r
     \<and> revision r \<le> revision r'
     \<and> (status r \<in> set TERMINAL \<longrightarrow> status r' = status r)
     \<and> (row_ok sha r \<longrightarrow> row_ok sha r')"

fun op_may_become :: "op_state \<Rightarrow> op_state \<Rightarrow> bool" where
  "op_may_become PREPARED st = (st \<in> {PREPARED, RUNNING, APPLIED, DEFINITELY_FAILED, OUTCOME_UNKNOWN})"
| "op_may_become RUNNING st = (st \<in> {RUNNING, APPLIED, DEFINITELY_FAILED, OUTCOME_UNKNOWN})"
| "op_may_become OUTCOME_UNKNOWN st =
     (st \<in> {OUTCOME_UNKNOWN, MANUAL_RESOLUTION_REQUIRED, RECONCILED_NOT_APPLIED})"
| "op_may_become x st = (st = x)"

definition op_evolves :: "op_row \<Rightarrow> op_row \<Rightarrow> bool" where
  "op_evolves r r' \<longleftrightarrow>
     op_key r' = op_key r \<and> tool_name r' = tool_name r \<and> fingerprint r' = fingerprint r
     \<and> op_may_become (state r) (state r')
     \<and> (state r = OUTCOME_UNKNOWN \<and> state r' = RECONCILED_NOT_APPLIED
        \<longrightarrow> tool_name r \<in> set effect_free_observation_tools)"

inductive durable_step :: "(string \<Rightarrow> string) \<Rightarrow> turn_store \<Rightarrow> turn_store \<Rightarrow> bool"
  for sha :: "string \<Rightarrow> string" where
  turn_update:
    "(\<And>r. r \<in> set (turns s) \<Longrightarrow> p r \<Longrightarrow> row_ok sha r \<Longrightarrow> turn_evolves sha r (f r)) \<Longrightarrow>
     durable_step sha s (s\<lparr>turns := map (\<lambda>r. if p r then f r else r) (turns s)\<rparr>)"
| turn_insert:
    "tkey r \<notin> tkey ` set (turns s) \<Longrightarrow> row_ok sha r \<Longrightarrow>
     durable_step sha s (s\<lparr>turns := turns s @ [r]\<rparr>)"
| op_update:
    "(\<And>r. r \<in> set (operations s) \<Longrightarrow> p r \<Longrightarrow> op_evolves r (f r)) \<Longrightarrow>
     durable_step sha s (s\<lparr>operations := map (\<lambda>r. if p r then f r else r) (operations s)\<rparr>)"
| op_insert:
    "op_key r \<notin> op_key ` set (operations s) \<Longrightarrow> state r = PREPARED \<Longrightarrow> tool_call_id r \<noteq> [] \<Longrightarrow>
     t \<in> set (turns s) \<Longrightarrow> tkey t = op_turn r \<Longrightarrow> turn_generation t = op_generation r \<Longrightarrow>
     status t = ACTIVE \<Longrightarrow>
     durable_step sha s (s\<lparr>operations := operations s @ [r]\<rparr>)"
| op_delete:
    "(\<And>r. r \<in> set (operations s) \<Longrightarrow> p r \<Longrightarrow>
        state r \<notin> set NEVER_EXPIRE \<and> (\<exists>t\<in>set (turns s). tkey t = op_turn r \<and> status t \<in> set TERMINAL)) \<Longrightarrow>
     durable_step sha s (s\<lparr>operations := filter (\<lambda>r. \<not> p r) (operations s)\<rparr>)"
| conn_change: "durable_step sha s (s\<lparr>conn := b\<rparr>)"
| blob_insert:
    "blobs s (sha d) = None \<Longrightarrow> durable_step sha s (s\<lparr>blobs := (blobs s)(sha d := Some d)\<rparr>)"

lemma turn_evolves_refl: "turn_evolves sha r r"
  by (simp add: turn_evolves_def)

lemma op_may_become_refl [simp]: "op_may_become st st"
  by (cases st) auto

lemma op_evolves_refl: "op_evolves r r"
  by (auto simp: op_evolves_def)

lemma op_ok_turns_cong:
  assumes "map (\<lambda>t. (tkey t, turn_generation t)) trows = map (\<lambda>t. (tkey t, turn_generation t)) trows'"
  shows "op_ok trows r = op_ok trows' r"
proof -
  have ex: "list_ex (\<lambda>t. tkey t = k \<and> turn_generation t = g) ts
        = ((k, g) \<in> set (map (\<lambda>t. (tkey t, turn_generation t)) ts))" for k g and ts :: "turn_row list"
    by (induction ts) auto
  show ?thesis unfolding op_ok_def ex assms ..
qed

lemma op_key_fields:
  "op_key r' = op_key r \<Longrightarrow> op_turn r' = op_turn r \<and> op_generation r' = op_generation r
     \<and> tool_call_id r' = tool_call_id r \<and> generation_seq r' = generation_seq r"
  by (simp add: op_key_def)

section \<open>The invariant\<close>

lemma durable_step_inv: "durable_step sha s t \<Longrightarrow> store_inv sha s \<Longrightarrow> store_inv sha t"
proof (induction rule: durable_step.induct)
  case (turn_update s p f)
  let ?g = "\<lambda>r. if p r then f r else r"
  have ev: "turn_evolves sha r (?g r)" if "r \<in> set (turns s)" for r
    using turn_update that by (auto simp: store_inv_def list_all_iff turn_evolves_refl)
  have same: "map (\<lambda>t. (tkey t, turn_generation t)) (map ?g (turns s))
            = map (\<lambda>t. (tkey t, turn_generation t)) (turns s)"
    using ev by (auto simp: turn_evolves_def)
  have "pk_ok tkey (map ?g (turns s))"
    using ev turn_update.prems by (intro pk_ok_map) (simp_all add: turn_evolves_def store_inv_def)
  moreover have "list_all (row_ok sha) (map ?g (turns s))"
    using ev turn_update.prems unfolding store_inv_def list_all_iff by (fastforce simp: turn_evolves_def)
  moreover have "list_all (op_ok (map ?g (turns s))) (operations s)"
    using turn_update.prems op_ok_turns_cong [OF same] unfolding store_inv_def list_all_iff by simp
  ultimately show ?case using turn_update.prems by (simp add: store_inv_def)
next
  case (turn_insert r s)
  then show ?case by (auto simp: store_inv_def pk_ok_def op_ok_def list_all_iff)
next
  case (op_update s p f)
  have ev: "op_evolves r (if p r then f r else r)" if "r \<in> set (operations s)" for r
    using op_update that by (simp add: op_evolves_refl)
  have "pk_ok op_key (map (\<lambda>r. if p r then f r else r) (operations s))"
    using ev op_update.prems by (intro pk_ok_map) (simp_all add: op_evolves_def store_inv_def)
  moreover have "list_all (op_ok (turns s)) (map (\<lambda>r. if p r then f r else r) (operations s))"
  proof -
    have "op_ok (turns s) (if p r then f r else r)" if "r \<in> set (operations s)" for r
      using ev [OF that] op_key_fields [of "if p r then f r else r" r] op_update.prems that
      by (auto simp: store_inv_def list_all_iff op_ok_def op_evolves_def)
    then show ?thesis by (rule list_all_mapI)
  qed
  ultimately show ?case using op_update.prems by (simp add: store_inv_def)
next
  case (op_insert r s t)
  then show ?case by (auto simp: store_inv_def pk_ok_def op_ok_def list_all_iff list_ex_iff)
next
  case (op_delete s p)
  then show ?case by (auto simp: store_inv_def list_all_iff intro: pk_ok_filter)
next
  case (conn_change s b)
  then show ?case by (simp add: store_inv_def)
next
  case (blob_insert s d)
  then show ?case by (auto simp: store_inv_def)
qed

interpretation durable: step_invariant "durable_step sha" "store_inv sha" for sha
  by unfold_locales (rule durable_step_inv)

section \<open>Every method is a run of the abstract system\<close>

lemmas evolve_simps = turn_evolves_def row_ok_def TERMINAL_def suspend_row_def close_row_def
  sql_max_def lease_live_def turn_fence_def

lemma durable_turns:
  assumes "\<And>r. r \<in> set (turns s) \<Longrightarrow> p r \<Longrightarrow> row_ok sha r \<Longrightarrow> turn_evolves sha r (f r)"
  shows "(durable_step sha)\<^sup>*\<^sup>* s (s\<lparr>turns := map (\<lambda>r. if p r then f r else r) (turns s)\<rparr>)"
  using assms by (intro r_into_rtranclp durable_step.turn_update)

lemma durable_ops:
  assumes "\<And>r. r \<in> set (operations s) \<Longrightarrow> p r \<Longrightarrow> op_evolves r (f r)"
  shows "(durable_step sha)\<^sup>*\<^sup>* s (s\<lparr>operations := map (\<lambda>r. if p r then f r else r) (operations s)\<rparr>)"
  using assms by (intro r_into_rtranclp durable_step.op_update)

lemma durable_conn: "(durable_step sha)\<^sup>*\<^sup>* s (s\<lparr>conn := b\<rparr>)"
  by (intro r_into_rtranclp durable_step.conn_change)

lemma fenced_update_durable:
  assumes "\<And>r. turn_fence l t r \<Longrightarrow> row_ok sha r \<Longrightarrow>
     turn_evolves sha r ((f r)\<lparr>revision := (if bump then lease_revision l + 1 else lease_revision l)\<rparr>)"
  shows "(durable_step sha)\<^sup>*\<^sup>* s (snd (fenced_update fault t l f bump s))"
proof -
  have "(durable_step sha)\<^sup>*\<^sup>* s (s\<lparr>turns := map (\<lambda>r. if turn_fence l t r
      then (f r)\<lparr>revision := (if bump then lease_revision l + 1 else lease_revision l)\<rparr> else r) (turns s)\<rparr>)"
    using assms by (intro durable_turns) auto
  then show ?thesis by (simp add: fenced_update_def sql_update_def Let_def split: prod.split)
qed

lemma admit_durable: "(durable_step sha)\<^sup>*\<^sup>* s (snd (admit_turn_sync fault gen tok now key a s))"
proof -
  have fresh: "row_ok sha (fresh_row s gen tok now key a)"
    by (simp add: fresh_row_def row_ok_def TERMINAL_def)
  have cls: "(durable_step sha)\<^sup>*\<^sup>* s (snd (classify_existing_row key now s))"
  proof -
    let ?s1 = "s\<lparr>turns := map (\<lambda>r. if tkey r = key \<and> status r = ACTIVE then suspend_row now r else r) (turns s)\<rparr>"
    have "(durable_step sha)\<^sup>*\<^sup>* s ?s1"
      by (intro durable_turns) (auto simp: evolve_simps)
    moreover have "(durable_step sha)\<^sup>*\<^sup>* ?s1 (?s1\<lparr>operations := map (\<lambda>r. if op_turn r = key \<and> in_flight r
        then r\<lparr>state := OUTCOME_UNKNOWN, updated_at := now\<rparr> else r) (operations ?s1)\<rparr>)"
      by (intro durable_ops) (auto simp: op_evolves_def op_key_def in_flight_def)
    ultimately show ?thesis
      by (auto simp: classify_existing_row_def split: option.split)
  qed
  show ?thesis
    using cls durable_step.turn_insert [of "fresh_row s gen tok now key a" s sha] fresh
    by (auto simp: admit_turn_sync_def sql_insert_def fresh_row_def split: option.split prod.split if_splits)
qed

lemma checkpoint_durable:
  "(durable_step sha)\<^sup>*\<^sup>* s (snd (checkpoint_sync sha fault tr tp tf l pay progressed dl s))"
  unfolding checkpoint_sync_def Let_def
  by (intro fenced_update_durable) (auto simp: evolve_simps split: option.split if_splits)

lemma heartbeat_durable: "(durable_step sha)\<^sup>*\<^sup>* s (snd (heartbeat_sync fault tr tf l s))"
  unfolding heartbeat_sync_def
  by (intro fenced_update_durable) (auto simp: evolve_simps split: option.split)

lemma suspend_durable: "(durable_step sha)\<^sup>*\<^sup>* s (snd (suspend_sync sha fault now tf l pay s))"
  unfolding suspend_sync_def Let_def
  by (intro fenced_update_durable) (auto simp: evolve_simps)

lemma finish_durable: "(durable_step sha)\<^sup>*\<^sup>* s (snd (finish_sync fault tf l st s))"
proof (cases "st \<in> set TERMINAL")
  case True
  then have "(durable_step sha)\<^sup>*\<^sup>* s (snd (fenced_update fault tf l (close_row st) True s))"
    by (intro fenced_update_durable) (auto simp: evolve_simps)
  with True show ?thesis by (simp add: finish_sync_def)
next
  case False
  then show ?thesis by (simp add: finish_sync_def)
qed

lemma insert_intents_durable:
  "insert_intents sha l seq iter now intents s = Inr t \<Longrightarrow>
   (\<And>i. i \<in> set intents \<Longrightarrow> i_tool_call_id (fst i) \<noteq> []) \<Longrightarrow> (durable_step sha)\<^sup>*\<^sup>* s t"
proof (induction sha l seq iter now intents s rule: insert_intents.induct)
  case (1 sha l seq iter now s)
  then show ?case by simp
next
  case (2 sha l seq iter now i tf rest s)
  let ?r = "intent_row sha l seq iter now i"
  obtain tr where tr: "tr \<in> set (turns s)" "turn_fence l tf tr"
    using 2 by (auto simp: fence_holds_def list_ex_iff split: if_splits)
  obtain rows where rows: "sql_insert op_key ?r (operations s) = Some rows"
    using 2 by (auto split: if_splits option.splits)
  have new: "rows = operations s @ [?r]" "op_key ?r \<notin> op_key ` set (operations s)"
    using rows by (auto simp: sql_insert_def split: if_splits)
  have "durable_step sha s (s\<lparr>operations := operations s @ [?r]\<rparr>)"
    using tr new 2(3) [of "(i, tf)"]
    by (intro durable_step.op_insert [where t = tr]) (auto simp: turn_fence_def intent_row_def)
  moreover have "(durable_step sha)\<^sup>*\<^sup>* (s\<lparr>operations := rows\<rparr>) t"
    using 2 rows by (auto split: if_splits)
  ultimately show ?case using new(1) by simp
qed

lemma record_intents_durable:
  "(durable_step sha)\<^sup>*\<^sup>* s (snd (record_intents_sync sha fault now l seq intents iter s))"
proof (cases "insert_intents sha l seq iter now intents s")
  case (Inl e)
  then show ?thesis by (simp add: record_intents_sync_def Let_def)
next
  case (Inr t)
  show ?thesis
  proof (cases "\<exists>i\<in>set intents. i_tool_call_id (fst i) = []")
    case True
    then have "list_ex (\<lambda>i. i = []) (map (\<lambda>p. i_tool_call_id (fst p)) intents)"
      unfolding list_ex_iff by force
    then show ?thesis by (simp add: record_intents_sync_def Let_def)
  next
    case False
    then have "(durable_step sha)\<^sup>*\<^sup>* s t" using Inr by (intro insert_intents_durable) auto
    with Inr show ?thesis by (simp add: record_intents_sync_def Let_def)
  qed
qed

lemma set_op_state_durable:
  assumes "\<And>x. x \<in> set legal \<Longrightarrow> x \<noteq> OUTCOME_UNKNOWN \<and> op_may_become x st"
  shows "(durable_step sha)\<^sup>*\<^sup>* s (snd (set_op_state fault now tf l seq tcid st rt legal tol s))"
proof -
  have "(durable_step sha)\<^sup>*\<^sup>* s (s\<lparr>operations := map (\<lambda>r.
      if op_target l seq tcid r \<and> state r \<in> set legal \<and> fence_holds l tf s
      then (case rt of None \<Rightarrow> r\<lparr>state := st, updated_at := now\<rparr>
            | Some t \<Rightarrow> r\<lparr>state := st, result := Some t, updated_at := now\<rparr>) else r) (operations s)\<rparr>)"
    using assms by (intro durable_ops) (auto simp: op_evolves_def op_key_def split: option.split)
  then show ?thesis by (simp add: set_op_state_def sql_update_def Let_def)
qed

lemma settle_uncertain_durable:
  "(durable_step sha)\<^sup>*\<^sup>* s (snd (settle_uncertain_op fault now tf l seq tcid rt tol s))"
proof -
  have "(durable_step sha)\<^sup>*\<^sup>* s (s\<lparr>operations := map (\<lambda>r.
      if op_target l seq tcid r \<and> in_flight r \<and> fence_holds l tf s
      then r\<lparr>state := settled_state r, result := rt, updated_at := now\<rparr> else r) (operations s)\<rparr>)"
    by (intro durable_ops) (auto simp: op_evolves_def op_key_def in_flight_def settled_state_def)
  then show ?thesis by (simp add: settle_uncertain_op_def sql_update_def Let_def)
qed

lemma mark_running_durable: "(durable_step sha)\<^sup>*\<^sup>* s (snd (mark_running_sync fault now tf l seq tcid s))"
  unfolding mark_running_sync_def by (rule set_op_state_durable) simp

lemma settle_op_durable: "(durable_step sha)\<^sup>*\<^sup>* s (snd (settle_op_sync fault now tf l seq tcid st rt s))"
  unfolding settle_op_sync_def
  by (auto intro!: set_op_state_durable settle_uncertain_durable)

lemma settle_interrupted_durable:
  "(durable_step sha)\<^sup>*\<^sup>* s (snd (settle_interrupted_sync fault now tf l seq tcid rt s))"
  unfolding settle_interrupted_sync_def by (rule settle_uncertain_durable)

lemma reject_durable: "(durable_step sha)\<^sup>*\<^sup>* s (reject_resumable_sync fault key s)"
proof -
  have "(durable_step sha)\<^sup>*\<^sup>* s (s\<lparr>turns := map (\<lambda>r. if tkey r = key \<and> status r = SUSPENDED
      then close_row TERMINAL_REJECTED r else r) (turns s)\<rparr>)"
    by (intro durable_turns) (auto simp: evolve_simps)
  then show ?thesis by (simp add: reject_resumable_sync_def)
qed

lemma load_resumable_durable: "(durable_step sha)\<^sup>*\<^sup>* s (snd (load_resumable_sync sha' loads rf key s))"
  by (auto simp: load_resumable_sync_def reject_durable split: option.split)

lemma acquire_durable: "(durable_step sha)\<^sup>*\<^sup>* s (snd (acquire_resume_lease_sync fault tok now key gen s))"
proof -
  have "(durable_step sha)\<^sup>*\<^sup>* s (s\<lparr>turns := map (\<lambda>r.
      if tkey r = key \<and> status r = SUSPENDED \<and> turn_generation r = gen
      then r\<lparr>status := ACTIVE, lease_token := Some tok, lease_expires_at := Some (now + lease_ttl s)\<rparr>
      else r) (turns s)\<rparr>)"
    by (intro durable_turns) (auto simp: evolve_simps)
  then show ?thesis
    by (auto simp: acquire_resume_lease_sync_def sql_update_def Let_def split: option.split)
qed

lemma mark_manual_durable: "(durable_step sha)\<^sup>*\<^sup>* s (snd (mark_ops_manual_sync fault now key gen s))"
proof -
  have "(durable_step sha)\<^sup>*\<^sup>* s (s\<lparr>operations := map (\<lambda>r.
      if op_turn r = key \<and> op_generation r = gen \<and> state r = OUTCOME_UNKNOWN
         \<and> effect_class r = EXTERNAL_EFFECT_CAPABLE
      then r\<lparr>state := MANUAL_RESOLUTION_REQUIRED, updated_at := now\<rparr> else r) (operations s)\<rparr>)"
    by (intro durable_ops) (auto simp: op_evolves_def op_key_def)
  then show ?thesis by (simp add: mark_ops_manual_sync_def sql_update_def)
qed

lemma release_durable: "(durable_step sha)\<^sup>*\<^sup>* s (snd (release_acquired_sync fault l reason s))"
proof -
  let ?f = "case reason of Some _ \<Rightarrow> close_row TERMINAL_REJECTED
            | None \<Rightarrow> (\<lambda>r. r\<lparr>status := SUSPENDED, lease_token := None, lease_expires_at := None\<rparr>)"
  have "(durable_step sha)\<^sup>*\<^sup>* s (s\<lparr>turns := map (\<lambda>r.
      if tkey r = lease_key l \<and> turn_generation r = generation l
         \<and> lease_token r = Some (token l) \<and> status r = ACTIVE then ?f r else r) (turns s)\<rparr>)"
    by (intro durable_turns) (auto simp: evolve_simps split: option.split)
  then show ?thesis by (simp add: release_acquired_sync_def)
qed

text \<open>
  The sweep suspends by primary key, so its rows must not be terminal: they were selected
  ACTIVE, and the loop only ever suspends.
\<close>

lemma sweep_rows_durable:
  assumes "pk_ok tkey (turns s)"
    and "\<And>row. row \<in> set stale \<Longrightarrow> \<exists>r. row_of tkey (tkey row) (turns s) = Some r \<and> status r \<notin> set TERMINAL"
  shows "(durable_step sha)\<^sup>*\<^sup>* s (snd (sweep_rows now stale n s))"
  using assms
proof (induction stale arbitrary: n s)
  case Nil
  then show ?case by simp
next
  case (Cons row rest)
  let ?p = "\<lambda>r. op_turn r = tkey row \<and> op_generation r = turn_generation row \<and> in_flight r"
  let ?s1 = "s\<lparr>operations := map (\<lambda>r. if ?p r then r\<lparr>state := settled_state r, updated_at := now\<rparr> else r) (operations s)\<rparr>"
  let ?s2 = "?s1\<lparr>turns := map (\<lambda>r. if tkey r = tkey row then suspend_row now r else r) (turns ?s1)\<rparr>"
  have nt: "status r \<notin> set TERMINAL" if "r \<in> set (turns s)" "tkey r = tkey row" for r
    using Cons.prems(2) [of row] row_of_Some_iff [OF Cons.prems(1), of "tkey row" r] that by auto
  have "(durable_step sha)\<^sup>*\<^sup>* s ?s1"
    by (intro durable_ops) (auto simp: op_evolves_def op_key_def in_flight_def settled_state_def)
  moreover have "(durable_step sha)\<^sup>*\<^sup>* ?s1 ?s2"
    using nt by (intro durable_turns) (auto simp: evolve_simps)
  moreover have "(durable_step sha)\<^sup>*\<^sup>* ?s2
      (snd (sweep_rows now rest (n + length (filter ?p (operations s))) ?s2))"
  proof (rule Cons.IH)
    show "pk_ok tkey (turns ?s2)"
      using Cons.prems(1) by (auto simp: suspend_row_def intro!: pk_ok_update)
    show "\<exists>r. row_of tkey (tkey row') (turns ?s2) = Some r \<and> status r \<notin> set TERMINAL"
      if "row' \<in> set rest" for row'
    proof -
      obtain r where r: "row_of tkey (tkey row') (turns s) = Some r" "status r \<notin> set TERMINAL"
        using Cons.prems(2) [of row'] \<open>row' \<in> set rest\<close> by auto
      have "row_of tkey (tkey row') (turns ?s2)
          = map_option (\<lambda>r. if tkey r = tkey row then suspend_row now r else r) (row_of tkey (tkey row') (turns s))"
        using row_of_update [of "turns s" "\<lambda>r. tkey r = tkey row" tkey "suspend_row now"]
        by (simp add: suspend_row_def)
      with r show ?thesis by (auto simp: suspend_row_def TERMINAL_def)
    qed
  qed
  ultimately show ?case by (simp add: sql_update_def Let_def)
qed

lemma sweep_active_durable:
  assumes "pk_ok tkey (turns s)"
  shows "(durable_step sha)\<^sup>*\<^sup>* s (snd (sweep_active_sync only now s))"
proof -
  have "(durable_step sha)\<^sup>*\<^sup>* s (snd (sweep_rows now (sql_select (is_stale only now) (turns s)) 0 s))"
    using assms
    by (intro sweep_rows_durable)
      (auto simp: sql_select_def is_stale_def row_of_Some_iff TERMINAL_def)
  then show ?thesis by (auto simp: sweep_active_sync_def Let_def split: prod.split)
qed

lemma sweep_expired_durable:
  assumes "pk_ok tkey (turns s)"
  shows "(durable_step sha)\<^sup>*\<^sup>* s (snd (sweep_expired_active_sync fault now s))"
  using sweep_active_durable [OF assms, of sha True now]
  by (auto simp: sweep_expired_active_sync_def split: prod.split sum.split)

lemma ttl_durable: "(durable_step sha)\<^sup>*\<^sup>* s (snd (ttl_sweep_sync fault now h pd ld s))"
proof -
  let ?e = "\<lambda>r. status r = SUSPENDED \<and> last_progress_at r < now - h * 3600"
  let ?q = "\<lambda>r. payload r \<noteq> None \<and> status r \<in> set TERMINAL \<and> last_progress_at r < now - pd * 86400"
  let ?s1 = "s\<lparr>turns := map (\<lambda>r. if ?e r then r\<lparr>status := TERMINAL_EXPIRED\<rparr> else r) (turns s)\<rparr>"
  let ?s2 = "?s1\<lparr>turns := map (\<lambda>r. if ?q r then r\<lparr>payload := None, payload_digest := None\<rparr> else r) (turns ?s1)\<rparr>"
  let ?d = "\<lambda>r. state r \<notin> set NEVER_EXPIRE \<and> updated_at r < now - ld * 86400
               \<and> list_ex (\<lambda>t. tkey t = op_turn r \<and> status t \<in> set TERMINAL) (turns ?s2)"
  have s1: "(durable_step sha)\<^sup>*\<^sup>* s ?s1"
    by (intro durable_turns) (auto simp: evolve_simps)
  have s2: "(durable_step sha)\<^sup>*\<^sup>* ?s1 ?s2"
    by (intro durable_turns) (auto simp: evolve_simps)
  have s3: "(durable_step sha)\<^sup>*\<^sup>* ?s2 (?s2\<lparr>operations := filter (\<lambda>r. \<not> ?d r) (operations ?s2)\<rparr>)"
    by (intro r_into_rtranclp durable_step.op_delete) (simp only: list_ex_iff, blast)
  show ?thesis using rtranclp_trans [OF rtranclp_trans [OF s1 s2] s3] by (simp add: ttl_sweep_sync_def sql_update_def sql_delete_def Let_def)
qed

lemma migrate_durable: "(durable_step sha)\<^sup>*\<^sup>* s (snd (migrate_schema_sync sha now s))"
proof -
  let ?t = "\<lambda>r. payload r \<noteq> None \<and> payload_digest r = None"
  let ?obs = "\<lambda>r. tool_name r \<in> set effect_free_observation_tools"
  let ?s1 = "s\<lparr>turns := map (\<lambda>r. if ?t r then r\<lparr>payload_digest := map_option (payload_digest_of sha) (payload r)\<rparr> else r) (turns s)\<rparr>"
  let ?s2 = "?s1\<lparr>operations := map (\<lambda>r. if ?obs r \<and> state r = OUTCOME_UNKNOWN
      then r\<lparr>effect_class := EFFECT_FREE_OBSERVATION, state := RECONCILED_NOT_APPLIED, updated_at := now\<rparr> else r) (operations ?s1)\<rparr>"
  have s1: "(durable_step sha)\<^sup>*\<^sup>* s ?s1"
    by (intro durable_turns) (auto simp: evolve_simps)
  have s2: "(durable_step sha)\<^sup>*\<^sup>* ?s1 ?s2"
    by (intro durable_ops) (auto simp: op_evolves_def op_key_def)
  have s3: "(durable_step sha)\<^sup>*\<^sup>* ?s2 (?s2\<lparr>operations := map (\<lambda>r.
      if ?obs r \<and> effect_class r \<noteq> EFFECT_FREE_OBSERVATION
      then r\<lparr>effect_class := EFFECT_FREE_OBSERVATION\<rparr> else r) (operations ?s2)\<rparr>)"
    by (intro durable_ops) (auto simp: op_evolves_def op_key_def)
  show ?thesis using rtranclp_trans [OF rtranclp_trans [OF s1 s2] s3] by (simp add: migrate_schema_sync_def sql_update_def Let_def)
qed

lemma migrate_turn_keys:
  "map tkey (turns (snd (migrate_schema_sync sha now s))) = map tkey (turns s)"
  by (auto simp: migrate_schema_sync_def sql_update_def Let_def)

lemma open_store_durable:
  assumes "pk_ok tkey (turns s)"
  shows "(durable_step sha)\<^sup>*\<^sup>* s (open_store sha fault now t_sweep s)"
proof (cases fault)
  case True
  then show ?thesis by (simp add: open_store_def durable_conn)
next
  case False
  let ?m = "snd (migrate_schema_sync sha now s)"
  have pk: "pk_ok tkey (turns (?m\<lparr>conn := True\<rparr>))"
    using assms by (simp add: pk_ok_def migrate_turn_keys)
  have "(durable_step sha)\<^sup>*\<^sup>* s ?m" by (rule migrate_durable)
  also have "(durable_step sha)\<^sup>*\<^sup>* ?m (?m\<lparr>conn := True\<rparr>)" by (rule durable_conn)
  also have "(durable_step sha)\<^sup>*\<^sup>* (?m\<lparr>conn := True\<rparr>)
      (snd (sweep_active_sync False t_sweep (?m\<lparr>conn := True\<rparr>)))"
    using pk by (rule sweep_active_durable)
  finally show ?thesis using False by (simp add: open_store_def)
qed

lemma store_blob_durable: "(durable_step sha)\<^sup>*\<^sup>* s (snd (store_blob_sync sha fault data s))"
  by (auto simp: store_blob_sync_def Let_def intro!: r_into_rtranclp durable_step.blob_insert
      split: option.split)

section \<open>Runs of the store\<close>

text \<open>
  One step of the store is one call of one method, by any caller: the lease may be stale or
  forged, the clock may go backwards, the statement may fail.
\<close>

inductive store_step :: "(string \<Rightarrow> string) \<Rightarrow> turn_store \<Rightarrow> turn_store \<Rightarrow> bool"
  for sha :: "string \<Rightarrow> string" where
  admit: "store_step sha s (snd (admit_turn_sync fault gen tok now key a s))"
| checkpoint: "store_step sha s (snd (checkpoint_sync sha fault tr tp tf l pay progressed dl s))"
| heartbeat: "store_step sha s (snd (heartbeat_sync fault tr tf l s))"
| suspend: "store_step sha s (snd (suspend_sync sha fault now tf l pay s))"
| finish: "store_step sha s (snd (finish_sync fault tf l st s))"
| record_intents: "store_step sha s (snd (record_intents_sync sha fault now l seq intents iter s))"
| mark_running: "store_step sha s (snd (mark_running_sync fault now tf l seq tcid s))"
| settle_op: "store_step sha s (snd (settle_op_sync fault now tf l seq tcid st rt s))"
| settle_interrupted: "store_step sha s (snd (settle_interrupted_sync fault now tf l seq tcid rt s))"
| load_resumable: "store_step sha s (snd (load_resumable_sync sha loads rf key s))"
| acquire: "store_step sha s (snd (acquire_resume_lease_sync fault tok now key gen s))"
| reject: "store_step sha s (reject_resumable_sync fault key s)"
| mark_manual: "store_step sha s (snd (mark_ops_manual_sync fault now key gen s))"
| release: "store_step sha s (snd (release_acquired_sync fault l reason s))"
| sweep_expired: "store_step sha s (snd (sweep_expired_active_sync fault now s))"
| ttl_sweep: "store_step sha s (snd (ttl_sweep_sync fault now h pd ld s))"
| open_again: "store_step sha s (open_store sha fault now t_sweep s)"
| close: "store_step sha s (close_store s)"
| store_blob: "store_step sha s (snd (store_blob_sync sha fault data s))"

lemma store_step_durable:
  "store_step sha s t \<Longrightarrow> store_inv sha s \<Longrightarrow> (durable_step sha)\<^sup>*\<^sup>* s t"
  by (induction rule: store_step.induct)
    (simp_all add: store_inv_def close_store_def admit_durable checkpoint_durable heartbeat_durable
      suspend_durable finish_durable record_intents_durable mark_running_durable settle_op_durable
      settle_interrupted_durable load_resumable_durable acquire_durable reject_durable
      mark_manual_durable release_durable sweep_expired_durable ttl_durable open_store_durable
      durable_conn store_blob_durable)

interpretation store: step_invariant "store_step sha" "store_inv sha" for sha
  by unfold_locales (use store_step_durable durable.steps_inv in blast)

text \<open>A fact that survives the abstract steps survives every run of the store.\<close>

lemma store_stable:
  assumes "\<And>s t. durable_step sha s t \<Longrightarrow> store_inv sha s \<Longrightarrow> P s \<Longrightarrow> P t"
    and "store_step sha s t" "store_inv sha s" "P s"
  shows "P t"
  using durable.stable_steps [of sha P s t] assms store_step_durable by blast

end
