(* ===== verification/Turn_Store_Props.thy ===== *)
theory Turn_Store_Props
  imports Turn_Store_Spec
begin

text \<open>
  The properties that make the turn store correct: an operation runs at most once, a
  terminal turn stays refused, unresolved evidence is never dropped, a fenced-out owner
  changes nothing, one resumer wins, intents are recorded all or none, a restart settles
  what was in flight, and checkpoints and blobs are read back only intact.
\<close>

section \<open>Rows along a step\<close>

lemma turn_row_evolves:
  assumes "durable_step sha s t" "store_inv sha s" "row_of tkey k (turns s) = Some r"
  shows "\<exists>r'. row_of tkey k (turns t) = Some r' \<and> turn_evolves sha r r'"
  using assms
proof (induction rule: durable_step.induct)
  case (turn_update s p f)
  let ?g = "\<lambda>r. if p r then f r else r"
  have ev: "turn_evolves sha x (?g x)" if "x \<in> set (turns s)" for x
    using turn_update that by (auto simp: store_inv_def list_all_iff turn_evolves_refl)
  have r: "r \<in> set (turns s)" using turn_update.prems row_of_SomeD by metis
  have "row_of tkey k (map ?g (turns s)) = map_option ?g (row_of tkey k (turns s))"
    using ev by (intro row_of_update) (auto simp: turn_evolves_def split: if_splits dest: ev)
  with turn_update.prems ev [OF r] show ?case by auto
qed (auto simp: turn_evolves_refl row_of_append)

lemma op_row_evolves:
  assumes "durable_step sha s t" "store_inv sha s" "row_of op_key k (operations s) = Some r"
  shows "(\<exists>r'. row_of op_key k (operations t) = Some r' \<and> op_evolves r r')
       \<or> (row_of op_key k (operations t) = None \<and> state r \<notin> set NEVER_EXPIRE
          \<and> (\<exists>x. row_of tkey (fst k) (turns t) = Some x \<and> status x \<in> set TERMINAL))"
  using assms
proof (induction rule: durable_step.induct)
  case (op_update s p f)
  let ?g = "\<lambda>r. if p r then f r else r"
  have r: "r \<in> set (operations s)" using op_update.prems row_of_SomeD by metis
  have "row_of op_key k (map ?g (operations s)) = map_option ?g (row_of op_key k (operations s))"
    using op_update.hyps by (intro row_of_update) (auto simp: op_evolves_def)
  with op_update r show ?case by (auto simp: op_evolves_refl)
next
  case (op_delete s p)
  have r: "r \<in> set (operations s)" "op_key r = k" using op_delete.prems row_of_SomeD by metis+
  have "row_of op_key k (filter (\<lambda>r. \<not> p r) (operations s)) = (if p r then None else Some r)"
    using op_delete.prems row_of_filter [of op_key "operations s" k "\<lambda>r. \<not> p r"]
    by (simp add: store_inv_def)
  moreover have "\<exists>x. row_of tkey (fst k) (turns s) = Some x \<and> status x \<in> set TERMINAL" if "p r"
    using op_delete.hyps [OF r(1) that] op_delete.prems(1) r(2)
    by (auto simp: store_inv_def op_key_def row_of_Some_iff)
  ultimately show ?case using op_delete.hyps [OF r(1)] by (auto simp: op_evolves_refl)
qed (auto simp: op_evolves_refl row_of_append)

lemma turn_terminal_step:
  assumes "durable_step sha s t" "store_inv sha s"
    "\<exists>r. row_of tkey k (turns s) = Some r \<and> status r = st" "st \<in> set TERMINAL"
  shows "\<exists>r. row_of tkey k (turns t) = Some r \<and> status r = st"
  using turn_row_evolves [OF assms(1,2)] assms(3,4) by (fastforce simp: turn_evolves_def)

section \<open>Success of a ledger transition\<close>

lemma set_op_state_Inr:
  assumes "store_inv sha s"
    and "set_op_state fault now tf l seq tcid st rt legal False s = (Inr (), t)"
  shows "\<exists>r. row_of op_key (lease_key l, generation l, seq, tcid) (operations s) = Some r
           \<and> state r \<in> set legal \<and> fence_holds l tf s \<and> conn s
           \<and> row_of op_key (lease_key l, generation l, seq, tcid) (operations t)
             = Some (case rt of None \<Rightarrow> r\<lparr>state := st, updated_at := now\<rparr>
                     | Some x \<Rightarrow> r\<lparr>state := st, result := Some x, updated_at := now\<rparr>)
           \<and> turns t = turns s"
proof -
  let ?k = "(lease_key l, generation l, seq, tcid)"
  let ?p = "\<lambda>r. op_target l seq tcid r \<and> state r \<in> set legal \<and> fence_holds l tf s"
  let ?f = "\<lambda>r. case rt of None \<Rightarrow> r\<lparr>state := st, updated_at := now\<rparr>
             | Some x \<Rightarrow> r\<lparr>state := st, result := Some x, updated_at := now\<rparr>"
  have key: "op_key r = ?k" if "?p r" for r
    using that by (simp add: op_target_def op_where_def op_key_def)
  have ok: "conn s" "length (filter ?p (operations s)) = 1"
    and t: "t = s\<lparr>operations := map (\<lambda>r. if ?p r then ?f r else r) (operations s)\<rparr>"
    using assms(2) by (auto simp: set_op_state_def sql_update_def Let_def split: if_splits)
  then obtain r where r: "row_of op_key ?k (operations s) = Some r" "?p r"
    using rowcount_1_iff [of op_key "operations s" ?p ?k] assms(1) key
    by (auto simp: store_inv_def)
  have "row_of op_key ?k (operations t) = Some (?f r)"
    using t r row_of_update [of "operations s" ?p op_key ?f ?k]
    by (auto simp: op_key_def split: option.split)
  with r ok t show ?thesis by auto
qed

lemma mark_running_Inr:
  assumes "store_inv sha s" "mark_running_sync fault now tf l seq tcid s = (Inr (), t)"
  shows "\<exists>r. row_of op_key (lease_key l, generation l, seq, tcid) (operations s) = Some r
           \<and> state r = PREPARED \<and> fence_holds l tf s \<and> conn s
           \<and> row_of op_key (lease_key l, generation l, seq, tcid) (operations t)
             = Some (r\<lparr>state := RUNNING, updated_at := now\<rparr>) \<and> turns t = turns s"
  using set_op_state_Inr [OF assms(1) assms(2) [unfolded mark_running_sync_def]] by simp

lemma fence_holds_row:
  assumes "store_inv sha s" "fence_holds l tf s"
  shows "\<exists>r. row_of tkey (lease_key l) (turns s) = Some r \<and> turn_fence l tf r"
  using assms by (auto simp: store_inv_def fence_holds_def list_ex_iff row_of_Some_iff turn_fence_def)

section \<open>At most one run per operation\<close>

definition op_spent :: "op_id \<Rightarrow> turn_store \<Rightarrow> bool" where
  "op_spent k s \<longleftrightarrow>
     (\<exists>r. row_of op_key k (operations s) = Some r \<and> state r \<noteq> PREPARED)
     \<or> (\<exists>x. row_of tkey (fst k) (turns s) = Some x \<and> status x \<in> set TERMINAL)"

definition op_starts :: "op_id \<Rightarrow> turn_store \<Rightarrow> turn_store \<Rightarrow> bool" where
  "op_starts k s t \<longleftrightarrow>
     (\<exists>fault now tf l seq tcid. k = (lease_key l, generation l, seq, tcid)
        \<and> mark_running_sync fault now tf l seq tcid s = (Inr (), t))"

lemma op_may_become_settled: "op_may_become x y \<Longrightarrow> x \<noteq> PREPARED \<Longrightarrow> y \<noteq> PREPARED"
  by (cases x) auto

lemma op_spent_step:
  assumes "durable_step sha s t" "store_inv sha s" "op_spent k s"
  shows "op_spent k t"
proof -
  consider r where "row_of op_key k (operations s) = Some r" "state r \<noteq> PREPARED"
    | x where "row_of tkey (fst k) (turns s) = Some x" "status x \<in> set TERMINAL"
    using assms(3) by (auto simp: op_spent_def)
  then show ?thesis
  proof cases
    case 1
    then show ?thesis using op_row_evolves [OF assms(1,2) 1(1)]
      by (auto simp: op_spent_def op_evolves_def dest: op_may_become_settled)
  next
    case 2
    then show ?thesis using turn_terminal_step [OF assms(1,2), of "fst k" "status x"]
      by (auto simp: op_spent_def)
  qed
qed

interpretation op_run: one_shot "store_step sha" "store_inv sha" "op_starts k" "op_spent k" for sha k
proof (unfold_locales, goal_cases)
  case (1 s t)
  then obtain fault now tf l seq tcid where "t = snd (mark_running_sync fault now tf l seq tcid s)"
    unfolding op_starts_def by (metis snd_conv)
  then show ?case by (simp add: store_step.mark_running)
next
  case (2 s t)
  then obtain fault now tf l seq tcid r x where "k = (lease_key l, generation l, seq, tcid)"
    "row_of op_key k (operations s) = Some r" "state r = PREPARED"
    "row_of tkey (lease_key l) (turns s) = Some x" "turn_fence l tf x"
    using mark_running_Inr fence_holds_row unfolding op_starts_def by metis
  then show ?case by (auto simp: op_spent_def turn_fence_def TERMINAL_def)
next
  case (3 s t)
  then show ?case using mark_running_Inr unfolding op_starts_def op_spent_def by fastforce
next
  case (4 s t)
  then show ?case using store_stable [of sha "op_spent k"] op_spent_step by blast
qed

text \<open>
  C1: an operation of the ledger is started at most once in the life of the store. Once
  \<^verbatim>\<open>mark_running_sync\<close> has succeeded for a tool call, it never succeeds again for the same
  turn, generation, sequence number and call id, whatever happens in between (crashes and
  reopenings, resumes under new leases, sweeps, TTL deletion of the ledger row, faults,
  any clock).
\<close>

theorem op_runs_at_most_once:
  assumes "store_inv sha s"
    and "mark_running_sync f1 n1 t1 l seq tcid s = (Inr (), s1)"
    and "(store_step sha)\<^sup>*\<^sup>* s1 s2"
    and "lease_key l2 = lease_key l" and "generation l2 = generation l"
  shows "fst (mark_running_sync f2 n2 t2 l2 seq tcid s2) \<noteq> Inr ()"
proof
  let ?k = "(lease_key l, generation l, seq, tcid)"
  assume "fst (mark_running_sync f2 n2 t2 l2 seq tcid s2) = Inr ()"
  then have "op_starts ?k s2 (snd (mark_running_sync f2 n2 t2 l2 seq tcid s2))"
    using assms(4,5) unfolding op_starts_def by (metis prod.collapse)
  moreover have "op_starts ?k s s1" using assms(2) unfolding op_starts_def by blast
  ultimately show False using op_run.never_twice assms(1,3) by blast
qed

text \<open>The example run the witnesses use: admit a turn and record one intent.\<close>

definition ex_sha :: "string \<Rightarrow> string" where
  "ex_sha x = CHR ''#'' # x"

definition ex_key :: turn_key where
  "ex_key = \<lparr>source = ''discord'', channel_id = ''7'', message_id = ''42''\<rparr>"

definition ex_row :: turn_row where
  "ex_row =
     \<lparr>tkey = ex_key, turn_generation = ''g'', revision = 0, lease_token = Some ''t'',
      lease_expires_at = Some 120, status = ACTIVE, recovery_deadline_utc = None,
      last_progress_at = 0, created_at = 0, suspended_at = None, guild_id = None,
      user_id = Some ''u'', content_digest = None, code_version = None,
      schema_version = 1, prompt_policy_hash = None, tool_catalog_hash = None,
      session_snapshot = Some ''{}'', payload = None, payload_digest = None\<rparr>"

definition ex_op :: op_row where
  "ex_op =
     \<lparr>op_turn = ex_key, op_generation = ''g'', generation_seq = 1, tool_call_id = ''a'',
      state = PREPARED, tool_name = ''run_command'', effect_class = EXTERNAL_EFFECT_CAPABLE,
      iteration = Some 1, fingerprint = None, result = None, op_created_at = 1, updated_at = 1\<rparr>"

definition ex_store :: turn_store where
  "ex_store = \<lparr>conn = True, lease_ttl = 120, turns = [ex_row], operations = [ex_op],
               blobs = (\<lambda>_. None)\<rparr>"

definition ex_lease :: turn_lease where
  "ex_lease = \<lparr>lease_key = ex_key, generation = ''g'', token = ''t'', lease_revision = 0\<rparr>"

lemma ex_store_inv: "store_inv ex_sha ex_store"
  by (simp add: store_inv_def ex_store_def ex_row_def ex_op_def row_ok_def op_ok_def pk_ok_def
      TERMINAL_def)

lemmas ex_defs = ex_store_def ex_row_def ex_op_def ex_lease_def ex_key_def

lemma ex_fence: "fence_holds ex_lease t ex_store \<longleftrightarrow> t < 120"
  by (simp add: fence_holds_def turn_fence_def lease_live_def ex_defs)

lemma ex_start: "mark_running_sync False 2 2 ex_lease 1 ''a'' ex_store
   = (Inr (), ex_store\<lparr>operations := [ex_op\<lparr>state := RUNNING, updated_at := 2\<rparr>]\<rparr>)"
  by (simp add: mark_running_sync_def set_op_state_def sql_update_def ex_fence)
    (simp add: op_target_def op_where_def ex_defs)

theorem op_runs_at_most_once_witness:
  "store_inv ex_sha ex_store
   \<and> fst (mark_running_sync False 2 2 ex_lease 1 ''a'' ex_store) = Inr ()
   \<and> fst (mark_running_sync False 10 10 (ex_lease\<lparr>token := ''t2''\<rparr>) 1 ''a''
        (open_store ex_sha False 5 5 (snd (mark_running_sync False 2 2 ex_lease 1 ''a'' ex_store)))) \<noteq> Inr ()"
proof -
  have "(store_step ex_sha)\<^sup>*\<^sup>* s (open_store ex_sha False 5 5 s)" for s
    by (intro r_into_rtranclp store_step.open_again)
  then show ?thesis
    using op_runs_at_most_once [OF ex_store_inv ex_start, of _ "ex_lease\<lparr>token := ''t2''\<rparr>"] ex_start
    by (simp add: ex_store_inv)
qed

section \<open>Invariant of every reachable store\<close>

definition empty_store :: "bool \<Rightarrow> py_time \<Rightarrow> turn_store" where
  "empty_store c ttl = \<lparr>conn = c, lease_ttl = ttl, turns = [], operations = [], blobs = (\<lambda>_. None)\<rparr>"

lemma empty_store_inv: "store_inv sha (empty_store c ttl)"
  by (simp add: store_inv_def empty_store_def pk_ok_def)

text \<open>
  C8: in every store reachable from an empty database, both primary keys are unique, a turn
  has a lease (token and expiry) exactly while it is ACTIVE, every stored payload carries the
  digest of its exact text, a settled terminal turn holds no payload, every ledger row has a
  nonempty call id and belongs to an existing turn of its generation, and every blob is
  stored under its own hash.
\<close>

theorem reachable_store_inv:
  assumes "(store_step sha)\<^sup>*\<^sup>* (empty_store c ttl) s"
  shows "store_inv sha s"
  using store.steps_inv [OF assms empty_store_inv] .

definition ex_admission :: admission where
  "ex_admission = \<lparr>a_guild_id = None, a_user_id = Some ''u'', a_content_digest = None,
     a_code_version = None, a_prompt_policy_hash = None, a_tool_catalog_hash = None,
     a_session_snapshot = None\<rparr>"

lemma ex_admit: "admit_turn_sync False ''g'' ''t'' 0 ex_key ex_admission (empty_store True 120)
   = ((Some ex_lease, Admitted), (empty_store True 120)\<lparr>turns := [ex_row]\<rparr>)"
  by (simp add: admit_turn_sync_def sql_insert_def fresh_row_def empty_store_def ex_defs
      ex_admission_def SCHEMA_VERSION_def)

theorem reachable_store_inv_witness:
  "(store_step ex_sha)\<^sup>*\<^sup>* (empty_store True 120) ((empty_store True 120)\<lparr>turns := [ex_row]\<rparr>)
   \<and> store_inv ex_sha ((empty_store True 120)\<lparr>turns := [ex_row]\<rparr>)"
proof -
  have "store_step ex_sha (empty_store True 120) ((empty_store True 120)\<lparr>turns := [ex_row]\<rparr>)"
    using store_step.admit [of ex_sha "empty_store True 120" False "''g''" "''t''" 0 ex_key ex_admission]
    by (simp add: ex_admit)
  then have "(store_step ex_sha)\<^sup>*\<^sup>* (empty_store True 120) ((empty_store True 120)\<lparr>turns := [ex_row]\<rparr>)" ..
  then show ?thesis using reachable_store_inv by blast
qed

section \<open>Terminal turns stay refused\<close>

lemma fenced_update_Inr:
  assumes "store_inv sha s" "fenced_update fault tf l f bump s = (Inr l', t)"
    and "\<And>r. turn_fence l tf r \<Longrightarrow> tkey (f r) = tkey r"
  shows "\<exists>r. row_of tkey (lease_key l) (turns s) = Some r \<and> turn_fence l tf r \<and> conn s
           \<and> row_of tkey (lease_key l) (turns t) = Some ((f r)\<lparr>revision := lease_revision l'\<rparr>)
           \<and> l' = l\<lparr>lease_revision := (if bump then lease_revision l + 1 else lease_revision l)\<rparr>
           \<and> operations t = operations s \<and> lease_ttl t = lease_ttl s"
proof -
  let ?n = "if bump then lease_revision l + 1 else lease_revision l"
  let ?p = "turn_fence l tf" and ?f = "\<lambda>r. (f r)\<lparr>revision := ?n\<rparr>"
  have ok: "conn s" "length (filter ?p (turns s)) = 1" "l' = l\<lparr>lease_revision := ?n\<rparr>"
    and t: "t = s\<lparr>turns := map (\<lambda>r. if ?p r then ?f r else r) (turns s)\<rparr>"
    using assms(2) by (auto simp: fenced_update_def sql_update_def Let_def split: if_splits)
  then obtain r where r: "row_of tkey (lease_key l) (turns s) = Some r" "?p r"
    using rowcount_1_iff [of tkey "turns s" ?p "lease_key l"] assms(1)
    by (auto simp: store_inv_def turn_fence_def)
  have "row_of tkey (lease_key l) (turns t) = Some (?f r)"
    using t r assms(3) row_of_update [of "turns s" ?p tkey ?f "lease_key l"] by auto
  with r ok t show ?thesis by auto
qed

lemma turn_terminal_run:
  assumes "(store_step sha)\<^sup>*\<^sup>* s t" "store_inv sha s"
    "\<exists>r. row_of tkey k (turns s) = Some r \<and> status r = st" "st \<in> set TERMINAL"
  shows "\<exists>r. row_of tkey k (turns t) = Some r \<and> status r = st"
  using assms(1-3)
proof (rule store.stable_steps [rotated, where P = "\<lambda>s. \<exists>r. row_of tkey k (turns s) = Some r \<and> status r = st"])
  fix s t
  assume "store_step sha s t" "store_inv sha s" "\<exists>r. row_of tkey k (turns s) = Some r \<and> status r = st"
  then show "\<exists>r. row_of tkey k (turns t) = Some r \<and> status r = st"
    using store_stable [of sha "\<lambda>s. \<exists>r. row_of tkey k (turns s) = Some r \<and> status r = st"]
      turn_terminal_step assms(4) by blast
qed

lemma finish_terminal:
  assumes "store_inv sha s" "finish_sync fault tf l st s = (Inr l', t)"
  shows "st \<in> set TERMINAL \<and> store_inv sha t \<and> (\<exists>r. row_of tkey (lease_key l) (turns t) = Some r \<and> status r = st)"
proof -
  have fin: "st \<in> set TERMINAL" "fenced_update fault tf l (close_row st) True s = (Inr l', t)"
    using assms(2) by (auto simp: finish_sync_def split: if_splits)
  have "\<exists>r. row_of tkey (lease_key l) (turns t) = Some r \<and> status r = st"
    using fenced_update_Inr [OF assms(1) fin(2)] by (auto simp: close_row_def)
  moreover have "store_inv sha t"
    using store.step_inv [OF store_step.finish assms(1)] assms(2) by (metis snd_conv)
  ultimately show ?thesis using fin(1) by blast
qed

lemma terminal_refused:
  assumes "store_inv sha s" "\<exists>r. row_of tkey k (turns s) = Some r \<and> status r = st" "st \<in> set TERMINAL"
    and "(store_step sha)\<^sup>*\<^sup>* s t" "conn t"
  shows "admit_turn_sync False gen tok now k a t = ((None, Already_processed), t)"
proof -
  obtain r where r: "row_of tkey k (turns t) = Some r" "status r = st"
    using turn_terminal_run assms(1-4) by blast
  then have "k \<in> tkey ` set (turns t)" using row_of_SomeD by force
  with r assms(3,5) show ?thesis
    by (auto simp: admit_turn_sync_def sql_insert_def fresh_row_def classify_existing_row_def)
qed

text \<open>
  A message whose turn reached a terminal status is refused forever. After
  \<^verbatim>\<open>finish_sync\<close> succeeds, in every later state of the store a redelivery of the same message
  gets no lease, the disposition \<^verbatim>\<open>already_processed\<close>, and changes nothing.
\<close>

theorem finished_turn_refused:
  assumes "store_inv sha s"
    and "finish_sync f1 t1 l st s = (Inr l', s1)"
    and "(store_step sha)\<^sup>*\<^sup>* s1 s2" and "conn s2"
  shows "admit_turn_sync False gen tok now (lease_key l) a s2 = ((None, Already_processed), s2)"
  using finish_terminal [OF assms(1,2)] terminal_refused [OF _ _ _ assms(3,4)] by blast

lemma ex_finish: "finish_sync False 5 ex_lease TERMINAL_COMPLETED ex_store
   = (Inr (ex_lease\<lparr>lease_revision := 1\<rparr>),
      ex_store\<lparr>turns := [(close_row TERMINAL_COMPLETED ex_row)\<lparr>revision := 1\<rparr>]\<rparr>)"
  by (simp add: finish_sync_def fenced_update_def sql_update_def TERMINAL_def turn_fence_def
      lease_live_def ex_defs)

theorem finished_turn_refused_witness:
  "admit_turn_sync False ''g2'' ''t2'' 6 ex_key ex_admission
     (snd (finish_sync False 5 ex_lease TERMINAL_COMPLETED ex_store))
   = ((None, Already_processed), snd (finish_sync False 5 ex_lease TERMINAL_COMPLETED ex_store))"
  using finished_turn_refused [OF ex_store_inv ex_finish rtranclp.rtrancl_refl,
      of "''g2''" "''t2''" 6 ex_admission] ex_finish
  by (simp add: ex_store_def ex_lease_def)

section \<open>Unresolved evidence is never dropped\<close>

definition unresolved :: "op_id \<Rightarrow> string \<Rightarrow> turn_store \<Rightarrow> bool" where
  "unresolved k nm s \<longleftrightarrow>
     (\<exists>r. row_of op_key k (operations s) = Some r \<and> state r \<in> set NEVER_EXPIRE \<and> tool_name r = nm)"

lemma unresolved_step:
  assumes "durable_step sha s t" "store_inv sha s" "unresolved k nm s"
    "nm \<notin> set effect_free_observation_tools"
  shows "unresolved k nm t"
proof -
  obtain r where r: "row_of op_key k (operations s) = Some r" "state r \<in> set NEVER_EXPIRE" "tool_name r = nm"
    using assms(3) by (auto simp: unresolved_def)
  then obtain r' where "row_of op_key k (operations t) = Some r'" "op_evolves r r'"
    using op_row_evolves [OF assms(1,2) r(1)] by blast
  then show ?thesis using r assms(4)
    by (cases "state r") (auto simp: unresolved_def op_evolves_def NEVER_EXPIRE_def)
qed

text \<open>
  Evidence of a possibly unreconciled external effect is never lost. A ledger row in
  OUTCOME\_UNKNOWN or MANUAL\_RESOLUTION\_REQUIRED, of a tool outside the audited observation
  list, stays in the ledger in one of these two states along every run, the TTL sweep with
  any retention settings included.
\<close>

theorem unresolved_evidence_kept:
  assumes "store_inv sha s" and "(store_step sha)\<^sup>*\<^sup>* s t"
    and "row_of op_key k (operations s) = Some r" and "state r \<in> set NEVER_EXPIRE"
    and "tool_name r \<notin> set effect_free_observation_tools"
  shows "\<exists>r'. row_of op_key k (operations t) = Some r' \<and> state r' \<in> set NEVER_EXPIRE
            \<and> tool_name r' = tool_name r"
proof -
  have "unresolved k (tool_name r) s" using assms(3,4) by (auto simp: unresolved_def)
  then have "unresolved k (tool_name r) t"
    using store.stable_steps [of sha "unresolved k (tool_name r)"]
      store_stable [of sha "unresolved k (tool_name r)"] unresolved_step assms(1,2,5) by blast
  then show ?thesis by (auto simp: unresolved_def)
qed

definition ex_unknown_store :: turn_store where
  "ex_unknown_store = ex_store\<lparr>operations := [ex_op\<lparr>state := OUTCOME_UNKNOWN\<rparr>],
     turns := [(close_row TERMINAL_FAILED ex_row)]\<rparr>"

lemma ex_unknown_inv: "store_inv ex_sha ex_unknown_store"
  by (simp add: ex_unknown_store_def store_inv_def ex_defs row_ok_def op_ok_def pk_ok_def
      TERMINAL_def close_row_def)

theorem unresolved_evidence_kept_witness:
  "\<exists>r'. row_of op_key (ex_key, ''g'', 1, ''a'')
          (operations (snd (ttl_sweep_sync False 100000000 0 0 0 ex_unknown_store))) = Some r'
        \<and> state r' \<in> set NEVER_EXPIRE \<and> tool_name r' = ''run_command''"
proof -
  have run: "(store_step ex_sha)\<^sup>*\<^sup>* ex_unknown_store (snd (ttl_sweep_sync False 100000000 0 0 0 ex_unknown_store))"
    by (intro r_into_rtranclp store_step.ttl_sweep)
  have row: "row_of op_key (ex_key, ''g'', 1, ''a'') (operations ex_unknown_store)
      = Some (ex_op\<lparr>state := OUTCOME_UNKNOWN\<rparr>)"
    by (simp add: ex_unknown_store_def row_of_def op_key_def ex_defs)
  show ?thesis using unresolved_evidence_kept [OF ex_unknown_inv run row]
    by (simp add: NEVER_EXPIRE_def effect_free_observation_tools_def ex_op_def)
qed

section \<open>A fenced-out owner changes nothing\<close>

text \<open>The calls the owner of a lease makes, as one datatype, and the store after each.\<close>

datatype owner_call =
    OCheckpoint json bool "py_time option"
  | OHeartbeat
  | OSuspend json
  | OFinish turn_status
  | ORecordIntents int "(intent \<times> py_time) list" "int option"
  | OMarkRunning int string
  | OSettleOp int string op_state "string option"
  | OSettleInterrupted int string "string option"
  | ORelease "string option"

fun owner_exec ::
  "(string \<Rightarrow> string) \<Rightarrow> bool \<Rightarrow> py_time \<Rightarrow> py_time \<Rightarrow> turn_lease \<Rightarrow> owner_call \<Rightarrow> turn_store \<Rightarrow> turn_store" where
  "owner_exec sha fault now tf l (OCheckpoint pay progressed dl) s =
     snd (checkpoint_sync sha fault now now tf l pay progressed dl s)"
| "owner_exec sha fault now tf l OHeartbeat s = snd (heartbeat_sync fault now tf l s)"
| "owner_exec sha fault now tf l (OSuspend pay) s = snd (suspend_sync sha fault now tf l pay s)"
| "owner_exec sha fault now tf l (OFinish st) s = snd (finish_sync fault tf l st s)"
| "owner_exec sha fault now tf l (ORecordIntents seq intents iter) s =
     snd (record_intents_sync sha fault now l seq (map (\<lambda>p. (fst p, tf)) intents) iter s)"
| "owner_exec sha fault now tf l (OMarkRunning seq tcid) s = snd (mark_running_sync fault now tf l seq tcid s)"
| "owner_exec sha fault now tf l (OSettleOp seq tcid st rt) s =
     snd (settle_op_sync fault now tf l seq tcid st rt s)"
| "owner_exec sha fault now tf l (OSettleInterrupted seq tcid rt) s =
     snd (settle_interrupted_sync fault now tf l seq tcid rt s)"
| "owner_exec sha fault now tf l (ORelease reason) s = snd (release_acquired_sync fault l reason s)"

text \<open>
  The abort of a lease that was acquired and never run asks for the generation, the token and the ACTIVE
  status only: it may come after the lease expired.
\<close>

definition holds_token :: "turn_lease \<Rightarrow> turn_store \<Rightarrow> bool" where
  "holds_token l s \<longleftrightarrow>
     list_ex (\<lambda>r. tkey r = lease_key l \<and> turn_generation r = generation l \<and> lease_token r = Some (token l) \<and> status r = ACTIVE) (turns s)"

text \<open>What one owner call may do to the store: nothing, or a confined change under a live fence.\<close>

definition confined :: "turn_lease \<Rightarrow> py_time \<Rightarrow> turn_store \<Rightarrow> turn_store \<Rightarrow> bool" where
  "confined l tf s t \<longleftrightarrow>
     t = s \<or>
     (fence_holds l tf s
      \<and> (\<forall>k. k \<noteq> lease_key l \<longrightarrow> row_of tkey k (turns t) = row_of tkey k (turns s))
      \<and> (\<forall>k. fst k \<noteq> lease_key l \<longrightarrow> row_of op_key k (operations t) = row_of op_key k (operations s)))"

lemma row_of_map_other:
  assumes "\<And>r. r \<in> set rows \<Longrightarrow> key (g r) = key r" "\<And>r. r \<in> set rows \<Longrightarrow> key r = k \<Longrightarrow> g r = r"
  shows "row_of key k (map g rows) = row_of key k rows"
  using assms unfolding row_of_def by (induction rows) auto

lemma fenced_update_confined:
  assumes "\<And>r. tkey (f r) = tkey r"
  shows "confined l tf s (snd (fenced_update fault tf l f bump s))"
proof (cases "fence_holds l tf s")
  case True
  have "row_of tkey k (map (\<lambda>r. if turn_fence l tf r then (f r)\<lparr>revision := n\<rparr> else r) (turns s))
      = row_of tkey k (turns s)" if "k \<noteq> lease_key l" for k n
    using that assms by (intro row_of_map_other) (auto simp: turn_fence_def)
  with True show ?thesis
    by (auto simp: confined_def fenced_update_def sql_update_def Let_def)
next
  case False
  then have "\<And>r. r \<in> set (turns s) \<Longrightarrow> \<not> turn_fence l tf r" by (auto simp: fence_holds_def list_ex_iff)
  then show ?thesis
    by (simp add: confined_def fenced_update_def sql_update_def Let_def)
qed

lemma op_update_confined:
  assumes "\<And>r. op_key (f r) = op_key r" "\<And>r. p r \<Longrightarrow> op_turn r = lease_key l \<and> fence_holds l tf s"
  shows "confined l tf s (s\<lparr>operations := map (\<lambda>r. if p r then f r else r) (operations s)\<rparr>)"
proof (cases "fence_holds l tf s")
  case True
  have "row_of op_key k (map (\<lambda>r. if p r then f r else r) (operations s)) = row_of op_key k (operations s)"
    if "fst k \<noteq> lease_key l" for k
    using that assms by (intro row_of_map_other) (auto simp: op_key_def)
  with True show ?thesis by (simp add: confined_def)
next
  case False
  with assms(2) have "\<And>r. \<not> p r" by blast
  then show ?thesis by (simp add: confined_def)
qed

lemma insert_intents_confined:
  "insert_intents sha l seq iter now intents s = Inr t \<Longrightarrow> (\<And>i. i \<in> set intents \<Longrightarrow> snd i = tf) \<Longrightarrow>
   confined l tf s t \<and> turns t = turns s"
proof (induction sha l seq iter now intents s rule: insert_intents.induct)
  case (1 sha l seq iter now s)
  then show ?case by (simp add: confined_def)
next
  case (2 sha l seq iter now i t' rest s)
  let ?r = "intent_row sha l seq iter now i"
  have f: "fence_holds l tf s" using 2(2) 2(3) [of "(i, t')"] by (auto split: if_splits)
  obtain rows where rows: "sql_insert op_key ?r (operations s) = Some rows"
    using 2(2) by (auto split: if_splits option.splits)
  then have new: "rows = operations s @ [?r]" by (auto simp: sql_insert_def split: if_splits)
  have "confined l tf (s\<lparr>operations := rows\<rparr>) t \<and> turns t = turns (s\<lparr>operations := rows\<rparr>)"
    using 2 rows by (auto split: if_splits)
  moreover have "row_of op_key k rows = row_of op_key k (operations s)" if "fst k \<noteq> lease_key l" for k
    using that new by (auto simp: row_of_append op_key_def intent_row_def split: option.split)
  ultimately show ?case using f by (auto simp: confined_def)
qed

lemma release_confined:
  assumes "t = snd (release_acquired_sync fault l reason s)"
  shows "t = s \<or> holds_token l s \<and> (\<forall>k. k \<noteq> lease_key l \<longrightarrow> row_of tkey k (turns t) = row_of tkey k (turns s)) \<and> operations t = operations s"
proof (cases "\<not> conn s \<or> fault")
  case True
  then show ?thesis using assms by (auto simp: release_acquired_sync_def)
next
  case False
  let ?m = "\<lambda>r. tkey r = lease_key l \<and> turn_generation r = generation l \<and> lease_token r = Some (token l) \<and> status r = ACTIVE"
  let ?f = "case reason of Some _ \<Rightarrow> close_row TERMINAL_REJECTED
      | None \<Rightarrow> (\<lambda>r. r\<lparr>status := SUSPENDED, lease_token := None, lease_expires_at := None\<rparr>)"
  have t: "t = s\<lparr>turns := map (\<lambda>r. if ?m r then ?f r else r) (turns s)\<rparr>"
    using assms False by (simp add: release_acquired_sync_def sql_update_def)
  have key: "tkey (?f r) = tkey r" for r by (simp add: close_row_def split: option.split)
  have "row_of tkey k (turns t) = row_of tkey k (turns s)" if "k \<noteq> lease_key l" for k
    unfolding t using that key by (auto intro!: row_of_map_other)
  moreover have "t = s" if "\<not> holds_token l s"
  proof -
    have "map (\<lambda>r. if ?m r then ?f r else r) (turns s) = turns s"
      using that by (intro map_idI) (auto simp: holds_token_def list_ex_iff)
    then show ?thesis by (simp add: t)
  qed
  ultimately show ?thesis by (auto simp: t)
qed

text \<open>
  C19: every state write is fenced and confined. A call made with a lease either leaves the
  whole store unchanged, or the lease was the live one at that moment (generation, expected
  revision, token, ACTIVE status, unexpired), and then only rows of the lease's own turn
  changed. So an owner that lost its lease, or expired, mutates nothing. The one call with a smaller fence is
  the abort of a lease that was never run: it asks for generation, token and ACTIVE status.
\<close>

theorem owner_calls_fenced:
  "owner_exec sha fault now tf l call s = s
   \<or> ((case call of ORelease _ \<Rightarrow> holds_token l s | _ \<Rightarrow> fence_holds l tf s)
      \<and> (\<forall>k. k \<noteq> lease_key l \<longrightarrow>
           row_of tkey k (turns (owner_exec sha fault now tf l call s)) = row_of tkey k (turns s))
      \<and> (\<forall>k. fst k \<noteq> lease_key l \<longrightarrow>
           row_of op_key k (operations (owner_exec sha fault now tf l call s))
           = row_of op_key k (operations s)))"
proof (cases "\<exists>reason. call = ORelease reason")
  case True
  then obtain reason where c: "call = ORelease reason" by blast
  show ?thesis using release_confined [OF refl, of fault l reason s] unfolding c by auto
next
  case other: False
  have "confined l tf s (owner_exec sha fault now tf l call s)"
  proof (cases call)
    case (OCheckpoint pay progressed dl)
    then show ?thesis
      by (auto simp: checkpoint_sync_def Let_def intro!: fenced_update_confined split: option.split)
  next
    case OHeartbeat
    then show ?thesis by (auto simp: heartbeat_sync_def intro!: fenced_update_confined)
  next
    case (OSuspend pay)
    then show ?thesis by (auto simp: suspend_sync_def Let_def suspend_row_def intro!: fenced_update_confined)
  next
    case (OFinish st)
    then show ?thesis
      by (auto simp: finish_sync_def close_row_def confined_def [of l tf s s] intro!: fenced_update_confined)
  next
    case (ORecordIntents seq intents iter)
    have "confined l tf s t" if "insert_intents sha l seq iter now (map (\<lambda>p. (fst p, tf)) intents) s = Inr t" for t
      by (rule insert_intents_confined [OF that, THEN conjunct1]) auto
    then show ?thesis using ORecordIntents
      by (auto simp: record_intents_sync_def Let_def confined_def [of l tf s s] split: sum.split)
  next
    case (OMarkRunning seq tcid)
    then show ?thesis
      by (auto simp: mark_running_sync_def set_op_state_def sql_update_def Let_def confined_def [of l tf s s]
          op_target_def op_where_def op_key_def intro!: op_update_confined)
  next
    case (OSettleOp seq tcid st rt)
    then show ?thesis
      by (auto simp: settle_op_sync_def settle_uncertain_op_def set_op_state_def sql_update_def Let_def
          confined_def [of l tf s s] op_target_def op_where_def op_key_def
          intro!: op_update_confined split: option.split)
  next
    case (OSettleInterrupted seq tcid rt)
    then show ?thesis
      by (auto simp: settle_interrupted_sync_def settle_uncertain_op_def sql_update_def Let_def
          confined_def [of l tf s s] op_target_def op_where_def op_key_def intro!: op_update_confined)
  qed (use other in blast)
  then show ?thesis using other by (auto simp: confined_def split: owner_call.split)
qed

theorem owner_calls_fenced_witness:
  "owner_exec ex_sha False 5 5 (ex_lease\<lparr>token := ''stale''\<rparr>) (OMarkRunning 1 ''a'') ex_store = ex_store
   \<and> owner_exec ex_sha False 5 5 (ex_lease\<lparr>token := ''stale''\<rparr>) (ORelease None) ex_store = ex_store
   \<and> row_of tkey ex_key (turns (owner_exec ex_sha False 5 5 (ex_lease\<lparr>token := ''stale''\<rparr>) OHeartbeat ex_store)) = Some ex_row"
proof -
  have n: "\<not> fence_holds (ex_lease\<lparr>token := ''stale''\<rparr>) 5 ex_store"
    "\<not> holds_token (ex_lease\<lparr>token := ''stale''\<rparr>) ex_store"
    by (simp_all add: fence_holds_def turn_fence_def holds_token_def ex_defs)
  then have "owner_exec ex_sha False 5 5 (ex_lease\<lparr>token := ''stale''\<rparr>) call ex_store = ex_store" for call
    using owner_calls_fenced [of ex_sha False 5 5 "ex_lease\<lparr>token := ''stale''\<rparr>" call ex_store] by (auto split: owner_call.splits)
  moreover have "row_of tkey ex_key (turns ex_store) = Some ex_row" by (simp add: row_of_def ex_defs)
  ultimately show ?thesis by metis
qed

section \<open>One resumer wins\<close>

lemma acquire_Some:
  assumes "store_inv sha s"
    and "acquire_resume_lease_sync fault tok now key gen s = (Inr (Some l), t)"
  shows "\<exists>r. row_of tkey key (turns s) = Some r \<and> status r = SUSPENDED \<and> turn_generation r = gen
           \<and> row_of tkey key (turns t)
             = Some (r\<lparr>status := ACTIVE, lease_token := Some tok, lease_expires_at := Some (now + lease_ttl s)\<rparr>)
           \<and> l = \<lparr>lease_key = key, generation = gen, token = tok, lease_revision = revision r\<rparr>"
proof -
  let ?p = "\<lambda>r. tkey r = key \<and> status r = SUSPENDED \<and> turn_generation r = gen"
  let ?f = "\<lambda>r. r\<lparr>status := ACTIVE, lease_token := Some tok, lease_expires_at := Some (now + lease_ttl s)\<rparr>"
  let ?rows = "map (\<lambda>r. if ?p r then ?f r else r) (turns s)"
  have one: "length (filter ?p (turns s)) = 1" and t: "turns t = ?rows"
    and l: "\<exists>x. row_of tkey key ?rows = Some x
        \<and> l = \<lparr>lease_key = key, generation = gen, token = tok, lease_revision = revision x\<rparr>"
    using assms(2) by (auto simp: acquire_resume_lease_sync_def sql_update_def Let_def split: if_splits option.splits)
  obtain r where r: "row_of tkey key (turns s) = Some r" "?p r"
    using one rowcount_1_iff [of tkey "turns s" ?p key] assms(1) by (auto simp: store_inv_def)
  have "row_of tkey key ?rows = Some (?f r)"
    using r row_of_update [of "turns s" ?p tkey ?f key] by auto
  with r l t show ?thesis by auto
qed

text \<open>
  Two resumers cannot both win. After one \<^verbatim>\<open>acquire_resume_lease_sync\<close> returned a lease, the
  lease holds the full fence until it expires, a second acquisition of the same turn (for any
  generation) returns no lease and changes nothing, and every lease with another token is
  fenced out.
\<close>

theorem resume_single_winner:
  assumes "store_inv sha s"
    and "acquire_resume_lease_sync f1 tok n1 key gen s = (Inr (Some l), s1)"
  shows "(tf < n1 + lease_ttl s \<longrightarrow> fence_holds l tf s1)
    \<and> acquire_resume_lease_sync False tok2 n2 key gen2 s1 = (Inr None, s1)
    \<and> (lease_key l2 = key \<and> token l2 \<noteq> tok \<longrightarrow> \<not> fence_holds l2 t2 s1)"
proof -
  obtain r where r: "row_of tkey key (turns s) = Some r" "status r = SUSPENDED" "turn_generation r = gen"
    and r1: "row_of tkey key (turns s1)
        = Some (r\<lparr>status := ACTIVE, lease_token := Some tok, lease_expires_at := Some (n1 + lease_ttl s)\<rparr>)"
    and l: "l = \<lparr>lease_key = key, generation = gen, token = tok, lease_revision = revision r\<rparr>"
    using acquire_Some [OF assms] by blast
  have "store_inv sha s1"
    using store.step_inv [OF store_step.acquire assms(1)] assms(2) by (metis snd_conv)
  then have pk: "pk_ok tkey (turns s1)" by (simp add: store_inv_def)
  have only: "x = r\<lparr>status := ACTIVE, lease_token := Some tok, lease_expires_at := Some (n1 + lease_ttl s)\<rparr>"
    if "x \<in> set (turns s1)" "tkey x = key" for x
    using that row_of_Some_iff [OF pk, of key x] r1 by simp
  have act: "status x = ACTIVE" if "x \<in> set (turns s1)" "tkey x = key" for x
    using only [OF that] by simp
  have tok: "lease_token x = Some tok" if "x \<in> set (turns s1)" "tkey x = key" for x
    using only [OF that] by simp
  have "tkey r = key" using r(1) row_of_SomeD by metis
  then have "fence_holds l tf s1" if "tf < n1 + lease_ttl s"
    unfolding fence_holds_def list_ex_iff
    by (rule_tac bexI [OF _ row_of_SomeD [OF r1, THEN conjunct1]])
      (use that r(3) l in \<open>simp add: turn_fence_def lease_live_def\<close>)
  moreover have "\<not> fence_holds l2 t2 s1" if "lease_key l2 = key" "token l2 \<noteq> tok"
    using that tok by (auto simp: fence_holds_def list_ex_iff turn_fence_def)
  moreover have "acquire_resume_lease_sync False tok2 n2 key gen2 s1 = (Inr None, s1)"
  proof -
    have "\<not> (tkey x = key \<and> status x = SUSPENDED \<and> turn_generation x = gen2)" if "x \<in> set (turns s1)" for x
      using act that by auto
    then have "filter (\<lambda>x. tkey x = key \<and> status x = SUSPENDED \<and> turn_generation x = gen2) (turns s1) = []"
      and "map (\<lambda>x. if tkey x = key \<and> status x = SUSPENDED \<and> turn_generation x = gen2
             then x\<lparr>status := ACTIVE, lease_token := Some tok2, lease_expires_at := Some (n2 + lease_ttl s1)\<rparr>
             else x) (turns s1) = turns s1"
      by (simp_all add: filter_empty_conv)
    then show ?thesis by (simp add: acquire_resume_lease_sync_def sql_update_def)
  qed
  ultimately show ?thesis by blast
qed

definition ex_suspended :: turn_store where
  "ex_suspended = ex_store\<lparr>turns := [(suspend_row 9 ex_row)\<lparr>payload := Some ''{}'',
     payload_digest := Some (ex_sha ''{}'')\<rparr>]\<rparr>"

lemma ex_suspended_inv: "store_inv ex_sha ex_suspended"
  by (simp add: ex_suspended_def store_inv_def ex_defs row_ok_def op_ok_def pk_ok_def TERMINAL_def
      suspend_row_def payload_digest_of_def)

lemma ex_acquire: "\<exists>s1. acquire_resume_lease_sync False ''w'' 10 ex_key ''g'' ex_suspended
   = (Inr (Some \<lparr>lease_key = ex_key, generation = ''g'', token = ''w'', lease_revision = 0\<rparr>), s1)"
  by (simp add: acquire_resume_lease_sync_def sql_update_def ex_suspended_def suspend_row_def
      row_of_def ex_defs)

theorem resume_single_winner_witness:
  "\<exists>s1 l. acquire_resume_lease_sync False ''w'' 10 ex_key ''g'' ex_suspended = (Inr (Some l), s1)
     \<and> fence_holds l 11 s1
     \<and> acquire_resume_lease_sync False ''v'' 12 ex_key ''g'' s1 = (Inr None, s1)
     \<and> \<not> fence_holds ex_lease 11 s1"
proof -
  obtain s1 where s1: "acquire_resume_lease_sync False ''w'' 10 ex_key ''g'' ex_suspended
      = (Inr (Some \<lparr>lease_key = ex_key, generation = ''g'', token = ''w'', lease_revision = 0\<rparr>), s1)"
    using ex_acquire by blast
  show ?thesis
    using resume_single_winner [OF ex_suspended_inv s1, of 11 "''v''" 12 "''g''" ex_lease 11] s1
    by (auto simp: ex_suspended_def ex_store_def ex_lease_def)
qed

section \<open>Intents are recorded all or none\<close>

lemma insert_intents_Inr_iff:
  "insert_intents sha l seq iter now intents s = Inr t \<longleftrightarrow>
     (\<forall>i\<in>set intents. fence_holds l (snd i) s)
     \<and> distinct (map (\<lambda>p. i_tool_call_id (fst p)) intents)
     \<and> (\<forall>i\<in>set intents. (lease_key l, generation l, seq, i_tool_call_id (fst i)) \<notin> op_key ` set (operations s))
     \<and> t = s\<lparr>operations := operations s @ map (\<lambda>p. intent_row sha l seq iter now (fst p)) intents\<rparr>"
proof (induction sha l seq iter now intents s rule: insert_intents.induct)
  case (1 sha l seq iter now s)
  then show ?case by auto
next
  case (2 sha l seq iter now i tf rest s)
  let ?r = "intent_row sha l seq iter now i"
  let ?s' = "s\<lparr>operations := operations s @ [?r]\<rparr>"
  have k: "op_key ?r = (lease_key l, generation l, seq, i_tool_call_id i)"
    by (simp add: op_key_def intent_row_def)
  have f: "fence_holds l x ?s' = fence_holds l x s" for x by (simp add: fence_holds_def)
  show ?case
  proof (cases "fence_holds l tf s \<and> op_key ?r \<notin> op_key ` set (operations s)")
    case True
    then have ins: "sql_insert op_key ?r (operations s) = Some (operations s @ [?r])"
      by (simp add: sql_insert_def)
    have "insert_intents sha l seq iter now ((i, tf) # rest) s = insert_intents sha l seq iter now rest ?s'"
      using True ins by simp
    also have "\<dots> = Inr t \<longleftrightarrow>
       (\<forall>i\<in>set rest. fence_holds l (snd i) ?s')
       \<and> distinct (map (\<lambda>p. i_tool_call_id (fst p)) rest)
       \<and> (\<forall>i\<in>set rest. (lease_key l, generation l, seq, i_tool_call_id (fst i)) \<notin> op_key ` set (operations ?s'))
       \<and> t = ?s'\<lparr>operations := operations ?s' @ map (\<lambda>p. intent_row sha l seq iter now (fst p)) rest\<rparr>"
      using True ins by (intro 2) auto
    also have "(\<forall>i\<in>set rest. (lease_key l, generation l, seq, i_tool_call_id (fst i)) \<notin> op_key ` set (operations ?s'))
       \<longleftrightarrow> (\<forall>i\<in>set rest. (lease_key l, generation l, seq, i_tool_call_id (fst i)) \<notin> op_key ` set (operations s))
           \<and> i_tool_call_id i \<notin> set (map (\<lambda>p. i_tool_call_id (fst p)) rest)"
      using k by force
    finally show ?thesis using True k f by auto
  next
    case False
    then show ?thesis using k by (auto simp: sql_insert_def)
  qed
qed

text \<open>
  Recording the intents of one generation is atomic and complete. It succeeds exactly when
  the ids are nonempty and distinct, the store works, the fence holds for every intent and no
  intent was recorded before; then the ledger gains exactly one PREPARED row per intent, in
  order, and the turns are untouched. In every other case the store is unchanged.
\<close>

theorem record_intents_all_or_none:
  "(if list_all (\<lambda>i. i_tool_call_id (fst i) \<noteq> []) intents
       \<and> distinct (map (\<lambda>p. i_tool_call_id (fst p)) intents)
       \<and> conn s \<and> \<not> fault \<and> list_all (\<lambda>i. fence_holds l (snd i) s) intents
       \<and> list_all (\<lambda>i. (lease_key l, generation l, seq, i_tool_call_id (fst i))
            \<notin> op_key ` set (operations s)) intents
    then record_intents_sync sha fault now l seq intents iter s
           = (Inr (), s\<lparr>operations := operations s @
                 map (\<lambda>p. intent_row sha l seq iter now (fst p)) intents\<rparr>)
         \<and> list_all (\<lambda>p. state (intent_row sha l seq iter now (fst p)) = PREPARED) intents
    else \<exists>e. record_intents_sync sha fault now l seq intents iter s = (Inl e, s))"
proof -
  have ex: "list_ex (\<lambda>i. i = []) (map (\<lambda>p. i_tool_call_id (fst p)) intents)
      \<longleftrightarrow> \<not> list_all (\<lambda>i. i_tool_call_id (fst i) \<noteq> []) intents"
    by (induction intents) auto
  show ?thesis
    unfolding record_intents_sync_def Let_def ex
    using insert_intents_Inr_iff [of sha l seq iter now intents s]
    by (cases "insert_intents sha l seq iter now intents s") (auto simp: intent_row_def list_all_iff)
qed

section \<open>A restart settles what was in flight\<close>

definition settle_op :: "py_time \<Rightarrow> op_row \<Rightarrow> op_row" where
  "settle_op now r = r\<lparr>state := settled_state r, updated_at := now\<rparr>"

definition stale_op :: "turn_row list \<Rightarrow> op_row \<Rightarrow> bool" where
  "stale_op stale r \<longleftrightarrow> in_flight r
     \<and> (\<exists>row\<in>set stale. op_turn r = tkey row \<and> op_generation r = turn_generation row)"

lemma settle_op_simps [simp]:
  "op_turn (settle_op now r) = op_turn r" "op_generation (settle_op now r) = op_generation r"
  "\<not> in_flight (settle_op now r)"
  by (simp_all add: settle_op_def in_flight_def settled_state_def)

lemma stale_op_Cons:
  "stale_op (row # rest) r \<longleftrightarrow>
     (op_turn r = tkey row \<and> op_generation r = turn_generation row \<and> in_flight r) \<or> stale_op rest r"
  unfolding stale_op_def by auto

lemma not_stale_settled: "stale_op stale (settle_op now r) = False"
  unfolding stale_op_def by simp

text \<open>The loop of \<^verbatim>\<open>_sweep_active_sync\<close> in closed form.\<close>

lemma sweep_rows_eq:
  "snd (sweep_rows now stale n s) =
     s\<lparr>operations := map (\<lambda>r. if stale_op stale r then settle_op now r else r) (operations s),
       turns := map (\<lambda>r. if tkey r \<in> tkey ` set stale then suspend_row now r else r) (turns s)\<rparr>"
proof (induction stale arbitrary: n s)
  case Nil
  then show ?case by (simp add: stale_op_def)
next
  case (Cons row rest)
  let ?p = "\<lambda>r. op_turn r = tkey row \<and> op_generation r = turn_generation row \<and> in_flight r"
  have o: "(if stale_op rest (if ?p r then settle_op now r else r)
            then settle_op now (if ?p r then settle_op now r else r) else (if ?p r then settle_op now r else r))
         = (if stale_op (row # rest) r then settle_op now r else r)" for r
    by (cases "?p r") (simp_all only: stale_op_Cons not_stale_settled if_True if_False simp_thms)
  have t: "(if tkey (if tkey r = tkey row then suspend_row now r else r) \<in> tkey ` set rest
            then suspend_row now (if tkey r = tkey row then suspend_row now r else r)
            else (if tkey r = tkey row then suspend_row now r else r))
         = (if tkey r \<in> tkey ` set (row # rest) then suspend_row now r else r)" for r
    by (auto simp: suspend_row_def)
  have "sweep_rows now (row # rest) n s = sweep_rows now rest (n + length (filter ?p (operations s)))
      (s\<lparr>operations := map (\<lambda>r. if ?p r then settle_op now r else r) (operations s),
         turns := map (\<lambda>r. if tkey r = tkey row then suspend_row now r else r) (turns s)\<rparr>)"
    unfolding settle_op_def by (simp add: sql_update_def)
  then show ?case by (simp only: Cons.IH) (simp add: comp_def o t)
qed

lemma sweep_active_eq:
  assumes "conn s"
  shows "snd (sweep_active_sync only now s) =
     s\<lparr>operations := map (\<lambda>r. if stale_op (filter (is_stale only now) (turns s)) r then settle_op now r else r)
          (operations s),
       turns := map (\<lambda>r. if tkey r \<in> tkey ` set (filter (is_stale only now) (turns s))
          then suspend_row now r else r) (turns s)\<rparr>"
proof -
  have "snd (sweep_active_sync only now s) = snd (sweep_rows now (filter (is_stale only now) (turns s)) 0 s)"
    using assms
    by (cases "sweep_rows now (filter (is_stale only now) (turns s)) 0 s")
      (simp add: sweep_active_sync_def sql_select_def)
  then show ?thesis by (simp only: sweep_rows_eq)
qed

lemma migrate_op_row:
  assumes "row_of op_key k (operations s) = Some r" "state r \<noteq> OUTCOME_UNKNOWN"
  shows "row_of op_key k (operations (snd (migrate_schema_sync sha now s)))
       = Some (if tool_name r \<in> set effect_free_observation_tools
               then r\<lparr>effect_class := EFFECT_FREE_OBSERVATION\<rparr> else r)"
proof -
  let ?p = "\<lambda>r. tool_name r \<in> set effect_free_observation_tools \<and> state r = OUTCOME_UNKNOWN"
  let ?g = "\<lambda>r. r\<lparr>effect_class := EFFECT_FREE_OBSERVATION, state := RECONCILED_NOT_APPLIED, updated_at := now\<rparr>"
  let ?q = "\<lambda>r. tool_name r \<in> set effect_free_observation_tools \<and> effect_class r \<noteq> EFFECT_FREE_OBSERVATION"
  let ?h = "\<lambda>r. r\<lparr>effect_class := EFFECT_FREE_OBSERVATION\<rparr>"
  have "operations (snd (migrate_schema_sync sha now s))
      = map (\<lambda>r. if ?q r then ?h r else r) (map (\<lambda>r. if ?p r then ?g r else r) (operations s))"
    by (simp add: migrate_schema_sync_def sql_update_def Let_def)
  moreover have "row_of op_key k (map (\<lambda>r. if ?p r then ?g r else r) (operations s)) = Some r"
    using assms row_of_update [of "operations s" ?p op_key ?g k] by (simp add: op_key_def)
  ultimately have "row_of op_key k (operations (snd (migrate_schema_sync sha now s)))
      = Some (if ?q r then ?h r else r)"
    using row_of_update [of "map (\<lambda>r. if ?p r then ?g r else r) (operations s)" ?q op_key ?h k]
    by (simp add: op_key_def)
  then show ?thesis by auto
qed

lemma migrate_turns_id:
  assumes "store_inv sha s"
  shows "turns (snd (migrate_schema_sync sha now s)) = turns s"
proof -
  have "\<not> (payload r \<noteq> None \<and> payload_digest r = None)" if "r \<in> set (turns s)" for r
    using assms that by (auto simp: store_inv_def list_all_iff row_ok_def)
  then have "map (\<lambda>r. if payload r \<noteq> None \<and> payload_digest r = None
      then r\<lparr>payload_digest := map_option (payload_digest_of sha) (payload r)\<rparr> else r) (turns s) = turns s"
    by (intro map_if_id)
  then show ?thesis by (simp add: migrate_schema_sync_def sql_update_def Let_def)
qed

lemma op_turn_row:
  assumes "store_inv sha s" "row_of op_key k (operations s) = Some r"
  shows "\<exists>tr. row_of tkey (op_turn r) (turns s) = Some tr \<and> turn_generation tr = op_generation r"
proof -
  have "op_ok (turns s) r" using assms row_of_SomeD by (fastforce simp: store_inv_def list_all_iff)
  then show ?thesis using assms(1) by (auto simp: op_ok_def list_ex_iff store_inv_def row_of_Some_iff)
qed

text \<open>
  C22: reopening the store after a crash leaves no turn running. The store is connected, no turn is ACTIVE any
  more, and of the operations that were PREPARED or RUNNING exactly those of an ACTIVE turn are settled, by
  their effect class: a definite failure for an audited observation, OUTCOME\_UNKNOWN (never rerun) for
  everything else. Those of a turn that was suspended before keep their state, and the resume of the turn
  answers for them.
\<close>

theorem reopen_settles_in_flight:
  assumes "store_inv sha s"
    and "row_of op_key k (operations s) = Some r" and "in_flight r"
    and "row_of tkey (op_turn r) (turns s) = Some tr"
  shows "conn (open_store sha False now t_sweep s)
    \<and> (\<forall>x. x \<in> set (turns (open_store sha False now t_sweep s)) \<longrightarrow> status x \<noteq> ACTIVE)
    \<and> (\<exists>r'. row_of op_key k (operations (open_store sha False now t_sweep s)) = Some r'
        \<and> state r' = (if status tr \<noteq> ACTIVE then state r
                      else if effect_class r = EFFECT_FREE_OBSERVATION
                        \<or> tool_name r \<in> set effect_free_observation_tools
                      then DEFINITELY_FAILED else OUTCOME_UNKNOWN))"
proof -
  let ?m = "(snd (migrate_schema_sync sha now s))\<lparr>conn := True\<rparr>"
  let ?stale = "filter (is_stale False t_sweep) (turns ?m)"
  let ?r = "if tool_name r \<in> set effect_free_observation_tools
            then r\<lparr>effect_class := EFFECT_FREE_OBSERVATION\<rparr> else r"
  let ?s' = "open_store sha False now t_sweep s"
  have s': "?s' = ?m\<lparr>operations := map (\<lambda>r. if stale_op ?stale r then settle_op t_sweep r else r) (operations ?m),
       turns := map (\<lambda>r. if tkey r \<in> tkey ` set ?stale then suspend_row t_sweep r else r) (turns ?m)\<rparr>"
    using sweep_active_eq [of ?m False t_sweep] by (simp add: open_store_def)
  have act: "status x \<noteq> ACTIVE" if "x \<in> set (turns ?s')" for x
    using that by (auto simp: s' is_stale_def suspend_row_def split: if_splits)
  have m: "row_of op_key k (operations ?m) = Some ?r"
    using migrate_op_row [OF assms(2), of sha now] assms(3) by (auto simp: in_flight_def)
  have tr: "tr \<in> set (turns s)" "tkey tr = op_turn r" using assms(4) row_of_SomeD by metis+
  have gen: "turn_generation tr = op_generation r" using op_turn_row [OF assms(1,2)] assms(4) by simp
  have fl: "in_flight ?r" "op_turn ?r = op_turn r" "op_generation ?r = op_generation r" "state ?r = state r"
    using assms(3) by (simp_all add: in_flight_def)
  have "stale_op ?stale ?r \<longleftrightarrow> status tr = ACTIVE"
  proof
    assume "stale_op ?stale ?r"
    then obtain x where x: "x \<in> set (turns s)" "status x = ACTIVE" "tkey x = op_turn r"
      using assms(1) fl(2) by (auto simp: stale_op_def is_stale_def migrate_turns_id)
    have pk: "pk_ok tkey (turns s)" using assms(1) by (simp add: store_inv_def)
    have "row_of tkey (op_turn r) (turns s) = Some x" using x(1,3) row_of_Some_iff [OF pk] by simp
    then have "x = tr" using assms(4) by simp
    then show "status tr = ACTIVE" using x(2) by simp
  next
    assume "status tr = ACTIVE"
    then have "\<exists>x\<in>set (turns ?m). tkey x = op_turn r \<and> turn_generation x = op_generation r \<and> status x = ACTIVE"
      using assms(1) tr gen by (auto simp: migrate_turns_id)
    then show "stale_op ?stale ?r" using fl by (auto simp: stale_op_def is_stale_def)
  qed
  moreover have "row_of op_key k (operations ?s') = Some (if stale_op ?stale ?r then settle_op t_sweep ?r else ?r)"
    using m row_of_update [of "operations ?m" "stale_op ?stale" op_key "settle_op t_sweep" k]
    by (simp add: s' settle_op_def op_key_def)
  ultimately show ?thesis using act fl(4) by (auto simp: settle_op_def settled_state_def s')
qed

lemma ex_running_inv: "store_inv ex_sha (ex_store\<lparr>operations := [ex_op\<lparr>state := RUNNING\<rparr>]\<rparr>)"
  by (simp add: store_inv_def ex_defs row_ok_def op_ok_def pk_ok_def TERMINAL_def)

theorem reopen_settles_in_flight_witness:
  "\<exists>r'. row_of op_key (ex_key, ''g'', 1, ''a'')
          (operations (open_store ex_sha False 5 6 (ex_store\<lparr>operations := [ex_op\<lparr>state := RUNNING\<rparr>]\<rparr>))) = Some r'
        \<and> state r' = OUTCOME_UNKNOWN"
proof -
  have row: "row_of op_key (ex_key, ''g'', 1, ''a'')
      (operations (ex_store\<lparr>operations := [ex_op\<lparr>state := RUNNING\<rparr>]\<rparr>)) = Some (ex_op\<lparr>state := RUNNING\<rparr>)"
    by (simp add: row_of_def op_key_def ex_defs)
  show ?thesis
    using reopen_settles_in_flight [OF ex_running_inv row, of ex_row 5 6]
    by (simp add: in_flight_def ex_op_def ex_row_def ex_store_def row_of_def effect_free_observation_tools_def)
qed

end
