(* ===== verification/Turn_Store_Integrity.thy ===== *)
theory Turn_Store_Integrity
  imports Turn_Store_Props
begin

text \<open>
  What is read back from the turn store: checkpoints (bound to their digest), leases (renewed
  monotonically), and content-addressed blobs.
\<close>

section \<open>Checkpoints\<close>

lemma find_pk:
  assumes "pk_ok key rows" "\<And>r. p r \<Longrightarrow> key r = k"
  shows "find p rows = (case row_of key k rows of None \<Rightarrow> None | Some r \<Rightarrow> if p r then Some r else None)"
  using assms
proof (induction rows)
  case Nil
  then show ?case by (simp add: row_of_def)
next
  case (Cons x xs)
  show ?case
  proof (cases "p x")
    case True
    with Cons.prems show ?thesis by (auto simp: row_of_def)
  next
    case False
    then have "find p (x # xs) = find p xs" by simp
    also have "\<dots> = (case row_of key k xs of None \<Rightarrow> None | Some r \<Rightarrow> if p r then Some r else None)"
      using Cons by (simp add: pk_ok_def)
    also have "\<dots> = (case row_of key k (x # xs) of None \<Rightarrow> None | Some r \<Rightarrow> if p r then Some r else None)"
    proof (cases "key x = k")
      case True
      with Cons.prems(1) have "row_of key k xs = None" by (auto simp: row_of_None_iff pk_ok_def)
      with True False show ?thesis by (simp add: row_of_def)
    next
      case kx: False
      then show ?thesis by (simp add: row_of_def)
    qed
    finally show ?thesis .
  qed
qed

lemma sorted_wrt_lex:
  assumes "sorted (map f ys)" "\<And>k. sorted (map g (filter (\<lambda>y. f y = k) ys))"
  shows "sorted_wrt (\<lambda>a b. f a < f b \<or> f a = f b \<and> g a \<le> g b) ys"
  using assms
proof (induction ys)
  case Nil
  then show ?case by simp
next
  case (Cons x xs)
  have "f x < f y \<or> f x = f y \<and> g x \<le> g y" if "y \<in> set xs" for y
    using that Cons.prems(1) Cons.prems(2) [of "f x"] by force
  moreover have "sorted (map g (filter (\<lambda>y. f y = k) xs))" for k
    using Cons.prems(2) [of k] by (auto split: if_splits)
  ultimately show ?case using Cons by simp
qed

definition op_order :: "op_row \<Rightarrow> op_row \<Rightarrow> bool" where
  "op_order a b \<longleftrightarrow> generation_seq a < generation_seq b
     \<or> generation_seq a = generation_seq b \<and> tool_call_id a \<le> tool_call_id b"

lemma ordered_ops_sorted: "sorted_wrt op_order (ordered_ops key gen rows)"
proof -
  have "sorted_wrt (\<lambda>a b. generation_seq a < generation_seq b
      \<or> generation_seq a = generation_seq b \<and> tool_call_id a \<le> tool_call_id b) (ordered_ops key gen rows)"
    by (rule sorted_wrt_lex) (simp_all add: ordered_ops_def sort_key_stable sorted_filter)
  then show ?thesis by (simp add: op_order_def [abs_def])
qed

text \<open>
  A checkpoint is handed to the resume path only intact and complete. If
  \<^verbatim>\<open>load_resumable_sync\<close> returns a value, the turn is SUSPENDED, its stored text hashes to its
  stored digest and decodes to the returned payload, the returned operations are exactly the
  ledger rows of the turn's generation in (sequence, call id) order, and nothing changed.
\<close>

theorem loaded_checkpoint_intact:
  assumes "store_inv sha s" and "load_resumable_sync sha loads rf key s = (Some v, t)"
  shows "t = s
    \<and> (\<exists>row txt. row_of tkey key (turns s) = Some row \<and> status row = SUSPENDED
        \<and> payload row = Some txt \<and> payload_digest row = Some (sha txt) \<and> loads txt = Some (rs_payload v)
        \<and> rs_generation v = turn_generation row \<and> rs_revision v = revision row
        \<and> (\<exists>ops. rs_operations v = map op_view ops
             \<and> mset ops = mset (filter (\<lambda>r. op_turn r = key \<and> op_generation r = turn_generation row) (operations s))
             \<and> sorted_wrt op_order ops))"
proof -
  obtain row where row: "find (\<lambda>r. tkey r = key \<and> status r = SUSPENDED) (turns s) = Some row"
    using assms(2) by (auto simp: load_resumable_sync_def split: if_splits option.splits)
  then have r: "row_of tkey key (turns s) = Some row" "status row = SUSPENDED"
    using find_pk [of tkey "turns s" "\<lambda>r. tkey r = key \<and> status r = SUSPENDED" key] assms(1)
    by (auto simp: store_inv_def split: option.splits if_splits)
  let ?ops = "ordered_ops key (turn_generation row) (operations s)"
  have ops: "mset ?ops = mset (filter (\<lambda>r. op_turn r = key \<and> op_generation r = turn_generation row) (operations s))"
    "sorted_wrt op_order ?ops"
    by (simp_all add: ordered_ops_sorted) (simp add: ordered_ops_def sql_select_def)
  have "t = s \<and> (\<exists>txt. payload row = Some txt \<and> payload_digest row = Some (sha txt)
      \<and> loads txt = Some (rs_payload v) \<and> rs_generation v = turn_generation row
      \<and> rs_revision v = revision row \<and> rs_operations v = map op_view ?ops)"
    using assms(2) row
    by (auto simp: load_resumable_sync_def payload_digest_of_def split: if_splits option.splits)
  with r ops show ?thesis by blast
qed

definition ex_loads :: "string \<Rightarrow> json option" where
  "ex_loads t = (if t = ''{}'' then Some (JObj []) else None)"

theorem loaded_checkpoint_intact_witness:
  "\<exists>v. load_resumable_sync ex_sha ex_loads False ex_key ex_suspended = (Some v, ex_suspended)
     \<and> rs_payload v = JObj [] \<and> rs_generation v = ''g''"
proof -
  obtain v t where v: "load_resumable_sync ex_sha ex_loads False ex_key ex_suspended = (Some v, t)"
    by (simp add: load_resumable_sync_def ex_suspended_def ex_defs suspend_row_def ex_loads_def
        payload_digest_of_def)
  show ?thesis using loaded_checkpoint_intact [OF ex_suspended_inv v] v
    by (auto simp: ex_suspended_def ex_defs suspend_row_def row_of_def ex_loads_def)
qed

text \<open>
  A checkpoint whose stored text no longer matches its digest (an edit outside the store)
  is never returned: loading it returns nothing, and the turn is moved to TERMINAL\_REJECTED
  with its payload and lease dropped, every other turn and the whole ledger unchanged.
\<close>

theorem tampered_checkpoint_rejected:
  assumes "pk_ok tkey (turns s)" and "conn s"
    and "row_of tkey key (turns s) = Some row" and "status row = SUSPENDED"
    and "payload row = Some txt" and "payload_digest row \<noteq> Some (sha txt)"
  shows "fst (load_resumable_sync sha loads False key s) = None
    \<and> row_of tkey key (turns (snd (load_resumable_sync sha loads False key s)))
      = Some (close_row TERMINAL_REJECTED row)
    \<and> (\<forall>k. k \<noteq> key \<longrightarrow> row_of tkey k (turns (snd (load_resumable_sync sha loads False key s)))
                         = row_of tkey k (turns s))
    \<and> operations (snd (load_resumable_sync sha loads False key s)) = operations s"
proof -
  let ?p = "\<lambda>r. tkey r = key \<and> status r = SUSPENDED"
  have "find ?p (turns s) = Some row"
    using find_pk [of tkey "turns s" ?p key] assms(1,3,4) row_of_SomeD [OF assms(3)] by auto
  then have l: "load_resumable_sync sha loads False key s = (None, reject_resumable_sync False key s)"
    using assms(2,5,6) by (simp add: load_resumable_sync_def payload_digest_of_def)
  have upd: "row_of tkey k (map (\<lambda>r. if ?p r then close_row TERMINAL_REJECTED r else r) (turns s))
      = map_option (\<lambda>r. if ?p r then close_row TERMINAL_REJECTED r else r) (row_of tkey k (turns s))" for k
    by (rule row_of_update) (simp add: close_row_def)
  have "tkey row = key" using assms(3) row_of_SomeD by metis
  moreover have "map_option (\<lambda>r. if ?p r then close_row TERMINAL_REJECTED r else r) (row_of tkey k (turns s))
      = row_of tkey k (turns s)" if "k \<noteq> key" for k
    using that row_of_SomeD [of tkey k "turns s"] by (cases "row_of tkey k (turns s)") auto
  ultimately show ?thesis using assms(2-4) upd by (simp add: l reject_resumable_sync_def)
qed

theorem tampered_checkpoint_rejected_witness:
  "fst (load_resumable_sync (\<lambda>x. ''other'') ex_loads False ex_key ex_suspended) = None
   \<and> map_option status (row_of tkey ex_key
       (turns (snd (load_resumable_sync (\<lambda>x. ''other'') ex_loads False ex_key ex_suspended)))) = Some TERMINAL_REJECTED"
  using tampered_checkpoint_rejected [of ex_suspended ex_key
      "(suspend_row 9 ex_row)\<lparr>payload := Some ''{}'', payload_digest := Some (ex_sha ''{}'')\<rparr>"
      "''{}''" "\<lambda>x. ''other''" ex_loads]
  by (simp add: pk_ok_def ex_suspended_def ex_defs suspend_row_def row_of_def ex_sha_def close_row_def)

section \<open>Lease renewal\<close>

text \<open>
  A lease renewal never moves the expiry backwards. A heartbeat or checkpoint that
  succeeds, even one whose clock reading is older than the last renewal, leaves the expiry at
  the maximum of its old value and its own reading plus the TTL; the turn stays ACTIVE under
  the same token, and a heartbeat changes neither the revision nor the progress clock.
\<close>

theorem renewal_monotone:
  assumes "store_inv sha s"
    and "heartbeat_sync f1 tr tf l s = (Inr l1, s1)"
    and "checkpoint_sync sha f2 tr2 tp tf2 l1 pay progressed dl s1 = (Inr l2, s2)"
  shows "\<exists>r e r1 r2. row_of tkey (lease_key l) (turns s) = Some r \<and> lease_expires_at r = Some e
      \<and> row_of tkey (lease_key l) (turns s1) = Some r1
      \<and> lease_expires_at r1 = Some (max e (tr + lease_ttl s))
      \<and> revision r1 = revision r \<and> last_progress_at r1 = last_progress_at r \<and> l1 = l
      \<and> row_of tkey (lease_key l) (turns s2) = Some r2
      \<and> lease_expires_at r2 = Some (max (max e (tr + lease_ttl s)) (tr2 + lease_ttl s))
      \<and> revision r2 = revision r + 1 \<and> lease_token r2 = lease_token r \<and> status r2 = ACTIVE
      \<and> last_progress_at r2 = (if progressed then tp else last_progress_at r)"
proof -
  have inv1: "store_inv sha s1"
    using store.step_inv [OF store_step.heartbeat assms(1)] assms(2) by (metis snd_conv)
  obtain r where r: "row_of tkey (lease_key l) (turns s) = Some r" "turn_fence l tf r"
    "row_of tkey (lease_key l) (turns s1)
      = Some (r\<lparr>lease_expires_at := sql_max (lease_expires_at r) (tr + lease_ttl s), revision := lease_revision l1\<rparr>)"
    "l1 = l" "lease_ttl s1 = lease_ttl s"
    using fenced_update_Inr [OF assms(1) assms(2) [unfolded heartbeat_sync_def]] by auto
  obtain e where e: "lease_expires_at r = Some e"
    using r(2) by (auto simp: turn_fence_def lease_live_def split: option.splits)
  show ?thesis
    using fenced_update_Inr [OF inv1 assms(3) [unfolded checkpoint_sync_def Let_def]] r e
    by (auto simp: sql_max_def turn_fence_def split: option.splits if_splits)
qed

theorem renewal_monotone_witness:
  "\<exists>s1 l1 s2 l2 r2. heartbeat_sync False 50 60 ex_lease ex_store = (Inr l1, s1)
     \<and> checkpoint_sync ex_sha False 10 61 61 l1 JNull True None s1 = (Inr l2, s2)
     \<and> row_of tkey ex_key (turns s2) = Some r2 \<and> lease_expires_at r2 = Some 170"
proof -
  have h: "heartbeat_sync False 50 60 ex_lease ex_store
      = (Inr ex_lease, ex_store\<lparr>turns := [ex_row\<lparr>lease_expires_at := Some 170\<rparr>]\<rparr>)"
    by (simp add: heartbeat_sync_def fenced_update_def sql_update_def turn_fence_def lease_live_def
        sql_max_def ex_defs)
  obtain l2 s2 where c: "checkpoint_sync ex_sha False 10 61 61 ex_lease JNull True None
      (ex_store\<lparr>turns := [ex_row\<lparr>lease_expires_at := Some 170\<rparr>]\<rparr>) = (Inr l2, s2)"
    by (simp add: checkpoint_sync_def fenced_update_def sql_update_def turn_fence_def lease_live_def
        sql_max_def ex_defs Let_def)
  show ?thesis
    using renewal_monotone [OF ex_store_inv h c] h c by (auto simp: ex_defs row_of_def)
qed

section \<open>Blobs\<close>

lemma blob_kept_step:
  "durable_step sha s t \<Longrightarrow> blobs s d = Some x \<Longrightarrow> blobs t d = Some x"
  by (induction rule: durable_step.induct) auto

lemma load_stored_blob:
  "blobs s d = Some x \<Longrightarrow> sha x = d \<Longrightarrow> load_blob_sync sha (''blob:'' @ d) s = Inr x"
  by (simp add: load_blob_sync_def)

text \<open>
  Blobs round-trip, at any later time, and only intact. Where no other data has the same
  hash, the reference \<^verbatim>\<open>store_blob_sync\<close> returns loads exactly the stored bytes in every
  later state of the store; and whatever a load returns, in any store, hashes to the
  reference.
\<close>

theorem blob_round_trip:
  assumes "store_inv sha s" and "\<forall>x. sha x = sha d \<longrightarrow> x = d"
    and "store_blob_sync sha fault d s = (Inr ref, s1)" and "(store_step sha)\<^sup>*\<^sup>* s1 s2"
  shows "load_blob_sync sha ref s2 = Inr d
    \<and> (\<forall>s' x. load_blob_sync sha ref s' = Inr x \<longrightarrow> sha x = sha d)"
proof -
  have inv1: "store_inv sha s1"
    using store.step_inv [OF store_step.store_blob assms(1)] assms(3) by (metis snd_conv)
  have ref: "ref = ''blob:'' @ sha d"
    using assms(3) by (auto simp: store_blob_sync_def Let_def split: option.splits if_splits)
  have "blobs s1 (sha d) = Some d"
    using assms(1-3)
    by (auto simp: store_blob_sync_def Let_def store_inv_def split: option.splits if_splits)
  then have "blobs s2 (sha d) = Some d"
    using store.stable_steps [of sha "\<lambda>s. blobs s (sha d) = Some d"] assms(4) inv1
      store_stable [of sha "\<lambda>s. blobs s (sha d) = Some d"] blob_kept_step by blast
  then show ?thesis
    using ref load_stored_blob by (auto simp: load_blob_sync_def Let_def split: option.splits if_splits)
qed

theorem blob_round_trip_witness:
  "load_blob_sync ex_sha ''blob:#hi'' (close_store (snd (store_blob_sync ex_sha False ''hi'' ex_store))) = Inr ''hi''"
proof -
  have st: "store_blob_sync ex_sha False ''hi'' ex_store
      = (Inr ''blob:#hi'', ex_store\<lparr>blobs := (\<lambda>_. None)(''#hi'' := Some ''hi'')\<rparr>)"
    by (simp add: store_blob_sync_def ex_sha_def ex_store_def Let_def)
  let ?t = "ex_store\<lparr>blobs := (\<lambda>_. None)(''#hi'' := Some ''hi'')\<rparr>"
  have run: "(store_step ex_sha)\<^sup>*\<^sup>* ?t (close_store ?t)"
    by (intro r_into_rtranclp store_step.close)
  have inj: "\<forall>x. ex_sha x = ex_sha ''hi'' \<longrightarrow> x = ''hi''" by (simp add: ex_sha_def)
  show ?thesis unfolding st snd_conv
    by (rule blob_round_trip [OF ex_store_inv inj st run, THEN conjunct1])
qed

end
