(* ===== verification/Stuck_Loop.thy ===== *)
theory Stuck_Loop
  imports Json_Text
begin

text \<open>
  Stuck-loop detection of \<^verbatim>\<open>src/discord/response_guards.py\<close>: fingerprints of tool-call
  batches, the cycle detector and the bounded window of \<^verbatim>\<open>StuckLoopTracker\<close>. SHA-256 is
  the argument \<open>sha\<close>. The detector is compared with its specification (the tail is a
  cycle repeated often enough), and the window with the whole history.
\<close>

section \<open>Fingerprints\<close>

record call_dict =
  c_name :: string
  c_input :: "json option"
  c_arguments :: "json option"

definition call_args :: "call_dict \<Rightarrow> json" where
  "call_args tc =
     (let args = (case c_input tc of Some v \<Rightarrow> v
                  | None \<Rightarrow> (case c_arguments tc of Some v \<Rightarrow> v | None \<Rightarrow> JObj []))
      in case args of JObj _ \<Rightarrow> args | _ \<Rightarrow> JObj [])"

definition fingerprint_tool_calls :: "(string \<Rightarrow> string) \<Rightarrow> call_dict list \<Rightarrow> bool \<Rightarrow> string" where
  "fingerprint_tool_calls sha tool_calls names_only =
     (if tool_calls = [] then []
      else join ''|'' (map (\<lambda>tc. if names_only then c_name tc
          else c_name tc @ '':'' @ take 16 (sha (dumps_sorted '', '' '': '' (call_args tc)))) tool_calls))"

section \<open>The detector\<close>

text \<open>\<^verbatim>\<open>xs[-n:]\<close>; \<^verbatim>\<open>xs[-0:]\<close> is the whole list.\<close>

definition py_tail :: "nat \<Rightarrow> 'a list \<Rightarrow> 'a list" where
  "py_tail n xs = (if n = 0 then xs else drop (length xs - n) xs)"

definition cycle_matches :: "string list \<Rightarrow> nat \<Rightarrow> nat \<Rightarrow> bool" where
  "cycle_matches fps min_repeats cycle_len =
     (let needed = min_repeats * cycle_len in
      if length fps < needed then False
      else
        (let tail = py_tail needed fps; cycle = take cycle_len tail in
         list_ex (\<lambda>f. f \<noteq> []) cycle
         \<and> list_all (\<lambda>i. tail ! i = cycle ! (i mod cycle_len)) [cycle_len..<needed]))"

definition detect_stuck_from_fingerprints :: "string list \<Rightarrow> nat \<Rightarrow> nat \<Rightarrow> bool \<times> nat" where
  "detect_stuck_from_fingerprints fps min_repeats max_cycle_length =
     (if length fps < min_repeats then (False, 0)
      else case find (cycle_matches fps min_repeats) [1..<max_cycle_length + 1] of
          Some l \<Rightarrow> (True, l)
        | None \<Rightarrow> (False, 0))"

definition detect_stuck_loop ::
  "(string \<Rightarrow> string) \<Rightarrow> call_dict list list \<Rightarrow> nat \<Rightarrow> nat \<Rightarrow> bool \<Rightarrow> bool" where
  "detect_stuck_loop sha recent min_repeats max_cycle_length names_only =
     (if length recent < min_repeats then False
      else fst (detect_stuck_from_fingerprints
             (map (\<lambda>calls. fingerprint_tool_calls sha calls names_only) recent)
             min_repeats max_cycle_length))"

section \<open>The tracker\<close>

record stuck_tracker =
  fingerprints :: "string list"
  window_size :: nat
  min_repeats :: nat
  max_cycle_length :: nat
  names_only :: bool
  warned :: bool

definition new_tracker :: "nat \<Rightarrow> nat \<Rightarrow> nat \<Rightarrow> bool \<Rightarrow> stuck_tracker" where
  "new_tracker w r m n =
     \<lparr>fingerprints = [], window_size = w, min_repeats = r, max_cycle_length = m,
      names_only = n, warned = False\<rparr>"

text \<open>\<^verbatim>\<open>deque(maxlen=w)\<close>: appending past the bound drops the oldest entry.\<close>

definition deque_append :: "nat \<Rightarrow> 'a list \<Rightarrow> 'a \<Rightarrow> 'a list" where
  "deque_append w q x = (let q' = q @ [x] in drop (length q' - w) q')"

definition deque_extend :: "nat \<Rightarrow> 'a list \<Rightarrow> 'a list \<Rightarrow> 'a list" where
  "deque_extend w q xs = foldl (deque_append w) q xs"

definition record_fingerprint :: "string \<Rightarrow> stuck_tracker \<Rightarrow> stuck_tracker" where
  "record_fingerprint f t = t\<lparr>fingerprints := deque_append (window_size t) (fingerprints t) f\<rparr>"

definition record_calls :: "(string \<Rightarrow> string) \<Rightarrow> call_dict list \<Rightarrow> stuck_tracker \<Rightarrow> stuck_tracker" where
  "record_calls sha tool_calls t =
     t\<lparr>fingerprints := deque_append (window_size t) (fingerprints t)
         (fingerprint_tool_calls sha tool_calls (names_only t))\<rparr>"

definition check_detailed :: "stuck_tracker \<Rightarrow> bool \<times> nat" where
  "check_detailed t = detect_stuck_from_fingerprints (fingerprints t) (min_repeats t) (max_cycle_length t)"

definition check :: "stuck_tracker \<Rightarrow> bool" where
  "check t = fst (check_detailed t)"

definition last_fingerprint :: "stuck_tracker \<Rightarrow> string" where
  "last_fingerprint t = (if fingerprints t = [] then [] else last (fingerprints t))"

definition reset_tracker :: "stuck_tracker \<Rightarrow> stuck_tracker" where
  "reset_tracker t = t\<lparr>fingerprints := [], warned := False\<rparr>"

section \<open>The detector meets its specification\<close>

definition ends_in_cycle :: "string list \<Rightarrow> nat \<Rightarrow> nat \<Rightarrow> bool" where
  "ends_in_cycle fps r l \<longleftrightarrow>
     (\<exists>pre cycle. fps = pre @ concat (replicate r cycle) \<and> length cycle = l \<and> (\<exists>f\<in>set cycle. f \<noteq> []))"

lemma concat_replicate_nth:
  "i < r * length c \<Longrightarrow> concat (replicate r c) ! i = c ! (i mod length c)"
proof (induction r arbitrary: i)
  case 0
  then show ?case by simp
next
  case (Suc r)
  then show ?case
    by (cases "i < length c") (auto simp: nth_append le_mod_geq)
qed

lemma length_concat_replicate [simp]: "length (concat (replicate r c)) = r * length c"
  by (induction r) auto

lemma periodic_list_eq:
  assumes "length xs = r * l" "0 < l" "0 < r"
  shows "xs = concat (replicate r (take l xs))
     \<longleftrightarrow> (\<forall>i. l \<le> i \<and> i < r * l \<longrightarrow> xs ! i = take l xs ! (i mod l))"
proof -
  have l: "length (take l xs) = l" using assms by (cases r) auto
  have "xs = concat (replicate r (take l xs))
      \<longleftrightarrow> (\<forall>i<r * l. xs ! i = take l xs ! (i mod l))"
    unfolding list_eq_iff_nth_eq using assms(1) l concat_replicate_nth [of _ r "take l xs"] by auto
  also have "\<dots> \<longleftrightarrow> (\<forall>i. l \<le> i \<and> i < r * l \<longrightarrow> xs ! i = take l xs ! (i mod l))"
    using l by (metis mod_less not_le nth_take)
  finally show ?thesis .
qed

lemma take_concat_replicate: "0 < r \<Longrightarrow> take (length c) (concat (replicate r c)) = c"
  by (cases r) auto

lemma cycle_matches_iff:
  assumes "0 < r" "0 < l"
  shows "cycle_matches fps r l \<longleftrightarrow> ends_in_cycle fps r l"
proof
  assume m: "cycle_matches fps r l"
  let ?t = "drop (length fps - r * l) fps"
  have n: "r * l \<le> length fps" using m by (auto simp: cycle_matches_def Let_def split: if_splits)
  then have len: "length ?t = r * l" by simp
  have "?t = concat (replicate r (take l ?t))"
    unfolding periodic_list_eq [OF len assms(2,1)]
    using m assms by (auto simp: cycle_matches_def Let_def py_tail_def list_all_iff split: if_splits)
  then have "fps = take (length fps - r * l) fps @ concat (replicate r (take l ?t))"
    by (metis append_take_drop_id)
  moreover have "\<exists>f\<in>set (take l ?t). f \<noteq> []"
    using m assms by (auto simp: cycle_matches_def Let_def py_tail_def list_ex_iff split: if_splits)
  moreover have "length (take l ?t) = l" using len assms by (cases r) auto
  ultimately show "ends_in_cycle fps r l" unfolding ends_in_cycle_def by blast
next
  assume "ends_in_cycle fps r l"
  then obtain pre c where c: "fps = pre @ concat (replicate r c)" "length c = l" "\<exists>f\<in>set c. f \<noteq> []"
    unfolding ends_in_cycle_def by blast
  let ?t = "concat (replicate r c)"
  have t: "take l ?t = c" using take_concat_replicate [OF assms(1), of c] c(2) by simp
  have "?t ! i = c ! (i mod l)" if "i < r * l" for i
    using concat_replicate_nth [of i r c] c(2) that by simp
  moreover have "i mod l < r * l" if "i < r * l" for i
    using that by (meson mod_less_eq_dividend order_le_less_trans)
  ultimately have "?t ! i = ?t ! (i mod l)" if "i < r * l" for i
    using that by (metis mod_mod_trivial)
  then have "list_all (\<lambda>i. ?t ! i = ?t ! (i mod l)) [l..<r * l]"
    by (auto simp: list_all_iff)
  then show "cycle_matches fps r l"
    using c assms t by (simp add: cycle_matches_def py_tail_def Let_def list_ex_iff)
qed

lemma ends_in_cycle_length: "ends_in_cycle fps r l \<Longrightarrow> r * l \<le> length fps"
  by (auto simp: ends_in_cycle_def)

lemma find_upt_None: "find P [a..<b] = None \<longleftrightarrow> (\<forall>i. a \<le> i \<and> i < b \<longrightarrow> \<not> P i)"
  by (auto simp: find_None_iff)

lemma find_upt_Some: "find P [a..<b] = Some l \<longleftrightarrow> P l \<and> a \<le> l \<and> l < b \<and> (\<forall>i. a \<le> i \<and> i < l \<longrightarrow> \<not> P i)"
proof
  assume "find P [a..<b] = Some l"
  then obtain i where i: "i < b - a" "P (a + i)" "l = a + i" "\<And>j. j < i \<Longrightarrow> \<not> P (a + j)"
    by (auto simp: find_Some_iff)
  have "\<not> P k" if "a \<le> k" "k < l" for k
    using that i(3) i(4) [of "k - a"] by auto
  then show "P l \<and> a \<le> l \<and> l < b \<and> (\<forall>i. a \<le> i \<and> i < l \<longrightarrow> \<not> P i)" using i by auto
next
  assume "P l \<and> a \<le> l \<and> l < b \<and> (\<forall>i. a \<le> i \<and> i < l \<longrightarrow> \<not> P i)"
  then show "find P [a..<b] = Some l"
    unfolding find_Some_iff by (intro exI [of _ "l - a"]) auto
qed

text \<open>
  The stuck detector decides its specification exactly. It reports a cycle of length
  \<open>l\<close> when \<open>l\<close> is the least length from 1 to \<^verbatim>\<open>max_cycle_length\<close> such that the recorded batches
  end in \<^verbatim>\<open>min_repeats\<close> consecutive copies of one cycle of that length that is not made of
  empty batches only, and reports nothing when there is no such length.
\<close>

theorem detect_stuck_exact:
  assumes "0 < r"
  shows "detect_stuck_from_fingerprints fps r m =
     (if \<exists>l. 1 \<le> l \<and> l \<le> m \<and> ends_in_cycle fps r l
      then (True, LEAST l. 1 \<le> l \<and> l \<le> m \<and> ends_in_cycle fps r l)
      else (False, 0))"
proof -
  let ?P = "\<lambda>l. 1 \<le> l \<and> l \<le> m \<and> ends_in_cycle fps r l"
  have short: "\<not> ?P l" if "length fps < r" for l
    using that assms ends_in_cycle_length [of fps r l]
    by (metis One_nat_def leD le_trans mult.right_neutral mult_le_mono2)
  have cm: "cycle_matches fps r l = ends_in_cycle fps r l" if "1 \<le> l" for l
    using cycle_matches_iff [OF assms] that by simp
  show ?thesis
  proof (cases "find (cycle_matches fps r) [1..<m + 1]")
    case None
    then have "\<not> ?P l" for l unfolding find_upt_None using cm by auto
    then show ?thesis using None by (simp add: detect_stuck_from_fingerprints_def)
  next
    case (Some l)
    then have l: "?P l" "\<And>i. ?P i \<Longrightarrow> l \<le> i"
      unfolding find_upt_Some using cm by (auto simp: not_less [symmetric])
    then have "(LEAST l. ?P l) = l" by (rule Least_equality)
    moreover have "\<not> length fps < r" using short l(1) by blast
    moreover have "\<exists>l. ?P l" using l(1) by blast
    ultimately show ?thesis using Some by (simp add: detect_stuck_from_fingerprints_def)
  qed
qed

theorem detect_stuck_exact_witness:
  "detect_stuck_from_fingerprints [''x'', ''a'', ''b'', ''a'', ''b'', ''a'', ''b''] 3 3 = (True, 2)
   \<and> (if \<exists>l. 1 \<le> l \<and> l \<le> 3 \<and> ends_in_cycle [''x'', ''a'', ''b'', ''a'', ''b'', ''a'', ''b''] 3 l
      then (True, LEAST l. 1 \<le> l \<and> l \<le> 3 \<and> ends_in_cycle [''x'', ''a'', ''b'', ''a'', ''b'', ''a'', ''b''] 3 l)
      else (False, 0)) = (True, 2)"
proof -
  have "detect_stuck_from_fingerprints [''x'', ''a'', ''b'', ''a'', ''b'', ''a'', ''b''] 3 3 = (True, 2)"
    by code_simp
  then show ?thesis using detect_stuck_exact [of 3 "[''x'', ''a'', ''b'', ''a'', ''b'', ''a'', ''b'']" 3] by simp
qed

section \<open>The window loses nothing\<close>

definition last_n :: "nat \<Rightarrow> 'a list \<Rightarrow> 'a list" where
  "last_n w xs = drop (length xs - w) xs"

lemma deque_append_last_n: "deque_append w (last_n w xs) x = last_n w (xs @ [x])"
  by (cases "w \<le> length xs") (auto simp: deque_append_def last_n_def Let_def Suc_diff_le)

lemma deque_extend_last_n: "deque_extend w (last_n w xs) ys = last_n w (xs @ ys)"
proof (induction ys arbitrary: xs)
  case Nil
  then show ?case by (simp add: deque_extend_def)
next
  case (Cons y ys)
  have "deque_extend w (last_n w xs) (y # ys) = deque_extend w (last_n w (xs @ [y])) ys"
    by (simp add: deque_extend_def deque_append_last_n)
  then show ?case using Cons.IH [of "xs @ [y]"] by simp
qed

lemma record_all:
  "foldl (\<lambda>t f. record_fingerprint f t) (new_tracker w r m n) fs
   = (new_tracker w r m n)\<lparr>fingerprints := last_n w fs\<rparr>"
proof (induction fs rule: rev_induct)
  case Nil
  then show ?case by (simp add: new_tracker_def last_n_def)
next
  case (snoc x xs)
  then show ?case by (simp add: record_fingerprint_def new_tracker_def deque_append_last_n)
qed

lemma cycle_matches_last_n:
  assumes "r * l \<le> w"
  shows "cycle_matches (last_n w fs) (Suc r') l = cycle_matches fs (Suc r') l \<or> \<not> Suc r' * l \<le> w"
proof (cases "Suc r' * l \<le> w \<and> 0 < l")
  case True
  then have "drop (length (last_n w fs) - Suc r' * l) (last_n w fs) = drop (length fs - Suc r' * l) fs
      \<and> (length (last_n w fs) < Suc r' * l \<longleftrightarrow> length fs < Suc r' * l)"
    unfolding last_n_def by (auto simp: le_diff_conv intro!: arg_cong2 [of _ _ _ _ drop])
  then show ?thesis unfolding cycle_matches_def py_tail_def Let_def by (simp del: mult_Suc)
next
  case False
  then show ?thesis by (auto simp: cycle_matches_def Let_def)
qed

text \<open>
  The bounded deque of the tracker loses nothing when the window can hold
  \<^verbatim>\<open>min_repeats * max_cycle_length\<close> batches (it holds 12, and 3 * 3 are needed, in the defaults): however long the turn,
  \<^verbatim>\<open>check_detailed\<close> gives the verdict the detector would give on the whole history.
\<close>

theorem tracker_window_exact:
  assumes "0 < r" "r * max 1 m \<le> w"
  shows "check_detailed (foldl (\<lambda>t f. record_fingerprint f t) (new_tracker w r m n) history)
       = detect_stuck_from_fingerprints history r m"
proof -
  obtain r' where r: "r = Suc r'" using assms(1) by (cases r) auto
  have cm: "cycle_matches (last_n w history) r l = cycle_matches history r l" if "l \<in> set [1..<m + 1]" for l
  proof -
    have "r * l \<le> r * max 1 m" using that by auto
    then have "r * l \<le> w" using assms(2) by linarith
    then show ?thesis using cycle_matches_last_n [of r l w history r'] by (simp only: r) simp
  qed
  have "r \<le> r * max 1 m" by (simp add: max_def)
  then have "r \<le> w" using assms(2) by linarith
  then have "length (last_n w history) < r \<longleftrightarrow> length history < r" by (auto simp: last_n_def)
  then show ?thesis
    using find_cong [of "[1..<m + 1]" "[1..<m + 1]" "cycle_matches (last_n w history) r" "cycle_matches history r", OF refl cm]
    unfolding check_detailed_def record_all detect_stuck_from_fingerprints_def
    by (simp add: new_tracker_def del: upt_Suc)
qed

theorem tracker_window_exact_witness:
  "check_detailed (foldl (\<lambda>t f. record_fingerprint f t) (new_tracker 12 3 3 False)
     (replicate 10 ''z'' @ [''a'', ''b'', ''a'', ''b'', ''a'', ''b''])) = (True, 2)"
proof -
  have "detect_stuck_from_fingerprints (replicate 10 ''z'' @ [''a'', ''b'', ''a'', ''b'', ''a'', ''b'']) 3 3 = (True, 2)"
    by code_simp
  then show ?thesis
    using tracker_window_exact [of 3 3 12 False "replicate 10 ''z'' @ [''a'', ''b'', ''a'', ''b'', ''a'', ''b'']"] by simp
qed

text \<open>
  Two different batches with one fingerprint: with \<^verbatim>\<open>names_only\<close> the separator is not escaped,
  so the documented \<^emph>\<open>identical iff the tool call sequences are identical\<close> holds in one
  direction only.
\<close>

lemma names_only_fingerprint_collision:
  "fingerprint_tool_calls sha [\<lparr>c_name = ''a|b'', c_input = None, c_arguments = None\<rparr>] True
   = fingerprint_tool_calls sha [\<lparr>c_name = ''a'', c_input = None, c_arguments = None\<rparr>,
       \<lparr>c_name = ''b'', c_input = None, c_arguments = None\<rparr>] True"
  by (simp add: fingerprint_tool_calls_def)

end
