(* ===== verification/Turn_Codec.thy ===== *)
theory Turn_Codec
  imports Turn_Store_Integrity Stuck_Loop
begin

text \<open>
  The writing half of \<^verbatim>\<open>src/turn_state/codec.py\<close>: storage redaction, externalisation of image
  blocks, the tracker and trajectory exports and \<^verbatim>\<open>snapshot_chat_turn\<close>, with the inverse
  \<^verbatim>\<open>_inline_blocks\<close>, \<^verbatim>\<open>import_stuck_tracker\<close>. The pattern scrubber of output text and the
  tool-aware redaction of the tool loop are the arguments bundled in \<open>scrubbers\<close>; blob
  writes and reads are those of the turn store.
\<close>

record scrubbers =
  scrub_output_secrets :: "string \<Rightarrow> string"
  scrub_tool_input_for_storage :: "string \<Rightarrow> json \<Rightarrow> json"

section \<open>Storage redaction\<close>

definition lower_char :: "char \<Rightarrow> char" where
  "lower_char c = (if 65 \<le> (of_char c :: nat) \<and> (of_char c :: nat) \<le> 90
     then char_of ((of_char c :: nat) + 32) else c)"

definition STORAGE_SENSITIVE_KEYS :: "string list" where
  "STORAGE_SENSITIVE_KEYS =
     [''password'', ''passwd'', ''pwd'', ''passphrase'', ''secret'', ''clientsecret'', ''secretkey'',
      ''token'', ''apitoken'', ''accesstoken'', ''refreshtoken'', ''sessiontoken'', ''idtoken'',
      ''bearertoken'', ''authtoken'', ''apikey'', ''authorization'', ''auth'', ''bearer'',
      ''credential'', ''credentials'', ''privatekey'', ''accesskey'', ''secretaccesskey'',
      ''cookie'', ''setcookie'', ''sessionid'', ''csrftoken'']"

definition is_storage_sensitive_key :: "string \<Rightarrow> bool" where
  "is_storage_sensitive_key key \<longleftrightarrow>
     filter (\<lambda>c. c \<noteq> CHR ''-'' \<and> c \<noteq> CHR ''_'') (map lower_char key) \<in> set STORAGE_SENSITIVE_KEYS"

fun without_replay :: "json \<Rightarrow> json" where
  "without_replay (JObj kvs) =
     JObj (map (\<lambda>p. (fst p, without_replay (snd p))) (filter (\<lambda>p. fst p \<noteq> ''codex_replay'') kvs))"
| "without_replay (JList vs) = JList (map without_replay vs)"
| "without_replay v = v"

fun deep_scrub_strings :: "scrubbers \<Rightarrow> json \<Rightarrow> json" where
  "deep_scrub_strings e (JStr s) = JStr (scrub_output_secrets e s)"
| "deep_scrub_strings e (JList vs) = JList (map (deep_scrub_strings e) vs)"
| "deep_scrub_strings e (JObj kvs) =
     JObj (map (\<lambda>p. (fst p, if is_storage_sensitive_key (fst p) then JStr ''[redacted:sensitive-key]''
                            else deep_scrub_strings e (snd p))) kvs)"
| "deep_scrub_strings e v = v"

definition scrub_stored_tool_input :: "scrubbers \<Rightarrow> string \<Rightarrow> json \<Rightarrow> json" where
  "scrub_stored_tool_input e name tool_input =
     (let v = without_replay tool_input in
      deep_scrub_strings e (case v of JObj _ \<Rightarrow> scrub_tool_input_for_storage e name v | _ \<Rightarrow> v))"

text \<open>\<^verbatim>\<open>str(x or "")\<close> of a value the loop only ever stores as text.\<close>

definition text_of :: "json option \<Rightarrow> string" where
  "text_of v = (case v of Some (JStr s) \<Rightarrow> s | _ \<Rightarrow> [])"

definition scrub_text_field :: "scrubbers \<Rightarrow> string \<Rightarrow> dict \<Rightarrow> dict" where
  "scrub_text_field e key row =
     (case jget key row of Some (JStr s) \<Rightarrow> jset key (JStr (scrub_output_secrets e s)) row | _ \<Rightarrow> row)"

definition scrub_op_detail :: "scrubbers \<Rightarrow> json \<Rightarrow> json" where
  "scrub_op_detail e detail =
     (case detail of
        JObj row \<Rightarrow>
          (let row1 = (case jget ''input'' row of
                 Some v \<Rightarrow> jset ''input'' (scrub_stored_tool_input e (text_of (jget ''tool'' row)) v) row
               | None \<Rightarrow> row)
           in JObj (scrub_text_field e ''error'' (scrub_text_field e ''result'' row1)))
      | _ \<Rightarrow> detail)"

definition scrub_op_details :: "scrubbers \<Rightarrow> json list \<Rightarrow> json list" where
  "scrub_op_details e details = map (scrub_op_detail e) details"

definition is_obj :: "json option \<Rightarrow> bool" where
  "is_obj v = (case v of Some (JObj _) \<Rightarrow> True | _ \<Rightarrow> False)"

fun scrub_tool_use_inputs :: "scrubbers \<Rightarrow> json \<Rightarrow> json" where
  "scrub_tool_use_inputs e (JList vs) = JList (map (scrub_tool_use_inputs e) vs)"
| "scrub_tool_use_inputs e (JObj kvs) =
     (let obj = filter (\<lambda>p. fst p \<noteq> ''codex_replay'') kvs in
      if jget ''type'' obj = Some (JStr ''tool_use'') \<and> is_obj (jget ''input'' obj) then
        (case (without_replay (JObj obj), jget ''input'' obj) of
           (JObj clean, Some inp) \<Rightarrow>
             JObj (jset ''input'' (scrub_stored_tool_input e (text_of (jget ''name'' obj)) inp) clean)
         | _ \<Rightarrow> JObj obj)
      else JObj (map (\<lambda>p. (fst p, scrub_tool_use_inputs e (snd p)))
                   (filter (\<lambda>p. fst p \<noteq> ''codex_replay'') kvs)))"
| "scrub_tool_use_inputs e v = v"

section \<open>Image blocks\<close>

definition retired_desktop_frame :: json where
  "retired_desktop_frame = JObj [(''type'', JStr ''text''), (''text'', JStr
     ''[Private desktop pixels not retained in checkpoint; obtain a fresh observation.]'')]"

definition is_image :: "dict \<Rightarrow> bool" where
  "is_image kvs \<longleftrightarrow> jget ''type'' kvs = Some (JStr ''image'')"

definition is_desktop_frame :: "dict \<Rightarrow> bool" where
  "is_desktop_frame kvs \<longleftrightarrow> is_image kvs \<and> jhas ''__computer_frame__'' kvs"

text \<open>
  The image condition: an image whose source is an object of type \<open>ty\<close> with a string under
  \<open>key\<close>; the result is the source and that string.
\<close>

definition image_source :: "string \<Rightarrow> string \<Rightarrow> dict \<Rightarrow> (dict \<times> string) option" where
  "image_source ty key kvs =
     (if \<not> is_image kvs then None
      else case jget ''source'' kvs of
          Some (JObj src) \<Rightarrow>
            (if jget ''type'' src = Some (JStr ty)
             then case jget key src of Some (JStr d) \<Rightarrow> Some (src, d) | _ \<Rightarrow> None
             else None)
        | _ \<Rightarrow> None)"

text \<open>
  \<^verbatim>\<open>str.encode("ascii", "replace")\<close>. A blob decodes with the replacement character U+FFFD
  for a byte above 127, a character outside this model's range; it is written as 0xFF here.
\<close>

definition ascii_encode :: "string \<Rightarrow> bytes" where
  "ascii_encode = map (\<lambda>c. if (of_char c :: nat) < 128 then c else CHR ''?'')"

definition ascii_decode :: "bytes \<Rightarrow> string" where
  "ascii_decode = map (\<lambda>c. if (of_char c :: nat) < 128 then c else CHR 0xFF)"

definition blob_ref_block :: "dict \<Rightarrow> dict \<Rightarrow> string \<Rightarrow> json" where
  "blob_ref_block kvs src ref =
     JObj (jset ''source'' (JObj (jset ''ref'' (JStr ref) (jset ''type'' (JStr ''blob_ref'') (jdel ''data'' src)))) kvs)"

definition base64_block :: "dict \<Rightarrow> dict \<Rightarrow> string \<Rightarrow> json" where
  "base64_block kvs src data =
     JObj (jset ''source'' (JObj (jset ''data'' (JStr data) (jset ''type'' (JStr ''base64'') (jdel ''ref'' src)))) kvs)"

type_synonym 's blob_writer = "bytes \<Rightarrow> 's \<Rightarrow> (store_error + string) \<times> 's"

function (sequential) externalize_blocks :: "'s blob_writer \<Rightarrow> json \<Rightarrow> 's \<Rightarrow> (store_error + json) \<times> 's"
  and externalize_list :: "'s blob_writer \<Rightarrow> json list \<Rightarrow> 's \<Rightarrow> (store_error + json list) \<times> 's"
  and externalize_items :: "'s blob_writer \<Rightarrow> dict \<Rightarrow> 's \<Rightarrow> (store_error + dict) \<times> 's"
where
  "externalize_blocks sb (JList vs) s =
     (case externalize_list sb vs s of (Inl e, s') \<Rightarrow> (Inl e, s') | (Inr ws, s') \<Rightarrow> (Inr (JList ws), s'))"
| "externalize_blocks sb (JObj kvs) s =
     (if is_desktop_frame kvs then (Inr retired_desktop_frame, s)
      else case image_source ''base64'' ''data'' kvs of
          Some (src, d) \<Rightarrow>
            (case sb (ascii_encode d) s of
               (Inl e, s') \<Rightarrow> (Inl e, s')
             | (Inr ref, s') \<Rightarrow> (Inr (blob_ref_block kvs src ref), s'))
        | None \<Rightarrow>
            (case externalize_items sb kvs s of
               (Inl e, s') \<Rightarrow> (Inl e, s') | (Inr ws, s') \<Rightarrow> (Inr (JObj ws), s')))"
| "externalize_blocks sb v s = (Inr v, s)"
| "externalize_list sb [] s = (Inr [], s)"
| "externalize_list sb (v # vs) s =
     (case externalize_blocks sb v s of
        (Inl e, s') \<Rightarrow> (Inl e, s')
      | (Inr w, s') \<Rightarrow>
          (case externalize_list sb vs s' of (Inl e, s'') \<Rightarrow> (Inl e, s'') | (Inr ws, s'') \<Rightarrow> (Inr (w # ws), s'')))"
| "externalize_items sb [] s = (Inr [], s)"
| "externalize_items sb ((k, v) # kvs) s =
     (case externalize_blocks sb v s of
        (Inl e, s') \<Rightarrow> (Inl e, s')
      | (Inr w, s') \<Rightarrow>
          (case externalize_items sb kvs s' of
             (Inl e, s'') \<Rightarrow> (Inl e, s'') | (Inr ws, s'') \<Rightarrow> (Inr ((k, w) # ws), s'')))"
  by pat_completeness auto
termination
  by (relation "measure (case_sum (\<lambda>(_, v, _). size v)
        (case_sum (\<lambda>(_, vs, _). size_list size vs) (\<lambda>(_, kvs, _). size_list (size_prod (\<lambda>_. 0) size) kvs)))")
    auto

function (sequential) inline_blocks :: "(string \<Rightarrow> store_error + bytes) \<Rightarrow> json \<Rightarrow> store_error + json"
  and inline_list :: "(string \<Rightarrow> store_error + bytes) \<Rightarrow> json list \<Rightarrow> store_error + json list"
  and inline_items :: "(string \<Rightarrow> store_error + bytes) \<Rightarrow> dict \<Rightarrow> store_error + dict"
where
  "inline_blocks lb (JList vs) =
     (case inline_list lb vs of Inl e \<Rightarrow> Inl e | Inr ws \<Rightarrow> Inr (JList ws))"
| "inline_blocks lb (JObj kvs) =
     (if is_desktop_frame kvs then Inr retired_desktop_frame
      else case image_source ''blob_ref'' ''ref'' kvs of
          Some (src, ref) \<Rightarrow>
            (case lb ref of Inl e \<Rightarrow> Inl e | Inr data \<Rightarrow> Inr (base64_block kvs src (ascii_decode data)))
        | None \<Rightarrow> (case inline_items lb kvs of Inl e \<Rightarrow> Inl e | Inr ws \<Rightarrow> Inr (JObj ws)))"
| "inline_blocks lb v = Inr v"
| "inline_list lb [] = Inr []"
| "inline_list lb (v # vs) =
     (case inline_blocks lb v of
        Inl e \<Rightarrow> Inl e
      | Inr w \<Rightarrow> (case inline_list lb vs of Inl e \<Rightarrow> Inl e | Inr ws \<Rightarrow> Inr (w # ws)))"
| "inline_items lb [] = Inr []"
| "inline_items lb ((k, v) # kvs) =
     (case inline_blocks lb v of
        Inl e \<Rightarrow> Inl e
      | Inr w \<Rightarrow> (case inline_items lb kvs of Inl e \<Rightarrow> Inl e | Inr ws \<Rightarrow> Inr ((k, w) # ws)))"
  by pat_completeness auto
termination
  by (relation "measure (case_sum (\<lambda>(_, v). size v)
        (case_sum (\<lambda>(_, vs). size_list size vs) (\<lambda>(_, kvs). size_list (size_prod (\<lambda>_. 0) size) kvs)))")
    auto

section \<open>The stuck tracker\<close>

definition nat_json :: "nat \<Rightarrow> json" where
  "nat_json n = JInt (int n)"

definition export_stuck_tracker :: "stuck_tracker \<Rightarrow> dict" where
  "export_stuck_tracker t =
     [(''fingerprints'', JList (map JStr (fingerprints t))),
      (''window_size'', nat_json (window_size t)),
      (''min_repeats'', nat_json (min_repeats t)),
      (''max_cycle_length'', nat_json (max_cycle_length t)),
      (''names_only'', JBool (names_only t)),
      (''warned'', JBool (warned t))]"

text \<open>
  \<^verbatim>\<open>import_stuck_tracker\<close> on a state that has passed \<^verbatim>\<open>validate_payload\<close>: the numbers are
  positive integers, the fingerprints strings and the flags booleans, so \<^verbatim>\<open>int()\<close> and
  \<^verbatim>\<open>bool()\<close> are the identity on the values read here.
\<close>

definition nat_or :: "nat \<Rightarrow> json option \<Rightarrow> nat" where
  "nat_or d v = (case v of Some (JInt i) \<Rightarrow> nat i | _ \<Rightarrow> d)"

definition bool_or :: "bool \<Rightarrow> json option \<Rightarrow> bool" where
  "bool_or d v = (case v of Some (JBool b) \<Rightarrow> b | _ \<Rightarrow> d)"

definition strings_of :: "json option \<Rightarrow> string list" where
  "strings_of v = (case v of Some (JList vs) \<Rightarrow> map (\<lambda>x. text_of (Some x)) vs | _ \<Rightarrow> [])"

definition import_stuck_tracker :: "dict \<Rightarrow> stuck_tracker" where
  "import_stuck_tracker saved =
     (let t = new_tracker (nat_or 12 (jget ''window_size'' saved)) (nat_or 3 (jget ''min_repeats'' saved))
                (nat_or 3 (jget ''max_cycle_length'' saved)) (bool_or False (jget ''names_only'' saved))
      in t\<lparr>fingerprints := deque_extend (window_size t) (fingerprints t) (strings_of (jget ''fingerprints'' saved)),
           warned := bool_or False (jget ''warned'' saved)\<rparr>)"

section \<open>The trajectory\<close>

record trajectory =
  tj_message_id :: string
  tj_channel_id :: string
  tj_user_id :: string
  tj_user_name :: string
  tj_timestamp :: string
  tj_source :: string
  tj_user_content :: string
  tj_system_prompt :: string
  tj_history :: "json list"
  tj_iterations :: "dict list"
  tj_final_response :: string
  tj_tools_used :: "string list"
  tj_is_error :: bool
  tj_handoff :: bool
  tj_user_content_truncated :: bool
  tj_user_content_original_chars :: int
  tj_reply_turn :: bool
  tj_reply_context :: string
  tj_reply_context_truncated :: bool
  tj_total_input_tokens :: int
  tj_total_output_tokens :: int
  tj_total_duration_ms :: int
  tj_context_recoveries :: "json list"

definition scrubbed_call :: "scrubbers \<Rightarrow> json \<Rightarrow> json" where
  "scrubbed_call e tc =
     (case tc of
        JObj kvs \<Rightarrow> JObj (jset ''input'' (scrub_stored_tool_input e (text_of (jget ''name'' kvs))
            (case jget ''input'' kvs of Some v \<Rightarrow> v | None \<Rightarrow> JNull)) kvs)
      | _ \<Rightarrow> tc)"

definition scrubbed_iteration :: "scrubbers \<Rightarrow> dict \<Rightarrow> dict" where
  "scrubbed_iteration e row =
     (let row1 = map (\<lambda>p. (fst p, without_replay (snd p))) (filter (\<lambda>p. fst p \<noteq> ''codex_replay'') row) in
      case jget ''tool_calls'' row1 of
        Some (JList calls) \<Rightarrow> jset ''tool_calls'' (JList (map (scrubbed_call e) calls)) row1
      | _ \<Rightarrow> row1)"

definition trajectory_to_payload :: "scrubbers \<Rightarrow> trajectory \<Rightarrow> dict" where
  "trajectory_to_payload e t =
     [(''message_id'', JStr (tj_message_id t)),
      (''channel_id'', JStr (tj_channel_id t)),
      (''user_id'', JStr (tj_user_id t)),
      (''user_name'', JStr (tj_user_name t)),
      (''timestamp'', JStr (tj_timestamp t)),
      (''source'', JStr (tj_source t)),
      (''user_content'', JStr (tj_user_content t)),
      (''system_prompt'', JStr (tj_system_prompt t)),
      (''history'', JList (map without_replay (tj_history t))),
      (''iterations'', JList (map (\<lambda>it. JObj (scrubbed_iteration e it)) (tj_iterations t))),
      (''final_response'', JStr (tj_final_response t)),
      (''tools_used'', JList (map JStr (tj_tools_used t))),
      (''is_error'', JBool (tj_is_error t)),
      (''handoff'', JBool (tj_handoff t)),
      (''user_content_truncated'', JBool (tj_user_content_truncated t)),
      (''user_content_original_chars'', JInt (tj_user_content_original_chars t)),
      (''reply_turn'', JBool (tj_reply_turn t)),
      (''reply_context'', JStr (tj_reply_context t)),
      (''reply_context_truncated'', JBool (tj_reply_context_truncated t)),
      (''total_input_tokens'', JInt (tj_total_input_tokens t)),
      (''total_output_tokens'', JInt (tj_total_output_tokens t)),
      (''total_duration_ms'', JInt (tj_total_duration_ms t)),
      (''context_recoveries'', JList (tj_context_recoveries t)),
      (''iteration_revision'', nat_json (length (tj_iterations t)))]"

section \<open>The snapshot\<close>

definition CODEC_VERSION :: int where
  "CODEC_VERSION = 4"

record chat_turn =
  ct_system_prompt :: string
  ct_messages :: "json list"
  ct_user_id :: string
  ct_chat_cap :: int
  ct_iteration :: int
  ct_tools_used_in_loop :: "string list"
  ct_continuation_count :: int
  ct_max_continuations :: int
  ct_fabrication_retried :: bool
  ct_promise_retried :: bool
  ct_unavail_retried :: bool
  ct_hedging_retried :: bool
  ct_code_hedging_retried :: bool
  ct_premature_failure_retried :: bool
  ct_wait_judgment_pending :: bool
  ct_pending_image_blocks :: "json list"
  ct_op_tool_details :: "json list"
  ct_pending_validations :: "string list"
  ct_validation_required :: bool
  ct_validation_retries :: int
  ct_max_validation_retries :: int
  ct_result_store_cap :: int
  ct_ch_id :: string
  ct_req_id :: string
  ct_stuck_tracker :: stuck_tracker
  ct_trajectory :: trajectory
  ct_boundary_request_start :: int
  ct_boundary_elided_replay :: int
  ct_boundary_envelope_len :: "int option"
  ct_char_latch :: "int option"
  ct_rescue_passes :: int
  ct_gen_identity :: "dict option"

definition opt_int_json :: "int option \<Rightarrow> json" where
  "opt_int_json v = (case v of Some i \<Rightarrow> JInt i | None \<Rightarrow> JNull)"

definition snapshot_fields :: "scrubbers \<Rightarrow> chat_turn \<Rightarrow> json list \<Rightarrow> json list \<Rightarrow> dict" where
  "snapshot_fields e st ext_messages ext_images =
     [(''system_prompt'', JStr (ct_system_prompt st)),
      (''messages'', scrub_tool_use_inputs e (JList ext_messages)),
      (''user_id'', JStr (ct_user_id st)),
      (''chat_cap'', JInt (ct_chat_cap st)),
      (''iteration'', JInt (ct_iteration st)),
      (''tools_used_in_loop'', JList (map JStr (ct_tools_used_in_loop st))),
      (''continuation_count'', JInt (ct_continuation_count st)),
      (''max_continuations'', JInt (ct_max_continuations st)),
      (''fabrication_retried'', JBool (ct_fabrication_retried st)),
      (''promise_retried'', JBool (ct_promise_retried st)),
      (''unavail_retried'', JBool (ct_unavail_retried st)),
      (''hedging_retried'', JBool (ct_hedging_retried st)),
      (''code_hedging_retried'', JBool (ct_code_hedging_retried st)),
      (''premature_failure_retried'', JBool (ct_premature_failure_retried st)),
      (''wait_judgment_pending'', JBool (ct_wait_judgment_pending st)),
      (''pending_image_blocks'', JList ext_images),
      (''_op_tool_details'', JList (scrub_op_details e (ct_op_tool_details st))),
      (''_pending_validations'', JList (map JStr (ct_pending_validations st))),
      (''_validation_required'', JBool (ct_validation_required st)),
      (''_validation_retries'', JInt (ct_validation_retries st)),
      (''_max_validation_retries'', JInt (ct_max_validation_retries st)),
      (''_result_store_cap'', JInt (ct_result_store_cap st)),
      (''_ch_id'', JStr (ct_ch_id st)),
      (''_req_id'', JStr (ct_req_id st)),
      (''stuck_tracker'', JObj (export_stuck_tracker (ct_stuck_tracker st))),
      (''_trajectory'', JObj (trajectory_to_payload e (ct_trajectory st))),
      (''_boundary_request_start'', JInt (ct_boundary_request_start st)),
      (''_boundary_elided_replay'', JInt (ct_boundary_elided_replay st)),
      (''_boundary_envelope_len'', opt_int_json (ct_boundary_envelope_len st)),
      (''_char_latch'', opt_int_json (ct_char_latch st)),
      (''_rescue_passes'', JInt (ct_rescue_passes st)),
      (''_gen_identity'', (case ct_gen_identity st of
          Some g \<Rightarrow> (if g = [] then JNull else JObj g) | None \<Rightarrow> JNull))]"

definition snapshot_chat_turn ::
  "scrubbers \<Rightarrow> chat_turn \<Rightarrow> 's blob_writer \<Rightarrow> int \<Rightarrow> dict \<Rightarrow> 's \<Rightarrow> (store_error + json) \<times> 's" where
  "snapshot_chat_turn e st store_blob seq extra s =
     (case externalize_list store_blob (ct_messages st) s of
        (Inl err, s1) \<Rightarrow> (Inl err, s1)
      | (Inr msgs, s1) \<Rightarrow>
          (case externalize_list store_blob (ct_pending_image_blocks st) s1 of
             (Inl err, s2) \<Rightarrow> (Inl err, s2)
           | (Inr imgs, s2) \<Rightarrow>
               (Inr (JObj ([(''codec_version'', JInt CODEC_VERSION), (''policy'', JStr ''chat''),
                            (''generation_seq'', JInt seq),
                            (''fields'', JObj (snapshot_fields e st msgs imgs))]
                           @ (if extra = [] then [] else [(''extra'', JObj extra)]))), s2)))"

end
