(* ===== verification/Turn_Validate.thy ===== *)
theory Turn_Validate
  imports Turn_Codec
begin

text \<open>
  The reading half of \<^verbatim>\<open>src/turn_state/codec.py\<close>: \<^verbatim>\<open>validate_payload\<close> and
  \<^verbatim>\<open>restore_field_values\<close>. The validator raises at the first failed check and mutates the
  payload it is given (version-scoped defaults); here it returns the error or the
  normalised payload. An error carries the name of the offending field in place of the full
  message. \<^verbatim>\<open>x in frozenset\<close> raises \<^verbatim>\<open>TypeError\<close> when \<open>x\<close> is a list or an object.
\<close>

datatype codec_error = CheckpointInvalidError string | Unhashable | Blob_failure store_error

section \<open>Checks\<close>

definition first_error :: "(bool \<times> codec_error) list \<Rightarrow> codec_error option" where
  "first_error checks = map_option snd (find (\<lambda>c. \<not> fst c) checks)"

definition null_or_nat :: "json \<Rightarrow> bool" where
  "null_or_nat v \<longleftrightarrow> v = JNull \<or> int_from 0 v"

section \<open>The schema\<close>

definition PERSISTED_FIELDS :: "string list" where
  "PERSISTED_FIELDS =
     [''system_prompt'', ''messages'', ''user_id'', ''chat_cap'', ''iteration'', ''tools_used_in_loop'',
      ''continuation_count'', ''max_continuations'', ''fabrication_retried'', ''promise_retried'',
      ''unavail_retried'', ''hedging_retried'', ''code_hedging_retried'', ''premature_failure_retried'',
      ''wait_judgment_pending'', ''pending_image_blocks'', ''_op_tool_details'', ''_pending_validations'',
      ''_validation_required'', ''_validation_retries'', ''_max_validation_retries'',
      ''_result_store_cap'', ''_ch_id'', ''_req_id'', ''stuck_tracker'', ''_trajectory'',
      ''_boundary_request_start'', ''_boundary_elided_replay'', ''_boundary_envelope_len'',
      ''_char_latch'', ''_rescue_passes'', ''_gen_identity'']"

definition V3_FIELD_DEFAULTS :: dict where
  "V3_FIELD_DEFAULTS =
     [(''_boundary_request_start'', JInt 0), (''_boundary_elided_replay'', JInt 0), (''_char_latch'', JNull),
      (''_rescue_passes'', JInt 0), (''_gen_identity'', JNull)]"

definition V4_FIELD_DEFAULTS :: dict where
  "V4_FIELD_DEFAULTS = [(''_boundary_envelope_len'', JNull)]"

definition GEN_IDENTITY_KEYS :: "string list" where
  "GEN_IDENTITY_KEYS = [''provider'', ''model'', ''effort'', ''upstream_provider'', ''ladder'', ''budget'', ''attempts'']"

definition GEN_IDENTITY_V3_KEYS :: "string list" where
  "GEN_IDENTITY_V3_KEYS = [''provider'', ''model'', ''effort'', ''ladder'']"

definition GEN_ATTEMPT_KEYS :: "string list" where
  "GEN_ATTEMPT_KEYS = [''attempt'', ''account_key'', ''server_input_tokens'']"

definition GEN_PROVIDERS :: "string list" where
  "GEN_PROVIDERS = [''codex'', ''ollama'', ''compat'', ''kimi'']"

definition CODEX_REASONING_EFFORTS :: "string list" where
  "CODEX_REASONING_EFFORTS = [''none'', ''low'', ''medium'', ''high'', ''xhigh'', ''max'']"

definition CODEX_MODEL_UNSUPPORTED_EFFORTS :: "(string \<times> string list) list" where
  "CODEX_MODEL_UNSUPPORTED_EFFORTS =
     [(''gpt-5.4'', [''max'']), (''gpt-5.4-mini'', [''max'']), (''gpt-6-astra'', [''none'']),
      (''gpt-6.1-sol'', [''none''])]"

definition model_rejects_effort :: "string \<Rightarrow> string \<Rightarrow> bool" where
  "model_rejects_effort model effort =
     (if model = [] \<or> effort = [] then False
      else case map_of CODEX_MODEL_UNSUPPORTED_EFFORTS (strip model) of
          None \<Rightarrow> False | Some unsupported \<Rightarrow> effort \<in> set unsupported)"

definition GUARD_FLAG_FIELDS :: "string list" where
  "GUARD_FLAG_FIELDS =
     [''fabrication_retried'', ''promise_retried'', ''unavail_retried'', ''hedging_retried'',
      ''code_hedging_retried'', ''premature_failure_retried'', ''_validation_required'',
      ''wait_judgment_pending'']"

definition NON_NEGATIVE_INT_FIELDS :: "string list" where
  "NON_NEGATIVE_INT_FIELDS =
     [''iteration'', ''continuation_count'', ''max_continuations'', ''_validation_retries'',
      ''_max_validation_retries'']"

definition POSITIVE_INT_FIELDS :: "string list" where
  "POSITIVE_INT_FIELDS = [''chat_cap'', ''_result_store_cap'']"

definition STRING_FIELDS :: "string list" where
  "STRING_FIELDS = [''system_prompt'', ''user_id'', ''_ch_id'', ''_req_id'']"

definition STR_LIST_FIELDS :: "string list" where
  "STR_LIST_FIELDS = [''tools_used_in_loop'', ''_pending_validations'']"

definition DICT_LIST_FIELDS :: "string list" where
  "DICT_LIST_FIELDS = [''pending_image_blocks'', ''_op_tool_details'']"

definition STUCK_TRACKER_KEYS :: "string list" where
  "STUCK_TRACKER_KEYS =
     [''fingerprints'', ''window_size'', ''min_repeats'', ''max_cycle_length'', ''names_only'', ''warned'']"

section \<open>Normalisation\<close>

definition set_default :: "dict \<Rightarrow> string \<times> json \<Rightarrow> dict" where
  "set_default kvs d = (if jhas (fst d) kvs then kvs else jset (fst d) (snd d) kvs)"

definition normalize_fields :: "int \<Rightarrow> dict \<Rightarrow> dict" where
  "normalize_fields version fs =
     (let f1 = (if version = 1 then set_default fs (''wait_judgment_pending'', JBool False) else fs);
          f2 = (if version \<le> 2 then foldl set_default f1 V3_FIELD_DEFAULTS else f1)
      in if version \<le> 3 then foldl set_default f2 V4_FIELD_DEFAULTS else f2)"

section \<open>The groups of checks, in the order of the source\<close>

definition field_check :: "(json \<Rightarrow> bool) \<Rightarrow> dict \<Rightarrow> string list \<Rightarrow> (bool \<times> codec_error) list" where
  "field_check p fs names = map (\<lambda>n. (p (fget n fs), CheckpointInvalidError n)) names"

definition check_envelope :: "dict \<Rightarrow> codec_error option" where
  "check_envelope pl =
     first_error
       [(int_from 1 (fget ''codec_version'' pl) \<and> int_val (fget ''codec_version'' pl) \<le> CODEC_VERSION,
         CheckpointInvalidError ''codec_version''),
        (fget ''policy'' pl = JStr ''chat'', CheckpointInvalidError ''policy''),
        (int_from 0 (fget ''generation_seq'' pl), CheckpointInvalidError ''generation_seq''),
        (is_dict (fget ''fields'' pl), CheckpointInvalidError ''fields'')]"

definition check_field_set :: "dict \<Rightarrow> codec_error option" where
  "check_field_set fs =
     first_error
       [(list_all (\<lambda>n. jhas n fs) PERSISTED_FIELDS, CheckpointInvalidError ''missing''),
        (list_all (\<lambda>k. k \<in> set PERSISTED_FIELDS) (jkeys fs), CheckpointInvalidError ''unknown'')]"

definition check_scalars :: "dict \<Rightarrow> codec_error option" where
  "check_scalars fs =
     first_error
       (field_check is_bool fs GUARD_FLAG_FIELDS
        @ field_check (int_from 0) fs NON_NEGATIVE_INT_FIELDS
        @ field_check (int_from 1) fs POSITIVE_INT_FIELDS
        @ field_check is_str fs STRING_FIELDS
        @ field_check (list_of is_str) fs STR_LIST_FIELDS
        @ field_check (list_of is_dict) fs DICT_LIST_FIELDS
        @ [(int_val (fget ''continuation_count'' fs) \<le> int_val (fget ''max_continuations'' fs),
            CheckpointInvalidError ''continuation_count''),
           (int_val (fget ''_validation_retries'' fs) \<le> int_val (fget ''_max_validation_retries'' fs),
            CheckpointInvalidError ''_validation_retries''),
           (int_val (fget ''iteration'' fs) \<le> int_val (fget ''chat_cap'' fs),
            CheckpointInvalidError ''iteration'')])"

definition check_tracker :: "dict \<Rightarrow> codec_error option" where
  "check_tracker fs =
     (let tracker = fget ''stuck_tracker'' fs; kvs = entries tracker;
          err = CheckpointInvalidError ''stuck_tracker''
      in first_error
           [(is_dict tracker \<and> same_keys (jkeys kvs) STUCK_TRACKER_KEYS, err),
            (list_of is_str (fget ''fingerprints'' kvs), err),
            (int_from 1 (fget ''window_size'' kvs), err),
            (int_from 1 (fget ''min_repeats'' kvs), err),
            (int_from 1 (fget ''max_cycle_length'' kvs), err),
            (is_bool (fget ''names_only'' kvs), err),
            (is_bool (fget ''warned'' kvs), err)])"

definition check_trajectory :: "dict \<Rightarrow> codec_error option" where
  "check_trajectory fs =
     (let trajectory = fget ''_trajectory'' fs; kvs = entries trajectory;
          err = CheckpointInvalidError ''_trajectory''
      in first_error
           [(is_dict trajectory, err),
            (list_of is_dict (fget ''iterations'' kvs), err),
            (int_from 0 (fget ''iteration_revision'' kvs), err),
            (list_of (\<lambda>_. True) (case jget ''history'' kvs of Some v \<Rightarrow> v | None \<Rightarrow> JList []), err)])"

definition message_ok :: "json \<Rightarrow> bool" where
  "message_ok msg \<longleftrightarrow>
     is_dict msg \<and> is_str (fget ''role'' (entries msg))
     \<and> (case fget ''content'' (entries msg) of
          JList blocks \<Rightarrow> list_all is_dict blocks
        | JStr _ \<Rightarrow> True
        | _ \<Rightarrow> False)"

definition replay_marker :: "int \<Rightarrow> string" where
  "replay_marker n = ''[Context recovery: '' @ int_text n @ '' older conversation messages elided]''"

definition check_transcript :: "int \<Rightarrow> dict \<Rightarrow> codec_error option" where
  "check_transcript version fs =
     (let messages = items (fget ''messages'' fs);
          envelope_len = fget ''_boundary_envelope_len'' fs;
          request_start = int_val (fget ''_boundary_request_start'' fs);
          elided_replay = int_val (fget ''_boundary_elided_replay'' fs)
      in first_error
           ([(list_of (\<lambda>_. True) (fget ''messages'' fs), CheckpointInvalidError ''messages'')]
            @ field_check (int_from 0) fs
                [''_boundary_request_start'', ''_boundary_elided_replay'', ''_rescue_passes'']
            @ [(null_or_nat envelope_len, CheckpointInvalidError ''_boundary_envelope_len''),
               (\<not> (4 \<le> version \<and> envelope_len = JNull), CheckpointInvalidError ''_boundary_envelope_len''),
               (null_or_nat (fget ''_char_latch'' fs), CheckpointInvalidError ''_char_latch''),
               (list_all message_ok messages, CheckpointInvalidError ''messages''),
               (request_start \<le> int (length messages), CheckpointInvalidError ''_boundary_request_start''),
               (envelope_len = JNull \<or> request_start + int_val envelope_len \<le> int (length messages),
                CheckpointInvalidError ''_boundary_envelope_len''),
               (elided_replay = 0
                \<or> (1 \<le> request_start \<and> messages \<noteq> []
                    \<and> jget ''content'' (entries (hd messages)) = Some (JStr (replay_marker elided_replay))),
                CheckpointInvalidError ''_boundary_elided_replay'')]))"

definition hex32 :: "json \<Rightarrow> bool" where
  "hex32 v = (case v of JNull \<Rightarrow> True
      | JStr s \<Rightarrow> length s = 32 \<and> list_all (\<lambda>c. c \<in> set ''0123456789abcdef'') s | _ \<Rightarrow> False)"

definition attempt_ok :: "int \<times> json \<Rightarrow> bool" where
  "attempt_ok ia =
     (is_dict (snd ia)
      \<and> (let kvs = entries (snd ia) in
         same_keys (jkeys kvs) GEN_ATTEMPT_KEYS
         \<and> eq_int (fget ''attempt'' kvs) (fst ia)
         \<and> hex32 (fget ''account_key'' kvs)
         \<and> null_or_nat (fget ''server_input_tokens'' kvs)))"

definition ladder_ok :: "json \<Rightarrow> bool" where
  "ladder_ok ladder \<longleftrightarrow>
     (case ladder of JList vs \<Rightarrow> vs \<noteq> [] \<and> list_all (int_from 1) vs
        \<and> map int_val vs = rev (sort (remdups (map int_val vs))) | _ \<Rightarrow> False)"

definition legacy_identity :: "int \<Rightarrow> dict \<Rightarrow> bool" where
  "legacy_identity version gen \<longleftrightarrow> version = 3 \<and> same_keys (jkeys gen) GEN_IDENTITY_V3_KEYS"

definition upgrade_identity :: "int \<Rightarrow> int \<Rightarrow> dict \<Rightarrow> dict" where
  "upgrade_identity version rescue_passes gen =
     (if legacy_identity version gen then
        (let ladder = map int_val (items (fget ''ladder'' gen)) in
         jset ''attempts'' (JList (map (\<lambda>i. JObj [(''attempt'', JInt i), (''account_key'', JNull),
             (''server_input_tokens'', JNull)]) [1..rescue_passes]))
           (jset ''budget'' (JObj [(''primary_chars'', JInt (foldr max ladder 0))]) gen))
      else gen)"

definition check_identity_head :: "int \<Rightarrow> int \<Rightarrow> dict \<Rightarrow> codec_error option" where
  "check_identity_head version rescue_passes gen =
     (let err = CheckpointInvalidError ''_gen_identity'';
          provider = fget ''provider'' gen; model = fget ''model'' gen; effort = fget ''effort'' gen;
          codex = (provider = JStr ''codex'')
      in first_error
           [(same_keys (jkeys gen) GEN_IDENTITY_KEYS \<or> legacy_identity version gen, err),
            (\<not> unhashable provider, Unhashable),
            (provider \<in> JStr ` set GEN_PROVIDERS, err),
            (is_str model \<and> strip (text_of (Some model)) \<noteq> [], err),
            (\<not> (codex \<and> unhashable effort), Unhashable),
            (\<not> codex \<or> effort \<in> JStr ` set CODEX_REASONING_EFFORTS, err),
            (\<not> (codex \<and> model_rejects_effort (text_of (Some model)) (text_of (Some effort))), err),
            (codex \<or> effort = JNull, err),
            (ladder_ok (fget ''ladder'' gen), err),
            (1 \<le> rescue_passes \<and> rescue_passes \<le> int (length (items (fget ''ladder'' gen))),
             CheckpointInvalidError ''_rescue_passes'')])"

definition check_identity_tail :: "int \<Rightarrow> dict \<Rightarrow> codec_error option" where
  "check_identity_tail rescue_passes gen =
     (let err = CheckpointInvalidError ''_gen_identity'';
          budget = fget ''budget'' gen; chars = fget ''primary_chars'' (entries budget);
          attempts = fget ''attempts'' gen
      in first_error
           ([(is_dict budget \<and> same_keys (jkeys (entries budget)) [''primary_chars''] \<and> int_from 0 chars, err),
             (list_all (\<lambda>rung. int_val rung \<le> int_val chars) (items (fget ''ladder'' gen)), err),
             (list_of (\<lambda>_. True) attempts \<and> int (length (items attempts)) = rescue_passes, err)]
            @ map (\<lambda>ia. (attempt_ok ia, err)) (zip [1..int (length (items attempts))] (items attempts))))"

definition check_gen_identity :: "int \<Rightarrow> dict \<Rightarrow> codec_error + dict" where
  "check_gen_identity version fs =
     (let rescue_passes = int_val (fget ''_rescue_passes'' fs) in
      case fget ''_gen_identity'' fs of
        JNull \<Rightarrow> if rescue_passes \<noteq> 0 then Inl (CheckpointInvalidError ''_rescue_passes'') else Inr fs
      | JObj gen \<Rightarrow>
          (case check_identity_head version rescue_passes gen of
             Some err \<Rightarrow> Inl err
           | None \<Rightarrow>
               (let gen' = upgrade_identity version rescue_passes gen in
                case check_identity_tail rescue_passes gen' of
                  Some err \<Rightarrow> Inl err
                | None \<Rightarrow> Inr (if legacy_identity version gen then jset ''_gen_identity'' (JObj gen') fs
                               else fs)))
      | _ \<Rightarrow> Inl (CheckpointInvalidError ''_gen_identity''))"

definition check_fields :: "int \<Rightarrow> dict \<Rightarrow> codec_error option" where
  "check_fields version fs =
     first_error
       (map (\<lambda>r. (r = None, the r))
          [check_field_set fs, check_scalars fs, check_tracker fs, check_trajectory fs,
           check_transcript version fs])"

definition validate_payload :: "json \<Rightarrow> codec_error + json" where
  "validate_payload v =
     (case v of
        JObj pl \<Rightarrow>
          (case check_envelope pl of
             Some err \<Rightarrow> Inl err
           | None \<Rightarrow>
               (let version = int_val (fget ''codec_version'' pl);
                    fs = normalize_fields version (entries (fget ''fields'' pl))
                in case check_fields version fs of
                     Some err \<Rightarrow> Inl err
                   | None \<Rightarrow>
                       (case check_gen_identity version fs of
                          Inl err \<Rightarrow> Inl err
                        | Inr fs' \<Rightarrow> Inr (JObj (jset ''fields'' (JObj fs') pl)))))
      | _ \<Rightarrow> Inl (CheckpointInvalidError ''payload''))"

section \<open>Restore\<close>

record restored_fields =
  rf_fields :: dict
  rf_messages :: "json list"
  rf_pending_image_blocks :: "json list"
  rf_stuck_tracker :: stuck_tracker

text \<open>
  \<^verbatim>\<open>restore_field_values\<close>: the constructor arguments. The trajectory object is rebuilt
  by \<^verbatim>\<open>trajectory_from_payload\<close>, which is not modelled: its payload stays in \<open>rf_fields\<close>.
\<close>

definition restore_field_values :: "(string \<Rightarrow> store_error + bytes) \<Rightarrow> json \<Rightarrow> codec_error + restored_fields" where
  "restore_field_values load_blob v =
     (case validate_payload v of
        Inl err \<Rightarrow> Inl err
      | Inr pl \<Rightarrow>
          (let fs = entries (fget ''fields'' (entries pl)) in
           case inline_list load_blob (items (fget ''messages'' fs)) of
             Inl e \<Rightarrow> Inl (Blob_failure e)
           | Inr messages \<Rightarrow>
               (case inline_list load_blob (items (fget ''pending_image_blocks'' fs)) of
                  Inl e \<Rightarrow> Inl (Blob_failure e)
                | Inr images \<Rightarrow>
                    Inr \<lparr>rf_fields = fs, rf_messages = messages, rf_pending_image_blocks = images,
                         rf_stuck_tracker = import_stuck_tracker (entries (fget ''stuck_tracker'' fs))\<rparr>)))"

end
