(* ===== verification/Turn_Images.thy ===== *)
theory Turn_Images
  imports Turn_Validate
begin

text \<open>
  Image blocks survive a checkpoint. The client side (\<^verbatim>\<open>_externalize_blocks\<close> and
  \<^verbatim>\<open>_inline_blocks\<close> of the codec) is proved once over the interface \<open>blob_store\<close>, which the
  turn store's \<^verbatim>\<open>store_blob_sync\<close> and \<^verbatim>\<open>load_blob_sync\<close> implement.
\<close>

section \<open>What a blob store promises\<close>

locale blob_store =
  fixes put :: "bytes \<Rightarrow> 's \<Rightarrow> (store_error + string) \<times> 's"
    and get :: "string \<Rightarrow> 's \<Rightarrow> store_error + bytes"
    and later :: "'s \<Rightarrow> 's \<Rightarrow> bool"
    and ok :: "'s \<Rightarrow> bool"
    and good :: "bytes \<Rightarrow> bool"
  assumes later_refl: "later s s"
    and later_trans: "later s t \<Longrightarrow> later t u \<Longrightarrow> later s u"
    and put_ok: "ok s \<Longrightarrow> ok (snd (put d s))"
    and put_later: "later s (snd (put d s))"
    and put_get: "ok s \<Longrightarrow> good d \<Longrightarrow> put d s = (Inr ref, s1) \<Longrightarrow> later s1 s2 \<Longrightarrow> get ref s2 = Inr d"

section \<open>Well-formed transcripts\<close>

definition ascii :: "string \<Rightarrow> bool" where
  "ascii d \<longleftrightarrow> list_all (\<lambda>c. (of_char c :: nat) < 128) d"

text \<open>
  Keys are distinct, an inline image is ASCII with no \<^verbatim>\<open>ref\<close> of its own, and nothing already
  looks like an externalised image.
\<close>

fun images_ok :: "(bytes \<Rightarrow> bool) \<Rightarrow> json \<Rightarrow> bool" where
  "images_ok good (JList vs) \<longleftrightarrow> list_all (images_ok good) vs"
| "images_ok good (JObj kvs) \<longleftrightarrow>
     distinct (jkeys kvs)
     \<and> (is_desktop_frame kvs
        \<or> (case image_source ''base64'' ''data'' kvs of
             Some (src, d) \<Rightarrow> distinct (jkeys src) \<and> \<not> jhas ''ref'' src \<and> ascii d \<and> good d
           | None \<Rightarrow> image_source ''blob_ref'' ''ref'' kvs = None \<and> list_all (\<lambda>p. images_ok good (snd p)) kvs))"
| "images_ok good v \<longleftrightarrow> True"

text \<open>The value a resumed turn sees: private desktop frames are retired, the rest is unchanged.\<close>

fun retire :: "json \<Rightarrow> json" where
  "retire (JList vs) = JList (map retire vs)"
| "retire (JObj kvs) =
     (if is_desktop_frame kvs then retired_desktop_frame
      else if image_source ''base64'' ''data'' kvs \<noteq> None then JObj kvs
      else JObj (map (\<lambda>p. (fst p, retire (snd p))) kvs))"
| "retire v = v"

section \<open>Dictionary facts\<close>

lemma ascii_encode_id: "ascii d \<Longrightarrow> ascii_encode d = d"
  by (induction d) (auto simp: ascii_def ascii_encode_def)

lemma ascii_decode_id: "ascii d \<Longrightarrow> ascii_decode d = d"
  by (induction d) (auto simp: ascii_def ascii_decode_def)

lemma sort_keys_same_bindings:
  assumes "distinct (jkeys xs)" "distinct (jkeys ys)" "\<And>k. jget k xs = jget k ys"
  shows "sort_keys (JObj xs) = sort_keys (JObj ys)"
proof -
  let ?f = "\<lambda>p. (fst p, sort_keys (snd p))"
  have k: "map fst (map ?f zs) = jkeys zs" for zs by (simp add: jkeys_def comp_def)
  have "map_of (map ?f xs) k = map_of (map ?f ys) k" for k
    using assms(3) jget_map_snd [of k sort_keys] by (simp add: jget_def)
  then have "sort_key fst (map ?f xs) = sort_key fst (map ?f ys)"
    by (intro sort_fst_eqI) (simp_all only: k assms ext)
  then show ?thesis by simp
qed

lemma sort_keys_jset_same:
  assumes "distinct (jkeys kvs)" "jget k kvs = Some y" "sort_keys x = sort_keys y"
  shows "sort_keys (JObj (jset k x kvs)) = sort_keys (JObj kvs)"
proof -
  have "jset k x kvs = map (\<lambda>p. if fst p = k then (k, x) else p) kvs"
    using assms(2) by (simp add: jset_def jhas_iff)
  then have "map (\<lambda>p. (fst p, sort_keys (snd p))) (jset k x kvs) = map (\<lambda>p. (fst p, sort_keys (snd p))) kvs"
    using assms by (auto simp: jget_def jkeys_def dest: map_of_SomeD eq_key_imp_eq_value)
  then show ?thesis by (simp only: sort_keys.simps)
qed

lemma image_sourceD:
  "image_source ty key kvs = Some (src, d) \<Longrightarrow>
     is_image kvs \<and> jget ''source'' kvs = Some (JObj src) \<and> jget ''type'' src = Some (JStr ty)
     \<and> jget key src = Some (JStr d)"
  by (auto simp: image_source_def split: if_splits option.splits json.splits)

lemma image_sourceI:
  "is_image kvs \<Longrightarrow> jget ''source'' kvs = Some (JObj src) \<Longrightarrow> jget ''type'' src = Some (JStr ty) \<Longrightarrow>
     jget key src = Some (JStr d) \<Longrightarrow> image_source ty key kvs = Some (src, d)"
  by (simp add: image_source_def)

text \<open>Externalising and restoring one image gives the same object up to key order.\<close>

lemma inline_blob_ref_block:
  assumes "image_source ''base64'' ''data'' kvs = Some (src, d)" "\<not> is_desktop_frame kvs"
    and "distinct (jkeys kvs)" "distinct (jkeys src)" "\<not> jhas ''ref'' src" "ascii d" "lb ref = Inr d"
  shows "\<exists>r. inline_blocks lb (blob_ref_block kvs src ref) = Inr r \<and> sort_keys r = sort_keys (JObj kvs)"
proof -
  let ?s1 = "jset ''ref'' (JStr ref) (jset ''type'' (JStr ''blob_ref'') (jdel ''data'' src))"
  let ?s2 = "jset ''data'' (JStr d) (jset ''type'' (JStr ''base64'') (jdel ''ref'' ?s1))"
  let ?kvs = "jset ''source'' (JObj ?s1) kvs"
  note src = image_sourceD [OF assms(1)]
  have im: "is_image ?kvs" "\<not> is_desktop_frame ?kvs"
    using src assms(2) by (simp_all add: is_image_def is_desktop_frame_def jhas_iff jget_jset)
  have "image_source ''blob_ref'' ''ref'' ?kvs = Some (?s1, ref)"
    using im(1) by (intro image_sourceI) (simp_all add: jget_jset)
  then have inl: "inline_blocks lb (blob_ref_block kvs src ref) = Inr (JObj (jset ''source'' (JObj ?s2) kvs))"
    using im(2) assms(6,7)
    by (simp add: blob_ref_block_def base64_block_def jset_jset_same ascii_decode_id)
  have g: "jget k ?s2 = jget k src" for k
    using src assms(5) by (auto simp: jget_jset jget_jdel jhas_iff)
  have "distinct (jkeys ?s2)"
    using assms(4) by (auto simp: jkeys_jset jkeys_jdel jhas_jkeys)
  then have "sort_keys (JObj ?s2) = sort_keys (JObj src)"
    using assms(4) g by (intro sort_keys_same_bindings)
  then show ?thesis using inl sort_keys_jset_same [OF assms(3), of "''source''" "JObj src" "JObj ?s2"] src
    by simp
qed

section \<open>The shape of an externalised value\<close>

lemma externalize_scalar:
  "externalize_blocks sb v s = (Inr w, s1) \<Longrightarrow>
     (\<forall>x. w = JStr x \<longleftrightarrow> v = JStr x) \<and> ((\<exists>kvs. w = JObj kvs) \<longleftrightarrow> (\<exists>kvs. v = JObj kvs))"
  by (cases v) (auto simp: retired_desktop_frame_def blob_ref_block_def
      split: prod.splits sum.splits if_splits option.splits)

lemma externalize_items_jget:
  "externalize_items sb kvs s = (Inr ws, s1) \<Longrightarrow>
     jkeys ws = jkeys kvs
     \<and> (case jget k kvs of None \<Rightarrow> jget k ws = None
        | Some v \<Rightarrow> \<exists>w s' s''. externalize_blocks sb v s' = (Inr w, s'') \<and> jget k ws = Some w)"
proof (induction kvs arbitrary: s ws)
  case Nil
  then show ?case by (simp add: jkeys_def)
next
  case (Cons p kvs)
  obtain k' v where p: "p = (k', v)" by force
  from Cons.prems obtain w s' ws' where w: "externalize_blocks sb v s = (Inr w, s')"
    "externalize_items sb kvs s' = (Inr ws', s1)" "ws = (k', w) # ws'"
    by (auto simp: p split: prod.splits sum.splits)
  show ?case using Cons.IH [OF w(2)] w(1,3) by (auto simp: p jget_Cons jkeys_def split: option.splits)
qed

lemma externalize_items_str:
  "externalize_items sb kvs s = (Inr ws, s1) \<Longrightarrow>
     jget k ws = Some (JStr x) \<longleftrightarrow> jget k kvs = Some (JStr x)"
  using externalize_items_jget [of sb kvs s ws s1 k] externalize_scalar
  by (fastforce split: option.splits)

lemma externalize_type:
  assumes "externalize_blocks sb (JObj kvs) s = (Inr (JObj ws), s1)" "jget ''type'' ws = Some (JStr ''blob_ref'')"
    "jget ''ref'' ws = Some (JStr r)"
  shows "jget ''type'' kvs = Some (JStr ''blob_ref'') \<and> jget ''ref'' kvs = Some (JStr r)"
  using assms externalize_items_str image_sourceD
  by (fastforce simp: retired_desktop_frame_def blob_ref_block_def jget_Cons jget_jset is_image_def
      split: if_splits option.splits prod.splits sum.splits)

lemma externalize_no_blob_ref:
  assumes "externalize_items sb kvs s = (Inr ws, s1)" "image_source ''blob_ref'' ''ref'' kvs = None"
  shows "image_source ''blob_ref'' ''ref'' ws = None"
proof (rule ccontr)
  assume "image_source ''blob_ref'' ''ref'' ws \<noteq> None"
  then obtain src r where "image_source ''blob_ref'' ''ref'' ws = Some (src, r)" by force
  then have w: "is_image ws" "jget ''source'' ws = Some (JObj src)"
    "jget ''type'' src = Some (JStr ''blob_ref'')" "jget ''ref'' src = Some (JStr r)"
    using image_sourceD by blast+
  have im: "is_image kvs" using w(1) externalize_items_str [OF assms(1)] by (simp add: is_image_def)
  obtain v s' s'' where v: "jget ''source'' kvs = Some v" "externalize_blocks sb v s' = (Inr (JObj src), s'')"
    using externalize_items_jget [OF assms(1), of "''source''"] w(2) by (auto split: option.splits)
  then obtain src0 where "v = JObj src0" using externalize_scalar [OF v(2)] by auto
  then have "image_source ''blob_ref'' ''ref'' kvs = Some (src0, r)"
    using v externalize_type [of sb src0 s' src s''] w im by (auto intro: image_sourceI)
  then show False using assms(2) by simp
qed

lemma externalize_items_frame:
  assumes "externalize_items sb kvs s = (Inr ws, s1)"
  shows "is_desktop_frame ws = is_desktop_frame kvs"
  using externalize_items_str [OF assms, of "''type''" "''image''"]
    externalize_items_jget [OF assms, of "''type''", THEN conjunct1]
  by (simp add: is_desktop_frame_def is_image_def jhas_jkeys)

section \<open>The round trip, over the interface\<close>

context blob_store
begin

lemma externalize_later:
  "sb = put \<Longrightarrow> externalize_blocks sb v s = (r, s1) \<Longrightarrow> later s s1 \<and> (ok s \<longrightarrow> ok s1)"
  "sb = put \<Longrightarrow> externalize_list sb vs s = (rs, s1) \<Longrightarrow> later s s1 \<and> (ok s \<longrightarrow> ok s1)"
  "sb = put \<Longrightarrow> externalize_items sb kvs s = (rk, s1) \<Longrightarrow> later s s1 \<and> (ok s \<longrightarrow> ok s1)"
proof (induction sb v s and sb vs s and sb kvs s
    arbitrary: r s1 and rs s1 and rk s1 rule: externalize_blocks_externalize_list_externalize_items.induct)
  case (2 sb kvs s)
  have p: "later s t \<and> (ok s \<longrightarrow> ok t)" if "put d s = (x, t)" for d x t
    using that put_later [of s d] put_ok [of s d] by simp
  show ?case using 2 p
    by (auto simp: later_refl split: if_splits option.splits prod.splits sum.splits)
next
  case (5 sb v vs s)
  then show ?case by (fastforce split: prod.splits sum.splits intro: later_trans)
next
  case (7 sb k v kvs s)
  then show ?case by (fastforce split: prod.splits sum.splits intro: later_trans)
qed (auto simp: later_refl split: prod.splits sum.splits)

lemma image_round_trip_aux:
  "sb = put \<Longrightarrow> externalize_blocks sb v s = (Inr w, s1) \<Longrightarrow> ok s \<Longrightarrow> images_ok good v \<Longrightarrow> later s1 s2 \<Longrightarrow>
     \<exists>r. inline_blocks (\<lambda>ref. get ref s2) w = Inr r \<and> sort_keys r = sort_keys (retire v)"
  "sb = put \<Longrightarrow> externalize_list sb vs s = (Inr lws, s1) \<Longrightarrow> ok s \<Longrightarrow> list_all (images_ok good) vs \<Longrightarrow> later s1 s2 \<Longrightarrow>
     \<exists>rs. inline_list (\<lambda>ref. get ref s2) lws = Inr rs \<and> map sort_keys rs = map (\<lambda>v. sort_keys (retire v)) vs"
  "sb = put \<Longrightarrow> externalize_items sb kvs s = (Inr ws, s1) \<Longrightarrow> ok s \<Longrightarrow> list_all (\<lambda>p. images_ok good (snd p)) kvs \<Longrightarrow>
     later s1 s2 \<Longrightarrow>
     \<exists>rs. inline_items (\<lambda>ref. get ref s2) ws = Inr rs
        \<and> map (\<lambda>p. (fst p, sort_keys (snd p))) rs = map (\<lambda>p. (fst p, sort_keys (retire (snd p)))) kvs"
proof (induction sb v s and sb vs s and sb kvs s
    arbitrary: w s1 and lws s1 and ws s1 rule: externalize_blocks_externalize_list_externalize_items.induct)
  case (1 sb vs s)
  then obtain lws where "externalize_list sb vs s = (Inr lws, s1)" "w = JList lws"
    by (auto split: prod.splits sum.splits)
  then show ?case using 1 by (fastforce split: sum.splits)
next
  case (2 sb kvs s)
  consider (frame) "is_desktop_frame kvs"
    | (image) src d where "\<not> is_desktop_frame kvs" "image_source ''base64'' ''data'' kvs = Some (src, d)"
    | (other) "\<not> is_desktop_frame kvs" "image_source ''base64'' ''data'' kvs = None"
    by (cases "image_source ''base64'' ''data'' kvs") force+
  then show ?case
  proof cases
    case frame
    then show ?thesis using 2
      by (auto simp: retired_desktop_frame_def is_desktop_frame_def is_image_def image_source_def jget_Cons)
  next
    case image
    then obtain ref where ref: "put (ascii_encode d) s = (Inr ref, s1)" "w = blob_ref_block kvs src ref"
      using 2 by (auto split: prod.splits sum.splits)
    have good: "distinct (jkeys kvs)" "distinct (jkeys src)" "\<not> jhas ''ref'' src" "ascii d" "good d"
      using 2(5) image by simp_all
    have "get ref s2 = Inr d"
      using put_get [OF 2(4) good(5), of ref s1 s2] ref(1) 2(6) ascii_encode_id [OF good(4)] by simp
    then show ?thesis
      using inline_blob_ref_block [OF image(2,1) good(1-4), of "\<lambda>ref. get ref s2" ref] image ref(2) by simp
  next
    case other
    then obtain ws where ws: "externalize_items sb kvs s = (Inr ws, s1)" "w = JObj ws"
      using 2(3) by (auto split: prod.splits sum.splits)
    have img: "list_all (\<lambda>p. images_ok good (snd p)) kvs" "image_source ''blob_ref'' ''ref'' kvs = None"
      using 2(5) other by auto
    obtain rs where rs: "inline_items (\<lambda>ref. get ref s2) ws = Inr rs"
      "map (\<lambda>p. (fst p, sort_keys (snd p))) rs = map (\<lambda>p. (fst p, sort_keys (retire (snd p)))) kvs"
      using 2(1) [OF other 2(2) ws(1) 2(4) img(1) 2(6)] by blast
    have "inline_blocks (\<lambda>ref. get ref s2) w = Inr (JObj rs)"
      using ws rs(1) other externalize_items_frame [OF ws(1)] externalize_no_blob_ref [OF ws(1) img(2)] by simp
    then show ?thesis using rs(2) other by (simp add: comp_def)
  qed
next
  case (5 sb v vs s)
  then obtain x s' ys where x: "externalize_blocks sb v s = (Inr x, s')" "externalize_list sb vs s' = (Inr ys, s1)"
    "lws = x # ys" by (auto split: prod.splits sum.splits)
  have "later s' s1" "ok s'" using x externalize_later 5 by blast+
  then show ?case using 5 x later_trans [of s' s1 s2] by (fastforce split: sum.splits)
next
  case (7 sb k v kvs s)
  then obtain x s' ys where x: "externalize_blocks sb v s = (Inr x, s')" "externalize_items sb kvs s' = (Inr ys, s1)"
    "ws = (k, x) # ys" by (auto split: prod.splits sum.splits)
  have s': "later s' s1" "ok s'"
    using externalize_later(1) [OF 7(3) x(1)] externalize_later(3) [OF 7(3) x(2)] 7(5) by simp_all
  have l: "later s' s2" using s'(1) 7(7) later_trans by blast
  have "images_ok good v" "list_all (\<lambda>p. images_ok good (snd p)) kvs" using 7(6) by simp_all
  then obtain r rs where "inline_blocks (\<lambda>ref. get ref s2) x = Inr r" "sort_keys r = sort_keys (retire v)"
    "inline_items (\<lambda>ref. get ref s2) ys = Inr rs"
    "map (\<lambda>p. (fst p, sort_keys (snd p))) rs = map (\<lambda>p. (fst p, sort_keys (retire (snd p)))) kvs"
    using 7(1) [OF 7(3) x(1) 7(5) _ l] 7(2) [OF x(1) [symmetric] refl 7(3) x(2) s'(2) _ 7(7)] by blast
  then show ?case using x(3) by simp
qed auto

lemmas image_round_trip = image_round_trip_aux(2) [OF refl]

end

section \<open>The turn store is a blob store\<close>

lemma store_blob_Inr:
  assumes "store_inv sha s" "\<forall>x. sha x = sha d \<longrightarrow> x = d" "store_blob_sync sha f d s = (Inr ref, s1)"
  shows "ref = ''blob:'' @ sha d \<and> blobs s1 (sha d) = Some d"
  using assms by (auto simp: store_blob_sync_def Let_def store_inv_def split: option.splits if_splits)

lemma blob_kept_run:
  assumes "(store_step sha)\<^sup>*\<^sup>* s t" "store_inv sha s" "blobs s d = Some x"
  shows "blobs t d = Some x"
  using store.stable_steps [of sha "\<lambda>s. blobs s d = Some x", OF _ assms]
    store_stable [of sha "\<lambda>s. blobs s d = Some x"] blob_kept_step by blast

lemma store_blob_inv: "store_inv sha s \<Longrightarrow> store_inv sha (snd (store_blob_sync sha f d s))"
  using store.step_inv [OF store_step.store_blob] .

interpretation turn_blobs: blob_store
  "\<lambda>d. store_blob_sync sha (fault d) d" "\<lambda>ref s. load_blob_sync sha ref s" "(store_step sha)\<^sup>*\<^sup>*"
  "store_inv sha" "\<lambda>d. \<forall>x. sha x = sha d \<longrightarrow> x = d" for sha fault
proof (unfold_locales, goal_cases)
  case (4 s d)
  then show ?case by (intro r_into_rtranclp store_step.store_blob)
next
  case (5 s d ref s1 s2)
  then have "store_inv sha s1" using store_blob_inv [of sha s "fault d" d] by simp
  then show ?case
    using store_blob_Inr [of sha s d "fault d" ref s1] 5 blob_kept_run load_stored_blob by metis
qed (auto intro: store_blob_inv)

text \<open>
  C40: images survive a checkpoint. When the codec externalises a list of blocks (with any
  pattern of blob faults that lets it finish) and the turn is resumed in any later state of
  the store, restoring the blocks succeeds and gives every block back up to the order of
  dictionary keys, except that private desktop frames are retired. SHA-256 is assumed not
  to collide on the images written.
\<close>

theorem checkpoint_images_round_trip:
  assumes "externalize_list (\<lambda>d. store_blob_sync sha (fault d) d) blocks s = (Inr stored, s1)"
    and "store_inv sha s"
    and "list_all (images_ok (\<lambda>d. \<forall>x. sha x = sha d \<longrightarrow> x = d)) blocks"
    and "(store_step sha)\<^sup>*\<^sup>* s1 s2"
  shows "\<exists>restored. inline_list (\<lambda>ref. load_blob_sync sha ref s2) stored = Inr restored
           \<and> map sort_keys restored = map (\<lambda>v. sort_keys (retire v)) blocks"
  using turn_blobs.image_round_trip assms .

definition ex_image :: json where
  "ex_image = JObj [(''type'', JStr ''image''), (''source'', JObj [(''data'', JStr ''aGk=''), (''type'', JStr ''base64'')])]"

definition ex_frame :: json where
  "ex_frame = JObj [(''type'', JStr ''image''), (''__computer_frame__'', JBool True)]"

theorem checkpoint_images_round_trip_witness:
  "\<exists>stored s1 restored. externalize_list (\<lambda>d. store_blob_sync ex_sha False d) [ex_image, ex_frame] ex_store = (Inr stored, s1)
     \<and> inline_list (\<lambda>ref. load_blob_sync ex_sha ref (close_store s1)) stored = Inr restored
     \<and> map sort_keys restored = [sort_keys ex_image, sort_keys retired_desktop_frame]"
proof -
  have e: "\<exists>stored s1. externalize_list (\<lambda>d. store_blob_sync ex_sha False d) [ex_image, ex_frame] ex_store = (Inr stored, s1)"
    by (simp add: ex_image_def ex_frame_def is_desktop_frame_def is_image_def image_source_def jget_Cons jhas_def
        store_blob_sync_def ex_store_def Let_def)
  then obtain stored s1 where e: "externalize_list (\<lambda>d. store_blob_sync ex_sha False d) [ex_image, ex_frame] ex_store = (Inr stored, s1)"
    by blast
  have ok: "list_all (images_ok (\<lambda>d. \<forall>x. ex_sha x = ex_sha d \<longrightarrow> x = d)) [ex_image, ex_frame]"
    by (simp add: ex_image_def ex_frame_def is_desktop_frame_def is_image_def image_source_def jget_Cons jhas_def
        jkeys_def ascii_def ex_sha_def)
  have ret: "retire ex_image = ex_image" "retire ex_frame = retired_desktop_frame"
    by (simp_all add: ex_image_def ex_frame_def is_desktop_frame_def is_image_def image_source_def jget_Cons jhas_def)
  have run: "(store_step ex_sha)\<^sup>*\<^sup>* s1 (close_store s1)" by (intro r_into_rtranclp store_step.close)
  show ?thesis
    using checkpoint_images_round_trip [OF e ex_store_inv ok run] e by (auto simp: ret)
qed

end
