(* ===== verification/Turn_Validate_Props.thy ===== *)
theory Turn_Validate_Props
  imports Turn_Images
begin

text \<open>
  What the checkpoint validator guarantees: a payload it accepts keeps every consumed guard
  flag and budget, old versions are completed only where their version allows it, and what
  \<^verbatim>\<open>snapshot_chat_turn\<close> writes for a well-formed turn is accepted as it stands.
\<close>

section \<open>Reading the checks\<close>

lemma first_error_None: "first_error cs = None \<longleftrightarrow> list_all fst cs"
  by (auto simp: first_error_def find_None_iff list_all_iff)

lemma check_fields_None:
  "check_fields v fs = None \<longleftrightarrow>
     check_field_set fs = None \<and> check_scalars fs = None \<and> check_tracker fs = None
     \<and> check_trajectory fs = None \<and> check_transcript v fs = None"
  by (simp add: check_fields_def first_error_None)

lemma field_check_all: "list_all fst (field_check p fs ns) \<longleftrightarrow> (\<forall>n\<in>set ns. p (fget n fs))"
  by (auto simp: field_check_def list_all_iff)

lemma validate_payload_Inr:
  assumes "validate_payload v = Inr q"
  obtains pl fs fs' where "v = JObj pl" "check_envelope pl = None"
    "fs = normalize_fields (int_val (fget ''codec_version'' pl)) (entries (fget ''fields'' pl))"
    "check_fields (int_val (fget ''codec_version'' pl)) fs = None"
    "check_gen_identity (int_val (fget ''codec_version'' pl)) fs = Inr fs'"
    "q = JObj (jset ''fields'' (JObj fs') pl)"
  using assms
  by (auto simp: validate_payload_def Let_def split: json.splits option.splits sum.splits)

lemma check_gen_identity_Inr:
  assumes "check_gen_identity v fs = Inr fs'"
  shows "fs' = fs \<or> (\<exists>g. legacy_identity v (entries (fget ''_gen_identity'' fs)) \<and> fs' = jset ''_gen_identity'' g fs)"
  using assms
  by (auto simp: check_gen_identity_def Let_def entries_def split: json.splits if_splits option.splits)

lemma jget_set_default:
  "jget k (set_default kvs d) = (if k = fst d \<and> jget k kvs = None then Some (snd d) else jget k kvs)"
  by (auto simp: set_default_def jhas_iff jget_jset)

lemma set_default_id: "jhas (fst d) kvs \<Longrightarrow> set_default kvs d = kvs"
  by (simp add: set_default_def)

lemma normalize_complete:
  assumes "check_field_set fs = None"
  shows "normalize_fields v fs = fs"
proof -
  have "jhas n fs" if "n \<in> set PERSISTED_FIELDS" for n
    using assms that by (simp add: check_field_set_def first_error_None list_all_iff)
  then have "set_default fs d = fs" if "fst d \<in> set PERSISTED_FIELDS" for d
    using that set_default_id by blast
  then show ?thesis
    by (simp add: normalize_fields_def V3_FIELD_DEFAULTS_def V4_FIELD_DEFAULTS_def PERSISTED_FIELDS_def Let_def)
qed

lemma normalize_guard_flag:
  assumes "n \<in> set GUARD_FLAG_FIELDS"
  shows "jget n (normalize_fields v fs) =
    (case jget n fs of Some x \<Rightarrow> Some x
     | None \<Rightarrow> if v = 1 \<and> n = ''wait_judgment_pending'' then Some (JBool False) else None)"
proof -
  have "n \<noteq> fst d" if "d \<in> set (V3_FIELD_DEFAULTS @ V4_FIELD_DEFAULTS)" for d
    using assms that by (auto simp: GUARD_FLAG_FIELDS_def V3_FIELD_DEFAULTS_def V4_FIELD_DEFAULTS_def)
  then have "jget n (foldl set_default kvs ds) = jget n kvs"
    if "set ds \<subseteq> set (V3_FIELD_DEFAULTS @ V4_FIELD_DEFAULTS)" for kvs ds
    using that by (induction ds arbitrary: kvs) (auto simp: jget_set_default)
  then show ?thesis
    by (auto simp: normalize_fields_def Let_def jget_set_default split: option.splits)
qed

section \<open>Guard budgets are never re-armed\<close>

text \<open>
  Restoring an accepted checkpoint never re-arms a consumed guard. In the validated
  payload every one-shot guard flag is exactly a boolean, and it is the value the checkpoint
  carries: the single default is \<^verbatim>\<open>wait_judgment_pending\<close> in a version 1 checkpoint, which was
  written before the flag existed. Every consumed counter is within its cap.
\<close>

theorem accepted_guards_kept:
  assumes "validate_payload v = Inr q" and "n \<in> set GUARD_FLAG_FIELDS"
  shows "\<exists>b. fget n (entries (fget ''fields'' (entries q))) = JBool b
      \<and> (case jget n (entries (fget ''fields'' (entries v))) of
           Some x \<Rightarrow> x = JBool b
         | None \<Rightarrow> n = ''wait_judgment_pending'' \<and> \<not> b \<and> fget ''codec_version'' (entries v) = JInt 1)
      \<and> int_val (fget ''continuation_count'' (entries (fget ''fields'' (entries q))))
          \<le> int_val (fget ''max_continuations'' (entries (fget ''fields'' (entries q))))
      \<and> int_val (fget ''_validation_retries'' (entries (fget ''fields'' (entries q))))
          \<le> int_val (fget ''_max_validation_retries'' (entries (fget ''fields'' (entries q))))
      \<and> int_val (fget ''iteration'' (entries (fget ''fields'' (entries q))))
          \<le> int_val (fget ''chat_cap'' (entries (fget ''fields'' (entries q))))"
proof -
  from assms(1) obtain pl fs fs' where v: "v = JObj pl" "check_envelope pl = None"
    and fs: "fs = normalize_fields (int_val (fget ''codec_version'' pl)) (entries (fget ''fields'' pl))"
    and ok: "check_fields (int_val (fget ''codec_version'' pl)) fs = None"
    and id: "check_gen_identity (int_val (fget ''codec_version'' pl)) fs = Inr fs'"
    and q: "q = JObj (jset ''fields'' (JObj fs') pl)"
    by (rule validate_payload_Inr)
  have q': "entries (fget ''fields'' (entries q)) = fs'" by (simp add: q fget_jset)
  have same: "fget k fs' = fget k fs" if "k \<noteq> ''_gen_identity''" for k
    using check_gen_identity_Inr [OF id] that by (auto simp: fget_jset)
  have sc: "list_all fst (field_check is_bool fs GUARD_FLAG_FIELDS)"
    "int_val (fget ''continuation_count'' fs) \<le> int_val (fget ''max_continuations'' fs)"
    "int_val (fget ''_validation_retries'' fs) \<le> int_val (fget ''_max_validation_retries'' fs)"
    "int_val (fget ''iteration'' fs) \<le> int_val (fget ''chat_cap'' fs)"
    using ok by (simp_all add: check_fields_None check_scalars_def first_error_None)
  then obtain b where b: "fget n fs = JBool b"
    using assms(2) by (auto simp: field_check_all is_bool_iff)
  have ver: "fget ''codec_version'' pl = JInt 1" if "int_val (fget ''codec_version'' pl) = 1"
    using that by (auto simp: int_val_def split: json.splits)
  have n: "n \<noteq> ''_gen_identity''" using assms(2) by (auto simp: GUARD_FLAG_FIELDS_def)
  let ?x = "jget n (entries (fget ''fields'' pl))"
  have c: "case jget n (entries (fget ''fields'' (entries v))) of Some x \<Rightarrow> x = JBool b
      | None \<Rightarrow> n = ''wait_judgment_pending'' \<and> \<not> b \<and> fget ''codec_version'' (entries v) = JInt 1"
    using b ver unfolding v(1) entries_JObj fs fget_def [of n] normalize_guard_flag [OF assms(2)]
    by (cases ?x) (simp_all split: if_splits)
  show ?thesis
    by (intro exI [of _ b] conjI) (use b c sc(2-4) same n in \<open>simp_all add: q'\<close>)
qed

definition ex_fields :: dict where
  "ex_fields =
     [(''system_prompt'', JStr ''p''),
      (''messages'', JList [JObj [(''role'', JStr ''user''), (''content'', JStr ''hi'')]]),
      (''user_id'', JStr ''u''), (''chat_cap'', JInt 10), (''iteration'', JInt 2),
      (''tools_used_in_loop'', JList []), (''continuation_count'', JInt 1), (''max_continuations'', JInt 3),
      (''fabrication_retried'', JBool True), (''promise_retried'', JBool False), (''unavail_retried'', JBool False),
      (''hedging_retried'', JBool True), (''code_hedging_retried'', JBool False),
      (''premature_failure_retried'', JBool False), (''pending_image_blocks'', JList []),
      (''_op_tool_details'', JList []), (''_pending_validations'', JList []), (''_validation_required'', JBool False),
      (''_validation_retries'', JInt 0), (''_max_validation_retries'', JInt 2), (''_result_store_cap'', JInt 100),
      (''_ch_id'', JStr ''7''), (''_req_id'', JStr ''r''),
      (''stuck_tracker'', JObj [(''fingerprints'', JList [JStr ''f'']), (''window_size'', JInt 12), (''min_repeats'', JInt 3),
         (''max_cycle_length'', JInt 3), (''names_only'', JBool False), (''warned'', JBool False)]),
      (''_trajectory'', JObj [(''iterations'', JList []), (''iteration_revision'', JInt 0)])]"

definition ex_payload :: json where
  "ex_payload = JObj [(''codec_version'', JInt 1), (''policy'', JStr ''chat''), (''generation_seq'', JInt 4),
     (''fields'', JObj ex_fields)]"

lemma ex_payload_accepted: "\<exists>q. validate_payload ex_payload = Inr q"
proof -
  have "(case validate_payload ex_payload of Inr _ \<Rightarrow> True | Inl _ \<Rightarrow> False)" by code_simp
  then show ?thesis by (auto split: sum.splits)
qed

theorem accepted_guards_kept_witness:
  "\<exists>q b. validate_payload ex_payload = Inr q
     \<and> fget ''hedging_retried'' (entries (fget ''fields'' (entries q))) = JBool b \<and> b"
proof -
  obtain q where q: "validate_payload ex_payload = Inr q" using ex_payload_accepted by blast
  have "''hedging_retried'' \<in> set GUARD_FLAG_FIELDS" by (simp add: GUARD_FLAG_FIELDS_def)
  moreover have "jget ''hedging_retried'' (entries (fget ''fields'' (entries ex_payload))) = Some (JBool True)"
    by (simp add: ex_payload_def ex_fields_def fget_def jget_Cons)
  ultimately show ?thesis using accepted_guards_kept [OF q, of "''hedging_retried''"] q by auto
qed

section \<open>Validation is idempotent\<close>

text \<open>
  What the validator accepts, it accepts again unchanged, so a checkpoint that has been
  normalised can be stored and validated once more. The exception is the version 3
  generation identity, covered by the lemma that follows.
\<close>

theorem validate_idempotent:
  assumes "validate_payload v = Inr q"
    and "fget ''codec_version'' (entries v) \<noteq> JInt 3
         \<or> fget ''_gen_identity'' (entries (fget ''fields'' (entries q))) = JNull"
  shows "validate_payload q = Inr q"
proof -
  from assms(1) obtain pl fs fs' where v: "v = JObj pl" "check_envelope pl = None"
    and fs: "fs = normalize_fields (int_val (fget ''codec_version'' pl)) (entries (fget ''fields'' pl))"
    and ok: "check_fields (int_val (fget ''codec_version'' pl)) fs = None"
    and id: "check_gen_identity (int_val (fget ''codec_version'' pl)) fs = Inr fs'"
    and q: "q = JObj (jset ''fields'' (JObj fs') pl)"
    by (rule validate_payload_Inr)
  have q': "entries (fget ''fields'' (entries q)) = fs'" by (simp add: q fget_jset)
  have cv: "exact_int (fget ''codec_version'' pl)"
    using v(2) by (simp add: check_envelope_def first_error_None int_from_def)
  have eq: "fs' = fs"
  proof (cases "int_val (fget ''codec_version'' pl) = 3")
    case True
    then have "fget ''_gen_identity'' fs' = JNull"
      using assms(2) cv unfolding q' by (auto simp: v(1) exact_int_iff)
    then show ?thesis using id
      by (auto simp: check_gen_identity_def Let_def fget_jset split: json.splits if_splits option.splits)
  next
    case False
    then show ?thesis using check_gen_identity_Inr [OF id] by (auto simp: legacy_identity_def)
  qed
  have env: "check_envelope (jset ''fields'' (JObj fs) pl) = None"
    using v(2) by (simp add: check_envelope_def first_error_None fget_jset is_dict_def)
  have norm: "normalize_fields (int_val (fget ''codec_version'' pl)) fs = fs"
    using ok by (intro normalize_complete) (simp add: check_fields_None)
  show ?thesis
    using env norm ok id by (simp add: q eq validate_payload_def fget_jset jset_jset_same)
qed

theorem validate_idempotent_witness:
  "\<exists>q. validate_payload ex_payload = Inr q \<and> validate_payload q = Inr q"
proof -
  obtain q where q: "validate_payload ex_payload = Inr q" using ex_payload_accepted by blast
  have "fget ''codec_version'' (entries ex_payload) \<noteq> JInt 3" by (simp add: ex_payload_def fget_def jget_Cons)
  then show ?thesis using validate_idempotent [OF q] q by blast
qed

definition ex_legacy_payload :: json where
  "ex_legacy_payload = JObj [(''codec_version'', JInt 3), (''policy'', JStr ''chat''), (''generation_seq'', JInt 4),
     (''fields'', JObj (ex_fields @ [(''wait_judgment_pending'', JBool False), (''_boundary_request_start'', JInt 0),
        (''_boundary_elided_replay'', JInt 0), (''_char_latch'', JNull), (''_rescue_passes'', JInt 1),
        (''_gen_identity'', JObj [(''provider'', JStr ''ollama''), (''model'', JStr ''m''), (''effort'', JNull),
            (''ladder'', JList [JInt 9])])]))]"

text \<open>
  The upgraded version 3 identity has six keys, the schema has seven: the payload the
  validator accepts and upgrades is one it rejects.
\<close>

lemma legacy_identity_not_idempotent:
  "\<exists>q. validate_payload ex_legacy_payload = Inr q
     \<and> validate_payload q = Inl (CheckpointInvalidError ''_gen_identity'')"
proof -
  have "(case validate_payload ex_legacy_payload of
      Inr q \<Rightarrow> validate_payload q = Inl (CheckpointInvalidError ''_gen_identity'') | Inl _ \<Rightarrow> False)"
    by code_simp
  then show ?thesis by (auto split: sum.splits)
qed

section \<open>What the loop writes is accepted\<close>

definition plain_message :: "json \<Rightarrow> bool" where
  "plain_message m \<longleftrightarrow> message_ok m \<and> \<not> jhas ''type'' (entries m)"

definition identity_ok :: "chat_turn \<Rightarrow> bool" where
  "identity_ok st \<longleftrightarrow>
     (case ct_gen_identity st of
        None \<Rightarrow> ct_rescue_passes st = 0
      | Some g \<Rightarrow> if g = [] then ct_rescue_passes st = 0
                  else check_identity_head CODEC_VERSION (ct_rescue_passes st) g = None
                       \<and> check_identity_tail (ct_rescue_passes st) g = None)"

definition tracker_ok :: "stuck_tracker \<Rightarrow> bool" where
  "tracker_ok t \<longleftrightarrow> 1 \<le> window_size t \<and> 1 \<le> min_repeats t \<and> 1 \<le> max_cycle_length t
     \<and> length (fingerprints t) \<le> window_size t"

definition boundaries_ok :: "chat_turn \<Rightarrow> bool" where
  "boundaries_ok st \<longleftrightarrow>
     0 \<le> ct_boundary_request_start st
     \<and> (\<exists>n. ct_boundary_envelope_len st = Some n \<and> 0 \<le> n
          \<and> ct_boundary_request_start st + n \<le> int (length (ct_messages st)))
     \<and> 0 \<le> ct_boundary_elided_replay st
     \<and> (ct_boundary_elided_replay st = 0
        \<or> (1 \<le> ct_boundary_request_start st \<and> ct_messages st \<noteq> []
           \<and> jget ''content'' (entries (hd (ct_messages st)))
             = Some (JStr (replay_marker (ct_boundary_elided_replay st)))))
     \<and> (\<forall>n. ct_char_latch st = Some n \<longrightarrow> 0 \<le> n) \<and> 0 \<le> ct_rescue_passes st"

definition turn_ok :: "chat_turn \<Rightarrow> bool" where
  "turn_ok st \<longleftrightarrow>
     list_all plain_message (ct_messages st)
     \<and> list_all is_dict (ct_pending_image_blocks st) \<and> list_all is_dict (ct_op_tool_details st)
     \<and> 0 \<le> ct_iteration st \<and> ct_iteration st \<le> ct_chat_cap st \<and> 1 \<le> ct_chat_cap st
     \<and> 0 \<le> ct_continuation_count st \<and> ct_continuation_count st \<le> ct_max_continuations st
     \<and> 0 \<le> ct_validation_retries st \<and> ct_validation_retries st \<le> ct_max_validation_retries st
     \<and> 1 \<le> ct_result_store_cap st
     \<and> tracker_ok (ct_stuck_tracker st) \<and> boundaries_ok st \<and> identity_ok st"

lemma externalize_list_dicts:
  "externalize_list sb vs s = (Inr ws, s1) \<Longrightarrow> length ws = length vs \<and> (list_all is_dict vs \<longrightarrow> list_all is_dict ws)"
proof (induction vs arbitrary: s ws)
  case (Cons v vs)
  then obtain w s' ws' where w: "externalize_blocks sb v s = (Inr w, s')" "externalize_list sb vs s' = (Inr ws', s1)"
    "ws = w # ws'" by (auto split: prod.splits sum.splits)
  show ?case using Cons.IH [OF w(2)] externalize_scalar [OF w(1)] w(3) by (simp add: is_dict_iff)
qed simp

lemma scrub_dict: "is_dict v \<Longrightarrow> is_dict (scrub_tool_use_inputs e v)"
  by (auto simp: is_dict_iff Let_def split: option.splits)

lemma scrub_str: "scrub_tool_use_inputs e v = JStr x \<longleftrightarrow> v = JStr x"
  by (cases v) (auto simp: Let_def split: option.splits)

lemma jget_filter_replay: "k \<noteq> k' \<Longrightarrow> jget k (filter (\<lambda>p. fst p \<noteq> k') kvs) = jget k kvs"
  using jget_jdel [of k k' kvs] by (simp add: jdel_def)

text \<open>A message keeps its shape and its text content when it is externalised and scrubbed.\<close>

lemma stored_message:
  assumes "externalize_blocks sb m s = (Inr w, s1)" "plain_message m"
  shows "message_ok (scrub_tool_use_inputs e w)
    \<and> (jget ''content'' (entries m) = Some (JStr x) \<longrightarrow>
       jget ''content'' (entries (scrub_tool_use_inputs e w)) = Some (JStr x))"
proof -
  obtain kvs where m: "m = JObj kvs" using assms(2) by (auto simp: plain_message_def message_ok_def is_dict_iff)
  have noty: "jget ''type'' kvs = None" using assms(2) by (simp add: plain_message_def m jhas_iff)
  then have "\<not> is_image kvs" by (simp add: is_image_def)
  then obtain ws where w: "w = JObj ws" "externalize_items sb kvs s = (Inr ws, s1)"
    using assms(1) by (auto simp: m is_desktop_frame_def image_source_def split: prod.splits sum.splits)
  have "jget ''type'' ws = None"
    using externalize_items_jget [OF w(2), of "''type''"] noty by simp
  then have scr: "scrub_tool_use_inputs e w
      = JObj (map (\<lambda>p. (fst p, scrub_tool_use_inputs e (snd p))) (filter (\<lambda>p. fst p \<noteq> ''codex_replay'') ws))"
    using jget_filter_replay [of "''type''" "''codex_replay''" ws] by (simp add: w(1) Let_def)
  have get: "jget k (entries (scrub_tool_use_inputs e w)) = map_option (scrub_tool_use_inputs e) (jget k ws)"
    if "k \<noteq> ''codex_replay''" for k
    using that unfolding scr by (simp add: jget_map_snd jget_filter_replay)
  have str: "jget k (entries (scrub_tool_use_inputs e w)) = Some (JStr y)" if "k \<noteq> ''codex_replay''" "jget k kvs = Some (JStr y)" for k y
    using that externalize_items_str [OF w(2), of k y] by (simp add: get)
  have role: "is_str (fget ''role'' (entries (scrub_tool_use_inputs e w)))"
    using assms(2) str [of "''role''"]
    by (auto simp: plain_message_def message_ok_def m fget_def is_str_def split: option.splits json.splits)
  have "case fget ''content'' (entries (scrub_tool_use_inputs e w)) of JList blocks \<Rightarrow> list_all is_dict blocks
      | JStr _ \<Rightarrow> True | _ \<Rightarrow> False"
  proof (cases "jget ''content'' kvs")
    case None
    then show ?thesis using assms(2) by (simp add: plain_message_def message_ok_def m fget_def)
  next
    case (Some c)
    then consider y where "c = JStr y" | bs where "c = JList bs" "list_all is_dict bs"
      using assms(2) by (auto simp: plain_message_def message_ok_def m fget_def split: json.splits)
    then show ?thesis
    proof cases
      case 1
      then show ?thesis using str [of "''content''"] Some by (simp add: fget_def)
    next
      case 2
      then obtain x s' s'' where x: "externalize_blocks sb (JList bs) s' = (Inr x, s'')" "jget ''content'' ws = Some x"
        using externalize_items_jget [OF w(2), of "''content''"] Some by auto
      then obtain bs' where "externalize_list sb bs s' = (Inr bs', s'')" "jget ''content'' ws = Some (JList bs')"
        by (cases "externalize_list sb bs s'") (auto split: sum.splits)
      then show ?thesis using 2(2) externalize_list_dicts scrub_dict [of _ e]
        by (fastforce simp: fget_def get list_all_iff)
    qed
  qed
  then show ?thesis using role str [of "''content''" x] by (simp add: message_ok_def m scr is_dict_def)
qed

lemma stored_messages:
  assumes "externalize_list sb msgs s = (Inr ws, s1)" "list_all plain_message msgs"
  shows "list_all message_ok (map (scrub_tool_use_inputs e) ws) \<and> length ws = length msgs
    \<and> (msgs \<noteq> [] \<longrightarrow> jget ''content'' (entries (hd msgs)) = Some (JStr x) \<longrightarrow>
         jget ''content'' (entries (scrub_tool_use_inputs e (hd ws))) = Some (JStr x))"
  using assms
proof (induction msgs arbitrary: s ws)
  case (Cons m msgs)
  then obtain w s' ws' where w: "externalize_blocks sb m s = (Inr w, s')" "externalize_list sb msgs s' = (Inr ws', s1)"
    "ws = w # ws'" by (auto split: prod.splits sum.splits)
  show ?case using Cons.IH [OF w(2)] Cons.prems(2) stored_message [OF w(1), of e x] w(3) by simp
qed simp

lemma jkeys_snapshot_fields: "jkeys (snapshot_fields e st ms ims) = PERSISTED_FIELDS"
  by (simp add: snapshot_fields_def jkeys_def PERSISTED_FIELDS_def)

lemma snapshot_field_set: "check_field_set (snapshot_fields e st ms ims) = None"
  by (simp add: check_field_set_def first_error_None jkeys_snapshot_fields jhas_jkeys list_all_iff)

lemma snapshot_fget:
  fixes e st ms ims
  defines "fs \<equiv> snapshot_fields e st ms ims"
  shows "fget ''messages'' fs = JList (map (scrub_tool_use_inputs e) ms)"
    and "fget ''pending_image_blocks'' fs = JList ims"
    and "fget ''_op_tool_details'' fs = JList (scrub_op_details e (ct_op_tool_details st))"
    and "fget ''stuck_tracker'' fs = JObj (export_stuck_tracker (ct_stuck_tracker st))"
    and "fget ''_trajectory'' fs = JObj (trajectory_to_payload e (ct_trajectory st))"
    and "fget ''_boundary_request_start'' fs = JInt (ct_boundary_request_start st)"
    and "fget ''_boundary_elided_replay'' fs = JInt (ct_boundary_elided_replay st)"
    and "fget ''_boundary_envelope_len'' fs = opt_int_json (ct_boundary_envelope_len st)"
    and "fget ''_char_latch'' fs = opt_int_json (ct_char_latch st)"
    and "fget ''_rescue_passes'' fs = JInt (ct_rescue_passes st)"
    and "fget ''_gen_identity'' fs = (case ct_gen_identity st of
          Some g \<Rightarrow> (if g = [] then JNull else JObj g) | None \<Rightarrow> JNull)"
  by (simp_all add: fs_def snapshot_fields_def fget_def jget_Cons)

lemma scrub_op_details_dicts: "list_all is_dict ds \<Longrightarrow> list_all is_dict (scrub_op_details e ds)"
  by (induction ds) (auto simp: scrub_op_details_def scrub_op_detail_def is_dict_iff Let_def)

lemma snapshot_scalars:
  assumes "turn_ok st" "list_all is_dict ims"
  shows "check_scalars (snapshot_fields e st ms ims) = None"
proof -
  let ?fs = "snapshot_fields e st ms ims"
  have "list_all fst (field_check is_bool ?fs GUARD_FLAG_FIELDS)"
    by (simp add: field_check_def GUARD_FLAG_FIELDS_def snapshot_fields_def fget_def jget_Cons is_bool_iff)
  moreover have "list_all fst (field_check (int_from 0) ?fs NON_NEGATIVE_INT_FIELDS)"
    "list_all fst (field_check (int_from 1) ?fs POSITIVE_INT_FIELDS)"
    using assms(1)
    by (simp_all add: field_check_def NON_NEGATIVE_INT_FIELDS_def POSITIVE_INT_FIELDS_def snapshot_fields_def fget_def
        jget_Cons int_from_def exact_int_def int_val_def turn_ok_def)
  moreover have "list_all fst (field_check is_str ?fs STRING_FIELDS)"
    "list_all fst (field_check (list_of is_str) ?fs STR_LIST_FIELDS)"
    by (simp_all add: field_check_def STRING_FIELDS_def STR_LIST_FIELDS_def snapshot_fields_def fget_def jget_Cons
        is_str_def list_of_def list_all_iff)
  moreover have "list_all fst (field_check (list_of is_dict) ?fs DICT_LIST_FIELDS)"
    using assms by (simp add: field_check_def DICT_LIST_FIELDS_def snapshot_fget list_of_def scrub_op_details_dicts turn_ok_def)
  moreover have "int_val (fget ''continuation_count'' ?fs) \<le> int_val (fget ''max_continuations'' ?fs)"
    "int_val (fget ''_validation_retries'' ?fs) \<le> int_val (fget ''_max_validation_retries'' ?fs)"
    "int_val (fget ''iteration'' ?fs) \<le> int_val (fget ''chat_cap'' ?fs)"
    using assms(1) by (simp_all add: snapshot_fields_def fget_def jget_Cons int_val_def turn_ok_def)
  ultimately show ?thesis by (simp add: check_scalars_def first_error_None)
qed

lemma snapshot_tracker: "tracker_ok (ct_stuck_tracker st) \<Longrightarrow> check_tracker (snapshot_fields e st ms ims) = None"
  unfolding check_tracker_def snapshot_fget entries_JObj Let_def
  by (simp add: first_error_None is_dict_def same_keys_def jkeys_def
      export_stuck_tracker_def STUCK_TRACKER_KEYS_def fget_def jget_Cons list_of_def list_all_iff is_str_def
      int_from_def exact_int_def int_val_def nat_json_def is_bool_def tracker_ok_def)

lemma snapshot_trajectory: "check_trajectory (snapshot_fields e st ms ims) = None"
  unfolding check_trajectory_def snapshot_fget entries_JObj Let_def
  by (simp add: first_error_None is_dict_def
      trajectory_to_payload_def fget_def jget_Cons list_of_def list_all_iff
      int_from_def exact_int_def int_val_def nat_json_def)

lemma snapshot_transcript:
  assumes "turn_ok st" "externalize_list sb (ct_messages st) s = (Inr ms, s1)"
  shows "check_transcript 4 (snapshot_fields e st ms ims) = None"
proof -
  have b: "boundaries_ok st" "list_all plain_message (ct_messages st)" using assms(1) by (simp_all add: turn_ok_def)
  note m = stored_messages [OF assms(2) b(2), of e]
  have hd: "ms \<noteq> [] \<Longrightarrow> hd (map (scrub_tool_use_inputs e) ms) = scrub_tool_use_inputs e (hd ms)" by (cases ms) auto
  have i: "int_from 0 (JInt n) \<longleftrightarrow> 0 \<le> n" "int_val (JInt n) = n" for n
    by (simp_all add: int_from_def exact_int_def int_val_def)
  from b(1) obtain n where n: "ct_boundary_envelope_len st = Some n" "0 \<le> n"
    "ct_boundary_request_start st + n \<le> int (length (ct_messages st))" by (auto simp: boundaries_ok_def)
  have latch: "null_or_nat (opt_int_json (ct_char_latch st))"
    using b(1) by (auto simp: boundaries_ok_def null_or_nat_def opt_int_json_def i split: option.splits)
  have el: "ct_boundary_elided_replay st = 0 \<or> (1 \<le> ct_boundary_request_start st \<and> ms \<noteq> []
      \<and> jget ''content'' (entries (scrub_tool_use_inputs e (hd ms)))
        = Some (JStr (replay_marker (ct_boundary_elided_replay st))))"
    using b(1) m by (cases "ct_messages st = []") (auto simp: boundaries_ok_def)
  have c: "0 \<le> ct_boundary_request_start st" "0 \<le> ct_boundary_elided_replay st" "0 \<le> ct_rescue_passes st"
    using b(1) by (simp_all add: boundaries_ok_def)
  have t: "list_all (\<lambda>_. True) xs" for xs :: "json list" by (simp add: list_all_iff)
  show ?thesis
    using m n latch el c hd
    by (auto simp: t check_transcript_def first_error_None snapshot_fget field_check_def Let_def list_of_def items_def
        opt_int_json_def null_or_nat_def i)
qed

lemma snapshot_identity:
  assumes "turn_ok st"
  shows "check_gen_identity 4 (snapshot_fields e st ms ims) = Inr (snapshot_fields e st ms ims)"
proof -
  have "identity_ok st" using assms by (simp add: turn_ok_def)
  then show ?thesis
    by (auto simp: check_gen_identity_def snapshot_fget Let_def identity_ok_def int_val_def upgrade_identity_def
        legacy_identity_def CODEC_VERSION_def split: option.splits)
qed

lemma snapshot_Inr:
  assumes "snapshot_chat_turn e st sb seq extra s = (Inr p, s2)"
  obtains ms s1 imgs where "externalize_list sb (ct_messages st) s = (Inr ms, s1)"
    "externalize_list sb (ct_pending_image_blocks st) s1 = (Inr imgs, s2)"
    "p = JObj ([(''codec_version'', JInt 4), (''policy'', JStr ''chat''), (''generation_seq'', JInt seq),
        (''fields'', JObj (snapshot_fields e st ms imgs))] @ (if extra = [] then [] else [(''extra'', JObj extra)]))"
  using assms by (auto simp: snapshot_chat_turn_def CODEC_VERSION_def split: prod.splits sum.splits)

lemma tracker_round_trip:
  assumes "tracker_ok t"
  shows "import_stuck_tracker (export_stuck_tracker t) = t"
proof -
  have "deque_extend (window_size t) [] (fingerprints t) = fingerprints t"
    using deque_extend_last_n [of "window_size t" "[]" "fingerprints t"] assms by (simp add: last_n_def tracker_ok_def)
  moreover have "map (\<lambda>x. text_of (Some x)) (map JStr xs) = xs" for xs by (simp add: text_of_def comp_def)
  ultimately show ?thesis
    by (simp add: import_stuck_tracker_def export_stuck_tracker_def jget_Cons nat_or_def nat_json_def bool_or_def
        strings_of_def new_tracker_def Let_def del: map_map)
qed

lemma snapshot_valid:
  assumes "snapshot_chat_turn e st sb seq extra s = (Inr p, s2)" "turn_ok st" "0 \<le> seq"
  obtains ms imgs where "validate_payload p = Inr p" "entries (fget ''fields'' (entries p)) = snapshot_fields e st ms imgs"
    "jkeys (entries p) = [''codec_version'', ''policy'', ''generation_seq'', ''fields''] @ (if extra = [] then [] else [''extra''])"
    "fget ''codec_version'' (entries p) = JInt 4" "fget ''generation_seq'' (entries p) = JInt seq" "is_dict p"
proof -
  from assms(1) obtain ms s1 imgs where ms: "externalize_list sb (ct_messages st) s = (Inr ms, s1)"
    and imgs: "externalize_list sb (ct_pending_image_blocks st) s1 = (Inr imgs, s2)"
    and p: "p = JObj ([(''codec_version'', JInt 4), (''policy'', JStr ''chat''), (''generation_seq'', JInt seq),
        (''fields'', JObj (snapshot_fields e st ms imgs))] @ (if extra = [] then [] else [(''extra'', JObj extra)]))"
    by (rule snapshot_Inr)
  let ?fs = "snapshot_fields e st ms imgs"
  let ?pl = "[(''codec_version'', JInt 4), (''policy'', JStr ''chat''), (''generation_seq'', JInt seq),
        (''fields'', JObj ?fs)] @ (if extra = [] then [] else [(''extra'', JObj extra)])"
  have fg: "fget ''codec_version'' ?pl = JInt 4" "fget ''policy'' ?pl = JStr ''chat''"
    "fget ''generation_seq'' ?pl = JInt seq" "fget ''fields'' ?pl = JObj ?fs"
    by (simp_all add: fget_def jget_Cons)
  have env: "check_envelope ?pl = None"
    unfolding check_envelope_def fg using assms(3)
    by (simp add: first_error_None int_from_def exact_int_def int_val_def CODEC_VERSION_def is_dict_def)
  have norm: "normalize_fields 4 ?fs = ?fs" by (simp add: normalize_fields_def)
  have "list_all is_dict imgs"
    using externalize_list_dicts [OF imgs] assms(2) by (simp add: turn_ok_def)
  then have chk: "check_fields 4 ?fs = None"
    using snapshot_field_set snapshot_scalars [OF assms(2)] snapshot_tracker snapshot_trajectory
      snapshot_transcript [OF assms(2) ms] assms(2) unfolding check_fields_None turn_ok_def by blast
  have set: "jset ''fields'' (JObj ?fs) ?pl = ?pl" by (simp add: jset_def jhas_def)
  have v: "validate_payload p = Inr p"
    unfolding validate_payload_def p using env norm chk snapshot_identity [OF assms(2), of e ms imgs] set
    by (simp only: json.case fg int_val_def option.case sum.case Let_def entries_JObj)
  have "entries (fget ''fields'' (entries p)) = ?fs" using fg(4) by (simp only: p entries_JObj)
  moreover have "fget ''codec_version'' (entries p) = JInt 4" "fget ''generation_seq'' (entries p) = JInt seq" "is_dict p"
    using fg by (simp_all only: p entries_JObj is_dict_def json.case)
  moreover have "jkeys (entries p) = [''codec_version'', ''policy'', ''generation_seq'', ''fields''] @ (if extra = [] then [] else [''extra''])"
    by (simp add: p jkeys_def)
  ultimately show thesis using that v by blast
qed

text \<open>
  C24: what a live turn checkpoints, a resume accepts. For a turn whose counters are within
  their caps and whose transcript is well-formed, the payload \<^verbatim>\<open>snapshot_chat_turn\<close> writes
  (with any storage scrubbers) passes \<^verbatim>\<open>validate_payload\<close> unchanged, whatever flow metadata
  rides along; and a successful restore has the stuck tracker of the turn and every field of it that is not
  scrubbed, rebuilt or kept in blobs: all guard flags, counters, caps, retry budgets, identities and
  boundaries. (\<open>Turn_Images\<close> has the images of the transcript.)
\<close>

theorem snapshot_accepted:
  assumes "snapshot_chat_turn e st sb seq extra s = (Inr p, s2)" and "turn_ok st" and "0 \<le> seq"
  shows "validate_payload p = Inr p
    \<and> (\<forall>lb rf. restore_field_values lb p = Inr rf \<longrightarrow>
         rf_stuck_tracker rf = ct_stuck_tracker st
         \<and> fget ''fabrication_retried'' (rf_fields rf) = JBool (ct_fabrication_retried st)
         \<and> fget ''promise_retried'' (rf_fields rf) = JBool (ct_promise_retried st)
         \<and> fget ''unavail_retried'' (rf_fields rf) = JBool (ct_unavail_retried st)
         \<and> fget ''hedging_retried'' (rf_fields rf) = JBool (ct_hedging_retried st)
         \<and> fget ''code_hedging_retried'' (rf_fields rf) = JBool (ct_code_hedging_retried st)
         \<and> fget ''premature_failure_retried'' (rf_fields rf) = JBool (ct_premature_failure_retried st)
         \<and> fget ''wait_judgment_pending'' (rf_fields rf) = JBool (ct_wait_judgment_pending st)
         \<and> fget ''_validation_required'' (rf_fields rf) = JBool (ct_validation_required st)
         \<and> fget ''iteration'' (rf_fields rf) = JInt (ct_iteration st)
         \<and> fget ''continuation_count'' (rf_fields rf) = JInt (ct_continuation_count st)
         \<and> fget ''max_continuations'' (rf_fields rf) = JInt (ct_max_continuations st)
         \<and> fget ''_validation_retries'' (rf_fields rf) = JInt (ct_validation_retries st)
         \<and> fget ''_max_validation_retries'' (rf_fields rf) = JInt (ct_max_validation_retries st)
         \<and> fget ''chat_cap'' (rf_fields rf) = JInt (ct_chat_cap st)
         \<and> fget ''_result_store_cap'' (rf_fields rf) = JInt (ct_result_store_cap st)
         \<and> fget ''_boundary_request_start'' (rf_fields rf) = JInt (ct_boundary_request_start st)
         \<and> fget ''_boundary_elided_replay'' (rf_fields rf) = JInt (ct_boundary_elided_replay st)
         \<and> fget ''_rescue_passes'' (rf_fields rf) = JInt (ct_rescue_passes st)
         \<and> fget ''system_prompt'' (rf_fields rf) = JStr (ct_system_prompt st)
         \<and> fget ''user_id'' (rf_fields rf) = JStr (ct_user_id st)
         \<and> fget ''_ch_id'' (rf_fields rf) = JStr (ct_ch_id st)
         \<and> fget ''_req_id'' (rf_fields rf) = JStr (ct_req_id st)
         \<and> fget ''tools_used_in_loop'' (rf_fields rf) = JList (map JStr (ct_tools_used_in_loop st))
         \<and> fget ''_pending_validations'' (rf_fields rf) = JList (map JStr (ct_pending_validations st))
         \<and> fget ''_boundary_envelope_len'' (rf_fields rf) = opt_int_json (ct_boundary_envelope_len st)
         \<and> fget ''_char_latch'' (rf_fields rf) = opt_int_json (ct_char_latch st)
         \<and> fget ''_gen_identity'' (rf_fields rf) = (case ct_gen_identity st of None \<Rightarrow> JNull | Some g \<Rightarrow> if g = [] then JNull else JObj g))"
proof -
  from assms obtain ms imgs where v: "validate_payload p = Inr p"
    and f: "entries (fget ''fields'' (entries p)) = snapshot_fields e st ms imgs" by (rule snapshot_valid)
  have "tracker_ok (ct_stuck_tracker st)" using assms(2) by (simp add: turn_ok_def)
  then have "rf_fields rf = snapshot_fields e st ms imgs \<and> rf_stuck_tracker rf = ct_stuck_tracker st"
    if "restore_field_values lb p = Inr rf" for lb rf
    using that by (auto simp: restore_field_values_def v f Let_def snapshot_fget tracker_round_trip split: sum.splits)
  then show ?thesis using v by (auto simp: snapshot_fields_def fget_def jget_Cons)
qed

definition ex_scrubbers :: scrubbers where
  "ex_scrubbers = \<lparr>scrub_output_secrets = (\<lambda>s. s), scrub_tool_input_for_storage = (\<lambda>_ v. v)\<rparr>"

definition ex_trajectory :: trajectory where
  "ex_trajectory = \<lparr>tj_message_id = ''42'', tj_channel_id = ''7'', tj_user_id = ''u'', tj_user_name = ''n'',
     tj_timestamp = [], tj_source = ''discord'', tj_user_content = ''hi'', tj_system_prompt = ''p'', tj_history = [],
     tj_iterations = [[(''iteration'', JInt 1)]], tj_final_response = [], tj_tools_used = [], tj_is_error = False,
     tj_handoff = False, tj_user_content_truncated = False, tj_user_content_original_chars = 0, tj_reply_turn = False,
     tj_reply_context = [], tj_reply_context_truncated = False, tj_total_input_tokens = 0, tj_total_output_tokens = 0,
     tj_total_duration_ms = 0, tj_context_recoveries = []\<rparr>"

definition ex_turn :: chat_turn where
  "ex_turn = \<lparr>ct_system_prompt = ''p'',
     ct_messages = [JObj [(''role'', JStr ''user''), (''content'', JList [ex_image])]],
     ct_user_id = ''u'', ct_chat_cap = 10, ct_iteration = 2, ct_tools_used_in_loop = [], ct_continuation_count = 1,
     ct_max_continuations = 3, ct_fabrication_retried = True, ct_promise_retried = False, ct_unavail_retried = False,
     ct_hedging_retried = True, ct_code_hedging_retried = False, ct_premature_failure_retried = False,
     ct_wait_judgment_pending = False, ct_pending_image_blocks = [ex_image], ct_op_tool_details = [],
     ct_pending_validations = [], ct_validation_required = False, ct_validation_retries = 0, ct_max_validation_retries = 2,
     ct_result_store_cap = 100, ct_ch_id = ''7'', ct_req_id = ''r'',
     ct_stuck_tracker = \<lparr>fingerprints = [''f''], window_size = 12, min_repeats = 3, max_cycle_length = 3,
        names_only = False, warned = True\<rparr>,
     ct_trajectory = ex_trajectory, ct_boundary_request_start = 0, ct_boundary_elided_replay = 0,
     ct_boundary_envelope_len = Some 1, ct_char_latch = None, ct_rescue_passes = 0, ct_gen_identity = None\<rparr>"

lemma ex_turn_ok: "turn_ok ex_turn"
  by (simp add: turn_ok_def ex_turn_def plain_message_def message_ok_def is_dict_def fget_def jget_Cons is_str_def
      jhas_def ex_image_def tracker_ok_def boundaries_ok_def identity_ok_def)

lemma ex_snapshot: "\<exists>p s2. snapshot_chat_turn ex_scrubbers ex_turn (\<lambda>d. store_blob_sync ex_sha False d) 3 [] ex_store = (Inr p, s2)"
  by (simp add: snapshot_chat_turn_def ex_turn_def ex_image_def is_desktop_frame_def is_image_def image_source_def
      jget_Cons jhas_def store_blob_sync_def ex_store_def ex_sha_def Let_def ascii_encode_def)

theorem snapshot_accepted_witness:
  "\<exists>p s2. snapshot_chat_turn ex_scrubbers ex_turn (\<lambda>d. store_blob_sync ex_sha False d) 3 [] ex_store = (Inr p, s2)
     \<and> turn_ok ex_turn \<and> validate_payload p = Inr p"
proof -
  obtain p s2 where p: "snapshot_chat_turn ex_scrubbers ex_turn (\<lambda>d. store_blob_sync ex_sha False d) 3 [] ex_store = (Inr p, s2)"
    using ex_snapshot by blast
  show ?thesis using snapshot_accepted [OF p ex_turn_ok] p ex_turn_ok by auto
qed

end
