(* ===== verification/Turn_Validate_Order.thy ===== *)
theory Turn_Validate_Order
  imports Turn_Validate_Props
begin

text \<open>
  The validator does not depend on the order of dictionary keys. Checkpoints are stored with
  \<^verbatim>\<open>sort_keys=True\<close>, so what a resume loads is the written payload with every object sorted;
  each group of checks gives the same verdict on both.
\<close>

declare jget_sorted [simp] fget_sorted [simp] set_jkeys_sorted [simp] jhas_sorted [simp] sort_keys_scalar [simp]

declare sort_keys.simps(2) [simp del]

lemma same_keys_sorted [simp]: "same_keys (jkeys (sorted_entries kvs)) ks = same_keys (jkeys kvs) ks"
  by (simp add: same_keys_def)

lemma sort_keys_kinds [simp]:
  "is_bool (sort_keys v) = is_bool v" "is_str (sort_keys v) = is_str v" "is_dict (sort_keys v) = is_dict v"
  "exact_int (sort_keys v) = exact_int v" "int_val (sort_keys v) = int_val v" "unhashable (sort_keys v) = unhashable v"
  "eq_int (sort_keys v) n = eq_int v n" "hex32 (sort_keys v) = hex32 v"
  "entries (sort_keys v) = sorted_entries (entries v)" "items (sort_keys v) = map sort_keys (items v)"
  "list_of p (sort_keys v) = list_of (\<lambda>x. p (sort_keys x)) v" "text_of (Some (sort_keys v)) = text_of (Some v)"
  by (cases v; simp add: sort_keys_JObj is_bool_def is_str_def is_dict_def exact_int_def int_val_def unhashable_def
      eq_int_def hex32_def entries_def items_def list_of_def text_of_def sorted_entries_def list_all_length)+

lemma sort_keys_ints [simp]: "int_from lo (sort_keys v) = int_from lo v" "null_or_nat (sort_keys v) = null_or_nat v"
  by (simp_all add: int_from_def null_or_nat_def)

lemma sort_keys_in_texts [simp]: "sort_keys v \<in> JStr ` S \<longleftrightarrow> v \<in> JStr ` S"
  by (cases v) (auto simp: sort_keys_JObj)

lemma field_check_sorted [simp]:
  "(\<And>v. p (sort_keys v) = p v) \<Longrightarrow> field_check p (sorted_entries fs) ns = field_check p fs ns"
  by (simp add: field_check_def)

lemma check_envelope_sorted: "check_envelope (sorted_entries pl) = check_envelope pl"
  by (simp add: check_envelope_def)

lemma check_field_set_sorted: "check_field_set (sorted_entries fs) = check_field_set fs"
  by (simp add: check_field_set_def list_all_iff)

lemma check_scalars_sorted: "check_scalars (sorted_entries fs) = check_scalars fs"
  by (simp add: check_scalars_def)

lemma check_tracker_sorted: "check_tracker (sorted_entries fs) = check_tracker fs"
  by (simp add: check_tracker_def Let_def)

lemma check_trajectory_sorted: "check_trajectory (sorted_entries fs) = check_trajectory fs"
proof -
  have "list_of (\<lambda>_. True) (case map_option sort_keys x of Some v \<Rightarrow> v | None \<Rightarrow> JList [])
      = list_of (\<lambda>_. True) (case x of Some v \<Rightarrow> v | None \<Rightarrow> JList [])" for x
    by (cases x) simp_all
  then show ?thesis by (simp add: check_trajectory_def Let_def)
qed

lemma message_ok_sorted [simp]: "message_ok (sort_keys m) = message_ok m"
proof -
  have "(case sort_keys v of JList bs \<Rightarrow> list_all is_dict bs | JStr _ \<Rightarrow> True | _ \<Rightarrow> False)
      = (case v of JList bs \<Rightarrow> list_all is_dict bs | JStr _ \<Rightarrow> True | _ \<Rightarrow> False)" for v
    by (cases v) (simp_all add: sort_keys_JObj list_all_length)
  then show ?thesis by (simp add: message_ok_def)
qed

lemma list_all_map_sorted: "(\<And>v. p (sort_keys v) = p v) \<Longrightarrow> list_all p (map sort_keys vs) = list_all p vs"
  by (induction vs) auto

lemma check_transcript_sorted: "check_transcript version (sorted_entries fs) = check_transcript version fs"
proof -
  have "ms \<noteq> [] \<and> jget ''content'' (entries (hd (map sort_keys ms))) = Some (JStr x)
      \<longleftrightarrow> ms \<noteq> [] \<and> jget ''content'' (entries (hd ms)) = Some (JStr x)" for ms x
    by (cases ms) auto
  then show ?thesis by (simp add: check_transcript_def list_all_map_sorted Let_def)
qed

lemma ladder_ok_sorted [simp]: "ladder_ok (sort_keys v) = ladder_ok v"
  by (cases v) (simp_all add: ladder_ok_def sort_keys_JObj list_all_map_sorted comp_def)

lemma attempt_ok_sorted [simp]: "attempt_ok (i, sort_keys v) = attempt_ok (i, v)"
  by (simp add: attempt_ok_def Let_def)

lemma check_identity_head_sorted:
  "check_identity_head version n (sorted_entries g) = check_identity_head version n g"
  by (simp add: check_identity_head_def legacy_identity_def Let_def)

lemma check_identity_tail_sorted: "check_identity_tail n (sorted_entries g) = check_identity_tail n g"
proof -
  have "map (\<lambda>ia. (attempt_ok ia, err)) (zip is' (map sort_keys vs)) = map (\<lambda>ia. (attempt_ok ia, err)) (zip is' vs)"
    for is' vs and err :: codec_error
    by (auto simp: zip_map2 intro!: map_cong)
  then show ?thesis by (simp add: check_identity_tail_def Let_def list_all_map_sorted)
qed

text \<open>A version 4 payload and its sorted form are accepted or refused alike.\<close>

lemma validate_sorted:
  assumes "validate_payload (JObj pl) = Inr (JObj pl)" "fget ''codec_version'' pl = JInt 4" "distinct (jkeys pl)"
  shows "validate_payload (sort_keys (JObj pl)) = Inr (sort_keys (JObj pl))"
proof -
  let ?fs = "entries (fget ''fields'' pl)"
  have n4: "normalize_fields 4 fs = fs" for fs by (simp add: normalize_fields_def)
  from assms(1) have env: "check_envelope pl = None" and chk: "check_fields 4 ?fs = None"
    and id: "\<exists>fs'. check_gen_identity 4 ?fs = Inr fs'"
    by (auto simp: validate_payload_def assms(2) int_val_def n4 Let_def split: option.splits sum.splits)
  have d: "fget ''fields'' pl = JObj ?fs"
    using env by (auto simp: check_envelope_def first_error_None is_dict_iff)
  have chk': "check_fields 4 (sorted_entries ?fs) = None"
    using chk by (simp add: check_fields_None check_field_set_sorted check_scalars_sorted check_tracker_sorted
        check_trajectory_sorted check_transcript_sorted)
  have id': "check_gen_identity 4 (sorted_entries ?fs) = Inr (sorted_entries ?fs)"
  proof (cases "fget ''_gen_identity'' ?fs")
    case JNull
    then show ?thesis using id by (auto simp: check_gen_identity_def split: if_splits)
  next
    case (JObj g)
    then show ?thesis using id
      by (auto simp: check_gen_identity_def Let_def sort_keys_JObj check_identity_head_sorted check_identity_tail_sorted
          upgrade_identity_def legacy_identity_def split: option.splits)
  qed (use id in \<open>auto simp: check_gen_identity_def Let_def\<close>)
  have "jset ''fields'' (JObj (sorted_entries ?fs)) (sorted_entries pl) = sorted_entries pl"
  proof -
    have g: "jget ''fields'' (sorted_entries pl) = Some (JObj (sorted_entries ?fs))"
      using d by (cases "jget ''fields'' pl") (auto simp: fget_def, metis sort_keys_JObj)
    have "distinct (map fst (sorted_entries pl))"
      using assms(3) by (auto simp: sorted_entries_def jkeys_def distinct_map inj_on_def comp_def)
    then have "map (\<lambda>p. if fst p = ''fields'' then (''fields'', JObj (sorted_entries ?fs)) else p) (sorted_entries pl) = sorted_entries pl"
      using g by (intro map_idI) (auto simp: jget_def dest: map_of_SomeD eq_key_imp_eq_value)
    moreover have "jhas ''fields'' (sorted_entries pl)" unfolding jhas_iff g by simp
    ultimately show ?thesis by (simp only: jset_def if_True)
  qed
  moreover have "entries (fget ''fields'' (sorted_entries pl)) = sorted_entries ?fs" by simp
  ultimately show ?thesis
    unfolding sort_keys_JObj validate_payload_def
    using env chk' id' by (simp add: check_envelope_sorted assms(2) int_val_def [of "JInt 4"] n4 Let_def)
qed

end
