(* ===== verification/Turn_Durability.thy ===== *)
theory Turn_Durability
  imports Turn_Validate_Order
begin

text \<open>
  \<^verbatim>\<open>src/turn_state/durability.py\<close>: the write-invariant hooks between the tool loop and the
  turn store. The handle is a record; every hook returns its outcome (the exception that
  halts the loop, or unit), the handle and the store. The live turn is a \<open>chat_turn\<close>, its
  snapshot the codec's; the storage scrubbers, the clock readings and the faults of every
  blob and database write are arguments.
\<close>

section \<open>The handle\<close>

datatype block_reason = Refused disposition | Admission_error

record durability =
  has_store :: bool
  d_lease :: "turn_lease option"
  gen_seq :: int
  d_suspended :: bool
  d_settled :: bool
  d_cancelled :: bool
  resume_budget :: "py_time option"
  blocked :: "block_reason option"
  heartbeats :: bool

definition new_handle :: "bool \<Rightarrow> turn_lease option \<Rightarrow> durability" where
  "new_handle st l = \<lparr>has_store = st, d_lease = l, gen_seq = 0, d_suspended = False, d_settled = False,
     d_cancelled = False, resume_budget = None, blocked = None, heartbeats = False\<rparr>"

definition disabled_handle :: durability where
  "disabled_handle = new_handle False None"

definition enabled :: "durability \<Rightarrow> bool" where
  "enabled h \<longleftrightarrow> has_store h \<and> d_lease h \<noteq> None \<and> \<not> d_suspended h \<and> \<not> d_settled h"

definition start_heartbeats :: "durability \<Rightarrow> durability" where
  "start_heartbeats h = (if \<not> has_store h \<or> d_lease h = None then h else h\<lparr>heartbeats := True\<rparr>)"

definition stop_heartbeats :: "durability \<Rightarrow> durability" where
  "stop_heartbeats h = h\<lparr>heartbeats := False\<rparr>"

definition heartbeat_interval :: "turn_store \<Rightarrow> py_time" where
  "heartbeat_interval s = max 5 (lease_ttl s / 3)"

text \<open>One wake-up of the \<^verbatim>\<open>_beat\<close> task: it ends when the handle is done or the write fails.\<close>

definition beat :: "bool \<Rightarrow> py_time \<Rightarrow> py_time \<Rightarrow> durability \<Rightarrow> turn_store \<Rightarrow> durability \<times> turn_store" where
  "beat fault t_renew t_fence h s =
     (if \<not> heartbeats h then (h, s)
      else if \<not> enabled h then (stop_heartbeats h, s)
      else case d_lease h of
          None \<Rightarrow> (stop_heartbeats h, s)
        | Some l \<Rightarrow>
            (case heartbeat_sync fault t_renew t_fence l s of
               (Inl _, s') \<Rightarrow> (stop_heartbeats h, s')
             | (Inr l', s') \<Rightarrow> (h\<lparr>d_lease := Some l'\<rparr>, s')))"

section \<open>Admission\<close>

record chat_message =
  m_channel_id :: string
  m_message_id :: string
  m_guild_id :: string
  m_author_id :: string
  m_content :: string

definition hash_text :: "(string \<Rightarrow> string) \<Rightarrow> string \<Rightarrow> string" where
  "hash_text sha t = sha t"

definition admission_of ::
  "(string \<Rightarrow> string) \<Rightarrow> string \<Rightarrow> chat_message \<Rightarrow> string \<Rightarrow> string list \<Rightarrow> json option \<Rightarrow> admission" where
  "admission_of sha version m system_prompt tool_names snap =
     \<lparr>a_guild_id = Some (m_guild_id m), a_user_id = Some (m_author_id m),
      a_content_digest = Some (sha (m_content m)), a_code_version = Some version,
      a_prompt_policy_hash = Some (hash_text sha system_prompt),
      a_tool_catalog_hash = Some (hash_text sha (join '','' (sort tool_names))),
      a_session_snapshot = snap\<rparr>"

text \<open>
  \<^verbatim>\<open>admit\<close>: without a store the handle is disabled (legacy run); with one, every failure to
  obtain a lease leaves a refusal on the handle. \<open>raises\<close> is an exception anywhere in the
  admission block.
\<close>

definition admit ::
  "(string \<Rightarrow> string) \<Rightarrow> bool \<Rightarrow> bool \<Rightarrow> string \<Rightarrow> string \<Rightarrow> py_time \<Rightarrow> string \<Rightarrow> chat_message \<Rightarrow> string
   \<Rightarrow> string list \<Rightarrow> json option \<Rightarrow> turn_store option \<Rightarrow> durability \<times> turn_store option" where
  "admit sha raises fault gen tok now version m system_prompt tool_names snap store =
     (case store of
        None \<Rightarrow> (disabled_handle, None)
      | Some s \<Rightarrow>
          if \<not> conn s then (disabled_handle\<lparr>blocked := Some Admission_error\<rparr>, store)
          else if raises then (disabled_handle\<lparr>blocked := Some Admission_error\<rparr>, store)
          else
            (let key = \<lparr>source = ''discord'', channel_id = m_channel_id m, message_id = m_message_id m\<rparr>;
                 ((lease, d), s') = admit_turn_sync fault gen tok now key
                    (admission_of sha version m system_prompt tool_names snap) s
             in case lease of
                  Some l \<Rightarrow> (start_heartbeats (new_handle True (Some l)), Some s')
                | None \<Rightarrow>
                    if d = Store_unavailable
                    then (disabled_handle\<lparr>blocked := Some Admission_error\<rparr>, Some s')
                    else (disabled_handle\<lparr>blocked := Some (Refused d)\<rparr>, Some s')))"

definition resumed :: "turn_lease \<Rightarrow> int \<Rightarrow> py_time option \<Rightarrow> durability" where
  "resumed l seq first_generation_budget =
     start_heartbeats ((new_handle True (Some l))\<lparr>gen_seq := seq, resume_budget := first_generation_budget\<rparr>)"

definition pop_resume_budget :: "durability \<Rightarrow> py_time option \<times> durability" where
  "pop_resume_budget h = (resume_budget h, h\<lparr>resume_budget := None\<rparr>)"

section \<open>The hooks\<close>

type_synonym hook_result = "(store_error + unit) \<times> durability \<times> turn_store"

definition checkpoint_hook ::
  "(string \<Rightarrow> string) \<Rightarrow> scrubbers \<Rightarrow> (bytes \<Rightarrow> bool) \<Rightarrow> bool \<Rightarrow> py_time \<Rightarrow> py_time \<Rightarrow> chat_turn \<Rightarrow> bool
   \<Rightarrow> py_time option \<Rightarrow> durability \<Rightarrow> turn_store \<Rightarrow> hook_result" where
  "checkpoint_hook sha e blob_fault fault now t_fence st progressed deadline h s =
     (case d_lease h of
        None \<Rightarrow> (Inl ValueError, h, s)
      | Some l \<Rightarrow>
          (case snapshot_chat_turn e st (\<lambda>d. store_blob_sync sha (blob_fault d) d) (gen_seq h) [] s of
             (Inl err, s1) \<Rightarrow> (Inl err, h, s1)
           | (Inr pay, s1) \<Rightarrow>
               (case checkpoint_sync sha fault now now t_fence l pay progressed deadline s1 of
                  (Inl err, s2) \<Rightarrow> (Inl err, h, s2)
                | (Inr l', s2) \<Rightarrow> (Inr (), h\<lparr>d_lease := Some l'\<rparr>, s2))))"

definition on_generation_start ::
  "(string \<Rightarrow> string) \<Rightarrow> scrubbers \<Rightarrow> (bytes \<Rightarrow> bool) \<Rightarrow> bool \<Rightarrow> py_time \<Rightarrow> py_time \<Rightarrow> chat_turn \<Rightarrow> py_time
   \<Rightarrow> durability \<Rightarrow> turn_store \<Rightarrow> hook_result" where
  "on_generation_start sha e blob_fault fault now t_fence st deadline_seconds h s =
     (if \<not> enabled h then (Inr (), h, s)
      else checkpoint_hook sha e blob_fault fault now t_fence st False (Some (now + max 0 deadline_seconds)) h s)"

definition on_context_recovery ::
  "(string \<Rightarrow> string) \<Rightarrow> scrubbers \<Rightarrow> (bytes \<Rightarrow> bool) \<Rightarrow> bool \<Rightarrow> py_time \<Rightarrow> py_time \<Rightarrow> chat_turn
   \<Rightarrow> durability \<Rightarrow> turn_store \<Rightarrow> hook_result" where
  "on_context_recovery sha e blob_fault fault now t_fence st h s =
     (if \<not> enabled h then (Inr (), h, s)
      else checkpoint_hook sha e blob_fault fault now t_fence st False None h s)"

record tool_call =
  tc_id :: string
  tc_name :: string
  tc_input :: json
  tc_parse_error :: bool

definition intent_of :: "scrubbers \<Rightarrow> tool_call \<Rightarrow> intent" where
  "intent_of e tc =
     \<lparr>i_tool_call_id = tc_id tc, i_tool_name = tc_name tc,
      i_tool_input = scrub_stored_tool_input e (tc_name tc) (tc_input tc),
      i_effect_class = JStr (effect_class_text (classify_tool_effect (tc_name tc) (tc_input tc)))\<rparr>"

definition on_llm_response ::
  "(string \<Rightarrow> string) \<Rightarrow> scrubbers \<Rightarrow> (bytes \<Rightarrow> bool) \<Rightarrow> bool \<Rightarrow> bool \<Rightarrow> py_time \<Rightarrow> py_time \<Rightarrow> chat_turn
   \<Rightarrow> tool_call list \<Rightarrow> durability \<Rightarrow> turn_store \<Rightarrow> hook_result" where
  "on_llm_response sha e blob_fault fault1 fault2 now t_fence st tool_calls h s =
     (if \<not> enabled h then (Inr (), h, s)
      else
        (let h1 = h\<lparr>gen_seq := gen_seq h + 1\<rparr> in
         case checkpoint_hook sha e blob_fault fault1 now t_fence st True None h1 s of
           (Inl err, h2, s2) \<Rightarrow> (Inl err, h2, s2)
         | (Inr _, h2, s2) \<Rightarrow>
             (let executable = filter (\<lambda>tc. \<not> tc_parse_error tc) tool_calls in
              if executable = [] then (Inr (), h2, s2)
              else case d_lease h2 of
                  None \<Rightarrow> (Inl ValueError, h2, s2)
                | Some l \<Rightarrow>
                    (case record_intents_sync sha fault2 now l (gen_seq h2)
                            (map (\<lambda>tc. (intent_of e tc, t_fence)) executable) (Some (ct_iteration st)) s2 of
                       (Inl err, s3) \<Rightarrow> (Inl err, h2, s3)
                     | (Inr _, s3) \<Rightarrow> (Inr (), h2, s3)))))"

definition before_tool ::
  "bool \<Rightarrow> py_time \<Rightarrow> py_time \<Rightarrow> string \<Rightarrow> durability \<Rightarrow> turn_store \<Rightarrow> hook_result" where
  "before_tool fault now t_fence block_id h s =
     (if \<not> enabled h then (Inr (), h, s)
      else case d_lease h of
          None \<Rightarrow> (Inl ValueError, h, s)
        | Some l \<Rightarrow>
            (let (res, s') = mark_running_sync fault now t_fence l (gen_seq h) block_id s in (res, h, s')))"

definition op_outcome :: "bool \<Rightarrow> bool \<Rightarrow> op_state" where
  "op_outcome ok uncertain =
     (if ok then APPLIED else if uncertain then OUTCOME_UNKNOWN else DEFINITELY_FAILED)"

definition OP_RESULT_CAP :: nat where
  "OP_RESULT_CAP = 4000"

definition after_tool ::
  "bool \<Rightarrow> py_time \<Rightarrow> py_time \<Rightarrow> string \<Rightarrow> bool \<Rightarrow> bool \<Rightarrow> string \<Rightarrow> durability \<Rightarrow> turn_store \<Rightarrow> hook_result" where
  "after_tool fault now t_fence block_id ok uncertain result_text h s =
     (if \<not> enabled h then (Inr (), h, s)
      else case d_lease h of
          None \<Rightarrow> (Inl ValueError, h, s)
        | Some l \<Rightarrow>
            (let (res, s') = settle_op_sync fault now t_fence l (gen_seq h) block_id
                (op_outcome ok uncertain) (Some (take OP_RESULT_CAP result_text)) s in (res, h, s')))"

definition after_tool_interrupted ::
  "bool \<Rightarrow> py_time \<Rightarrow> py_time \<Rightarrow> string \<Rightarrow> string \<Rightarrow> durability \<Rightarrow> turn_store \<Rightarrow> hook_result" where
  "after_tool_interrupted fault now t_fence block_id result_text h s =
     (if \<not> enabled h then (Inr (), h, s)
      else case d_lease h of
          None \<Rightarrow> (Inl ValueError, h, s)
        | Some l \<Rightarrow>
            (let (res, s') = settle_interrupted_sync fault now t_fence l (gen_seq h) block_id
                (Some (take OP_RESULT_CAP result_text)) s in (res, h, s')))"

definition on_batch_settled ::
  "(string \<Rightarrow> string) \<Rightarrow> scrubbers \<Rightarrow> (bytes \<Rightarrow> bool) \<Rightarrow> bool \<Rightarrow> py_time \<Rightarrow> py_time \<Rightarrow> chat_turn
   \<Rightarrow> durability \<Rightarrow> turn_store \<Rightarrow> hook_result" where
  "on_batch_settled sha e blob_fault fault now t_fence st h s =
     (if \<not> enabled h then (Inr (), h, s)
      else checkpoint_hook sha e blob_fault fault now t_fence st True None h s)"

definition on_guard_injection ::
  "(string \<Rightarrow> string) \<Rightarrow> scrubbers \<Rightarrow> (bytes \<Rightarrow> bool) \<Rightarrow> bool \<Rightarrow> py_time \<Rightarrow> py_time \<Rightarrow> chat_turn
   \<Rightarrow> durability \<Rightarrow> turn_store \<Rightarrow> hook_result" where
  "on_guard_injection sha e blob_fault fault now t_fence st h s =
     (if \<not> enabled h then (Inr (), h, s)
      else checkpoint_hook sha e blob_fault fault now t_fence st False None h s)"

text \<open>
  \<^verbatim>\<open>suspend\<close>: the result is the method's bool. \<open>closed_trace\<close> is the finalised trace segment,
  when there is one.
\<close>

definition suspend_extra :: "string \<Rightarrow> json option \<Rightarrow> dict" where
  "suspend_extra reason closed_trace =
     (''suspend_reason'', JStr reason)
     # (case closed_trace of Some t \<Rightarrow> [(''closed_trace'', t)] | None \<Rightarrow> [])"

definition suspend ::
  "(string \<Rightarrow> string) \<Rightarrow> scrubbers \<Rightarrow> (bytes \<Rightarrow> bool) \<Rightarrow> bool \<Rightarrow> py_time \<Rightarrow> py_time \<Rightarrow> chat_turn \<Rightarrow> string
   \<Rightarrow> json option \<Rightarrow> durability \<Rightarrow> turn_store \<Rightarrow> bool \<times> durability \<times> turn_store" where
  "suspend sha e blob_fault fault now t_fence st reason closed_trace h s =
     (if \<not> enabled h then (False, h, s)
      else
        (let h1 = stop_heartbeats h in
         case d_lease h1 of
           None \<Rightarrow> (False, h1, s)
         | Some l \<Rightarrow>
             (case snapshot_chat_turn e st (\<lambda>d. store_blob_sync sha (blob_fault d) d) (gen_seq h1)
                     (suspend_extra reason closed_trace) s of
                (Inl _, s1) \<Rightarrow> (False, h1, s1)
              | (Inr pay, s1) \<Rightarrow>
                  (case suspend_sync sha fault now t_fence l pay s1 of
                     (Inl _, s2) \<Rightarrow> (False, h1, s2)
                   | (Inr l', s2) \<Rightarrow> (True, h1\<lparr>d_lease := Some l', d_suspended := True\<rparr>, s2)))))"

definition mark_cancelled :: "durability \<Rightarrow> durability" where
  "mark_cancelled h = h\<lparr>d_cancelled := True\<rparr>"

definition settle_status :: "bool \<Rightarrow> bool \<Rightarrow> durability \<Rightarrow> turn_status" where
  "settle_status cancelled is_error h =
     (if cancelled \<or> d_cancelled h then TERMINAL_CANCELLED
      else if is_error then TERMINAL_FAILED else TERMINAL_COMPLETED)"

definition settle_terminal ::
  "bool \<Rightarrow> py_time \<Rightarrow> bool \<Rightarrow> bool \<Rightarrow> durability \<Rightarrow> turn_store \<Rightarrow> bool \<times> durability \<times> turn_store" where
  "settle_terminal fault t_fence cancelled is_error h s =
     (let h1 = stop_heartbeats h in
      if \<not> enabled h1 then
        (True, (if d_suspended h1 then h1 else h1\<lparr>d_settled := True\<rparr>), s)
      else case d_lease h1 of
          None \<Rightarrow> (False, h1\<lparr>d_settled := True\<rparr>, s)
        | Some l \<Rightarrow>
            (case finish_sync fault t_fence l (settle_status cancelled is_error h1) s of
               (Inl _, s') \<Rightarrow> (False, h1\<lparr>d_settled := True\<rparr>, s')
             | (Inr l', s') \<Rightarrow> (True, h1\<lparr>d_lease := Some l', d_settled := True\<rparr>, s')))"

end
