(* ===== verification/Policy_File.thy ===== *)
theory Policy_File
  imports Json_Text
begin

text \<open>
  The JSON files the policy managers keep: \<^verbatim>\<open>src/json_store.py\<close> (the strict load of the mutation
  paths and the degrading load of the read paths) and \<^verbatim>\<open>src/permissions/persistence.py\<close> (the
  private atomic publication). A file is what a reader finds at its path; the bytes of a
  well-formed file are represented by the value \<^verbatim>\<open>json.loads\<close> reads from them, which for a file
  written by \<^verbatim>\<open>json.dumps\<close> is the value written. The timestamped copies of corrupt bytes are a
  best-effort side file and are left out; the live file is never touched by them.
\<close>

datatype policy_file = Absent | Unreadable | Undecodable | Holds json

datatype policy_error = Store_corrupt | Bad_tier | Publication_failed

text \<open>Outcomes of a publication: complete, complete without the directory sync, or none.\<close>

datatype publication = Published | Sync_degraded | Not_published

definition load_json_store :: "(dict \<Rightarrow> bool) \<Rightarrow> policy_file \<Rightarrow> policy_error + dict" where
  "load_json_store validate f =
     (case f of
        Absent \<Rightarrow> Inr []
      | Holds (JObj d) \<Rightarrow> if validate d then Inr d else Inl Store_corrupt
      | _ \<Rightarrow> Inl Store_corrupt)"

definition load_json_store_safe :: "(dict \<Rightarrow> bool) \<Rightarrow> policy_file \<Rightarrow> dict \<times> bool" where
  "load_json_store_safe validate f =
     (case load_json_store validate f of Inr d \<Rightarrow> (d, True) | Inl _ \<Rightarrow> ([], False))"

text \<open>\<open>None\<close> when it raises, otherwise whether durability is proven.\<close>

definition write_private_atomic :: "publication \<Rightarrow> json \<Rightarrow> policy_file \<Rightarrow> bool option \<times> policy_file" where
  "write_private_atomic p v f =
     (case p of
        Not_published \<Rightarrow> (None, f)
      | Sync_degraded \<Rightarrow> (Some False, Holds v)
      | Published \<Rightarrow> (Some True, Holds v))"

definition intact :: "(dict \<Rightarrow> bool) \<Rightarrow> policy_file \<Rightarrow> bool" where
  "intact validate f \<longleftrightarrow> (\<exists>d. load_json_store validate f = Inr d)"

lemma load_safe_simps:
  "load_json_store validate f = Inr d \<Longrightarrow> load_json_store_safe validate f = (d, True)"
  "load_json_store validate f = Inl e \<Longrightarrow> load_json_store_safe validate f = ([], False)"
  by (simp_all add: load_json_store_safe_def)

lemma load_holds [simp]: "load_json_store validate (Holds (JObj d)) = (if validate d then Inr d else Inl Store_corrupt)"
  by (simp add: load_json_store_def)

lemma load_error: "load_json_store validate f = Inl e \<Longrightarrow> e = Store_corrupt"
  by (auto simp: load_json_store_def split: policy_file.splits json.splits if_splits)

lemma load_validates: "load_json_store validate f = Inr d \<Longrightarrow> validate [] \<Longrightarrow> validate d"
  by (auto simp: load_json_store_def split: policy_file.splits json.splits if_splits)

end
