(* ===== verification/Permissions.thy ===== *)
theory Permissions
  imports Policy_File
begin

text \<open>
  \<^verbatim>\<open>src/permissions/manager.py\<close>: the per-user permission tiers. A tier comes from the request
  scope, the persisted runtime overrides, the configuration or the default, in that order; a
  damaged override file degrades everybody to guest. The managers' locks make each mutation
  one step; the file is an argument, because other processes and operators write it too.
\<close>

definition VALID_TIERS :: "string list" where "VALID_TIERS = [''admin'', ''user'', ''guest'']"

definition USER_TIER_TOOLS :: "string list" where
  "USER_TIER_TOOLS =
     [''get_tool_output'', ''search_history'', ''search_knowledge'', ''web_search'', ''fetch_url'', ''list_schedules'',
      ''list_tasks'', ''list_skills'', ''list_knowledge'', ''manage_list'', ''parse_time'']"

record permission_manager =
  config_tiers :: "(string \<times> string) list"
  default_tier :: string
  overrides :: dict
  invalid_overrides :: dict
  tiers_corrupt :: bool
  tiers_degraded :: bool

definition validate_overrides :: "dict \<Rightarrow> bool" where
  "validate_overrides data \<longleftrightarrow> list_all (\<lambda>p. is_str (snd p)) data"

definition tier_known :: "json \<Rightarrow> bool" where
  "tier_known v \<longleftrightarrow> is_str v \<and> text_in v \<in> set VALID_TIERS"

definition valid_overrides :: "dict \<Rightarrow> dict" where
  "valid_overrides data = filter (\<lambda>p. tier_known (snd p)) data"

definition unknown_overrides :: "dict \<Rightarrow> dict" where
  "unknown_overrides data = filter (\<lambda>p. \<not> tier_known (snd p)) data"

definition load_overrides :: "policy_file \<Rightarrow> permission_manager \<Rightarrow> permission_manager" where
  "load_overrides f m =
     (let (data, ok) = load_json_store_safe validate_overrides f in
      m\<lparr>overrides := valid_overrides data, invalid_overrides := unknown_overrides data, tiers_corrupt := \<not> ok\<rparr>)"

definition new_permissions :: "(string \<times> string) list \<Rightarrow> string \<Rightarrow> policy_file \<Rightarrow> permission_manager" where
  "new_permissions tiers fallback f =
     load_overrides f
       \<lparr>config_tiers = tiers, default_tier = (if fallback \<in> set VALID_TIERS then fallback else ''user''),
        overrides = [], invalid_overrides = [], tiers_corrupt = False, tiers_degraded = False\<rparr>"

definition load_overrides_for_write :: "policy_file \<Rightarrow> policy_error + dict" where
  "load_overrides_for_write f = load_json_store validate_overrides f"

definition publish_overrides ::
  "publication \<Rightarrow> dict \<Rightarrow> policy_file \<Rightarrow> permission_manager \<Rightarrow> policy_error option \<times> policy_file \<times> permission_manager" where
  "publish_overrides p candidate f m =
     (case write_private_atomic p (JObj candidate) f of
        (None, f') \<Rightarrow> (Some Publication_failed, f', m)
      | (Some durable, f') \<Rightarrow>
          (None, f', m\<lparr>tiers_degraded := \<not> durable, overrides := valid_overrides candidate,
                      invalid_overrides := unknown_overrides candidate, tiers_corrupt := False\<rparr>))"

text \<open>The request-scoped tier is the value of a context variable.\<close>

definition set_request_tier :: "string \<Rightarrow> string option" where
  "set_request_tier tier = (if tier \<in> set VALID_TIERS then Some tier else None)"

definition get_tier :: "string option \<Rightarrow> string \<Rightarrow> permission_manager \<Rightarrow> string" where
  "get_tier request user m =
     (case request of
        Some tier \<Rightarrow> tier
      | None \<Rightarrow>
          if tiers_corrupt m then ''guest''
          else case jget user (overrides m) of
              Some v \<Rightarrow> text_in v
            | None \<Rightarrow> (case jget user (config_tiers m) of Some tier \<Rightarrow> tier | None \<Rightarrow> default_tier m))"

definition set_tier ::
  "publication \<Rightarrow> string \<Rightarrow> string \<Rightarrow> policy_file \<Rightarrow> permission_manager \<Rightarrow> policy_error option \<times> policy_file \<times> permission_manager" where
  "set_tier p user tier f m =
     (if tier \<notin> set VALID_TIERS then (Some Bad_tier, f, m)
      else case load_overrides_for_write f of
          Inl e \<Rightarrow> (Some e, f, m)
        | Inr current \<Rightarrow> publish_overrides p (jset user (JStr tier) current) f m)"

text \<open>The boolean is the return value, \<open>False\<close> when there was no override.\<close>

definition delete_tier ::
  "publication \<Rightarrow> string \<Rightarrow> policy_file \<Rightarrow> permission_manager \<Rightarrow> (policy_error + bool) \<times> policy_file \<times> permission_manager" where
  "delete_tier p user f m =
     (case load_overrides_for_write f of
        Inl e \<Rightarrow> (Inl e, f, m)
      | Inr current \<Rightarrow>
          if jhas user current then
            (case publish_overrides p (jdel user current) f m of
               (Some e, f', m') \<Rightarrow> (Inl e, f', m')
             | (None, f', m') \<Rightarrow> (Inr True, f', m'))
          else (Inr False, f, m\<lparr>overrides := valid_overrides current, invalid_overrides := unknown_overrides current,
                               tiers_corrupt := False\<rparr>))"

text \<open>\<open>name_of\<close> reads \<^verbatim>\<open>t["name"]\<close>; \<open>None\<close> is Python's \<^verbatim>\<open>None\<close>, no tools at all.\<close>

definition filter_tools :: "('tool \<Rightarrow> string) \<Rightarrow> string option \<Rightarrow> string \<Rightarrow> 'tool list \<Rightarrow> permission_manager \<Rightarrow> 'tool list option" where
  "filter_tools name_of request user tools m =
     (let tier = get_tier request user m in
      if tier = ''admin'' then Some tools
      else if tier = ''guest'' then None
      else Some (filter (\<lambda>t. name_of t \<in> set USER_TIER_TOOLS) tools))"

text \<open>\<open>None\<close> is no restriction.\<close>

definition allowed_tool_names :: "string option \<Rightarrow> string \<Rightarrow> permission_manager \<Rightarrow> string list option" where
  "allowed_tool_names request user m =
     (let tier = get_tier request user m in
      if tier = ''admin'' then None else if tier = ''guest'' then Some [] else Some USER_TIER_TOOLS)"

definition is_admin :: "string option \<Rightarrow> string \<Rightarrow> permission_manager \<Rightarrow> bool" where
  "is_admin request user m \<longleftrightarrow> get_tier request user m = ''admin''"

definition is_guest :: "string option \<Rightarrow> string \<Rightarrow> permission_manager \<Rightarrow> bool" where
  "is_guest request user m \<longleftrightarrow> get_tier request user m = ''guest''"

section \<open>What the tiers promise\<close>

lemma jget_filter_snd: "distinct (jkeys kvs) \<Longrightarrow>
    jget k (filter (\<lambda>p. P (snd p)) kvs) = (case jget k kvs of Some v \<Rightarrow> if P v then Some v else None | None \<Rightarrow> None)"
proof (induction kvs)
  case (Cons p kvs)
  have "jget k (filter (\<lambda>p. P (snd p)) kvs) = None" if "k \<notin> set (jkeys kvs)"
    using that by (auto simp: jget_def map_of_eq_None_iff jkeys_def)
  moreover have "jget k kvs = None \<longleftrightarrow> k \<notin> set (jkeys kvs)" by (metis jhas_iff jhas_jkeys)
  ultimately show ?case using Cons by (cases p) (auto simp: jget_Cons jkeys_def split: option.split)
qed simp

lemma validate_jset: "validate_overrides d \<Longrightarrow> validate_overrides (jset k (JStr t) d)"
  by (auto simp: validate_overrides_def jset_def list_all_iff is_str_def)

lemma distinct_jset: "distinct (jkeys d) \<Longrightarrow> distinct (jkeys (jset k v d))"
  by (auto simp: jkeys_jset jhas_jkeys)

lemma get_tier_loaded:
  assumes "load_json_store validate_overrides f = Inr d" "distinct (jkeys d)"
  shows "get_tier None v (load_overrides f m) =
    (case jget v d of
       Some t \<Rightarrow> if tier_known t then text_in t
               else (case jget v (config_tiers m) of Some tier \<Rightarrow> tier | None \<Rightarrow> default_tier m)
     | None \<Rightarrow> (case jget v (config_tiers m) of Some tier \<Rightarrow> tier | None \<Rightarrow> default_tier m))"
  using assms
  by (auto simp: load_overrides_def load_safe_simps get_tier_def valid_overrides_def
      jget_filter_snd [of d v tier_known] split: option.split)

text \<open>
  A tier that \<^verbatim>\<open>set_tier\<close> granted or revoked is effective at once and after a restart.
  When it returns, the user has that tier, every other user has exactly the tier a fresh load
  of the previous file gives (an unknown tier kept on disk included), and a manager newly
  constructed on the written file decides the same for everybody. When it raises, file and
  policy are unchanged.
\<close>

theorem set_tier_durable:
  assumes "set_tier p user tier f m = (outcome, f', m')" "load_json_store validate_overrides f = Inr d"
    and "distinct (jkeys d)"
  shows "case outcome of
      Some e \<Rightarrow> f' = f \<and> m' = m
    | None \<Rightarrow> get_tier None v m' = (if v = user then tier else get_tier None v (load_overrides f m))
        \<and> get_tier None v (load_overrides f' m) = get_tier None v m'
        \<and> (\<exists>d'. f' = Holds (JObj d') \<and> jget v d' = (if v = user then Some (JStr tier) else jget v d))"
proof (cases outcome)
  case (Some e)
  then show ?thesis using assms(1,2)
    by (auto simp: set_tier_def load_overrides_for_write_def publish_overrides_def write_private_atomic_def
        split: if_splits publication.splits)
next
  case None
  let ?d = "jset user (JStr tier) d"
  have t: "tier \<in> set VALID_TIERS" and f': "f' = Holds (JObj ?d)"
    and m': "\<exists>b. m' = m\<lparr>tiers_degraded := b, overrides := valid_overrides ?d,
      invalid_overrides := unknown_overrides ?d, tiers_corrupt := False\<rparr>"
    using assms(1,2) None
    by (auto simp: set_tier_def load_overrides_for_write_def publish_overrides_def write_private_atomic_def
        split: if_splits publication.splits)
  have ok: "load_json_store validate_overrides f' = Inr ?d"
    using load_validates [OF assms(2)] validate_jset [of d] by (simp add: f' validate_overrides_def)
  have dist: "distinct (jkeys ?d)" by (rule distinct_jset [OF assms(3)])
  have same: "get_tier None v m' = get_tier None v (load_overrides f' m)"
    using m' ok by (auto simp: load_overrides_def load_safe_simps get_tier_def split: option.split)
  have "get_tier None v (load_overrides f' m) = (if v = user then tier else get_tier None v (load_overrides f m))"
    using t unfolding get_tier_loaded [OF ok dist] get_tier_loaded [OF assms(2,3)]
    by (simp add: jget_jset tier_known_def is_str_def)
  then show ?thesis using None same f' by (auto simp: jget_jset)
qed

definition ex_tiers :: dict where
  "ex_tiers = [(''7'', JStr ''admin''), (''8'', JStr ''owner'')]"

theorem set_tier_durable_witness:
  "get_tier None ''7'' (load_overrides (Holds (JObj [(''7'', JStr ''guest''), (''8'', JStr ''owner'')]))
     (new_permissions [] ''admin'' Absent)) = ''guest''"
proof -
  let ?m = "new_permissions [] ''admin'' Absent"
  have s: "set_tier Published ''7'' ''guest'' (Holds (JObj ex_tiers)) ?m
    = (None, Holds (JObj [(''7'', JStr ''guest''), (''8'', JStr ''owner'')]),
       snd (snd (set_tier Published ''7'' ''guest'' (Holds (JObj ex_tiers)) ?m)))"
    "load_json_store validate_overrides (Holds (JObj ex_tiers)) = Inr ex_tiers" "distinct (jkeys ex_tiers)"
    by code_simp+
  show ?thesis using set_tier_durable [OF s, of "''7''"] by simp
qed

text \<open>
  A damaged override file fails closed. A manager that loads a file it cannot read, decode
  or validate gives every user the guest tier outside a request-scoped tier, so no tool at all,
  whatever the configured defaults; and neither \<^verbatim>\<open>set_tier\<close> nor the deletion overwrites the
  file: they raise and leave file and policy as they are.
\<close>

theorem corrupt_tiers_fail_closed:
  assumes "load_json_store validate_overrides f = Inl e"
  shows "get_tier None user (load_overrides f m) = ''guest''
    \<and> filter_tools name_of None user tools (load_overrides f m) = None
    \<and> allowed_tool_names None user (load_overrides f m) = Some []
    \<and> snd (set_tier p user tier f m) = (f, m) \<and> fst (set_tier p user tier f m) \<noteq> None
    \<and> delete_tier p user f m = (Inl Store_corrupt, f, m)"
  using assms load_error [OF assms]
  by (simp add: load_overrides_def load_safe_simps get_tier_def filter_tools_def allowed_tool_names_def
      set_tier_def delete_tier_def load_overrides_for_write_def)

theorem corrupt_tiers_fail_closed_witness:
  "get_tier None ''7'' (load_overrides (Holds (JObj [(''7'', JInt 1)])) (new_permissions [(''7'', ''admin'')] ''admin'' Absent))
   = ''guest''"
proof -
  have "load_json_store validate_overrides (Holds (JObj [(''7'', JInt 1)])) = Inl Store_corrupt" by code_simp
  from corrupt_tiers_fail_closed [OF this] show ?thesis by (rule conjunct1)
qed

text \<open>The filtered list and the allowed names are one policy; only an administrator escapes the list.\<close>

lemma filter_tools_exact:
  "filter_tools name_of request user tools m =
     (case allowed_tool_names request user m of
        None \<Rightarrow> Some tools
      | Some names \<Rightarrow> if names = [] then None else Some (filter (\<lambda>t. name_of t \<in> set names) tools))"
  by (simp add: filter_tools_def allowed_tool_names_def USER_TIER_TOOLS_def Let_def)

lemma unlisted_tool_needs_admin:
  assumes "filter_tools name_of request user tools m = Some ts" "t \<in> set ts" "name_of t \<notin> set USER_TIER_TOOLS"
  shows "is_admin request user m"
  using assms by (auto simp: filter_tools_def is_admin_def Let_def split: if_splits)

end
