(* ===== verification/Breakers.thy ===== *)
theory Breakers
  imports Odin_Prelude
begin

text \<open>
  The failure-handling state machines of the LLM clients: \<^verbatim>\<open>src/llm/circuit_breaker.py\<close> (the
  per-client transport breaker), \<^verbatim>\<open>src/llm/model_breaker.py\<close> (the model-scoped capacity breaker
  and its registry) and \<^verbatim>\<open>src/llm/backoff.py\<close>. Every method holds the breaker's lock from its
  first to its last access of the state, so a method is one step and a concurrent run is a list
  of steps. Callers (the asyncio task or thread of \<^verbatim>\<open>_caller()\<close>) and \<^verbatim>\<open>AdmissionToken\<close> objects are
  compared by identity only; they are numbers here.
\<close>

section \<open>Backoff\<close>

definition DEFAULT_BASE_DELAY :: py_time where "DEFAULT_BASE_DELAY = 1"
definition DEFAULT_MAX_DELAY :: py_time where "DEFAULT_MAX_DELAY = 30"
definition DEFAULT_MAX_RETRIES :: nat where "DEFAULT_MAX_RETRIES = 3"

definition compute_backoff_no_jitter :: "nat \<Rightarrow> py_time \<Rightarrow> py_time \<Rightarrow> py_time" where
  "compute_backoff_no_jitter attempt base_delay max_delay = min max_delay (base_delay * 2 ^ attempt)"

text \<open>\<open>u\<close> is the draw of \<^verbatim>\<open>random.random()\<close> that \<^verbatim>\<open>random.uniform(0, ceiling)\<close> scales.\<close>

definition compute_backoff :: "rat \<Rightarrow> nat \<Rightarrow> py_time \<Rightarrow> py_time \<Rightarrow> py_time" where
  "compute_backoff u attempt base_delay max_delay =
     (let ceiling = min max_delay (base_delay * 2 ^ attempt) in 0 + (ceiling - 0) * u)"

section \<open>The circuit breaker of a client\<close>

type_synonym caller = nat

datatype circuit_state = Closed | Open | Half_open

record circuit =
  failure_threshold :: int
  recovery_timeout :: py_time
  failure_count :: int
  last_failure_time :: py_time
  circuit_state :: circuit_state
  probe_owner :: "caller option"

definition new_circuit :: "int \<Rightarrow> py_time \<Rightarrow> circuit" where
  "new_circuit threshold timeout =
     \<lparr>failure_threshold = threshold, recovery_timeout = timeout, failure_count = 0,
      last_failure_time = 0, circuit_state = Closed, probe_owner = None\<rparr>"

text \<open>The \<^verbatim>\<open>state\<close> property.\<close>

definition shown_state :: "py_time \<Rightarrow> circuit \<Rightarrow> circuit_state" where
  "shown_state now b =
     (if circuit_state b = Open \<and> recovery_timeout b \<le> now - last_failure_time b then Half_open
      else circuit_state b)"

text \<open>\<open>Some r\<close> is \<^verbatim>\<open>raise CircuitOpenError\<close> with \<^verbatim>\<open>retry_after = r\<close>, \<open>None\<close> a normal return.\<close>

definition circuit_check :: "caller \<Rightarrow> py_time \<Rightarrow> circuit \<Rightarrow> py_time option \<times> circuit" where
  "circuit_check c now b =
     (if probe_owner b \<noteq> None then (Some (recovery_timeout b), b)
      else case circuit_state b of
          Open \<Rightarrow>
            (let elapsed = now - last_failure_time b in
             if elapsed < recovery_timeout b then (Some (max 0 (recovery_timeout b - elapsed)), b)
             else (None, b\<lparr>circuit_state := Half_open, probe_owner := Some c\<rparr>))
        | Half_open \<Rightarrow> (Some (recovery_timeout b), b)
        | Closed \<Rightarrow> (None, b))"

definition circuit_abandon :: "caller \<Rightarrow> circuit \<Rightarrow> circuit" where
  "circuit_abandon c b =
     (if probe_owner b = Some c
      then b\<lparr>probe_owner := None, circuit_state := (if circuit_state b = Half_open then Open else circuit_state b)\<rparr>
      else b)"

definition record_success :: "caller \<Rightarrow> circuit \<Rightarrow> circuit" where
  "record_success c b =
     (if probe_owner b \<noteq> None \<and> probe_owner b \<noteq> Some c then b
      else b\<lparr>failure_count := 0, circuit_state := Closed, probe_owner := None\<rparr>)"

definition record_failure :: "caller \<Rightarrow> py_time \<Rightarrow> circuit \<Rightarrow> circuit" where
  "record_failure c now b =
     (if probe_owner b \<noteq> None \<and> probe_owner b \<noteq> Some c then b
      else
        (let count = failure_count b + 1 in
         b\<lparr>failure_count := count, last_failure_time := now,
           circuit_state := (if failure_threshold b \<le> count then Open else circuit_state b)\<rparr>))"

text \<open>
  The decorator \<^verbatim>\<open>breaker_call\<close>: the wrapped method is whatever it, and everybody else, does to
  the breaker until it ends, by a return, an error or a cancellation.
\<close>

definition breaker_call :: "caller \<Rightarrow> py_time \<Rightarrow> (circuit \<Rightarrow> circuit) \<Rightarrow> circuit \<Rightarrow> py_time option \<times> circuit" where
  "breaker_call c now body b =
     (case circuit_check c now b of
        (Some retry_after, b') \<Rightarrow> (Some retry_after, b')
      | (None, b') \<Rightarrow> (None, circuit_abandon c (body b')))"

datatype circuit_event = Check caller py_time | Abandon caller | Success caller | Failure caller py_time

fun circuit_after :: "circuit_event \<Rightarrow> circuit \<Rightarrow> circuit" where
  "circuit_after (Check c now) b = snd (circuit_check c now b)"
| "circuit_after (Abandon c) b = circuit_abandon c b"
| "circuit_after (Success c) b = record_success c b"
| "circuit_after (Failure c now) b = record_failure c now b"

section \<open>The capacity breaker of a model\<close>

type_synonym token = nat

definition DEFAULT_GENERATION_THRESHOLD :: int where "DEFAULT_GENERATION_THRESHOLD = 1"
definition DEFAULT_COOLDOWN_BASE :: py_time where "DEFAULT_COOLDOWN_BASE = 30"
definition DEFAULT_COOLDOWN_CAP :: py_time where "DEFAULT_COOLDOWN_CAP = 300"
definition PROBE_PENDING_WAIT :: py_time where "PROBE_PENDING_WAIT = 5"

record capacity_breaker =
  breaker_name :: string
  generation_threshold :: int
  cooldown_base :: py_time
  cooldown_cap :: py_time
  opened :: bool
  probe_token :: "token option"
  failed_generations :: nat
  consecutive_opens :: nat
  opened_at :: py_time
  next_token :: token

definition new_breaker :: "string \<Rightarrow> int \<Rightarrow> py_time \<Rightarrow> py_time \<Rightarrow> capacity_breaker" where
  "new_breaker nm threshold base cap =
     \<lparr>breaker_name = nm, generation_threshold = max 1 threshold, cooldown_base = max 1 base,
      cooldown_cap = max (max 1 base) cap, opened = False, probe_token = None,
      failed_generations = 0, consecutive_opens = 0, opened_at = 0, next_token = 0\<rparr>"

text \<open>
  The guard of the code compares \<^verbatim>\<open>exponent\<close> with \<^verbatim>\<open>log2(cap) - log2(base)\<close>, to keep \<^verbatim>\<open>2.0**exponent\<close>
  from overflowing; over exact numbers it is the comparison below (lemma \<open>cooldown_guard\<close>).
\<close>

definition current_cooldown :: "capacity_breaker \<Rightarrow> py_time" where
  "current_cooldown b =
     (let exponent = consecutive_opens b - 1 in
      if cooldown_cap b \<le> cooldown_base b * 2 ^ exponent then cooldown_cap b
      else min (cooldown_cap b) (cooldown_base b * 2 ^ exponent))"

datatype breaker_phase = State_closed | State_probing | State_open

definition breaker_state :: "capacity_breaker \<Rightarrow> breaker_phase" where
  "breaker_state b =
     (if \<not> opened b then State_closed else if probe_token b \<noteq> None then State_probing else State_open)"

record breaker_view =
  s_name :: string
  s_state :: breaker_phase
  s_failed_generations :: nat
  s_consecutive_opens :: nat
  s_cooldown_seconds :: py_time
  s_cooldown_remaining_seconds :: py_time
  s_probe_eligible :: bool

definition breaker_snapshot :: "py_time \<Rightarrow> capacity_breaker \<Rightarrow> breaker_view" where
  "breaker_snapshot now b =
     (let cooldown = (if opened b then current_cooldown b else 0);
          elapsed = (if opened b then now - opened_at b else 0);
          remaining = (if opened b then max 0 (cooldown - elapsed) else 0)
      in \<lparr>s_name = breaker_name b, s_state = breaker_state b,
          s_failed_generations = failed_generations b, s_consecutive_opens = consecutive_opens b,
          s_cooldown_seconds = cooldown, s_cooldown_remaining_seconds = remaining,
          s_probe_eligible = (opened b \<and> remaining \<le> 0 \<and> probe_token b = None)\<rparr>)"

datatype attempt_outcome = Admitted token | Wait py_time

definition acquire_attempt :: "py_time \<Rightarrow> capacity_breaker \<Rightarrow> attempt_outcome \<times> capacity_breaker" where
  "acquire_attempt now b =
     (let t = next_token b; b' = b\<lparr>next_token := t + 1\<rparr> in
      if \<not> opened b then (Admitted t, b')
      else
        (let elapsed = now - opened_at b; cooldown = current_cooldown b in
         if elapsed < cooldown then (Wait (max (1 / 10) (cooldown - elapsed)), b)
         else if probe_token b \<noteq> None then (Wait PROBE_PENDING_WAIT, b)
         else (Admitted t, b'\<lparr>probe_token := Some t\<rparr>)))"

definition attempt_succeeded :: "token \<Rightarrow> capacity_breaker \<Rightarrow> capacity_breaker" where
  "attempt_succeeded t b =
     b\<lparr>opened := False, probe_token := (if probe_token b = Some t then None else probe_token b),
       failed_generations := 0, consecutive_opens := 0\<rparr>"

definition attempt_failed_capacity :: "token \<Rightarrow> py_time \<Rightarrow> capacity_breaker \<Rightarrow> capacity_breaker" where
  "attempt_failed_capacity t now b =
     (if opened b \<and> probe_token b = Some t
      then b\<lparr>probe_token := None, consecutive_opens := consecutive_opens b + 1, opened_at := now\<rparr>
      else b)"

definition abandon_attempt :: "token \<Rightarrow> capacity_breaker \<Rightarrow> capacity_breaker" where
  "abandon_attempt t b = (if probe_token b = Some t then b\<lparr>probe_token := None\<rparr> else b)"

definition record_generation_failure :: "py_time \<Rightarrow> capacity_breaker \<Rightarrow> capacity_breaker" where
  "record_generation_failure now b =
     (let failed = failed_generations b + 1; b' = b\<lparr>failed_generations := failed\<rparr> in
      if \<not> opened b \<and> generation_threshold b \<le> int failed
      then b'\<lparr>opened := True, probe_token := None, consecutive_opens := consecutive_opens b + 1, opened_at := now\<rparr>
      else b')"

datatype breaker_event = Acquire py_time | Succeeded token | Failed token py_time | Abandoned token
  | Generation_failed py_time

fun breaker_after :: "breaker_event \<Rightarrow> capacity_breaker \<Rightarrow> capacity_breaker" where
  "breaker_after (Acquire now) b = snd (acquire_attempt now b)"
| "breaker_after (Succeeded t) b = attempt_succeeded t b"
| "breaker_after (Failed t now) b = attempt_failed_capacity t now b"
| "breaker_after (Abandoned t) b = abandon_attempt t b"
| "breaker_after (Generation_failed now) b = record_generation_failure now b"

section \<open>The registry\<close>

text \<open>\<^verbatim>\<open>for_model\<close> returns a reference: the key under which the registry holds the breaker.\<close>

record breaker_registry =
  r_threshold :: int
  r_base :: py_time
  r_cap :: py_time
  r_breakers :: "string \<Rightarrow> capacity_breaker option"

definition new_registry :: "int \<Rightarrow> py_time \<Rightarrow> py_time \<Rightarrow> breaker_registry" where
  "new_registry threshold base cap =
     \<lparr>r_threshold = threshold, r_base = base, r_cap = cap, r_breakers = Map.empty\<rparr>"

definition breaker_key :: "string \<Rightarrow> string \<Rightarrow> string" where
  "breaker_key provider model =
     (if provider = [] then ''unknown'' else provider) @ '':'' @ (if model = [] then ''unknown'' else model)"

definition for_model :: "string \<Rightarrow> string \<Rightarrow> breaker_registry \<Rightarrow> string \<times> breaker_registry" where
  "for_model provider model r =
     (let key = breaker_key provider model in
      case r_breakers r key of
        Some _ \<Rightarrow> (key, r)
      | None \<Rightarrow> (key, r\<lparr>r_breakers := (r_breakers r)(key \<mapsto> new_breaker key (r_threshold r) (r_base r) (r_cap r))\<rparr>))"

definition registry_snapshot :: "py_time \<Rightarrow> breaker_registry \<Rightarrow> string \<Rightarrow> breaker_view option" where
  "registry_snapshot now r = (\<lambda>key. map_option (breaker_snapshot now) (r_breakers r key))"

end
