(* ===== verification/Turn_Resume.thy ===== *)
theory Turn_Resume
  imports Turn_Durability Turn_Validate Permissions Breakers "HOL-Library.Sublist"
begin

text \<open>
  \<^verbatim>\<open>src/discord/turn_resume.py\<close>: how a suspended turn comes back. Recognition of the resume
  command, the halt on unresolved operations, admission against the original message and the
  current policy, repair of the transcript from the ledger, and the acquisition of the lease.
  Discord, the prompt builder and the tool catalogue are arguments: what a fetch returned, the
  prompt rebuilt for a checkpoint without learned-context provenance (\<open>None\<close> if building it
  raised) and the catalogue's definitions. The long dashes of the model-facing texts are
  written as hyphens. Log lines, presence updates and the release of
  calibration state are left out.
\<close>

section \<open>Recognising the command\<close>

definition RESUME_TRIGGERS :: "string list" where "RESUME_TRIGGERS = [''resume'', ''continue'']"

definition lstrip :: "string \<Rightarrow> string" where
  "lstrip s = dropWhile is_space s"

definition resume_candidate :: "string \<Rightarrow> string option \<Rightarrow> string" where
  "resume_candidate raw bot_id =
     (case bot_id of
        None \<Rightarrow> raw
      | Some i \<Rightarrow>
          (let stripped = lstrip raw; m1 = ''<@'' @ i @ ''>''; m2 = ''<@!'' @ i @ ''>'' in
           if prefix m1 stripped then drop (length m1) stripped
           else if prefix m2 stripped then drop (length m2) stripped
           else raw))"

definition is_resume_trigger :: "string \<Rightarrow> bool" where
  "is_resume_trigger content \<longleftrightarrow>
     rev (dropWhile (\<lambda>c. c = CHR ''!'' \<or> c = CHR ''.'') (rev (map lower_char (strip content)))) \<in> set RESUME_TRIGGERS"

section \<open>Unresolved operations\<close>

type_synonym op_info = "int \<times> string \<times> op_state \<times> string \<times> tool_effect_class \<times> string option"

definition unresolved_op :: "op_info \<Rightarrow> bool" where
  "unresolved_op = (\<lambda>(seq, cid, st, nm, eff, res).
     st \<in> {OUTCOME_UNKNOWN, MANUAL_RESOLUTION_REQUIRED, PREPARED, RUNNING} \<and> eff \<noteq> EFFECT_FREE_OBSERVATION)"

definition unresolved_ops :: "resumable \<Rightarrow> op_info list" where
  "unresolved_ops row = filter unresolved_op (rs_operations row)"

section \<open>Repair of the transcript\<close>

text \<open>Exceptions of the repair: a message or an id of the wrong type, or one of its own checks.\<close>

datatype repair_error = Wrong_type | Use_not_final | Duplicate_operation

type_synonym open_use = "nat \<times> json"

fun pop_use :: "json \<Rightarrow> open_use list \<Rightarrow> open_use list" where
  "pop_use cid [] = []"
| "pop_use cid ((i, c) # uses) = (if c = cid then uses else (i, c) # pop_use cid uses)"

definition scan_block :: "nat \<Rightarrow> json \<Rightarrow> open_use list \<Rightarrow> open_use list" where
  "scan_block index block uses =
     (case block of
        JObj kvs \<Rightarrow>
          if fget ''type'' kvs = JStr ''tool_use'' \<and> truthy (fget ''id'' kvs) then uses @ [(index, fget ''id'' kvs)]
          else if fget ''type'' kvs = JStr ''tool_result'' \<and> truthy (fget ''tool_use_id'' kvs)
          then pop_use (fget ''tool_use_id'' kvs) uses
          else uses
      | _ \<Rightarrow> uses)"

definition message_blocks :: "json \<Rightarrow> json list" where
  "message_blocks msg = items (fget ''content'' (entries msg))"

fun open_uses :: "nat \<Rightarrow> json list \<Rightarrow> open_use list \<Rightarrow> open_use list" where
  "open_uses index [] uses = uses"
| "open_uses index (msg # msgs) uses = open_uses (index + 1) msgs (fold (scan_block index) (message_blocks msg) uses)"

definition op_ident :: "op_info \<Rightarrow> int \<times> string" where
  "op_ident op = (fst op, fst (snd op))"

definition repaired_content :: "op_info option \<Rightarrow> string" where
  "repaired_content op =
     (case op of
        None \<Rightarrow> ''[Interrupted before execution - this call never ran; re-issue it if still needed.]''
      | Some (seq, cid, st, nm, eff, res) \<Rightarrow>
          if st \<in> {APPLIED, RECONCILED_APPLIED} then
            (case res of Some r \<Rightarrow> if r \<noteq> [] then r else ''[completed; result recorded]''
             | None \<Rightarrow> ''[completed; result recorded]'')
          else if eff = EFFECT_FREE_OBSERVATION then
            ''[Interrupted observation - no external effect was left unresolved; repeat the observation if it is still needed.]''
          else ''[Interrupted: outcome unknown - verify current state before re-running this operation.]'')"

definition find_op :: "op_info list \<Rightarrow> int \<Rightarrow> json \<Rightarrow> op_info option" where
  "find_op ops seq cid = (case cid of JStr c \<Rightarrow> find (\<lambda>op. op_ident op = (seq, c)) ops | _ \<Rightarrow> None)"

definition repaired_block :: "op_info list \<Rightarrow> int \<Rightarrow> json \<Rightarrow> json" where
  "repaired_block ops seq cid =
     JObj [(''type'', JStr ''tool_result''), (''tool_use_id'', cid),
           (''content'', JStr (repaired_content (find_op ops seq cid)))]"

definition repair_unmatched_tool_use :: "json list \<Rightarrow> op_info list \<Rightarrow> int \<Rightarrow> repair_error + json list" where
  "repair_unmatched_tool_use messages ops seq =
     (if \<not> list_all is_dict messages then Inl Wrong_type
      else
        (let uses = open_uses 0 messages [] in
         if uses = [] then Inr messages
         else if list_ex (\<lambda>u. fst u + 1 \<noteq> length messages) uses then Inl Use_not_final
         else if \<not> distinct (map op_ident ops) then Inl Duplicate_operation
         else if list_ex (\<lambda>u. unhashable (snd u)) uses then Inl Wrong_type
         else Inr (messages @ [JObj [(''role'', JStr ''user''),
                (''content'', JList (map (\<lambda>u. repaired_block ops seq (snd u)) uses))]])))"

section \<open>Admission and rebuild\<close>

definition compute_content_digest :: "(string \<Rightarrow> string) \<Rightarrow> string \<Rightarrow> string" where
  "compute_content_digest sha t = sha t"

text \<open>What the fetch of the original message came to.\<close>

record discord_message =
  msg_author :: string
  msg_content :: string

datatype fetched = Fetched discord_message | Not_found | Fetch_denied | Fetch_http_error | Fetch_transient

datatype resume_refusal =
    Refused_fetch
  | Message_gone
  | Author_mismatch
  | Content_edited
  | Checkpoint_unreadable
  | Channel_stopping
  | Already_resumed
  | Not_reconstructed

definition hard_refusal :: "resume_refusal \<Rightarrow> bool" where
  "hard_refusal r \<longleftrightarrow> r \<in> {Message_gone, Author_mismatch, Content_edited, Checkpoint_unreadable}"

record 'tool resumed_turn =
  rt_message :: discord_message
  rt_fields :: restored_fields
  rt_prompt :: string
  rt_messages :: "json list"
  rt_tools :: "'tool list option"
  rt_durability :: durability

text \<open>The surroundings of one resume attempt.\<close>

record 'tool resume_env =
  sha256 :: "string \<Rightarrow> string"
  json_loads :: "string \<Rightarrow> json option"
  reject_fault :: bool
  original :: fetched
  learned_provenance :: "string \<Rightarrow> bool"
  full_prompt :: "string option"
  tools_enabled :: bool
  catalog :: "'tool list"
  name_of_tool :: "'tool \<Rightarrow> string"
  policy :: permission_manager
  request_tier :: "string option"
  cancel_set :: bool
  wall_clock :: py_time
  acquire_fault :: bool
  fresh_token :: string
  construct_fails :: bool
  release_fault :: bool

definition opt_text :: "string option \<Rightarrow> string" where
  "opt_text v = (case v of Some s \<Rightarrow> s | None \<Rightarrow> [])"

definition remaining_budget :: "py_time \<Rightarrow> py_time option \<Rightarrow> py_time" where
  "remaining_budget now deadline = (case deadline of Some d \<Rightarrow> if d \<noteq> 0 then max 0 (d - now) else 0 | None \<Rightarrow> 0)"

text \<open>The reconstruction that runs while the row is still suspended.\<close>

definition rebuild_parts ::
  "'tool resume_env \<Rightarrow> discord_message \<Rightarrow> resumable \<Rightarrow> turn_store
     \<Rightarrow> (restored_fields \<times> string \<times> json list \<times> 'tool list option) option" where
  "rebuild_parts env message row s =
     (case restore_field_values (\<lambda>ref. load_blob_sync (sha256 env) ref s) (rs_payload row) of
        Inl _ \<Rightarrow> None
      | Inr fs \<Rightarrow>
          (let saved = text_in (fget ''system_prompt'' (rf_fields fs)) in
           case (if learned_provenance env saved then Some saved else full_prompt env) of
             None \<Rightarrow> None
           | Some prompt \<Rightarrow>
               (let tools = (if tools_enabled env
                             then filter_tools (name_of_tool env) (request_tier env) (msg_author message) (catalog env) (policy env)
                             else None)
                in case repair_unmatched_tool_use (rf_messages fs) (rs_operations row)
                          (int_val (fget ''generation_seq'' (entries (rs_payload row)))) of
                     Inl _ \<Rightarrow> None
                   | Inr repaired \<Rightarrow> Some (fs, prompt, repaired, tools))))"

definition validate_and_rebuild ::
  "'tool resume_env \<Rightarrow> turn_key \<Rightarrow> resumable \<Rightarrow> turn_store
     \<Rightarrow> (store_error + (resume_refusal + 'tool resumed_turn)) \<times> turn_store" where
  "validate_and_rebuild env key row s =
     (let reject = reject_resumable_sync (reject_fault env) key s in
      case original env of
        Fetch_denied \<Rightarrow> (Inr (Inl Refused_fetch), s)
      | Fetch_http_error \<Rightarrow> (Inr (Inl Refused_fetch), s)
      | Fetch_transient \<Rightarrow> (Inr (Inl Refused_fetch), s)
      | Not_found \<Rightarrow> (Inr (Inl Message_gone), reject)
      | Fetched message \<Rightarrow>
          if msg_author message \<noteq> opt_text (rs_user_id row) then (Inr (Inl Author_mismatch), reject)
          else if compute_content_digest (sha256 env) (msg_content message) \<noteq> opt_text (rs_content_digest row)
          then (Inr (Inl Content_edited), reject)
          else case rebuild_parts env message row s of
              None \<Rightarrow> (Inr (Inl Checkpoint_unreadable), reject)
            | Some (fs, prompt, repaired, tools) \<Rightarrow>
                if cancel_set env then (Inr (Inl Channel_stopping), s)
                else case acquire_resume_lease_sync (acquire_fault env) (fresh_token env) (wall_clock env) key (rs_generation row) s of
                    (Inl e, s') \<Rightarrow> (Inl e, s')
                  | (Inr None, s') \<Rightarrow> (Inr (Inl Already_resumed), s')
                  | (Inr (Some l), s') \<Rightarrow>
                      if construct_fails env then
                        (Inr (Inl Not_reconstructed), snd (release_acquired_sync (release_fault env) l None s'))
                      else
                        (Inr (Inr \<lparr>rt_message = message, rt_fields = fs, rt_prompt = prompt, rt_messages = repaired,
                                   rt_tools = tools,
                                   rt_durability = resumed l (int_val (fget ''generation_seq'' (entries (rs_payload row))))
                                     (Some (remaining_budget (wall_clock env) (rs_recovery_deadline_utc row)))\<rparr>), s'))"

section \<open>Explicit resume\<close>

datatype 'tool resume_outcome =
    Not_a_resume
  | Internal_failure
  | No_longer_resumable
  | Not_the_requester
  | Halted nat "string list"
  | Refused resume_refusal
  | Resumed "'tool resumed_turn"

fun latest :: "turn_row list \<Rightarrow> turn_row option" where
  "latest [] = None"
| "latest (r # rs) =
     (case latest rs of
        None \<Rightarrow> Some r
      | Some b \<Rightarrow>
          let at_of = (\<lambda>x. case suspended_at x of Some t \<Rightarrow> t | None \<Rightarrow> 0)
          in Some (if at_of b \<le> at_of r then r else b))"

definition latest_suspended_for_channel :: "string \<Rightarrow> string option \<Rightarrow> turn_store \<Rightarrow> turn_row option" where
  "latest_suspended_for_channel channel user s =
     latest (filter (\<lambda>r. channel_id (tkey r) = channel \<and> (case user of None \<Rightarrow> True | Some u \<Rightarrow> opt_text (user_id r) = u))
              (list_suspended_sync (Some ''discord'') s))"

definition op_names :: "op_info list \<Rightarrow> string list" where
  "op_names ops = sort (remdups (map (\<lambda>(seq, cid, st, nm, eff, res). if nm = [] then ''unknown'' else nm) ops))"

definition explicit_resume_recognized ::
  "'tool resume_env \<Rightarrow> string \<Rightarrow> string \<Rightarrow> string \<Rightarrow> bool \<Rightarrow> py_time \<Rightarrow> turn_store \<Rightarrow> 'tool resume_outcome \<times> turn_store" where
  "explicit_resume_recognized env channel author mid manual_fault now s =
     (let key = \<lparr>source = ''discord'', channel_id = channel, message_id = mid\<rparr> in
      case load_resumable_sync (sha256 env) (json_loads env) (reject_fault env) key s of
        (None, s') \<Rightarrow> (No_longer_resumable, s')
      | (Some row, s') \<Rightarrow>
          if author \<noteq> opt_text (rs_user_id row) then (Not_the_requester, s')
          else
            (let unresolved = unresolved_ops row in
             if unresolved \<noteq> [] then
               (case mark_ops_manual_sync manual_fault now key (rs_generation row) s' of
                  (Inl _, s'') \<Rightarrow> (Internal_failure, s'')
                | (Inr _, s'') \<Rightarrow>
                    (Halted (length unresolved) (op_names unresolved), reject_resumable_sync (reject_fault env) key s''))
             else case validate_and_rebuild env key row s' of
                 (Inl _, s'') \<Rightarrow> (Internal_failure, s'')
               | (Inr (Inl refusal), s'') \<Rightarrow> (Refused refusal, s'')
               | (Inr (Inr turn), s'') \<Rightarrow> (Resumed turn, s'')))"

text \<open>
  \<open>lookup_fault\<close> is an exception of the first lookup. The message is the trigger, written by \<open>author\<close>
  in \<open>channel\<close>.
\<close>

definition try_explicit_resume ::
  "'tool resume_env \<Rightarrow> string option \<Rightarrow> string \<Rightarrow> string \<Rightarrow> string \<Rightarrow> bool \<Rightarrow> bool \<Rightarrow> py_time \<Rightarrow> turn_store
     \<Rightarrow> 'tool resume_outcome \<times> turn_store" where
  "try_explicit_resume env bot_id channel author content lookup_fault manual_fault now s =
     (if \<not> is_resume_trigger (resume_candidate content bot_id) then (Not_a_resume, s)
      else if lookup_fault then (Internal_failure, s)
      else
        (let own = latest_suspended_for_channel channel (Some author) s;
             found = (case own of Some r \<Rightarrow> Some r | None \<Rightarrow> latest_suspended_for_channel channel None s)
         in case found of
              None \<Rightarrow> (Not_a_resume, s)
            | Some r \<Rightarrow> explicit_resume_recognized env channel author (message_id (tkey r)) manual_fault now s))"

section \<open>Automatic resume\<close>

text \<open>The session revisions under which automatic resume may proceed; \<open>-1\<close> is an unreadable session.\<close>

definition allowed_revisions :: "int \<Rightarrow> int list" where
  "allowed_revisions suspend_rev = (if 0 \<le> suspend_rev then [suspend_rev, suspend_rev + 1] else [])"

datatype 'tool auto_outcome = Keep_waiting | Stand_down | Auto_error store_error | Auto_resumed "'tool resumed_turn"

definition run_auto_resume ::
  "'tool resume_env \<Rightarrow> turn_key \<Rightarrow> resumable \<Rightarrow> int list \<Rightarrow> bool \<Rightarrow> int \<Rightarrow> turn_store \<Rightarrow> 'tool auto_outcome \<times> turn_store" where
  "run_auto_resume env key row allowed busy revision_now s =
     (if unresolved_ops row \<noteq> [] then (Stand_down, s)
      else if busy then (Stand_down, s)
      else if revision_now \<notin> set allowed then (Stand_down, s)
      else case validate_and_rebuild env key row s of
          (Inl e, s') \<Rightarrow> (Auto_error e, s')
        | (Inr (Inl _), s') \<Rightarrow> (Stand_down, s')
        | (Inr (Inr turn), s') \<Rightarrow> (Auto_resumed turn, s'))"

text \<open>
  One poll of the waiter: the capacity breaker is claimed and released at once. \<open>rev_now\<close> is read
  before the channel lock is taken, \<open>rev_locked\<close> under it; the store the admission works on, \<open>s2\<close>,
  is the one found then, because other steps run while the waiter queues for the lock.
\<close>

definition auto_poll ::
  "'tool resume_env \<Rightarrow> turn_key \<Rightarrow> string \<Rightarrow> int \<Rightarrow> py_time \<Rightarrow> int \<Rightarrow> int \<Rightarrow> bool \<Rightarrow> capacity_breaker \<Rightarrow> turn_store
     \<Rightarrow> (turn_store \<Rightarrow> turn_store) \<Rightarrow> 'tool auto_outcome \<times> capacity_breaker \<times> turn_store" where
  "auto_poll env key gen suspend_rev tick rev_now rev_locked busy b s others =
     (case load_resumable_sync (sha256 env) (json_loads env) (reject_fault env) key s of
        (None, s') \<Rightarrow> (Stand_down, b, s')
      | (Some row, s') \<Rightarrow>
          if rs_generation row \<noteq> gen then (Stand_down, b, s')
          else case acquire_attempt tick b of
              (Wait _, b') \<Rightarrow> (Keep_waiting, b', s')
            | (Admitted t, b') \<Rightarrow>
                (let b'' = abandon_attempt t b' in
                 if rev_now \<notin> set (allowed_revisions suspend_rev) then (Stand_down, b'', s')
                 else case run_auto_resume env key row (allowed_revisions suspend_rev) busy rev_locked (others s') of
                     (r, s'') \<Rightarrow> (r, b'', s'')))"

end
