(* ===== verification/Turn_Durability_Props.thy ===== *)
theory Turn_Durability_Props
  imports Turn_Durability
begin

text \<open>
  What the durability hooks guarantee the tool loop: an effect runs only behind a durable
  RUNNING row, the response is durable before its tools, admission never falls back to an
  unledgered run, a suspended turn can be restored, and a settled turn stays settled.
\<close>

section \<open>Snapshots only write blobs\<close>

definition rows_kept :: "(string \<Rightarrow> string) \<Rightarrow> turn_store \<Rightarrow> turn_store \<Rightarrow> bool" where
  "rows_kept sha s t \<longleftrightarrow>
     (store_step sha)\<^sup>*\<^sup>* s t \<and> turns t = turns s \<and> operations t = operations s \<and> conn t = conn s
     \<and> lease_ttl t = lease_ttl s"

lemma store_blob_rows: "rows_kept sha s (snd (store_blob_sync sha f d s))"
proof -
  have "(store_step sha)\<^sup>*\<^sup>* s (snd (store_blob_sync sha f d s))"
    by (intro r_into_rtranclp store_step.store_blob)
  then show ?thesis
    unfolding rows_kept_def by (auto simp: store_blob_sync_def Let_def split: option.split)
qed

interpretation snapshot_blobs: blob_store
  "\<lambda>d. store_blob_sync sha (fault d) d" "\<lambda>ref s. load_blob_sync sha ref s" "rows_kept sha"
  "store_inv sha" "\<lambda>d. \<forall>x. sha x = sha d \<longrightarrow> x = d" for sha fault
proof (unfold_locales, goal_cases)
  case (2 s t u)
  then show ?case by (auto simp: rows_kept_def)
next
  case (5 s d ref s1 s2)
  then show ?case using turn_blobs.put_get by (auto simp: rows_kept_def)
qed (auto intro: store_blob_inv store_blob_rows simp: rows_kept_def [of sha s s for sha s])

lemma snapshot_rows:
  assumes "snapshot_chat_turn e st (\<lambda>d. store_blob_sync sha (bf d) d) seq extra s = (r, s1)"
  shows "rows_kept sha s s1 \<and> (store_inv sha s \<longrightarrow> store_inv sha s1)"
proof -
  let ?sb = "\<lambda>d. store_blob_sync sha (bf d) d"
  obtain rm t1 where m: "externalize_list ?sb (ct_messages st) s = (rm, t1)" by force
  obtain ri t2 where i: "externalize_list ?sb (ct_pending_image_blocks st) t1 = (ri, t2)" by force
  have "s1 = t1 \<or> s1 = t2"
    using assms by (auto simp: snapshot_chat_turn_def m i split: sum.splits)
  then show ?thesis
    using snapshot_blobs.externalize_later(2) [OF refl m] snapshot_blobs.externalize_later(2) [OF refl i]
      snapshot_blobs.later_trans by blast
qed

section \<open>The tool gate\<close>

lemma fence_target_unique:
  assumes "store_inv sha s"
  shows "length (filter (\<lambda>r. op_target l seq tcid r \<and> P r) (operations s)) \<le> 1"
  using assms
  by (intro length_filter_key_le_1 [where key = op_key and k = "(lease_key l, generation l, seq, tcid)"])
    (auto simp: store_inv_def pk_ok_def op_target_def op_where_def op_key_def)

lemma mark_running_Inl:
  assumes "store_inv sha s" "mark_running_sync fault now tf l seq tcid s = (Inl e, t)"
  shows "t = s"
proof -
  let ?p = "\<lambda>r. op_target l seq tcid r \<and> state r \<in> set [PREPARED] \<and> fence_holds l tf s"
  have "length (filter ?p (operations s)) \<le> 1" using fence_target_unique [OF assms(1)] .
  moreover have "map (\<lambda>r. if ?p r then f r else r) (operations s) = operations s"
    if "length (filter ?p (operations s)) = 0" for f
    using that by (intro map_if_id) (auto simp: filter_empty_conv)
  ultimately show ?thesis using assms(2)
    by (auto simp: mark_running_sync_def set_op_state_def sql_update_def Let_def le_Suc_eq split: if_splits)
qed

text \<open>
  C2: the gate before an external effect fails closed. On an enabled handle
  \<^verbatim>\<open>before_tool\<close> lets the tool run only when the operation had a PREPARED row under a live
  lease, and then that row is durably RUNNING and nothing else changed in the turn table;
  when it raises, the store is exactly as before.
\<close>

theorem before_tool_gate:
  assumes "store_inv sha s" and "enabled h" and "before_tool fault now tf bid h s = (res, h', t)"
  shows "h' = h \<and> (\<exists>l. d_lease h = Some l
     \<and> (case res of
          Inl _ \<Rightarrow> t = s
        | Inr _ \<Rightarrow> fence_holds l tf s \<and> turns t = turns s
            \<and> (\<exists>r. row_of op_key (lease_key l, generation l, gen_seq h, bid) (operations s) = Some r
                \<and> state r = PREPARED
                \<and> row_of op_key (lease_key l, generation l, gen_seq h, bid) (operations t)
                  = Some (r\<lparr>state := RUNNING, updated_at := now\<rparr>))))"
proof -
  from assms(2) obtain l where l: "d_lease h = Some l" by (auto simp: enabled_def)
  have m: "mark_running_sync fault now tf l (gen_seq h) bid s = (res, t)" "h' = h"
    using assms(2,3) l by (auto simp: before_tool_def split: prod.splits)
  show ?thesis
  proof (cases res)
    case (Inl err)
    then show ?thesis using mark_running_Inl [OF assms(1)] m l by auto
  next
    case (Inr u)
    then show ?thesis using mark_running_Inr [OF assms(1), of fault now tf l "gen_seq h" bid t] m l by auto
  qed
qed

definition ex_handle :: durability where
  "ex_handle = (new_handle True (Some ex_lease))\<lparr>gen_seq := 1\<rparr>"

lemma ex_handle_enabled: "enabled ex_handle"
  by (simp add: enabled_def ex_handle_def new_handle_def)

theorem before_tool_gate_witness:
  "\<exists>t. before_tool False 2 2 ''a'' ex_handle ex_store = (Inr (), ex_handle, t)
     \<and> row_of op_key (ex_key, ''g'', 1, ''a'') (operations t) = Some (ex_op\<lparr>state := RUNNING, updated_at := 2\<rparr>)"
proof -
  have b: "before_tool False 2 2 ''a'' ex_handle ex_store
      = (Inr (), ex_handle, ex_store\<lparr>operations := [ex_op\<lparr>state := RUNNING, updated_at := 2\<rparr>]\<rparr>)"
    using ex_start ex_handle_enabled by (simp add: before_tool_def ex_handle_def new_handle_def)
  show ?thesis using before_tool_gate [OF ex_store_inv ex_handle_enabled b] b
    by (auto simp: ex_handle_def new_handle_def ex_defs row_of_def op_key_def)
qed

section \<open>The response is durable before its tools\<close>

lemma checkpoint_hook_Inr:
  assumes "store_inv sha s" "checkpoint_hook sha e bf fault now tf st progressed dl h s = (Inr u, h', t)"
  shows "\<exists>l l' pay s1. d_lease h = Some l \<and> h' = h\<lparr>d_lease := Some l'\<rparr> \<and> store_inv sha t \<and> conn s
     \<and> l' = l\<lparr>lease_revision := lease_revision l + 1\<rparr> \<and> operations t = operations s
     \<and> snapshot_chat_turn e st (\<lambda>d. store_blob_sync sha (bf d) d) (gen_seq h) [] s = (Inr pay, s1)
     \<and> (\<exists>r. row_of tkey (lease_key l) (turns t) = Some r \<and> payload r = Some (encode_payload pay) \<and> status r = ACTIVE
          \<and> turn_generation r = generation l \<and> lease_token r = Some (token l) \<and> revision r = lease_revision l')"
proof -
  obtain l pay s1 l' where l: "d_lease h = Some l" "h' = h\<lparr>d_lease := Some l'\<rparr>"
    and snap: "snapshot_chat_turn e st (\<lambda>d. store_blob_sync sha (bf d) d) (gen_seq h) [] s = (Inr pay, s1)"
    and chk: "checkpoint_sync sha fault now now tf l pay progressed dl s1 = (Inr l', t)"
    using assms(2) by (auto simp: checkpoint_hook_def split: option.splits prod.splits sum.splits)
  have s1: "rows_kept sha s s1" "store_inv sha s1" using snapshot_rows [OF snap] assms(1) by auto
  have t: "store_inv sha t" using store.step_inv [OF store_step.checkpoint s1(2)] chk by (metis snd_conv)
  have "\<exists>r f. row_of tkey (lease_key l) (turns s1) = Some r \<and> turn_fence l tf r \<and> conn s1
           \<and> row_of tkey (lease_key l) (turns t) = Some ((f r)\<lparr>revision := lease_revision l'\<rparr>)
           \<and> payload (f r) = Some (encode_payload pay) \<and> status (f r) = status r
           \<and> turn_generation (f r) = turn_generation r \<and> lease_token (f r) = lease_token r
           \<and> l' = l\<lparr>lease_revision := lease_revision l + 1\<rparr> \<and> operations t = operations s1"
    using fenced_update_Inr [OF s1(2) chk [unfolded checkpoint_sync_def Let_def]]
    by (fastforce split: option.splits)
  then show ?thesis using l snap t s1(1) by (auto simp: turn_fence_def rows_kept_def)
qed

lemma mark_running_ok:
  assumes "store_inv sha s" "conn s" "fence_holds l tf s"
    and "row_of op_key (lease_key l, generation l, seq, tcid) (operations s) = Some r" "state r = PREPARED"
  shows "fst (mark_running_sync False now tf l seq tcid s) = Inr ()"
proof -
  let ?p = "\<lambda>r. op_target l seq tcid r \<and> state r \<in> set [PREPARED] \<and> fence_holds l tf s"
  have "r \<in> set (operations s)" "op_key r = (lease_key l, generation l, seq, tcid)"
    using assms(4) row_of_SomeD by metis+
  then have "r \<in> set (filter ?p (operations s))"
    using assms(3,5) by (simp add: op_target_def op_where_def op_key_def)
  then have "length (filter ?p (operations s)) = 1"
    using fence_target_unique [OF assms(1), of l seq tcid "\<lambda>r. state r \<in> set [PREPARED] \<and> fence_holds l tf s"]
      length_pos_if_in_set [of r "filter ?p (operations s)"] by linarith
  then show ?thesis
    using assms(2) by (simp add: mark_running_sync_def set_op_state_def sql_update_def Let_def)
qed

lemma record_intents_Inr:
  assumes "store_inv sha s" "record_intents_sync sha fault now l seq intents iter s = (Inr u, t)"
    and "(i, tf) \<in> set intents"
  shows "conn s \<and> store_inv sha t \<and> turns t = turns s \<and> conn t = conn s
    \<and> row_of op_key (lease_key l, generation l, seq, i_tool_call_id i) (operations t)
      = Some (intent_row sha l seq iter now i)"
proof -
  have ins: "insert_intents sha l seq iter now intents s = Inr t" and c: "conn s"
    using assms(2) by (auto simp: record_intents_sync_def Let_def split: if_splits sum.splits)
  have t: "t = s\<lparr>operations := operations s @ map (\<lambda>p. intent_row sha l seq iter now (fst p)) intents\<rparr>"
    using ins unfolding insert_intents_Inr_iff by blast
  have inv: "store_inv sha t" using store.step_inv [OF store_step.record_intents assms(1)] assms(2) by (metis snd_conv)
  have "intent_row sha l seq iter now i \<in> set (operations t)" using assms(3) by (force simp: t)
  moreover have "op_key (intent_row sha l seq iter now i) = (lease_key l, generation l, seq, i_tool_call_id i)"
    by (simp add: op_key_def intent_row_def)
  ultimately have "row_of op_key (lease_key l, generation l, seq, i_tool_call_id i) (operations t)
      = Some (intent_row sha l seq iter now i)"
    using inv by (simp add: store_inv_def row_of_Some_iff)
  then show ?thesis using c inv by (simp add: t)
qed

text \<open>
  C4: a model response is durable before any of its tools can run. When
  \<^verbatim>\<open>on_llm_response\<close> returns, the checkpoint holds the snapshot of the turn and every
  executable call has a PREPARED ledger row of the new generation sequence, carrying its
  classified effect class; and while the lease is alive the gate \<^verbatim>\<open>before_tool\<close> opens for that
  call.
\<close>

theorem response_durable_before_tools:
  assumes "store_inv sha s" and "enabled h"
    and "on_llm_response sha e bf f1 f2 now tf st tcs h s = (Inr u, h', t)"
    and "tc \<in> set tcs" and "\<not> tc_parse_error tc"
  shows "gen_seq h' = gen_seq h + 1
    \<and> (\<exists>l pay s1 r q. d_lease h' = Some l
        \<and> snapshot_chat_turn e st (\<lambda>d. store_blob_sync sha (bf d) d) (gen_seq h') [] s = (Inr pay, s1)
        \<and> row_of tkey (lease_key l) (turns t) = Some r \<and> payload r = Some (encode_payload pay)
        \<and> row_of op_key (lease_key l, generation l, gen_seq h', tc_id tc) (operations t) = Some q
        \<and> state q = PREPARED \<and> effect_class q = classify_tool_effect (tc_name tc) (tc_input tc)
        \<and> (lease_live tb r \<longrightarrow> fst (before_tool False n tb (tc_id tc) h' t) = Inr ()))"
proof -
  let ?h1 = "h\<lparr>gen_seq := gen_seq h + 1\<rparr>"
  let ?ex = "filter (\<lambda>tc. \<not> tc_parse_error tc) tcs"
  have tc: "tc \<in> set ?ex" using assms(4,5) by simp
  then have ne: "?ex \<noteq> []" by (metis empty_iff list.set(1))
  obtain h2 s2 where ck: "checkpoint_hook sha e bf f1 now tf st True None ?h1 s = (Inr (), h2, s2)"
    using assms(2,3) by (auto simp: on_llm_response_def Let_def split: prod.splits sum.splits)
  from checkpoint_hook_Inr [OF assms(1) ck] obtain l pay s1 r where
    l: "h2 = ?h1\<lparr>d_lease := Some l\<rparr>" and inv2: "store_inv sha s2" and
    snap: "snapshot_chat_turn e st (\<lambda>d. store_blob_sync sha (bf d) d) (gen_seq ?h1) [] s = (Inr pay, s1)" and
    r: "row_of tkey (lease_key l) (turns s2) = Some r" "payload r = Some (encode_payload pay)" "status r = ACTIVE"
      "turn_generation r = generation l" "lease_token r = Some (token l)" "revision r = lease_revision l"
    by fastforce
  obtain rec: "record_intents_sync sha f2 now l (gen_seq h2) (map (\<lambda>tc. (intent_of e tc, tf)) ?ex)
      (Some (ct_iteration st)) s2 = (Inr (), t)" and h': "h' = h2"
    using assms(2,3) ck ne by (auto simp: on_llm_response_def Let_def l split: prod.splits sum.splits)
  have "(intent_of e tc, tf) \<in> set (map (\<lambda>tc. (intent_of e tc, tf)) ?ex)" using tc by auto
  note q = record_intents_Inr [OF inv2 rec this]
  let ?q = "intent_row sha l (gen_seq h2) (Some (ct_iteration st)) now (intent_of e tc)"
  have qs: "state ?q = PREPARED" "effect_class ?q = classify_tool_effect (tc_name tc) (tc_input tc)"
    by (simp_all add: intent_row_def intent_of_def)
  have en: "enabled h2" using assms(2) by (auto simp: enabled_def l)
  have "fst (before_tool False n tb (tc_id tc) h2 t) = Inr ()" if "lease_live tb r"
  proof -
    have "turn_fence l tb r" using that r row_of_SomeD [OF r(1)] by (simp add: turn_fence_def)
    then have "fence_holds l tb t"
      using q row_of_SomeD [OF r(1)] by (auto simp: fence_holds_def list_ex_iff)
    then have "fst (mark_running_sync False n tb l (gen_seq h2) (tc_id tc) t) = Inr ()"
      using mark_running_ok [of sha t l tb "gen_seq h2" "tc_id tc" ?q n] q qs by (simp add: intent_of_def)
    then show ?thesis using en by (auto simp: before_tool_def l split: prod.split)
  qed
  then show ?thesis using h' l snap r q qs by (auto simp: intent_of_def)
qed

definition ex_call :: tool_call where
  "ex_call = \<lparr>tc_id = ''b'', tc_name = ''run_command'', tc_input = JObj [], tc_parse_error = False\<rparr>"

lemma ex_snapshot_any: "\<exists>p s2. snapshot_chat_turn ex_scrubbers ex_turn (\<lambda>d. store_blob_sync ex_sha False d) seq extra ex_store = (Inr p, s2)"
  by (simp add: snapshot_chat_turn_def ex_turn_def ex_image_def is_desktop_frame_def is_image_def image_source_def
      jget_Cons jhas_def store_blob_sync_def ex_store_def ex_sha_def Let_def ascii_encode_def)

lemma ex_rows_kept: "rows_kept sha ex_store s2 \<Longrightarrow> turns s2 = [ex_row] \<and> operations s2 = [ex_op] \<and> conn s2 \<and> lease_ttl s2 = 120"
  by (simp add: rows_kept_def ex_store_def)

lemma ex_response:
  "\<exists>h' t. on_llm_response ex_sha ex_scrubbers (\<lambda>_. False) False False 2 2 ex_turn [ex_call] ex_handle ex_store = (Inr (), h', t)"
proof -
  obtain p s2 where sn: "snapshot_chat_turn ex_scrubbers ex_turn (\<lambda>d. store_blob_sync ex_sha False d) 2 [] ex_store = (Inr p, s2)"
    using ex_snapshot_any by blast
  have s2: "turns s2 = [ex_row]" "operations s2 = [ex_op]" "conn s2" "lease_ttl s2 = 120"
    using snapshot_rows [where bf = "\<lambda>_. False", OF sn] ex_rows_kept by blast+
  show ?thesis
    using ex_handle_enabled
    by (simp add: on_llm_response_def checkpoint_hook_def ex_handle_def new_handle_def sn checkpoint_sync_def
        fenced_update_def sql_update_def s2 turn_fence_def lease_live_def sql_max_def ex_row_def ex_lease_def
        record_intents_sync_def ex_call_def intent_of_def fence_holds_def sql_insert_def intent_row_def op_key_def
        ex_op_def Let_def)
qed

theorem response_durable_before_tools_witness:
  "\<exists>h' t q. on_llm_response ex_sha ex_scrubbers (\<lambda>_. False) False False 2 2 ex_turn [ex_call] ex_handle ex_store = (Inr (), h', t)
     \<and> gen_seq h' = 2 \<and> q \<in> set (operations t) \<and> tool_call_id q = ''b'' \<and> state q = PREPARED"
proof -
  obtain h' t where r: "on_llm_response ex_sha ex_scrubbers (\<lambda>_. False) False False 2 2 ex_turn [ex_call] ex_handle ex_store = (Inr (), h', t)"
    using ex_response by blast
  have p: "ex_call \<in> set [ex_call]" "\<not> tc_parse_error ex_call" by (simp_all add: ex_call_def)
  have i: "gen_seq ex_handle + 1 = 2" "tc_id ex_call = ''b''" by (simp_all add: ex_handle_def ex_call_def)
  obtain l q where "d_lease h' = Some l" "gen_seq h' = 2" "row_of op_key (lease_key l, generation l, gen_seq h', ''b'') (operations t) = Some q"
    "state q = PREPARED"
    using response_durable_before_tools [OF ex_store_inv ex_handle_enabled r p, of 0 0, unfolded i] by blast
  moreover from this(3) have "q \<in> set (operations t)" "tool_call_id q = ''b''"
    using row_of_SomeD [of op_key _ "operations t" q] by (auto simp: op_key_def)
  ultimately show ?thesis using r by blast
qed

section \<open>Admission\<close>

text \<open>
  With a store wired in, a message is either run under a lease or refused. \<^verbatim>\<open>admit\<close>
  gives an enabled handle whose lease is live on a fresh ACTIVE turn of the message's
  identity with no operations of its own, or a blocked handle; it never falls back to the
  unledgered legacy run, whatever fails.
\<close>

theorem admit_leased_or_refused:
  assumes "store_inv sha s" and "0 < lease_ttl s"
    and "admit hsh raises fault gen tok now version m prompt names snap (Some s) = (h, s')"
  shows "(enabled h \<and> blocked h = None \<and> heartbeats h
           \<and> (\<exists>l t. s' = Some t \<and> d_lease h = Some l \<and> fence_holds l now t
                \<and> lease_key l = \<lparr>source = ''discord'', channel_id = m_channel_id m, message_id = m_message_id m\<rparr>
                \<and> row_of tkey (lease_key l) (turns s) = None
                \<and> list_all (\<lambda>r. op_turn r \<noteq> lease_key l) (operations t)))
       \<or> (\<not> enabled h \<and> blocked h \<noteq> None \<and> \<not> heartbeats h)"
proof -
  let ?k = "\<lparr>source = ''discord'', channel_id = m_channel_id m, message_id = m_message_id m\<rparr>"
  let ?a = "admission_of hsh version m prompt names snap"
  obtain lo d s1 where a: "admit_turn_sync fault gen tok now ?k ?a s = ((lo, d), s1)" by (metis prod.collapse)
  show ?thesis
  proof (cases "conn s \<and> \<not> raises \<and> lo \<noteq> None")
    case True
    then obtain l where l: "lo = Some l" by blast
    have h: "h = start_heartbeats (new_handle True (Some l))" "s' = Some s1"
      using assms(3) True a l by (auto simp: admit_def Let_def)
    have ins: "?k \<notin> tkey ` set (turns s)" "s1 = s\<lparr>turns := turns s @ [fresh_row s gen tok now ?k ?a]\<rparr>"
      "l = \<lparr>lease_key = ?k, generation = gen, token = tok, lease_revision = 0\<rparr>"
      using a l by (auto simp: admit_turn_sync_def sql_insert_def fresh_row_def Let_def
          split: if_splits prod.splits option.splits)
    have none: "row_of tkey ?k (turns s) = None" using ins(1) unfolding row_of_def find_None_iff by force
    have ops: "list_all (\<lambda>r. op_turn r \<noteq> ?k) (operations s)"
    proof -
      have "op_turn r \<in> tkey ` set (turns s)" if "r \<in> set (operations s)" for r
        using assms(1) that by (force simp: store_inv_def list_all_iff op_ok_def list_ex_iff)
      then show ?thesis using ins(1) unfolding list_all_iff by metis
    qed
    have "fence_holds l now s1"
      using assms(2) by (simp add: ins fence_holds_def turn_fence_def lease_live_def fresh_row_def)
    then show ?thesis using none ops
      by (simp add: h ins enabled_def start_heartbeats_def new_handle_def)
  next
    case False
    then have "\<exists>b. h = disabled_handle\<lparr>blocked := Some b\<rparr>"
      using assms(3) a by (auto simp: admit_def Let_def split: if_splits)
    then show ?thesis by (auto simp: disabled_handle_def new_handle_def enabled_def)
  qed
qed

theorem admit_leased_or_refused_witness:
  "store_inv ex_sha (empty_store True 120)
   \<and> (\<exists>h t. admit ex_sha False False ''g'' ''t'' 0 ''v'' \<lparr>m_channel_id = ''7'', m_message_id = ''42'', m_guild_id = [],
          m_author_id = ''u'', m_content = ''hi''\<rparr> ''p'' [''run_command''] None (Some (empty_store True 120)) = (h, t)
        \<and> (enabled h \<or> blocked h \<noteq> None))"
proof -
  obtain h t where a: "admit ex_sha False False ''g'' ''t'' 0 ''v'' \<lparr>m_channel_id = ''7'', m_message_id = ''42'', m_guild_id = [],
          m_author_id = ''u'', m_content = ''hi''\<rparr> ''p'' [''run_command''] None (Some (empty_store True 120)) = (h, t)"
    by force
  have "0 < lease_ttl (empty_store True 120)" by (simp add: empty_store_def)
  then show ?thesis using admit_leased_or_refused [OF empty_store_inv _ a] a empty_store_inv by blast
qed

section \<open>Leaving a turn\<close>

text \<open>
  C38: \<^verbatim>\<open>settle_terminal\<close> always ends the life of the handle, and a confirmed settlement is
  final. Afterwards the handle is never enabled and its heartbeats are stopped; if it was
  enabled and the method returned True, the turn row is terminal, with \<^verbatim>\<open>/stop\<close> taking
  precedence over an error and an error over completion, and in every later state of the
  store a redelivered message is refused as already processed.
\<close>

theorem settle_terminal_final:
  assumes "store_inv sha s" and "settle_terminal fault tf cancelled is_error h s = (confirmed, h', t)"
  shows "\<not> enabled h' \<and> \<not> heartbeats h'
    \<and> (enabled h \<and> confirmed \<longrightarrow>
        (\<exists>l r. d_lease h = Some l \<and> row_of tkey (lease_key l) (turns t) = Some r
           \<and> status r = (if cancelled \<or> d_cancelled h then TERMINAL_CANCELLED
                         else if is_error then TERMINAL_FAILED else TERMINAL_COMPLETED)
           \<and> ((store_step sha)\<^sup>*\<^sup>* t u \<and> conn u \<longrightarrow>
                admit_turn_sync False gen tok now (lease_key l) a u = ((None, Already_processed), u))))"
proof -
  have dead: "\<not> enabled h' \<and> \<not> heartbeats h'"
    using assms(2)
    by (auto simp: settle_terminal_def enabled_def stop_heartbeats_def Let_def split: if_splits option.splits prod.splits sum.splits)
  let ?st = "settle_status cancelled is_error (stop_heartbeats h)"
  have "\<exists>l r. d_lease h = Some l \<and> row_of tkey (lease_key l) (turns t) = Some r \<and> status r = ?st
           \<and> ((store_step sha)\<^sup>*\<^sup>* t u \<and> conn u \<longrightarrow>
                admit_turn_sync False gen tok now (lease_key l) a u = ((None, Already_processed), u))"
    if en: "enabled h" and c: confirmed
  proof -
    obtain l where l: "d_lease h = Some l" using en by (auto simp: enabled_def)
    obtain l' where fin: "finish_sync fault tf l ?st s = (Inr l', t)"
      using assms(2) en c l
      by (auto simp: settle_terminal_def enabled_def stop_heartbeats_def Let_def split: prod.splits sum.splits)
    show ?thesis
      using l finish_terminal [OF assms(1) fin] terminal_refused [of sha t "lease_key l" ?st u gen tok now a] by blast
  qed
  then show ?thesis using dead by (simp add: settle_status_def stop_heartbeats_def)
qed

lemma ex_settle: "\<exists>h' t. settle_terminal False 5 True True ex_handle ex_store = (True, h', t)"
  by (simp add: settle_terminal_def Let_def enabled_def ex_handle_def new_handle_def stop_heartbeats_def
      settle_status_def finish_sync_def fenced_update_def sql_update_def turn_fence_def lease_live_def TERMINAL_def ex_defs)

theorem settle_terminal_final_witness:
  "\<exists>h' t r. settle_terminal False 5 True True ex_handle ex_store = (True, h', t) \<and> \<not> enabled h'
     \<and> row_of tkey ex_key (turns t) = Some r \<and> status r = TERMINAL_CANCELLED"
proof -
  obtain h' t where e: "settle_terminal False 5 True True ex_handle ex_store = (True, h', t)" using ex_settle by blast
  have i: "d_lease ex_handle = Some ex_lease" "lease_key ex_lease = ex_key"
    by (simp_all add: ex_handle_def new_handle_def ex_lease_def)
  obtain l r where "\<not> enabled h'" "d_lease ex_handle = Some l" "row_of tkey (lease_key l) (turns t) = Some r"
    "status r = (if True \<or> d_cancelled ex_handle then TERMINAL_CANCELLED
                         else if True then TERMINAL_FAILED else TERMINAL_COMPLETED)"
    using settle_terminal_final [OF ex_store_inv e] ex_handle_enabled by blast
  then show ?thesis using e i by auto
qed

lemma fenced_update_conn: "fenced_update fault tf l f bump s = (Inr l', t) \<Longrightarrow> conn t"
  by (auto simp: fenced_update_def sql_update_def Let_def split: if_splits)

text \<open>
  C7: a suspended turn can be restored. When \<^verbatim>\<open>suspend\<close> returns True for a well-formed turn,
  \<^verbatim>\<open>load_resumable_sync\<close> finds the turn and hands back the checkpoint just written (with its
  keys sorted), and that checkpoint passes the validator the resume flow runs.
  \<^verbatim>\<open>json.loads\<close> is assumed to read back the payload text and the session snapshot.
\<close>

theorem suspended_turn_restorable:
  assumes "store_inv sha s" and "turn_ok st" and "0 \<le> gen_seq h" and "d_lease h = Some l"
    and "suspend sha e bf fault now tf st reason tr h s = (True, h', t)"
    and "\<And>p s1. snapshot_chat_turn e st (\<lambda>d. store_blob_sync sha (bf d) d) (gen_seq h) (suspend_extra reason tr) s = (Inr p, s1)
           \<Longrightarrow> loads (encode_payload p) = Some (sort_keys p)"
    and "\<And>r. row_of tkey (lease_key l) (turns s) = Some r \<Longrightarrow>
           loads (case session_snapshot r of None \<Rightarrow> ''{}'' | Some x \<Rightarrow> if x = [] then ''{}'' else x) \<noteq> None"
  shows "\<not> enabled h' \<and> (\<exists>p s1 rs. snapshot_chat_turn e st (\<lambda>d. store_blob_sync sha (bf d) d) (gen_seq h) (suspend_extra reason tr) s = (Inr p, s1)
      \<and> load_resumable_sync sha loads rf (lease_key l) t = (Some rs, t) \<and> rs_payload rs = sort_keys p
      \<and> validate_payload (rs_payload rs) = Inr (rs_payload rs)
      \<and> fget ''generation_seq'' (entries (rs_payload rs)) = JInt (gen_seq h))"
proof -
  obtain pay s1 l' where h': "d_suspended h'"
    and snap: "snapshot_chat_turn e st (\<lambda>d. store_blob_sync sha (bf d) d) (gen_seq h) (suspend_extra reason tr) s = (Inr pay, s1)"
    and sus: "suspend_sync sha fault now tf l pay s1 = (Inr l', t)"
    using assms(4,5)
    by (auto simp: suspend_def stop_heartbeats_def Let_def split: if_splits option.splits prod.splits sum.splits)
  have s1: "store_inv sha s1" "turns s1 = turns s" using snapshot_rows [OF snap] assms(1) by (auto simp: rows_kept_def)
  from snap assms(2,3) obtain pl where pl: "pay = JObj pl" "validate_payload pay = Inr pay" "distinct (jkeys pl)"
    "fget ''codec_version'' pl = JInt 4" "fget ''generation_seq'' pl = JInt (gen_seq h)"
    by (rule snapshot_valid) (auto simp: is_dict_iff split: if_splits)
  have ok: "validate_payload (sort_keys pay) = Inr (sort_keys pay)"
    using validate_sorted [of pl] pl by simp
  let ?f = "\<lambda>r. suspend_row now (r\<lparr>payload := Some (encode_payload pay),
      payload_digest := Some (payload_digest_of sha (encode_payload pay))\<rparr>)"
  obtain r where r0: "row_of tkey (lease_key l) (turns s1) = Some r"
    and r: "row_of tkey (lease_key l) (turns t) = Some ((?f r)\<lparr>revision := lease_revision l'\<rparr>)"
    using fenced_update_Inr [OF s1(1) sus [unfolded suspend_sync_def Let_def]] by (auto simp: suspend_row_def)
  have inv: "store_inv sha t" using store.step_inv [OF store_step.suspend s1(1)] sus by (metis snd_conv)
  let ?r = "(?f r)\<lparr>revision := lease_revision l'\<rparr>"
  have find: "find (\<lambda>r. tkey r = lease_key l \<and> status r = SUSPENDED) (turns t) = Some ?r"
    using find_pk [of tkey "turns t" "\<lambda>r. tkey r = lease_key l \<and> status r = SUSPENDED" "lease_key l"] inv r
      row_of_SomeD [OF r] by (simp add: store_inv_def suspend_row_def)
  obtain sn where sn: "loads (case session_snapshot ?r of None \<Rightarrow> ''{}'' | Some x \<Rightarrow> if x = [] then ''{}'' else x) = Some sn"
    using assms(7) r0 s1(2) by (auto simp: suspend_row_def)
  have "conn t" using fenced_update_conn sus by (auto simp: suspend_sync_def Let_def)
  then have "\<exists>rs. load_resumable_sync sha loads rf (lease_key l) t = (Some rs, t) \<and> rs_payload rs = sort_keys pay"
    using find assms(6) [OF snap] sn by (simp add: load_resumable_sync_def suspend_row_def)
  then obtain rs where rs: "load_resumable_sync sha loads rf (lease_key l) t = (Some rs, t)" "rs_payload rs = sort_keys pay" by blast
  have "\<not> enabled h'" using h' by (simp add: enabled_def)
  moreover have "fget ''generation_seq'' (entries (rs_payload rs)) = JInt (gen_seq h)" using pl(1,3,5) rs(2) by auto
  ultimately show ?thesis using snap rs ok by metis
qed

definition ex_resume_loads :: "string \<Rightarrow> json option" where
  "ex_resume_loads x =
     (if x = encode_payload (case fst (snapshot_chat_turn ex_scrubbers ex_turn (\<lambda>d. store_blob_sync ex_sha False d) 1
            (suspend_extra ''r'' None) ex_store) of Inr p \<Rightarrow> p | Inl _ \<Rightarrow> JNull)
      then Some (sort_keys (case fst (snapshot_chat_turn ex_scrubbers ex_turn (\<lambda>d. store_blob_sync ex_sha False d) 1
            (suspend_extra ''r'' None) ex_store) of Inr p \<Rightarrow> p | Inl _ \<Rightarrow> JNull))
      else Some (JObj []))"

lemma ex_suspend:
  "\<exists>h' t. suspend ex_sha ex_scrubbers (\<lambda>_. False) False 5 5 ex_turn ''r'' None ex_handle ex_store = (True, h', t)"
proof -
  obtain p s2 where sn: "snapshot_chat_turn ex_scrubbers ex_turn (\<lambda>d. store_blob_sync ex_sha False d) 1 (suspend_extra ''r'' None) ex_store = (Inr p, s2)"
    using ex_snapshot_any by blast
  have s2: "turns s2 = [ex_row]" "operations s2 = [ex_op]" "conn s2" "lease_ttl s2 = 120"
    using snapshot_rows [where bf = "\<lambda>_. False", OF sn] ex_rows_kept by blast+
  show ?thesis
    by (simp add: suspend_def ex_handle_def enabled_def stop_heartbeats_def new_handle_def sn suspend_sync_def
        fenced_update_def sql_update_def s2 turn_fence_def lease_live_def ex_row_def ex_lease_def Let_def)
qed

theorem suspended_turn_restorable_witness:
  "\<exists>h' t rs. suspend ex_sha ex_scrubbers (\<lambda>_. False) False 5 5 ex_turn ''r'' None ex_handle ex_store = (True, h', t)
     \<and> load_resumable_sync ex_sha ex_resume_loads False ex_key t = (Some rs, t)
     \<and> validate_payload (rs_payload rs) = Inr (rs_payload rs)"
proof -
  obtain h' t where s: "suspend ex_sha ex_scrubbers (\<lambda>_. False) False 5 5 ex_turn ''r'' None ex_handle ex_store = (True, h', t)"
    using ex_suspend by blast
  have h: "d_lease ex_handle = Some ex_lease" "gen_seq ex_handle = 1" "lease_key ex_lease = ex_key"
    by (simp_all add: ex_handle_def new_handle_def ex_lease_def)
  have seq: "0 \<le> gen_seq ex_handle" by (simp add: h)
  have ld: "ex_resume_loads (encode_payload p) = Some (sort_keys p)"
    if "snapshot_chat_turn ex_scrubbers ex_turn (\<lambda>d. store_blob_sync ex_sha ((\<lambda>_. False) d) d) (gen_seq ex_handle)
          (suspend_extra ''r'' None) ex_store = (Inr p, s1)" for p s1
    using that by (simp add: ex_resume_loads_def h(2))
  have sn: "ex_resume_loads x \<noteq> None" for x by (simp add: ex_resume_loads_def)
  have "\<not> enabled h' \<and> (\<exists>p s1 rs. snapshot_chat_turn ex_scrubbers ex_turn (\<lambda>d. store_blob_sync ex_sha ((\<lambda>_. False) d) d)
        (gen_seq ex_handle) (suspend_extra ''r'' None) ex_store = (Inr p, s1)
      \<and> load_resumable_sync ex_sha ex_resume_loads False (lease_key ex_lease) t = (Some rs, t) \<and> rs_payload rs = sort_keys p
      \<and> validate_payload (rs_payload rs) = Inr (rs_payload rs)
      \<and> fget ''generation_seq'' (entries (rs_payload rs)) = JInt (gen_seq ex_handle))"
    by (rule suspended_turn_restorable [OF ex_store_inv ex_turn_ok seq h(1) s ld sn])
  then show ?thesis using s unfolding h by blast
qed

end
