(* ===== verification/Turn_Resume_Props.thy ===== *)
theory Turn_Resume_Props
  imports Turn_Resume Turn_Durability_Props
begin

text \<open>
  What the resume flow promises: repaired transcripts are well matched, a recognised command
  never falls through into a fresh turn, and a turn resumes only through the whole admission.
\<close>

section \<open>Repaired transcripts\<close>

lemma pop_use_first: "pop_use c ((i, c) # uses) = uses"
  by simp

lemma open_uses_append:
  "open_uses n (xs @ ys) uses = open_uses (n + length xs) ys (open_uses n xs uses)"
  by (induction xs arbitrary: n uses) simp_all

lemma pop_use_subset: "set (pop_use c uses) \<subseteq> set uses"
proof (induction uses)
  case (Cons u uses)
  then show ?case by (cases u) auto
qed simp

lemma scan_block_truthy:
  "\<forall>u\<in>set uses. truthy (snd u) \<Longrightarrow> \<forall>u\<in>set (scan_block n b uses). truthy (snd u)"
  using pop_use_subset by (cases b) (auto simp: scan_block_def)

lemma fold_scan_truthy:
  "\<forall>u\<in>set uses. truthy (snd u) \<Longrightarrow> \<forall>u\<in>set (fold (scan_block n) bs uses). truthy (snd u)"
proof (induction bs arbitrary: uses)
  case (Cons b bs)
  then show ?case using scan_block_truthy [of uses n b] by simp
qed simp

lemma open_uses_truthy:
  "\<forall>u\<in>set uses. truthy (snd u) \<Longrightarrow> \<forall>u\<in>set (open_uses n msgs uses). truthy (snd u)"
proof (induction msgs arbitrary: n uses)
  case (Cons m msgs)
  then show ?case using fold_scan_truthy [of uses n "message_blocks m"] by simp
qed simp

text \<open>The synthesised results close the open calls one after the other.\<close>

lemma results_close_uses:
  assumes "\<forall>u\<in>set uses. truthy (snd u)"
  shows "fold (scan_block n) (map (\<lambda>u. repaired_block ops seq (snd u)) uses) uses = []"
  using assms
proof (induction uses)
  case (Cons u uses)
  have "scan_block n (repaired_block ops seq (snd u)) (u # uses) = uses"
    using Cons.prems by (cases u) (simp add: scan_block_def repaired_block_def fget_def jget_Cons)
  then show ?case using Cons by simp
qed simp

lemma repaired_shape:
  assumes "repair_unmatched_tool_use messages ops seq = Inr repaired"
  shows "open_uses 0 repaired [] = []
    \<and> (let uses = open_uses 0 messages [] in
       if uses = [] then repaired = messages
       else \<exists>blocks. repaired = messages @ [JObj [(''role'', JStr ''user''), (''content'', JList blocks)]]
          \<and> length blocks = length uses
          \<and> list_all2 (\<lambda>u b. fst u + 1 = length messages
               \<and> b = JObj [(''type'', JStr ''tool_result''), (''tool_use_id'', snd u),
                           (''content'', JStr (repaired_content (find_op ops seq (snd u))))]) uses blocks)"
proof (cases "open_uses 0 messages [] = []")
  case True
  then show ?thesis using assms by (auto simp: repair_unmatched_tool_use_def Let_def split: if_splits)
next
  case False
  let ?uses = "open_uses 0 messages []" and ?n = "length messages"
  let ?blocks = "map (\<lambda>u. repaired_block ops seq (snd u)) ?uses"
  have r: "repaired = messages @ [JObj [(''role'', JStr ''user''), (''content'', JList ?blocks)]]"
    and last: "list_all (\<lambda>u. fst u + 1 = ?n) ?uses"
    using assms False by (auto simp: repair_unmatched_tool_use_def Let_def list_all_iff list_ex_iff split: if_splits)
  have "\<forall>u\<in>set ?uses. truthy (snd u)" by (rule open_uses_truthy) simp
  from results_close_uses [OF this, of ?n ops seq] have "open_uses 0 repaired [] = []"
    by (simp add: r open_uses_append message_blocks_def fget_def jget_Cons items_def)
  moreover have "list_all2 (\<lambda>u b. fst u + 1 = ?n \<and> b = repaired_block ops seq (snd u)) ?uses ?blocks"
    using last by (simp add: list_all2_conv_all_nth list_all_length)
  ultimately show ?thesis using False r by (auto simp: repaired_block_def Let_def intro!: exI [of _ ?blocks])
qed

text \<open>
  What an answer may say, from the rows of the ledger alone: the row of the call (its generation and id) that
  was applied is answered with its stored result, one that was not with the advice its effect class
  allows; that a call never ran, and may be issued again, is said only of a call without a row.
\<close>

definition ledger_answer :: "op_info list \<Rightarrow> int \<Rightarrow> json \<Rightarrow> string \<Rightarrow> bool" where
  "ledger_answer ops seq cid t \<longleftrightarrow>
     (\<forall>st nm eff res. (\<exists>c. cid = JStr c \<and> (seq, c, st, nm, eff, res) \<in> set ops) \<longrightarrow>
        (if st = APPLIED \<or> st = RECONCILED_APPLIED
         then (\<forall>r. res = Some r \<and> r \<noteq> [] \<longrightarrow> t = r) \<and> (res = None \<or> res = Some [] \<longrightarrow> t = ''[completed; result recorded]'')
         else if eff = EFFECT_FREE_OBSERVATION
         then t = ''[Interrupted observation - no external effect was left unresolved; repeat the observation if it is still needed.]''
         else t = ''[Interrupted: outcome unknown - verify current state before re-running this operation.]''))
     \<and> ((\<forall>c op. cid = JStr c \<and> op \<in> set ops \<longrightarrow> op_ident op \<noteq> (seq, c)) \<longrightarrow>
        t = ''[Interrupted before execution - this call never ran; re-issue it if still needed.]'')"

lemma found_op:
  assumes "distinct (map op_ident ops)" "(seq, c, rest) \<in> set ops"
  shows "find_op ops seq (JStr c) = Some (seq, c, rest)"
proof -
  have "op_ident (seq, c, rest) = (seq, c)" by (simp add: op_ident_def)
  then have "find (\<lambda>op. op_ident op = (seq, c)) ops \<noteq> None" using assms(2) unfolding find_None_iff by blast
  then obtain op where op: "find (\<lambda>op. op_ident op = (seq, c)) ops = Some op" by blast
  then have "op \<in> set ops" "op_ident op = op_ident (seq, c, rest)"
    by (auto simp: find_Some_iff op_ident_def)
  then have "op = (seq, c, rest)" using assms inj_onD [of op_ident "set ops"] by (auto simp: distinct_map)
  then show ?thesis using op by (simp add: find_op_def)
qed

lemma unfound_op: "(\<forall>c op. cid = JStr c \<and> op \<in> set ops \<longrightarrow> op_ident op \<noteq> (seq, c)) \<Longrightarrow> find_op ops seq cid = None"
  by (auto simp: find_op_def find_None_iff split: json.split)

lemma repaired_answer:
  assumes "distinct (map op_ident ops)"
  shows "ledger_answer ops seq cid (repaired_content (find_op ops seq cid))"
  unfolding ledger_answer_def
proof (intro conjI allI impI)
  fix st nm eff res assume "\<exists>c. cid = JStr c \<and> (seq, c, st, nm, eff, res) \<in> set ops"
  then obtain c where "cid = JStr c" "find_op ops seq (JStr c) = Some (seq, c, st, nm, eff, res)" using found_op [OF assms] by blast
  then show "if st = APPLIED \<or> st = RECONCILED_APPLIED
       then (\<forall>r. res = Some r \<and> r \<noteq> [] \<longrightarrow> repaired_content (find_op ops seq cid) = r)
         \<and> (res = None \<or> res = Some [] \<longrightarrow> repaired_content (find_op ops seq cid) = ''[completed; result recorded]'')
       else if eff = EFFECT_FREE_OBSERVATION
       then repaired_content (find_op ops seq cid) = ''[Interrupted observation - no external effect was left unresolved; repeat the observation if it is still needed.]''
       else repaired_content (find_op ops seq cid) = ''[Interrupted: outcome unknown - verify current state before re-running this operation.]''"
    by (auto simp: repaired_content_def)
next
  assume "\<forall>c op. cid = JStr c \<and> op \<in> set ops \<longrightarrow> op_ident op \<noteq> (seq, c)"
  then show "repaired_content (find_op ops seq cid) = ''[Interrupted before execution - this call never ran; re-issue it if still needed.]''"
    by (simp add: unfound_op repaired_content_def)
qed

text \<open>
  C23: the repair leaves a well-matched transcript and invents nothing. When it succeeds, the
  transcript is the old one, extended by nothing if every call had its result and by one user
  message otherwise; the extension holds one result per open call, in order, whose text is what the rows
  of the ledger allow: the stored result of an applied operation, that the outcome is unknown or an
  observation was interrupted for one that was recorded and not applied, and that the call never ran
  exactly when nothing was recorded for it; and no call of the extended transcript is open.
\<close>

theorem repair_matches_every_call:
  assumes "repair_unmatched_tool_use messages ops seq = Inr repaired"
  shows "open_uses 0 repaired [] = []
    \<and> (let uses = open_uses 0 messages [] in
       if uses = [] then repaired = messages
       else \<exists>blocks. repaired = messages @ [JObj [(''role'', JStr ''user''), (''content'', JList blocks)]]
          \<and> length blocks = length uses
          \<and> list_all2 (\<lambda>u b. fst u + 1 = length messages
               \<and> (\<exists>t. b = JObj [(''type'', JStr ''tool_result''), (''tool_use_id'', snd u), (''content'', JStr t)]
                    \<and> ledger_answer ops seq (snd u) t)) uses blocks)"
proof (cases "open_uses 0 messages [] = []")
  case True
  then show ?thesis using repaired_shape [OF assms] by simp
next
  case False
  then have "distinct (map op_ident ops)" using assms by (auto simp: repair_unmatched_tool_use_def Let_def split: if_splits)
  note answer = repaired_answer [OF this]
  have closed: "open_uses 0 repaired [] = []" using repaired_shape [OF assms] by blast
  obtain blocks where b: "repaired = messages @ [JObj [(''role'', JStr ''user''), (''content'', JList blocks)]]"
      "length blocks = length (open_uses 0 messages [])"
      "list_all2 (\<lambda>u b. fst u + 1 = length messages
               \<and> b = JObj [(''type'', JStr ''tool_result''), (''tool_use_id'', snd u),
                           (''content'', JStr (repaired_content (find_op ops seq (snd u))))]) (open_uses 0 messages []) blocks"
    using repaired_shape [OF assms] False unfolding Let_def by auto
  have "list_all2 (\<lambda>u b. fst u + 1 = length messages
               \<and> (\<exists>t. b = JObj [(''type'', JStr ''tool_result''), (''tool_use_id'', snd u), (''content'', JStr t)]
                    \<and> ledger_answer ops seq (snd u) t)) (open_uses 0 messages []) blocks"
    by (rule list_all2_mono [OF b(3)]) (use answer in blast)
  then show ?thesis using closed b(1,2) False unfolding Let_def by (intro conjI) auto
qed

definition ex_transcript :: "json list" where
  "ex_transcript =
     [JObj [(''role'', JStr ''user''), (''content'', JStr ''go'')],
      JObj [(''role'', JStr ''assistant''), (''content'', JList
        [JObj [(''type'', JStr ''tool_use''), (''id'', JStr ''a'')], JObj [(''type'', JStr ''tool_use''), (''id'', JStr ''b'')]])]]"

definition ex_op_info :: op_info where
  "ex_op_info = (4, ''a'', APPLIED, ''t'', EXTERNAL_EFFECT_CAPABLE, Some ''done'')"

theorem repair_matches_every_call_witness:
  "\<exists>repaired. repair_unmatched_tool_use ex_transcript [ex_op_info] 4 = Inr repaired \<and> open_uses 0 repaired [] = []"
proof -
  have "(case repair_unmatched_tool_use ex_transcript [ex_op_info] 4 of Inr _ \<Rightarrow> True | Inl _ \<Rightarrow> False)" by code_simp
  then obtain r where r: "repair_unmatched_tool_use ex_transcript [ex_op_info] 4 = Inr r" by (auto split: sum.splits)
  from repair_matches_every_call [OF r] r show ?thesis by blast
qed

section \<open>A recognised command\<close>

lemma latest_None_iff: "latest rs = None \<longleftrightarrow> rs = []"
  by (cases rs) (auto simp: Let_def split: option.splits)

lemma latest_in: "latest rs = Some r \<Longrightarrow> r \<in> set rs"
  by (induction rs arbitrary: r) (auto simp: Let_def split: option.splits if_splits)

lemma recognized_not_fresh: "fst (explicit_resume_recognized env ch au mid mf now s) \<noteq> Not_a_resume"
  by (auto simp: explicit_resume_recognized_def Let_def split: option.split sum.split prod.split)

text \<open>
  A recognised resume command is never treated as an ordinary message while preserved work
  may exist. The answer is \<^verbatim>\<open>None\<close>, which lets a fresh tool-capable turn start, exactly when the
  text is not a resume command, or the lookup succeeded and no turn of the channel is
  suspended; a failing lookup and every failure after it end in a notice.
\<close>

theorem command_never_falls_through:
  "fst (try_explicit_resume env bot_id ch au content lf mf now s) \<noteq> Not_a_resume
   \<longleftrightarrow> is_resume_trigger (resume_candidate content bot_id)
       \<and> (lf \<or> 0 < length (filter (\<lambda>r. channel_id (tkey r) = ch) (list_suspended_sync (Some ''discord'') s)))"
proof (cases "is_resume_trigger (resume_candidate content bot_id) \<and> \<not> lf")
  case True
  let ?own = "latest_suspended_for_channel ch (Some au) s" and ?any = "latest_suspended_for_channel ch None s"
  have any: "?any = None \<longleftrightarrow> filter (\<lambda>r. channel_id (tkey r) = ch) (list_suspended_sync (Some ''discord'') s) = []"
    by (simp add: latest_suspended_for_channel_def latest_None_iff)
  have "?any = None \<Longrightarrow> ?own = None"
    by (auto simp: latest_suspended_for_channel_def latest_None_iff filter_empty_conv)
  then show ?thesis
    using True any
    by (cases ?own; cases ?any) (auto simp: try_explicit_resume_def Let_def recognized_not_fresh)
qed (auto simp: try_explicit_resume_def)

section \<open>Admission\<close>

lemma restore_validates:
  assumes "restore_field_values lb v = Inr fs"
  shows "\<exists>q. validate_payload v = Inr q"
  using assms by (auto simp: restore_field_values_def split: sum.splits)

lemma rebuild_admitted:
  assumes "validate_and_rebuild env key row s = (Inr (Inr t), s')"
  shows "\<exists>m l fs. original env = Fetched m \<and> rt_message t = m \<and> msg_author m = opt_text (rs_user_id row)
      \<and> sha256 env (msg_content m) = opt_text (rs_content_digest row)
      \<and> restore_field_values (\<lambda>ref. load_blob_sync (sha256 env) ref s) (rs_payload row) = Inr fs
      \<and> open_uses 0 (rt_messages t) [] = [] \<and> \<not> cancel_set env
      \<and> rt_tools t = (if tools_enabled env
          then filter_tools (name_of_tool env) (request_tier env) (msg_author m) (catalog env) (policy env) else None)
      \<and> d_lease (rt_durability t) = Some l
      \<and> acquire_resume_lease_sync (acquire_fault env) (fresh_token env) (wall_clock env) key (rs_generation row) s = (Inr (Some l), s')"
proof -
  obtain m where m: "original env = Fetched m" "msg_author m = opt_text (rs_user_id row)"
    "sha256 env (msg_content m) = opt_text (rs_content_digest row)"
    using assms by (auto simp: validate_and_rebuild_def compute_content_digest_def Let_def split: fetched.splits if_splits)
  obtain fs prompt repaired tools where parts: "rebuild_parts env m row s = Some (fs, prompt, repaired, tools)"
    using assms m by (auto simp: validate_and_rebuild_def compute_content_digest_def Let_def split: option.splits)
  obtain l where l: "acquire_resume_lease_sync (acquire_fault env) (fresh_token env) (wall_clock env) key (rs_generation row) s
      = (Inr (Some l), s')" and t: "rt_message t = m" "rt_messages t = repaired" "rt_tools t = tools"
      "d_lease (rt_durability t) = Some l" "\<not> cancel_set env"
    using assms m parts
    by (auto simp: validate_and_rebuild_def compute_content_digest_def Let_def resumed_def start_heartbeats_def new_handle_def
        split: if_splits option.splits sum.splits prod.splits)
  have p: "restore_field_values (\<lambda>ref. load_blob_sync (sha256 env) ref s) (rs_payload row) = Inr fs"
    "tools = (if tools_enabled env
        then filter_tools (name_of_tool env) (request_tier env) (msg_author m) (catalog env) (policy env) else None)"
    "\<exists>ms ops seq. repair_unmatched_tool_use ms ops seq = Inr repaired"
    using parts by (auto simp: rebuild_parts_def Let_def split: sum.splits option.splits)
  obtain ms ops seq where "repair_unmatched_tool_use ms ops seq = Inr repaired" using p(3) by blast
  then have "open_uses 0 repaired [] = []" by (rule repaired_shape [THEN conjunct1])
  then show ?thesis using m l t p(1,2) by auto
qed

lemma recognized_resumed:
  assumes inv: "store_inv (sha256 env) s"
    and "explicit_resume_recognized env ch au mid mf now s = (Resumed t, s')"
  defines "key \<equiv> \<lparr>source = ''discord'', channel_id = ch, message_id = mid\<rparr>"
  shows "\<exists>r m p l. row_of tkey key (turns s) = Some r \<and> status r = SUSPENDED
      \<and> opt_text (user_id r) = au \<and> original env = Fetched m \<and> msg_author m = au
      \<and> sha256 env (msg_content m) = opt_text (content_digest r)
      \<and> list_all (\<lambda>x. op_turn x = key \<and> op_generation x = turn_generation r \<longrightarrow> \<not> unresolved_op (op_view x)) (operations s)
      \<and> (\<exists>txt. payload r = Some txt \<and> payload_digest r = Some (sha256 env txt) \<and> json_loads env txt = Some p)
      \<and> (\<exists>q. validate_payload p = Inr q)
      \<and> open_uses 0 (rt_messages t) [] = [] \<and> \<not> cancel_set env
      \<and> rt_tools t = (if tools_enabled env
          then filter_tools (name_of_tool env) (request_tier env) au (catalog env) (policy env) else None)
      \<and> d_lease (rt_durability t) = Some l \<and> lease_key l = key \<and> generation l = turn_generation r
      \<and> token l = fresh_token env \<and> row_of tkey key (turns s') = Some (r\<lparr>status := ACTIVE,
          lease_token := Some (fresh_token env), lease_expires_at := Some (wall_clock env + lease_ttl s)\<rparr>)"
proof -
  obtain v s1 where v: "load_resumable_sync (sha256 env) (json_loads env) (reject_fault env) key s = (Some v, s1)"
    and au: "opt_text (rs_user_id v) = au" and un: "unresolved_ops v = []"
    and vr: "validate_and_rebuild env key v s1 = (Inr (Inr t), s')"
    using assms(2) by (auto simp: explicit_resume_recognized_def key_def Let_def split: option.splits sum.splits prod.splits if_splits)
  obtain r where r: "find (\<lambda>r. tkey r = key \<and> status r = SUSPENDED) (turns s) = Some r"
    using v by (auto simp: load_resumable_sync_def split: if_splits option.splits)
  then have row: "row_of tkey key (turns s) = Some r" "status r = SUSPENDED"
    using find_pk [of tkey "turns s" "\<lambda>r. tkey r = key \<and> status r = SUSPENDED" key] inv
    by (auto simp: store_inv_def split: option.splits if_splits)
  have ld: "s1 = s" "rs_generation v = turn_generation r" "rs_user_id v = user_id r" "rs_content_digest v = content_digest r"
    "rs_operations v = map op_view (ordered_ops key (turn_generation r) (operations s))"
    "\<exists>txt. payload r = Some txt \<and> payload_digest r = Some (sha256 env txt) \<and> json_loads env txt = Some (rs_payload v)"
    using v r by (auto simp: load_resumable_sync_def payload_digest_of_def split: if_splits option.splits)
  have ops: "list_all (\<lambda>x. op_turn x = key \<and> op_generation x = turn_generation r \<longrightarrow> \<not> unresolved_op (op_view x)) (operations s)"
    using un by (auto simp: unresolved_ops_def ld(5) ordered_ops_def sql_select_def filter_empty_conv list_all_iff)
  obtain m l fs where m: "original env = Fetched m" "msg_author m = opt_text (rs_user_id v)"
    "sha256 env (msg_content m) = opt_text (rs_content_digest v)"
    "restore_field_values (\<lambda>ref. load_blob_sync (sha256 env) ref s) (rs_payload v) = Inr fs"
    "open_uses 0 (rt_messages t) [] = [] \<and> \<not> cancel_set env"
    "rt_tools t = (if tools_enabled env
        then filter_tools (name_of_tool env) (request_tier env) (msg_author m) (catalog env) (policy env) else None)"
    "d_lease (rt_durability t) = Some l"
    "acquire_resume_lease_sync (acquire_fault env) (fresh_token env) (wall_clock env) key (turn_generation r) s = (Inr (Some l), s')"
    using rebuild_admitted [OF vr] by (auto simp: ld)
  from acquire_Some [OF inv m(8)] row(1) have
    "row_of tkey key (turns s') = Some (r\<lparr>status := ACTIVE, lease_token := Some (fresh_token env),
        lease_expires_at := Some (wall_clock env + lease_ttl s)\<rparr>)"
    "lease_key l = key" "generation l = turn_generation r" "token l = fresh_token env" by auto
  moreover have "\<exists>q. validate_payload (rs_payload v) = Inr q" by (rule restore_validates [OF m(4)])
  note acquired = this calculation
  show ?thesis
    by (rule exI [of _ r], rule exI [of _ m], rule exI [of _ "rs_payload v"], rule exI [of _ l])
      (use acquired row m au ops ld(6) in \<open>auto simp: ld(3,4)\<close>)
qed

section \<open>A refused command\<close>

text \<open>\<open>wakes_none s s'\<close>: no turn is running in \<open>s'\<close> that was not running in \<open>s\<close>.\<close>

definition wakes_none :: "turn_store \<Rightarrow> turn_store \<Rightarrow> bool" where
  "wakes_none s s' \<longleftrightarrow> (\<forall>k r. row_of tkey k (turns s') = Some r \<and> status r = ACTIVE \<longrightarrow> row_of tkey k (turns s) = Some r)"

lemma wakes_same: "turns s' = turns s \<Longrightarrow> wakes_none s s'"
  by (simp add: wakes_none_def)

lemma wakes_update:
  assumes "turns s' = map (\<lambda>r. if p r then f r else r) (turns s)" "\<And>r. tkey (f r) = tkey r" "\<And>r. status (f r) \<noteq> ACTIVE"
  shows "wakes_none s s'"
  unfolding wakes_none_def assms(1) using assms(2,3) by (auto simp: row_of_update split: if_splits)

lemma wakes_reject: "wakes_none s (reject_resumable_sync fault key s)"
proof (cases "\<not> conn s \<or> fault")
  case True
  then show ?thesis by (auto simp: reject_resumable_sync_def intro: wakes_same)
next
  case False
  show ?thesis
    by (rule wakes_update [where p = "\<lambda>r. tkey r = key \<and> status r = SUSPENDED" and f = "close_row TERMINAL_REJECTED"])
      (use False in \<open>simp_all add: reject_resumable_sync_def sql_update_def close_row_def\<close>)
qed

lemma wakes_trans: "wakes_none s t \<Longrightarrow> wakes_none t u \<Longrightarrow> wakes_none s u"
  by (simp add: wakes_none_def)

lemma acquire_None:
  assumes "store_inv sha s" "acquire_resume_lease_sync fault tok now key gen s = (x, t)" "\<And>l. x \<noteq> Inr (Some l)"
  shows "turns t = turns s"
proof (cases "conn s \<and> \<not> fault")
  case False
  then show ?thesis using assms(2) by (auto simp: acquire_resume_lease_sync_def split: if_splits)
next
  case True
  let ?p = "\<lambda>r. tkey r = key \<and> status r = SUSPENDED \<and> turn_generation r = gen"
  let ?f = "\<lambda>r. r\<lparr>status := ACTIVE, lease_token := Some tok, lease_expires_at := Some (now + lease_ttl s)\<rparr>"
  let ?rows = "map (\<lambda>r. if ?p r then ?f r else r) (turns s)"
  have t: "turns t = ?rows"
    using assms(2) True by (auto simp: acquire_resume_lease_sync_def sql_update_def Let_def split: if_splits option.splits)
  have "\<not> ?p r" if r: "r \<in> set (turns s)" for r
  proof
    assume p: "?p r"
    have pk: "pk_ok tkey (turns s)" using assms(1) by (simp add: store_inv_def)
    have row: "row_of tkey key (turns s) = Some r" using row_of_Some_iff [OF pk] r p by simp
    have one: "length (filter ?p (turns s)) = 1" using p row rowcount_1_iff [OF pk, of ?p key] by auto
    have "row_of tkey key ?rows = Some (?f r)" using row p row_of_update [of "turns s" ?p tkey ?f key] by auto
    then show False using assms(2,3) True one by (auto simp: acquire_resume_lease_sync_def sql_update_def Let_def)
  qed
  then have "?rows = turns s" by (intro map_idI) auto
  then show ?thesis unfolding t .
qed

lemma wakes_release:
  assumes "store_inv sha s" "acquire_resume_lease_sync fault tok now key gen s = (Inr (Some l), t)"
  shows "wakes_none s (snd (release_acquired_sync False l None t))"
  unfolding wakes_none_def
proof (intro allI impI)
  fix k r assume r: "row_of tkey k (turns (snd (release_acquired_sync False l None t))) = Some r \<and> status r = ACTIVE"
  obtain r0 where a: "row_of tkey key (turns s) = Some r0"
      "row_of tkey key (turns t) = Some (r0\<lparr>status := ACTIVE, lease_token := Some tok, lease_expires_at := Some (now + lease_ttl s)\<rparr>)"
      "l = \<lparr>lease_key = key, generation = gen, token = tok, lease_revision = revision r0\<rparr>" "turn_generation r0 = gen"
    using acquire_Some [OF assms] by blast
  let ?p = "\<lambda>r. tkey r = key \<and> status r = SUSPENDED \<and> turn_generation r = gen"
  have t: "turns t = map (\<lambda>r. if ?p r then r\<lparr>status := ACTIVE, lease_token := Some tok, lease_expires_at := Some (now + lease_ttl s)\<rparr> else r) (turns s)"
    and c: "conn t"
    using assms(2) by (auto simp: acquire_resume_lease_sync_def sql_update_def Let_def split: if_splits option.splits)
  let ?q = "\<lambda>r. tkey r = key \<and> turn_generation r = gen \<and> lease_token r = Some tok \<and> status r = ACTIVE"
  have u: "row_of tkey k (turns (snd (release_acquired_sync False l None t)))
      = map_option (\<lambda>r. if ?q r then r\<lparr>status := SUSPENDED, lease_token := None, lease_expires_at := None\<rparr> else r) (row_of tkey k (turns t))"
    using c by (simp add: release_acquired_sync_def sql_update_def a(3) row_of_update)
  have "tkey r0 = key" using a(1) row_of_SomeD by metis
  then have "k \<noteq> key" using r u a(2,4) by auto
  then have "row_of tkey k (turns t) = row_of tkey k (turns s)"
    unfolding t by (intro row_of_map_other) auto
  moreover have "row_of tkey k (turns t) = Some r"
    using r unfolding u by (auto split: if_splits)
  ultimately show "row_of tkey k (turns s) = Some r" by simp
qed

lemma refused_wakes:
  assumes "store_inv (sha256 env) s" "validate_and_rebuild env key row s = (x, s')" "\<And>t. x \<noteq> Inr (Inr t)"
    and "\<not> (construct_fails env \<and> release_fault env)"
  shows "wakes_none s s'"
proof (cases "s' = s \<or> s' = reject_resumable_sync (reject_fault env) key s")
  case True
  then show ?thesis using wakes_reject wakes_same by blast
next
  case False
  then obtain m fs prompt repaired tools where p: "original env = Fetched m" "msg_author m = opt_text (rs_user_id row)"
      "compute_content_digest (sha256 env) (msg_content m) = opt_text (rs_content_digest row)"
      "rebuild_parts env m row s = Some (fs, prompt, repaired, tools)" "\<not> cancel_set env"
    using assms(2) by (auto simp: validate_and_rebuild_def Let_def split: fetched.splits option.splits if_splits)
  obtain y t where a: "acquire_resume_lease_sync (acquire_fault env) (fresh_token env) (wall_clock env) key (rs_generation row) s = (y, t)"
    by fastforce
  show ?thesis
  proof (cases "\<exists>l. y = Inr (Some l)")
    case True
    then obtain l where l: "y = Inr (Some l)" by blast
    then have "construct_fails env" "s' = snd (release_acquired_sync (release_fault env) l None t)"
      using assms(2,3) p a by (auto simp: validate_and_rebuild_def Let_def split: if_splits)
    then show ?thesis using wakes_release [OF assms(1) a [unfolded l]] assms(4) by simp
  next
    case no: False
    then have "s' = t" using assms(2) p a
      by (cases y) (auto simp: validate_and_rebuild_def Let_def split: option.splits)
    then show ?thesis using acquire_None [OF assms(1) a] no wakes_same by blast
  qed
qed

lemma recognized_wakes:
  assumes "store_inv (sha256 env) s" "explicit_resume_recognized env ch au mid mf now s = (x, s')" "\<And>t. x \<noteq> Resumed t"
    and "\<not> (construct_fails env \<and> release_fault env)"
  shows "wakes_none s s'"
proof -
  let ?key = "\<lparr>source = ''discord'', channel_id = ch, message_id = mid\<rparr>"
  obtain v s1 where v: "load_resumable_sync (sha256 env) (json_loads env) (reject_fault env) ?key s = (v, s1)" by fastforce
  have s1: "s1 = s \<or> s1 = reject_resumable_sync (reject_fault env) ?key s" "\<And>w. v = Some w \<Longrightarrow> s1 = s"
    using v by (auto simp: load_resumable_sync_def split: if_splits option.splits)
  then have w1: "wakes_none s s1" using wakes_reject wakes_same by blast
  show ?thesis
  proof (cases v)
    case None
    then show ?thesis using assms(2) v w1 by (auto simp: explicit_resume_recognized_def Let_def)
  next
    case (Some w)
    note eq = s1(2) [OF Some]
    show ?thesis
    proof (cases "au \<noteq> opt_text (rs_user_id w)")
      case True
      then show ?thesis using assms(2) v w1 by (auto simp: explicit_resume_recognized_def Let_def Some)
    next
      case mine: False
      show ?thesis
      proof (cases "unresolved_ops w = []")
        case False
        obtain y s2 where y: "mark_ops_manual_sync mf now ?key (rs_generation w) s = (y, s2)" by fastforce
        have "turns s2 = turns s" using y by (auto simp: mark_ops_manual_sync_def Let_def split: if_splits prod.splits)
        then have "wakes_none s s2" by (rule wakes_same)
        moreover have "s' = s2 \<or> s' = reject_resumable_sync (reject_fault env) ?key s2"
          using assms(2) v y mine False by (auto simp: explicit_resume_recognized_def Let_def Some eq split: sum.splits)
        ultimately show ?thesis using wakes_reject wakes_trans by blast
      next
        case True
        obtain y s2 where y: "validate_and_rebuild env ?key w s = (y, s2)" by fastforce
        have "s' = s2" "\<And>t. y \<noteq> Inr (Inr t)"
          using assms(2,3) v y mine True by (auto simp: explicit_resume_recognized_def Let_def Some eq split: sum.splits)
        then show ?thesis using refused_wakes [OF assms(1) y _ assms(4)] by blast
      qed
    qed
  qed
qed

text \<open>
  C6: the resume command starts a suspended turn only through the whole admission. If it resumes a turn,
  the command was recognised; the turn was suspended in that channel and belongs to the author
  of the command, who is also the author of the refetched original message, whose content still
  has the stored digest; its checkpoint is intact and valid; no operation of its generation has
  an unresolved external outcome; nobody asked the channel to stop; the tools are those of the current permission
  policy; the transcript has no open tool call; and the turn's row is now ACTIVE under the fresh lease the
  resumed handle holds. With any other outcome no turn runs that did not run before, unless the lease was
  acquired and both the construction of the turn and the release of the lease failed.
\<close>

theorem resume_needs_full_admission:
  assumes "store_inv (sha256 env) s"
    and "try_explicit_resume env bot_id ch au content lf mf now s = (outcome, s')"
  shows "case outcome of
      Resumed t \<Rightarrow> is_resume_trigger (resume_candidate content bot_id)
        \<and> (\<exists>mid r m p l. let key = \<lparr>source = ''discord'', channel_id = ch, message_id = mid\<rparr> in
             row_of tkey key (turns s) = Some r \<and> status r = SUSPENDED
           \<and> opt_text (user_id r) = au \<and> original env = Fetched m \<and> msg_author m = au
           \<and> sha256 env (msg_content m) = opt_text (content_digest r)
           \<and> list_all (\<lambda>x. op_turn x = key \<and> op_generation x = turn_generation r \<longrightarrow> \<not> unresolved_op (op_view x)) (operations s)
           \<and> (\<exists>txt. payload r = Some txt \<and> payload_digest r = Some (sha256 env txt) \<and> json_loads env txt = Some p)
           \<and> (\<exists>q. validate_payload p = Inr q)
           \<and> open_uses 0 (rt_messages t) [] = [] \<and> \<not> cancel_set env
           \<and> rt_tools t = (if tools_enabled env
               then filter_tools (name_of_tool env) (request_tier env) au (catalog env) (policy env) else None)
           \<and> d_lease (rt_durability t) = Some l \<and> lease_key l = key \<and> generation l = turn_generation r
           \<and> token l = fresh_token env \<and> row_of tkey key (turns s') = Some (r\<lparr>status := ACTIVE,
               lease_token := Some (fresh_token env), lease_expires_at := Some (wall_clock env + lease_ttl s)\<rparr>))
    | _ \<Rightarrow> construct_fails env \<and> release_fault env
        \<or> (\<forall>k r. row_of tkey k (turns s') = Some r \<and> status r = ACTIVE \<longrightarrow> row_of tkey k (turns s) = Some r)"
proof (cases "\<exists>t. outcome = Resumed t")
  case True
  then obtain t where t: "outcome = Resumed t" by blast
  obtain mid where e: "explicit_resume_recognized env ch au mid mf now s = (Resumed t, s')"
    and trig: "is_resume_trigger (resume_candidate content bot_id)"
    using assms(2) unfolding t by (auto simp: try_explicit_resume_def Let_def split: if_splits option.splits)
  show ?thesis unfolding Let_def t resume_outcome.case
    by (rule conjI [OF trig exI [of _ mid]]) (rule recognized_resumed [OF assms(1) e])
next
  case False
  have "wakes_none s s'" if "\<not> (construct_fails env \<and> release_fault env)"
  proof (cases "s' = s")
    case False
    then obtain mid where "explicit_resume_recognized env ch au mid mf now s = (outcome, s')"
      using assms(2) by (auto simp: try_explicit_resume_def Let_def split: if_splits option.splits)
    from recognized_wakes [OF assms(1) this _ that] show ?thesis using \<open>\<nexists>t. outcome = Resumed t\<close> by blast
  qed (simp add: wakes_same)
  then show ?thesis using False unfolding wakes_none_def by (cases outcome) auto
qed

definition ex_resumable :: turn_store where
  "ex_resumable = ex_suspended\<lparr>operations := [ex_op\<lparr>state := APPLIED, result := Some ''ok''\<rparr>],
     turns := map (\<lambda>r. r\<lparr>content_digest := Some (ex_sha ''hi'')\<rparr>) (turns ex_suspended)\<rparr>"

definition ex_env :: "string resume_env" where
  "ex_env = \<lparr>sha256 = ex_sha, json_loads = (\<lambda>_. Some ex_payload), reject_fault = False,
     original = Fetched \<lparr>msg_author = ''u'', msg_content = ''hi''\<rparr>, learned_provenance = (\<lambda>_. True),
     full_prompt = None, tools_enabled = True, catalog = [''run_command'', ''parse_time''], name_of_tool = (\<lambda>t. t),
     policy = new_permissions [] ''user'' Absent, request_tier = None, cancel_set = False, wall_clock = 20,
     acquire_fault = False, fresh_token = ''w'', construct_fails = False, release_fault = False\<rparr>"

lemma ex_resumable_inv: "store_inv ex_sha ex_resumable"
  by (simp add: ex_resumable_def ex_suspended_def store_inv_def ex_defs row_ok_def op_ok_def pk_ok_def TERMINAL_def
      suspend_row_def payload_digest_of_def)

theorem resume_needs_full_admission_witness:
  "\<exists>t s'. try_explicit_resume ex_env (Some ''9'') ''7'' ''u'' ''<@9> Resume!'' False False 20 ex_resumable = (Resumed t, s')
     \<and> rt_tools t = Some [''parse_time'']"
proof -
  have "(case fst (try_explicit_resume ex_env (Some ''9'') ''7'' ''u'' ''<@9> Resume!'' False False 20 ex_resumable) of
      Resumed _ \<Rightarrow> True | _ \<Rightarrow> False)"
    by code_simp
  then obtain t s' where r: "try_explicit_resume ex_env (Some ''9'') ''7'' ''u'' ''<@9> Resume!'' False False 20 ex_resumable
      = (Resumed t, s')"
    by (auto split: resume_outcome.splits prod.splits) (metis prod.collapse)
  have "store_inv (sha256 ex_env) ex_resumable" using ex_resumable_inv by (simp add: ex_env_def)
  from resume_needs_full_admission [OF this r]
  have "rt_tools t = (if tools_enabled ex_env
      then filter_tools (name_of_tool ex_env) (request_tier ex_env) ''u'' (catalog ex_env) (policy ex_env) else None)"
    by (auto simp: Let_def)
  also have "\<dots> = Some [''parse_time'']" by code_simp
  finally show ?thesis using r by blast
qed

end
