(* ===== verification/Patch_Plan.thy ===== *)
theory Patch_Plan
  imports Json_Text "HOL-Library.Sublist"
begin

text \<open>
  \<^verbatim>\<open>src/tools/apply_patch.py\<close>, first part: the path check, the parser of the patch envelope
  and the validator of the transported plan. The parser reads the lines between the frame
  with the number of the next line; each \<^verbatim>\<open>PatchError\<close> raise site is one constructor of
  \<open>patch_error\<close>. Text is characters below code point 256, so \<^verbatim>\<open>UnicodeEncodeError\<close> cannot
  occur.
\<close>

section \<open>Constants and errors\<close>

definition BEGIN_PATCH :: string where "BEGIN_PATCH = ''*** Begin Patch''"
definition END_PATCH :: string where "END_PATCH = ''*** End Patch''"
definition ADD_FILE :: string where "ADD_FILE = ''*** Add File: ''"
definition UPDATE_FILE :: string where "UPDATE_FILE = ''*** Update File: ''"
definition DELETE_FILE :: string where "DELETE_FILE = ''*** Delete File: ''"
definition MOVE_TO :: string where "MOVE_TO = ''*** Move to: ''"
definition MAX_PATCH_BYTES :: nat where "MAX_PATCH_BYTES = 49152"
definition MAX_HUNK_ANCHORS :: nat where "MAX_HUNK_ANCHORS = 8"
definition PLAN_VERSION :: int where "PLAN_VERSION = 3"

datatype patch_error =
    Bad_path
  | Patch_too_large
  | Patch_not_lf
  | Bad_frame
  | Duplicate_path string
  | Bad_add_line string
  | Empty_add string
  | Delete_with_body string
  | Expected_hunk string nat
  | Empty_anchor string nat
  | Control_in_anchor string nat
  | Too_many_anchors string nat
  | Bad_hunk_line string nat
  | Unchanged_hunk string nat
  | Dangling_context string
  | No_hunks string
  | Unexpected_line string
  | No_operations
  | Invalid_plan
  | Unhashable_action
  | Context_mismatch string
  | Context_ambiguous string string

record hunk =
  h_anchors :: "string list"
  h_lines :: "string list"
  h_patch_line :: nat

datatype file_op = Add_file string string | Delete_file string | Update_file string "string option" "hunk list"

section \<open>Paths\<close>

fun split_on :: "char \<Rightarrow> string \<Rightarrow> string list" where
  "split_on c [] = [[]]"
| "split_on c (x # xs) =
     (if x = c then [] # split_on c xs
      else case split_on c xs of [] \<Rightarrow> [[x]] | w # ws \<Rightarrow> (x # w) # ws)"

definition control_char :: "char \<Rightarrow> bool" where
  "control_char ch \<longleftrightarrow> (of_char ch :: nat) < 32"

text \<open>\<^verbatim>\<open>PurePosixPath(raw).parts\<close> and \<^verbatim>\<open>str()\<close> of a path that is neither absolute nor empty.\<close>

definition posix_parts :: "string \<Rightarrow> string list" where
  "posix_parts raw = filter (\<lambda>p. p \<noteq> [] \<and> p \<noteq> ''.'') (split_on CHR ''/'' raw)"

definition posix_str :: "string list \<Rightarrow> string" where
  "posix_str parts = (if parts = [] then ''.'' else join ''/'' parts)"

definition relative_path :: "string \<Rightarrow> patch_error + string" where
  "relative_path raw =
     (if raw = [] then Inl Bad_path
      else if raw \<noteq> strip raw \<or> list_ex control_char raw then Inl Bad_path
      else if CHR 0x5C \<in> set raw \<or> prefix ''/'' raw \<or> suffix ''/'' raw \<or> sublist ''//'' raw then Inl Bad_path
      else
        (let parts = posix_parts raw in
         if parts = [] \<or> raw = ''.'' \<or> list_ex (\<lambda>p. p \<in> {[], ''.'', ''..''}) parts \<or> posix_str parts \<noteq> raw
         then Inl Bad_path else Inr raw))"

section \<open>The parser\<close>

definition operation_header :: "string \<Rightarrow> bool" where
  "operation_header line \<longleftrightarrow> prefix ADD_FILE line \<or> prefix UPDATE_FILE line \<or> prefix DELETE_FILE line"

definition claim :: "string \<Rightarrow> string list \<Rightarrow> patch_error + string list" where
  "claim path claimed = (if path \<in> set claimed then Inl (Duplicate_path path) else Inr (path # claimed))"

fun added_lines :: "string \<Rightarrow> string list \<Rightarrow> patch_error + string list \<times> string list" where
  "added_lines path [] = Inr ([], [])"
| "added_lines path (line # rest) =
     (if operation_header line then Inr ([], line # rest)
      else if \<not> prefix ''+'' line then Inl (Bad_add_line path)
      else case added_lines path rest of
          Inl e \<Rightarrow> Inl e | Inr (added, left) \<Rightarrow> Inr (drop 1 line # added, left))"

text \<open>Consecutive named \<^verbatim>\<open>@@ anchor\<close> lines; \<open>n\<close> is the 1-based number of the next line.\<close>

fun named_anchors :: "string \<Rightarrow> string list \<Rightarrow> nat \<Rightarrow> string list \<Rightarrow> patch_error + string list \<times> nat \<times> string list" where
  "named_anchors path anchors n [] = Inr (anchors, n, [])"
| "named_anchors path anchors n (marker # rest) =
     (if \<not> prefix ''@@ '' marker then Inr (anchors, n, marker # rest)
      else
        (let anchor = drop 3 marker in
         if strip anchor = [] then Inl (Empty_anchor path n)
         else if list_ex control_char anchor then Inl (Control_in_anchor path n)
         else if MAX_HUNK_ANCHORS \<le> length anchors then Inl (Too_many_anchors path n)
         else named_anchors path (anchors @ [anchor]) (n + 1) rest))"

definition edit_line :: "string \<Rightarrow> bool" where
  "edit_line line \<longleftrightarrow> line \<noteq> [] \<and> hd line \<in> {CHR '' '', CHR ''+'', CHR ''-''}"

definition changes :: "string list \<Rightarrow> bool" where
  "changes hunk_lines \<longleftrightarrow> list_ex (\<lambda>line. line \<noteq> [] \<and> hd line \<in> {CHR ''+'', CHR ''-''}) hunk_lines"

fun hunk_body :: "string \<Rightarrow> nat \<Rightarrow> string list \<Rightarrow> patch_error + string list \<times> nat \<times> string list" where
  "hunk_body path n [] = Inr ([], n, [])"
| "hunk_body path n (line # rest) =
     (if operation_header line \<or> prefix ''@@'' line then Inr ([], n, line # rest)
      else if \<not> edit_line line then Inl (Bad_hunk_line path n)
      else case hunk_body path (n + 1) rest of
          Inl e \<Rightarrow> Inl e | Inr (body, n', left) \<Rightarrow> Inr (line # body, n', left))"

text \<open>One marker: the anchor chain it opens, or the bare \<^verbatim>\<open>@@\<close>.\<close>

definition hunk_marker :: "string \<Rightarrow> string list \<Rightarrow> nat \<Rightarrow> string list \<Rightarrow> patch_error + string list \<times> nat \<times> string list" where
  "hunk_marker path pending n rest =
     (case rest of
        [] \<Rightarrow> Inr (pending, n, [])
      | marker # tail \<Rightarrow>
          if marker \<noteq> ''@@'' \<and> \<not> prefix ''@@ '' marker then Inl (Expected_hunk path n)
          else if prefix ''@@ '' marker then named_anchors path pending n rest
          else Inr (pending, n + 1, tail))"

lemma named_anchors_length:
  "named_anchors path anchors n ls = Inr (a, n', left) \<Longrightarrow> length left \<le> length ls"
  by (induction path anchors n ls rule: named_anchors.induct) (auto simp: Let_def split: if_splits)

lemma hunk_marker_length:
  assumes "hunk_marker path pending n ls = Inr (a, n', left)" "ls \<noteq> []"
  shows "length left < length ls"
proof (cases ls)
  case (Cons marker tail)
  then show ?thesis
    using assms named_anchors_length
    by (fastforce simp: hunk_marker_def Let_def split: if_splits)
qed (use assms in simp)

lemma hunk_body_length: "hunk_body path n ls = Inr (b, n', left) \<Longrightarrow> length left \<le> length ls"
  by (induction path n ls arbitrary: b n' left rule: hunk_body.induct)
    (fastforce split: if_splits sum.splits)+

function update_hunks ::
  "string \<Rightarrow> string list \<Rightarrow> hunk list \<Rightarrow> nat \<Rightarrow> string list \<Rightarrow> patch_error + hunk list \<times> nat \<times> string list" where
  "update_hunks path pending hunks n ls =
     (if ls = [] \<or> operation_header (hd ls) then
        (if pending \<noteq> [] then Inl (Dangling_context path)
         else if hunks = [] then Inl (No_hunks path)
         else Inr (hunks, n, ls))
      else case hunk_marker path pending n ls of
          Inl e \<Rightarrow> Inl e
        | Inr (anchors, n1, ls1) \<Rightarrow>
            (case hunk_body path n1 ls1 of
               Inl e \<Rightarrow> Inl e
             | Inr (body, n2, ls2) \<Rightarrow>
                 if body \<noteq> [] \<and> \<not> changes body \<and> ls2 \<noteq> [] \<and> prefix ''@@'' (hd ls2) then
                   (if MAX_HUNK_ANCHORS < length anchors + length body then Inl (Too_many_anchors path n)
                    else update_hunks path (anchors @ map (drop 1) body) hunks n2 ls2)
                 else if body = [] \<or> \<not> changes body then Inl (Unchanged_hunk path n)
                 else update_hunks path []
                        (hunks @ [\<lparr>h_anchors = anchors, h_lines = body, h_patch_line = n\<rparr>]) n2 ls2))"
  by pat_completeness auto
termination
  by (relation "measure (\<lambda>(path, pending, hunks, n, ls). length ls)")
    (auto dest!: hunk_marker_length hunk_body_length)

declare update_hunks.simps [simp del]

lemma added_lines_length: "added_lines path ls = Inr (a, left) \<Longrightarrow> length left \<le> length ls"
  by (induction path ls arbitrary: a left rule: added_lines.induct) (fastforce split: if_splits sum.splits)+

lemma update_hunks_length: "update_hunks path pending hunks n ls = Inr (h, n', left) \<Longrightarrow> length left \<le> length ls"
proof (induction path pending hunks n ls arbitrary: h n' left rule: update_hunks.induct)
  case (1 path pending hunks n ls)
  show ?case
  proof (cases "ls = [] \<or> operation_header (hd ls)")
    case True
    then show ?thesis using 1(3) by (simp add: update_hunks.simps split: if_splits)
  next
    case False
    obtain anchors n1 ls1 body n2 ls2 where m: "hunk_marker path pending n ls = Inr (anchors, n1, ls1)"
      "hunk_body path n1 ls1 = Inr (body, n2, ls2)"
      using 1(3) False by (auto simp: update_hunks.simps [of path pending hunks n ls] split: sum.splits)
    have "length ls2 \<le> length ls"
      using hunk_marker_length [OF m(1)] hunk_body_length [OF m(2)] False by fastforce
    moreover have "length left \<le> length ls2"
      using 1(3) False 1(1) [OF False m(1) refl refl m(2) refl refl] 1(2) [OF False m(1) refl refl m(2) refl refl]
      by (auto simp: update_hunks.simps [of path pending hunks n ls] m split: if_splits)
    ultimately show ?thesis by simp
  qed
qed

text \<open>
  The optional \<^verbatim>\<open>*** Move to:\<close> line of an update.
\<close>

definition move_target :: "string list \<Rightarrow> nat \<Rightarrow> string list \<Rightarrow> patch_error + string option \<times> string list \<times> nat \<times> string list" where
  "move_target claimed n ls =
     (if ls \<noteq> [] \<and> prefix MOVE_TO (hd ls) then
        (case relative_path (drop (length MOVE_TO) (hd ls)) of
           Inl e \<Rightarrow> Inl e
         | Inr target \<Rightarrow>
             (case claim target claimed of
                Inl e \<Rightarrow> Inl e | Inr claimed' \<Rightarrow> Inr (Some target, claimed', n + 1, tl ls)))
      else Inr (None, claimed, n, ls))"

lemma move_target_length: "move_target claimed n ls = Inr (m, c, n', left) \<Longrightarrow> length left \<le> length ls"
  by (auto simp: move_target_def split: if_splits sum.splits)

function parse_operations ::
  "string list \<Rightarrow> nat \<Rightarrow> string list \<Rightarrow> patch_error + file_op list" where
  "parse_operations claimed n [] = Inr []"
| "parse_operations claimed n (header # rest) =
     (if prefix ADD_FILE header then
        (case relative_path (drop (length ADD_FILE) header) of
           Inl e \<Rightarrow> Inl e
         | Inr path \<Rightarrow>
             (case claim path claimed of
                Inl e \<Rightarrow> Inl e
              | Inr claimed' \<Rightarrow>
                  (case added_lines path rest of
                     Inl e \<Rightarrow> Inl e
                   | Inr (added, left) \<Rightarrow>
                       if added = [] then Inl (Empty_add path)
                       else case parse_operations claimed' (n + 1 + length added) left of
                           Inl e \<Rightarrow> Inl e
                         | Inr ops \<Rightarrow> Inr (Add_file path (join [CHR 0x0A] added @ [CHR 0x0A]) # ops))))
      else if prefix DELETE_FILE header then
        (case relative_path (drop (length DELETE_FILE) header) of
           Inl e \<Rightarrow> Inl e
         | Inr path \<Rightarrow>
             (case claim path claimed of
                Inl e \<Rightarrow> Inl e
              | Inr claimed' \<Rightarrow>
                  if rest \<noteq> [] \<and> \<not> operation_header (hd rest) then Inl (Delete_with_body path)
                  else case parse_operations claimed' (n + 1) rest of
                      Inl e \<Rightarrow> Inl e | Inr ops \<Rightarrow> Inr (Delete_file path # ops)))
      else if prefix UPDATE_FILE header then
        (case relative_path (drop (length UPDATE_FILE) header) of
           Inl e \<Rightarrow> Inl e
         | Inr path \<Rightarrow>
             (case claim path claimed of
                Inl e \<Rightarrow> Inl e
              | Inr claimed' \<Rightarrow>
                  (case move_target claimed' (n + 1) rest of
                     Inl e \<Rightarrow> Inl e
                   | Inr (target, claimed'', n1, ls1) \<Rightarrow>
                       (case update_hunks path [] [] n1 ls1 of
                          Inl e \<Rightarrow> Inl e
                        | Inr (hunks, n2, ls2) \<Rightarrow>
                            (case parse_operations claimed'' n2 ls2 of
                               Inl e \<Rightarrow> Inl e | Inr ops \<Rightarrow> Inr (Update_file path target hunks # ops))))))
      else Inl (Unexpected_line header))"
  by pat_completeness auto
termination
  by (relation "measure (\<lambda>(claimed, n, ls). length ls)")
    (auto dest!: added_lines_length move_target_length update_hunks_length)

definition patch_lines :: "string \<Rightarrow> string list" where
  "patch_lines t = (let ls = split_on CHR 0x0A t in if last ls = [] then butlast ls else ls)"

definition parse_text :: "string \<Rightarrow> patch_error + file_op list" where
  "parse_text patch_text =
     (if MAX_PATCH_BYTES < utf8_length patch_text then Inl Patch_too_large
      else if CHR 0x00 \<in> set patch_text \<or> CHR 0x0D \<in> set patch_text then Inl Patch_not_lf
      else
        (let ls = patch_lines patch_text in
         if length ls < 3 \<or> hd ls \<noteq> BEGIN_PATCH \<or> last ls \<noteq> END_PATCH then Inl Bad_frame
         else case parse_operations [] 2 (butlast (tl ls)) of
             Inl e \<Rightarrow> Inl e
           | Inr ops \<Rightarrow> if ops = [] then Inl No_operations else Inr ops))"

section \<open>The plan as JSON\<close>

definition hunk_json :: "hunk \<Rightarrow> json" where
  "hunk_json h =
     JObj [(''anchors'', JList (map JStr (h_anchors h))), (''lines'', JList (map JStr (h_lines h))),
           (''patch_line'', JInt (int (h_patch_line h)))]"

fun op_json :: "file_op \<Rightarrow> json" where
  "op_json (Add_file path content) =
     JObj [(''action'', JStr ''add''), (''path'', JStr path), (''content'', JStr content)]"
| "op_json (Delete_file path) = JObj [(''action'', JStr ''delete''), (''path'', JStr path)]"
| "op_json (Update_file path target hunks) =
     JObj [(''action'', JStr ''update''), (''path'', JStr path),
           (''move_to'', (case target of Some t \<Rightarrow> JStr t | None \<Rightarrow> JNull)),
           (''hunks'', JList (map hunk_json hunks))]"

definition plan_json :: "file_op list \<Rightarrow> json" where
  "plan_json ops = JObj [(''version'', JInt PLAN_VERSION), (''operations'', JList (map op_json ops))]"

definition parse_patch :: "string \<Rightarrow> patch_error + json" where
  "parse_patch patch_text = (case parse_text patch_text of Inl e \<Rightarrow> Inl e | Inr ops \<Rightarrow> Inr (plan_json ops))"

section \<open>The validator of the transported plan\<close>

definition json_path :: "json \<Rightarrow> patch_error + string" where
  "json_path v = (case v of JStr s \<Rightarrow> relative_path s | _ \<Rightarrow> Inl Bad_path)"

definition anchor_ok :: "json \<Rightarrow> bool" where
  "anchor_ok v = (case v of JStr a \<Rightarrow> strip a \<noteq> [] \<and> \<not> list_ex control_char a | _ \<Rightarrow> False)"

definition line_ok :: "json \<Rightarrow> bool" where
  "line_ok v = (case v of JStr l \<Rightarrow> edit_line l | _ \<Rightarrow> False)"

definition validated_hunk :: "json \<Rightarrow> patch_error + hunk" where
  "validated_hunk v =
     (let kvs = entries v; anchors = fget ''anchors'' kvs; hunk_lines = fget ''lines'' kvs;
          patch_line = fget ''patch_line'' kvs
      in if \<not> is_dict v \<or> \<not> same_keys (jkeys kvs) [''anchors'', ''lines'', ''patch_line''] then Inl Invalid_plan
         else if \<not> (list_of anchor_ok anchors \<and> length (items anchors) \<le> MAX_HUNK_ANCHORS) then Inl Invalid_plan
         else if \<not> (list_of line_ok hunk_lines \<and> items hunk_lines \<noteq> [] \<and> changes (map text_in (items hunk_lines)))
         then Inl Invalid_plan
         else if \<not> int_from 1 patch_line then Inl Invalid_plan
         else Inr \<lparr>h_anchors = map text_in (items anchors), h_lines = map text_in (items hunk_lines),
                   h_patch_line = nat (int_val patch_line)\<rparr>)"

fun validated_hunks :: "json list \<Rightarrow> patch_error + hunk list" where
  "validated_hunks [] = Inr []"
| "validated_hunks (v # vs) =
     (case validated_hunk v of
        Inl e \<Rightarrow> Inl e
      | Inr h \<Rightarrow> (case validated_hunks vs of Inl e \<Rightarrow> Inl e | Inr hs \<Rightarrow> Inr (h # hs)))"

definition validated_update :: "string \<Rightarrow> string list \<Rightarrow> dict \<Rightarrow> patch_error + file_op \<times> string list" where
  "validated_update path claimed kvs =
     (if \<not> same_keys (jkeys kvs) [''action'', ''path'', ''move_to'', ''hunks''] then Inl Invalid_plan
      else
        (let target =
           (if fget ''move_to'' kvs = JNull then Inr (None, claimed)
            else case json_path (fget ''move_to'' kvs) of
                Inl e \<Rightarrow> Inl e
              | Inr t \<Rightarrow> (case claim t claimed of Inl e \<Rightarrow> Inl e | Inr c \<Rightarrow> Inr (Some t, c)))
         in case target of
              Inl e \<Rightarrow> Inl e
            | Inr (move_to, claimed') \<Rightarrow>
                if \<not> list_of (\<lambda>_. True) (fget ''hunks'' kvs) \<or> items (fget ''hunks'' kvs) = [] then Inl Invalid_plan
                else case validated_hunks (items (fget ''hunks'' kvs)) of
                    Inl e \<Rightarrow> Inl e
                  | Inr hunks \<Rightarrow> Inr (Update_file path move_to hunks, claimed')))"

definition validated_op :: "string list \<Rightarrow> json \<Rightarrow> patch_error + file_op \<times> string list" where
  "validated_op claimed v =
     (let kvs = entries v; action = fget ''action'' kvs in
      if \<not> is_dict v then Inl Invalid_plan
      else if unhashable action then Inl Unhashable_action
      else if action \<notin> {JStr ''add'', JStr ''update'', JStr ''delete''} then Inl Invalid_plan
      else case json_path (fget ''path'' kvs) of
          Inl e \<Rightarrow> Inl e
        | Inr path \<Rightarrow>
            (case claim path claimed of
               Inl e \<Rightarrow> Inl e
             | Inr claimed' \<Rightarrow>
                 if action = JStr ''add'' then
                   (if \<not> same_keys (jkeys kvs) [''action'', ''path'', ''content''] \<or> \<not> is_str (fget ''content'' kvs)
                    then Inl Invalid_plan
                    else Inr (Add_file path (text_in (fget ''content'' kvs)), claimed'))
                 else if action = JStr ''delete'' then
                   (if \<not> same_keys (jkeys kvs) [''action'', ''path''] then Inl Invalid_plan
                    else Inr (Delete_file path, claimed'))
                 else validated_update path claimed' kvs))"

fun validated_ops :: "string list \<Rightarrow> json list \<Rightarrow> patch_error + file_op list" where
  "validated_ops claimed [] = Inr []"
| "validated_ops claimed (v # vs) =
     (case validated_op claimed v of
        Inl e \<Rightarrow> Inl e
      | Inr (op, claimed') \<Rightarrow>
          (case validated_ops claimed' vs of Inl e \<Rightarrow> Inl e | Inr ops \<Rightarrow> Inr (op # ops)))"

definition validated_plan :: "json \<Rightarrow> patch_error + file_op list" where
  "validated_plan plan =
     (let kvs = entries plan; operations = fget ''operations'' kvs in
      if \<not> is_dict plan \<or> \<not> same_keys (jkeys kvs) [''version'', ''operations'']
         \<or> \<not> eq_int (fget ''version'' kvs) PLAN_VERSION then Inl Invalid_plan
      else if \<not> list_of (\<lambda>_. True) operations \<or> items operations = [] then Inl Invalid_plan
      else validated_ops [] (items operations))"

end
