(* ===== verification/Patch_Plan_Props.thy ===== *)
theory Patch_Plan_Props
  imports Patch_Plan
begin

text \<open>
  The two checks of a patch plan agree, and what they accept is safe: every path stays
  beneath the root and no path is named twice.
\<close>

section \<open>Well-formed plans\<close>

definition anchors_ok :: "hunk \<Rightarrow> bool" where
  "anchors_ok h \<longleftrightarrow> list_all (\<lambda>a. anchor_ok (JStr a)) (h_anchors h)"

definition hunk_wf :: "hunk \<Rightarrow> bool" where
  "hunk_wf h \<longleftrightarrow>
     length (h_anchors h) \<le> MAX_HUNK_ANCHORS \<and> h_lines h \<noteq> [] \<and> list_all edit_line (h_lines h)
     \<and> changes (h_lines h) \<and> 1 \<le> h_patch_line h"

definition target_wf :: "string list \<Rightarrow> string option \<Rightarrow> bool" where
  "target_wf claimed target = (case target of None \<Rightarrow> True | Some t \<Rightarrow> relative_path t = Inr t \<and> t \<notin> set claimed)"

definition with_target :: "string option \<Rightarrow> string list \<Rightarrow> string list" where
  "with_target target claimed = (case target of None \<Rightarrow> claimed | Some t \<Rightarrow> t # claimed)"

fun ops_wf :: "string list \<Rightarrow> file_op list \<Rightarrow> bool" where
  "ops_wf claimed [] \<longleftrightarrow> True"
| "ops_wf claimed (Add_file path content # ops) \<longleftrightarrow>
     relative_path path = Inr path \<and> path \<notin> set claimed \<and> ops_wf (path # claimed) ops"
| "ops_wf claimed (Delete_file path # ops) \<longleftrightarrow>
     relative_path path = Inr path \<and> path \<notin> set claimed \<and> ops_wf (path # claimed) ops"
| "ops_wf claimed (Update_file path target hunks # ops) \<longleftrightarrow>
     relative_path path = Inr path \<and> path \<notin> set claimed \<and> target_wf (path # claimed) target
     \<and> hunks \<noteq> [] \<and> list_all hunk_wf hunks \<and> ops_wf (with_target target (path # claimed)) ops"

fun op_hunks :: "file_op \<Rightarrow> hunk list" where
  "op_hunks (Update_file path target hunks) = hunks"
| "op_hunks _ = []"

fun op_paths :: "file_op \<Rightarrow> string list" where
  "op_paths (Add_file path content) = [path]"
| "op_paths (Delete_file path) = [path]"
| "op_paths (Update_file path target hunks) = path # (case target of None \<Rightarrow> [] | Some t \<Rightarrow> [t])"

section \<open>The parser yields well-formed plans\<close>

lemma relative_path_id: "relative_path raw = Inr p \<Longrightarrow> p = raw"
  by (auto simp: relative_path_def Let_def split: if_splits)

lemma relative_path_idem: "relative_path raw = Inr p \<Longrightarrow> relative_path p = Inr p"
  using relative_path_id by force

lemma claim_Inr: "claim p c = Inr c' \<longleftrightarrow> p \<notin> set c \<and> c' = p # c"
  by (auto simp: claim_def)

lemma named_anchors_bound:
  "named_anchors path as n ls = Inr (as', n', left) \<Longrightarrow> length as \<le> MAX_HUNK_ANCHORS \<Longrightarrow>
     length as' \<le> MAX_HUNK_ANCHORS \<and> n \<le> n'"
  by (induction path as n ls rule: named_anchors.induct) (auto simp: Let_def split: if_splits)

lemma hunk_marker_bound:
  "hunk_marker path as n ls = Inr (as', n', left) \<Longrightarrow> length as \<le> MAX_HUNK_ANCHORS \<Longrightarrow>
     length as' \<le> MAX_HUNK_ANCHORS \<and> n \<le> n'"
  using named_anchors_bound by (auto simp: hunk_marker_def simp del: named_anchors.simps split: list.splits if_splits)

lemma hunk_body_edit:
  "hunk_body path n ls = Inr (body, n', left) \<Longrightarrow> list_all edit_line body \<and> n \<le> n'"
  by (induction path n ls arbitrary: body n' left rule: hunk_body.induct)
    (fastforce split: if_splits sum.splits)+

lemma update_hunks_wf:
  "update_hunks path pending hunks n ls = Inr (hs, n', left) \<Longrightarrow> list_all hunk_wf hunks \<Longrightarrow>
     length pending \<le> MAX_HUNK_ANCHORS \<Longrightarrow> 1 \<le> n \<Longrightarrow> list_all hunk_wf hs \<and> hs \<noteq> [] \<and> n \<le> n'"
proof (induction path pending hunks n ls arbitrary: hs n' left rule: update_hunks.induct)
  case (1 path pending hunks n ls)
  note eq = update_hunks.simps [of path pending hunks n ls]
  show ?case
  proof (cases "ls = [] \<or> operation_header (hd ls)")
    case True
    then show ?thesis using 1 by (simp add: eq split: if_splits)
  next
    case False
    obtain as n1 ls1 body n2 ls2 where m: "hunk_marker path pending n ls = Inr (as, n1, ls1)"
      "hunk_body path n1 ls1 = Inr (body, n2, ls2)"
      using 1(3) False by (auto simp: eq split: sum.splits)
    have b: "length as \<le> MAX_HUNK_ANCHORS" "n \<le> n2" "list_all edit_line body" "1 \<le> n2"
      using hunk_marker_bound [OF m(1) 1(5)] hunk_body_edit [OF m(2)] 1(6) by auto
    note ih1 = 1(1) [OF False m(1) refl refl m(2) refl refl]
    note ih2 = 1(2) [OF False m(1) refl refl m(2) refl refl]
    consider (ctx) "body \<noteq> [] \<and> \<not> changes body \<and> ls2 \<noteq> [] \<and> prefix ''@@'' (hd ls2)"
        "\<not> MAX_HUNK_ANCHORS < length as + length body"
      | (edit) "\<not> (body \<noteq> [] \<and> \<not> changes body \<and> ls2 \<noteq> [] \<and> prefix ''@@'' (hd ls2))" "\<not> (body = [] \<or> \<not> changes body)"
      using 1(3) False by (auto simp: eq m split: if_splits)
    then show ?thesis
    proof cases
      case ctx
      have "update_hunks path (as @ map (drop 1) body) hunks n2 ls2 = Inr (hs, n', left)"
        using 1(3) False ctx by (simp add: eq m)
      then show ?thesis using ih1 [OF ctx, of hs n' left] 1(4) b ctx(2) by simp
    next
      case edit
      have "update_hunks path [] (hunks @ [\<lparr>h_anchors = as, h_lines = body, h_patch_line = n\<rparr>]) n2 ls2 = Inr (hs, n', left)"
        using 1(3) False edit by (simp add: eq m split: if_splits)
      then show ?thesis using ih2 [OF edit, of hs n' left] 1(4,6) b edit by (simp add: hunk_wf_def)
    qed
  qed
qed

lemma parse_operations_wf:
  "parse_operations claimed n ls = Inr ops \<Longrightarrow> 1 \<le> n \<Longrightarrow> ops_wf claimed ops"
proof (induction claimed n ls arbitrary: ops rule: parse_operations.induct)
  case (1 claimed n)
  then show ?case by simp
next
  case (2 claimed n header rest)
  consider (add) path left added ops' where "ops = Add_file path (join [CHR 0x0A] added @ [CHR 0x0A]) # ops'"
      "relative_path path = Inr path" "path \<notin> set claimed" "ops_wf (path # claimed) ops'"
    | (delete) path ops' where "ops = Delete_file path # ops'"
      "relative_path path = Inr path" "path \<notin> set claimed" "ops_wf (path # claimed) ops'"
    | (update) path target hunks ops' n1 ls1 n2 ls2 where "ops = Update_file path target hunks # ops'"
      "relative_path path = Inr path" "path \<notin> set claimed" "target_wf (path # claimed) target"
      "update_hunks path [] [] n1 ls1 = Inr (hunks, n2, ls2)" "1 \<le> n1"
      "ops_wf (with_target target (path # claimed)) ops'"
  proof (cases "prefix ADD_FILE header")
    case True
    then obtain path added left ops' where p: "relative_path (drop (length ADD_FILE) header) = Inr path"
      "path \<notin> set claimed" "added_lines path rest = Inr (added, left)" "added \<noteq> []"
      "parse_operations (path # claimed) (n + 1 + length added) left = Inr ops'"
      "ops = Add_file path (join [CHR 0x0A] added @ [CHR 0x0A]) # ops'"
      using 2(4) by (auto simp: claim_Inr split: sum.splits if_splits)
    moreover have "ops_wf (path # claimed) ops'"
      using 2(1) [OF True p(1) _ p(3) refl p(4,5)] p(2) by (simp add: claim_Inr)
    ultimately show ?thesis using add relative_path_id [OF p(1)] by metis
  next
    case na: False
    show ?thesis
    proof (cases "prefix DELETE_FILE header")
      case True
      then obtain path ops' where p: "relative_path (drop (length DELETE_FILE) header) = Inr path" "path \<notin> set claimed"
        "\<not> (rest \<noteq> [] \<and> \<not> operation_header (hd rest))" "parse_operations (path # claimed) (n + 1) rest = Inr ops'"
        "ops = Delete_file path # ops'"
        using 2(4) na by (auto simp: claim_Inr split: sum.splits if_splits)
      moreover have "ops_wf (path # claimed) ops'"
        using 2(2) [OF na True p(1) _ p(3,4)] p(2) by (simp add: claim_Inr)
      ultimately show ?thesis using delete relative_path_id [OF p(1)] by metis
    next
      case nd: False
      then have upd: "prefix UPDATE_FILE header" using 2(4) na by (auto split: if_splits)
      obtain path target c n1 ls1 hunks n2 ls2 ops' where
        p: "relative_path (drop (length UPDATE_FILE) header) = Inr path" "path \<notin> set claimed"
        "move_target (path # claimed) (n + 1) rest = Inr (target, c, n1, ls1)"
        "update_hunks path [] [] n1 ls1 = Inr (hunks, n2, ls2)" "parse_operations c n2 ls2 = Inr ops'"
        "ops = Update_file path target hunks # ops'"
        using 2(4) na nd upd by (auto simp: claim_Inr split: sum.splits if_splits prod.splits)
      have t: "target_wf (path # claimed) target" "c = with_target target (path # claimed)" "n + 1 \<le> n1"
        using p(3)
        by (auto simp: move_target_def target_wf_def with_target_def claim_Inr
            split: if_splits sum.splits dest: relative_path_idem)
      have "1 \<le> n2" using update_hunks_wf [OF p(4)] t(3) by simp
      then have "ops_wf c ops'"
        using 2(3) [OF na nd upd p(1) _ p(3) refl refl refl p(4) refl refl p(5)] p(2) by (simp add: claim_Inr)
      then show ?thesis using update [OF p(6)] p(1,2,4) t relative_path_id [OF p(1)] by simp
    qed
  qed
  then show ?case
  proof cases
    case update
    then show ?thesis using update_hunks_wf [OF update(5)] by simp
  qed auto
qed

lemma parse_text_wf: "parse_text t = Inr ops \<Longrightarrow> ops_wf [] ops \<and> ops \<noteq> []"
  using parse_operations_wf [of "[]" 2]
  by (auto simp: parse_text_def Let_def split: if_splits sum.splits)

section \<open>The validator on a well-formed plan\<close>

lemma validated_hunk_json:
  assumes "hunk_wf h"
  shows "validated_hunk (hunk_json h) = (if anchors_ok h then Inr h else Inl Invalid_plan)"
proof -
  have l: "list_all line_ok (map JStr ls) = list_all edit_line ls" "list_all anchor_ok (map JStr ls) = list_all (\<lambda>a. anchor_ok (JStr a)) ls"
    "map (text_in \<circ> JStr) ls = ls" for ls
    by (induction ls) (simp_all add: line_ok_def text_in_def)
  show ?thesis using assms
    by (auto simp: validated_hunk_def hunk_json_def fget_def jget_Cons is_dict_def same_keys_def jkeys_def list_of_def
        items_def hunk_wf_def anchors_ok_def int_from_def exact_int_def int_val_def Let_def l)
qed

lemma validated_hunks_json:
  "list_all hunk_wf hs \<Longrightarrow>
   validated_hunks (map hunk_json hs) = (if list_all anchors_ok hs then Inr hs else Inl Invalid_plan)"
  by (induction hs) (auto simp: validated_hunk_json)

lemma validated_ops_json:
  "ops_wf claimed ops \<Longrightarrow>
   validated_ops claimed (map op_json ops)
     = (if list_all anchors_ok (concat (map op_hunks ops)) then Inr ops else Inl Invalid_plan)"
proof (induction claimed ops rule: ops_wf.induct)
  case (4 claimed path target hunks ops)
  have lt: "list_of (\<lambda>_. True) (JList vs)" for vs by (simp add: list_of_def list_all_iff)
  have "validated_update path (path # claimed) (entries (op_json (Update_file path target hunks)))
      = (if list_all anchors_ok hunks then Inr (Update_file path target hunks, with_target target (path # claimed))
         else Inl Invalid_plan)"
    using 4(2) validated_hunks_json [of hunks]
    by (cases target)
      (simp_all add: validated_update_def fget_def jget_Cons same_keys_def jkeys_def items_def lt json_path_def
        target_wf_def with_target_def claim_def Let_def insert_commute)
  then show ?case using 4
    by (auto simp: validated_op_def fget_def jget_Cons is_dict_def unhashable_def json_path_def claim_def Let_def)
qed (auto simp: validated_op_def fget_def jget_Cons is_dict_def is_str_def same_keys_def jkeys_def unhashable_def
    json_path_def claim_def text_in_def Let_def)

text \<open>
  The host's independent validation of the transported plan agrees with the model-side
  parser, with one exact exception: a plan the parser builds is accepted with the very same
  operations when every anchor is a nonblank line without control characters, and refused
  otherwise. (Named anchors always are; a context-only block folded into a chain may not be.)
\<close>

theorem parsed_plan_validates:
  assumes "parse_text t = Inr ops"
  shows "parse_patch t = Inr (plan_json ops)
    \<and> validated_plan (plan_json ops)
        = (if list_all anchors_ok (concat (map op_hunks ops)) then Inr ops else Inl Invalid_plan)"
proof -
  have wf: "ops_wf [] ops" "ops \<noteq> []" using parse_text_wf [OF assms] by auto
  have "list_of (\<lambda>_. True) (JList vs)" for vs by (simp add: list_of_def list_all_iff)
  then have "validated_plan (plan_json ops) = validated_ops [] (map op_json ops)"
    using wf(2) by (simp add: validated_plan_def plan_json_def fget_def jget_Cons is_dict_def same_keys_def jkeys_def
        eq_int_def items_def Let_def)
  then show ?thesis using assms validated_ops_json [OF wf(1)] by (simp add: parse_patch_def)
qed

definition unlines :: "string list \<Rightarrow> string" where
  "unlines ls = concat (map (\<lambda>l. l @ [CHR 0x0A]) ls)"

definition ex_patch :: string where
  "ex_patch = unlines [BEGIN_PATCH, ADD_FILE @ ''a/b.txt'', ''+hi'', UPDATE_FILE @ ''c.py'', MOVE_TO @ ''d.py'',
     ''@@ def f'', ''-x'', ''+y'', DELETE_FILE @ ''e'', END_PATCH]"

definition ex_ops :: "file_op list" where
  "ex_ops = [Add_file ''a/b.txt'' (''hi'' @ [CHR 0x0A]),
     Update_file ''c.py'' (Some ''d.py'') [\<lparr>h_anchors = [''def f''], h_lines = [''-x'', ''+y''], h_patch_line = 6\<rparr>],
     Delete_file ''e'']"

lemma ex_patch_parses: "parse_text ex_patch = Inr ex_ops"
  by code_simp

theorem parsed_plan_validates_witness:
  "parse_text ex_patch = Inr ex_ops \<and> validated_plan (plan_json ex_ops) = Inr ex_ops"
proof -
  have "list_all anchors_ok (concat (map op_hunks ex_ops))" by code_simp
  then show ?thesis using parsed_plan_validates [OF ex_patch_parses] ex_patch_parses by simp
qed

text \<open>A stacked context block with a tab: accepted by the parser, refused by the validator.\<close>

definition tab_patch :: string where
  "tab_patch = unlines [BEGIN_PATCH, UPDATE_FILE @ ''c.go'', ''@@'', '' func f() {'', [CHR '' '', CHR 0x09] @ ''return'',
     ''@@'', ''-}'', ''+}}'', END_PATCH]"

lemma tab_anchor_divergence:
  "\<exists>ops. parse_text tab_patch = Inr ops \<and> validated_plan (plan_json ops) = Inl Invalid_plan"
proof -
  have "(case parse_text tab_patch of Inr ops \<Rightarrow> validated_plan (plan_json ops) = Inl Invalid_plan | Inl _ \<Rightarrow> False)"
    by code_simp
  then show ?thesis by (auto split: sum.splits)
qed

section \<open>Accepted paths stay beneath the root\<close>

text \<open>Lexical resolution of path components, from a directory.\<close>

fun walk :: "string list \<Rightarrow> string list \<Rightarrow> string list" where
  "walk dir [] = dir"
| "walk dir (c # cs) =
     (if c = [] \<or> c = ''.'' then walk dir cs
      else if c = ''..'' then walk (butlast dir) cs
      else walk (dir @ [c]) cs)"

lemma walk_plain: "list_all (\<lambda>c. c \<noteq> [] \<and> c \<noteq> ''.'' \<and> c \<noteq> ''..'') cs \<Longrightarrow> walk dir cs = dir @ cs"
  by (induction cs arbitrary: dir) auto

lemma split_on_no_sep: "w \<in> set (split_on c xs) \<Longrightarrow> c \<notin> set w"
  by (induction xs arbitrary: w) (auto split: if_splits list.splits)

lemma split_join: "list_all (\<lambda>w. c \<notin> set w) ws \<Longrightarrow> ws \<noteq> [] \<Longrightarrow> split_on c (join [c] ws) = ws"
proof (induction "[c]" ws rule: join.induct)
  case (2 w)
  then show ?case by (induction w) (auto split: list.splits)
next
  case (3 w v vs)
  have "split_on c (w @ c # r) = w # split_on c r" if "c \<notin> set w" for r
    using that by (induction w) auto
  then show ?case using 3 by simp
qed simp

definition plain_path :: "string \<Rightarrow> bool" where
  "plain_path p \<longleftrightarrow>
     p \<noteq> [] \<and> \<not> prefix ''/'' p \<and> CHR 0x5C \<notin> set p \<and> \<not> list_ex control_char p
     \<and> list_all (\<lambda>c. c \<noteq> [] \<and> c \<noteq> ''.'' \<and> c \<noteq> ''..'') (split_on CHR ''/'' p)"

lemma relative_path_plain:
  assumes "relative_path p = Inr q"
  shows "plain_path p"
proof -
  let ?ps = "posix_parts p"
  have r: "p \<noteq> []" "\<not> prefix ''/'' p" "CHR 0x5C \<notin> set p" "\<not> list_ex control_char p"
    "?ps \<noteq> []" "posix_str ?ps = p" "\<not> list_ex (\<lambda>c. c \<in> {[], ''.'', ''..''}) ?ps"
    using assms by (auto simp: relative_path_def Let_def split: if_splits)
  have "list_all (\<lambda>w. CHR ''/'' \<notin> set w) ?ps"
    using split_on_no_sep [of _ "CHR ''/''" p] by (auto simp: posix_parts_def list_all_iff)
  then have "split_on CHR ''/'' (join ''/'' ?ps) = ?ps" using r(5) by (rule split_join)
  moreover have "join ''/'' ?ps = p" using r(5,6) by (simp add: posix_str_def)
  ultimately have "split_on CHR ''/'' p = ?ps" by simp
  then show ?thesis using r by (auto simp: plain_path_def list_all_iff list_ex_iff)
qed

lemma validated_op_paths:
  assumes "validated_op claimed v = Inr (op, claimed')"
  shows "set claimed' = set claimed \<union> set (op_paths op) \<and> distinct (op_paths op)
    \<and> set (op_paths op) \<inter> set claimed = {} \<and> list_all plain_path (op_paths op)"
proof -
  have jp: "json_path x = Inr p \<Longrightarrow> plain_path p" for x p
    using relative_path_plain relative_path_id by (fastforce simp: json_path_def split: json.splits)
  obtain path where p: "json_path (fget ''path'' (entries v)) = Inr path" "path \<notin> set claimed"
    using assms by (auto simp: validated_op_def claim_Inr Let_def split: if_splits sum.splits)
  have "(\<exists>c. op = Add_file path c \<and> claimed' = path # claimed) \<or> (op = Delete_file path \<and> claimed' = path # claimed)
      \<or> validated_update path (path # claimed) (entries v) = Inr (op, claimed')"
    using assms p by (simp add: validated_op_def claim_def Let_def split: if_split_asm) blast
  then consider c where "op = Add_file path c" "claimed' = path # claimed"
    | "op = Delete_file path" "claimed' = path # claimed"
    | "validated_update path (path # claimed) (entries v) = Inr (op, claimed')" by blast
  then show ?thesis
  proof cases
    case 3
    then show ?thesis using p jp
      by (auto simp: validated_update_def claim_Inr Let_def split: if_splits sum.splits)
  qed (use p jp in auto)
qed

lemma validated_ops_paths:
  "validated_ops claimed vs = Inr ops \<Longrightarrow>
     distinct (concat (map op_paths ops)) \<and> set (concat (map op_paths ops)) \<inter> set claimed = {}
     \<and> list_all plain_path (concat (map op_paths ops))"
proof (induction vs arbitrary: claimed ops)
  case (Cons v vs)
  then obtain op claimed' ops' where o: "validated_op claimed v = Inr (op, claimed')"
    "validated_ops claimed' vs = Inr ops'" "ops = op # ops'"
    by (auto split: sum.splits)
  show ?case using validated_op_paths [OF o(1)] Cons.IH [OF o(2)] o(3) by auto
qed simp

text \<open>
  C27: the host never touches a path outside the root, and never touches one path twice.
  Whatever JSON arrives as the plan, if \<^verbatim>\<open>_validated_plan\<close> accepts it then all paths of the
  operations (move targets included) are distinct, free of control characters and
  backslashes, and resolving one lexically from any root directory only descends: the result
  is the root followed by the path's own, nonempty list of components.
\<close>

theorem validated_paths_beneath_root:
  assumes "validated_plan plan = Inr ops"
  shows "ops \<noteq> [] \<and> distinct (concat (map op_paths ops))
    \<and> list_all (\<lambda>p. split_on CHR ''/'' p \<noteq> [] \<and> \<not> prefix ''/'' p \<and> CHR 0x5C \<notin> set p \<and> \<not> list_ex control_char p
         \<and> walk base (split_on CHR ''/'' p) = base @ split_on CHR ''/'' p) (concat (map op_paths ops))"
proof -
  have v: "validated_ops [] (items (fget ''operations'' (entries plan))) = Inr ops"
    "items (fget ''operations'' (entries plan)) \<noteq> []"
    using assms by (auto simp: validated_plan_def Let_def split: if_splits)
  have "split_on c p \<noteq> []" for c p by (cases p) (auto split: list.split)
  moreover have "ops \<noteq> []" using v by (cases "items (fget ''operations'' (entries plan))") (auto split: sum.splits)
  ultimately show ?thesis using validated_ops_paths [OF v(1)]
    by (auto simp: list_all_iff plain_path_def intro!: walk_plain)
qed

theorem validated_paths_beneath_root_witness:
  "validated_plan (plan_json ex_ops) = Inr ex_ops
   \<and> list_all (\<lambda>p. walk [''srv'', ''repo''] (split_on CHR ''/'' p) = [''srv'', ''repo''] @ split_on CHR ''/'' p)
       (concat (map op_paths ex_ops))"
proof -
  have v: "validated_plan (plan_json ex_ops) = Inr ex_ops" by code_simp
  show ?thesis using validated_paths_beneath_root [OF v, of "[''srv'', ''repo'']"] v
    by (simp add: list_all_iff)
qed

end
