(* ===== verification/Patch_Match.thy ===== *)
theory Patch_Match
  imports Patch_Plan
begin

text \<open>
  \<^verbatim>\<open>src/tools/apply_patch.py\<close>, the search: where a hunk applies. \<^verbatim>\<open>_find_unique\<close> locates a
  block of lines, \<^verbatim>\<open>_find_unique_chain_body\<close> an ordered chain of anchors and a block, counting
  complete matches with counters saturated at two. The counters are compared with the set of
  all complete matches.
\<close>

section \<open>Blocks\<close>

definition matching_positions :: "string list \<Rightarrow> string list \<Rightarrow> nat \<Rightarrow> nat list" where
  "matching_positions sequence pattern start =
     filter (\<lambda>i. take (length pattern) (drop i sequence) = pattern)
       [start..<length sequence + 1 - length pattern]"

definition find_unique ::
  "string list \<Rightarrow> string list \<Rightarrow> nat \<Rightarrow> string \<Rightarrow> (nat list \<Rightarrow> string) option \<Rightarrow> patch_error + nat" where
  "find_unique sequence pattern start label describe =
     (if pattern = [] then Inr start
      else case matching_positions sequence pattern start of
          [] \<Rightarrow> Inl (Context_mismatch label)
        | [i] \<Rightarrow> Inr i
        | matches \<Rightarrow> Inl (Context_ambiguous label
            (case describe of Some d \<Rightarrow> d matches | None \<Rightarrow> ''add more unchanged lines or an @@ anchor'')))"

section \<open>Anchor chains\<close>

text \<open>
  The inner \<^verbatim>\<open>while\<close>: consume the previous occurrences that lie before the current one,
  adding their counts, saturated at two.
\<close>

fun absorb :: "(nat \<Rightarrow> bool) \<Rightarrow> (nat \<times> nat) list \<Rightarrow> nat \<Rightarrow> (nat \<times> nat) list \<times> nat" where
  "absorb before [] acc = ([], acc)"
| "absorb before ((q, c) # rest) acc =
     (if before q then absorb before rest (min 2 (acc + c)) else ((q, c) # rest, acc))"

fun prefix_counts :: "(nat \<Rightarrow> nat \<Rightarrow> bool) \<Rightarrow> (nat \<times> nat) list \<Rightarrow> nat \<Rightarrow> nat list \<Rightarrow> nat list" where
  "prefix_counts before previous acc [] = []"
| "prefix_counts before previous acc (current # rest) =
     (let (previous', acc') = absorb (\<lambda>q. before q current) previous acc
      in acc' # prefix_counts before previous' acc' rest)"

fun chain_counts :: "nat list \<Rightarrow> nat list \<Rightarrow> nat list list \<Rightarrow> nat list \<times> nat list" where
  "chain_counts positions counts [] = (positions, counts)"
| "chain_counts positions counts (layer # layers) =
     chain_counts layer (prefix_counts (<) (zip positions counts) 0 layer) layers"

text \<open>
  The final scan, over the body matches with their prefix counts, or over the final anchor
  positions with theirs. Without \<^verbatim>\<open>describe\<close> it stops after the second match.
\<close>

fun tally :: "bool \<Rightarrow> (nat \<times> nat) list \<Rightarrow> nat \<Rightarrow> nat option \<Rightarrow> nat list \<Rightarrow> nat \<times> nat option \<times> nat list" where
  "tally described [] complete_count unique_at locations = (complete_count, unique_at, locations)"
| "tally described ((position, count) # rest) complete_count unique_at locations =
     (let (complete_count', unique', locations') =
        (if count \<noteq> 0 then (min 2 (complete_count + count), Some position, locations @ [position])
         else (complete_count, unique_at, locations))
      in if 1 < complete_count' \<and> \<not> described then (complete_count', unique', locations')
         else tally described rest complete_count' unique' locations')"

definition find_unique_chain_body ::
  "string list \<Rightarrow> string list \<Rightarrow> string list \<Rightarrow> nat \<Rightarrow> string \<Rightarrow> (nat list \<Rightarrow> string) option \<Rightarrow> patch_error + nat" where
  "find_unique_chain_body sequence anchors body start label describe =
     (let positions = map (\<lambda>anchor. matching_positions sequence [anchor] start) anchors in
      if list_ex (\<lambda>found. found = []) positions then Inl (Context_mismatch label)
      else
        (let (final_positions, counts) =
               chain_counts (hd positions) (replicate (length (hd positions)) 1) (tl positions);
             scan = (if body \<noteq> []
               then (let bodies = matching_positions sequence body start
                     in zip bodies (prefix_counts (\<le>) (zip final_positions counts) 0 bodies))
               else zip final_positions counts);
             (complete_count, unique_at, locations) = tally (describe \<noteq> None) scan 0 None []
         in if complete_count = 0 then Inl (Context_mismatch label)
            else if complete_count \<noteq> 1 then
              Inl (Context_ambiguous label
                (''the anchor chain and hunk body have multiple complete matches''
                 @ (case describe of Some d \<Rightarrow> d locations | None \<Rightarrow> [])))
            else case unique_at of Some i \<Rightarrow> Inr i | None \<Rightarrow> Inl (Context_mismatch label)))"

section \<open>Block search is exact\<close>

lemma matching_positions_iff:
  "i \<in> set (matching_positions sequence pattern start) \<longleftrightarrow>
     start \<le> i \<and> i + length pattern \<le> length sequence \<and> take (length pattern) (drop i sequence) = pattern"
  by (auto simp: matching_positions_def)

lemma matching_positions_sorted: "sorted_wrt (<) (matching_positions sequence pattern start)"
  unfolding matching_positions_def by (intro sorted_wrt_filter) simp

lemma matching_anchor_iff:
  "i \<in> set (matching_positions sequence [a] start) \<longleftrightarrow> start \<le> i \<and> i < length sequence \<and> sequence ! i = a"
proof -
  have "take 1 (drop i sequence) = [sequence ! i]" if "i < length sequence"
    using that by (simp add: take_Suc_conv_app_nth hd_drop_conv_nth take_Suc Cons_nth_drop_Suc [symmetric])
  then show ?thesis by (auto simp: matching_positions_iff)
qed

lemma distinct_singleton: "distinct xs \<Longrightarrow> set xs = {x} \<Longrightarrow> xs = [x]"
  by (cases xs; cases "tl xs") auto

lemma sorted_strict_distinct: "sorted_wrt (<) (xs :: nat list) \<Longrightarrow> distinct xs"
  by (induction xs) auto

lemma find_unique_iff:
  assumes "pattern \<noteq> []"
  shows "find_unique sequence pattern start label describe = Inr i \<longleftrightarrow>
     {j. start \<le> j \<and> j + length pattern \<le> length sequence \<and> take (length pattern) (drop j sequence) = pattern} = {i}"
proof -
  let ?ms = "matching_positions sequence pattern start"
  have "find_unique sequence pattern start label describe = Inr i \<longleftrightarrow> ?ms = [i]"
    using assms by (auto simp: find_unique_def split: list.splits)
  also have "\<dots> \<longleftrightarrow> set ?ms = {i}"
    using distinct_singleton [OF sorted_strict_distinct [OF matching_positions_sorted], of sequence pattern start i] by auto
  also have "set ?ms = {j. start \<le> j \<and> j + length pattern \<le> length sequence \<and> take (length pattern) (drop j sequence) = pattern}"
    using matching_positions_iff by blast
  finally show ?thesis .
qed

text \<open>
  C28: \<^verbatim>\<open>_find_unique\<close> returns a position exactly when it is the only one. For a nonempty block
  it returns \<open>i\<close> if and only if the block occurs in the file at \<open>i\<close>, at or after the start,
  and nowhere else from there to the end.
\<close>

theorem find_unique_exact:
  assumes "pattern \<noteq> []"
  shows "find_unique sequence pattern start label describe = Inr i \<longleftrightarrow>
     {j. start \<le> j \<and> j + length pattern \<le> length sequence \<and> take (length pattern) (drop j sequence) = pattern} = {i}"
  using assms by (rule find_unique_iff)

theorem find_unique_exact_witness:
  "find_unique [''a'', ''b'', ''a'', ''c''] [''a'', ''c''] 0 ''l'' None = Inr 2
   \<and> {j. 0 \<le> j \<and> j + 2 \<le> (4::nat) \<and> take 2 (drop j [''a'', ''b'', ''a'', ''c'']) = [''a'', ''c'']} = {2}"
proof -
  have "find_unique [''a'', ''b'', ''a'', ''c''] [''a'', ''c''] 0 ''l'' None = Inr 2" by code_simp
  then show ?thesis
    using find_unique_exact [of "[''a'', ''c'']" "[''a'', ''b'', ''a'', ''c'']" 0 "''l''" None 2] by (simp add: numeral_2_eq_2)
qed

section \<open>Saturated counting\<close>

lemma min_add_sat: "min (2::nat) (min 2 a + b) = min 2 (a + b)" "min (2::nat) (a + min 2 b) = min 2 (a + b)"
  by (auto simp: min_def)

lemma absorb_eq:
  assumes "sorted_wrt (\<lambda>x y. fst x < fst y) zs" "\<And>x y. x \<le> y \<Longrightarrow> before y \<Longrightarrow> before x" "acc \<le> 2"
  shows "absorb before zs acc
    = (filter (\<lambda>z. \<not> before (fst z)) zs, min 2 (acc + sum_list (map snd (filter (\<lambda>z. before (fst z)) zs))))"
  using assms(1,3)
proof (induction zs arbitrary: acc)
  case (Cons z zs)
  show ?case
  proof (cases "before (fst z)")
    case True
    then show ?thesis using Cons.IH [of "min 2 (acc + snd z)"] Cons.prems
      by (cases z) (auto simp: min_add_sat add.assoc)
  next
    case False
    then have "\<not> before (fst y)" if "y \<in> set zs" for y
      using assms(2) [of "fst z" "fst y"] Cons.prems that by auto
    then have "filter (\<lambda>z. before (fst z)) zs = []" "filter (\<lambda>z. \<not> before (fst z)) zs = zs"
      by (auto simp: filter_empty_conv)
    then show ?thesis using False Cons.prems by (cases z) simp
  qed
qed simp

text \<open>\<open>before\<close> is \<open><\<close> or \<open>\<le>\<close>: downward closed on the left, upward closed on the right.\<close>

definition before_ok :: "(nat \<Rightarrow> nat \<Rightarrow> bool) \<Rightarrow> bool" where
  "before_ok b \<longleftrightarrow> (\<forall>x y z. x \<le> y \<and> b y z \<longrightarrow> b x z) \<and> (\<forall>x y z. b x y \<and> y \<le> z \<longrightarrow> b x z)"

lemma before_ok_order [simp]: "before_ok (<)" "before_ok (\<le>)"
  by (auto simp: before_ok_def)

definition upto :: "(nat \<Rightarrow> nat \<Rightarrow> bool) \<Rightarrow> (nat \<times> nat) list \<Rightarrow> nat \<Rightarrow> nat" where
  "upto b zs x = sum_list (map snd (filter (\<lambda>z. b (fst z) x) zs))"

lemma prefix_counts_eq:
  assumes "before_ok b" "sorted_wrt (\<lambda>x y. fst x < fst y) zs" "sorted_wrt (<) xs" "acc \<le> 2"
  shows "prefix_counts b zs acc xs = map (\<lambda>x. min 2 (acc + upto b zs x)) xs"
  using assms(2-4)
proof (induction xs arbitrary: zs acc)
  case (Cons x xs)
  let ?rest = "filter (\<lambda>z. \<not> b (fst z) x) zs"
  let ?acc = "min 2 (acc + upto b zs x)"
  have ab: "absorb (\<lambda>q. b q x) zs acc = (?rest, ?acc)"
  proof -
    have "u \<le> v \<Longrightarrow> b v x \<Longrightarrow> b u x" for u v using assms(1) unfolding before_ok_def by blast
    then show ?thesis unfolding upto_def by (rule absorb_eq [OF Cons.prems(1) _ Cons.prems(3)])
  qed
  have ih: "prefix_counts b ?rest ?acc xs = map (\<lambda>y. min 2 (?acc + upto b ?rest y)) xs"
    using Cons.prems by (intro Cons.IH) (auto intro: sorted_wrt_filter)
  have u: "upto b zs y = upto b zs x + upto b ?rest y" if "x \<le> y" for y
  proof -
    have m: "b q x \<Longrightarrow> b q y" for q using assms(1) that unfolding before_ok_def by blast
    show ?thesis unfolding upto_def by (induction zs) (auto dest: m)
  qed
  have "min 2 (?acc + upto b ?rest y) = min 2 (acc + upto b zs y)" if "y \<in> set xs" for y
  proof -
    have "x \<le> y" using Cons.prems(2) that by auto
    then show ?thesis by (simp only: u [of y] min_add_sat add.assoc)
  qed
  then show ?case using ab ih by simp
qed simp

section \<open>Counts of complete chains\<close>

text \<open>A chain through the layers: one position of each, strictly increasing.\<close>

definition layer_chains :: "nat list list \<Rightarrow> nat list set" where
  "layer_chains layers = {ps. list_all2 (\<lambda>p l. p \<in> set l) ps layers \<and> sorted_wrt (<) ps}"

definition ending :: "nat list list \<Rightarrow> nat \<Rightarrow> nat list set" where
  "ending layers p = {ps \<in> layer_chains layers. last ps = p}"

lemma chains_snoc:
  assumes "layers \<noteq> []" "p \<in> set l"
  shows "ending (layers @ [l]) p = (\<Union>q\<in>{q \<in> set (last layers). q < p}. (\<lambda>qs. qs @ [p]) ` ending layers q)"
proof (rule set_eqI, rule iffI)
  fix ps
  assume "ps \<in> ending (layers @ [l]) p"
  then have ps: "list_all2 (\<lambda>p l. p \<in> set l) ps (layers @ [l])" "sorted_wrt (<) ps" "last ps = p"
    by (auto simp: ending_def layer_chains_def)
  then obtain qs r where qs: "ps = qs @ [r]" "list_all2 (\<lambda>p l. p \<in> set l) qs layers"
    unfolding list_all2_append2 by (auto simp: length_Suc_conv)
  then have ne: "qs \<noteq> []" using assms(1) by auto
  have "last qs \<in> set (last layers)"
    using list_all2_nthD [OF qs(2), of "length qs - 1"] list_all2_lengthD [OF qs(2)] ne assms(1)
    by (simp add: last_conv_nth)
  moreover have "last qs < p" using ps qs(1) ne by (auto simp: sorted_wrt_append)
  moreover have "qs \<in> ending layers (last qs)" using ps(2) qs by (simp add: ending_def layer_chains_def sorted_wrt_append)
  ultimately show "ps \<in> (\<Union>q\<in>{q \<in> set (last layers). q < p}. (\<lambda>qs. qs @ [p]) ` ending layers q)"
    using ps(3) qs(1) by auto
next
  fix ps
  assume "ps \<in> (\<Union>q\<in>{q \<in> set (last layers). q < p}. (\<lambda>qs. qs @ [p]) ` ending layers q)"
  then obtain q qs where q: "q < p" "ps = qs @ [p]" "list_all2 (\<lambda>p l. p \<in> set l) qs layers" "sorted_wrt (<) qs" "last qs = q"
    by (auto simp: ending_def layer_chains_def)
  have "x \<le> q" if "x \<in> set qs" for x
  proof -
    have "qs = butlast qs @ [q]" using that q(5) by (metis append_butlast_last_id empty_iff list.set(1))
    then show ?thesis using q(4) that by (metis Un_iff empty_iff empty_set insert_iff less_imp_le_nat list.set(2) order_refl set_append sorted_wrt_append)
  qed
  then show "ps \<in> ending (layers @ [l]) p"
    using q assms(2) by (force simp: ending_def layer_chains_def list_all2_appendI sorted_wrt_append)
qed

lemma finite_chains: "finite (layer_chains layers)"
proof -
  have "layer_chains layers \<subseteq> {ps. set ps \<subseteq> \<Union> (set ` set layers) \<and> length ps = length layers}"
    by (auto simp: layer_chains_def list_all2_conv_all_nth in_set_conv_nth) (metis nth_mem)
  then show ?thesis by (rule finite_subset) (intro finite_lists_length_eq, simp)
qed

lemma finite_ending: "finite (ending layers p)"
  using finite_chains by (simp add: ending_def)

lemma card_ending_snoc:
  assumes "layers \<noteq> []" "p \<in> set l"
  shows "card (ending (layers @ [l]) p) = (\<Sum>q\<in>{q \<in> set (last layers). q < p}. card (ending layers q))"
proof -
  have "card (ending (layers @ [l]) p) = (\<Sum>q\<in>{q \<in> set (last layers). q < p}. card ((\<lambda>qs. qs @ [p]) ` ending layers q))"
    unfolding chains_snoc [OF assms]
    by (rule card_UN_disjoint) (auto simp: finite_ending, auto simp: ending_def)
  also have "\<dots> = (\<Sum>q\<in>{q \<in> set (last layers). q < p}. card (ending layers q))"
    by (intro sum.cong refl card_image) (simp add: inj_on_def)
  finally show ?thesis .
qed

lemma upto_zip_map:
  assumes "distinct xs"
  shows "upto b (zip xs (map f xs)) y = (\<Sum>q\<in>{q \<in> set xs. b q y}. f q)"
  using assms
proof (induction xs)
  case (Cons x xs)
  have "{q \<in> set (x # xs). b q y} = (if b x y then insert x {q \<in> set xs. b q y} else {q \<in> set xs. b q y})" by auto
  then show ?case using Cons by (simp add: upto_def)
qed (simp add: upto_def)

lemma min_sum_sat: "finite A \<Longrightarrow> min (2::nat) (\<Sum>x\<in>A. min 2 (f x)) = min 2 (\<Sum>x\<in>A. f x)"
proof (induction A rule: finite_induct)
  case (insert x A)
  have "min 2 (min 2 (f x) + (\<Sum>x\<in>A. min 2 (f x))) = min 2 (f x + min 2 (\<Sum>x\<in>A. min 2 (f x)))"
    by (simp only: min_add_sat)
  also have "\<dots> = min 2 (f x + (\<Sum>x\<in>A. f x))" by (simp only: insert min_add_sat)
  finally show ?case using insert by simp
qed simp

lemma zip_sorted:
  assumes "sorted_wrt (<) (xs :: nat list)"
  shows "sorted_wrt (\<lambda>x y. fst x < fst y) (zip xs (map f xs))"
  using assms by (induction xs) (auto dest: set_zip_leftD)

lemma upto_sat:
  assumes "distinct xs"
  shows "min 2 (upto b (zip xs (map (\<lambda>x. min 2 (f x)) xs)) y) = min 2 (\<Sum>q\<in>{q \<in> set xs. b q y}. f q)"
  using upto_zip_map [OF assms, of b "\<lambda>x. min 2 (f x)" y] min_sum_sat [of "{q \<in> set xs. b q y}" f] by simp

text \<open>The layered loop computes, for every last position, the saturated number of chains ending there.\<close>

lemma chain_counts_eq:
  assumes "layers \<noteq> []" "list_all (sorted_wrt (<)) (layers @ later)"
  shows "chain_counts (last layers) (map (\<lambda>p. min 2 (card (ending layers p))) (last layers)) later
    = (last (layers @ later), map (\<lambda>p. min 2 (card (ending (layers @ later) p))) (last (layers @ later)))"
  using assms
proof (induction later arbitrary: layers)
  case (Cons l later)
  let ?c = "map (\<lambda>p. min 2 (card (ending layers p))) (last layers)"
  have srt: "sorted_wrt (<) (last layers)" "sorted_wrt (<) l"
    using Cons.prems by (auto simp: list_all_iff)
  have "prefix_counts (<) (zip (last layers) ?c) 0 l = map (\<lambda>p. min 2 (0 + upto (<) (zip (last layers) ?c) p)) l"
    using srt by (intro prefix_counts_eq zip_sorted) simp_all
  also have "\<dots> = map (\<lambda>p. min 2 (card (ending (layers @ [l]) p))) l"
    using upto_sat [OF sorted_strict_distinct [OF srt(1)]] card_ending_snoc [OF Cons.prems(1)] by simp
  finally show ?case using Cons.IH [of "layers @ [l]"] Cons.prems(2) by simp
qed simp

section \<open>The search is exact\<close>

lemma tally_count:
  "c \<le> 2 \<Longrightarrow> fst (tally d zs c u locs) = min 2 (c + sum_list (map snd zs))"
proof (induction zs arbitrary: c u locs)
  case (Cons z zs)
  then show ?case
    by (cases z) (auto simp: Let_def min_add_sat add.assoc)
qed simp

lemma tally_unique:
  "c \<le> 2 \<Longrightarrow> fst (tally d zs c u locs) = 1 \<Longrightarrow>
     (c = 1 \<and> fst (snd (tally d zs c u locs)) = u)
     \<or> (c = 0 \<and> (\<exists>x0. (x0, 1) \<in> set zs \<and> fst (snd (tally d zs c u locs)) = Some x0))"
proof (induction zs arbitrary: c u locs)
  case (Cons z zs)
  obtain x0 n where z: "z = (x0, n)" by force
  show ?case
  proof (cases "n = 0")
    case True
    then show ?thesis using Cons.IH [of c u locs] Cons.prems by (auto simp: z split: if_splits)
  next
    case False
    let ?c = "min 2 (c + n)"
    have "fst (tally d (z # zs) c u locs) = min 2 (c + n + sum_list (map snd zs))"
      using tally_count [OF Cons.prems(1), of d "z # zs" u locs] by (simp add: z add.assoc)
    then have "c + n + sum_list (map snd zs) = 1" using Cons.prems(2) by (simp add: min_def split: if_splits)
    then have one: "c = 0" "n = 1" using False by auto
    then show ?thesis using Cons.IH [of 1 "Some x0" "locs @ [x0]"] Cons.prems(2) by (auto simp: z)
  qed
qed simp

lemma sum_list_sat:
  assumes "distinct xs"
  shows "min 2 (sum_list (map (\<lambda>x. min 2 (f x)) xs)) = min (2::nat) (\<Sum>x\<in>set xs. f x)"
  using min_sum_sat [of "set xs" f] assms by (simp add: sum_list_distinct_conv_sum_set)

lemma map_snd_zip_map: "map snd (zip xs (map f xs)) = map f xs"
  by simp

lemma scan_exact:
  fixes d :: bool
  assumes "distinct B" "\<And>b. b \<in> set B \<Longrightarrow> finite (G b)"
  defines "r \<equiv> tally d (zip B (map (\<lambda>b. min 2 (card (G b))) B)) 0 None []"
  shows "fst r = 1 \<and> fst (snd r) = Some i \<longleftrightarrow> (\<exists>ps. {(ps, b). b \<in> set B \<and> ps \<in> G b} = {(ps, i)})"
proof -
  let ?z = "zip B (map (\<lambda>b. min 2 (card (G b))) B)"
  let ?C = "{(ps, b). b \<in> set B \<and> ps \<in> G b}"
  have "?C = (\<Union>b\<in>set B. (\<lambda>ps. (ps, b)) ` G b)" by auto
  then have "card ?C = (\<Sum>b\<in>set B. card ((\<lambda>ps. (ps, b)) ` G b))"
    using assms(2) by (simp only:) (intro card_UN_disjoint; auto)
  also have "\<dots> = (\<Sum>b\<in>set B. card (G b))"
    by (intro sum.cong refl card_image) (simp add: inj_on_def)
  finally have card: "card ?C = (\<Sum>b\<in>set B. card (G b))" .
  have "fst r = min 2 (card ?C)"
    using tally_count [of 0 d ?z None "[]"] sum_list_sat [OF assms(1), of "\<lambda>b. card (G b)"]
    unfolding r_def card by simp
  then have one: "fst r = 1 \<longleftrightarrow> card ?C = 1" by (auto simp: min_def)
  have unique: "\<exists>x0 ps. fst (snd r) = Some x0 \<and> (ps, x0) \<in> ?C" if one_r: "fst r = 1"
  proof -
    obtain x0 where x0: "(x0, 1) \<in> set ?z" "fst (snd r) = Some x0"
      using tally_unique [of 0 d ?z None "[]"] one_r unfolding r_def by auto
    then have "x0 \<in> set B" "min 2 (card (G x0)) = 1" by (auto simp: in_set_zip)
    then have "G x0 \<noteq> {}" by auto
    then show ?thesis using x0(2) \<open>x0 \<in> set B\<close> by blast
  qed
  show ?thesis
  proof
    assume "fst r = 1 \<and> fst (snd r) = Some i"
    then have c: "card ?C = 1" and i: "\<exists>ps. (ps, i) \<in> ?C" using one unique by auto
    obtain x where "?C = {x}" using card_1_singletonE [OF c] .
    then show "\<exists>ps. ?C = {(ps, i)}" using i by auto
  next
    assume "\<exists>ps. ?C = {(ps, i)}"
    then obtain ps where C: "?C = {(ps, i)}" ..
    then have f: "fst r = 1" using one by simp
    obtain x0 qs where "fst (snd r) = Some x0" "(qs, x0) \<in> ?C" using unique [OF f] by blast
    then show "fst r = 1 \<and> fst (snd r) = Some i" using f C by auto
  qed
qed

definition complete_matches :: "string list \<Rightarrow> string list \<Rightarrow> string list \<Rightarrow> nat \<Rightarrow> (nat list \<times> nat) set" where
  "complete_matches sequence anchors body start =
     {(ps, b). list_all2 (\<lambda>p a. start \<le> p \<and> p < length sequence \<and> sequence ! p = a) ps anchors \<and> sorted_wrt (<) ps
        \<and> (if body = [] then b = last ps
           else last ps \<le> b \<and> start \<le> b \<and> b + length body \<le> length sequence
             \<and> take (length body) (drop b sequence) = body)}"

lemma chain_search_iff:
  assumes "anchors \<noteq> []"
  shows "find_unique_chain_body sequence anchors body start label describe = Inr i \<longleftrightarrow>
     (\<exists>ps. complete_matches sequence anchors body start = {(ps, i)})"
proof -
  define L where "L = map (\<lambda>anchor. matching_positions sequence [anchor] start) anchors"
  have Lne: "L \<noteq> []" using assms by (simp add: L_def)
  have srt: "list_all (sorted_wrt (<)) L" by (simp add: L_def list_all_iff matching_positions_sorted)
  have layer_chains: "ps \<in> layer_chains L \<longleftrightarrow>
      list_all2 (\<lambda>p a. start \<le> p \<and> p < length sequence \<and> sequence ! p = a) ps anchors \<and> sorted_wrt (<) ps" for ps
    by (simp add: layer_chains_def L_def list_all2_map2 matching_anchor_iff)
  show ?thesis
  proof (cases "list_ex (\<lambda>found. found = []) L")
    case True
    then obtain k where k: "k < length L" "L ! k = []" by (auto simp: list_ex_iff in_set_conv_nth)
    have "ps \<notin> layer_chains L" for ps using k list_all2_nthD2 [of "\<lambda>p l. p \<in> set l" ps L k] by (auto simp: layer_chains_def)
    then have "complete_matches sequence anchors body start = {}"
      using layer_chains by (auto simp: complete_matches_def)
    then show ?thesis using True by (simp add: find_unique_chain_body_def L_def Let_def)
  next
    case False
    let ?f = "last L" and ?c = "\<lambda>p. min 2 (card (ending L p))"
    have one: "map (\<lambda>p. min 2 (card (ending [hd L] p))) (hd L) = replicate (length (hd L)) 1"
    proof -
      have "ending [hd L] p = {[p]}" if "p \<in> set (hd L)" for p
        using that by (auto simp: ending_def layer_chains_def list_all2_Cons2)
      then show ?thesis by (simp add: map_replicate_const [symmetric])
    qed
    have cc: "chain_counts (hd L) (replicate (length (hd L)) 1) (tl L) = (?f, map ?c ?f)"
      using chain_counts_eq [of "[hd L]" "tl L"] srt Lne one by simp
    have fs: "sorted_wrt (<) ?f" using srt Lne by (simp add: list_all_iff)
    have fin: "finite {ps \<in> layer_chains L. P ps}" for P using finite_chains by simp
    let ?bs = "matching_positions sequence body start"
    define B where "B = (if body \<noteq> [] then ?bs else ?f)"
    define G where "G b = {ps \<in> layer_chains L. if body \<noteq> [] then last ps \<le> b else last ps = b}" for b
    have pc: "prefix_counts (\<le>) (zip ?f (map ?c ?f)) 0 ?bs = map (\<lambda>b. min 2 (card {ps \<in> layer_chains L. last ps \<le> b})) ?bs"
    proof -
      have "prefix_counts (\<le>) (zip ?f (map ?c ?f)) 0 ?bs = map (\<lambda>b. min 2 (0 + upto (\<le>) (zip ?f (map ?c ?f)) b)) ?bs"
        using fs matching_positions_sorted by (intro prefix_counts_eq zip_sorted) simp_all
      moreover have "min 2 (upto (\<le>) (zip ?f (map ?c ?f)) b) = min 2 (card {ps \<in> layer_chains L. last ps \<le> b})" for b
      proof -
        have last: "last ps \<in> set ?f" if "ps \<in> layer_chains L" for ps
          using that list_all2_nthD [of "\<lambda>p l. p \<in> set l" ps L "length ps - 1"] list_all2_lengthD [of _ ps L] Lne
          by (cases "ps = []") (auto simp: layer_chains_def last_conv_nth)
        then have eq: "{ps \<in> layer_chains L. last ps \<le> b} = (\<Union>q\<in>{q \<in> set ?f. q \<le> b}. ending L q)" by (auto simp: ending_def)
        have "card {ps \<in> layer_chains L. last ps \<le> b} = (\<Sum>q\<in>{q \<in> set ?f. q \<le> b}. card (ending L q))"
          unfolding eq by (rule card_UN_disjoint) (auto simp: finite_ending, auto simp: ending_def)
        then show ?thesis using upto_sat [OF sorted_strict_distinct [OF fs]] by simp
      qed
      ultimately show ?thesis by simp
    qed
    have scan: "(if body \<noteq> [] then zip ?bs (prefix_counts (\<le>) (zip ?f (map ?c ?f)) 0 ?bs) else zip ?f (map ?c ?f))
        = zip B (map (\<lambda>b. min 2 (card (G b))) B)"
      unfolding pc B_def G_def by (simp add: ending_def)
    have "distinct B" using fs matching_positions_sorted by (simp add: B_def sorted_strict_distinct)
    note exact = scan_exact [OF this, of G "describe \<noteq> None" i]
    have "complete_matches sequence anchors body start = {(ps, b). b \<in> set B \<and> ps \<in> G b}"
    proof -
      have "last ps \<in> set ?f" if "ps \<in> layer_chains L" for ps
        using that list_all2_nthD [of "\<lambda>p l. p \<in> set l" ps L "length ps - 1"] list_all2_lengthD [of _ ps L] Lne
        by (cases "ps = []") (auto simp: layer_chains_def last_conv_nth)
      then show ?thesis
        by (auto simp: complete_matches_def B_def G_def layer_chains matching_positions_iff)
    qed
    moreover have "find_unique_chain_body sequence anchors body start label describe = Inr i
        \<longleftrightarrow> fst (tally (describe \<noteq> None) (zip B (map (\<lambda>b. min 2 (card (G b))) B)) 0 None []) = 1
          \<and> fst (snd (tally (describe \<noteq> None) (zip B (map (\<lambda>b. min 2 (card (G b))) B)) 0 None [])) = Some i"
      using False unfolding find_unique_chain_body_def Let_def L_def [symmetric] cc prod.case scan
      by (auto split: prod.split option.split)
    ultimately show ?thesis using exact fin by (simp add: G_def)
  qed
qed

text \<open>
  C26: an anchor chain redirects an edit only when there is exactly one way to read it. With
  any number of anchors \<^verbatim>\<open>_find_unique_chain_body\<close> returns \<open>i\<close> if and only if the file has
  exactly one complete match: increasing lines equal to the anchors, followed by the body (or
  by nothing, at the last anchor), and \<open>i\<close> is its location. The counters saturated at two
  and the early exit decide the same as counting every combination.
\<close>

theorem chain_search_exact:
  assumes "anchors \<noteq> []"
  shows "find_unique_chain_body sequence anchors body start label describe = Inr i \<longleftrightarrow>
     (\<exists>ps. complete_matches sequence anchors body start = {(ps, i)})"
  using assms by (rule chain_search_iff)

theorem chain_search_exact_witness:
  "find_unique_chain_body [''class A'', ''def f'', ''x'', ''class B'', ''def f'', ''x''] [''class B'', ''def f''] [''x''] 0 ''l'' None = Inr 5
   \<and> (\<exists>ps. complete_matches [''class A'', ''def f'', ''x'', ''class B'', ''def f'', ''x''] [''class B'', ''def f''] [''x''] 0 = {(ps, 5)})"
proof -
  have "find_unique_chain_body [''class A'', ''def f'', ''x'', ''class B'', ''def f'', ''x''] [''class B'', ''def f''] [''x''] 0 ''l'' None = Inr 5"
    by code_simp
  then show ?thesis
    using chain_search_exact [of "[''class B'', ''def f'']" "[''class A'', ''def f'', ''x'', ''class B'', ''def f'', ''x'']" "[''x'']" 0 "''l''" None 5]
    by simp
qed

end
