(* ===== verification/Patch_Apply.thy ===== *)
theory Patch_Apply
  imports Patch_Match
begin

text \<open>
  \<^verbatim>\<open>src/tools/apply_patch.py\<close>, the edit: \<^verbatim>\<open>_apply_hunks\<close> and the ambiguity messages it hands to
  the search. The file is split into lines and line endings, each hunk replaces its block of
  lines and keeps, copies or repairs the endings, and the pieces are joined again.
\<close>

section \<open>Ambiguity messages\<close>

definition AMBIGUITY_LOCATIONS :: nat where "AMBIGUITY_LOCATIONS = 5"
definition HINT_CHARS :: nat where "HINT_CHARS = 120"
definition HINT_SCAN_LINES :: nat where "HINT_SCAN_LINES = 2000"

definition ANCHOR_RULE :: string where
  "ANCHOR_RULE = ''an @@ anchor must equal one whole line, without tabs or other control characters''"

definition indent :: "string \<Rightarrow> nat" where
  "indent line = length (takeWhile is_space line)"

definition location_hint :: "string list \<Rightarrow> nat \<Rightarrow> nat \<Rightarrow> string" where
  "location_hint src index width =
     (case find (\<lambda>l. strip l \<noteq> []) (take width (drop index src)) of
        None \<Rightarrow> []
      | Some first \<Rightarrow>
          if indent first = 0 then []
          else case find (\<lambda>l. strip l \<noteq> [] \<and> indent l < indent first) (take HINT_SCAN_LINES (rev (take index src))) of
              None \<Rightarrow> []
            | Some line \<Rightarrow>
                '' (below '' @ quote_text (take HINT_CHARS line)
                @ (if HINT_CHARS < length line then '' (first '' @ nat_text HINT_CHARS @ '' characters)'' else [])
                @ '')'')"

text \<open>A working-copy position maps back to the original line by the cumulative delta.\<close>

definition original_index :: "int \<Rightarrow> nat \<Rightarrow> nat" where
  "original_index delta position = nat (int position - delta)"

definition describe_locations :: "string list \<Rightarrow> int \<Rightarrow> nat list \<Rightarrow> nat \<Rightarrow> string" where
  "describe_locations src delta positions width =
     (let shown = map (\<lambda>p. ''line '' @ nat_text (original_index delta p + 1)
            @ location_hint src (original_index delta p) width) (take AMBIGUITY_LOCATIONS positions);
          extra = length positions - length shown
      in if extra \<noteq> 0 then join '', '' shown @ '', and '' @ nat_text extra @ '' more''
         else if length shown = 1 then hd shown
         else join '', '' (butlast shown) @ '' and '' @ last shown)"

definition context_ambiguity :: "string list \<Rightarrow> int \<Rightarrow> nat \<Rightarrow> nat list \<Rightarrow> string" where
  "context_ambiguity src delta width positions =
     ''the context matches at '' @ describe_locations src delta positions width
     @ ''; add more unchanged lines, or an @@ anchor naming a line above the intended match ('' @ ANCHOR_RULE @ '')''"

definition anchor_ambiguity :: "string list \<Rightarrow> int \<Rightarrow> nat list \<Rightarrow> string" where
  "anchor_ambiguity src delta positions =
     ''the @@ anchor line matches at '' @ describe_locations src delta positions 1
     @ ''; add an earlier @@ anchor before it to form an ordered chain, replace it with an ''
     @ ''exact line that appears only once, or drop it and put that line in the hunk body ''
     @ ''as unchanged context with more context around it ('' @ ANCHOR_RULE @ '')''"

definition after_anchor_ambiguity :: "string list \<Rightarrow> int \<Rightarrow> nat \<Rightarrow> nat \<Rightarrow> nat list \<Rightarrow> string" where
  "after_anchor_ambiguity src delta anchor_at width positions =
     ''after the @@ anchor at line '' @ nat_text (original_index delta anchor_at + 1)
     @ '', the context matches at '' @ describe_locations src delta positions width
     @ ''; the search runs from the anchor to the end of the file; add more unchanged lines or another @@ anchor ''
     @ ''nearer the intended match ('' @ ANCHOR_RULE @ '')''"

definition chain_ambiguity :: "string list \<Rightarrow> int \<Rightarrow> nat \<Rightarrow> nat list \<Rightarrow> string" where
  "chain_ambiguity src delta width locations =
     (if length locations = 1 then
        '': line '' @ nat_text (original_index delta (hd locations) + 1)
        @ location_hint src (original_index delta (hd locations)) width
        @ '' is reached through more than one anchor chain; make the anchors more specific so only one chain of them ''
        @ ''leads to it ('' @ ANCHOR_RULE @ '')''
      else
        '': at '' @ describe_locations src delta locations width
        @ ''; add more unchanged lines or another @@ anchor ('' @ ANCHOR_RULE @ '')'')"

definition hunk_label :: "string \<Rightarrow> hunk \<Rightarrow> string" where
  "hunk_label path h =
     path @ '', hunk at patch line '' @ nat_text (h_patch_line h) @ '', anchors [''
     @ (if h_anchors h = [] then ''<none>'' else join '', '' (map (\<lambda>a. ''@@ '' @ a) (h_anchors h))) @ '']''"

section \<open>Lines and endings\<close>

text \<open>
  The records of \<^verbatim>\<open>re.findall(r"[^\r\n]*(?:\r\n|\r|\n)|[^\r\n]+$", source)\<close> as pairs of the
  line and its ending; CR LF is one ending, and a final line may have none.
\<close>

fun records :: "string \<Rightarrow> (string \<times> string) list" where
  "records [] = []"
| "records (c # cs) =
     (if c = CHR 0x0A then ([], [c]) # records cs
      else if c = CHR 0x0D then
        (case cs of
           d # ds \<Rightarrow> if d = CHR 0x0A then ([], [c, d]) # records ds else ([], [c]) # records cs
         | [] \<Rightarrow> [([], [c])])
      else case records cs of [] \<Rightarrow> [([c], [])] | (l, e) # rs \<Rightarrow> (c # l, e) # rs)"

definition join_records :: "string list \<Rightarrow> string list \<Rightarrow> string" where
  "join_records ls es = concat (map (\<lambda>(l, e). l @ e) (zip ls es))"

definition had_final_newline :: "string \<Rightarrow> bool" where
  "had_final_newline src \<longleftrightarrow> src = [] \<or> last src \<in> {CHR 0x0A, CHR 0x0D}"

definition first_ending :: "string list \<Rightarrow> string \<Rightarrow> string" where
  "first_ending es d = (case find (\<lambda>e. e \<noteq> []) es of Some e \<Rightarrow> e | None \<Rightarrow> d)"

section \<open>One hunk\<close>

definition old_lines :: "hunk \<Rightarrow> string list" where
  "old_lines h = map (drop 1) (filter (\<lambda>l. hd l \<in> {CHR '' '', CHR ''-''}) (h_lines h))"

definition new_lines :: "hunk \<Rightarrow> string list" where
  "new_lines h = map (drop 1) (filter (\<lambda>l. hd l \<in> {CHR '' '', CHR ''+''}) (h_lines h))"

record edit =
  e_lines :: "string list"
  e_endings :: "string list"
  e_delta :: int
  e_cursor :: nat

definition locate :: "string \<Rightarrow> string list \<Rightarrow> hunk \<Rightarrow> edit \<Rightarrow> patch_error + nat" where
  "locate path original h st =
     (let anchors = h_anchors h; label = hunk_label path h; old = old_lines h;
          ls = e_lines st; cursor = e_cursor st; delta = e_delta st
      in if 1 < length anchors then
           find_unique_chain_body ls anchors old cursor label
             (Some (chain_ambiguity original delta (if old = [] then 1 else length old)))
         else if anchors \<noteq> [] then
           (case find_unique ls [hd anchors] cursor label (Some (anchor_ambiguity original delta)) of
              Inl e \<Rightarrow> Inl e
            | Inr anchor_at \<Rightarrow>
                if old \<noteq> [] then
                  find_unique ls old anchor_at label
                    (Some (after_anchor_ambiguity original delta anchor_at (length old)))
                else Inr anchor_at)
         else if old \<noteq> [] then
           find_unique ls old cursor label (Some (context_ambiguity original delta (length old)))
         else Inr (length ls))"

text \<open>
  The endings of the new lines. \<open>i\<close> is the index of the next old line; a context line has
  one, because the hunk matched, so \<open>old ! i\<close> is in range (Python would raise).
\<close>

fun hunk_endings :: "string list \<Rightarrow> string \<Rightarrow> nat \<Rightarrow> string list \<Rightarrow> string list" where
  "hunk_endings old replacement i [] = []"
| "hunk_endings old replacement i (line # rest) =
     (if hd line = CHR '' '' then old ! i # hunk_endings old replacement (i + 1) rest
      else if hd line = CHR ''+'' then
        (if i = 0 then replacement else if old ! (i - 1) \<noteq> [] then old ! (i - 1) else replacement)
        # hunk_endings old replacement i rest
      else hunk_endings old replacement (if hd line = CHR ''-'' then i + 1 else i) rest)"

fun repair :: "string \<Rightarrow> string list \<Rightarrow> string list" where
  "repair previous [] = []"
| "repair previous (e # es) =
     (let previous' = (if e \<noteq> [] then e else previous) in previous' # repair previous' es)"

definition apply_hunk :: "string \<Rightarrow> string list \<Rightarrow> string \<Rightarrow> bool \<Rightarrow> hunk \<Rightarrow> edit \<Rightarrow> patch_error + edit" where
  "apply_hunk path original newline final_newline h st =
     (case locate path original h st of
        Inl e \<Rightarrow> Inl e
      | Inr p \<Rightarrow>
          (let old = old_lines h; new = new_lines h; ls = e_lines st; es = e_endings st;
               old_es = take (length old) (drop p es);
               replacement = first_ending old_es newline;
               repaired = repair replacement (hunk_endings old_es replacement 0 (h_lines h));
               new_es = (if p + length old = length ls \<and> repaired \<noteq> [] \<and> \<not> final_newline
                         then repaired[length repaired - 1 := []] else repaired);
               es' = (if p \<noteq> 0 \<and> new \<noteq> [] \<and> es ! (p - 1) = [] then es[p - 1 := replacement] else es)
           in Inr \<lparr>e_lines = take p ls @ new @ drop (p + length old) ls,
                   e_endings = take p es' @ new_es @ drop (p + length old) es',
                   e_delta = e_delta st + int (length new) - int (length old),
                   e_cursor = p + length new\<rparr>))"

fun run_hunks :: "string \<Rightarrow> string list \<Rightarrow> string \<Rightarrow> bool \<Rightarrow> hunk list \<Rightarrow> edit \<Rightarrow> patch_error + edit" where
  "run_hunks path original newline final_newline [] st = Inr st"
| "run_hunks path original newline final_newline (h # hs) st =
     (case apply_hunk path original newline final_newline h st of
        Inl e \<Rightarrow> Inl e | Inr st' \<Rightarrow> run_hunks path original newline final_newline hs st')"

definition start_edit :: "string \<Rightarrow> edit" where
  "start_edit src =
     \<lparr>e_lines = map fst (records src), e_endings = map snd (records src), e_delta = 0, e_cursor = 0\<rparr>"

definition apply_hunks :: "string \<Rightarrow> string \<Rightarrow> hunk list \<Rightarrow> patch_error + string" where
  "apply_hunks path src hunks =
     (case run_hunks path (map fst (records src)) (first_ending (map snd (records src)) [CHR 0x0A])
             (had_final_newline src) hunks (start_edit src) of
        Inl e \<Rightarrow> Inl e
      | Inr st \<Rightarrow> Inr (join_records (e_lines st) (e_endings st)))"

end
