(* ===== verification/Patch_Apply_Props.thy ===== *)
theory Patch_Apply_Props
  imports Patch_Apply
begin

text \<open>
  What the edit of \<^verbatim>\<open>apply_patch\<close> does to a file, seen as lines. The abstraction of a text is its
  list of lines and whether the last one is terminated; the reference \<open>splice_hunks\<close> edits such
  a list and knows nothing of line endings. The edit of the text refines it.
\<close>

section \<open>Reading a text as lines\<close>

definition newline_free :: "string \<Rightarrow> bool" where
  "newline_free l \<longleftrightarrow> CHR 0x0A \<notin> set l \<and> CHR 0x0D \<notin> set l"

definition file_endings :: "string set" where
  "file_endings = {[CHR 0x0A], [CHR 0x0D, CHR 0x0A]}"

definition view :: "string \<Rightarrow> string list \<times> bool" where
  "view s = (map fst (records s), had_final_newline s)"

definition seen :: "string list \<times> bool \<Rightarrow> string list \<times> bool" where
  "seen = (\<lambda>(ls, t). if t \<or> ls = [] then (ls, True)
                     else if last ls = [] then (butlast ls, True) else (ls, False))"

lemma newline_free_simps [simp]:
  "newline_free []" "newline_free (c # l) \<longleftrightarrow> c \<noteq> CHR 0x0A \<and> c \<noteq> CHR 0x0D \<and> newline_free l"
  by (auto simp: newline_free_def)

lemma newline_free_drop: "newline_free l \<Longrightarrow> newline_free (drop n l)"
  by (auto simp: newline_free_def dest: in_set_dropD)

lemma file_endings_nonempty [simp]: "[] \<notin> file_endings"
  by (simp add: file_endings_def)

text \<open>The five ways the pattern reads the next record, and induction along them.\<close>

lemma records_LF: "records (CHR 0x0A # cs) = ([], [CHR 0x0A]) # records cs"
  by simp

lemma records_CRLF: "records (CHR 0x0D # CHR 0x0A # cs) = ([], [CHR 0x0D, CHR 0x0A]) # records cs"
  by simp

lemma records_CR_end: "records [CHR 0x0D] = [([], [CHR 0x0D])]"
  by simp

lemma records_CR: "d \<noteq> CHR 0x0A \<Longrightarrow> records (CHR 0x0D # d # cs) = ([], [CHR 0x0D]) # records (d # cs)"
  by simp

lemma records_char:
  "c \<noteq> CHR 0x0A \<Longrightarrow> c \<noteq> CHR 0x0D \<Longrightarrow>
     records (c # cs) = (case records cs of [] \<Rightarrow> [([c], [])] | (l, e) # rs \<Rightarrow> (c # l, e) # rs)"
  by simp

declare records.simps(2) [simp del]
lemmas records_steps = records_LF records_CRLF records_CR_end records_CR records_char

lemma record_induct [case_names Nil LF CRLF CR_end CR Char]:
  assumes "P []" "\<And>cs. P cs \<Longrightarrow> P (CHR 0x0A # cs)" "\<And>cs. P cs \<Longrightarrow> P (CHR 0x0D # CHR 0x0A # cs)"
    "P [CHR 0x0D]" "\<And>d cs. d \<noteq> CHR 0x0A \<Longrightarrow> P (d # cs) \<Longrightarrow> P (CHR 0x0D # d # cs)"
    "\<And>c cs. c \<noteq> CHR 0x0A \<Longrightarrow> c \<noteq> CHR 0x0D \<Longrightarrow> P cs \<Longrightarrow> P (c # cs)"
  shows "P s"
proof (induction s rule: length_induct)
  case (1 s)
  show ?case
  proof (cases s)
    case (Cons c cs)
    show ?thesis
    proof (cases "c = CHR 0x0D")
      case True
      then show ?thesis using 1 Cons assms(3,4,5) by (cases cs; cases "hd cs = CHR 0x0A") auto
    next
      case False
      then show ?thesis using 1 Cons assms(2,6) by (cases "c = CHR 0x0A") auto
    qed
  qed (simp add: assms(1))
qed

lemma records_Nil_iff [simp]: "records s = [] \<longleftrightarrow> s = []"
  by (induction s rule: record_induct) (auto simp: records_steps split: list.split prod.split)

lemma records_join: "concat (map (\<lambda>(l, e). l @ e) (records s)) = s"
proof (induction s rule: record_induct)
  case (Char c cs)
  then show ?case by (cases "records cs") (auto simp: records_steps)
qed (simp_all add: records_steps)

lemma records_line_free: "list_all (\<lambda>r. newline_free (fst r)) (records s)"
proof (induction s rule: record_induct)
  case (Char c cs)
  then show ?case by (cases "records cs") (auto simp: records_steps)
qed (simp_all add: records_steps)

lemma records_ending:
  "list_all (\<lambda>r. snd r \<in> {[], [CHR 0x0A], [CHR 0x0D], [CHR 0x0D, CHR 0x0A]}) (records s)"
proof (induction s rule: record_induct)
  case (Char c cs)
  then show ?case by (cases "records cs") (auto simp: records_steps)
qed (simp_all add: records_steps)

lemma records_terminated: "list_all (\<lambda>r. snd r \<noteq> []) (butlast (records s))"
proof (induction s rule: record_induct)
  case (Char c cs)
  then show ?case by (cases "records cs") (auto simp: records_steps split: if_splits)
qed (simp_all add: records_steps)

lemma records_final: "s \<noteq> [] \<longrightarrow> had_final_newline s = (snd (last (records s)) \<noteq> [])"
proof (induction s rule: record_induct)
  case (Char c cs)
  then show ?case by (cases "records cs") (auto simp: records_steps had_final_newline_def)
qed (simp_all add: records_steps had_final_newline_def)

lemma records_append:
  assumes "newline_free l" "e \<in> file_endings"
  shows "records (l @ e @ rest) = (l, e) # records rest"
  using assms by (induction l) (auto simp: file_endings_def records_steps)

lemma records_unterminated: "newline_free l \<Longrightarrow> records l = (if l = [] then [] else [(l, [])])"
  by (induction l) (auto simp: records_steps)

section \<open>Well-formed pieces\<close>

text \<open>Every piece but the last is terminated, so the pieces are read behind as they are.\<close>

definition pieces_ok :: "string list \<Rightarrow> string list \<Rightarrow> bool" where
  "pieces_ok ls es \<longleftrightarrow> length ls = length es \<and> list_all newline_free ls
     \<and> set es \<subseteq> insert [] file_endings \<and> [] \<notin> set (butlast es)"

definition closed :: "string list \<Rightarrow> bool" where
  "closed es \<longleftrightarrow> es = [] \<or> last es \<noteq> []"

lemma clean_closed: "set es \<subseteq> E \<Longrightarrow> [] \<notin> E \<Longrightarrow> closed es \<and> [] \<notin> set (butlast es)"
  by (cases es rule: rev_cases) (auto simp: closed_def)

lemma records_of_pieces:
  assumes "pieces_ok ls es"
  shows "map fst (records (join_records ls es)) = fst (seen (ls, closed es))"
  using assms
proof (induction ls arbitrary: es)
  case (Cons l ls)
  then obtain e es' where es: "es = e # es'" "length ls = length es'" "newline_free l"
    by (cases es) (auto simp: pieces_ok_def)
  show ?case
  proof (cases es')
    case Nil
    then have "e = [] \<or> e \<in> file_endings" using Cons.prems es by (auto simp: pieces_ok_def)
    then show ?thesis
      using es Nil records_append [of l e "[]"] records_unterminated [of l]
      by (auto simp: join_records_def seen_def closed_def)
  next
    case (Cons e2 es2)
    have e: "e \<in> file_endings" and ok: "pieces_ok ls es'"
      using Cons.prems es Cons by (auto simp: pieces_ok_def)
    have "join_records (l # ls) es = l @ e @ join_records ls es'"
      using es by (simp add: join_records_def)
    then show ?thesis
      using es Cons records_append [OF es(3) e] Cons.IH [OF ok]
      by (auto simp: seen_def closed_def)
  qed
qed (auto simp: pieces_ok_def join_records_def seen_def)

lemma final_of_pieces:
  assumes "pieces_ok ls es"
  shows "had_final_newline (join_records ls es) = snd (seen (ls, closed es))"
  using assms
proof (induction ls arbitrary: es)
  case (Cons l ls)
  then obtain e es' where es: "es = e # es'" "length ls = length es'" "newline_free l"
    by (cases es) (auto simp: pieces_ok_def)
  have fin: "had_final_newline (a @ b) = had_final_newline b" if "b \<noteq> []" for a b
    using that by (auto simp: had_final_newline_def)
  show ?case
  proof (cases es')
    case Nil
    then have "e = [] \<or> e \<in> file_endings" using Cons.prems es by (auto simp: pieces_ok_def)
    then show ?thesis
      using es Nil by (auto simp: join_records_def seen_def closed_def had_final_newline_def file_endings_def newline_free_def dest: last_in_set)
  next
    case (Cons e2 es2)
    have e: "e \<in> file_endings" and ok: "pieces_ok ls es'"
      using Cons.prems es Cons by (auto simp: pieces_ok_def)
    have j: "join_records (l # ls) es = (l @ e) @ join_records ls es'"
      using es by (simp add: join_records_def)
    show ?thesis
    proof (cases "join_records ls es' = []")
      case True
      then have "concat (map (\<lambda>(l, e). l @ e) (zip ls es')) = []" by (simp add: join_records_def)
      then have "\<forall>(l, e)\<in>set (zip ls es'). l = [] \<and> e = []" by auto
      moreover have "zip ls es' = zip (butlast ls) (butlast es') @ [(last ls, last es')]"
        using es Cons by (metis append_butlast_last_id length_butlast length_0_conv list.distinct(1) zip_append zip_Cons_Cons zip_Nil)
      ultimately have "last ls = []" "last es' = []" by auto
      moreover have "had_final_newline (l @ e)" using e by (auto simp: had_final_newline_def file_endings_def)
      ultimately show ?thesis using True es Cons j by (auto simp: seen_def closed_def)
    next
      case False
      have "had_final_newline (join_records (l # ls) es) = had_final_newline (join_records ls es')"
        unfolding j by (rule fin [OF False])
      then show ?thesis using Cons.IH [OF ok] es Cons by (auto simp: seen_def closed_def)
    qed
  qed
qed (auto simp: pieces_ok_def join_records_def seen_def had_final_newline_def)

lemma view_of_pieces: "pieces_ok ls es \<Longrightarrow> view (join_records ls es) = seen (ls, closed es)"
  using records_of_pieces [of ls es] final_of_pieces [of ls es] by (simp add: view_def prod_eq_iff)

lemma pieces_of_records:
  assumes "[CHR 0x0D] \<notin> set (map snd (records s))"
  shows "pieces_ok (map fst (records s)) (map snd (records s))"
proof -
  have "snd r \<in> insert [] file_endings" if "r \<in> set (records s)" for r
  proof -
    have "snd r \<noteq> [CHR 0x0D]" using that assms by force
    then show ?thesis using records_ending [of s] that by (auto simp: file_endings_def list_all_iff)
  qed
  moreover have "[] \<notin> set (butlast (map snd (records s)))"
    using records_terminated [of s] unfolding map_butlast [symmetric] by (auto simp: list_all_iff)
  ultimately show ?thesis
    using records_line_free [of s] by (auto simp: pieces_ok_def list_all_iff)
qed

lemma closed_records: "closed (map snd (records s)) = had_final_newline s"
  using records_final [of s] by (cases "s = []") (auto simp: closed_def last_map had_final_newline_def)

section \<open>The reference: editing a list of lines\<close>

text \<open>
  The edit without endings. Each hunk is located among the current lines; its block of old
  lines is replaced by its new lines. A file is left terminated unless the hunk rewrote its
  end and the original was not.
\<close>

definition hunk_ok :: "hunk \<Rightarrow> bool" where
  "hunk_ok h \<longleftrightarrow> list_all (\<lambda>l. l \<noteq> [] \<and> newline_free l) (h_lines h)"

definition lines_only :: "string list \<Rightarrow> int \<Rightarrow> nat \<Rightarrow> edit" where
  "lines_only ls delta cursor = \<lparr>e_lines = ls, e_endings = [], e_delta = delta, e_cursor = cursor\<rparr>"

fun splice_hunks ::
  "string \<Rightarrow> string list \<Rightarrow> bool \<Rightarrow> hunk list \<Rightarrow> string list \<Rightarrow> bool \<Rightarrow> int \<Rightarrow> nat \<Rightarrow> patch_error + string list \<times> bool"
where
  "splice_hunks path original fin [] ls t delta cursor = Inr (ls, t)"
| "splice_hunks path original fin (h # hs) ls t delta cursor =
     (case locate path original h (lines_only ls delta cursor) of
        Inl e \<Rightarrow> Inl e
      | Inr p \<Rightarrow>
          (let old = old_lines h; new = new_lines h;
               t' = (if p + length old < length ls \<or> old = [] \<and> new = [] then t else new = [] \<or> fin)
           in splice_hunks path original fin hs (take p ls @ new @ drop (p + length old) ls) t'
                (delta + int (length new) - int (length old)) (p + length new)))"

section \<open>The block a hunk matches\<close>

lemma find_unique_bounds:
  assumes "find_unique ls pat start label d = Inr i" "start \<le> length ls"
  shows "start \<le> i \<and> i + length pat \<le> length ls \<and> take (length pat) (drop i ls) = pat"
proof (cases "pat = []")
  case True
  then show ?thesis using assms by (simp add: find_unique_def)
next
  case False
  then have "i \<in> {j. start \<le> j \<and> j + length pat \<le> length ls \<and> take (length pat) (drop j ls) = pat}"
    using find_unique_iff [OF False, of ls start label d i] assms(1) by auto
  then show ?thesis by simp
qed

lemma chain_bounds:
  assumes "find_unique_chain_body ls anchors body start label d = Inr i" "anchors \<noteq> []"
  shows "start \<le> i \<and> i + length body \<le> length ls \<and> take (length body) (drop i ls) = body"
proof -
  obtain ps where "complete_matches ls anchors body start = {(ps, i)}"
    using chain_search_iff [OF assms(2), of ls body start label d i] assms(1) by auto
  then have m: "(ps, i) \<in> complete_matches ls anchors body start" by simp
  then have la: "list_all2 (\<lambda>p a. start \<le> p \<and> p < length ls \<and> ls ! p = a) ps anchors"
    by (simp add: complete_matches_def)
  then have "ps \<noteq> []" using assms(2) by auto
  moreover have "\<forall>p\<in>set ps. start \<le> p \<and> p < length ls"
    using la by (auto simp: list_all2_conv_all_nth in_set_conv_nth)
  ultimately have "start \<le> last ps \<and> last ps < length ls" by simp
  then show ?thesis using m by (auto simp: complete_matches_def split: if_splits)
qed

lemma locate_bounds:
  assumes "locate path original h st = Inr p" "e_cursor st \<le> length (e_lines st)"
  shows "e_cursor st \<le> p \<and> p + length (old_lines h) \<le> length (e_lines st)
    \<and> take (length (old_lines h)) (drop p (e_lines st)) = old_lines h"
proof -
  consider "1 < length (h_anchors h)" | a where "h_anchors h = [a]" | "h_anchors h = []"
    by (cases "h_anchors h"; cases "tl (h_anchors h)") auto
  then show ?thesis
  proof cases
    case 1
    then have "h_anchors h \<noteq> []" by auto
    then show ?thesis using assms(1) 1 chain_bounds [OF _ \<open>h_anchors h \<noteq> []\<close>] by (simp add: locate_def Let_def)
  next
    case 2
    then obtain q where q: "find_unique (e_lines st) [a] (e_cursor st) (hunk_label path h)
        (Some (anchor_ambiguity original (e_delta st))) = Inr q"
      using assms(1) by (auto simp: locate_def Let_def split: sum.splits)
    have "e_cursor st \<le> q \<and> q + 1 \<le> length (e_lines st)"
      using find_unique_bounds [OF q assms(2)] by simp
    then show ?thesis
      using assms(1) 2 q by (auto simp: locate_def Let_def split: if_splits dest: find_unique_bounds)
  next
    case 3
    then show ?thesis
      using assms by (auto simp: locate_def Let_def split: if_splits dest: find_unique_bounds)
  qed
qed

section \<open>The endings a hunk writes\<close>

lemma hunk_endings_length: "length (hunk_endings old r i ls) = length (filter (\<lambda>l. hd l \<in> {CHR '' '', CHR ''+''}) ls)"
  by (induction ls arbitrary: i) auto

lemma hunk_endings_set:
  assumes "i + length (filter (\<lambda>l. hd l \<in> {CHR '' '', CHR ''-''}) ls) \<le> length old"
  shows "set (hunk_endings old r i ls) \<subseteq> insert r (set old)"
  using assms
proof (induction ls arbitrary: i)
  case (Cons l ls)
  have "old ! i \<in> set old" if "hd l = CHR '' ''" using Cons.prems that by simp
  moreover have "old ! (i - 1) \<in> set old" if "i \<noteq> 0" using Cons.prems that by (simp split: if_splits)
  ultimately show ?case
    using Cons.prems Cons.IH [of i] Cons.IH [of "i + 1"] by (auto split: if_splits)
qed simp

lemma repair_length [simp]: "length (repair r es) = length es"
  by (induction es arbitrary: r) (auto simp: Let_def)

lemma repair_set: "r \<in> E \<Longrightarrow> set es \<subseteq> insert [] E \<Longrightarrow> [] \<notin> E \<Longrightarrow> set (repair r es) \<subseteq> E"
  by (induction es arbitrary: r) (auto simp: Let_def)

lemma first_ending_in: "set es \<subseteq> insert [] E \<Longrightarrow> d \<in> E \<Longrightarrow> first_ending es d \<in> E"
  by (auto simp: first_ending_def find_Some_iff split: option.splits) (meson insertE nth_mem subsetD)

section \<open>The refinement\<close>

lemma take_matched_length:
  "length ls = length es \<Longrightarrow> p + n \<le> length ls \<Longrightarrow> length (take n (drop p es)) = n"
  by simp

lemma hunk_lines_free:
  assumes "hunk_ok h"
  shows "list_all newline_free (new_lines h)" "list_all newline_free (old_lines h)"
  using assms by (auto simp: hunk_ok_def new_lines_def old_lines_def list_all_iff newline_free_drop)

text \<open>The endings after a hunk, written as the three stretches of the file.\<close>

lemma splice_endings:
  fixes es :: "string list"
  assumes es: "set es \<subseteq> insert [] E" "[] \<notin> set (butlast es)" "[] \<notin> E"
    and p: "p + n \<le> length es" and r: "r \<in> E"
    and mid: "set mid \<subseteq> E"
    and new: "new_es = (if p + n = length es \<and> mid \<noteq> [] \<and> \<not> fin then mid[length mid - 1 := []] else mid)"
    and fixed: "es' = (if p \<noteq> 0 \<and> mid \<noteq> [] \<and> es ! (p - 1) = [] then es[p - 1 := r] else es)"
    and res: "res = take p es' @ new_es @ drop (p + n) es'"
  shows "set res \<subseteq> insert [] E" "[] \<notin> set (butlast res)"
    "closed res = (if p + n < length es \<or> n = 0 \<and> mid = [] then closed es else mid = [] \<or> fin)"
proof -
  have inner: "es ! i \<in> E" if "i + 1 < length es" for i
  proof -
    have "es ! i \<in> set (butlast es)"
      using that by (auto simp: in_set_conv_nth nth_butlast intro!: exI [of _ i])
    moreover have "es ! i \<in> set es" using that by simp
    ultimately show ?thesis using es by auto
  qed
  have front: "set (take p es') \<subseteq> E" if "0 < n \<or> p < length es \<or> mid \<noteq> []"
  proof -
    have "es' ! i \<in> E" if i: "i < p" for i
    proof (cases "es ! i = []")
      case True
      have "es ! i \<notin> E" using True es(3) by simp
      then have "i + 1 = length es" using inner [of i] i p by linarith
      then have "i = p - 1" "mid \<noteq> []" using i p \<open>0 < n \<or> p < length es \<or> mid \<noteq> []\<close> by auto
      then show ?thesis using True fixed r i p by simp
    next
      case False
      moreover have "es ! i \<in> set es" using i p by simp
      ultimately have "es ! i \<in> E" using es(1) by auto
      then show ?thesis using False fixed i p by (auto simp: nth_list_update)
    qed
    moreover have "length es' = length es" using fixed by simp
    ultimately show ?thesis using p by (auto simp: in_set_conv_nth)
  qed
  have behind: "drop (p + n) es' = drop (p + n) es" using fixed drop_update_cancel [of "p - 1" "p + n" es r] by auto
  have "set res \<subseteq> insert [] E \<and> [] \<notin> set (butlast res)
    \<and> closed res = (if p + n < length es \<or> n = 0 \<and> mid = [] then closed es else mid = [] \<or> fin)"
  proof -
    consider (inside) "p + n < length es" | (none) "p + n = length es" "n = 0" "mid = []"
      | (tail) "p + n = length es" "mid = []" "0 < n" | (rewrite) "p + n = length es" "mid \<noteq> []"
      using p by linarith
    then show ?thesis
    proof cases
      case inside
      let ?d = "drop (p + n) es"
      have d: "?d \<noteq> []" "set (butlast ?d) \<subseteq> set (butlast es)" "set ?d \<subseteq> set es"
        using inside by (auto simp: drop_butlast [symmetric] dest: in_set_dropD)
      have "res = take p es' @ mid @ ?d" using res new behind inside by simp
      then show ?thesis
        using d front inside mid es(1,2,3) by (auto simp: butlast_append closed_def last_append)
    next
      case none
      then show ?thesis using res new fixed es p by simp
    next
      case tail
      then have "res = take p es'" using res new behind by simp
      moreover have "set (take p es') \<subseteq> E" using front tail by simp
      ultimately show ?thesis using tail clean_closed [OF _ es(3), of res] by auto
    next
      case rewrite
      have f: "set (take p es') \<subseteq> E" using front rewrite by simp
      have m: "mid = butlast mid @ [last mid]" using rewrite by simp
      have "mid[length mid - 1 := []] = butlast mid @ [[]]"
        by (subst m) (simp add: list_update_append)
      then have r: "res = take p es' @ (if fin then mid else butlast mid @ [[]])"
        using res new behind rewrite by simp
      show ?thesis
      proof (cases fin)
        case True
        then have "res = take p es' @ mid" "set res \<subseteq> E" using r f mid by auto
        then show ?thesis using True rewrite clean_closed [OF _ es(3), of res] by auto
      next
        case False
        then have "res = (take p es' @ butlast mid) @ [[]]" "set (take p es' @ butlast mid) \<subseteq> E"
          using r f mid by (auto dest: in_set_butlastD)
        then have "butlast res = take p es' @ butlast mid" "last res = []" "[] \<notin> set (take p es' @ butlast mid)"
          "res \<noteq> []" "set res \<subseteq> insert [] E"
          using es(3) butlast_snoc [of "take p es' @ butlast mid" "[]"] by auto
        then show ?thesis using False rewrite by (simp add: closed_def)
      qed
    qed
  qed
  then show "set res \<subseteq> insert [] E" "[] \<notin> set (butlast res)"
    "closed res = (if p + n < length es \<or> n = 0 \<and> mid = [] then closed es else mid = [] \<or> fin)"
    by blast+
qed

lemma locate_lines_only:
  "locate path original h (lines_only (e_lines st) (e_delta st) (e_cursor st)) = locate path original h st"
  by (simp add: locate_def lines_only_def)

lemma apply_hunk_step:
  assumes ok: "pieces_ok (e_lines st) (e_endings st)" "e_cursor st \<le> length (e_lines st)" "hunk_ok h"
      "newline \<in> file_endings"
    and loc: "locate path original h st = Inr p"
  obtains st' where "apply_hunk path original newline fin h st = Inr st'"
    "pieces_ok (e_lines st') (e_endings st')"
    "e_lines st' = take p (e_lines st) @ new_lines h @ drop (p + length (old_lines h)) (e_lines st)"
    "closed (e_endings st') = (if p + length (old_lines h) < length (e_lines st) \<or> old_lines h = [] \<and> new_lines h = []
        then closed (e_endings st) else new_lines h = [] \<or> fin)"
    "e_delta st' = e_delta st + int (length (new_lines h)) - int (length (old_lines h))"
    "e_cursor st' = p + length (new_lines h)" "e_cursor st' \<le> length (e_lines st')"
proof -
  let ?E = file_endings and ?n = "length (old_lines h)" and ?es = "e_endings st" and ?ls = "e_lines st"
  define old_es where "old_es = take ?n (drop p ?es)"
  define r where "r = first_ending old_es newline"
  define mid where "mid = repair r (hunk_endings old_es r 0 (h_lines h))"
  define new_es where "new_es = (if p + ?n = length ?ls \<and> mid \<noteq> [] \<and> \<not> fin then mid[length mid - 1 := []] else mid)"
  define es' where "es' = (if p \<noteq> 0 \<and> new_lines h \<noteq> [] \<and> ?es ! (p - 1) = [] then ?es[p - 1 := r] else ?es)"
  define res where "res = take p es' @ new_es @ drop (p + ?n) es'"
  define ls' where "ls' = take p ?ls @ new_lines h @ drop (p + ?n) ?ls"
  have len: "length ?ls = length ?es" and es: "set ?es \<subseteq> insert [] ?E" "[] \<notin> set (butlast ?es)"
    using ok(1) by (auto simp: pieces_ok_def)
  have p: "p + ?n \<le> length ?es" using locate_bounds [OF loc ok(2)] len by simp
  have old: "set old_es \<subseteq> insert [] ?E"
    using es(1) by (auto simp: old_es_def dest!: in_set_takeD in_set_dropD)
  have r: "r \<in> ?E" unfolding r_def using first_ending_in [OF old ok(4)] .
  have "length (filter (\<lambda>l. hd l \<in> {CHR '' '', CHR ''-''}) (h_lines h)) = length old_es"
    using p by (simp add: old_es_def old_lines_def)
  then have "set (hunk_endings old_es r 0 (h_lines h)) \<subseteq> insert [] ?E"
    using hunk_endings_set [of 0 "h_lines h" old_es r] old r by auto
  then have mid: "set mid \<subseteq> ?E" unfolding mid_def by (intro repair_set [OF r]) auto
  have mlen: "length mid = length (new_lines h)"
    by (simp add: mid_def hunk_endings_length new_lines_def)
  then have mnil: "mid = [] \<longleftrightarrow> new_lines h = []" by auto
  have "new_es = (if p + ?n = length ?es \<and> mid \<noteq> [] \<and> \<not> fin then mid[length mid - 1 := []] else mid)"
    "es' = (if p \<noteq> 0 \<and> mid \<noteq> [] \<and> ?es ! (p - 1) = [] then ?es[p - 1 := r] else ?es)"
    using mnil len by (simp_all add: new_es_def es'_def)
  note sp = splice_endings [OF es file_endings_nonempty p r mid this res_def]
  have "list_all newline_free ls'"
    using ok(1) hunk_lines_free [OF ok(3)]
    by (auto simp: ls'_def pieces_ok_def list_all_iff dest: in_set_takeD in_set_dropD)
  moreover have "length ls' = length res"
  proof -
    have "length new_es = length (new_lines h)" "length es' = length ?es" using mlen by (simp_all add: new_es_def es'_def)
    then show ?thesis using len p by (simp add: ls'_def res_def)
  qed
  ultimately have "pieces_ok ls' res" using sp(1,2) by (simp add: pieces_ok_def)
  moreover have "apply_hunk path original newline fin h st = Inr \<lparr>e_lines = ls', e_endings = res,
      e_delta = e_delta st + int (length (new_lines h)) - int ?n, e_cursor = p + length (new_lines h)\<rparr>"
    by (simp only: apply_hunk_def loc sum.case Let_def ls'_def res_def new_es_def es'_def mid_def r_def old_es_def)
  moreover have "closed res = (if p + ?n < length ?ls \<or> old_lines h = [] \<and> new_lines h = []
      then closed ?es else new_lines h = [] \<or> fin)"
    using sp(3) mnil len by simp
  moreover have "p + length (new_lines h) \<le> length ls'" using p len by (simp add: ls'_def)
  ultimately show ?thesis using that unfolding ls'_def by fastforce
qed

lemma run_hunks_refines:
  assumes "pieces_ok (e_lines st) (e_endings st)" "e_cursor st \<le> length (e_lines st)" "list_all hunk_ok hunks"
      "newline \<in> file_endings"
  shows "map_sum id (\<lambda>st. view (join_records (e_lines st) (e_endings st))) (run_hunks path original newline fin hunks st)
    = map_sum id seen (splice_hunks path original fin hunks (e_lines st) (closed (e_endings st)) (e_delta st) (e_cursor st))"
  using assms
proof (induction hunks arbitrary: st)
  case Nil
  then show ?case by (simp add: view_of_pieces)
next
  case (Cons h hs)
  show ?case
  proof (cases "locate path original h st")
    case (Inl e)
    then show ?thesis by (simp add: apply_hunk_def locate_lines_only)
  next
    case (Inr p)
    have "hunk_ok h" "list_all hunk_ok hs" using Cons.prems(3) by simp_all
    from apply_hunk_step [OF Cons.prems(1,2) this(1) Cons.prems(4) Inr, of fin]
    obtain st' where st': "apply_hunk path original newline fin h st = Inr st'"
      "pieces_ok (e_lines st') (e_endings st')"
      "e_lines st' = take p (e_lines st) @ new_lines h @ drop (p + length (old_lines h)) (e_lines st)"
      "closed (e_endings st') = (if p + length (old_lines h) < length (e_lines st) \<or> old_lines h = [] \<and> new_lines h = []
          then closed (e_endings st) else new_lines h = [] \<or> fin)"
      "e_delta st' = e_delta st + int (length (new_lines h)) - int (length (old_lines h))"
      "e_cursor st' = p + length (new_lines h)" "e_cursor st' \<le> length (e_lines st')" by metis
    show ?thesis
      using Cons.IH [OF st'(2,7) \<open>list_all hunk_ok hs\<close> Cons.prems(4)] st'(1)
      unfolding st'(3-6) by (simp add: Inr locate_lines_only Let_def)
  qed
qed

text \<open>
  C14: The edit of the text refines the edit of its lines. Where the original has no lone CR
  ending, \<^verbatim>\<open>_apply_hunks\<close> raises exactly the error of the line edit, and otherwise its result,
  read behind as lines, is the edited list: no two lines are ever merged and no line is split,
  whatever mixture of LF and CR LF endings and whatever unterminated last line. The result is
  unterminated only as the line edit says; an unterminated empty last line is not visible.
\<close>

theorem apply_hunks_refines_line_edit:
  assumes "[CHR 0x0D] \<notin> set (map snd (records src))" "list_all hunk_ok hunks"
  shows "map_sum id view (apply_hunks path src hunks)
    = map_sum id seen (splice_hunks path (fst (view src)) (had_final_newline src) hunks (fst (view src)) (snd (view src)) 0 0)"
proof -
  let ?ls = "map fst (records src)" and ?es = "map snd (records src)"
  have ok: "pieces_ok ?ls ?es" by (rule pieces_of_records [OF assms(1)])
  then have "set ?es \<subseteq> insert [] file_endings" by (simp add: pieces_ok_def)
  then have nl: "first_ending ?es [CHR 0x0A] \<in> file_endings"
    by (rule first_ending_in) (simp add: file_endings_def)
  have "map_sum id view (apply_hunks path src hunks)
    = map_sum id (\<lambda>st. view (join_records (e_lines st) (e_endings st)))
        (run_hunks path ?ls (first_ending ?es [CHR 0x0A]) (had_final_newline src) hunks (start_edit src))"
    by (simp add: apply_hunks_def split: sum.split)
  then show ?thesis
    using run_hunks_refines [of "start_edit src", OF _ _ assms(2) nl] ok
    by (simp add: start_edit_def view_def closed_records)
qed

theorem apply_hunks_refines_line_edit_witness:
  "map_sum id view (apply_hunks ''f'' (''one'' @ [CHR 0x0D, CHR 0x0A] @ ''two'')
      [\<lparr>h_anchors = [], h_lines = ['' two'', ''+three''], h_patch_line = 3\<rparr>])
   = Inr ([''one'', ''two'', ''three''], False)"
proof -
  have "[CHR 0x0D] \<notin> set (map snd (records (''one'' @ [CHR 0x0D, CHR 0x0A] @ ''two'')))"
    "list_all hunk_ok [\<lparr>h_anchors = [], h_lines = ['' two'', ''+three''], h_patch_line = 3\<rparr>]" by code_simp+
  from apply_hunks_refines_line_edit [OF this, of "''f''"] show ?thesis by code_simp
qed

text \<open>
  The hypothesis on lone CR endings is needed. Deleting the line between a CR-terminated line
  and an empty LF-terminated line joins the two endings into one CR LF, and the empty line is lost.
\<close>

lemma lone_cr_merges_lines:
  "let src = ''a'' @ [CHR 0x0D] @ ''b'' @ [CHR 0x0A, CHR 0x0A];
       hunks = [\<lparr>h_anchors = [], h_lines = ['' a'', ''-b''], h_patch_line = 3\<rparr>]
   in splice_hunks ''f'' (fst (view src)) True hunks (fst (view src)) True 0 0 = Inr ([''a'', []], True)
      \<and> apply_hunks ''f'' src hunks = Inr (''a'' @ [CHR 0x0D, CHR 0x0A])
      \<and> view (''a'' @ [CHR 0x0D, CHR 0x0A]) = ([''a''], True)"
  by code_simp

text \<open>
  An empty edit returns the file byte for byte: cutting the text into lines and endings
  loses nothing, for every mixture of CR, LF and CR LF and with or without a final newline.
\<close>

theorem unedited_file_identical:
  "apply_hunks path src [] = Inr src"
proof -
  have "zip (map fst (records src)) (map snd (records src)) = records src" by (rule zip_map_fst_snd)
  then show ?thesis by (simp add: apply_hunks_def start_edit_def join_records_def records_join)
qed

end
