(* ===== verification/LLM_Recovery.thy ===== *)
theory LLM_Recovery
  imports Breakers
begin

text \<open>
  \<^verbatim>\<open>src/llm/recovery.py\<close>: the shared retry policy of one logical generation, composed with the
  capacity breaker and the backoff. The loops of the code wait for an unknown number of rounds,
  so the model takes fuel; \<open>LLM_Recovery_Props\<close> shows how much is enough.

  The surroundings of a run are functions of a counter of moves: what the other callers do to the
  shared breaker before each access, how long the next attempt takes and how it ends, the jitter
  draw, how much later than asked a sleep returns, and the time at which the cancel event is set.
\<close>

datatype llm_failure =
    Capacity "py_time option"
  | Transport "py_time option"
  | Circuit_open "py_time option"
  | Auth_failure
  | Request_failure
  | Rate_limited
  | Unclassified

definition retry_after :: "llm_failure \<Rightarrow> py_time option" where
  "retry_after e = (case e of Capacity r \<Rightarrow> r | Transport r \<Rightarrow> r | Circuit_open r \<Rightarrow> r | _ \<Rightarrow> None)"

datatype 'r attempt_end = Produced 'r | Fails llm_failure | Attempt_cancelled

datatype 'r verdict = Returned 'r | Raised llm_failure | Cancelled

record recovery_policy =
  deadline_seconds :: py_time
  backoff_base :: py_time
  backoff_cap :: py_time
  retry_after_cap :: py_time

definition default_policy_values :: recovery_policy where
  "default_policy_values = \<lparr>deadline_seconds = 300, backoff_base = 1, backoff_cap = 45, retry_after_cap = 90\<rparr>"

record 'r surroundings =
  attempt_of :: "nat \<Rightarrow> py_time \<times> 'r attempt_end"
  draw_of :: "nat \<Rightarrow> rat"
  others :: "nat \<Rightarrow> capacity_breaker \<Rightarrow> capacity_breaker"
  lag_of :: "nat \<Rightarrow> py_time"
  cancel_at :: "py_time option"

record run_state =
  clock :: py_time
  shared :: "capacity_breaker option"
  move :: nat
  retry_index :: nat
  last_error :: "llm_failure option"

section \<open>Waiting and cancellation\<close>

definition cancel_is_set :: "'r surroundings \<Rightarrow> py_time \<Rightarrow> bool" where
  "cancel_is_set env t \<longleftrightarrow> (case cancel_at env of Some c \<Rightarrow> c \<le> t | None \<Rightarrow> False)"

text \<open>\<open>True\<close>: the sleep ended by the cancel event.\<close>

definition sleep_cancellable :: "'r surroundings \<Rightarrow> py_time \<Rightarrow> run_state \<Rightarrow> bool \<times> run_state" where
  "sleep_cancellable env seconds st =
     (if seconds \<le> 0 then (False, st)
      else
        (let wake = clock st + seconds in
         case cancel_at env of
           Some c \<Rightarrow> if c < wake then (True, st\<lparr>clock := max (clock st) c\<rparr>)
                     else (False, st\<lparr>clock := wake + lag_of env (move st), move := move st + 1\<rparr>)
         | None \<Rightarrow> (False, st\<lparr>clock := wake + lag_of env (move st), move := move st + 1\<rparr>)))"

text \<open>An access to the shared breaker, after whatever the other callers did to it.\<close>

definition with_breaker :: "'r surroundings \<Rightarrow> (py_time \<Rightarrow> capacity_breaker \<Rightarrow> capacity_breaker) \<Rightarrow> run_state \<Rightarrow> run_state" where
  "with_breaker env f st =
     st\<lparr>shared := map_option (\<lambda>b. f (clock st) (others env (move st) b)) (shared st), move := move st + 1\<rparr>"

definition exhausted :: "'r surroundings \<Rightarrow> run_state \<Rightarrow> 'r verdict \<times> run_state" where
  "exhausted env st =
     (let error = (case last_error st of Some e \<Rightarrow> e | None \<Rightarrow> Capacity None) in
      case error of
        Capacity _ \<Rightarrow> (Raised error, with_breaker env record_generation_failure st)
      | _ \<Rightarrow> (Raised error, st))"

section \<open>Admission\<close>

text \<open>\<open>None\<close> is out of fuel. A token is \<open>None\<close> when there is no breaker.\<close>

fun admit_attempt ::
  "'r surroundings \<Rightarrow> py_time \<Rightarrow> nat \<Rightarrow> capacity_breaker \<Rightarrow> run_state \<Rightarrow> ('r verdict + token) option \<times> run_state" where
  "admit_attempt env deadline 0 b0 st = (None, st)"
| "admit_attempt env deadline (Suc fuel) b0 st =
     (let b = others env (move st) b0;
          (answer, b') = acquire_attempt (clock st) b;
          st1 = st\<lparr>shared := Some b', move := move st + 1\<rparr>
      in case answer of
           Admitted t \<Rightarrow> (Some (Inr t), st1)
         | Wait seconds \<Rightarrow>
             (let remaining = deadline - clock st1 in
              if remaining \<le> 0 then
                (let (v, st2) = exhausted env st1 in (Some (Inl v), st2))
              else
                (let (stopped, st2) = sleep_cancellable env (min seconds remaining) st1 in
                 if stopped \<or> cancel_is_set env (clock st2) then (Some (Inl Cancelled), st2)
                 else admit_attempt env deadline fuel b' st2)))"

section \<open>One attempt and the loop\<close>

text \<open>The attempt races the cancel event; a result that is ready at the same moment wins.\<close>

definition run_attempt :: "'r surroundings \<Rightarrow> run_state \<Rightarrow> 'r attempt_end \<times> run_state" where
  "run_attempt env st =
     (let (seconds, ending) = attempt_of env (move st);
          done_at = clock st + seconds
      in case cancel_at env of
           Some c \<Rightarrow> if c < done_at then (Attempt_cancelled, st\<lparr>clock := max (clock st) c, move := move st + 1\<rparr>)
                     else (ending, st\<lparr>clock := done_at, move := move st + 1\<rparr>)
         | None \<Rightarrow> (ending, st\<lparr>clock := done_at, move := move st + 1\<rparr>))"

definition resolve :: "'r surroundings \<Rightarrow> token option \<Rightarrow> 'r attempt_end \<Rightarrow> run_state \<Rightarrow> run_state" where
  "resolve env tok ending st =
     (case tok of
        None \<Rightarrow> st
      | Some t \<Rightarrow>
          with_breaker env
            (case ending of
               Produced _ \<Rightarrow> (\<lambda>_. attempt_succeeded t)
             | Fails (Capacity _) \<Rightarrow> attempt_failed_capacity t
             | _ \<Rightarrow> (\<lambda>_. abandon_attempt t)) st)"

definition retryable :: "bool \<Rightarrow> llm_failure \<Rightarrow> bool" where
  "retryable retry_circuit_open e =
     (case e of Capacity _ \<Rightarrow> True | Transport _ \<Rightarrow> True | Circuit_open _ \<Rightarrow> retry_circuit_open | _ \<Rightarrow> False)"

definition retry_wait :: "recovery_policy \<Rightarrow> rat \<Rightarrow> nat \<Rightarrow> llm_failure \<Rightarrow> py_time \<Rightarrow> py_time" where
  "retry_wait pol u n e remaining =
     (let jitter = compute_backoff u n (backoff_base pol) (backoff_cap pol);
          floor_wait = (case retry_after e of Some s \<Rightarrow> if 0 < s then min s (retry_after_cap pol) else 0 | None \<Rightarrow> 0)
      in min remaining (max jitter floor_wait))"

fun recovery_loop ::
  "'r surroundings \<Rightarrow> recovery_policy \<Rightarrow> bool \<Rightarrow> py_time \<Rightarrow> nat \<Rightarrow> run_state \<Rightarrow> ('r verdict \<times> run_state) option" where
  "recovery_loop env pol retry_circuit deadline 0 st = None"
| "recovery_loop env pol retry_circuit deadline (Suc fuel) st =
     (if cancel_is_set env (clock st) then Some (Cancelled, st)
      else
        (let (adm, st1) = (case shared st of
               None \<Rightarrow> (Some (Inr None), st)
             | Some b \<Rightarrow> apfst (map_option (map_sum id Some)) (admit_attempt env deadline (Suc fuel) b st))
         in case adm of
              None \<Rightarrow> None
            | Some (Inl v) \<Rightarrow> Some (v, st1)
            | Some (Inr tok) \<Rightarrow>
                (let (ending, st2) = run_attempt env st1; st3 = resolve env tok ending st2 in
                 case ending of
                   Produced r \<Rightarrow> Some (Returned r, st3)
                 | Attempt_cancelled \<Rightarrow> Some (Cancelled, st3)
                 | Fails e \<Rightarrow>
                     if \<not> retryable retry_circuit e then Some (Raised e, st3)
                     else
                       (let st4 = st3\<lparr>last_error := Some e\<rparr>; remaining = deadline - clock st4 in
                        if remaining \<le> 0 then Some (exhausted env st4)
                        else
                          (let w = retry_wait pol (draw_of env (move st4)) (retry_index st4) e remaining;
                               (stopped, st5) = sleep_cancellable env w (st4\<lparr>retry_index := retry_index st4 + 1\<rparr>)
                           in if stopped then Some (Cancelled, st5)
                              else recovery_loop env pol retry_circuit deadline fuel st5)))))"

definition generate_with_recovery ::
  "'r surroundings \<Rightarrow> recovery_policy \<Rightarrow> capacity_breaker option \<Rightarrow> py_time option \<Rightarrow> bool \<Rightarrow> py_time \<Rightarrow> nat
     \<Rightarrow> ('r verdict \<times> run_state) option" where
  "generate_with_recovery env pol breaker deadline_override retry_circuit now fuel =
     (let budget = (case deadline_override of Some d \<Rightarrow> d | None \<Rightarrow> deadline_seconds pol) in
      recovery_loop env pol retry_circuit (now + max 0 budget) fuel
        \<lparr>clock = now, shared = breaker, move = 0, retry_index = 0, last_error = None\<rparr>)"

end
