(* ===== verification/Breakers_Props.thy ===== *)
theory Breakers_Props
  imports Breakers
begin

text \<open>
  What the breakers promise. The exclusive probe slot is one contract, stated as a locale over
  labelled steps and interpreted on both breakers.
\<close>

section \<open>An exclusive slot\<close>

text \<open>
  A slot with at most one holder. Only the events that free the holder end its tenure, and
  while it lasts no event is admitted.
\<close>

locale exclusive_slot =
  fixes after :: "'e \<Rightarrow> 's \<Rightarrow> 's"
    and holder :: "'s \<Rightarrow> 'o option"
    and frees :: "'o \<Rightarrow> 'e \<Rightarrow> bool"
    and admits :: "'e \<Rightarrow> 's \<Rightarrow> bool"
  assumes tenure: "holder s = Some h \<Longrightarrow> \<not> frees h e \<Longrightarrow> holder (after e s) = Some h"
    and refused: "holder s = Some h \<Longrightarrow> \<not> admits e s"
begin

lemma tenure_run: "holder s = Some h \<Longrightarrow> list_all (\<lambda>e. \<not> frees h e) es \<Longrightarrow> holder (fold after es s) = Some h"
  by (induction es arbitrary: s) (auto intro: tenure)

lemma refused_run:
  assumes "holder s = Some h" "list_all (\<lambda>e. \<not> frees h e) es"
  shows "\<not> admits e (fold after es s)"
  using refused [OF tenure_run [OF assms]] .

end

section \<open>The circuit breaker\<close>

lemmas circuit_defs = circuit_check_def circuit_abandon_def record_success_def record_failure_def Let_def

definition settles :: "caller \<Rightarrow> circuit_event \<Rightarrow> bool" where
  "settles c e \<longleftrightarrow> e = Abandon c \<or> e = Success c"

fun circuit_admits :: "circuit_event \<Rightarrow> circuit \<Rightarrow> bool" where
  "circuit_admits (Check c now) b \<longleftrightarrow> fst (circuit_check c now b) = None"
| "circuit_admits _ b \<longleftrightarrow> False"

interpretation circuit_probe: exclusive_slot circuit_after probe_owner settles circuit_admits
proof (unfold_locales, goal_cases)
  case (1 b c e)
  then show ?case by (cases e) (auto simp: circuit_defs settles_def)
next
  case (2 b c e)
  then show ?case by (cases e) (auto simp: circuit_defs)
qed

lemma circuit_params:
  "recovery_timeout (circuit_after e b) = recovery_timeout b"
  "failure_threshold (circuit_after e b) = failure_threshold b"
  by (cases e; auto simp: circuit_defs split: circuit_state.splits)+

lemma circuit_params_run:
  "recovery_timeout (fold circuit_after es b) = recovery_timeout b"
  "failure_threshold (fold circuit_after es b) = failure_threshold b"
  by (induction es arbitrary: b) (simp_all add: circuit_params)

text \<open>
  C38: \<^verbatim>\<open>CircuitBreaker\<close> lets one probe through. Once \<^verbatim>\<open>check\<close> admits a caller on an open breaker,
  every later \<^verbatim>\<open>check\<close>, of any caller at any time, raises with the full recovery timeout, whatever
  successes, failures, checks and abandons other callers record and whatever failures the
  prober records, until the prober itself succeeds or abandons.
\<close>

theorem circuit_single_probe:
  assumes "circuit_state b = Open" "circuit_check c now b = (None, b1)"
    and "list_all (\<lambda>e. \<not> settles c e) es"
  shows "fst (circuit_check d t (fold circuit_after es b1)) = Some (recovery_timeout b)"
proof -
  have b1: "probe_owner b1 = Some c" "recovery_timeout b1 = recovery_timeout b"
    using assms(1,2) by (auto simp: circuit_check_def Let_def split: if_splits)
  have "probe_owner (fold circuit_after es b1) = Some c"
    by (rule circuit_probe.tenure_run [OF b1(1) assms(3)])
  then show ?thesis by (simp add: circuit_check_def circuit_params_run b1(2))
qed

definition open_circuit :: circuit where
  "open_circuit = record_failure 1 100 (new_circuit 1 60)"

theorem circuit_single_probe_witness:
  "fst (circuit_check 3 1000 (fold circuit_after [Failure 1 170, Success 2, Check 2 500, Abandon 2]
     (snd (circuit_check 1 160 open_circuit)))) = Some 60"
proof -
  have "circuit_state open_circuit = Open" "recovery_timeout open_circuit = 60"
    "circuit_check 1 160 open_circuit = (None, snd (circuit_check 1 160 open_circuit))"
    by code_simp+
  then show ?thesis
    using circuit_single_probe [of open_circuit 1 160 _ "[Failure 1 170, Success 2, Check 2 500, Abandon 2]" 3 1000]
    by (simp add: settles_def)
qed

text \<open>The states a breaker reaches.\<close>

definition circuit_inv :: "circuit \<Rightarrow> bool" where
  "circuit_inv b \<longleftrightarrow>
     (circuit_state b \<noteq> Closed \<longrightarrow> failure_threshold b \<le> failure_count b)
     \<and> (circuit_state b = Half_open \<longrightarrow> probe_owner b \<noteq> None)
     \<and> (probe_owner b \<noteq> None \<longrightarrow> circuit_state b \<noteq> Closed)"

lemma circuit_inv_after: "circuit_inv b \<Longrightarrow> circuit_inv (circuit_after e b)"
  by (cases e) (auto simp: circuit_inv_def circuit_defs split: circuit_state.splits)

interpretation circuit: step_invariant "\<lambda>b b'. \<exists>e. b' = circuit_after e b" circuit_inv
  by unfold_locales (auto intro: circuit_inv_after)

lemma circuit_inv_run: "circuit_inv (fold circuit_after es (new_circuit threshold timeout))"
proof -
  have "circuit_inv b \<Longrightarrow> circuit_inv (fold circuit_after es b)" for b
    by (induction es arbitrary: b) (auto intro: circuit_inv_after)
  then show ?thesis by (simp add: circuit_inv_def new_circuit_def)
qed

text \<open>
  The circuit breaker never wedges. In every state reached from a new breaker, by any
  interleaving of calls, one of three things holds: it is closed and admits every caller; a
  probe is outstanding, and its owner reopens the way by succeeding (the breaker is closed and
  its count zero) or by abandoning (no probe, not half open); or it is open with no probe, and
  then \<^verbatim>\<open>check\<close> admits the next caller exactly when the recovery timeout has passed since the
  last failure.
\<close>

theorem circuit_never_wedges:
  "let b = fold circuit_after es (new_circuit threshold timeout) in
   case probe_owner b of
     Some p \<Rightarrow> circuit_state (record_success p b) = Closed \<and> failure_count (record_success p b) = 0
             \<and> probe_owner (record_success p b) = None
             \<and> probe_owner (circuit_abandon p b) = None \<and> circuit_state (circuit_abandon p b) = Open
   | None \<Rightarrow> if circuit_state b = Closed then circuit_check c now b = (None, b)
             else circuit_state b = Open
                  \<and> (fst (circuit_check c now b) = None) = (timeout \<le> now - last_failure_time b)"
proof -
  define b where "b = fold circuit_after es (new_circuit threshold timeout)"
  have inv: "circuit_inv b" unfolding b_def by (rule circuit_inv_run)
  have "recovery_timeout b = timeout" by (simp add: b_def circuit_params_run new_circuit_def)
  then show ?thesis
    unfolding b_def [symmetric] Let_def
    using inv by (cases "circuit_state b") (auto simp: circuit_inv_def circuit_defs split: option.split)
qed

text \<open>The retry time a refusal names lies between zero and the recovery timeout.\<close>

lemma retry_after_bounds:
  assumes "circuit_check c now b = (Some r, b')" "0 \<le> recovery_timeout b" "last_failure_time b \<le> now"
  shows "0 \<le> r \<and> r \<le> recovery_timeout b \<and> b' = b"
  using assms by (auto simp: circuit_check_def Let_def split: if_splits circuit_state.splits)

text \<open>A decorated call does not keep the probe, however its body ends.\<close>

lemma breaker_call_releases:
  assumes "probe_owner b \<noteq> Some c"
  shows "probe_owner (snd (breaker_call c now body b)) \<noteq> Some c"
  using assms
  by (auto simp: breaker_call_def circuit_abandon_def circuit_check_def Let_def
      split: if_splits circuit_state.splits option.splits prod.splits)

section \<open>The capacity breaker\<close>

lemmas breaker_defs = acquire_attempt_def attempt_succeeded_def attempt_failed_capacity_def
  abandon_attempt_def record_generation_failure_def Let_def

definition probe_holder :: "capacity_breaker \<Rightarrow> token option" where
  "probe_holder b = (if opened b then probe_token b else None)"

fun resolves :: "token \<Rightarrow> breaker_event \<Rightarrow> bool" where
  "resolves t (Succeeded u) \<longleftrightarrow> True"
| "resolves t (Failed u now) \<longleftrightarrow> u = t"
| "resolves t (Abandoned u) \<longleftrightarrow> u = t"
| "resolves t _ \<longleftrightarrow> False"

fun breaker_admits :: "breaker_event \<Rightarrow> capacity_breaker \<Rightarrow> bool" where
  "breaker_admits (Acquire now) b \<longleftrightarrow> (\<exists>t. fst (acquire_attempt now b) = Admitted t)"
| "breaker_admits _ b \<longleftrightarrow> False"

interpretation capacity_probe: exclusive_slot breaker_after probe_holder resolves breaker_admits
proof (unfold_locales, goal_cases)
  case (1 b t e)
  then show ?case by (cases e) (auto simp: probe_holder_def breaker_defs split: if_splits)
next
  case (2 b t e)
  then show ?case by (cases e) (auto simp: probe_holder_def breaker_defs split: if_splits)
qed

definition breaker_inv :: "capacity_breaker \<Rightarrow> bool" where
  "breaker_inv b \<longleftrightarrow> 1 \<le> cooldown_base b \<and> cooldown_base b \<le> cooldown_cap b
     \<and> (opened b \<longrightarrow> 1 \<le> consecutive_opens b)
     \<and> (case probe_token b of Some t \<Rightarrow> t < next_token b | None \<Rightarrow> True)"

lemma breaker_inv_after: "breaker_inv b \<Longrightarrow> breaker_inv (breaker_after e b)"
  by (cases e) (auto simp: breaker_inv_def breaker_defs split: if_splits option.splits)

interpretation capacity: step_invariant "\<lambda>b b'. \<exists>e. b' = breaker_after e b" breaker_inv
  by unfold_locales (auto intro: breaker_inv_after)

lemma breaker_inv_new: "breaker_inv (new_breaker nm threshold base cap)"
  by (auto simp: breaker_inv_def new_breaker_def)

lemma breaker_inv_run: "breaker_inv b \<Longrightarrow> breaker_inv (fold breaker_after es b)"
  by (induction es arbitrary: b) (auto intro: breaker_inv_after)

lemma cooldown_ladder:
  "current_cooldown b = compute_backoff_no_jitter (consecutive_opens b - 1) (cooldown_base b) (cooldown_cap b)"
  by (simp add: current_cooldown_def compute_backoff_no_jitter_def Let_def min_def)

lemma cooldown_guard:
  fixes base cap :: real
  assumes "0 < base" "0 < cap"
  shows "log 2 cap - log 2 base \<le> real n \<longleftrightarrow> cap \<le> base * 2 ^ n"
proof -
  have "log 2 cap - log 2 base \<le> real n \<longleftrightarrow> log 2 cap \<le> log 2 (base * 2 ^ n)"
    using assms by (simp add: log_mult log_nat_power algebra_simps)
  also have "\<dots> \<longleftrightarrow> cap \<le> base * 2 ^ n" using assms by simp
  finally show ?thesis .
qed

lemma cooldown_bounds: "breaker_inv b \<Longrightarrow> cooldown_base b \<le> current_cooldown b \<and> current_cooldown b \<le> cooldown_cap b"
proof -
  assume inv: "breaker_inv b"
  have "cooldown_base b * 1 \<le> cooldown_base b * 2 ^ (consecutive_opens b - 1)"
    using inv by (auto simp: breaker_inv_def intro!: mult_mono)
  then show ?thesis using inv by (auto simp: breaker_inv_def cooldown_ladder compute_backoff_no_jitter_def)
qed

text \<open>
  True single-probe half-open. When an open \<^verbatim>\<open>ModelCapacityBreaker\<close> admits a caller it holds
  the only probe slot: until it resolves its own token or some attempt succeeds, every other
  \<^verbatim>\<open>acquire_attempt\<close> is told to wait, for a positive time. Late capacity failures and abandons
  of attempts admitted earlier do not resolve the probe.
\<close>

theorem capacity_probe_exclusive:
  assumes "breaker_inv b" "opened b" "acquire_attempt now b = (Admitted t, b1)"
    and "list_all (\<lambda>e. \<not> resolves t e) es"
  shows "case fst (acquire_attempt later_now (fold breaker_after es b1)) of Wait w \<Rightarrow> 0 < w | Admitted u \<Rightarrow> False"
proof -
  let ?b = "fold breaker_after es b1"
  have "probe_holder b1 = Some t"
    using assms(2,3) by (auto simp: probe_holder_def acquire_attempt_def Let_def split: if_splits)
  then have "\<not> breaker_admits (Acquire later_now) ?b"
    by (rule capacity_probe.refused_run [OF _ assms(4)])
  then show ?thesis by (auto simp: acquire_attempt_def PROBE_PENDING_WAIT_def Let_def split: if_splits)
qed

definition open_breaker :: capacity_breaker where
  "open_breaker = record_generation_failure 100 (new_breaker ''codex:gpt'' 1 30 300)"

theorem capacity_probe_exclusive_witness:
  "case fst (acquire_attempt 900 (fold breaker_after [Failed 7 135, Acquire 140, Abandoned 9, Generation_failed 150]
     (snd (acquire_attempt 130 open_breaker)))) of Wait w \<Rightarrow> 0 < w | Admitted u \<Rightarrow> False"
proof -
  have "breaker_inv open_breaker" "opened open_breaker"
    "acquire_attempt 130 open_breaker = (Admitted 0, snd (acquire_attempt 130 open_breaker))"
    by code_simp+
  from capacity_probe_exclusive [OF this, of "[Failed 7 135, Acquire 140, Abandoned 9, Generation_failed 150]" 900]
  show ?thesis by simp
qed

text \<open>
  Adaptive cooldown. In every state reached from a new breaker the cooldown lies between
  the base (at least a second) and the cap; a failed probe doubles it up to the cap and
  restarts the timer, and any success puts it back to the base. A caller told to wait waits a
  positive time, at most the larger of the cap and the probe poll when the clock has not run
  backwards. The snapshot shows a probe as eligible exactly when the breaker is open and
  \<^verbatim>\<open>acquire_attempt\<close> would admit it at that moment.
\<close>

theorem cooldown_adapts:
  assumes "b = fold breaker_after es (new_breaker nm threshold base cap)"
  shows "1 \<le> cooldown_base b \<and> cooldown_base b \<le> current_cooldown b \<and> current_cooldown b \<le> cooldown_cap b
    \<and> (opened b \<and> probe_token b = Some t \<longrightarrow>
         current_cooldown (attempt_failed_capacity t now b) = min (cooldown_cap b) (2 * current_cooldown b)
         \<and> opened_at (attempt_failed_capacity t now b) = now)
    \<and> current_cooldown (attempt_succeeded t b) = cooldown_base b
    \<and> (case fst (acquire_attempt now b) of
         Wait w \<Rightarrow> 0 < w \<and> (opened_at b \<le> now \<longrightarrow> w \<le> max (cooldown_cap b) PROBE_PENDING_WAIT)
       | Admitted u \<Rightarrow> s_probe_eligible (breaker_snapshot now b) = opened b)
    \<and> (s_probe_eligible (breaker_snapshot now b) \<longrightarrow> (\<exists>u. fst (acquire_attempt now b) = Admitted u))"
proof -
  have inv: "breaker_inv b" unfolding assms by (intro breaker_inv_run breaker_inv_new)
  note bounds = cooldown_bounds [OF inv]
  have base: "1 \<le> cooldown_base b" "cooldown_base b \<le> cooldown_cap b" "opened b \<longrightarrow> 1 \<le> consecutive_opens b"
    using inv by (auto simp: breaker_inv_def)
  have double: "current_cooldown (attempt_failed_capacity t now b) = min (cooldown_cap b) (2 * current_cooldown b)"
    if o: "opened b" "probe_token b = Some t"
  proof -
    obtain n where n: "consecutive_opens b = Suc n" using base(3) o by (cases "consecutive_opens b") auto
    have "0 \<le> cooldown_cap b" using base by simp
    then show ?thesis
      using o n by (auto simp: attempt_failed_capacity_def cooldown_ladder compute_backoff_no_jitter_def min_def)
  qed
  have reset: "current_cooldown (attempt_succeeded t b) = cooldown_base b"
    using base by (simp add: attempt_succeeded_def cooldown_ladder compute_backoff_no_jitter_def)
  have wait: "case fst (acquire_attempt now b) of
      Wait w \<Rightarrow> 0 < w \<and> (opened_at b \<le> now \<longrightarrow> w \<le> max (cooldown_cap b) PROBE_PENDING_WAIT)
    | Admitted u \<Rightarrow> s_probe_eligible (breaker_snapshot now b) = opened b"
    using bounds base
    by (auto simp: acquire_attempt_def breaker_snapshot_def PROBE_PENDING_WAIT_def Let_def max_def)
  have elig: "s_probe_eligible (breaker_snapshot now b) \<longrightarrow> (\<exists>u. fst (acquire_attempt now b) = Admitted u)"
    by (auto simp: acquire_attempt_def breaker_snapshot_def Let_def max_def)
  show ?thesis
    using base bounds double reset wait elig by (auto simp: attempt_failed_capacity_def)
qed

theorem cooldown_adapts_witness:
  "current_cooldown (attempt_failed_capacity 0 200 (snd (acquire_attempt 130 open_breaker))) = 60"
proof -
  let ?es = "[Generation_failed 100, Acquire 130]"
  let ?b = "fold breaker_after ?es (new_breaker ''codex:gpt'' 1 30 300)"
  have "opened ?b" "probe_token ?b = Some 0" "cooldown_cap ?b = 300" "current_cooldown ?b = 30" by code_simp+
  moreover have "?b = snd (acquire_attempt 130 open_breaker)" by (simp add: open_breaker_def)
  ultimately show ?thesis
    using cooldown_adapts [of ?b ?es "''codex:gpt''" 1 30 300 0 200] by simp
qed

section \<open>The registry and the delays\<close>

text \<open>Asking again for a breaker, say after a client was rebuilt, keeps its state.\<close>

lemma for_model_keeps_state:
  assumes "for_model provider model r = (key, r')"
  shows "r_breakers r key = Some b \<Longrightarrow> r_breakers r' = r_breakers r"
    and "r_breakers r' key \<noteq> None" and "for_model provider model r' = (key, r')"
    and "k \<noteq> key \<Longrightarrow> r_breakers r' k = r_breakers r k"
  using assms by (auto simp: for_model_def Let_def split: option.splits)

lemma backoff_bounds:
  assumes "0 \<le> u" "u \<le> 1" "0 \<le> base" "0 \<le> cap"
  shows "0 \<le> compute_backoff u n base cap"
    and "compute_backoff u n base cap \<le> compute_backoff_no_jitter n base cap"
    and "compute_backoff_no_jitter n base cap \<le> compute_backoff_no_jitter (n + 1) base cap"
    and "compute_backoff_no_jitter n base cap \<le> cap"
proof -
  let ?c = "min cap (base * 2 ^ n)"
  have c: "0 \<le> ?c" using assms by simp
  show "0 \<le> compute_backoff u n base cap"
    using mult_nonneg_nonneg [OF c assms(1)] by (simp add: compute_backoff_def)
  show "compute_backoff u n base cap \<le> compute_backoff_no_jitter n base cap"
    using mult_left_mono [OF assms(2) c] by (simp add: compute_backoff_def compute_backoff_no_jitter_def)
  have "base * 2 ^ n \<le> base * 2 ^ (n + 1)" using assms by (intro mult_left_mono) auto
  then show "compute_backoff_no_jitter n base cap \<le> compute_backoff_no_jitter (n + 1) base cap"
    by (auto simp: compute_backoff_no_jitter_def)
  show "compute_backoff_no_jitter n base cap \<le> cap" by (simp add: compute_backoff_no_jitter_def)
qed

end
