(* ===== verification/LLM_Recovery_Props.thy ===== *)
theory LLM_Recovery_Props
  imports LLM_Recovery Breakers_Props
begin

text \<open>
  The recovery loop returns within its budget, whatever the provider and the other users of the
  breaker do, and settles its account with the breaker.
\<close>

section \<open>Time passes\<close>

lemma sleep_clock:
  assumes "sleep_cancellable env w st = (stopped, st')" "\<And>n. 0 \<le> lag_of env n"
  shows "clock st \<le> clock st'" and "\<not> stopped \<Longrightarrow> clock st + w \<le> clock st'"
    and "shared st' = shared st" and "retry_index st' = retry_index st" and "last_error st' = last_error st"
  using assms(1) assms(2) [of "move st"]
  by (auto simp: sleep_cancellable_def Let_def split: if_splits option.splits)

lemma exhausted_clock: "exhausted env st = (v, st') \<Longrightarrow> clock st' = clock st"
  by (auto simp: exhausted_def with_breaker_def Let_def split: llm_failure.splits option.splits)

lemma resolve_clock [simp]: "clock (resolve env tok e st) = clock st"
  by (simp add: resolve_def with_breaker_def split: option.split)

lemma attempt_clock:
  assumes "run_attempt env st = (e, st')" "\<And>n. 0 \<le> fst (attempt_of env n)"
  shows "clock st \<le> clock st'"
  using assms(1) assms(2) [of "move st"]
  by (auto simp: run_attempt_def Let_def split: prod.splits if_splits option.splits)

lemma failed_attempt_clock:
  assumes "run_attempt env st = (Fails e, st')" "\<And>n. delta \<le> fst (attempt_of env n)"
  shows "clock st + delta \<le> clock st'"
  using assms(1) assms(2) [of "move st"]
  by (auto simp: run_attempt_def Let_def split: prod.splits if_splits option.splits)

lemma wait_positive: "fst (acquire_attempt now b) = Wait w \<Longrightarrow> 1 / 10 \<le> w"
  by (auto simp: acquire_attempt_def PROBE_PENDING_WAIT_def Let_def split: if_splits)

text \<open>What is left of the budget after a wait of at least \<open>delta\<close> or of all that was left.\<close>

lemma budget_step:
  fixes delta :: rat
  assumes "deadline - t \<le> of_nat N * delta" "0 < deadline - t" "0 < delta"
    and "min (deadline - t) delta \<le> w" "t + w \<le> t'"
  obtains M where "N = Suc M" "deadline - t' \<le> of_nat M * delta"
proof -
  have "N \<noteq> 0" using assms(1,2) by (cases N) auto
  then obtain M where M: "N = Suc M" by (cases N) auto
  have "deadline - t' \<le> of_nat M * delta"
  proof (cases "delta \<le> deadline - t")
    case True
    then have "t + delta \<le> t'" using assms(4,5) by simp
    then show ?thesis using assms(1) M by (simp add: algebra_simps)
  next
    case False
    then have "deadline \<le> t'" using assms(4,5) by simp
    moreover have "0 \<le> of_nat M * delta" using assms(3) by simp
    ultimately show ?thesis by (simp add: algebra_simps)
  qed
  with M that show ?thesis by blast
qed

section \<open>Enough fuel\<close>

lemma admit_total:
  assumes "deadline - clock st \<le> of_nat N * delta" "N + 2 \<le> fuel" "0 < delta" "delta \<le> 1 / 10"
    and lag: "\<And>n. 0 \<le> lag_of env n"
  shows "\<exists>r st'. admit_attempt env deadline fuel b st = (Some r, st') \<and> clock st \<le> clock st'"
  using assms(1,2)
proof (induction N arbitrary: fuel b st rule: less_induct)
  case (less N)
  obtain n where fuel: "fuel = Suc n" using less.prems(2) by (cases fuel) auto
  obtain answer b' where a: "acquire_attempt (clock st) (others env (move st) b) = (answer, b')" by force
  let ?st1 = "st\<lparr>shared := Some b', move := move st + 1\<rparr>"
  show ?case
  proof (cases answer)
    case (Admitted t)
    then show ?thesis by (simp add: fuel a)
  next
    case (Wait w)
    show ?thesis
    proof (cases "deadline - clock st \<le> 0")
      case True
      obtain v st2 where ex: "exhausted env ?st1 = (v, st2)" by force
      have "clock st2 = clock st" using exhausted_clock [OF ex] by simp
      then show ?thesis using True ex by (simp add: fuel a Wait)
    next
      case False
      obtain stopped st2 where sl: "sleep_cancellable env (min w (deadline - clock st)) ?st1 = (stopped, st2)" by force
      note sc = sleep_clock [OF sl lag]
      show ?thesis
      proof (cases "stopped \<or> cancel_is_set env (clock st2)")
        case True
        then show ?thesis using sc False sl by (auto simp: fuel a Wait)
      next
        case go: False
        have "1 / 10 \<le> w" using wait_positive [of "clock st" "others env (move st) b" w] a Wait by simp
        then have "min (deadline - clock st) delta \<le> min w (deadline - clock st)" using assms(4) by auto
        moreover have "clock st + min w (deadline - clock st) \<le> clock st2" using sc(2) go by simp
        ultimately obtain M where M: "N = Suc M" "deadline - clock st2 \<le> of_nat M * delta"
          using budget_step [OF less.prems(1) _ assms(3)] False by (metis not_le)
        obtain r st' where "admit_attempt env deadline n b' st2 = (Some r, st')" "clock st2 \<le> clock st'"
          using less.IH [of M st2 n b'] M less.prems(2) fuel by auto
        moreover have "clock st \<le> clock st2" using sc(1) by simp
        ultimately show ?thesis using False go sl by (auto simp: fuel a Wait)
      qed
    qed
  qed
qed

lemma loop_total:
  assumes "deadline - clock st \<le> of_nat N * delta" "N + 2 \<le> fuel" "0 < delta" "delta \<le> 1 / 10"
    and lag: "\<And>n. 0 \<le> lag_of env n" and dur: "\<And>n. delta \<le> fst (attempt_of env n)"
  shows "recovery_loop env pol rc deadline fuel st \<noteq> None"
  using assms(1,2)
proof (induction N arbitrary: fuel st rule: less_induct)
  case (less N)
  obtain n where fuel: "fuel = Suc n" using less.prems(2) by (cases fuel) auto
  define adm where "adm = (case shared st of
      None \<Rightarrow> (Some (Inr None), st)
    | Some b \<Rightarrow> apfst (map_option (map_sum id Some)) (admit_attempt env deadline (Suc n) b st))"
  have "\<exists>r st1. adm = (Some r, st1) \<and> clock st \<le> clock st1"
  proof (cases "shared st")
    case (Some b)
    obtain r st1 where "admit_attempt env deadline (Suc n) b st = (Some r, st1)" "clock st \<le> clock st1"
      using admit_total [OF less.prems(1) _ assms(3,4) lag, of "Suc n" b] less.prems(2) fuel by auto
    then show ?thesis by (simp add: adm_def Some)
  qed (simp add: adm_def)
  then obtain r st1 where r: "adm = (Some r, st1)" "clock st \<le> clock st1" by blast
  show ?case
  proof (cases "cancel_is_set env (clock st) \<or> (\<exists>v. r = Inl v)")
    case True
    then show ?thesis using r by (auto simp: fuel adm_def [symmetric])
  next
    case False
    then obtain tok where tok: "r = Inr tok" by (cases r) auto
    obtain ending st2 where at: "run_attempt env st1 = (ending, st2)" by force
    let ?st3 = "resolve env tok ending st2"
    show ?thesis
    proof (cases "\<exists>e. ending = Fails e \<and> retryable rc e \<and> 0 < deadline - clock st2")
      case False
      then show ?thesis using \<open>\<not> (cancel_is_set env (clock st) \<or> (\<exists>v. r = Inl v))\<close> r tok at
        by (cases ending) (auto simp: fuel adm_def [symmetric] Let_def not_less)
    next
      case True
      then obtain e where e: "ending = Fails e" "retryable rc e" "0 < deadline - clock st2" by blast
      let ?st4 = "?st3\<lparr>last_error := Some e\<rparr>"
      let ?w = "retry_wait pol (draw_of env (move ?st4)) (retry_index ?st4) e (deadline - clock st2)"
      obtain stopped st5 where sl: "sleep_cancellable env ?w (?st4\<lparr>retry_index := retry_index ?st4 + 1\<rparr>) = (stopped, st5)"
        by force
      note sc = sleep_clock [OF sl lag]
      show ?thesis
      proof (cases stopped)
        case True
        then show ?thesis using \<open>\<not> (cancel_is_set env (clock st) \<or> (\<exists>v. r = Inl v))\<close> r tok at e sl
          by (simp add: fuel adm_def [symmetric] Let_def)
      next
        case go: False
        have c: "clock st + delta \<le> clock st2" using failed_attempt_clock [OF at [unfolded e(1)] dur] r(2) by simp
        then have "0 < deadline - clock st" using e(3) assms(3) by simp
        moreover have "min (deadline - clock st) delta \<le> delta" by simp
        moreover have "clock st + delta \<le> clock st5" using sc(1) c by simp
        ultimately obtain M where M: "N = Suc M" "deadline - clock st5 \<le> of_nat M * delta"
          using budget_step [OF less.prems(1) _ assms(3)] by metis
        have "recovery_loop env pol rc deadline n st5 \<noteq> None"
          using less.IH [of M st5 n] M less.prems(2) fuel by simp
        then show ?thesis using \<open>\<not> (cancel_is_set env (clock st) \<or> (\<exists>v. r = Inl v))\<close> r tok at e sl go
          by (simp add: fuel adm_def [symmetric] Let_def)
      qed
    qed
  qed
qed

lemma admit_mono:
  assumes "admit_attempt env deadline n b st = (Some r, st')" "n \<le> m"
  shows "admit_attempt env deadline m b st = (Some r, st')"
  using assms
proof (induction n arbitrary: m b st)
  case (Suc n)
  obtain k where m: "m = Suc k" "n \<le> k" using Suc.prems(2) by (cases m) auto
  obtain answer b' where a: "acquire_attempt (clock st) (others env (move st) b) = (answer, b')" by force
  show ?case
    using Suc.prems(1) Suc.IH [OF _ m(2)] unfolding m(1)
    by (auto simp: a Let_def split: attempt_outcome.splits if_splits prod.splits)
qed simp

lemma loop_mono:
  assumes "recovery_loop env pol rc deadline n st = Some r" "n \<le> m"
  shows "recovery_loop env pol rc deadline m st = Some r"
  using assms
proof (induction n arbitrary: m st)
  case (Suc n)
  obtain k where m: "m = Suc k" "n \<le> k" using Suc.prems(2) by (cases m) auto
  show ?case
  proof (cases "shared st")
    case None
    then show ?thesis using Suc.prems(1) Suc.IH [OF _ m(2)] unfolding m(1)
      by (auto simp: Let_def split: if_splits prod.splits attempt_end.splits)
  next
    case (Some b)
    obtain x st1 where x: "admit_attempt env deadline (Suc n) b st = (Some x, st1) \<or> cancel_is_set env (clock st)"
      using Suc.prems(1) Some
      by (cases "admit_attempt env deadline (Suc n) b st"; cases "fst (admit_attempt env deadline (Suc n) b st)")
        (auto simp del: admit_attempt.simps split: if_splits)
    show ?thesis
    proof (cases "cancel_is_set env (clock st)")
      case True
      then show ?thesis using Suc.prems(1) by (simp add: m(1))
    next
      case False
      then have a: "admit_attempt env deadline (Suc n) b st = (Some x, st1)"
        "admit_attempt env deadline (Suc k) b st = (Some x, st1)"
        using x admit_mono [of env deadline "Suc n" b st x st1 "Suc k"] m(2) by auto
      show ?thesis using Suc.prems(1) Suc.IH [OF _ m(2)] False Some a unfolding m(1)
        by (auto simp: Let_def simp del: admit_attempt.simps split: if_splits prod.splits sum.splits attempt_end.splits)
    qed
  qed
qed simp

lemma generation_total:
  assumes "max 0 (case override of Some d \<Rightarrow> d | None \<Rightarrow> deadline_seconds pol) \<le> of_nat N * delta"
    and "0 < delta" "delta \<le> 1 / 10"
    and "\<And>n. 0 \<le> lag_of env n" "\<And>n. delta \<le> fst (attempt_of env n)"
  shows "\<exists>r. \<forall>fuel\<ge>N + 2. generate_with_recovery env pol breaker override rc now fuel = Some r"
proof -
  have "generate_with_recovery env pol breaker override rc now (N + 2) \<noteq> None"
    unfolding generate_with_recovery_def Let_def
    by (rule loop_total [where N = N, OF _ _ assms(2-5)]) (use assms(1) in simp, simp)
  then obtain r where "generate_with_recovery env pol breaker override rc now (N + 2) = Some r" by blast
  then show ?thesis unfolding generate_with_recovery_def Let_def using loop_mono by blast
qed

text \<open>
  C15: recovery terminates. Whatever the attempts return, whatever the jitter draws, whatever the other callers
  do to the breaker, and whether or not the run is cancelled, a generation returns, raises or is cancelled
  after at most \<open>N + 2\<close> rounds, where every attempt takes at least some time \<open>delta\<close> (at most the tenth of a
  second of a wait for admission) and \<open>N\<close> times \<open>delta\<close> covers the budget; more fuel does not change the result.
\<close>

theorem recovery_terminates:
  assumes "max 0 (case override of Some d \<Rightarrow> d | None \<Rightarrow> deadline_seconds pol) \<le> of_nat N * delta"
    and "0 < delta" "delta \<le> 1 / 10"
    and "\<And>n. 0 \<le> lag_of env n" "\<And>n. delta \<le> fst (attempt_of env n)"
  shows "\<exists>r. \<forall>fuel\<ge>N + 2. generate_with_recovery env pol breaker override rc now fuel = Some r"
  by (rule generation_total [OF assms])

definition ex_surroundings :: "string surroundings" where
  "ex_surroundings = \<lparr>attempt_of = (\<lambda>n. (2, if n < 8 then Fails (Capacity (Some 3)) else Produced ''ok'')),
     draw_of = (\<lambda>_. 1 / 2), others = (\<lambda>_ b. b), lag_of = (\<lambda>_. 0), cancel_at = None\<rparr>"

theorem recovery_terminates_witness:
  "\<exists>r. \<forall>fuel\<ge>3002. generate_with_recovery ex_surroundings default_policy_values
     (Some (new_breaker ''codex:m'' 1 30 300)) None True 0 fuel = Some r"
proof -
  have "max 0 (case None of Some d \<Rightarrow> d | None \<Rightarrow> deadline_seconds default_policy_values) \<le> of_nat 3000 * (1 / 10 :: rat)"
    by (simp add: default_policy_values_def)
  from recovery_terminates [OF this, of ex_surroundings] show ?thesis by (simp add: ex_surroundings_def)
qed

section \<open>The account with the breaker\<close>

text \<open>
  \<open>untouched b0 b\<close>: as many failed generations as before and no probe of this run outstanding;
  \<open>holding\<close> allows the probe \<open>t\<close> of the attempt in flight.
\<close>

definition untouched :: "capacity_breaker \<Rightarrow> capacity_breaker \<Rightarrow> bool" where
  "untouched b0 b \<longleftrightarrow> failed_generations b = failed_generations b0 \<and> (probe_token b = probe_token b0 \<or> probe_token b = None)"

definition holding :: "token \<Rightarrow> capacity_breaker \<Rightarrow> capacity_breaker \<Rightarrow> bool" where
  "holding t b0 b \<longleftrightarrow> failed_generations b = failed_generations b0
     \<and> (probe_token b = probe_token b0 \<or> probe_token b = None \<or> probe_token b = Some t \<and> opened b)"

lemma acquire_account:
  assumes "acquire_attempt now b = (answer, b')" "untouched b0 b"
  shows "case answer of Admitted t \<Rightarrow> holding t b0 b' | Wait w \<Rightarrow> untouched b0 b'"
  using assms by (auto simp: acquire_attempt_def untouched_def holding_def Let_def split: if_splits)

definition settled :: "capacity_breaker \<Rightarrow> 'r verdict \<Rightarrow> capacity_breaker \<Rightarrow> bool" where
  "settled b0 v b \<longleftrightarrow> (probe_token b = probe_token b0 \<or> probe_token b = None)
     \<and> (case v of
          Returned _ \<Rightarrow> \<not> opened b \<and> failed_generations b = 0
        | Raised (Capacity _) \<Rightarrow> failed_generations b = failed_generations b0 + 1
        | _ \<Rightarrow> failed_generations b = failed_generations b0)"

lemma exhausted_account:
  assumes "exhausted env st = (v, st')" "shared st = Some b" "untouched b0 b" "others env = (\<lambda>_ b. b)"
  shows "\<exists>b'. shared st' = Some b' \<and> settled b0 v b'"
  using assms
  by (auto simp: exhausted_def with_breaker_def settled_def untouched_def record_generation_failure_def Let_def
      split: llm_failure.splits option.splits)

lemma admit_account:
  assumes "admit_attempt env deadline fuel b st = (Some r, st')" "untouched b0 b" "others env = (\<lambda>_ b. b)"
    and lag: "\<And>n. 0 \<le> lag_of env n"
  shows "\<exists>b'. shared st' = Some b' \<and> (case r of Inl v \<Rightarrow> settled b0 v b' | Inr t \<Rightarrow> holding t b0 b')"
  using assms(1,2)
proof (induction fuel arbitrary: b st)
  case (Suc n)
  obtain answer b' where a: "acquire_attempt (clock st) b = (answer, b')" by force
  let ?st1 = "st\<lparr>shared := Some b', move := move st + 1\<rparr>"
  note acc = acquire_account [OF a Suc.prems(2)]
  show ?case
  proof (cases answer)
    case (Admitted t)
    then show ?thesis using Suc.prems(1) acc by (auto simp: assms(3) a)
  next
    case (Wait w)
    then have u: "untouched b0 b'" using acc by simp
    show ?thesis
    proof (cases "deadline - clock st \<le> 0")
      case True
      obtain v st2 where ex: "exhausted env ?st1 = (v, st2)" by force
      have "r = Inl v" "st' = st2" using Suc.prems(1) True ex by (simp_all add: assms(3) a Wait)
      then show ?thesis using exhausted_account [OF ex _ u assms(3)] by simp
    next
      case False
      obtain stopped st2 where sl: "sleep_cancellable env (min w (deadline - clock st)) ?st1 = (stopped, st2)" by force
      have sh: "shared st2 = Some b'" using sleep_clock(3) [OF sl lag] by simp
      show ?thesis
      proof (cases "stopped \<or> cancel_is_set env (clock st2)")
        case True
        then have "r = Inl Cancelled" "st' = st2" using Suc.prems(1) False sl by (auto simp: assms(3) a Wait)
        then show ?thesis using sh u by (simp add: settled_def untouched_def)
      next
        case go: False
        then have "admit_attempt env deadline n b' st2 = (Some r, st')"
          using Suc.prems(1) False sl by (simp add: assms(3) a Wait)
        then show ?thesis by (rule Suc.IH [OF _ u])
      qed
    qed
  qed
qed simp

lemma attempt_account: "run_attempt env st = (e, st') \<Longrightarrow> shared st' = shared st"
  by (auto simp: run_attempt_def Let_def split: prod.splits if_splits option.splits)

lemma resolve_account:
  assumes "shared st = Some b" "holding t b0 b" "others env = (\<lambda>_ b. b)"
  shows "\<exists>b'. shared (resolve env (Some t) ending st) = Some b'
    \<and> (case ending of Produced r \<Rightarrow> settled b0 (Returned r) b' | _ \<Rightarrow> untouched b0 b')"
  using assms
  by (auto simp: resolve_def with_breaker_def holding_def settled_def untouched_def attempt_succeeded_def
      attempt_failed_capacity_def abandon_attempt_def split: attempt_end.split llm_failure.split)

lemma loop_account:
  assumes "recovery_loop env pol rc deadline fuel st = Some (v, st')" "shared st = Some b" "untouched b0 b"
    and oth: "others env = (\<lambda>_ b. b)" and lag: "\<And>n. 0 \<le> lag_of env n"
  shows "\<exists>b'. shared st' = Some b' \<and> settled b0 v b'"
  using assms(1-3)
proof (induction fuel arbitrary: st b)
  case (Suc n)
  show ?case
  proof (cases "cancel_is_set env (clock st)")
    case True
    then show ?thesis using Suc.prems by (auto simp: settled_def untouched_def)
  next
    case nc: False
    then obtain x st1 where x: "admit_attempt env deadline (Suc n) b st = (Some x, st1)"
      using Suc.prems(1,2)
      by (cases "admit_attempt env deadline (Suc n) b st"; cases "fst (admit_attempt env deadline (Suc n) b st)")
        (auto simp del: admit_attempt.simps)
    obtain b1 where b1: "shared st1 = Some b1" "case x of Inl v \<Rightarrow> settled b0 v b1 | Inr t \<Rightarrow> holding t b0 b1"
      using admit_account [OF x Suc.prems(3) oth lag] by blast
    show ?thesis
    proof (cases x)
      case (Inl w)
      then have "v = w" "st' = st1" using Suc.prems(1,2) nc x by (auto simp del: admit_attempt.simps)
      then show ?thesis using b1 Inl by simp
    next
      case (Inr t)
      obtain ending st2 where at: "run_attempt env st1 = (ending, st2)" by force
      let ?st3 = "resolve env (Some t) ending st2"
      obtain b3 where b3: "shared ?st3 = Some b3" "case ending of Produced r \<Rightarrow> settled b0 (Returned r) b3 | _ \<Rightarrow> untouched b0 b3"
        using resolve_account [of st2 b1 t b0 env ending] b1 Inr attempt_account [OF at] oth by auto
      have loop: "(case ending of
           Produced r \<Rightarrow> Some (Returned r, ?st3)
         | Attempt_cancelled \<Rightarrow> Some (Cancelled, ?st3)
         | Fails e \<Rightarrow>
             if \<not> retryable rc e then Some (Raised e, ?st3)
             else
               (let st4 = ?st3\<lparr>last_error := Some e\<rparr>; remaining = deadline - clock st4 in
                if remaining \<le> 0 then Some (exhausted env st4)
                else
                  (let w = retry_wait pol (draw_of env (move st4)) (retry_index st4) e remaining;
                       (stopped, st5) = sleep_cancellable env w (st4\<lparr>retry_index := retry_index st4 + 1\<rparr>)
                   in if stopped then Some (Cancelled, st5)
                      else recovery_loop env pol rc deadline n st5))) = Some (v, st')"
        using Suc.prems(1,2) nc x Inr at by (simp del: admit_attempt.simps add: Let_def)
      show ?thesis
      proof (cases ending)
        case (Fails e)
        have u: "untouched b0 b3" using b3(2) Fails by simp
        show ?thesis
        proof (cases "retryable rc e")
          case False
          then have "v = Raised e" "st' = ?st3" "\<forall>s. e \<noteq> Capacity s"
            using loop Fails by (auto simp: retryable_def)
          then show ?thesis using b3(1) u by (auto simp: settled_def untouched_def split: llm_failure.split)
        next
          case True
          let ?st4 = "?st3\<lparr>last_error := Some e\<rparr>"
          show ?thesis
          proof (cases "deadline - clock ?st4 \<le> 0")
            case True
            then have "exhausted env ?st4 = (v, st')" using loop Fails \<open>retryable rc e\<close> by (simp add: Let_def)
            then show ?thesis using exhausted_account [OF _ _ u oth, of ?st4 v st'] b3(1) by simp
          next
            case left: False
            obtain stopped st5 where sl: "sleep_cancellable env
                (retry_wait pol (draw_of env (move ?st4)) (retry_index ?st4) e (deadline - clock ?st4))
                (?st4\<lparr>retry_index := retry_index ?st4 + 1\<rparr>) = (stopped, st5)" by force
            have sh: "shared st5 = Some b3" using sleep_clock(3) [OF sl lag] b3(1) by simp
            show ?thesis
            proof (cases stopped)
              case True
              then have "v = Cancelled" "st' = st5" using loop Fails \<open>retryable rc e\<close> left sl by (simp_all add: Let_def)
              then show ?thesis using sh u by (simp add: settled_def untouched_def)
            next
              case False
              then have "recovery_loop env pol rc deadline n st5 = Some (v, st')"
                using loop Fails \<open>retryable rc e\<close> left sl by (simp add: Let_def)
              then show ?thesis by (rule Suc.IH [OF _ sh u])
            qed
          qed
        qed
      qed (use loop b3 in \<open>auto simp: settled_def untouched_def\<close>)
    qed
  qed
qed simp

text \<open>
  C21: one logical generation settles exactly once with the capacity breaker. With no other caller in between,
  and every attempt taking at least some time \<open>delta\<close>, a generation ends, and with its end: if it
  returns, the breaker is closed and its count reset; if it ends in a capacity error, whether its attempts
  failed or it waited the whole budget for admission, exactly one failed generation was counted, however many
  attempts it made; any other ending counts nothing. In every case no probe of the run is left outstanding.
\<close>

theorem recovery_settles_once:
  assumes "max 0 (case override of Some d \<Rightarrow> d | None \<Rightarrow> deadline_seconds pol) \<le> of_nat N * delta"
    and "0 < delta" "delta \<le> 1 / 10"
    and "\<And>n. 0 \<le> lag_of env n" "\<And>n. delta \<le> fst (attempt_of env n)"
    and "others env = (\<lambda>_ b. b)"
  shows "\<exists>v st b'. (\<forall>fuel\<ge>N + 2. generate_with_recovery env pol (Some b) override rc now fuel = Some (v, st))
    \<and> shared st = Some b' \<and> (probe_token b' = probe_token b \<or> probe_token b' = None)
    \<and> (case v of
         Returned _ \<Rightarrow> \<not> opened b' \<and> failed_generations b' = 0
       | Raised (Capacity _) \<Rightarrow> failed_generations b' = failed_generations b + 1
       | _ \<Rightarrow> failed_generations b' = failed_generations b)"
proof -
  obtain v st where r: "\<forall>fuel\<ge>N + 2. generate_with_recovery env pol (Some b) override rc now fuel = Some (v, st)"
    using generation_total [OF assms(1-5), of "Some b" rc now] by (metis surj_pair)
  then have "generate_with_recovery env pol (Some b) override rc now (N + 2) = Some (v, st)" by simp
  moreover have u: "untouched b b" by (simp add: untouched_def)
  ultimately obtain b' where "shared st = Some b'" "settled b v b'"
    using loop_account [OF _ _ u assms(6,4)] unfolding generate_with_recovery_def Let_def by fastforce
  then show ?thesis using r unfolding settled_def by blast
qed

theorem recovery_settles_once_witness:
  "\<exists>st b'. generate_with_recovery ex_surroundings (default_policy_values\<lparr>deadline_seconds := 4\<rparr>)
      (Some (new_breaker ''codex:m'' 1 30 300)) None True 0 42 = Some (Raised (Capacity (Some 3)), st)
     \<and> shared st = Some b' \<and> failed_generations b' = 1"
proof -
  let ?run = "generate_with_recovery ex_surroundings (default_policy_values\<lparr>deadline_seconds := 4\<rparr>)
      (Some (new_breaker ''codex:m'' 1 30 300)) None True 0 42"
  have b: "max 0 (case None of Some d \<Rightarrow> d | None \<Rightarrow> deadline_seconds (default_policy_values\<lparr>deadline_seconds := 4\<rparr>)) \<le> of_nat 40 * (1 / 10 :: rat)"
    by simp
  have "others ex_surroundings = (\<lambda>_ b. b)" "\<And>n. 0 \<le> lag_of ex_surroundings n" "\<And>n. 1 / 10 \<le> fst (attempt_of ex_surroundings n)"
    by (simp_all add: ex_surroundings_def)
  then obtain v st b' where r: "\<forall>fuel\<ge>40 + 2. generate_with_recovery ex_surroundings (default_policy_values\<lparr>deadline_seconds := 4\<rparr>)
      (Some (new_breaker ''codex:m'' 1 30 300)) None True 0 fuel = Some (v, st)" "shared st = Some b'"
      "case v of Returned _ \<Rightarrow> \<not> opened b' \<and> failed_generations b' = 0
       | Raised (Capacity _) \<Rightarrow> failed_generations b' = failed_generations (new_breaker ''codex:m'' 1 30 300) + 1
       | _ \<Rightarrow> failed_generations b' = failed_generations (new_breaker ''codex:m'' 1 30 300)"
    using recovery_settles_once [OF b, of ex_surroundings "new_breaker ''codex:m'' 1 30 300" True 0] by auto
  have "map_option fst ?run = Some (Raised (Capacity (Some 3)))" by code_simp
  moreover have "?run = Some (v, st)" using r(1) by simp
  ultimately have v: "v = Raised (Capacity (Some 3))" by simp
  moreover have "failed_generations (new_breaker ''codex:m'' 1 30 300) = 0" by (simp add: new_breaker_def)
  ultimately show ?thesis using r \<open>?run = Some (v, st)\<close> by auto
qed

end
