(* ===== verification/Host_Access.thy ===== *)
theory Host_Access
  imports Policy_File
begin

text \<open>
  \<^verbatim>\<open>src/permissions/host_access.py\<close>: which hosts a user may target, and the default host. The
  inventory of a decision is one read of \<^verbatim>\<open>available_hosts\<close>: the provider's list when there is a
  provider (the argument \<open>provided\<close>), the manager's own list otherwise. The request scope and the
  request default are the values of context variables.
\<close>

section \<open>Entries and their JSON\<close>

record host_entry =
  allowed_hosts :: "string list option"
  default_host :: string

definition entry_to_dict :: "host_entry \<Rightarrow> json" where
  "entry_to_dict e =
     JObj [(''allowed_hosts'', case allowed_hosts e of None \<Rightarrow> JNull | Some hs \<Rightarrow> JList (map JStr hs)),
           (''default_host'', JStr (default_host e))]"

definition entry_from_dict :: "dict \<Rightarrow> host_entry" where
  "entry_from_dict d =
     \<lparr>allowed_hosts = (case jget ''allowed_hosts'' d of Some (JList vs) \<Rightarrow> Some (map text_in vs) | _ \<Rightarrow> None),
      default_host = (case jget ''default_host'' d of Some v \<Rightarrow> text_in v | None \<Rightarrow> [])\<rparr>"

definition entry_valid :: "json \<Rightarrow> bool" where
  "entry_valid v \<longleftrightarrow> is_dict v
     \<and> (case jget ''allowed_hosts'' (entries v) of None \<Rightarrow> True | Some a \<Rightarrow> a = JNull \<or> list_of is_str a)
     \<and> (case jget ''default_host'' (entries v) of None \<Rightarrow> True | Some h \<Rightarrow> is_str h)"

definition sub_object :: "string \<Rightarrow> dict \<Rightarrow> json" where
  "sub_object key data = (case jget key data of Some v \<Rightarrow> v | None \<Rightarrow> JObj [])"

definition validate_host_access :: "dict \<Rightarrow> bool" where
  "validate_host_access data \<longleftrightarrow>
     (let policy = sub_object ''default_policy'' data; us = sub_object ''users'' data in
      is_dict policy \<and> is_dict us \<and> list_all (\<lambda>p. entry_valid (snd p)) ((''default_policy'', policy) # entries us))"

section \<open>The manager\<close>

record host_manager =
  host_users :: "(string \<times> host_entry) list"
  default_policy :: host_entry
  hosts_corrupt :: bool
  own_hosts :: "string list"
  hosts_degraded :: bool

definition unrestricted :: host_entry where
  "unrestricted = \<lparr>allowed_hosts = None, default_host = []\<rparr>"

definition decode_hosts :: "dict \<Rightarrow> (string \<times> host_entry) list \<times> host_entry" where
  "decode_hosts data =
     (map (\<lambda>p. (fst p, entry_from_dict (entries (snd p)))) (entries (sub_object ''users'' data)),
      entry_from_dict (entries (sub_object ''default_policy'' data)))"

definition encode_hosts :: "(string \<times> host_entry) list \<Rightarrow> host_entry \<Rightarrow> json" where
  "encode_hosts us policy =
     JObj [(''default_policy'', entry_to_dict policy),
           (''users'', JObj (map (\<lambda>p. (fst p, entry_to_dict (snd p))) us))]"

definition load_hosts :: "policy_file \<Rightarrow> host_manager \<Rightarrow> host_manager" where
  "load_hosts f m =
     (let (data, ok) = load_json_store_safe validate_host_access f in
      if \<not> ok then m\<lparr>host_users := [], default_policy := \<lparr>allowed_hosts = Some [], default_host = []\<rparr>, hosts_corrupt := True\<rparr>
      else m\<lparr>host_users := fst (decode_hosts data), default_policy := snd (decode_hosts data), hosts_corrupt := False\<rparr>)"

definition new_host_manager :: "string list \<Rightarrow> policy_file \<Rightarrow> host_manager" where
  "new_host_manager hosts f =
     load_hosts f
       \<lparr>host_users = [], default_policy = unrestricted, hosts_corrupt = False, own_hosts = hosts, hosts_degraded = False\<rparr>"

definition load_for_write :: "policy_file \<Rightarrow> policy_error + (string \<times> host_entry) list \<times> host_entry" where
  "load_for_write f = (case load_json_store validate_host_access f of Inl e \<Rightarrow> Inl e | Inr d \<Rightarrow> Inr (decode_hosts d))"

definition available_hosts :: "string list option \<Rightarrow> host_manager \<Rightarrow> string list" where
  "available_hosts provided m = (case provided of Some hs \<Rightarrow> hs | None \<Rightarrow> own_hosts m)"

definition set_available_hosts :: "string list \<Rightarrow> host_manager \<Rightarrow> host_manager" where
  "set_available_hosts hosts m = m\<lparr>own_hosts := hosts\<rparr>"

definition has_user_entry :: "string \<Rightarrow> host_manager \<Rightarrow> bool" where
  "has_user_entry user m \<longleftrightarrow> jhas user (host_users m)"

definition get_entry :: "string \<Rightarrow> host_manager \<Rightarrow> host_entry" where
  "get_entry user m = (case jget user (host_users m) of Some e \<Rightarrow> e | None \<Rightarrow> default_policy m)"

definition get_allowed_hosts :: "string list option \<Rightarrow> string list option \<Rightarrow> string \<Rightarrow> host_manager \<Rightarrow> string list" where
  "get_allowed_hosts scope provided user m =
     (if hosts_corrupt m then []
      else
        (let available = available_hosts provided m in
         case scope of
           Some sc \<Rightarrow>
             if \<not> has_user_entry user m then filter (\<lambda>h. h \<in> set available) sc
             else filter (\<lambda>h. h \<in> set sc)
                (case allowed_hosts (get_entry user m) of
                   None \<Rightarrow> available | Some hs \<Rightarrow> filter (\<lambda>h. h \<in> set available) hs)
         | None \<Rightarrow>
             (case allowed_hosts (get_entry user m) of
                None \<Rightarrow> available | Some hs \<Rightarrow> filter (\<lambda>h. h \<in> set available) hs)))"

text \<open>The inventory is read here (\<open>provided\<close>) and again inside \<^verbatim>\<open>get_allowed_hosts\<close> (\<open>provided'\<close>).\<close>

definition get_default_host ::
  "string list option \<Rightarrow> string \<Rightarrow> string list option \<Rightarrow> string list option \<Rightarrow> string \<Rightarrow> host_manager \<Rightarrow> string" where
  "get_default_host scope request_default provided provided' user m =
     (if hosts_corrupt m then []
      else
        (let available = available_hosts provided m; e = get_entry user m in
         if request_default \<noteq> [] \<and> request_default \<in> set available
            \<and> request_default \<in> set (get_allowed_hosts scope provided' user m)
         then request_default
         else case scope of
             Some sc \<Rightarrow>
               if \<not> has_user_entry user m then
                 (if request_default \<in> set (filter (\<lambda>h. h \<in> set available) sc) then request_default else [])
               else if default_host e \<noteq> [] \<and> default_host e \<in> set available \<and> default_host e \<in> set sc
                 then default_host e else []
           | None \<Rightarrow> if default_host e \<noteq> [] \<and> default_host e \<in> set available then default_host e else []))"

definition is_host_allowed :: "string list option \<Rightarrow> string list option \<Rightarrow> string \<Rightarrow> string \<Rightarrow> host_manager \<Rightarrow> bool" where
  "is_host_allowed scope provided user host m \<longleftrightarrow> host \<in> set (get_allowed_hosts scope provided user m)"

section \<open>Mutations\<close>

definition publish_hosts ::
  "publication \<Rightarrow> (string \<times> host_entry) list \<Rightarrow> host_entry \<Rightarrow> policy_file \<Rightarrow> host_manager
     \<Rightarrow> policy_error option \<times> policy_file \<times> host_manager" where
  "publish_hosts p us policy f m =
     (case write_private_atomic p (encode_hosts us policy) f of
        (None, f') \<Rightarrow> (Some Publication_failed, f', m)
      | (Some durable, f') \<Rightarrow>
          (None, f', m\<lparr>hosts_degraded := \<not> durable, host_users := us, default_policy := policy, hosts_corrupt := False\<rparr>))"

definition user_entry :: "string list \<Rightarrow> string list option \<Rightarrow> string \<Rightarrow> host_entry" where
  "user_entry available allowed dh =
     (let valid = map_option (filter (\<lambda>h. h \<in> set available)) allowed;
          dh1 = (if dh \<noteq> [] \<and> (case valid of None \<Rightarrow> True | Some hs \<Rightarrow> dh \<notin> set hs)
                 then (case valid of None \<Rightarrow> dh | Some hs \<Rightarrow> if hs \<noteq> [] then hd hs else [])
                 else dh);
          dh2 = (if dh1 \<noteq> [] \<and> dh1 \<notin> set available then [] else dh1)
      in \<lparr>allowed_hosts = valid, default_host = dh2\<rparr>)"

definition policy_entry :: "string list \<Rightarrow> string list option \<Rightarrow> string \<Rightarrow> host_entry" where
  "policy_entry available allowed dh =
     (let valid = map_option (filter (\<lambda>h. h \<in> set available)) allowed;
          dh1 = (if dh \<noteq> [] \<and> dh \<notin> set available then [] else dh);
          dh2 = (case valid of
                   None \<Rightarrow> dh1
                 | Some hs \<Rightarrow> if dh1 \<noteq> [] \<and> dh1 \<notin> set hs then (if hs \<noteq> [] then hd hs else []) else dh1)
      in \<lparr>allowed_hosts = valid, default_host = dh2\<rparr>)"

definition set_user ::
  "publication \<Rightarrow> string list option \<Rightarrow> string \<Rightarrow> string list option \<Rightarrow> string \<Rightarrow> policy_file \<Rightarrow> host_manager
     \<Rightarrow> policy_error option \<times> policy_file \<times> host_manager" where
  "set_user p provided user allowed dh f m =
     (case load_for_write f of
        Inl e \<Rightarrow> (Some e, f, m)
      | Inr (us, policy) \<Rightarrow>
          publish_hosts p (jset user (user_entry (available_hosts provided m) allowed dh) us) policy f m)"

text \<open>The result is the previous entry, if there was one.\<close>

definition delete_user_entry ::
  "publication \<Rightarrow> string \<Rightarrow> policy_file \<Rightarrow> host_manager \<Rightarrow> (policy_error + host_entry option) \<times> policy_file \<times> host_manager" where
  "delete_user_entry p user f m =
     (case load_for_write f of
        Inl e \<Rightarrow> (Inl e, f, m)
      | Inr (us, policy) \<Rightarrow>
          (case jget user us of
             Some previous \<Rightarrow>
               (case publish_hosts p (jdel user us) policy f m of
                  (Some e, f', m') \<Rightarrow> (Inl e, f', m')
                | (None, f', m') \<Rightarrow> (Inr (Some previous), f', m'))
           | None \<Rightarrow> (Inr None, f, m\<lparr>host_users := us, default_policy := policy, hosts_corrupt := False\<rparr>)))"

definition delete_user :: "publication \<Rightarrow> string \<Rightarrow> policy_file \<Rightarrow> host_manager \<Rightarrow> (policy_error + bool) \<times> policy_file \<times> host_manager" where
  "delete_user p user f m =
     (case delete_user_entry p user f m of
        (Inl e, r) \<Rightarrow> (Inl e, r) | (Inr previous, r) \<Rightarrow> (Inr (previous \<noteq> None), r))"

definition set_default_policy ::
  "publication \<Rightarrow> string list option \<Rightarrow> string list option \<Rightarrow> string \<Rightarrow> policy_file \<Rightarrow> host_manager
     \<Rightarrow> policy_error option \<times> policy_file \<times> host_manager" where
  "set_default_policy p provided allowed dh f m =
     (case load_for_write f of
        Inl e \<Rightarrow> (Some e, f, m)
      | Inr (us, _) \<Rightarrow> publish_hosts p us (policy_entry (available_hosts provided m) allowed dh) f m)"

definition list_host_users :: "host_manager \<Rightarrow> (string \<times> json) list" where
  "list_host_users m = map (\<lambda>p. (fst p, entry_to_dict (snd p))) (host_users m)"

section \<open>What the policy promises\<close>

text \<open>What is written is read back.\<close>

lemma entry_round_trip: "entry_from_dict (entries (entry_to_dict e)) = e"
  by (cases e) (simp add: entry_from_dict_def entry_to_dict_def jget_Cons comp_def split: option.split)

lemma entry_to_dict_valid: "entry_valid (entry_to_dict e)"
  by (auto simp: entry_valid_def entry_to_dict_def is_dict_def jget_Cons list_of_def is_str_def list_all_iff
      split: option.split)

lemma hosts_round_trip:
  "load_for_write (Holds (encode_hosts us policy)) = Inr (us, policy)"
proof -
  have "validate_host_access [(''default_policy'', entry_to_dict policy),
      (''users'', JObj (map (\<lambda>p. (fst p, entry_to_dict (snd p))) us))]"
    by (simp add: validate_host_access_def sub_object_def jget_Cons is_dict_def Let_def list_all_iff entry_to_dict_valid)
      (simp add: entry_to_dict_def)
  then show ?thesis
    by (simp add: load_for_write_def encode_hosts_def decode_hosts_def sub_object_def jget_Cons entry_round_trip comp_def)
qed

lemma allowed_confined:
  assumes "h \<in> set (get_allowed_hosts scope provided user m)"
  shows "\<not> hosts_corrupt m \<and> h \<in> set (available_hosts provided m)
    \<and> (case scope of Some sc \<Rightarrow> h \<in> set sc | None \<Rightarrow> True)
    \<and> (if has_user_entry user m \<or> scope = None
       then case allowed_hosts (get_entry user m) of Some hs \<Rightarrow> h \<in> set hs | None \<Rightarrow> True else True)"
  using assms
  by (cases scope; cases "allowed_hosts (get_entry user m)")
    (auto simp: get_allowed_hosts_def Let_def split: if_splits)

lemma default_confined:
  "get_default_host scope rd provided provided' user m = []
   \<or> get_default_host scope rd provided provided' user m \<in> set (available_hosts provided m)
     \<and> (case scope of Some sc \<Rightarrow> get_default_host scope rd provided provided' user m \<in> set sc | None \<Rightarrow> True)"
proof (cases "rd \<noteq> [] \<and> rd \<in> set (available_hosts provided m) \<and> rd \<in> set (get_allowed_hosts scope provided' user m)")
  case True
  have sc: "case scope of Some sc \<Rightarrow> rd \<in> set sc | None \<Rightarrow> True"
    using allowed_confined [of rd scope provided' user m] True by blast
  show ?thesis
  proof (cases "hosts_corrupt m")
    case False
    then have e: "get_default_host scope rd provided provided' user m = rd"
      using True by (simp add: get_default_host_def Let_def)
    show ?thesis unfolding e using True sc by simp
  qed (simp add: get_default_host_def)
next
  case False
  then show ?thesis by (cases scope) (auto simp: get_default_host_def Let_def)
qed

text \<open>
  No decision leaves the inventory, the request scope or the user's whitelist. A host
  \<^verbatim>\<open>is_host_allowed\<close> accepts is in the live inventory; inside a request scope it is in the scope;
  and whenever the user has an entry of its own, or there is no scope, it is in that entry's (or the
  default policy's) whitelist if there is one. A manager whose file was damaged allows nothing.
  The default host is empty or in the inventory and in the scope.
\<close>

theorem host_decisions_confined:
  assumes "is_host_allowed scope provided user host m"
  shows "\<not> hosts_corrupt m \<and> host \<in> set (available_hosts provided m)
    \<and> (case scope of Some sc \<Rightarrow> host \<in> set sc | None \<Rightarrow> True)
    \<and> (if has_user_entry user m \<or> scope = None
       then case allowed_hosts (get_entry user m) of Some hs \<Rightarrow> host \<in> set hs | None \<Rightarrow> True else True)
    \<and> (get_default_host scope request_default provided provided' user m = []
       \<or> get_default_host scope request_default provided provided' user m \<in> set (available_hosts provided m)
         \<and> (case scope of Some sc \<Rightarrow> get_default_host scope request_default provided provided' user m \<in> set sc | None \<Rightarrow> True))"
  using allowed_confined [of host scope provided user m] default_confined [of scope request_default provided provided' user m] assms
  unfolding is_host_allowed_def by blast

definition entry_ok :: "host_entry \<Rightarrow> bool" where
  "entry_ok e \<longleftrightarrow> default_host e = [] \<or> (case allowed_hosts e of None \<Rightarrow> True | Some hs \<Rightarrow> default_host e \<in> set hs)"

definition hosts_ok :: "host_manager \<Rightarrow> bool" where
  "hosts_ok m \<longleftrightarrow> list_all (\<lambda>p. entry_ok (snd p)) (host_users m) \<and> entry_ok (default_policy m)"

lemma hd_filter: "filter P xs \<noteq> [] \<Longrightarrow> hd (filter P xs) \<in> set xs \<and> P (hd (filter P xs))"
  using hd_in_set [of "filter P xs"] by auto

lemma user_entry_ok: "entry_ok (user_entry available allowed dh)"
  using hd_filter [of "\<lambda>h. h \<in> set available" "the allowed"]
  by (cases allowed) (auto simp: user_entry_def entry_ok_def Let_def)

lemma policy_entry_ok: "entry_ok (policy_entry available allowed dh)"
  using hd_filter [of "\<lambda>h. h \<in> set available" "the allowed"]
  by (cases allowed) (auto simp: policy_entry_def entry_ok_def Let_def)

lemma get_entry_ok: "hosts_ok m \<Longrightarrow> entry_ok (get_entry user m)"
  by (auto simp: hosts_ok_def get_entry_def jget_def list_all_iff dest!: map_of_SomeD split: option.split)

text \<open>A file all of whose entries were written by the manager.\<close>

definition file_ok :: "policy_file \<Rightarrow> bool" where
  "file_ok f \<longleftrightarrow> (case load_for_write f of
      Inr (us, policy) \<Rightarrow> list_all (\<lambda>p. entry_ok (snd p)) us \<and> entry_ok policy | Inl _ \<Rightarrow> True)"

lemma publish_hosts_ok:
  assumes "list_all (\<lambda>p. entry_ok (snd p)) us" "entry_ok policy" "file_ok f" "hosts_ok m"
    and "publish_hosts p us policy f m = (r, f', m')"
  shows "file_ok f' \<and> hosts_ok m'"
  using assms
  by (auto simp: publish_hosts_def write_private_atomic_def file_ok_def hosts_ok_def hosts_round_trip split: publication.splits)

lemma list_all_jset: "list_all (\<lambda>p. P (snd p)) kvs \<Longrightarrow> P v \<Longrightarrow> list_all (\<lambda>p. P (snd p)) (jset k v kvs)"
  by (auto simp: jset_def list_all_iff)

lemma list_all_jdel: "list_all P kvs \<Longrightarrow> list_all P (jdel k kvs)"
  by (auto simp: jdel_def list_all_iff)

inductive host_step :: "policy_file \<times> host_manager \<Rightarrow> policy_file \<times> host_manager \<Rightarrow> bool" where
  reload: "host_step (f, m) (f, load_hosts f m)"
| inventory: "host_step (f, m) (f, set_available_hosts hosts m)"
| user: "set_user p provided uid allowed dh f m = (r, f', m') \<Longrightarrow> host_step (f, m) (f', m')"
| deletion: "delete_user_entry p uid f m = (r, f', m') \<Longrightarrow> host_step (f, m) (f', m')"
| policy: "set_default_policy p provided allowed dh f m = (r, f', m') \<Longrightarrow> host_step (f, m) (f', m')"

lemma host_step_ok: "host_step s t \<Longrightarrow> file_ok (fst s) \<and> hosts_ok (snd s) \<Longrightarrow> file_ok (fst t) \<and> hosts_ok (snd t)"
proof (induction rule: host_step.induct)
  case (reload f m)
  have "entry_ok \<lparr>allowed_hosts = Some [], default_host = []\<rparr>" by (simp add: entry_ok_def)
  then show ?case
    using reload by (cases "load_json_store validate_host_access f")
      (auto simp: load_hosts_def load_safe_simps file_ok_def load_for_write_def hosts_ok_def split: prod.splits)
next
  case (inventory f m hosts)
  then show ?case by (simp add: hosts_ok_def set_available_hosts_def)
next
  case (user p provided uid allowed dh f m r f' m')
  show ?case
  proof (cases "load_for_write f")
    case (Inr q)
    obtain us pol where q: "q = (us, pol)" by force
    have u: "list_all (\<lambda>p. entry_ok (snd p)) us" "entry_ok pol" using user Inr q by (auto simp: file_ok_def)
    have e: "publish_hosts p (jset uid (user_entry (available_hosts provided m) allowed dh) us) pol f m = (r, f', m')"
      using user(1) Inr q by (simp add: set_user_def)
    have "file_ok f" "hosts_ok m" using user(2) by simp_all
    then show ?thesis
      using publish_hosts_ok [OF list_all_jset [of entry_ok, OF u(1) user_entry_ok] u(2) _ _ e] by simp
  qed (use user in \<open>simp add: set_user_def\<close>)
next
  case (deletion p uid f m r f' m')
  show ?case
  proof (cases "load_for_write f")
    case (Inr q)
    obtain us pol where q: "q = (us, pol)" by force
    have u: "list_all (\<lambda>p. entry_ok (snd p)) us" "entry_ok pol" using deletion Inr q by (auto simp: file_ok_def)
    have ok: "file_ok f" "hosts_ok m" using deletion(2) by simp_all
    show ?thesis
    proof (cases "jget uid us")
      case None
      then have "f' = f" "m' = m\<lparr>host_users := us, default_policy := pol, hosts_corrupt := False\<rparr>"
        using deletion(1) Inr q by (simp_all add: delete_user_entry_def)
      then show ?thesis using ok u by (simp add: hosts_ok_def)
    next
      case (Some previous)
      obtain r1 f1 m1 where e: "publish_hosts p (jdel uid us) pol f m = (r1, f1, m1)" by (metis prod_cases3)
      then have "f' = f1" "m' = m1"
        using deletion(1) Inr q Some by (auto simp: delete_user_entry_def split: option.splits)
      then show ?thesis using publish_hosts_ok [OF list_all_jdel [OF u(1), of uid] u(2) ok e] by simp
    qed
  qed (use deletion in \<open>simp add: delete_user_entry_def\<close>)
next
  case (policy p provided allowed dh f m r f' m')
  show ?case
  proof (cases "load_for_write f")
    case (Inr q)
    obtain us pol where q: "q = (us, pol)" by force
    have u: "list_all (\<lambda>p. entry_ok (snd p)) us" using policy Inr q by (auto simp: file_ok_def)
    have e: "publish_hosts p us (policy_entry (available_hosts provided m) allowed dh) f m = (r, f', m')"
      using policy(1) Inr q by (simp add: set_default_policy_def)
    have "file_ok f" "hosts_ok m" using policy(2) by simp_all
    then show ?thesis using publish_hosts_ok [OF u policy_entry_ok _ _ e] by simp
  qed (use policy in \<open>simp add: set_default_policy_def\<close>)
qed

interpretation hosts: step_invariant host_step "\<lambda>s. file_ok (fst s) \<and> hosts_ok (snd s)"
  by unfold_locales (rule host_step_ok)

lemma default_of_ok_entry:
  assumes "entry_ok (get_entry user m)"
  shows "get_default_host scope rd provided provided user m = []
    \<or> get_default_host scope rd provided provided user m \<in> set (get_allowed_hosts scope provided user m)"
proof (cases "rd \<noteq> [] \<and> rd \<in> set (available_hosts provided m) \<and> rd \<in> set (get_allowed_hosts scope provided user m)")
  case True
  then show ?thesis by (simp add: get_default_host_def Let_def)
next
  case False
  let ?dh = "default_host (get_entry user m)"
  have white: "?dh = [] \<or> (case allowed_hosts (get_entry user m) of None \<Rightarrow> True | Some hs \<Rightarrow> ?dh \<in> set hs)"
    using assms by (simp add: entry_ok_def)
  show ?thesis
  proof (cases "hosts_corrupt m")
    case True
    then show ?thesis by (simp add: get_default_host_def)
  next
    case notcorrupt: False
    show ?thesis
    proof (cases scope)
      case None
      then show ?thesis using False notcorrupt white
        by (cases "allowed_hosts (get_entry user m)") (auto simp: get_default_host_def get_allowed_hosts_def Let_def)
    next
      case (Some sc)
      show ?thesis
      proof (cases "has_user_entry user m")
        case True
        then show ?thesis using Some False notcorrupt white
          by (cases "allowed_hosts (get_entry user m)") (auto simp: get_default_host_def get_allowed_hosts_def Let_def)
      next
        case h: False
        then show ?thesis using Some False notcorrupt
          by (simp add: get_default_host_def get_allowed_hosts_def Let_def)
      qed
    qed
  qed
qed

text \<open>
  The default host is always an allowed one. Starting from no file, after any sequence of
  reloads, inventory changes and mutations (failed publications included), the default host of
  a decision is empty or a host \<^verbatim>\<open>is_host_allowed\<close> accepts for the same user, scope and inventory.
\<close>

theorem default_host_allowed:
  assumes "host_step\<^sup>*\<^sup>* (Absent, new_host_manager hosts Absent) (f, m)"
  shows "get_default_host scope request_default provided provided user m = []
    \<or> is_host_allowed scope provided user (get_default_host scope request_default provided provided user m) m"
proof -
  have "file_ok Absent \<and> hosts_ok (new_host_manager hosts Absent)" by code_simp
  then have "hosts_ok m" using hosts.steps_inv [OF assms] by simp
  then have ok: "entry_ok (get_entry user m)" by (rule get_entry_ok)
  show ?thesis unfolding is_host_allowed_def by (rule default_of_ok_entry [OF ok])
qed

theorem default_host_allowed_witness:
  "let m = snd (snd (set_user Published (Some [''web'', ''db'']) ''7'' (Some [''db'']) ''web'' Absent
                      (new_host_manager [] Absent)))
   in is_host_allowed None (Some [''web'', ''db'']) ''7'' (get_default_host None [] (Some [''web'', ''db'']) (Some [''web'', ''db'']) ''7'' m) m"
proof -
  let ?r = "set_user Published (Some [''web'', ''db'']) ''7'' (Some [''db'']) ''web'' Absent (new_host_manager [] Absent)"
  have "host_step (Absent, new_host_manager [] Absent) (fst (snd ?r), snd (snd ?r))"
    by (rule host_step.user [of _ _ _ _ _ _ _ "fst ?r"]) simp
  then have s: "host_step\<^sup>*\<^sup>* (Absent, new_host_manager [] Absent) (fst (snd ?r), snd (snd ?r))" by simp
  have "get_default_host None [] (Some [''web'', ''db'']) (Some [''web'', ''db'']) ''7'' (snd (snd ?r)) \<noteq> []" by code_simp
  then show ?thesis
    using default_host_allowed [OF s, of None "[]" "Some [''web'', ''db'']" "''7''"] by (simp add: Let_def)
qed

text \<open>
  The start from an empty file is needed: the load accepts a hand-written entry whose default
  host is outside its own whitelist, and \<^verbatim>\<open>get_default_host\<close> then returns a host that is not allowed.
\<close>

lemma edited_default_not_allowed:
  "let m = new_host_manager [''web'', ''db''] (Holds (JObj [(''users'', JObj [(''7'',
             JObj [(''allowed_hosts'', JList [JStr ''db'']), (''default_host'', JStr ''web'')])])]))
   in get_default_host None [] None None ''7'' m = ''web'' \<and> \<not> is_host_allowed None None ''7'' ''web'' m"
  by code_simp

theorem host_decisions_confined_witness:
  "\<not> hosts_corrupt (new_host_manager [''web''] Absent)"
proof -
  have "is_host_allowed (Some [''web'', ''db'']) None ''7'' ''web'' (new_host_manager [''web''] Absent)" by code_simp
  from host_decisions_confined [OF this] show ?thesis by (rule conjunct1)
qed

end
