(* ===== verification/Geometry.thy ===== *)
theory Geometry
  imports Json_Text
begin

text \<open>
  \<^verbatim>\<open>src/computer/geometry.py\<close>: exact maps between the pixels of a delivered image, the source and
  the input region. \<^verbatim>\<open>Fraction\<close> is \<^typ>\<open>rat\<close>; every constructor refuses a numerator or denominator
  of more than 256 bits. Values of the wrong Python type (the \<^verbatim>\<open>isinstance\<close> checks) are excluded by
  the types here.
\<close>

definition MAX_SOURCE_DIMENSION :: int where "MAX_SOURCE_DIMENSION = 1000000"

datatype geometry_error =
    Rational_too_large | Invalid_opaque_identity | Invalid_source_dimension | Singular_transform
  | Invalid_crop | Invalid_rotation | Invalid_generation | Invalid_input_extent
  | Input_mapping_unknown | Outside_delivered_image | Outside_source | Outside_input_region

definition small_rational :: "rat \<Rightarrow> bool" where
  "small_rational r \<longleftrightarrow> (let (n, d) = quotient_of r in \<bar>n\<bar> < 2 ^ 256 \<and> d < 2 ^ 256)"

definition rational :: "rat \<Rightarrow> geometry_error + rat" where
  "rational r = (if small_rational r then Inr r else Inl Rational_too_large)"

definition opaque_char :: "char \<Rightarrow> bool" where
  "opaque_char c \<longleftrightarrow> (let n = (of_char c :: nat) in
     (48 \<le> n \<and> n \<le> 57) \<or> (65 \<le> n \<and> n \<le> 90) \<or> (97 \<le> n \<and> n \<le> 122) \<or> c = CHR ''_'' \<or> c = CHR ''-'')"

definition opaque_id :: "string \<Rightarrow> geometry_error + string" where
  "opaque_id v = (if 1 \<le> length v \<and> length v \<le> 96 \<and> list_all opaque_char v then Inr v else Inl Invalid_opaque_identity)"

definition dimension_ok :: "int \<Rightarrow> bool" where
  "dimension_ok v \<longleftrightarrow> 1 \<le> v \<and> v \<le> MAX_SOURCE_DIMENSION"

definition rotations :: "int list" where "rotations = [0, 90, 180, 270]"

section \<open>Affine transforms\<close>

text \<open>Pixel edge coordinates: the point \<open>(a x + b y + c, d x + e y + f)\<close>.\<close>

record affine =
  ta :: rat
  tb :: rat
  tc :: rat
  td :: rat
  te :: rat
  tf :: rat

definition determinant :: "affine \<Rightarrow> rat" where
  "determinant t = ta t * te t - tb t * td t"

definition affine_transform :: "rat \<Rightarrow> rat \<Rightarrow> rat \<Rightarrow> rat \<Rightarrow> rat \<Rightarrow> rat \<Rightarrow> geometry_error + affine" where
  "affine_transform a b c d e f =
     (if \<not> list_all small_rational [a, b, c, d, e, f] then Inl Rational_too_large
      else if a * e - b * d = 0 then Inl Singular_transform
      else Inr \<lparr>ta = a, tb = b, tc = c, td = d, te = e, tf = f\<rparr>)"

definition map_point :: "affine \<Rightarrow> rat \<Rightarrow> rat \<Rightarrow> geometry_error + rat \<times> rat" where
  "map_point t x y =
     (if small_rational x \<and> small_rational y then Inr (ta t * x + tb t * y + tc t, td t * x + te t * y + tf t)
      else Inl Rational_too_large)"

definition compose :: "affine \<Rightarrow> affine \<Rightarrow> geometry_error + affine" where
  "compose s t = affine_transform
     (ta s * ta t + tb s * td t) (ta s * tb t + tb s * te t) (ta s * tc t + tb s * tf t + tc s)
     (td s * ta t + te s * td t) (td s * tb t + te s * te t) (td s * tc t + te s * tf t + tf s)"

definition inverse_transform :: "affine \<Rightarrow> geometry_error + affine" where
  "inverse_transform t =
     (let det = determinant t in affine_transform
        (te t / det) (- tb t / det) ((tb t * tf t - te t * tc t) / det)
        (- td t / det) (ta t / det) ((td t * tc t - ta t * tf t) / det))"

definition fraction_json :: "rat \<Rightarrow> json" where
  "fraction_json r = (let (n, d) = quotient_of r in JList [JInt n, JInt d])"

definition affine_public :: "affine \<Rightarrow> json" where
  "affine_public t = JObj [(''a'', fraction_json (ta t)), (''b'', fraction_json (tb t)), (''c'', fraction_json (tc t)),
     (''d'', fraction_json (td t)), (''e'', fraction_json (te t)), (''f'', fraction_json (tf t))]"

text \<open>Delivered raster edges to source crop edges, for a clockwise delivered rotation.\<close>

definition crop_transform :: "int \<Rightarrow> int \<Rightarrow> int \<Rightarrow> int \<Rightarrow> int \<Rightarrow> int \<Rightarrow> int \<Rightarrow> geometry_error + affine" where
  "crop_transform x y width height dw dh rotation =
     (if \<not> list_all dimension_ok [width, height, dw, dh] then Inl Invalid_source_dimension
      else if min x y < 0 then Inl Invalid_crop
      else if rotation \<notin> set rotations then Inl Invalid_rotation
      else
        (let sx = of_int width / of_int dw; sy = of_int height / of_int dh;
             rx = of_int width / of_int dh; ry = of_int height / of_int dw
         in if rotation = 0 then affine_transform sx 0 (of_int x) 0 sy (of_int y)
            else if rotation = 180 then affine_transform (- sx) 0 (of_int (x + width)) 0 (- sy) (of_int (y + height))
            else if rotation = 90 then affine_transform 0 rx (of_int x) (- ry) 0 (of_int (y + height))
            else affine_transform 0 (- rx) (of_int (x + width)) ry 0 (of_int y)))"

section \<open>The geometry of a source\<close>

record input_mapping =
  input_region_id :: string
  input_width :: rat
  input_height :: rat
  pixel_to_input :: affine

record source_geometry =
  source_id :: string
  source_revision :: int
  consent_generation :: int
  pixel_width :: int
  pixel_height :: int
  mapping :: "input_mapping option"
  source_rotation :: int

text \<open>
  The four mapping arguments are all given or all missing here (\<^verbatim>\<open>incomplete_input_mapping\<close> is
  excluded by the type). \<^verbatim>\<open>__post_init__\<close> checks in this order.
\<close>

definition extent_ok :: "rat \<Rightarrow> geometry_error option" where
  "extent_ok e =
     (if \<not> small_rational e then Some Rational_too_large
      else if \<not> (0 < e \<and> e \<le> of_int MAX_SOURCE_DIMENSION) then Some Invalid_input_extent else None)"

definition id_error :: "string \<Rightarrow> geometry_error option" where
  "id_error v = (case opaque_id v of Inl e \<Rightarrow> Some e | Inr _ \<Rightarrow> None)"

definition geometry_failure :: "source_geometry \<Rightarrow> geometry_error option" where
  "geometry_failure g = first_failure
     ([id_error (source_id g),
       if dimension_ok (pixel_width g) then None else Some Invalid_source_dimension,
       if dimension_ok (pixel_height g) then None else Some Invalid_source_dimension,
       if 1 \<le> source_revision g \<and> source_revision g < 2 ^ 63 then None else Some Invalid_generation,
       if 1 \<le> consent_generation g \<and> consent_generation g < 2 ^ 63 then None else Some Invalid_generation,
       if source_rotation g \<in> set rotations then None else Some Invalid_rotation]
      @ (case mapping g of
           None \<Rightarrow> []
         | Some m \<Rightarrow> [id_error (input_region_id m), extent_ok (input_width m), extent_ok (input_height m)]))"

text \<open>A delivered pixel index to the input point of the pixel's centre.\<close>

definition input_point :: "source_geometry \<Rightarrow> affine \<Rightarrow> int \<Rightarrow> int \<Rightarrow> int \<Rightarrow> int \<Rightarrow> geometry_error + rat \<times> rat" where
  "input_point g delivered_to_source x y dw dh =
     (if \<not> dimension_ok dw \<or> \<not> dimension_ok dh then Inl Invalid_source_dimension
      else case mapping g of
          None \<Rightarrow> Inl Input_mapping_unknown
        | Some m \<Rightarrow>
            if \<not> (0 \<le> x \<and> x < dw \<and> 0 \<le> y \<and> y < dh) then Inl Outside_delivered_image
            else case map_point delivered_to_source (of_int (2 * x + 1) / 2) (of_int (2 * y + 1) / 2) of
                Inl e \<Rightarrow> Inl e
              | Inr (sx, sy) \<Rightarrow>
                  if \<not> (0 \<le> sx \<and> sx < of_int (pixel_width g) \<and> 0 \<le> sy \<and> sy < of_int (pixel_height g))
                  then Inl Outside_source
                  else case map_point (pixel_to_input m) sx sy of
                      Inl e \<Rightarrow> Inl e
                    | Inr (ix, iy) \<Rightarrow>
                        if 0 \<le> ix \<and> ix < input_width m \<and> 0 \<le> iy \<and> iy < input_height m then Inr (ix, iy)
                        else Inl Outside_input_region)"

definition source_public :: "source_geometry \<Rightarrow> json" where
  "source_public g = JObj
     [(''source_id'', JStr (source_id g)), (''source_revision'', JInt (source_revision g)),
      (''consent_generation'', JInt (consent_generation g)), (''pixel_width'', JInt (pixel_width g)),
      (''pixel_height'', JInt (pixel_height g)),
      (''input_region_id'', case mapping g of None \<Rightarrow> JNull | Some m \<Rightarrow> JStr (input_region_id m)),
      (''input_width'', case mapping g of None \<Rightarrow> JNull | Some m \<Rightarrow> fraction_json (input_width m)),
      (''input_height'', case mapping g of None \<Rightarrow> JNull | Some m \<Rightarrow> fraction_json (input_height m)),
      (''pixel_to_input'', case mapping g of None \<Rightarrow> JNull | Some m \<Rightarrow> affine_public (pixel_to_input m)),
      (''rotation'', JInt (source_rotation g))]"

section \<open>Exactness\<close>

lemma affine_transform_Inr:
  "affine_transform a b c d e f = Inr t \<longleftrightarrow>
     list_all small_rational [a, b, c, d, e, f] \<and> a * e - b * d \<noteq> 0
     \<and> t = \<lparr>ta = a, tb = b, tc = c, td = d, te = e, tf = f\<rparr>"
  by (auto simp: affine_transform_def)

text \<open>
  The inverse undoes the transform exactly, in both directions: whatever point a
  nonsingular transform maps, its inverse maps back to the same rational point, and the
  composition of the two is the identity on every point it accepts.
\<close>

theorem inverse_round_trip:
  assumes "determinant t \<noteq> 0" "inverse_transform t = Inr u"
    and "map_point t x y = Inr (p, q)" "small_rational p" "small_rational q"
  shows "map_point u p q = Inr (x, y) \<and> inverse_transform u = (if list_all small_rational [ta t, tb t, tc t, td t, te t, tf t] then Inr t else Inl Rational_too_large)
    \<and> (case compose u t of Inr v \<Rightarrow> map_point v x y = Inr (x, y) | Inl e \<Rightarrow> e = Rational_too_large)"
proof -
  define D where "D = determinant t"
  have D: "D \<noteq> 0" "D = ta t * te t - tb t * td t" using assms(1) by (simp_all add: D_def determinant_def)
  have u: "u = \<lparr>ta = te t / D, tb = - tb t / D, tc = (tb t * tf t - te t * tc t) / D,
      td = - td t / D, te = ta t / D, tf = (td t * tc t - ta t * tf t) / D\<rparr>"
    using assms(2) by (simp add: inverse_transform_def Let_def affine_transform_Inr D_def [symmetric])
  have pq: "p = ta t * x + tb t * y + tc t" "q = td t * x + te t * y + tf t" "small_rational x" "small_rational y"
    using assms(3) by (auto simp: map_point_def split: if_splits)
  have "determinant u = (ta t * te t - tb t * td t) / (D * D)"
    unfolding u determinant_def by (simp add: diff_divide_distrib mult.commute)
  then have du: "determinant u = 1 / D" using D(1) unfolding D(2) [symmetric] by simp
  have "map_point u p q = Inr (x, y)"
    using assms(4,5) D unfolding map_point_def u pq by (simp add: field_simps) (simp add: D(2) algebra_simps)
  moreover have "inverse_transform u
      = (if list_all small_rational [ta t, tb t, tc t, td t, te t, tf t] then Inr t else Inl Rational_too_large)"
  proof -
    have "te u / (1 / D) = ta t" "- tb u / (1 / D) = tb t" "- td u / (1 / D) = td t" "ta u / (1 / D) = te t"
      using D(1) by (simp_all add: u)
    moreover have "(tb u * tf u - te u * tc u) / (1 / D) = tc t"
      using D(1) by (simp add: u field_simps) (simp add: D(2) algebra_simps)
    moreover have "(td u * tc u - ta u * tf u) / (1 / D) = tf t"
      using D(1) by (simp add: u field_simps) (simp add: D(2) algebra_simps)
    moreover have "ta t * te t - tb t * td t \<noteq> 0" using D by simp
    ultimately show ?thesis unfolding inverse_transform_def Let_def du by (auto simp: affine_transform_def)
  qed
  moreover have "case compose u t of Inr v \<Rightarrow> map_point v x y = Inr (x, y) | Inl e \<Rightarrow> e = Rational_too_large"
  proof -
    have "ta u * ta t + tb u * td t = 1" "ta u * tb t + tb u * te t = 0" "td u * ta t + te u * td t = 0"
      "td u * tb t + te u * te t = 1" "ta u * tc t + tb u * tf t + tc u = 0" "td u * tc t + te u * tf t + tf u = 0"
      using D(1) by (simp_all add: u field_simps) (simp_all add: D(2) algebra_simps)
    then show ?thesis using pq(3,4) unfolding compose_def by (simp add: affine_transform_def map_point_def)
  qed
  ultimately show ?thesis by blast
qed

definition ex_affine :: affine where
  "ex_affine = \<lparr>ta = 2, tb = 0, tc = 5, td = 0, te = 1 / 3, tf = -1\<rparr>"

theorem inverse_round_trip_witness:
  "\<exists>u. inverse_transform ex_affine = Inr u \<and> map_point ex_affine 7 (1 / 2) = Inr (19, - 5 / 6)
     \<and> map_point u 19 (- 5 / 6) = Inr (7, 1 / 2)"
proof -
  have "(case inverse_transform ex_affine of Inr _ \<Rightarrow> True | Inl _ \<Rightarrow> False)" by code_simp
  then obtain u where u: "inverse_transform ex_affine = Inr u" by (auto split: sum.splits)
  have "determinant ex_affine \<noteq> 0" "map_point ex_affine 7 (1 / 2) = Inr (19, - 5 / 6)" "small_rational 19"
    "small_rational (- 5 / 6)"
    by code_simp+
  with inverse_round_trip [OF _ u] u show ?thesis by blast
qed

section \<open>Crops\<close>

lemma half_pixel_small:
  assumes "0 \<le> i" "i \<le> 1000000"
  shows "small_rational (of_int (2 * i + 1) / 2)"
proof -
  have "quotient_of (Fract (2 * i + 1) 2) = (2 * i + 1, 2)"
    by (simp add: quotient_of_Fract normalize_def Let_def)
  moreover have "of_int (2 * i + 1) / 2 = Fract (2 * i + 1) 2"
    by (simp add: Fract_of_int_quotient)
  ultimately have "quotient_of (of_int (2 * i + 1) / 2) = (2 * i + 1, 2)" by simp
  then show ?thesis using assms by (simp add: small_rational_def)
qed

text \<open>The centre of pixel \<open>i\<close> of \<open>n\<close>, scaled to an extent, stays strictly inside it.\<close>

lemma scaled_centre:
  fixes w n i :: int
  assumes "1 \<le> w" "1 \<le> n" "0 \<le> i" "i < n"
  shows "0 < (of_int w / of_int n) * (of_int (2 * i + 1) / 2 :: rat)"
    and "(of_int w / of_int n) * (of_int (2 * i + 1) / 2) < (of_int w :: rat)"
proof -
  have n: "(0 :: rat) < of_int n" "(0 :: rat) < of_int w" using assms by auto
  have "(0 :: rat) < of_int (2 * i + 1)" using assms(3) by (simp only: of_int_0_less_iff)
  then show "0 < (of_int w / of_int n) * (of_int (2 * i + 1) / 2 :: rat)" using n by simp
  have "2 * i + 1 < 2 * n" using assms(4) by simp
  then have "(of_int (2 * i + 1) :: rat) < of_int (2 * n)" by (simp only: of_int_less_iff)
  then have "of_int (2 * i + 1) / 2 < (of_int n :: rat)" by simp
  then have "(of_int w / of_int n) * (of_int (2 * i + 1) / 2) < (of_int w / of_int n) * (of_int n :: rat)"
    using n by (intro mult_strict_left_mono) auto
  then show "(of_int w / of_int n) * (of_int (2 * i + 1) / 2) < (of_int w :: rat)" using n by simp
qed

text \<open>
  Every delivered pixel reaches its own crop, for every rotation. The transform of a crop
  maps the centre of each pixel of the delivered image strictly inside the crop rectangle, so
  \<^verbatim>\<open>input_point\<close> never answers \<^verbatim>\<open>outside_source\<close> for a crop inside the source; and any point it
  answers lies in the input region.
\<close>

theorem pixels_reach_their_crop:
  assumes "crop_transform x y width height dw dh rotation = Inr t" "0 \<le> i" "i < dw" "0 \<le> j" "j < dh"
  shows "\<exists>sx sy. map_point t (of_int (2 * i + 1) / 2) (of_int (2 * j + 1) / 2) = Inr (sx, sy)
      \<and> of_int x < sx \<and> sx < of_int (x + width) \<and> of_int y < sy \<and> sy < of_int (y + height)
      \<and> (x + width \<le> pixel_width g \<and> y + height \<le> pixel_height g \<longrightarrow> input_point g t i j dw dh \<noteq> Inl Outside_source)
      \<and> (case (input_point g t i j dw dh, mapping g) of
           (Inr (ix, iy), Some m) \<Rightarrow> 0 \<le> ix \<and> ix < input_width m \<and> 0 \<le> iy \<and> iy < input_height m
         | (Inr _, None) \<Rightarrow> False
         | _ \<Rightarrow> True)"
proof -
  have dims: "1 \<le> width" "1 \<le> height" "1 \<le> dw" "1 \<le> dh" "dw \<le> 1000000" "dh \<le> 1000000" "0 \<le> x" "0 \<le> y"
    using assms(1) by (auto simp: crop_transform_def dimension_ok_def MAX_SOURCE_DIMENSION_def split: if_splits)
  let ?u = "of_int (2 * i + 1) / 2 :: rat" and ?v = "of_int (2 * j + 1) / 2 :: rat"
  have small: "small_rational ?u" "small_rational ?v"
    using half_pixel_small [of i] half_pixel_small [of j] assms(2-5) dims(5,6) by linarith+
  note sc = scaled_centre [OF dims(1,3) assms(2,3)] scaled_centre [OF dims(2,4) assms(4,5)]
    scaled_centre [OF dims(1,4) assms(4,5)] scaled_centre [OF dims(2,3) assms(2,3)]
  have "rotation \<in> {0, 90, 180, 270}" using assms(1) by (auto simp: crop_transform_def rotations_def split: if_splits)
  then have "\<exists>sx sy. map_point t ?u ?v = Inr (sx, sy)
      \<and> of_int x < sx \<and> sx < of_int (x + width) \<and> of_int y < sy \<and> sy < of_int (y + height)"
    using assms(1) sc small
    by (auto simp: crop_transform_def Let_def map_point_def affine_transform_Inr split: if_splits)
  then obtain sx sy where p: "map_point t ?u ?v = Inr (sx, sy)"
    "of_int x < sx" "sx < of_int (x + width)" "of_int y < sy" "sy < of_int (y + height)" by blast
  have inside: "0 \<le> sx \<and> sx < of_int (pixel_width g) \<and> 0 \<le> sy \<and> sy < of_int (pixel_height g)"
    if "x + width \<le> pixel_width g" "y + height \<le> pixel_height g"
  proof -
    have "(0 :: rat) \<le> of_int x" "(0 :: rat) \<le> of_int y" using dims by auto
    moreover have "(of_int (x + width) :: rat) \<le> of_int (pixel_width g)" "(of_int (y + height) :: rat) \<le> of_int (pixel_height g)"
      using that by (simp_all only: of_int_le_iff)
    ultimately show ?thesis using p by linarith
  qed
  have "x + width \<le> pixel_width g \<and> y + height \<le> pixel_height g \<longrightarrow> input_point g t i j dw dh \<noteq> Inl Outside_source"
    using inside p(1) by (auto simp: input_point_def map_point_def split: option.split)
  moreover have "case (input_point g t i j dw dh, mapping g) of
      (Inr (ix, iy), Some m) \<Rightarrow> 0 \<le> ix \<and> ix < input_width m \<and> 0 \<le> iy \<and> iy < input_height m
    | (Inr _, None) \<Rightarrow> False | _ \<Rightarrow> True"
    by (auto simp: input_point_def split: option.split sum.split if_splits)
  ultimately show ?thesis using p by blast
qed

definition ex_geometry :: source_geometry where
  "ex_geometry = \<lparr>source_id = ''s'', source_revision = 1, consent_generation = 1, pixel_width = 100, pixel_height = 80,
     mapping = Some \<lparr>input_region_id = ''r'', input_width = 50, input_height = 40,
       pixel_to_input = \<lparr>ta = 1 / 2, tb = 0, tc = 0, td = 0, te = 1 / 2, tf = 0\<rparr>\<rparr>, source_rotation = 0\<rparr>"

theorem pixels_reach_their_crop_witness:
  "\<exists>t. crop_transform 10 20 30 40 60 90 90 = Inr t \<and> input_point ex_geometry t 0 0 60 90 \<noteq> Inl Outside_source"
proof -
  have "(case crop_transform 10 20 30 40 60 90 90 of Inr _ \<Rightarrow> True | Inl _ \<Rightarrow> False)" by code_simp
  then obtain t where t: "crop_transform 10 20 30 40 60 90 90 = Inr t" by (auto split: sum.splits)
  from pixels_reach_their_crop [OF t, of 0 0 ex_geometry] show ?thesis
    using t by (auto simp: ex_geometry_def)
qed

end
