(* ===== verification/Json_Inject.thy ===== *)
theory Json_Inject
  imports Json_Text
begin

text \<open>
  The JSON text determines the value. Two well-formed values (float lexemes are number tokens
  that are not integers) with the same text are equal, so a digest or a signature of the
  canonical text of an object binds the object up to the order of its keys.
\<close>

section \<open>Integers\<close>

definition digits_value :: "string \<Rightarrow> nat" where
  "digits_value s = foldl (\<lambda>a c. 10 * a + ((of_char c :: nat) - 48)) 0 s"

lemma digit_char_value: "n < 10 \<Longrightarrow> (of_char (digit_char n) :: nat) = 48 + n"
  by (simp add: digit_char_def)

lemma digits_value_nat_text: "digits_value (nat_text n) = n"
proof (induction n rule: less_induct)
  case (less n)
  show ?case
  proof (cases "n < 10")
    case True
    then show ?thesis by (simp add: nat_text.simps [of n] digits_value_def digit_char_value)
  next
    case False
    then have "digits_value (nat_text (n div 10)) = n div 10" using less by simp
    then show ?thesis using False
      by (simp add: nat_text.simps [of n] digits_value_def digit_char_value)
  qed
qed

definition is_digit :: "char \<Rightarrow> bool" where
  "is_digit c \<longleftrightarrow> 48 \<le> (of_char c :: nat) \<and> (of_char c :: nat) \<le> 57"

lemma nat_text_digits: "list_all is_digit (nat_text n) \<and> nat_text n \<noteq> []"
proof (induction n rule: less_induct)
  case (less n)
  then show ?case
    by (cases "n < 10") (auto simp: nat_text.simps [of n] is_digit_def digit_char_value)
qed

lemma minus_no_digit: "\<not> is_digit CHR ''-''"
  by (simp add: is_digit_def)

lemma nat_text_hd: "is_digit (hd (nat_text n))"
  using nat_text_digits [of n] by (cases "nat_text n") auto

lemma int_text_inj: "int_text i = int_text j \<Longrightarrow> i = j"
proof -
  assume e: "int_text i = int_text j"
  have "nat_text m \<noteq> CHR ''-'' # x" for m x
    using nat_text_hd [of m] minus_no_digit by (cases "nat_text m") auto
  then have s: "i < 0 \<longleftrightarrow> j < 0" and n: "nat_text (nat \<bar>i\<bar>) = nat_text (nat \<bar>j\<bar>)"
    using e e [symmetric] by (auto simp: int_text_def split: if_splits dest: sym)
  have "nat \<bar>i\<bar> = nat \<bar>j\<bar>" using arg_cong [OF n, of digits_value] by (simp add: digits_value_nat_text)
  with s show ?thesis by linarith
qed

section \<open>Strings\<close>

definition unhex :: "char \<Rightarrow> nat" where
  "unhex c = (let n = (of_char c :: nat) in if n < 58 then n - 48 else n - 87)"

lemma unhex_hex: "n < 16 \<Longrightarrow> unhex (hex_char n) = n"
  by (auto simp: unhex_def hex_char_def Let_def)

text \<open>One escaped character off the front.\<close>

definition unescape :: "string \<Rightarrow> char \<times> string" where
  "unescape s =
     (if hd s \<noteq> CHR 0x5C then (hd s, tl s)
      else if s ! 1 = CHR ''u'' then (char_of (16 * unhex (s ! 4) + unhex (s ! 5)), drop 6 s)
      else ((if s ! 1 = CHR ''n'' then CHR 0x0A else if s ! 1 = CHR ''r'' then CHR 0x0D
             else if s ! 1 = CHR ''t'' then CHR 0x09 else if s ! 1 = CHR ''f'' then CHR 0x0C
             else if s ! 1 = CHR ''b'' then CHR 0x08 else s ! 1), drop 2 s))"

lemma unescape_escape: "unescape (escape_char c @ r) = (c, r)"
proof -
  have "char_of (16 * unhex (hex_char ((of_char c :: nat) div 16)) + unhex (hex_char ((of_char c :: nat) mod 16))) = c"
  proof -
    have "(of_char c :: nat) div 16 < 16" using nat_of_char_less_256 [of c] by linarith
    then show ?thesis by (simp add: unhex_hex)
  qed
  then show ?thesis by (auto simp: escape_char_def unescape_def)
qed

lemma escape_hd: "escape_char c \<noteq> [] \<and> hd (escape_char c) \<noteq> CHR 0x22"
  by (auto simp: escape_char_def)

lemma quoted_cancel:
  "concat (map escape_char s) @ CHR 0x22 # r1 = concat (map escape_char t) @ CHR 0x22 # r2 \<Longrightarrow> s = t \<and> r1 = r2"
proof (induction s arbitrary: t)
  case Nil
  then show ?case using escape_hd by (cases t) (auto simp: neq_Nil_conv, metis append_Cons list.sel(1))
next
  case (Cons c s)
  show ?case
  proof (cases t)
    case Nil
    then show ?thesis using Cons.prems escape_hd [of c] by (cases "escape_char c") auto
  next
    case t: (Cons d t')
    have "unescape (escape_char c @ concat (map escape_char s) @ CHR 0x22 # r1)
        = unescape (escape_char d @ concat (map escape_char t') @ CHR 0x22 # r2)"
      using Cons.prems t by simp
    then have "c = d" "concat (map escape_char s) @ CHR 0x22 # r1 = concat (map escape_char t') @ CHR 0x22 # r2"
      unfolding unescape_escape by auto
    then show ?thesis using Cons.IH [of t'] t by simp
  qed
qed

lemma quote_cancel: "quote_text s @ r1 = quote_text t @ r2 \<Longrightarrow> s = t \<and> r1 = r2"
  using quoted_cancel [of s r1 t r2] by (simp add: quote_text_def)

section \<open>Values\<close>

definition token_char :: "char \<Rightarrow> bool" where
  "token_char c \<longleftrightarrow> is_digit c \<or> c \<in> set ''+-.eENaInfity''"

text \<open>What \<^verbatim>\<open>float.__repr__\<close> may produce: a number token that is no integer.\<close>

definition float_lexeme :: "string \<Rightarrow> bool" where
  "float_lexeme x \<longleftrightarrow> x \<noteq> [] \<and> (is_digit (hd x) \<or> hd x \<in> set ''-NI'') \<and> list_all token_char x
     \<and> \<not> list_all (\<lambda>c. is_digit c \<or> c = CHR ''-'') x"

fun json_ok :: "json \<Rightarrow> bool" where
  "json_ok (JFloat x) = float_lexeme x"
| "json_ok (JList vs) = list_all json_ok vs"
| "json_ok (JObj kvs) = list_all (\<lambda>p. json_ok (snd p)) kvs"
| "json_ok _ = True"

definition stops :: "string \<Rightarrow> bool" where
  "stops r \<longleftrightarrow> (case r of [] \<Rightarrow> True | c # _ \<Rightarrow> \<not> token_char c)"

lemma token_cancel:
  assumes "list_all token_char x" "list_all token_char y" "stops r1" "stops r2" "x @ r1 = y @ r2"
  shows "x = y \<and> r1 = r2"
proof -
  have "takeWhile token_char (x @ r1) = x" "takeWhile token_char (y @ r2) = y"
    using assms(1-4) by (auto simp: takeWhile_append2 list_all_iff stops_def split: list.splits)
  then show ?thesis using assms(5) by (metis append_eq_append_conv)
qed

lemma int_text_tokens: "list_all token_char (int_text i) \<and> list_all (\<lambda>c. is_digit c \<or> c = CHR ''-'') (int_text i)"
  using nat_text_digits by (auto simp: int_text_def token_char_def list_all_iff)

lemma int_text_hd: "int_text i \<noteq> [] \<and> (is_digit (hd (int_text i)) \<or> hd (int_text i) = CHR ''-'')"
  using nat_text_digits nat_text_hd by (auto simp: int_text_def)

lemma join_Cons: "join sep (x # xs) = x @ concat (map (\<lambda>y. sep @ y) xs)"
  by (induction xs arbitrary: x) auto

definition cancels :: "('a \<Rightarrow> string) \<Rightarrow> ('a \<Rightarrow> bool) \<Rightarrow> 'a \<Rightarrow> bool" where
  "cancels P ok x \<longleftrightarrow> (\<forall>y r1 r2. ok y \<longrightarrow> stops r1 \<longrightarrow> stops r2 \<longrightarrow> P x @ r1 = P y @ r2 \<longrightarrow> x = y \<and> r1 = r2)"

lemma tail_stops:
  assumes "sep = CHR '','' # sep'" "c = CHR '']'' \<or> c = CHR ''}''"
  shows "stops (concat (map (\<lambda>x. sep @ P x) xs) @ c # r)"
  using assms by (cases xs) (auto simp: stops_def token_char_def is_digit_def)

lemma tail_cancel:
  assumes sep: "sep = CHR '','' # sep'" and c: "c = CHR '']'' \<or> c = CHR ''}''"
    and "\<And>x. x \<in> set xs \<Longrightarrow> cancels P ok x" "list_all ok ys"
    and "concat (map (\<lambda>x. sep @ P x) xs) @ c # r1 = concat (map (\<lambda>y. sep @ P y) ys) @ c # r2"
  shows "xs = ys \<and> r1 = r2"
  using assms(3-5)
proof (induction xs arbitrary: ys)
  case Nil
  then show ?case using sep c by (cases ys) auto
next
  case (Cons x xs)
  show ?case
  proof (cases ys)
    case Nil
    then show ?thesis using Cons.prems sep c by auto
  next
    case ys: (Cons y ys')
    have e: "P x @ concat (map (\<lambda>x. sep @ P x) xs) @ c # r1 = P y @ concat (map (\<lambda>y. sep @ P y) ys') @ c # r2"
      using Cons.prems(3) ys by simp
    have "cancels P ok x" "ok y" using Cons.prems(1,2) ys by auto
    then have "x = y \<and> concat (map (\<lambda>x. sep @ P x) xs) @ c # r1 = concat (map (\<lambda>y. sep @ P y) ys') @ c # r2"
      using tail_stops [OF sep c] e unfolding cancels_def by blast
    then show ?thesis using Cons.IH [of ys'] Cons.prems(1,2) ys by simp
  qed
qed

lemma join_cancel:
  assumes sep: "sep = CHR '','' # sep'" and c: "c = CHR '']'' \<or> c = CHR ''}''"
    and hd: "\<And>x. ok x \<Longrightarrow> P x \<noteq> [] \<and> hd (P x) \<noteq> c"
    and xs: "\<And>x. x \<in> set xs \<Longrightarrow> cancels P ok x" and ok: "list_all ok xs" "list_all ok ys"
    and e: "join sep (map P xs) @ c # r1 = join sep (map P ys) @ c # r2"
  shows "xs = ys \<and> r1 = r2"
proof -
  have nh: "P x @ z \<noteq> c # w" if "ok x" for x z w using hd [OF that] by (cases "P x") auto
  show ?thesis
  proof (cases xs)
    case Nil
    then show ?thesis using e ok nh by (cases ys) (auto simp: join_Cons dest: sym)
  next
    case x: (Cons x xs')
    show ?thesis
    proof (cases ys)
      case Nil
      then show ?thesis using e ok nh x by (auto simp: join_Cons)
    next
      case y: (Cons y ys')
      have "P x @ concat (map (\<lambda>x. sep @ P x) xs') @ c # r1 = P y @ concat (map (\<lambda>y. sep @ P y) ys') @ c # r2"
        using e x y by (simp add: join_Cons comp_def)
      moreover have "cancels P ok x" "ok y" using xs ok x y by auto
      ultimately have "x = y \<and> concat (map (\<lambda>x. sep @ P x) xs') @ c # r1 = concat (map (\<lambda>y. sep @ P y) ys') @ c # r2"
        using tail_stops [OF sep c] unfolding cancels_def by blast
      then show ?thesis using tail_cancel [OF sep c, of xs' P ok ys' r1 r2] xs ok x y by simp
    qed
  qed
qed

lemma print_nonempty: "json_ok v \<Longrightarrow> json_print isep ksep v \<noteq> [] \<and> hd (json_print isep ksep v) \<noteq> CHR '']''"
  using int_text_hd [of "case v of JInt i \<Rightarrow> i | _ \<Rightarrow> 0"]
  by (cases v) (auto simp: quote_text_def float_lexeme_def is_digit_def)

lemma print_hd_cases:
  "json_ok v \<Longrightarrow> (case v of
      JNull \<Rightarrow> hd (json_print i k v) = CHR ''n'' | JBool b \<Rightarrow> hd (json_print i k v) = (if b then CHR ''t'' else CHR ''f'')
    | JStr _ \<Rightarrow> hd (json_print i k v) = CHR 0x22 | JList _ \<Rightarrow> hd (json_print i k v) = CHR ''[''
    | JObj _ \<Rightarrow> hd (json_print i k v) = CHR ''{''
    | _ \<Rightarrow> is_digit (hd (json_print i k v)) \<or> hd (json_print i k v) \<in> set ''-NI'')"
  using int_text_hd by (cases v) (auto simp: quote_text_def float_lexeme_def)

lemma same_hd:
  assumes "json_ok v" "json_ok w" "json_print i k v @ r1 = json_print i k w @ r2"
  shows "hd (json_print i k v) = hd (json_print i k w)"
  using print_nonempty [OF assms(1), of i k] print_nonempty [OF assms(2), of i k] assms(3)
  by (metis hd_append2)

fun json_kind :: "json \<Rightarrow> nat" where
  "json_kind JNull = 0" | "json_kind (JBool _) = 1" | "json_kind (JInt _) = 2" | "json_kind (JFloat _) = 2"
| "json_kind (JStr _) = 3" | "json_kind (JList _) = 4" | "json_kind (JObj _) = 5"

lemma same_kind:
  assumes "json_ok v" "json_ok w" "json_print i k v @ r1 = json_print i k w @ r2"
  shows "json_kind v = json_kind w"
proof -
  note h = same_hd [OF assms] print_hd_cases [OF assms(1), of i k] print_hd_cases [OF assms(2), of i k]
  show ?thesis
    by (cases v; cases w; insert h; simp only: json.case json_kind.simps) (auto simp: is_digit_def split: if_splits)
qed

lemma number_text:
  assumes "json_ok v" "json_kind v = 2"
  shows "list_all token_char (json_print i k v)"
    and "list_all (\<lambda>c. is_digit c \<or> c = CHR ''-'') (json_print i k v) \<longleftrightarrow> (\<exists>n. v = JInt n)"
  using assms int_text_tokens by (cases v; auto simp: float_lexeme_def)+

lemma number_cancel:
  assumes "json_ok v" "json_ok w" "json_kind v = 2" "json_kind w = 2" "stops r1" "stops r2"
    and "json_print i k v @ r1 = json_print i k w @ r2"
  shows "v = w \<and> r1 = r2"
proof -
  have e: "json_print i k v = json_print i k w" "r1 = r2"
    using token_cancel [OF number_text(1) [OF assms(1,3)] number_text(1) [OF assms(2,4)] assms(5-7)] by auto
  moreover have "(\<exists>n. v = JInt n) \<longleftrightarrow> (\<exists>n. w = JInt n)"
    using number_text(2) [OF assms(1,3), of i k] number_text(2) [OF assms(2,4), of i k] e(1) by simp
  ultimately show ?thesis using assms(3,4) int_text_inj by (cases v; cases w) auto
qed

lemma print_cancel:
  assumes sep: "isep = CHR '','' # isep'" and "json_ok v"
  shows "cancels (json_print isep ksep) json_ok v"
  using assms(2)
proof (induction v)
  case (JList vs)
  have el: "cancels (json_print isep ksep) json_ok x" if "x \<in> set vs" for x
    using JList.IH [OF that] JList.prems that by (auto simp: list_all_iff)
  show ?case
  proof (unfold cancels_def, intro allI impI)
    fix w r1 r2
    assume w: "json_ok w" "stops r1" "stops r2" "json_print isep ksep (JList vs) @ r1 = json_print isep ksep w @ r2"
    obtain ws where ws: "w = JList ws" using same_kind [OF JList.prems w(1,4)] by (cases w) auto
    have e: "join isep (map (json_print isep ksep) vs) @ CHR '']'' # r1 = join isep (map (json_print isep ksep) ws) @ CHR '']'' # r2"
      using w(4) ws by simp
    show "JList vs = w \<and> r1 = r2"
      using join_cancel [OF sep _ _ el _ _ e] print_nonempty JList.prems w(1) ws by simp
  qed
next
  case (JObj kvs)
  let ?P = "\<lambda>p. quote_text (fst p) @ ksep @ json_print isep ksep (snd p)"
  let ?ok = "\<lambda>p :: string \<times> json. json_ok (snd p)"
  have el: "cancels ?P ?ok p" if "p \<in> set kvs" for p
  proof (unfold cancels_def, intro allI impI)
    fix q r1 r2
    assume q: "?ok q" "stops r1" "stops r2" "?P p @ r1 = ?P q @ r2"
    have "json_ok (snd p)" using JObj.prems that by (auto simp: list_all_iff)
    then have "cancels (json_print isep ksep) json_ok (snd p)"
      using JObj.IH [of p "snd p"] that by (simp add: Basic_BNFs.snds.simps)
    moreover have "fst p = fst q" "json_print isep ksep (snd p) @ r1 = json_print isep ksep (snd q) @ r2"
      using quote_cancel [of "fst p" "ksep @ json_print isep ksep (snd p) @ r1" "fst q" "ksep @ json_print isep ksep (snd q) @ r2"] q(4)
      by auto
    ultimately show "p = q \<and> r1 = r2" using q(1-3) unfolding cancels_def by (auto simp: prod_eq_iff)
  qed
  show ?case
  proof (unfold cancels_def, intro allI impI)
    fix w r1 r2
    assume w: "json_ok w" "stops r1" "stops r2" "json_print isep ksep (JObj kvs) @ r1 = json_print isep ksep w @ r2"
    obtain ws where ws: "w = JObj ws" using same_kind [OF JObj.prems w(1,4)] by (cases w) auto
    have e: "join isep (map ?P kvs) @ CHR ''}'' # r1 = join isep (map ?P ws) @ CHR ''}'' # r2"
      using w(4) ws by simp
    show "JObj kvs = w \<and> r1 = r2"
      using join_cancel [OF sep _ _ el _ _ e] JObj.prems w(1) ws by (simp add: quote_text_def)
  qed
next
  case (JStr s)
  show ?case
  proof (unfold cancels_def, intro allI impI)
    fix w r1 r2
    assume w: "json_ok w" "json_print isep ksep (JStr s) @ r1 = json_print isep ksep w @ r2"
    obtain t where t: "w = JStr t" using same_kind [OF JStr w] by (cases w) auto
    then show "JStr s = w \<and> r1 = r2" using w(2) quote_cancel [of s r1 t r2] by simp
  qed
next
  case (JInt x)
  show ?case unfolding cancels_def
    using same_kind [OF JInt.prems] number_cancel [OF JInt.prems] by (metis json_kind.simps(3))
next
  case (JFloat x)
  show ?case unfolding cancels_def
    using same_kind [OF JFloat.prems] number_cancel [OF JFloat.prems] by (metis json_kind.simps(4))
next
  case JNull
  show ?case
  proof (unfold cancels_def, intro allI impI)
    fix w r1 r2
    assume w: "json_ok w" "json_print isep ksep JNull @ r1 = json_print isep ksep w @ r2"
    have "w = JNull" using same_kind [OF JNull w] by (cases w) auto
    then show "JNull = w \<and> r1 = r2" using w(2) by simp
  qed
next
  case (JBool b)
  show ?case
  proof (unfold cancels_def, intro allI impI)
    fix w r1 r2
    assume w: "json_ok w" "json_print isep ksep (JBool b) @ r1 = json_print isep ksep w @ r2"
    obtain b' where "w = JBool b'" using same_kind [OF JBool w] by (cases w) auto
    then show "JBool b = w \<and> r1 = r2" using w(2) by (auto split: if_splits)
  qed
qed

text \<open>The text determines the value, for both separator styles.\<close>

lemma json_print_inj:
  assumes "isep = CHR '','' # isep'" "json_ok v" "json_ok w" "json_print isep ksep v = json_print isep ksep w"
  shows "v = w"
  using print_cancel [OF assms(1,2), of ksep] assms(3,4) unfolding cancels_def stops_def
  by (metis (no_types, lifting) append_Nil2 list.simps(4))

lemma sort_keys_ok: "json_ok v \<Longrightarrow> json_ok (sort_keys v)"
proof (induction v)
  case (JObj kvs)
  then show ?case by (auto simp: list_all_iff snds.simps)
qed (auto simp: list_all_iff)

lemma dumps_sorted_inj:
  assumes "isep = CHR '','' # isep'" "json_ok v" "json_ok w" "dumps_sorted isep ksep v = dumps_sorted isep ksep w"
  shows "sort_keys v = sort_keys w"
  using json_print_inj [OF assms(1) sort_keys_ok [OF assms(2)] sort_keys_ok [OF assms(3)]] assms(4)
  by (simp add: dumps_sorted_def)

end
