(* ===== verification/Audit_Signer.thy ===== *)
theory Audit_Signer
  imports Json_Inject
begin

text \<open>
  The hash chain of the audit log (\<^verbatim>\<open>src/audit/signer.py\<close>): \<^verbatim>\<open>AuditSigner\<close>, \<^verbatim>\<open>_canonical\<close>,
  \<^verbatim>\<open>verify_segment\<close> and \<^verbatim>\<open>verify_log\<close>. The keyed digest (HMAC-SHA256 under the configured key, in
  hexadecimal) is the argument \<open>mac\<close>, and \<^verbatim>\<open>json.loads\<close> of a raw line the argument \<open>loads\<close>,
  \<open>None\<close> standing for \<^verbatim>\<open>ValueError\<close>. The state of a signer is the digest of its last entry.
\<close>

section \<open>Signing\<close>

definition GENESIS_HASH :: string where
  "GENESIS_HASH = replicate 64 CHR ''0''"

definition canonical :: "dict \<Rightarrow> string" where
  "canonical e = dumps_sorted '','' '':'' (JObj (jdel ''_hmac'' e))"

definition prepare_entry :: "(string \<Rightarrow> string) \<Rightarrow> string \<Rightarrow> dict \<Rightarrow> dict" where
  "prepare_entry mac prev e =
     (let e1 = jset ''_prev_hmac'' (JStr prev) e
      in jset ''_hmac'' (JStr (mac (canonical e1))) e1)"

definition commit_entry :: "dict \<Rightarrow> string" where
  "commit_entry e = text_in (fget ''_hmac'' e)"

definition sign_entry :: "(string \<Rightarrow> string) \<Rightarrow> string \<Rightarrow> dict \<Rightarrow> dict \<times> string" where
  "sign_entry mac prev e = (let e' = prepare_entry mac prev e in (e', commit_entry e'))"

section \<open>Verifying an entry\<close>

text \<open>\<^verbatim>\<open>str.isascii\<close>: no character has its top bit.\<close>

definition ascii_text :: "string \<Rightarrow> bool" where
  "ascii_text s = list_all (\<lambda>c. \<not> digit7 c) s"

text \<open>\<^verbatim>\<open>hmac.compare_digest\<close>; \<open>None\<close> is its \<^verbatim>\<open>TypeError\<close>: no string, or not ASCII.\<close>

definition compare_digest :: "json \<Rightarrow> string \<Rightarrow> bool option" where
  "compare_digest v expected =
     (case v of JStr s \<Rightarrow> if ascii_text s \<and> ascii_text expected then Some (s = expected) else None | _ \<Rightarrow> None)"

definition verify_entry :: "(string \<Rightarrow> string) \<Rightarrow> dict \<Rightarrow> string \<Rightarrow> bool option" where
  "verify_entry mac e expected_prev =
     (if \<not> truthy (fget ''_hmac'' e) \<or> fget ''_prev_hmac'' e = JNull then Some False
      else case compare_digest (fget ''_prev_hmac'' e) expected_prev of
             None \<Rightarrow> None
           | Some False \<Rightarrow> Some False
           | Some True \<Rightarrow> compare_digest (fget ''_hmac'' e) (mac (canonical (jdel ''_hmac'' e))))"

section \<open>Verifying a file\<close>

text \<open>\<^verbatim>\<open>handle.readline(n)\<close>: up to \<open>n\<close> bytes, through the first line feed.\<close>

definition read_line :: "nat \<Rightarrow> string \<Rightarrow> string" where
  "read_line n s =
     (let l = take n s in takeWhile (\<lambda>c. c \<noteq> CHR 0x0A) l @ (if CHR 0x0A \<in> set l then [CHR 0x0A] else []))"

definition blank_line :: "string \<Rightarrow> bool" where
  "blank_line raw = list_all (\<lambda>c. c \<in> {CHR 0x09, CHR 0x0A, CHR 0x0B, CHR 0x0C, CHR 0x0D, CHR '' ''}) raw"

record verify_result =
  vr_valid :: bool
  vr_total :: nat
  vr_verified :: nat
  vr_unsigned_prefix :: nat
  vr_first_bad :: "nat option"
  vr_reason :: "string option"
  vr_error :: "string option"

definition line_failure :: "nat \<Rightarrow> nat \<Rightarrow> nat \<Rightarrow> nat \<Rightarrow> string \<Rightarrow> string \<Rightarrow> verify_result" where
  "line_failure seen verified prefix line why message =
     \<lparr>vr_valid = False, vr_total = seen, vr_verified = verified, vr_unsigned_prefix = prefix,
      vr_first_bad = Some line, vr_reason = Some why,
      vr_error = Some (''Line '' @ nat_text line @ '': '' @ message)\<rparr>"

text \<open>What one raw line is, given the digest of the last signed entry.\<close>

datatype line_class = Blank_line | Bad_line string string | Unsigned_line | Signed_line string

definition classify_line :: "(string \<Rightarrow> string) \<Rightarrow> (string \<Rightarrow> json option) \<Rightarrow> string \<Rightarrow> string \<Rightarrow> line_class" where
  "classify_line mac loads prev raw =
     (if blank_line raw then Blank_line
      else case loads raw of
             None \<Rightarrow> Bad_line ''invalid_json'' ''invalid JSON''
           | Some v \<Rightarrow>
               if \<not> is_dict v then Bad_line ''non_object'' ''non-object audit entry''
               else if \<not> jhas ''_hmac'' (entries v) then Unsigned_line
               else if verify_entry mac (entries v) prev = Some True
                    then Signed_line (text_in (fget ''_hmac'' (entries v)))
                    else Bad_line ''hmac_mismatch'' ''HMAC verification failed (tampered or reordered)'')"

function verify_loop ::
    "(string \<Rightarrow> string) \<Rightarrow> (string \<Rightarrow> json option) \<Rightarrow> string \<Rightarrow> nat \<Rightarrow> nat \<Rightarrow> string \<Rightarrow> nat \<Rightarrow> nat \<Rightarrow> nat \<Rightarrow> verify_result" where
  "verify_loop mac loads s remaining lineno prev seen verified prefix =
     (let raw = read_line remaining s; s' = drop (length raw) s;
          left = remaining - length raw; n = lineno + 1
      in if remaining = 0 \<or> raw = []
         then \<lparr>vr_valid = True, vr_total = seen, vr_verified = verified, vr_unsigned_prefix = prefix,
               vr_first_bad = None, vr_reason = None, vr_error = None\<rparr>
         else case classify_line mac loads prev raw of
                Blank_line \<Rightarrow> verify_loop mac loads s' left n prev seen verified prefix
              | Bad_line why message \<Rightarrow> line_failure (seen + 1) verified prefix n why message
              | Unsigned_line \<Rightarrow>
                  if verified = 0 then verify_loop mac loads s' left n prev (seen + 1) verified (prefix + 1)
                  else line_failure (seen + 1) verified prefix n ''unsigned_after_signed''
                         ''missing _hmac field (unsigned entry after chain began)''
              | Signed_line digest \<Rightarrow> verify_loop mac loads s' left n digest (seen + 1) (verified + 1) prefix)"
  by pat_completeness auto

termination
  by (relation "measure (\<lambda>(mac, loads, s, remaining, _). remaining)") auto

declare verify_loop.simps [simp del]

definition verify_segment :: "(string \<Rightarrow> string) \<Rightarrow> (string \<Rightarrow> json option) \<Rightarrow> string \<Rightarrow> nat \<Rightarrow> verify_result" where
  "verify_segment mac loads content bound = verify_loop mac loads content bound 0 GENESIS_HASH 0 0 0"

text \<open>\<^verbatim>\<open>verify_log\<close>: no file, a file that cannot be read (with the text of the error), or its bytes.\<close>

definition verify_log :: "(string \<Rightarrow> string) \<Rightarrow> (string \<Rightarrow> json option) \<Rightarrow> (string + string) option \<Rightarrow> verify_result" where
  "verify_log mac loads f =
     (let nothing = \<lparr>vr_valid = True, vr_total = 0, vr_verified = 0, vr_unsigned_prefix = 0,
                     vr_first_bad = None, vr_reason = None, vr_error = None\<rparr>
      in case f of
           None \<Rightarrow> nothing
         | Some (Inl e) \<Rightarrow> nothing\<lparr>vr_valid := False, vr_error := Some e\<rparr>
         | Some (Inr content) \<Rightarrow> (verify_segment mac loads content (length content))\<lparr>vr_reason := None\<rparr>)"

section \<open>The loop as a pass over the lines of the file\<close>

function file_lines :: "string \<Rightarrow> string list" where
  "file_lines s =
     (if s = [] then []
      else read_line (length s) s # file_lines (drop (length (read_line (length s) s)) s))"
  by pat_completeness auto

lemma read_line_nonempty: "0 < n \<Longrightarrow> s \<noteq> [] \<Longrightarrow> read_line n s \<noteq> []"
  by (cases n; cases s) (auto simp: read_line_def Let_def)

termination file_lines
  using read_line_nonempty [of "length s" s for s]
  by (relation "measure length") auto

declare file_lines.simps [simp del]

fun verify_lines ::
    "(string \<Rightarrow> string) \<Rightarrow> (string \<Rightarrow> json option) \<Rightarrow> string list \<Rightarrow> nat \<Rightarrow> string \<Rightarrow> nat \<Rightarrow> nat \<Rightarrow> nat \<Rightarrow> verify_result" where
  "verify_lines mac loads [] lineno prev seen verified prefix =
     \<lparr>vr_valid = True, vr_total = seen, vr_verified = verified, vr_unsigned_prefix = prefix,
      vr_first_bad = None, vr_reason = None, vr_error = None\<rparr>"
| "verify_lines mac loads (raw # ls) lineno prev seen verified prefix =
     (case classify_line mac loads prev raw of
        Blank_line \<Rightarrow> verify_lines mac loads ls (lineno + 1) prev seen verified prefix
      | Bad_line why message \<Rightarrow> line_failure (seen + 1) verified prefix (lineno + 1) why message
      | Unsigned_line \<Rightarrow>
          if verified = 0 then verify_lines mac loads ls (lineno + 1) prev (seen + 1) verified (prefix + 1)
          else line_failure (seen + 1) verified prefix (lineno + 1) ''unsigned_after_signed''
                 ''missing _hmac field (unsigned entry after chain began)''
      | Signed_line digest \<Rightarrow> verify_lines mac loads ls (lineno + 1) digest (seen + 1) (verified + 1) prefix)"

lemma read_line_take: "read_line n s = read_line (length (take n s)) (take n s)"
proof -
  have "take (length (take n s)) (take n s) = take n s" by (rule take_all) simp
  then show ?thesis by (simp only: read_line_def)
qed

lemma takeWhile_first: "c \<notin> set ys \<Longrightarrow> takeWhile (\<lambda>x. x \<noteq> c) (ys @ c # zs) = ys"
  by (induction ys) auto

lemma read_line_prefix: "\<exists>z. take n s = read_line n s @ z"
proof (cases "CHR 0x0A \<in> set (take n s)")
  case True
  then obtain ys zs where "take n s = ys @ CHR 0x0A # zs" "CHR 0x0A \<notin> set ys" by (meson split_list_first)
  then show ?thesis by (auto simp: read_line_def Let_def takeWhile_first simp del: takeWhile_append)
next
  case False
  then have "takeWhile (\<lambda>c. c \<noteq> CHR 0x0A) (take n s) = take n s" by (auto simp: takeWhile_eq_all_conv)
  then have "read_line n s = take n s" by (simp only: read_line_def Let_def False if_False append_Nil2)
  then show ?thesis by simp
qed

lemma loop_lines:
  "verify_loop mac loads s r lineno prev seen verified prefix
   = verify_lines mac loads (file_lines (take r s)) lineno prev seen verified prefix"
proof (induction r arbitrary: s lineno prev seen verified prefix rule: less_induct)
  case (less r)
  show ?case
  proof (cases "r = 0 \<or> s = []")
    case True
    then show ?thesis
      by (auto simp: verify_loop.simps [of mac loads s r] file_lines.simps read_line_def Let_def)
  next
    case False
    then have ne: "read_line r s \<noteq> []" by (simp add: read_line_nonempty)
    obtain z where z: "take r s = read_line r s @ z" using read_line_prefix by blast
    have lines: "file_lines (take r s) = read_line r s # file_lines (take (r - length (read_line r s)) (drop (length (read_line r s)) s))"
      using False by (subst file_lines.simps) (simp only: read_line_take [symmetric] drop_take, simp)
    have lt: "r - length (read_line r s) < r" using ne False by simp
    show ?thesis
      using ne False less.IH [OF lt]
      by (simp add: verify_loop.simps [of mac loads s r] lines Let_def split: line_class.splits)
  qed
qed

lemma segment_lines: "verify_segment mac loads s (length s) = verify_lines mac loads (file_lines s) 0 GENESIS_HASH 0 0 0"
  by (simp add: verify_segment_def loop_lines)

text \<open>The lines of a file written line by line.\<close>

lemma file_lines_line:
  assumes "CHR 0x0A \<notin> set l"
  shows "file_lines (l @ CHR 0x0A # s) = (l @ [CHR 0x0A]) # file_lines s"
proof -
  have "read_line (length (l @ CHR 0x0A # s)) (l @ CHR 0x0A # s) = l @ [CHR 0x0A]"
    using assms by (simp add: read_line_def Let_def takeWhile_first)
  then show ?thesis by (subst file_lines.simps) simp
qed

lemma file_lines_whole:
  assumes "\<And>l. l \<in> set ls \<Longrightarrow> CHR 0x0A \<notin> set l"
  shows "file_lines (concat (map (\<lambda>l. l @ [CHR 0x0A]) ls) @ s) = map (\<lambda>l. l @ [CHR 0x0A]) ls @ file_lines s"
  using assms by (induction ls) (simp_all add: file_lines_line)

lemma file_lines_torn:
  assumes "CHR 0x0A \<notin> set l" "l \<noteq> []"
  shows "file_lines l = [l]"
proof -
  have "takeWhile (\<lambda>c. c \<noteq> CHR 0x0A) l = l" using assms(1) by (auto simp: takeWhile_eq_all_conv)
  then have "read_line (length l) l = l" using assms by (simp only: read_line_def Let_def take_all order_refl if_False append_Nil2)
  then show ?thesis using assms(2) by (simp add: file_lines.simps [of l] file_lines.simps [of "[]"])
qed

text \<open>The digest the chain has reached, and the signed entries, oldest first.\<close>

fun chain_head :: "(string \<Rightarrow> string) \<Rightarrow> (string \<Rightarrow> json option) \<Rightarrow> string list \<Rightarrow> string \<Rightarrow> string" where
  "chain_head mac loads [] prev = prev"
| "chain_head mac loads (raw # ls) prev =
     (case classify_line mac loads prev raw of
        Signed_line digest \<Rightarrow> chain_head mac loads ls digest
      | _ \<Rightarrow> chain_head mac loads ls prev)"

fun signed_entries :: "(string \<Rightarrow> string) \<Rightarrow> (string \<Rightarrow> json option) \<Rightarrow> string list \<Rightarrow> string \<Rightarrow> dict list" where
  "signed_entries mac loads [] prev = []"
| "signed_entries mac loads (raw # ls) prev =
     (case classify_line mac loads prev raw of
        Signed_line digest \<Rightarrow> entries (the (loads raw)) # signed_entries mac loads ls digest
      | _ \<Rightarrow> signed_entries mac loads ls prev)"

lemma verify_lines_append:
  "vr_valid (verify_lines mac loads ls lineno prev seen verified prefix) \<Longrightarrow>
   verify_lines mac loads (ls @ ms) lineno prev seen verified prefix
     = (let r = verify_lines mac loads ls lineno prev seen verified prefix
        in verify_lines mac loads ms (lineno + length ls) (chain_head mac loads ls prev)
             (vr_total r) (vr_verified r) (vr_unsigned_prefix r))"
proof (induction ls arbitrary: lineno prev seen verified prefix)
  case (Cons raw ls)
  then show ?case
    by (cases "classify_line mac loads prev raw") (simp_all add: line_failure_def Let_def split: if_splits)
qed simp

lemma chain_head_append: "chain_head mac loads (ls @ ms) prev = chain_head mac loads ms (chain_head mac loads ls prev)"
  by (induction ls arbitrary: prev) (simp_all split: line_class.split)

lemma verified_count:
  "vr_valid (verify_lines mac loads ls lineno prev seen verified prefix) \<Longrightarrow>
   vr_verified (verify_lines mac loads ls lineno prev seen verified prefix)
     = verified + length (signed_entries mac loads ls prev)"
proof (induction ls arbitrary: lineno prev seen verified prefix)
  case (Cons raw ls)
  then show ?case
    by (cases "classify_line mac loads prev raw") (simp_all add: line_failure_def split: if_splits)
qed simp

section \<open>What the chain binds\<close>

text \<open>Each signed entry names its predecessor's digest and carries the digest of its own text.\<close>

fun chained :: "(string \<Rightarrow> string) \<Rightarrow> string \<Rightarrow> dict list \<Rightarrow> bool" where
  "chained mac prev [] = True"
| "chained mac prev (e # es) =
     (fget ''_prev_hmac'' e = JStr prev \<and> fget ''_hmac'' e = JStr (mac (canonical (jdel ''_hmac'' e)))
      \<and> chained mac (mac (canonical (jdel ''_hmac'' e))) es)"

lemma compare_digestD: "compare_digest v x = Some True \<Longrightarrow> v = JStr x"
  by (cases v) (simp_all add: compare_digest_def split: if_splits)

lemma verify_entryD:
  assumes "verify_entry mac e prev = Some True"
  shows "fget ''_prev_hmac'' e = JStr prev" "fget ''_hmac'' e = JStr (mac (canonical (jdel ''_hmac'' e)))"
proof -
  obtain b where c: "compare_digest (fget ''_prev_hmac'' e) prev = Some b"
    using assms by (cases "compare_digest (fget ''_prev_hmac'' e) prev") (simp_all add: verify_entry_def split: if_splits)
  then have b and "compare_digest (fget ''_hmac'' e) (mac (canonical (jdel ''_hmac'' e))) = Some True"
    using assms by (cases b; simp add: verify_entry_def split: if_splits)+
  then show "fget ''_prev_hmac'' e = JStr prev" "fget ''_hmac'' e = JStr (mac (canonical (jdel ''_hmac'' e)))"
    using c compare_digestD by auto
qed

lemma signed_lineD:
  assumes "classify_line mac loads prev raw = Signed_line digest"
  shows "\<exists>e. loads raw = Some (JObj e) \<and> fget ''_prev_hmac'' e = JStr prev
     \<and> fget ''_hmac'' e = JStr (mac (canonical (jdel ''_hmac'' e))) \<and> digest = mac (canonical (jdel ''_hmac'' e))"
proof -
  obtain v where v: "loads raw = Some v"
    using assms by (cases "loads raw") (simp_all add: classify_line_def split: if_splits)
  then obtain e where e: "v = JObj e"
    using assms by (auto simp: classify_line_def is_dict_iff split: if_splits)
  have "verify_entry mac e prev = Some True" "digest = text_in (fget ''_hmac'' e)"
    using assms v e by (simp_all add: classify_line_def split: if_splits)
  then show ?thesis using v e verify_entryD by auto
qed

fun chain_digest :: "string \<Rightarrow> dict list \<Rightarrow> string" where
  "chain_digest prev [] = prev"
| "chain_digest prev (e # es) = chain_digest (text_in (fget ''_hmac'' e)) es"

lemma signed_entries_chained:
  "chained mac prev (signed_entries mac loads ls prev)
   \<and> chain_head mac loads ls prev = chain_digest prev (signed_entries mac loads ls prev)"
proof (induction ls arbitrary: prev)
  case (Cons raw ls)
  show ?case
  proof (cases "classify_line mac loads prev raw")
    case (Signed_line digest)
    then show ?thesis using signed_lineD [OF Signed_line] Cons.IH by auto
  qed (use Cons.IH in simp_all)
qed simp

lemma chained_append:
  "chained mac prev (es @ [e]) \<longleftrightarrow> chained mac prev es \<and> fget ''_prev_hmac'' e = JStr (chain_digest prev es)
     \<and> fget ''_hmac'' e = JStr (mac (canonical (jdel ''_hmac'' e)))"
proof (induction es arbitrary: prev)
  case (Cons a es)
  show ?case
    by (cases "fget ''_hmac'' a = JStr (mac (canonical (jdel ''_hmac'' a)))") (simp_all only: append_Cons chained.simps
        chain_digest.simps Cons.IH text_in_JStr conj_assoc simp_thms)
qed simp

lemma chain_digest_append: "chain_digest prev (es @ [e]) = text_in (fget ''_hmac'' e)"
  by (induction es arbitrary: prev) auto

lemma fget_sort_keys:
  assumes "sort_keys (JObj e) = sort_keys (JObj e')" "fget k e = JStr s"
  shows "fget k e' = JStr s"
proof -
  have "sorted_entries e = sorted_entries e'" using assms(1) by (simp add: sort_keys_JObj del: sort_keys.simps)
  then have "sort_keys (fget k e') = sort_keys (fget k e)" using fget_sorted by metis
  then show ?thesis using assms(2) by (simp add: sort_keys_scalar)
qed

lemma jdel_jdel: "jdel k (jdel k e) = jdel k e"
  by (simp add: jdel_def)

lemma json_ok_jdel: "json_ok (JObj e) \<Longrightarrow> json_ok (JObj (jdel k e))"
  by (simp add: jdel_def list_all_iff)

text \<open>The texts whose digests a chain carries.\<close>

definition signed_texts :: "dict list \<Rightarrow> string set" where
  "signed_texts es = (\<lambda>e. canonical (jdel ''_hmac'' e)) ` set es"

text \<open>
  When no two of the texts collide and none digests to the genesis value, the digest a chain
  has reached determines every signed entry before it.
\<close>

lemma chain_digest_binds:
  assumes "inj_on mac (signed_texts es \<union> signed_texts fs)" "g \<notin> mac ` (signed_texts es \<union> signed_texts fs)"
    and "chained mac g es" "chained mac g fs" "chain_digest g es = chain_digest g fs"
    and "list_all (\<lambda>e. json_ok (JObj e)) (es @ fs)"
  shows "map (\<lambda>e. sort_keys (JObj (jdel ''_hmac'' e))) es = map (\<lambda>e. sort_keys (JObj (jdel ''_hmac'' e))) fs"
  using assms
proof (induction es arbitrary: fs rule: rev_induct)
  case Nil
  then show ?case
    by (cases fs rule: rev_cases) (auto simp: chained_append chain_digest_append signed_texts_def)
next
  case (snoc e es)
  note inj = snoc.prems(1) and gen = snoc.prems(2) and ch = snoc.prems(3,4) and dg = snoc.prems(5) and ok = snoc.prems(6)
  show ?case
  proof (cases fs rule: rev_cases)
    case Nil
    then show ?thesis using ch dg gen by (auto simp: chained_append chain_digest_append signed_texts_def)
  next
    case fs: (snoc fs' f)
    have "mac (canonical (jdel ''_hmac'' e)) = mac (canonical (jdel ''_hmac'' f))"
      using ch dg fs by (simp add: chained_append chain_digest_append)
    then have c: "canonical (jdel ''_hmac'' e) = canonical (jdel ''_hmac'' f)"
      by (rule inj_onD [OF inj]) (simp_all add: fs signed_texts_def)
    have "json_ok (JObj e)" "json_ok (JObj f)" using ok fs by auto
    then have ok': "json_ok (JObj (jdel ''_hmac'' e))" "json_ok (JObj (jdel ''_hmac'' f))"
      using json_ok_jdel by blast+
    have "dumps_sorted '','' '':'' (JObj (jdel ''_hmac'' e)) = dumps_sorted '','' '':'' (JObj (jdel ''_hmac'' f))"
      using c by (simp only: canonical_def jdel_jdel)
    then have same: "sort_keys (JObj (jdel ''_hmac'' e)) = sort_keys (JObj (jdel ''_hmac'' f))"
      by (rule dumps_sorted_inj [OF refl ok'])
    have prev: "fget ''_prev_hmac'' (jdel ''_hmac'' e) = JStr (chain_digest g es)"
      "fget ''_prev_hmac'' (jdel ''_hmac'' f) = JStr (chain_digest g fs')"
      using ch fs by (simp_all add: chained_append fget_jdel)
    then have "chain_digest g es = chain_digest g fs'" using fget_sort_keys [OF same prev(1)] by simp
    moreover have sub: "signed_texts es \<union> signed_texts fs' \<subseteq> signed_texts (es @ [e]) \<union> signed_texts fs"
      using fs by (auto simp: signed_texts_def)
    moreover have "chained mac g es" "chained mac g fs'" using ch fs by (simp_all add: chained_append)
    moreover have "list_all (\<lambda>e. json_ok (JObj e)) (es @ fs')" using ok fs by simp
    moreover have "g \<notin> mac ` (signed_texts es \<union> signed_texts fs')" using gen image_mono [OF sub, of mac] by blast
    ultimately have "map (\<lambda>e. sort_keys (JObj (jdel ''_hmac'' e))) es = map (\<lambda>e. sort_keys (JObj (jdel ''_hmac'' e))) fs'"
      using snoc.IH [of fs'] inj_on_subset [OF inj sub] by blast
    then show ?thesis using fs same by simp
  qed
qed

lemma signed_entries_read:
  "e \<in> set (signed_entries mac loads ls prev) \<Longrightarrow> \<exists>raw\<in>set ls. loads raw = Some (JObj e)"
proof (induction ls arbitrary: prev)
  case (Cons raw ls)
  show ?case
  proof (cases "classify_line mac loads prev raw")
    case (Signed_line digest)
    then show ?thesis using signed_lineD [OF Signed_line] Cons by auto
  qed (use Cons in auto)
qed simp

lemma history_bound_parts:
  assumes "vr_valid (verify_segment mac loads s (length s))" "vr_valid (verify_segment mac loads t (length t))"
    and "chain_head mac loads (file_lines s) GENESIS_HASH = chain_head mac loads (file_lines t) GENESIS_HASH"
    and "es = signed_entries mac loads (file_lines s) GENESIS_HASH"
    and "fs = signed_entries mac loads (file_lines t) GENESIS_HASH"
    and "inj_on mac (signed_texts es \<union> signed_texts fs)"
    and "GENESIS_HASH \<notin> mac ` (signed_texts es \<union> signed_texts fs)"
    and "\<forall>raw\<in>set (file_lines s @ file_lines t). \<forall>v. loads raw = Some v \<longrightarrow> json_ok v"
  shows "map (\<lambda>e. sort_keys (JObj (jdel ''_hmac'' e))) es = map (\<lambda>e. sort_keys (JObj (jdel ''_hmac'' e))) fs"
    and "vr_verified (verify_segment mac loads s (length s)) = length es"
    and "vr_verified (verify_segment mac loads t (length t)) = length es"
proof -
  have ok: "json_ok (JObj e)" if "e \<in> set es \<union> set fs" for e
    using that assms(4,5,8) signed_entries_read [of e mac loads _ GENESIS_HASH] by fastforce
  show eq: "map (\<lambda>e. sort_keys (JObj (jdel ''_hmac'' e))) es = map (\<lambda>e. sort_keys (JObj (jdel ''_hmac'' e))) fs"
    using chain_digest_binds [OF assms(6,7)] signed_entries_chained assms(3-5) ok
    by (simp add: list_all_iff)
  show "vr_verified (verify_segment mac loads s (length s)) = length es"
    "vr_verified (verify_segment mac loads t (length t)) = length es"
    using assms(1,2,4,5) verified_count map_eq_imp_length_eq [OF eq] by (simp_all add: segment_lines)
qed

text \<open>
  C18: the last digest of a log binds its whole signed history. If two files verify and their
  chains end in the same digest, they hold the same signed entries, in the same order and with
  the same contents up to key order: no entry was altered, reordered, inserted, or removed from
  the front or the middle. The keyed digest must not collide on the texts the two files carry,
  nor give the genesis value, and the values \<^verbatim>\<open>json.loads\<close> reads have number tokens as floats.
\<close>

theorem chain_binds_history:
  assumes "vr_valid (verify_segment mac loads s (length s))" "vr_valid (verify_segment mac loads t (length t))"
    and "chain_head mac loads (file_lines s) GENESIS_HASH = chain_head mac loads (file_lines t) GENESIS_HASH"
    and "es = signed_entries mac loads (file_lines s) GENESIS_HASH"
    and "fs = signed_entries mac loads (file_lines t) GENESIS_HASH"
    and "inj_on mac (signed_texts es \<union> signed_texts fs)"
    and "GENESIS_HASH \<notin> mac ` (signed_texts es \<union> signed_texts fs)"
    and "\<forall>raw\<in>set (file_lines s @ file_lines t). \<forall>v. loads raw = Some v \<longrightarrow> json_ok v"
  shows "(map (\<lambda>e. sort_keys (JObj (jdel ''_hmac'' e))) es = map (\<lambda>e. sort_keys (JObj (jdel ''_hmac'' e))) fs)
    \<and> (vr_verified (verify_segment mac loads s (length s)) = length es)
    \<and> (vr_verified (verify_segment mac loads t (length t)) = length es)"
  using history_bound_parts [OF assms] by blast

text \<open>Two files with the same two entries, the second with its keys in another order.\<close>

definition ex_mac :: "string \<Rightarrow> string" where
  "ex_mac t = CHR ''h'' # nat_text (length t)"

definition ex_first :: dict where
  "ex_first = [(''b'', JInt 1), (''_prev_hmac'', JStr GENESIS_HASH), (''_hmac'', JStr ''h87'')]"

definition ex_second :: dict where
  "ex_second = [(''c'', JStr ''x''), (''_prev_hmac'', JStr ''h87''), (''_hmac'', JStr ''h28'')]"

definition ex_line_1 :: string where
  "ex_line_1 = ''{\"b\": 1, \"_prev_hmac\": \"'' @ GENESIS_HASH @ ''\", \"_hmac\": \"h87\"}'' @ [CHR 0x0A]"

definition ex_line_1' :: string where
  "ex_line_1' = ''{\"_hmac\": \"h87\", \"_prev_hmac\": \"'' @ GENESIS_HASH @ ''\", \"b\": 1}'' @ [CHR 0x0A]"

definition ex_line_2 :: string where
  "ex_line_2 = ''{\"c\": \"x\", \"_prev_hmac\": \"h87\", \"_hmac\": \"h28\"}'' @ [CHR 0x0A]"

definition ex_signer_loads :: "string \<Rightarrow> json option" where
  "ex_signer_loads raw =
     (if raw = ex_line_1 then Some (JObj ex_first) else if raw = ex_line_1' then Some (JObj (rev ex_first))
      else if raw = ex_line_2 then Some (JObj ex_second) else None)"

definition ex_file :: string where
  "ex_file = ex_line_1 @ ex_line_2"

definition ex_reordered :: string where
  "ex_reordered = ex_line_1' @ ex_line_2"

theorem chain_binds_history_witness:
  "ex_file \<noteq> ex_reordered
   \<and> map (\<lambda>e. sort_keys (JObj (jdel ''_hmac'' e))) [ex_first, ex_second]
     = map (\<lambda>e. sort_keys (JObj (jdel ''_hmac'' e))) [rev ex_first, ex_second]"
proof -
  let ?E = "signed_entries ex_mac ex_signer_loads (file_lines ex_file) GENESIS_HASH"
  let ?F = "signed_entries ex_mac ex_signer_loads (file_lines ex_reordered) GENESIS_HASH"
  have e: "?E = [ex_first, ex_second]" by code_simp
  have f: "?F = [rev ex_first, ex_second]" by code_simp
  have v: "vr_valid (verify_segment ex_mac ex_signer_loads ex_file (length ex_file))" by code_simp
  have w: "vr_valid (verify_segment ex_mac ex_signer_loads ex_reordered (length ex_reordered))" by code_simp
  have h: "chain_head ex_mac ex_signer_loads (file_lines ex_file) GENESIS_HASH
    = chain_head ex_mac ex_signer_loads (file_lines ex_reordered) GENESIS_HASH" by code_simp
  have "hd GENESIS_HASH \<noteq> CHR ''h''" by code_simp
  then have "GENESIS_HASH \<noteq> ex_mac x" for x by (metis ex_mac_def list.sel(1))
  then have g: "GENESIS_HASH \<notin> ex_mac ` (signed_texts ?E \<union> signed_texts ?F)" by blast
  have "inj_on ex_mac (set (map (\<lambda>e. canonical (jdel ''_hmac'' e)) [ex_first, ex_second, rev ex_first]))" by code_simp
  then have i: "inj_on ex_mac (signed_texts ?E \<union> signed_texts ?F)"
    unfolding e f signed_texts_def by (rule inj_on_subset) auto
  have "list_all (\<lambda>raw. case ex_signer_loads raw of Some v \<Rightarrow> json_ok v | None \<Rightarrow> True)
    (file_lines ex_file @ file_lines ex_reordered)" by code_simp
  then have j: "\<forall>raw\<in>set (file_lines ex_file @ file_lines ex_reordered). \<forall>v. ex_signer_loads raw = Some v \<longrightarrow> json_ok v"
    by (auto simp: list_all_iff split: option.splits)
  have "ex_file \<noteq> ex_reordered" by code_simp
  then show ?thesis using chain_binds_history [OF v w h refl refl i g j] unfolding e f by simp
qed

end
