(* ===== verification/Audit_Log.thy ===== *)
theory Audit_Log
  imports Audit_Signer Policy_File
begin

text \<open>
  The append path of the audit log (\<^verbatim>\<open>src/audit/logger.py\<close>): the state of \<^verbatim>\<open>AuditLogger\<close> and
  its files, \<^verbatim>\<open>_maybe_rotate\<close>, \<^verbatim>\<open>_append_durable\<close>, \<^verbatim>\<open>_quarantine_uncertain_append\<close>,
  \<^verbatim>\<open>_persist\<close> and \<^verbatim>\<open>initialize_chain\<close>. What the operating system does in each call is an
  explicit outcome: which step raised and how many bytes reached the file.
\<close>

section \<open>State\<close>

text \<open>
  What the code takes from outside: the keyed digest, \<^verbatim>\<open>json.loads\<close> on the bytes of a line
  and on a decoded line, the UTF-8 decoder, and the scrubbers of \<^verbatim>\<open>_persist\<close>.
\<close>

record audit_io =
  io_mac :: "string \<Rightarrow> string"
  io_loads :: "string \<Rightarrow> json option"
  io_loads_text :: "string \<Rightarrow> json option"
  io_decode :: "string \<Rightarrow> string option"
  io_scrub :: "dict \<Rightarrow> dict"
  io_cap_text :: "json \<Rightarrow> json"
  io_max_bytes :: nat
  io_max_files :: nat

record audit_log =
  al_file :: "string option"
  al_rotated :: "nat \<Rightarrow> string option"
  al_marker :: bool
  al_signing :: bool
  al_prev :: string
  al_repair_required :: bool
  al_degraded :: bool
  al_break :: bool
  al_initialized :: bool

text \<open>\<^verbatim>\<open>AuditLogger.__init__\<close> on the files a previous process left.\<close>

definition open_audit_log :: "bool \<Rightarrow> string option \<Rightarrow> (nat \<Rightarrow> string option) \<Rightarrow> bool \<Rightarrow> audit_log" where
  "open_audit_log signing file rotated marker =
     \<lparr>al_file = file, al_rotated = rotated, al_marker = marker, al_signing = signing, al_prev = GENESIS_HASH,
      al_repair_required = marker, al_degraded = marker, al_break = False, al_initialized = False\<rparr>"

section \<open>Rotation\<close>

datatype rotate_fault = Rotates | Stat_fails | Unlink_oldest_fails | Shift_fails nat | Rename_fails

fun shift_generations :: "rotate_fault \<Rightarrow> nat list \<Rightarrow> (nat \<Rightarrow> string option) \<Rightarrow> bool \<times> (nat \<Rightarrow> string option)" where
  "shift_generations f [] g = (True, g)"
| "shift_generations f (i # is) g =
     (if g i = None then shift_generations f is g
      else if f = Shift_fails i then (False, g)
      else shift_generations f is (g(i + 1 := g i, i := None)))"

definition maybe_rotate :: "audit_io \<Rightarrow> rotate_fault \<Rightarrow> audit_log \<Rightarrow> audit_log" where
  "maybe_rotate io f s =
     (case al_file s of
        None \<Rightarrow> s
      | Some content \<Rightarrow>
          if f = Stat_fails \<or> length content < io_max_bytes io then s
          else if al_rotated s (io_max_files io) \<noteq> None \<and> f = Unlink_oldest_fails then s
          else let (done, g) = shift_generations f (rev [1..<io_max_files io])
                                 ((al_rotated s)(io_max_files io := None))
               in if \<not> done \<or> f = Rename_fails then s\<lparr>al_rotated := g\<rparr>
                  else s\<lparr>al_file := None, al_rotated := g(1 := Some content),
                         al_prev := if al_signing s then GENESIS_HASH else al_prev s\<rparr>)"

section \<open>The durable append\<close>

text \<open>Publishing the repair marker: \<open>None\<close> when it raises, otherwise whether it is durable.\<close>

definition publish_marker :: "publication \<Rightarrow> audit_log \<Rightarrow> bool option \<times> audit_log" where
  "publish_marker p s =
     (case p of
        Published \<Rightarrow> (Some True, s\<lparr>al_marker := True\<rparr>)
      | Sync_degraded \<Rightarrow> (Some False, s\<lparr>al_marker := True\<rparr>)
      | Not_published \<Rightarrow> (None, s))"

definition quarantine_uncertain_append :: "publication \<Rightarrow> audit_log \<Rightarrow> audit_log" where
  "quarantine_uncertain_append p s =
     snd (publish_marker p (s\<lparr>al_repair_required := True, al_degraded := True\<rparr>))"

text \<open>
  Outcomes of \<^verbatim>\<open>_append_durable\<close>: it succeeds; or the open fails; or the publication of the
  intent raises, or is not proven durable; or the write, the flush, the sync, the close or the removal of the marker fails
  with \<open>n\<close> bytes in the file; or only the directory sync after the removal fails.
\<close>

datatype append_fault = Appends | Open_fails | Intent_raises | Intent_unproven
  | Interrupted nat publication | Unsynced publication

definition append_failed :: "audit_log \<Rightarrow> audit_log" where
  "append_failed s = (if al_marker s then s\<lparr>al_repair_required := True\<rparr> else s)"

definition opened :: "audit_log \<Rightarrow> string" where
  "opened s = (case al_file s of None \<Rightarrow> [] | Some c \<Rightarrow> c)"

definition append_durable :: "append_fault \<Rightarrow> string \<Rightarrow> audit_log \<Rightarrow> bool \<times> audit_log" where
  "append_durable f line s =
     (case f of
        Open_fails \<Rightarrow> (False, append_failed s)
      | Intent_raises \<Rightarrow>
          (False, append_failed (snd (publish_marker Not_published (s\<lparr>al_file := Some (opened s)\<rparr>))))
      | Intent_unproven \<Rightarrow>
          (False, append_failed ((snd (publish_marker Sync_degraded (s\<lparr>al_file := Some (opened s)\<rparr>)))
                                  \<lparr>al_repair_required := True\<rparr>))
      | Interrupted n p \<Rightarrow>
          (False, quarantine_uncertain_append p
                    (s\<lparr>al_file := Some (opened s @ take n line), al_marker := True\<rparr>))
      | Unsynced p \<Rightarrow>
          (False, quarantine_uncertain_append p
                    (s\<lparr>al_file := Some (opened s @ line), al_marker := False\<rparr>))
      | Appends \<Rightarrow> (True, s\<lparr>al_file := Some (opened s @ line), al_marker := False\<rparr>))"

section \<open>Resuming the chain\<close>

text \<open>\<^verbatim>\<open>readlines\<close> in text mode: every line ending reads as a line feed.\<close>

fun universal_newlines :: "string \<Rightarrow> string" where
  "universal_newlines [] = []"
| "universal_newlines [c] = [if c = CHR 0x0D then CHR 0x0A else c]"
| "universal_newlines (c # d # s) =
     (if c = CHR 0x0D then CHR 0x0A # universal_newlines (if d = CHR 0x0A then s else d # s)
      else c # universal_newlines (d # s))"

definition text_lines :: "string \<Rightarrow> string list" where
  "text_lines s = file_lines (universal_newlines s)"

text \<open>The last line with text; \<open>None\<close> when the tail is not settled.\<close>

fun tail_predecessor :: "(string \<Rightarrow> json option) \<Rightarrow> string list \<Rightarrow> string option" where
  "tail_predecessor loads [] = Some GENESIS_HASH"
| "tail_predecessor loads (line # older) =
     (if strip line = [] then tail_predecessor loads older
      else if last line \<noteq> CHR 0x0A then None
      else case loads line of
             None \<Rightarrow> None
           | Some v \<Rightarrow>
               (case fget ''_hmac'' (entries v) of
                  JStr h \<Rightarrow> Some (if h = [] then GENESIS_HASH else h)
                | _ \<Rightarrow> Some GENESIS_HASH))"

datatype clear_fault = Clears | Unlink_marker_fails publication | Clear_unsynced publication

record init_env =
  ie_read_fails :: bool
  ie_verify_error :: "string option"
  ie_tail_publication :: publication
  ie_clear :: clear_fault

definition clear_marker :: "clear_fault \<Rightarrow> audit_log \<Rightarrow> audit_log" where
  "clear_marker f s =
     (case f of
        Clears \<Rightarrow> s\<lparr>al_marker := False, al_repair_required := False\<rparr>
      | Unlink_marker_fails p \<Rightarrow> quarantine_uncertain_append p s
      | Clear_unsynced p \<Rightarrow> quarantine_uncertain_append p (s\<lparr>al_marker := False\<rparr>))"

definition initialize_chain :: "audit_io \<Rightarrow> init_env \<Rightarrow> audit_log \<Rightarrow> audit_log" where
  "initialize_chain io ie s =
     (if al_initialized s then s
      else case al_file s of
        None \<Rightarrow> s\<lparr>al_initialized := True\<rparr>
      | Some content \<Rightarrow>
          (case (if ie_read_fails ie then None else io_decode io content) of
             None \<Rightarrow> s\<lparr>al_degraded := True\<rparr>
           | Some text \<Rightarrow>
               let result = verify_log (io_mac io) (io_loads io)
                              (Some (case ie_verify_error ie of Some e \<Rightarrow> Inl e | None \<Rightarrow> Inr content));
                   s1 = (if al_signing s then s\<lparr>al_break := \<not> vr_valid result\<rparr> else s);
                   s2 = s1\<lparr>al_degraded := al_break s1\<rparr>;
                   s3 = (case tail_predecessor (io_loads_text io) (rev (text_lines text)) of
                           None \<Rightarrow> quarantine_uncertain_append (ie_tail_publication ie) s2
                         | Some h \<Rightarrow>
                             let s4 = (if al_signing s2 then s2\<lparr>al_prev := h\<rparr> else s2)
                             in if al_repair_required s4 then clear_marker (ie_clear ie) s4 else s4)
               in s3\<lparr>al_initialized := True\<rparr>))"

section \<open>Persisting an entry\<close>

definition audit_line :: "dict \<Rightarrow> string" where
  "audit_line e = json_print '', '' '': '' (JObj e) @ [CHR 0x0A]"

text \<open>The scrub of \<^verbatim>\<open>_persist\<close>: the two text fields are capped from the caller's values.\<close>

definition scrubbed_entry :: "audit_io \<Rightarrow> dict \<Rightarrow> dict" where
  "scrubbed_entry io e =
     foldl (\<lambda>acc k. case jget k e of Some v \<Rightarrow> jset k (io_cap_text io v) acc | None \<Rightarrow> acc)
       (io_scrub io e) [''result_summary'', ''detail'']"

record persist_env =
  pe_init :: init_env
  pe_rotate :: rotate_fault
  pe_append :: append_fault
  pe_hard :: bool
  pe_cancelled :: bool

definition signed_form :: "audit_io \<Rightarrow> audit_log \<Rightarrow> dict \<Rightarrow> dict" where
  "signed_form io s e = (if al_signing s then prepare_entry (io_mac io) (al_prev s) e else e)"

text \<open>
  The entry handed to the event callback, whether the call raises (a cancellation, or a failure
  that is no \<^verbatim>\<open>Exception\<close>), and the state.
\<close>

definition persist_entry :: "audit_io \<Rightarrow> persist_env \<Rightarrow> dict \<Rightarrow> audit_log \<Rightarrow> dict \<times> bool \<times> audit_log" where
  "persist_entry io pe entry s =
     (let e = scrubbed_entry io entry;
          s1 = initialize_chain io (pe_init pe) s
      in if al_repair_required s1 then (jset ''audit_durability'' (JStr ''repair_required'') e, False, s1)
         else if \<not> al_initialized s1 then (jset ''audit_durability'' (JStr ''not_persisted'') e, False, s1)
         else let s2 = maybe_rotate io (pe_rotate pe) s1;
                  e2 = signed_form io s2 e;
                  (ok, s3) = append_durable (pe_append pe) (audit_line e2) s2
              in if ok
                 then (e2, pe_cancelled pe,
                       s3\<lparr>al_prev := if al_signing s3 then commit_entry e2 else al_prev s3,
                          al_degraded := al_break s3\<rparr>)
                 else (jset ''audit_durability''
                         (JStr (if al_repair_required s3 then ''repair_required'' else ''not_persisted'')) e2,
                       pe_hard pe \<or> pe_cancelled pe, s3\<lparr>al_degraded := True\<rparr>))"

section \<open>Histories\<close>

text \<open>
  A history of one log: entries persisted, the chain initialised at startup, and restarts, which
  keep only the files and the marker.
\<close>

datatype audit_event = Persisted dict persist_env | Initialized init_env | Restarted

definition audit_step :: "audit_io \<Rightarrow> audit_log \<Rightarrow> audit_event \<Rightarrow> audit_log" where
  "audit_step io s ev =
     (case ev of
        Persisted e pe \<Rightarrow> snd (snd (persist_entry io pe e s))
      | Initialized ie \<Rightarrow> initialize_chain io ie s
      | Restarted \<Rightarrow> open_audit_log (al_signing s) (al_file s) (al_rotated s) (al_marker s))"

definition audit_run :: "audit_io \<Rightarrow> audit_event list \<Rightarrow> audit_log \<Rightarrow> audit_log" where
  "audit_run io evs s = foldl (audit_step io) s evs"

text \<open>The entries a history tries to write, in the form they are signed.\<close>

fun attempted_entries :: "audit_io \<Rightarrow> audit_log \<Rightarrow> audit_event list \<Rightarrow> dict list" where
  "attempted_entries io s [] = []"
| "attempted_entries io s (ev # evs) =
     (case ev of
        Persisted e pe \<Rightarrow>
          [signed_form io (maybe_rotate io (pe_rotate pe) (initialize_chain io (pe_init pe) s)) (scrubbed_entry io e)]
      | _ \<Rightarrow> [])
     @ attempted_entries io (audit_step io s ev) evs"

end
