(* ===== verification/Audit_Log_Props.thy ===== *)
theory Audit_Log_Props
  imports Audit_Log
begin

text \<open>
  What the append path guarantees: every file of the log is a chain of whole signed lines,
  possibly followed by one torn line, and an append with an uncertain outcome fences the log
  until a restart has inspected its tail.
\<close>

section \<open>The text of a line\<close>

definition printable :: "char \<Rightarrow> bool" where
  "printable c \<longleftrightarrow> 32 \<le> (of_char c :: nat) \<and> (of_char c :: nat) \<le> 126"

lemma printable_marks [simp]:
  "printable CHR ''['' \<and> printable CHR '']'' \<and> printable CHR ''{'' \<and> printable CHR ''}'' \<and> printable CHR '','' \<and> printable CHR '':'' \<and> printable CHR '' '' "
  by (simp add: printable_def)

lemma hex_char_printable: "n < 16 \<Longrightarrow> printable (hex_char n)"
  by (auto simp: printable_def hex_char_def)

lemma escape_printable: "list_all printable (escape_char c)"
proof -
  have "(of_char c :: nat) div 16 < 16" using nat_of_char_less_256 [of c] by linarith
  then have "printable (hex_char (of_char c div 16))" "printable (hex_char (of_char c mod 16))"
    by (simp_all add: hex_char_printable)
  moreover have "list_all printable [CHR 0x5C, CHR 0x22, CHR ''n'', CHR ''r'', CHR ''t'', CHR ''f'', CHR ''b'', CHR ''u'', CHR ''0'']"
    by (simp add: printable_def)
  ultimately show ?thesis
    by (auto simp: escape_char_def) (simp add: printable_def)
qed

lemma quote_printable: "list_all printable (quote_text s)"
  using escape_printable by (auto simp: quote_text_def list_all_iff printable_def)

lemma token_printable: "token_char c \<Longrightarrow> printable c"
  by (auto simp: token_char_def is_digit_def printable_def)

lemma join_printable: "list_all printable sep \<Longrightarrow> list_all (list_all printable) xs \<Longrightarrow> list_all printable (join sep xs)"
  by (induction sep xs rule: join.induct) auto

lemma print_printable:
  assumes "list_all printable isep" "list_all printable ksep"
  shows "json_ok v \<Longrightarrow> list_all printable (json_print isep ksep v)"
proof (induction v)
  case (JInt i)
  then show ?case using int_text_tokens [of i] token_printable by (auto simp: list_all_iff)
next
  case (JFloat x)
  then show ?case using token_printable by (auto simp: float_lexeme_def list_all_iff)
next
  case (JList vs)
  then have "list_all (list_all printable) (map (json_print isep ksep) vs)" by (auto simp: list_all_iff)
  then show ?case using join_printable [OF assms(1)] printable_marks by simp
next
  case (JObj kvs)
  then have "list_all (list_all printable) (map (\<lambda>p. quote_text (fst p) @ ksep @ json_print isep ksep (snd p)) kvs)"
    using assms(2) quote_printable by (auto simp: list_all_iff Basic_BNFs.snds.simps)
  then show ?case using join_printable [OF assms(1)] printable_marks by simp
qed (simp_all add: quote_printable, simp_all add: printable_def)

definition line_text :: "dict \<Rightarrow> string" where
  "line_text e = json_print '', '' '': '' (JObj e)"

lemma audit_line_text: "audit_line e = line_text e @ [CHR 0x0A]"
  by (simp add: audit_line_def line_text_def)

lemma line_text_printable: "json_ok (JObj e) \<Longrightarrow> list_all printable (line_text e)"
  unfolding line_text_def by (rule print_printable) (simp_all add: printable_def)

lemma line_text_hd: "\<exists>x. line_text e = CHR ''{'' # x"
  by (simp add: line_text_def)

lemma printable_chars: "printable c \<Longrightarrow> c \<noteq> CHR 0x0A \<and> c \<noteq> CHR 0x0D \<and> \<not> digit7 c"
proof -
  assume p: "printable c"
  have "\<not> digit7 c"
  proof
    assume "digit7 c"
    then have "128 \<le> (of_char c :: nat)" by (cases c) (simp add: of_char_def horner_sum_eq_sum)
    then show False using p by (simp add: printable_def)
  qed
  then show ?thesis using p by (auto simp: printable_def)
qed

lemma list_all_not: "list_all P s \<Longrightarrow> (\<And>c. P c \<Longrightarrow> c \<noteq> d) \<Longrightarrow> d \<notin> set s"
  by (auto simp: list_all_iff)

lemma printable_no_newline: "list_all printable s \<Longrightarrow> CHR 0x0A \<notin> set s"
  using printable_chars by (auto simp: list_all_iff)

section \<open>Reading the lines back\<close>

lemma universal_newlines_id: "CHR 0x0D \<notin> set s \<Longrightarrow> universal_newlines s = s"
  by (induction s rule: universal_newlines.induct) auto

lemma file_lines_lines:
  assumes "list_all (\<lambda>e. json_ok (JObj e)) es"
  shows "file_lines (concat (map audit_line es) @ s) = map audit_line es @ file_lines s"
proof -
  have "CHR 0x0A \<notin> set l" if "l \<in> set (map line_text es)" for l
    using that assms line_text_printable printable_no_newline by (auto simp: list_all_iff)
  then have "file_lines (concat (map (\<lambda>l. l @ [CHR 0x0A]) (map line_text es)) @ s)
      = map (\<lambda>l. l @ [CHR 0x0A]) (map line_text es) @ file_lines s"
    by (rule file_lines_whole)
  moreover have "map (\<lambda>l. l @ [CHR 0x0A]) (map line_text es) = map audit_line es"
    by (simp add: audit_line_text)
  ultimately show ?thesis by (simp only:)
qed

lemma lines_chars:
  assumes "list_all (\<lambda>e. json_ok (JObj e)) es" "c \<in> set (concat (map audit_line es))"
  shows "c \<noteq> CHR 0x0D \<and> \<not> digit7 c"
proof -
  obtain e where e: "e \<in> set es" "c \<in> set (audit_line e)" using assms(2) by auto
  then have "c = CHR 0x0A \<or> c \<in> set (line_text e)" by (auto simp: audit_line_text)
  moreover have "list_all printable (line_text e)" using assms(1) e line_text_printable by (auto simp: list_all_iff)
  ultimately have "c = CHR 0x0A \<or> printable c" by (metis list_all_iff)
  then show ?thesis using printable_chars [of c] by auto
qed

section \<open>Files of signed lines\<close>

definition readable :: "audit_io \<Rightarrow> dict \<Rightarrow> bool" where
  "readable io e \<longleftrightarrow> json_ok (JObj e) \<and> io_loads io (audit_line e) = Some (JObj e)
     \<and> io_loads_text io (audit_line e) = Some (JObj e)"

definition signed_file :: "audit_io \<Rightarrow> string \<Rightarrow> dict list \<Rightarrow> bool" where
  "signed_file io content es \<longleftrightarrow> content = concat (map audit_line es)
     \<and> chained (io_mac io) GENESIS_HASH es \<and> list_all (readable io) es"

definition torn :: "audit_io \<Rightarrow> string \<Rightarrow> dict list \<Rightarrow> string \<Rightarrow> bool" where
  "torn io content es t \<longleftrightarrow> content = concat (map audit_line es) @ t
     \<and> chained (io_mac io) GENESIS_HASH es \<and> list_all (readable io) es
     \<and> t \<noteq> [] \<and> (\<exists>e u. line_text e = t @ u \<and> json_ok (JObj e))"

definition hex_mac :: "audit_io \<Rightarrow> bool" where
  "hex_mac io \<longleftrightarrow> (\<forall>t. ascii_text (io_mac io t) \<and> io_mac io t \<noteq> [])"

lemma genesis_ascii: "ascii_text GENESIS_HASH \<and> GENESIS_HASH \<noteq> []"
  by (simp add: GENESIS_HASH_def ascii_text_def list_all_iff)

lemma verify_entryI:
  assumes "fget ''_prev_hmac'' e = JStr prev" "fget ''_hmac'' e = JStr (mac (canonical (jdel ''_hmac'' e)))"
    and "ascii_text prev" "ascii_text (mac (canonical (jdel ''_hmac'' e)))" "mac (canonical (jdel ''_hmac'' e)) \<noteq> []"
  shows "verify_entry mac e prev = Some True"
proof -
  have "compare_digest (fget ''_prev_hmac'' e) prev = Some True" using assms(1,3) by (simp add: compare_digest_def)
  moreover have "compare_digest (fget ''_hmac'' e) (mac (canonical (jdel ''_hmac'' e))) = Some True"
    unfolding assms(2) using assms(4) by (simp add: compare_digest_def)
  moreover have "truthy (fget ''_hmac'' e)" unfolding assms(2) using assms(5) by simp
  ultimately show ?thesis using assms(1) by (simp add: verify_entry_def)
qed

lemma line_not_blank: "\<not> blank_line (audit_line e)"
  using line_text_hd [of e] by (auto simp: audit_line_text blank_line_def)

lemma classify_signed:
  assumes "readable io e" "hex_mac io" "ascii_text prev" "fget ''_prev_hmac'' e = JStr prev"
    and "fget ''_hmac'' e = JStr (io_mac io (canonical (jdel ''_hmac'' e)))"
  shows "classify_line (io_mac io) (io_loads io) prev (audit_line e)
     = Signed_line (io_mac io (canonical (jdel ''_hmac'' e)))"
proof -
  have v: "verify_entry (io_mac io) e prev = Some True"
    using assms by (intro verify_entryI) (auto simp: hex_mac_def)
  have "jhas ''_hmac'' e" using assms(5) by (auto simp: jhas_iff fget_def split: option.splits)
  moreover have "io_loads io (audit_line e) = Some (JObj e)" using assms(1) by (simp add: readable_def)
  ultimately show ?thesis using v line_not_blank [of e] assms(5) by (simp add: classify_line_def is_dict_def)
qed

lemma verify_signed:
  assumes "list_all (readable io) es" "hex_mac io" "ascii_text prev" "chained (io_mac io) prev es"
  shows "verify_lines (io_mac io) (io_loads io) (map audit_line es) n prev seen verified prefix
     = \<lparr>vr_valid = True, vr_total = seen + length es, vr_verified = verified + length es,
        vr_unsigned_prefix = prefix, vr_first_bad = None, vr_reason = None, vr_error = None\<rparr>
    \<and> chain_head (io_mac io) (io_loads io) (map audit_line es) prev = chain_digest prev es"
  using assms(1,3,4)
proof (induction es arbitrary: n prev seen verified)
  case (Cons e es)
  have p: "fget ''_prev_hmac'' e = JStr prev" and h: "fget ''_hmac'' e = JStr (io_mac io (canonical (jdel ''_hmac'' e)))"
    and c: "chained (io_mac io) (io_mac io (canonical (jdel ''_hmac'' e))) es"
    using Cons.prems(3) by (simp_all only: chained.simps)
  have "classify_line (io_mac io) (io_loads io) prev (audit_line e)
     = Signed_line (io_mac io (canonical (jdel ''_hmac'' e)))"
    using classify_signed [OF _ assms(2) Cons.prems(2) p h] Cons.prems(1) by simp
  moreover have "ascii_text (io_mac io (canonical (jdel ''_hmac'' e)))" using assms(2) by (simp add: hex_mac_def)
  ultimately show ?case
    using Cons.IH [of "io_mac io (canonical (jdel ''_hmac'' e))"] Cons.prems(1) c
    by (simp add: h del: chained.simps)
qed simp

section \<open>The tail of a file\<close>

lemma readable_ok: "list_all (readable io) es \<Longrightarrow> list_all (\<lambda>e. json_ok (JObj e)) es"
  by (auto simp: readable_def list_all_iff)

lemma torn_printable: "torn io content es t \<Longrightarrow> list_all printable t"
  using line_text_printable by (fastforce simp: torn_def)

lemma content_ascii: "signed_file io content es \<or> torn io content es t \<Longrightarrow> ascii_text content \<and> CHR 0x0D \<notin> set content"
proof (erule disjE)
  assume "signed_file io content es"
  then show ?thesis using lines_chars [OF readable_ok, of io es] by (auto simp: signed_file_def ascii_text_def list_all_iff)
next
  assume t: "torn io content es t"
  have "c \<noteq> CHR 0x0D \<and> \<not> digit7 c" if "c \<in> set content" for c
  proof (cases "c \<in> set t")
    case True
    then show ?thesis using torn_printable [OF t] printable_chars [of c] by (simp add: list_all_iff)
  next
    case False
    then show ?thesis using that t lines_chars [OF readable_ok, of io es c] by (auto simp: torn_def)
  qed
  then show ?thesis by (auto simp: ascii_text_def list_all_iff)
qed

lemma text_lines_settled: "signed_file io content es \<Longrightarrow> text_lines content = map audit_line es"
  using content_ascii [of io content es] file_lines_lines [OF readable_ok, of io es "[]"]
  by (simp add: text_lines_def universal_newlines_id signed_file_def file_lines.simps [of "[]"])

lemma text_lines_torn:
  assumes "torn io content es t" shows "text_lines content = map audit_line es @ [t]"
proof -
  have "file_lines t = [t]"
    using file_lines_torn printable_no_newline [OF torn_printable [OF assms]] assms by (auto simp: torn_def)
  then show ?thesis
    using content_ascii [of io content es t] assms file_lines_lines [OF readable_ok, of io es t]
    by (simp add: text_lines_def universal_newlines_id torn_def)
qed

lemma strip_nonempty:
  assumes "c \<in> set s" "\<not> is_space c"
  shows "strip s \<noteq> []"
proof -
  let ?d = "dropWhile is_space s"
  have d: "?d \<noteq> []" using assms by (auto simp: dropWhile_eq_Nil_conv)
  have "\<not> is_space (hd ?d)" using hd_dropWhile [OF d] .
  moreover have "hd ?d \<in> set (rev ?d)" using d by simp
  ultimately have "dropWhile is_space (rev ?d) \<noteq> []" unfolding dropWhile_eq_Nil_conv by blast
  then show ?thesis by (simp add: strip_def)
qed

lemma brace_no_space: "\<not> is_space CHR ''{''"
  by (simp add: is_space_def)

lemma line_stripped: "strip (audit_line e) \<noteq> []"
  using line_text_hd [of e] strip_nonempty [OF _ brace_no_space, of "audit_line e"] by (auto simp: audit_line_text)

lemma tail_settled:
  assumes "signed_file io content es" "hex_mac io"
  shows "tail_predecessor (io_loads_text io) (rev (text_lines content)) = Some (chain_digest GENESIS_HASH es)"
proof (cases es rule: rev_cases)
  case Nil
  then show ?thesis using text_lines_settled [OF assms(1)] by simp
next
  case (snoc fs e)
  have r: "io_loads_text io (audit_line e) = Some (JObj e)" using assms(1) snoc by (simp add: signed_file_def readable_def)
  have h: "fget ''_hmac'' e = JStr (io_mac io (canonical (jdel ''_hmac'' e)))"
    using assms(1) snoc by (simp add: signed_file_def chained_append)
  have n: "io_mac io (canonical (jdel ''_hmac'' e)) \<noteq> []" using assms(2) by (simp add: hex_mac_def)
  have "rev (text_lines content) = audit_line e # rev (map audit_line fs)"
    using text_lines_settled [OF assms(1)] snoc by simp
  moreover have "last (audit_line e) = CHR 0x0A" by (simp add: audit_line_text)
  ultimately show ?thesis using line_stripped [of e] r h n snoc by (simp add: chain_digest_append)
qed

lemma tail_torn:
  assumes "torn io content es t"
  shows "tail_predecessor (io_loads_text io) (rev (text_lines content)) = None"
proof -
  obtain e u where e: "line_text e = t @ u" "t \<noteq> []" using assms by (auto simp: torn_def)
  then have "CHR ''{'' \<in> set t" using line_text_hd [of e] by (cases t) auto
  then have "strip t \<noteq> []" using strip_nonempty brace_no_space by blast
  moreover have "last t \<noteq> CHR 0x0A"
    using printable_no_newline [OF torn_printable [OF assms]] e(2) by (metis last_in_set)
  ultimately show ?thesis using text_lines_torn [OF assms] by simp
qed

section \<open>The invariant of the log\<close>

definition decodes_ascii :: "audit_io \<Rightarrow> bool" where
  "decodes_ascii io \<longleftrightarrow> (\<forall>s. ascii_text s \<longrightarrow> io_decode io s = Some s)"

definition audit_file_ok :: "audit_io \<Rightarrow> string \<Rightarrow> bool" where
  "audit_file_ok io c \<longleftrightarrow> (\<exists>es. signed_file io c es) \<or> (\<exists>es t. torn io c es t)"

definition on_chain :: "audit_io \<Rightarrow> audit_log \<Rightarrow> bool" where
  "on_chain io s \<longleftrightarrow> (\<exists>es. signed_file io (opened s) es \<and> al_prev s = chain_digest GENESIS_HASH es)"

definition generations_ok :: "audit_io \<Rightarrow> (nat \<Rightarrow> string option) \<Rightarrow> bool" where
  "generations_ok io g \<longleftrightarrow> (\<forall>i c. g i = Some c \<longrightarrow> (\<exists>es. signed_file io c es))"

definition audit_inv :: "audit_io \<Rightarrow> audit_log \<Rightarrow> bool" where
  "audit_inv io s \<longleftrightarrow> al_signing s \<and> (\<not> al_initialized s \<longrightarrow> al_prev s = GENESIS_HASH)
     \<and> audit_file_ok io (opened s) \<and> (al_initialized s \<and> \<not> al_repair_required s \<longrightarrow> on_chain io s)
     \<and> generations_ok io (al_rotated s)"

lemma quarantine_simps [simp]:
  "al_file (quarantine_uncertain_append p s) = al_file s" "al_rotated (quarantine_uncertain_append p s) = al_rotated s"
  "al_signing (quarantine_uncertain_append p s) = al_signing s" "al_prev (quarantine_uncertain_append p s) = al_prev s"
  "al_repair_required (quarantine_uncertain_append p s)"
  "al_initialized (quarantine_uncertain_append p s) = al_initialized s"
  by (cases p; simp add: quarantine_uncertain_append_def publish_marker_def)+

lemma opened_file: "opened s = (case al_file s of None \<Rightarrow> [] | Some c \<Rightarrow> c)"
  by (simp add: opened_def)

lemma settled_empty [simp]: "signed_file io [] []"
  by (simp add: signed_file_def)

lemma clear_marker_simps [simp]:
  "al_file (clear_marker f s) = al_file s" "al_rotated (clear_marker f s) = al_rotated s"
  "al_signing (clear_marker f s) = al_signing s" "al_prev (clear_marker f s) = al_prev s"
  "al_initialized (clear_marker f s) = al_initialized s"
  by (cases f; simp add: clear_marker_def)+

lemma initialize_file:
  "al_file (initialize_chain io ie s) = al_file s" "al_rotated (initialize_chain io ie s) = al_rotated s"
  "al_signing (initialize_chain io ie s) = al_signing s"
  by (auto simp: initialize_chain_def Let_def split: option.splits)

text \<open>An initialised log that is not fenced has resumed the chain its file ends in.\<close>

lemma initialize_on_chain:
  assumes "audit_inv io s" "hex_mac io" "decodes_ascii io"
    and i: "al_initialized (initialize_chain io ie s)" "\<not> al_repair_required (initialize_chain io ie s)"
  shows "on_chain io (initialize_chain io ie s)"
proof (cases "al_initialized s")
  case True
  then show ?thesis using assms(1) i by (simp add: initialize_chain_def audit_inv_def)
next
  case False
  then have g: "al_prev s = GENESIS_HASH" "al_signing s" "audit_file_ok io (opened s)" using assms(1) by (simp_all add: audit_inv_def)
  show ?thesis
  proof (cases "al_file s")
    case None
    then have "signed_file io (opened (initialize_chain io ie s)) []" "al_prev (initialize_chain io ie s) = GENESIS_HASH"
      using False g by (simp_all add: initialize_chain_def opened_def)
    then show ?thesis unfolding on_chain_def by (metis chain_digest.simps(1))
  next
    case (Some content)
    then have ok: "audit_file_ok io content" using g by (simp add: opened_def)
    then have "ascii_text content" using content_ascii by (auto simp: audit_file_ok_def)
    then have dec: "io_decode io content = Some content" using assms(3) by (simp add: decodes_ascii_def)
    have rd: "\<not> ie_read_fails ie" using i(1) False Some by (auto simp: initialize_chain_def)
    let ?t = "tail_predecessor (io_loads_text io) (rev (text_lines content))"
    have t: "?t \<noteq> None"
    proof
      assume "?t = None"
      then have "al_repair_required (initialize_chain io ie s)"
        using False Some dec rd by (simp add: initialize_chain_def Let_def)
      with i(2) show False ..
    qed
    then obtain es where es: "signed_file io content es" using ok tail_torn by (auto simp: audit_file_ok_def)
    have "?t = Some (chain_digest GENESIS_HASH es)" using tail_settled [OF es assms(2)] .
    then have "al_prev (initialize_chain io ie s) = chain_digest GENESIS_HASH es"
      using False Some dec rd g(2) by (simp add: initialize_chain_def Let_def)
    moreover have "opened (initialize_chain io ie s) = content" using Some by (simp add: opened_def initialize_file)
    ultimately show ?thesis using es by (auto simp: on_chain_def)
  qed
qed

lemma initialize_prev:
  "\<not> al_initialized (initialize_chain io ie s) \<Longrightarrow> al_prev (initialize_chain io ie s) = al_prev s \<and> \<not> al_initialized s"
  by (auto simp: initialize_chain_def Let_def split: option.splits if_splits)

lemma initialize_inv:
  assumes "audit_inv io s" "hex_mac io" "decodes_ascii io"
  shows "audit_inv io (initialize_chain io ie s)"
  using assms initialize_on_chain [OF assms] initialize_prev [of io ie s] initialize_file [of io ie s]
  by (simp add: audit_inv_def opened_def)

lemma restart_inv: "audit_inv io s \<Longrightarrow> audit_inv io (open_audit_log (al_signing s) (al_file s) (al_rotated s) (al_marker s))"
  by (simp add: audit_inv_def open_audit_log_def opened_def)

section \<open>Rotation and append\<close>

lemma generations_ok_at: "generations_ok io g \<Longrightarrow> g i = Some c \<Longrightarrow> \<exists>es. signed_file io c es"
  unfolding generations_ok_def by blast

lemma generations_ok_upd:
  assumes "generations_ok io g" "\<And>c. v = Some c \<Longrightarrow> \<exists>es. signed_file io c es"
  shows "generations_ok io (g(i := v))"
  unfolding generations_ok_def
proof (intro allI impI)
  fix j c assume "(g(i := v)) j = Some c"
  then show "\<exists>es. signed_file io c es" using assms(2) generations_ok_at [OF assms(1), of j c] by (cases "j = i") auto
qed

lemma shift_ok: "generations_ok io g \<Longrightarrow> generations_ok io (snd (shift_generations f is g))"
proof (induction f "is" g rule: shift_generations.induct)
  case (2 f i "is" g)
  have "generations_ok io (g(i + 1 := g i, i := None))"
    using 2(3) generations_ok_at [OF 2(3), of i] by (intro generations_ok_upd) auto
  then show ?case using 2 by (simp del: fun_upd_apply)
qed simp

lemma rotate_simps [simp]:
  "al_signing (maybe_rotate io f s) = al_signing s" "al_initialized (maybe_rotate io f s) = al_initialized s"
  "al_repair_required (maybe_rotate io f s) = al_repair_required s"
  by (auto simp: maybe_rotate_def split: option.split prod.split)

lemma rotate_keeps:
  assumes "on_chain io s" "generations_ok io (al_rotated s)" "al_signing s"
  shows "on_chain io (maybe_rotate io f s) \<and> generations_ok io (al_rotated (maybe_rotate io f s))"
proof (cases "al_file s")
  case None
  then show ?thesis using assms by (simp add: maybe_rotate_def)
next
  case (Some content)
  let ?g = "(al_rotated s)(io_max_files io := None)"
  obtain b g where sh: "shift_generations f (rev [1..<io_max_files io]) ?g = (b, g)" by fastforce
  have g: "generations_ok io g"
    using shift_ok [of io ?g f "rev [1..<io_max_files io]"] generations_ok_upd [OF assms(2), of None] sh by simp
  have "\<exists>es. signed_file io content es" using assms(1) Some by (auto simp: on_chain_def opened_def)
  then have r: "generations_ok io (g(1 := Some content))" using generations_ok_upd [OF g, of "Some content"] by simp
  have s: "on_chain io (s\<lparr>al_rotated := g\<rparr>)" using assms(1) by (simp add: on_chain_def opened_def)
  have f: "on_chain io (s\<lparr>al_file := None, al_rotated := h, al_prev := GENESIS_HASH\<rparr>)" for h
    using settled_empty [of io] by (auto simp: on_chain_def opened_def intro!: exI [of _ "[]"])
  show ?thesis using assms Some sh g r s f by (simp add: maybe_rotate_def del: One_nat_def)
qed

lemma jdel_jset: "jdel k (jset k v e) = jdel k e"
proof -
  have "filter (\<lambda>p. fst p \<noteq> k) (map (\<lambda>p. if fst p = k then (k, v) else p) e) = filter (\<lambda>p. fst p \<noteq> k) e"
    by (induction e) auto
  then show ?thesis by (simp add: jdel_def jset_def)
qed

lemma settled_snoc:
  assumes "signed_file io c es" "readable io e" "hex_mac io"
    and "e = prepare_entry (io_mac io) (chain_digest GENESIS_HASH es) e'"
  shows "signed_file io (c @ audit_line e) (es @ [e])" "chain_digest GENESIS_HASH (es @ [e]) = commit_entry e"
proof -
  let ?e1 = "jset ''_prev_hmac'' (JStr (chain_digest GENESIS_HASH es)) e'"
  have e: "e = jset ''_hmac'' (JStr (io_mac io (canonical ?e1))) ?e1"
    using assms(4) by (simp add: prepare_entry_def Let_def)
  have p: "fget ''_prev_hmac'' e = JStr (chain_digest GENESIS_HASH es)" by (simp add: e fget_jset)
  have "jdel ''_hmac'' e = jdel ''_hmac'' ?e1" unfolding e by (rule jdel_jset)
  then have h: "fget ''_hmac'' e = JStr (io_mac io (canonical (jdel ''_hmac'' e)))"
    by (simp add: e fget_jset canonical_def jdel_jdel)
  show "signed_file io (c @ audit_line e) (es @ [e])"
    using assms(1,2) p h by (simp add: signed_file_def chained_append)
  show "chain_digest GENESIS_HASH (es @ [e]) = commit_entry e" by (simp add: chain_digest_append commit_entry_def)
qed

lemma partial_line_ok:
  assumes "signed_file io c es" "readable io e" "hex_mac io"
    and e: "e = prepare_entry (io_mac io) (chain_digest GENESIS_HASH es) e'"
  shows "audit_file_ok io (c @ take n (audit_line e))"
proof (cases "n < length (audit_line e)")
  case False
  then show ?thesis using settled_snoc [OF assms] by (auto simp: audit_file_ok_def)
next
  case True
  then have t: "take n (audit_line e) = take n (line_text e)" by (simp add: audit_line_text)
  show ?thesis
  proof (cases "take n (line_text e) = []")
    case True
    then show ?thesis using assms(1) t by (auto simp: audit_file_ok_def)
  next
    case False
    have "line_text e = take n (line_text e) @ drop n (line_text e)" by simp
    moreover have "json_ok (JObj e)" using assms(2) by (simp add: readable_def)
    ultimately have "torn io (c @ take n (line_text e)) es (take n (line_text e))"
      using False assms(1) unfolding torn_def signed_file_def by blast
    then show ?thesis using t by (auto simp: audit_file_ok_def)
  qed
qed

lemma append_simps [simp]:
  "al_signing (snd (append_durable f line s)) = al_signing s"
  "al_initialized (snd (append_durable f line s)) = al_initialized s"
  "al_prev (snd (append_durable f line s)) = al_prev s"
  "al_rotated (snd (append_durable f line s)) = al_rotated s"
  by (cases f; simp add: append_durable_def append_failed_def publish_marker_def)+

lemma append_outcome:
  "fst (append_durable f line s) \<Longrightarrow> opened (snd (append_durable f line s)) = opened s @ line
     \<and> al_repair_required (snd (append_durable f line s)) = al_repair_required s"
  "\<not> fst (append_durable f line s) \<Longrightarrow> \<not> al_repair_required (snd (append_durable f line s)) \<Longrightarrow>
     opened (snd (append_durable f line s)) = opened s"
  "\<exists>n. opened (snd (append_durable f line s)) = opened s @ take n line"
proof -
  have "\<exists>n. opened s @ line = opened s @ take n line" by (rule exI [of _ "length line"]) simp
  moreover have "\<exists>n. opened s = opened s @ take n line" by (rule exI [of _ 0]) simp
  ultimately show "\<exists>n. opened (snd (append_durable f line s)) = opened s @ take n line"
    by (cases f) (auto simp: append_durable_def append_failed_def publish_marker_def opened_def split: option.splits)
qed (cases f; simp add: append_durable_def append_failed_def publish_marker_def opened_def split: if_splits option.splits)+

lemma on_chain_file: "on_chain io s \<Longrightarrow> audit_file_ok io (opened s)"
  by (auto simp: on_chain_def audit_file_ok_def)

lemma persist_inv:
  assumes inv: "audit_inv io s" and h: "hex_mac io" and d: "decodes_ascii io"
    and r: "readable io (signed_form io (maybe_rotate io (pe_rotate pe) (initialize_chain io (pe_init pe) s)) (scrubbed_entry io e))"
  shows "audit_inv io (snd (snd (persist_entry io pe e s)))"
proof -
  let ?s1 = "initialize_chain io (pe_init pe) s"
  let ?s2 = "maybe_rotate io (pe_rotate pe) ?s1"
  let ?e = "signed_form io ?s2 (scrubbed_entry io e)"
  let ?a = "append_durable (pe_append pe) (audit_line ?e) ?s2"
  have i: "audit_inv io ?s1" using initialize_inv [OF inv h d] .
  show ?thesis
  proof (cases "al_repair_required ?s1 \<or> \<not> al_initialized ?s1")
    case True
    then show ?thesis using i by (auto simp: persist_entry_def Let_def)
  next
    case False
    then have c: "on_chain io ?s2" "generations_ok io (al_rotated ?s2)" and sg: "al_signing ?s2"
      using rotate_keeps [of io ?s1 "pe_rotate pe"] i by (auto simp: audit_inv_def)
    obtain es where es: "signed_file io (opened ?s2) es" "al_prev ?s2 = chain_digest GENESIS_HASH es"
      using c(1) by (auto simp: on_chain_def)
    have e: "?e = prepare_entry (io_mac io) (chain_digest GENESIS_HASH es) (scrubbed_entry io e)"
      using sg es(2) by (simp add: signed_form_def)
    have f: "audit_file_ok io (opened (snd ?a))"
      using append_outcome(3) [of "pe_append pe" "audit_line ?e" ?s2] partial_line_ok [OF es(1) r h e] by auto
    show ?thesis
    proof (cases "fst ?a")
      case True
      have "signed_file io (opened (snd ?a)) (es @ [?e])" "chain_digest GENESIS_HASH (es @ [?e]) = commit_entry ?e"
        using settled_snoc [OF es(1) r h e] append_outcome(1) [OF True] by simp_all
      then show ?thesis using False True f sg c(2)
        by (auto simp: persist_entry_def Let_def split_def audit_inv_def on_chain_def opened_def)
    next
      case no: False
      have "\<not> al_repair_required (snd ?a) \<Longrightarrow> on_chain io (snd ?a)"
        using append_outcome(2) [OF no] c(1) by (simp add: on_chain_def)
      then show ?thesis using False no f sg c(2)
        by (auto simp: persist_entry_def Let_def split_def audit_inv_def on_chain_def opened_def)
    qed
  qed
qed

lemma run_inv:
  assumes "audit_inv io s" "hex_mac io" "decodes_ascii io" "list_all (readable io) (attempted_entries io s evs)"
  shows "audit_inv io (audit_run io evs s)"
  using assms(1,4)
proof (induction evs arbitrary: s)
  case (Cons ev evs)
  have "audit_inv io (audit_step io s ev)"
  proof (cases ev)
    case (Persisted e pe)
    then show ?thesis using persist_inv [OF Cons.prems(1) assms(2,3), of pe e] Cons.prems(2) by (simp add: audit_step_def)
  next
    case (Initialized ie)
    then show ?thesis using initialize_inv [OF Cons.prems(1) assms(2,3)] by (simp add: audit_step_def)
  next
    case Restarted
    then show ?thesis using restart_inv [OF Cons.prems(1)] by (simp add: audit_step_def)
  qed
  then show ?case using Cons by (simp add: audit_run_def)
qed (simp add: audit_run_def)

lemma settled_verifies:
  assumes "signed_file io c es" "hex_mac io"
  shows "verify_segment (io_mac io) (io_loads io) c (length c)
     = \<lparr>vr_valid = True, vr_total = length es, vr_verified = length es, vr_unsigned_prefix = 0,
        vr_first_bad = None, vr_reason = None, vr_error = None\<rparr>
    \<and> chain_head (io_mac io) (io_loads io) (file_lines c) GENESIS_HASH = chain_digest GENESIS_HASH es"
proof -
  have "file_lines c = map audit_line es"
    using file_lines_lines [OF readable_ok, of io es "[]"] assms(1) by (simp add: signed_file_def file_lines.simps [of "[]"])
  then show ?thesis
    using verify_signed [of io es GENESIS_HASH 0 0 0 0] assms genesis_ascii by (simp add: segment_lines signed_file_def)
qed

section \<open>Properties\<close>

definition fully_signed :: "audit_io \<Rightarrow> string \<Rightarrow> bool" where
  "fully_signed io c \<longleftrightarrow>
     (let r = verify_segment (io_mac io) (io_loads io) c (length c)
      in vr_valid r \<and> vr_verified r = vr_total r)"

lemma settled_fully_signed: "signed_file io c es \<Longrightarrow> hex_mac io \<Longrightarrow> fully_signed io c"
  by (simp add: fully_signed_def settled_verifies)

lemma fresh_inv: "audit_inv io (open_audit_log True None (\<lambda>_. None) False)"
  using settled_empty [of io]
  by (auto simp: audit_inv_def open_audit_log_def opened_def audit_file_ok_def generations_ok_def
           simp del: settled_empty intro: exI [of _ "[]"])

lemma log_verifies_parts:
  assumes "hex_mac io" "decodes_ascii io" "s0 = open_audit_log True None (\<lambda>_. None) False"
    and "list_all (readable io) (attempted_entries io s0 evs)" "s = audit_run io evs s0"
  shows "al_initialized s \<and> \<not> al_repair_required s \<longrightarrow> fully_signed io (opened s)
           \<and> chain_head (io_mac io) (io_loads io) (file_lines (opened s)) GENESIS_HASH = al_prev s"
    and "al_rotated s i = Some c \<longrightarrow> fully_signed io c"
    and "\<exists>w t. opened s = w @ t \<and> fully_signed io w \<and> CHR 0x0A \<notin> set t"
proof -
  have inv: "audit_inv io s" using run_inv [OF _ assms(1,2,4)] fresh_inv assms(3,5) by simp
  show "al_initialized s \<and> \<not> al_repair_required s \<longrightarrow> fully_signed io (opened s)
           \<and> chain_head (io_mac io) (io_loads io) (file_lines (opened s)) GENESIS_HASH = al_prev s"
    using inv settled_verifies [OF _ assms(1)] settled_fully_signed [OF _ assms(1)]
    by (auto simp: audit_inv_def on_chain_def)
  show "al_rotated s i = Some c \<longrightarrow> fully_signed io c"
    using inv generations_ok_at settled_fully_signed [OF _ assms(1)] unfolding audit_inv_def by blast
  have "audit_file_ok io (opened s)" using inv by (simp add: audit_inv_def)
  then show "\<exists>w t. opened s = w @ t \<and> fully_signed io w \<and> CHR 0x0A \<notin> set t"
    unfolding audit_file_ok_def
  proof (elim disjE exE)
    fix es assume "signed_file io (opened s) es"
    then show ?thesis using settled_fully_signed [OF _ assms(1)]
      by (intro exI [of _ "opened s"] exI [of _ "[]"]) auto
  next
    fix es t assume t: "torn io (opened s) es t"
    then have "signed_file io (concat (map audit_line es)) es" by (simp add: torn_def signed_file_def)
    then show ?thesis
      using t settled_fully_signed [OF _ assms(1)] printable_no_newline [OF torn_printable [OF t]]
      by (intro exI [of _ "concat (map audit_line es)"] exI [of _ t]) (auto simp: torn_def)
  qed
qed

text \<open>
  C5: whatever fails, the log stays a verifiable chain. From an empty directory, over any
  history of appends (each step of which may fail, part of a line reaching the file), rotations
  that stop half-way, chain initialisations and restarts, the open log, while it is not fenced,
  passes \<^verbatim>\<open>verify_segment\<close> with every line signed and the next entry will chain to its last
  digest; every rotated file passes too; and even a fenced file is a verified log followed by
  at most one unfinished line. The digest is assumed to be nonempty ASCII, the decoder to read
  ASCII, and \<^verbatim>\<open>json.loads\<close> to read back the lines written.
\<close>

theorem written_log_verifies:
  assumes "hex_mac io" "decodes_ascii io" "s0 = open_audit_log True None (\<lambda>_. None) False"
    and "list_all (readable io) (attempted_entries io s0 evs)" "s = audit_run io evs s0"
  shows "(al_initialized s \<and> \<not> al_repair_required s \<longrightarrow> fully_signed io (opened s)
           \<and> chain_head (io_mac io) (io_loads io) (file_lines (opened s)) GENESIS_HASH = al_prev s)
    \<and> (al_rotated s i = Some c \<longrightarrow> fully_signed io c)
    \<and> (\<exists>w t. opened s = w @ t \<and> fully_signed io w \<and> CHR 0x0A \<notin> set t)"
  using log_verifies_parts [OF assms] by blast

text \<open>
  An append that fails before its first byte, a restart, and a second attempt at the same entry.
\<close>

definition ex_audit_io :: audit_io where
  "ex_audit_io = \<lparr>io_mac = ex_mac, io_loads = ex_signer_loads, io_loads_text = ex_signer_loads,
     io_decode = Some, io_scrub = id, io_cap_text = id, io_max_bytes = 1000, io_max_files = 2\<rparr>"

definition ex_init_env :: init_env where
  "ex_init_env = \<lparr>ie_read_fails = False, ie_verify_error = None, ie_tail_publication = Published, ie_clear = Clears\<rparr>"

definition ex_persist :: "append_fault \<Rightarrow> persist_env" where
  "ex_persist f = \<lparr>pe_init = ex_init_env, pe_rotate = Rotates, pe_append = f, pe_hard = False, pe_cancelled = False\<rparr>"

definition ex_history :: "audit_event list" where
  "ex_history =
     [Persisted [(''b'', JInt 1)] (ex_persist Appends),
      Persisted [(''c'', JStr ''x'')] (ex_persist (Interrupted 0 Published)),
      Restarted,
      Persisted [(''c'', JStr ''x'')] (ex_persist Appends)]"

definition ex_fresh :: audit_log where
  "ex_fresh = open_audit_log True None (\<lambda>_. None) False"

theorem written_log_verifies_witness:
  "fully_signed ex_audit_io ex_file \<and> opened (audit_run ex_audit_io ex_history ex_fresh) = ex_file
   \<and> \<not> al_repair_required (audit_run ex_audit_io ex_history ex_fresh)"
proof -
  have "\<not> digit7 c" if "is_digit c" for c
    using that printable_chars [of c] by (simp add: is_digit_def printable_def)
  then have "ascii_text (nat_text n)" for n using nat_text_digits [of n] by (auto simp: ascii_text_def list_all_iff)
  then have h: "hex_mac ex_audit_io" by (simp add: hex_mac_def ex_audit_io_def ex_mac_def ascii_text_def)
  have d: "decodes_ascii ex_audit_io" by (simp add: decodes_ascii_def ex_audit_io_def)
  have r: "list_all (readable ex_audit_io) (attempted_entries ex_audit_io ex_fresh ex_history)" by code_simp
  have f: "opened (audit_run ex_audit_io ex_history ex_fresh) = ex_file" by code_simp
  have a: "al_initialized (audit_run ex_audit_io ex_history ex_fresh)
    \<and> \<not> al_repair_required (audit_run ex_audit_io ex_history ex_fresh)" by code_simp
  show ?thesis using written_log_verifies [OF h d ex_fresh_def r refl] a f by simp
qed

lemma fenced_step:
  assumes "al_initialized s" "al_repair_required s" "ev \<noteq> Restarted"
  shows "audit_step io s ev = s"
  using assms by (cases ev) (simp_all add: audit_step_def persist_entry_def initialize_chain_def)

lemma fenced_run:
  "al_initialized s \<Longrightarrow> al_repair_required s \<Longrightarrow> Restarted \<notin> set evs \<Longrightarrow> audit_run io evs s = s"
  by (induction evs) (auto simp: audit_run_def fenced_step)

lemma uncertain_fences:
  assumes "al_initialized s" "\<not> al_repair_required s"
    and "pe_append pe \<in> {Interrupted n p, Unsynced p, Intent_unproven}"
  shows "al_initialized (audit_step io s (Persisted e pe)) \<and> al_repair_required (audit_step io s (Persisted e pe))"
proof -
  have i: "initialize_chain io (pe_init pe) s = s" using assms(1) by (simp add: initialize_chain_def)
  show ?thesis using assms i
    by (auto simp: audit_step_def persist_entry_def Let_def append_durable_def append_failed_def publish_marker_def)
qed

lemma append_fences_parts:
  assumes "al_initialized s" "\<not> al_repair_required s"
    and "pe_append pe \<in> {Interrupted n p, Unsynced p, Intent_unproven}"
    and "Restarted \<notin> set evs"
    and "s1 = audit_step io s (Persisted e pe)" "s2 = audit_run io evs s1"
  shows "al_file s2 = al_file s1 \<and> al_rotated s2 = al_rotated s1 \<and> al_prev s2 = al_prev s1"
    and "fget ''audit_durability'' (fst (persist_entry io pe' e' s2)) = JStr ''repair_required''"
proof -
  have f: "al_initialized s1" "al_repair_required s1" using uncertain_fences [OF assms(1-3)] assms(5) by auto
  have s: "s2 = s1" using fenced_run [OF f assms(4)] assms(6) by simp
  show "al_file s2 = al_file s1 \<and> al_rotated s2 = al_rotated s1 \<and> al_prev s2 = al_prev s1" by (simp add: s)
  show "fget ''audit_durability'' (fst (persist_entry io pe' e' s2)) = JStr ''repair_required''"
    using f by (simp add: s persist_entry_def initialize_chain_def fget_jset)
qed

text \<open>
  C39: an append whose outcome is uncertain fences the log. When part of a line may have reached
  the file, when the removal of the marker is not proven durable, or when the durability of the
  intent is not proven, no byte of any file changes again in this process, whatever is persisted
  or re-initialised afterwards, and every later entry is reported as \<^verbatim>\<open>repair_required\<close> to
  the event callback.
\<close>

theorem uncertain_append_fences:
  assumes "al_initialized s" "\<not> al_repair_required s"
    and "pe_append pe \<in> {Interrupted n p, Unsynced p, Intent_unproven}"
    and "Restarted \<notin> set evs"
    and "s1 = audit_step io s (Persisted e pe)" "s2 = audit_run io evs s1"
  shows "(al_file s2 = al_file s1 \<and> al_rotated s2 = al_rotated s1 \<and> al_prev s2 = al_prev s1)
    \<and> (fget ''audit_durability'' (fst (persist_entry io pe' e' s2)) = JStr ''repair_required'')"
  using append_fences_parts [OF assms] by blast

theorem uncertain_append_fences_witness:
  "let s1 = audit_step ex_audit_io (ex_fresh\<lparr>al_initialized := True\<rparr>)
              (Persisted [(''b'', JInt 1)] (ex_persist (Interrupted 5 Published)))
   in al_file (audit_run ex_audit_io [Persisted [(''c'', JStr ''x'')] (ex_persist Appends)] s1) = al_file s1
      \<and> length (opened s1) = 5"
proof -
  let ?s = "ex_fresh\<lparr>al_initialized := True\<rparr>"
  have i: "al_initialized ?s" by simp
  have r: "\<not> al_repair_required ?s" by (simp add: ex_fresh_def open_audit_log_def)
  have f: "pe_append (ex_persist (Interrupted 5 Published)) \<in> {Interrupted 5 Published, Unsynced Published, Intent_unproven}"
    by (simp add: ex_persist_def)
  have n: "Restarted \<notin> set [Persisted [(''c'', JStr ''x'')] (ex_persist Appends)]" by simp
  have "length (opened (audit_step ex_audit_io ?s (Persisted [(''b'', JInt 1)] (ex_persist (Interrupted 5 Published))))) = 5"
    by code_simp
  then show ?thesis
    using uncertain_append_fences [OF i r f n refl refl, of ex_audit_io "[(''b'', JInt 1)]"] by (simp add: Let_def)
qed

end
