(* ===== verification/Audit_Integrity.thy ===== *)
theory Audit_Integrity
  imports Audit_Log_Props
begin

text \<open>
  The verification of all retained files (\<^verbatim>\<open>_open_verify_snapshot\<close> and \<^verbatim>\<open>verify_integrity\<close> of
  \<^verbatim>\<open>src/audit/logger.py\<close>). Each generation is found absent, cannot be opened (with the class of
  the error), or is read whole under its device and inode.
\<close>

datatype generation = Gen_absent | Gen_error string | Gen_open nat string

datatype row_body = Row_absent | Row_error string | Row_bytes string

type_synonym verify_row = "nat \<times> row_body"

text \<open>The snapshot: rows, the positions present, and the inodes seen.\<close>

fun snapshot_rows :: "(nat \<times> generation) list \<Rightarrow> nat list \<Rightarrow> verify_row list \<times> nat list" where
  "snapshot_rows [] seen = ([], [])"
| "snapshot_rows ((i, g) # gs) seen =
     (case g of
        Gen_absent \<Rightarrow> let (rows, present) = snapshot_rows gs seen in ((i, Row_absent) # rows, present)
      | Gen_error e \<Rightarrow> let (rows, present) = snapshot_rows gs seen in ((i, Row_error e) # rows, i # present)
      | Gen_open inode content \<Rightarrow>
          if inode \<in> set seen then snapshot_rows gs seen
          else let (rows, present) = snapshot_rows gs (inode # seen)
               in ((i, Row_bytes content) # rows, i # present))"

definition open_verify_snapshot :: "nat \<Rightarrow> (nat \<Rightarrow> generation) \<Rightarrow> verify_row list" where
  "open_verify_snapshot max_files disk =
     (let (rows, present) = snapshot_rows (map (\<lambda>i. (i, disk i)) [0..<max_files + 1]) [];
          highest = foldr max (filter (\<lambda>i. 0 < i) present) 0
      in filter (\<lambda>(i, b). b \<noteq> Row_absent \<or> i = 0 \<or> i < highest) rows)"

datatype segment_status = Seg_verified | Seg_unsigned | Seg_broken | Seg_unreadable | Seg_missing

record segment =
  sg_position :: nat
  sg_status :: segment_status
  sg_total :: nat
  sg_verified :: nat
  sg_unsigned_prefix :: nat
  sg_first_bad :: "nat option"
  sg_reason :: "string option"
  sg_error :: "string option"

text \<open>The verdict on one row; a read that fails in the scan is \<open>None\<close>.\<close>

definition row_segment :: "(string \<Rightarrow> verify_result option) \<Rightarrow> verify_row \<Rightarrow> segment" where
  "row_segment verify = (\<lambda>(i, b).
     let seg = \<lparr>sg_position = i, sg_status = Seg_verified, sg_total = 0, sg_verified = 0,
                sg_unsigned_prefix = 0, sg_first_bad = None, sg_reason = None, sg_error = None\<rparr>
     in case b of
          Row_absent \<Rightarrow>
            if i = 0 then seg
            else seg\<lparr>sg_status := Seg_missing, sg_error := Some ''expected file not found''\<rparr>
        | Row_error e \<Rightarrow> seg\<lparr>sg_status := Seg_unreadable, sg_error := Some e\<rparr>
        | Row_bytes content \<Rightarrow>
            (case verify content of
               None \<Rightarrow> seg\<lparr>sg_status := Seg_unreadable, sg_error := Some ''OSError''\<rparr>
             | Some r \<Rightarrow>
                 seg\<lparr>sg_status := (if \<not> vr_valid r then Seg_broken
                                   else if vr_verified r = 0 \<and> 0 < vr_total r then Seg_unsigned
                                   else Seg_verified),
                     sg_total := vr_total r, sg_verified := vr_verified r,
                     sg_unsigned_prefix := vr_unsigned_prefix r, sg_first_bad := vr_first_bad r,
                     sg_reason := vr_reason r, sg_error := vr_error r\<rparr>))"

text \<open>From the oldest file on: an unsigned file newer than a signed one is a gap.\<close>

fun mark_gaps :: "bool \<Rightarrow> segment list \<Rightarrow> segment list" where
  "mark_gaps signed_seen [] = []"
| "mark_gaps signed_seen (seg # segs) =
     (if sg_status seg = Seg_unsigned \<and> signed_seen
      then seg\<lparr>sg_status := Seg_broken, sg_reason := Some ''signing_gap'',
               sg_error := Some ''no signatures although older files are signed''\<rparr>
      else seg)
     # mark_gaps (signed_seen \<or> 0 < sg_verified seg) segs"

datatype durability_state = Repair_required | Degraded | Durable

record integrity_report =
  ir_valid :: bool
  ir_available :: bool
  ir_total :: nat
  ir_verified :: nat
  ir_unsigned_prefix :: nat
  ir_first_bad :: "nat option"
  ir_first_bad_position :: "nat option"
  ir_error :: "string option"
  ir_durability :: "durability_state option"
  ir_segments :: "segment list"

definition segment_problem :: "segment \<Rightarrow> bool" where
  "segment_problem seg \<longleftrightarrow> sg_status seg \<in> {Seg_broken, Seg_unreadable, Seg_missing}"

definition segment_name :: "string \<Rightarrow> nat \<Rightarrow> string" where
  "segment_name base i = (if i = 0 then base else base @ ''.'' @ nat_text i)"

definition verify_integrity ::
    "string \<Rightarrow> nat \<Rightarrow> (string \<Rightarrow> verify_result option) \<Rightarrow> (nat \<Rightarrow> generation) \<Rightarrow> audit_log \<Rightarrow> integrity_report" where
  "verify_integrity base max_files verify disk s =
     (if \<not> al_signing s
      then \<lparr>ir_valid = False, ir_available = False, ir_total = 0, ir_verified = 0, ir_unsigned_prefix = 0,
            ir_first_bad = None, ir_first_bad_position = None,
            ir_error = Some ''Signing not enabled (no hmac_key configured)'',
            ir_durability = None, ir_segments = []\<rparr>
      else let segs = rev (mark_gaps False (rev (map (row_segment verify) (open_verify_snapshot max_files disk))));
               bad = filter segment_problem segs
           in \<lparr>ir_valid = (bad = []), ir_available = True,
               ir_total = sum_list (map sg_total segs), ir_verified = sum_list (map sg_verified segs),
               ir_unsigned_prefix = sum_list (map sg_unsigned_prefix segs),
               ir_first_bad = (case bad of [] \<Rightarrow> None | b # _ \<Rightarrow> sg_first_bad b),
               ir_first_bad_position = (case bad of [] \<Rightarrow> None | b # _ \<Rightarrow> Some (sg_position b)),
               ir_error = (case bad of [] \<Rightarrow> None
                           | b # _ \<Rightarrow> Some (segment_name base (sg_position b) @ '': ''
                                          @ (case sg_error b of Some e \<Rightarrow> e | None \<Rightarrow> ''None''))),
               ir_durability = Some (if al_repair_required s then Repair_required
                                else if al_degraded s \<or> (case segs of [] \<Rightarrow> False | a # _ \<Rightarrow> sg_status a = Seg_broken)
                                then Degraded else Durable),
               ir_segments = segs\<rparr>)"

section \<open>The verdict\<close>

definition verify_row_of :: "nat \<times> generation \<Rightarrow> verify_row" where
  "verify_row_of = (\<lambda>(i, g). (i, case g of Gen_absent \<Rightarrow> Row_absent | Gen_error e \<Rightarrow> Row_error e | Gen_open _ c \<Rightarrow> Row_bytes c))"

definition inode_of :: "nat \<times> generation \<Rightarrow> nat list" where
  "inode_of = (\<lambda>(i, g). case g of Gen_open n _ \<Rightarrow> [n] | _ \<Rightarrow> [])"

text \<open>Under distinct inodes no row is dropped.\<close>

lemma snapshot_rows_distinct:
  "distinct (concat (map inode_of gs) @ seen) \<Longrightarrow>
   snapshot_rows gs seen = (map verify_row_of gs, map fst (filter (\<lambda>p. snd p \<noteq> Gen_absent) gs))"
proof (induction gs seen rule: snapshot_rows.induct)
  case (2 i g gs seen)
  show ?case
  proof (cases g)
    case (Gen_open n c)
    have n: "inode_of (i, g) = [n]" by (simp add: inode_of_def Gen_open)
    then have d: "n \<notin> set seen" "distinct (concat (map inode_of gs) @ n # seen)"
      using "2.prems" by auto
    show ?thesis using 2(4) [OF Gen_open d] d(1) Gen_open by (simp add: verify_row_of_def)
  qed (use 2 in \<open>simp_all add: verify_row_of_def inode_of_def\<close>)
qed simp

definition own_inodes :: "nat \<Rightarrow> (nat \<Rightarrow> generation) \<Rightarrow> bool" where
  "own_inodes m disk \<longleftrightarrow> distinct (concat (map inode_of (map (\<lambda>i. (i, disk i)) [0..<m + 1])))"

lemma foldr_max_less: "(i::nat) < foldr max xs 0 \<longleftrightarrow> (\<exists>j\<in>set xs. i < j)"
  by (induction xs) auto

lemma open_verify_snapshot_rows:
  assumes "own_inodes m disk"
  shows "set (open_verify_snapshot m disk) =
     {(i, snd (verify_row_of (i, disk i))) | i. i \<le> m \<and> (disk i \<noteq> Gen_absent \<or> i = 0 \<or> (\<exists>j\<le>m. i < j \<and> disk j \<noteq> Gen_absent))}"
    and "sorted_wrt (\<lambda>a b. fst a < fst b) (open_verify_snapshot m disk)"
proof -
  let ?gs = "map (\<lambda>i. (i, disk i)) [0..<m + 1]"
  have s: "snapshot_rows ?gs [] = (map verify_row_of ?gs, map fst (filter (\<lambda>p. snd p \<noteq> Gen_absent) ?gs))"
    using assms by (intro snapshot_rows_distinct) (simp add: own_inodes_def)
  let ?h = "foldr max (filter (\<lambda>i. 0 < i) (map fst (filter (\<lambda>p. snd p \<noteq> Gen_absent) ?gs))) 0"
  have h: "i < ?h \<longleftrightarrow> (\<exists>j\<le>m. i < j \<and> disk j \<noteq> Gen_absent)" for i
  proof -
    have e: "map fst (filter (\<lambda>p. snd p \<noteq> Gen_absent) ?gs) = filter (\<lambda>i. disk i \<noteq> Gen_absent) [0..<m + 1]"
      by (simp only: filter_map comp_def snd_conv map_map fst_conv map_ident)
    have S: "set (filter (\<lambda>i. 0 < i) (filter (\<lambda>i. disk i \<noteq> Gen_absent) [0..<m + 1])) = {j. 0 < j \<and> j \<le> m \<and> disk j \<noteq> Gen_absent}"
      by (simp add: set_eq_iff less_Suc_eq_le del: upt_Suc) blast
    show ?thesis unfolding foldr_max_less e S by (simp add: Bex_def) (metis gr_zeroI not_less0)
  qed
  have o: "open_verify_snapshot m disk = filter (\<lambda>(i, b). b \<noteq> Row_absent \<or> i = 0 \<or> i < ?h) (map verify_row_of ?gs)"
    unfolding open_verify_snapshot_def s by (simp only: Let_def prod.case)
  have a: "snd (verify_row_of (i, disk i)) = Row_absent \<longleftrightarrow> disk i = Gen_absent" for i
    by (simp add: verify_row_of_def split: generation.split)
  let ?b = "\<lambda>i. snd (verify_row_of (i, disk i))"
  have "map verify_row_of ?gs = map (\<lambda>i. (i, ?b i)) [0..<m + 1]"
    by (simp add: verify_row_of_def del: upt_Suc)
  then have o': "open_verify_snapshot m disk
      = map (\<lambda>i. (i, ?b i)) (filter (\<lambda>i. ?b i \<noteq> Row_absent \<or> i = 0 \<or> i < ?h) [0..<m + 1])"
    unfolding o by (simp only: filter_map comp_def prod.case)
  show "set (open_verify_snapshot m disk) =
     {(i, ?b i) | i. i \<le> m \<and> (disk i \<noteq> Gen_absent \<or> i = 0 \<or> (\<exists>j\<le>m. i < j \<and> disk j \<noteq> Gen_absent))}"
    unfolding o' a h set_map set_filter by (auto simp: less_Suc_eq_le simp del: upt_Suc)
  show "sorted_wrt (\<lambda>a b. fst a < fst b) (open_verify_snapshot m disk)"
    unfolding o' sorted_wrt_map fst_conv by (intro sorted_wrt_filter sorted_wrt_upt)
qed

lemma mark_gaps_length [simp]: "length (mark_gaps b segs) = length segs"
  by (induction segs arbitrary: b) auto

text \<open>Oldest first, positions descend; a segment is unsigned only below signed ones in age.\<close>

lemma mark_gaps_ok:
  assumes "sorted_wrt (\<lambda>a b. sg_position b < sg_position a) segs"
  shows "filter segment_problem (mark_gaps b segs) = [] \<longleftrightarrow>
     (\<forall>seg\<in>set segs. \<not> segment_problem seg)
     \<and> (b \<longrightarrow> (\<forall>seg\<in>set segs. sg_status seg \<noteq> Seg_unsigned))
     \<and> (\<forall>seg\<in>set segs. \<forall>old\<in>set segs. sg_status seg = Seg_unsigned \<and> sg_position seg < sg_position old
          \<longrightarrow> sg_verified old = 0)"
  using assms
proof (induction segs arbitrary: b)
  case (Cons seg segs)
  have lower: "\<And>x. x \<in> set segs \<Longrightarrow> sg_position x < sg_position seg" using Cons.prems by simp
  have problem: "segment_problem (seg\<lparr>sg_status := Seg_broken, sg_reason := r, sg_error := e\<rparr>)" for r e
    by (simp add: segment_problem_def)
  have IH: "filter segment_problem (mark_gaps (b \<or> 0 < sg_verified seg) segs) = [] \<longleftrightarrow>
     (\<forall>seg\<in>set segs. \<not> segment_problem seg)
     \<and> ((b \<or> 0 < sg_verified seg) \<longrightarrow> (\<forall>seg\<in>set segs. sg_status seg \<noteq> Seg_unsigned))
     \<and> (\<forall>seg\<in>set segs. \<forall>old\<in>set segs. sg_status seg = Seg_unsigned \<and> sg_position seg < sg_position old
          \<longrightarrow> sg_verified old = 0)"
    using Cons by simp
  show ?case
  proof (cases "sg_status seg = Seg_unsigned \<and> b")
    case True
    then show ?thesis using problem by simp
  next
    case False
    have "mark_gaps b (seg # segs) = seg # mark_gaps (b \<or> 0 < sg_verified seg) segs"
      by (subst mark_gaps.simps, subst if_not_P [OF False], rule refl)
    then have "filter segment_problem (mark_gaps b (seg # segs)) = [] \<longleftrightarrow>
        \<not> segment_problem seg \<and> filter segment_problem (mark_gaps (b \<or> 0 < sg_verified seg) segs) = []"
      by simp
    also have "\<dots> \<longleftrightarrow> ((\<forall>s\<in>set (seg # segs). \<not> segment_problem s)
       \<and> (b \<longrightarrow> (\<forall>s\<in>set (seg # segs). sg_status s \<noteq> Seg_unsigned))
       \<and> (\<forall>s\<in>set (seg # segs). \<forall>old\<in>set (seg # segs). sg_status s = Seg_unsigned \<and> sg_position s < sg_position old
          \<longrightarrow> sg_verified old = 0))"
      unfolding IH using False lower by (auto dest: order.asym)
    finally show ?thesis .
  qed
qed simp

lemma row_segment_position [simp]: "sg_position (row_segment v (i, b)) = i"
  by (simp add: row_segment_def Let_def split: row_body.split option.split)

definition gen_sound :: "(string \<Rightarrow> verify_result option) \<Rightarrow> generation \<Rightarrow> bool" where
  "gen_sound v g =
     (case g of Gen_open _ c \<Rightarrow> (case v c of Some r \<Rightarrow> vr_valid r | None \<Rightarrow> False) | Gen_absent \<Rightarrow> True | Gen_error _ \<Rightarrow> False)"

definition gen_count :: "(verify_result \<Rightarrow> nat) \<Rightarrow> (string \<Rightarrow> verify_result option) \<Rightarrow> generation \<Rightarrow> nat" where
  "gen_count f v g = (case g of Gen_open _ c \<Rightarrow> (case v c of Some r \<Rightarrow> f r | None \<Rightarrow> 0) | _ \<Rightarrow> 0)"

lemma row_segment_facts:
  "segment_problem (row_segment v (i, snd (verify_row_of (i, g)))) \<longleftrightarrow> \<not> gen_sound v g \<or> (g = Gen_absent \<and> i \<noteq> 0)"
  "sg_verified (row_segment v (i, snd (verify_row_of (i, g)))) = gen_count vr_verified v g"
  "sg_status (row_segment v (i, snd (verify_row_of (i, g)))) = Seg_unsigned \<longleftrightarrow>
     gen_sound v g \<and> gen_count vr_verified v g = 0 \<and> 0 < gen_count vr_total v g"
  by (auto simp: row_segment_def verify_row_of_def segment_problem_def gen_sound_def gen_count_def Let_def
           split: generation.split option.split)

text \<open>
  C25: the verdict of the integrity check over all retained files is exactly this. It reports the
  log valid if and only if every retained file can be read and verifies, no file is missing
  below an older one that is present, and no file with entries but without a single signature
  is newer than a file with signatures: signing, once enabled, has no gap. The files are assumed
  to be distinct inodes.
\<close>

theorem integrity_verdict:
  assumes "al_signing s" "own_inodes m disk"
  shows "ir_valid (verify_integrity base m verify disk s) \<longleftrightarrow>
     (\<forall>i\<le>m. gen_sound verify (disk i)
        \<and> (disk i = Gen_absent \<and> i \<noteq> 0 \<longrightarrow> (\<forall>j\<le>m. i < j \<longrightarrow> disk j = Gen_absent)))
     \<and> (\<forall>i\<le>m. \<forall>j\<le>m. i < j \<and> gen_count vr_verified verify (disk i) = 0 \<and> 0 < gen_count vr_total verify (disk i)
          \<longrightarrow> gen_count vr_verified verify (disk j) = 0)"
proof -
  let ?rows = "open_verify_snapshot m disk"
  let ?segs = "rev (map (row_segment verify) ?rows)"
  let ?keep = "\<lambda>i. i \<le> m \<and> (disk i \<noteq> Gen_absent \<or> i = 0 \<or> (\<exists>j\<le>m. i < j \<and> disk j \<noteq> Gen_absent))"
  let ?g = "\<lambda>i. row_segment verify (i, snd (verify_row_of (i, disk i)))"
  note rows = open_verify_snapshot_rows [OF assms(2)]
  have segs: "set ?segs = ?g ` {i. ?keep i}" unfolding set_rev set_map rows(1) by blast
  have "sg_position (row_segment verify r) = fst r" for r by (cases r) simp
  then have sorted: "sorted_wrt (\<lambda>a b. sg_position b < sg_position a) ?segs"
    using rows(2) by (simp add: sorted_wrt_rev sorted_wrt_map)
  have "ir_valid (verify_integrity base m verify disk s) \<longleftrightarrow> filter segment_problem (mark_gaps False ?segs) = []"
    using assms(1) by (simp add: verify_integrity_def Let_def rev_filter [symmetric] rev_map)
  also have "\<dots> \<longleftrightarrow> (\<forall>i. ?keep i \<longrightarrow> \<not> segment_problem (?g i))
     \<and> (\<forall>i j. ?keep i \<and> ?keep j \<longrightarrow> sg_status (?g i) = Seg_unsigned \<and> i < j \<longrightarrow> sg_verified (?g j) = 0)"
    unfolding mark_gaps_ok [OF sorted] segs by auto
  also have "\<dots> \<longleftrightarrow>
     (\<forall>i\<le>m. gen_sound verify (disk i)
        \<and> (disk i = Gen_absent \<and> i \<noteq> 0 \<longrightarrow> (\<forall>j\<le>m. i < j \<longrightarrow> disk j = Gen_absent)))
     \<and> (\<forall>i\<le>m. \<forall>j\<le>m. i < j \<and> gen_count vr_verified verify (disk i) = 0 \<and> 0 < gen_count vr_total verify (disk i)
          \<longrightarrow> gen_count vr_verified verify (disk j) = 0)"
  proof -
    have absent: "gen_sound verify Gen_absent" "gen_count f verify Gen_absent = 0" for f
      by (simp_all add: gen_sound_def gen_count_def)
    have one: "(\<forall>i. ?keep i \<longrightarrow> \<not> segment_problem (?g i)) \<longleftrightarrow>
      (\<forall>i\<le>m. gen_sound verify (disk i) \<and> (disk i = Gen_absent \<and> i \<noteq> 0 \<longrightarrow> (\<forall>j\<le>m. i < j \<longrightarrow> disk j = Gen_absent)))"
      unfolding row_segment_facts using absent(1) by metis
    have two: "(\<forall>i j. ?keep i \<and> ?keep j \<longrightarrow> sg_status (?g i) = Seg_unsigned \<and> i < j \<longrightarrow> sg_verified (?g j) = 0) \<longleftrightarrow>
      (\<forall>i\<le>m. \<forall>j\<le>m. i < j \<and> gen_count vr_verified verify (disk i) = 0 \<and> 0 < gen_count vr_total verify (disk i)
          \<longrightarrow> gen_count vr_verified verify (disk j) = 0)" (is "?L = ?R") if sound: "\<forall>i\<le>m. gen_sound verify (disk i)"
    proof
      assume l: ?L
      show ?R
      proof (intro allI impI)
        fix i j
        assume a: "i \<le> m" "j \<le> m"
          "i < j \<and> gen_count vr_verified verify (disk i) = 0 \<and> 0 < gen_count vr_total verify (disk i)"
        have "disk i \<noteq> Gen_absent" using a(3) absent(2) by (metis less_irrefl)
        show "gen_count vr_verified verify (disk j) = 0"
        proof (cases "disk j = Gen_absent")
          case True
          then show ?thesis using absent(2) by simp
        next
          case False
          have "gen_sound verify (disk i)" using sound a(1) by blast
          then show ?thesis
            using l [unfolded row_segment_facts, rule_format, of i j] \<open>disk i \<noteq> Gen_absent\<close> False a by blast
        qed
      qed
    next
      assume ?R
      then show ?L unfolding row_segment_facts by blast
    qed
    show ?thesis unfolding one using two by auto
  qed
  finally show ?thesis .
qed

text \<open>A signed file, a missing generation above it, and the same disk without the hole.\<close>

definition ex_verify :: "string \<Rightarrow> verify_result option" where
  "ex_verify c = Some (verify_segment ex_mac ex_signer_loads c (length c))"

definition ex_disk :: "nat \<Rightarrow> generation" where
  "ex_disk i = (if i = 1 then Gen_open 7 ex_line_1 else Gen_absent)"

definition ex_holed_disk :: "nat \<Rightarrow> generation" where
  "ex_holed_disk i = (if i = 2 then Gen_open 7 ex_line_1 else Gen_absent)"

theorem integrity_verdict_witness:
  "ir_valid (verify_integrity ''audit.jsonl'' 2 ex_verify ex_disk ex_fresh)
   \<and> \<not> ir_valid (verify_integrity ''audit.jsonl'' 2 ex_verify ex_holed_disk ex_fresh)"
proof -
  have s: "al_signing ex_fresh" by (simp add: ex_fresh_def open_audit_log_def)
  have d: "own_inodes 2 ex_disk" "own_inodes 2 ex_holed_disk" by code_simp+
  have v: "vr_valid (verify_segment ex_mac ex_signer_loads ex_line_1 (length ex_line_1))" by code_simp
  have "gen_sound ex_verify (ex_disk i)" for i by (simp add: gen_sound_def ex_verify_def ex_disk_def v)
  then have a: "ir_valid (verify_integrity ''audit.jsonl'' 2 ex_verify ex_disk ex_fresh)"
    unfolding integrity_verdict [OF s d(1)] by (auto simp: ex_disk_def gen_count_def)
  have "\<not> ir_valid (verify_integrity ''audit.jsonl'' 2 ex_verify ex_holed_disk ex_fresh)"
  proof
    assume "ir_valid (verify_integrity ''audit.jsonl'' 2 ex_verify ex_holed_disk ex_fresh)"
    then have "\<forall>i\<le>2. ex_holed_disk i = Gen_absent \<and> i \<noteq> 0 \<longrightarrow> (\<forall>j\<le>2. i < j \<longrightarrow> ex_holed_disk j = Gen_absent)"
      unfolding integrity_verdict [OF s d(2)] by blast
    from this [rule_format, of 1 2] show False by (simp add: ex_holed_disk_def)
  qed
  with a show ?thesis by blast
qed

end
