(* ===== verification/Audit_Text.thy ===== *)
theory Audit_Text
  imports Audit_Signer
begin

text \<open>
  The texts of the audit log (\<^verbatim>\<open>src/audit/logger.py\<close>): the bounded preview of an oversized
  value (\<^verbatim>\<open>_audit_preview\<close>, \<^verbatim>\<open>_cap_audit_text\<close>, \<^verbatim>\<open>_cap_tool_input\<close>) and the reader that yields
  the lines of a file newest first from fixed-size blocks (\<^verbatim>\<open>_iter_lines_reverse\<close>).
  \<^verbatim>\<open>scrub_diagnostic\<close> and \<^verbatim>\<open>json.loads\<close> are arguments.
\<close>

section \<open>The preview\<close>

definition dumps :: "json \<Rightarrow> string" where
  "dumps v = json_print '', '' '': '' v"

definition preview_size :: "dict \<Rightarrow> nat" where
  "preview_size d = length (dumps (JObj d))"

text \<open>The longest prefix that fits, by bisection.\<close>

function preview_search :: "string \<Rightarrow> nat \<Rightarrow> dict \<Rightarrow> nat \<Rightarrow> nat \<Rightarrow> nat" where
  "preview_search src cap preview low high =
     (if low < high
      then let mid = (low + high + 1) div 2
           in if preview_size (jset ''preview'' (JStr (take mid src)) preview) \<le> cap
              then preview_search src cap preview mid high
              else preview_search src cap preview low (mid - 1)
      else low)"
  by pat_completeness auto

termination
  by (relation "measure (\<lambda>(src, cap, preview, low, high). high - low)") auto

declare preview_search.simps [simp del]

definition preview_drop :: "nat \<Rightarrow> string \<Rightarrow> dict \<Rightarrow> dict" where
  "preview_drop cap k preview = (if cap < preview_size preview then jdel k preview else preview)"

definition audit_preview :: "string \<Rightarrow> nat \<Rightarrow> dict \<Rightarrow> nat option \<Rightarrow> dict" where
  "audit_preview src cap source original_chars =
     (let p0 = [(''kind'', JStr ''audit_preview''), (''audit_clipped'', JBool True),
                (''original_chars'', JInt (int (case original_chars of Some n \<Rightarrow> n | None \<Rightarrow> length src))),
                (''preview'', JStr [])]
               @ (if source = [] then [] else [(''source'', JObj source)]);
          p1 = preview_drop cap ''source'' p0;
          p2 = preview_drop cap ''original_chars'' p1;
          p3 = preview_drop cap ''preview'' p2
      in if cap < preview_size p3 then (if 23 \<le> cap then [(''audit_clipped'', JBool True)] else [])
         else if jhas ''preview'' p3
         then jset ''preview'' (JStr (take (preview_search src cap p3 0 (min (length src) cap)) src)) p3
         else p3)"

section \<open>Capping a text\<close>

text \<open>\<^verbatim>\<open>text.rpartition(sep)\<close>, \<open>None\<close> when the separator does not occur.\<close>

fun rpartition :: "string \<Rightarrow> string \<Rightarrow> (string \<times> string) option" where
  "rpartition sep [] = (if sep = [] then Some ([], []) else None)"
| "rpartition sep (c # s) =
     (case rpartition sep s of
        Some (b, a) \<Rightarrow> Some (c # b, a)
      | None \<Rightarrow> if take (length sep) (c # s) = sep then Some ([], drop (length sep) (c # s)) else None)"

text \<open>\<^verbatim>\<open>isinstance(v, int)\<close>: booleans are integers.\<close>

definition int_like :: "json \<Rightarrow> bool" where
  "int_like v \<longleftrightarrow> exact_int v \<or> is_bool v"

definition retention_mark :: string where
  "retention_mark = CHR 0x0A # ''[output retention] ''"

definition process_output_shape :: "json \<Rightarrow> bool" where
  "process_output_shape v \<longleftrightarrow> is_dict v \<and> fget ''kind'' (entries v) = JStr ''process_output''
     \<and> int_like (fget ''pid'' (entries v)) \<and> int_like (fget ''retained_bytes'' (entries v))"

definition source_facts :: "string list" where
  "source_facts =
     [''kind'', ''status'', ''truncated'', ''retention'', ''capture_loss'',
      ''capture_lost_bytes'', ''total_bytes'', ''total_chars'', ''retained_bytes'',
      ''emitted_bytes'', ''shown_bytes'', ''offset_unit'', ''capture_error'',
      ''dropped_bytes'', ''output_lost'', ''capture_truncated'',
      ''capture_limit_loss_bytes'', ''not_retained_bytes'', ''pid'', ''exit_code'',
      ''start'', ''end'', ''tail_status'', ''retention_seconds_after_exit'',
      ''original_bytes'', ''result_bytes'', ''error_bytes'', ''offset'',
      ''source_original_bytes'', ''id'']"

definition bounded_scalar :: "json \<Rightarrow> bool" where
  "bounded_scalar v =
     (case v of JStr s \<Rightarrow> length s \<le> 100 | JList _ \<Rightarrow> False | JObj _ \<Rightarrow> False | _ \<Rightarrow> True)"

definition preview_source :: "(json \<Rightarrow> json) \<Rightarrow> json \<Rightarrow> dict" where
  "preview_source scrub parsed =
     (if \<not> is_dict parsed then []
      else let ps = entries parsed;
               s0 = filter (\<lambda>p. fst p \<in> set source_facts \<and> bounded_scalar (snd p)) (entries (scrub parsed));
               s1 = (if jhas ''cursor'' ps
                     then jset ''cursor_present'' (JBool (is_str (fget ''cursor'' ps) \<and> fget ''cursor'' ps \<noteq> JStr [])) s0
                     else s0)
           in if (fget ''kind'' ps = JStr ''process_output'' \<or> (jhas ''original_bytes'' ps \<and> jhas ''result_bytes'' ps))
                 \<and> \<not> jhas ''offset_unit'' s1
              then jset ''offset_unit'' (JStr ''utf8_bytes'') s1 else s1)"

definition known_envelope :: "dict \<Rightarrow> bool" where
  "known_envelope env \<longleftrightarrow>
     (fget ''kind'' env = JStr ''tool_output'' \<and> is_str (fget ''status'' env) \<and> jhas ''retention'' env)
   \<or> (fget ''kind'' env = JStr ''process_output'' \<and> int_like (fget ''pid'' env) \<and> jhas ''retained_bytes'' env)
   \<or> (is_str (fget ''id'' env) \<and> is_bool (fget ''truncated'' env)
      \<and> int_like (fget ''original_bytes'' env) \<and> int_like (fget ''result_bytes'' env))"

definition envelope_body :: "dict \<Rightarrow> string \<Rightarrow> string" where
  "envelope_body env body =
     (case find (\<lambda>k. is_str (fget k env)) [''head'', ''text'', ''preview'', ''output'', ''result''] of
        None \<Rightarrow> body
      | Some k \<Rightarrow>
          let t = fget ''tail'' env
          in if is_dict t \<and> is_str (fget ''text'' (entries t))
             then ''[Head]'' @ [CHR 0x0A] @ text_in (fget k env) @ [CHR 0x0A] @ ''[Tail - context only]''
                    @ [CHR 0x0A] @ text_in (fget ''text'' (entries t))
             else text_in (fget k env))"

text \<open>
  What the text parses to, its cleaned form, and the scrubbed body of a process output. The
  text itself is scrubbed as the value \<open>JStr text\<close>.
\<close>

definition cleaned_text :: "(json \<Rightarrow> json) \<Rightarrow> (string \<Rightarrow> json option) \<Rightarrow> string \<Rightarrow> json \<times> string \<times> string option" where
  "cleaned_text scrub loads src =
     (case loads src of
        Some parsed \<Rightarrow>
          (parsed, if scrub parsed = parsed then src else dumps (scrub parsed), None)
      | None \<Rightarrow>
          let plain = (JNull, text_in (scrub (JStr src)), None)
          in case rpartition retention_mark src of
               None \<Rightarrow> plain
             | Some (body, metadata) \<Rightarrow>
                 (case loads metadata of
                    None \<Rightarrow> plain
                  | Some candidate \<Rightarrow>
                      if process_output_shape candidate
                      then let b = text_in (scrub (JStr body))
                           in (candidate, b @ retention_mark @ dumps (scrub candidate), Some b)
                      else plain))"

definition cap_audit_text :: "(json \<Rightarrow> json) \<Rightarrow> (string \<Rightarrow> json option) \<Rightarrow> string \<Rightarrow> nat \<Rightarrow> string" where
  "cap_audit_text scrub loads src cap =
     (let (parsed, cleaned, process_body) = cleaned_text scrub loads src
      in if length cleaned \<le> cap then cleaned
         else let source = preview_source scrub parsed;
                  body0 = (case process_body of Some b \<Rightarrow> b | None \<Rightarrow> cleaned);
                  env = entries (scrub parsed);
                  body = (if is_dict parsed \<and> known_envelope env then envelope_body env body0 else body0)
              in dumps (JObj (audit_preview body cap source (Some (length cleaned)))))"

definition cap_tool_input :: "dict \<Rightarrow> nat \<Rightarrow> dict" where
  "cap_tool_input tool_input cap =
     (let blob = dumps (JObj tool_input)
      in if length blob \<le> cap then tool_input else audit_preview blob cap [] None)"

section \<open>Reading backwards\<close>

text \<open>\<^verbatim>\<open>data.split(b"\n")\<close>.\<close>

fun split_newlines :: "string \<Rightarrow> string list" where
  "split_newlines [] = [[]]"
| "split_newlines (c # s) =
     (if c = CHR 0x0A then [] # split_newlines s
      else (c # hd (split_newlines s)) # tl (split_newlines s))"

partial_function (option) reverse_blocks ::
    "nat \<Rightarrow> string \<Rightarrow> nat \<Rightarrow> string \<Rightarrow> string list \<Rightarrow> string list option" where
  "reverse_blocks block_size content pos pending yielded =
     (if 0 < pos
      then let read_size = min block_size pos;
               pos' = pos - read_size;
               block = take read_size (drop pos' content);
               ls = split_newlines (block @ pending)
           in reverse_blocks block_size content pos' (hd ls)
                (yielded @ filter (\<lambda>raw. \<not> blank_line raw) (rev (tl ls)))
      else Some (yielded @ (if blank_line pending then [] else [pending])))"

definition iter_lines_reverse :: "nat \<Rightarrow> string \<Rightarrow> string list option" where
  "iter_lines_reverse block_size content = reverse_blocks block_size content (length content) [] []"

section \<open>The preview fits\<close>

lemma search_bounds: "low \<le> high \<Longrightarrow> low \<le> preview_search src cap p low high \<and> preview_search src cap p low high \<le> high"
proof (induction src cap p low high rule: preview_search.induct)
  case (1 src cap p low high)
  show ?case
  proof (cases "low < high")
    case True
    let ?m = "(low + high + 1) div 2"
    have m: "low < ?m" "?m \<le> high" "low \<le> ?m - 1" "?m - 1 \<le> high" using True by auto
    show ?thesis using 1(1) [OF True refl] 1(2) [OF True refl] m True
      by (cases "preview_size (jset ''preview'' (JStr (take ?m src)) p) \<le> cap")
        (auto simp: preview_search.simps [of src cap p low high] Let_def simp del: take_append)
  next
    case False
    then show ?thesis using "1.prems" by (simp add: preview_search.simps [of src])
  qed
qed

abbreviation with_preview :: "string \<Rightarrow> dict \<Rightarrow> nat \<Rightarrow> dict" where
  "with_preview src p n \<equiv> jset ''preview'' (JStr (take n src)) p"

lemma search_fits:
  "low \<le> high \<Longrightarrow> preview_size (with_preview src p low) \<le> cap \<Longrightarrow>
   preview_size (with_preview src p (preview_search src cap p low high)) \<le> cap"
proof (induction src cap p low high rule: preview_search.induct)
  case (1 src cap p low high)
  show ?case
  proof (cases "low < high")
    case True
    let ?m = "(low + high + 1) div 2"
    have m: "low \<le> ?m - 1" "?m \<le> high" using True by auto
    show ?thesis using 1(1) [OF True refl] 1(2) [OF True refl] m True "1.prems"
      by (cases "preview_size (jset ''preview'' (JStr (take ?m src)) p) \<le> cap")
        (auto simp: preview_search.simps [of src cap p low high] Let_def simp del: take_append)
  next
    case False
    then show ?thesis using "1.prems" by (simp add: preview_search.simps [of src])
  qed
qed

text \<open>A longer preview text never gives a shorter object.\<close>

lemma join_length_mono:
  "list_all2 (\<lambda>x y. length x \<le> length y) xs ys \<Longrightarrow> length (join sep xs) \<le> length (join sep ys)"
proof (induction sep xs arbitrary: ys rule: join.induct)
  case (2 sep x)
  then show ?case by (auto simp: list_all2_Cons1)
next
  case (3 sep x y xs)
  then obtain x' y' zs where ys: "ys = x' # y' # zs" "length x \<le> length x'"
    and "list_all2 (\<lambda>x y. length x \<le> length y) (y # xs) (y' # zs)"
    by (auto simp: list_all2_Cons1)
  then show ?case using 3(1) by fastforce
qed simp

lemma quote_length_mono: "m \<le> n \<Longrightarrow> length (quote_text (take m s)) \<le> length (quote_text (take n s))"
proof -
  assume "m \<le> n"
  then have "take n s = take m s @ take (n - m) (drop m s)" by (metis le_add_diff_inverse take_add)
  then show ?thesis by (simp add: quote_text_def)
qed

lemma preview_size_mono:
  assumes "m \<le> n" shows "preview_size (with_preview src p m) \<le> preview_size (with_preview src p n)"
proof -
  let ?P = "\<lambda>q. quote_text (fst q) @ '': '' @ json_print '', '' '': '' (snd q)"
  let ?f = "\<lambda>k q. if fst q = ''preview'' then (''preview'', JStr (take k src)) else q"
  have "list_all2 (\<lambda>x y. length x \<le> length y) (map (?P \<circ> ?f m) p) (map (?P \<circ> ?f n) p)"
    using quote_length_mono [OF assms] by (auto simp: list_all2_conv_all_nth)
  then have "length (join '', '' (map (?P \<circ> ?f m) p)) \<le> length (join '', '' (map (?P \<circ> ?f n) p))"
    by (rule join_length_mono)
  moreover have "length (join '', '' (map ?P (p @ [(''preview'', JStr (take m src))])))
      \<le> length (join '', '' (map ?P (p @ [(''preview'', JStr (take n src))])))"
    using quote_length_mono [OF assms, of src]
    by (intro join_length_mono) (auto simp: list_all2_append list_all2_same)
  ultimately show ?thesis by (auto simp: preview_size_def dumps_def jset_def comp_def)
qed

lemma search_maximal:
  "preview_search src cap p low high < n \<Longrightarrow> n \<le> high \<Longrightarrow> cap < preview_size (with_preview src p n)"
proof (induction src cap p low high rule: preview_search.induct)
  case (1 src cap p low high)
  show ?case
  proof (cases "low < high")
    case True
    let ?m = "(low + high + 1) div 2"
    show ?thesis
    proof (cases "preview_size (with_preview src p ?m) \<le> cap")
      case fits: True
      then show ?thesis using 1(1) [OF True refl fits] "1.prems" True
        by (simp add: preview_search.simps [of src cap p low high] Let_def)
    next
      case False
      then have r: "preview_search src cap p low high = preview_search src cap p low (?m - 1)"
        using True by (simp add: preview_search.simps [of src cap p low high] Let_def)
      show ?thesis
      proof (cases "n \<le> ?m - 1")
        case True
        then show ?thesis using 1(2) [OF \<open>low < high\<close> refl False] "1.prems" r by simp
      next
        case ge: False
        then have "?m \<le> n" by linarith
        then show ?thesis using preview_size_mono [of ?m n src p] False by linarith
      qed
    qed
  next
    case False
    then show ?thesis using "1.prems" by (simp add: preview_search.simps [of src])
  qed
qed

lemma preview_drop_size: "cap < preview_size (preview_drop cap k p) \<Longrightarrow> preview_drop cap k p = jdel k p"
  by (simp add: preview_drop_def split: if_splits)

lemma marker_size: "preview_size [(''audit_clipped'', JBool True)] = 23" "preview_size [] = 2"
  by (simp_all add: preview_size_def dumps_def quote_text_def escape_char_def)

lemma jset_same: "jhas k p \<Longrightarrow> (\<And>q. q \<in> set p \<Longrightarrow> fst q = k \<Longrightarrow> q = (k, v)) \<Longrightarrow> jset k v p = p"
  by (auto simp: jset_def intro!: map_idI)

lemma drop_subset: "set (preview_drop cap k p) \<subseteq> set p"
  by (auto simp: preview_drop_def jdel_def)

lemma audit_preview_size:
  assumes "2 \<le> cap"
  shows "preview_size (audit_preview src cap source oc) \<le> cap"
proof -
  define p0 where "p0 = [(''kind'', JStr ''audit_preview''), (''audit_clipped'', JBool True),
      (''original_chars'', JInt (int (case oc of Some n \<Rightarrow> n | None \<Rightarrow> length src))), (''preview'', JStr [])]
      @ (if source = [] then [] else [(''source'', JObj source)])"
  define p3 where "p3 = preview_drop cap ''preview'' (preview_drop cap ''original_chars'' (preview_drop cap ''source'' p0))"
  have r: "audit_preview src cap source oc =
     (if cap < preview_size p3 then (if 23 \<le> cap then [(''audit_clipped'', JBool True)] else [])
      else if jhas ''preview'' p3
      then with_preview src p3 (preview_search src cap p3 0 (min (length src) cap)) else p3)"
    by (simp add: audit_preview_def p0_def p3_def Let_def)
  have sub: "set p3 \<subseteq> set p0" unfolding p3_def using drop_subset by blast
  show ?thesis
  proof (cases "cap < preview_size p3")
    case True
    then show ?thesis using assms by (simp add: r marker_size)
  next
    case fits: False
    show ?thesis
    proof (cases "jhas ''preview'' p3")
      case True
      have "jset ''preview'' (JStr []) p3 = p3"
        by (rule jset_same [OF True]) (use sub in \<open>auto simp: p0_def split: if_splits\<close>)
      then have "preview_size (with_preview src p3 0) \<le> cap" using fits by simp
      then show ?thesis using fits True search_fits [of 0 "min (length src) cap" src p3 cap] by (simp add: r)
    next
      case False
      then show ?thesis using fits by (simp add: r)
    qed
  qed
qed

text \<open>The text of a preview is the longest prefix for which the whole object fits.\<close>

lemma audit_preview_text:
  assumes "jget ''preview'' (audit_preview src cap source oc) = Some v"
  shows "\<exists>n p. v = JStr (take n src) \<and> audit_preview src cap source oc = with_preview src p n
     \<and> (\<forall>k>n. k \<le> min (length src) cap \<longrightarrow> cap < preview_size (with_preview src p k))"
proof -
  obtain p where r: "audit_preview src cap source oc =
     (if cap < preview_size p then (if 23 \<le> cap then [(''audit_clipped'', JBool True)] else [])
      else if jhas ''preview'' p
      then with_preview src p (preview_search src cap p 0 (min (length src) cap)) else p)"
    by (simp add: audit_preview_def Let_def)
  let ?n = "preview_search src cap p 0 (min (length src) cap)"
  have c: "\<not> cap < preview_size p" "jhas ''preview'' p"
    using assms by (auto simp: r jget_def jhas_iff split: if_splits)
  then have a: "audit_preview src cap source oc = with_preview src p ?n" by (simp add: r)
  moreover have "v = JStr (take ?n src)" using assms unfolding a by (simp add: jget_jset)
  ultimately show ?thesis using search_maximal [of src cap p 0 "min (length src) cap"] by blast
qed

lemma text_capped_parts:
  assumes "2 \<le> cap"
  shows "length (cap_audit_text scrub loads src cap) \<le> cap"
    and "length (dumps (JObj (cap_tool_input tool_input cap))) \<le> cap"
    and "jget ''preview'' (audit_preview src cap source oc) = Some v \<longrightarrow>
      (\<exists>n p. v = JStr (take n src) \<and> audit_preview src cap source oc = jset ''preview'' (JStr (take n src)) p
         \<and> (\<forall>k>n. k \<le> min (length src) cap \<longrightarrow> cap < preview_size (jset ''preview'' (JStr (take k src)) p)))"
proof -
  have p: "length (dumps (JObj (audit_preview s cap f n))) \<le> cap" for s f n
    using audit_preview_size [OF assms] by (simp add: preview_size_def)
  then show "length (cap_audit_text scrub loads src cap) \<le> cap"
    by (simp add: cap_audit_text_def Let_def split_def)
  show "length (dumps (JObj (cap_tool_input tool_input cap))) \<le> cap"
    using p by (simp add: cap_tool_input_def Let_def)
  show "jget ''preview'' (audit_preview src cap source oc) = Some v \<longrightarrow>
      (\<exists>n p. v = JStr (take n src) \<and> audit_preview src cap source oc = jset ''preview'' (JStr (take n src)) p
         \<and> (\<forall>k>n. k \<le> min (length src) cap \<longrightarrow> cap < preview_size (jset ''preview'' (JStr (take k src)) p)))"
    using audit_preview_text by blast
qed

text \<open>
  What the audit log stores of a text or of a tool input never exceeds its cap. The text is
  kept when its scrubbed form fits; otherwise the complete serialized preview, envelope facts
  included, has at most \<open>cap\<close> characters, and its text is the longest prefix for which it does.
  Two characters are the least a JSON object takes.
\<close>

theorem capped_text_fits:
  assumes "2 \<le> cap"
  shows "(length (cap_audit_text scrub loads src cap) \<le> cap)
    \<and> (length (dumps (JObj (cap_tool_input tool_input cap))) \<le> cap)
    \<and> (jget ''preview'' (audit_preview src cap source oc) = Some v \<longrightarrow>
      (\<exists>n p. v = JStr (take n src) \<and> audit_preview src cap source oc = jset ''preview'' (JStr (take n src)) p
         \<and> (\<forall>k>n. k \<le> min (length src) cap \<longrightarrow> cap < preview_size (jset ''preview'' (JStr (take k src)) p))))"
  using text_capped_parts [OF assms] by blast

theorem capped_text_fits_witness:
  "length (cap_audit_text id (\<lambda>_. None) (replicate 120 CHR ''x'') 110) \<le> 110
   \<and> cap_tool_input [(''command'', JStr (replicate 120 CHR ''y''))] 100
     = [(''kind'', JStr ''audit_preview''), (''audit_clipped'', JBool True), (''original_chars'', JInt 135),
        (''preview'', JStr ''{\"command\": '')]"
proof -
  have "length (cap_audit_text id (\<lambda>_. None) (replicate 120 CHR ''x'') 110) \<le> 110"
    using capped_text_fits [of 110] by simp
  moreover have "cap_tool_input [(''command'', JStr (replicate 120 CHR ''y''))] 100
     = [(''kind'', JStr ''audit_preview''), (''audit_clipped'', JBool True), (''original_chars'', JInt 135),
        (''preview'', JStr ''{\"command\": '')]" by code_simp
  ultimately show ?thesis by blast
qed

section \<open>The backward reader\<close>

lemma split_newlines_nonempty [simp]: "split_newlines s \<noteq> []"
  by (cases s) auto

lemma split_newlines_append: "split_newlines (x @ y) = split_newlines (x @ hd (split_newlines y)) @ tl (split_newlines y)"
proof (induction x)
  case Nil
  have "split_newlines (hd (split_newlines y)) = [hd (split_newlines y)]"
    by (induction y) auto
  then show ?case by simp
next
  case (Cons c x)
  then show ?case by (auto simp: hd_append)
qed

lemma reverse_blocks_lines:
  assumes "0 < block_size" "pos \<le> length content"
  shows "reverse_blocks block_size content pos (hd (split_newlines (drop pos content)))
      (filter (\<lambda>raw. \<not> blank_line raw) (rev (tl (split_newlines (drop pos content)))))
    = Some (filter (\<lambda>raw. \<not> blank_line raw) (rev (split_newlines content)))"
  using assms(2)
proof (induction pos rule: less_induct)
  case (less pos)
  show ?case
  proof (cases "pos = 0")
    case True
    have "rev (split_newlines content) = rev (tl (split_newlines content)) @ [hd (split_newlines content)]"
      by (metis list.collapse rev.simps(2) split_newlines_nonempty)
    then show ?thesis using True by (simp add: reverse_blocks.simps)
  next
    case False
    let ?r = "min block_size pos"
    let ?p = "pos - ?r"
    let ?b = "take ?r (drop ?p content)"
    let ?rest = "split_newlines (drop pos content)"
    have lt: "?p < pos" using False assms(1) by auto
    have "drop ?p content = ?b @ drop pos content"
      by (metis append_take_drop_id diff_diff_cancel drop_drop le_add_diff_inverse2 less_imp_le_nat min.cobounded2 diff_le_self add.commute)
    then have d: "split_newlines (drop ?p content) = split_newlines (?b @ hd ?rest) @ tl ?rest"
      using split_newlines_append by metis
    have "reverse_blocks block_size content pos (hd ?rest) (filter (\<lambda>raw. \<not> blank_line raw) (rev (tl ?rest)))
       = reverse_blocks block_size content ?p (hd (split_newlines (drop ?p content)))
           (filter (\<lambda>raw. \<not> blank_line raw) (rev (tl (split_newlines (drop ?p content)))))"
      using False by (simp add: reverse_blocks.simps [of block_size content pos] Let_def d)
    then show ?thesis using less.IH [OF lt] less.prems lt by simp
  qed
qed

text \<open>
  Reading backwards equals reading forwards. For every positive block size the reader ends
  and yields exactly the lines of the file that are not blank, newest first, wherever the block
  boundaries fall; a last line without its line feed is yielded too.
\<close>

theorem reverse_reader_complete:
  assumes "0 < block_size"
  shows "iter_lines_reverse block_size content
     = Some (rev (filter (\<lambda>raw. \<not> blank_line raw) (split_newlines content)))"
  using reverse_blocks_lines [OF assms, of "length content" content]
  by (simp add: iter_lines_reverse_def rev_filter)

theorem reverse_reader_complete_witness:
  "iter_lines_reverse 3 (''ab'' @ [CHR 0x0A] @ ''cdef'' @ [CHR 0x0A, CHR 0x0A] @ ''g'') = Some [''g'', ''cdef'', ''ab'']"
proof -
  have "rev (filter (\<lambda>raw. \<not> blank_line raw) (split_newlines (''ab'' @ [CHR 0x0A] @ ''cdef'' @ [CHR 0x0A, CHR 0x0A] @ ''g'')))
    = [''g'', ''cdef'', ''ab'']" by code_simp
  then show ?thesis using reverse_reader_complete [of 3] by simp
qed

end
