(* ===== verification/Schedule_Record.thy ===== *)
theory Schedule_Record
  imports Json_Text
begin

text \<open>
  \<^verbatim>\<open>src/scheduler/scheduler.py\<close>: the schedule record and the checks of what an operator supplies.

  A persisted time is its reading or the text that cannot be parsed. The fields of the action
  (\<^verbatim>\<open>message\<close>, \<^verbatim>\<open>tool_name\<close>, \<^verbatim>\<open>tool_input\<close>, \<^verbatim>\<open>steps\<close>, \<^verbatim>\<open>webhook_config\<close>, \<^verbatim>\<open>report_format\<close>,
  \<^verbatim>\<open>channel_id\<close>, \<^verbatim>\<open>requester_id\<close>, \<^verbatim>\<open>_nested_payload_validated\<close>) are one dictionary. What the code
  asks of \<^verbatim>\<open>croniter\<close>, \<^verbatim>\<open>zoneinfo\<close>, \<^verbatim>\<open>datetime.fromisoformat\<close>, the destination policy of webhooks
  and the registered report formats is the record \<open>sched_io\<close>. Error texts carry no
  interpolated value and no quotation mark; letter case is that of ASCII.
\<close>

section \<open>Records\<close>

datatype stamp = At py_time | Garbled string

record schedule =
  sc_id :: string
  sc_generation :: string
  sc_revision :: nat
  sc_exec_revision :: nat
  sc_description :: string
  sc_action :: string
  sc_body :: dict
  sc_one_time :: bool
  sc_paused :: "bool option"
  sc_inert_reason :: "string option"
  sc_cron :: "string option"
  sc_timezone :: "string option"
  sc_run_at :: "stamp option"
  sc_trigger :: "json option"
  sc_next_run :: "stamp option"
  sc_retry_at :: "stamp option"
  sc_last_run :: "py_time option"
  sc_run_started_at :: "py_time option"
  sc_max_retries :: nat
  sc_retry_backoff :: nat
  sc_retry_count :: nat
  sc_consecutive_failures :: nat
  sc_last_error :: "string option"
  sc_last_error_at :: "py_time option"

definition is_paused :: "schedule \<Rightarrow> bool" where
  "is_paused c \<longleftrightarrow> sc_paused c = Some True"

definition execution_identity :: "schedule \<Rightarrow> string \<times> nat" where
  "execution_identity c = (sc_generation c, sc_exec_revision c)"

definition requires_connection :: "schedule \<Rightarrow> bool" where
  "requires_connection c \<longleftrightarrow> sc_action c \<noteq> ''webhook''"

definition schedule_lane :: "schedule \<Rightarrow> string" where
  "schedule_lane c =
     (if sc_action c = ''reminder'' then ''reminder'' else if sc_action c = ''webhook'' then ''webhook'' else ''work'')"

definition REPLAY_SAFE_ONE_TIME_ACTIONS :: "string list" where
  "REPLAY_SAFE_ONE_TIME_ACTIONS = [''reminder'', ''digest'']"

definition tracks_run_start :: "schedule \<Rightarrow> bool" where
  "tracks_run_start c \<longleftrightarrow> sc_one_time c \<and> sc_action c \<notin> set REPLAY_SAFE_ONE_TIME_ACTIONS"

definition quarantine_schedule :: "string \<Rightarrow> schedule \<Rightarrow> schedule" where
  "quarantine_schedule why c = c\<lparr>sc_paused := Some True, sc_inert_reason := Some (take 300 why)\<rparr>"

definition interrupted_reason :: string where
  "interrupted_reason = ''One-time schedule started but its completion was never recorded''"

text \<open>Whether the schedule was quarantined, and the schedule.\<close>

definition resolve_interrupted_run :: "schedule \<Rightarrow> bool \<times> schedule" where
  "resolve_interrupted_run c =
     (let c' = c\<lparr>sc_run_started_at := None\<rparr>
      in if sc_run_started_at c = None \<or> \<not> tracks_run_start c then (False, c')
         else (True, quarantine_schedule interrupted_reason c'))"

section \<open>Checks of the arguments\<close>

record sched_io =
  cron_valid :: "string \<Rightarrow> bool"
  cron_next :: "string \<Rightarrow> string option \<Rightarrow> py_time \<Rightarrow> py_time option"
  zone_valid :: "string \<Rightarrow> bool"
  parse_iso :: "string \<Rightarrow> (py_time \<times> bool) option"
  float_val :: "string \<Rightarrow> rat"
  url_allowed :: "string \<Rightarrow> bool"
  report_formats :: "string list option"

datatype sched_error = Invalid string | Inert string | Offline | Save_failed

definition ALLOWED_CHECK_TOOLS :: "string list" where
  "ALLOWED_CHECK_TOOLS = [''run_command'', ''run_command_multi'', ''run_script'']"

definition WEBHOOK_VALID_METHODS :: "string list" where
  "WEBHOOK_VALID_METHODS = [''GET'', ''POST'', ''PUT'', ''PATCH'', ''DELETE'', ''HEAD'']"

definition REMOVED_TRIGGER_SOURCES :: "string list" where
  "REMOVED_TRIGGER_SOURCES = [''discord_reaction'', ''discord_message'', ''grafana'']"

definition supplied :: "'a option \<Rightarrow> ('a \<Rightarrow> bool) \<Rightarrow> nat" where
  "supplied v p = (case v of None \<Rightarrow> 0 | Some x \<Rightarrow> if p x then 1 else 0)"

definition reject_multiple_timing_modes :: "string option \<Rightarrow> string option \<Rightarrow> json option \<Rightarrow> sched_error option" where
  "reject_multiple_timing_modes cron run_at trigger =
     (if supplied cron (\<lambda>e. e \<noteq> []) + supplied run_at (\<lambda>e. e \<noteq> []) + supplied trigger truthy > 1
      then Some (Invalid ''Specify exactly one of cron, run_at, or trigger'') else None)"

definition reject_naive_run_at :: "sched_io \<Rightarrow> string option \<Rightarrow> sched_error option" where
  "reject_naive_run_at io run_at =
     (case run_at of None \<Rightarrow> None
      | Some text \<Rightarrow>
          if text = [] then None
          else case parse_iso io text of
                 Some (_, False) \<Rightarrow> Some (Invalid ''run_at must carry a UTC Z or an explicit offset'')
               | _ \<Rightarrow> None)"

definition validate_timezone :: "sched_io \<Rightarrow> string \<Rightarrow> sched_error option" where
  "validate_timezone io tz =
     (if tz = [] then Some (Invalid ''cron_timezone must be a non-empty string'')
      else if \<not> zone_valid io tz then Some (Invalid ''Invalid timezone'') else None)"

definition validate_report_format :: "sched_io \<Rightarrow> string option \<Rightarrow> string \<Rightarrow> sched_error option" where
  "validate_report_format io fmt action =
     (case fmt of
        None \<Rightarrow> None
      | Some f \<Rightarrow>
          if f = [] then None
          else if action \<noteq> ''check'' then Some (Invalid ''report_format is only valid for check actions'')
          else case report_formats io of
                 None \<Rightarrow> Some (Invalid ''No scheduled report formats are registered'')
               | Some known \<Rightarrow> if f \<in> set known then None else Some (Invalid ''Unsupported scheduled report format''))"

definition STEP_REQUIRED_INPUTS :: "(string \<times> string) list" where
  "STEP_REQUIRED_INPUTS =
     [(''run_command'', ''command''), (''run_script'', ''script''), (''run_command_multi'', ''command'')]"

text \<open>\<^verbatim>\<open>str(tool_input.get(required, "")).strip()\<close> is not empty; only a text can print as blanks.\<close>

definition input_given :: "string \<Rightarrow> json \<Rightarrow> bool" where
  "input_given required tool_input =
     (case tool_input of
        JObj d \<Rightarrow> (case jget required d of None \<Rightarrow> False | Some (JStr x) \<Rightarrow> strip x \<noteq> [] | Some _ \<Rightarrow> True)
      | _ \<Rightarrow> False)"

definition step_ok :: "json \<Rightarrow> bool" where
  "step_ok step =
     (case step of
        JObj d \<Rightarrow>
          jhas ''tool_name'' d
          \<and> (case fget ''tool_name'' d of
                JStr t \<Rightarrow> (case map_of STEP_REQUIRED_INPUTS t of
                             None \<Rightarrow> True | Some required \<Rightarrow> input_given required (fget ''tool_input'' d))
              | _ \<Rightarrow> True)
      | _ \<Rightarrow> False)"

definition validate_workflow_steps :: "json \<Rightarrow> sched_error option" where
  "validate_workflow_steps steps =
     (case steps of
        JList vs \<Rightarrow>
          if vs = [] then Some (Invalid ''steps (list) is required for workflow actions'')
          else if list_all step_ok vs then None else Some (Invalid ''Step: invalid'')
      | _ \<Rightarrow> Some (Invalid ''steps (list) is required for workflow actions''))"

definition validate_trigger :: "json \<Rightarrow> sched_error option" where
  "validate_trigger trigger =
     (case trigger of
        JObj d \<Rightarrow>
          if \<not> list_all (\<lambda>k. k \<in> set [''source'', ''event'', ''repo'']) (jkeys d) then Some (Invalid ''Unknown trigger keys'')
          else if \<not> list_all (\<lambda>p. snd p = JNull \<or> is_str (snd p)) d then Some (Invalid ''Trigger must be a string or null'')
          else if truthy (fget ''source'' d)
                  \<and> text_in (fget ''source'' d) \<notin> set [''gitea'', ''generic'', ''github'', ''gitlab'']
          then Some (Invalid ''Invalid trigger source'')
          else if \<not> list_ex (\<lambda>p. truthy (snd p)) d then Some (Invalid ''Trigger must have at least one condition'')
          else None
      | _ \<Rightarrow> Some (Invalid ''trigger must be a dict''))"

definition lowered :: "string \<Rightarrow> string" where
  "lowered = map (\<lambda>c. if 65 \<le> (of_char c :: nat) \<and> (of_char c :: nat) \<le> 90 then char_of (of_char c + 32 :: nat) else c)"

definition uppered :: "string \<Rightarrow> string" where
  "uppered = map (\<lambda>c. if 97 \<le> (of_char c :: nat) \<and> (of_char c :: nat) \<le> 122 then char_of (of_char c - 32 :: nat) else c)"

text \<open>Whether the event meets a validated trigger; \<open>None\<close> when the event's repository is not a text.\<close>

definition trigger_matches :: "dict \<Rightarrow> string \<Rightarrow> dict \<Rightarrow> bool option" where
  "trigger_matches trigger source event =
     (if fget ''source'' trigger \<in> JStr ` set REMOVED_TRIGGER_SOURCES \<or> jhas ''alert_name'' trigger then Some False
      else if truthy (fget ''source'' trigger) \<and> fget ''source'' trigger \<noteq> JStr source then Some False
      else if truthy (fget ''event'' trigger) \<and> fget ''event'' trigger \<noteq> fget ''event'' event then Some False
      else if truthy (fget ''repo'' trigger)
      then case (case jget ''repo'' event of None \<Rightarrow> JStr [] | Some v \<Rightarrow> v) of
             JStr repo \<Rightarrow> Some (occurs_in (lowered (text_in (fget ''repo'' trigger))) (lowered repo))
           | _ \<Rightarrow> None
      else Some True)"

text \<open>The number \<^verbatim>\<open>isinstance(v, (int, float))\<close> accepts.\<close>

definition number_in :: "sched_io \<Rightarrow> json \<Rightarrow> rat option" where
  "number_in io v =
     (case v of JInt i \<Rightarrow> Some (of_int i) | JBool b \<Rightarrow> Some (if b then 1 else 0) | JFloat x \<Rightarrow> Some (float_val io x)
      | _ \<Rightarrow> None)"

definition http_status :: "json \<Rightarrow> bool" where
  "http_status v = (case v of JInt i \<Rightarrow> 100 \<le> i \<and> i \<le> 599 | _ \<Rightarrow> False)"

definition prefixed :: "string \<Rightarrow> string \<Rightarrow> bool" where
  "prefixed p x \<longleftrightarrow> take (length p) x = p"

definition WEBHOOK_DEFAULT_METHOD :: string where "WEBHOOK_DEFAULT_METHOD = ''POST''"
definition WEBHOOK_DEFAULT_TIMEOUT :: int where "WEBHOOK_DEFAULT_TIMEOUT = 30"
definition WEBHOOK_MAX_TIMEOUT :: rat where "WEBHOOK_MAX_TIMEOUT = 300"
definition WEBHOOK_MAX_URL_LEN :: nat where "WEBHOOK_MAX_URL_LEN = 2048"
definition WEBHOOK_MAX_BODY_LEN :: nat where "WEBHOOK_MAX_BODY_LEN = 1000000"

definition url_error :: "sched_io \<Rightarrow> json \<Rightarrow> string option" where
  "url_error io url =
     (case url of
        JStr u \<Rightarrow>
          if u = [] then Some ''webhook_config.url is required and must be a string''
          else if WEBHOOK_MAX_URL_LEN < length u then Some ''webhook_config.url exceeds maximum length''
          else if \<not> (prefixed ''http://'' u \<or> prefixed ''https://'' u)
          then Some ''webhook_config.url must start with http:// or https://''
          else if \<not> url_allowed io u then Some ''Webhook URL targets a cloud-metadata address'' else None
      | _ \<Rightarrow> Some ''webhook_config.url is required and must be a string'')"

definition method_error :: "json \<Rightarrow> string option" where
  "method_error m =
     (case m of
        JStr x \<Rightarrow> if uppered x \<in> set WEBHOOK_VALID_METHODS then None else Some ''Invalid webhook method''
      | _ \<Rightarrow> Some ''no attribute upper'')"

definition headers_error :: "json \<Rightarrow> string option" where
  "headers_error h =
     (case h of
        JNull \<Rightarrow> None
      | JObj d \<Rightarrow> if list_all (\<lambda>p. is_str (snd p)) d then None
                  else Some ''webhook_config.headers keys and values must be strings''
      | _ \<Rightarrow> Some ''webhook_config.headers must be a dict'')"

definition timeout_error :: "sched_io \<Rightarrow> json \<Rightarrow> string option" where
  "timeout_error io t =
     (if t = JNull then None
      else case number_in io t of
             None \<Rightarrow> Some ''webhook_config.timeout must be a positive number''
           | Some x \<Rightarrow>
               if x \<le> 0 then Some ''webhook_config.timeout must be a positive number''
               else if WEBHOOK_MAX_TIMEOUT < x then Some ''webhook_config.timeout exceeds maximum'' else None)"

definition status_error :: "json \<Rightarrow> string option" where
  "status_error v =
     (case v of
        JNull \<Rightarrow> None
      | JList vs \<Rightarrow> if list_all http_status vs then None
                    else Some ''webhook_config.expected_status_codes must contain valid HTTP status codes''
      | _ \<Rightarrow> Some ''webhook_config.expected_status_codes must be a list'')"

definition validate_webhook_config :: "sched_io \<Rightarrow> json \<Rightarrow> sched_error option" where
  "validate_webhook_config io config =
     (case config of
        JObj d \<Rightarrow>
          map_option Invalid (first_failure
            [url_error io (fget ''url'' d),
             method_error (case jget ''method'' d of None \<Rightarrow> JStr WEBHOOK_DEFAULT_METHOD | Some m \<Rightarrow> m),
             headers_error (fget ''headers'' d),
             (case fget ''body'' d of
                JStr b \<Rightarrow> if WEBHOOK_MAX_BODY_LEN < length b then Some ''webhook_config.body exceeds maximum length'' else None
              | _ \<Rightarrow> None),
             timeout_error io (fget ''timeout'' d),
             status_error (fget ''expected_status_codes'' d)])
      | _ \<Rightarrow> Some (Invalid ''webhook_config must be a dict''))"

definition normalize_webhook_config :: "dict \<Rightarrow> dict" where
  "normalize_webhook_config d =
     [(''url'', fget ''url'' d),
      (''method'', JStr (uppered (case jget ''method'' d of None \<Rightarrow> WEBHOOK_DEFAULT_METHOD | Some m \<Rightarrow> text_in m))),
      (''headers'', if truthy (fget ''headers'' d) then fget ''headers'' d else JObj []),
      (''body'', fget ''body'' d),
      (''timeout'', case jget ''timeout'' d of None \<Rightarrow> JInt WEBHOOK_DEFAULT_TIMEOUT | Some t \<Rightarrow> t),
      (''expected_status_codes'', fget ''expected_status_codes'' d)]"

lemma uppered_uppered [simp]: "uppered (uppered x) = uppered x"
  by (auto simp: uppered_def)

lemma first_failure_None: "first_failure es = None \<longleftrightarrow> list_all (\<lambda>e. e = None) es"
  by (induction es rule: first_failure.induct) auto

lemma method_error_None: "method_error m = None \<longleftrightarrow> is_str m \<and> uppered (text_in m) \<in> set WEBHOOK_VALID_METHODS"
  by (auto simp: method_error_def is_str_def text_in_def split: json.splits)

lemma jget_normalized [simp]:
  "jget ''url'' (normalize_webhook_config d) = Some (fget ''url'' d)"
  "jget ''method'' (normalize_webhook_config d) =
     Some (JStr (uppered (case jget ''method'' d of None \<Rightarrow> WEBHOOK_DEFAULT_METHOD | Some m \<Rightarrow> text_in m)))"
  "jget ''headers'' (normalize_webhook_config d) =
     Some (if truthy (fget ''headers'' d) then fget ''headers'' d else JObj [])"
  "jget ''body'' (normalize_webhook_config d) = Some (fget ''body'' d)"
  "jget ''timeout'' (normalize_webhook_config d) =
     Some (case jget ''timeout'' d of None \<Rightarrow> JInt WEBHOOK_DEFAULT_TIMEOUT | Some t \<Rightarrow> t)"
  "jget ''expected_status_codes'' (normalize_webhook_config d) = Some (fget ''expected_status_codes'' d)"
  by (simp_all add: normalize_webhook_config_def jget_Cons)

lemma default_timeout_ok [simp]: "timeout_error io (JInt WEBHOOK_DEFAULT_TIMEOUT) = None"
  by (simp add: timeout_error_def WEBHOOK_DEFAULT_TIMEOUT_def WEBHOOK_MAX_TIMEOUT_def number_in_def)

lemma default_method_ok [simp]: "uppered WEBHOOK_DEFAULT_METHOD \<in> set WEBHOOK_VALID_METHODS"
  by code_simp

lemma normalized_headers_ok:
  "headers_error h = None \<Longrightarrow> headers_error (if truthy h then h else JObj []) = None"
  by (simp add: headers_error_def)

lemma normalized_config_valid:
  assumes "validate_webhook_config io (JObj d) = None"
  shows "validate_webhook_config io (JObj (normalize_webhook_config d)) = None"
proof -
  let ?n = "normalize_webhook_config d"
  have checks: "url_error io (fget ''url'' d) = None" "headers_error (fget ''headers'' d) = None"
    "timeout_error io (fget ''timeout'' d) = None" "status_error (fget ''expected_status_codes'' d) = None"
    and body: "(case fget ''body'' d of
        JStr b \<Rightarrow> if WEBHOOK_MAX_BODY_LEN < length b then Some ''webhook_config.body exceeds maximum length'' else None
      | _ \<Rightarrow> None) = None"
    and meth: "method_error (case jget ''method'' d of None \<Rightarrow> JStr WEBHOOK_DEFAULT_METHOD | Some m \<Rightarrow> m) = None"
    using assms by (simp_all add: validate_webhook_config_def first_failure_None)
  have "timeout_error io (fget ''timeout'' ?n) = None"
    using checks by (simp add: fget_def split: option.splits)
  moreover have "method_error (JStr (uppered (case jget ''method'' d of None \<Rightarrow> WEBHOOK_DEFAULT_METHOD | Some m \<Rightarrow> text_in m))) = None"
    using meth by (simp add: method_error_None is_str_def split: option.splits)
  moreover have "headers_error (fget ''headers'' ?n) = None"
    using normalized_headers_ok [OF checks(2)] by (simp add: fget_def [of _ ?n])
  ultimately show ?thesis
    using checks body by (simp add: validate_webhook_config_def first_failure_None fget_def [of _ ?n])
qed

end
