(* ===== verification/Scheduler.thy ===== *)
theory Scheduler
  imports Schedule_Record
begin

text \<open>
  \<^verbatim>\<open>src/scheduler/scheduler.py\<close>: the schedule file, admission of due schedules, and the life of
  an execution from its reservation to its recorded end. Each section the code runs without giving up
  control is one function; the theory \<open>Scheduler_Props\<close> interleaves them freely. An execution is a
  value with a phase, so that several can be under way.

  A save either happens whole or raises (the file is replaced atomically); the file is the list it
  holds. Logging, the bookkeeping of which held schedules were reported, failure alerts, the webhook
  request and the history file are left out.
\<close>

section \<open>The scheduler\<close>

text \<open>The connection authority's answer.\<close>

record connection =
  cn_available :: bool
  cn_epoch :: nat

record gate_reservation =
  gr_id :: string
  gr_identity :: "string \<times> nat"
  gr_epoch :: "nat option"
  gr_before :: "py_time option \<times> stamp option"
  gr_after :: "(py_time option \<times> stamp option) option"
  gr_preserve :: bool

text \<open>
  \<open>Waiting\<close>: the task exists. \<open>Overlapped\<close>: another execution of the schedule is under way, and
  the reservation is to be undone. \<open>Entered\<close>: it holds the guard. \<open>Refused\<close>: it holds the guard and
  its reservation is to be undone. \<open>Effect\<close>: the executor runs. \<open>Recording\<close>: its end is to be saved.
\<close>

datatype phase = Waiting | Overlapped | Entered | Refused | Effect | Recording

record execution =
  ex_key :: nat
  ex_schedule :: schedule
  ex_epoch :: "nat option"
  ex_lane :: "string option"
  ex_phase :: phase

record scheduler =
  sd_mem :: "schedule list"
  sd_disk :: "schedule list"
  sd_in_flight :: "string list"
  sd_scheduled :: "string list"
  sd_reservations :: "(nat \<times> gate_reservation) list"
  sd_runs :: "execution list"
  sd_next :: nat
  sd_callback :: bool

definition publish_schedules :: "bool \<Rightarrow> schedule list \<Rightarrow> scheduler \<Rightarrow> bool \<times> scheduler" where
  "publish_schedules fault candidate s =
     (if fault then (False, s) else (True, s\<lparr>sd_mem := candidate, sd_disk := candidate\<rparr>))"

definition admitted_epoch :: "connection \<Rightarrow> schedule \<Rightarrow> unit + nat option" where
  "admitted_epoch conn c =
     (if \<not> requires_connection c then Inr None
      else if cn_available conn then Inr (Some (cn_epoch conn)) else Inl ())"

definition busy_lanes :: "scheduler \<Rightarrow> string list" where
  "busy_lanes s = concat (map (\<lambda>r. case ex_lane r of None \<Rightarrow> [] | Some l \<Rightarrow> [l]) (sd_runs s))"

definition owned_by_running_execution :: "scheduler \<Rightarrow> schedule \<Rightarrow> bool" where
  "owned_by_running_execution s c \<longleftrightarrow>
     sc_id c \<in> set (sd_in_flight s)
     \<and> (sc_retry_at c \<noteq> None \<or> sc_one_time c \<or> sc_id c \<in> set (sd_scheduled s))"

section \<open>Admission of due schedules\<close>

datatype due_class = Not_due | Interrupted | Broken string | Due py_time bool

definition classify_due :: "sched_io \<Rightarrow> connection \<Rightarrow> py_time \<Rightarrow> scheduler \<Rightarrow> schedule \<Rightarrow> due_class" where
  "classify_due io conn now s c =
     (if is_paused c then Not_due
      else if sc_run_started_at c \<noteq> None \<and> sc_id c \<notin> set (sd_in_flight s) then Interrupted
      else if owned_by_running_execution s c then Not_due
      else if requires_connection c \<and> \<not> cn_available conn then Not_due
      else case sc_retry_at c of
             Some (Garbled _) \<Rightarrow> Broken ''Unreadable retry_at''
           | Some (At r) \<Rightarrow> if r \<le> now then Due r True else Not_due
           | None \<Rightarrow>
               (case sc_next_run c of
                  None \<Rightarrow> Not_due
                | Some (Garbled _) \<Rightarrow> Broken ''Unreadable next_run''
                | Some (At n) \<Rightarrow>
                    if now < n then Not_due
                    else if \<not> sc_one_time c \<and> (case sc_cron c of None \<Rightarrow> True | Some e \<Rightarrow> e = [] \<or> \<not> cron_valid io e)
                    then Broken ''Unreadable cron''
                    else Due n False))"

definition settle_scan :: "due_class \<Rightarrow> schedule \<Rightarrow> schedule" where
  "settle_scan d c =
     (case d of Interrupted \<Rightarrow> snd (resolve_interrupted_run c) | Broken why \<Rightarrow> quarantine_schedule why c | _ \<Rightarrow> c)"

definition quarantines :: "due_class \<Rightarrow> schedule \<Rightarrow> bool" where
  "quarantines d c =
     (case d of Interrupted \<Rightarrow> fst (resolve_interrupted_run c) | Broken _ \<Rightarrow> True | _ \<Rightarrow> False)"

text \<open>Positions of the due schedules, earliest first; ties in list order.\<close>

definition due_order :: "due_class list \<Rightarrow> (nat \<times> bool) list" where
  "due_order ds =
     map (\<lambda>(t, i, retry). (i, retry))
       (sort_key fst (concat (map (\<lambda>(i, d). case d of Due t retry \<Rightarrow> [(t, i, retry)] | _ \<Rightarrow> []) (enumerate 0 ds))))"

definition capture_reservation :: "schedule \<Rightarrow> nat option \<Rightarrow> schedule \<Rightarrow> bool \<Rightarrow> gate_reservation" where
  "capture_reservation before epoch after preserve =
     \<lparr>gr_id = sc_id before, gr_identity = execution_identity before, gr_epoch = epoch,
      gr_before = (sc_last_run before, sc_next_run before),
      gr_after = Some (sc_last_run after, sc_next_run after), gr_preserve = preserve\<rparr>"

definition reserve :: "nat option \<Rightarrow> string option \<Rightarrow> bool \<Rightarrow> schedule \<Rightarrow> schedule \<Rightarrow> scheduler \<Rightarrow> scheduler \<times> execution" where
  "reserve epoch lane preserve before after s =
     (s\<lparr>sd_reservations := sd_reservations s @ [(sd_next s, capture_reservation before epoch after preserve)],
        sd_next := sd_next s + 1\<rparr>,
      \<lparr>ex_key = sd_next s, ex_schedule = after, ex_epoch = epoch, ex_lane = lane, ex_phase = Waiting\<rparr>)"

text \<open>The fields a firing changes; \<open>None\<close> when the next cron instant cannot be computed.\<close>

definition fired :: "sched_io \<Rightarrow> py_time \<Rightarrow> bool \<Rightarrow> schedule \<Rightarrow> schedule option" where
  "fired io now retry c =
     (let c1 = c\<lparr>sc_last_run := Some now\<rparr>
      in case sc_cron c of
           Some e \<Rightarrow> if retry \<or> e = [] then Some c1
                     else map_option (\<lambda>t. c1\<lparr>sc_next_run := Some (At t)\<rparr>) (cron_next io e (sc_timezone c) now)
         | None \<Rightarrow> Some c1)"

fun reserve_due ::
  "sched_io \<Rightarrow> connection \<Rightarrow> py_time \<Rightarrow> (nat \<times> bool) list \<Rightarrow> string list \<Rightarrow> schedule list \<Rightarrow> scheduler
     \<Rightarrow> schedule list \<times> execution list \<times> scheduler" where
  "reserve_due io conn now [] busy candidate s = (candidate, [], s)"
| "reserve_due io conn now ((i, retry) # due) busy candidate s =
     (let c = candidate ! i; lane = schedule_lane c
      in if lane \<in> set busy then reserve_due io conn now due busy candidate s
         else case fired io now retry c of
                None \<Rightarrow> reserve_due io conn now due busy candidate s
              | Some c' \<Rightarrow>
                  let epoch = (if requires_connection c then Some (cn_epoch conn) else None);
                      (s', r) = reserve epoch (Some lane) (\<not> retry \<and> sc_cron c \<noteq> None \<and> sc_cron c \<noteq> Some []) c c' s;
                      (candidate', rs, s'') = reserve_due io conn now due (lane # busy) (candidate[i := c']) s'
                  in (candidate', r # rs, s''))"

text \<open>One pass of \<^verbatim>\<open>_start_due\<close> as the loop makes it; the flag is \<^verbatim>\<open>False\<close> when the save raises.\<close>

definition start_due :: "sched_io \<Rightarrow> connection \<Rightarrow> py_time \<Rightarrow> bool \<Rightarrow> scheduler \<Rightarrow> bool \<times> scheduler" where
  "start_due io conn now fault s =
     (let ds = map (classify_due io conn now s) (sd_mem s);
          candidate = map2 settle_scan ds (sd_mem s);
          quarantined = list_ex id (map2 quarantines ds (sd_mem s));
          (candidate', fires, s1) = reserve_due io conn now (due_order ds) (busy_lanes s) candidate s
      in if fires = [] \<and> \<not> quarantined then (True, s1)
         else let (ok, s2) = publish_schedules fault candidate' s1
              in if ok then (True, s2\<lparr>sd_runs := sd_runs s2 @ fires\<rparr>) else (False, s2))"

section \<open>The life of an execution\<close>

definition take_run :: "nat \<Rightarrow> scheduler \<Rightarrow> execution option" where
  "take_run k s = find (\<lambda>r. ex_key r = k) (sd_runs s)"

definition set_phase :: "nat \<Rightarrow> phase \<Rightarrow> scheduler \<Rightarrow> scheduler" where
  "set_phase k p s = s\<lparr>sd_runs := map (\<lambda>r. if ex_key r = k then r\<lparr>ex_phase := p\<rparr> else r) (sd_runs s)\<rparr>"

definition drop_reservation :: "nat \<Rightarrow> scheduler \<Rightarrow> scheduler" where
  "drop_reservation k s = s\<lparr>sd_reservations := filter (\<lambda>p. fst p \<noteq> k) (sd_reservations s)\<rparr>"

definition end_run :: "nat \<Rightarrow> scheduler \<Rightarrow> scheduler" where
  "end_run k s = (drop_reservation k s)\<lparr>sd_runs := filter (\<lambda>r. ex_key r \<noteq> k) (sd_runs s)\<rparr>"

text \<open>The \<^verbatim>\<open>finally\<close> of an execution that holds the overlap guard.\<close>

definition release_run :: "execution \<Rightarrow> scheduler \<Rightarrow> scheduler" where
  "release_run r s =
     (end_run (ex_key r) s)
       \<lparr>sd_in_flight := filter (\<lambda>i. i \<noteq> sc_id (ex_schedule r)) (sd_in_flight s),
        sd_scheduled := filter (\<lambda>i. i \<noteq> sc_id (ex_schedule r)) (sd_scheduled s)\<rparr>"

text \<open>Entering: the overlap guard, then the connection of the admitted generation.\<close>

definition connection_lost :: "connection \<Rightarrow> execution \<Rightarrow> bool" where
  "connection_lost conn r \<longleftrightarrow>
     requires_connection (ex_schedule r)
     \<and> (\<not> cn_available conn \<or> (ex_epoch r \<noteq> None \<and> ex_epoch r \<noteq> Some (cn_epoch conn)))"

definition enter_run :: "connection \<Rightarrow> execution \<Rightarrow> scheduler \<Rightarrow> scheduler" where
  "enter_run conn r s =
     (let i = sc_id (ex_schedule r)
      in if i \<in> set (sd_in_flight s) then set_phase (ex_key r) Overlapped s
         else set_phase (ex_key r) (if connection_lost conn r then Refused else Entered)
                (s\<lparr>sd_in_flight := i # sd_in_flight s,
                   sd_scheduled := (if ex_lane r = None then sd_scheduled s else i # sd_scheduled s)\<rparr>))"

definition restore_record :: "bool \<Rightarrow> gate_reservation \<Rightarrow> schedule \<Rightarrow> schedule" where
  "restore_record preserve g c =
     c\<lparr>sc_last_run := fst (gr_before g), sc_next_run := (if preserve then sc_next_run c else snd (gr_before g))\<rparr>"

definition reservation_current :: "gate_reservation \<Rightarrow> schedule \<Rightarrow> schedule \<Rightarrow> bool" where
  "reservation_current g run c \<longleftrightarrow>
     sc_id c = gr_id g \<and> execution_identity c = gr_identity g
     \<and> sc_id run = gr_id g \<and> execution_identity run = gr_identity g"

text \<open>Replaces the first record that satisfies a condition.\<close>

fun update_first :: "('a \<Rightarrow> bool) \<Rightarrow> ('a \<Rightarrow> 'a list) \<Rightarrow> 'a list \<Rightarrow> 'a list" where
  "update_first p f [] = []"
| "update_first p f (x # xs) = (if p x then f x @ xs else x # update_first p f xs)"

definition restore_unstarted_reservation :: "bool \<Rightarrow> nat \<Rightarrow> bool \<Rightarrow> schedule \<Rightarrow> scheduler \<Rightarrow> bool \<times> scheduler" where
  "restore_unstarted_reservation fault k preserve run s =
     (case map_of (sd_reservations s) k of
        None \<Rightarrow> (True, s)
      | Some g \<Rightarrow>
          (case find (reservation_current g run) (sd_mem s) of
             None \<Rightarrow> (True, s)
           | Some c \<Rightarrow>
               if gr_after g \<noteq> Some (sc_last_run c, sc_next_run c) then (True, s)
               else publish_schedules fault
                      (update_first (reservation_current g run) (\<lambda>c. [restore_record preserve g c]) (sd_mem s)) s))"

text \<open>Undoing the reservation of an execution that starts nothing.\<close>

definition unwind_run :: "bool \<Rightarrow> execution \<Rightarrow> scheduler \<Rightarrow> scheduler" where
  "unwind_run fault r s =
     (let preserve = (ex_phase r = Overlapped
                      \<and> (case map_of (sd_reservations s) (ex_key r) of Some g \<Rightarrow> gr_preserve g | None \<Rightarrow> False));
          (ok, s1) = restore_unstarted_reservation fault (ex_key r) preserve (ex_schedule r) s
      in if ex_phase r = Overlapped then end_run (ex_key r) s1 else release_run r s1)"

text \<open>The admission under the lock: \<open>None\<close> when the save raises.\<close>

definition admit_reserved_execution :: "bool \<Rightarrow> py_time \<Rightarrow> schedule \<Rightarrow> scheduler \<Rightarrow> bool option \<times> scheduler" where
  "admit_reserved_execution fault now run s =
     (case find (\<lambda>c. sc_id c = sc_id run) (sd_mem s) of
        None \<Rightarrow> (Some False, s)
      | Some c \<Rightarrow>
          if execution_identity c \<noteq> execution_identity run then (Some False, s)
          else if is_paused c \<and> \<not> is_paused run then (Some False, s)
          else if tracks_run_start run
          then let (ok, s1) = publish_schedules fault
                     (update_first (\<lambda>c. sc_id c = sc_id run) (\<lambda>c. [c\<lparr>sc_run_started_at := Some now\<rparr>]) (sd_mem s)) s
               in (if ok then Some True else None, s1)
          else (Some True, s))"

definition set_schedule :: "nat \<Rightarrow> schedule \<Rightarrow> scheduler \<Rightarrow> scheduler" where
  "set_schedule k c s = s\<lparr>sd_runs := map (\<lambda>r. if ex_key r = k then r\<lparr>ex_schedule := c\<rparr> else r) (sd_runs s)\<rparr>"

definition admit_run :: "bool \<Rightarrow> py_time \<Rightarrow> execution \<Rightarrow> scheduler \<Rightarrow> scheduler" where
  "admit_run fault now r s =
     (let c = ex_schedule r; k = ex_key r
      in case admit_reserved_execution fault now c s of
           (None, s1) \<Rightarrow> release_run r s1
         | (Some False, s1) \<Rightarrow> set_phase k Refused s1
         | (Some True, s1) \<Rightarrow>
             set_phase k Effect
               (if tracks_run_start c then set_schedule k (c\<lparr>sc_run_started_at := Some now\<rparr>) s1 else s1))"

section \<open>The end of an execution\<close>

definition MAX_BACKOFF_SECONDS :: nat where "MAX_BACKOFF_SECONDS = 3600"
definition SCHEDULE_MAX_RETRIES :: nat where "SCHEDULE_MAX_RETRIES = 0"
definition DEFAULT_RETRY_BACKOFF_SECONDS :: nat where "DEFAULT_RETRY_BACKOFF_SECONDS = 60"

definition compute_retry_at :: "py_time \<Rightarrow> schedule \<Rightarrow> py_time" where
  "compute_retry_at now c =
     now + of_nat (min (sc_retry_backoff c * 2 ^ (sc_retry_count c - 1)) MAX_BACKOFF_SECONDS)"

definition handle_success :: "schedule \<Rightarrow> schedule" where
  "handle_success c =
     c\<lparr>sc_consecutive_failures := 0, sc_retry_count := 0, sc_last_error := None, sc_last_error_at := None,
       sc_retry_at := None\<rparr>"

text \<open>\<open>replayable\<close> is false for a \<^verbatim>\<open>NonRetryableScheduleError\<close>.\<close>

definition handle_failure :: "py_time \<Rightarrow> bool \<Rightarrow> string \<Rightarrow> schedule \<Rightarrow> schedule" where
  "handle_failure now replayable error c =
     (let c1 = c\<lparr>sc_consecutive_failures := sc_consecutive_failures c + 1,
                 sc_last_error := Some (take 500 error), sc_last_error_at := Some now\<rparr>;
          final = c1\<lparr>sc_retry_at := None, sc_next_run := (if sc_one_time c then None else sc_next_run c)\<rparr>
      in if \<not> replayable then final
         else if 0 < sc_max_retries c \<and> sc_retry_count c < sc_max_retries c
         then let c2 = c1\<lparr>sc_retry_count := sc_retry_count c + 1\<rparr>
              in c2\<lparr>sc_retry_at := Some (At (compute_retry_at now c2))\<rparr>
         else final)"

text \<open>How the executor ends; a cancellation skips the recording.\<close>

datatype run_outcome = Succeeded | Failed bool string | Run_cancelled

definition finish_run :: "py_time \<Rightarrow> run_outcome \<Rightarrow> execution \<Rightarrow> scheduler \<Rightarrow> scheduler" where
  "finish_run now outcome r s =
     (let c = ex_schedule r; k = ex_key r
      in case outcome of
           Run_cancelled \<Rightarrow> release_run r s
         | Succeeded \<Rightarrow>
             set_phase k Recording
               (set_schedule k (if sc_action c \<noteq> ''webhook'' \<and> \<not> sd_callback s then c else handle_success c) s)
         | Failed replayable error \<Rightarrow> set_phase k Recording (set_schedule k (handle_failure now replayable error c) s))"

definition recorded :: "schedule \<Rightarrow> schedule \<Rightarrow> schedule list" where
  "recorded run c0 =
     (let c = (if sc_run_started_at c0 = sc_run_started_at run then c0\<lparr>sc_run_started_at := None\<rparr> else c0)
      in if execution_identity c \<noteq> execution_identity run then [c]
         else let c1 = c\<lparr>sc_last_run := sc_last_run run, sc_consecutive_failures := sc_consecutive_failures run,
                         sc_retry_count := sc_retry_count run, sc_last_error := sc_last_error run,
                         sc_last_error_at := sc_last_error_at run, sc_retry_at := sc_retry_at run\<rparr>
              in if sc_one_time run
                 then if sc_last_error run = None \<or> sc_last_error run = Some [] then []
                      else if sc_next_run run = None then [c1\<lparr>sc_next_run := None\<rparr>] else [c1]
                 else [c1])"

definition record_run :: "bool \<Rightarrow> execution \<Rightarrow> scheduler \<Rightarrow> scheduler" where
  "record_run fault r s =
     (let run = ex_schedule r
      in if \<exists>c\<in>set (sd_mem s). sc_id c = sc_id run
         then release_run r (snd (publish_schedules fault (update_first (\<lambda>c. sc_id c = sc_id run) (recorded run) (sd_mem s)) s))
         else release_run r s)"

end
