(* ===== verification/Schedule_Control.thy ===== *)
theory Schedule_Control
  imports Scheduler
begin

text \<open>
  \<^verbatim>\<open>src/scheduler/scheduler.py\<close>: what operators and incoming webhooks do to the schedules
  (\<^verbatim>\<open>add\<close>, \<^verbatim>\<open>update\<close>, \<^verbatim>\<open>delete\<close>, \<^verbatim>\<open>reset_failures\<close>, \<^verbatim>\<open>run_now\<close>, \<^verbatim>\<open>fire_triggers\<close>), start-up after a stop or a
  crash, the delay of the loop, and every operation as one event of the whole scheduler.
\<close>

section \<open>Adding\<close>

record timing =
  tm_cron :: "string option"
  tm_run_at :: "string option"
  tm_trigger :: "json option"

record new_schedule =
  ns_id :: string
  ns_generation :: string
  ns_description :: string
  ns_action :: string
  ns_channel_id :: string
  ns_requester_id :: string
  ns_message :: "string option"
  ns_tool_name :: "string option"
  ns_tool_input :: "dict option"
  ns_steps :: json
  ns_webhook_config :: json
  ns_report_format :: "string option"
  ns_timing :: timing
  ns_timezone :: "string option"
  ns_max_retries :: "int option"
  ns_backoff :: "int option"
  ns_validated :: bool

definition action_error :: "sched_io \<Rightarrow> new_schedule \<Rightarrow> sched_error option" where
  "action_error io a =
     (if ns_action a = ''check''
      then (case ns_tool_name a of
              None \<Rightarrow> Some (Invalid ''tool_name is required for check actions'')
            | Some t \<Rightarrow> if t = [] then Some (Invalid ''tool_name is required for check actions'')
                        else if t \<notin> set ALLOWED_CHECK_TOOLS then Some (Invalid ''Tool is not allowed for scheduled checks'')
                        else None)
      else if ns_action a = ''webhook'' then validate_webhook_config io (ns_webhook_config a)
      else if ns_action a = ''workflow'' then validate_workflow_steps (ns_steps a)
      else None)"

definition timing_error :: "sched_io \<Rightarrow> timing \<Rightarrow> sched_error option" where
  "timing_error io m =
     first_failure [reject_multiple_timing_modes (tm_cron m) (tm_run_at m) (tm_trigger m), reject_naive_run_at io (tm_run_at m)]"

definition timing_required :: "timing \<Rightarrow> sched_error option" where
  "timing_required m =
     (case tm_trigger m of
        Some t \<Rightarrow> validate_trigger t
      | None \<Rightarrow> if supplied (tm_cron m) (\<lambda>e. e \<noteq> []) + supplied (tm_run_at m) (\<lambda>e. e \<noteq> []) = 0
                then Some (Invalid ''Either cron, run_at, or trigger is required'') else None)"

definition action_body :: "new_schedule \<Rightarrow> dict" where
  "action_body a =
     [(''channel_id'', JStr (ns_channel_id a)), (''requester_id'', JStr (ns_requester_id a)),
      (''_nested_payload_validated'', JBool (ns_validated a))]
     @ (if ns_action a = ''reminder''
        then [(''message'', JStr (case ns_message a of None \<Rightarrow> ns_description a
                                  | Some m \<Rightarrow> if m = [] then ns_description a else m))]
        else if ns_action a = ''check''
        then [(''tool_name'', JStr (case ns_tool_name a of None \<Rightarrow> [] | Some t \<Rightarrow> t)),
              (''tool_input'', JObj (case ns_tool_input a of None \<Rightarrow> [] | Some d \<Rightarrow> d))]
             @ (case ns_report_format a of None \<Rightarrow> [] | Some f \<Rightarrow> if f = [] then [] else [(''report_format'', JStr f)])
        else if ns_action a = ''webhook'' then [(''webhook_config'', JObj (normalize_webhook_config (entries (ns_webhook_config a))))]
        else if ns_action a = ''workflow'' then [(''steps'', ns_steps a)]
        else [])"

text \<open>The timing fields of a new schedule.\<close>

definition timed :: "sched_io \<Rightarrow> py_time \<Rightarrow> new_schedule \<Rightarrow> schedule \<Rightarrow> sched_error + schedule" where
  "timed io now a c =
     (let m = ns_timing a; cron = (case tm_cron m of None \<Rightarrow> [] | Some e \<Rightarrow> e)
      in case tm_trigger m of
           Some t \<Rightarrow> Inr (c\<lparr>sc_trigger := Some t, sc_one_time := False\<rparr>)
         | None \<Rightarrow>
             if cron \<noteq> []
             then (if \<not> cron_valid io cron then Inl (Invalid ''Invalid cron expression'')
                   else let zone = (if ns_timezone a = Some [] then None else ns_timezone a)
                        in case cron_next io cron zone now of
                             None \<Rightarrow> Inl (Invalid ''no next run'')
                           | Some n \<Rightarrow> Inr (c\<lparr>sc_cron := Some cron, sc_one_time := False, sc_timezone := zone,
                                              sc_next_run := Some (At n)\<rparr>))
             else (case tm_run_at m of
                     None \<Rightarrow> Inl (Invalid ''no run_at'')
                   | Some text \<Rightarrow>
                       (case parse_iso io text of
                          None \<Rightarrow> Inl (Invalid ''Invalid ISO datetime for run_at'')
                        | Some (n, _) \<Rightarrow> Inr (c\<lparr>sc_run_at := Some (At n), sc_next_run := Some (At n), sc_one_time := True\<rparr>))))"

definition blank_schedule :: "new_schedule \<Rightarrow> schedule" where
  "blank_schedule a =
     \<lparr>sc_id = ns_id a, sc_generation = ns_generation a, sc_revision = 0, sc_exec_revision = 0,
      sc_description = ns_description a, sc_action = ns_action a, sc_body = action_body a, sc_one_time = False,
      sc_paused = None, sc_inert_reason = None, sc_cron = None, sc_timezone = None, sc_run_at = None,
      sc_trigger = None, sc_next_run = None, sc_retry_at = None, sc_last_run = None, sc_run_started_at = None,
      sc_max_retries = SCHEDULE_MAX_RETRIES, sc_retry_backoff = DEFAULT_RETRY_BACKOFF_SECONDS, sc_retry_count = 0,
      sc_consecutive_failures = 0, sc_last_error = None, sc_last_error_at = None\<rparr>"

definition retry_error :: "int option \<Rightarrow> int option \<Rightarrow> sched_error option" where
  "retry_error retries backoff =
     (if retries \<noteq> None \<and> the retries < 0 then Some (Invalid ''max_retries must be >= 0'')
      else if backoff \<noteq> None \<and> the backoff < 1 then Some (Invalid ''retry_backoff_seconds must be >= 1'')
      else None)"

definition with_retries :: "int option \<Rightarrow> int option \<Rightarrow> schedule \<Rightarrow> schedule" where
  "with_retries retries backoff c =
     c\<lparr>sc_max_retries := (case retries of None \<Rightarrow> sc_max_retries c | Some n \<Rightarrow> nat n),
       sc_retry_backoff := (case backoff of None \<Rightarrow> sc_retry_backoff c | Some n \<Rightarrow> nat n)\<rparr>"

definition build_schedule :: "sched_io \<Rightarrow> py_time \<Rightarrow> new_schedule \<Rightarrow> sched_error + schedule" where
  "build_schedule io now a =
     (case first_failure
             [validate_report_format io (ns_report_format a) (ns_action a), action_error io a,
              timing_error io (ns_timing a), timing_required (ns_timing a),
              (case ns_timezone a of None \<Rightarrow> None | Some z \<Rightarrow> validate_timezone io z)] of
        Some e \<Rightarrow> Inl e
      | None \<Rightarrow>
          (case timed io now a (blank_schedule a) of
             Inl e \<Rightarrow> Inl e
           | Inr c \<Rightarrow> (case retry_error (ns_max_retries a) (ns_backoff a) of
                         Some e \<Rightarrow> Inl e | None \<Rightarrow> Inr (with_retries (ns_max_retries a) (ns_backoff a) c))))"

definition add_schedule ::
  "sched_io \<Rightarrow> connection \<Rightarrow> py_time \<Rightarrow> bool \<Rightarrow> new_schedule \<Rightarrow> scheduler \<Rightarrow> (sched_error + schedule) \<times> scheduler" where
  "add_schedule io conn now fault a s =
     (case build_schedule io now a of
        Inl e \<Rightarrow> (Inl e, s)
      | Inr c \<Rightarrow>
          (case admitted_epoch conn c of
             Inl _ \<Rightarrow> (Inl Offline, s)
           | Inr _ \<Rightarrow> let (ok, s') = publish_schedules fault (sd_mem s @ [c]) s
                      in (if ok then Inr c else Inl Save_failed, s')))"

section \<open>Editing\<close>

record schedule_edit =
  ed_description :: "string option"
  ed_message :: "string option"
  ed_channel_id :: "string option"
  ed_paused :: "bool option"
  ed_tool_name :: "string option"
  ed_tool_input :: "dict option"
  ed_report_format :: "string option"
  ed_steps :: "json option"
  ed_webhook_config :: "json option"
  ed_max_retries :: "int option"
  ed_backoff :: "int option"
  ed_timezone :: "string option"
  ed_timing :: timing
  ed_validated :: bool

definition new_timing :: "timing \<Rightarrow> bool" where
  "new_timing m \<longleftrightarrow> tm_trigger m \<noteq> None \<or> tm_cron m \<noteq> None \<or> tm_run_at m \<noteq> None"

definition set_opt :: "string \<Rightarrow> ('a \<Rightarrow> json) \<Rightarrow> 'a option \<Rightarrow> dict \<Rightarrow> dict" where
  "set_opt k f v d = (case v of None \<Rightarrow> d | Some x \<Rightarrow> jset k (f x) d)"

definition edited_body :: "schedule_edit \<Rightarrow> string \<Rightarrow> dict \<Rightarrow> dict" where
  "edited_body e action d =
     set_opt ''webhook_config'' (\<lambda>c. JObj (normalize_webhook_config (entries c))) (ed_webhook_config e)
       (set_opt ''steps'' (\<lambda>v. v) (ed_steps e)
         ((case ed_report_format e of None \<Rightarrow> (\<lambda>d. d)
           | Some f \<Rightarrow> if f = [] then jdel ''report_format'' else jset ''report_format'' (JStr f))
           (set_opt ''tool_input'' JObj (ed_tool_input e)
             (set_opt ''tool_name'' JStr (ed_tool_name e)
               (set_opt ''channel_id'' JStr (ed_channel_id e)
                 (set_opt ''message'' JStr (ed_message e)
                   (if ed_validated e \<and> ((action = ''check'' \<and> ed_tool_input e \<noteq> None)
                                         \<or> (action = ''workflow'' \<and> ed_steps e \<noteq> None))
                    then jset ''_nested_payload_validated'' (JBool True) d else d)))))))"

definition edit_error :: "sched_io \<Rightarrow> schedule_edit \<Rightarrow> schedule \<Rightarrow> sched_error option" where
  "edit_error io e c =
     first_failure
       [(case ed_steps e of Some v \<Rightarrow> if sc_action c = ''workflow'' then validate_workflow_steps v else None | None \<Rightarrow> None),
        (case sc_inert_reason c of
           Some why \<Rightarrow> if ed_paused e = Some False \<and> why \<noteq> [] \<and> \<not> new_timing (ed_timing e) then Some (Inert why) else None
         | None \<Rightarrow> None),
        (case ed_tool_name e of
           Some t \<Rightarrow> if sc_action c = ''check'' \<and> t \<notin> set ALLOWED_CHECK_TOOLS
                     then Some (Invalid ''Tool is not allowed for scheduled checks'') else None
         | None \<Rightarrow> None),
        validate_report_format io (ed_report_format e) (sc_action c),
        (case ed_webhook_config e of Some v \<Rightarrow> validate_webhook_config io v | None \<Rightarrow> None),
        retry_error (ed_max_retries e) (ed_backoff e),
        timing_error io (ed_timing e)]"

definition edited :: "schedule_edit \<Rightarrow> schedule \<Rightarrow> schedule" where
  "edited e c =
     (with_retries (ed_max_retries e) (ed_backoff e) c)
       \<lparr>sc_description := (case ed_description e of None \<Rightarrow> sc_description c | Some t \<Rightarrow> t),
        sc_body := edited_body e (sc_action c) (sc_body c),
        sc_timezone := (case ed_timezone e of None \<Rightarrow> sc_timezone c | Some z \<Rightarrow> Some z),
        sc_paused := (case ed_paused e of
                        Some p \<Rightarrow> Some p
                      | None \<Rightarrow> if new_timing (ed_timing e) \<and> sc_inert_reason c \<noteq> None \<and> sc_inert_reason c \<noteq> Some []
                                then Some False else sc_paused c)\<rparr>"

text \<open>Replacement timing takes over entirely and re-arms the schedule.\<close>

definition retimed :: "sched_io \<Rightarrow> py_time \<Rightarrow> timing \<Rightarrow> schedule \<Rightarrow> sched_error + schedule" where
  "retimed io now m c0 =
     (let c = c0\<lparr>sc_cron := None, sc_run_at := None, sc_next_run := None, sc_trigger := None, sc_retry_at := None,
                 sc_inert_reason := None, sc_run_started_at := None\<rparr>
      in case tm_trigger m of
           Some t \<Rightarrow>
             (case validate_trigger t of
                Some e \<Rightarrow> Inl e
              | None \<Rightarrow> Inr (c\<lparr>sc_trigger := Some t, sc_one_time := False, sc_timezone := None\<rparr>))
         | None \<Rightarrow>
             (case tm_cron m of
                Some cron \<Rightarrow>
                  if \<not> cron_valid io cron then Inl (Invalid ''Invalid cron expression'')
                  else (case cron_next io cron (sc_timezone c) now of
                          None \<Rightarrow> Inl (Invalid ''no next run'')
                        | Some n \<Rightarrow> Inr (c\<lparr>sc_cron := Some cron, sc_one_time := False, sc_next_run := Some (At n)\<rparr>))
              | None \<Rightarrow>
                  (case tm_run_at m of
                     None \<Rightarrow> Inr c
                   | Some text \<Rightarrow>
                       (case parse_iso io text of
                          None \<Rightarrow> Inl (Invalid ''Invalid ISO datetime for run_at'')
                        | Some (n, _) \<Rightarrow> Inr (c\<lparr>sc_run_at := Some (At n), sc_next_run := Some (At n), sc_one_time := True,
                                                sc_timezone := None\<rparr>)))))"

definition has_cron :: "schedule \<Rightarrow> bool" where
  "has_cron c \<longleftrightarrow> sc_cron c \<noteq> None \<and> sc_cron c \<noteq> Some []"

definition recomputed :: "sched_io \<Rightarrow> py_time \<Rightarrow> schedule \<Rightarrow> sched_error + schedule" where
  "recomputed io now c =
     (case cron_next io (the (sc_cron c)) (sc_timezone c) now of
        None \<Rightarrow> Inl (Invalid ''no next run'') | Some n \<Rightarrow> Inr (c\<lparr>sc_next_run := Some (At n)\<rparr>))"

definition elapsed :: "py_time \<Rightarrow> stamp option \<Rightarrow> bool" where
  "elapsed now t = (case t of Some (At x) \<Rightarrow> x \<le> now | _ \<Rightarrow> False)"

text \<open>A one-time schedule whose instant, or whose retry, passed while it was paused is spent.\<close>

definition resumed_one_time :: "py_time \<Rightarrow> schedule \<Rightarrow> schedule" where
  "resumed_one_time now c =
     (if sc_last_run c \<noteq> None
      then if elapsed now (sc_retry_at c)
           then quarantine_schedule ''One-time schedule ran and failed, but its retry time passed while paused'' c else c
      else if elapsed now (sc_run_at c)
           then quarantine_schedule ''One-time schedule was not run because run_at passed while it was paused'' c else c)"

definition retime :: "sched_io \<Rightarrow> py_time \<Rightarrow> schedule_edit \<Rightarrow> bool \<Rightarrow> schedule \<Rightarrow> sched_error + schedule" where
  "retime io now e resumed c =
     (if new_timing (ed_timing e) then retimed io now (ed_timing e) c
      else if ed_timezone e \<noteq> None \<and> has_cron c then recomputed io now c
      else if resumed \<and> has_cron c \<and> \<not> sc_one_time c then recomputed io now c
      else if resumed \<and> sc_one_time c then Inr (resumed_one_time now c)
      else Inr c)"

text \<open>Whether anything but the description and the revision differs; dictionaries compare without order.\<close>

definition same_dict :: "dict \<Rightarrow> dict \<Rightarrow> bool" where
  "same_dict a b \<longleftrightarrow> list_all (\<lambda>k. sort_keys (fget k a) = sort_keys (fget k b)) (jkeys a @ jkeys b)"

definition same_execution :: "schedule \<Rightarrow> schedule \<Rightarrow> bool" where
  "same_execution c d \<longleftrightarrow>
     same_dict (sc_body c) (sc_body d)
     \<and> map_option sort_keys (sc_trigger c) = map_option sort_keys (sc_trigger d)
     \<and> c\<lparr>sc_description := [], sc_revision := 0, sc_body := [], sc_trigger := None\<rparr>
       = d\<lparr>sc_description := [], sc_revision := 0, sc_body := [], sc_trigger := None\<rparr>"

definition build_update :: "sched_io \<Rightarrow> py_time \<Rightarrow> schedule_edit \<Rightarrow> schedule \<Rightarrow> sched_error + schedule" where
  "build_update io now e original =
     (case edit_error io e original of
        Some err \<Rightarrow> Inl err
      | None \<Rightarrow>
          (let target = edited e original;
               resumed = (is_paused original \<and> sc_paused target = Some False)
           in case retime io now e resumed target of
                Inl err \<Rightarrow> Inl err
              | Inr c \<Rightarrow>
                  let c1 = (if resumed \<and> \<not> sc_one_time c then c\<lparr>sc_retry_at := None\<rparr> else c);
                      c2 = c1\<lparr>sc_revision := sc_revision original + 1\<rparr>
                  in Inr (if same_execution c2 original then c2
                          else c2\<lparr>sc_exec_revision := sc_exec_revision original + 1\<rparr>)))"

definition update_schedule ::
  "sched_io \<Rightarrow> connection \<Rightarrow> py_time \<Rightarrow> bool \<Rightarrow> string \<Rightarrow> schedule_edit \<Rightarrow> scheduler
     \<Rightarrow> (sched_error + schedule option) \<times> scheduler" where
  "update_schedule io conn now fault i e s =
     (case (case ed_timezone e of None \<Rightarrow> None | Some z \<Rightarrow> validate_timezone io z) of
        Some err \<Rightarrow> (Inl err, s)
      | None \<Rightarrow>
          (case find (\<lambda>c. sc_id c = i) (sd_mem s) of
             None \<Rightarrow> (Inr None, s)
           | Some original \<Rightarrow>
               (case build_update io now e original of
                  Inl err \<Rightarrow> (Inl err, s)
                | Inr target \<Rightarrow>
                    if is_paused original \<and> sc_paused target = Some False \<and> admitted_epoch conn target = Inl ()
                    then (Inl Offline, s)
                    else let (ok, s') = publish_schedules fault (update_first (\<lambda>c. sc_id c = i) (\<lambda>_. [target]) (sd_mem s)) s
                         in (if ok then Inr (Some target) else Inl Save_failed, s'))))"

definition reset_failures :: "bool \<Rightarrow> string \<Rightarrow> scheduler \<Rightarrow> (sched_error + schedule option) \<times> scheduler" where
  "reset_failures fault i s =
     (case find (\<lambda>c. sc_id c = i) (sd_mem s) of
        None \<Rightarrow> (Inr None, s)
      | Some c \<Rightarrow>
          let c' = (handle_success c)\<lparr>sc_revision := sc_revision c + 1, sc_exec_revision := sc_exec_revision c + 1\<rparr>;
              (ok, s') = publish_schedules fault (update_first (\<lambda>c. sc_id c = i) (\<lambda>_. [c']) (sd_mem s)) s
          in (if ok then Inr (Some c') else Inl Save_failed, s'))"

definition delete_schedule :: "bool \<Rightarrow> string \<Rightarrow> scheduler \<Rightarrow> (sched_error + bool) \<times> scheduler" where
  "delete_schedule fault i s =
     (let candidate = filter (\<lambda>c. sc_id c \<noteq> i) (sd_mem s)
      in if length candidate = length (sd_mem s) then (Inr False, s)
         else let (ok, s') = publish_schedules fault candidate s in (if ok then Inr True else Inl Save_failed, s'))"

section \<open>Manual and triggered runs\<close>

datatype run_start = Skipped | Started nat

text \<open>The resolution is made on the list in memory, and saved only when it quarantined the schedule.\<close>

definition resolved_now :: "string \<Rightarrow> scheduler \<Rightarrow> schedule \<Rightarrow> bool \<times> schedule" where
  "resolved_now i s c = (if i \<in> set (sd_in_flight s) then (False, c) else resolve_interrupted_run c)"

definition resolve_first :: "bool \<Rightarrow> string \<Rightarrow> schedule \<Rightarrow> scheduler \<Rightarrow> bool \<times> scheduler" where
  "resolve_first fault i c0 s =
     (let (resolved, c) = resolved_now i s c0;
          s1 = s\<lparr>sd_mem := update_first (\<lambda>c. sc_id c = i) (\<lambda>_. [c]) (sd_mem s)\<rparr>
      in if resolved then publish_schedules fault (sd_mem s1) s1 else (True, s1))"

definition reserve_now ::
  "py_time \<Rightarrow> bool \<Rightarrow> string \<Rightarrow> nat option \<Rightarrow> schedule \<Rightarrow> scheduler \<Rightarrow> (sched_error + run_start) \<times> scheduler" where
  "reserve_now now fault i epoch c s =
     (let c' = c\<lparr>sc_last_run := Some now\<rparr>;
          (s1, r) = reserve epoch None False c c' s;
          (ok, s2) = publish_schedules fault (map (\<lambda>d. if sc_id d = i then c' else d) (sd_mem s)) s1
      in if ok then (Inr (Started (ex_key r)), s2\<lparr>sd_runs := sd_runs s2 @ [r]\<rparr>) else (Inl Save_failed, s2))"

definition run_now :: "connection \<Rightarrow> py_time \<Rightarrow> bool \<Rightarrow> bool \<Rightarrow> string \<Rightarrow> scheduler \<Rightarrow> (sched_error + run_start) \<times> scheduler" where
  "run_now conn now fault fault2 i s =
     (case find (\<lambda>c. sc_id c = i) (sd_mem s) of
        None \<Rightarrow> (Inl (Invalid ''Schedule not found''), s)
      | Some c0 \<Rightarrow>
          let c = snd (resolved_now i s c0);
              (ok, s2) = resolve_first fault i c0 s
          in if \<not> ok then (Inl Save_failed, s2)
             else if sc_inert_reason c \<noteq> None \<and> sc_inert_reason c \<noteq> Some [] then (Inl (Inert (the (sc_inert_reason c))), s2)
             else if requires_connection c \<and> \<not> sd_callback s2 then (Inl (Invalid ''Scheduler callback not configured''), s2)
             else if i \<in> set (sd_in_flight s) then (Inr Skipped, s2)
             else case admitted_epoch conn c of
                    Inl _ \<Rightarrow> (Inl Offline, s2)
                  | Inr epoch \<Rightarrow> reserve_now now fault2 i epoch c s2)"

definition trigger_meets :: "string \<Rightarrow> dict \<Rightarrow> schedule \<Rightarrow> bool" where
  "trigger_meets source event c =
     (case sc_trigger c of
        None \<Rightarrow> False
      | Some t \<Rightarrow> truthy t \<and> validate_trigger t = None \<and> trigger_matches (entries t) source event = Some True)"

definition trigger_fires :: "connection \<Rightarrow> string \<Rightarrow> dict \<Rightarrow> scheduler \<Rightarrow> schedule \<Rightarrow> bool" where
  "trigger_fires conn source event s c \<longleftrightarrow>
     \<not> is_paused c \<and> trigger_meets source event c
     \<and> (requires_connection c \<longrightarrow> cn_available conn \<and> sd_callback s)"

fun reserve_matched ::
  "connection \<Rightarrow> py_time \<Rightarrow> (schedule \<Rightarrow> bool) \<Rightarrow> schedule list \<Rightarrow> scheduler \<Rightarrow> schedule list \<times> execution list \<times> scheduler" where
  "reserve_matched conn now fires [] s = ([], [], s)"
| "reserve_matched conn now fires (c # cs) s =
     (if \<not> fires c then (let (cs', rs, s') = reserve_matched conn now fires cs s in (c # cs', rs, s'))
      else let c' = c\<lparr>sc_last_run := Some now\<rparr>;
               (s1, r) = reserve (if requires_connection c then Some (cn_epoch conn) else None) None False c c' s;
               (cs', rs, s') = reserve_matched conn now fires cs s1
           in (c' # cs', r # rs, s'))"

text \<open>The matched schedules are then executed one after the other; each is an execution that waits.\<close>

definition fire_triggers ::
  "connection \<Rightarrow> py_time \<Rightarrow> bool \<Rightarrow> string \<Rightarrow> dict \<Rightarrow> scheduler \<Rightarrow> bool \<times> scheduler" where
  "fire_triggers conn now fault source event s =
     (if source \<in> set REMOVED_TRIGGER_SOURCES then (True, s)
      else let (candidate, rs, s1) = reserve_matched conn now (trigger_fires conn source event s) (sd_mem s) s
           in if rs = [] then (True, s1)
              else let (ok, s2) = publish_schedules fault candidate s1
                   in if ok then (True, s2\<lparr>sd_runs := sd_runs s2 @ rs\<rparr>) else (False, s2))"

section \<open>Start-up\<close>

definition removed_trigger :: "schedule \<Rightarrow> bool" where
  "removed_trigger c =
     (case sc_trigger c of
        Some (JObj d) \<Rightarrow> fget ''source'' d \<in> JStr ` set REMOVED_TRIGGER_SOURCES \<or> jhas ''alert_name'' d
      | _ \<Rightarrow> False)"

definition degrade_removed_trigger_sources :: "schedule \<Rightarrow> schedule" where
  "degrade_removed_trigger_sources c =
     (if removed_trigger c
      then c\<lparr>sc_paused := Some True, sc_inert_reason := Some ''Trigger source or its alert filter was removed''\<rparr>
      else c)"

definition advance_stale_cron :: "sched_io \<Rightarrow> py_time \<Rightarrow> schedule \<Rightarrow> schedule" where
  "advance_stale_cron io now c =
     (case sc_next_run c of
        Some (At n) \<Rightarrow>
          if has_cron c \<and> n < now
          then (case cron_next io (the (sc_cron c)) (sc_timezone c) now of
                  None \<Rightarrow> c | Some m \<Rightarrow> c\<lparr>sc_next_run := Some (At m)\<rparr>)
          else c
      | _ \<Rightarrow> c)"

definition load_schedule :: "sched_io \<Rightarrow> py_time \<Rightarrow> schedule \<Rightarrow> schedule" where
  "load_schedule io now c =
     snd (resolve_interrupted_run (degrade_removed_trigger_sources (advance_stale_cron io now c)))"

definition restart :: "sched_io \<Rightarrow> py_time \<Rightarrow> bool \<Rightarrow> scheduler \<Rightarrow> scheduler" where
  "restart io now callback s =
     \<lparr>sd_mem = map (load_schedule io now) (sd_disk s), sd_disk = sd_disk s, sd_in_flight = [], sd_scheduled = [],
      sd_reservations = [], sd_runs = [], sd_next = sd_next s, sd_callback = callback\<rparr>"

section \<open>The loop\<close>

definition pending_due :: "scheduler \<Rightarrow> schedule \<Rightarrow> py_time option" where
  "pending_due s c =
     (if is_paused c \<or> schedule_lane c \<in> set (busy_lanes s) \<or> owned_by_running_execution s c then None
      else case (case sc_retry_at c of None \<Rightarrow> sc_next_run c | Some r \<Rightarrow> Some r) of
             Some (At t) \<Rightarrow> Some t | _ \<Rightarrow> None)"

definition compute_tick_delay :: "py_time \<Rightarrow> scheduler \<Rightarrow> py_time" where
  "compute_tick_delay now s =
     (case List.map_filter (pending_due s) (sd_mem s) of
        [] \<Rightarrow> 60
      | t # ts \<Rightarrow> max 1 (min 60 (fold min ts t - now)))"

text \<open>
  One event: \<open>Tick\<close> a pass of the loop, \<open>Enter\<close> to \<open>Record\<close> the sections of an execution,
  then the operators' calls, and \<open>Crash\<close> a stop or a crash followed by a start. Each event that saves
  carries whether the save raises.
\<close>

datatype sched_event =
    Tick connection py_time bool
  | Enter nat connection
  | Unwind nat bool
  | Admit nat py_time bool
  | Finish nat py_time run_outcome
  | Record nat bool
  | Cancel nat
  | Add connection py_time bool new_schedule
  | Update connection py_time bool string schedule_edit
  | Reset bool string
  | Delete bool string
  | Run_now connection py_time bool bool string
  | Fire_triggers connection py_time bool string dict
  | Crash py_time bool

text \<open>An event that no execution is ready for changes nothing.\<close>

definition on_run :: "nat \<Rightarrow> phase list \<Rightarrow> (execution \<Rightarrow> scheduler) \<Rightarrow> scheduler \<Rightarrow> scheduler" where
  "on_run k ps f s =
     (case take_run k s of None \<Rightarrow> s | Some r \<Rightarrow> if ex_phase r \<in> set ps then f r else s)"

definition cancel_run :: "execution \<Rightarrow> scheduler \<Rightarrow> scheduler" where
  "cancel_run r s = (if ex_phase r = Waiting \<or> ex_phase r = Overlapped then end_run (ex_key r) s else release_run r s)"

fun sched_step :: "sched_io \<Rightarrow> sched_event \<Rightarrow> scheduler \<Rightarrow> scheduler" where
  "sched_step io (Tick conn now fault) s = snd (start_due io conn now fault s)"
| "sched_step io (Enter k conn) s = on_run k [Waiting] (\<lambda>r. enter_run conn r s) s"
| "sched_step io (Unwind k fault) s = on_run k [Overlapped, Refused] (\<lambda>r. unwind_run fault r s) s"
| "sched_step io (Admit k now fault) s = on_run k [Entered] (\<lambda>r. admit_run fault now r s) s"
| "sched_step io (Finish k now outcome) s = on_run k [Effect] (\<lambda>r. finish_run now outcome r s) s"
| "sched_step io (Record k fault) s = on_run k [Recording] (\<lambda>r. record_run fault r s) s"
| "sched_step io (Cancel k) s = on_run k [Waiting, Overlapped, Entered, Refused, Effect, Recording] (\<lambda>r. cancel_run r s) s"
| "sched_step io (Add conn now fault a) s = snd (add_schedule io conn now fault a s)"
| "sched_step io (Update conn now fault i e) s = snd (update_schedule io conn now fault i e s)"
| "sched_step io (Reset fault i) s = snd (reset_failures fault i s)"
| "sched_step io (Delete fault i) s = snd (delete_schedule fault i s)"
| "sched_step io (Run_now conn now fault fault2 i) s = snd (run_now conn now fault fault2 i s)"
| "sched_step io (Fire_triggers conn now fault source event) s = snd (fire_triggers conn now fault source event s)"
| "sched_step io (Crash now callback) s = restart io now callback s"

definition sched_run :: "sched_io \<Rightarrow> sched_event list \<Rightarrow> scheduler \<Rightarrow> scheduler" where
  "sched_run io es s = fold (sched_step io) es s"

text \<open>The scheduler an installation starts with.\<close>

definition new_scheduler :: scheduler where
  "new_scheduler =
     \<lparr>sd_mem = [], sd_disk = [], sd_in_flight = [], sd_scheduled = [], sd_reservations = [], sd_runs = [],
      sd_next = 0, sd_callback = True\<rparr>"

end
