(* ===== verification/Scheduler_Inv.thy ===== *)
theory Scheduler_Inv
  imports Schedule_Control
begin

text \<open>
  The scheduler under every interleaving of its events: no schedule runs twice at once, a lane runs
  one schedule at a time, and a one-time effect that started and was never recorded is not run again.
  The invariant relates the executions under way to the records in memory and on disk.
\<close>

section \<open>Reachable states\<close>

definition run_ids :: "scheduler \<Rightarrow> string set" where
  "run_ids s = (\<lambda>r. sc_id (ex_schedule r)) ` set (sd_runs s)"

text \<open>A new schedule's id, \<^verbatim>\<open>uuid4().hex[:8]\<close>, is that of no schedule and no execution.\<close>

fun fresh_event :: "sched_event \<Rightarrow> scheduler \<Rightarrow> bool" where
  "fresh_event (Add conn now fault a) s = (ns_id a \<notin> sc_id ` set (sd_mem s) \<and> ns_id a \<notin> run_ids s)"
| "fresh_event e s = True"

inductive sched_reachable :: "sched_io \<Rightarrow> scheduler \<Rightarrow> bool" for io where
  started: "sched_reachable io new_scheduler"
| stepped: "sched_reachable io s \<Longrightarrow> fresh_event e s \<Longrightarrow> sched_reachable io (sched_step io e s)"

text \<open>The phases in which an execution holds the overlap guard, and those after its start marker.\<close>

definition guarding :: "execution \<Rightarrow> bool" where
  "guarding r \<longleftrightarrow> ex_phase r \<in> {Entered, Refused, Effect, Recording}"

definition begun :: "execution \<Rightarrow> bool" where
  "begun r \<longleftrightarrow> ex_phase r \<in> {Effect, Recording}"

definition run_id :: "execution \<Rightarrow> string" where
  "run_id r = sc_id (ex_schedule r)"

section \<open>The invariant\<close>

definition static_part :: "schedule \<Rightarrow> string \<times> string \<times> nat \<times> bool \<times> string \<times> json option" where
  "static_part c = (sc_id c, sc_generation c, sc_exec_revision c, sc_one_time c, sc_action c, sc_trigger c)"

definition recs :: "scheduler \<Rightarrow> schedule set" where
  "recs s = set (sd_mem s) \<union> set (sd_disk s)"

definition run_keys :: "scheduler \<Rightarrow> nat list" where
  "run_keys s = map ex_key (sd_runs s)"

definition guarded :: "scheduler \<Rightarrow> string list" where
  "guarded s = map run_id (filter guarding (sd_runs s))"

definition runs_wf :: "scheduler \<Rightarrow> bool" where
  "runs_wf s \<longleftrightarrow>
     distinct (run_keys s) \<and> (\<forall>k\<in>set (run_keys s). k < sd_next s)
     \<and> distinct (guarded s) \<and> set (sd_in_flight s) = set (guarded s) \<and> distinct (busy_lanes s)"

definition recs_wf :: "scheduler \<Rightarrow> bool" where
  "recs_wf s \<longleftrightarrow>
     map static_part (sd_mem s) = map static_part (sd_disk s) \<and> distinct (map sc_id (sd_mem s))
     \<and> (\<forall>c\<in>recs s. sc_one_time c \<longrightarrow> sc_trigger c = None)"

text \<open>A record of the execution's schedule is not older, and at the same identity has the same kind.\<close>

definition not_older :: "execution \<Rightarrow> schedule \<Rightarrow> bool" where
  "not_older r c \<longleftrightarrow>
     (sc_id c = run_id r \<and> sc_generation c = sc_generation (ex_schedule r) \<longrightarrow>
        sc_exec_revision (ex_schedule r) \<le> sc_exec_revision c
        \<and> (sc_exec_revision c = sc_exec_revision (ex_schedule r) \<longrightarrow>
             sc_one_time c = sc_one_time (ex_schedule r) \<and> sc_action c = sc_action (ex_schedule r)))"

definition marked :: "execution \<Rightarrow> schedule \<Rightarrow> bool" where
  "marked r c \<longleftrightarrow>
     (begun r \<and> tracks_run_start (ex_schedule r) \<and> sc_id c = run_id r
      \<and> execution_identity c = execution_identity (ex_schedule r) \<longrightarrow> sc_run_started_at c \<noteq> None)"

definition links_wf :: "scheduler \<Rightarrow> bool" where
  "links_wf s \<longleftrightarrow> (\<forall>r\<in>set (sd_runs s). \<forall>c\<in>recs s. not_older r c \<and> marked r c)"

definition sched_inv :: "scheduler \<Rightarrow> bool" where
  "sched_inv s \<longleftrightarrow> runs_wf s \<and> recs_wf s \<and> links_wf s"

section \<open>How records change\<close>

text \<open>What every operation keeps of a record; the start marker of the schedules in \<open>G\<close> stays.\<close>

definition carried :: "string set \<Rightarrow> schedule \<Rightarrow> schedule \<Rightarrow> bool" where
  "carried G c d \<longleftrightarrow>
     sc_id d = sc_id c \<and> sc_generation d = sc_generation c \<and> sc_exec_revision c \<le> sc_exec_revision d
     \<and> (sc_exec_revision d = sc_exec_revision c \<longrightarrow>
          sc_one_time d = sc_one_time c \<and> sc_action d = sc_action c
          \<and> (sc_id c \<in> G \<and> sc_run_started_at c \<noteq> None \<longrightarrow> sc_run_started_at d \<noteq> None))
     \<and> ((sc_one_time c \<longrightarrow> sc_trigger c = None) \<longrightarrow> (sc_one_time d \<longrightarrow> sc_trigger d = None))"

lemma carried_refl [simp]: "carried G c c"
  by (simp add: carried_def)

lemma carried_trans: "carried G c d \<Longrightarrow> carried G d e \<Longrightarrow> carried G c e"
  by (auto simp: carried_def)

definition carries :: "string set \<Rightarrow> scheduler \<Rightarrow> scheduler \<Rightarrow> bool" where
  "carries G s t \<longleftrightarrow>
     (\<forall>d\<in>recs t. (\<exists>c\<in>recs s. carried G c d)
                  \<or> (sc_id d \<notin> run_ids t \<and> (sc_one_time d \<longrightarrow> sc_trigger d = None)))
     \<and> distinct (map sc_id (sd_mem t)) \<and> map static_part (sd_mem t) = map static_part (sd_disk t)"

lemma carries_same:
  "recs_wf s \<Longrightarrow> sd_mem t = sd_mem s \<Longrightarrow> sd_disk t = sd_disk s \<Longrightarrow> carries G s t"
  by (auto simp: carries_def recs_wf_def recs_def intro: carried_refl)

lemma carries_recs:
  assumes "carries G s t" "recs_wf s"
  shows "recs_wf t"
  using assms unfolding carries_def recs_wf_def carried_def by blast

lemma carries_then_same:
  assumes "carries G s t" "sd_mem u = sd_mem t" "sd_disk u = sd_disk t" "run_ids u \<subseteq> run_ids t"
  shows "carries G s u"
  using assms by (auto simp: carries_def recs_def)

lemma carries_publish:
  assumes "recs_wf s" "sd_mem s1 = sd_mem s" "sd_disk s1 = sd_disk s" "distinct (map sc_id candidate)"
    and "\<And>d. d \<in> set candidate \<Longrightarrow> \<exists>c\<in>set (sd_mem s). carried G c d"
    and "publish_schedules fault candidate s1 = (ok, t)"
  shows "carries G s t"
proof (cases fault)
  case True
  with assms show ?thesis by (auto simp: publish_schedules_def intro: carries_same)
next
  case False
  with assms(6) have "sd_mem t = candidate" "sd_disk t = candidate" by (auto simp: publish_schedules_def)
  with assms show ?thesis by (auto simp: carries_def recs_def)
qed

lemma publish_frame:
  assumes "publish_schedules fault candidate s = (ok, t)"
  shows "sd_runs t = sd_runs s" "sd_in_flight t = sd_in_flight s" "sd_next t = sd_next s"
    "sd_scheduled t = sd_scheduled s" "sd_reservations t = sd_reservations s" "sd_callback t = sd_callback s"
    "ok = (\<not> fault)"
  using assms by (auto simp: publish_schedules_def split: if_splits)

lemma list_all2_carried:
  assumes "list_all2 (carried G) xs ys"
  shows "map sc_id ys = map sc_id xs" "d \<in> set ys \<Longrightarrow> \<exists>c\<in>set xs. carried G c d"
  using assms by (induction rule: list_all2_induct) (auto simp: carried_def)

lemma carries_publish_all2:
  assumes "recs_wf s" "sd_mem s1 = sd_mem s" "sd_disk s1 = sd_disk s" "list_all2 (carried G) (sd_mem s) candidate"
    and "publish_schedules fault candidate s1 = (ok, t)"
  shows "carries G s t"
  using assms list_all2_carried [OF assms(4)] by (intro carries_publish [of s s1 candidate]) (auto simp: recs_wf_def)

lemma update_first_all2:
  assumes "\<And>c. c \<in> set xs \<Longrightarrow> p c \<Longrightarrow> \<exists>d. f c = [d] \<and> carried G c d"
  shows "list_all2 (carried G) xs (update_first p f xs)"
  using assms
proof (induction xs)
  case (Cons x xs)
  show ?case
  proof (cases "p x")
    case True
    then obtain d where "f x = [d]" "carried G x d" using Cons.prems [of x] by auto
    then show ?thesis using True by (simp add: list.rel_refl)
  next
    case False
    then show ?thesis using Cons by simp
  qed
qed simp

lemma set_update_first:
  "d \<in> set (update_first p f xs) \<Longrightarrow> d \<in> set xs \<or> (\<exists>c\<in>set xs. p c \<and> d \<in> set (f c))"
  by (induction xs) (auto split: if_splits)

lemma update_first_keys:
  assumes "\<And>c. map sc_id (f c) \<in> {[], [sc_id c]}"
  shows "set (map sc_id (update_first p f xs)) \<subseteq> set (map sc_id xs)"
    and "distinct (map sc_id xs) \<Longrightarrow> distinct (map sc_id (update_first p f xs))"
proof -
  show keys: "set (map sc_id (update_first p f xs)) \<subseteq> set (map sc_id xs)" for xs
  proof (induction xs)
    case (Cons x xs)
    then show ?case using assms [of x] by auto
  qed simp
  show "distinct (map sc_id xs) \<Longrightarrow> distinct (map sc_id (update_first p f xs))"
  proof (induction xs)
    case (Cons x xs)
    then show ?case using assms [of x] keys [of xs] by auto
  qed simp
qed

section \<open>How executions change\<close>

definition same_kind :: "execution \<Rightarrow> execution \<Rightarrow> bool" where
  "same_kind r q \<longleftrightarrow>
     run_id q = run_id r \<and> execution_identity (ex_schedule q) = execution_identity (ex_schedule r)
     \<and> sc_one_time (ex_schedule q) = sc_one_time (ex_schedule r) \<and> sc_action (ex_schedule q) = sc_action (ex_schedule r)"

definition run_from :: "scheduler \<Rightarrow> scheduler \<Rightarrow> execution \<Rightarrow> bool" where
  "run_from s t q \<longleftrightarrow>
     (\<exists>r\<in>set (sd_runs s). same_kind r q \<and> (begun q \<longrightarrow> begun r \<or> (\<forall>d\<in>recs t. marked q d)))
     \<or> \<not> begun q \<and> static_part (ex_schedule q) \<in> static_part ` set (sd_mem t)"

lemma recs_static:
  assumes "recs_wf t" "c \<in> set (sd_mem t)" "d \<in> recs t" "sc_id d = sc_id c"
  shows "static_part d = static_part c"
proof -
  have "static_part ` set (sd_disk t) = static_part ` set (sd_mem t)"
    using assms(1) by (metis recs_wf_def set_map)
  then obtain e where e: "e \<in> set (sd_mem t)" "static_part d = static_part e"
    using assms(3) by (fastforce simp: recs_def)
  then have "sc_id e = sc_id c" using assms(4) by (simp add: static_part_def)
  then have "e = c"
    using assms(1,2) e(1) distinct_map_key_unique [of sc_id "sd_mem t" e c] by (simp add: recs_wf_def)
  then show ?thesis using e by simp
qed

lemma fresh_run_linked:
  assumes "recs_wf t" "\<not> begun q" "static_part (ex_schedule q) \<in> static_part ` set (sd_mem t)" "d \<in> recs t"
  shows "not_older q d \<and> marked q d"
proof -
  obtain c where c: "c \<in> set (sd_mem t)" "static_part (ex_schedule q) = static_part c"
    using assms(3) by auto
  then have "sc_id d = run_id q \<Longrightarrow> static_part d = static_part (ex_schedule q)"
    using recs_static [OF assms(1) c(1) assms(4)] by (simp add: run_id_def static_part_def)
  then show ?thesis using assms(2) by (auto simp: not_older_def marked_def static_part_def)
qed

lemma kept_run_linked:
  assumes "same_kind r q" "not_older r c" "carried G c d"
  shows "not_older q d"
  using assms unfolding same_kind_def not_older_def carried_def execution_identity_def by auto

lemma kept_run_marked:
  assumes "same_kind r q" "not_older r c" "marked r c" "carried G c d" "begun r" "run_id q \<in> G"
  shows "marked q d"
  unfolding marked_def
proof (intro impI)
  assume a: "begun q \<and> tracks_run_start (ex_schedule q) \<and> sc_id d = run_id q
      \<and> execution_identity d = execution_identity (ex_schedule q)"
  have "sc_id c = run_id r" "sc_generation c = sc_generation (ex_schedule r)"
    using a assms(1,4) by (auto simp: same_kind_def carried_def execution_identity_def)
  moreover from this have "sc_exec_revision c = sc_exec_revision (ex_schedule r)" "sc_exec_revision d = sc_exec_revision c"
    using a assms(1,2,4) by (auto simp: same_kind_def carried_def execution_identity_def not_older_def)
  moreover have "tracks_run_start (ex_schedule r)"
    using a assms(1) by (simp add: same_kind_def tracks_run_start_def)
  ultimately have "sc_run_started_at c \<noteq> None"
    using assms(3,5) by (simp add: marked_def execution_identity_def)
  moreover have "sc_id c \<in> G" using assms(1,6) \<open>sc_id c = run_id r\<close> by (simp add: same_kind_def)
  ultimately show "sc_run_started_at d \<noteq> None"
    using assms(4) \<open>sc_exec_revision d = sc_exec_revision c\<close> by (simp add: carried_def)
qed

lemma begun_in_flight: "runs_wf t \<Longrightarrow> q \<in> set (sd_runs t) \<Longrightarrow> begun q \<Longrightarrow> run_id q \<in> set (sd_in_flight t)"
  by (auto simp: runs_wf_def guarded_def begun_def guarding_def)

lemma inv_step:
  assumes "sched_inv s" "carries (set (sd_in_flight t)) s t" "runs_wf t"
    and "\<And>q. q \<in> set (sd_runs t) \<Longrightarrow> run_from s t q"
  shows "sched_inv t"
proof -
  have recs: "recs_wf t" using assms(1,2) carries_recs by (auto simp: sched_inv_def)
  have "not_older q d \<and> marked q d" if q: "q \<in> set (sd_runs t)" and d: "d \<in> recs t" for q d
    using assms(4) [OF q] unfolding run_from_def
  proof (elim disjE bexE conjE)
    fix r assume r: "r \<in> set (sd_runs s)" "same_kind r q" "begun q \<longrightarrow> begun r \<or> (\<forall>d\<in>recs t. marked q d)"
    show ?thesis
    proof (cases "sc_id d = run_id q")
      case True
      then have "sc_id d \<in> run_ids t" using q by (auto simp: run_ids_def run_id_def)
      then obtain c where c: "c \<in> recs s" "carried (set (sd_in_flight t)) c d"
        using assms(2) d by (auto simp: carries_def)
      have rc: "not_older r c" "marked r c" using assms(1) r(1) c(1) by (auto simp: sched_inv_def links_wf_def)
      have "marked q d"
      proof (cases "begun q \<and> begun r")
        case True
        then show ?thesis
          using kept_run_marked [OF r(2) rc c(2)] begun_in_flight [OF assms(3) q] by simp
      next
        case False
        then show ?thesis using r(3) d by (auto simp: marked_def)
      qed
      then show ?thesis using kept_run_linked [OF r(2) rc(1) c(2)] by simp
    qed (simp add: not_older_def marked_def)
  next
    assume "\<not> begun q" "static_part (ex_schedule q) \<in> static_part ` set (sd_mem t)"
    then show ?thesis using fresh_run_linked recs d by blast
  qed
  then show ?thesis using recs assms(3) by (auto simp: sched_inv_def links_wf_def)
qed

lemma inv_step_runs_kept:
  assumes "sched_inv s" "carries (set (sd_in_flight s)) s t"
    and "sd_runs t = sd_runs s" "sd_in_flight t = sd_in_flight s" "sd_next t = sd_next s"
  shows "sched_inv t"
  using assms(1)
proof (rule inv_step)
  show "carries (set (sd_in_flight t)) s t" using assms by simp
  show "runs_wf t" using assms by (simp add: sched_inv_def runs_wf_def busy_lanes_def run_keys_def guarded_def)
  show "run_from s t q" if "q \<in> set (sd_runs t)" for q
    using that assms(3) unfolding run_from_def same_kind_def by auto
qed

section \<open>One execution among the others\<close>

lemma run_split:
  assumes "distinct (map ex_key rs)" "r \<in> set rs"
  obtains xs ys where "rs = xs @ r # ys" "\<forall>x\<in>set xs \<union> set ys. ex_key x \<noteq> ex_key r"
proof -
  obtain xs ys where rs: "rs = xs @ r # ys" using assms(2) split_list by metis
  then have "\<forall>x\<in>set xs \<union> set ys. ex_key x \<noteq> ex_key r" using assms(1) by (auto simp: rev_image_eqI)
  with rs show ?thesis using that by blast
qed

lemma take_run_D: "take_run k s = Some r \<Longrightarrow> r \<in> set (sd_runs s) \<and> ex_key r = k"
  by (auto simp: take_run_def find_Some_iff)

definition put_run :: "execution \<Rightarrow> execution list \<Rightarrow> execution list" where
  "put_run q rs = map (\<lambda>x. if ex_key x = ex_key q then q else x) rs"

lemma put_run_split:
  assumes "\<forall>x\<in>set xs \<union> set ys. ex_key x \<noteq> ex_key r" "ex_key q = ex_key r"
  shows "put_run q (xs @ r # ys) = xs @ q # ys" "filter (\<lambda>x. ex_key x \<noteq> ex_key r) (xs @ r # ys) = xs @ ys"
  using assms by (auto simp: put_run_def map_idI)

lemma set_phase_put:
  assumes "distinct (map ex_key (sd_runs s))" "r \<in> set (sd_runs s)"
  shows "sd_runs (set_phase (ex_key r) p s) = put_run (r\<lparr>ex_phase := p\<rparr>) (sd_runs s)"
  using assms by (auto simp: set_phase_def put_run_def dest: distinct_map_key_unique [of ex_key "sd_runs s" _ r])

lemma set_schedule_put:
  assumes "distinct (map ex_key (sd_runs s))" "r \<in> set (sd_runs s)"
  shows "sd_runs (set_schedule (ex_key r) c s) = put_run (r\<lparr>ex_schedule := c\<rparr>) (sd_runs s)"
  using assms by (auto simp: set_schedule_def put_run_def dest: distinct_map_key_unique [of ex_key "sd_runs s" _ r])

lemma wf_put_same:
  assumes "runs_wf s" "r \<in> set (sd_runs s)" "ex_key q = ex_key r" "run_id q = run_id r" "guarding q = guarding r"
    "ex_lane q = ex_lane r" "sd_runs t = put_run q (sd_runs s)" "sd_in_flight t = sd_in_flight s" "sd_next t = sd_next s"
  shows "runs_wf t"
proof -
  obtain xs ys where sp: "sd_runs s = xs @ r # ys" "\<forall>x\<in>set xs \<union> set ys. ex_key x \<noteq> ex_key r"
    using run_split assms(1,2) by (metis runs_wf_def run_keys_def)
  then have t: "sd_runs t = xs @ q # ys" using put_run_split(1) assms(3,7) by simp
  have "run_keys t = run_keys s" "guarded t = guarded s" "busy_lanes t = busy_lanes s"
    using assms(3-6) by (simp_all add: run_keys_def guarded_def busy_lanes_def t sp(1))
  then show ?thesis using assms(1,8,9) by (simp add: runs_wf_def)
qed

lemma wf_enter:
  assumes "runs_wf s" "r \<in> set (sd_runs s)" "\<not> guarding r" "ex_key q = ex_key r" "run_id q = run_id r" "guarding q"
    "ex_lane q = ex_lane r" "run_id r \<notin> set (sd_in_flight s)"
    "sd_runs t = put_run q (sd_runs s)" "sd_in_flight t = run_id r # sd_in_flight s" "sd_next t = sd_next s"
  shows "runs_wf t"
proof -
  obtain xs ys where sp: "sd_runs s = xs @ r # ys" "\<forall>x\<in>set xs \<union> set ys. ex_key x \<noteq> ex_key r"
    using run_split assms(1,2) by (metis runs_wf_def run_keys_def)
  then have t: "sd_runs t = xs @ q # ys" using put_run_split(1) assms(4,9) by simp
  let ?xs = "map run_id (filter guarding xs)" and ?ys = "map run_id (filter guarding ys)"
  have "run_keys t = run_keys s" "busy_lanes t = busy_lanes s"
    using assms(4,7) by (simp_all add: run_keys_def busy_lanes_def t sp(1))
  moreover have "guarded t = ?xs @ run_id r # ?ys" "guarded s = ?xs @ ?ys"
    using assms(3,5,6) by (simp_all add: guarded_def t sp(1))
  ultimately show ?thesis using assms(1,8,10,11) by (auto simp: runs_wf_def)
qed

lemma wf_release:
  assumes "runs_wf s" "r \<in> set (sd_runs s)" "sd_runs t = filter (\<lambda>x. ex_key x \<noteq> ex_key r) (sd_runs s)"
    "sd_next t = sd_next s"
    "sd_in_flight t = (if guarding r then filter (\<lambda>i. i \<noteq> run_id r) (sd_in_flight s) else sd_in_flight s)"
  shows "runs_wf t"
proof -
  obtain xs ys where sp: "sd_runs s = xs @ r # ys" "\<forall>x\<in>set xs \<union> set ys. ex_key x \<noteq> ex_key r"
    using run_split assms(1,2) by (metis runs_wf_def run_keys_def)
  then have t: "sd_runs t = xs @ ys" using put_run_split(2) assms(3) by simp
  let ?xs = "map run_id (filter guarding xs)" and ?ys = "map run_id (filter guarding ys)"
  let ?ls = "\<lambda>rs. concat (map (\<lambda>r. case ex_lane r of None \<Rightarrow> [] | Some l \<Rightarrow> [l]) rs)"
  have k: "run_keys s = map ex_key xs @ ex_key r # map ex_key ys" "run_keys t = map ex_key xs @ map ex_key ys"
    by (simp_all add: run_keys_def t sp(1))
  have l: "busy_lanes s = ?ls xs @ (case ex_lane r of None \<Rightarrow> [] | Some l \<Rightarrow> [l]) @ ?ls ys" "busy_lanes t = ?ls xs @ ?ls ys"
    by (simp_all add: busy_lanes_def t sp(1))
  have g: "guarded s = ?xs @ (if guarding r then [run_id r] else []) @ ?ys" "guarded t = ?xs @ ?ys"
    by (simp_all add: guarded_def t sp(1))
  have inv: "distinct (run_keys s)" "\<forall>k\<in>set (run_keys s). k < sd_next s" "distinct (guarded s)"
    "set (sd_in_flight s) = set (guarded s)" "distinct (busy_lanes s)"
    using assms(1) by (auto simp: runs_wf_def)
  have "set (sd_in_flight t) = set (guarded t)"
  proof (cases "guarding r")
    case True
    then have "run_id r \<notin> set ?xs \<union> set ?ys" using inv(3) unfolding g by auto
    moreover have "set (sd_in_flight t) = set (guarded s) - {run_id r}" using True assms(5) inv(4) by auto
    ultimately show ?thesis using True unfolding g by auto
  next
    case False
    then show ?thesis using assms(5) inv(4) g by simp
  qed
  moreover have "distinct (run_keys t)" "\<forall>k\<in>set (run_keys t). k < sd_next t"
    using inv(1,2) assms(4) unfolding k by auto
  moreover have "distinct (guarded t)" using inv(3) unfolding g by auto
  moreover have "distinct (busy_lanes t)" using inv(5) unfolding l distinct_append set_append by blast
  ultimately show ?thesis by (simp add: runs_wf_def)
qed

section \<open>The events that only change records\<close>

lemma static_frame [simp]:
  "static_part (quarantine_schedule why c) = static_part c"
  "static_part (snd (resolve_interrupted_run c)) = static_part c"
  "static_part (degrade_removed_trigger_sources c) = static_part c"
  "static_part (advance_stale_cron io now c) = static_part c"
  by (simp_all add: static_part_def resolve_interrupted_run_def degrade_removed_trigger_sources_def
      advance_stale_cron_def quarantine_schedule_def Let_def split: option.split stamp.split)

lemma restart_static: "static_part (load_schedule io now c) = static_part c"
  by (simp add: load_schedule_def)

lemma static_id: "static_part c = static_part d \<Longrightarrow> sc_id c = sc_id d"
  by (simp add: static_part_def)

lemma static_carried: "static_part d = static_part c \<Longrightarrow> sc_id c \<notin> G \<Longrightarrow> carried G c d"
  by (auto simp: static_part_def carried_def)

lemma static_ids: "map static_part xs = map static_part ys \<Longrightarrow> map sc_id xs = map sc_id ys"
proof -
  assume e: "map static_part xs = map static_part ys"
  have ids: "map sc_id zs = map fst (map static_part zs)" for zs
    by (simp add: static_part_def)
  show "map sc_id xs = map sc_id ys" unfolding ids e ..
qed

lemma sched_restart_inv:
  assumes "sched_inv s"
  shows "sched_inv (restart io now callback s)" (is "sched_inv ?t")
proof -
  have s: "recs_wf s" using assms by (simp add: sched_inv_def)
  have "map static_part (sd_mem ?t) = map static_part (sd_disk ?t)"
    by (simp add: restart_def restart_static)
  moreover from this have "distinct (map sc_id (sd_mem ?t))"
    using s static_ids [of "sd_mem s" "sd_disk s"] static_id [OF restart_static]
    by (simp add: recs_wf_def restart_def o_def)
  moreover have "\<exists>c\<in>recs s. carried {} c d" if "d \<in> recs ?t" for d
    using that static_carried [OF restart_static, of _ "{}" io now]
    by (auto simp: recs_def restart_def intro: carried_refl)
  ultimately have "carries {} s ?t" by (auto simp: carries_def)
  moreover have e: "sd_runs ?t = []" "sd_in_flight ?t = []" by (simp_all add: restart_def)
  moreover have "runs_wf ?t" by (simp add: runs_wf_def run_keys_def guarded_def busy_lanes_def e)
  ultimately show ?thesis using inv_step [OF assms, of ?t] by simp
qed

end
