(* ===== verification/Scheduler_Steps.thy ===== *)
theory Scheduler_Steps
  imports Scheduler_Inv
begin

text \<open>Every event of the scheduler keeps its invariant.\<close>

section \<open>Executions\<close>

lemma run_from_same: "q \<in> set (sd_runs s) \<Longrightarrow> run_from s t q"
  unfolding run_from_def same_kind_def by auto

lemma inv_put:
  assumes "sched_inv s" "r \<in> set (sd_runs s)" "carries (set (sd_in_flight t)) s t" "runs_wf t"
    and "sd_runs t = put_run q (sd_runs s)" "same_kind r q" "begun q \<longrightarrow> begun r \<or> (\<forall>d\<in>recs t. marked q d)"
  shows "sched_inv t"
  using assms(1,3,4)
proof (rule inv_step)
  fix x assume "x \<in> set (sd_runs t)"
  then consider "x = q" | "x \<in> set (sd_runs s)" using assms(5) by (auto simp: put_run_def split: if_splits)
  then show "run_from s t x"
    using assms(2,6,7) run_from_same by cases (auto simp: run_from_def)
qed

lemma inv_fewer:
  assumes "sched_inv s" "carries (set (sd_in_flight t)) s t" "runs_wf t" "set (sd_runs t) \<subseteq> set (sd_runs s)"
  shows "sched_inv t"
  using assms(1-3)
proof (rule inv_step)
  show "run_from s t x" if "x \<in> set (sd_runs t)" for x
    using that assms(4) run_from_same by blast
qed

lemma phase_frame [simp]:
  "sd_mem (set_phase k p s) = sd_mem s" "sd_disk (set_phase k p s) = sd_disk s"
  "sd_in_flight (set_phase k p s) = sd_in_flight s" "sd_next (set_phase k p s) = sd_next s"
  "sd_mem (set_schedule k c s) = sd_mem s" "sd_disk (set_schedule k c s) = sd_disk s"
  "sd_in_flight (set_schedule k c s) = sd_in_flight s" "sd_next (set_schedule k c s) = sd_next s"
  by (simp_all add: set_phase_def set_schedule_def)

lemma end_frame [simp]:
  "sd_mem (end_run k s) = sd_mem s" "sd_disk (end_run k s) = sd_disk s"
  "sd_in_flight (end_run k s) = sd_in_flight s" "sd_next (end_run k s) = sd_next s"
  "sd_runs (end_run k s) = filter (\<lambda>r. ex_key r \<noteq> k) (sd_runs s)"
  "sd_mem (release_run r s) = sd_mem s" "sd_disk (release_run r s) = sd_disk s"
  "sd_in_flight (release_run r s) = filter (\<lambda>i. i \<noteq> run_id r) (sd_in_flight s)"
  "sd_next (release_run r s) = sd_next s" "sd_runs (release_run r s) = filter (\<lambda>q. ex_key q \<noteq> ex_key r) (sd_runs s)"
  by (simp_all add: end_run_def drop_reservation_def release_run_def run_id_def)

text \<open>An execution ends: \<open>u\<close> is the state its section left, \<open>t\<close> the one without it.\<close>

lemma inv_ends:
  assumes "sched_inv s" "r \<in> set (sd_runs s)" "carries (set (sd_in_flight t)) s t"
    and "sd_runs u = sd_runs s" "sd_in_flight u = sd_in_flight s" "sd_next u = sd_next s"
    and "t = (if guarding r then release_run r u else end_run (ex_key r) u)"
  shows "sched_inv t"
proof -
  have f: "sd_runs t = filter (\<lambda>x. ex_key x \<noteq> ex_key r) (sd_runs s)" "sd_next t = sd_next s"
    "sd_in_flight t = (if guarding r then filter (\<lambda>i. i \<noteq> run_id r) (sd_in_flight s) else sd_in_flight s)"
    unfolding assms(7) by (simp_all add: assms(4-6))
  have "runs_wf s" using assms(1) by (simp add: sched_inv_def)
  then have "runs_wf t" by (rule wf_release [OF _ assms(2) f])
  moreover have "set (sd_runs t) \<subseteq> set (sd_runs s)" unfolding f(1) by simp
  ultimately show ?thesis by (rule inv_fewer [OF assms(1,3)])
qed

lemma wf_distinct: "sched_inv s \<Longrightarrow> distinct (map ex_key (sd_runs s))"
  by (simp add: sched_inv_def runs_wf_def run_keys_def)

lemma inv_rephased:
  assumes "sched_inv s" "r \<in> set (sd_runs s)" "guarding (r\<lparr>ex_phase := p\<rparr>) = guarding r" "\<not> begun (r\<lparr>ex_phase := p\<rparr>)"
  shows "sched_inv (set_phase (ex_key r) p s)"
proof -
  let ?q = "r\<lparr>ex_phase := p\<rparr>" and ?t = "set_phase (ex_key r) p s"
  have put: "sd_runs ?t = put_run ?q (sd_runs s)" using set_phase_put wf_distinct assms(1,2) by blast
  have s: "runs_wf s" "recs_wf s" using assms(1) by (simp_all add: sched_inv_def)
  have q: "ex_key ?q = ex_key r" "run_id ?q = run_id r" "ex_lane ?q = ex_lane r" "same_kind r ?q"
    by (simp_all add: run_id_def same_kind_def)
  have wf: "runs_wf ?t"
    by (rule wf_put_same [OF s(1) assms(2) q(1,2) assms(3) q(3) put]) simp_all
  have c: "carries (set (sd_in_flight ?t)) s ?t" by (rule carries_same [OF s(2)]) simp_all
  show ?thesis using inv_put [OF assms(1,2) c wf put q(4)] assms(4) by blast
qed

lemma enter_inv:
  assumes "sched_inv s" "r \<in> set (sd_runs s)" "ex_phase r = Waiting"
  shows "sched_inv (enter_run conn r s)"
proof (cases "run_id r \<in> set (sd_in_flight s)")
  case True
  then have "enter_run conn r s = set_phase (ex_key r) Overlapped s"
    by (simp add: enter_run_def run_id_def Let_def)
  then show ?thesis
    using inv_rephased [of s r Overlapped] assms by (simp add: guarding_def begun_def)
next
  case False
  define s1 where "s1 = s\<lparr>sd_in_flight := run_id r # sd_in_flight s,
    sd_scheduled := (if ex_lane r = None then sd_scheduled s else run_id r # sd_scheduled s)\<rparr>"
  define p where "p = (if connection_lost conn r then Refused else Entered)"
  have p: "p = Entered \<or> p = Refused" "enter_run conn r s = set_phase (ex_key r) p s1"
    using False by (simp_all add: p_def enter_run_def s1_def run_id_def Let_def)
  let ?q = "r\<lparr>ex_phase := p\<rparr>" and ?t = "set_phase (ex_key r) p s1"
  have "sd_runs s1 = sd_runs s" by (simp add: s1_def)
  then have put: "sd_runs ?t = put_run ?q (sd_runs s)"
    using set_phase_put [of s1 r p] wf_distinct assms(1,2) by simp
  have s: "runs_wf s" "recs_wf s" "\<not> guarding r" "guarding ?q" "\<not> begun ?q"
    using assms p(1) by (auto simp: sched_inv_def guarding_def begun_def)
  have q: "ex_key ?q = ex_key r" "run_id ?q = run_id r" "ex_lane ?q = ex_lane r" "same_kind r ?q"
    by (simp_all add: run_id_def same_kind_def)
  have wf: "runs_wf ?t"
    by (rule wf_enter [OF s(1) assms(2) s(3) q(1,2) s(4) q(3) False put]) (simp_all add: s1_def)
  have c: "carries (set (sd_in_flight ?t)) s ?t" by (rule carries_same [OF s(2)]) (simp_all add: s1_def)
  show ?thesis using inv_put [OF assms(1,2) c wf put q(4)] s(5) p(2) by simp
qed

lemma restore_frame:
  assumes "recs_wf s" "restore_unstarted_reservation fault k preserve run s = (ok, t)"
  shows "carries G s t" "sd_runs t = sd_runs s" "sd_in_flight t = sd_in_flight s" "sd_next t = sd_next s"
proof -
  have upd: "list_all2 (carried G) (sd_mem s)
      (update_first p (\<lambda>c. [restore_record preserve g c]) (sd_mem s))" for p g
    by (rule update_first_all2) (auto simp: restore_record_def carried_def)
  have "t = s \<or> (\<exists>candidate. list_all2 (carried G) (sd_mem s) candidate \<and> publish_schedules fault candidate s = (ok, t))"
    using assms(2) upd unfolding restore_unstarted_reservation_def by (auto split: option.splits if_splits)
  then show "carries G s t" "sd_runs t = sd_runs s" "sd_in_flight t = sd_in_flight s" "sd_next t = sd_next s"
    using assms(1) publish_frame [of fault _ s ok t] by (auto intro: carries_same carries_publish_all2)
qed

lemma run_ids_fewer: "set (sd_runs u) \<subseteq> set (sd_runs t) \<Longrightarrow> run_ids u \<subseteq> run_ids t"
  by (auto simp: run_ids_def)

lemma ended_frame:
  assumes "t = (if guarding r then release_run r u else end_run (ex_key r) u)"
  shows "sd_mem t = sd_mem u" "sd_disk t = sd_disk u" "run_ids t \<subseteq> run_ids u"
proof -
  show "sd_mem t = sd_mem u" "sd_disk t = sd_disk u" unfolding assms by simp_all
  have "set (sd_runs t) \<subseteq> set (sd_runs u)" unfolding assms by simp
  then show "run_ids t \<subseteq> run_ids u" by (rule run_ids_fewer)
qed

lemma unwind_inv:
  assumes "sched_inv s" "r \<in> set (sd_runs s)" "ex_phase r = Overlapped \<or> ex_phase r = Refused"
  shows "sched_inv (unwind_run fault r s)" (is "sched_inv ?t")
proof -
  define preserve where "preserve = (ex_phase r = Overlapped
      \<and> (case map_of (sd_reservations s) (ex_key r) of Some g \<Rightarrow> gr_preserve g | None \<Rightarrow> False))"
  obtain ok u where u: "restore_unstarted_reservation fault (ex_key r) preserve (ex_schedule r) s = (ok, u)"
    by (cases "restore_unstarted_reservation fault (ex_key r) preserve (ex_schedule r) s")
  have "?t = (if ex_phase r = Overlapped then end_run (ex_key r) u else release_run r u)"
    unfolding unwind_run_def Let_def preserve_def [symmetric] u by simp
  then have t: "?t = (if guarding r then release_run r u else end_run (ex_key r) u)"
    using assms(3) by (auto simp: guarding_def)
  have wf: "recs_wf s" using assms(1) by (simp add: sched_inv_def)
  note f = restore_frame [OF wf u]
  have "carries (set (sd_in_flight ?t)) s ?t"
    by (rule carries_then_same [OF f(1) ended_frame [OF t]])
  then show ?thesis using inv_ends [OF assms(1,2) _ f(2-4) t] by blast
qed

lemma cancel_inv:
  assumes "sched_inv s" "r \<in> set (sd_runs s)"
  shows "sched_inv (cancel_run r s)" (is "sched_inv ?t")
proof -
  have t: "?t = (if guarding r then release_run r s else end_run (ex_key r) s)"
    by (cases "ex_phase r") (auto simp: cancel_run_def guarding_def)
  have f: "sd_mem ?t = sd_mem s" "sd_disk ?t = sd_disk s" by (simp_all add: t)
  have "recs_wf s" using assms(1) by (simp add: sched_inv_def)
  then have "carries (set (sd_in_flight ?t)) s ?t" using f by (rule carries_same)
  then show ?thesis using inv_ends [OF assms _ refl refl refl t] by blast
qed

text \<open>With distinct ids, the record \<^verbatim>\<open>update_first\<close> leaves under an id is the one it made.\<close>

lemma update_first_hit:
  assumes "distinct (map sc_id xs)" "d \<in> set (update_first (\<lambda>c. sc_id c = i) f xs)" "sc_id d = i"
    and "\<And>c. map sc_id (f c) \<in> {[], [sc_id c]}"
  shows "\<exists>c\<in>set xs. sc_id c = i \<and> d \<in> set (f c)"
  using assms(1-3)
proof (induction xs)
  case (Cons x xs)
  show ?case
  proof (cases "sc_id x = i")
    case True
    then have "sc_id d \<notin> sc_id ` set xs" using Cons.prems(1,3) by simp
    then have "d \<notin> set xs" by auto
    then show ?thesis using True Cons.prems(2) by auto
  next
    case False
    then show ?thesis using Cons by auto
  qed
qed simp

lemma admit_frame:
  assumes "recs_wf s" "admit_reserved_execution fault now run s = (a, t)"
  shows "carries G s t" "sd_runs t = sd_runs s" "sd_in_flight t = sd_in_flight s" "sd_next t = sd_next s"
    and "a = Some True \<Longrightarrow> tracks_run_start run \<Longrightarrow> d \<in> recs t \<Longrightarrow> sc_id d = sc_id run \<Longrightarrow> sc_run_started_at d \<noteq> None"
proof -
  let ?f = "\<lambda>c. [c\<lparr>sc_run_started_at := Some now\<rparr>]"
  let ?candidate = "update_first (\<lambda>c. sc_id c = sc_id run) ?f (sd_mem s)"
  have upd: "list_all2 (carried G) (sd_mem s) ?candidate"
    by (rule update_first_all2) (auto simp: carried_def)
  have cases: "t = s \<and> (a = Some True \<longrightarrow> \<not> tracks_run_start run)
      \<or> (\<exists>ok. publish_schedules fault ?candidate s = (ok, t) \<and> (a = Some True \<longrightarrow> ok))"
    using assms(2) unfolding admit_reserved_execution_def Let_def
    by (auto split: option.splits if_splits prod.splits)
  show "carries G s t" "sd_runs t = sd_runs s" "sd_in_flight t = sd_in_flight s" "sd_next t = sd_next s"
    using cases assms(1) upd publish_frame [of fault ?candidate s _ t]
    by (auto intro: carries_same carries_publish_all2)
  assume a: "a = Some True" "tracks_run_start run" "d \<in> recs t" "sc_id d = sc_id run"
  then have "d \<in> set ?candidate"
    using cases by (auto simp: publish_schedules_def recs_def split: if_splits)
  then show "sc_run_started_at d \<noteq> None"
    using update_first_hit [of "sd_mem s" d "sc_id run" ?f] a(4) assms(1) by (auto simp: recs_wf_def)
qed

lemma admit_inv:
  assumes "sched_inv s" "r \<in> set (sd_runs s)" "ex_phase r = Entered"
  shows "sched_inv (admit_run fault now r s)" (is "sched_inv ?t")
proof -
  obtain a u where u: "admit_reserved_execution fault now (ex_schedule r) s = (a, u)"
    by (cases "admit_reserved_execution fault now (ex_schedule r) s")
  have wf: "recs_wf s" "runs_wf s" using assms(1) by (simp_all add: sched_inv_def)
  note f = admit_frame(1-4) [OF wf(1) u]
  have hold: "guarding r" using assms(3) by (simp add: guarding_def)
  have u_inv: "sched_inv u"
    by (rule inv_step_runs_kept [OF assms(1) f])
  show ?thesis
  proof (cases "a = Some True")
    case True
    define c where "c = (if tracks_run_start (ex_schedule r)
        then (ex_schedule r)\<lparr>sc_run_started_at := Some now\<rparr> else ex_schedule r)"
    define u' where "u' = (if tracks_run_start (ex_schedule r) then set_schedule (ex_key r) c u else u)"
    let ?r = "r\<lparr>ex_schedule := c\<rparr>" and ?q = "r\<lparr>ex_schedule := c, ex_phase := Effect\<rparr>"
    have t: "?t = set_phase (ex_key r) Effect u'"
      using True by (simp add: admit_run_def Let_def u u'_def c_def)
    have d: "distinct (map ex_key (sd_runs s))" by (rule wf_distinct [OF assms(1)])
    have "sd_runs ?t = put_run ?q (sd_runs s)"
      using d assms(2) f(2) distinct_map_key_unique [OF d, of _ r]
      unfolding t u'_def by (auto simp: set_phase_def set_schedule_def put_run_def c_def)
    moreover have q: "ex_key ?q = ex_key r" "run_id ?q = run_id r" "guarding ?q = guarding r" "ex_lane ?q = ex_lane r"
        "same_kind r ?q" "tracks_run_start c = tracks_run_start (ex_schedule r)"
      using hold by (simp_all add: run_id_def guarding_def same_kind_def execution_identity_def c_def tracks_run_start_def)
    moreover have m: "sd_mem ?t = sd_mem u" "sd_disk ?t = sd_disk u" "sd_in_flight ?t = sd_in_flight s" "sd_next ?t = sd_next s"
      using f by (simp_all add: t u'_def)
    ultimately have put: "sd_runs ?t = put_run ?q (sd_runs s)" and wft: "runs_wf ?t"
      using wf_put_same [OF wf(2) assms(2) q(1-4)] by blast+
    have "set (sd_runs ?t) \<subseteq> insert ?q (set (sd_runs u))" using put f(2) by (auto simp: put_run_def)
    then have "run_ids ?t \<subseteq> run_ids u"
      using assms(2) q(2) f(2) by (fastforce simp: run_ids_def run_id_def)
    then have "carries (set (sd_in_flight ?t)) s ?t" by (rule carries_then_same [OF f(1) m(1,2)])
    moreover have "\<forall>d\<in>recs ?t. marked ?q d"
      using admit_frame(5) [OF wf(1) u True] m(1,2) q(2,6) by (auto simp: marked_def recs_def run_id_def)
    ultimately show ?thesis using inv_put [OF assms(1,2) _ wft put q(5)] by blast
  next
    case False
    then consider "a = None" | "a = Some False" by (cases a) auto
    then show ?thesis
    proof cases
      case 1
      then have t: "?t = (if guarding r then release_run r u else end_run (ex_key r) u)"
        using hold by (simp add: admit_run_def Let_def u)
      have "carries (set (sd_in_flight ?t)) s ?t" by (rule carries_then_same [OF f(1) ended_frame [OF t]])
      then show ?thesis using inv_ends [OF assms(1,2) _ f(2-4) t] by blast
    next
      case 2
      then have "?t = set_phase (ex_key r) Refused u" by (simp add: admit_run_def Let_def u)
      then show ?thesis
        using inv_rephased [OF u_inv, of r Refused] assms(2) f(2) hold by (simp add: guarding_def begun_def)
    qed
  qed
qed

text \<open>What the end of an execution keeps of its schedule.\<close>

lemma handled_frame:
  "static_part (handle_success c) = static_part c" "static_part (handle_failure now replayable e c) = static_part c"
  "sc_run_started_at (handle_success c) = sc_run_started_at c"
  "sc_run_started_at (handle_failure now replayable e c) = sc_run_started_at c"
  by (simp_all add: static_part_def handle_success_def handle_failure_def Let_def)

lemma finish_inv:
  assumes "sched_inv s" "r \<in> set (sd_runs s)" "ex_phase r = Effect"
  shows "sched_inv (finish_run now outcome r s)" (is "sched_inv ?t")
proof -
  have wf: "recs_wf s" "runs_wf s" using assms(1) by (simp_all add: sched_inv_def)
  have hold: "guarding r" "begun r" using assms(3) by (simp_all add: guarding_def begun_def)
  have recorded: "sched_inv (set_phase (ex_key r) Recording (set_schedule (ex_key r) c s))" (is "sched_inv ?u")
    if c: "static_part c = static_part (ex_schedule r)" for c
  proof -
    let ?q = "r\<lparr>ex_schedule := c, ex_phase := Recording\<rparr>"
    have d: "distinct (map ex_key (sd_runs s))" by (rule wf_distinct [OF assms(1)])
    have put: "sd_runs ?u = put_run ?q (sd_runs s)"
      using d assms(2) distinct_map_key_unique [OF d, of _ r]
      by (auto simp: set_phase_def set_schedule_def put_run_def)
    have q: "ex_key ?q = ex_key r" "run_id ?q = run_id r" "guarding ?q = guarding r" "ex_lane ?q = ex_lane r" "same_kind r ?q"
      using hold c by (simp_all add: run_id_def guarding_def same_kind_def execution_identity_def static_part_def)
    have wft: "runs_wf ?u" by (rule wf_put_same [OF wf(2) assms(2) q(1-4) put]) simp_all
    have "carries (set (sd_in_flight ?u)) s ?u" by (rule carries_same [OF wf(1)]) simp_all
    then show ?thesis using inv_put [OF assms(1,2) _ wft put q(5)] hold(2) by blast
  qed
  show ?thesis
  proof (cases outcome)
    case Run_cancelled
    have "?t = cancel_run r s" using assms(3) Run_cancelled by (simp add: finish_run_def cancel_run_def)
    then show ?thesis using cancel_inv [OF assms(1,2)] by simp
  next
    case Succeeded
    then show ?thesis using recorded handled_frame by (simp add: finish_run_def Let_def)
  next
    case Failed
    then show ?thesis using recorded handled_frame by (simp add: finish_run_def Let_def)
  qed
qed

lemma recorded_carried:
  "d \<in> set (recorded run c) \<Longrightarrow> sc_id c \<notin> G \<Longrightarrow> carried G c d"
  by (auto simp: recorded_def Let_def carried_def split: if_splits)

lemma recorded_ids: "map sc_id (recorded run c) \<in> {[], [sc_id c]}"
  by (simp add: recorded_def Let_def)

lemma record_inv:
  assumes "sched_inv s" "r \<in> set (sd_runs s)" "ex_phase r = Recording"
  shows "sched_inv (record_run fault r s)" (is "sched_inv ?t")
proof -
  have wf: "recs_wf s" using assms(1) by (simp add: sched_inv_def)
  have hold: "guarding r" using assms(3) by (simp add: guarding_def)
  let ?candidate = "update_first (\<lambda>c. sc_id c = sc_id (ex_schedule r)) (recorded (ex_schedule r)) (sd_mem s)"
  obtain ok u where p: "publish_schedules fault ?candidate s = (ok, u)"
    by (cases "publish_schedules fault ?candidate s")
  let ?G = "set (sd_in_flight s) - {run_id r}"
  have "carries ?G s u"
    using wf _ _ _ _ p
  proof (rule carries_publish)
    show "distinct (map sc_id ?candidate)"
      using update_first_keys(2) [OF recorded_ids] wf by (simp add: recs_wf_def)
    show "\<exists>c\<in>set (sd_mem s). carried ?G c d" if "d \<in> set ?candidate" for d
      using set_update_first [OF that] recorded_carried [of d "ex_schedule r" _ ?G] carried_refl [of ?G d]
      by (auto simp: run_id_def simp del: carried_refl)
  qed simp_all
  note u = this publish_frame [OF p]
  define v where "v = (if \<exists>c\<in>set (sd_mem s). sc_id c = sc_id (ex_schedule r) then u else s)"
  have v: "carries ?G s v" "sd_runs v = sd_runs s" "sd_in_flight v = sd_in_flight s" "sd_next v = sd_next s"
    using u carries_same [OF wf refl refl] by (simp_all add: v_def)
  have t: "?t = (if guarding r then release_run r v else end_run (ex_key r) v)"
    using hold by (simp add: record_run_def Let_def p v_def)
  have "set (sd_in_flight ?t) = ?G" using hold v(3) unfolding t by auto
  then have "carries (set (sd_in_flight ?t)) s ?t" using carries_then_same [OF v(1) ended_frame [OF t]] by simp
  then show ?thesis using inv_ends [OF assms(1,2) _ v(2-4) t] by blast
qed

end
