(* ===== verification/Scheduler_Exclusion.thy ===== *)
theory Scheduler_Exclusion
  imports Scheduler_Steps
begin

text \<open>
  The operators' calls, incoming webhooks and the loop keep the invariant; so every reachable state
  of the scheduler has it.
\<close>

section \<open>Operators\<close>

lemma carries_trans:
  assumes "carries G s t" "carries G t u" "run_ids u \<subseteq> run_ids t"
  shows "carries G s u"
proof -
  have "(\<exists>b\<in>recs s. carried G b d) \<or> (sc_id d \<notin> run_ids u \<and> (sc_one_time d \<longrightarrow> sc_trigger d = None))"
    if d: "d \<in> recs u" for d
  proof -
    consider c where "c \<in> recs t" "carried G c d"
      | "sc_id d \<notin> run_ids u \<and> (sc_one_time d \<longrightarrow> sc_trigger d = None)"
      using assms(2) d by (auto simp: carries_def)
    then show ?thesis
    proof cases
      case 1
      then consider b where "b \<in> recs s" "carried G b c"
        | "sc_id c \<notin> run_ids t \<and> (sc_one_time c \<longrightarrow> sc_trigger c = None)"
        using assms(1) by (auto simp: carries_def)
      then show ?thesis
        using 1(2) assms(3) by cases (auto dest: carried_trans simp: carried_def)
    qed blast
  qed
  then show ?thesis using assms(2) by (auto simp: carries_def)
qed

lemma first_failure_Nil: "first_failure [] = None" and first_failure_Cons:
  "first_failure (e # es) = (case e of None \<Rightarrow> first_failure es | Some x \<Rightarrow> Some x)"
  by (cases e; simp)+

lemma timed_frame:
  assumes "timed io now a c = Inr d" "sc_trigger c = None" "\<not> sc_one_time c"
  shows "sc_id d = sc_id c" "sc_one_time d \<Longrightarrow> sc_trigger d = None"
  using assms by (auto simp: timed_def Let_def split: option.splits if_splits prod.splits)

lemma build_frame:
  assumes "build_schedule io now a = Inr d"
  shows "sc_id d = ns_id a" "sc_one_time d \<Longrightarrow> sc_trigger d = None"
proof -
  obtain c where c: "timed io now a (blank_schedule a) = Inr c" "d = with_retries (ns_max_retries a) (ns_backoff a) c"
    using assms by (auto simp: build_schedule_def split: option.splits sum.splits)
  have "sc_id c = ns_id a" "sc_one_time c \<Longrightarrow> sc_trigger c = None"
    using timed_frame [OF c(1)] by (simp_all add: blank_schedule_def)
  then show "sc_id d = ns_id a" "sc_one_time d \<Longrightarrow> sc_trigger d = None"
    by (simp_all add: c(2) with_retries_def)
qed

lemma snd_case_pair [simp]: "snd (case p of (ok, y) \<Rightarrow> (f ok, y)) = snd p"
  by (cases p) simp

lemma publish_pair: "publish_schedules fault candidate s = (\<not> fault, snd (publish_schedules fault candidate s))"
  by (simp add: publish_schedules_def)

lemma published_inv:
  assumes "sched_inv s" "carries (set (sd_in_flight s)) s t" "publish_schedules fault candidate s = (ok, t)"
  shows "sched_inv t"
  using inv_step_runs_kept [OF assms(1,2)] publish_frame [OF assms(3)] by simp

lemma add_inv:
  assumes "sched_inv s" "fresh_event (Add conn now fault a) s"
  shows "sched_inv (snd (add_schedule io conn now fault a s))" (is "sched_inv ?t")
proof -
  consider "?t = s" | c where "build_schedule io now a = Inr c" "?t = snd (publish_schedules fault (sd_mem s @ [c]) s)"
    by (cases "build_schedule io now a"; cases "admitted_epoch conn (projr (build_schedule io now a))")
      (auto simp: add_schedule_def Let_def)
  then show ?thesis
  proof cases
    case (2 c)
    note eq = 2(2)
    from publish_pair [of fault "sd_mem s @ [c]" s]
    have "publish_schedules fault (sd_mem s @ [c]) s = (\<not> fault, ?t)" unfolding 2(2) .
    note 2 = 2(1) this
    note c = build_frame [OF 2(1)] and fr = publish_frame [OF 2(2)]
    have wf: "recs_wf s" using assms(1) by (simp add: sched_inv_def)
    have ids: "run_ids ?t = run_ids s" using fr(1) by (simp add: run_ids_def)
    have "carries (set (sd_in_flight s)) s ?t"
    proof (cases fault)
      case True
      have "?t = s" unfolding eq using True by (simp add: publish_schedules_def)
      then show ?thesis using wf by (auto intro: carries_same)
    next
      case False
      then have m: "sd_mem ?t = sd_mem s @ [c]" "sd_disk ?t = sd_mem s @ [c]"
        unfolding eq by (simp_all add: publish_schedules_def)
      have "distinct (map sc_id (sd_mem ?t))"
        using wf assms(2) c(1) by (auto simp: m recs_wf_def)
      moreover have "(\<exists>b\<in>recs s. carried (set (sd_in_flight s)) b d)
          \<or> (sc_id d \<notin> run_ids ?t \<and> (sc_one_time d \<longrightarrow> sc_trigger d = None))" if "d \<in> recs ?t" for d
      proof (cases "d = c")
        case True
        then show ?thesis using assms(2) c by (simp add: ids)
      next
        case False
        then have "d \<in> recs s" using that by (auto simp: recs_def m)
        then show ?thesis using carried_refl by blast
      qed
      ultimately show ?thesis by (simp add: carries_def m)
    qed
    then show ?thesis using published_inv assms(1) 2(2) by blast
  qed (use assms in simp)
qed

lemma replaced_inv:
  assumes "sched_inv s" "find (\<lambda>c. sc_id c = i) (sd_mem s) = Some c" "carried (set (sd_in_flight s)) c d"
    and "publish_schedules fault (update_first (\<lambda>c. sc_id c = i) (\<lambda>_. [d]) (sd_mem s)) s = (ok, t)"
  shows "sched_inv t"
proof -
  have wf: "recs_wf s" using assms(1) by (simp add: sched_inv_def)
  have c: "c \<in> set (sd_mem s)" "sc_id c = i" using assms(2) by (auto simp: find_Some_iff)
  have "list_all2 (carried (set (sd_in_flight s))) (sd_mem s) (update_first (\<lambda>c. sc_id c = i) (\<lambda>_. [d]) (sd_mem s))"
  proof (rule update_first_all2)
    fix x assume "x \<in> set (sd_mem s)" "sc_id x = i"
    then have "x = c" using wf c distinct_map_key_unique [of sc_id "sd_mem s" x c] by (simp add: recs_wf_def)
    then show "\<exists>y. [d] = [y] \<and> carried (set (sd_in_flight s)) x y" using assms(3) by simp
  qed
  then show ?thesis
    using carries_publish_all2 [OF wf refl refl _ assms(4)] published_inv [OF assms(1) _ assms(4)] by blast
qed

lemma reset_inv:
  assumes "sched_inv s"
  shows "sched_inv (snd (reset_failures fault i s))" (is "sched_inv ?t")
proof -
  consider "?t = s"
    | c where "find (\<lambda>c. sc_id c = i) (sd_mem s) = Some c"
        "?t = snd (publish_schedules fault (update_first (\<lambda>c. sc_id c = i)
           (\<lambda>_. [(handle_success c)\<lparr>sc_revision := sc_revision c + 1, sc_exec_revision := sc_exec_revision c + 1\<rparr>]) (sd_mem s)) s)"
    by (cases "find (\<lambda>c. sc_id c = i) (sd_mem s)") (auto simp: reset_failures_def split_beta Let_def)
  then show ?thesis
  proof cases
    case (2 c)
    show ?thesis unfolding 2(2)
      by (rule replaced_inv [OF assms 2(1) _ publish_pair]) (simp add: carried_def handle_success_def)
  qed (use assms in simp)
qed

lemma edited_frame [simp]:
  "sc_id (edited e c) = sc_id c" "sc_generation (edited e c) = sc_generation c"
  "sc_exec_revision (edited e c) = sc_exec_revision c" "sc_one_time (edited e c) = sc_one_time c"
  "sc_action (edited e c) = sc_action c" "sc_trigger (edited e c) = sc_trigger c"
  "sc_inert_reason (edited e c) = sc_inert_reason c" "sc_run_started_at (edited e c) = sc_run_started_at c"
  by (simp_all add: edited_def with_retries_def)

lemma retimed_frame:
  assumes "retimed io now m c = Inr d"
  shows "sc_id d = sc_id c" "sc_generation d = sc_generation c" "sc_exec_revision d = sc_exec_revision c"
    "sc_action d = sc_action c" "sc_one_time d \<Longrightarrow> sc_trigger d = None"
  using assms by (auto simp: retimed_def Let_def split: option.splits if_splits prod.splits)

lemma resumed_frame:
  "static_part (resumed_one_time now c) = static_part c"
  "sc_run_started_at (resumed_one_time now c) = sc_run_started_at c"
  by (simp_all add: resumed_one_time_def) (simp add: quarantine_schedule_def)

lemma recomputed_frame:
  assumes "recomputed io now c = Inr d"
  shows "static_part d = static_part c" "sc_run_started_at d = sc_run_started_at c"
    "sc_paused d = sc_paused c" "sc_inert_reason d = sc_inert_reason c"
  using assms by (auto simp: recomputed_def static_part_def split: option.splits)

lemma retime_frame:
  assumes "retime io now e resumed c = Inr d"
  shows "sc_id d = sc_id c" "sc_generation d = sc_generation c" "sc_exec_revision d = sc_exec_revision c"
    "sc_action d = sc_action c" "(sc_one_time c \<longrightarrow> sc_trigger c = None) \<Longrightarrow> sc_one_time d \<Longrightarrow> sc_trigger d = None"
    "\<not> new_timing (ed_timing e) \<Longrightarrow> static_part d = static_part c \<and> sc_run_started_at d = sc_run_started_at c"
  using assms retimed_frame [of io now "ed_timing e" c d] recomputed_frame [of io now c d] resumed_frame [of now c]
  unfolding retime_def by (auto simp: static_part_def split: if_splits)

lemma same_execution_frame:
  assumes "same_execution c d"
  shows "sc_one_time c = sc_one_time d" "sc_run_started_at c = sc_run_started_at d"
    "sc_exec_revision c = sc_exec_revision d" "sc_paused c = sc_paused d" "sc_next_run c = sc_next_run d"
    "sc_retry_at c = sc_retry_at d" "sc_last_run c = sc_last_run d" "sc_retry_count c = sc_retry_count d"
proof -
  let ?n = "\<lambda>c. c\<lparr>sc_description := [], sc_revision := 0, sc_body := [], sc_trigger := None\<rparr>"
  have e: "?n c = ?n d" using assms unfolding same_execution_def by blast
  show "sc_one_time c = sc_one_time d" using arg_cong [OF e, of sc_one_time] by simp
  show "sc_run_started_at c = sc_run_started_at d" using arg_cong [OF e, of sc_run_started_at] by simp
  show "sc_exec_revision c = sc_exec_revision d" using arg_cong [OF e, of sc_exec_revision] by simp
  show "sc_paused c = sc_paused d" using arg_cong [OF e, of sc_paused] by simp
  show "sc_next_run c = sc_next_run d" using arg_cong [OF e, of sc_next_run] by simp
  show "sc_retry_at c = sc_retry_at d" using arg_cong [OF e, of sc_retry_at] by simp
  show "sc_last_run c = sc_last_run d" using arg_cong [OF e, of sc_last_run] by simp
  show "sc_retry_count c = sc_retry_count d" using arg_cong [OF e, of sc_retry_count] by simp
qed

lemma build_update_carried:
  assumes "build_update io now e c = Inr d"
  shows "carried G c d"
proof -
  define resumed where "resumed = (is_paused c \<and> sc_paused (edited e c) = Some False)"
  obtain b where b: "retime io now e resumed (edited e c) = Inr b"
    and d: "d = (let c2 = (if resumed \<and> \<not> sc_one_time b then b\<lparr>sc_retry_at := None\<rparr> else b)\<lparr>sc_revision := sc_revision c + 1\<rparr>
                 in if same_execution c2 c then c2 else c2\<lparr>sc_exec_revision := sc_exec_revision c + 1\<rparr>)"
    using assms unfolding build_update_def resumed_def Let_def by (auto split: option.splits sum.splits)
  define c2 where "c2 = (if resumed \<and> \<not> sc_one_time b then b\<lparr>sc_retry_at := None\<rparr> else b)\<lparr>sc_revision := sc_revision c + 1\<rparr>"
  note fr = retime_frame [OF b]
  have c2: "sc_id c2 = sc_id c" "sc_generation c2 = sc_generation c" "sc_action c2 = sc_action c"
    "sc_one_time c2 = sc_one_time b" "sc_trigger c2 = sc_trigger b"
    using fr(1-4) by (simp_all add: c2_def)
  show ?thesis
  proof (cases "same_execution c2 c")
    case True
    then have "d = c2" using d by (simp add: c2_def)
    then show ?thesis
      using c2 fr(5) same_execution_frame [OF True] by (simp add: carried_def)
  next
    case False
    then have "d = c2\<lparr>sc_exec_revision := sc_exec_revision c + 1\<rparr>" using d by (simp add: c2_def)
    then show ?thesis using c2 fr(5) by (simp add: carried_def)
  qed
qed

lemma update_effect:
  obtains "snd (update_schedule io conn now fault i e s) = s"
    | c d where "find (\<lambda>c. sc_id c = i) (sd_mem s) = Some c" "build_update io now e c = Inr d"
        "snd (update_schedule io conn now fault i e s)
         = snd (publish_schedules fault (update_first (\<lambda>c. sc_id c = i) (\<lambda>_. [d]) (sd_mem s)) s)"
proof (cases "(case ed_timezone e of None \<Rightarrow> None | Some z \<Rightarrow> validate_timezone io z)")
  case None
  show ?thesis
  proof (cases "find (\<lambda>c. sc_id c = i) (sd_mem s)")
    case nf: None
    show ?thesis by (rule that(1)) (simp add: update_schedule_def None nf)
  next
    case c: (Some c)
    show ?thesis
    proof (cases "build_update io now e c")
      case (Inl err)
      show ?thesis by (rule that(1)) (simp add: update_schedule_def None c Inl)
    next
      case (Inr d)
      show ?thesis
      proof (cases "is_paused c \<and> sc_paused d = Some False \<and> admitted_epoch conn d = Inl ()")
        case True
        show ?thesis by (rule that(1)) (use True in \<open>simp add: update_schedule_def None c Inr\<close>)
      next
        case False
        have "snd (update_schedule io conn now fault i e s)
            = snd (publish_schedules fault (update_first (\<lambda>c. sc_id c = i) (\<lambda>_. [d]) (sd_mem s)) s)"
          unfolding update_schedule_def None c Inr option.case sum.case if_not_P [OF False] Let_def split_beta snd_conv ..
        then show ?thesis using that(2) [OF c Inr] by blast
      qed
    qed
  qed
next
  case (Some err)
  show ?thesis by (rule that(1)) (simp add: update_schedule_def Some)
qed

lemma update_inv:
  assumes "sched_inv s"
  shows "sched_inv (snd (update_schedule io conn now fault i e s))" (is "sched_inv ?t")
proof -
  consider "?t = s"
    | c d where "find (\<lambda>c. sc_id c = i) (sd_mem s) = Some c" "build_update io now e c = Inr d"
        "?t = snd (publish_schedules fault (update_first (\<lambda>c. sc_id c = i) (\<lambda>_. [d]) (sd_mem s)) s)"
    by (rule update_effect) blast+
  then show ?thesis
  proof cases
    case 2
    show ?thesis unfolding 2(3) using replaced_inv [OF assms 2(1) build_update_carried [OF 2(2)] publish_pair] .
  qed (use assms in simp)
qed

lemma delete_inv:
  assumes "sched_inv s"
  shows "sched_inv (snd (delete_schedule fault i s))" (is "sched_inv ?t")
proof -
  have wf: "recs_wf s" using assms by (simp add: sched_inv_def)
  consider "?t = s" | "?t = snd (publish_schedules fault (filter (\<lambda>c. sc_id c \<noteq> i) (sd_mem s)) s)"
    by (cases "length (filter (\<lambda>c. sc_id c \<noteq> i) (sd_mem s)) = length (sd_mem s)") (auto simp: delete_schedule_def Let_def)
  then show ?thesis
  proof cases
    case 2
    have "carries (set (sd_in_flight s)) s ?t" unfolding 2
      using wf by (intro carries_publish [OF wf refl refl _ _ publish_pair])
        (auto simp: recs_wf_def distinct_map_filter intro: carried_refl)
    then show ?thesis unfolding 2 by (rule published_inv [OF assms _ publish_pair])
  qed (use assms in simp)
qed

section \<open>New executions\<close>

definition run_lanes :: "execution list \<Rightarrow> string list" where
  "run_lanes rs = concat (map (\<lambda>r. case ex_lane r of None \<Rightarrow> [] | Some l \<Rightarrow> [l]) rs)"

lemma busy_run_lanes: "busy_lanes s = run_lanes (sd_runs s)"
  by (simp add: busy_lanes_def run_lanes_def)

lemma run_lanes_Cons: "run_lanes (r # rs) = (case ex_lane r of None \<Rightarrow> [] | Some l \<Rightarrow> [l]) @ run_lanes rs"
  by (simp add: run_lanes_def)

text \<open>Executions \<open>rs\<close> reserved in turn from the state \<open>s\<close>; \<open>t\<close> is the state after.\<close>

definition reserved :: "scheduler \<Rightarrow> execution list \<Rightarrow> scheduler \<Rightarrow> bool" where
  "reserved s rs t \<longleftrightarrow>
     sd_mem t = sd_mem s \<and> sd_disk t = sd_disk s \<and> sd_runs t = sd_runs s \<and> sd_in_flight t = sd_in_flight s
     \<and> map ex_key rs = [sd_next s..<sd_next t] \<and> sd_next s \<le> sd_next t \<and> (\<forall>r\<in>set rs. ex_phase r = Waiting)"

lemma reserved_Nil [simp]: "reserved s [] s"
  by (simp add: reserved_def)

lemma reserved_Cons:
  assumes "reserve epoch lane preserve before after s = (s1, r)" "reserved s1 rs t"
  shows "reserved s (r # rs) t"
  using assms by (auto simp: reserve_def reserved_def upt_conv_Cons)

lemma reserve_run:
  assumes "reserve epoch lane preserve before after s = (s1, r)"
  shows "ex_schedule r = after" "ex_lane r = lane" "busy_lanes s1 = busy_lanes s"
  using assms by (auto simp: reserve_def busy_lanes_def)

lemma wf_append:
  assumes "runs_wf s" "reserved s rs u" "distinct (run_lanes rs)" "set (run_lanes rs) \<inter> set (busy_lanes s) = {}"
    and "sd_runs t = sd_runs s @ rs" "sd_in_flight t = sd_in_flight s" "sd_next t = sd_next u"
  shows "runs_wf t"
proof -
  have inv: "distinct (run_keys s)" "\<forall>k\<in>set (run_keys s). k < sd_next s" "distinct (guarded s)"
    "set (sd_in_flight s) = set (guarded s)" "distinct (busy_lanes s)"
    using assms(1) by (auto simp: runs_wf_def)
  have rs: "map ex_key rs = [sd_next s..<sd_next u]" "sd_next s \<le> sd_next u" "\<forall>r\<in>set rs. \<not> guarding r"
    using assms(2) by (auto simp: reserved_def guarding_def)
  have "run_keys t = run_keys s @ [sd_next s..<sd_next u]" using rs(1) by (simp add: run_keys_def assms(5))
  moreover have "guarded t = guarded s" using rs(3) by (simp add: guarded_def assms(5) filter_False)
  moreover have "busy_lanes t = busy_lanes s @ run_lanes rs" by (simp add: busy_run_lanes assms(5)) (simp add: run_lanes_def)
  moreover have "distinct (run_keys s @ [sd_next s..<sd_next u])" using inv(1,2) by auto
  moreover have "\<forall>k\<in>set (run_keys s @ [sd_next s..<sd_next u]). k < sd_next u" using inv(2) rs(2) by auto
  moreover have "distinct (busy_lanes s @ run_lanes rs)" using inv(5) assms(3,4) by auto
  ultimately show ?thesis using inv(3,4) assms(6,7) by (simp only: runs_wf_def)
qed

lemma inv_append:
  assumes "sched_inv s" "carries (set (sd_in_flight s)) s v" "reserved s rs u"
    and "distinct (run_lanes rs)" "set (run_lanes rs) \<inter> set (busy_lanes s) = {}"
    and "\<And>r. r \<in> set rs \<Longrightarrow> static_part (ex_schedule r) \<in> static_part ` set (sd_mem v)"
    and "sd_runs v = sd_runs s" "sd_in_flight v = sd_in_flight s" "sd_next v = sd_next u"
    and "t = v\<lparr>sd_runs := sd_runs v @ rs\<rparr>"
    and "\<And>d. d \<in> recs v \<Longrightarrow> \<exists>c\<in>recs s. carried (set (sd_in_flight s)) c d"
  shows "sched_inv t"
proof -
  have t: "sd_runs t = sd_runs s @ rs" "sd_in_flight t = sd_in_flight s" "sd_next t = sd_next u"
    "sd_mem t = sd_mem v" "sd_disk t = sd_disk v" "recs t = recs v"
    using assms(7-10) by (simp_all add: recs_def)
  have "carries (set (sd_in_flight t)) s t"
    using assms(2,11) by (simp add: carries_def t)
  moreover have "runs_wf t"
    using assms(1) by (intro wf_append [OF _ assms(3-5) t(1-3)]) (simp add: sched_inv_def)
  moreover have "run_from s t q" if q: "q \<in> set (sd_runs t)" for q
  proof (cases "q \<in> set (sd_runs s)")
    case False
    then have "q \<in> set rs" using q t(1) by simp
    then have "\<not> begun q" "static_part (ex_schedule q) \<in> static_part ` set (sd_mem t)"
      using assms(3,6) t(4) by (auto simp: reserved_def begun_def)
    then show ?thesis by (simp add: run_from_def)
  qed (rule run_from_same)
  ultimately show ?thesis by (rule inv_step [OF assms(1)])
qed

end
