(* ===== verification/Scheduler_Tick.thy ===== *)
theory Scheduler_Tick
  imports Scheduler_Exclusion
begin

text \<open>
  Reservations of the loop, of manual runs and of triggers, and the invariant of every reachable state.
\<close>

section \<open>Reserving and saving\<close>

lemma reserved_inv:
  assumes "sched_inv s" "reserved s rs u"
  shows "sched_inv u"
proof -
  have u: "sd_mem u = sd_mem s" "sd_disk u = sd_disk s" "sd_runs u = sd_runs s" "sd_in_flight u = sd_in_flight s"
    "sd_next s \<le> sd_next u"
    using assms(2) by (simp_all add: reserved_def)
  have "recs u = recs s" by (simp add: recs_def u)
  moreover have "runs_wf u"
    using assms(1) u(5) by (fastforce simp: sched_inv_def runs_wf_def run_keys_def guarded_def busy_lanes_def u(3,4))
  moreover have "recs_wf u" using assms(1) by (simp add: sched_inv_def recs_wf_def u \<open>recs u = recs s\<close>)
  ultimately show ?thesis using assms(1) by (simp add: sched_inv_def links_wf_def u)
qed

definition save_and_start :: "bool \<Rightarrow> schedule list \<Rightarrow> execution list \<Rightarrow> scheduler \<Rightarrow> scheduler" where
  "save_and_start fault candidate rs u =
     (let (ok, v) = publish_schedules fault candidate u in if ok then v\<lparr>sd_runs := sd_runs v @ rs\<rparr> else v)"

lemma save_and_start_cases:
  "save_and_start fault candidate rs u =
     (if fault then u else u\<lparr>sd_mem := candidate, sd_disk := candidate, sd_runs := sd_runs u @ rs\<rparr>)"
  by (simp add: save_and_start_def publish_schedules_def)

lemma start_inv:
  assumes "sched_inv s" "reserved s rs u" "list_all2 (carried (set (sd_in_flight s))) (sd_mem s) candidate"
    and "distinct (run_lanes rs)" "set (run_lanes rs) \<inter> set (busy_lanes s) = {}"
    and "\<And>r. r \<in> set rs \<Longrightarrow> static_part (ex_schedule r) \<in> static_part ` set candidate"
  shows "sched_inv (save_and_start fault candidate rs u)"
proof (cases fault)
  case True
  then show ?thesis using reserved_inv [OF assms(1,2)] by (simp add: save_and_start_cases)
next
  case False
  let ?v = "u\<lparr>sd_mem := candidate, sd_disk := candidate\<rparr>"
  have wf: "recs_wf s" using assms(1) by (simp add: sched_inv_def)
  have u: "sd_mem u = sd_mem s" "sd_disk u = sd_disk s" "sd_runs u = sd_runs s" "sd_in_flight u = sd_in_flight s"
    using assms(2) by (simp_all add: reserved_def)
  have "publish_schedules False candidate u = (True, ?v)" by (simp add: publish_schedules_def)
  then have "carries (set (sd_in_flight s)) s ?v"
    by (rule carries_publish_all2 [OF wf u(1,2) assms(3)])
  moreover have "\<exists>c\<in>recs s. carried (set (sd_in_flight s)) c d" if "d \<in> recs ?v" for d
    using that list_all2_carried(2) [OF assms(3)] by (auto simp: recs_def)
  ultimately have "sched_inv (?v\<lparr>sd_runs := sd_runs ?v @ rs\<rparr>)"
    using inv_append [OF assms(1) _ assms(2,4,5), of ?v] assms(6) u by simp
  then show ?thesis using False by (simp add: save_and_start_cases)
qed

section \<open>Manual runs\<close>

lemma reserve_now_effect:
  "snd (reserve_now now fault i epoch c s) =
     (let c' = c\<lparr>sc_last_run := Some now\<rparr>
      in save_and_start fault (map (\<lambda>d. if sc_id d = i then c' else d) (sd_mem s))
           [snd (reserve epoch None False c c' s)] (fst (reserve epoch None False c c' s)))"
  by (simp add: reserve_now_def Let_def split_beta save_and_start_def publish_schedules_def)

lemma run_now_effect:
  obtains "snd (run_now conn now fault fault2 i s) = s"
    | c0 where "find (\<lambda>c. sc_id c = i) (sd_mem s) = Some c0"
        "snd (run_now conn now fault fault2 i s) = snd (resolve_first fault i c0 s)"
    | c0 c epoch where "find (\<lambda>c. sc_id c = i) (sd_mem s) = Some c0" "c = snd (resolved_now i s c0)"
        "i \<notin> set (sd_in_flight s)" "sc_inert_reason c = None \<or> sc_inert_reason c = Some []"
        "snd (run_now conn now fault fault2 i s) = snd (reserve_now now fault2 i epoch c (snd (resolve_first fault i c0 s)))"
proof (cases "find (\<lambda>c. sc_id c = i) (sd_mem s)")
  case None
  then show ?thesis using that(1) by (simp add: run_now_def)
next
  case (Some c0)
  define c where "c = snd (resolved_now i s c0)"
  obtain ok s2 where q: "resolve_first fault i c0 s = (ok, s2)" by (cases "resolve_first fault i c0 s")
  have eq: "run_now conn now fault fault2 i s =
      (if \<not> ok then (Inl Save_failed, s2)
       else if sc_inert_reason c \<noteq> None \<and> sc_inert_reason c \<noteq> Some [] then (Inl (Inert (the (sc_inert_reason c))), s2)
       else if requires_connection c \<and> \<not> sd_callback s2 then (Inl (Invalid ''Scheduler callback not configured''), s2)
       else if i \<in> set (sd_in_flight s) then (Inr Skipped, s2)
       else case admitted_epoch conn c of
              Inl _ \<Rightarrow> (Inl Offline, s2)
            | Inr epoch \<Rightarrow> reserve_now now fault2 i epoch c s2)"
    unfolding run_now_def Some option.case Let_def c_def [symmetric] q prod.case ..
  show ?thesis
  proof (cases "ok \<and> (sc_inert_reason c = None \<or> sc_inert_reason c = Some [])
      \<and> \<not> (requires_connection c \<and> \<not> sd_callback s2) \<and> i \<notin> set (sd_in_flight s) \<and> admitted_epoch conn c \<noteq> Inl ()")
    case True
    then obtain epoch where e: "admitted_epoch conn c = Inr epoch" by (cases "admitted_epoch conn c") auto
    have "run_now conn now fault fault2 i s = reserve_now now fault2 i epoch c s2"
      using True unfolding eq by (auto simp: e)
    then show ?thesis using that(3) [OF Some c_def] True q by simp
  next
    case False
    then have "snd (run_now conn now fault fault2 i s) = s2"
      unfolding eq by (cases "admitted_epoch conn c") auto
    then show ?thesis using that(2) [OF Some] q by simp
  qed
qed

lemma resolved_static: "static_part (snd (resolved_now i s c)) = static_part c"
  by (simp add: resolved_now_def)

lemma update_first_static:
  assumes "\<And>c. c \<in> set xs \<Longrightarrow> p c \<Longrightarrow> map static_part (f c) = [static_part c]"
  shows "map static_part (update_first p f xs) = map static_part xs"
  using assms by (induction xs) auto

lemma update_first_makes: "c \<in> set xs \<Longrightarrow> p c \<Longrightarrow> d \<in> set (update_first p (\<lambda>_. [d]) xs)"
  by (induction xs) auto

lemma resolve_first_inv:
  assumes "sched_inv s" "find (\<lambda>c. sc_id c = i) (sd_mem s) = Some c0"
  shows "sched_inv (snd (resolve_first fault i c0 s))" (is "sched_inv ?t")
    and "sd_mem (snd (resolve_first fault i c0 s)) =
           update_first (\<lambda>c. sc_id c = i) (\<lambda>_. [snd (resolved_now i s c0)]) (sd_mem s)" (is "_ = ?mem")
    and "sd_runs (snd (resolve_first fault i c0 s)) = sd_runs s" "sd_in_flight (snd (resolve_first fault i c0 s)) = sd_in_flight s"
proof -
  have wf: "recs_wf s" using assms(1) by (simp add: sched_inv_def)
  let ?c = "snd (resolved_now i s c0)" and ?G = "set (sd_in_flight s)"
  have c0: "c0 \<in> set (sd_mem s)" "sc_id c0 = i" using assms(2) by (auto simp: find_Some_iff)
  have fr: "sd_mem ?t = ?mem" "sd_disk ?t = sd_disk s \<or> sd_disk ?t = ?mem" "sd_runs ?t = sd_runs s"
    "sd_in_flight ?t = sd_in_flight s" "sd_next ?t = sd_next s"
    by (auto simp: resolve_first_def Let_def split_beta publish_schedules_def)
  then show "sd_mem ?t = ?mem" "sd_runs ?t = sd_runs s" "sd_in_flight ?t = sd_in_flight s" by blast+
  have "carried ?G c0 ?c"
    using static_carried [OF resolved_static, of c0 ?G i s] c0(2) by (auto simp: resolved_now_def)
  moreover have uniq: "x = c0" if "x \<in> set (sd_mem s)" "sc_id x = i" for x
    using that wf c0 distinct_map_key_unique [of sc_id "sd_mem s" x c0] by (simp add: recs_wf_def)
  ultimately have all2: "list_all2 (carried ?G) (sd_mem s) ?mem"
    by (intro update_first_all2) blast
  have "map static_part ?mem = map static_part (sd_mem s)"
  proof (rule update_first_static)
    show "map static_part [?c] = [static_part x]" if "x \<in> set (sd_mem s)" "sc_id x = i" for x
      using uniq [OF that] by (simp add: resolved_static)
  qed
  then have static: "map static_part (sd_mem ?t) = map static_part (sd_disk ?t)"
    and ids: "map sc_id (sd_mem ?t) = map sc_id (sd_mem s)"
    using wf fr(1,2) static_ids [of ?mem "sd_mem s"] by (auto simp: recs_wf_def)
  have "\<exists>c\<in>recs s. carried ?G c d" if "d \<in> recs ?t" for d
  proof (cases "d \<in> set ?mem")
    case True
    then show ?thesis using list_all2_carried(2) [OF all2] by (auto simp: recs_def)
  next
    case False
    then have "d \<in> recs s" using that fr(1,2) by (auto simp: recs_def)
    then show ?thesis using carried_refl by blast
  qed
  then have "carries ?G s ?t" using static ids wf by (simp add: carries_def recs_wf_def)
  then show "sched_inv ?t" using inv_step_runs_kept [OF assms(1)] fr by blast
qed

lemma run_now_inv:
  assumes "sched_inv s"
  shows "sched_inv (snd (run_now conn now fault fault2 i s))"
proof (rule run_now_effect [of conn now fault fault2 i s])
  fix c0 assume "find (\<lambda>c. sc_id c = i) (sd_mem s) = Some c0"
    "snd (run_now conn now fault fault2 i s) = snd (resolve_first fault i c0 s)"
  then show ?thesis using resolve_first_inv(1) [OF assms] by simp
next
  fix c0 c :: schedule and epoch
  let ?s2 = "snd (resolve_first fault i c0 s)" and ?c' = "c\<lparr>sc_last_run := Some now\<rparr>"
  let ?u = "fst (reserve epoch None False c ?c' ?s2)" and ?r = "snd (reserve epoch None False c ?c' ?s2)"
  let ?candidate = "map (\<lambda>d. if sc_id d = i then ?c' else d) (sd_mem ?s2)"
  assume f: "find (\<lambda>c. sc_id c = i) (sd_mem s) = Some c0" and c: "c = snd (resolved_now i s c0)"
    and eq: "snd (run_now conn now fault fault2 i s) = snd (reserve_now now fault2 i epoch c ?s2)"
  note r = resolve_first_inv [OF assms f]
  have c0: "c0 \<in> set (sd_mem s)" "sc_id c0 = i" using f by (auto simp: find_Some_iff)
  have c_in: "c \<in> set (sd_mem ?s2)"
    unfolding r(2) c using c0 by (rule update_first_makes)
  have ci: "sc_id c = i" using static_id [OF resolved_static [of i s c0]] c c0 by simp
  have uniq: "d = c" if "d \<in> set (sd_mem ?s2)" "sc_id d = i" for d
    using that c_in ci r(1) distinct_map_key_unique [of sc_id "sd_mem ?s2" d c] by (simp add: sched_inv_def recs_wf_def)
  have "carried G c ?c'" for G by (simp add: carried_def)
  then have all2: "list_all2 (carried (set (sd_in_flight ?s2))) (sd_mem ?s2) ?candidate"
    using uniq by (auto simp: list_all2_map2 list_all2_same)
  have rs: "reserved ?s2 [?r] ?u"
    by (rule reserved_Cons [OF prod.collapse [symmetric] reserved_Nil])
  have run: "ex_schedule ?r = ?c'" "ex_lane ?r = None"
    by (rule reserve_run [OF prod.collapse [symmetric]])+
  have "?c' \<in> set ?candidate" using c_in ci by force
  then have "sched_inv (save_and_start fault2 ?candidate [?r] ?u)"
    using run by (intro start_inv [OF r(1) rs all2]) (auto simp: run_lanes_def)
  then show ?thesis unfolding eq reserve_now_effect Let_def .
qed (use assms in simp)

section \<open>Triggers\<close>

lemma reserve_matched_frame:
  assumes "reserve_matched conn now fires cs s = (cs', rs, t)"
  shows "reserved s rs t" "list_all2 (carried G) cs cs'" "run_lanes rs = []"
    "\<forall>r\<in>set rs. ex_schedule r \<in> set cs' \<and> (\<exists>c\<in>set cs. fires c \<and> sc_id c = run_id r)"
  using assms
proof (induction cs arbitrary: cs' rs s t)
  case Nil
  {
    case 1 then show ?case by simp
  next
    case 2 then show ?case by simp
  next
    case 3 then show ?case by (simp add: run_lanes_def)
  next
    case 4 then show ?case by simp
  }
next
  case (Cons c cs)
  have ex: "\<exists>cs1 rs1 s1 c1. cs' = c1 # cs1 \<and> carried G c c1
      \<and> ((\<not> fires c \<and> rs = rs1 \<and> s1 = s)
         \<or> (fires c \<and> (\<exists>r epoch. rs = r # rs1 \<and> reserve epoch None False c c1 s = (s1, r) \<and> sc_id c1 = sc_id c)))
      \<and> reserve_matched conn now fires cs s1 = (cs1, rs1, t)"
    if "reserve_matched conn now fires (c # cs) s = (cs', rs, t)" for cs' rs s t
    using that
    by (cases "fires c") (auto simp: Let_def carried_def split: prod.splits, blast)
  {
    case 1
    from ex [OF this] show ?case using Cons.IH(1) by (auto intro: reserved_Cons)
  next
    case 2
    from ex [OF this] show ?case using Cons.IH(2) by auto
  next
    case 3
    from ex [OF this] show ?case using Cons.IH(3) by (auto simp: run_lanes_Cons dest: reserve_run)
  next
    case 4
    from ex [OF this] show ?case using Cons.IH(4) by (fastforce simp: run_id_def dest: reserve_run)
  }
qed

lemma fire_triggers_effect:
  "snd (fire_triggers conn now fault source event s) =
     (if source \<in> set REMOVED_TRIGGER_SOURCES then s
      else let (candidate, rs, u) = reserve_matched conn now (trigger_fires conn source event s) (sd_mem s) s
           in if rs = [] then u else save_and_start fault candidate rs u)"
  by (auto simp: fire_triggers_def save_and_start_def Let_def split: prod.splits)

lemma fire_triggers_inv:
  assumes "sched_inv s"
  shows "sched_inv (snd (fire_triggers conn now fault source event s))"
proof (cases "source \<in> set REMOVED_TRIGGER_SOURCES")
  case True
  then show ?thesis using assms by (simp add: fire_triggers_effect)
next
  case False
  obtain candidate rs u where m: "reserve_matched conn now (trigger_fires conn source event s) (sd_mem s) s = (candidate, rs, u)"
    by (metis prod_cases3)
  note fr = reserve_matched_frame [OF m]
  have "sched_inv (save_and_start fault candidate rs u)"
    using fr by (intro start_inv [OF assms fr(1,2)]) auto
  then show ?thesis using False reserved_inv [OF assms fr(1)] by (simp add: fire_triggers_effect m)
qed

section \<open>The loop\<close>

lemma fired_frame:
  assumes "fired io now retry c = Some d"
  shows "static_part d = static_part c" "carried G c d"
  using assms by (auto simp: fired_def Let_def static_part_def carried_def split: option.splits if_splits)

lemma due_order_class:
  assumes "(i, retry) \<in> set (due_order ds)"
  shows "i < length ds \<and> (\<exists>t. ds ! i = Due t retry)"
  using assms by (auto simp: due_order_def in_set_enumerate_eq split: due_class.splits)

lemma reserve_due_frame:
  assumes "reserve_due io conn now due busy candidate s = (candidate', rs, t)"
    and "\<forall>(i, retry)\<in>set due. i < length candidate"
  shows "reserved s rs t" "list_all2 (carried G) candidate candidate'" "map static_part candidate' = map static_part candidate"
    "distinct (run_lanes rs)" "set (run_lanes rs) \<inter> set busy = {}"
    "\<forall>r\<in>set rs. \<exists>i retry. (i, retry) \<in> set due \<and> static_part (ex_schedule r) = static_part (candidate ! i)"
proof -
  have "reserved s rs t \<and> list_all2 (carried G) candidate candidate' \<and> map static_part candidate' = map static_part candidate
      \<and> distinct (run_lanes rs) \<and> set (run_lanes rs) \<inter> set busy = {}
      \<and> (\<forall>r\<in>set rs. \<exists>i retry. (i, retry) \<in> set due \<and> static_part (ex_schedule r) = static_part (candidate ! i))"
    using assms
  proof (induction due arbitrary: busy candidate s candidate' rs)
    case Nil
    then show ?case by (simp add: run_lanes_def list.rel_refl)
  next
    case (Cons p due)
    obtain i retry where p: "p = (i, retry)" by (cases p)
    have i: "i < length candidate" and due: "\<forall>(i, retry)\<in>set due. i < length candidate"
      using Cons.prems(2) p by auto
    let ?c = "candidate ! i"
    show ?case
    proof (cases "schedule_lane ?c \<in> set busy \<or> fired io now retry ?c = None")
      case True
      then have "reserve_due io conn now due busy candidate s = (candidate', rs, t)"
        using Cons.prems(1) unfolding p reserve_due.simps Let_def by (cases "schedule_lane ?c \<in> set busy") simp_all
      from Cons.IH [OF this due] show ?thesis unfolding p list.set insert_iff by blast
    next
      case False
      then obtain c' where c': "fired io now retry ?c = Some c'" and nb: "schedule_lane ?c \<notin> set busy" by auto
      let ?epoch = "if requires_connection ?c then Some (cn_epoch conn) else None"
      let ?keep = "\<not> retry \<and> sc_cron ?c \<noteq> None \<and> sc_cron ?c \<noteq> Some []"
      obtain s1 r where r: "reserve ?epoch (Some (schedule_lane ?c)) ?keep ?c c' s = (s1, r)"
        by (cases "reserve ?epoch (Some (schedule_lane ?c)) ?keep ?c c' s")
      obtain cs1 rs1 where rest: "reserve_due io conn now due (schedule_lane ?c # busy) (candidate[i := c']) s1 = (cs1, rs1, t)"
        and out: "candidate' = cs1" "rs = r # rs1"
        using Cons.prems(1) unfolding p reserve_due.simps Let_def if_not_P [OF nb] c' option.case r prod.case
        by (auto split: prod.splits)
      have "\<forall>(j, retry)\<in>set due. j < length (candidate[i := c'])" using due by simp
      note ih = Cons.IH [OF rest this]
      note run = reserve_run [OF r] and fr = fired_frame [OF c']
      have "list_all2 (carried G) candidate (candidate[i := c'])"
        using fr(2) i by (auto simp: list_all2_conv_all_nth nth_list_update)
      then have "list_all2 (carried G) candidate candidate'"
        using ih out(1) list_all2_trans [of "carried G" "carried G" "carried G"] carried_trans by blast
      moreover have st: "map static_part (candidate[i := c']) = map static_part candidate"
        using fr(1) i by (simp add: map_update list_update_same_conv)
      moreover have "\<exists>j b. (j, b) \<in> set (p # due) \<and> static_part (ex_schedule x) = static_part (candidate ! j)"
        if "x \<in> set rs" for x
      proof (cases "x = r")
        case True
        then show ?thesis using run(1) fr(1) p by auto
      next
        case False
        then have "x \<in> set rs1" using that out(2) by simp
        then obtain j b where j: "(j, b) \<in> set due" "static_part (ex_schedule x) = static_part (candidate[i := c'] ! j)"
          using ih by blast
        then have "static_part (candidate[i := c'] ! j) = static_part (candidate ! j)"
          using fr(1) i due by (auto simp: nth_list_update)
        then show ?thesis using j by auto
      qed
      moreover have "reserved s rs t" using ih out(2) reserved_Cons [OF r] by blast
      moreover have "distinct (run_lanes rs)" "set (run_lanes rs) \<inter> set busy = {}"
        using ih nb unfolding out(2) run_lanes_Cons run(2) by auto
      moreover have "map static_part candidate' = map static_part candidate" using ih st out(1) by simp
      ultimately show ?thesis by blast
    qed
  qed
  then show "reserved s rs t" "list_all2 (carried G) candidate candidate'" "map static_part candidate' = map static_part candidate"
    "distinct (run_lanes rs)" "set (run_lanes rs) \<inter> set busy = {}"
    "\<forall>r\<in>set rs. \<exists>i retry. (i, retry) \<in> set due \<and> static_part (ex_schedule r) = static_part (candidate ! i)"
    by blast+
qed

definition tick_classes :: "sched_io \<Rightarrow> connection \<Rightarrow> py_time \<Rightarrow> scheduler \<Rightarrow> due_class list" where
  "tick_classes io conn now s = map (classify_due io conn now s) (sd_mem s)"

lemma start_due_effect:
  obtains candidate' rs u where
    "reserve_due io conn now (due_order (tick_classes io conn now s)) (busy_lanes s)
       (map (\<lambda>c. settle_scan (classify_due io conn now s c) c) (sd_mem s)) s = (candidate', rs, u)"
    "snd (start_due io conn now fault s) = u \<and> rs = [] \<or> snd (start_due io conn now fault s) = save_and_start fault candidate' rs u"
proof -
  let ?ds = "map (classify_due io conn now s) (sd_mem s)"
  have settle: "map2 settle_scan ?ds (sd_mem s) = map (\<lambda>c. settle_scan (classify_due io conn now s c) c) (sd_mem s)"
    by (simp add: map2_map_map [of _ _ _ id, simplified])
  obtain candidate' rs u where r: "reserve_due io conn now (due_order ?ds) (busy_lanes s)
       (map (\<lambda>c. settle_scan (classify_due io conn now s c) c) (sd_mem s)) s = (candidate', rs, u)"
    by (metis prod_cases3)
  have "snd (start_due io conn now fault s) = u \<and> rs = [] \<or> snd (start_due io conn now fault s) = save_and_start fault candidate' rs u"
    unfolding start_due_def Let_def settle r prod.case
    by (auto simp: save_and_start_def Let_def split: prod.splits)
  then show ?thesis using that r by (simp add: tick_classes_def)
qed

lemma settled_carried:
  assumes "sc_id c \<in> G \<Longrightarrow> sc_id c \<in> set (sd_in_flight s)"
  shows "carried G c (settle_scan (classify_due io conn now s c) c)"
    and "static_part (settle_scan (classify_due io conn now s c) c) = static_part c"
proof -
  have interrupted: "sc_id c \<notin> set (sd_in_flight s)" if "classify_due io conn now s c = Interrupted"
    using that by (auto simp: classify_due_def split: if_splits option.splits stamp.splits)
  show st: "static_part (settle_scan (classify_due io conn now s c) c) = static_part c"
    by (simp add: settle_scan_def split: due_class.split)
  show "carried G c (settle_scan (classify_due io conn now s c) c)"
  proof (cases "classify_due io conn now s c")
    case Interrupted
    then show ?thesis using interrupted assms static_carried [OF st, of G] by blast
  next
    case (Broken why)
    then show ?thesis by (simp add: settle_scan_def carried_def quarantine_schedule_def)
  qed (simp_all add: settle_scan_def)
qed

lemma tick_inv:
  assumes "sched_inv s"
  shows "sched_inv (snd (start_due io conn now fault s))"
proof -
  let ?candidate = "map (\<lambda>c. settle_scan (classify_due io conn now s c) c) (sd_mem s)" and ?G = "set (sd_in_flight s)"
  obtain candidate' rs u where r: "reserve_due io conn now (due_order (tick_classes io conn now s)) (busy_lanes s) ?candidate s
        = (candidate', rs, u)"
    and out: "snd (start_due io conn now fault s) = u \<and> rs = [] \<or> snd (start_due io conn now fault s) = save_and_start fault candidate' rs u"
    by (rule start_due_effect)
  have "\<forall>(i, retry)\<in>set (due_order (tick_classes io conn now s)). i < length ?candidate"
    using due_order_class [of _ _ "tick_classes io conn now s"] by (auto simp: tick_classes_def)
  note fr = reserve_due_frame [OF r this]
  have "list_all2 (carried ?G) (sd_mem s) ?candidate"
    using settled_carried(1) by (simp add: list_all2_map2 list_all2_same)
  then have all2: "list_all2 (carried ?G) (sd_mem s) candidate'"
    using fr(2) list_all2_trans [of "carried ?G" "carried ?G" "carried ?G"] carried_trans by blast
  have "sched_inv (save_and_start fault candidate' rs u)"
    using assms fr(1) all2 fr(4,5)
  proof (rule start_inv)
    fix q assume "q \<in> set rs"
    then obtain i retry where i: "(i, retry) \<in> set (due_order (tick_classes io conn now s))"
        "static_part (ex_schedule q) = static_part (?candidate ! i)"
      using fr(6) by blast
    have "i < length (tick_classes io conn now s)" using due_order_class [OF i(1)] by blast
    then have "i < length ?candidate" by (simp add: tick_classes_def)
    then have "?candidate ! i \<in> set ?candidate" by (rule nth_mem)
    then have "static_part (?candidate ! i) \<in> set (map static_part ?candidate)" unfolding set_map by (rule imageI)
    then show "static_part (ex_schedule q) \<in> static_part ` set candidate'"
      unfolding i(2) fr(3) [symmetric] set_map .
  qed
  then show ?thesis using out reserved_inv [OF assms fr(1)] by auto
qed

section \<open>Every reachable state\<close>

lemma on_run_inv:
  assumes "sched_inv s" "\<And>r. r \<in> set (sd_runs s) \<Longrightarrow> ex_phase r \<in> set ps \<Longrightarrow> sched_inv (f r)"
  shows "sched_inv (on_run k ps f s)"
  using assms by (auto simp: on_run_def dest: take_run_D split: option.splits)

lemma run_steps_inv:
  assumes "sched_inv s"
  shows "sched_inv (on_run k [Waiting] (\<lambda>r. enter_run conn r s) s)"
    "sched_inv (on_run k [Overlapped, Refused] (\<lambda>r. unwind_run fault r s) s)"
    "sched_inv (on_run k [Entered] (\<lambda>r. admit_run fault now r s) s)"
    "sched_inv (on_run k [Effect] (\<lambda>r. finish_run now outcome r s) s)"
    "sched_inv (on_run k [Recording] (\<lambda>r. record_run fault r s) s)"
    "sched_inv (on_run k ps (\<lambda>r. cancel_run r s) s)"
  by (rule on_run_inv [OF assms], simp add: assms enter_inv unwind_inv admit_inv finish_inv record_inv cancel_inv)+

lemma sched_step_inv:
  assumes "sched_inv s" "fresh_event e s"
  shows "sched_inv (sched_step io e s)"
  using assms
  by (cases e) (simp_all add: tick_inv add_inv update_inv reset_inv delete_inv run_now_inv fire_triggers_inv sched_restart_inv
      run_steps_inv)

lemma new_scheduler_inv: "sched_inv new_scheduler"
  by (simp add: sched_inv_def new_scheduler_def runs_wf_def recs_wf_def links_wf_def recs_def run_keys_def guarded_def
      busy_lanes_def)

lemma reachable_inv: "sched_reachable io s \<Longrightarrow> sched_inv s"
  by (induction rule: sched_reachable.induct) (simp_all add: new_scheduler_inv sched_step_inv)

end
