(* ===== verification/Scheduler_Props.thy ===== *)
theory Scheduler_Props
  imports Scheduler_Tick
begin

text \<open>
  What the scheduler promises: exclusive runs, one-time effects that are never repeated, bounded
  retries, edits that fence a run under way, and a loop that never oversleeps.
\<close>

section \<open>Exclusion\<close>

text \<open>
  C17: In every reachable state, whatever the interleaving, no schedule has two executions past the
  overlap guard, the in-flight set is exactly those schedules, and each lane has at most one execution.
\<close>

theorem schedule_runs_exclusive:
  assumes "sched_reachable io s"
  shows "distinct (guarded s) \<and> set (sd_in_flight s) = set (guarded s) \<and> distinct (busy_lanes s)"
  using reachable_inv [OF assms] by (simp add: sched_inv_def runs_wf_def)

section \<open>Schedules that must not run again\<close>

definition spent :: "schedule \<Rightarrow> bool" where
  "spent c \<longleftrightarrow> is_paused c \<and> sc_inert_reason c \<noteq> None \<and> sc_inert_reason c \<noteq> Some []"

definition unfinished :: "schedule \<Rightarrow> bool" where
  "unfinished c \<longleftrightarrow> sc_run_started_at c \<noteq> None \<and> tracks_run_start c \<and> sc_trigger c = None"

definition held :: "schedule \<Rightarrow> bool" where
  "held c \<longleftrightarrow> spent c \<or> unfinished c"

definition held_recs :: "string \<Rightarrow> schedule set \<Rightarrow> bool" where
  "held_recs i C \<longleftrightarrow> (\<forall>c\<in>C. sc_id c = i \<longrightarrow> held c)"

text \<open>Giving the schedule new timing, or a new schedule under its id, arms it again.\<close>

fun rearms :: "string \<Rightarrow> sched_event \<Rightarrow> bool" where
  "rearms i (Add conn now fault a) = (ns_id a = i)"
| "rearms i (Update conn now fault j e) = (j = i \<and> new_timing (ed_timing e))"
| "rearms i e = False"

definition held_part :: "schedule \<Rightarrow> string \<times> bool option \<times> string option \<times> bool \<times> bool \<times> string \<times> json option" where
  "held_part c = (sc_id c, sc_paused c, sc_inert_reason c, sc_run_started_at c \<noteq> None, sc_one_time c, sc_action c, sc_trigger c)"

lemma held_part_held: "held_part d = held_part c \<Longrightarrow> held d = held c \<and> sc_id d = sc_id c"
  by (auto simp: held_part_def held_def spent_def unfinished_def is_paused_def tracks_run_start_def)

lemma held_part_all2:
  assumes "map held_part ys = map held_part xs" "held_recs i (set xs)"
  shows "held_recs i (set ys)"
  unfolding held_recs_def
proof (intro ballI impI)
  fix d assume d: "d \<in> set ys" "sc_id d = i"
  then have "held_part d \<in> set (map held_part xs)" unfolding assms(1) [symmetric] by simp
  then obtain c where "c \<in> set xs" "held_part d = held_part c" by auto
  then show "held d" using assms(2) d(2) held_part_held [of d c] by (auto simp: held_recs_def)
qed

lemma held_recs_un: "held_recs i (A \<union> B) \<longleftrightarrow> held_recs i A \<and> held_recs i B"
  by (auto simp: held_recs_def)

lemma held_publish:
  assumes "held_recs i (recs s)" "held_recs i (set candidate)" "sd_mem u = sd_mem s" "sd_disk u = sd_disk s"
  shows "held_recs i (recs (snd (publish_schedules fault candidate u)))"
    and "held_recs i (recs (save_and_start fault candidate rs u))"
  using assms by (auto simp: publish_schedules_def save_and_start_cases recs_def held_recs_un)

lemma quarantined_held: "why \<noteq> [] \<Longrightarrow> held (quarantine_schedule why c)"
  by (simp add: held_def spent_def is_paused_def quarantine_schedule_def)

lemma quarantined_spent: "spent c \<Longrightarrow> why \<noteq> [] \<Longrightarrow> spent (quarantine_schedule why c)"
  by (simp add: spent_def is_paused_def quarantine_schedule_def)

lemma resolved_spent:
  assumes "held c"
  shows "spent (snd (resolve_interrupted_run c))"
  using assms
  by (auto simp: held_def resolve_interrupted_run_def Let_def spent_def unfinished_def is_paused_def quarantine_schedule_def
      interrupted_reason_def)

lemma spent_held: "spent c \<Longrightarrow> held c"
  by (simp add: held_def)

section \<open>Held schedules stay held\<close>

lemma held_update_first:
  assumes "held_recs i (set xs)" "\<And>c d. c \<in> set xs \<Longrightarrow> p c \<Longrightarrow> d \<in> set (f c) \<Longrightarrow> sc_id d = i \<Longrightarrow> held d"
  shows "held_recs i (set (update_first p f xs))"
  using assms set_update_first [of _ p f xs] unfolding held_recs_def by blast

lemma reserve_due_map:
  assumes "reserve_due io conn now due busy candidate s = (candidate', rs, t)"
    and "\<And>c d b. fired io now b c = Some d \<Longrightarrow> f d = f c"
  shows "map f candidate' = map f candidate"
  using assms(1)
proof (induction due arbitrary: busy candidate s candidate' rs)
  case Nil
  then show ?case by simp
next
  case (Cons p due)
  obtain i retry where p: "p = (i, retry)" by (cases p)
  let ?c = "candidate ! i"
  show ?case
  proof (cases "schedule_lane ?c \<in> set busy \<or> fired io now retry ?c = None")
    case True
    then have "reserve_due io conn now due busy candidate s = (candidate', rs, t)"
      using Cons.prems unfolding p reserve_due.simps Let_def by (cases "schedule_lane ?c \<in> set busy") simp_all
    then show ?thesis by (rule Cons.IH)
  next
    case False
    then obtain c' where c': "fired io now retry ?c = Some c'" and nb: "schedule_lane ?c \<notin> set busy" by auto
    obtain s1 rs1 busy' where "reserve_due io conn now due busy' (candidate[i := c']) s1 = (candidate', rs1, t)"
      using Cons.prems unfolding p reserve_due.simps Let_def if_not_P [OF nb] c' option.case
      by (auto split: prod.splits)
    from Cons.IH [OF this] have "map f candidate' = (map f candidate)[i := f ?c]"
      using assms(2) [OF c'] by (simp add: map_update)
    also have "\<dots> = map f candidate" by (cases "i < length candidate") (simp_all add: list_update_same_conv list_update_beyond)
    finally show ?thesis .
  qed
qed

lemma fired_held_part: "fired io now b c = Some d \<Longrightarrow> held_part d = held_part c"
  by (auto simp: fired_def Let_def held_part_def split: option.splits if_splits)

lemma settled_held:
  assumes "held c"
  shows "held (settle_scan (classify_due io conn now s c) c)"
proof -
  have "why \<noteq> []" if "classify_due io conn now s c = Broken why" for why
    using that by (auto simp: classify_due_def split: if_splits option.splits stamp.splits)
  then show ?thesis
    using assms resolved_spent [OF assms] quarantined_held spent_held
    by (auto simp: settle_scan_def split: due_class.split)
qed

lemma tick_held:
  assumes "held_recs i (recs s)"
  shows "held_recs i (recs (snd (start_due io conn now fault s)))"
proof -
  let ?candidate = "map (\<lambda>c. settle_scan (classify_due io conn now s c) c) (sd_mem s)"
  obtain candidate' rs u where r: "reserve_due io conn now (due_order (tick_classes io conn now s)) (busy_lanes s) ?candidate s
        = (candidate', rs, u)"
    and out: "snd (start_due io conn now fault s) = u \<and> rs = [] \<or> snd (start_due io conn now fault s) = save_and_start fault candidate' rs u"
    by (rule start_due_effect)
  have "\<forall>(i, retry)\<in>set (due_order (tick_classes io conn now s)). i < length ?candidate"
    using due_order_class [of _ _ "tick_classes io conn now s"] by (auto simp: tick_classes_def)
  note u = reserve_due_frame(1) [OF r this]
  have "held_recs i (set ?candidate)"
    using assms settled_held static_id [OF settled_carried(2) [of _ "{}"]] by (auto simp: held_recs_def recs_def)
  then have "held_recs i (set candidate')"
    using held_part_all2 [OF reserve_due_map [OF r, of held_part]] fired_held_part by blast
  moreover have "sd_mem u = sd_mem s" "sd_disk u = sd_disk s" using u by (simp_all add: reserved_def)
  ultimately show ?thesis
    using out assms held_publish(2) by (auto simp: recs_def)
qed

lemma recs_frames [simp]:
  "recs (set_phase k p s) = recs s" "recs (set_schedule k c s) = recs s"
  "recs (end_run k s) = recs s" "recs (release_run r s) = recs s"
  by (simp_all add: recs_def)

lemma unwind_held:
  assumes "held_recs i (recs s)"
  shows "held_recs i (recs (unwind_run fault r s))"
proof -
  have "held_recs i (recs (snd (restore_unstarted_reservation fault k preserve run s)))" for k preserve run
  proof -
    have "map held_part (update_first p (\<lambda>c. [restore_record preserve g c]) xs) = map held_part xs" for p g xs
      by (induction xs) (auto simp: held_part_def restore_record_def)
    then have "held_recs i (set (update_first p (\<lambda>c. [restore_record preserve g c]) (sd_mem s)))" for p g
      using held_part_all2 assms by (auto simp: recs_def held_recs_un)
    then show ?thesis
      using assms held_publish(1) [OF assms _ refl refl]
      by (auto simp: restore_unstarted_reservation_def split: option.split)
  qed
  then show ?thesis by (auto simp: unwind_run_def Let_def split_beta)
qed

lemma admit_held:
  assumes "held_recs i (recs s)"
  shows "held_recs i (recs (admit_run fault now r s))"
proof -
  have "held_recs i (set (update_first p (\<lambda>c. [c\<lparr>sc_run_started_at := Some now\<rparr>]) (sd_mem s)))" for p
    using assms by (intro held_update_first)
      (auto simp: recs_def held_recs_def held_def spent_def unfinished_def is_paused_def tracks_run_start_def)
  then have frame: "held_recs i (recs (snd (admit_reserved_execution fault now run s)))" for run
    using assms held_publish(1) [OF assms _ refl refl]
    by (auto simp: admit_reserved_execution_def Let_def split_beta split: option.split)
  obtain a u where u: "admit_reserved_execution fault now (ex_schedule r) s = (a, u)"
    by (cases "admit_reserved_execution fault now (ex_schedule r) s")
  then have "held_recs i (recs u)" using frame [of "ex_schedule r"] by simp
  then show ?thesis
    using u by (cases a) (auto simp: admit_run_def Let_def split: bool.split)
qed

lemma record_held:
  assumes "held_recs i (recs s)" "fault \<or> run_id r \<noteq> i"
  shows "held_recs i (recs (record_run fault r s))"
proof -
  let ?candidate = "update_first (\<lambda>c. sc_id c = sc_id (ex_schedule r)) (recorded (ex_schedule r)) (sd_mem s)"
  have "held_recs i (recs (snd (publish_schedules fault ?candidate s)))"
  proof (cases fault)
    case True
    then show ?thesis using assms by (simp add: publish_schedules_def)
  next
    case False
    have ids: "d \<in> set (recorded run c) \<Longrightarrow> sc_id d = sc_id c" for d run c
      using recorded_ids [of run c] by auto
    have "held_recs i (set ?candidate)"
      using assms False ids by (intro held_update_first) (auto simp: recs_def held_recs_un run_id_def)
    then show ?thesis by (rule held_publish(1) [OF assms(1) _ refl refl])
  qed
  then show ?thesis using assms(1) by (simp add: record_run_def Let_def)
qed

lemma find_held: "held_recs i (recs s) \<Longrightarrow> find (\<lambda>c. sc_id c = i) (sd_mem s) = Some c \<Longrightarrow> held c"
  by (auto simp: held_recs_def recs_def find_Some_iff)

lemma edited_inert:
  assumes "edit_error io e c = None" "\<not> new_timing (ed_timing e)" "spent c"
  shows "spent (edited e c)" "ed_paused e \<noteq> Some False"
proof -
  have np: "ed_paused e \<noteq> Some False"
    using assms by (auto simp: edit_error_def first_failure_Cons spent_def split: option.splits if_splits)
  then show "ed_paused e \<noteq> Some False" .
  show "spent (edited e c)"
    using np assms(2,3) by (cases "ed_paused e") (auto simp: spent_def is_paused_def edited_def with_retries_def)
qed

lemma build_update_held:
  assumes "build_update io now e c = Inr d" "\<not> new_timing (ed_timing e)" "held c"
  shows "held d"
proof -
  define resumed where "resumed = (is_paused c \<and> sc_paused (edited e c) = Some False)"
  obtain b where b: "retime io now e resumed (edited e c) = Inr b" and ok: "edit_error io e c = None"
    and d: "d = (let c2 = (if resumed \<and> \<not> sc_one_time b then b\<lparr>sc_retry_at := None\<rparr> else b)\<lparr>sc_revision := sc_revision c + 1\<rparr>
                 in if same_execution c2 c then c2 else c2\<lparr>sc_exec_revision := sc_exec_revision c + 1\<rparr>)"
    using assms(1) unfolding build_update_def resumed_def Let_def by (auto split: option.splits sum.splits)
  have part: "held_part d = held_part b" unfolding d Let_def by (simp add: held_part_def)
  have "held b"
  proof (cases "spent c")
    case True
    note e = edited_inert [OF ok assms(2) True]
    have "\<not> resumed"
      using e by (auto simp: resumed_def spent_def is_paused_def)
    then have "sc_paused b = sc_paused (edited e c)" "sc_inert_reason b = sc_inert_reason (edited e c)"
      using b assms(2) recomputed_frame [of io now "edited e c" b] by (auto simp: retime_def split: if_splits)
    then show ?thesis using e(1) by (simp add: held_def spent_def is_paused_def)
  next
    case False
    then have "unfinished c" using assms(3) by (simp add: held_def)
    moreover have "static_part b = static_part (edited e c)" "sc_run_started_at b = sc_run_started_at (edited e c)"
      using retime_frame(6) [OF b assms(2)] by simp_all
    ultimately have "unfinished b"
      by (simp add: unfinished_def tracks_run_start_def static_part_def)
    then show ?thesis by (simp add: held_def)
  qed
  then show ?thesis using held_part_held [OF part] by simp
qed

lemma replaced_held:
  assumes "held_recs i (recs s)" "sc_id d = i \<Longrightarrow> held d"
  shows "held_recs i (recs (snd (publish_schedules fault (update_first p (\<lambda>_. [d]) (sd_mem s)) s)))"
proof -
  have "held_recs i (set (update_first p (\<lambda>_. [d]) (sd_mem s)))"
    using assms by (intro held_update_first) (auto simp: recs_def held_recs_un)
  then show ?thesis by (rule held_publish(1) [OF assms(1) _ refl refl])
qed

lemma update_held:
  assumes "held_recs i (recs s)" "\<not> rearms i (Update conn now fault j e)"
  shows "held_recs i (recs (snd (update_schedule io conn now fault j e s)))"
proof (rule update_effect [of io conn now fault j e s])
  fix c d assume c: "find (\<lambda>c. sc_id c = j) (sd_mem s) = Some c" "build_update io now e c = Inr d"
    and eq: "snd (update_schedule io conn now fault j e s)
      = snd (publish_schedules fault (update_first (\<lambda>c. sc_id c = j) (\<lambda>_. [d]) (sd_mem s)) s)"
  have "sc_id d = j" using build_update_carried [OF c(2), of "{}"] c(1) by (auto simp: carried_def find_Some_iff)
  then have "sc_id d = i \<Longrightarrow> held d"
    using build_update_held [OF c(2)] find_held [OF assms(1)] c(1) assms(2) by auto
  then show ?thesis unfolding eq by (rule replaced_held [OF assms(1)])
qed (use assms in simp)

lemma run_now_held:
  assumes "held_recs i (recs s)"
  shows "held_recs i (recs (snd (run_now conn now fault fault2 j s)))"
proof -
  have first: "held_recs i (recs (snd (resolve_first fault j c0 s)))"
    and parts: "sc_id (snd (resolved_now j s c0)) = j"
    if c0: "find (\<lambda>c. sc_id c = j) (sd_mem s) = Some c0" for c0
  proof -
    let ?c = "snd (resolved_now j s c0)"
    have idc: "sc_id ?c = j" using static_id [OF resolved_static [of j s c0]] c0 by (auto simp: find_Some_iff)
    then show "sc_id ?c = j" .
    have "held ?c" if "j = i"
      using find_held [OF assms] c0 that resolved_spent spent_held by (auto simp: resolved_now_def)
    then have "held_recs i (set (update_first (\<lambda>c. sc_id c = j) (\<lambda>_. [?c]) (sd_mem s)))"
      using assms idc by (intro held_update_first) (auto simp: recs_def held_recs_un)
    then show "held_recs i (recs (snd (resolve_first fault j c0 s)))"
      using assms by (auto simp: resolve_first_def Let_def split_beta publish_schedules_def recs_def held_recs_un)
  qed
  show ?thesis
  proof (rule run_now_effect [of conn now fault fault2 j s])
    fix c0 assume "find (\<lambda>c. sc_id c = j) (sd_mem s) = Some c0"
      "snd (run_now conn now fault fault2 j s) = snd (resolve_first fault j c0 s)"
    then show ?thesis using first by simp
  next
    fix c0 c epoch assume c0: "find (\<lambda>c. sc_id c = j) (sd_mem s) = Some c0" and c: "c = snd (resolved_now j s c0)"
      and live: "sc_inert_reason c = None \<or> sc_inert_reason c = Some []" "j \<notin> set (sd_in_flight s)"
      and eq: "snd (run_now conn now fault fault2 j s) = snd (reserve_now now fault2 j epoch c (snd (resolve_first fault j c0 s)))"
    let ?s2 = "snd (resolve_first fault j c0 s)"
    have "j \<noteq> i"
    proof
      assume "j = i"
      then have "spent c" using find_held [OF assms] c0 c live(2) resolved_spent by (simp add: resolved_now_def)
      then show False using live(1) by (auto simp: spent_def)
    qed
    then have "held_recs i (set (map (\<lambda>d. if sc_id d = j then c\<lparr>sc_last_run := Some now\<rparr> else d) (sd_mem ?s2)))"
      using first [OF c0] parts [OF c0] by (auto simp: held_recs_def recs_def c)
    then show ?thesis
      unfolding eq reserve_now_effect Let_def
      using first [OF c0] by (intro held_publish(2)) (simp_all add: reserve_def)
  qed (use assms in simp)
qed

lemma fire_triggers_held:
  assumes "held_recs i (recs s)"
  shows "held_recs i (recs (snd (fire_triggers conn now fault source event s)))"
proof (cases "source \<in> set REMOVED_TRIGGER_SOURCES")
  case False
  obtain candidate rs u where m: "reserve_matched conn now (trigger_fires conn source event s) (sd_mem s) s = (candidate, rs, u)"
    by (metis prod_cases3)
  have map: "reserve_matched conn now fires cs t = (cs', qs, v) \<Longrightarrow> map held_part cs' = map held_part cs"
    for fires cs t cs' qs v
    by (induction cs arbitrary: t cs' qs v) (auto simp: Let_def held_part_def split: if_splits prod.splits)
  have "held_recs i (set candidate)"
    using held_part_all2 [OF map [OF m]] assms by (simp add: recs_def held_recs_un)
  then have "held_recs i (recs (save_and_start fault candidate rs u))"
    using reserve_matched_frame(1) [OF m] assms by (intro held_publish(2)) (simp_all add: reserved_def)
  moreover have "recs u = recs s" using reserve_matched_frame(1) [OF m] by (simp add: reserved_def recs_def)
  ultimately show ?thesis using False assms by (simp add: fire_triggers_effect m)
qed (use assms in \<open>simp add: fire_triggers_effect\<close>)

lemma loaded_spent:
  assumes "held c"
  shows "spent (load_schedule io now c)"
proof -
  have "held_part (advance_stale_cron io now c) = held_part c"
    by (auto simp: advance_stale_cron_def held_part_def split: option.splits stamp.splits)
  then have "held (advance_stale_cron io now c)" using assms held_part_held by blast
  then have "held (degrade_removed_trigger_sources (advance_stale_cron io now c))" (is "held ?d")
    by (auto simp: degrade_removed_trigger_sources_def held_def spent_def is_paused_def)
  then show ?thesis unfolding load_schedule_def by (rule resolved_spent)
qed

lemma restart_held:
  assumes "held_recs i (recs s)"
  shows "held_recs i (recs (restart io now callback s))"
  using assms loaded_spent spent_held static_id [OF restart_static]
  by (auto simp: held_recs_def recs_def restart_def)

lemma on_run_held:
  assumes "held_recs i (recs s)" "\<And>r. r \<in> set (sd_runs s) \<Longrightarrow> ex_key r = k \<Longrightarrow> held_recs i (recs (f r))"
  shows "held_recs i (recs (on_run k ps f s))"
  using assms by (auto simp: on_run_def dest: take_run_D split: option.splits)

lemma quiet_held:
  "recs (enter_run conn r s) = recs s" "recs (finish_run now outcome r s) = recs s" "recs (cancel_run r s) = recs s"
proof -
  show "recs (enter_run conn r s) = recs s" by (simp add: enter_run_def Let_def) (simp add: recs_def)
  show "recs (finish_run now outcome r s) = recs s" by (cases outcome) (simp_all add: finish_run_def Let_def)
  show "recs (cancel_run r s) = recs s" by (simp add: cancel_run_def)
qed

definition records_end :: "string \<Rightarrow> sched_event \<Rightarrow> scheduler \<Rightarrow> bool" where
  "records_end i e s \<longleftrightarrow> (\<exists>r\<in>set (sd_runs s). run_id r = i \<and> e = Record (ex_key r) False)"

lemma held_step:
  assumes "held_recs i (recs s)" "\<not> rearms i e" "\<not> records_end i e s"
  shows "held_recs i (recs (sched_step io e s))"
proof (cases e)
  case (Record k fault)
  then show ?thesis
    using assms by (auto intro!: on_run_held record_held simp: records_end_def)
next
  case (Add conn now fault a)
  then consider "snd (add_schedule io conn now fault a s) = s"
    | c where "build_schedule io now a = Inr c" "snd (add_schedule io conn now fault a s) = snd (publish_schedules fault (sd_mem s @ [c]) s)"
    by (cases "build_schedule io now a"; cases "admitted_epoch conn (projr (build_schedule io now a))")
      (auto simp: add_schedule_def Let_def)
  then show ?thesis
  proof cases
    case (2 c)
    then have "held_recs i (set (sd_mem s @ [c]))"
      using build_frame [OF 2(1)] assms(1,2) Add by (auto simp: held_recs_def recs_def)
    then show ?thesis unfolding Add sched_step.simps 2(2) by (rule held_publish(1) [OF assms(1) _ refl refl])
  qed (use assms Add in simp)
next
  case (Update conn now fault j ed)
  then show ?thesis using update_held [OF assms(1)] assms(2) by simp
next
  case (Reset fault j)
  then show ?thesis
  proof (cases "find (\<lambda>c. sc_id c = j) (sd_mem s)")
    case (Some c)
    let ?d = "(handle_success c)\<lparr>sc_revision := sc_revision c + 1, sc_exec_revision := sc_exec_revision c + 1\<rparr>"
    have "held_part ?d = held_part c" by (simp add: held_part_def handle_success_def)
    then have "sc_id ?d = i \<Longrightarrow> held ?d"
      using held_part_held [of ?d c] find_held [OF assms(1), of c] Some by (auto simp: find_Some_iff)
    then have "held_recs i (recs (snd (publish_schedules fault (update_first (\<lambda>c. sc_id c = j) (\<lambda>_. [?d]) (sd_mem s)) s)))"
      by (rule replaced_held [OF assms(1)])
    then show ?thesis using Reset Some by (simp add: reset_failures_def Let_def)
  qed (use assms in \<open>simp add: reset_failures_def\<close>)
next
  case (Delete fault j)
  have "held_recs i (set (filter (\<lambda>c. sc_id c \<noteq> j) (sd_mem s)))" using assms(1) by (auto simp: held_recs_def recs_def)
  from held_publish(1) [OF assms(1) this refl refl, of fault] show ?thesis
    using assms(1) Delete by (simp add: delete_schedule_def Let_def)
qed (use assms in \<open>simp_all add: tick_held run_now_held fire_triggers_held restart_held on_run_held quiet_held unwind_held admit_held\<close>)

section \<open>A held schedule is not started\<close>

lemma run_ids_sub: "run_ids t \<subseteq> run_ids s \<Longrightarrow> i \<notin> run_ids s \<Longrightarrow> i \<notin> run_ids t"
  by blast

lemma frames_ids [simp]:
  "run_ids (set_phase k p s) = run_ids s"
proof -
  have "map (\<lambda>r. sc_id (ex_schedule r)) (sd_runs (set_phase k p s)) = map (\<lambda>r. sc_id (ex_schedule r)) (sd_runs s)"
    by (simp add: set_phase_def)
  then show ?thesis by (metis run_ids_def set_map)
qed

lemma run_step_ids:
  assumes "r \<in> set (sd_runs s)"
  shows "run_ids (enter_run conn r s) \<subseteq> run_ids s" "run_ids (cancel_run r s) \<subseteq> run_ids s"
    "run_ids (unwind_run fault r s) \<subseteq> run_ids s" "run_ids (admit_run fault now r s) \<subseteq> run_ids s"
    "run_ids (finish_run now outcome r s) \<subseteq> run_ids s" "run_ids (record_run fault r s) \<subseteq> run_ids s"
proof -
  have e: "run_ids (end_run k u) \<subseteq> run_ids u" "run_ids (release_run r u) \<subseteq> run_ids u" for k u
    by (rule run_ids_fewer, simp)+
  have same: "sd_runs u = sd_runs s \<Longrightarrow> run_ids u = run_ids s" for u by (simp add: run_ids_def)
  have sch: "run_ids (set_schedule (ex_key r) c u) \<subseteq> run_ids s" if "sc_id c = run_id r" "sd_runs u = sd_runs s" for c u
    using that assms by (auto simp: run_ids_def set_schedule_def run_id_def)
  show "run_ids (enter_run conn r s) \<subseteq> run_ids s"
  proof -
    have "run_ids (s\<lparr>sd_in_flight := x, sd_scheduled := y\<rparr>) = run_ids s" for x y by (rule same) simp
    then show ?thesis by (simp add: enter_run_def Let_def)
  qed
  show "run_ids (cancel_run r s) \<subseteq> run_ids s" using e by (simp add: cancel_run_def)
  have pub: "sd_runs (snd (publish_schedules fault c s)) = sd_runs s" for c by (simp add: publish_schedules_def)
  have rest: "sd_runs (snd (restore_unstarted_reservation fault k preserve run s)) = sd_runs s" for k preserve run
    by (simp add: restore_unstarted_reservation_def pub split: option.split)
  show "run_ids (unwind_run fault r s) \<subseteq> run_ids s"
  proof -
    define u where "u = snd (restore_unstarted_reservation fault (ex_key r) (ex_phase r = Overlapped
        \<and> (case map_of (sd_reservations s) (ex_key r) of Some g \<Rightarrow> gr_preserve g | None \<Rightarrow> False)) (ex_schedule r) s)"
    have "run_ids u = run_ids s" unfolding u_def by (rule same [OF rest])
    then show ?thesis
      using e [where u = u] unfolding unwind_run_def Let_def split_beta u_def [symmetric] by simp
  qed
  have adm: "sd_runs (snd (admit_reserved_execution fault now run s)) = sd_runs s" for run
    by (simp add: admit_reserved_execution_def Let_def split_beta pub split: option.split)
  obtain a u where u: "admit_reserved_execution fault now (ex_schedule r) s = (a, u)"
    by (cases "admit_reserved_execution fault now (ex_schedule r) s")
  then have su: "sd_runs u = sd_runs s" using adm [of "ex_schedule r"] by simp
  show "run_ids (admit_run fault now r s) \<subseteq> run_ids s"
    using u e(2) [where u = u] same [OF su] sch [OF _ su, of "(ex_schedule r)\<lparr>sc_run_started_at := Some now\<rparr>"]
    by (cases a) (auto simp: admit_run_def Let_def run_id_def split: bool.split)
  show "run_ids (finish_run now outcome r s) \<subseteq> run_ids s"
    using e(2) [where u = s] sch [OF _ refl] static_id [OF handled_frame(1)] static_id [OF handled_frame(2)]
    by (cases outcome) (simp_all add: finish_run_def Let_def run_id_def)
  show "run_ids (record_run fault r s) \<subseteq> run_ids s"
    using e(2) [where u = s] e(2) [where u = "snd (publish_schedules fault (update_first
        (\<lambda>c. sc_id c = sc_id (ex_schedule r)) (recorded (ex_schedule r)) (sd_mem s)) s)"] same [OF pub]
    by (simp add: record_run_def Let_def)
qed

lemma due_not_held:
  assumes "classify_due io conn now s c = Due t b" "sc_id c \<notin> set (sd_in_flight s)"
  shows "\<not> held c"
  using assms by (auto simp: classify_due_def held_def spent_def unfinished_def split: if_splits)

lemma started_ids:
  "run_ids (save_and_start fault candidate rs u) \<subseteq> run_ids u \<union> run_id ` set rs"
  by (auto simp: save_and_start_cases run_ids_def run_id_def)

lemma reserved_ids: "reserved s rs u \<Longrightarrow> run_ids u = run_ids s"
  by (simp add: reserved_def run_ids_def)

lemma idle_step:
  assumes "runs_wf s" "held_recs i (recs s)" "i \<notin> run_ids s"
  shows "i \<notin> run_ids (sched_step io e s)"
proof -
  have idle: "i \<notin> set (sd_in_flight s)"
    using assms(1,3) by (auto simp: runs_wf_def guarded_def run_ids_def run_id_def)
  have onr: "i \<notin> run_ids (on_run k ps f s)" if "\<And>r. r \<in> set (sd_runs s) \<Longrightarrow> run_ids (f r) \<subseteq> run_ids s" for k ps f
    using that assms(3) by (auto simp: on_run_def dest: take_run_D split: option.splits)
  have pub: "run_ids (snd (publish_schedules fault c s)) = run_ids s" for fault c
    by (simp add: publish_schedules_def run_ids_def)
  show ?thesis
  proof (cases e)
    case (Tick conn now fault)
    let ?candidate = "map (\<lambda>c. settle_scan (classify_due io conn now s c) c) (sd_mem s)"
    let ?ds = "tick_classes io conn now s"
    obtain candidate' rs u where r: "reserve_due io conn now (due_order ?ds) (busy_lanes s) ?candidate s = (candidate', rs, u)"
      and out: "snd (start_due io conn now fault s) = u \<and> rs = [] \<or> snd (start_due io conn now fault s) = save_and_start fault candidate' rs u"
      by (rule start_due_effect)
    have "\<forall>(i, retry)\<in>set (due_order ?ds). i < length ?candidate"
      using due_order_class [of _ _ ?ds] by (auto simp: tick_classes_def)
    note fr = reserve_due_frame [OF r this]
    have "run_id q \<noteq> i" if q: "q \<in> set rs" for q
    proof
      assume qi: "run_id q = i"
      obtain k retry where k: "(k, retry) \<in> set (due_order ?ds)" "static_part (ex_schedule q) = static_part (?candidate ! k)"
        using fr(6) q by blast
      then obtain t where t: "k < length ?ds" "?ds ! k = Due t retry" using due_order_class by blast
      then have kl: "k < length (sd_mem s)" and cl: "classify_due io conn now s (sd_mem s ! k) = Due t retry"
        by (simp_all add: tick_classes_def)
      have "sc_id (sd_mem s ! k) = i"
        using static_id [OF k(2)] kl cl qi by (simp add: settle_scan_def run_id_def)
      then show False
        using due_not_held [OF cl] idle assms(2) kl by (auto simp: held_recs_def recs_def)
    qed
    then have "i \<notin> run_id ` set rs" by blast
    then show ?thesis
      using out started_ids [of fault candidate' rs u] reserved_ids [OF fr(1)] assms(3) Tick by auto
  next
    case (Run_now conn now fault fault2 j)
    show ?thesis unfolding Run_now sched_step.simps
    proof (rule run_now_effect [of conn now fault fault2 j s])
      fix c0 assume "snd (run_now conn now fault fault2 j s) = snd (resolve_first fault j c0 s)"
      then show "i \<notin> run_ids (snd (run_now conn now fault fault2 j s))"
        using assms(3) by (auto simp: resolve_first_def Let_def split_beta publish_schedules_def run_ids_def)
    next
      fix c0 c epoch assume c0: "find (\<lambda>c. sc_id c = j) (sd_mem s) = Some c0" and c: "c = snd (resolved_now j s c0)"
        and live: "sc_inert_reason c = None \<or> sc_inert_reason c = Some []" "j \<notin> set (sd_in_flight s)"
        and eq: "snd (run_now conn now fault fault2 j s) = snd (reserve_now now fault2 j epoch c (snd (resolve_first fault j c0 s)))"
      let ?s2 = "snd (resolve_first fault j c0 s)" and ?c' = "c\<lparr>sc_last_run := Some now\<rparr>"
      have "j \<noteq> i"
      proof
        assume "j = i"
        then have "spent c" using find_held [OF assms(2)] c0 c live(2) resolved_spent by (simp add: resolved_now_def)
        then show False using live(1) by (auto simp: spent_def)
      qed
      moreover have "sc_id c = j" using static_id [OF resolved_static [of j s c0]] c c0 by (auto simp: find_Some_iff)
      moreover have "run_ids (fst (reserve epoch None False c ?c' ?s2)) = run_ids s"
        by (simp add: reserve_def run_ids_def resolve_first_def Let_def split_beta publish_schedules_def)
      moreover have "ex_schedule (snd (reserve epoch None False c ?c' ?s2)) = ?c'" by (simp add: reserve_def)
      ultimately show "i \<notin> run_ids (snd (run_now conn now fault fault2 j s))"
        unfolding eq reserve_now_effect Let_def using assms(3) started_ids by (fastforce simp: run_id_def)
    qed (use assms(3) in simp)
  next
    case (Fire_triggers conn now fault source event)
    show ?thesis
    proof (cases "source \<in> set REMOVED_TRIGGER_SOURCES")
      case False
      obtain candidate rs u where m: "reserve_matched conn now (trigger_fires conn source event s) (sd_mem s) s = (candidate, rs, u)"
        by (metis prod_cases3)
      note fr = reserve_matched_frame [OF m]
      have "run_id q \<noteq> i" if "q \<in> set rs" for q
      proof
        assume qi: "run_id q = i"
        obtain c where c: "c \<in> set (sd_mem s)" "trigger_fires conn source event s c" "sc_id c = run_id q"
          using fr(4) \<open>q \<in> set rs\<close> by blast
        then have "held c" using assms(2) qi by (auto simp: held_recs_def recs_def)
        then show False
          using c(2) by (auto simp: trigger_fires_def trigger_meets_def held_def spent_def unfinished_def)
      qed
      then have "i \<notin> run_id ` set rs" by blast
      then show ?thesis
        using started_ids [of fault candidate rs u] reserved_ids [OF fr(1)] assms(3) False
        by (auto simp: Fire_triggers fire_triggers_effect m)
    qed (use assms(3) in \<open>simp add: Fire_triggers fire_triggers_effect\<close>)
  next
    case (Add conn now fault a)
    then show ?thesis
      using assms(3) by (cases "build_schedule io now a"; cases "admitted_epoch conn (projr (build_schedule io now a))")
        (auto simp: add_schedule_def Let_def pub)
  next
    case (Update conn now fault j ed)
    show ?thesis unfolding Update sched_step.simps
      by (rule update_effect [of io conn now fault j ed s]) (use assms(3) in \<open>simp_all add: pub\<close>)
  next
    case (Reset fault j)
    then show ?thesis using assms(3) by (simp add: reset_failures_def Let_def pub split: option.split)
  next
    case (Delete fault j)
    then show ?thesis using assms(3) by (simp add: delete_schedule_def Let_def pub)
  next
    case (Crash now callback)
    then show ?thesis by (simp add: restart_def run_ids_def)
  qed (simp_all add: onr run_step_ids)
qed

section \<open>Runs that ended unrecorded\<close>

fun fresh_path :: "sched_io \<Rightarrow> sched_event list \<Rightarrow> scheduler \<Rightarrow> bool" where
  "fresh_path io [] s = True"
| "fresh_path io (e # es) s = (fresh_event e s \<and> fresh_path io es (sched_step io e s))"

lemma fresh_path_reachable:
  "sched_reachable io s \<Longrightarrow> fresh_path io es s \<Longrightarrow> sched_reachable io (sched_run io es s)"
  by (induction es arbitrary: s) (auto simp: sched_run_def intro: sched_reachable.stepped)

lemma held_idle_path:
  assumes "sched_inv s" "held_recs i (recs s)" "i \<notin> run_ids s" "fresh_path io es s" "\<forall>e\<in>set es. \<not> rearms i e"
  shows "i \<notin> run_ids (sched_run io es s)"
  using assms
proof (induction es arbitrary: s)
  case Nil
  then show ?case by (simp add: sched_run_def)
next
  case (Cons e es)
  have "\<not> records_end i e s" using Cons.prems(3) by (auto simp: records_end_def run_ids_def run_id_def)
  then have "held_recs i (recs (sched_step io e s))" using Cons.prems(2,5) by (intro held_step) simp_all
  moreover have "i \<notin> run_ids (sched_step io e s)"
    using Cons.prems(1-3) by (intro idle_step) (simp_all add: sched_inv_def)
  moreover have "sched_inv (sched_step io e s)" using Cons.prems(1,4) by (intro sched_step_inv) simp_all
  ultimately show ?case using Cons.IH Cons.prems(4,5) by (simp add: sched_run_def)
qed

lemma begun_held:
  assumes "sched_inv s" "r \<in> set (sd_runs s)" "begun r" "tracks_run_start (ex_schedule r)"
    and "c \<in> recs s" "sc_id c = run_id r" "execution_identity c = execution_identity (ex_schedule r)"
  shows "unfinished c"
proof -
  have l: "not_older r c" "marked r c" using assms(1,2,5) by (auto simp: sched_inv_def links_wf_def)
  then have k: "sc_one_time c = sc_one_time (ex_schedule r)" "sc_action c = sc_action (ex_schedule r)"
    using assms(6,7) by (auto simp: not_older_def execution_identity_def)
  then have "tracks_run_start c" using assms(4) by (simp add: tracks_run_start_def)
  moreover have "sc_trigger c = None"
    using assms(1,4,5) k by (auto simp: sched_inv_def recs_wf_def tracks_run_start_def)
  moreover have "sc_run_started_at c \<noteq> None" using l(2) assms(3,4,6,7) by (auto simp: marked_def)
  ultimately show ?thesis by (simp add: unfinished_def)
qed

text \<open>
  C3: A one-time schedule of a kind whose start is recorded (a check, a workflow or a webhook, whose action has
  effects of its own) that started, and whose end was not recorded (Odin crashed or stopped, the run was
  cancelled, or the result could not be saved), is not executed again by any later sequence of ticks,
  manual runs, triggers, edits, failures and restarts, until an operator gives it new timing. The record on
  disk must still be the one that was started. One-time reminders and digests can be replayed safely: the
  code records no start of theirs, and runs them again after a crash.
\<close>

theorem unrecorded_run_never_repeats:
  assumes "sched_reachable io s"
    and "r \<in> set (sd_runs s)" "begun r" "tracks_run_start (ex_schedule r)"
    and "c \<in> set (sd_disk s)" "sc_id c = run_id r" "execution_identity c = execution_identity (ex_schedule r)"
    and "e = Crash now callback \<or> e = Cancel (ex_key r) \<or> e = Record (ex_key r) True"
    and "run_id r \<notin> run_ids (sched_step io e s)"
    and "fresh_path io es (sched_step io e s)" "\<forall>f\<in>set es. \<not> rearms (run_id r) f"
  shows "run_id r \<notin> run_ids (sched_run io es (sched_step io e s))"
proof (rule held_idle_path [OF _ _ assms(9-11)])
  have inv: "sched_inv s" by (rule reachable_inv [OF assms(1)])
  have wf: "recs_wf s" using inv by (simp add: sched_inv_def)
  have "static_part c \<in> set (map static_part (sd_disk s))" using assms(5) by simp
  then have "static_part c \<in> set (map static_part (sd_mem s))" using wf by (simp add: recs_wf_def)
  then obtain b where b: "b \<in> set (sd_mem s)" "static_part c = static_part b" by auto
  have "held d" if d: "d \<in> recs s" "sc_id d = run_id r" for d
  proof -
    have "static_part d = static_part b"
      using recs_static [OF wf b(1) d(1)] d(2) static_id [OF b(2)] assms(6) by simp
    then have "static_part d = static_part c" using b(2) by simp
    then have "execution_identity d = execution_identity (ex_schedule r)"
      using assms(7) by (simp add: static_part_def execution_identity_def)
    then show ?thesis using begun_held [OF inv assms(2-4) d] by (simp add: held_def)
  qed
  then have "held_recs (run_id r) (recs s)" by (simp add: held_recs_def)
  moreover have "\<not> rearms (run_id r) e" "\<not> records_end (run_id r) e s" "fresh_event e s"
    using assms(8) by (auto simp: records_end_def)
  ultimately show "held_recs (run_id r) (recs (sched_step io e s))" "sched_inv (sched_step io e s)"
    using held_step sched_step_inv [OF inv] by blast+
qed

section \<open>Examples\<close>

text \<open>A cron that fires every hour, and clock texts that are a digit read as seconds.\<close>

definition ex_sched_io :: sched_io where
  "ex_sched_io =
     \<lparr>cron_valid = (\<lambda>e. e = ''hourly''), cron_next = (\<lambda>e z n. Some (n + 3600)), zone_valid = (\<lambda>z. z = ''UTC''),
      parse_iso = (\<lambda>x. if x = ''9Z'' then Some (9, True) else None), float_val = (\<lambda>_. 0), url_allowed = (\<lambda>_. True),
      report_formats = None\<rparr>"

definition ex_timing :: timing where
  "ex_timing = \<lparr>tm_cron = None, tm_run_at = Some ''9Z'', tm_trigger = None\<rparr>"

definition ex_new :: new_schedule where
  "ex_new =
     \<lparr>ns_id = ''a1'', ns_generation = ''g1'', ns_description = ''deploy'', ns_action = ''workflow'', ns_channel_id = ''c'',
      ns_requester_id = ''u'', ns_message = None, ns_tool_name = None, ns_tool_input = None,
      ns_steps = JList [JObj [(''tool_name'', JStr ''deploy'')]], ns_webhook_config = JNull, ns_report_format = None,
      ns_timing = ex_timing, ns_timezone = None, ns_max_retries = Some 2, ns_backoff = Some 60, ns_validated = True\<rparr>"

definition ex_conn :: connection where
  "ex_conn = \<lparr>cn_available = True, cn_epoch = 1\<rparr>"

definition ex_until_effect :: "sched_event list" where
  "ex_until_effect = [Add ex_conn 0 False ex_new, Tick ex_conn 10 False, Enter 0 ex_conn, Admit 0 11 False]"

definition ex_after :: "sched_event list" where
  "ex_after = [Tick ex_conn 20 False, Run_now ex_conn 30 False False ''a1'', Crash 40 True, Tick ex_conn 50 False]"

lemma ex_until_effect_reachable: "sched_reachable ex_sched_io (sched_run ex_sched_io ex_until_effect new_scheduler)"
  by (rule fresh_path_reachable [OF sched_reachable.started]) code_simp

theorem schedule_runs_exclusive_witness:
  "distinct (guarded (sched_run ex_sched_io ex_until_effect new_scheduler))
   \<and> guarded (sched_run ex_sched_io ex_until_effect new_scheduler) = [''a1'']"
  using schedule_runs_exclusive [OF ex_until_effect_reachable] by (intro conjI) (blast, code_simp)

definition ex_running :: scheduler where
  "ex_running = sched_run ex_sched_io ex_until_effect new_scheduler"

definition ex_crash :: sched_event where
  "ex_crash = Crash 15 True"

theorem unrecorded_run_never_repeats_witness:
  "run_id (hd (sd_runs ex_running)) \<notin> run_ids (sched_run ex_sched_io ex_after (sched_step ex_sched_io ex_crash ex_running))
   \<and> map sc_inert_reason (sd_mem (sched_run ex_sched_io ex_after (sched_step ex_sched_io ex_crash ex_running)))
     = [Some interrupted_reason]"
proof
  have reach: "sched_reachable ex_sched_io ex_running"
    using ex_until_effect_reachable by (simp add: ex_running_def)
  have run: "hd (sd_runs ex_running) \<in> set (sd_runs ex_running)" "begun (hd (sd_runs ex_running))"
    "tracks_run_start (ex_schedule (hd (sd_runs ex_running)))"
    and disk: "hd (sd_disk ex_running) \<in> set (sd_disk ex_running)" "sc_id (hd (sd_disk ex_running)) = run_id (hd (sd_runs ex_running))"
    "execution_identity (hd (sd_disk ex_running)) = execution_identity (ex_schedule (hd (sd_runs ex_running)))"
    by code_simp+
  have crash: "ex_crash = Crash 15 True \<or> ex_crash = Cancel (ex_key (hd (sd_runs ex_running)))
      \<or> ex_crash = Record (ex_key (hd (sd_runs ex_running))) True"
    by (simp add: ex_crash_def)
  have later: "run_id (hd (sd_runs ex_running)) \<notin> run_ids (sched_step ex_sched_io ex_crash ex_running)"
    "fresh_path ex_sched_io ex_after (sched_step ex_sched_io ex_crash ex_running)"
    "\<forall>f\<in>set ex_after. \<not> rearms (run_id (hd (sd_runs ex_running))) f"
    by code_simp+
  show "run_id (hd (sd_runs ex_running)) \<notin> run_ids (sched_run ex_sched_io ex_after (sched_step ex_sched_io ex_crash ex_running))"
    by (rule unrecorded_run_never_repeats [OF reach run disk crash later])
  show "map sc_inert_reason (sd_mem (sched_run ex_sched_io ex_after (sched_step ex_sched_io ex_crash ex_running)))
     = [Some interrupted_reason]"
    by code_simp
qed

section \<open>Retries\<close>

definition after_failures :: "(py_time \<times> string) list \<Rightarrow> schedule \<Rightarrow> schedule" where
  "after_failures fs c = fold (\<lambda>(now, e). handle_failure now True e) fs c"

lemma failure_frame:
  "sc_max_retries (handle_failure now b e c) = sc_max_retries c"
  "sc_retry_backoff (handle_failure now b e c) = sc_retry_backoff c"
  "sc_one_time (handle_failure now b e c) = sc_one_time c"
  by (simp_all add: handle_failure_def Let_def)

lemma failures_count:
  "sc_max_retries (after_failures fs c) = sc_max_retries c \<and> sc_one_time (after_failures fs c) = sc_one_time c
   \<and> (sc_retry_count c \<le> sc_max_retries c \<longrightarrow>
        sc_retry_count (after_failures fs c) = min (sc_retry_count c + length fs) (sc_max_retries c))"
proof (induction fs arbitrary: c)
  case Nil
  then show ?case by (simp add: after_failures_def)
next
  case (Cons f fs)
  obtain now e where f: "f = (now, e)" by (cases f)
  let ?d = "handle_failure now True e c"
  have "sc_retry_count c \<le> sc_max_retries c \<Longrightarrow> sc_retry_count ?d = min (sc_retry_count c + 1) (sc_max_retries c)"
    by (auto simp: handle_failure_def Let_def)
  then show ?case
    using Cons.IH [of ?d] failure_frame [of now True e c] by (auto simp: f after_failures_def)
qed

lemma retry_delay:
  "now \<le> compute_retry_at now c \<and> compute_retry_at now c \<le> now + 3600"
proof -
  have "min (sc_retry_backoff c * 2 ^ (sc_retry_count c - 1)) MAX_BACKOFF_SECONDS \<le> 3600"
    by (simp add: MAX_BACKOFF_SECONDS_def min_def)
  then have "of_nat (min (sc_retry_backoff c * 2 ^ (sc_retry_count c - 1)) MAX_BACKOFF_SECONDS) \<le> (of_nat 3600 :: rat)"
    unfolding of_nat_le_iff .
  then show ?thesis by (simp add: compute_retry_at_def)
qed

text \<open>
  C37: A one-time schedule that keeps failing is retried at most \<^verbatim>\<open>max_retries\<close> times, each retry at most an
  hour after the failure; after the last one no tick finds it due, whatever the clock and the connection.
\<close>

theorem retries_bounded:
  assumes "sc_one_time c" "sc_retry_count c = 0"
  shows "let d = after_failures (fs @ [(now, e)]) c in
     if length fs < sc_max_retries c
     then \<exists>t. sc_retry_at d = Some (At t) \<and> now \<le> t \<and> t \<le> now + 3600
     else \<nexists>io conn later s t b. classify_due io conn later s d = Due t b"
proof -
  let ?c = "after_failures fs c" and ?d = "after_failures (fs @ [(now, e)]) c"
  have d: "?d = handle_failure now True e ?c" by (simp add: after_failures_def)
  have c: "sc_one_time ?c" "sc_max_retries ?c = sc_max_retries c" "sc_retry_count ?c = min (length fs) (sc_max_retries c)"
    using failures_count [of fs c] assms by simp_all
  show ?thesis
  proof (cases "length fs < sc_max_retries c")
    case True
    then show ?thesis
      using c retry_delay [of now] by (auto simp: d handle_failure_def Let_def)
  next
    case False
    then have "sc_retry_at ?d = None" "sc_next_run ?d = None"
      using c by (auto simp: d handle_failure_def Let_def)
    then have "classify_due io conn later s ?d \<noteq> Due t b" for io conn later s t b
      by (simp add: classify_due_def)
    then show ?thesis using False by (simp add: Let_def)
  qed
qed

definition ex_failing :: schedule where
  "ex_failing = hd (sd_mem (sched_run ex_sched_io [Add ex_conn 0 False ex_new] new_scheduler))"

theorem retries_bounded_witness:
  "\<nexists>io conn later s t b. classify_due io conn later s (after_failures [(10, ''e''), (80, ''e''), (210, ''e'')] ex_failing) = Due t b"
proof -
  have "sc_one_time ex_failing" "sc_retry_count ex_failing = 0" "sc_max_retries ex_failing = 2" by code_simp+
  then show ?thesis
    using retries_bounded [of ex_failing "[(10, ''e''), (80, ''e'')]" 210 "''e''"] by simp
qed

text \<open>
  A failure whose text is empty (\<^verbatim>\<open>TimeoutError()\<close>) leaves \<^verbatim>\<open>last_error\<close> empty, and the recording takes
  an empty error for success: the one-time schedule is removed together with the retry it was promised.
\<close>

lemma empty_failure_removed:
  assumes "sc_one_time run" "execution_identity c = execution_identity run"
  shows "recorded (handle_failure now True [] run) c = []"
proof -
  have "execution_identity (handle_failure now True [] run) = execution_identity run"
    "sc_one_time (handle_failure now True [] run)" "sc_last_error (handle_failure now True [] run) = Some []"
    using assms(1) by (simp_all add: handle_failure_def Let_def execution_identity_def)
  then show ?thesis
    using assms(2) by (simp add: recorded_def Let_def execution_identity_def)
qed

section \<open>Edits\<close>

text \<open>
  Resuming a paused recurring schedule never fires a slot missed during the pause: right after the
  edit no tick at that instant finds it due, if \<^verbatim>\<open>croniter\<close> returns instants that lie ahead.
\<close>

theorem resume_skips_missed_slots:
  assumes "\<And>expr zone t n. cron_next io expr zone t = Some n \<Longrightarrow> t < n"
    and "build_update io now e c = Inr d"
    and "is_paused c" "ed_paused e = Some False" "has_cron c" "\<not> sc_one_time c" "\<not> new_timing (ed_timing e)"
  shows "classify_due io conn now s d \<noteq> Due t b"
proof -
  define resumed where "resumed = (is_paused c \<and> sc_paused (edited e c) = Some False)"
  have "sc_paused (edited e c) = Some False" using assms(4) by (simp add: edited_def)
  then have resumed: "resumed" using assms(3) by (simp add: resumed_def)
  obtain f where f: "retime io now e resumed (edited e c) = Inr f"
    and d: "d = (let c2 = (if resumed \<and> \<not> sc_one_time f then f\<lparr>sc_retry_at := None\<rparr> else f)\<lparr>sc_revision := sc_revision c + 1\<rparr>
                 in if same_execution c2 c then c2 else c2\<lparr>sc_exec_revision := sc_exec_revision c + 1\<rparr>)"
    using assms(2) unfolding build_update_def resumed_def Let_def by (auto split: option.splits sum.splits)
  have cron: "has_cron (edited e c)" using assms(5) by (simp add: has_cron_def edited_def with_retries_def)
  have "recomputed io now (edited e c) = Inr f"
    using f cron assms(6,7) resumed by (auto simp: retime_def split: if_splits)
  then obtain n where n: "cron_next io (the (sc_cron (edited e c))) (sc_timezone (edited e c)) now = Some n"
    "f = (edited e c)\<lparr>sc_next_run := Some (At n)\<rparr>"
    by (auto simp: recomputed_def split: option.splits)
  then have "now < n" using assms(1) by blast
  moreover have "\<not> sc_one_time f" using n(2) assms(6) by simp
  then have "sc_retry_at d = None" "sc_next_run d = Some (At n)"
    unfolding d Let_def using resumed n(2) by simp_all
  ultimately show ?thesis by (simp add: classify_due_def)
qed

definition ex_cron :: schedule where
  "ex_cron = ex_failing\<lparr>sc_one_time := False, sc_cron := Some ''hourly'', sc_next_run := Some (At 9), sc_paused := Some True\<rparr>"

definition ex_resume :: schedule_edit where
  "ex_resume =
     \<lparr>ed_description = None, ed_message = None, ed_channel_id = None, ed_paused = Some False, ed_tool_name = None,
      ed_tool_input = None, ed_report_format = None, ed_steps = None, ed_webhook_config = None, ed_max_retries = None,
      ed_backoff = None, ed_timezone = None, ed_timing = \<lparr>tm_cron = None, tm_run_at = None, tm_trigger = None\<rparr>,
      ed_validated = False\<rparr>"

theorem resume_skips_missed_slots_witness:
  "classify_due ex_sched_io ex_conn 100 new_scheduler (projr (build_update ex_sched_io 100 ex_resume ex_cron)) \<noteq> Due 9 False
   \<and> classify_due ex_sched_io ex_conn 100 new_scheduler (ex_cron\<lparr>sc_paused := Some False\<rparr>) = Due 9 False"
proof
  have ahead: "cron_next ex_sched_io expr zone t = Some n \<Longrightarrow> t < n" for expr zone t n
    by (auto simp: ex_sched_io_def)
  have "build_update ex_sched_io 100 ex_resume ex_cron = Inr (projr (build_update ex_sched_io 100 ex_resume ex_cron))"
    "is_paused ex_cron" "ed_paused ex_resume = Some False" "has_cron ex_cron" "\<not> sc_one_time ex_cron"
    "\<not> new_timing (ed_timing ex_resume)"
    by code_simp+
  from resume_skips_missed_slots [OF ahead this]
  show "classify_due ex_sched_io ex_conn 100 new_scheduler (projr (build_update ex_sched_io 100 ex_resume ex_cron)) \<noteq> Due 9 False" .
  show "classify_due ex_sched_io ex_conn 100 new_scheduler (ex_cron\<lparr>sc_paused := Some False\<rparr>) = Due 9 False"
    by code_simp
qed

section \<open>The loop's delay\<close>

lemma fold_min:
  fixes t :: py_time
  shows "fold min ts t \<le> t \<and> (\<forall>x\<in>set ts. fold min ts t \<le> x)"
proof (induction ts arbitrary: t)
  case (Cons x ts)
  have "fold min ts (min x t) \<le> min x t" using Cons.IH by blast
  then show ?case using Cons.IH by auto
qed simp

text \<open>
  The loop sleeps between one second and a minute, and never past a due time it could serve: for
  every schedule whose time is not owned by a running execution, it wakes by then (or in a second).
\<close>

theorem loop_never_oversleeps:
  "1 \<le> compute_tick_delay now s \<and> compute_tick_delay now s \<le> 60
   \<and> list_all (\<lambda>c. case pending_due s c of None \<Rightarrow> True | Some t \<Rightarrow> compute_tick_delay now s \<le> max 1 (t - now)) (sd_mem s)"
proof -
  let ?ts = "List.map_filter (pending_due s) (sd_mem s)"
  have mem: "t \<in> set ?ts" if "c \<in> set (sd_mem s)" "pending_due s c = Some t" for c t
    using that by (force simp: List.map_filter_def)
  have "compute_tick_delay now s \<le> max 1 (t - now)" if "t \<in> set ?ts" for t
  proof (cases ?ts)
    case Nil
    then show ?thesis using that by simp
  next
    case (Cons u us)
    have "fold min us u \<le> t" using that fold_min [of us u] unfolding Cons by auto
    then have "min 60 (fold min us u - now) \<le> t - now" by simp
    then have "max 1 (min 60 (fold min us u - now)) \<le> max 1 (t - now)" by (rule max.mono [OF order_refl])
    then show ?thesis by (simp only: compute_tick_delay_def Cons list.case)
  qed
  then have "list_all (\<lambda>c. case pending_due s c of None \<Rightarrow> True | Some t \<Rightarrow> compute_tick_delay now s \<le> max 1 (t - now)) (sd_mem s)"
    using mem by (auto simp: list_all_iff split: option.split)
  moreover have "1 \<le> compute_tick_delay now s" "compute_tick_delay now s \<le> 60"
    by (simp_all add: compute_tick_delay_def split: list.split)
  ultimately show ?thesis by blast
qed

end
