(* ===== verification/Output_Store.thy ===== *)
theory Output_Store
  imports Json_Inject
begin

text \<open>
  \<^verbatim>\<open>src/tools/output_retention.py\<close>: scrubbed tool output and binary attachments kept up to a day in two
  tables under an aggregate quota. A row that must make room expires the oldest cohorts (all rows with
  one expiry) that no delivery under way holds.

  The scrubber, the secret spans of a text, the pattern of possible credential contexts, SHA-256 of the
  UTF-8 form of a text, \<^verbatim>\<open>uuid4\<close>, the ISO text of a time and the live authorization are arguments. A
  transaction is one step with a flag for a failing database; hosts are the JSON value the row stores.
\<close>

section \<open>The tables\<close>

record snapshot =
  sn_id :: string
  sn_text :: string
  sn_owner :: string
  sn_channel :: string
  sn_tool :: string
  sn_hosts :: json
  sn_expires :: py_time
  sn_status :: string
  sn_boundaries :: "nat list"
  sn_size :: nat

record binary_snapshot =
  bs_id :: string
  bs_data :: bytes
  bs_owner :: string
  bs_channel :: string
  bs_tool :: string
  bs_hosts :: json
  bs_expires :: py_time
  bs_status :: string
  bs_size :: nat
  bs_media_type :: string
  bs_content_index :: int
  bs_kind :: string
  bs_sha256 :: string

record output_store =
  os_outputs :: "snapshot list"
  os_blobs :: "binary_snapshot list"
  os_holds :: "(string \<times> nat) list"
  os_per_result :: nat
  os_global :: nat

datatype retention_error = Retention string | Storage_unavailable

record output_env =
  oe_scrub :: "string \<Rightarrow> string"
  oe_sha256 :: "bytes \<Rightarrow> string"
  oe_isoformat :: "py_time \<Rightarrow> string"
  oe_secret_spans :: "string \<Rightarrow> (nat \<times> nat) list"
  oe_secret_context :: "string \<Rightarrow> bool"

section \<open>Holds\<close>

definition hold_count :: "string \<Rightarrow> output_store \<Rightarrow> nat" where
  "hold_count i st = (case map_of (os_holds st) i of None \<Rightarrow> 0 | Some n \<Rightarrow> n)"

definition set_hold :: "string \<Rightarrow> nat \<Rightarrow> output_store \<Rightarrow> output_store" where
  "set_hold i n st =
     st\<lparr>os_holds := (if 0 < n then jset i n (os_holds st) else jdel i (os_holds st))\<rparr>"

definition hold_result :: "bool \<Rightarrow> string \<Rightarrow> output_store \<Rightarrow> output_store" where
  "hold_result hold i st = (if hold then set_hold i (hold_count i st + 1) st else st)"

text \<open>The end of \<^verbatim>\<open>hold()\<close>: every id it held is released once.\<close>

definition release_holds :: "string list \<Rightarrow> output_store \<Rightarrow> output_store" where
  "release_holds held st = fold (\<lambda>i st. set_hold i (hold_count i st - 1) st) held st"

section \<open>Room\<close>

definition prune :: "py_time \<Rightarrow> output_store \<Rightarrow> output_store" where
  "prune now st =
     st\<lparr>os_outputs := filter (\<lambda>r. \<not> sn_expires r \<le> now) (os_outputs st),
        os_blobs := filter (\<lambda>r. \<not> bs_expires r \<le> now) (os_blobs st)\<rparr>"

text \<open>Expiry and size of every row.\<close>

definition charges :: "output_store \<Rightarrow> (py_time \<times> nat) list" where
  "charges st =
     map (\<lambda>r. (sn_expires r, sn_size r)) (os_outputs st) @ map (\<lambda>r. (bs_expires r, bs_size r)) (os_blobs st)"

definition live_charges :: "py_time \<Rightarrow> output_store \<Rightarrow> (py_time \<times> nat) list" where
  "live_charges now st = filter (\<lambda>p. now < fst p) (charges st)"

definition used :: "py_time \<Rightarrow> output_store \<Rightarrow> nat" where
  "used now st = sum_list (map snd (live_charges now st))"

definition protected_expiries :: "output_store \<Rightarrow> py_time list" where
  "protected_expiries st =
     (let held = map fst (os_holds st)
      in map sn_expires (filter (\<lambda>r. sn_id r \<in> set held) (os_outputs st))
         @ map bs_expires (filter (\<lambda>r. bs_id r \<in> set held) (os_blobs st)))"

text \<open>\<^verbatim>\<open>GROUP BY expires ORDER BY expires\<close>\<close>

definition cohorts :: "py_time \<Rightarrow> output_store \<Rightarrow> (py_time \<times> nat) list" where
  "cohorts now st =
     map (\<lambda>t. (t, sum_list (map snd (filter (\<lambda>p. fst p = t) (live_charges now st)))))
       (sort (remdups (map fst (live_charges now st))))"

text \<open>Oldest first until enough is freed.\<close>

fun pick_victims :: "py_time list \<Rightarrow> nat \<Rightarrow> (py_time \<times> nat) list \<Rightarrow> nat \<Rightarrow> py_time list \<times> nat" where
  "pick_victims protected excess [] freed = ([], freed)"
| "pick_victims protected excess ((t, len) # cs) freed =
     (if t \<in> set protected then pick_victims protected excess cs freed
      else if excess \<le> freed + len then ([t], freed + len)
      else let (ts, n) = pick_victims protected excess cs (freed + len) in (t # ts, n))"

definition expire_cohorts :: "py_time list \<Rightarrow> output_store \<Rightarrow> output_store" where
  "expire_cohorts victims st =
     st\<lparr>os_outputs := filter (\<lambda>r. sn_expires r \<notin> set victims) (os_outputs st),
        os_blobs := filter (\<lambda>r. bs_expires r \<notin> set victims) (os_blobs st)\<rparr>"

definition make_room :: "py_time \<Rightarrow> nat \<Rightarrow> output_store \<Rightarrow> retention_error + output_store" where
  "make_room now charge st =
     (if used now st + charge \<le> os_global st then Inr st
      else let excess = used now st + charge - os_global st;
               (victims, freed) = pick_victims (protected_expiries st) excess (cohorts now st) 0
           in if freed < excess then Inl (Retention ''Global retention quota exhausted.'')
              else Inr (expire_cohorts victims st))"

section \<open>Retaining text\<close>

text \<open>
  The quota check before scrubbing: parts are measured in pieces of 65536 characters, and the check
  stops at the first piece that exceeds the quota.
\<close>

function measure_pieces :: "nat \<Rightarrow> nat \<Rightarrow> string \<Rightarrow> nat option" where
  "measure_pieces limit raw part =
     (if part = [] then Some raw
      else let raw' = raw + utf8_length (take 65536 part)
           in if limit < raw' then None else measure_pieces limit raw' (drop 65536 part))"
  by pat_completeness auto

termination by (relation "measure (\<lambda>(limit, raw, part). length part)") auto

declare measure_pieces.simps [simp del]

fun measure_parts :: "nat \<Rightarrow> nat \<Rightarrow> string list \<Rightarrow> nat option" where
  "measure_parts limit raw [] = Some raw"
| "measure_parts limit raw (part # parts) =
     (if limit < raw + length part then None
      else case measure_pieces limit raw part of None \<Rightarrow> None | Some raw' \<Rightarrow> measure_parts limit raw' parts)"

definition raw_measure :: "nat \<Rightarrow> string \<Rightarrow> string list \<Rightarrow> nat option" where
  "raw_measure limit text matches =
     measure_parts limit ((length matches - 1) * 2) (if matches = [] then [text] else matches)"

text \<open>The end of each match in the joined text, its separator included.\<close>

fun match_bounds :: "nat \<Rightarrow> string list \<Rightarrow> nat list" where
  "match_bounds done_so_far [] = []"
| "match_bounds done_so_far [p] = [done_so_far + length p]"
| "match_bounds done_so_far (p # q # ps) = (done_so_far + length p + 2) # match_bounds (done_so_far + length p + 2) (q # ps)"

definition insert_output :: "snapshot \<Rightarrow> output_store \<Rightarrow> output_store" where
  "insert_output r st = st\<lparr>os_outputs := os_outputs st @ [r]\<rparr>"

text \<open>What the caller retains: a text, or ranked matches; and the scope it belongs to.\<close>

record out_scope =
  so_owner :: string
  so_channel :: string
  so_tool :: string
  so_hosts :: json
  so_status :: string

text \<open>The row of a text, scrubbed; its size is that of the scrubbed text.\<close>

definition retained_snapshot :: "output_env \<Rightarrow> py_time \<Rightarrow> string \<Rightarrow> string \<Rightarrow> string list \<Rightarrow> out_scope \<Rightarrow> snapshot" where
  "retained_snapshot env now uuid text matches scope =
     (let parts = map (oe_scrub env) matches;
          text' = (if matches = [] then oe_scrub env text else join [CHR 0x0A, CHR 0x0A] parts)
      in \<lparr>sn_id = uuid, sn_text = text', sn_owner = so_owner scope, sn_channel = so_channel scope,
          sn_tool = so_tool scope, sn_hosts = so_hosts scope, sn_expires = now + 86400, sn_status = so_status scope,
          sn_boundaries = (if matches = [] then [] else match_bounds 0 parts), sn_size = utf8_length text'\<rparr>)"

definition retain ::
  "output_env \<Rightarrow> py_time \<Rightarrow> string \<Rightarrow> bool \<Rightarrow> bool \<Rightarrow> string \<Rightarrow> string list \<Rightarrow> out_scope \<Rightarrow> output_store
     \<Rightarrow> (retention_error + snapshot) \<times> output_store" where
  "retain env now uuid hold fault text matches scope st =
     (if so_owner scope = [] then (Inl (Retention ''No originating authorization scope.''), st)
      else case raw_measure (os_per_result st) text matches of
        None \<Rightarrow> (Inl (Retention ''Per-result retention quota exceeded.''), st)
      | Some raw \<Rightarrow>
          if os_global st < raw then (Inl (Retention ''Global retention quota exhausted.''), st)
          else let snap = retained_snapshot env now uuid text matches scope
               in if os_per_result st < sn_size snap then (Inl (Retention ''Per-result retention quota exceeded.''), st)
                  else let st1 = hold_result hold uuid st
                       in if fault then (Inl Storage_unavailable, st1)
                          else case make_room now (sn_size snap) (prune now st1) of
                                 Inl e \<Rightarrow> (Inl e, st1)
                               | Inr st2 \<Rightarrow> (Inr snap, insert_output snap st2))"

section \<open>Retaining attachments\<close>

record attachment =
  at_data :: bytes
  at_media_type :: string
  at_content_index :: int
  at_kind :: string

definition compact_json :: "dict \<Rightarrow> string" where
  "compact_json d = json_print [CHR '',''] [CHR '':''] (JObj d)"

definition page_cursor :: "string \<Rightarrow> nat \<Rightarrow> string" where
  "page_cursor i n = i @ [CHR '':''] @ nat_text n"

definition binary_reference :: "output_env \<Rightarrow> binary_snapshot \<Rightarrow> dict" where
  "binary_reference env b =
     [(''kind'', JStr ''tool_attachment''), (''retention'', JStr ''retained''),
      (''status'', JStr (oe_scrub env (bs_status b))), (''result_id'', JStr (bs_id b)),
      (''content_index'', JInt (bs_content_index b)), (''content_type'', JStr (oe_scrub env (bs_kind b))),
      (''media_type'', JStr (oe_scrub env (bs_media_type b))), (''total_bytes'', JInt (int (length (bs_data b)))),
      (''sha256'', JStr (bs_sha256 b)), (''expires_at'', JStr (oe_isoformat env (bs_expires b))),
      (''retrieval'', JObj [(''tool'', JStr ''get_tool_output''),
                            (''arguments'', JObj [(''cursor'', JStr (page_cursor (bs_id b) 0))])])]"

definition blob_of :: "output_env \<Rightarrow> py_time \<Rightarrow> out_scope \<Rightarrow> string \<Rightarrow> attachment \<Rightarrow> binary_snapshot" where
  "blob_of env now scope uuid a =
     \<lparr>bs_id = uuid, bs_data = at_data a, bs_owner = so_owner scope, bs_channel = so_channel scope,
      bs_tool = so_tool scope, bs_hosts = so_hosts scope, bs_expires = now + 86400,
      bs_status = oe_scrub env (so_status scope), bs_size = length (at_data a) + 512,
      bs_media_type = oe_scrub env (at_media_type a), bs_content_index = at_content_index a,
      bs_kind = oe_scrub env (at_kind a), bs_sha256 = oe_sha256 env (at_data a)\<rparr>"

definition manifest_text :: "output_env \<Rightarrow> binary_snapshot list \<Rightarrow> string" where
  "manifest_text env blobs = compact_json [(''attachments'', JList (map (\<lambda>b. JObj (binary_reference env b)) blobs))]"

definition manifest_snapshot :: "output_env \<Rightarrow> py_time \<Rightarrow> string \<Rightarrow> binary_snapshot list \<Rightarrow> out_scope \<Rightarrow> snapshot" where
  "manifest_snapshot env now uuid blobs scope =
     \<lparr>sn_id = uuid, sn_text = manifest_text env blobs, sn_owner = so_owner scope, sn_channel = so_channel scope,
      sn_tool = so_tool scope, sn_hosts = so_hosts scope, sn_expires = now + 86400, sn_status = so_status scope,
      sn_boundaries = [], sn_size = utf8_length (manifest_text env blobs)\<rparr>"

text \<open>The ids are those of the blobs, then the manifest's.\<close>

definition retain_binary_bundle ::
  "output_env \<Rightarrow> py_time \<Rightarrow> string list \<Rightarrow> string \<Rightarrow> bool \<Rightarrow> bool \<Rightarrow> attachment list \<Rightarrow> out_scope \<Rightarrow> output_store
     \<Rightarrow> (retention_error + snapshot) \<times> output_store" where
  "retain_binary_bundle env now uuids uuid hold fault attachments scope st =
     (if so_owner scope = [] then (Inl (Retention ''No originating authorization scope.''), st)
      else if \<not> (1 \<le> length attachments \<and> length attachments \<le> 64) then (Inl (Retention ''Invalid attachment bundle size.''), st)
      else if os_per_result st < sum_list (map (\<lambda>a. length (at_data a)) attachments)
      then (Inl (Retention ''Per-result retention quota exceeded.''), st)
      else
        let blobs = map2 (blob_of env now scope) uuids attachments;
            manifest = manifest_snapshot env now uuid blobs scope
        in if os_per_result st < sn_size manifest then (Inl (Retention ''Attachment manifest quota exceeded.''), st)
           else let st1 = hold_result hold uuid st
                in if fault then (Inl Storage_unavailable, st1)
                   else case make_room now (sn_size manifest + sum_list (map bs_size blobs)) (prune now st1) of
                          Inl e \<Rightarrow> (Inl e, st1)
                        | Inr st2 \<Rightarrow> (Inr manifest, insert_output manifest (st2\<lparr>os_blobs := os_blobs st2 @ blobs\<rparr>)))"

section \<open>Reading\<close>

definition hex_digit :: "char \<Rightarrow> bool" where
  "hex_digit c \<longleftrightarrow> c \<in> set ''0123456789abcdef''"

text \<open>\<^verbatim>\<open>int(text)\<close>: blanks around, a sign, and single underscores between digits.\<close>

fun underscored :: "string \<Rightarrow> string option" where
  "underscored [] = None"
| "underscored [c] = (if is_digit c then Some [c] else None)"
| "underscored (c # d # cs) =
     (if \<not> is_digit c then None
      else map_option (Cons c) (underscored (if d = CHR ''_'' then cs else d # cs)))"

definition parse_int :: "string \<Rightarrow> int option" where
  "parse_int text =
     (let t = strip text
      in case t of
           [] \<Rightarrow> None
         | c # cs \<Rightarrow>
             if c = CHR ''-'' then map_option (\<lambda>ds. - int (digits_value ds)) (underscored cs)
             else map_option (\<lambda>ds. int (digits_value ds)) (underscored (if c = CHR ''+'' then cs else t)))"

definition split_cursor :: "string \<Rightarrow> (string \<times> string) option" where
  "split_cursor c =
     (let i = takeWhile (\<lambda>x. x \<noteq> CHR '':'') c; rest = dropWhile (\<lambda>x. x \<noteq> CHR '':'') c
      in case rest of [] \<Rightarrow> None | _ # n \<Rightarrow> if CHR '':'' \<in> set n then None else Some (i, n))"

definition parse_cursor :: "string \<Rightarrow> (string \<times> int) option" where
  "parse_cursor c =
     (case split_cursor c of
        None \<Rightarrow> None
      | Some (i, n) \<Rightarrow> if length i \<noteq> 32 \<or> \<not> list_all hex_digit i then None else map_option (\<lambda>k. (i, k)) (parse_int n))"

datatype stored = Text_output snapshot | Binary_output binary_snapshot

fun stored_meta :: "stored \<Rightarrow> (string \<times> string) \<times> string \<times> json \<times> py_time" where
  "stored_meta (Text_output r) = ((sn_owner r, sn_channel r), sn_tool r, sn_hosts r, sn_expires r)"
| "stored_meta (Binary_output b) = ((bs_owner b, bs_channel b), bs_tool b, bs_hosts b, bs_expires b)"

fun stored_length :: "stored \<Rightarrow> nat" where
  "stored_length (Text_output r) = length (sn_text r)"
| "stored_length (Binary_output b) = length (bs_data b)"

definition lookup_output :: "string \<Rightarrow> output_store \<Rightarrow> stored option" where
  "lookup_output i st =
     (case find (\<lambda>r. sn_id r = i) (os_outputs st) of
        Some r \<Rightarrow> Some (Text_output r)
      | None \<Rightarrow> map_option Binary_output (find (\<lambda>b. bs_id b = i) (os_blobs st)))"

text \<open>The clock is read for the pruning and again for the row; pruning stays even when the read is refused.\<close>

definition read_output ::
  "py_time \<Rightarrow> py_time \<Rightarrow> bool \<Rightarrow> string \<Rightarrow> string \<Rightarrow> string \<Rightarrow> (string \<Rightarrow> json \<Rightarrow> bool) \<Rightarrow> output_store
     \<Rightarrow> (retention_error + stored \<times> nat) \<times> output_store" where
  "read_output now now2 fault cursor owner channel authorize st =
     (case parse_cursor cursor of
        None \<Rightarrow> (Inl (Retention ''Invalid output cursor.''), st)
      | Some (i, offset) \<Rightarrow>
          if fault then (Inl Storage_unavailable, st)
          else
            let st' = prune now st
            in case lookup_output i st' of
                 None \<Rightarrow> (Inl (Retention ''Retention expired or unavailable; no continuation exists.''), st')
               | Some r \<Rightarrow>
                   let (scope, tool, hosts, expires) = stored_meta r
                   in if expires \<le> now2
                      then (Inl (Retention ''Retention expired or unavailable; no continuation exists.''), st')
                      else if owner = [] \<or> scope \<noteq> (owner, channel) \<or> \<not> authorize tool hosts
                      then (Inl (Retention ''Permission denied: originating output scope is no longer authorized.''), st')
                      else if offset < 0 \<or> int (stored_length r) < offset
                      then (Inl (Retention ''Invalid output cursor offset.''), st')
                      else (Inr (r, nat offset), st'))"

end
