(* ===== verification/Output_Page.thy ===== *)
theory Output_Page
  imports Output_Store
begin

text \<open>
  \<^verbatim>\<open>src/tools/output_delivery.py\<close>: what of a tool's output fits the delivery budget, as a JSON envelope
  that carries a cursor to the rest; pages of retained text and of retained files; and the envelope of a
  delivery that failed. A rendered page is its dictionary; its length is that of the compact JSON text.
\<close>

section \<open>Bisection\<close>

function bisect_last :: "(nat \<Rightarrow> bool) \<Rightarrow> nat \<Rightarrow> nat \<Rightarrow> nat" where
  "bisect_last ok low high =
     (if low < high
      then let middle = (low + high + 1) div 2
           in if ok middle then bisect_last ok middle high else bisect_last ok low (middle - 1)
      else low)"
  by pat_completeness auto

termination by (relation "measure (\<lambda>(ok, low, high). high - low)") auto

declare bisect_last.simps [simp del]

section \<open>A failed delivery\<close>

text \<open>\<^verbatim>\<open>text[-n:]\<close>; for \<^verbatim>\<open>n = 0\<close> it is the whole text.\<close>

definition last_chars :: "nat \<Rightarrow> string \<Rightarrow> string" where
  "last_chars n s = (if n = 0 then s else drop (length s - n) s)"

text \<open>\<^verbatim>\<open>text.rfind("\n", 0, start) + 1\<close>\<close>

definition line_start :: "string \<Rightarrow> nat \<Rightarrow> nat" where
  "line_start s start = start - length (takeWhile (\<lambda>c. c \<noteq> CHR 0x0A) (rev (take start s)))"

definition after_newline :: "string \<Rightarrow> string" where
  "after_newline s = drop 1 (dropWhile (\<lambda>c. c \<noteq> CHR 0x0A) s)"

definition failure_tail :: "output_env \<Rightarrow> nat \<Rightarrow> string \<Rightarrow> string" where
  "failure_tail env budget text =
     (let n = length text; tail = last_chars budget text
      in if n \<le> budget \<or> text ! (n - budget - 1) = CHR 0x0A then tail
         else let start = n - budget - 256; ls = line_start text start
              in if \<not> oe_secret_context env (take (start - ls) (drop ls text))
                 then last_chars budget (oe_scrub env (drop start text))
                 else ''[partial line omitted]'' @ [CHR 0x0A] @ after_newline tail)"

definition failure_envelope :: "string \<Rightarrow> string \<Rightarrow> string \<Rightarrow> string \<Rightarrow> nat \<Rightarrow> string" where
  "failure_envelope status reason head tail n =
     compact_json
       [(''kind'', JStr ''tool_output''), (''status'', JStr status), (''retention'', JStr ''failed''),
        (''error'', JStr reason), (''truncated'', JBool True), (''cursor'', JNull),
        (''head'', JStr (take n head)),
        (''tail'', JObj [(''text'', JStr (if n = 0 then [] else last_chars n tail))])]"

definition compact_failure :: "nat \<Rightarrow> string" where
  "compact_failure budget =
     (let c1 = compact_json [(''retention'', JStr ''failed''), (''error'', JStr ''no continuation exists''), (''cursor'', JNull)];
          c2 = compact_json [(''retention'', JStr ''failed''), (''cursor'', JNull)];
          c = (if budget < length c1 then c2 else c1)
      in if length c \<le> budget then c else if 2 \<le> budget then ''{}'' else [])"

definition delivery_failure :: "output_env \<Rightarrow> string \<Rightarrow> string \<Rightarrow> string \<Rightarrow> nat \<Rightarrow> string" where
  "delivery_failure env reason status text budget =
     (let head = take budget (oe_scrub env (take (budget + 256) text));
          tail = oe_scrub env (failure_tail env budget text);
          envelope = failure_envelope status reason head tail
      in if budget < length (envelope 0) then compact_failure budget
         else envelope (bisect_last (\<lambda>n. length (envelope n) \<le> budget) 0
                          (min budget (max (length head) (length tail)))))"

section \<open>Pages of text\<close>

definition slice :: "nat \<Rightarrow> nat \<Rightarrow> 'a list \<Rightarrow> 'a list" where
  "slice a b s = drop a (take b s)"

text \<open>Secret spans of an old manifest are masked in place.\<close>

fun masked_from :: "nat \<Rightarrow> (nat \<times> nat) list \<Rightarrow> string \<Rightarrow> string" where
  "masked_from start [] text = drop start text"
| "masked_from start ((l, r) # spans) text =
     slice start l text @ replicate (r - l) (CHR ''*'') @ masked_from r spans text"

definition manifest_prefix :: string where
  "manifest_prefix = CHR ''{'' # CHR 0x22 # ''attachments'' @ [CHR 0x22, CHR '':'']"

definition shown_text :: "output_env \<Rightarrow> string \<Rightarrow> string" where
  "shown_text env text =
     (if take (length manifest_prefix) text = manifest_prefix \<and> oe_secret_spans env text \<noteq> []
      then masked_from 0 (oe_secret_spans env text) text else text)"

definition retrieval :: "json \<Rightarrow> nat \<Rightarrow> json" where
  "retrieval cursor limit =
     JObj [(''tool'', JStr ''get_tool_output''),
           (''arguments'', JObj [(''cursor'', cursor), (''limit'', JInt (int limit))])]"

definition matches_shown :: "nat list \<Rightarrow> nat \<Rightarrow> nat \<Rightarrow> nat \<Rightarrow> dict" where
  "matches_shown bounds offset end_pos n =
     (let before = length (filter (\<lambda>b. b \<le> offset) bounds);
          shown = length (filter (\<lambda>b. offset < b \<and> b \<le> end_pos) bounds);
          count = length bounds
      in [(''showing'', JInt (int shown)), (''total_returned'', JInt (int count)),
          (''deferred'', JInt (int count - int before - int shown)), (''first_index'', JInt (int before)),
          (''fragment'', JBool ((0 < offset \<and> offset \<notin> set bounds) \<or> (end_pos \<notin> set bounds \<and> end_pos < n))),
          (''summary'', JStr (''showing '' @ nat_text shown @ '' of '' @ nat_text count @ '' returned matches; ''
                              @ int_text (int count - int before - int shown) @ '' deferred''))])"

definition page_envelope ::
  "output_env \<Rightarrow> snapshot \<Rightarrow> bool \<Rightarrow> nat \<Rightarrow> nat \<Rightarrow> nat \<Rightarrow> nat \<Rightarrow> dict" where
  "page_envelope env snap initial limit offset tail end_pos =
     (let text = shown_text env (sn_text snap); n = length (sn_text snap);
          cursor = (if end_pos < n then JStr (page_cursor (sn_id snap) end_pos) else JNull)
      in [(''kind'', JStr ''tool_output''), (''status'', JStr (sn_status snap)), (''retention'', JStr ''retained''),
          (''result_id'', JStr (sn_id snap)), (''expires_at'', JStr (oe_isoformat env (sn_expires snap))),
          (''total_chars'', JInt (int n)), (''total_bytes'', JInt (int (utf8_length text))),
          (''offset_unit'', JStr ''unicode_code_points''), (''start'', JInt (int offset)), (''end'', JInt (int end_pos)),
          ((if initial then ''head'' else ''text''), JStr (slice offset end_pos text)),
          (''truncated'', JBool (end_pos < n)), (''cursor'', cursor),
          (''retrieval'', if cursor = JNull then JNull else retrieval cursor limit)]
         @ (if initial
            then [(''tail'', JObj [(''start'', JInt (int n - int tail)), (''end'', JInt (int n)),
                                   (''text'', JStr (slice (n - tail) n text))]),
                  (''tail_is_context_only'', JBool True)]
            else [])
         @ (if sn_boundaries snap = [] then []
            else [(''matches'', JObj (matches_shown (sn_boundaries snap) offset end_pos n))]))"

text \<open>The tail of an initial page is halved until it leaves room.\<close>

function shrink_tail :: "(nat \<Rightarrow> nat) \<Rightarrow> nat \<Rightarrow> nat \<Rightarrow> nat" where
  "shrink_tail len budget tail =
     (if 0 < tail \<and> budget \<le> len tail + 32 then shrink_tail len budget (tail div 2) else tail)"
  by pat_completeness auto

termination by (relation "measure (\<lambda>(len, budget, tail). tail)") auto

declare shrink_tail.simps [simp del]

datatype rendered = Page dict | Failure string

fun rendered_text :: "rendered \<Rightarrow> string" where
  "rendered_text (Page d) = compact_json d"
| "rendered_text (Failure f) = f"

definition page_len :: "dict \<Rightarrow> nat" where
  "page_len d = length (compact_json d)"

text \<open>The last match that ends inside the page, if any does.\<close>

definition whole_matches :: "nat list \<Rightarrow> nat \<Rightarrow> nat \<Rightarrow> nat" where
  "whole_matches bounds offset low =
     (case filter (\<lambda>b. offset < b \<and> b \<le> low) bounds of [] \<Rightarrow> low | b # bs \<Rightarrow> last (b # bs))"

definition render_page :: "output_env \<Rightarrow> snapshot \<Rightarrow> nat \<Rightarrow> nat \<Rightarrow> nat \<Rightarrow> bool \<Rightarrow> rendered" where
  "render_page env snap offset budget limit initial =
     (let n = length (sn_text snap); text = shown_text env (sn_text snap);
          tail0 = (if initial \<and> sn_boundaries snap = [] then min 1000 (min ((budget - 800) div 8) n) else 0);
          tail = shrink_tail (\<lambda>t. page_len (page_envelope env snap initial limit offset t offset)) budget tail0;
          page = page_envelope env snap initial limit offset tail;
          high = min n (offset + limit)
      in if high = n \<and> page_len (page n) \<le> budget then Page (page n)
         else
           let low0 = bisect_last (\<lambda>e. page_len (page e) \<le> budget) offset high;
               low = whole_matches (sn_boundaries snap) offset low0
           in if low = offset \<and> offset < n
              then Failure (delivery_failure env ''Budget cannot fit a complete code point and envelope.''
                              (sn_status snap) text budget)
              else if budget < page_len (page low)
              then Failure (delivery_failure env ''Budget cannot fit the complete envelope.'' (sn_status snap) text budget)
              else Page (page low))"

section \<open>Pages of files\<close>

definition b64_char :: "nat \<Rightarrow> char" where
  "b64_char n = ''ABCDEFGHIJKLMNOPQRSTUVWXYZabcdefghijklmnopqrstuvwxyz0123456789+/'' ! n"

fun b64encode :: "bytes \<Rightarrow> string" where
  "b64encode [] = []"
| "b64encode [a] =
     (let x = of_char a in [b64_char (x div 4), b64_char (x mod 4 * 16), CHR ''='', CHR ''=''])"
| "b64encode [a, b] =
     (let x = of_char a; y = of_char b
      in [b64_char (x div 4), b64_char (x mod 4 * 16 + y div 16), b64_char (y mod 16 * 4), CHR ''=''])"
| "b64encode (a # b # c # cs) =
     (let x = of_char a; y = of_char b; z = of_char c
      in [b64_char (x div 4), b64_char (x mod 4 * 16 + y div 16), b64_char (y mod 16 * 4 + z div 64), b64_char (z mod 64)]
         @ b64encode cs)"

definition posting_reference :: "binary_snapshot \<Rightarrow> json" where
  "posting_reference b =
     JObj [(''tool'', JStr ''post_file''), (''arguments'', JObj [(''attachment'', JStr (page_cursor (bs_id b) 0))])]"

definition binary_envelope :: "output_env \<Rightarrow> binary_snapshot \<Rightarrow> nat \<Rightarrow> nat \<Rightarrow> bool \<Rightarrow> nat \<Rightarrow> dict" where
  "binary_envelope env b limit offset post end_pos =
     (let n = length (bs_data b);
          cursor = (if end_pos < n then JStr (page_cursor (bs_id b) end_pos) else JNull);
          page = fold (\<lambda>(k, v). jset k v)
            ([(''kind'', JStr ''tool_attachment_page''), (''encoding'', JStr ''base64''), (''offset_unit'', JStr ''bytes''),
              (''start'', JInt (int offset)), (''end'', JInt (int end_pos)),
              (''data_base64'', JStr (b64encode (slice offset end_pos (bs_data b)))),
              (''truncated'', JBool (end_pos < n)), (''cursor'', cursor),
              (''retrieval'', if cursor = JNull then JNull else retrieval cursor limit)])
            (binary_reference env b)
      in if post then jset ''post'' (posting_reference b) page else page)"

definition render_binary_page :: "output_env \<Rightarrow> binary_snapshot \<Rightarrow> nat \<Rightarrow> nat \<Rightarrow> nat \<Rightarrow> rendered" where
  "render_binary_page env b offset budget limit =
     (let n = length (bs_data b); page = binary_envelope env b limit offset;
          finished = (\<lambda>e. if page_len (page True e) \<le> budget then Page (page True e) else Page (page False e));
          high = min n (offset + limit div 4 * 3)
      in if high = n \<and> page_len (page False high) \<le> budget then finished high
         else
           let low = bisect_last (\<lambda>e. page_len (page False e) \<le> budget) offset high
           in if (low = offset \<and> offset < n) \<or> budget < page_len (page False low)
              then Failure (delivery_failure env ''Budget cannot fit a binary page.'' (bs_status b) [] budget)
              else finished low)"

section \<open>Delivery\<close>

datatype captured = Plain string | Ranked string "string list" bool | Already string string

fun captured_text :: "captured \<Rightarrow> string" where
  "captured_text (Plain t) = t"
| "captured_text (Ranked t ms required) = t"
| "captured_text (Already t digest) = t"

fun captured_matches :: "captured \<Rightarrow> string list" where
  "captured_matches (Ranked t ms required) = ms"
| "captured_matches c = []"

fun recovery_required :: "captured \<Rightarrow> bool" where
  "recovery_required (Ranked t ms required) = required"
| "recovery_required c = False"

text \<open>\<^verbatim>\<open>evidence_digest\<close>: evidence too large to retain is hashed unscrubbed under its own prefix.\<close>

definition evidence_digest :: "output_env \<Rightarrow> captured \<Rightarrow> string" where
  "evidence_digest env c =
     (let ms = captured_matches c; parts = (if ms = [] then [captured_text c] else ms);
          digest = (if 4194304 < sum_list (map length parts) + (length parts - 1) * 2
                    then oe_sha256 env (''unretainable-source'' @ [CHR 0x00] @ join [CHR 0x0A, CHR 0x0A] parts)
                    else oe_sha256 env (if ms = [] then oe_scrub env (captured_text c)
                                        else join [CHR 0x0A, CHR 0x0A] (map (oe_scrub env) ms)))
      in case c of Already t d \<Rightarrow> if d \<noteq> [] then d else digest | _ \<Rightarrow> digest)"

text \<open>What reaches the model: the captured object itself, its scrubbed text, or an envelope.\<close>

datatype delivered = Unchanged string | Cleaned string | Envelope string bool string

fun delivered_text :: "delivered \<Rightarrow> string" where
  "delivered_text (Unchanged t) = t"
| "delivered_text (Cleaned t) = t"
| "delivered_text (Envelope t truncated digest) = t"

definition match_pointer :: "string \<Rightarrow> string" where
  "match_pointer i = CHR 0x0A # ''full matches: get_tool_output cursor='' @ i @ '':0''"

definition match_preview :: "output_env \<Rightarrow> nat \<Rightarrow> string \<Rightarrow> string \<Rightarrow> string" where
  "match_preview env budget i text =
     (let pointer = match_pointer i; preview = oe_scrub env text; available = budget - length pointer
      in (if available < length preview then take (available - 6) preview @ [CHR 0x0A] @ ''[...]'' else preview) @ pointer)"

definition deliver ::
  "output_env \<Rightarrow> py_time \<Rightarrow> string \<Rightarrow> bool \<Rightarrow> captured \<Rightarrow> out_scope \<Rightarrow> nat \<Rightarrow> output_store option
     \<Rightarrow> delivered \<times> output_store option" where
  "deliver env now uuid fault c scope budget store =
     (let ms = captured_matches c; t = captured_text c; cleaned = oe_scrub env t; digest = evidence_digest env c;
          small = (length t \<le> budget \<and> (\<not> recovery_required c \<or> list_all (\<lambda>m. occurs_in m t) ms));
          (text, kept) = (if small then (cleaned, []) else (t, ms));
          failed = (\<lambda>reason. Envelope (delivery_failure env reason (so_status scope) text budget) True digest)
      in if small \<and> length cleaned \<le> budget then (if cleaned = t then (Unchanged t, store) else (Cleaned cleaned, store))
         else case store of
           None \<Rightarrow> (failed ''Retention unavailable; output not retained; no continuation exists.'', None)
         | Some st \<Rightarrow>
             (case retain env now uuid False fault text kept scope st of
                (Inl (Retention e), st') \<Rightarrow> (failed (e @ '' no continuation exists.''), Some st')
              | (Inl Storage_unavailable, st') \<Rightarrow> (failed ''Retention storage unavailable. no continuation exists.'', Some st')
              | (Inr snap, st') \<Rightarrow>
                  if ms \<noteq> [] \<and> length text \<le> budget
                  then (Envelope (match_preview env budget (sn_id snap) text) True digest, Some st')
                  else (case render_page env snap 0 budget 4000 True of
                          Page d \<Rightarrow> (Envelope (compact_json d) (truthy (fget ''truncated'' d)) digest, Some st')
                        | Failure f \<Rightarrow> (Envelope f True digest, Some st'))))"

section \<open>The retrieval tool\<close>

text \<open>\<^verbatim>\<open>default_if_empty\<close>: null and blank strings count as omitted.\<close>

definition default_if_empty :: "json \<Rightarrow> json \<Rightarrow> json" where
  "default_if_empty v d =
     (case v of JNull \<Rightarrow> d | JStr s \<Rightarrow> if strip s = [] then d else v | _ \<Rightarrow> v)"

definition page_limit :: "dict \<Rightarrow> nat option" where
  "page_limit inp =
     (case default_if_empty (fget ''limit'' inp) (JInt 4000) of
        JInt n \<Rightarrow> if 4 \<le> n \<and> n \<le> 8000 then Some (nat n) else None
      | _ \<Rightarrow> None)"

text \<open>A cursor that is no string is refused like an unreadable one.\<close>

definition cursor_arg :: "dict \<Rightarrow> string" where
  "cursor_arg inp = (case jget ''cursor'' inp of Some (JStr c) \<Rightarrow> c | _ \<Rightarrow> [])"

text \<open>\<^verbatim>\<open>_handle_get_tool_output\<close>; no result stands for the raised database error.\<close>

definition get_tool_output ::
  "output_env \<Rightarrow> py_time \<Rightarrow> py_time \<Rightarrow> bool \<Rightarrow> nat \<Rightarrow> string \<Rightarrow> string \<Rightarrow> (string \<Rightarrow> json \<Rightarrow> bool) \<Rightarrow> dict \<Rightarrow> output_store
     \<Rightarrow> rendered option \<times> output_store" where
  "get_tool_output env now now2 fault budget owner channel authorize inp st =
     (case page_limit inp of
        None \<Rightarrow> (Some (Failure ''Error: limit must be an integer from 4 through 8000.''), st)
      | Some limit \<Rightarrow>
          (case read_output now now2 fault (cursor_arg inp) owner channel authorize st of
             (Inl (Retention e), st') \<Rightarrow> (Some (Failure (''Error: '' @ e)), st')
           | (Inl Storage_unavailable, st') \<Rightarrow> (None, st')
           | (Inr (Text_output snap, offset), st') \<Rightarrow> (Some (render_page env snap offset budget limit False), st')
           | (Inr (Binary_output b, offset), st') \<Rightarrow> (Some (render_binary_page env b offset budget limit), st')))"

text \<open>
  A reader that follows the cursors: each page is asked for with the cursor of the one before, at the
  next two readings of the clock. It ends with the text it has read, with the answer that was no page,
  or with nothing when the readings run out.
\<close>

fun follow_cursors ::
  "output_env \<Rightarrow> nat \<Rightarrow> string \<Rightarrow> string \<Rightarrow> (string \<Rightarrow> json \<Rightarrow> bool) \<Rightarrow> nat \<Rightarrow> (py_time \<times> py_time) list \<Rightarrow> string
     \<Rightarrow> output_store \<Rightarrow> (string + string) option" where
  "follow_cursors env budget owner channel authorize limit [] cursor st = None"
| "follow_cursors env budget owner channel authorize limit ((now, now2) # clock) cursor st =
     (case get_tool_output env now now2 False budget owner channel authorize
             [(''cursor'', JStr cursor), (''limit'', JInt (int limit))] st of
        (None, st') \<Rightarrow> None
      | (Some (Failure f), st') \<Rightarrow> Some (Inl f)
      | (Some (Page d), st') \<Rightarrow>
          let shown = (case fget ''text'' d of JStr s \<Rightarrow> s | _ \<Rightarrow> [])
          in (case fget ''cursor'' d of
                JStr c \<Rightarrow> map_option (map_sum id (\<lambda>rest. shown @ rest))
                            (follow_cursors env budget owner channel authorize limit clock c st')
              | _ \<Rightarrow> Some (Inr shown)))"

end
