(* ===== verification/Host_Registry.thy ===== *)
theory Host_Registry
  imports Json_Inject
begin

text \<open>
  \<^verbatim>\<open>src/tools/hosts/registry.py\<close>: the runtime inventory of managed hosts. Every published definition of a
  host is a generation of its own; an operation leases one generation, a replaced generation drains and is
  retired when its last lease is released, and a forced revocation trips the event its leases share.

  The events are objects with identity: the state holds a heap of flags, an event is an address in it, and
  the registry and its leases share addresses. Leases are objects too, addressed by their position. UUID
  parsing, the UUID of an alias, base64 decoding, SHA-256 and the outcome of a file write are arguments.
\<close>

section \<open>Public keys\<close>

text \<open>\<^verbatim>\<open>text.split()\<close>\<close>

fun split_words_from :: "string \<Rightarrow> string \<Rightarrow> string list" where
  "split_words_from w [] = (if w = [] then [] else [w])"
| "split_words_from w (c # cs) =
     (if is_space c then (if w = [] then [] else [w]) @ split_words_from [] cs else split_words_from (w @ [c]) cs)"

definition split_words :: "string \<Rightarrow> string list" where
  "split_words s = split_words_from [] s"

definition key_control_char :: "char \<Rightarrow> bool" where
  "key_control_char c \<longleftrightarrow> (of_char c :: nat) < 32 \<or> (of_char c :: nat) = 127"

definition KEY_TYPES :: "string list" where
  "KEY_TYPES = [''ssh-ed25519'', ''ssh-rsa'', ''ecdsa-sha2-nistp256'', ''ecdsa-sha2-nistp384'',
     ''ecdsa-sha2-nistp521'', ''sk-ssh-ed25519@openssh.com'', ''sk-ecdsa-sha2-nistp256@openssh.com'']"

text \<open>\<^verbatim>\<open>normalize_public_key\<close>; \<open>b64\<close> is strict decoding, and no result stands for a \<^verbatim>\<open>HostTrustError\<close>.\<close>

definition normalize_public_key :: "(string \<Rightarrow> bytes option) \<Rightarrow> string \<Rightarrow> string option" where
  "normalize_public_key b64 line =
     (let t = strip line
      in if list_ex key_control_char t then None
         else case dropWhile (\<lambda>w. w \<notin> set KEY_TYPES) (split_words t) of
                key_type # encoded # _ \<Rightarrow>
                  if list_ex (\<lambda>c. 128 \<le> (of_char c :: nat)) encoded then None
                  else (case b64 encoded of
                          None \<Rightarrow> None
                        | Some raw \<Rightarrow> if raw = [] \<or> 16384 < length raw then None else Some (key_type @ '' '' @ encoded))
              | _ \<Rightarrow> None)"

fun collect_all :: "('a \<Rightarrow> 'b option) \<Rightarrow> 'a list \<Rightarrow> 'b list option" where
  "collect_all f [] = Some []"
| "collect_all f (x # xs) =
     (case f x of None \<Rightarrow> None | Some y \<Rightarrow> map_option (Cons y) (collect_all f xs))"

section \<open>Targets, leases and the registry\<close>

record tool_host =
  th_address :: string
  th_user :: string
  th_os :: string
  th_port :: int
  th_description :: string
  th_enabled :: bool
  th_host_id :: string
  th_trust_mode :: string
  th_host_keys :: "string list"

record host_target =
  ht_alias :: string
  ht_host_id :: string
  ht_generation :: nat
  ht_address :: string
  ht_user :: string
  ht_os :: string
  ht_port :: int
  ht_description :: string
  ht_enabled :: bool
  ht_trust_mode :: string
  ht_host_keys :: "string list"
  ht_key_path :: string
  ht_known_hosts :: string
  ht_key_alias :: string
  ht_targetable :: bool
  ht_trust_state :: string
  ht_last_test :: "dict option"
  ht_diagnostic :: string

text \<open>A lease is managed when releasing it counts; a borrowed one and that of a test are not.\<close>

record host_lease =
  hl_target :: host_target
  hl_event :: nat
  hl_managed :: bool
  hl_released :: bool

text \<open>
  \<open>hr_finished\<close> lists the generations whose retirement has finished, in order: each was given to the
  retirement callback, if there is one.
\<close>

record host_registry =
  hr_generation :: nat
  hr_key_path :: string
  hr_legacy_known_hosts :: string
  hr_default :: string
  hr_snapshot :: "(string \<times> host_target) list"
  hr_counts :: "(string \<times> nat) list"
  hr_events :: "(string \<times> nat) list"
  hr_retired :: "(string \<times> host_target) list"
  hr_flags :: "bool list"
  hr_leases :: "host_lease list"
  hr_finished :: "host_target list"

record host_publication =
  pb_expected :: nat
  pb_generation :: nat
  pb_default :: string
  pb_snapshot :: "(string \<times> host_target) list"

datatype registry_error =
  Malformed_host_id | Duplicate_host_identity | Malformed_public_key | Trust_not_written | Registry_changed | Duplicate_staged_identity

record host_env =
  he_uuid :: "string \<Rightarrow> string option"
  he_uuid_of_alias :: "string \<Rightarrow> string"
  he_b64 :: "string \<Rightarrow> bytes option"
  he_sha256 :: "string \<Rightarrow> string"
  he_trust_dir :: string

definition runtime_key_of :: "string \<Rightarrow> nat \<Rightarrow> string" where
  "runtime_key_of host_id g = host_id @ [CHR '':''] @ nat_text g"

definition runtime_key :: "host_target \<Rightarrow> string" where
  "runtime_key t = runtime_key_of (ht_host_id t) (ht_generation t)"

definition is_local_address :: "string \<Rightarrow> bool" where
  "is_local_address a \<longleftrightarrow> a \<in> set [''127.0.0.1'', ''localhost'', ''::1'']"

section \<open>Queries\<close>

definition lease_count :: "string \<Rightarrow> host_registry \<Rightarrow> nat" where
  "lease_count k r = (case jget k (hr_counts r) of None \<Rightarrow> 0 | Some n \<Rightarrow> n)"

text \<open>Whether the event a key has in the registry is set.\<close>

definition key_revoked :: "string \<Rightarrow> host_registry \<Rightarrow> bool" where
  "key_revoked k r = (case jget k (hr_events r) of None \<Rightarrow> False | Some e \<Rightarrow> hr_flags r ! e)"

definition is_targetable :: "host_target \<Rightarrow> host_registry \<Rightarrow> bool" where
  "is_targetable t r \<longleftrightarrow> ht_targetable t \<and> \<not> key_revoked (runtime_key t) r"

definition get_target :: "bool \<Rightarrow> string \<Rightarrow> host_registry \<Rightarrow> host_target option" where
  "get_target targetable_only alias r =
     (case jget alias (hr_snapshot r) of
        None \<Rightarrow> None
      | Some t \<Rightarrow> if targetable_only \<and> \<not> is_targetable t r then None else Some t)"

definition registry_default :: "host_registry \<Rightarrow> string" where
  "registry_default r = (if get_target True (hr_default r) r \<noteq> None then hr_default r else [])"

definition active_aliases :: "host_registry \<Rightarrow> string list" where
  "active_aliases r = map fst (filter (\<lambda>p. is_targetable (snd p) r) (hr_snapshot r))"

definition draining_aliases :: "host_registry \<Rightarrow> string list" where
  "draining_aliases r =
     sort (remdups (map (ht_alias \<circ> snd) (filter (\<lambda>p. lease_count (fst p) r \<noteq> 0) (hr_retired r))))"

definition all_runtime_targets :: "host_registry \<Rightarrow> (string \<times> host_target) list" where
  "all_runtime_targets r =
     fold (\<lambda>p. jset (fst p) (snd p)) (hr_retired r)
       (fold (\<lambda>p. jset (runtime_key (snd p)) (snd p)) (hr_snapshot r) [])"

definition has_active_leases :: "string \<Rightarrow> host_registry \<Rightarrow> bool" where
  "has_active_leases alias r \<longleftrightarrow>
     list_ex (\<lambda>p. ht_alias (snd p) = alias \<and> 0 < lease_count (fst p) r) (all_runtime_targets r)"

definition lease_revoked :: "host_lease \<Rightarrow> host_registry \<Rightarrow> bool" where
  "lease_revoked l r \<longleftrightarrow> hr_flags r ! hl_event l"

definition status_row :: "host_registry \<Rightarrow> host_target \<Rightarrow> dict" where
  "status_row r t =
     [(''alias'', JStr (ht_alias t)), (''host_id'', JStr (ht_host_id t)), (''address'', JStr (ht_address t)),
      (''ssh_user'', JStr (ht_user t)), (''os'', JStr (ht_os t)), (''port'', JInt (ht_port t)),
      (''description'', JStr (ht_description t)), (''enabled'', JBool (ht_enabled t)), (''active'', JBool (ht_enabled t)),
      (''targetable'', JBool (is_targetable t r)), (''trust_mode'', JStr (ht_trust_mode t)),
      (''trust_state'', JStr (ht_trust_state t)),
      (''last_test'', case ht_last_test t of None \<Rightarrow> JNull | Some d \<Rightarrow> JObj d),
      (''diagnostic'', JStr (ht_diagnostic t)), (''draining'', JBool (ht_alias t \<in> set (draining_aliases r))),
      (''generation'', JInt (int (ht_generation t)))]"

definition status_rows :: "host_registry \<Rightarrow> dict list" where
  "status_rows r = map (\<lambda>p. status_row r (snd p)) (hr_snapshot r)"

section \<open>Staging an inventory\<close>

type_synonym trust_files = "(string \<times> string) list"

definition trust_identity_text :: "string \<Rightarrow> string \<Rightarrow> string \<Rightarrow> string list \<Rightarrow> string" where
  "trust_identity_text host_id key_alias mode keys = join [CHR 0x00] ([host_id, key_alias, mode] @ keys)"

definition trust_path :: "host_env \<Rightarrow> string \<Rightarrow> string \<Rightarrow> string \<Rightarrow> string list \<Rightarrow> string" where
  "trust_path env host_id key_alias mode keys =
     he_trust_dir env @ ''/'' @ take 32 (he_sha256 env (trust_identity_text host_id key_alias mode keys)) @ ''.known_hosts''"

definition trust_lines :: "string \<Rightarrow> string \<Rightarrow> string list \<Rightarrow> string" where
  "trust_lines key_alias mode keys =
     concat (map (\<lambda>k. (if mode = ''ca'' then ''@cert-authority '' else []) @ key_alias @ '' '' @ k @ [CHR 0x0A]) keys)"

text \<open>The file is written beside and renamed, so a failed write leaves the files as they were.\<close>

definition materialize_trust ::
  "host_env \<Rightarrow> (string \<Rightarrow> bool) \<Rightarrow> string \<Rightarrow> string \<Rightarrow> string \<Rightarrow> string list \<Rightarrow> trust_files
     \<Rightarrow> (registry_error + string) \<times> trust_files" where
  "materialize_trust env write_fails host_id key_alias mode keys files =
     (case collect_all (normalize_public_key (he_b64 env)) keys of
        None \<Rightarrow> (Inl Malformed_public_key, files)
      | Some ks \<Rightarrow>
          let path = trust_path env host_id key_alias mode ks
          in if write_fails path then (Inl Trust_not_written, files)
             else (Inr path, jset path (trust_lines key_alias mode ks) files))"

definition host_identity :: "host_env \<Rightarrow> string \<Rightarrow> tool_host \<Rightarrow> string option" where
  "host_identity env alias c = he_uuid env (if th_host_id c \<noteq> [] then th_host_id c else he_uuid_of_alias env alias)"

definition target_of ::
  "string \<Rightarrow> string \<Rightarrow> tool_host \<Rightarrow> nat \<Rightarrow> string \<Rightarrow> string list \<Rightarrow> string \<Rightarrow> string \<Rightarrow> bool \<Rightarrow> string \<Rightarrow> host_target" where
  "target_of alias host_id c g key_path keys known_hosts key_alias targetable trust_state =
     \<lparr>ht_alias = alias, ht_host_id = host_id, ht_generation = g, ht_address = th_address c, ht_user = th_user c,
      ht_os = th_os c, ht_port = th_port c, ht_description = th_description c, ht_enabled = th_enabled c,
      ht_trust_mode = th_trust_mode c, ht_host_keys = keys, ht_key_path = key_path, ht_known_hosts = known_hosts,
      ht_key_alias = key_alias, ht_targetable = targetable, ht_trust_state = trust_state, ht_last_test = None,
      ht_diagnostic = []\<rparr>"

definition target_from_config ::
  "host_env \<Rightarrow> (string \<Rightarrow> bool) \<Rightarrow> host_registry \<Rightarrow> string \<Rightarrow> tool_host \<Rightarrow> nat \<Rightarrow> trust_files
     \<Rightarrow> (registry_error + host_target) \<times> trust_files" where
  "target_from_config env write_fails r alias c g files =
     (case host_identity env alias c of
        None \<Rightarrow> (Inl Malformed_host_id, files)
      | Some host_id \<Rightarrow>
          let legacy = hr_legacy_known_hosts r; mode = th_trust_mode c;
              target = target_of alias host_id c g (hr_key_path r)
          in if is_local_address (th_address c) then (Inr (target [] legacy [] (th_enabled c) ''local''), files)
             else if mode \<in> set [''pinned'', ''tofu'', ''ca'']
             then (case collect_all (normalize_public_key (he_b64 env)) (th_host_keys c) of
                     None \<Rightarrow> (Inr (target [] legacy [] False ''invalid''), files)
                   | Some [] \<Rightarrow> (Inr (target [] legacy [] False ''invalid''), files)
                   | Some keys \<Rightarrow>
                       let key_alias = (if mode = ''ca'' then th_address c else ''odin-'' @ host_id)
                       in (case materialize_trust env write_fails host_id key_alias mode keys files of
                             (Inl e, files') \<Rightarrow> (Inl e, files')
                           | (Inr path, files') \<Rightarrow> (Inr (target keys path key_alias (th_enabled c) mode), files')))
             else (Inr (target [] legacy [] (th_enabled c) mode), files))"

definition same_identity :: "host_target \<Rightarrow> host_target \<Rightarrow> bool" where
  "same_identity t u \<longleftrightarrow>
     ht_alias t = ht_alias u \<and> ht_host_id t = ht_host_id u \<and> ht_address t = ht_address u \<and> ht_user t = ht_user u
     \<and> ht_os t = ht_os u \<and> ht_port t = ht_port u \<and> ht_trust_mode t = ht_trust_mode u \<and> ht_host_keys t = ht_host_keys u
     \<and> ht_key_path t = ht_key_path u \<and> ht_known_hosts t = ht_known_hosts u \<and> ht_key_alias t = ht_key_alias u"

definition same_definition :: "host_target \<Rightarrow> host_target \<Rightarrow> bool" where
  "same_definition t u \<longleftrightarrow>
     same_identity t u \<and> ht_description t = ht_description u \<and> ht_enabled t = ht_enabled u
     \<and> ht_targetable t = ht_targetable u \<and> ht_trust_state t = ht_trust_state u"

text \<open>
  A new target beside the published one of its alias: a collision member and a host with an unresolved
  key mismatch stay untargetable, and an unchanged definition keeps the published object.
\<close>

definition collision_fenced :: "string list \<Rightarrow> host_target \<Rightarrow> host_target" where
  "collision_fenced collisions t =
     (if ht_host_id t \<in> set collisions
      then t\<lparr>ht_targetable := False, ht_trust_state := ''identity_collision'',
             ht_diagnostic := ''Duplicate host identity; resolve the configured UUID collision''\<rparr>
      else t)"

definition mismatch_kept :: "host_target \<Rightarrow> host_target \<Rightarrow> host_target" where
  "mismatch_kept old t =
     (if ht_trust_state old = ''mismatch'' \<and> same_identity old t
      then t\<lparr>ht_targetable := False, ht_trust_state := ''mismatch'', ht_last_test := ht_last_test old\<rparr> else t)"

definition fenced_target :: "string list \<Rightarrow> host_target option \<Rightarrow> host_target \<Rightarrow> host_target" where
  "fenced_target collisions old t =
     (let t1 = collision_fenced collisions t
      in case old of
           None \<Rightarrow> t1
         | Some u \<Rightarrow> let t2 = mismatch_kept u t1 in if same_definition u t2 then u else t2)"

fun stage_hosts ::
  "host_env \<Rightarrow> (string \<Rightarrow> bool) \<Rightarrow> host_registry \<Rightarrow> string list \<Rightarrow> nat \<Rightarrow> (string \<times> tool_host) list \<Rightarrow> trust_files
     \<Rightarrow> (registry_error + (string \<times> host_target) list) \<times> trust_files" where
  "stage_hosts env write_fails r collisions g [] files = (Inr [], files)"
| "stage_hosts env write_fails r collisions g ((alias, c) # hosts) files =
     (case target_from_config env write_fails r alias c g files of
        (Inl e, files') \<Rightarrow> (Inl e, files')
      | (Inr t, files') \<Rightarrow>
          (case stage_hosts env write_fails r collisions g hosts files' of
             (Inl e, files'') \<Rightarrow> (Inl e, files'')
           | (Inr ts, files'') \<Rightarrow>
               (Inr ((alias, fenced_target collisions (jget alias (hr_snapshot r)) t) # ts), files'')))"

text \<open>The identities that more than one host has.\<close>

definition collisions_of :: "string list \<Rightarrow> string list" where
  "collisions_of identities = filter (\<lambda>i. 1 < count_list identities i) identities"

definition stage ::
  "host_env \<Rightarrow> (string \<Rightarrow> bool) \<Rightarrow> bool \<Rightarrow> string option \<Rightarrow> (string \<times> tool_host) list \<Rightarrow> host_registry \<Rightarrow> trust_files
     \<Rightarrow> (registry_error + host_publication) \<times> trust_files" where
  "stage env write_fails boot default_host hosts r files =
     (case collect_all (\<lambda>p. host_identity env (fst p) (snd p)) hosts of
        None \<Rightarrow> (Inl Malformed_host_id, files)
      | Some identities \<Rightarrow>
          let collisions = collisions_of identities; g = hr_generation r + 1
          in if collisions \<noteq> [] \<and> \<not> boot then (Inl Duplicate_host_identity, files)
             else (case stage_hosts env write_fails r collisions g hosts files of
                     (Inl e, files') \<Rightarrow> (Inl e, files')
                   | (Inr ts, files') \<Rightarrow>
                       (Inr \<lparr>pb_expected = hr_generation r, pb_generation = g,
                              pb_default = (case default_host of None \<Rightarrow> hr_default r | Some d \<Rightarrow> d),
                              pb_snapshot = ts\<rparr>, files')))"

section \<open>Retirement\<close>

definition finish_retirement :: "string \<Rightarrow> host_registry \<Rightarrow> host_registry" where
  "finish_retirement k r =
     (let r' = r\<lparr>hr_retired := jdel k (hr_retired r), hr_events := jdel k (hr_events r)\<rparr>
      in case jget k (hr_retired r) of None \<Rightarrow> r' | Some t \<Rightarrow> r'\<lparr>hr_finished := hr_finished r @ [t]\<rparr>)"

definition retire_target :: "host_target \<Rightarrow> host_registry \<Rightarrow> host_registry" where
  "retire_target t r =
     (let k = runtime_key t; r' = r\<lparr>hr_retired := jset k t (hr_retired r)\<rparr>
      in if lease_count k r \<le> 0 then finish_retirement k r' else r')"

section \<open>Publication\<close>

definition publish_staged :: "host_publication \<Rightarrow> host_registry \<Rightarrow> registry_error option \<times> host_registry" where
  "publish_staged p r =
     (if hr_generation r \<noteq> pb_expected p then (Some Registry_changed, r)
      else if \<not> distinct (map (ht_host_id \<circ> snd) (pb_snapshot p)) then (Some Duplicate_staged_identity, r)
      else
        let r' = r\<lparr>hr_generation := pb_generation p, hr_default := pb_default p, hr_snapshot := pb_snapshot p\<rparr>
        in (None, fold (\<lambda>(alias, old) r. if jget alias (pb_snapshot p) = Some old then r else retire_target old r)
                    (hr_snapshot r) r'))"

text \<open>\<^verbatim>\<open>publish\<close>: staging and publication in one call.\<close>

definition publish_inventory ::
  "host_env \<Rightarrow> (string \<Rightarrow> bool) \<Rightarrow> string option \<Rightarrow> (string \<times> tool_host) list \<Rightarrow> host_registry \<Rightarrow> trust_files
     \<Rightarrow> registry_error option \<times> host_registry \<times> trust_files" where
  "publish_inventory env write_fails default_host hosts r files =
     (case stage env write_fails False default_host hosts r files of
        (Inl e, files') \<Rightarrow> (Some e, r, files')
      | (Inr p, files') \<Rightarrow> (case publish_staged p r of (e, r') \<Rightarrow> (e, r', files')))"

definition new_host_registry ::
  "host_env \<Rightarrow> (string \<Rightarrow> bool) \<Rightarrow> string \<Rightarrow> string \<Rightarrow> string \<Rightarrow> (string \<times> tool_host) list \<Rightarrow> trust_files
     \<Rightarrow> (registry_error + host_registry) \<times> trust_files" where
  "new_host_registry env write_fails key_path legacy default_host hosts files =
     (let r = \<lparr>hr_generation = 0, hr_key_path = key_path, hr_legacy_known_hosts = legacy, hr_default = default_host,
               hr_snapshot = [], hr_counts = [], hr_events = [], hr_retired = [], hr_flags = [], hr_leases = [],
               hr_finished = []\<rparr>
      in case stage env write_fails True (Some default_host) hosts r files of
           (Inl e, files') \<Rightarrow> (Inl e, files')
         | (Inr p, files') \<Rightarrow> (Inr (r\<lparr>hr_snapshot := pb_snapshot p, hr_generation := pb_generation p\<rparr>), files'))"

text \<open>The generation a test result gives: its targetability and trust state depend on the old one.\<close>

definition tested_target :: "dict \<Rightarrow> bool \<Rightarrow> nat \<Rightarrow> host_target \<Rightarrow> host_target" where
  "tested_target result mismatch g old =
     (let cleared = (ht_trust_state old = ''mismatch'' \<and> fget ''ok'' result = JBool True)
      in old\<lparr>ht_generation := g, ht_last_test := Some result,
             ht_targetable := ((if cleared then ht_enabled old else ht_targetable old) \<and> \<not> mismatch),
             ht_trust_state := (if mismatch then ''mismatch'' else if cleared then ht_trust_mode old else ht_trust_state old)\<rparr>)"

definition mark_test_result :: "string \<Rightarrow> dict \<Rightarrow> bool \<Rightarrow> host_registry \<Rightarrow> host_registry" where
  "mark_test_result alias result mismatch r =
     (case jget alias (hr_snapshot r) of
        None \<Rightarrow> r
      | Some old \<Rightarrow>
          let g = hr_generation r + 1
          in retire_target old (r\<lparr>hr_generation := g,
                           hr_snapshot := jset alias (tested_target result mismatch g old) (hr_snapshot r)\<rparr>))"

section \<open>Leases\<close>

text \<open>\<^verbatim>\<open>self._revoke_events.setdefault(key, asyncio.Event())\<close>\<close>

definition ensure_event :: "string \<Rightarrow> host_registry \<Rightarrow> nat \<times> host_registry" where
  "ensure_event k r =
     (case jget k (hr_events r) of
        Some e \<Rightarrow> (e, r)
      | None \<Rightarrow> (length (hr_flags r),
                 r\<lparr>hr_events := jset k (length (hr_flags r)) (hr_events r), hr_flags := hr_flags r @ [False]\<rparr>))"

definition acquire :: "string \<Rightarrow> host_registry \<Rightarrow> nat option \<times> host_registry" where
  "acquire alias r =
     (case get_target True alias r of
        None \<Rightarrow> (None, r)
      | Some t \<Rightarrow>
          let k = runtime_key t; (e, r1) = ensure_event k r
          in if hr_flags r1 ! e then (None, r1)
             else (Some (length (hr_leases r1)),
                   r1\<lparr>hr_counts := jset k (lease_count k r1 + 1) (hr_counts r1),
                      hr_leases := hr_leases r1 @ [\<lparr>hl_target = t, hl_event = e, hl_managed = True, hl_released = False\<rparr>]\<rparr>))"

text \<open>A lease outside the registry, of a host known only to the configuration; its event is its own.\<close>

definition unmanaged_lease :: "string \<Rightarrow> string \<Rightarrow> string \<Rightarrow> string \<Rightarrow> string \<Rightarrow> host_registry \<Rightarrow> nat \<times> host_registry" where
  "unmanaged_lease alias host_id address user os r =
     (let t = \<lparr>ht_alias = alias, ht_host_id = host_id, ht_generation = 0, ht_address = address, ht_user = user, ht_os = os,
              ht_port = 22, ht_description = [], ht_enabled = True, ht_trust_mode = ''legacy'', ht_host_keys = [],
              ht_key_path = [], ht_known_hosts = [], ht_key_alias = [], ht_targetable = True, ht_trust_state = ''legacy'',
              ht_last_test = None, ht_diagnostic = []\<rparr>
      in (length (hr_leases r),
          r\<lparr>hr_flags := hr_flags r @ [False],
            hr_leases := hr_leases r @ [\<lparr>hl_target = t, hl_event = length (hr_flags r), hl_managed = False, hl_released = False\<rparr>]\<rparr>))"

text \<open>A nested fence: it shares the event and does not own a count.\<close>

definition borrow :: "nat \<Rightarrow> host_registry \<Rightarrow> host_registry" where
  "borrow i r =
     (if i < length (hr_leases r)
      then r\<lparr>hr_leases := hr_leases r @ [(hr_leases r ! i)\<lparr>hl_managed := False, hl_released := False\<rparr>]\<rparr> else r)"

definition release_key :: "string \<Rightarrow> host_registry \<Rightarrow> host_registry" where
  "release_key k r =
     (if lease_count k r \<le> 1
      then let r' = r\<lparr>hr_counts := jdel k (hr_counts r)\<rparr>
           in if jhas k (hr_retired r) then finish_retirement k r' else r'\<lparr>hr_events := jdel k (hr_events r)\<rparr>
      else r\<lparr>hr_counts := jset k (lease_count k r - 1) (hr_counts r)\<rparr>)"

definition release_lease :: "nat \<Rightarrow> host_registry \<Rightarrow> host_registry" where
  "release_lease i r =
     (if length (hr_leases r) \<le> i \<or> hl_released (hr_leases r ! i) then r
      else let l = hr_leases r ! i; r' = r\<lparr>hr_leases := (hr_leases r)[i := l\<lparr>hl_released := True\<rparr>]\<rparr>
           in if hl_managed l then release_key (runtime_key (hl_target l)) r' else r')"

text \<open>Running a transport action behind the fence: refused, interrupted, or its own result.\<close>

definition lease_run :: "bool \<Rightarrow> bool \<Rightarrow> 'a \<Rightarrow> host_lease \<Rightarrow> host_registry \<Rightarrow> 'a option" where
  "lease_run revoked_meanwhile finished_first result l r =
     (if lease_revoked l r then None else if finished_first \<or> \<not> revoked_meanwhile then Some result else None)"

section \<open>Forced revocation\<close>

definition affected_keys :: "string \<Rightarrow> host_registry \<Rightarrow> string list" where
  "affected_keys alias r =
     map fst (filter (\<lambda>p. ht_alias (snd p) = alias \<and> 0 < lease_count (fst p) r) (all_runtime_targets r))"

definition trip :: "string \<Rightarrow> host_registry \<Rightarrow> host_registry" where
  "trip k r = (let (e, r') = ensure_event k r in r'\<lparr>hr_flags := (hr_flags r')[e := True]\<rparr>)"

definition force_revoke :: "string \<Rightarrow> host_registry \<Rightarrow> nat \<times> host_registry" where
  "force_revoke alias r =
     (let ks = affected_keys alias r in (sum_list (map (\<lambda>k. lease_count k r) ks), fold trip ks r))"

definition force_revoke_keys :: "string \<Rightarrow> host_registry \<Rightarrow> string list \<times> host_registry" where
  "force_revoke_keys alias r = (let ks = affected_keys alias r in (ks, fold trip ks r))"

end
