(* ===== verification/Output_Access.thy ===== *)
theory Output_Access
  imports Output_Page Host_Registry Permissions Host_Access
begin

text \<open>
  Who may retrieve retained output (\<^verbatim>\<open>tools/output_authorization.py\<close> and the output section of
  \<^verbatim>\<open>tools/executor.py\<close>): the live tool scope, the permission tiers, the host access policy and the host
  registry are asked at every read. Retained evidence names the exact generation of each host it was
  gathered on. Request-scoped context variables are fields of a request; SHA-256 is an argument.
\<close>

section \<open>Bindings\<close>

definition host_binding :: "(string \<Rightarrow> string) \<Rightarrow> host_target \<Rightarrow> dict" where
  "host_binding sha t =
     (let identity = JList [JStr (ht_address t), JStr (ht_user t), JStr (ht_os t), JInt (ht_port t), JStr (ht_trust_mode t),
            JList (map JStr (ht_host_keys t)), JStr (ht_key_path t), JStr (ht_known_hosts t), JStr (ht_key_alias t)]
      in [(''alias'', JStr (ht_alias t)), (''generation'', JStr (runtime_key t)),
          (''identity'', JStr (sha (dumps_sorted '', '' '': '' identity)))])"

text \<open>\<^verbatim>\<open>d == e\<close> of two dictionaries whose values are texts.\<close>

definition same_binding :: "dict \<Rightarrow> dict \<Rightarrow> bool" where
  "same_binding d e \<longleftrightarrow>
     list_all (\<lambda>p. jget (fst p) e = jget (fst p) d) d \<and> list_all (\<lambda>p. jget (fst p) d = jget (fst p) e) e"

text \<open>The hosts a request used so far, keyed by alias, generation and identity.\<close>

definition record_host :: "(string \<Rightarrow> string) \<Rightarrow> host_lease \<Rightarrow> ((json \<times> json \<times> json) \<times> dict) list \<Rightarrow> ((json \<times> json \<times> json) \<times> dict) list" where
  "record_host sha l collected =
     (let b = host_binding sha (hl_target l); k = (fget ''alias'' b, fget ''generation'' b, fget ''identity'' b)
      in if k \<in> set (map fst collected) then map (\<lambda>p. if fst p = k then (k, b) else p) collected else collected @ [(k, b)])"

section \<open>The live scope of a request\<close>

text \<open>What the resolver of a token's current grants answers: \<^verbatim>\<open>False\<close>, \<^verbatim>\<open>None\<close> or the granted tools.\<close>

datatype live_scope = Scope_refused | Scope_open | Scope_tools "string list"

record output_access =
  oa_disabled :: "string list"
  oa_permissions :: "permission_manager option"
  oa_request_tier :: "string option"
  oa_tool_scope :: "string list option"
  oa_resolver :: "live_scope option"
  oa_scope_id :: string
  oa_live_hosts :: "(string \<Rightarrow> bool) option"
  oa_host_manager :: "host_manager option"
  oa_host_scope :: "string list option"
  oa_inventory :: "string list option"
  oa_sha256 :: "string \<Rightarrow> string"

definition tool_scope_allows :: "output_access \<Rightarrow> string \<Rightarrow> bool" where
  "tool_scope_allows acc tool \<longleftrightarrow>
     (case oa_tool_scope acc of None \<Rightarrow> True | Some names \<Rightarrow> tool \<in> set names)
     \<and> (case oa_resolver acc of None \<Rightarrow> True | Some Scope_refused \<Rightarrow> False | Some Scope_open \<Rightarrow> True
          | Some (Scope_tools names) \<Rightarrow> tool \<in> set names)"

definition check_permission :: "output_access \<Rightarrow> string \<Rightarrow> string \<Rightarrow> string option" where
  "check_permission acc tool user =
     (case oa_permissions acc of
        None \<Rightarrow> None
      | Some m \<Rightarrow>
          if user = [] then Some ''Permission denied: a requester identity is required.''
          else (case allowed_tool_names (oa_request_tier acc) user m of
                  None \<Rightarrow> None
                | Some names \<Rightarrow>
                    if tool \<notin> set names
                    then Some (''Permission denied: tool '' @ [CHR 0x27] @ tool @ [CHR 0x27] @ '' is not available for tier ''
                               @ [CHR 0x27] @ get_tier (oa_request_tier acc) user m @ [CHR 0x27]
                               @ ''. Contact an admin to upgrade your permissions.'')
                    else None))"

section \<open>Authorization\<close>

text \<open>
  One binding of the evidence; the host's lease is given back at once. A binding that is no dictionary, or
  whose alias is no text, is refused.
\<close>

definition authorize_binding :: "output_access \<Rightarrow> string \<Rightarrow> json \<Rightarrow> host_registry \<Rightarrow> bool \<times> host_registry" where
  "authorize_binding acc owner b r =
     (case b of
        JObj d \<Rightarrow>
          if jhas ''scope'' d then (fget ''scope'' d = JStr (oa_scope_id acc), r)
          else (case jget ''alias'' d of
                  Some (JStr host) \<Rightarrow>
                    if \<not> (case oa_live_hosts acc of None \<Rightarrow> True | Some live \<Rightarrow> live host) then (False, r)
                    else if host = [] \<or> \<not> (case oa_host_manager acc of None \<Rightarrow> True
                                              | Some m \<Rightarrow> is_host_allowed (oa_host_scope acc) (oa_inventory acc) owner host m)
                    then (False, r)
                    else (case acquire host r of
                            (None, r') \<Rightarrow> (False, r')
                          | (Some i, r') \<Rightarrow>
                              let l = hr_leases r' ! i
                              in (\<not> lease_revoked l r' \<and> same_binding (host_binding (oa_sha256 acc) (hl_target l)) d,
                                  release_lease i r'))
                | _ \<Rightarrow> (False, r))
      | _ \<Rightarrow> (False, r))"

fun authorize_bindings :: "output_access \<Rightarrow> string \<Rightarrow> json list \<Rightarrow> host_registry \<Rightarrow> bool \<times> host_registry" where
  "authorize_bindings acc owner [] r = (True, r)"
| "authorize_bindings acc owner (b # bs) r =
     (case authorize_binding acc owner b r of
        (False, r') \<Rightarrow> (False, r')
      | (True, r') \<Rightarrow> authorize_bindings acc owner bs r')"

definition authorize_output :: "output_access \<Rightarrow> string \<Rightarrow> json \<Rightarrow> string \<Rightarrow> host_registry \<Rightarrow> bool \<times> host_registry" where
  "authorize_output acc tool hosts owner r =
     (if tool \<in> set (oa_disabled acc) \<or> check_permission acc tool owner \<noteq> None \<or> \<not> tool_scope_allows acc tool then (False, r)
      else authorize_bindings acc owner (items hosts) r)"

section \<open>Host leases of an operation\<close>

text \<open>
  The host policy of the current request. \<open>configured\<close> holds the configured hosts when the executor was built
  without a registry of its own; \<open>active\<close> is the lease the running operation holds already.
\<close>

definition may_use_host :: "output_access \<Rightarrow> string \<Rightarrow> string \<Rightarrow> bool" where
  "may_use_host acc user host \<longleftrightarrow>
     (case oa_host_manager acc of
        None \<Rightarrow> True
      | Some m \<Rightarrow> user \<noteq> [] \<and> is_host_allowed (oa_host_scope acc) (oa_inventory acc) user host m)"

definition legacy_tuple :: "host_target \<Rightarrow> string \<times> string \<times> string" where
  "legacy_tuple t = (ht_address t, ht_user t, ht_os t)"

definition resolve_published ::
  "output_access \<Rightarrow> (string \<times> tool_host) list option \<Rightarrow> string \<Rightarrow> string \<Rightarrow> host_registry \<Rightarrow> (string \<times> string \<times> string) option" where
  "resolve_published acc configured user host r =
     (if \<not> may_use_host acc user host then None
      else case get_target True host r of
             Some t \<Rightarrow> Some (legacy_tuple t)
           | None \<Rightarrow>
               (case configured of
                  None \<Rightarrow> None
                | Some hosts \<Rightarrow> map_option (\<lambda>c. (th_address c, th_user c, th_os c)) (jget host hosts)))"

definition resolve_host ::
  "output_access \<Rightarrow> (string \<times> tool_host) list option \<Rightarrow> nat option \<Rightarrow> string \<Rightarrow> string \<Rightarrow> host_registry
     \<Rightarrow> (string \<times> string \<times> string) option" where
  "resolve_host acc configured active user host r =
     (case active of
        Some i \<Rightarrow> if ht_alias (hl_target (hr_leases r ! i)) = host then Some (legacy_tuple (hl_target (hr_leases r ! i)))
                  else resolve_published acc configured user host r
      | None \<Rightarrow> resolve_published acc configured user host r)"

definition acquire_permitted ::
  "output_access \<Rightarrow> (string \<Rightarrow> string) \<Rightarrow> (string \<times> tool_host) list option \<Rightarrow> string \<Rightarrow> string \<Rightarrow> host_registry
     \<Rightarrow> nat option \<times> host_registry" where
  "acquire_permitted acc uuid_of_alias configured user host r =
     (if \<not> may_use_host acc user host then (None, r)
      else case acquire host r of
             (Some i, r') \<Rightarrow> (Some i, r')
           | (None, r') \<Rightarrow>
               (case configured of
                  None \<Rightarrow> (None, r')
                | Some hosts \<Rightarrow>
                    (case jget host hosts of
                       None \<Rightarrow> (None, r')
                     | Some c \<Rightarrow>
                         (case unmanaged_lease host (uuid_of_alias host) (th_address c) (th_user c) (th_os c) r' of
                            (i, r'') \<Rightarrow> (Some i, r'')))))"

definition acquire_host ::
  "output_access \<Rightarrow> (string \<Rightarrow> string) \<Rightarrow> (string \<times> tool_host) list option \<Rightarrow> nat option \<Rightarrow> string \<Rightarrow> string \<Rightarrow> host_registry
     \<Rightarrow> nat option \<times> host_registry" where
  "acquire_host acc uuid_of_alias configured active user host r =
     (case active of
        Some i \<Rightarrow>
          if ht_alias (hl_target (hr_leases r ! i)) = host then (Some (length (hr_leases r)), borrow i r)
          else acquire_permitted acc uuid_of_alias configured user host r
      | None \<Rightarrow> acquire_permitted acc uuid_of_alias configured user host r)"

definition acquire_host_for_user :: "output_access \<Rightarrow> string \<Rightarrow> string \<Rightarrow> host_registry \<Rightarrow> nat option \<times> host_registry" where
  "acquire_host_for_user acc user host r = (if may_use_host acc user host then acquire host r else (None, r))"

text \<open>The default of the user's policy, then that of the registry if the policy admits it.\<close>

definition resolve_default_host :: "output_access \<Rightarrow> string \<Rightarrow> string list option \<Rightarrow> string \<Rightarrow> host_registry \<Rightarrow> string" where
  "resolve_default_host acc request_default provided user r =
     (case oa_host_manager acc of
        None \<Rightarrow> registry_default r
      | Some m \<Rightarrow>
          if user = [] then []
          else let d = get_default_host (oa_host_scope acc) request_default provided (oa_inventory acc) user m
               in if d \<noteq> [] then d
                  else if registry_default r \<noteq> [] \<and> is_host_allowed (oa_host_scope acc) (oa_inventory acc) user (registry_default r) m
                  then registry_default r else [])"

text \<open>The clean-up of an expired process takes the host it was started on, or none.\<close>

definition acquire_process_cleanup_lease ::
  "(string \<Rightarrow> string) \<Rightarrow> string \<Rightarrow> dict \<Rightarrow> host_registry \<Rightarrow> nat option \<times> host_registry" where
  "acquire_process_cleanup_lease sha host binding r =
     (case acquire host r of
        (None, r') \<Rightarrow> (None, r')
      | (Some i, r') \<Rightarrow>
          if binding = [] \<or> \<not> same_binding (host_binding sha (hl_target (hr_leases r' ! i))) binding then (None, release_lease i r')
          else (Some i, r'))"

section \<open>The executor's entry points\<close>

definition get_delivery_budget :: "json \<Rightarrow> nat" where
  "get_delivery_budget v = (case v of JInt n \<Rightarrow> if 1024 \<le> n then nat n else 12000 | _ \<Rightarrow> 12000)"

definition binding_list :: "output_access \<Rightarrow> dict list \<Rightarrow> json" where
  "binding_list acc accessed =
     JList (map JObj accessed @ (if oa_scope_id acc = [] then [] else [JObj [(''scope'', JStr (oa_scope_id acc))]]))"

definition reads_itself :: "string \<Rightarrow> dict \<Rightarrow> captured \<Rightarrow> bool" where
  "reads_itself tool inp c \<longleftrightarrow>
     tool = ''read_file'' \<or> (case c of Already t digest \<Rightarrow> True | _ \<Rightarrow> False)
     \<or> (tool = ''manage_process'' \<and> fget ''action'' inp = JStr ''poll'')"

definition deliver_output ::
  "output_env \<Rightarrow> output_access \<Rightarrow> py_time \<Rightarrow> string \<Rightarrow> bool \<Rightarrow> string \<Rightarrow> dict \<Rightarrow> captured \<Rightarrow> string \<Rightarrow> string \<Rightarrow> string
     \<Rightarrow> dict list \<Rightarrow> nat \<Rightarrow> output_store \<Rightarrow> delivered \<times> output_store" where
  "deliver_output env acc now uuid fault tool inp c owner channel status accessed budget st =
     (if reads_itself tool inp c then (Unchanged (captured_text c), st)
      else if (budget < length (captured_text c) \<or> recovery_required c)
              \<and> (\<not> tool_scope_allows acc ''get_tool_output'' \<or> check_permission acc ''get_tool_output'' owner \<noteq> None
                 \<or> ''get_tool_output'' \<in> set (oa_disabled acc))
      then (Envelope (delivery_failure env ''Retrieval is not authorized; no continuation exists.'' status (captured_text c) budget)
              True (evidence_digest env c), st)
      else (case deliver env now uuid fault c
                   \<lparr>so_owner = owner, so_channel = channel, so_tool = tool, so_hosts = binding_list acc accessed, so_status = status\<rparr>
                   budget (Some st) of
              (out, None) \<Rightarrow> (out, st)
            | (out, Some st') \<Rightarrow> (out, st')))"

definition retain_attachments ::
  "output_env \<Rightarrow> output_access \<Rightarrow> py_time \<Rightarrow> string list \<Rightarrow> string \<Rightarrow> bool \<Rightarrow> bool \<Rightarrow> attachment list \<Rightarrow> string \<Rightarrow> string
     \<Rightarrow> string \<Rightarrow> string \<Rightarrow> dict list \<Rightarrow> host_registry \<Rightarrow> output_store
     \<Rightarrow> (retention_error + dict) \<times> host_registry \<times> output_store" where
  "retain_attachments env acc now uuids uuid hold fault attachments tool owner channel status accessed r st =
     (case authorize_output acc ''get_tool_output'' (JList []) owner r of
        (False, r1) \<Rightarrow> (Inl (Retention ''Retrieval is not authorized.''), r1, st)
      | (True, r1) \<Rightarrow>
          let hosts = binding_list acc accessed
          in (case authorize_output acc tool hosts owner r1 of
                (False, r2) \<Rightarrow> (Inl (Retention ''Originating output scope is no longer authorized.''), r2, st)
              | (True, r2) \<Rightarrow>
                  (case retain_binary_bundle env now uuids uuid hold fault attachments
                          \<lparr>so_owner = owner, so_channel = channel, so_tool = tool, so_hosts = hosts, so_status = status\<rparr> st of
                     (Inl e, st') \<Rightarrow> (Inl e, r2, st')
                   | (Inr m, st') \<Rightarrow>
                       (Inr [(''kind'', JStr ''tool_attachment_manifest''), (''retention'', JStr ''retained''), (''status'', JStr status),
                             (''result_id'', JStr (sn_id m)), (''attachment_count'', JInt (int (length attachments))),
                             (''expires_at'', JStr (oe_isoformat env (sn_expires m))),
                             (''retrieval'', JObj [(''tool'', JStr ''get_tool_output''),
                                (''arguments'', JObj [(''cursor'', JStr (page_cursor (sn_id m) 0))])])],
                        r2, st'))))"

text \<open>A retrieval with the executor's authorization; the registry is the one the leases were given back to.\<close>

definition retrieve_output ::
  "output_env \<Rightarrow> output_access \<Rightarrow> py_time \<Rightarrow> py_time \<Rightarrow> bool \<Rightarrow> nat \<Rightarrow> string \<Rightarrow> string \<Rightarrow> dict \<Rightarrow> host_registry \<Rightarrow> output_store
     \<Rightarrow> rendered option \<times> output_store" where
  "retrieve_output env acc now now2 fault budget owner channel inp r st =
     get_tool_output env now now2 fault budget owner channel (\<lambda>tool hosts. fst (authorize_output acc tool hosts owner r)) inp st"

end
