(* ===== verification/Output_Store_Props.thy ===== *)
theory Output_Store_Props
  imports Output_Store
begin

text \<open>
  What retention promises: the quota holds, rows of deliveries under way survive, the parts of a
  bundle leave together, the early size check is exact, and a read shows only what its scope may see.
\<close>

section \<open>Making room\<close>

definition stored_size :: "output_store \<Rightarrow> nat" where
  "stored_size st = sum_list (map snd (charges st))"

definition cohort_size :: "(py_time \<times> nat) list \<Rightarrow> py_time \<Rightarrow> nat" where
  "cohort_size ps t = sum_list (map snd (filter (\<lambda>p. fst p = t) ps))"

lemma cohort_sizes_sum:
  "distinct ts \<Longrightarrow> sum_list (map (cohort_size ps) ts) = sum_list (map snd (filter (\<lambda>p. fst p \<in> set ts) ps))"
proof (induction ps)
  case Nil
  then show ?case by (simp add: cohort_size_def)
next
  case (Cons p ps)
  have "sum_list (map (cohort_size (p # ps)) ts) = sum_list (map (cohort_size ps) ts) + sum_list (map (\<lambda>t. if fst p = t then snd p else 0) ts)"
    by (subst sum_list_addf [symmetric], rule arg_cong [where f = sum_list], rule map_cong) (auto simp: cohort_size_def)
  also have "sum_list (map (\<lambda>t. if fst p = t then snd p else 0) ts) = (if fst p \<in> set ts then snd p else 0)"
    using Cons.prems by (induction ts) auto
  finally show ?case using Cons by simp
qed

lemma picked_victims:
  assumes "pick_victims protected excess (map (\<lambda>t. (t, f t)) keys) freed = (ts, n)" "distinct keys"
  shows "n = freed + sum_list (map f ts) \<and> distinct ts \<and> set ts \<subseteq> set keys - set protected"
  using assms
proof (induction keys arbitrary: freed ts n)
  case (Cons t keys)
  show ?case
  proof (cases "t \<in> set protected \<or> excess \<le> freed + f t")
    case True
    then show ?thesis using Cons by (auto split: if_splits)
  next
    case False
    obtain us m where r: "pick_victims protected excess (map (\<lambda>t. (t, f t)) keys) (freed + f t) = (us, m)"
      by (cases "pick_victims protected excess (map (\<lambda>t. (t, f t)) keys) (freed + f t)")
    then have "ts = t # us" "n = m" using Cons.prems(1) False by auto
    moreover have "m = freed + f t + sum_list (map f us) \<and> distinct us \<and> set us \<subseteq> set keys - set protected"
      using Cons.IH [OF r] Cons.prems(2) by simp
    ultimately show ?thesis using False Cons.prems(2) by auto
  qed
qed simp

text \<open>Among the unprotected cohorts the picked ones come first in the order of the list.\<close>

lemma picked_first:
  assumes "pick_victims protected excess (map (\<lambda>t. (t, f t)) keys) freed = (ts, n)" "sorted keys" "distinct keys"
    and "t \<in> set ts" "u \<in> set keys" "u \<notin> set protected" "u \<notin> set ts"
  shows "t < u"
  using assms
proof (induction keys arbitrary: freed ts n)
  case (Cons k keys)
  show ?case
  proof (cases "k \<in> set protected")
    case True
    then show ?thesis using Cons by auto
  next
    case False
    show ?thesis
    proof (cases "excess \<le> freed + f k")
      case True
      then have "ts = [k]" using Cons.prems(1) False by simp
      then have "t = k" "u \<in> set keys" using Cons.prems(4,5,7) by auto
      then show ?thesis using Cons.prems(2,3) by (auto simp: order_less_le)
    next
      case False
      obtain us m where r: "pick_victims protected excess (map (\<lambda>t. (t, f t)) keys) (freed + f k) = (us, m)"
        by (cases "pick_victims protected excess (map (\<lambda>t. (t, f t)) keys) (freed + f k)")
      then have ts: "ts = k # us" using Cons.prems(1) False \<open>k \<notin> set protected\<close> by simp
      then have u: "u \<in> set keys" "u \<notin> set us" using Cons.prems(5,7) by auto
      show ?thesis
      proof (cases "t = k")
        case True
        then show ?thesis using u(1) Cons.prems(2,3) by (auto simp: order_less_le)
      next
        case False
        then show ?thesis using Cons.IH [OF r] Cons.prems ts u by simp
      qed
    qed
  qed
qed simp

lemma cohorts_map: "cohorts now st = map (\<lambda>t. (t, cohort_size (live_charges now st) t)) (sort (remdups (map fst (live_charges now st))))"
  by (simp add: cohorts_def cohort_size_def)

lemma charges_expired: "charges (expire_cohorts ts st) = filter (\<lambda>p. fst p \<notin> set ts) (charges st)"
  by (simp add: charges_def expire_cohorts_def filter_map o_def)

lemma pruned_live: "live_charges now (prune now st) = charges (prune now st)"
  by (auto simp: live_charges_def charges_def prune_def intro!: filter_True)

lemma sum_split:
  "sum_list (map snd xs) = sum_list (map snd (filter p xs)) + sum_list (map snd (filter (\<lambda>x. \<not> p x) xs))" for xs :: "(py_time \<times> nat) list"
  by (induction xs) auto

lemma make_room_effect:
  assumes "make_room now charge st = Inr st'" "live_charges now st = charges st"
  obtains ts where "st' = expire_cohorts ts st" "stored_size st' + charge \<le> os_global st"
    "set ts \<inter> set (protected_expiries st) = {}"
    "\<And>t u. t \<in> set ts \<Longrightarrow> u \<in> fst ` set (charges st) \<Longrightarrow> u \<notin> set (protected_expiries st) \<Longrightarrow> u \<notin> set ts \<Longrightarrow> t < u"
    "ts \<noteq> [] \<Longrightarrow> os_global st < stored_size st + charge"
proof (cases "used now st + charge \<le> os_global st")
  case True
  have "expire_cohorts [] st = st" by (simp add: expire_cohorts_def)
  then show ?thesis
    using True assms that [of "[]"] by (simp add: make_room_def stored_size_def used_def)
next
  case False
  let ?keys = "sort (remdups (map fst (live_charges now st)))"
  let ?excess = "used now st + charge - os_global st"
  obtain ts freed where p: "pick_victims (protected_expiries st) ?excess (cohorts now st) 0 = (ts, freed)"
    by (cases "pick_victims (protected_expiries st) ?excess (cohorts now st) 0")
  have st': "st' = expire_cohorts ts st" "?excess \<le> freed"
    using assms(1) False p by (auto simp: make_room_def Let_def split: if_splits)
  note pv = picked_victims [OF p [unfolded cohorts_map]]
  have freed: "freed = sum_list (map snd (filter (\<lambda>p. fst p \<in> set ts) (charges st)))" and sub: "set ts \<inter> set (protected_expiries st) = {}"
    using pv cohort_sizes_sum [of ts "live_charges now st"] assms(2) by auto
  have "stored_size st = freed + stored_size st'"
    unfolding stored_size_def st'(1) charges_expired freed by (rule sum_split)
  then have room: "stored_size st' + charge \<le> os_global st"
    using st'(2) False assms(2) by (simp add: used_def stored_size_def)
  have first: "t < u" if "t \<in> set ts" "u \<in> fst ` set (charges st)" "u \<notin> set (protected_expiries st)" "u \<notin> set ts" for t u
    using picked_first [OF p [unfolded cohorts_map] _ _ that(1) _ that(3,4)] that(2) assms(2) by auto
  show ?thesis
    by (rule that [OF st'(1) room sub]) (use first False assms(2) in \<open>auto simp: stored_size_def used_def\<close>)
qed

section \<open>The steps of the store\<close>

text \<open>
  Any operation with any arguments, clocks and faults; the ids given to new rows are not in \<open>given\<close>, the
  ids handed out before.
\<close>

inductive out_step :: "string set \<Rightarrow> output_store \<Rightarrow> output_store \<Rightarrow> bool" for given where
  retained: "uuid \<notin> given \<Longrightarrow> out_step given st (snd (retain env now uuid hold fault body matches scope st))"
| bundled: "uuid \<notin> given \<Longrightarrow> set uuids \<inter> given = {} \<Longrightarrow>
    out_step given st (snd (retain_binary_bundle env now uuids uuid hold fault attachments scope st))"
| shown: "out_step given st (snd (read_output now now2 fault cursor owner channel authorize st))"
| released: "out_step given st (release_holds held st)"

text \<open>What a step may do to the rows.\<close>

definition same_rows :: "output_store \<Rightarrow> output_store \<Rightarrow> bool" where
  "same_rows st st' \<longleftrightarrow>
     os_outputs st' = os_outputs st \<and> os_blobs st' = os_blobs st \<and> os_global st' = os_global st \<and> os_per_result st' = os_per_result st"

lemma hold_rows: "same_rows st (hold_result hold i st)" "same_rows st (release_holds held st)"
proof -
  have set_rows: "same_rows st (set_hold j n st)" for j n st by (simp add: same_rows_def set_hold_def)
  then show "same_rows st (hold_result hold i st)" by (simp add: hold_result_def) (simp add: same_rows_def)
  show "same_rows st (release_holds held st)"
    unfolding release_holds_def
  proof (induction held arbitrary: st)
    case (Cons i held)
    then show ?case
      using set_rows [of st i "hold_count i st - 1"] by (auto simp: same_rows_def)
  qed (simp add: same_rows_def)
qed

text \<open>The store a write leaves, over the rows it inserts.\<close>

definition written ::
  "py_time \<Rightarrow> nat \<Rightarrow> snapshot \<Rightarrow> binary_snapshot list \<Rightarrow> output_store \<Rightarrow> output_store \<Rightarrow> bool" where
  "written now charge snap blobs st st' \<longleftrightarrow>
     (\<exists>st1 st2. same_rows st st1 \<and> make_room now charge (prune now st1) = Inr st2
        \<and> st' = insert_output snap (st2\<lparr>os_blobs := os_blobs st2 @ blobs\<rparr>))"

lemma writtenI:
  assumes "same_rows st st1" "make_room now charge (prune now st1) = Inr st2"
  shows "written now charge snap blobs st (insert_output snap (st2\<lparr>os_blobs := os_blobs st2 @ blobs\<rparr>))"
    and "written now charge snap [] st (insert_output snap st2)"
proof -
  show "written now charge snap blobs st (insert_output snap (st2\<lparr>os_blobs := os_blobs st2 @ blobs\<rparr>))" for blobs
    using assms unfolding written_def by blast
  from this [of "[]"] show "written now charge snap [] st (insert_output snap st2)" by simp
qed

lemma retain_cases:
  obtains "same_rows st (snd (retain env now uuid hold fault body matches scope st))"
    | snap where "written now (sn_size snap) snap [] st (snd (retain env now uuid hold fault body matches scope st))"
        "sn_id snap = uuid" "sn_expires snap = now + 86400"
        "fst (retain env now uuid hold fault body matches scope st) = Inr snap"
proof -
  let ?snap = "retained_snapshot env now uuid body matches scope" and ?r = "retain env now uuid hold fault body matches scope st"
  have same: "same_rows st st" by (simp add: same_rows_def)
  have snap: "sn_id ?snap = uuid" "sn_expires ?snap = now + 86400" by (simp_all add: retained_snapshot_def Let_def)
  have "same_rows st (snd ?r) \<or> (written now (sn_size ?snap) ?snap [] st (snd ?r) \<and> fst ?r = Inr ?snap)"
    unfolding retain_def Let_def
    by (auto simp: same hold_rows intro!: writtenI(2) [OF hold_rows(1)] split: option.split sum.split)
  then show ?thesis using that snap by blast
qed

lemma retain_ok:
  assumes "retain env now uuid hold fault body matches scope st = (Inr snap, st')"
  obtains st2 where "make_room now (sn_size snap) (prune now (hold_result hold uuid st)) = Inr st2"
    "st' = insert_output snap st2" "snap = retained_snapshot env now uuid body matches scope"
proof (cases "raw_measure (os_per_result st) body matches")
  case None
  then show ?thesis using assms by (simp add: retain_def split: if_splits)
next
  case (Some raw)
  let ?snap = "retained_snapshot env now uuid body matches scope"
  show ?thesis
  proof (cases "so_owner scope = [] \<or> os_global st < raw \<or> os_per_result st < sn_size ?snap \<or> fault")
    case True
    then show ?thesis using assms Some by (auto simp: retain_def Let_def split: if_splits)
  next
    case False
    let ?m = "make_room now (sn_size ?snap) (prune now (hold_result hold uuid st))"
    have eq: "retain env now uuid hold fault body matches scope st =
        (case ?m of Inl e \<Rightarrow> (Inl e, hold_result hold uuid st) | Inr st2 \<Rightarrow> (Inr ?snap, insert_output ?snap st2))"
      using False Some by (simp add: retain_def Let_def)
    show ?thesis
    proof (cases ?m)
      case (Inl e)
      then show ?thesis using assms eq by simp
    next
      case (Inr st2)
      then have "snap = ?snap" "st' = insert_output ?snap st2" using assms eq by auto
      then show ?thesis using that Inr by blast
    qed
  qed
qed

lemma bundle_cases:
  obtains "same_rows st (snd (retain_binary_bundle env now uuids uuid hold fault attachments scope st))"
    | snap blobs where "written now (sn_size snap + sum_list (map bs_size blobs)) snap blobs st
          (snd (retain_binary_bundle env now uuids uuid hold fault attachments scope st))"
        "sn_id snap = uuid" "sn_expires snap = now + 86400" "\<forall>b\<in>set blobs. bs_id b \<in> set uuids \<and> bs_expires b = now + 86400"
        "fst (retain_binary_bundle env now uuids uuid hold fault attachments scope st) = Inr snap"
        "blobs = map2 (blob_of env now scope) uuids attachments"
proof -
  let ?r = "retain_binary_bundle env now uuids uuid hold fault attachments scope st"
  let ?blobs = "map2 (blob_of env now scope) uuids attachments"
  let ?snap = "manifest_snapshot env now uuid ?blobs scope"
  have same: "same_rows st st" by (simp add: same_rows_def)
  have snap: "sn_id ?snap = uuid" "sn_expires ?snap = now + 86400" by (simp_all add: manifest_snapshot_def)
  have b: "\<forall>b\<in>set ?blobs. bs_id b \<in> set uuids \<and> bs_expires b = now + 86400"
    by (auto simp: blob_of_def dest: set_zip_leftD)
  have "same_rows st (snd ?r)
      \<or> (written now (sn_size ?snap + sum_list (map bs_size ?blobs)) ?snap ?blobs st (snd ?r) \<and> fst ?r = Inr ?snap)"
    unfolding retain_binary_bundle_def Let_def
    by (auto simp: same hold_rows intro!: writtenI(1) [OF hold_rows(1)] split: sum.split)
  then show ?thesis using that b snap by blast
qed

lemma read_rows:
  "snd (read_output now now2 fault cursor owner channel authorize st) = st
   \<or> snd (read_output now now2 fault cursor owner channel authorize st) = prune now st"
  by (auto simp: read_output_def Let_def split: option.split prod.split)

section \<open>The quota\<close>

definition within_quota :: "output_store \<Rightarrow> bool" where
  "within_quota st \<longleftrightarrow> stored_size st \<le> os_global st"

lemma same_rows_size: "same_rows st st' \<Longrightarrow> stored_size st' = stored_size st \<and> os_global st' = os_global st"
  by (simp add: same_rows_def stored_size_def charges_def)

lemma pruned_size: "stored_size (prune now st) \<le> stored_size st"
proof -
  have "charges (prune now st) = filter (\<lambda>p. \<not> fst p \<le> now) (charges st)"
    by (simp add: charges_def prune_def filter_map o_def)
  then show ?thesis using sum_split [of "charges st" "\<lambda>p. \<not> fst p \<le> now"] by (simp add: stored_size_def)
qed

lemma written_quota:
  assumes "written now (sn_size snap + sum_list (map bs_size blobs)) snap blobs st st'"
  shows "within_quota st'"
proof -
  let ?c = "sn_size snap + sum_list (map bs_size blobs)"
  obtain st1 st2 where w: "make_room now ?c (prune now st1) = Inr st2"
      "st' = insert_output snap (st2\<lparr>os_blobs := os_blobs st2 @ blobs\<rparr>)"
    using assms by (auto simp: written_def)
  obtain ts where ts: "st2 = expire_cohorts ts (prune now st1)" "stored_size st2 + ?c \<le> os_global (prune now st1)"
    by (rule make_room_effect [OF w(1) pruned_live])
  have "os_global st' = os_global (prune now st1)" by (simp add: w(2) ts(1) insert_output_def expire_cohorts_def)
  moreover have "stored_size st' = stored_size st2 + ?c"
    by (simp add: w(2) stored_size_def charges_def insert_output_def o_def)
  ultimately show ?thesis using ts(2) by (simp add: within_quota_def)
qed

lemma step_quota:
  assumes "out_step given st st'" "within_quota st"
  shows "within_quota st'"
  using assms(1)
proof cases
  case (retained uuid env now hold fault body matches scope)
  show ?thesis unfolding retained(1)
  proof (rule retain_cases [of st env now uuid hold fault body matches scope])
    assume "same_rows st (snd (retain env now uuid hold fault body matches scope st))"
    then show "within_quota (snd (retain env now uuid hold fault body matches scope st))"
      using same_rows_size assms(2) by (simp add: within_quota_def)
  next
    fix snap assume "written now (sn_size snap) snap [] st (snd (retain env now uuid hold fault body matches scope st))"
    then show "within_quota (snd (retain env now uuid hold fault body matches scope st))"
      using written_quota [of now snap "[]"] by simp
  qed
next
  case (bundled uuid uuids env now hold fault attachments scope)
  show ?thesis unfolding bundled(1)
  proof (rule bundle_cases [of st env now uuids uuid hold fault attachments scope])
    assume "same_rows st (snd (retain_binary_bundle env now uuids uuid hold fault attachments scope st))"
    then show "within_quota (snd (retain_binary_bundle env now uuids uuid hold fault attachments scope st))"
      using same_rows_size assms(2) by (simp add: within_quota_def)
  qed (use written_quota in blast)
next
  case (shown now1 now2 fault cursor owner channel authorize)
  then show ?thesis
    using read_rows [of now1 now2 fault cursor owner channel authorize st] assms(2) pruned_size [of now1 st]
    by (auto simp: within_quota_def prune_def)
next
  case (released held)
  then show ?thesis using same_rows_size [OF hold_rows(2)] assms(2) by (simp add: within_quota_def)
qed

interpretation out_quota: step_invariant "out_step given" within_quota
  by unfold_locales (rule step_quota)

definition new_output_store :: "nat \<Rightarrow> nat \<Rightarrow> output_store" where
  "new_output_store per_result global =
     \<lparr>os_outputs = [], os_blobs = [], os_holds = [], os_per_result = per_result, os_global = global\<rparr>"

text \<open>
  C34: Whatever is retained, read and released, with any clock and any failing transaction, the rows of
  both tables together never exceed the global quota.
\<close>

theorem retention_within_quota:
  assumes "(out_step given)\<^sup>*\<^sup>* (new_output_store per_result global) st"
  shows "stored_size st \<le> os_global st"
proof -
  have "within_quota (new_output_store per_result global)"
    by (simp add: within_quota_def stored_size_def charges_def new_output_store_def)
  then have "within_quota st" by (rule out_quota.steps_inv [OF assms])
  then show ?thesis by (simp add: within_quota_def)
qed

section \<open>Holds and eviction\<close>

lemma hold_kept: "0 < hold_count i st \<Longrightarrow> 0 < hold_count i (hold_result hold j st)"
  by (auto simp: hold_result_def set_hold_def hold_count_def jget_def [symmetric] jget_jset)

lemma held_protected:
  assumes "0 < hold_count (sn_id r) st" "r \<in> set (os_outputs st)"
  shows "sn_expires r \<in> set (protected_expiries st)"
proof -
  have "sn_id r \<in> set (map fst (os_holds st))"
    using assms(1) by (auto simp: hold_count_def split: option.splits dest: map_of_SomeD intro: rev_image_eqI)
  then show ?thesis using assms(2) by (auto simp: protected_expiries_def Let_def)
qed

lemma prune_holds [simp]: "hold_count i (prune now st) = hold_count i st"
  by (simp add: hold_count_def prune_def)

text \<open>
  Making room for a new text evicts only what it must. A row that is not expired and that a delivery
  under way holds stays, with every row of its cohort; an unexpired row that goes was needed for the
  new one, and every unexpired cohort that stays and is not protected is newer.
\<close>

theorem eviction_spares_held_and_newer:
  assumes "retain env now uuid hold fault body matches scope st = (Inr snap, st')"
    and "uuid \<notin> set (map sn_id (os_outputs st))" "r \<in> set (os_outputs st)" "now < sn_expires r"
  shows "if 0 < hold_count (sn_id r) st
     then r \<in> set (os_outputs st') \<and> filter (\<lambda>b. bs_expires b = sn_expires r) (os_blobs st')
            = filter (\<lambda>b. bs_expires b = sn_expires r) (os_blobs st)
     else r \<in> set (os_outputs st')
          \<or> (os_global st < stored_size (prune now st) + sn_size snap
             \<and> list_all (\<lambda>q. sn_expires q \<le> now \<or> q \<notin> set (os_outputs st')
                              \<or> sn_expires q \<in> set (protected_expiries (prune now (hold_result hold uuid st)))
                              \<or> sn_expires r < sn_expires q) (os_outputs st))"
proof -
  let ?st1 = "hold_result hold uuid st"
  let ?p = "prune now ?st1"
  obtain st2 where m: "make_room now (sn_size snap) ?p = Inr st2" "st' = insert_output snap st2"
    and snap: "snap = retained_snapshot env now uuid body matches scope"
    by (rule retain_ok [OF assms(1)])
  obtain ts where ts: "st2 = expire_cohorts ts ?p" "stored_size st2 + sn_size snap \<le> os_global ?p"
      "set ts \<inter> set (protected_expiries ?p) = {}"
    and first: "\<And>t u. t \<in> set ts \<Longrightarrow> u \<in> fst ` set (charges ?p) \<Longrightarrow> u \<notin> set (protected_expiries ?p) \<Longrightarrow> u \<notin> set ts \<Longrightarrow> t < u"
    and need: "ts \<noteq> [] \<Longrightarrow> os_global ?p < stored_size ?p + sn_size snap"
    by (rule make_room_effect [OF m(1) pruned_live]) (rule that)
  have rows: "os_outputs ?st1 = os_outputs st" "os_blobs ?st1 = os_blobs st" "os_global ?st1 = os_global st"
    using hold_rows(1) [of st hold uuid] by (auto simp: same_rows_def)
  have outs: "os_outputs st' = filter (\<lambda>q. sn_expires q \<notin> set ts) (filter (\<lambda>q. \<not> sn_expires q \<le> now) (os_outputs st)) @ [snap]"
    and blobs: "os_blobs st' = filter (\<lambda>b. bs_expires b \<notin> set ts) (filter (\<lambda>b. \<not> bs_expires b \<le> now) (os_blobs st))"
    by (simp_all add: m(2) ts(1) insert_output_def expire_cohorts_def prune_def rows)
  have rp: "r \<in> set (os_outputs ?p)" using assms(3,4) by (simp add: prune_def rows)
  have sz: "stored_size ?p = stored_size (prune now st)" "os_global ?p = os_global st"
    by (simp_all add: stored_size_def charges_def prune_def rows)
  show ?thesis
  proof (cases "0 < hold_count (sn_id r) st")
    case True
    then have "sn_expires r \<in> set (protected_expiries ?p)" using held_protected [OF _ rp] hold_kept by simp
    then have "sn_expires r \<notin> set ts" using ts(3) by blast
    then show ?thesis
      using True assms(3,4) by (auto simp: outs blobs intro!: filter_cong)
  next
    case False
    show ?thesis
    proof (cases "sn_expires r \<in> set ts")
      case True
      then have "ts \<noteq> []" by auto
      then have "os_global st < stored_size (prune now st) + sn_size snap" using need sz by simp
      moreover have "sn_expires q \<le> now \<or> q \<notin> set (os_outputs st') \<or> sn_expires q \<in> set (protected_expiries ?p) \<or> sn_expires r < sn_expires q"
        if q: "q \<in> set (os_outputs st)" for q
      proof (cases "sn_expires q \<le> now \<or> sn_expires q \<in> set ts \<or> sn_expires q \<in> set (protected_expiries ?p)")
        case False
        then have "sn_expires q \<in> fst ` set (charges ?p)" using q by (force simp: charges_def prune_def rows)
        then show ?thesis using first [OF True] False by blast
      next
        case in_ts: True
        have "sn_id snap = uuid" using snap by (simp add: retained_snapshot_def Let_def)
        then have "q \<noteq> snap" using q assms(2) by auto
        then show ?thesis using in_ts by (auto simp: outs)
      qed
      ultimately show ?thesis using False by (auto simp: list_all_iff)
    next
      case False
      then have "r \<in> set (os_outputs st')" using assms(3,4) by (simp add: outs)
      then show ?thesis using \<open>\<not> 0 < hold_count (sn_id r) st\<close> by simp
    qed
  qed
qed

section \<open>Bundles\<close>

definition whole :: "snapshot \<Rightarrow> binary_snapshot list \<Rightarrow> output_store \<Rightarrow> bool" where
  "whole m blobs st \<longleftrightarrow> (m \<in> set (os_outputs st) \<longrightarrow> set blobs \<subseteq> set (os_blobs st))"

lemma pruned_whole:
  "whole m blobs st \<Longrightarrow> \<forall>b\<in>set blobs. bs_expires b = sn_expires m \<Longrightarrow> whole m blobs (prune now st)"
  by (auto simp: whole_def prune_def)

lemma expired_whole:
  "whole m blobs st \<Longrightarrow> \<forall>b\<in>set blobs. bs_expires b = sn_expires m \<Longrightarrow> whole m blobs (expire_cohorts ts st)"
  by (auto simp: whole_def expire_cohorts_def)

lemma same_rows_whole: "same_rows st st' \<Longrightarrow> whole m blobs st' = whole m blobs st"
  by (simp add: same_rows_def whole_def)

lemma written_whole:
  assumes "written now charge snap new st st'" "whole m blobs st" "\<forall>b\<in>set blobs. bs_expires b = sn_expires m" "snap \<noteq> m"
  shows "whole m blobs st'"
proof -
  obtain st1 st2 where w: "same_rows st st1" "make_room now charge (prune now st1) = Inr st2"
      "st' = insert_output snap (st2\<lparr>os_blobs := os_blobs st2 @ new\<rparr>)"
    using assms(1) by (auto simp: written_def)
  obtain ts where "st2 = expire_cohorts ts (prune now st1)" by (rule make_room_effect [OF w(2) pruned_live])
  then have "whole m blobs st2"
    using expired_whole pruned_whole same_rows_whole [OF w(1)] assms(2,3) by blast
  then show ?thesis using assms(4) by (auto simp: whole_def w(3) insert_output_def)
qed

lemma step_whole:
  assumes "out_step given st st'" "whole m blobs st" "\<forall>b\<in>set blobs. bs_expires b = sn_expires m" "sn_id m \<in> given"
  shows "whole m blobs st'"
  using assms(1)
proof cases
  case (retained uuid env now hold fault body matches scope)
  show ?thesis unfolding retained(1)
  proof (rule retain_cases [of st env now uuid hold fault body matches scope])
    assume "same_rows st (snd (retain env now uuid hold fault body matches scope st))"
    from same_rows_whole [OF this] show "whole m blobs (snd (retain env now uuid hold fault body matches scope st))"
      using assms(2) by simp
  next
    fix snap assume w: "written now (sn_size snap) snap [] st (snd (retain env now uuid hold fault body matches scope st))"
      and "sn_id snap = uuid"
    then have "snap \<noteq> m" using retained(2) assms(4) by auto
    then show "whole m blobs (snd (retain env now uuid hold fault body matches scope st))"
      by (rule written_whole [OF w assms(2,3)])
  qed
next
  case (bundled uuid uuids env now hold fault attachments scope)
  show ?thesis unfolding bundled(1)
  proof (rule bundle_cases [of st env now uuids uuid hold fault attachments scope])
    assume "same_rows st (snd (retain_binary_bundle env now uuids uuid hold fault attachments scope st))"
    from same_rows_whole [OF this]
    show "whole m blobs (snd (retain_binary_bundle env now uuids uuid hold fault attachments scope st))"
      using assms(2) by simp
  next
    fix snap new assume w: "written now (sn_size snap + sum_list (map bs_size new)) snap new st
        (snd (retain_binary_bundle env now uuids uuid hold fault attachments scope st))" and "sn_id snap = uuid"
    then have "snap \<noteq> m" using bundled(2) assms(4) by auto
    then show "whole m blobs (snd (retain_binary_bundle env now uuids uuid hold fault attachments scope st))"
      by (rule written_whole [OF w assms(2,3)])
  qed
next
  case (shown now1 now2 fault cursor owner channel authorize)
  then show ?thesis
    using read_rows [of now1 now2 fault cursor owner channel authorize st] assms(2) pruned_whole [OF assms(2,3)] by auto
next
  case (released held)
  then show ?thesis using same_rows_whole [OF hold_rows(2)] assms(2) by simp
qed

text \<open>
  C35: The files of an attachment bundle and their manifest expire together: as long as the manifest is
  readable, along any later writes, reads, evictions and releases, every file it names is stored.
\<close>

theorem bundle_leaves_together:
  assumes "retain_binary_bundle env now uuids uuid hold fault attachments scope st = (Inr m, st1)"
    and "(out_step given)\<^sup>*\<^sup>* st1 st2" "uuid \<in> given" "m \<in> set (os_outputs st2)" "m \<notin> set (os_outputs st)"
  shows "set (map2 (blob_of env now scope) uuids attachments) \<subseteq> set (os_blobs st2)"
proof -
  let ?blobs = "map2 (blob_of env now scope) uuids attachments"
  have r: "snd (retain_binary_bundle env now uuids uuid hold fault attachments scope st) = st1"
    "fst (retain_binary_bundle env now uuids uuid hold fault attachments scope st) = Inr m"
    using assms(1) by simp_all
  have start: "whole m ?blobs st1 \<and> (\<forall>b\<in>set ?blobs. bs_expires b = sn_expires m) \<and> sn_id m \<in> given"
  proof (rule bundle_cases [of st env now uuids uuid hold fault attachments scope])
    assume same: "same_rows st (snd (retain_binary_bundle env now uuids uuid hold fault attachments scope st))"
    then have m: "m \<notin> set (os_outputs st1)" using assms(5) r by (simp add: same_rows_def)
    have "m = manifest_snapshot env now uuid ?blobs scope"
      using assms(1) by (auto simp: retain_binary_bundle_def Let_def split: if_splits sum.splits)
    then show ?thesis using m assms(3) by (auto simp: whole_def manifest_snapshot_def blob_of_def)
  next
    fix snap new
    assume w: "written now (sn_size snap + sum_list (map bs_size new)) snap new st
          (snd (retain_binary_bundle env now uuids uuid hold fault attachments scope st))"
      and m: "sn_id snap = uuid" "sn_expires snap = now + 86400" "\<forall>b\<in>set new. bs_id b \<in> set uuids \<and> bs_expires b = now + 86400"
        "fst (retain_binary_bundle env now uuids uuid hold fault attachments scope st) = Inr snap" "new = ?blobs"
    have "set new \<subseteq> set (os_blobs st1)" using w r by (auto simp: written_def insert_output_def)
    then show ?thesis using m r(2) assms(3) by (auto simp: whole_def)
  qed
  have "whole m ?blobs st2" using assms(2)
  proof (induction rule: rtranclp_induct)
    case (step u v)
    then show ?case using step_whole start by blast
  qed (use start in blast)
  then show ?thesis using assms(4) by (simp add: whole_def)
qed

section \<open>The early size check\<close>

lemma utf8_append: "utf8_length (a @ b) = utf8_length a + utf8_length b"
  by (simp add: utf8_length_def)

lemma utf8_at_least: "length s \<le> utf8_length s"
  by (induction s) (auto simp: utf8_length_def)

lemma measured_pieces:
  "measure_pieces limit raw part =
     (if part \<noteq> [] \<and> limit < raw + utf8_length part then None else Some (raw + utf8_length part))"
proof (induction limit raw part rule: measure_pieces.induct)
  case (1 limit raw part)
  show ?case
  proof (cases "part = []")
    case True
    then show ?thesis by (simp add: measure_pieces.simps utf8_length_def)
  next
    case False
    let ?raw = "raw + utf8_length (take 65536 part)"
    have split: "utf8_length part = utf8_length (take 65536 part) + utf8_length (drop 65536 part)"
      using utf8_append [of "take 65536 part" "drop 65536 part"] by simp
    show ?thesis
    proof (cases "limit < ?raw")
      case True
      then show ?thesis using False split by (simp add: measure_pieces.simps [of limit raw part])
    next
      case le: False
      have "measure_pieces limit raw part = measure_pieces limit ?raw (drop 65536 part)"
        using False le by (simp add: measure_pieces.simps [of limit raw part])
      also have "\<dots> = (if drop 65536 part \<noteq> [] \<and> limit < ?raw + utf8_length (drop 65536 part)
          then None else Some (?raw + utf8_length (drop 65536 part)))"
        by (rule 1 [OF False refl le])
      also have "\<dots> = (if limit < ?raw + utf8_length (drop 65536 part)
          then None else Some (?raw + utf8_length (drop 65536 part)))"
      proof (cases "drop 65536 part = []")
        case True
        then have "utf8_length (drop 65536 part) = 0" by (simp only: utf8_length_def list.map sum_list.Nil)
        then show ?thesis using le True by (simp only: simp_thms if_False add_0_right)
      qed (simp only: simp_thms)
      finally show ?thesis using False unfolding split add.assoc [symmetric] by (simp only: simp_thms)
    qed
  qed
qed

lemma measured_parts:
  "measure_parts limit raw parts =
     (let n = raw + sum_list (map utf8_length parts) in if parts \<noteq> [] \<and> limit < n then None else Some n)"
proof (induction parts arbitrary: raw)
  case (Cons part parts)
  let ?n = "raw + utf8_length part + sum_list (map utf8_length parts)"
  show ?case
  proof (cases "limit < raw + length part")
    case True
    then have "limit < ?n" using utf8_at_least [of part] by linarith
    then show ?thesis using True by (simp add: Let_def add.assoc)
  next
    case False
    show ?thesis
    proof (cases "part \<noteq> [] \<and> limit < raw + utf8_length part")
      case True
      then show ?thesis using False by (simp add: measured_pieces Let_def)
    next
      case ok: False
      then have le: "raw + utf8_length part \<le> limit" using False by (cases "part = []") (simp_all add: utf8_length_def)
      have "measure_parts limit raw (part # parts) = measure_parts limit (raw + utf8_length part) parts"
        using False ok by (auto simp: measured_pieces)
      then show ?thesis
        using Cons.IH [of "raw + utf8_length part"] le by (cases "parts = []") (simp_all add: Let_def add.assoc)
    qed
  qed
qed simp

lemma joined_length:
  "ms \<noteq> [] \<Longrightarrow> utf8_length (join [CHR 0x0A, CHR 0x0A] ms) = (length ms - 1) * 2 + sum_list (map utf8_length ms)"
proof (induction "[CHR 0x0A, CHR 0x0A]" ms rule: join.induct)
  case (3 x y ys)
  then show ?case by (simp add: utf8_append) (simp add: utf8_length_def)
qed simp_all

text \<open>
  The size check before scrubbing, which reads the output in bounded pieces and stops early, accepts
  and refuses exactly what encoding the whole output would.
\<close>

theorem early_check_exact:
  "raw_measure limit body matches =
     (let n = utf8_length (if matches = [] then body else join [CHR 0x0A, CHR 0x0A] matches)
      in if limit < n then None else Some n)"
  using joined_length [of matches] by (cases "matches = []") (simp_all add: raw_measure_def measured_parts Let_def)

section \<open>Reading\<close>

lemma find_in: "find p xs = Some x \<Longrightarrow> x \<in> set xs"
  by (induction xs) (auto split: if_splits)

lemma read_authorized:
  assumes "read_output now now2 fault cursor owner channel authorize st = (Inr (r, offset), st')"
  shows "\<exists>tool hosts expires. stored_meta r = ((owner, channel), tool, hosts, expires) \<and> owner \<noteq> [] \<and> authorize tool hosts
     \<and> now < expires \<and> now2 < expires \<and> offset \<le> stored_length r
     \<and> (case r of Text_output q \<Rightarrow> q \<in> set (os_outputs st) | Binary_output b \<Rightarrow> b \<in> set (os_blobs st))"
proof -
  obtain i n where c: "parse_cursor cursor = Some (i, n)"
    using assms by (cases "parse_cursor cursor") (auto simp: read_output_def)
  obtain q where q: "lookup_output i (prune now st) = Some q"
    using assms c by (cases "lookup_output i (prune now st)") (auto simp: read_output_def Let_def split: if_splits)
  obtain scope tool hosts expires where m: "stored_meta q = (scope, tool, hosts, expires)"
    by (metis prod_cases4)
  have r: "r = q" "scope = (owner, channel)" "owner \<noteq> []" "authorize tool hosts" "now2 < expires" "offset \<le> stored_length r"
    using assms c q m by (auto simp: read_output_def Let_def split: if_splits)
  have "now < expires \<and> (case q of Text_output q \<Rightarrow> q \<in> set (os_outputs st) | Binary_output b \<Rightarrow> b \<in> set (os_blobs st))"
    using q m by (auto simp: lookup_output_def prune_def dest!: find_in split: option.splits)
  then show ?thesis using m r by blast
qed

text \<open>
  A read that succeeds shows a stored row that has not expired at either reading of the clock, to the
  owner and channel that produced it, with a live authorization for its tool and hosts, from an offset
  inside it.
\<close>

theorem read_needs_live_scope:
  assumes "read_output now now2 fault cursor owner channel authorize st = (Inr (r, offset), st')"
  shows "\<exists>tool hosts expires. stored_meta r = ((owner, channel), tool, hosts, expires) \<and> owner \<noteq> [] \<and> authorize tool hosts
     \<and> now < expires \<and> now2 < expires \<and> offset \<le> stored_length r
     \<and> (case r of Text_output q \<Rightarrow> q \<in> set (os_outputs st) | Binary_output b \<Rightarrow> b \<in> set (os_blobs st))"
  by (rule read_authorized [OF assms])

section \<open>Cursors\<close>

lemma nat_text_no_colon: "CHR '':'' \<notin> set (nat_text n)"
  using nat_text_digits [of n] by (auto simp: list_all_iff is_digit_def)

lemma digit_not_space: "is_digit c \<Longrightarrow> \<not> is_space c"
  by (auto simp: is_digit_def is_space_def Let_def)

lemma digits_strip: "list_all is_digit s \<Longrightarrow> strip s = s"
proof -
  assume s: "list_all is_digit s"
  then have "dropWhile is_space s = s" using digit_not_space by (cases s) auto
  moreover have "dropWhile is_space (rev s) = rev s" using s digit_not_space by (cases "rev s") (auto simp: list_all_iff)
  ultimately show ?thesis by (simp add: strip_def)
qed

lemma digits_underscored: "list_all is_digit s \<Longrightarrow> s \<noteq> [] \<Longrightarrow> underscored s = Some s"
proof (induction s rule: underscored.induct)
  case (3 c d cs)
  have "d \<noteq> CHR ''_''" using 3(2) by (auto simp: is_digit_def)
  then show ?case using 3 by simp
qed auto

lemma parse_nat_text: "parse_int (nat_text n) = Some (int n)"
proof -
  have d: "list_all is_digit (nat_text n)" "nat_text n \<noteq> []" using nat_text_digits by blast+
  then obtain c cs where c: "nat_text n = c # cs" "is_digit c" by (cases "nat_text n") auto
  have "c \<noteq> CHR ''-''" "c \<noteq> CHR ''+''" using c(2) by (auto simp: is_digit_def)
  then show ?thesis
    using digits_strip [OF d(1)] digits_underscored [OF d] digits_value_nat_text [of n] by (simp add: parse_int_def c(1))
qed

lemma hex_no_colon: "list_all hex_digit i \<Longrightarrow> CHR '':'' \<notin> set i"
proof -
  assume "list_all hex_digit i"
  moreover have "\<not> hex_digit CHR '':''" by (simp add: hex_digit_def)
  ultimately show ?thesis unfolding list_all_iff by blast
qed

lemma page_cursor_parses:
  assumes "length i = 32" "list_all hex_digit i"
  shows "parse_cursor (page_cursor i n) = Some (i, int n)"
proof -
  have ok: "\<forall>x\<in>set i. x \<noteq> CHR '':''" using hex_no_colon [OF assms(2)] by blast
  have "takeWhile (\<lambda>x. x \<noteq> CHR '':'') (i @ CHR '':'' # nat_text n) = i @ takeWhile (\<lambda>x. x \<noteq> CHR '':'') (CHR '':'' # nat_text n)"
    by (rule takeWhile_append2) (use ok in blast)
  moreover have "dropWhile (\<lambda>x. x \<noteq> CHR '':'') (i @ CHR '':'' # nat_text n) = dropWhile (\<lambda>x. x \<noteq> CHR '':'') (CHR '':'' # nat_text n)"
    by (rule dropWhile_append2) (use ok in blast)
  ultimately have "takeWhile (\<lambda>x. x \<noteq> CHR '':'') (i @ CHR '':'' # nat_text n) = i"
    "dropWhile (\<lambda>x. x \<noteq> CHR '':'') (i @ CHR '':'' # nat_text n) = CHR '':'' # nat_text n"
    by simp_all
  then have "split_cursor (page_cursor i n) = Some (i, nat_text n)"
    using nat_text_no_colon by (simp add: split_cursor_def page_cursor_def Let_def)
  then show ?thesis using assms parse_nat_text by (simp add: parse_cursor_def)
qed

text \<open>A cursor that a page names reads back as the id and the offset it was made of.\<close>

theorem cursor_round_trip:
  assumes "length i = 32" "list_all hex_digit i"
  shows "parse_cursor (page_cursor i n) = Some (i, int n)"
  by (rule page_cursor_parses [OF assms])

end
