(* ===== verification/Output_Page_Props.thy ===== *)
theory Output_Page_Props
  imports Output_Page Output_Store_Props
begin

text \<open>
  Everything delivered fits its budget, and following the cursors of the pages gives the whole text.
\<close>

section \<open>Budgets\<close>

lemma bisect_range: "low \<le> high \<Longrightarrow> low \<le> bisect_last ok low high \<and> bisect_last ok low high \<le> high"
proof (induction ok low high rule: bisect_last.induct)
  case (1 ok low high)
  let ?m = "(low + high + 1) div 2"
  consider "\<not> low < high" | "low < high" "ok ?m" | "low < high" "\<not> ok ?m" by blast
  then show ?case
  proof cases
    case 1
    then show ?thesis using \<open>low \<le> high\<close> unfolding bisect_last.simps [of ok low high] if_not_P [OF 1] by simp
  next
    case 2
    then have "low \<le> ?m" "?m \<le> high" by auto
    moreover have "bisect_last ok low high = bisect_last ok ?m high"
      unfolding bisect_last.simps [of ok low high] Let_def if_P [OF 2(1)] if_P [OF 2(2)] ..
    ultimately show ?thesis using "1.IH"(1) [OF 2(1) refl 2(2)] by linarith
  next
    case 3
    then have "low \<le> ?m - 1" "?m - 1 \<le> high" by auto
    moreover have "bisect_last ok low high = bisect_last ok low (?m - 1)"
      unfolding bisect_last.simps [of ok low high] Let_def if_P [OF 3(1)] if_not_P [OF 3(2)] ..
    ultimately show ?thesis using "1.IH"(2) [OF 3(1) refl 3(2)] by linarith
  qed
qed

lemma bisect_holds: "ok low \<Longrightarrow> ok (bisect_last ok low high)"
proof (induction ok low high rule: bisect_last.induct)
  case (1 ok low high)
  then show ?case
    unfolding bisect_last.simps [of ok low high] Let_def by (cases "ok ((low + high + 1) div 2)") simp_all
qed

lemma compact_fits: "length (compact_failure budget) \<le> budget"
  by (simp add: compact_failure_def Let_def)

lemma failure_fits: "length (delivery_failure env reason status text budget) \<le> budget"
proof (cases "budget < length (failure_envelope status reason (take budget (oe_scrub env (take (budget + 256) text)))
      (oe_scrub env (failure_tail env budget text)) 0)")
  case True
  then show ?thesis using compact_fits by (simp add: delivery_failure_def Let_def)
next
  case False
  then show ?thesis
    using bisect_holds [of "\<lambda>n. length (failure_envelope status reason (take budget (oe_scrub env (take (budget + 256) text)))
      (oe_scrub env (failure_tail env budget text)) n) \<le> budget" 0]
    by (simp add: delivery_failure_def Let_def)
qed

lemma text_page_fits: "length (rendered_text (render_page env snap offset budget limit initial)) \<le> budget"
  using failure_fits unfolding render_page_def Let_def by (simp add: page_len_def)

lemma file_page_fits: "length (rendered_text (render_binary_page env b offset budget limit)) \<le> budget"
proof -
  let ?n = "length (bs_data b)"
  let ?page = "binary_envelope env b limit offset"
  let ?high = "min ?n (offset + limit div 4 * 3)"
  let ?low = "bisect_last (\<lambda>e. page_len (?page False e) \<le> budget) offset ?high"
  let ?fin = "\<lambda>e. if page_len (?page True e) \<le> budget then Page (?page True e) else Page (?page False e)"
  have fin: "page_len (?page False e) \<le> budget \<Longrightarrow> length (rendered_text (?fin e)) \<le> budget" for e
    by (simp add: page_len_def)
  let ?fails = "Failure (delivery_failure env ''Budget cannot fit a binary page.'' (bs_status b) [] budget)"
  have eq: "render_binary_page env b offset budget limit =
      (if ?high = ?n \<and> page_len (?page False ?high) \<le> budget then ?fin ?high
       else if (?low = offset \<and> offset < ?n) \<or> budget < page_len (?page False ?low) then ?fails else ?fin ?low)"
    by (simp only: render_binary_page_def Let_def)
  show ?thesis
  proof (cases "?high = ?n \<and> page_len (?page False ?high) \<le> budget")
    case True
    show ?thesis unfolding eq if_P [OF True] by (rule fin) (use True in blast)
  next
    case no: False
    show ?thesis
    proof (cases "(?low = offset \<and> offset < ?n) \<or> budget < page_len (?page False ?low)")
      case True
      show ?thesis unfolding eq if_not_P [OF no] if_P [OF True] using failure_fits by simp
    next
      case False
      then have "page_len (?page False ?low) \<le> budget" by simp
      then show ?thesis unfolding eq if_not_P [OF no] if_not_P [OF False] by (rule fin)
    qed
  qed
qed

lemma pointer_length: "length (match_pointer i) = length i + 40"
  by (simp add: match_pointer_def)

text \<open>
  C36: Whatever a tool returned and whatever retention does with it, the text that reaches the model is
  no longer than the budget, for every budget of at least 128 characters. (The results of \<^verbatim>\<open>read_file\<close>, those
  delivered already and polls of a process do not pass here; they have bounds of their own.)
\<close>

theorem delivery_within_budget:
  assumes "128 \<le> budget" "length uuid = 32"
  shows "length (delivered_text (fst (deliver env now uuid fault c scope budget store))) \<le> budget"
proof -
  define small where "small = (length (captured_text c) \<le> budget
      \<and> (\<not> recovery_required c \<or> list_all (\<lambda>m. occurs_in m (captured_text c)) (captured_matches c)))"
  obtain body kept where tk: "(if small then (oe_scrub env (captured_text c), []) else (captured_text c, captured_matches c)) = (body, kept)"
    by (cases "if small then (oe_scrub env (captured_text c), []) else (captured_text c, captured_matches c)")
  let ?cleaned = "oe_scrub env (captured_text c)"
  show ?thesis
  proof (cases "small \<and> length ?cleaned \<le> budget")
    case True
    then show ?thesis by (simp add: deliver_def small_def Let_def)
  next
    case False
    have eq: "deliver env now uuid fault c scope budget store =
        (case store of
           None \<Rightarrow> (Envelope (delivery_failure env ''Retention unavailable; output not retained; no continuation exists.''
                       (so_status scope) body budget) True (evidence_digest env c), None)
         | Some st \<Rightarrow>
             (case retain env now uuid False fault body kept scope st of
                (Inl (Retention e), st') \<Rightarrow> (Envelope (delivery_failure env (e @ '' no continuation exists.'')
                       (so_status scope) body budget) True (evidence_digest env c), Some st')
              | (Inl Storage_unavailable, st') \<Rightarrow> (Envelope (delivery_failure env
                       ''Retention storage unavailable. no continuation exists.'' (so_status scope) body budget) True
                       (evidence_digest env c), Some st')
              | (Inr snap, st') \<Rightarrow>
                  if captured_matches c \<noteq> [] \<and> length body \<le> budget
                  then (Envelope (match_preview env budget (sn_id snap) body) True (evidence_digest env c), Some st')
                  else (case render_page env snap 0 budget 4000 True of
                          Page d \<Rightarrow> (Envelope (compact_json d) (truthy (fget ''truncated'' d)) (evidence_digest env c), Some st')
                        | Failure f \<Rightarrow> (Envelope f True (evidence_digest env c), Some st'))))"
      using False tk unfolding deliver_def small_def [symmetric] Let_def by (simp only: if_False prod.case)
    show ?thesis
    proof (cases store)
      case None
      then show ?thesis unfolding eq using failure_fits by simp
    next
      case (Some st)
      obtain res st' where r: "retain env now uuid False fault body kept scope st = (res, st')"
        by (cases "retain env now uuid False fault body kept scope st")
      note eq' = eq [unfolded Some option.case r prod.case]
      show ?thesis
      proof (cases res)
        case (Inl e)
        show ?thesis unfolding Some eq' Inl sum.case using failure_fits by (cases e) simp_all
      next
        case (Inr snap)
        have "snap = retained_snapshot env now uuid body kept scope"
          by (rule retain_ok [of env now uuid False fault body kept scope st snap st']) (use r Inr in simp_all)
        then have "length (match_pointer (sn_id snap)) = 72"
          using assms(2) by (simp add: pointer_length retained_snapshot_def Let_def)
        then have "length (match_preview env budget (sn_id snap) body) \<le> budget"
          using assms(1) by (auto simp: match_preview_def Let_def)
        moreover have "length (rendered_text (render_page env snap 0 budget 4000 True)) \<le> budget" by (rule text_page_fits)
        ultimately show ?thesis
          unfolding Some eq' Inr sum.case
          by (cases "render_page env snap 0 budget 4000 True") simp_all
      qed
    qed
  qed
qed

section \<open>The size of a page\<close>

lemma join_length: "length (join [c] xs) = sum_list (map length xs) + (length xs - 1)"
  by (induction "[c]" xs rule: join.induct) simp_all

definition entry_size :: "string \<times> json \<Rightarrow> nat" where
  "entry_size p = length (quote_text (fst p)) + 1 + length (json_print [CHR '',''] [CHR '':''] (snd p))"

lemma page_size: "page_len d = 2 + sum_list (map entry_size d) + (length d - 1)"
  by (simp add: page_len_def compact_json_def join_length comp_def entry_size_def [abs_def])

lemma page_size_le:
  assumes "list_all2 (\<lambda>p q. entry_size p \<le> entry_size q) d e"
  shows "page_len d \<le> page_len e"
proof -
  have "sum_list (map entry_size d) \<le> sum_list (map entry_size e)"
    using assms by (induction rule: list_all2_induct) auto
  then show ?thesis using list_all2_lengthD [OF assms] by (simp add: page_size)
qed

lemma nat_text_longer: "m \<le> n \<Longrightarrow> length (nat_text m) \<le> length (nat_text n)"
proof (induction n arbitrary: m rule: less_induct)
  case (less n)
  show ?case
  proof (cases "m < 10")
    case True
    then show ?thesis by (simp add: nat_text.simps [of m] nat_text.simps [of n])
  next
    case False
    then have "length (nat_text (m div 10)) \<le> length (nat_text (n div 10))"
      using less by (intro less(1)) (auto simp: div_le_mono)
    then show ?thesis using False less(2) by (simp add: nat_text.simps [of m] nat_text.simps [of n])
  qed
qed

lemma quote_longer: "length (quote_text (take m s)) \<le> length (quote_text (take n s))" if "m \<le> n"
proof -
  have "take n s = take m s @ drop m (take n s)" using append_take_drop_id [of m "take n s"] that by (simp add: min_def)
  then have "quote_text (take n s) = quote_text (take m s @ drop m (take n s))" by simp
  then show ?thesis by (simp add: quote_text_def)
qed

lemma escaped_digits: "concat (map escape_char (nat_text n)) = nat_text n"
proof -
  have "list_all is_digit s \<Longrightarrow> concat (map escape_char s) = s" for s
  proof (induction s)
    case (Cons c s)
    then have r: "48 \<le> (of_char c :: nat)" "(of_char c :: nat) \<le> 57" by (simp_all add: is_digit_def)
    then have "c \<noteq> CHR 0x22" "c \<noteq> CHR 0x5C" "c \<noteq> CHR 0x0A" "c \<noteq> CHR 0x0D" "c \<noteq> CHR 0x09" "c \<noteq> CHR 0x0C" "c \<noteq> CHR 0x08"
      by auto
    then have "escape_char c = [c]" using r by (simp add: escape_char_def)
    then show ?case using Cons by simp
  qed simp
  then show ?thesis using nat_text_digits [of n] by blast
qed

lemma slice_take: "slice a b s = take (b - a) (drop a s)"
  by (simp add: slice_def drop_take)

lemma entry_sizes:
  "entry_size (k, JObj d) = length (quote_text k) + 1 + page_len d"
  "entry_size (k, JStr t) = length (quote_text k) + 1 + length (quote_text t)"
  "entry_size (k, JInt z) = length (quote_text k) + 1 + length (int_text z)"
  "entry_size (k, JBool b) = length (quote_text k) + 1 + (if b then 4 else 5)"
  by (simp_all add: entry_size_def page_len_def compact_json_def)

text \<open>
  Moving the end of a page back to the last match that fits keeps the counts of its matches, and what the
  text loses pays for the longer word of the flag.
\<close>

lemma cut_counts:
  assumes "sorted bounds" "filter (\<lambda>b. offset < b \<and> b \<le> high) bounds \<noteq> []"
    and "low = last (filter (\<lambda>b. offset < b \<and> b \<le> high) bounds)"
  shows "filter (\<lambda>b. offset < b \<and> b \<le> low) bounds = filter (\<lambda>b. offset < b \<and> b \<le> high) bounds"
    and "offset < low" "low \<le> high" "low \<in> set bounds"
proof -
  let ?f = "filter (\<lambda>b. offset < b \<and> b \<le> high) bounds"
  have "low \<in> set ?f" unfolding assms(3) by (rule last_in_set [OF assms(2)])
  then show r: "offset < low" "low \<le> high" "low \<in> set bounds" by auto
  have s: "sorted ?f" using assms(1) by (rule sorted_wrt_filter)
  have "\<forall>b\<in>set ?f. b \<le> low"
  proof
    fix b assume "b \<in> set ?f"
    then obtain k where k: "k < length ?f" "b = ?f ! k" by (metis in_set_conv_nth)
    have "low = ?f ! (length ?f - 1)" unfolding assms(3) by (rule last_conv_nth [OF assms(2)])
    then show "b \<le> low" using sorted_nth_mono [OF s, of k "length ?f - 1"] k by simp
  qed
  then show "filter (\<lambda>b. offset < b \<and> b \<le> low) bounds = ?f"
    using r(2) by (intro filter_cong refl) fastforce
qed

lemma cut_matches:
  assumes "filter (\<lambda>b. offset < b \<and> b \<le> low) bounds = filter (\<lambda>b. offset < b \<and> b \<le> high) bounds"
  shows "page_len (matches_shown bounds offset low n) \<le> Suc (page_len (matches_shown bounds offset high n))"
  by (simp add: matches_shown_def page_size entry_size_def Let_def assms)

lemma quote_shorter: "length (quote_text (take m s)) < length (quote_text (take n s))" if less: "m < n" "n \<le> length s"
proof -
  have "take n s = take m s @ drop m (take n s)" using append_take_drop_id [of m "take n s"] less by (simp add: min_def)
  then have "quote_text (take n s) = quote_text (take m s @ drop m (take n s))" by simp
  moreover obtain c cs where "drop m (take n s) = c # cs"
    using less by (cases "drop m (take n s)") (auto simp: min_def split: if_splits)
  moreover have "escape_char c \<noteq> []" for c by (simp add: escape_char_def Let_def)
  ultimately show ?thesis by (simp add: quote_text_def)
qed

lemma cut_page_shorter:
  assumes "length (shown_text env (sn_text snap)) = length (sn_text snap)"
    and "sorted (sn_boundaries snap)" "high < length (sn_text snap)" "offset \<le> high"
  shows "page_len (page_envelope env snap False limit offset tail (whole_matches (sn_boundaries snap) offset high))
    \<le> page_len (page_envelope env snap False limit offset tail high)"
proof (cases "filter (\<lambda>b. offset < b \<and> b \<le> high) (sn_boundaries snap) = [] \<or> whole_matches (sn_boundaries snap) offset high = high")
  case True
  then show ?thesis by (auto simp: whole_matches_def)
next
  case False
  define low where "low = last (filter (\<lambda>b. offset < b \<and> b \<le> high) (sn_boundaries snap))"
  have w: "whole_matches (sn_boundaries snap) offset high = low"
    using False by (auto simp: whole_matches_def low_def split: list.splits)
  have some: "filter (\<lambda>b. offset < b \<and> b \<le> high) (sn_boundaries snap) \<noteq> []" using False by blast
  note cut = cut_counts [OF assms(2) some low_def]
  have lt: "low < high" using cut(3) False w by simp
  let ?t = "shown_text env (sn_text snap)"
  have n: "length (nat_text low) \<le> length (nat_text high)" by (rule nat_text_longer) (use lt in simp)
  have c: "length (quote_text (page_cursor i low)) \<le> length (quote_text (page_cursor i high))" for i
    using n by (simp add: page_cursor_def quote_text_def escaped_digits)
  have t: "length (quote_text (slice offset low ?t)) < length (quote_text (slice offset high ?t))"
    unfolding slice_take by (rule quote_shorter) (use lt cut(2) assms(1,3) in simp_all)
  have m: "page_len (matches_shown (sn_boundaries snap) offset low (length (sn_text snap)))
    \<le> Suc (page_len (matches_shown (sn_boundaries snap) offset high (length (sn_text snap))))"
    by (rule cut_matches [OF cut(1)])
  have "sn_boundaries snap \<noteq> []" using some by auto
  then show ?thesis
    unfolding w using lt assms(3) n c [of "sn_id snap"] t m
    by (simp add: page_envelope_def Let_def page_size [of "_ # _"] entry_sizes int_text_def retrieval_def)
qed

lemma bounds_sorted: "sorted (match_bounds d ps) \<and> (\<forall>b\<in>set (match_bounds d ps). d \<le> b)"
  by (induction d ps rule: match_bounds.induct) (auto intro: le_trans [OF _ le_trans])

lemma retained_sorted: "sorted (sn_boundaries (retained_snapshot env now uuid t matches scope))"
  by (simp add: retained_snapshot_def Let_def bounds_sorted)

section \<open>Following the cursors\<close>

text \<open>The search never ends below an end that fits, when all ends before it fit as well.\<close>

lemma bisect_tested: "bisect_last ok low high = low \<or> ok (bisect_last ok low high)"
proof (induction ok low high rule: bisect_last.induct)
  case (1 ok low high)
  let ?m = "(low + high + 1) div 2"
  consider "\<not> low < high" | "low < high" "ok ?m" | "low < high" "\<not> ok ?m" by blast
  then show ?case
  proof cases
    case 1
    then show ?thesis unfolding bisect_last.simps [of ok low high] by simp
  next
    case 2
    then show ?thesis using bisect_holds [of ok ?m high] unfolding bisect_last.simps [of ok low high] Let_def by simp
  next
    case 3
    then show ?thesis using "1.IH"(2) [OF 3(1) refl 3(2)] unfolding bisect_last.simps [of ok low high] Let_def by simp
  qed
qed

lemma bisect_moves: "low < high \<Longrightarrow> ok (Suc low) \<Longrightarrow> low < bisect_last ok low high"
proof (induction ok low high rule: bisect_last.induct)
  case (1 ok low high)
  let ?m = "(low + high + 1) div 2"
  show ?case
  proof (cases "ok ?m")
    case True
    have "?m \<le> bisect_last ok ?m high" using bisect_range [of ?m high ok] "1.prems"(1) by linarith
    then show ?thesis
      unfolding bisect_last.simps [of ok low high] Let_def if_P [OF "1.prems"(1)] if_P [OF True] using "1.prems"(1) by linarith
  next
    case False
    then have "?m \<noteq> Suc low" using "1.prems"(2) by metis
    then have "low < ?m - 1" using "1.prems"(1) by linarith
    then show ?thesis
      unfolding bisect_last.simps [of ok low high] Let_def if_P [OF "1.prems"(1)] if_not_P [OF False]
      using "1.IH"(2) [OF "1.prems"(1) refl False] "1.prems"(2) by blast
  qed
qed

abbreviation later_page :: "output_env \<Rightarrow> snapshot \<Rightarrow> nat \<Rightarrow> nat \<Rightarrow> nat \<Rightarrow> dict" where
  "later_page env snap limit offset \<equiv> page_envelope env snap False limit offset 0"

lemma later_render:
  "render_page env snap offset budget limit False =
    (let n = length (sn_text snap); high = min n (offset + limit); page = later_page env snap limit offset;
         low = whole_matches (sn_boundaries snap) offset (bisect_last (\<lambda>e. page_len (page e) \<le> budget) offset high)
     in if high = n \<and> page_len (page n) \<le> budget then Page (page n)
        else if low = offset \<and> offset < n
        then Failure (delivery_failure env ''Budget cannot fit a complete code point and envelope.'' (sn_status snap)
                        (shown_text env (sn_text snap)) budget)
        else if budget < page_len (page low)
        then Failure (delivery_failure env ''Budget cannot fit the complete envelope.'' (sn_status snap)
                        (shown_text env (sn_text snap)) budget)
        else Page (page low))"
  by (simp add: render_page_def shrink_tail.simps Let_def)

lemma whole_matches_range:
  assumes "offset < high"
  shows "offset < whole_matches bounds offset high" "whole_matches bounds offset high \<le> high"
proof -
  let ?f = "filter (\<lambda>b. offset < b \<and> b \<le> high) bounds"
  have "whole_matches bounds offset high = (if ?f = [] then high else last ?f)"
    unfolding whole_matches_def by (cases ?f) simp_all
  then have "whole_matches bounds offset high = high \<or> whole_matches bounds offset high \<in> set ?f"
    using last_in_set [of ?f] by (simp del: set_filter)
  then show "offset < whole_matches bounds offset high" "whole_matches bounds offset high \<le> high" using assms by auto
qed

lemma page_progress:
  assumes "length (shown_text env (sn_text snap)) = length (sn_text snap)" "sorted (sn_boundaries snap)"
    and "0 < limit" "offset \<le> length (sn_text snap)"
    and "page_len (later_page env snap limit offset (min (length (sn_text snap)) (Suc offset))) \<le> budget"
  shows "\<exists>e. offset \<le> e \<and> e \<le> length (sn_text snap) \<and> (offset < e \<or> e = length (sn_text snap))
    \<and> render_page env snap offset budget limit False = Page (later_page env snap limit offset e)"
proof -
  let ?n = "length (sn_text snap)"
  let ?high = "min ?n (offset + limit)"
  let ?page = "later_page env snap limit offset"
  let ?ok = "\<lambda>e. page_len (?page e) \<le> budget"
  let ?found = "bisect_last ?ok offset ?high"
  let ?low = "whole_matches (sn_boundaries snap) offset ?found"
  note eq = later_render [of env snap offset budget limit, unfolded Let_def]
  show ?thesis
  proof (cases "?high = ?n \<and> ?ok ?n")
    case True
    show ?thesis unfolding eq if_P [OF True] using assms(4) by (intro exI [of _ ?n]) simp
  next
    case False
    then have inside: "Suc offset < ?n" using assms(3-5) by (cases "Suc offset < ?n") (auto simp: min_def split: if_splits)
    then have one: "?ok (Suc offset)" using assms(5) by (simp add: min_def)
    have moved: "offset < ?found" by (rule bisect_moves) (use one inside assms(3) in auto)
    then have fits: "?ok ?found" using bisect_tested [of ?ok offset ?high] by simp
    have top: "?found \<le> ?high" using bisect_range [of offset ?high ?ok] assms(4) by simp
    have "?found < ?n"
    proof (rule ccontr)
      assume "\<not> ?found < ?n"
      then have "?found = ?n" "?high = ?n" using top by auto
      then show False using False fits by simp
    qed
    then have cut: "?ok ?low"
      using cut_page_shorter [OF assms(1,2), of ?found offset limit 0] moved fits by (meson le_trans less_imp_le)
    note low = whole_matches_range [OF moved, of "sn_boundaries snap"]
    have "render_page env snap offset budget limit False = Page (?page ?low)"
      unfolding eq if_not_P [OF False] using low(1) cut by simp
    then show ?thesis using low top by (intro exI [of _ ?low]) auto
  qed
qed

lemma find_filtered: "find p xs = Some x \<Longrightarrow> q x \<Longrightarrow> find p (filter q xs) = Some x"
  by (induction xs) (auto split: if_splits)

lemma later_fields:
  "fget ''text'' (later_page env snap limit offset e) = JStr (slice offset e (shown_text env (sn_text snap)))"
  "fget ''cursor'' (later_page env snap limit offset e) =
      (if e < length (sn_text snap) then JStr (page_cursor (sn_id snap) e) else JNull)"
  by (simp_all add: fget_def jget_def page_envelope_def Let_def)

lemma live_read:
  assumes "length (sn_id snap) = 32" "list_all hex_digit (sn_id snap)"
    and "find (\<lambda>r. sn_id r = sn_id snap) (os_outputs st) = Some snap"
    and "now < sn_expires snap" "now2 < sn_expires snap" "offset \<le> length (sn_text snap)"
    and "sn_owner snap \<noteq> []" "authorize (sn_tool snap) (sn_hosts snap)"
  shows "read_output now now2 False (page_cursor (sn_id snap) offset) (sn_owner snap) (sn_channel snap) authorize st
    = (Inr (Text_output snap, offset), prune now st)"
proof -
  have "find (\<lambda>r. sn_id r = sn_id snap) (os_outputs (prune now st)) = Some snap"
    using find_filtered [OF assms(3), of "\<lambda>r. \<not> sn_expires r \<le> now"] assms(4) by (simp add: prune_def)
  then have "lookup_output (sn_id snap) (prune now st) = Some (Text_output snap)" by (simp add: lookup_output_def)
  then show ?thesis using assms by (simp add: read_output_def page_cursor_parses Let_def)
qed

text \<open>
  C33: Nothing of a retained text is lost: a reader who holds the scope of the text and follows the cursors
  from any offset, before it expires and with a budget that every page of one character fits, is given
  exactly the rest of the text, whatever the page limit and wherever pages break, at the ends of ranked
  matches as well, which retention records in order.
\<close>

theorem output_recovered:
  assumes "length (sn_id snap) = 32" "list_all hex_digit (sn_id snap)"
    and "find (\<lambda>r. sn_id r = sn_id snap) (os_outputs st) = Some snap"
    and "sorted (sn_boundaries snap)" "sn_owner snap \<noteq> []" "authorize (sn_tool snap) (sn_hosts snap)"
    and "length (shown_text env (sn_text snap)) = length (sn_text snap)"
    and "\<forall>(now, now2)\<in>set clock. now < sn_expires snap \<and> now2 < sn_expires snap"
    and "4 \<le> limit" "limit \<le> 8000" "offset \<le> length (sn_text snap)"
    and "\<forall>k\<le>length (sn_text snap).
           page_len (later_page env snap limit k (min (length (sn_text snap)) (Suc k))) \<le> budget"
    and "length (sn_text snap) - offset < length clock"
  shows "follow_cursors env budget (sn_owner snap) (sn_channel snap) authorize limit clock (page_cursor (sn_id snap) offset) st
    = Some (Inr (drop offset (shown_text env (sn_text snap))))"
  using assms(3,8,11,13)
proof (induction clock arbitrary: offset st)
  case (Cons c clock)
  let ?n = "length (sn_text snap)"
  let ?t = "shown_text env (sn_text snap)"
  obtain now now2 where c: "c = (now, now2)" by (cases c)
  have live: "now < sn_expires snap" "now2 < sn_expires snap" using Cons.prems(2) c by auto
  have lim: "page_limit [(''cursor'', JStr i), (''limit'', JInt (int limit))] = Some limit" for i
    using assms(9,10) by (simp add: page_limit_def default_if_empty_def fget_def jget_def)
  have cur: "cursor_arg [(''cursor'', JStr i), (''limit'', JInt (int limit))] = i" for i
    by (simp add: cursor_arg_def jget_def)
  obtain e where e: "offset \<le> e" "e \<le> ?n" "offset < e \<or> e = ?n"
      "render_page env snap offset budget limit False = Page (later_page env snap limit offset e)"
    using page_progress [OF assms(7,4) _ Cons.prems(3), of limit budget] assms(9,12) Cons.prems(3) by auto
  have step: "get_tool_output env now now2 False budget (sn_owner snap) (sn_channel snap) authorize
      [(''cursor'', JStr (page_cursor (sn_id snap) offset)), (''limit'', JInt (int limit))] st
    = (Some (Page (later_page env snap limit offset e)), prune now st)"
    using live_read [of snap st now now2 offset authorize, OF assms(1,2) Cons.prems(1) live Cons.prems(3) assms(5,6)] e(4)
    by (simp add: get_tool_output_def lim cur)
  show ?case
  proof (cases "e < ?n")
    case True
    have found: "find (\<lambda>r. sn_id r = sn_id snap) (os_outputs (prune now st)) = Some snap"
      using find_filtered [OF Cons.prems(1), of "\<lambda>r. \<not> sn_expires r \<le> now"] live by (simp add: prune_def)
    have rest: "follow_cursors env budget (sn_owner snap) (sn_channel snap) authorize limit clock
        (page_cursor (sn_id snap) e) (prune now st) = Some (Inr (drop e ?t))"
      by (rule Cons.IH [OF found _ e(2)]) (use Cons.prems(2,4) True e(1,3) in auto)
    have "slice offset e ?t @ drop e ?t = drop offset ?t"
      using append_take_drop_id [of "e - offset" "drop offset ?t"] e(1) by (simp add: slice_take)
    then show ?thesis using True rest by (simp add: c step later_fields)
  next
    case False
    then have "slice offset e ?t = drop offset ?t" using assms(7) e(2) by (simp add: slice_def)
    then show ?thesis using False by (simp add: c step later_fields)
  qed
qed simp

section \<open>Concrete runs\<close>

definition ex_scope :: out_scope where
  "ex_scope = \<lparr>so_owner = ''7'', so_channel = ''c'', so_tool = ''run'', so_hosts = JList [], so_status = ''ok''\<rparr>"

definition ex_out_env :: output_env where
  "ex_out_env = \<lparr>oe_scrub = (\<lambda>t. t), oe_sha256 = (\<lambda>b. take 4 b), oe_isoformat = (\<lambda>t. ''later''),
     oe_secret_spans = (\<lambda>t. []), oe_secret_context = (\<lambda>t. False)\<rparr>"

definition ex_result_id :: string where
  "ex_result_id = ''0123456789abcdef0123456789abcdef''"

definition ex_empty_store :: output_store where
  "ex_empty_store = new_output_store 100 700"

definition ex_kept_output :: snapshot where
  "ex_kept_output = retained_snapshot ex_out_env 10 ex_result_id ''abcdefg'' [] ex_scope"

definition ex_kept :: output_store where
  "ex_kept = snd (retain ex_out_env 10 ex_result_id False False ''abcdefg'' [] ex_scope ex_empty_store)"

lemma ex_kept_rows: "ex_kept = insert_output ex_kept_output ex_empty_store"
proof -
  have m: "raw_measure 100 ''abcdefg'' [] = Some 7" by (simp add: raw_measure_def measured_parts utf8_length_def)
  have row: "sn_size (retained_snapshot ex_out_env 10 ex_result_id ''abcdefg'' [] ex_scope) = 7" by code_simp
  have st: "os_per_result ex_empty_store = 100" "os_global ex_empty_store = 700" "so_owner ex_scope \<noteq> []" "prune 10 ex_empty_store = ex_empty_store"
    "make_room 10 7 ex_empty_store = Inr ex_empty_store"
    by code_simp+
  show ?thesis by (simp add: ex_kept_def retain_def hold_result_def m row st ex_kept_output_def Let_def)
qed

theorem delivery_within_budget_witness:
  "length (delivered_text (fst (deliver ex_out_env 10 ex_result_id False (Plain (replicate 90 (CHR ''x''))) ex_scope 128 None))) \<le> 128
   \<and> delivered_text (fst (deliver ex_out_env 10 ex_result_id False (Plain ''done'') ex_scope 128 None)) = ''done''"
proof
  show "length (delivered_text (fst (deliver ex_out_env 10 ex_result_id False (Plain (replicate 90 (CHR ''x''))) ex_scope 128 None))) \<le> 128"
    by (rule delivery_within_budget) (simp_all add: ex_result_id_def)
  show "delivered_text (fst (deliver ex_out_env 10 ex_result_id False (Plain ''done'') ex_scope 128 None)) = ''done''"
    by (simp add: deliver_def ex_out_env_def Let_def)
qed

theorem retention_within_quota_witness:
  "stored_size ex_kept \<le> os_global ex_kept \<and> stored_size ex_kept = 7"
proof
  have "out_step {} ex_empty_store ex_kept" unfolding ex_kept_def by (rule out_step.retained) simp
  then have "(out_step {})\<^sup>*\<^sup>* (new_output_store 100 700) ex_kept" by (simp add: ex_empty_store_def)
  then show "stored_size ex_kept \<le> os_global ex_kept" by (rule retention_within_quota)
  show "stored_size ex_kept = 7" unfolding ex_kept_rows by code_simp
qed

theorem read_needs_live_scope_witness:
  "fst (read_output 20 20 False (page_cursor ex_result_id 3) ''7'' ''c'' (\<lambda>tool hosts. tool = ''run'') ex_kept) = Inr (Text_output ex_kept_output, 3)
   \<and> (\<exists>tool hosts expires. stored_meta (Text_output ex_kept_output) = ((''7'', ''c''), tool, hosts, expires) \<and> tool = ''run'')"
proof
  let ?read = "read_output 20 20 False (page_cursor ex_result_id 3) ''7'' ''c'' (\<lambda>tool hosts. tool = ''run'') ex_kept"
  show r: "fst ?read = Inr (Text_output ex_kept_output, 3)" unfolding ex_kept_rows by code_simp
  then have "?read = (Inr (Text_output ex_kept_output, 3), snd ?read)" by (metis prod.collapse)
  from read_needs_live_scope [OF this]
  show "\<exists>tool hosts expires. stored_meta (Text_output ex_kept_output) = ((''7'', ''c''), tool, hosts, expires) \<and> tool = ''run''" by blast
qed

definition ex_png :: attachment where
  "ex_png = \<lparr>at_data = ''PNG'', at_media_type = ''image/png'', at_content_index = 0, at_kind = ''image''\<rparr>"

definition ex_bundle :: "(retention_error + snapshot) \<times> output_store" where
  "ex_bundle = retain_binary_bundle ex_out_env 10 [''f1''] ex_result_id False False [ex_png] ex_scope (new_output_store 1000 2000)"

theorem bundle_leaves_together_witness:
  "set (map2 (blob_of ex_out_env 10 ex_scope) [''f1''] [ex_png])
     \<subseteq> set (os_blobs (snd (read_output 20 20 False [] ''7'' ''c'' (\<lambda>tool hosts. True) (snd ex_bundle))))"
proof -
  let ?m = "projr (fst ex_bundle)"
  have m: "retain_binary_bundle ex_out_env 10 [''f1''] ex_result_id False False [ex_png] ex_scope (new_output_store 1000 2000) = (Inr ?m, snd ex_bundle)"
    by code_simp
  have "(out_step {ex_result_id})\<^sup>*\<^sup>* (snd ex_bundle) (snd (read_output 20 20 False [] ''7'' ''c'' (\<lambda>tool hosts. True) (snd ex_bundle)))"
    by (rule r_into_rtranclp) (rule out_step.shown)
  moreover have "ex_result_id \<in> {ex_result_id}" by simp
  moreover have "?m \<in> set (os_outputs (snd (read_output 20 20 False [] ''7'' ''c'' (\<lambda>tool hosts. True) (snd ex_bundle))))"
    by code_simp
  moreover have "?m \<notin> set (os_outputs (new_output_store 1000 2000))" by (simp add: new_output_store_def)
  ultimately show ?thesis by (rule bundle_leaves_together [OF m])
qed

definition ex_matches_output :: snapshot where
  "ex_matches_output = retained_snapshot ex_out_env 10 ex_result_id [] [''abc'', ''de''] ex_scope"

definition ex_matches :: output_store where
  "ex_matches = insert_output ex_matches_output ex_empty_store"

text \<open>The first page ends with the first match and its separator, where a character more would have fit.\<close>

theorem output_recovered_witness:
  "follow_cursors ex_out_env 900 ''7'' ''c'' (\<lambda>tool hosts. True) 5 [(20, 21), (30, 31), (40, 41), (50, 51), (60, 61), (70, 71), (80, 81)]
     (page_cursor ex_result_id 1) ex_matches = Some (Inr (''bc'' @ [CHR 0x0A, CHR 0x0A] @ ''de''))
   \<and> sn_boundaries ex_matches_output = [5, 7]"
proof -
  have eqs: "sn_owner ex_matches_output = ''7''" "sn_channel ex_matches_output = ''c''" "sn_id ex_matches_output = ex_result_id"
    "sn_boundaries ex_matches_output = [5, 7]"
    "sn_expires ex_matches_output = 86410"
    by code_simp+
  have hex: "length (sn_id ex_matches_output) = 32" "list_all hex_digit (sn_id ex_matches_output)" by code_simp+
  have found: "find (\<lambda>r. sn_id r = sn_id ex_matches_output) (os_outputs ex_matches) = Some ex_matches_output" by code_simp
  have n: "length (sn_text ex_matches_output) = 7" by code_simp
  have same: "length (shown_text ex_out_env (sn_text ex_matches_output)) = length (sn_text ex_matches_output)" by code_simp
  have rest: "drop 1 (shown_text ex_out_env (sn_text ex_matches_output)) = ''bc'' @ [CHR 0x0A, CHR 0x0A] @ ''de''" by code_simp
  have "list_all (\<lambda>k. page_len (later_page ex_out_env ex_matches_output 5 k (min 7 (Suc k))) \<le> 900) [0..<8]"
    by code_simp
  then have fits: "\<forall>k\<le>length (sn_text ex_matches_output).
      page_len (later_page ex_out_env ex_matches_output 5 k (min (length (sn_text ex_matches_output)) (Suc k))) \<le> 900"
    unfolding n list_all_iff set_upt by (intro allI impI, drule_tac x = k in bspec) simp_all
  have "follow_cursors ex_out_env 900 (sn_owner ex_matches_output) (sn_channel ex_matches_output) (\<lambda>tool hosts. True) 5
      [(20, 21), (30, 31), (40, 41), (50, 51), (60, 61), (70, 71), (80, 81)] (page_cursor (sn_id ex_matches_output) 1) ex_matches
    = Some (Inr (drop 1 (shown_text ex_out_env (sn_text ex_matches_output))))"
    by (rule output_recovered [OF hex found _ _ _ same _ _ _ _ fits]) (simp_all add: eqs n)
  then show ?thesis unfolding rest eqs by simp
qed

end
