(* ===== verification/Host_Registry_Inv.thy ===== *)
theory Host_Registry_Inv
  imports Host_Registry
begin

text \<open>
  The invariant of the host registry and its leases, kept by every operation: where each generation is
  (published, draining or finished), which leases hold it, and which event they share.
\<close>

section \<open>Dictionaries\<close>

lemma jset_absent: "jget k kvs = None \<Longrightarrow> jset k v kvs = kvs @ [(k, v)]"
  by (simp add: jset_def jhas_iff)

lemma jget_in: "jget k kvs = Some v \<Longrightarrow> (k, v) \<in> set kvs"
  by (simp add: jget_def map_of_SomeD)

lemma in_jget: "distinct (map fst kvs) \<Longrightarrow> (k, v) \<in> set kvs \<Longrightarrow> jget k kvs = Some v"
  by (simp add: jget_def)

lemma set_jdel: "set (jdel k kvs) = {p \<in> set kvs. fst p \<noteq> k}"
  by (simp add: jdel_def)

lemma set_jset:
  assumes "distinct (map fst kvs)" "jget k kvs = Some old"
  shows "set (jset k v kvs) = insert (k, v) (set kvs - {(k, old)})"
proof -
  have k: "(k, old) \<in> set kvs" using assms(2) by (rule jget_in)
  have only: "v' = old" if "(k, v') \<in> set kvs" for v' using in_jget [OF assms(1) that] assms(2) by simp
  have "set (jset k v kvs) = (\<lambda>p. if fst p = k then (k, v) else p) ` set kvs"
    using assms(2) by (simp add: jset_def jhas_iff)
  also have "\<dots> = insert (k, v) (set kvs - {(k, old)})"
  proof (intro equalityI subsetI)
    fix x assume "x \<in> (\<lambda>p. if fst p = k then (k, v) else p) ` set kvs"
    then obtain q where "q \<in> set kvs" "x = (if fst q = k then (k, v) else q)" by blast
    then show "x \<in> insert (k, v) (set kvs - {(k, old)})" by (cases "fst q = k") auto
  next
    fix x assume "x \<in> insert (k, v) (set kvs - {(k, old)})"
    then consider "x = (k, v)" | "x \<in> set kvs" "x \<noteq> (k, old)" by blast
    then show "x \<in> (\<lambda>p. if fst p = k then (k, v) else p) ` set kvs"
    proof cases
      case 1
      then show ?thesis using k by (intro image_eqI [of _ _ "(k, old)"]) simp_all
    next
      case 2
      then have "fst x \<noteq> k" using only [of "snd x"] by (cases x) auto
      then show ?thesis using 2(1) by (intro image_eqI [of _ _ x]) simp_all
    qed
  qed
  finally show ?thesis .
qed

lemma keys_jset: "map fst (jset k v kvs) = (if jget k kvs = None then map fst kvs @ [k] else map fst kvs)"
  using jkeys_jset [of k v kvs] by (simp add: jkeys_def jhas_iff)

lemma keys_jdel_distinct: "distinct (map fst kvs) \<Longrightarrow> distinct (map fst (jdel k kvs))"
  using jkeys_jdel [of k kvs] by (simp add: jkeys_def)

lemma runtime_key_inj: "runtime_key_of h g = runtime_key_of h' g' \<longleftrightarrow> h = h' \<and> g = g'"
proof
  assume e: "runtime_key_of h g = runtime_key_of h' g'"
  have no: "\<forall>c\<in>set (rev (nat_text n)). c \<noteq> CHR '':''" for n
    using nat_text_digits [of n] by (auto simp: list_all_iff is_digit_def)
  have tail: "takeWhile (\<lambda>c. c \<noteq> CHR '':'') (rev (runtime_key_of h g)) = rev (nat_text g)" for h g
    using takeWhile_append2 [of "rev (nat_text g)" "\<lambda>c. c \<noteq> CHR '':''" "CHR '':'' # rev h"] no [of g]
    by (simp add: runtime_key_of_def)
  have "nat_text g = nat_text g'" using e tail [of h g] tail [of h' g'] by simp
  then have "g = g'" by (metis digits_value_nat_text)
  then show "h = h' \<and> g = g'" using e by (simp add: runtime_key_of_def)
qed simp

section \<open>The invariant\<close>

definition published :: "host_registry \<Rightarrow> host_target set" where
  "published r = snd ` set (hr_snapshot r)"

definition draining :: "host_registry \<Rightarrow> host_target set" where
  "draining r = snd ` set (hr_retired r)"

definition known :: "host_target list \<Rightarrow> host_registry \<Rightarrow> host_target set" where
  "known pend r = published r \<union> set pend \<union> draining r \<union> set (hr_finished r)"

text \<open>
  During a publication some replaced generations are neither published nor retired yet: they are pending.
\<close>

definition placed :: "host_target list \<Rightarrow> host_registry \<Rightarrow> bool" where
  "placed pend r \<longleftrightarrow>
     distinct (map fst (hr_snapshot r)) \<and> (\<forall>(a, t)\<in>set (hr_snapshot r). ht_alias t = a)
     \<and> distinct (map fst (hr_retired r)) \<and> (\<forall>(k, t)\<in>set (hr_retired r). runtime_key t = k)
     \<and> distinct pend \<and> distinct (hr_finished r)
     \<and> published r \<inter> (set pend \<union> draining r \<union> set (hr_finished r)) = {}
     \<and> set pend \<inter> (draining r \<union> set (hr_finished r)) = {} \<and> draining r \<inter> set (hr_finished r) = {}"

definition told_apart :: "host_target list \<Rightarrow> host_registry \<Rightarrow> bool" where
  "told_apart pend r \<longleftrightarrow>
     (\<forall>t\<in>known pend r. ht_generation t \<le> hr_generation r)
     \<and> (\<forall>t\<in>known pend r. \<forall>u\<in>known pend r. ht_alias t = ht_alias u \<and> ht_generation t = ht_generation u \<longrightarrow> t = u)
     \<and> (\<forall>t\<in>known pend r. \<forall>u\<in>known pend r. runtime_key t = runtime_key u \<and> ht_targetable t \<longrightarrow> t = u)"

definition live_on :: "string \<Rightarrow> host_lease \<Rightarrow> bool" where
  "live_on k l \<longleftrightarrow> hl_managed l \<and> \<not> hl_released l \<and> runtime_key (hl_target l) = k"

definition counted :: "host_registry \<Rightarrow> bool" where
  "counted r \<longleftrightarrow>
     (\<forall>k. lease_count k r = length (filter (live_on k) (hr_leases r)))
     \<and> (\<forall>(k, t)\<in>set (hr_retired r). 0 < lease_count k r)"

definition leases_held :: "host_target list \<Rightarrow> host_registry \<Rightarrow> bool" where
  "leases_held pend r \<longleftrightarrow>
     (\<forall>l\<in>set (hr_leases r). \<forall>k. live_on k l \<longrightarrow>
        hl_target l \<in> published r \<union> set pend \<union> draining r \<and> ht_targetable (hl_target l)
        \<and> jget k (hr_events r) = Some (hl_event l))"

definition fenced :: "host_registry \<Rightarrow> bool" where
  "fenced r \<longleftrightarrow>
     (\<forall>l\<in>set (hr_leases r). hl_event l < length (hr_flags r))
     \<and> (\<forall>k e. jget k (hr_events r) = Some e \<longrightarrow> e < length (hr_flags r) \<and> (hr_flags r ! e \<longrightarrow> 0 < lease_count k r))
     \<and> (\<forall>k k' e. jget k (hr_events r) = Some e \<and> jget k' (hr_events r) = Some e \<longrightarrow> k = k')"

definition reg_ok :: "host_target list \<Rightarrow> host_registry \<Rightarrow> bool" where
  "reg_ok pend r \<longleftrightarrow> placed pend r \<and> told_apart pend r \<and> counted r \<and> leases_held pend r \<and> fenced r"

lemmas reg_parts = placed_def told_apart_def counted_def leases_held_def fenced_def

lemma reg_okD:
  assumes "reg_ok pend r"
  shows "placed pend r" "told_apart pend r" "counted r" "leases_held pend r" "fenced r"
  using assms by (simp_all add: reg_ok_def)

lemma count_of: "counted r \<Longrightarrow> lease_count k r = length (filter (live_on k) (hr_leases r))"
  by (simp add: counted_def)

lemma countedI:
  assumes "\<And>k. lease_count k r = length (filter (live_on k) (hr_leases r))"
    and "\<And>k t. (k, t) \<in> set (hr_retired r) \<Longrightarrow> 0 < lease_count k r"
  shows "counted r"
  using assms unfolding counted_def by blast

lemma drained_count: "counted r \<Longrightarrow> (k, t) \<in> set (hr_retired r) \<Longrightarrow> 0 < lease_count k r"
  unfolding counted_def by blast

lemma live_count: "counted r \<Longrightarrow> l \<in> set (hr_leases r) \<Longrightarrow> live_on k l \<Longrightarrow> 0 < lease_count k r"
  using count_of [of r k] by (auto simp: filter_empty_conv)

text \<open>The generation a key with leases belongs to.\<close>

lemma counted_target:
  assumes "reg_ok pend r" "0 < lease_count k r" "t \<in> known pend r" "runtime_key t = k"
  shows "t \<in> published r \<union> set pend \<union> draining r \<and> ht_targetable t"
proof -
  obtain l where l: "l \<in> set (hr_leases r)" "live_on k l"
    using assms(2) count_of [OF reg_okD(3) [OF assms(1)], of k] by (auto simp: filter_empty_conv)
  then have h: "hl_target l \<in> published r \<union> set pend \<union> draining r" "ht_targetable (hl_target l)"
    using reg_okD(4) [OF assms(1)] by (auto simp: leases_held_def)
  have "hl_target l = t"
    using h l(2) assms(3,4) reg_okD(2) [OF assms(1)] by (auto simp: told_apart_def known_def live_on_def)
  then show ?thesis using h by simp
qed

section \<open>Retirement\<close>

lemma finish_simps:
  "hr_snapshot (finish_retirement k r) = hr_snapshot r" "hr_generation (finish_retirement k r) = hr_generation r"
  "hr_counts (finish_retirement k r) = hr_counts r" "hr_flags (finish_retirement k r) = hr_flags r"
  "hr_leases (finish_retirement k r) = hr_leases r" "hr_retired (finish_retirement k r) = jdel k (hr_retired r)"
  "hr_events (finish_retirement k r) = jdel k (hr_events r)"
  "hr_finished (finish_retirement k r) = hr_finished r @ (case jget k (hr_retired r) of None \<Rightarrow> [] | Some t \<Rightarrow> [t])"
  "lease_count k' (finish_retirement k r) = lease_count k' r"
  by (auto simp: finish_retirement_def Let_def lease_count_def split: option.split)

text \<open>A pending generation without leases is finished; one with leases drains.\<close>

lemma retire_cases:
  assumes "reg_ok (t # pend) r"
  obtains "lease_count (runtime_key t) r = 0"
      "retire_target t r = r\<lparr>hr_events := jdel (runtime_key t) (hr_events r), hr_finished := hr_finished r @ [t]\<rparr>"
  | "0 < lease_count (runtime_key t) r" "jget (runtime_key t) (hr_retired r) = None"
      "retire_target t r = r\<lparr>hr_retired := hr_retired r @ [(runtime_key t, t)]\<rparr>"
proof -
  let ?k = "runtime_key t"
  note ok = reg_okD [OF assms]
  have ret: "jget ?k (hr_retired r) = None"
  proof (rule ccontr)
    assume "jget ?k (hr_retired r) \<noteq> None"
    then obtain u where u: "(?k, u) \<in> set (hr_retired r)" by (auto dest: jget_in)
    then have c: "0 < lease_count ?k r" using ok(3) by (auto simp: counted_def)
    have "runtime_key u = ?k" using u ok(1) by (auto simp: placed_def)
    moreover have "u \<in> known (t # pend) r" "t \<in> known (t # pend) r" using u by (force simp: known_def draining_def)+
    moreover have "ht_targetable t" using counted_target [OF assms c \<open>t \<in> known (t # pend) r\<close> refl] by blast
    ultimately have "t = u" using ok(2) by (auto simp: told_apart_def)
    then have "t \<in> draining r" using u by (force simp: draining_def)
    then show False using ok(1) by (auto simp: placed_def)
  qed
  show thesis
  proof (cases "lease_count ?k r = 0")
    case True
    have "jget ?k (jset ?k t (hr_retired r)) = Some t" by (simp add: jget_jset)
    moreover have "jdel ?k (hr_retired r @ [(?k, t)]) = hr_retired r"
      using ret by (force simp: jdel_def jget_def map_of_eq_None_iff intro!: filter_True)
    ultimately have "retire_target t r = r\<lparr>hr_events := jdel ?k (hr_events r), hr_finished := hr_finished r @ [t]\<rparr>"
      using True by (simp add: retire_target_def finish_retirement_def Let_def jset_absent [OF ret] lease_count_def)
    then show thesis using True that(1) by blast
  next
    case False
    then have "retire_target t r = r\<lparr>hr_retired := hr_retired r @ [(?k, t)]\<rparr>"
      by (simp add: retire_target_def Let_def jset_absent [OF ret])
    then show thesis using False ret that(2) by blast
  qed
qed

lemma no_live: "counted r \<Longrightarrow> lease_count k r = 0 \<Longrightarrow> l \<in> set (hr_leases r) \<Longrightarrow> \<not> live_on k l"
  using live_count [of r l k] by auto

lemma retire_ok:
  assumes "reg_ok (t # pend) r"
  shows "reg_ok pend (retire_target t r)"
proof -
  let ?k = "runtime_key t"
  note ok = reg_okD [OF assms]
  show ?thesis
  proof (rule retire_cases [OF assms])
    assume none: "lease_count ?k r = 0"
      and eq: "retire_target t r = r\<lparr>hr_events := jdel ?k (hr_events r), hr_finished := hr_finished r @ [t]\<rparr>"
    let ?r = "retire_target t r"
    have same: "lease_count k ?r = lease_count k r" "hr_leases ?r = hr_leases r" "hr_flags ?r = hr_flags r"
      "hr_retired ?r = hr_retired r" "hr_generation ?r = hr_generation r" for k
      by (simp_all add: eq lease_count_def)
    have sets: "known pend ?r = known (t # pend) r" "published ?r = published r" "draining ?r = draining r"
      by (auto simp: eq known_def published_def draining_def)
    have "placed pend ?r" using ok(1) by (auto simp: placed_def eq published_def draining_def)
    moreover have "told_apart pend ?r" using ok(2) by (simp add: told_apart_def sets same)
    moreover have "counted ?r" using ok(3) unfolding counted_def same .
    moreover have "leases_held pend ?r" unfolding leases_held_def sets same
    proof (intro ballI allI impI)
      fix l k assume l: "l \<in> set (hr_leases r)" "live_on k l"
      then have "k \<noteq> ?k" using no_live [OF ok(3) none l(1)] by blast
      then have "hl_target l \<noteq> t" using l(2) by (auto simp: live_on_def)
      then show "hl_target l \<in> published r \<union> set pend \<union> draining r \<and> ht_targetable (hl_target l)
          \<and> jget k (hr_events ?r) = Some (hl_event l)"
        using ok(4) l \<open>k \<noteq> ?k\<close> by (auto simp: leases_held_def eq jget_jdel)
    qed
    moreover have "fenced ?r" unfolding fenced_def same
      using ok(5) by (auto simp: fenced_def eq jget_jdel)
    ultimately show ?thesis by (simp add: reg_ok_def)
  next
    assume some: "0 < lease_count ?k r" "jget ?k (hr_retired r) = None"
      and eq: "retire_target t r = r\<lparr>hr_retired := hr_retired r @ [(?k, t)]\<rparr>"
    let ?r = "retire_target t r"
    have same: "lease_count k ?r = lease_count k r" "hr_leases ?r = hr_leases r" "hr_flags ?r = hr_flags r"
      "hr_events ?r = hr_events r" "hr_generation ?r = hr_generation r" for k
      by (simp_all add: eq lease_count_def)
    have sets: "known pend ?r = known (t # pend) r" "published ?r = published r" "draining ?r = insert t (draining r)"
      by (auto simp: eq known_def published_def draining_def)
    have "placed pend ?r"
      using ok(1) some(2) by (auto simp: placed_def eq published_def draining_def jget_def map_of_eq_None_iff)
    moreover have "told_apart pend ?r" using ok(2) by (simp add: told_apart_def sets same)
    moreover have "counted ?r" 
    proof -
      have "hr_retired ?r = hr_retired r @ [(?k, t)]" by (simp add: eq)
      then show ?thesis using ok(3) some(1) unfolding counted_def same by (metis (mono_tags, lifting) Un_iff empty_set list.simps(15) old.prod.case set_append singletonD)
    qed
    moreover have "leases_held pend ?r" unfolding leases_held_def sets same using ok(4) by (simp add: leases_held_def)
    moreover have "fenced ?r" using ok(5) by (simp add: fenced_def same)
    ultimately show ?thesis by (simp add: reg_ok_def)
  qed
qed

lemma retire_all_ok: "reg_ok (ts @ pend) r \<Longrightarrow> reg_ok pend (fold retire_target ts r)"
  by (induction ts arbitrary: r) (auto dest: retire_ok)

section \<open>Publication\<close>

text \<open>
  A new snapshot keeps published generations and adds new ones; what it drops is pending.
\<close>

definition replaced :: "(string \<times> host_target) list \<Rightarrow> host_registry \<Rightarrow> host_target list" where
  "replaced ts r = map snd (filter (\<lambda>p. jget (fst p) ts \<noteq> Some (snd p)) (hr_snapshot r))"

definition renews :: "(string \<times> host_target) list \<Rightarrow> nat \<Rightarrow> host_registry \<Rightarrow> bool" where
  "renews ts g r \<longleftrightarrow>
     distinct (map fst ts) \<and> hr_generation r < g
     \<and> (\<forall>(a, t)\<in>set ts. ht_alias t = a \<and> (ht_generation t = g \<or> jget a (hr_snapshot r) = Some t))
     \<and> (\<forall>(a, t)\<in>set ts. \<forall>(b, u)\<in>set ts. ht_generation t = g \<and> ht_generation u = g \<and> ht_host_id t = ht_host_id u
          \<and> ht_targetable t \<longrightarrow> t = u)"

lemma replaced_set:
  assumes "placed [] r" "renews ts g r"
  shows "set (replaced ts r) = published r - snd ` set ts"
    and "snd ` set ts \<inter> published r = published r - set (replaced ts r)"
proof -
  have iff: "jget (ht_alias t) ts = Some t \<longleftrightarrow> t \<in> snd ` set ts" for t
  proof
    assume "jget (ht_alias t) ts = Some t"
    from jget_in [OF this] show "t \<in> snd ` set ts" by force
  next
    assume "t \<in> snd ` set ts"
    then obtain a where a: "(a, t) \<in> set ts" by auto
    then have "ht_alias t = a" using assms(2) by (auto simp: renews_def)
    then show "jget (ht_alias t) ts = Some t" using a assms(2) by (auto simp: renews_def intro: in_jget)
  qed
  have al: "ht_alias t = a" if "(a, t) \<in> set (hr_snapshot r)" for a t using assms(1) that by (auto simp: placed_def)
  have "t \<in> set (replaced ts r) \<longleftrightarrow> t \<in> published r \<and> t \<notin> snd ` set ts" for t
  proof -
    have "t \<in> set (replaced ts r) \<longleftrightarrow> (\<exists>a. (a, t) \<in> set (hr_snapshot r) \<and> jget a ts \<noteq> Some t)"
      by (force simp: replaced_def)
    also have "\<dots> \<longleftrightarrow> (\<exists>a. (a, t) \<in> set (hr_snapshot r)) \<and> jget (ht_alias t) ts \<noteq> Some t" using al by metis
    finally show ?thesis unfolding iff by (force simp: published_def)
  qed
  then show "set (replaced ts r) = published r - snd ` set ts" by blast
  then show "snd ` set ts \<inter> published r = published r - set (replaced ts r)" by blast
qed

lemma renewed_ok:
  assumes ok: "reg_ok [] r" and ts: "renews ts g r"
  shows "reg_ok (replaced ts r) (r\<lparr>hr_generation := g, hr_default := d, hr_snapshot := ts\<rparr>)"
proof -
  let ?r = "r\<lparr>hr_generation := g, hr_default := d, hr_snapshot := ts\<rparr>" and ?p = "replaced ts r"
  note rok = reg_okD [OF ok]
  have pset: "set ?p = published r - snd ` set ts" by (rule replaced_set(1) [OF rok(1) ts])
  have sets: "published ?r = snd ` set ts" "draining ?r = draining r" by (simp_all add: published_def draining_def)
  have kn: "known ?p ?r = snd ` set ts \<union> known [] r" by (auto simp: known_def pset sets)
  have same: "lease_count k ?r = lease_count k r" "hr_leases ?r = hr_leases r" "hr_retired ?r = hr_retired r"
    "hr_flags ?r = hr_flags r" "hr_events ?r = hr_events r" for k
    by (simp_all add: lease_count_def)
  have old_gen: "ht_generation t \<le> hr_generation r" if "t \<in> known [] r" for t
    using rok(2) that by (auto simp: told_apart_def)
  have lt: "hr_generation r < g" using ts by (simp add: renews_def)
  have new: "ht_generation t = g" if m: "t \<in> snd ` set ts" "t \<notin> known [] r" for t
  proof -
    obtain a where "(a, t) \<in> set ts" using m(1) by force
    then have "ht_generation t = g \<or> jget a (hr_snapshot r) = Some t" using ts by (auto simp: renews_def)
    moreover have "jget a (hr_snapshot r) \<noteq> Some t"
      using m(2) by (auto simp: known_def published_def dest!: jget_in) force
    ultimately show ?thesis by blast
  qed
  have "distinct ?p"
  proof -
    have "distinct (map snd (hr_snapshot r))"
    proof -
      have "distinct (hr_snapshot r)" "\<forall>q\<in>set (hr_snapshot r). ht_alias (snd q) = fst q"
        using rok(1) by (auto simp: placed_def distinct_map)
      then show ?thesis unfolding distinct_map inj_on_def by (metis prod.expand)
    qed
    then show ?thesis by (auto simp: replaced_def distinct_map intro: inj_on_subset)
  qed
  moreover have "snd ` set ts \<inter> (draining r \<union> set (hr_finished r)) = {}"
  proof -
    have "t \<notin> draining r \<union> set (hr_finished r)" if "t \<in> snd ` set ts" for t
    proof (cases "t \<in> known [] r")
      case True
      then have "t \<in> published r \<or> ht_generation t = g"
        using that ts by (auto simp: renews_def published_def dest!: jget_in)
      then show ?thesis using rok(1) old_gen [OF True] lt by (auto simp: placed_def)
    next
      case False
      then show ?thesis by (auto simp: known_def)
    qed
    then show ?thesis by blast
  qed
  ultimately have "placed ?p ?r"
    using rok(1) ts by (auto simp: placed_def sets pset renews_def)
  moreover have "told_apart ?p ?r"
    unfolding told_apart_def kn
  proof (intro conjI ballI impI)
    fix t assume t: "t \<in> snd ` set ts \<union> known [] r"
    then show "ht_generation t \<le> hr_generation ?r"
      using new [of t] old_gen [of t] lt by (cases "t \<in> known [] r") auto
    fix u assume u: "u \<in> snd ` set ts \<union> known [] r"
    show "t = u" if "ht_alias t = ht_alias u \<and> ht_generation t = ht_generation u"
    proof (cases "t \<in> known [] r \<or> u \<in> known [] r")
      case True
      then have "t \<in> known [] r \<and> u \<in> known [] r" using t u new old_gen that lt by (metis UnE leD)
      then show ?thesis using rok(2) that by (auto simp: told_apart_def)
    next
      case False
      then obtain a b where "(a, t) \<in> set ts" "(b, u) \<in> set ts" using t u by auto
      moreover from this have "ht_alias t = a" "ht_alias u = b" using ts unfolding renews_def by blast+
      then have "a = b" using that by simp
      ultimately show ?thesis using ts in_jget [of ts] by (metis option.inject renews_def)
    qed
    show "t = u" if "runtime_key t = runtime_key u \<and> ht_targetable t"
    proof (cases "t \<in> known [] r \<or> u \<in> known [] r")
      case True
      have "ht_generation t = ht_generation u" using that by (simp add: runtime_key_def runtime_key_inj)
      then have "t \<in> known [] r \<and> u \<in> known [] r" using True t u new old_gen lt by (metis UnE leD)
      then show ?thesis using rok(2) that by (auto simp: told_apart_def)
    next
      case False
      then obtain a b where ab: "(a, t) \<in> set ts" "(b, u) \<in> set ts" using t u by auto
      have "ht_generation t = g" "ht_generation u = g" using new t u False by auto
      moreover have "ht_host_id t = ht_host_id u" using that by (simp add: runtime_key_def runtime_key_inj)
      ultimately show ?thesis using ab ts that by (fastforce simp: renews_def)
    qed
  qed
  moreover have "counted ?r" using rok(3) unfolding counted_def same .
  moreover have "leases_held ?p ?r"
    using rok(4) replaced_set(1) [OF rok(1) ts] by (fastforce simp: leases_held_def sets pset)
  moreover have "fenced ?r" using rok(5) unfolding fenced_def same .
  ultimately show ?thesis by (simp add: reg_ok_def)
qed

lemma fold_retire_replaced:
  "fold (\<lambda>(alias, old) r. if jget alias ts = Some old then r else retire_target old r) hs r
     = fold retire_target (map snd (filter (\<lambda>p. jget (fst p) ts \<noteq> Some (snd p)) hs)) r"
  by (induction hs arbitrary: r) auto

definition published_as :: "host_publication \<Rightarrow> host_registry \<Rightarrow> host_registry" where
  "published_as p r = r\<lparr>hr_generation := pb_generation p, hr_default := pb_default p, hr_snapshot := pb_snapshot p\<rparr>"

lemma publish_cases:
  obtains "fst (publish_staged p r) \<noteq> None" "snd (publish_staged p r) = r"
  | "fst (publish_staged p r) = None" "hr_generation r = pb_expected p" "distinct (map (ht_host_id \<circ> snd) (pb_snapshot p))"
    "snd (publish_staged p r) = fold retire_target (replaced (pb_snapshot p) r) (published_as p r)"
  using fold_retire_replaced [of "pb_snapshot p" "hr_snapshot r"]
  by (cases "hr_generation r = pb_expected p \<and> distinct (map (ht_host_id \<circ> snd) (pb_snapshot p))")
     (auto simp: publish_staged_def Let_def replaced_def published_as_def)

lemma publish_ok [inv_intros]:
  assumes "reg_ok [] r"
    and "hr_generation r = pb_expected p \<Longrightarrow> distinct (map (ht_host_id \<circ> snd) (pb_snapshot p)) \<Longrightarrow>
           renews (pb_snapshot p) (pb_generation p) r"
  shows "reg_ok [] (snd (publish_staged p r))"
proof (cases rule: publish_cases [of p r])
  case 1
  then show ?thesis using assms(1) by simp
next
  case 2
  have "reg_ok (replaced (pb_snapshot p) r @ []) (published_as p r)"
    unfolding published_as_def append_Nil2 by (rule renewed_ok [OF assms(1) assms(2) [OF 2(2,3)]])
  then show ?thesis unfolding 2(4) by (rule retire_all_ok)
qed

lemma tested_fields:
  "ht_alias (tested_target result mismatch g old) = ht_alias old" "ht_generation (tested_target result mismatch g old) = g"
  "ht_host_id (tested_target result mismatch g old) = ht_host_id old"
  by (simp_all add: tested_target_def Let_def)

text \<open>A test result publishes a new generation of the host and leaves the old one to retire.\<close>

lemma tested_pending:
  assumes "reg_ok [] r" and Some: "jget alias (hr_snapshot r) = Some old"
  shows "reg_ok [old] (r\<lparr>hr_generation := hr_generation r + 1, hr_default := hr_default r,
      hr_snapshot := jset alias (tested_target result mismatch (hr_generation r + 1) old) (hr_snapshot r)\<rparr>)"
proof -
  let ?g = "hr_generation r + 1"
  let ?new = "tested_target result mismatch ?g old"
  let ?ts = "jset alias ?new (hr_snapshot r)"
  note ok = reg_okD [OF assms(1)]
  have dist: "distinct (map fst (hr_snapshot r))" using ok(1) by (simp add: placed_def)
  have al: "ht_alias t = a" if "(a, t) \<in> set (hr_snapshot r)" for a t using ok(1) that by (auto simp: placed_def)
  have gen: "ht_generation t \<le> hr_generation r" if "(a, t) \<in> set (hr_snapshot r)" for a t
  proof -
    have "t \<in> known [] r" using that by (force simp: known_def published_def)
    then show ?thesis using ok(2) by (auto simp: told_apart_def)
  qed
  have set: "set ?ts = insert (alias, ?new) (set (hr_snapshot r) - {(alias, old)})" by (rule set_jset [OF dist Some])
  have oldin: "(alias, old) \<in> set (hr_snapshot r)" by (rule jget_in [OF Some])
  have "renews ?ts ?g r"
    unfolding renews_def set
  proof (intro conjI)
    show "distinct (map fst ?ts)" using dist Some by (simp add: keys_jset)
    show "\<forall>(a, t)\<in>insert (alias, ?new) (set (hr_snapshot r) - {(alias, old)}).
        ht_alias t = a \<and> (ht_generation t = ?g \<or> jget a (hr_snapshot r) = Some t)"
      using al oldin in_jget [OF dist] by (auto simp: tested_fields)
    show "\<forall>(a, t)\<in>insert (alias, ?new) (set (hr_snapshot r) - {(alias, old)}).
        \<forall>(b, u)\<in>insert (alias, ?new) (set (hr_snapshot r) - {(alias, old)}).
          ht_generation t = ?g \<and> ht_generation u = ?g \<and> ht_host_id t = ht_host_id u \<and> ht_targetable t \<longrightarrow> t = u"
      using gen by fastforce
  qed simp
  then have start: "reg_ok (replaced ?ts r) (r\<lparr>hr_generation := ?g, hr_default := hr_default r, hr_snapshot := ?ts\<rparr>)"
    by (rule renewed_ok [OF assms(1)])
  have "replaced ?ts r = [old]"
  proof -
    have keep: "jget (fst p) ?ts \<noteq> Some (snd p) \<longleftrightarrow> fst p = alias" if "p \<in> set (hr_snapshot r)" for p
    proof (cases "fst p = alias")
      case True
      then have "snd p = old" using in_jget [OF dist, of "alias" "snd p"] that Some by (cases p) auto
      moreover have "?new \<noteq> old" using gen [OF oldin] tested_fields(2) [of result mismatch ?g old] by auto
      ultimately show ?thesis using True by (simp add: jget_jset)
    next
      case False
      then show ?thesis using in_jget [OF dist, of "fst p" "snd p"] that by (simp add: jget_jset)
    qed
    have "filter (\<lambda>p. jget (fst p) ?ts \<noteq> Some (snd p)) (hr_snapshot r) = filter (\<lambda>p. fst p = alias) (hr_snapshot r)"
      using keep by (rule filter_cong [OF refl])
    moreover have "filter (\<lambda>p. fst p = alias) kvs = [(alias, v)]"
      if "distinct (map fst kvs)" "jget alias kvs = Some v" for kvs :: "(string \<times> host_target) list" and v
      using that by (induction kvs) (force simp: jget_Cons filter_empty_conv split: if_splits)+
    ultimately show ?thesis using dist Some by (simp add: replaced_def)
  qed
  then show ?thesis using start by simp
qed

lemma mark_cases:
  obtains "jget alias (hr_snapshot r) = None" "mark_test_result alias result mismatch r = r"
  | old where "jget alias (hr_snapshot r) = Some old"
    "mark_test_result alias result mismatch r = retire_target old (r\<lparr>hr_generation := hr_generation r + 1, hr_default := hr_default r,
        hr_snapshot := jset alias (tested_target result mismatch (hr_generation r + 1) old) (hr_snapshot r)\<rparr>)"
  by (cases "jget alias (hr_snapshot r)") (simp_all add: mark_test_result_def)

lemma mark_ok [inv_intros]:
  assumes "reg_ok [] r"
  shows "reg_ok [] (mark_test_result alias result mismatch r)"
proof (cases rule: mark_cases [of "alias" r result mismatch])
  case 1
  then show ?thesis using assms by simp
next
  case (2 old)
  show ?thesis unfolding 2(2) by (rule retire_ok [OF tested_pending [OF assms 2(1)]])
qed

section \<open>Leases\<close>

lemma count_update: "lease_count k (r\<lparr>hr_leases := ls\<rparr>) = lease_count k r"
  "lease_count k (r\<lparr>hr_counts := jset k' n (hr_counts r)\<rparr>) = (if k = k' then n else lease_count k r)"
  "lease_count k (r\<lparr>hr_counts := jdel k' (hr_counts r)\<rparr>) = (if k = k' then 0 else lease_count k r)"
  "lease_count k (r\<lparr>hr_events := es\<rparr>) = lease_count k r" "lease_count k (r\<lparr>hr_flags := fs\<rparr>) = lease_count k r"
  by (simp_all add: lease_count_def jget_jset jget_jdel)

text \<open>What the places of the generations depend on.\<close>

definition same_places :: "host_registry \<Rightarrow> host_registry \<Rightarrow> bool" where
  "same_places r r' \<longleftrightarrow>
     hr_generation r' = hr_generation r \<and> hr_snapshot r' = hr_snapshot r \<and> hr_retired r' = hr_retired r
     \<and> hr_finished r' = hr_finished r"

lemma same_places_sets:
  assumes "same_places r r'"
  shows "published r' = published r" "draining r' = draining r" "known pend r' = known pend r"
    "placed pend r' = placed pend r" "told_apart pend r' = told_apart pend r"
  using assms by (simp_all add: same_places_def published_def draining_def known_def placed_def told_apart_def)

text \<open>The event of a key exists afterwards, unset if it is new.\<close>

lemma ensure_event_facts:
  assumes "ensure_event k r = (e, r')"
  shows "same_places r r'" "hr_leases r' = hr_leases r" "lease_count k' r' = lease_count k' r"
    "jget k (hr_events r') = Some e" "hr_counts r' = hr_counts r"
    "k' \<noteq> k \<Longrightarrow> jget k' (hr_events r') = jget k' (hr_events r)"
    "jget k (hr_events r) = None \<and> e = length (hr_flags r) \<and> hr_flags r' = hr_flags r @ [False]
     \<or> jget k (hr_events r) = Some e \<and> r' = r"
  using assms by (auto simp: ensure_event_def same_places_def jget_jset lease_count_def split: option.splits)

lemma ensure_event_ok:
  assumes "reg_ok [] r" "ensure_event k r = (e, r')"
  shows "reg_ok [] r'"
proof -
  note ok = reg_okD [OF assms(1)] and f = ensure_event_facts [OF assms(2)]
  show ?thesis
  proof (cases "r' = r")
    case False
    then have new: "jget k (hr_events r) = None" "e = length (hr_flags r)" "hr_flags r' = hr_flags r @ [False]"
      using f(7) by auto
    have ev: "jget k' (hr_events r') = (if k' = k then Some e else jget k' (hr_events r))" for k' using f(4,6) by simp
    have ret: "hr_retired r' = hr_retired r" using f(1) by (simp add: same_places_def)
    have "counted r'" using ok(3) unfolding counted_def f(2) f(3) ret .
    moreover have "leases_held [] r'" using ok(4) new(1) unfolding leases_held_def f(2) same_places_sets [OF f(1)] ev by fastforce
    moreover have "fenced r'"
      using ok(5) unfolding fenced_def f(2) f(3) ev new
      by (auto simp: nth_append less_Suc_eq split: if_splits)
    ultimately show ?thesis using ok(1,2) by (simp add: reg_ok_def same_places_sets [OF f(1)])
  qed (use assms in simp)
qed

lemma acquire_cases:
  obtains "acquire alias r = (None, r)" "get_target True alias r = None"
  | r1 where "acquire alias r = (None, r1)" "reg_ok [] r \<Longrightarrow> reg_ok [] r1"
  | t e r1 where "get_target True alias r = Some t" "ensure_event (runtime_key t) r = (e, r1)" "\<not> hr_flags r1 ! e"
      "acquire alias r = (Some (length (hr_leases r)),
         r1\<lparr>hr_counts := jset (runtime_key t) (lease_count (runtime_key t) r + 1) (hr_counts r1),
            hr_leases := hr_leases r @ [\<lparr>hl_target = t, hl_event = e, hl_managed = True, hl_released = False\<rparr>]\<rparr>)"
proof (cases "get_target True alias r")
  case None
  then show thesis by (intro that(1)) (simp_all add: acquire_def)
next
  case (Some t)
  obtain e r1 where e: "ensure_event (runtime_key t) r = (e, r1)" by fastforce
  show thesis
  proof (cases "hr_flags r1 ! e")
    case True
    then have "acquire alias r = (None, r1)" using Some e by (simp add: acquire_def Let_def)
    then show thesis using that(2) ensure_event_ok [OF _ e] by blast
  next
    case False
    then show thesis
      using that(3) [OF Some e False] Some e ensure_event_facts(2,3) [OF e] by (simp add: acquire_def Let_def)
  qed
qed

lemma acquire_ok [inv_intros]:
  assumes "reg_ok [] r"
  shows "reg_ok [] (snd (acquire alias r))"
proof (cases rule: acquire_cases [of "alias" r])
  case 1
  then show ?thesis using assms by simp
next
  case (2 r1)
  then show ?thesis using assms by simp
next
  case (3 t e r1)
  let ?k = "runtime_key t"
  let ?l = "\<lparr>hl_target = t, hl_event = e, hl_managed = True, hl_released = False\<rparr>"
  let ?r = "snd (acquire alias r)"
  note f = ensure_event_facts [OF 3(2)]
  have r1: "reg_ok [] r1" by (rule ensure_event_ok [OF assms 3(2)])
  note ok = reg_okD [OF r1]
  have t: "t \<in> published r1" "ht_targetable t"
    using 3(1) f(1) by (auto simp: get_target_def is_targetable_def published_def same_places_def dest!: jget_in split: option.splits if_splits) force
  have same: "same_places r1 ?r" "hr_events ?r = hr_events r1" "hr_flags ?r = hr_flags r1" "hr_retired ?r = hr_retired r1"
    "hr_leases ?r = hr_leases r1 @ [?l]"
    using 3(4) f(2) by (simp_all add: same_places_def)
  have cnt: "lease_count k ?r = (if k = ?k then lease_count k r1 + 1 else lease_count k r1)" for k
    using 3(4) f(3) by (simp add: lease_count_def jget_jset)
  have "counted ?r"
    using ok(3) unfolding counted_def cnt same by (auto simp: live_on_def)
  moreover have "leases_held [] ?r"
    using ok(4) t f(4) unfolding leases_held_def same(2,5) same_places_sets [OF same(1)] by (auto simp: live_on_def)
  moreover have "fenced ?r"
    using ok(5) f(4) unfolding fenced_def cnt same by auto
  ultimately show ?thesis using ok(1,2) by (simp add: reg_ok_def same_places_sets [OF same(1)])
qed

lemma borrow_ok [inv_intros]:
  assumes "reg_ok [] r"
  shows "reg_ok [] (borrow i r)"
proof (cases "i < length (hr_leases r)")
  case True
  let ?l = "(hr_leases r ! i)\<lparr>hl_managed := False, hl_released := False\<rparr>"
  let ?r = "r\<lparr>hr_leases := hr_leases r @ [?l]\<rparr>"
  note ok = reg_okD [OF assms]
  have dead: "\<not> live_on k ?l" for k by (simp add: live_on_def)
  have same: "same_places r ?r" by (simp add: same_places_def)
  have "counted ?r"
    by (rule countedI) (use count_of [OF ok(3)] drained_count [OF ok(3)] dead in \<open>simp_all add: count_update\<close>)
  moreover have "leases_held [] ?r" using ok(4) dead unfolding leases_held_def same_places_sets [OF same] by simp
  moreover have "fenced ?r" using ok(5) True unfolding fenced_def count_update by simp
  ultimately show ?thesis using ok(1,2) True by (simp add: reg_ok_def same_places_sets [OF same] borrow_def)
qed (use assms in \<open>simp add: borrow_def\<close>)

lemma filter_dropped:
  "i < length xs \<Longrightarrow> \<not> P y \<Longrightarrow>
     length (filter P (xs[i := y])) = (if P (xs ! i) then length (filter P xs) - 1 else length (filter P xs))"
proof (induction xs arbitrary: i)
  case (Cons x xs)
  then show ?case
  proof (cases i)
    case (Suc j)
    have "P (xs ! j) \<Longrightarrow> 0 < length (filter P xs)"
      using Cons.prems Suc by (auto simp: filter_empty_conv)
    then show ?thesis using Cons Suc by auto
  qed auto
qed simp

text \<open>One lease fewer on a key: the last one finishes a draining generation or frees the event.\<close>

lemma fewer_leases_ok:
  assumes "reg_ok [] r"
    and cnt: "\<And>k'. length (filter (live_on k') ls) = (if k' = k then lease_count k r - 1 else lease_count k' r)"
    and lease: "\<And>l k'. l \<in> set ls \<Longrightarrow> live_on k' l \<Longrightarrow> l \<in> set (hr_leases r)"
    and events: "\<And>l. l \<in> set ls \<Longrightarrow> hl_event l < length (hr_flags r)"
  shows "reg_ok [] (release_key k (r\<lparr>hr_leases := ls\<rparr>))"
proof -
  let ?r0 = "r\<lparr>hr_leases := ls\<rparr>"
  let ?r = "release_key k ?r0"
  note ok = reg_okD [OF assms(1)]
  show ?thesis
  proof (cases "lease_count k r \<le> 1")
    case more: False
    have same: "same_places r ?r" "hr_leases ?r = ls" "hr_events ?r = hr_events r" "hr_flags ?r = hr_flags r" "hr_retired ?r = hr_retired r"
      using more by (simp_all add: release_key_def count_update same_places_def)
    have c: "lease_count k' ?r = (if k' = k then lease_count k r - 1 else lease_count k' r)" for k'
      using more by (simp add: release_key_def lease_count_def jget_jset)
    have "counted ?r"
    proof (rule countedI)
      fix k' t
      show "lease_count k' ?r = length (filter (live_on k') (hr_leases ?r))" unfolding same(2) cnt c ..
      assume "(k', t) \<in> set (hr_retired ?r)"
      then show "0 < lease_count k' ?r" using drained_count [OF ok(3), of k' t] more unfolding same(5) c by simp
    qed
    moreover have "leases_held [] ?r" using ok(4) lease unfolding leases_held_def same(2,3) same_places_sets [OF same(1)] by blast
    moreover have "fenced ?r" using ok(5) events more unfolding fenced_def same(2-4) c by auto
    ultimately show ?thesis using ok(1,2) by (simp add: reg_ok_def same_places_sets [OF same(1)])
  next
    case one: True
    have none: "\<not> live_on k l" if "l \<in> set ls" for l
      using cnt [of k] one that by (auto simp: filter_empty_conv)
    have left: "counted r1" if "hr_leases r1 = ls" "\<And>k'. lease_count k' r1 = (if k' = k then 0 else lease_count k' r)"
      "set (hr_retired r1) = {p \<in> set (hr_retired r). fst p \<noteq> k}" for r1
    proof (rule countedI)
      fix k' t
      show "lease_count k' r1 = length (filter (live_on k') (hr_leases r1))" unfolding that(1,2) cnt using one by simp
      assume "(k', t) \<in> set (hr_retired r1)"
      then show "0 < lease_count k' r1" using drained_count [OF ok(3), of k' t] that(3) by (simp add: that(2))
    qed
    have safe: "fenced r1" if "hr_leases r1 = ls" "\<And>k'. lease_count k' r1 = (if k' = k then 0 else lease_count k' r)"
      "hr_flags r1 = hr_flags r" "hr_events r1 = jdel k (hr_events r)" for r1
      using ok(5) events unfolding fenced_def that by (auto simp: jget_jdel)
    show ?thesis
    proof (cases "jget k (hr_retired r)")
      case None
      have same: "same_places r ?r" "hr_leases ?r = ls" "hr_events ?r = jdel k (hr_events r)" "hr_flags ?r = hr_flags r" "hr_retired ?r = hr_retired r"
        using one None by (simp_all add: release_key_def count_update same_places_def jhas_iff Let_def)
      have c: "lease_count k' ?r = (if k' = k then 0 else lease_count k' r)" for k' 
        using one None by (simp add: release_key_def lease_count_def jget_jdel jhas_iff Let_def)
      have "set (hr_retired ?r) = {p \<in> set (hr_retired r). fst p \<noteq> k}"
        using None by (auto simp: same(5) jget_def map_of_eq_None_iff)
      then have "counted ?r" by (rule left [OF same(2) c])
      moreover have "leases_held [] ?r"
        using ok(4) lease none unfolding leases_held_def same(2,3) same_places_sets [OF same(1)] jget_jdel by metis
      moreover have "fenced ?r" by (rule safe [OF same(2) c same(4) same(3)])
      ultimately show ?thesis using ok(1,2) by (simp add: reg_ok_def same_places_sets [OF same(1)])
    next
      case (Some t)
      have r: "hr_leases ?r = ls" "hr_events ?r = jdel k (hr_events r)" "hr_flags ?r = hr_flags r"
          "hr_retired ?r = jdel k (hr_retired r)" "hr_snapshot ?r = hr_snapshot r" "hr_generation ?r = hr_generation r"
          "hr_finished ?r = hr_finished r @ [t]"
        using one Some by (simp_all add: release_key_def count_update jhas_iff Let_def finish_simps)
      have c: "lease_count k' ?r = (if k' = k then 0 else lease_count k' r)" for k'
        using one Some by (simp add: release_key_def count_update jhas_iff Let_def finish_simps) (simp add: lease_count_def jget_jdel)
      have dist: "distinct (map fst (hr_retired r))" using ok(1) by (simp add: placed_def)
      have kt: "(k, t) \<in> set (hr_retired r)" by (rule jget_in [OF Some])
      have ret: "set (hr_retired ?r) = {p \<in> set (hr_retired r). fst p \<noteq> k}" by (simp add: r set_jdel)
      have key: "runtime_key u = k'" if "(k', u) \<in> set (hr_retired r)" for k' u using ok(1) that by (auto simp: placed_def)
      have dr: "draining ?r = draining r - {t}"
      proof (intro equalityI subsetI)
        fix u assume "u \<in> draining ?r"
        then obtain k' where "(k', u) \<in> set (hr_retired r)" "k' \<noteq> k" by (auto simp: draining_def ret)
        moreover from this have "u \<noteq> t" using key kt by blast
        ultimately show "u \<in> draining r - {t}" by (force simp: draining_def)
      next
        fix u assume "u \<in> draining r - {t}"
        then obtain k' where "(k', u) \<in> set (hr_retired r)" "u \<noteq> t" by (auto simp: draining_def)
        moreover from this have "k' \<noteq> k" using in_jget [OF dist] Some by fastforce
        ultimately show "u \<in> draining ?r" by (force simp: draining_def ret)
      qed
      have tdr: "t \<in> draining r" using kt by (force simp: draining_def)
      have sets: "published ?r = published r" "known [] ?r = known [] r"
        using tdr dr by (auto simp: known_def published_def r)
      have "counted ?r" by (rule left [OF r(1) c ret])
      moreover have "fenced ?r" by (rule safe [OF r(1) c r(3) r(2)])
      moreover have "told_apart [] ?r" using ok(2) by (simp add: told_apart_def sets r)
      moreover have "placed [] ?r"
        using ok(1) dr tdr keys_jdel_distinct [OF dist, of k] unfolding placed_def sets r by (auto simp: set_jdel)
      moreover have "leases_held [] ?r"
        unfolding leases_held_def
      proof (intro ballI allI impI)
        fix l k' assume l: "l \<in> set (hr_leases ?r)" "live_on k' l"
        then have k': "k' \<noteq> k" using none by (auto simp: r)
        have "l \<in> set (hr_leases r)" using lease l by (simp add: r)
        then have h: "hl_target l \<in> published r \<union> set [] \<union> draining r \<and> ht_targetable (hl_target l) \<and> jget k' (hr_events r) = Some (hl_event l)"
          using ok(4) l(2) by (auto simp: leases_held_def)
        have "hl_target l \<noteq> t" using l(2) k' kt ok(1) by (auto simp: live_on_def placed_def)
        then show "hl_target l \<in> published ?r \<union> set [] \<union> draining ?r \<and> ht_targetable (hl_target l)
            \<and> jget k' (hr_events ?r) = Some (hl_event l)"
          using h k' by (simp add: sets dr r jget_jdel)
      qed
      ultimately show ?thesis by (simp add: reg_ok_def)
    qed
  qed
qed

lemma dropped_ok:
  assumes "reg_ok [] r" "i < length (hr_leases r)" "live_on k (hr_leases r ! i)"
  shows "reg_ok [] (release_key k (r\<lparr>hr_leases := (hr_leases r)[i := (hr_leases r ! i)\<lparr>hl_released := True\<rparr>]\<rparr>))"
proof -
  let ?l = "(hr_leases r ! i)\<lparr>hl_released := True\<rparr>"
  let ?ls = "(hr_leases r)[i := ?l]"
  note ok = reg_okD [OF assms(1)]
  have old: "length (filter (live_on k') (hr_leases r)) = lease_count k' r" for k' using count_of [OF ok(3)] by simp
  have key: "live_on k' (hr_leases r ! i) \<longleftrightarrow> k' = k" for k' using assms(3) by (auto simp: live_on_def)
  have dead: "\<not> live_on k' ?l" for k' by (simp add: live_on_def)
  have ls: "l = ?l \<or> l \<in> set (hr_leases r)" if "l \<in> set ?ls" for l
    using set_update_subset_insert [of "hr_leases r" i] that by blast
  show ?thesis
  proof (rule fewer_leases_ok [OF assms(1)])
    show "length (filter (live_on k') ?ls) = (if k' = k then lease_count k r - 1 else lease_count k' r)" for k'
      using filter_dropped [OF assms(2), of "live_on k'" ?l] dead key old by simp
    show "l \<in> set (hr_leases r)" if "l \<in> set ?ls" "live_on k' l" for l k'
      using ls [OF that(1)] that(2) dead [of k'] by blast
    show "hl_event l < length (hr_flags r)" if "l \<in> set ?ls" for l
    proof -
      have "\<forall>l\<in>set (hr_leases r). hl_event l < length (hr_flags r)" using ok(5) by (simp add: fenced_def)
      then show ?thesis using ls [OF that] nth_mem [OF assms(2)] by (elim disjE) simp_all
    qed
  qed
qed

lemma release_ok [inv_intros]:
  assumes "reg_ok [] r"
  shows "reg_ok [] (release_lease i r)"
proof (cases "i < length (hr_leases r) \<and> \<not> hl_released (hr_leases r ! i)")
  case True
  then have i: "i < length (hr_leases r)" by blast
  let ?l = "(hr_leases r ! i)\<lparr>hl_released := True\<rparr>"
  show ?thesis
  proof (cases "hl_managed (hr_leases r ! i)")
    case m: True
    then have "live_on (runtime_key (hl_target (hr_leases r ! i))) (hr_leases r ! i)" using True by (simp add: live_on_def)
    from dropped_ok [OF assms i this] show ?thesis using True m by (simp add: release_lease_def Let_def)
  next
    case False
    let ?ls = "(hr_leases r)[i := ?l]"
    note ok = reg_okD [OF assms]
    have dead: "\<not> live_on k ?l" "\<not> live_on k (hr_leases r ! i)" for k using False by (simp_all add: live_on_def)
    have same: "same_places r (r\<lparr>hr_leases := ?ls\<rparr>)" by (simp add: same_places_def)
    have ls: "l = ?l \<or> l \<in> set (hr_leases r)" if "l \<in> set ?ls" for l
      using set_update_subset_insert [of "hr_leases r" i] that by blast
    have "counted (r\<lparr>hr_leases := ?ls\<rparr>)"
      by (rule countedI) (use count_of [OF ok(3)] drained_count [OF ok(3)] dead filter_dropped [OF i] in \<open>simp_all add: count_update\<close>)
    moreover have "leases_held [] (r\<lparr>hr_leases := ?ls\<rparr>)"
      unfolding leases_held_def same_places_sets [OF same]
    proof (intro ballI allI impI)
      fix l k assume "l \<in> set (hr_leases (r\<lparr>hr_leases := ?ls\<rparr>))" "live_on k l"
      then have "l \<in> set (hr_leases r)" using ls [of l] dead(1) [of k] by auto
      then show "hl_target l \<in> published r \<union> set [] \<union> draining r \<and> ht_targetable (hl_target l)
          \<and> jget k (hr_events (r\<lparr>hr_leases := ?ls\<rparr>)) = Some (hl_event l)"
        using ok(4) \<open>live_on k l\<close> by (simp add: leases_held_def)
    qed
    moreover have "fenced (r\<lparr>hr_leases := ?ls\<rparr>)"
    proof -
      have "\<forall>l\<in>set (hr_leases r). hl_event l < length (hr_flags r)" using ok(5) by (simp add: fenced_def)
      moreover from this have "hl_event ?l < length (hr_flags r)" using nth_mem [OF i] by simp
      ultimately have "\<forall>l\<in>set ?ls. hl_event l < length (hr_flags r)" using ls by blast
      then show ?thesis using ok(5) unfolding fenced_def count_update by simp
    qed
    ultimately have "reg_ok [] (r\<lparr>hr_leases := ?ls\<rparr>)"
      using ok(1,2) unfolding reg_ok_def same_places_sets [OF same] by blast
    then show ?thesis using True False by (simp add: release_lease_def Let_def)
  qed
qed (use assms in \<open>auto simp: release_lease_def\<close>)

lemma trip_ok:
  assumes "reg_ok [] r" "0 < lease_count k r"
  shows "reg_ok [] (trip k r)" "lease_count k' (trip k r) = lease_count k' r" "same_places r (trip k r)"
    "hr_leases (trip k r) = hr_leases r"
proof -
  obtain e r1 where e: "ensure_event k r = (e, r1)" by fastforce
  note f = ensure_event_facts [OF e]
  have r: "trip k r = r1\<lparr>hr_flags := (hr_flags r1)[e := True]\<rparr>" by (simp add: trip_def e)
  have same: "same_places r1 (trip k r)" by (simp add: r same_places_def)
  note ok = reg_okD [OF ensure_event_ok [OF assms(1) e]]
  have c: "lease_count k' (trip k r) = lease_count k' r1" for k' by (simp add: r lease_count_def)
  then show "lease_count k' (trip k r) = lease_count k' r" using f(3) by simp
  show "same_places r (trip k r)" using f(1) by (simp add: r same_places_def)
  show ls: "hr_leases (trip k r) = hr_leases r" using f(2) by (simp add: r)
  have ev: "hr_events (trip k r) = hr_events r1" "hr_retired (trip k r) = hr_retired r1" "hr_leases (trip k r) = hr_leases r1"
    by (simp_all add: r)
  have "counted (trip k r)" using ok(3) unfolding counted_def c ev .
  moreover have "leases_held [] (trip k r)" using ok(4) unfolding leases_held_def ev same_places_sets [OF same] .
  moreover have "fenced (trip k r)"
  proof -
    have len: "length (hr_flags (trip k r)) = length (hr_flags r1)" by (simp add: r)
    have "0 < lease_count k'' r1" if "jget k'' (hr_events r1) = Some e'" "hr_flags (trip k r) ! e'" for k'' e'
    proof (cases "e' = e")
      case True
      then have "k'' = k" using that(1) f(4) ok(5) unfolding fenced_def by blast
      then show ?thesis using assms(2) f(3) by simp
    next
      case False
      then have "hr_flags r1 ! e'" using that(2) by (simp add: r)
      then show ?thesis using ok(5) that(1) unfolding fenced_def by blast
    qed
    then show ?thesis using ok(5) unfolding fenced_def c ev len by blast
  qed
  ultimately show "reg_ok [] (trip k r)" using ok(1,2) unfolding reg_ok_def same_places_sets [OF same] by blast
qed

lemma trips_ok:
  assumes "reg_ok [] r" "\<forall>k\<in>set ks. 0 < lease_count k r"
  shows "reg_ok [] (fold trip ks r) \<and> (\<forall>k. lease_count k (fold trip ks r) = lease_count k r) \<and> same_places r (fold trip ks r)
    \<and> hr_leases (fold trip ks r) = hr_leases r"
  using assms
proof (induction ks arbitrary: r)
  case (Cons k ks)
  note t = trip_ok [OF Cons.prems(1), of k]
  have "0 < lease_count k r" using Cons.prems(2) by simp
  note t = t [OF this]
  have "\<forall>k\<in>set ks. 0 < lease_count k (trip k' r)" if "k' = k" for k' using Cons.prems(2) t(2) that by simp
  from Cons.IH [OF t(1) this [OF refl]] show ?case using t(2-4) by (simp add: same_places_def)
qed (simp add: same_places_def)

lemma affected_live: "k \<in> set (affected_keys alias r) \<Longrightarrow> 0 < lease_count k r"
  by (auto simp: affected_keys_def)

lemma revoke_ok [inv_intros]:
  assumes "reg_ok [] r"
  shows "reg_ok [] (snd (force_revoke alias r))" "reg_ok [] (snd (force_revoke_keys alias r))"
  using trips_ok [OF assms, of "affected_keys alias r"] affected_live [of _ "alias" r]
  by (simp_all add: force_revoke_def force_revoke_keys_def Let_def)

end
