(* ===== verification/Host_Registry_Props.thy ===== *)
theory Host_Registry_Props
  imports Host_Registry_Inv
begin

text \<open>
  The registry in operation: any sequence of staged and published inventories, connection tests, leases,
  releases and revocations. A revocation reaches every lease, a replaced generation is retired once and
  never leased again, and a host key mismatch blocks a host until a test passes or its identity changes.
\<close>

section \<open>The system\<close>

record host_sys =
  hs_reg :: host_registry
  hs_staged :: "host_publication list"
  hs_files :: trust_files

datatype host_action =
  Stage_inventory "string option" "(string \<times> tool_host) list" "string \<Rightarrow> bool"
| Publish_inventory nat
| Test_result string dict bool
| Take_lease string
| Borrow_lease nat
| Release_lease nat
| Revoke_host string

fun host_act :: "host_env \<Rightarrow> host_action \<Rightarrow> host_sys \<Rightarrow> host_sys" where
  "host_act env (Stage_inventory d hosts write_fails) s =
     (case stage env write_fails False d hosts (hs_reg s) (hs_files s) of
        (Inl e, files) \<Rightarrow> s\<lparr>hs_files := files\<rparr>
      | (Inr p, files) \<Rightarrow> s\<lparr>hs_staged := hs_staged s @ [p], hs_files := files\<rparr>)"
| "host_act env (Publish_inventory i) s =
     (if i < length (hs_staged s) then s\<lparr>hs_reg := snd (publish_staged (hs_staged s ! i) (hs_reg s))\<rparr> else s)"
| "host_act env (Test_result a result mismatch) s = s\<lparr>hs_reg := mark_test_result a result mismatch (hs_reg s)\<rparr>"
| "host_act env (Take_lease a) s = s\<lparr>hs_reg := snd (acquire a (hs_reg s))\<rparr>"
| "host_act env (Borrow_lease i) s = s\<lparr>hs_reg := borrow i (hs_reg s)\<rparr>"
| "host_act env (Release_lease i) s = s\<lparr>hs_reg := release_lease i (hs_reg s)\<rparr>"
| "host_act env (Revoke_host a) s = s\<lparr>hs_reg := snd (force_revoke_keys a (hs_reg s))\<rparr>"

text \<open>An inventory is a dictionary of hosts whose trust mode the configuration schema admits.\<close>

definition inventory_ok :: "(string \<times> tool_host) list \<Rightarrow> bool" where
  "inventory_ok hosts \<longleftrightarrow>
     distinct (map fst hosts) \<and> list_all (\<lambda>p. th_trust_mode (snd p) \<in> set [''legacy'', ''pinned'', ''ca'', ''tofu'']) hosts"

fun action_ok :: "host_action \<Rightarrow> bool" where
  "action_ok (Stage_inventory d hosts write_fails) = inventory_ok hosts"
| "action_ok a = True"

inductive inventory_step :: "host_env \<Rightarrow> host_sys \<Rightarrow> host_sys \<Rightarrow> bool" for env where
  "action_ok a \<Longrightarrow> inventory_step env s (host_act env a s)"

inductive host_boot :: "host_env \<Rightarrow> host_sys \<Rightarrow> bool" for env where
  "inventory_ok hosts \<Longrightarrow> new_host_registry env write_fails key_path legacy d hosts files = (Inr r, files') \<Longrightarrow>
     host_boot env \<lparr>hs_reg = r, hs_staged = [], hs_files = files'\<rparr>"

definition host_reachable :: "host_env \<Rightarrow> host_sys \<Rightarrow> bool" where
  "host_reachable env s \<longleftrightarrow> (\<exists>s0. host_boot env s0 \<and> (inventory_step env)\<^sup>*\<^sup>* s0 s)"

section \<open>What staging promises\<close>

lemma target_of_fields [simp]:
  "ht_alias (target_of a i c g kp keys kh ka tg ts) = a" "ht_generation (target_of a i c g kp keys kh ka tg ts) = g"
  "ht_host_id (target_of a i c g kp keys kh ka tg ts) = i" "ht_trust_mode (target_of a i c g kp keys kh ka tg ts) = th_trust_mode c"
  "ht_trust_state (target_of a i c g kp keys kh ka tg ts) = ts"
  by (simp_all add: target_of_def)

lemma target_fields:
  assumes "target_from_config env write_fails r a c g files = (Inr t, files')"
  shows "ht_alias t = a \<and> ht_generation t = g \<and> host_identity env a c = Some (ht_host_id t)
    \<and> ht_trust_mode t = th_trust_mode c \<and> ht_trust_state t \<in> {''local'', ''invalid'', th_trust_mode c}"
proof -
  obtain i where i: "host_identity env a c = Some i"
    using assms by (cases "host_identity env a c") (simp_all add: target_from_config_def)
  have made: "ht_alias u = a \<and> ht_generation u = g \<and> host_identity env a c = Some (ht_host_id u)
      \<and> ht_trust_mode u = th_trust_mode c \<and> ht_trust_state u = ts"
    if "u = target_of a i c g kp keys kh ka tg ts" for u kp keys kh ka tg ts
    unfolding that i by simp
  show ?thesis
  proof (cases "is_local_address (th_address c)")
    case True
    have "t = target_of a i c g (hr_key_path r) [] (hr_legacy_known_hosts r) [] (th_enabled c) ''local''"
      using assms unfolding target_from_config_def i Let_def option.case if_P [OF True] by simp
    from made [OF this] show ?thesis by simp
  next
    case False
    show ?thesis
    proof (cases "th_trust_mode c \<in> set [''pinned'', ''tofu'', ''ca'']")
      case mode: True
      show ?thesis
      proof (cases "collect_all (normalize_public_key (he_b64 env)) (th_host_keys c)")
        case None
        then have "t = target_of a i c g (hr_key_path r) [] (hr_legacy_known_hosts r) [] False ''invalid''"
          using assms unfolding target_from_config_def i Let_def option.case if_not_P [OF False] if_P [OF mode] None by simp
        from made [OF this] show ?thesis by simp
      next
        case (Some keys)
        show ?thesis
        proof (cases keys)
          case Nil
          then have "t = target_of a i c g (hr_key_path r) [] (hr_legacy_known_hosts r) [] False ''invalid''"
            using assms unfolding target_from_config_def i Let_def option.case if_not_P [OF False] if_P [OF mode] Some list.case by simp
          from made [OF this] show ?thesis by simp
        next
          case (Cons k ks)
          let ?ka = "if th_trust_mode c = ''ca'' then th_address c else ''odin-'' @ i"
          obtain res f where m: "materialize_trust env write_fails i ?ka (th_trust_mode c) (k # ks) files = (res, f)" by fastforce
          have "(case (res, f) of (Inl e, files') \<Rightarrow> (Inl e, files')
              | (Inr path, files') \<Rightarrow> (Inr (target_of a i c g (hr_key_path r) (k # ks) path ?ka (th_enabled c) (th_trust_mode c)), files'))
            = (Inr t, files')"
            using assms unfolding target_from_config_def i Let_def option.case if_not_P [OF False] if_P [OF mode] Some Cons list.case m .
          then obtain path where "t = target_of a i c g (hr_key_path r) (k # ks) path ?ka (th_enabled c) (th_trust_mode c)"
            by (cases res) auto
          from made [OF this] show ?thesis by simp
        qed
      qed
    next
      case mode: False
      have "t = target_of a i c g (hr_key_path r) [] (hr_legacy_known_hosts r) [] (th_enabled c) (th_trust_mode c)"
        using assms unfolding target_from_config_def i Let_def option.case if_not_P [OF False] if_not_P [OF mode] by simp
      from made [OF this] show ?thesis by simp
    qed
  qed
qed

lemma fence_fields [simp]:
  "ht_alias (collision_fenced cs t) = ht_alias t" "ht_generation (collision_fenced cs t) = ht_generation t"
  "ht_host_id (collision_fenced cs t) = ht_host_id t" "ht_alias (mismatch_kept u t) = ht_alias t"
  "ht_generation (mismatch_kept u t) = ht_generation t" "ht_host_id (mismatch_kept u t) = ht_host_id t"
  "ht_trust_mode (collision_fenced cs t) = ht_trust_mode t" "ht_trust_mode (mismatch_kept u t) = ht_trust_mode t"
  "ht_trust_state t \<noteq> ''mismatch'' \<Longrightarrow> ht_trust_state (collision_fenced cs t) \<noteq> ''mismatch''"
  by (simp_all add: collision_fenced_def mismatch_kept_def)

lemma collision_untargetable: "ht_host_id t \<in> set cs \<Longrightarrow> \<not> ht_targetable (collision_fenced cs t)"
  by (simp add: collision_fenced_def)

lemma mismatch_untargetable: "\<not> ht_targetable t \<Longrightarrow> \<not> ht_targetable (mismatch_kept u t)"
  by (simp add: mismatch_kept_def)

lemma fenced_cases:
  obtains u where "old = Some u" "fenced_target cs old t = u"
  | u where "old = Some u" "fenced_target cs old t = mismatch_kept u (collision_fenced cs t)"
  | "old = None" "fenced_target cs old t = collision_fenced cs t"
proof (cases old)
  case None
  then show thesis by (intro that(3)) (simp_all add: fenced_target_def)
next
  case (Some u)
  then show thesis
    using that(1,2) [OF Some] by (cases "same_definition u (mismatch_kept u (collision_fenced cs t))") (simp_all add: fenced_target_def Let_def)
qed

lemma staged_hosts:
  assumes "stage_hosts env write_fails r cs g hosts files = (Inr ts, files')"
  shows "map fst ts = map fst hosts
    \<and> list_all2 (\<lambda>p q. \<exists>t f f'. target_from_config env write_fails r (fst p) (snd p) g f = (Inr t, f')
         \<and> q = (fst p, fenced_target cs (jget (fst p) (hr_snapshot r)) t)) hosts ts"
  using assms
proof (induction hosts arbitrary: files ts files')
  case (Cons h hosts)
  obtain a c where h: "h = (a, c)" by (cases h)
  obtain res f1 where t: "target_from_config env write_fails r a c g files = (res, f1)" by fastforce
  obtain rest f2 where rs: "stage_hosts env write_fails r cs g hosts f1 = (rest, f2)" by fastforce
  obtain t0 us where res: "res = Inr t0" "rest = Inr us" "ts = (a, fenced_target cs (jget a (hr_snapshot r)) t0) # us" "files' = f2"
    using Cons.prems by (cases res; cases rest) (simp_all add: h t rs)
  have "stage_hosts env write_fails r cs g hosts f1 = (Inr us, f2)" using rs res by simp
  from Cons.IH [OF this] show ?case using t res by (auto simp: h)
qed simp

text \<open>A staged publication is up to date only while the registry has the generation it was staged on.\<close>

definition sticky :: "(string \<times> host_target) list \<Rightarrow> host_registry \<Rightarrow> bool" where
  "sticky ts r \<longleftrightarrow>
     (\<forall>a u t. jget a (hr_snapshot r) = Some u \<and> jget a ts = Some t \<and> ht_trust_state u = ''mismatch'' \<and> same_identity u t
        \<longrightarrow> ht_trust_state t = ''mismatch'' \<and> \<not> ht_targetable t)"

definition mismatch_fenced :: "(string \<times> host_target) list \<Rightarrow> bool" where
  "mismatch_fenced ts \<longleftrightarrow> 
     (\<forall>(a, t)\<in>set ts. ht_trust_mode t \<noteq> ''mismatch'' \<and> (ht_trust_state t = ''mismatch'' \<longrightarrow> \<not> ht_targetable t))"

definition staged_ok :: "host_publication \<Rightarrow> host_registry \<Rightarrow> bool" where
  "staged_ok p r \<longleftrightarrow>
     pb_expected p \<le> hr_generation r \<and> pb_generation p = pb_expected p + 1 \<and> distinct (map fst (pb_snapshot p))
     \<and> mismatch_fenced (pb_snapshot p) \<and> (hr_generation r = pb_expected p \<longrightarrow> sticky (pb_snapshot p) r)
     \<and> (\<forall>(a, t)\<in>set (pb_snapshot p). ht_alias t = a
          \<and> (ht_generation t = pb_generation p \<or> (hr_generation r = pb_expected p \<longrightarrow> jget a (hr_snapshot r) = Some t)))"

lemma same_identity_trans: "same_identity t u \<Longrightarrow> same_identity u v \<Longrightarrow> same_identity t v"
  by (simp add: same_identity_def)

lemma fenced_mismatch:
  assumes "ht_trust_state t \<noteq> ''mismatch''" "\<And>u. old = Some u \<Longrightarrow> ht_trust_state u = ''mismatch'' \<Longrightarrow> \<not> ht_targetable u"
    and "ht_trust_state (fenced_target cs old t) = ''mismatch''"
  shows "\<not> ht_targetable (fenced_target cs old t)"
proof (cases rule: fenced_cases [of old cs t])
  case (1 u)
  then show ?thesis using assms(2,3) by simp
next
  case (2 u)
  have "ht_trust_state (collision_fenced cs t) \<noteq> ''mismatch''" using assms(1) by simp
  then show ?thesis using assms(3) unfolding 2(2) by (simp add: mismatch_kept_def split: if_splits)
next
  case 3
  then show ?thesis using assms(1,3) by simp
qed

lemma fenced_sticky:
  assumes "ht_trust_state u = ''mismatch''" "\<not> ht_targetable u" "same_identity u (fenced_target cs (Some u) t)"
  shows "ht_trust_state (fenced_target cs (Some u) t) = ''mismatch'' \<and> \<not> ht_targetable (fenced_target cs (Some u) t)"
proof (cases rule: fenced_cases [of "Some u" cs t])
  case (1 v)
  then show ?thesis using assms by simp
next
  case (2 v)
  then have v: "fenced_target cs (Some u) t = mismatch_kept u (collision_fenced cs t)" by simp
  show ?thesis
  proof (cases "same_identity u (collision_fenced cs t)")
    case True
    then show ?thesis unfolding v using assms(1) by (simp add: mismatch_kept_def)
  next
    case False
    then have "mismatch_kept u (collision_fenced cs t) = collision_fenced cs t" by (simp add: mismatch_kept_def)
    then show ?thesis using assms(3) False by (simp add: v)
  qed
qed simp

lemma collected: "collect_all f xs = Some ys \<Longrightarrow> ys = map (\<lambda>x. the (f x)) xs"
  by (induction xs arbitrary: ys) (auto split: option.splits)

lemma count_two: "x \<in> set xs \<Longrightarrow> y \<in> set xs \<Longrightarrow> x \<noteq> y \<Longrightarrow> f x = v \<Longrightarrow> f y = v \<Longrightarrow> 1 < count_list (map f xs) v"
proof (induction xs)
  case (Cons z zs)
  have pos: "0 < count_list (map f zs) v" if "w \<in> set zs" "f w = v" for w
    using that by (metis count_list_0_iff gr0I imageI set_map)
  show ?case
  proof (cases "x \<in> set zs \<and> y \<in> set zs")
    case True
    then show ?thesis using Cons by (auto simp: less_Suc_eq)
  next
    case False
    then show ?thesis using Cons.prems pos [of x] pos [of y] by auto
  qed
qed simp

lemma stage_ok:
  assumes "stage env write_fails boot d hosts r files = (Inr p, files')" "inventory_ok hosts" "placed [] r"
    and "mismatch_fenced (hr_snapshot r)"
  shows "staged_ok p r" "pb_expected p = hr_generation r" "map fst (pb_snapshot p) = map fst hosts"
    and "boot \<Longrightarrow> hr_snapshot r = [] \<Longrightarrow> renews (pb_snapshot p) (pb_generation p) r"
proof -
  obtain ids where ids: "collect_all (\<lambda>p. host_identity env (fst p) (snd p)) hosts = Some ids"
    using assms(1) by (cases "collect_all (\<lambda>p. host_identity env (fst p) (snd p)) hosts") (simp_all add: stage_def)
  let ?cs = "collisions_of ids" and ?g = "hr_generation r + 1"
  have "\<not> (?cs \<noteq> [] \<and> \<not> boot)"
  proof
    assume "?cs \<noteq> [] \<and> \<not> boot"
    then show False using assms(1) ids by (simp add: stage_def Let_def)
  qed
  obtain res f where st: "stage_hosts env write_fails r ?cs ?g hosts files = (res, f)" by fastforce
  obtain ts where ts: "res = Inr ts" "p = \<lparr>pb_expected = hr_generation r, pb_generation = ?g,
      pb_default = (case d of None \<Rightarrow> hr_default r | Some d \<Rightarrow> d), pb_snapshot = ts\<rparr>"
    using assms(1) ids \<open>\<not> (?cs \<noteq> [] \<and> \<not> boot)\<close> st by (cases res) (auto simp: stage_def Let_def)
  note sh = staged_hosts [OF st [unfolded ts(1)]]
  show keys: "map fst (pb_snapshot p) = map fst hosts" and exp: "pb_expected p = hr_generation r" using sh ts by simp_all
  have dist: "distinct (map fst ts)" using sh assms(2) by (simp add: inventory_ok_def)
  have al: "ht_alias u = a" if "jget a (hr_snapshot r) = Some u" for a u
    using jget_in [OF that] assms(3) by (auto simp: placed_def)
  have made: "\<exists>c t0 f f'. (a, c) \<in> set hosts \<and> target_from_config env write_fails r a c ?g f = (Inr t0, f')
      \<and> t = fenced_target ?cs (jget a (hr_snapshot r)) t0" if m: "(a, t) \<in> set ts" for a t
  proof -
    obtain i where i: "i < length ts" "ts ! i = (a, t)" using m unfolding in_set_conv_nth by blast
    note i = i list_all2_lengthD [OF conjunct2 [OF sh]]
    have "\<exists>t0 f f'. target_from_config env write_fails r (fst (hosts ! i)) (snd (hosts ! i)) ?g f = (Inr t0, f')
        \<and> ts ! i = (fst (hosts ! i), fenced_target ?cs (jget (fst (hosts ! i)) (hr_snapshot r)) t0)"
      using list_all2_nthD [OF conjunct2 [OF sh], of i] i(1,3) by simp
    moreover have "hosts ! i \<in> set hosts" using i by simp
    ultimately show ?thesis using i(2) by (cases "hosts ! i") auto
  qed
  have mode: "ht_trust_state t0 \<noteq> ''mismatch'' \<and> ht_trust_mode t0 \<noteq> ''mismatch''"
    if "(a, c) \<in> set hosts" "target_from_config env write_fails r a c ?g f = (Inr t0, f')" for a c t0 f f'
  proof -
    have "th_trust_mode c \<in> set [''legacy'', ''pinned'', ''ca'', ''tofu'']"
      using that(1) assms(2) by (auto simp: inventory_ok_def list_all_iff)
    then have "th_trust_mode c \<noteq> ''mismatch''" by auto
    moreover have "ht_trust_state t0 = ''local'' \<or> ht_trust_state t0 = ''invalid'' \<or> ht_trust_state t0 = th_trust_mode c"
      "ht_trust_mode t0 = th_trust_mode c"
      using target_fields [OF that(2)] by simp_all
    ultimately show ?thesis by (elim disjE) simp_all
  qed
  have fence: "ht_trust_mode u \<noteq> ''mismatch'' \<and> (ht_trust_state u = ''mismatch'' \<longrightarrow> \<not> ht_targetable u)"
    if "jget a (hr_snapshot r) = Some u" for a u
    using jget_in [OF that] assms(4) by (auto simp: mismatch_fenced_def)
  have new: "ht_alias t = a \<and> (ht_generation t = ?g \<or> jget a (hr_snapshot r) = Some t)" if m: "(a, t) \<in> set ts" for a t
  proof -
    obtain c t0 f f' where t0: "target_from_config env write_fails r a c ?g f = (Inr t0, f')"
        "t = fenced_target ?cs (jget a (hr_snapshot r)) t0"
      using made [OF m] by blast
    show ?thesis
      using target_fields [OF t0(1)] al
      by (cases rule: fenced_cases [of "jget a (hr_snapshot r)" ?cs t0]) (auto simp: t0(2))
  qed
  have "mismatch_fenced ts"
    unfolding mismatch_fenced_def
  proof (intro ballI, unfold split_paired_all prod.case)
    fix a t assume m: "(a, t) \<in> set ts"
    then obtain c t0 f f' where t0: "(a, c) \<in> set hosts" "target_from_config env write_fails r a c ?g f = (Inr t0, f')"
        "t = fenced_target ?cs (jget a (hr_snapshot r)) t0"
      using made by blast
    have st: "ht_trust_state t = ''mismatch'' \<Longrightarrow> \<not> ht_targetable t"
      using fenced_mismatch [of t0 "jget a (hr_snapshot r)" ?cs] mode [OF t0(1,2)] fence [of a] t0(3) by blast
    have "ht_trust_mode t \<noteq> ''mismatch''"
      using mode [OF t0(1,2)] fence [of a]
      by (cases rule: fenced_cases [of "jget a (hr_snapshot r)" ?cs t0]) (simp_all add: t0(3))
    with st show "ht_trust_mode t \<noteq> ''mismatch'' \<and> (ht_trust_state t = ''mismatch'' \<longrightarrow> \<not> ht_targetable t)" by blast
  qed
  moreover have "sticky ts r"
    unfolding sticky_def
  proof (intro allI impI, elim conjE)
    fix a u t assume m: "jget a (hr_snapshot r) = Some u" "jget a ts = Some t" "ht_trust_state u = ''mismatch''" "same_identity u t"
    then obtain t0 where "t = fenced_target ?cs (Some u) t0" using made [OF jget_in [OF m(2)]] by auto
    then show "ht_trust_state t = ''mismatch'' \<and> \<not> ht_targetable t"
      using fenced_sticky [OF m(3), of ?cs t0] fence [OF m(1)] m(3,4) by simp
  qed
  ultimately show "staged_ok p r" using dist new by (auto simp: staged_ok_def ts(2))
  show "renews (pb_snapshot p) (pb_generation p) r" if "boot" "hr_snapshot r = []"
  proof -
    have "t = u" if m: "(a, t) \<in> set ts" "(b, u) \<in> set ts" "ht_host_id t = ht_host_id u" "ht_targetable t" for a t b u
    proof (rule ccontr)
      assume "t \<noteq> u"
      then have "a \<noteq> b" using in_jget [OF dist m(1)] in_jget [OF dist m(2)] by auto
      obtain c t0 f f' where t0: "(a, c) \<in> set hosts" "target_from_config env write_fails r a c ?g f = (Inr t0, f')" "t = fenced_target ?cs None t0"
        using made [OF m(1)] \<open>hr_snapshot r = []\<close> by auto
      obtain c' u0 f1 f1' where u0: "(b, c') \<in> set hosts" "target_from_config env write_fails r b c' ?g f1 = (Inr u0, f1')" "u = fenced_target ?cs None u0"
        using made [OF m(2)] \<open>hr_snapshot r = []\<close> by auto
      have id: "ht_host_id t = ht_host_id t0" "ht_host_id u = ht_host_id u0"
        using t0(3) u0(3) by (simp_all add: fenced_target_def)
      have i: "host_identity env a c = Some (ht_host_id t)" "host_identity env b c' = Some (ht_host_id t)"
        using target_fields [OF t0(2)] target_fields [OF u0(2)] id m(3) by simp_all
      have "1 < count_list (map (\<lambda>q. the (host_identity env (fst q) (snd q))) hosts) (ht_host_id t)"
        by (rule count_two [OF t0(1) u0(1)]) (use \<open>a \<noteq> b\<close> i in simp_all)
      moreover have "ht_host_id t \<in> set ids"
        using collected [OF ids] t0(1) i(1) by force
      ultimately have "ht_host_id t0 \<in> set ?cs" using collected [OF ids] id by (simp add: collisions_of_def)
      then have "\<not> ht_targetable t" by (simp add: t0(3) fenced_target_def collision_untargetable)
      then show False using m(4) by blast
    qed
    then show ?thesis using dist new by (fastforce simp: renews_def ts(2))
  qed
qed

section \<open>The invariant of the system\<close>

definition same_inventory :: "host_registry \<Rightarrow> host_registry \<Rightarrow> bool" where
  "same_inventory r r' \<longleftrightarrow> hr_generation r' = hr_generation r \<and> hr_snapshot r' = hr_snapshot r"

lemma retire_inventory: "same_inventory r (retire_target t r)"
  by (simp add: same_inventory_def retire_target_def finish_simps Let_def)

lemma retires_inventory: "same_inventory r (fold retire_target ts r)"
  by (induction ts arbitrary: r) (use retire_inventory in \<open>auto simp: same_inventory_def\<close>)

lemma release_inventory: "same_inventory r (release_lease i r)"
proof -
  have "same_inventory r' (release_key k r')" for k r'
    by (simp add: same_inventory_def release_key_def finish_simps Let_def)
  then show ?thesis by (simp add: release_lease_def same_inventory_def Let_def)
qed

lemma acquire_places: "same_places r (snd (acquire a r))"
proof (cases "get_target True a r")
  case None
  then show ?thesis by (simp add: acquire_def same_places_def)
next
  case (Some t)
  obtain e r1 where e: "ensure_event (runtime_key t) r = (e, r1)" by fastforce
  then show ?thesis using ensure_event_facts(1) [OF e] Some by (simp add: acquire_def same_places_def Let_def)
qed

lemma lease_inventory:
  "same_inventory r (snd (acquire a r))" "same_inventory r (borrow i r)"
  using acquire_places [of r a] by (simp_all add: borrow_def same_inventory_def same_places_def)

lemma revoke_frame:
  assumes "reg_ok [] r"
  shows "same_places r (snd (force_revoke_keys a r))" "hr_leases (snd (force_revoke_keys a r)) = hr_leases r"
    "same_inventory r (snd (force_revoke_keys a r))"
  using trips_ok [OF assms, of "affected_keys a r"] affected_live [of _ a r]
  by (simp_all add: force_revoke_keys_def same_inventory_def same_places_def Let_def)

lemma staged_kept: "same_inventory r r' \<Longrightarrow> staged_ok p r \<Longrightarrow> staged_ok p r'"
  unfolding same_inventory_def staged_ok_def sticky_def by (elim conjE) (intro conjI, simp_all only:)

lemma staged_outdated: "hr_generation r < hr_generation r' \<Longrightarrow> staged_ok p r \<Longrightarrow> staged_ok p r'"
  by (auto simp: staged_ok_def)

definition sys_ok :: "host_sys \<Rightarrow> bool" where
  "sys_ok s \<longleftrightarrow> reg_ok [] (hs_reg s) \<and> mismatch_fenced (hr_snapshot (hs_reg s)) \<and> (\<forall>p\<in>set (hs_staged s). staged_ok p (hs_reg s))"

lemma tested_mismatch:
  assumes "ht_trust_state old = ''mismatch'' \<Longrightarrow> \<not> ht_targetable old" "ht_trust_mode old \<noteq> ''mismatch''"
    and "ht_trust_state (tested_target result mismatch g old) = ''mismatch''"
  shows "\<not> ht_targetable (tested_target result mismatch g old)"
  using assms by (auto simp: tested_target_def Let_def split: if_splits)

lemma publish_effect:
  assumes "staged_ok p r"
  shows "(fst (publish_staged p r) \<noteq> None \<and> snd (publish_staged p r) = r)
    \<or> (fst (publish_staged p r) = None \<and> hr_generation r = pb_expected p \<and> distinct (map (ht_host_id \<circ> snd) (pb_snapshot p))
       \<and> hr_snapshot (snd (publish_staged p r)) = pb_snapshot p
       \<and> hr_generation (snd (publish_staged p r)) = hr_generation r + 1)"
proof (cases rule: publish_cases [of p r])
  case 2
  have "same_inventory (published_as p r) (snd (publish_staged p r))" unfolding 2(4) by (rule retires_inventory)
  then show ?thesis using 2 assms by (simp add: same_inventory_def published_as_def staged_ok_def)
qed simp

lemma staged_renews:
  assumes "staged_ok p r" "hr_generation r = pb_expected p" "distinct (map (ht_host_id \<circ> snd) (pb_snapshot p))"
  shows "renews (pb_snapshot p) (pb_generation p) r"
proof -
  have "t = u" if "(a, t) \<in> set (pb_snapshot p)" "(b, u) \<in> set (pb_snapshot p)" "ht_host_id t = ht_host_id u" for a t b u
    using distinct_map_key_unique [OF assms(3) that(1,2)] that(3) by simp
  then show ?thesis using assms(1,2) by (fastforce simp: renews_def staged_ok_def)
qed

lemma act_ok [inv_intros]:
  assumes "sys_ok s" "action_ok a"
  shows "sys_ok (host_act env a s)"
proof -
  note ok = assms(1) [unfolded sys_ok_def]
  have kept: "sys_ok (s\<lparr>hs_reg := r\<rparr>)" if "reg_ok [] r" "same_inventory (hs_reg s) r" for r
    using ok that staged_kept [OF that(2)] by (auto simp: sys_ok_def same_inventory_def)
  show ?thesis
  proof (cases a)
    case (Stage_inventory d hosts write_fails)
    obtain res files where st: "stage env write_fails False d hosts (hs_reg s) (hs_files s) = (res, files)" by fastforce
    show ?thesis
    proof (cases res)
      case (Inl e)
      then show ?thesis using ok st by (simp add: Stage_inventory sys_ok_def)
    next
      case (Inr p)
      have "inventory_ok hosts" using assms(2) Stage_inventory by simp
      moreover have "placed [] (hs_reg s)" using ok reg_okD(1) by blast
      ultimately have "staged_ok p (hs_reg s)" using stage_ok(1) [OF st [unfolded Inr]] ok by blast
      then show ?thesis using ok st Inr by (auto simp: Stage_inventory sys_ok_def)
    qed
  next
    case (Publish_inventory i)
    show ?thesis
    proof (cases "i < length (hs_staged s)")
      case True
      let ?p = "hs_staged s ! i" and ?r = "hs_reg s"
      have p: "staged_ok ?p ?r" using ok True by simp
      let ?r' = "snd (publish_staged ?p ?r)"
      have r': "reg_ok [] ?r'"
        by (rule publish_ok) (use ok staged_renews [OF p] in blast)+
      from publish_effect [OF p] have "sys_ok (s\<lparr>hs_reg := ?r'\<rparr>)"
      proof (elim disjE conjE)
        assume "?r' = ?r"
        then show ?thesis using assms(1) by simp
      next
        assume "hr_snapshot ?r' = pb_snapshot ?p" "hr_generation ?r' = hr_generation ?r + 1"
        moreover have "mismatch_fenced (pb_snapshot ?p)" using p by (simp add: staged_ok_def)
        ultimately show ?thesis using ok r' staged_outdated [of ?r ?r'] by (simp add: sys_ok_def)
      qed
      then show ?thesis using True by (simp add: Publish_inventory)
    qed (use assms(1) in \<open>simp add: Publish_inventory\<close>)
  next
    case (Test_result b result mismatch)
    let ?r = "hs_reg s"
    let ?r' = "mark_test_result b result mismatch ?r"
    have r': "reg_ok [] ?r'" by (rule mark_ok) (use ok in blast)
    have "sys_ok (s\<lparr>hs_reg := ?r'\<rparr>)"
    proof (cases "jget b (hr_snapshot ?r)")
      case None
      then show ?thesis using assms(1) by (simp add: mark_test_result_def)
    next
      case (Some old)
      let ?new = "tested_target result mismatch (hr_generation ?r + 1) old"
      have inv: "hr_generation ?r' = hr_generation ?r + 1" "hr_snapshot ?r' = jset b ?new (hr_snapshot ?r)"
        using retire_inventory [of "?r\<lparr>hr_generation := hr_generation ?r + 1, hr_snapshot := jset b ?new (hr_snapshot ?r)\<rparr>" old] Some
        by (simp_all add: mark_test_result_def same_inventory_def Let_def)
      have dist: "distinct (map fst (hr_snapshot ?r))" using ok reg_okD(1) by (auto simp: placed_def)
      have old: "ht_trust_mode old \<noteq> ''mismatch''" "ht_trust_state old = ''mismatch'' \<Longrightarrow> \<not> ht_targetable old"
        using ok jget_in [OF Some] by (auto simp: mismatch_fenced_def)
      have "ht_trust_mode ?new \<noteq> ''mismatch''" using old(1) by (simp add: tested_target_def Let_def)
      then have "mismatch_fenced (hr_snapshot ?r')"
        using ok tested_mismatch [OF old(2,1)] unfolding inv(2) mismatch_fenced_def set_jset [OF dist Some] by blast
      then show ?thesis using ok r' staged_outdated [of ?r ?r'] inv(1) by (simp add: sys_ok_def)
    qed
    then show ?thesis by (simp add: Test_result)
  next
    case (Take_lease b)
    then show ?thesis using kept [OF acquire_ok lease_inventory(1)] ok by simp
  next
    case (Borrow_lease i)
    then show ?thesis using kept [OF borrow_ok lease_inventory(2)] ok by simp
  next
    case (Release_lease i)
    then show ?thesis using kept [OF release_ok release_inventory] ok by simp
  next
    case (Revoke_host b)
    then show ?thesis using kept [OF revoke_ok(2) revoke_frame(3)] ok by simp
  qed
qed

interpretation host_system: step_invariant "inventory_step env" sys_ok
  by unfold_locales (auto elim: inventory_step.cases intro: act_ok)

lemma boot_ok:
  assumes "host_boot env s"
  shows "sys_ok s"
  using assms
proof cases
  case (1 hosts write_fails key_path legacy d files r files')
  let ?r0 = "\<lparr>hr_generation = 0, hr_key_path = key_path, hr_legacy_known_hosts = legacy, hr_default = d,
      hr_snapshot = [], hr_counts = [], hr_events = [], hr_retired = [], hr_flags = [], hr_leases = [], hr_finished = []\<rparr>"
  have r0: "reg_ok [] ?r0"
    by (simp add: reg_ok_def reg_parts known_def published_def draining_def lease_count_def)
  obtain p where p: "stage env write_fails True (Some d) hosts ?r0 files = (Inr p, files')"
      "r = ?r0\<lparr>hr_generation := pb_generation p, hr_snapshot := pb_snapshot p\<rparr>"
    using 1(3) by (auto simp: new_host_registry_def Let_def split: prod.splits sum.splits)
  have mf: "mismatch_fenced (hr_snapshot ?r0)" by (simp add: mismatch_fenced_def)
  note st = stage_ok [OF p(1) 1(2) reg_okD(1) [OF r0] mf]
  have "reg_ok (replaced (pb_snapshot p) ?r0) (?r0\<lparr>hr_generation := pb_generation p, hr_default := d, hr_snapshot := pb_snapshot p\<rparr>)"
    by (rule renewed_ok [OF r0 st(4)]) simp_all
  then have "reg_ok [] r" by (simp add: replaced_def p(2))
  moreover have "mismatch_fenced (pb_snapshot p)" using st(1) by (simp add: staged_ok_def)
  ultimately show ?thesis by (simp add: 1(1) sys_ok_def p(2))
qed

lemma reachable_ok: "host_reachable env s \<Longrightarrow> sys_ok s"
  using host_system.steps_inv boot_ok by (auto simp: host_reachable_def)

section \<open>Revocation\<close>

lemma jset_subset: "set (jset k v kvs) \<subseteq> insert (k, v) (set kvs)"
  by (auto simp: jset_def)

lemma runtime_targets:
  assumes "placed [] r"
  shows "(k, u) \<in> set (all_runtime_targets r) \<Longrightarrow> u \<in> published r \<union> draining r \<and> runtime_key u = k"
    and "t \<in> published r \<union> draining r \<Longrightarrow> jhas (runtime_key t) (all_runtime_targets r)"
proof -
  have sub: "set (fold (\<lambda>p. jset (f p) (snd p)) ps kvs) \<subseteq> set kvs \<union> (\<lambda>p. (f p, snd p)) ` set ps"
    for f and ps :: "(string \<times> host_target) list" and kvs
  proof (induction ps arbitrary: kvs)
    case (Cons q ps)
    then show ?case using jset_subset [of "f q" "snd q" kvs] by fastforce
  qed simp
  have has: "jhas k (fold (\<lambda>p. jset (f p) (snd p)) ps kvs) \<longleftrightarrow> jhas k kvs \<or> k \<in> f ` set ps"
    for f k and ps :: "(string \<times> host_target) list" and kvs
  proof (induction ps arbitrary: kvs)
    case (Cons q ps)
    then show ?case by (auto simp: jhas_iff jget_jset)
  qed simp
  have retired: "runtime_key u = k" if "(k, u) \<in> set (hr_retired r)" for k u using assms that by (auto simp: placed_def)
  show "u \<in> published r \<union> draining r \<and> runtime_key u = k" if "(k, u) \<in> set (all_runtime_targets r)"
  proof -
    have "(k, u) \<in> (\<lambda>p. (runtime_key (snd p), snd p)) ` set (hr_snapshot r) \<union> (\<lambda>p. (fst p, snd p)) ` set (hr_retired r)"
      using that sub [of fst "hr_retired r"] sub [of "\<lambda>p. runtime_key (snd p)" "hr_snapshot r" "[]"]
      unfolding all_runtime_targets_def by auto
    then show ?thesis using retired by (force simp: published_def draining_def)
  qed
  show "jhas (runtime_key t) (all_runtime_targets r)" if "t \<in> published r \<union> draining r"
    unfolding all_runtime_targets_def has using that retired by (force simp: published_def draining_def)
qed

lemma same_key:
  assumes "told_apart pend r" "t \<in> known pend r" "u \<in> known pend r" "runtime_key t = runtime_key u" "ht_targetable t"
  shows "u = t"
  using assms unfolding told_apart_def by metis

lemma affected_iff:
  assumes "reg_ok [] r" "l \<in> set (hr_leases r)" "live_on k l"
  shows "k \<in> set (affected_keys a r) \<longleftrightarrow> ht_alias (hl_target l) = a"
proof -
  note ok = reg_okD [OF assms(1)]
  have t: "hl_target l \<in> published r \<union> draining r" "ht_targetable (hl_target l)" "runtime_key (hl_target l) = k"
    using ok(4) assms(2,3) by (auto simp: leases_held_def live_on_def)
  have one: "u = hl_target l" if "(k, u) \<in> set (all_runtime_targets r)" for u
  proof (rule same_key [OF ok(2)])
    show "hl_target l \<in> known [] r" using t(1) by (auto simp: known_def)
    show "u \<in> known [] r" using runtime_targets(1) [OF ok(1) that] by (auto simp: known_def)
    show "runtime_key (hl_target l) = runtime_key u" using runtime_targets(1) [OF ok(1) that] t(3) by simp
  qed (rule t(2))
  obtain u where u: "(k, u) \<in> set (all_runtime_targets r)"
    using runtime_targets(2) [OF ok(1) t(1)] t(3) by (auto simp: jhas_def)
  have "0 < lease_count k r" by (rule live_count [OF ok(3) assms(2,3)])
  have "k \<in> set (affected_keys a r) \<longleftrightarrow> (\<exists>v. (k, v) \<in> set (all_runtime_targets r) \<and> ht_alias v = a)"
    using \<open>0 < lease_count k r\<close> by (force simp: affected_keys_def)
  then show ?thesis using one u by blast
qed

lemma trips_flags:
  assumes "\<forall>k\<in>set ks. jget k (hr_events r) \<noteq> None" "\<forall>k e. jget k (hr_events r) = Some e \<longrightarrow> e < length (hr_flags r)"
  shows "hr_events (fold trip ks r) = hr_events r \<and> length (hr_flags (fold trip ks r)) = length (hr_flags r)
    \<and> (\<forall>e<length (hr_flags r). hr_flags (fold trip ks r) ! e \<longleftrightarrow> hr_flags r ! e \<or> (\<exists>k\<in>set ks. jget k (hr_events r) = Some e))"
  using assms
proof (induction ks arbitrary: r)
  case (Cons k ks)
  obtain e where e: "jget k (hr_events r) = Some e" using Cons.prems(1) by auto
  then have t: "trip k r = r\<lparr>hr_flags := (hr_flags r)[e := True]\<rparr>" by (simp add: trip_def ensure_event_def)
  have ev: "hr_events (trip k r) = hr_events r" "length (hr_flags (trip k r)) = length (hr_flags r)"
    "hr_flags (trip k r) = (hr_flags r)[e := True]"
    by (simp_all add: t)
  have "\<forall>j\<in>set ks. jget j (hr_events (trip k r)) \<noteq> None"
    "\<forall>j e. jget j (hr_events (trip k r)) = Some e \<longrightarrow> e < length (hr_flags (trip k r))"
    using Cons.prems ev by simp_all
  from Cons.IH [OF this] show ?case
    unfolding fold.simps comp_def ev(1,2) ev(3) using e Cons.prems(2) by (auto simp: nth_list_update)
qed simp

text \<open>A lease borrowed from another one, directly or through other borrowed leases, at some earlier time.\<close>

inductive lent :: "host_env \<Rightarrow> nat \<Rightarrow> nat \<Rightarrow> host_sys \<Rightarrow> bool" for env where
  lent_now: "i < length (hr_leases (hs_reg s)) \<Longrightarrow> lent env i (length (hr_leases (hs_reg s))) (host_act env (Borrow_lease i) s)"
| lent_again: "lent env i j s \<Longrightarrow> lent env i (length (hr_leases (hs_reg s))) (host_act env (Borrow_lease j) s)"
| lent_later: "lent env i j s \<Longrightarrow> inventory_step env s s' \<Longrightarrow> lent env i j s'"

definition keeps_events :: "host_registry \<Rightarrow> host_registry \<Rightarrow> bool" where
  "keeps_events r r' \<longleftrightarrow>
     (\<forall>i<length (hr_leases r). i < length (hr_leases r') \<and> hl_event (hr_leases r' ! i) = hl_event (hr_leases r ! i))"

lemma same_leases_keep: "hr_leases r' = hr_leases r \<Longrightarrow> keeps_events r r'"
  by (simp add: keeps_events_def)

lemma retired_leases [simp]: "hr_leases (finish_retirement k r) = hr_leases r" "hr_leases (retire_target t r) = hr_leases r"
  "hr_leases (release_key k r) = hr_leases r" "hr_leases (trip k r) = hr_leases r"
  by (simp_all add: finish_retirement_def retire_target_def release_key_def trip_def ensure_event_def Let_def split: option.splits)

lemma fold_leases: "(\<And>x r. hr_leases (f x r) = hr_leases r) \<Longrightarrow> hr_leases (fold f xs r) = hr_leases r"
  by (induction xs arbitrary: r) simp_all

lemma published_leases: "hr_leases (snd (publish_staged p r)) = hr_leases r"
proof -
  have "hr_leases (fold (\<lambda>(a, t) r. if jget a ts = Some t then r else retire_target t r) xs r') = hr_leases r'" for ts xs r'
    by (rule fold_leases) (auto split: prod.splits)
  then show ?thesis by (simp add: publish_staged_def Let_def)
qed

lemma act_keeps_events: "keeps_events (hs_reg s) (hs_reg (host_act env act s))"
proof (cases act)
  case (Stage_inventory d hosts write_fails)
  then show ?thesis by (intro same_leases_keep) (auto split: prod.splits sum.splits)
next
  case (Publish_inventory i)
  then show ?thesis by (intro same_leases_keep) (simp add: published_leases)
next
  case (Test_result a result mismatch)
  then show ?thesis by (intro same_leases_keep) (simp add: mark_test_result_def Let_def split: option.splits)
next
  case (Take_lease a)
  show ?thesis
    unfolding Take_lease keeps_events_def
    by (auto simp: acquire_def ensure_event_def Let_def nth_append split: option.splits)
next
  case (Borrow_lease i)
  then show ?thesis by (simp add: keeps_events_def borrow_def nth_append)
next
  case (Release_lease i)
  then show ?thesis by (auto simp: keeps_events_def release_lease_def Let_def nth_list_update)
next
  case (Revoke_host a)
  then show ?thesis by (intro same_leases_keep) (simp add: force_revoke_keys_def Let_def fold_leases)
qed

lemma lent_shares:
  "lent env i j s \<Longrightarrow> i < length (hr_leases (hs_reg s)) \<and> j < length (hr_leases (hs_reg s))
     \<and> hl_event (hr_leases (hs_reg s) ! i) = hl_event (hr_leases (hs_reg s) ! j)"
proof (induction rule: lent.induct)
  case (lent_later i j s s')
  then show ?case using act_keeps_events [of s env] by (auto simp: inventory_step.simps keeps_events_def)
qed (auto simp: borrow_def nth_append)

text \<open>
  C9: A forced revocation reaches every operation under way on the host: every unreleased lease of any of
  its generations, the draining ones included, and every lease borrowed from one of those, reports the
  revocation afterwards, no new lease of that generation is given out, and leases of other hosts, with
  those borrowed from them, are as before. A borrowed lease is not counted: one that outlives the counted
  lease it comes from is outside the statement, as it is outside the registry's account.
\<close>

theorem revocation_reaches_every_lease:
  assumes "host_reachable env s" "i < length (hr_leases (hs_reg s))" "hr_leases (hs_reg s) ! i = l"
    and "live_on (runtime_key (hl_target l)) l"
  shows "let r = hs_reg s; r' = hs_reg (host_act env (Revoke_host a) s)
     in (if ht_alias (hl_target l) = a
         then lease_revoked l r' \<and> (jget a (hr_snapshot r') = Some (hl_target l) \<longrightarrow> fst (acquire a r') = None)
         else lease_revoked l r' = lease_revoked l r)
        \<and> (\<forall>j. lent env i j s \<longrightarrow>
             (if ht_alias (hl_target l) = a then lease_revoked (hr_leases r' ! j) r'
              else lease_revoked (hr_leases r' ! j) r' = lease_revoked (hr_leases r ! j) r))"
proof -
  let ?r = "hs_reg s" and ?k = "runtime_key (hl_target l)"
  let ?ks = "affected_keys a ?r"
  let ?r' = "fold trip ?ks ?r"
  have l: "l \<in> set (hr_leases ?r)" using assms(2,3) by auto
  have act: "hs_reg (host_act env (Revoke_host a) s) = ?r'" by (simp add: force_revoke_keys_def Let_def)
  have rok: "reg_ok [] ?r" using reachable_ok [OF assms(1)] by (simp add: sys_ok_def)
  note ok = reg_okD [OF rok]
  have ev: "jget ?k (hr_events ?r) = Some (hl_event l)" using ok(4) l assms(4) by (auto simp: leases_held_def)
  have lt: "hl_event l < length (hr_flags ?r)" "\<forall>k e. jget k (hr_events ?r) = Some e \<longrightarrow> e < length (hr_flags ?r)"
    using ok(5) l by (auto simp: fenced_def)
  have has: "jget k (hr_events ?r) \<noteq> None" if k: "k \<in> set ?ks" for k
  proof -
    obtain m where "m \<in> set (hr_leases ?r)" "live_on k m"
      using affected_live [OF k] count_of [OF ok(3), of k] by (auto simp: filter_empty_conv)
    then show ?thesis using ok(4) by (auto simp: leases_held_def)
  qed
  then have fl: "hr_events ?r' = hr_events ?r" "hr_flags ?r' ! hl_event l
      \<longleftrightarrow> hr_flags ?r ! hl_event l \<or> (\<exists>k\<in>set ?ks. jget k (hr_events ?r) = Some (hl_event l))"
    using trips_flags [OF _ lt(2), of ?ks] lt(1) by blast+
  have hit: "(\<exists>k\<in>set ?ks. jget k (hr_events ?r) = Some (hl_event l)) \<longleftrightarrow> ht_alias (hl_target l) = a"
  proof -
    have "k = ?k" if "jget k (hr_events ?r) = Some (hl_event l)" for k using ok(5) ev that by (auto simp: fenced_def)
    then show ?thesis using affected_iff [OF rok l assms(4), of a] ev by blast
  qed
  have shared: "lease_revoked (hr_leases ?r' ! j) ?r' = lease_revoked l ?r'" "lease_revoked (hr_leases ?r ! j) ?r = lease_revoked l ?r"
    if "lent env i j s" for j
    using lent_shares [OF that] assms(3) by (simp_all add: lease_revoked_def fold_leases)
  show ?thesis
  proof (cases "ht_alias (hl_target l) = a")
    case True
    then have f: "lease_revoked l ?r'" unfolding lease_revoked_def using fl(2) hit by blast
    then have "key_revoked ?k ?r'" by (simp add: key_revoked_def lease_revoked_def fl(1) ev)
    then have "fst (acquire a ?r') = None" if "jget a (hr_snapshot ?r') = Some (hl_target l)"
      using that by (simp add: acquire_def get_target_def is_targetable_def)
    then show ?thesis using f shared unfolding act Let_def if_P [OF True] by blast
  next
    case False
    then have "lease_revoked l ?r' = lease_revoked l ?r" unfolding lease_revoked_def using fl(2) hit by blast
    then show ?thesis using shared unfolding act Let_def if_not_P [OF False] by blast
  qed
qed

text \<open>
  C31: A revocation fences the operations under way and nothing else: once the last lease of the published
  generation of an admissible host is released, the host can be leased again.
\<close>

theorem idle_host_can_be_leased:
  assumes "host_reachable env s" "jget a (hr_snapshot (hs_reg s)) = Some t" "ht_targetable t"
    and "list_all (\<lambda>l. \<not> live_on (runtime_key t) l) (hr_leases (hs_reg s))"
  shows "\<exists>i r'. acquire a (hs_reg s) = (Some i, r') \<and> hl_target (hr_leases r' ! i) = t"
proof -
  let ?r = "hs_reg s" and ?k = "runtime_key t"
  have rok: "reg_ok [] ?r" using reachable_ok [OF assms(1)] by (simp add: sys_ok_def)
  note ok = reg_okD [OF rok]
  have none: "lease_count ?k ?r = 0"
    using assms(4) by (simp add: count_of [OF ok(3)] filter_empty_conv list_all_iff)
  have free: "\<not> hr_flags ?r ! e" if "jget ?k (hr_events ?r) = Some e" for e
  proof
    assume "hr_flags ?r ! e"
    then have "0 < lease_count ?k ?r" using ok(5) that unfolding fenced_def by blast
    then show False using none by simp
  qed
  then have get: "get_target True a ?r = Some t"
    using assms(2,3) by (auto simp: get_target_def is_targetable_def key_revoked_def split: option.split)
  obtain e r1 where e: "ensure_event ?k ?r = (e, r1)" by fastforce
  note f = ensure_event_facts [OF e]
  have "\<not> hr_flags r1 ! e" using f(7) free by auto
  then show ?thesis using get e f(2) by (simp add: acquire_def Let_def)
qed

section \<open>Retirement\<close>

text \<open>
  C30: A replaced generation drains and is retired once: every draining generation has an operation under
  way, and a generation handed to the retirement callback is handed over once, is not published and has
  no operation under way.
\<close>

theorem generations_retired_once:
  assumes "host_reachable env s"
  shows "distinct (hr_finished (hs_reg s))
    \<and> (\<forall>t\<in>draining (hs_reg s). \<exists>l\<in>set (hr_leases (hs_reg s)). live_on (runtime_key t) l \<and> hl_target l = t)
    \<and> (\<forall>t\<in>set (hr_finished (hs_reg s)). t \<notin> published (hs_reg s) \<and> t \<notin> draining (hs_reg s)
         \<and> list_all (\<lambda>l. \<not> live_on (runtime_key t) l) (hr_leases (hs_reg s)))"
proof -
  let ?r = "hs_reg s"
  have rok: "reg_ok [] ?r" using reachable_ok [OF assms] by (simp add: sys_ok_def)
  note ok = reg_okD [OF rok]
  have same: "hl_target l = t" if "l \<in> set (hr_leases ?r)" "live_on (runtime_key t) l" "t \<in> known [] ?r" for l t
  proof (rule sym, rule same_key [OF ok(2) _ that(3)])
    have "hl_target l \<in> published ?r \<union> draining ?r \<and> ht_targetable (hl_target l)"
      using ok(4) that(1,2) by (auto simp: leases_held_def)
    then show "hl_target l \<in> known [] ?r" "ht_targetable (hl_target l)" by (auto simp: known_def)
    show "runtime_key (hl_target l) = runtime_key t" using that(2) by (simp add: live_on_def)
  qed
  have "\<exists>l\<in>set (hr_leases ?r). live_on (runtime_key t) l \<and> hl_target l = t" if t: "t \<in> draining ?r" for t
  proof -
    obtain k where k: "(k, t) \<in> set (hr_retired ?r)" using t by (auto simp: draining_def)
    then have "runtime_key t = k" using ok(1) by (auto simp: placed_def)
    then have "0 < lease_count (runtime_key t) ?r" using drained_count [OF ok(3) k] by simp
    then obtain l where "l \<in> set (hr_leases ?r)" "live_on (runtime_key t) l"
      using count_of [OF ok(3), of "runtime_key t"] by (auto simp: filter_empty_conv)
    then show ?thesis using same t by (auto simp: known_def)
  qed
  moreover have "t \<notin> published ?r \<and> t \<notin> draining ?r \<and> list_all (\<lambda>l. \<not> live_on (runtime_key t) l) (hr_leases ?r)"
    if t: "t \<in> set (hr_finished ?r)" for t
  proof -
    have apart: "t \<notin> published ?r" "t \<notin> draining ?r" using ok(1) t by (auto simp: placed_def)
    have "\<not> live_on (runtime_key t) l" if l: "l \<in> set (hr_leases ?r)" for l
    proof
      assume live: "live_on (runtime_key t) l"
      then have "hl_target l = t" using same [OF l live] t by (simp add: known_def)
      then show False using ok(4) l live apart by (auto simp: leases_held_def)
    qed
    then show ?thesis using apart by (simp add: list_all_iff)
  qed
  moreover have "distinct (hr_finished ?r)" using ok(1) by (simp add: placed_def)
  ultimately show ?thesis by blast
qed

text \<open>A generation that has been replaced stays so.\<close>

definition gone :: "host_registry \<Rightarrow> host_target set" where
  "gone r = draining r \<union> set (hr_finished r)"

lemma retires_gone: "reg_ok (ts @ pend) r \<Longrightarrow> gone r \<union> set ts \<subseteq> gone (fold retire_target ts r)"
proof (induction ts arbitrary: r)
  case (Cons t ts)
  then have ok: "reg_ok (t # ts @ pend) r" by simp
  have "gone r \<union> {t} \<subseteq> gone (retire_target t r)"
    by (rule retire_cases [OF ok]) (auto simp: gone_def draining_def)
  moreover have "gone (retire_target t r) \<union> set ts \<subseteq> gone (fold retire_target ts (retire_target t r))"
    by (rule Cons.IH [OF retire_ok [OF ok]])
  ultimately show ?case by auto
qed simp

lemma places_gone: "same_places r r' \<Longrightarrow> gone r' = gone r"
  by (simp add: gone_def same_places_def draining_def)

lemma release_gone:
  assumes "distinct (map fst (hr_retired r))"
  shows "gone r \<subseteq> gone (release_lease i r)"
proof -
  have fin: "gone r' \<subseteq> gone (finish_retirement k r')" if d: "distinct (map fst (hr_retired r'))" for k r'
  proof
    fix t assume t: "t \<in> gone r'"
    show "t \<in> gone (finish_retirement k r')"
    proof (cases "\<exists>k'. k' \<noteq> k \<and> (k', t) \<in> set (hr_retired r') \<or> t \<in> set (hr_finished r')")
      case True
      then show ?thesis by (force simp: gone_def draining_def finish_simps set_jdel)
    next
      case False
      then have "(k, t) \<in> set (hr_retired r')" using t by (force simp: gone_def draining_def)
      then have "jget k (hr_retired r') = Some t" by (rule in_jget [OF d])
      then show ?thesis by (simp add: gone_def finish_simps)
    qed
  qed
  have "gone r' \<subseteq> gone (release_key k r')" if d: "distinct (map fst (hr_retired r'))" for k r'
  proof (cases "lease_count k r' \<le> 1 \<and> jhas k (hr_retired r')")
    case True
    have "gone r' = gone (r'\<lparr>hr_counts := jdel k (hr_counts r')\<rparr>)" by (simp add: gone_def draining_def)
    also have "\<dots> \<subseteq> gone (finish_retirement k (r'\<lparr>hr_counts := jdel k (hr_counts r')\<rparr>))" by (rule fin) (use d in simp)
    finally show ?thesis using True by (simp add: release_key_def Let_def)
  next
    case False
    then show ?thesis by (auto simp: release_key_def gone_def draining_def Let_def)
  qed
  from this [of "r\<lparr>hr_leases := ls\<rparr>" for ls] show ?thesis
    using assms by (auto simp: release_lease_def Let_def gone_def draining_def)
qed

lemma mark_gone:
  assumes "reg_ok [] r"
  shows "gone r \<subseteq> gone (mark_test_result a result mismatch r)"
proof (cases rule: mark_cases [of a r result mismatch])
  case (2 old)
  let ?r = "r\<lparr>hr_generation := hr_generation r + 1, hr_default := hr_default r,
      hr_snapshot := jset a (tested_target result mismatch (hr_generation r + 1) old) (hr_snapshot r)\<rparr>"
  have "reg_ok ([old] @ []) ?r" using tested_pending [OF assms 2(1)] by simp
  from retires_gone [OF this] show ?thesis unfolding 2(2) by (simp add: gone_def draining_def)
qed simp

lemma act_gone:
  assumes "sys_ok s"
  shows "gone (hs_reg s) \<subseteq> gone (hs_reg (host_act env a s))"
proof -
  have rok: "reg_ok [] (hs_reg s)" using assms by (simp add: sys_ok_def)
  have dist: "distinct (map fst (hr_retired (hs_reg s)))" using reg_okD(1) [OF rok] by (simp add: placed_def)
  show ?thesis
  proof (cases a)
    case (Stage_inventory d hosts write_fails)
    then show ?thesis by (auto split: prod.splits sum.splits)
  next
    case (Publish_inventory i)
    show ?thesis
    proof (cases "i < length (hs_staged s)")
      case True
      let ?p = "hs_staged s ! i" and ?r = "hs_reg s"
      have p: "staged_ok ?p ?r" using assms True by (simp add: sys_ok_def)
      have "gone ?r \<subseteq> gone (snd (publish_staged ?p ?r))"
      proof (cases rule: publish_cases [of ?p ?r])
        case 2
        have "reg_ok (replaced (pb_snapshot ?p) ?r @ []) (published_as ?p ?r)"
          unfolding published_as_def append_Nil2 by (rule renewed_ok [OF rok staged_renews [OF p 2(2,3)]])
        from retires_gone [OF this] show ?thesis unfolding 2(4) by (simp add: published_as_def gone_def draining_def)
      qed simp
      then show ?thesis using True by (simp add: Publish_inventory)
    qed (simp add: Publish_inventory)
  next
    case (Test_result b result mismatch)
    then show ?thesis using mark_gone [OF rok] by simp
  next
    case (Take_lease b)
    then show ?thesis using places_gone [OF acquire_places [of "hs_reg s" b]] by simp
  next
    case (Borrow_lease i)
    then show ?thesis by (simp add: borrow_def gone_def draining_def)
  next
    case (Release_lease i)
    then show ?thesis using release_gone [OF dist] by simp
  next
    case (Revoke_host b)
    then show ?thesis using places_gone [OF revoke_frame(1) [OF rok, of b]] by simp
  qed
qed

lemma gone_run: "(inventory_step env)\<^sup>*\<^sup>* s s' \<Longrightarrow> sys_ok s \<Longrightarrow> gone (hs_reg s) \<subseteq> gone (hs_reg s')"
proof (induction rule: rtranclp_induct)
  case (step u v)
  then have "sys_ok u" using host_system.steps_inv by blast
  then have "gone (hs_reg u) \<subseteq> gone (hs_reg v)" using step.hyps(2) act_gone by (auto elim!: inventory_step.cases)
  then show ?case using step by blast
qed simp

lemma acquired_target:
  assumes "acquire a r = (Some i, r')"
  shows "jget a (hr_snapshot r) = Some (hl_target (hr_leases r' ! i)) \<and> ht_targetable (hl_target (hr_leases r' ! i))
    \<and> \<not> key_revoked (runtime_key (hl_target (hr_leases r' ! i))) r"
proof (cases rule: acquire_cases [of a r])
  case (3 t e r1)
  then have "hl_target (hr_leases r' ! i) = t" using assms by auto
  then show ?thesis using 3(1) by (auto simp: get_target_def is_targetable_def split: option.splits if_splits)
qed (use assms in auto)

lemma replaced_never_leased:
  assumes "host_reachable env s" "t \<in> gone (hs_reg s)" "(inventory_step env)\<^sup>*\<^sup>* s s'"
    and "acquire a (hs_reg s') = (Some i, r')"
  shows "runtime_key (hl_target (hr_leases r' ! i)) \<noteq> runtime_key t"
proof
  assume key: "runtime_key (hl_target (hr_leases r' ! i)) = runtime_key t"
  let ?u = "hl_target (hr_leases r' ! i)"
  have "sys_ok s'" using reachable_ok [OF assms(1)] host_system.steps_inv [OF assms(3)] by blast
  then have ok: "placed [] (hs_reg s')" "told_apart [] (hs_reg s')" by (auto simp: sys_ok_def dest: reg_okD)
  have t: "t \<in> gone (hs_reg s')" using gone_run [OF assms(3) reachable_ok [OF assms(1)]] assms(2) by blast
  have u: "?u \<in> published (hs_reg s')" "ht_targetable ?u"
    using acquired_target [OF assms(4)] by (auto simp: published_def dest!: jget_in) force
  have "t = ?u" by (rule same_key [OF ok(2) _ _ key u(2)]) (use t u in \<open>auto simp: known_def gone_def\<close>)
  then show False using ok(1) t u(1) by (auto simp: placed_def gone_def)
qed

text \<open>
  A replaced generation is never leased again: once a host definition has been replaced or removed, no
  later lease, whatever is published, tested, released and revoked in between, is on that generation.
\<close>

theorem replaced_generation_not_leased:
  assumes "host_reachable env s" "t \<in> gone (hs_reg s)" "(inventory_step env)\<^sup>*\<^sup>* s s'"
    and "acquire a (hs_reg s') = (Some i, r')"
  shows "runtime_key (hl_target (hr_leases r' ! i)) \<noteq> runtime_key t"
  by (rule replaced_never_leased [OF assms])

section \<open>Host key mismatches\<close>

lemma same_identity_tested: "same_identity old (tested_target result mismatch g old)"
  by (simp add: same_identity_def tested_target_def Let_def)

text \<open>
  C16: A host whose key did not match is not leased, and only three things end that: a test of that host that
  passes, a published inventory in which its identity (address, user, port, system, trust and keys) is
  another one, and one that no longer has it.
\<close>

theorem key_mismatch_blocks_host:
  assumes "host_reachable env s" "jget a (hr_snapshot (hs_reg s)) = Some u" "ht_trust_state u = ''mismatch''" "action_ok act"
  shows "fst (acquire a (hs_reg s)) = None
    \<and> (case jget a (hr_snapshot (hs_reg (host_act env act s))) of
         None \<Rightarrow> \<exists>i. act = Publish_inventory i
       | Some v \<Rightarrow>
           if ht_trust_state v = ''mismatch'' then \<not> ht_targetable v
           else \<not> same_identity u v \<or> (\<exists>result. act = Test_result a result False \<and> fget ''ok'' result = JBool True))"
proof
  have ok: "sys_ok s" by (rule reachable_ok [OF assms(1)])
  have fence: "\<not> ht_targetable v" if "sys_ok s'" "jget b (hr_snapshot (hs_reg s')) = Some v" "ht_trust_state v = ''mismatch''" for s' b v
    using that jget_in [OF that(2)] by (auto simp: sys_ok_def mismatch_fenced_def)
  have blocked: "\<not> ht_targetable u" by (rule fence [OF ok assms(2,3)])
  then show "fst (acquire a (hs_reg s)) = None" using assms(2) by (simp add: acquire_def get_target_def is_targetable_def)
  let ?s' = "host_act env act s"
  have ok': "sys_ok ?s'" by (rule act_ok [OF ok assms(4)])
  define kept where "kept = (case jget a (hr_snapshot (hs_reg ?s')) of
         None \<Rightarrow> \<exists>i. act = Publish_inventory i
       | Some v \<Rightarrow>
           if ht_trust_state v = ''mismatch'' then \<not> ht_targetable v
           else \<not> same_identity u v \<or> (\<exists>result. act = Test_result a result False \<and> fget ''ok'' result = JBool True))"
  have same: kept if "same_inventory (hs_reg s) (hs_reg ?s')"
    using that assms(2,3) blocked by (simp add: kept_def same_inventory_def)
  have rok: "reg_ok [] (hs_reg s)" using ok by (simp add: sys_ok_def)
  have kept
  proof (cases act)
    case (Stage_inventory d hosts write_fails)
    then show ?thesis using same by (auto simp: same_inventory_def split: prod.splits sum.splits)
  next
    case (Publish_inventory i)
    show ?thesis
    proof (cases "i < length (hs_staged s)")
      case True
      let ?p = "hs_staged s ! i" and ?r = "hs_reg s"
      have p: "staged_ok ?p ?r" using ok True by (simp add: sys_ok_def)
      from publish_effect [OF p] show ?thesis
      proof (elim disjE conjE)
        assume "snd (publish_staged ?p ?r) = ?r"
        then show ?thesis using same True by (simp add: Publish_inventory same_inventory_def)
      next
        assume e: "hr_generation ?r = pb_expected ?p" "hr_snapshot (snd (publish_staged ?p ?r)) = pb_snapshot ?p"
        have "sticky (pb_snapshot ?p) ?r" using p e(1) by (simp add: staged_ok_def)
        then have "same_identity u v \<Longrightarrow> ht_trust_state v = ''mismatch'' \<and> \<not> ht_targetable v"
          if "jget a (pb_snapshot ?p) = Some v" for v using assms(2,3) that unfolding sticky_def by blast
        moreover have "ht_trust_state v = ''mismatch'' \<Longrightarrow> \<not> ht_targetable v" if "jget a (pb_snapshot ?p) = Some v" for v
          using fence [OF ok', of a v] that e(2) True by (simp add: Publish_inventory)
        ultimately show ?thesis using e(2) True by (auto simp: kept_def Publish_inventory split: option.split)
      qed
    qed (use same in \<open>simp add: Publish_inventory same_inventory_def\<close>)
  next
    case (Test_result b result mismatch)
    show ?thesis
    proof (cases rule: mark_cases [of b "hs_reg s" result mismatch])
      case 1
      then show ?thesis using same by (simp add: Test_result same_inventory_def)
    next
      case (2 old)
      let ?new = "tested_target result mismatch (hr_generation (hs_reg s) + 1) old"
      have snap: "hr_snapshot (hs_reg ?s') = jset b ?new (hr_snapshot (hs_reg s))"
        using retire_inventory [of "(hs_reg s)\<lparr>hr_generation := hr_generation (hs_reg s) + 1, hr_default := hr_default (hs_reg s),
            hr_snapshot := jset b ?new (hr_snapshot (hs_reg s))\<rparr>" old] 2(2)
        by (simp add: Test_result same_inventory_def)
      show ?thesis
      proof (cases "a = b")
        case True
        then have old: "old = u" using 2(1) assms(2) by simp
        have "jget a (hr_snapshot (hs_reg ?s')) = Some ?new" unfolding snap by (simp add: True jget_jset)
        moreover have "ht_trust_state ?new = ''mismatch'' \<Longrightarrow> \<not> ht_targetable ?new" by (rule fence [OF ok' calculation])
        moreover have "\<not> mismatch \<and> fget ''ok'' result = JBool True" if "ht_trust_state ?new \<noteq> ''mismatch''"
          using that assms(3) by (simp add: tested_target_def old Let_def split: if_splits)
        ultimately show ?thesis using True by (auto simp: kept_def Test_result)
      next
        case False
        then have "jget a (hr_snapshot (hs_reg ?s')) = Some u" unfolding snap using assms(2) by (simp add: jget_jset)
        then show ?thesis using assms(3) blocked by (simp add: kept_def)
      qed
    qed
  next
    case (Take_lease b)
    then show ?thesis using same lease_inventory(1) by simp
  next
    case (Borrow_lease i)
    then show ?thesis using same lease_inventory(2) by simp
  next
    case (Release_lease i)
    then show ?thesis using same release_inventory by simp
  next
    case (Revoke_host b)
    then show ?thesis using same revoke_frame(3) [OF rok] by simp
  qed
  then show "case jget a (hr_snapshot (hs_reg ?s')) of
         None \<Rightarrow> \<exists>i. act = Publish_inventory i
       | Some v \<Rightarrow>
           if ht_trust_state v = ''mismatch'' then \<not> ht_targetable v
           else \<not> same_identity u v \<or> (\<exists>result. act = Test_result a result False \<and> fget ''ok'' result = JBool True)"
    by (simp add: kept_def)
qed

section \<open>Concrete runs\<close>

definition ex_host_env :: host_env where
  "ex_host_env = \<lparr>he_uuid = Some, he_uuid_of_alias = (\<lambda>a. a), he_b64 = (\<lambda>k. Some k), he_sha256 = (\<lambda>t. take 8 t),
     he_trust_dir = ''trust''\<rparr>"

definition ex_host :: "string \<Rightarrow> string \<Rightarrow> tool_host" where
  "ex_host address host_id = \<lparr>th_address = address, th_user = ''root'', th_os = ''linux'', th_port = 22, th_description = [],
     th_enabled = True, th_host_id = host_id, th_trust_mode = ''legacy'', th_host_keys = []\<rparr>"

definition ex_booted :: "(string \<times> tool_host) list \<Rightarrow> host_sys" where
  "ex_booted hosts =
     (case new_host_registry ex_host_env (\<lambda>path. False) ''key'' ''known'' [] hosts [] of
        (Inr r, files) \<Rightarrow> \<lparr>hs_reg = r, hs_staged = [], hs_files = files\<rparr>
      | (Inl e, files) \<Rightarrow> undefined)"

abbreviation ex_host_run :: "(string \<times> tool_host) list \<Rightarrow> host_action list \<Rightarrow> host_sys" where
  "ex_host_run hosts acts \<equiv> fold (host_act ex_host_env) acts (ex_booted hosts)"

lemma run_steps: "list_all action_ok acts \<Longrightarrow> (inventory_step env)\<^sup>*\<^sup>* s (fold (host_act env) acts s)"
proof (induction acts arbitrary: s)
  case (Cons a acts)
  then have "inventory_step env s (host_act env a s)" by (simp add: inventory_step.intros)
  then show ?case using Cons by (simp add: converse_rtranclp_into_rtranclp)
qed simp

lemma ex_reachable:
  assumes "inventory_ok hosts" "isl (fst (new_host_registry ex_host_env (\<lambda>path. False) ''key'' ''known'' [] hosts [])) = False"
    and "list_all action_ok acts"
  shows "host_reachable ex_host_env (ex_host_run hosts acts)"
proof -
  obtain r files where r: "new_host_registry ex_host_env (\<lambda>path. False) ''key'' ''known'' [] hosts [] = (Inr r, files)"
    using assms(2) by (cases "new_host_registry ex_host_env (\<lambda>path. False) ''key'' ''known'' [] hosts []"; cases "fst (new_host_registry ex_host_env (\<lambda>path. False) ''key'' ''known'' [] hosts [])") auto
  have "host_boot ex_host_env (ex_booted hosts)"
    unfolding ex_booted_def r prod.case sum.case by (rule host_boot.intros [OF assms(1) r])
  then show ?thesis using run_steps [OF assms(3)] by (auto simp: host_reachable_def)
qed

definition ex_inventory :: "(string \<times> tool_host) list" where
  "ex_inventory = [(''web'', ex_host ''h1'' ''w''), (''db'', ex_host ''h2'' ''d'')]"

definition ex_moved :: "(string \<times> tool_host) list" where
  "ex_moved = [(''web'', ex_host ''h3'' ''w''), (''db'', ex_host ''h2'' ''d'')]"

lemma ex_inventory_reachable:
  "list_all action_ok acts \<Longrightarrow> host_reachable ex_host_env (ex_host_run ex_inventory acts)"
  by (rule ex_reachable) (code_simp, code_simp)

theorem revocation_reaches_every_lease_witness:
  "let s = ex_host_run ex_inventory [Take_lease ''web'', Take_lease ''db'', Borrow_lease 0];
       r' = hs_reg (host_act ex_host_env (Revoke_host ''web'') s)
   in lease_revoked (hr_leases (hs_reg s) ! 0) r' \<and> lease_revoked (hr_leases (hs_reg s) ! 1) r' = False
      \<and> lease_revoked (hr_leases r' ! 2) r'"
proof -
  let ?s2 = "ex_host_run ex_inventory [Take_lease ''web'', Take_lease ''db'']"
  let ?s = "ex_host_run ex_inventory [Take_lease ''web'', Take_lease ''db'', Borrow_lease 0]"
  let ?r = "hs_reg ?s"
  have reach: "host_reachable ex_host_env ?s" by (rule ex_inventory_reachable) simp
  have l: "length (hr_leases ?r) = 3" "live_on (runtime_key (hl_target (hr_leases ?r ! 0))) (hr_leases ?r ! 0)"
    "live_on (runtime_key (hl_target (hr_leases ?r ! 1))) (hr_leases ?r ! 1)"
    "ht_alias (hl_target (hr_leases ?r ! 0)) = ''web''" "ht_alias (hl_target (hr_leases ?r ! 1)) = ''db''"
    "lease_revoked (hr_leases ?r ! 1) ?r = False"
    by code_simp+
  have lt: "0 < length (hr_leases ?r)" "1 < length (hr_leases ?r)" unfolding l(1) by simp_all
  have two: "length (hr_leases (hs_reg ?s2)) = 2" by code_simp
  have "0 < length (hr_leases (hs_reg ?s2))" unfolding two by simp
  then have "lent ex_host_env 0 (length (hr_leases (hs_reg ?s2))) (host_act ex_host_env (Borrow_lease 0) ?s2)" by (rule lent_now)
  then have lent: "lent ex_host_env 0 2 ?s" unfolding two by simp
  show ?thesis
    using revocation_reaches_every_lease [OF reach lt(1) refl l(2), of "''web''"]
      revocation_reaches_every_lease [OF reach lt(2) refl l(3), of "''web''"] l(4-6) lent
    by (simp add: Let_def)
qed

theorem idle_host_can_be_leased_witness:
  "\<exists>i r'. acquire ''web'' (hs_reg (ex_host_run ex_inventory [Take_lease ''web'', Revoke_host ''web'', Release_lease 0])) = (Some i, r')"
proof -
  let ?s = "ex_host_run ex_inventory [Take_lease ''web'', Revoke_host ''web'', Release_lease 0]"
  have reach: "host_reachable ex_host_env ?s" by (rule ex_inventory_reachable) simp
  let ?t = "snd (hd (hr_snapshot (hs_reg ?s)))"
  have t: "jget ''web'' (hr_snapshot (hs_reg ?s)) = Some ?t" "ht_targetable ?t"
    "list_all (\<lambda>l. \<not> live_on (runtime_key ?t) l) (hr_leases (hs_reg ?s))"
    by code_simp+
  from idle_host_can_be_leased [OF reach t] show ?thesis by blast
qed

theorem generations_retired_once_witness:
  "distinct (hr_finished (hs_reg (ex_host_run ex_inventory [Take_lease ''db'', Stage_inventory None ex_moved (\<lambda>path. False), Publish_inventory 0])))
   \<and> map ht_address (hr_finished (hs_reg (ex_host_run ex_inventory [Take_lease ''db'', Stage_inventory None ex_moved (\<lambda>path. False), Publish_inventory 0])))
     = [''h1'']"
proof
  let ?s = "ex_host_run ex_inventory [Take_lease ''db'', Stage_inventory None ex_moved (\<lambda>path. False), Publish_inventory 0]"
  have "inventory_ok ex_moved" by code_simp
  then have "host_reachable ex_host_env ?s" by (intro ex_inventory_reachable) simp
  from generations_retired_once [OF this] show "distinct (hr_finished (hs_reg ?s))" by blast
  show "map ht_address (hr_finished (hs_reg ?s)) = [''h1'']" by code_simp
qed

theorem replaced_generation_not_leased_witness:
  "runtime_key (hl_target (hr_leases (snd (acquire ''web'' (hs_reg
      (ex_host_run ex_inventory [Stage_inventory None ex_moved (\<lambda>path. False), Publish_inventory 0])))) ! 0)) \<noteq> ''w:1''"
proof -
  let ?s = "ex_host_run ex_inventory [Stage_inventory None ex_moved (\<lambda>path. False), Publish_inventory 0]"
  let ?a = "acquire ''web'' (hs_reg ?s)"
  have "inventory_ok ex_moved" by code_simp
  then have reach: "host_reachable ex_host_env ?s" by (intro ex_inventory_reachable) simp
  have g: "length (hr_finished (hs_reg ?s)) = 1" "runtime_key (hr_finished (hs_reg ?s) ! 0) = ''w:1''" "fst ?a = Some 0" by code_simp+
  have a: "?a = (Some 0, snd ?a)" using g(3) by (simp only: prod_eq_iff) simp
  have "hr_finished (hs_reg ?s) ! 0 \<in> gone (hs_reg ?s)" unfolding gone_def by (rule UnI2, rule nth_mem) (simp only: g(1))
  from replaced_generation_not_leased [OF reach this rtranclp.rtrancl_refl a] show ?thesis unfolding g(2) .
qed

theorem key_mismatch_blocks_host_witness:
  "fst (acquire ''web'' (hs_reg (ex_host_run ex_inventory [Test_result ''web'' [] True]))) = None
   \<and> fst (acquire ''web'' (hs_reg (ex_host_run ex_inventory
       [Test_result ''web'' [] True, Test_result ''web'' [(''ok'', JBool True)] False]))) = Some 0"
proof
  let ?s = "ex_host_run ex_inventory [Test_result ''web'' [] True]"
  have reach: "host_reachable ex_host_env ?s" by (rule ex_inventory_reachable) simp
  let ?u = "snd (hd (hr_snapshot (hs_reg ?s)))"
  have u: "jget ''web'' (hr_snapshot (hs_reg ?s)) = Some ?u" "ht_trust_state ?u = ''mismatch''" by code_simp+
  show "fst (acquire ''web'' (hs_reg ?s)) = None"
    using key_mismatch_blocks_host [OF reach u, of "Take_lease ''db''"] by (simp only: action_ok.simps)
  show "fst (acquire ''web'' (hs_reg (ex_host_run ex_inventory
      [Test_result ''web'' [] True, Test_result ''web'' [(''ok'', JBool True)] False]))) = Some 0"
    by code_simp
qed

text \<open>
  Two hosts that share an identity at start-up are fenced as a collision; a mismatching test followed by a
  passing one lifts the fence of either, although the collision is still there.
\<close>

lemma collision_fence_lifted:
  "let hosts = [(''web'', ex_host ''h1'' ''x''), (''db'', ex_host ''h2'' ''x'')]
   in active_aliases (hs_reg (ex_host_run hosts [])) = []
      \<and> active_aliases (hs_reg (ex_host_run hosts [Test_result ''web'' [] True, Test_result ''web'' [(''ok'', JBool True)] False])) = [''web'']
      \<and> map (ht_host_id \<circ> snd) (hr_snapshot (hs_reg (ex_host_run hosts
          [Test_result ''web'' [] True, Test_result ''web'' [(''ok'', JBool True)] False]))) = [''x'', ''x'']"
  by code_simp

end
