(* ===== verification/Output_Access_Props.thy ===== *)
theory Output_Access_Props
  imports Output_Access Output_Page_Props Host_Registry_Props
begin

text \<open>
  Authorization of retained output is the live policy and nothing else: what is asked at a read is the
  present state of the tool scope, the tiers, the host policy and the registry. Evidence gathered on a
  host definition that has been replaced stays hidden.
\<close>

section \<open>A lease taken and given back\<close>

text \<open>Two registries that answer every later question alike.\<close>

definition same_view :: "host_registry \<Rightarrow> host_registry \<Rightarrow> bool" where
  "same_view r r' \<longleftrightarrow>
     same_places r r' \<and> (\<forall>k. lease_count k r' = lease_count k r) \<and> (\<forall>k. key_revoked k r' = key_revoked k r)"

lemma same_view_refl [simp]: "same_view r r"
  by (simp add: same_view_def same_places_def)

lemma same_view_trans: "same_view r r' \<Longrightarrow> same_view r' r'' \<Longrightarrow> same_view r r''"
  by (simp add: same_view_def same_places_def)

lemma view_target: "same_view r r' \<Longrightarrow> get_target only a r' = get_target only a r"
  by (cases "jget a (hr_snapshot r)") (simp_all add: same_view_def same_places_def get_target_def is_targetable_def)

lemma refused_unchanged:
  assumes "acquire a r = (None, r')"
  shows "r' = r" "get_target True a r = None"
proof -
  show "get_target True a r = None"
  proof (rule ccontr)
    assume "get_target True a r \<noteq> None"
    then obtain t where t: "get_target True a r = Some t" by blast
    obtain e r1 where e: "ensure_event (runtime_key t) r = (e, r1)" by fastforce
    have "\<not> key_revoked (runtime_key t) r"
      using t by (auto simp: get_target_def is_targetable_def split: option.splits if_splits)
    then have "\<not> hr_flags r1 ! e" using ensure_event_facts(7) [OF e] by (auto simp: key_revoked_def)
    then show False using assms t e by (simp add: acquire_def Let_def)
  qed
  then show "r' = r" using assms by (simp add: acquire_def)
qed

lemma lent_back:
  assumes "reg_ok [] r" "acquire a r = (Some i, r')"
  shows "same_view r (release_lease i r')" "get_target True a r = Some (hl_target (hr_leases r' ! i))"
    "\<not> lease_revoked (hr_leases r' ! i) r'"
proof -
  obtain t e r1 where c: "get_target True a r = Some t" "ensure_event (runtime_key t) r = (e, r1)" "\<not> hr_flags r1 ! e"
      "i = length (hr_leases r)"
    and r': "r' = r1\<lparr>hr_counts := jset (runtime_key t) (lease_count (runtime_key t) r + 1) (hr_counts r1),
            hr_leases := hr_leases r @ [\<lparr>hl_target = t, hl_event = e, hl_managed = True, hl_released = False\<rparr>]\<rparr>"
    by (rule acquire_cases [of a r]) (use assms(2) in auto)
  let ?k = "runtime_key t" and ?r = "release_lease i r'"
  let ?ls = "(hr_leases r')[i := (hr_leases r' ! i)\<lparr>hl_released := True\<rparr>]"
  note f = ensure_event_facts [OF c(2)]
  have l: "hr_leases r' ! i = \<lparr>hl_target = t, hl_event = e, hl_managed = True, hl_released = False\<rparr>" "i < length (hr_leases r')"
    by (simp_all add: r' c(4))
  show "get_target True a r = Some (hl_target (hr_leases r' ! i))" by (simp add: l c(1))
  show "\<not> lease_revoked (hr_leases r' ! i) r'" using c(3) by (simp add: lease_revoked_def l) (simp add: r')
  have rel: "?r = release_key ?k (r'\<lparr>hr_leases := ?ls\<rparr>)" using l by (simp add: release_lease_def Let_def)
  have cnt: "lease_count k r' = (if k = ?k then lease_count k r + 1 else lease_count k r)" for k
    unfolding r' using f(3) by (simp add: lease_count_def jget_jset)
  have ret: "hr_retired r' = hr_retired r" using f(1) by (simp add: r' same_places_def)
  have ev: "hr_events r' = hr_events r1" "hr_flags r' = hr_flags r1" by (simp_all add: r')
  have un: "\<not> key_revoked ?k r" using c(1) by (auto simp: get_target_def is_targetable_def split: option.splits if_splits)
  have places: "same_places r r'" using f(1) by (simp add: r' same_places_def)
  have fen: "jget k (hr_events r) = Some e' \<Longrightarrow> e' < length (hr_flags r)" for k e'
    using reg_okD(5) [OF assms(1)] by (simp add: fenced_def)
  have other: "key_revoked k r' = key_revoked k r" if "k \<noteq> ?k" for k
    using f(6) [OF that] f(7) fen [of k] by (auto simp: key_revoked_def ev nth_append split: option.splits)
  show "same_view r ?r"
  proof (cases "lease_count ?k r = 0")
    case True
    have "jget ?k (hr_retired r) = None"
      using drained_count [OF reg_okD(3) [OF assms(1)], of ?k] True by (cases "jget ?k (hr_retired r)") (auto dest: jget_in)
    then have eq: "?r = r'\<lparr>hr_leases := ?ls, hr_counts := jdel ?k (hr_counts r'), hr_events := jdel ?k (hr_events r')\<rparr>"
      unfolding rel using True cnt [of ?k] ret by (simp add: release_key_def Let_def lease_count_def jhas_iff)
    have "lease_count k ?r = lease_count k r" for k
      using cnt [of k] True unfolding eq by (cases "k = ?k") (simp_all add: lease_count_def jget_jdel)
    moreover have "key_revoked k ?r = key_revoked k r" for k
      using other [of k] un unfolding eq by (cases "k = ?k"; cases "jget k (hr_events r')") (simp_all add: key_revoked_def jget_jdel)
    moreover have "same_places r ?r" using places unfolding eq by (simp add: same_places_def)
    ultimately show ?thesis by (simp add: same_view_def)
  next
    case False
    then have eq: "?r = r'\<lparr>hr_leases := ?ls, hr_counts := jset ?k (lease_count ?k r) (hr_counts r')\<rparr>"
      unfolding rel using cnt [of ?k] by (simp add: release_key_def lease_count_def)
    have "\<not> key_revoked ?k r'" using f(4) c(3) by (simp add: key_revoked_def ev)
    then have "key_revoked k ?r = key_revoked k r" for k
      using other [of k] un unfolding eq by (cases "k = ?k"; cases "jget k (hr_events r')") (simp_all add: key_revoked_def)
    moreover have "lease_count k ?r = lease_count k r" for k
      using cnt [of k] unfolding eq by (cases "k = ?k") (simp_all add: lease_count_def jget_jset)
    moreover have "same_places r ?r" using places unfolding eq by (simp add: same_places_def)
    ultimately show ?thesis by (simp add: same_view_def)
  qed
qed

section \<open>Authorization against the present state\<close>

text \<open>What a binding has to satisfy now: the same scope, or a host the request may use, published as it was.\<close>

definition binding_stands :: "output_access \<Rightarrow> string \<Rightarrow> host_registry \<Rightarrow> json \<Rightarrow> bool" where
  "binding_stands acc owner r b \<longleftrightarrow>
     (\<exists>d. b = JObj d
        \<and> (if jhas ''scope'' d then fget ''scope'' d = JStr (oa_scope_id acc)
           else \<exists>host t. jget ''alias'' d = Some (JStr host) \<and> host \<noteq> []
                  \<and> (\<forall>live. oa_live_hosts acc = Some live \<longrightarrow> live host)
                  \<and> (\<forall>m. oa_host_manager acc = Some m \<longrightarrow> is_host_allowed (oa_host_scope acc) (oa_inventory acc) owner host m)
                  \<and> get_target True host r = Some t \<and> same_binding (host_binding (oa_sha256 acc) t) d))"

lemma binding_view: "same_view r r' \<Longrightarrow> binding_stands acc owner r' b = binding_stands acc owner r b"
  by (simp add: binding_stands_def view_target)

lemma authorize_one:
  assumes "reg_ok [] r"
  shows "fst (authorize_binding acc owner b r) = binding_stands acc owner r b"
    and "same_view r (snd (authorize_binding acc owner b r))" "reg_ok [] (snd (authorize_binding acc owner b r))"
proof -
  have "fst (authorize_binding acc owner b r) = binding_stands acc owner r b
    \<and> same_view r (snd (authorize_binding acc owner b r)) \<and> reg_ok [] (snd (authorize_binding acc owner b r))"
  proof (cases "\<exists>d host. b = JObj d \<and> \<not> jhas ''scope'' d \<and> jget ''alias'' d = Some (JStr host) \<and> host \<noteq> []
      \<and> (\<forall>live. oa_live_hosts acc = Some live \<longrightarrow> live host)
      \<and> (\<forall>m. oa_host_manager acc = Some m \<longrightarrow> is_host_allowed (oa_host_scope acc) (oa_inventory acc) owner host m)")
    case True
    then obtain d host where d: "b = JObj d" "\<not> jhas ''scope'' d" "jget ''alias'' d = Some (JStr host)" "host \<noteq> []"
      and live: "(case oa_live_hosts acc of None \<Rightarrow> True | Some live \<Rightarrow> live host)"
      and may: "(case oa_host_manager acc of None \<Rightarrow> True | Some m \<Rightarrow> is_host_allowed (oa_host_scope acc) (oa_inventory acc) owner host m)"
      by (auto split: option.split)
    have stands: "binding_stands acc owner r b
        = (\<exists>t. get_target True host r = Some t \<and> same_binding (host_binding (oa_sha256 acc) t) d)"
      using d live may by (auto simp: binding_stands_def split: option.splits)
    obtain res r' where a: "acquire host r = (res, r')" by fastforce
    show ?thesis
    proof (cases res)
      case None
      note none = refused_unchanged [OF a [unfolded None]]
      have "authorize_binding acc owner b r = (False, r)"
        using d live may a None none(1) by (simp add: authorize_binding_def)
      then show ?thesis using assms stands none(2) by simp
    next
      case (Some i)
      note lent = lent_back [OF assms a [unfolded Some]]
      have eq: "authorize_binding acc owner b r
          = (same_binding (host_binding (oa_sha256 acc) (hl_target (hr_leases r' ! i))) d, release_lease i r')"
        using d live may a Some lent(3) by (simp add: authorize_binding_def Let_def)
      have "reg_ok [] r'" using acquire_ok [OF assms, of host] a by simp
      from release_ok [OF this, of i] show ?thesis unfolding eq stands using lent(1,2) by simp
    qed
  next
    case False
    then have "fst (authorize_binding acc owner b r) = binding_stands acc owner r b \<and> snd (authorize_binding acc owner b r) = r"
      by (cases b) (auto simp: authorize_binding_def binding_stands_def split: option.splits json.splits)
    then show ?thesis using assms by simp
  qed
  then show "fst (authorize_binding acc owner b r) = binding_stands acc owner r b"
    "same_view r (snd (authorize_binding acc owner b r))" "reg_ok [] (snd (authorize_binding acc owner b r))" by simp_all
qed

lemma authorize_all:
  assumes "reg_ok [] r"
  shows "fst (authorize_bindings acc owner bs r) = list_all (binding_stands acc owner r) bs
    \<and> same_view r (snd (authorize_bindings acc owner bs r)) \<and> reg_ok [] (snd (authorize_bindings acc owner bs r))"
  using assms
proof (induction bs arbitrary: r)
  case (Cons b bs)
  obtain ok r' where b: "authorize_binding acc owner b r = (ok, r')" by fastforce
  note one = authorize_one [OF Cons.prems, of acc owner b, unfolded b fst_conv snd_conv]
  have "binding_stands acc owner r' = binding_stands acc owner r" using binding_view [OF one(2)] by blast
  then show ?case
    using Cons.IH [OF one(3)] one same_view_trans [OF one(2)] by (cases ok) (simp_all add: b)
qed simp

text \<open>
  C20: Retained output is authorized exactly when the present policy admits it: the tool is enabled, granted
  by the tier and in the request's live scope, and every binding of the evidence is of this scope or of a host
  the request may use whose published and targetable definition is the recorded one. Asking takes leases
  and gives them back: no count, revocation, published or draining host is different afterwards.
\<close>

theorem authorization_is_live_policy:
  assumes "host_reachable env s"
  shows "(fst (authorize_output acc tool hosts owner (hs_reg s)) \<longleftrightarrow>
      tool \<notin> set (oa_disabled acc) \<and> check_permission acc tool owner = None \<and> tool_scope_allows acc tool
      \<and> list_all (binding_stands acc owner (hs_reg s)) (items hosts))
    \<and> same_view (hs_reg s) (snd (authorize_output acc tool hosts owner (hs_reg s)))"
proof -
  have "reg_ok [] (hs_reg s)" using reachable_ok [OF assms] by (simp add: sys_ok_def)
  from authorize_all [OF this, of acc owner "items hosts"] show ?thesis by (simp add: authorize_output_def)
qed

section \<open>Evidence of a replaced host\<close>

lemma binding_generation:
  "same_binding (host_binding sha t) d \<Longrightarrow> jget ''generation'' d = Some (JStr (runtime_key t))"
  by (simp add: same_binding_def host_binding_def Let_def jget_def)

lemma replaced_binding_falls:
  assumes "host_reachable env s" "t \<in> gone (hs_reg s)" "(inventory_step env)\<^sup>*\<^sup>* s s'"
    and "\<not> jhas ''scope'' d" "jget ''generation'' d = Some (JStr (runtime_key t))"
  shows "\<not> binding_stands acc owner (hs_reg s') (JObj d)"
proof
  assume "binding_stands acc owner (hs_reg s') (JObj d)"
  then obtain host u where u: "get_target True host (hs_reg s') = Some u" "same_binding (host_binding (oa_sha256 acc) u) d"
    using assms(4) by (auto simp: binding_stands_def)
  have key: "runtime_key u = runtime_key t" using binding_generation [OF u(2)] assms(5) by simp
  have "sys_ok s'" using reachable_ok [OF assms(1)] host_system.steps_inv [OF assms(3)] by blast
  then have ok: "placed [] (hs_reg s')" "told_apart [] (hs_reg s')" by (auto simp: sys_ok_def dest: reg_okD)
  have t: "t \<in> gone (hs_reg s')" using gone_run [OF assms(3) reachable_ok [OF assms(1)]] assms(2) by blast
  have p: "u \<in> published (hs_reg s')" "ht_targetable u"
    using u(1) by (auto simp: get_target_def is_targetable_def published_def dest!: jget_in split: option.splits if_splits) force
  have "t = u" by (rule same_key [OF ok(2) _ _ key p(2)]) (use t p in \<open>auto simp: known_def gone_def\<close>)
  then show False using ok(1) t p(1) by (auto simp: placed_def gone_def)
qed

text \<open>What the digest of a binding is taken of.\<close>

definition identity_text :: "host_target \<Rightarrow> string" where
  "identity_text t =
     dumps_sorted '', '' '': ''
       (JList [JStr (ht_address t), JStr (ht_user t), JStr (ht_os t), JInt (ht_port t), JStr (ht_trust_mode t),
          JList (map JStr (ht_host_keys t)), JStr (ht_key_path t), JStr (ht_known_hosts t), JStr (ht_key_alias t)])"

lemma identity_text_inj:
  assumes "identity_text t = identity_text u"
  shows "ht_address t = ht_address u \<and> ht_user t = ht_user u \<and> ht_os t = ht_os u \<and> ht_port t = ht_port u
    \<and> ht_trust_mode t = ht_trust_mode u \<and> ht_host_keys t = ht_host_keys u \<and> ht_key_path t = ht_key_path u
    \<and> ht_known_hosts t = ht_known_hosts u \<and> ht_key_alias t = ht_key_alias u"
proof -
  have texts: "map JStr xs = map JStr ys \<longleftrightarrow> xs = ys" for xs ys by (rule inj_map_eq_map) (simp add: inj_on_def)
  have plain: "map (sort_keys \<circ> JStr) xs = map JStr xs" for xs by simp
  show ?thesis
    using dumps_sorted_inj [OF refl _ _ assms [unfolded identity_text_def]] by (simp add: list_all_iff comp_def texts plain)
qed

text \<open>Two definitions that one binding fits are the same host, unless their digests collide.\<close>

lemma binding_identifies:
  assumes "same_binding (host_binding sha t) d" "same_binding (host_binding sha u) d"
    and "sha (identity_text u) = sha (identity_text t) \<longrightarrow> identity_text u = identity_text t"
  shows "same_identity t u"
proof -
  have parts: "jget ''alias'' d = Some (JStr (ht_alias v)) \<and> jget ''generation'' d = Some (JStr (runtime_key v))
      \<and> jget ''identity'' d = Some (JStr (sha (identity_text v)))" if "same_binding (host_binding sha v) d" for v
    using that by (simp add: same_binding_def host_binding_def identity_text_def Let_def jget_def)
  have "identity_text t = identity_text u" using parts [OF assms(1)] parts [OF assms(2)] assms(3) by simp
  then show ?thesis
    using parts [OF assms(1)] parts [OF assms(2)] identity_text_inj [of t u]
    by (simp add: same_identity_def runtime_key_def runtime_key_inj)
qed

lemma read_binding_stands:
  assumes "host_reachable env s"
    and "fst (read_output now now2 fault cursor owner channel
           (\<lambda>tool hosts. fst (authorize_output acc tool hosts owner (hs_reg s))) st) = Inr (q, offset)"
    and "stored_meta q = (scope, tool, hosts, expires)" "b \<in> set (items hosts)"
  shows "binding_stands acc owner (hs_reg s) b"
proof -
  let ?read = "read_output now now2 fault cursor owner channel (\<lambda>tool hosts. fst (authorize_output acc tool hosts owner (hs_reg s))) st"
  have "?read = (Inr (q, offset), snd ?read)" using assms(2) by (simp add: prod_eq_iff)
  from read_authorized [OF this] have "fst (authorize_output acc tool hosts owner (hs_reg s))" using assms(3) by auto
  moreover have "reg_ok [] (hs_reg s)" using reachable_ok [OF assms(1)] by (simp add: sys_ok_def)
  ultimately have "list_all (binding_stands acc owner (hs_reg s)) (items hosts)"
    using authorize_all [of "hs_reg s" acc owner "items hosts"] by (auto simp: authorize_output_def split: if_splits)
  then show ?thesis using assms(4) by (simp add: list_all_iff)
qed

lemma run_reachable: "host_reachable env s \<Longrightarrow> (inventory_step env)\<^sup>*\<^sup>* s s' \<Longrightarrow> host_reachable env s'"
  unfolding host_reachable_def by (meson rtranclp_trans)

text \<open>
  C10: Output gathered on a host definition that has been replaced or removed cannot be read any more: after any
  further publications, tests, leases and revocations of the running process, whoever asks and whatever else
  the policy admits, a read of an entry with a binding of that generation fails. Generations are counted
  anew when Odin restarts and retained output survives it: in any other process the read succeeds only if
  the binding is that of the host published and targetable there under the recorded alias, which is then the
  same host with the same address, user, port, trust and keys, unless two digests collide.
\<close>

theorem replaced_host_hides_output:
  assumes "host_reachable env s" "t \<in> gone (hs_reg s)"
    and "stored_meta q = (scope, tool, hosts, expires)" "JObj d \<in> set (items hosts)" "\<not> jhas ''scope'' d"
      "jget ''generation'' d = Some (JStr (runtime_key t))"
  shows "let read = \<lambda>s'. fst (read_output now now2 fault cursor owner channel
                       (\<lambda>tool hosts. fst (authorize_output acc tool hosts owner (hs_reg s'))) st)
     in (\<forall>s'. (inventory_step env)\<^sup>*\<^sup>* s s' \<longrightarrow> read s' \<noteq> Inr (q, offset))
        \<and> (\<forall>env2 s2. host_reachable env2 s2 \<and> read s2 = Inr (q, offset) \<longrightarrow>
             (\<exists>a u. jget ''alias'' d = Some (JStr a) \<and> get_target True a (hs_reg s2) = Some u
                \<and> same_binding (host_binding (oa_sha256 acc) u) d
                \<and> (same_binding (host_binding (oa_sha256 acc) t) d
                   \<and> (oa_sha256 acc (identity_text u) = oa_sha256 acc (identity_text t) \<longrightarrow> identity_text u = identity_text t)
                   \<longrightarrow> same_identity t u)))"
proof -
  let ?read = "\<lambda>s'. fst (read_output now now2 fault cursor owner channel
                       (\<lambda>tool hosts. fst (authorize_output acc tool hosts owner (hs_reg s'))) st)"
  have stands: "binding_stands acc owner (hs_reg s') (JObj d)" if "host_reachable e s'" "?read s' = Inr (q, offset)" for e s'
    by (rule read_binding_stands [OF that assms(3,4)])
  have "?read s' \<noteq> Inr (q, offset)" if "(inventory_step env)\<^sup>*\<^sup>* s s'" for s'
    using stands [OF run_reachable [OF assms(1) that]] replaced_binding_falls [OF assms(1,2) that assms(5,6)] by blast
  moreover have "\<exists>a u. jget ''alias'' d = Some (JStr a) \<and> get_target True a (hs_reg s2) = Some u
      \<and> same_binding (host_binding (oa_sha256 acc) u) d
      \<and> (same_binding (host_binding (oa_sha256 acc) t) d
         \<and> (oa_sha256 acc (identity_text u) = oa_sha256 acc (identity_text t) \<longrightarrow> identity_text u = identity_text t)
         \<longrightarrow> same_identity t u)" if "host_reachable env2 s2" "?read s2 = Inr (q, offset)" for env2 s2
  proof -
    have "binding_stands acc owner (hs_reg s2) (JObj d)" by (rule stands [OF that])
    then obtain a u where u: "jget ''alias'' d = Some (JStr a)" "get_target True a (hs_reg s2) = Some u"
        "same_binding (host_binding (oa_sha256 acc) u) d"
      using assms(5) by (auto simp: binding_stands_def)
    then show ?thesis using binding_identifies [of "oa_sha256 acc" t d u] by blast
  qed
  ultimately show ?thesis unfolding Let_def by blast
qed

section \<open>Leases of an operation\<close>

lemma acquired_lease:
  assumes "acquire a r = (Some i, r')"
  shows "i = length (hr_leases r) \<and> hr_leases r' = hr_leases r @ [hr_leases r' ! i]"
proof (cases rule: acquire_cases [of a r])
  case (3 t e r1)
  then show ?thesis using assms by auto
qed (use assms in auto)

lemma permitted_lease:
  assumes "acquire_permitted acc f configured user a r = (Some i, r')" "placed [] r"
  shows "may_use_host acc user a \<and> ht_alias (hl_target (hr_leases r' ! i)) = a \<and> i = length (hr_leases r)
    \<and> (jget a (hr_snapshot r) = Some (hl_target (hr_leases r' ! i)) \<and> is_targetable (hl_target (hr_leases r' ! i)) r
       \<or> get_target True a r = None \<and> \<not> hl_managed (hr_leases r' ! i)
          \<and> (\<exists>hosts c. configured = Some hosts \<and> jget a hosts = Some c \<and> ht_address (hl_target (hr_leases r' ! i)) = th_address c))"
proof -
  have may: "may_use_host acc user a" using assms(1) by (auto simp: acquire_permitted_def split: if_splits)
  obtain res r1 where a: "acquire a r = (res, r1)" by fastforce
  show ?thesis
  proof (cases res)
    case (Some j)
    then have j: "j = i" "r1 = r'" using assms(1) may a by (simp_all add: acquire_permitted_def)
    note got = a [unfolded Some j]
    have "ht_alias (hl_target (hr_leases r' ! i)) = a"
      using acquired_target [OF got] assms(2) by (auto simp: placed_def dest!: jget_in)
    then show ?thesis using may acquired_target [OF got] acquired_lease [OF got] by (simp add: is_targetable_def)
  next
    case None
    note none = refused_unchanged [OF a [unfolded None]]
    obtain hosts c where h: "configured = Some hosts" "jget a hosts = Some c"
      using assms(1) may a None by (auto simp: acquire_permitted_def split: option.splits)
    have "(i, r') = unmanaged_lease a (f a) (th_address c) (th_user c) (th_os c) r"
      using assms(1) may a None none(1) h by (simp add: acquire_permitted_def split: prod.splits)
    then show ?thesis using may none(2) h by (simp add: unmanaged_lease_def Let_def)
  qed
qed

text \<open>
  C32: An operation gets a lease on the host it names and on no other. Within a lease of that host it gets a
  nested one, which every revocation of the outer one reaches. Otherwise the requester's policy admits the
  host, and the lease is on its published, targetable and unrevoked definition, or, where the executor has no
  registry of its own, on the configured host.
\<close>

theorem operation_leases_permitted_host:
  assumes "host_reachable env s" "acquire_host acc f configured active user a (hs_reg s) = (Some i, r')"
    and "\<And>j. active = Some j \<Longrightarrow> j < length (hr_leases (hs_reg s))"
  shows "ht_alias (hl_target (hr_leases r' ! i)) = a
    \<and> ((\<exists>j. active = Some j \<and> hl_event (hr_leases r' ! i) = hl_event (hr_leases (hs_reg s) ! j)
          \<and> hl_target (hr_leases r' ! i) = hl_target (hr_leases (hs_reg s) ! j))
       \<or> may_use_host acc user a
          \<and> (jget a (hr_snapshot (hs_reg s)) = Some (hl_target (hr_leases r' ! i)) \<and> is_targetable (hl_target (hr_leases r' ! i)) (hs_reg s)
             \<or> (\<exists>hosts c. configured = Some hosts \<and> jget a hosts = Some c \<and> ht_address (hl_target (hr_leases r' ! i)) = th_address c)))"
proof -
  let ?r = "hs_reg s"
  have "placed [] ?r" using reachable_ok [OF assms(1)] by (auto simp: sys_ok_def dest: reg_okD)
  note permitted = permitted_lease [OF _ this]
  show ?thesis
  proof (cases "\<exists>j. active = Some j \<and> ht_alias (hl_target (hr_leases ?r ! j)) = a")
    case True
    then obtain j where j: "active = Some j" "ht_alias (hl_target (hr_leases ?r ! j)) = a" by blast
    then have "i = length (hr_leases ?r)" "r' = borrow j ?r" using assms(2) by (simp_all add: acquire_host_def)
    then show ?thesis using j assms(3) [OF j(1)] by (simp add: borrow_def)
  next
    case False
    then have "acquire_permitted acc f configured user a ?r = (Some i, r')"
      using assms(2) by (auto simp: acquire_host_def split: option.splits)
    from permitted [OF this] show ?thesis by blast
  qed
qed

text \<open>
  The clean-up of a process leases the very generation the process was started on; when that is not to be
  had, the registry answers as before.
\<close>

lemma cleanup_lease_is_original_host:
  assumes "host_reachable env s" "acquire_process_cleanup_lease sha a d (hs_reg s) = (res, r')"
  shows "case res of
      None \<Rightarrow> same_view (hs_reg s) r'
    | Some i \<Rightarrow> jget ''generation'' d = Some (JStr (runtime_key (hl_target (hr_leases r' ! i)))) \<and> hl_managed (hr_leases r' ! i)"
proof -
  let ?r = "hs_reg s"
  have ok: "reg_ok [] ?r" using reachable_ok [OF assms(1)] by (simp add: sys_ok_def)
  obtain got r1 where a: "acquire a ?r = (got, r1)" by fastforce
  show ?thesis
  proof (cases got)
    case None
    then show ?thesis using assms(2) a refused_unchanged [OF a [unfolded None]] by (simp add: acquire_process_cleanup_lease_def)
  next
    case (Some i)
    note lent = lent_back [OF ok a [unfolded Some]]
    have m: "hl_managed (hr_leases r1 ! i)"
      by (rule acquire_cases [of a ?r]) (use a Some in auto)
    show ?thesis
    proof (cases "d = [] \<or> \<not> same_binding (host_binding sha (hl_target (hr_leases r1 ! i))) d")
      case True
      then have "res = None" "r' = release_lease i r1" using assms(2) a Some by (simp_all add: acquire_process_cleanup_lease_def)
      then show ?thesis using lent(1) by simp
    next
      case False
      then have "res = Some i" "r' = r1" using assms(2) a Some by (simp_all add: acquire_process_cleanup_lease_def)
      then show ?thesis using False binding_generation [of sha _ d] m by simp
    qed
  qed
qed

section \<open>Concrete runs\<close>

definition ex_access :: output_access where
  "ex_access = \<lparr>oa_disabled = [], oa_permissions = None, oa_request_tier = None, oa_tool_scope = Some [''run''], oa_resolver = None,
     oa_scope_id = [], oa_live_hosts = None, oa_host_manager = None, oa_host_scope = None, oa_inventory = None,
     oa_sha256 = (\<lambda>t. take 6 t)\<rparr>"

definition ex_first_web :: host_target where
  "ex_first_web = snd (hd (hr_snapshot (hs_reg (ex_host_run ex_inventory []))))"

definition ex_web_binding :: dict where
  "ex_web_binding = host_binding (oa_sha256 ex_access) ex_first_web"

definition ex_republished :: "host_action list" where
  "ex_republished = [Stage_inventory None ex_moved (\<lambda>path. False), Publish_inventory 0]"

definition ex_web_output :: snapshot where
  "ex_web_output = retained_snapshot ex_out_env 10 ex_result_id ''uname'' [] (ex_scope\<lparr>so_hosts := JList [JObj ex_web_binding]\<rparr>)"

lemma ex_republished_ok: "list_all action_ok ex_republished"
proof -
  have "inventory_ok ex_moved" by code_simp
  then show ?thesis by (simp add: ex_republished_def)
qed

theorem authorization_is_live_policy_witness:
  "let s = ex_host_run ex_inventory [Take_lease ''web'']
   in (fst (authorize_output ex_access ''run'' (JList [JObj ex_web_binding]) ''7'' (hs_reg s)) \<longleftrightarrow> True)
      \<and> (fst (authorize_output ex_access ''other'' (JList [JObj ex_web_binding]) ''7'' (hs_reg s)) \<longleftrightarrow> False)
      \<and> lease_count ''w:1'' (snd (authorize_output ex_access ''run'' (JList [JObj ex_web_binding]) ''7'' (hs_reg s))) = 1"
proof -
  let ?s = "ex_host_run ex_inventory [Take_lease ''web'']"
  have reach: "host_reachable ex_host_env ?s" by (rule ex_inventory_reachable) simp
  note live = authorization_is_live_policy [OF reach, of ex_access _ "JList [JObj ex_web_binding]" "''7''"]
  have "lease_count ''w:1'' (hs_reg ?s) = 1" by code_simp
  then have c: "lease_count ''w:1'' (snd (authorize_output ex_access ''run'' (JList [JObj ex_web_binding]) ''7'' (hs_reg ?s))) = 1"
    using live [of "''run''"] by (simp add: same_view_def)
  have "fst (authorize_output ex_access ''run'' (JList [JObj ex_web_binding]) ''7'' (hs_reg ?s)) = True" by code_simp
  moreover have "\<not> tool_scope_allows ex_access ''other''" by code_simp
  ultimately show ?thesis using c live [of "''other''"] unfolding Let_def by blast
qed

theorem replaced_host_hides_output_witness:
  "let st = insert_output ex_web_output ex_empty_store;
       read = \<lambda>s. fst (read_output 20 20 False (page_cursor ex_result_id 0) ''7'' ''c''
                 (\<lambda>tool hosts. fst (authorize_output ex_access tool hosts ''7'' (hs_reg s))) st)
   in read (ex_host_run ex_inventory []) = Inr (Text_output ex_web_output, 0)
      \<and> read (ex_host_run ex_inventory ex_republished) \<noteq> Inr (Text_output ex_web_output, 0)
      \<and> read (ex_host_run ex_moved []) \<noteq> Inr (Text_output ex_web_output, 0)"
proof -
  let ?s = "ex_host_run ex_inventory ex_republished"
  have reach: "host_reachable ex_host_env ?s" by (rule ex_inventory_reachable [OF ex_republished_ok])
  have "hr_finished (hs_reg ?s) = [ex_first_web]" by code_simp
  then have t: "ex_first_web \<in> gone (hs_reg ?s)" by (simp add: gone_def)
  have m: "stored_meta (Text_output ex_web_output) = ((''7'', ''c''), ''run'', JList [JObj ex_web_binding], 86410)" by code_simp
  have d: "JObj ex_web_binding \<in> set (items (JList [JObj ex_web_binding]))" "\<not> jhas ''scope'' ex_web_binding" by code_simp+
  have g: "jget ''generation'' ex_web_binding = Some (JStr (runtime_key ex_first_web))" by code_simp
  have before: "fst (read_output 20 20 False (page_cursor ex_result_id 0) ''7'' ''c''
      (\<lambda>tool hosts. fst (authorize_output ex_access tool hosts ''7'' (hs_reg (ex_host_run ex_inventory []))))
      (insert_output ex_web_output ex_empty_store)) = Inr (Text_output ex_web_output, 0)"
    by code_simp
  have restarted: "host_reachable ex_host_env (ex_host_run ex_moved [])" by (rule ex_reachable) (code_simp, code_simp, simp)
  have key: "jget ''alias'' ex_web_binding = Some (JStr ''web'')"
    "case get_target True ''web'' (hs_reg (ex_host_run ex_moved [])) of
       None \<Rightarrow> False | Some u \<Rightarrow> \<not> same_binding (host_binding (oa_sha256 ex_access) u) ex_web_binding"
    by code_simp+
  note hidden = replaced_host_hides_output [OF reach t m d g, of 20 20 False "page_cursor ex_result_id 0" "''7''" "''c''" ex_access
      "insert_output ex_web_output ex_empty_store" 0, unfolded Let_def]
  have "fst (read_output 20 20 False (page_cursor ex_result_id 0) ''7'' ''c''
      (\<lambda>tool hosts. fst (authorize_output ex_access tool hosts ''7'' (hs_reg (ex_host_run ex_moved []))))
      (insert_output ex_web_output ex_empty_store)) \<noteq> Inr (Text_output ex_web_output, 0)" (is "?fresh \<noteq> _")
  proof
    assume "?fresh = Inr (Text_output ex_web_output, 0)"
    then obtain a u where u: "jget ''alias'' ex_web_binding = Some (JStr a)" "get_target True a (hs_reg (ex_host_run ex_moved [])) = Some u"
        "same_binding (host_binding (oa_sha256 ex_access) u) ex_web_binding"
      using hidden restarted by blast
    have a: "a = ''web''" using u(1) key(1) by simp
    show False using key(2) u(3) unfolding u(2) [unfolded a] option.case by blast
  qed
  then show ?thesis unfolding Let_def using before hidden by blast
qed

theorem operation_leases_permitted_host_witness:
  "ht_address (hl_target (hr_leases (snd (acquire_host ex_access (\<lambda>a. a) None (Some 0) ''7'' ''web''
       (hs_reg (ex_host_run ex_inventory [Take_lease ''web''])))) ! 1)) = ''h1''
   \<and> ht_alias (hl_target (hr_leases (snd (acquire_host ex_access (\<lambda>a. a) None (Some 0) ''7'' ''db''
       (hs_reg (ex_host_run ex_inventory [Take_lease ''web''])))) ! 1)) = ''db''"
proof
  let ?s = "ex_host_run ex_inventory [Take_lease ''web'']"
  let ?a = "\<lambda>h. acquire_host ex_access (\<lambda>a. a) None (Some 0) ''7'' h (hs_reg ?s)"
  have reach: "host_reachable ex_host_env ?s" by (rule ex_inventory_reachable) simp
  have f: "fst (?a ''db'') = Some 1" "fst (?a ''web'') = Some 1" "length (hr_leases (hs_reg ?s)) = 1" by code_simp+
  have eq: "?a ''db'' = (Some 1, snd (?a ''db''))" using f(1) by (simp only: prod_eq_iff) simp
  show "ht_alias (hl_target (hr_leases (snd (?a ''db'')) ! 1)) = ''db''"
    by (rule conjunct1 [OF operation_leases_permitted_host [OF reach eq]]) (use f(3) in simp)
  show "ht_address (hl_target (hr_leases (snd (?a ''web'')) ! 1)) = ''h1''" by code_simp
qed

end
