(* ===== verification/Host_Trust.thy ===== *)
theory Host_Trust
  imports Host_Registry Patch_Plan Schedule_Record "HOL-Library.Monad_Syntax"
begin

text \<open>
  Checks of what an operator and a network scan say about a host (\<^verbatim>\<open>tools/hosts/trust.py\<close> and the first half of
  \<^verbatim>\<open>tools/hosts/control.py\<close>): the details of a host, its public keys and fingerprints, the authority behind a host
  certificate, and the keys of a scan. Base64, SHA-256 and the scrubber of secrets are arguments; an error is the
  message of the \<^verbatim>\<open>HostTrustError\<close>, and \<open>Key_error\<close> one of \<^verbatim>\<open>normalize_public_key\<close>.
\<close>

section \<open>Failing computations\<close>

datatype trust_error = Trust_error string | Key_error | Type_error | Scan_timeout

definition attempt :: "trust_error + 'a \<Rightarrow> ('a \<Rightarrow> trust_error + 'b) \<Rightarrow> trust_error + 'b" where
  "attempt r f = (case r of Inl e \<Rightarrow> Inl e | Inr x \<Rightarrow> f x)"

definition insist :: "bool \<Rightarrow> string \<Rightarrow> trust_error + 'a \<Rightarrow> trust_error + 'a" where
  "insist ok message r = (if ok then r else Inl (Trust_error message))"

lemma attempt_Inr [simp]: "attempt r f = Inr y \<longleftrightarrow> (\<exists>x. r = Inr x \<and> f x = Inr y)"
  by (simp add: attempt_def split: sum.split)

lemma insist_Inr [simp]: "insist ok message r = Inr y \<longleftrightarrow> ok \<and> r = Inr y"
  by (simp add: insist_def)

text \<open>\<^verbatim>\<open>body.get(key, default)\<close>\<close>

definition get_or :: "string \<Rightarrow> json \<Rightarrow> dict \<Rightarrow> json" where
  "get_or k d body = (case jget k body of None \<Rightarrow> d | Some v \<Rightarrow> v)"

section \<open>Patterns\<close>

definition is_letter :: "char \<Rightarrow> bool" where
  "is_letter c \<longleftrightarrow> c \<in> set ''abcdefghijklmnopqrstuvwxyzABCDEFGHIJKLMNOPQRSTUVWXYZ''"

definition name_char :: "char \<Rightarrow> bool" where
  "name_char c \<longleftrightarrow> is_letter c \<or> is_digit c \<or> c \<in> set ''_.-''"

text \<open>\<^verbatim>\<open>_ALIAS_RE\<close> and \<^verbatim>\<open>_USER_RE\<close>\<close>

definition alias_pattern :: "string \<Rightarrow> bool" where
  "alias_pattern s \<longleftrightarrow> s \<noteq> [] \<and> is_letter (hd s) \<and> list_all name_char (tl s) \<and> length s \<le> 64"

definition user_pattern :: "string \<Rightarrow> bool" where
  "user_pattern s \<longleftrightarrow> s \<noteq> [] \<and> (is_letter (hd s) \<or> hd s = CHR ''_'') \<and> list_all name_char (tl s) \<and> length s \<le> 64"

text \<open>\<^verbatim>\<open>_HOSTNAME_RE\<close>: labels of letters, digits and inner hyphens, each of at most 63 characters.\<close>

definition hostname_label :: "string \<Rightarrow> bool" where
  "hostname_label l \<longleftrightarrow>
     l \<noteq> [] \<and> length l \<le> 63 \<and> list_all (\<lambda>c. is_letter c \<or> is_digit c \<or> c = CHR ''-'') l
     \<and> hd l \<noteq> CHR ''-'' \<and> last l \<noteq> CHR ''-''"

definition hostname_pattern :: "string \<Rightarrow> bool" where
  "hostname_pattern s \<longleftrightarrow> s \<noteq> [] \<and> length s \<le> 253 \<and> list_all hostname_label (split_on CHR ''.'' s)"

text \<open>\<^verbatim>\<open>_FINGERPRINT_RE\<close>\<close>

definition fingerprint_pattern :: "string \<Rightarrow> bool" where
  "fingerprint_pattern s \<longleftrightarrow>
     take 7 s = ''SHA256:'' \<and> list_all (\<lambda>c. is_letter c \<or> is_digit c \<or> c \<in> set ''+/'') (drop 7 s)
     \<and> 20 \<le> length (drop 7 s) \<and> length (drop 7 s) \<le> 64"

section \<open>Addresses\<close>

text \<open>What \<^verbatim>\<open>ipaddress.ip_address\<close> of the standard library accepts.\<close>

definition octet_pattern :: "string \<Rightarrow> bool" where
  "octet_pattern s \<longleftrightarrow>
     s \<noteq> [] \<and> list_all is_digit s \<and> length s \<le> 3 \<and> (s = ''0'' \<or> hd s \<noteq> CHR ''0'') \<and> digits_value s \<le> 255"

definition ipv4_address :: "string \<Rightarrow> bool" where
  "ipv4_address s \<longleftrightarrow> length (split_on CHR ''.'' s) = 4 \<and> list_all octet_pattern (split_on CHR ''.'' s)"

definition hextet_pattern :: "string \<Rightarrow> bool" where
  "hextet_pattern s \<longleftrightarrow> s \<noteq> [] \<and> length s \<le> 4 \<and> list_all (\<lambda>c. c \<in> set ''0123456789abcdefABCDEF'') s"

text \<open>
  An IPv4 suffix stands for two groups, written \<^verbatim>\<open>0\<close> here since only their form is checked. The inner empty
  groups mark the abbreviation; a first or last empty group is part of it.
\<close>

definition ipv6_groups :: "string \<Rightarrow> string list option" where
  "ipv6_groups s =
     (let parts = split_on CHR '':'' s
      in if length parts < 3 then None
         else if CHR ''.'' \<in> set (last parts)
         then (if ipv4_address (last parts) then Some (butlast parts @ [''0'', ''0'']) else None)
         else Some parts)"

definition ipv6_body :: "string \<Rightarrow> bool" where
  "ipv6_body s \<longleftrightarrow>
     (case ipv6_groups s of
        None \<Rightarrow> False
      | Some parts \<Rightarrow>
          let skips = filter (\<lambda>i. parts ! i = []) [1..<length parts - 1]
          in length parts \<le> 9 \<and>
             (case skips of
                [] \<Rightarrow> length parts = 8 \<and> list_all hextet_pattern parts
              | [i] \<Rightarrow>
                  let first = hd parts = []; final = last parts = [];
                      hi = (if first then i - 1 else i); lo = (if final then length parts - i - 2 else length parts - i - 1)
                  in (first \<longrightarrow> hi = 0) \<and> (final \<longrightarrow> lo = 0) \<and> hi + lo < 8
                     \<and> list_all hextet_pattern (take hi parts) \<and> list_all hextet_pattern (drop (length parts - lo) parts)
              | _ \<Rightarrow> False))"

definition ipv6_address :: "string \<Rightarrow> bool" where
  "ipv6_address s \<longleftrightarrow>
     (case split_on CHR ''%'' s of
        [body] \<Rightarrow> ipv6_body body
      | [body, scope] \<Rightarrow> scope \<noteq> [] \<and> ipv6_body body
      | _ \<Rightarrow> False)"

definition ip_address :: "string \<Rightarrow> bool" where
  "ip_address s \<longleftrightarrow> CHR ''/'' \<notin> set s \<and> (ipv4_address s \<or> ipv6_address s)"

section \<open>Details of a host\<close>

definition clean_line :: "json \<Rightarrow> string \<Rightarrow> nat \<Rightarrow> bool \<Rightarrow> trust_error + string" where
  "clean_line v field limit required =
     (case v of
        JStr raw \<Rightarrow>
          let t = strip raw
          in insist (\<not> (required \<and> t = [])) (field @ '' is required'')
               (insist (length t \<le> limit) (field @ '' exceeds '' @ nat_text limit @ '' characters'')
                 (insist (\<not> list_ex key_control_char t) (field @ '' contains control characters'') (Inr t)))
      | _ \<Rightarrow> Inl (Trust_error (field @ '' must be a string'')))"

record host_details =
  hd_alias :: string
  hd_address :: string
  hd_user :: string
  hd_os :: string
  hd_port :: int
  hd_description :: string
  hd_enabled :: bool
  hd_trust_mode :: string

definition validate_address :: "json \<Rightarrow> trust_error + string" where
  "validate_address v =
     attempt (clean_line v ''address'' 253 True) (\<lambda>a.
       insist (take 1 a \<noteq> ''-'' \<and> \<not> list_ex (\<lambda>c. c \<in> set ''[]/@ '') a) ''address is not a plain hostname or IP address''
         (insist (ip_address a \<or> hostname_pattern a) ''address is not a valid hostname or IP address'' (Inr a)))"

definition validate_port :: "json \<Rightarrow> trust_error + int" where
  "validate_port v =
     (case v of
        JInt p \<Rightarrow> insist (1 \<le> p \<and> p \<le> 65535) ''port must be an integer between 1 and 65535'' (Inr p)
      | _ \<Rightarrow> Inl (Trust_error ''port must be an integer between 1 and 65535''))"

definition validate_host_details :: "(string \<Rightarrow> string) \<Rightarrow> json \<Rightarrow> dict \<Rightarrow> trust_error + host_details" where
  "validate_host_details scrub name body =
     attempt (clean_line name ''alias'' 64 True) (\<lambda>a.
     insist (alias_pattern a \<and> take 1 a \<noteq> ''-'') ''alias must start with a letter and use letters, digits, . _ or -''
     (attempt (validate_address (get_or ''address'' (JStr []) body)) (\<lambda>address.
      attempt (clean_line (get_or ''ssh_user'' (JStr ''root'') body) ''ssh_user'' 64 True) (\<lambda>user.
      insist (user_pattern user \<and> take 1 user \<noteq> ''-'') ''ssh_user is invalid''
      (attempt (clean_line (get_or ''os'' (JStr ''linux'') body) ''os'' 16 True) (\<lambda>os.
       insist (lowered os \<in> set [''linux'', ''macos'']) (''os must be '' @ [CHR 0x27] @ ''linux'' @ [CHR 0x27] @ '' or '' @ [CHR 0x27] @ ''macos'' @ [CHR 0x27])
       (attempt (validate_port (get_or ''port'' (JInt 22) body)) (\<lambda>port.
        attempt (clean_line (get_or ''description'' (JStr []) body) ''description'' 200 False) (\<lambda>description.
        attempt (clean_line (get_or ''trust_mode'' (JStr ''pinned'') body) ''trust_mode'' 16 False) (\<lambda>mode.
        insist (lowered mode \<in> set [''legacy'', ''pinned'', ''ca'', ''tofu'']) ''trust_mode must be legacy, pinned, ca, or tofu''
          (Inr \<lparr>hd_alias = a, hd_address = address, hd_user = user, hd_os = lowered os, hd_port = port,
                hd_description = scrub description, hd_enabled = truthy (get_or ''enabled'' (JBool True) body),
                hd_trust_mode = lowered mode\<rparr>)))))))))))"

section \<open>Keys and certificates\<close>

record trust_io =
  ti_env :: host_env
  ti_b64_text :: "bytes \<Rightarrow> string"
  ti_sha256 :: "bytes \<Rightarrow> bytes"
  ti_scrub :: "string \<Rightarrow> string"
  ti_sanitize :: "string \<Rightarrow> string"

abbreviation ti_b64 :: "trust_io \<Rightarrow> string \<Rightarrow> bytes option" where
  "ti_b64 io \<equiv> he_b64 (ti_env io)"

definition strip_equals :: "string \<Rightarrow> string" where
  "strip_equals s = rev (dropWhile (\<lambda>c. c = CHR ''='') (rev s))"

text \<open>\<^verbatim>\<open>fingerprint_public_key\<close>; no result stands for an error, as in \<^verbatim>\<open>normalize_public_key\<close>.\<close>

definition fingerprint_public_key :: "trust_io \<Rightarrow> string \<Rightarrow> string option" where
  "fingerprint_public_key io line =
     (case normalize_public_key (ti_b64 io) line of
        None \<Rightarrow> None
      | Some key \<Rightarrow>
          (case split_words key of
             _ # encoded # _ \<Rightarrow>
               map_option (\<lambda>raw. ''SHA256:'' @ strip_equals (ti_b64_text io (ti_sha256 io raw))) (ti_b64 io encoded)
           | _ \<Rightarrow> None))"

text \<open>The fields of an SSH certificate: each is a big-endian length and that many bytes.\<close>

definition be32 :: "bytes \<Rightarrow> nat" where
  "be32 bs = foldl (\<lambda>n b. n * 256 + (of_char b :: nat)) 0 bs"

definition take_bytes :: "nat \<Rightarrow> bytes \<Rightarrow> (bytes \<times> bytes) option" where
  "take_bytes n raw = (if n \<le> length raw then Some (take n raw, drop n raw) else None)"

definition take_string :: "bytes \<Rightarrow> (bytes \<times> bytes) option" where
  "take_string raw = (case take_bytes 4 raw of None \<Rightarrow> None | Some (n, rest) \<Rightarrow> take_bytes (be32 n) rest)"

fun skip_strings :: "nat \<Rightarrow> bytes \<Rightarrow> bytes option" where
  "skip_strings 0 raw = Some raw"
| "skip_strings (Suc n) raw = (case take_string raw of None \<Rightarrow> None | Some (s, rest) \<Rightarrow> skip_strings n rest)"

definition starts_with :: "string \<Rightarrow> string \<Rightarrow> bool" where
  "starts_with p s \<longleftrightarrow> take (length p) s = p"

text \<open>How many fields the public key of a certificate has after its nonce.\<close>

definition key_fields :: "string \<Rightarrow> nat option" where
  "key_fields type_name =
     (if starts_with ''ssh-ed25519-cert-'' type_name then Some 1
      else if starts_with ''ssh-rsa-cert-'' type_name then Some 2
      else if starts_with ''ecdsa-sha2-'' type_name then Some 2
      else if starts_with ''sk-ssh-ed25519-cert-'' type_name then Some 2
      else if starts_with ''sk-ecdsa-sha2-'' type_name then Some 3
      else None)"

definition ascii_only :: "string \<Rightarrow> bool" where
  "ascii_only s \<longleftrightarrow> list_all (\<lambda>c. (of_char c :: nat) < 128) s"

text \<open>The signing authority of a host certificate: the third last field, and nothing behind the signature.\<close>

definition only_if :: "bool \<Rightarrow> unit option" where
  "only_if ok = (if ok then Some () else None)"

definition certificate_authority :: "string \<Rightarrow> bytes \<Rightarrow> bytes option" where
  "certificate_authority type_name raw = do {
     only_if (length raw \<le> 65536);
     (name, r1) \<leftarrow> take_string raw;
     only_if (ascii_only name \<and> name = type_name);
     r2 \<leftarrow> skip_strings 1 r1;
     n \<leftarrow> key_fields name;
     r3 \<leftarrow> skip_strings n r2;
     (serial, r4) \<leftarrow> take_bytes 8 r3;
     (role, r5) \<leftarrow> take_bytes 4 r4;
     only_if (be32 role = 2);
     r6 \<leftarrow> skip_strings 2 r5;
     (validity, r7) \<leftarrow> take_bytes 16 r6;
     r8 \<leftarrow> skip_strings 3 r7;
     (authority, r9) \<leftarrow> take_string r8;
     (signature, r10) \<leftarrow> take_string r9;
     only_if (r10 = []);
     Some authority
   }"

definition authority_type :: "bytes \<Rightarrow> string option" where
  "authority_type authority =
     (if length authority < 4 then None
      else let t = take (be32 (take 4 authority)) (drop 4 authority) in if ascii_only t then Some t else None)"

definition certificate_authority_key :: "trust_io \<Rightarrow> string \<Rightarrow> string option" where
  "certificate_authority_key io line =
     (case dropWhile (\<lambda>w. \<not> occurs_in ''-cert-v01@openssh.com'' w) (split_words line) of
        type_name # encoded # _ \<Rightarrow> do {
          raw \<leftarrow> (if ascii_only encoded then ti_b64 io encoded else None);
          authority \<leftarrow> certificate_authority type_name raw;
          t \<leftarrow> authority_type authority;
          normalize_public_key (ti_b64 io) (t @ '' '' @ ti_b64_text io authority)
        }
      | _ \<Rightarrow> None)"

text \<open>The distinct supported keys of a scan, in its order; lines are those of \<^verbatim>\<open>str.splitlines\<close>.\<close>

definition line_break :: "char \<Rightarrow> bool" where
  "line_break c \<longleftrightarrow> c \<in> {CHR 0x0A, CHR 0x0B, CHR 0x0C, CHR 0x0D, CHR 0x1C, CHR 0x1D, CHR 0x1E, CHR 0x85}"

fun splitlines_from :: "string \<Rightarrow> string \<Rightarrow> string list" where
  "splitlines_from w [] = (if w = [] then [] else [w])"
| "splitlines_from w [c] = (if line_break c then [w] else [w @ [c]])"
| "splitlines_from w (c # d # cs) =
     (if c = CHR 0x0D \<and> d = CHR 0x0A then w # splitlines_from [] cs
      else if line_break c then w # splitlines_from [] (d # cs)
      else splitlines_from (w @ [c]) (d # cs))"

definition scan_lines :: "string \<Rightarrow> string list" where
  "scan_lines output = filter (\<lambda>l. l \<noteq> [] \<and> take 1 l \<noteq> ''#'') (splitlines_from [] output)"

definition first_occurrences :: "'a list \<Rightarrow> 'a list" where
  "first_occurrences xs = rev (remdups (rev xs))"

definition scanned_keys :: "(string \<Rightarrow> string option) \<Rightarrow> string \<Rightarrow> string list" where
  "scanned_keys parse output = first_occurrences (List.map_filter parse (scan_lines output))"

end
