(* ===== verification/Host_Enroll.thy ===== *)
theory Host_Enroll
  imports Host_Trust
begin

text \<open>
  Enrollment of hosts (\<^verbatim>\<open>HostEnrollmentManager\<close> of \<^verbatim>\<open>tools/hosts/control.py\<close>): short-lived candidates with the
  evidence for their keys, the connection test, and the trust files a candidate owns until the registry
  refers to them. A test is cut at its SSH call: it starts, and later settles or is given up.
\<close>

section \<open>Candidates\<close>

record host_candidate =
  hc_token :: string
  hc_alias :: string
  hc_host_id :: string
  hc_address :: string
  hc_user :: string
  hc_os :: string
  hc_port :: int
  hc_description :: string
  hc_enabled :: bool
  hc_trust_mode :: string
  hc_host_keys :: "string list"
  hc_fingerprints :: "string list"
  hc_local_confirmed :: bool
  hc_tofu_confirmed :: bool
  hc_created :: py_time
  hc_expected :: "tool_host option"
  hc_tested :: bool
  hc_test_result :: "dict option"

definition as_tool_host :: "host_candidate \<Rightarrow> tool_host" where
  "as_tool_host c =
     \<lparr>th_address = hc_address c, th_user = hc_user c, th_os = hc_os c, th_port = hc_port c, th_description = hc_description c,
      th_enabled = hc_enabled c, th_host_id = hc_host_id c, th_trust_mode = hc_trust_mode c, th_host_keys = hc_host_keys c\<rparr>"

section \<open>Evidence for the keys\<close>

fun attempt_all :: "('a \<Rightarrow> trust_error + 'b) \<Rightarrow> 'a list \<Rightarrow> trust_error + 'b list" where
  "attempt_all f [] = Inr []"
| "attempt_all f (x # xs) = attempt (f x) (\<lambda>y. attempt (attempt_all f xs) (\<lambda>ys. Inr (y # ys)))"

definition fingerprints_of :: "trust_io \<Rightarrow> string list \<Rightarrow> trust_error + string list" where
  "fingerprints_of io keys =
     (case collect_all (fingerprint_public_key io) keys of None \<Rightarrow> Inl Key_error | Some fs \<Rightarrow> Inr fs)"

text \<open>
  What \<^verbatim>\<open>ssh-keyscan\<close> printed with its exit code, as the keys of a scan: plain keys, or the authorities of
  certificates. \<open>None\<close> is a scan that timed out.
\<close>

definition scan_result :: "trust_io \<Rightarrow> bool \<Rightarrow> (int \<times> string) option \<Rightarrow> trust_error + string list" where
  "scan_result io authorities finished =
     (case finished of
        None \<Rightarrow> Inl Scan_timeout
      | Some (code, output) \<Rightarrow>
          let keys = scanned_keys (if authorities then certificate_authority_key io else normalize_public_key (ti_b64 io)) output
          in insist (code = 0) ((if authorities then ''host certificate scan failed: '' else ''host-key scan failed: '') @ ti_sanitize io output)
               (insist (keys \<noteq> [])
                  (if authorities then ''host certificate scan returned no supported host certificates''
                   else ''host-key scan returned no supported public keys'') (Inr keys)))"

text \<open>A single text stands for a list of one; iterating over an object gives its keys.\<close>

definition as_list :: "json \<Rightarrow> json" where
  "as_list v = (case v of JStr s \<Rightarrow> JList [v] | _ \<Rightarrow> v)"

definition iterated :: "json \<Rightarrow> json list option" where
  "iterated v = (case v of JList vs \<Rightarrow> Some vs | JObj kvs \<Rightarrow> Some (map (JStr \<circ> fst) kvs) | _ \<Rightarrow> None)"

definition pinned_keys :: "trust_io \<Rightarrow> json \<Rightarrow> string list \<Rightarrow> string list \<Rightarrow> trust_error + string list \<times> string list" where
  "pinned_keys io expected keys fingerprints =
     (case expected of
        JList (v # vs) \<Rightarrow>
          attempt (attempt_all (\<lambda>v. clean_line v ''fingerprint'' 80 True) (v # vs)) (\<lambda>named.
            insist (list_all fingerprint_pattern named) ''expected fingerprint must use OpenSSH SHA256: form''
              (insist (list_ex (\<lambda>f. f \<in> set fingerprints) named) ''scanned host key does not match the expected fingerprint''
                (let kept = filter (\<lambda>k. \<exists>f\<in>set named. fingerprint_public_key io k = Some f) keys
                 in attempt (fingerprints_of io kept) (\<lambda>fs. Inr (kept, fs)))))
      | _ \<Rightarrow> Inl (Trust_error ''expected_fingerprints is required''))"

text \<open>Discovery is not trust: without the exact fingerprints of the scan the candidate stays unconfirmed.\<close>

definition tofu_confirmation :: "json \<Rightarrow> bool \<Rightarrow> string list \<Rightarrow> trust_error + bool" where
  "tofu_confirmation named confirmed fingerprints =
     (if \<not> truthy named then Inr False
      else if \<not> confirmed
      then Inl (Trust_error ''TOFU requires confirm_tofu=true bound to the exact candidate_fingerprints'')
      else case iterated named of
             None \<Rightarrow> Inl Type_error
           | Some vs \<Rightarrow> insist (vs = map JStr fingerprints)
                          ''TOFU requires confirm_tofu=true bound to the exact candidate_fingerprints'' (Inr True))"

record host_evidence =
  ev_trust_mode :: string
  ev_keys :: "string list"
  ev_fingerprints :: "string list"
  ev_tofu_confirmed :: bool

definition changed_endpoint :: "host_details \<Rightarrow> tool_host \<Rightarrow> bool" where
  "changed_endpoint d h \<longleftrightarrow>
     hd_address d \<noteq> th_address h \<or> hd_user d \<noteq> th_user h \<or> hd_port d \<noteq> th_port h \<or> hd_os d \<noteq> th_os h"

definition judge_evidence ::
  "trust_io \<Rightarrow> bool \<Rightarrow> tool_host option \<Rightarrow> dict \<Rightarrow> (int \<times> string) option \<Rightarrow> host_details \<Rightarrow> trust_error + host_evidence" where
  "judge_evidence io allow_tofu existing body scanned d =
     (let near = is_local_address (hd_address d); mode = hd_trust_mode d; confirmed = (fget ''confirm_tofu'' body = JBool True);
          plain = \<lparr>ev_trust_mode = ''legacy'', ev_keys = [], ev_fingerprints = [], ev_tofu_confirmed = confirmed\<rparr>
      in insist (near \<longrightarrow> fget ''confirm_local'' body = JBool True)
           ''local targets execute inside Odin and require confirm_local=true''
         (insist (case existing of None \<Rightarrow> True | Some h \<Rightarrow> mode = ''legacy'' \<longrightarrow> \<not> changed_endpoint d h)
           ''endpoint, user, port, or OS edits require pinned enrollment''
         (if near then Inr plain
          else if mode = ''legacy''
          then insist (case existing of None \<Rightarrow> False | Some h \<Rightarrow> th_trust_mode h = ''legacy'')
                 ''legacy trust is available only to existing legacy hosts'' (Inr plain)
          else attempt (scan_result io (mode = ''ca'') scanned) (\<lambda>keys. attempt (fingerprints_of io keys) (\<lambda>fs.
                 if mode \<in> set [''pinned'', ''ca'']
                 then attempt (pinned_keys io (as_list (fget ''expected_fingerprints'' body)) keys fs) (\<lambda>(ks, fs).
                        Inr \<lparr>ev_trust_mode = mode, ev_keys = ks, ev_fingerprints = fs, ev_tofu_confirmed = confirmed\<rparr>)
                 else insist allow_tofu ''TOFU is disabled by configuration''
                        (attempt (tofu_confirmation (as_list (fget ''candidate_fingerprints'' body)) confirmed fs) (\<lambda>tofu.
                           Inr \<lparr>ev_trust_mode = mode, ev_keys = keys, ev_fingerprints = fs, ev_tofu_confirmed = tofu\<rparr>)))))))"

definition own_host_id :: "trust_io \<Rightarrow> string \<Rightarrow> tool_host \<Rightarrow> string" where
  "own_host_id io name h = (if th_host_id h \<noteq> [] then th_host_id h else he_uuid_of_alias (ti_env io) name)"

definition prepare_candidate ::
  "trust_io \<Rightarrow> py_time \<Rightarrow> string \<Rightarrow> string \<Rightarrow> bool \<Rightarrow> tool_host option \<Rightarrow> string \<Rightarrow> dict \<Rightarrow> (int \<times> string) option
     \<Rightarrow> trust_error + host_candidate" where
  "prepare_candidate io now token uuid allow_tofu existing name body scanned =
     attempt (validate_host_details (ti_scrub io) (JStr name) body) (\<lambda>d.
     attempt (judge_evidence io allow_tofu existing body scanned d) (\<lambda>ev.
       Inr \<lparr>hc_token = token, hc_alias = hd_alias d,
            hc_host_id = (case existing of None \<Rightarrow> uuid | Some h \<Rightarrow> own_host_id io name h),
            hc_address = hd_address d, hc_user = hd_user d, hc_os = hd_os d, hc_port = hd_port d,
            hc_description = hd_description d, hc_enabled = hd_enabled d, hc_trust_mode = ev_trust_mode ev,
            hc_host_keys = ev_keys ev, hc_fingerprints = ev_fingerprints ev,
            hc_local_confirmed = (fget ''confirm_local'' body = JBool True), hc_tofu_confirmed = ev_tofu_confirmed ev,
            hc_created = now, hc_expected = existing, hc_tested = False, hc_test_result = None\<rparr>))"

text \<open>The keys of a legacy host, taken over from the known-hosts file it was trusted by so far.\<close>

definition import_candidate ::
  "trust_io \<Rightarrow> py_time \<Rightarrow> string \<Rightarrow> string \<Rightarrow> tool_host \<Rightarrow> string option \<Rightarrow> trust_error + host_candidate" where
  "import_candidate io now token name h found =
     insist (\<not> is_local_address (th_address h)) ''local hosts do not use SSH host-key enrollment''
       (case found of
          None \<Rightarrow> Inl (Trust_error ''no matching legacy known_hosts entry was found'')
        | Some output \<Rightarrow>
            let keys = scanned_keys (normalize_public_key (ti_b64 io)) output
            in insist (keys \<noteq> []) ''legacy known_hosts entry has no importable public key''
                 (attempt (fingerprints_of io keys) (\<lambda>fs.
                    Inr \<lparr>hc_token = token, hc_alias = name, hc_host_id = own_host_id io name h, hc_address = th_address h,
                         hc_user = th_user h, hc_os = th_os h, hc_port = th_port h, hc_description = th_description h,
                         hc_enabled = th_enabled h, hc_trust_mode = ''pinned'', hc_host_keys = keys, hc_fingerprints = fs,
                         hc_local_confirmed = False, hc_tofu_confirmed = False, hc_created = now, hc_expected = Some h,
                         hc_tested = False, hc_test_result = None\<rparr>)))"

section \<open>The manager's state\<close>

type_synonym trust_identity = "string \<times> string \<times> string \<times> string list"

text \<open>Trust files are addressed by content: \<open>en_trust\<close> holds the ones no generation of the registry has had yet.\<close>

record enrollment =
  en_candidates :: "(string \<times> host_candidate) list"
  en_trust :: "(string \<times> trust_identity) list"
  en_testing :: "(string \<times> nat) list"

definition candidate_key_alias :: "host_candidate \<Rightarrow> string" where
  "candidate_key_alias c = (if hc_trust_mode c = ''ca'' then hc_address c else ''odin-'' @ hc_host_id c)"

definition trust_identity_of :: "host_candidate \<Rightarrow> trust_identity" where
  "trust_identity_of c = (hc_host_id c, candidate_key_alias c, hc_trust_mode c, hc_host_keys c)"

definition registry_trust_paths :: "host_registry \<Rightarrow> string list" where
  "registry_trust_paths r = map (\<lambda>p. ht_known_hosts (snd p)) (all_runtime_targets r)"

text \<open>
  Files the registry refers to are forgotten; while a publication is staged or a test runs nothing is
  deleted; then the files of identities no candidate has are, unless that fails.
\<close>

definition orphaned :: "(string \<Rightarrow> bool) \<Rightarrow> enrollment \<Rightarrow> (string \<times> trust_identity) list \<Rightarrow> string list" where
  "orphaned unlink_fails e owned =
     map fst (filter (\<lambda>p. snd p \<notin> set (map (trust_identity_of \<circ> snd) (en_candidates e)) \<and> \<not> unlink_fails (fst p)) owned)"

definition cleanup_trust ::
  "(string \<Rightarrow> bool) \<Rightarrow> bool \<Rightarrow> host_registry \<Rightarrow> enrollment \<Rightarrow> trust_files \<Rightarrow> enrollment \<times> trust_files" where
  "cleanup_trust unlink_fails locked r e files =
     (let owned = filter (\<lambda>p. fst p \<notin> set (registry_trust_paths r)) (en_trust e)
      in if locked \<or> en_testing e \<noteq> [] then (e\<lparr>en_trust := owned\<rparr>, files)
         else let gone = orphaned unlink_fails e owned
              in (e\<lparr>en_trust := filter (\<lambda>p. fst p \<notin> set gone) owned\<rparr>, filter (\<lambda>p. fst p \<notin> set gone) files))"

definition discard_candidate ::
  "(string \<Rightarrow> bool) \<Rightarrow> bool \<Rightarrow> host_registry \<Rightarrow> string \<Rightarrow> enrollment \<Rightarrow> trust_files \<Rightarrow> enrollment \<times> trust_files" where
  "discard_candidate unlink_fails locked r token e files =
     cleanup_trust unlink_fails locked r (e\<lparr>en_candidates := jdel token (en_candidates e)\<rparr>) files"

definition CANDIDATE_TTL :: py_time where
  "CANDIDATE_TTL = 15 * 60"

definition prune_candidates ::
  "(string \<Rightarrow> bool) \<Rightarrow> bool \<Rightarrow> host_registry \<Rightarrow> py_time \<Rightarrow> enrollment \<Rightarrow> trust_files \<Rightarrow> enrollment \<times> trust_files" where
  "prune_candidates unlink_fails locked r now e files =
     cleanup_trust unlink_fails locked r
       (e\<lparr>en_candidates := filter (\<lambda>p. \<not> CANDIDATE_TTL < now - hc_created (snd p)) (en_candidates e)\<rparr>) files"

definition get_candidate ::
  "(string \<Rightarrow> bool) \<Rightarrow> bool \<Rightarrow> host_registry \<Rightarrow> py_time \<Rightarrow> string \<Rightarrow> enrollment \<Rightarrow> trust_files
     \<Rightarrow> (trust_error + host_candidate) \<times> enrollment \<times> trust_files" where
  "get_candidate unlink_fails locked r now token e files =
     (case jget token (en_candidates e) of
        Some c \<Rightarrow>
          if CANDIDATE_TTL < now - hc_created c
          then (Inl (Trust_error ''candidate is unknown or expired''), discard_candidate unlink_fails locked r token e files)
          else (Inr c, e, files)
      | None \<Rightarrow> (Inl (Trust_error ''candidate is unknown or expired''), discard_candidate unlink_fails locked r token e files))"

definition unconfirmed :: "host_candidate \<Rightarrow> bool" where
  "unconfirmed c \<longleftrightarrow> hc_trust_mode c = ''tofu'' \<and> \<not> hc_tofu_confirmed c"

text \<open>The caller of \<^verbatim>\<open>consume\<close> takes over the candidate together with its trust file.\<close>

definition consume_candidate ::
  "(string \<Rightarrow> bool) \<Rightarrow> bool \<Rightarrow> host_registry \<Rightarrow> py_time \<Rightarrow> string \<Rightarrow> enrollment \<Rightarrow> trust_files
     \<Rightarrow> (trust_error + host_candidate) \<times> enrollment \<times> trust_files" where
  "consume_candidate unlink_fails locked r now token e files =
     (case get_candidate unlink_fails locked r now token e files of
        (Inl err, e', files') \<Rightarrow> (Inl err, e', files')
      | (Inr c, e', files') \<Rightarrow>
          (insist (\<not> unconfirmed c) ''TOFU candidate requires a second confirmation bound to its exact fingerprints''
             (insist (hc_tested c) ''candidate must pass the connection test before activation'' (Inr c)),
           if unconfirmed c \<or> \<not> hc_tested c then e'
           else e'\<lparr>en_candidates := jdel token (en_candidates e'),
                  en_trust := filter (\<lambda>p. snd p \<noteq> trust_identity_of c) (en_trust e')\<rparr>,
           files'))"

definition prepare ::
  "trust_io \<Rightarrow> (string \<Rightarrow> bool) \<Rightarrow> bool \<Rightarrow> host_registry \<Rightarrow> py_time \<Rightarrow> string \<Rightarrow> string \<Rightarrow> bool \<Rightarrow> tool_host option \<Rightarrow> string
     \<Rightarrow> dict \<Rightarrow> (int \<times> string) option \<Rightarrow> enrollment \<Rightarrow> trust_files
     \<Rightarrow> (trust_error + host_candidate) \<times> enrollment \<times> trust_files" where
  "prepare io unlink_fails locked r now token uuid allow_tofu existing name body scanned e files =
     (case prepare_candidate io now token uuid allow_tofu existing name body scanned of
        Inl err \<Rightarrow> (Inl err, e, files)
      | Inr c \<Rightarrow> (Inr c, prune_candidates unlink_fails locked r now (e\<lparr>en_candidates := jset token c (en_candidates e)\<rparr>) files))"

definition import_legacy ::
  "trust_io \<Rightarrow> py_time \<Rightarrow> string \<Rightarrow> string \<Rightarrow> tool_host \<Rightarrow> string option \<Rightarrow> enrollment \<Rightarrow> (trust_error + host_candidate) \<times> enrollment" where
  "import_legacy io now token name h found e =
     (case import_candidate io now token name h found of
        Inl err \<Rightarrow> (Inl err, e)
      | Inr c \<Rightarrow> (Inr c, e\<lparr>en_candidates := jset token c (en_candidates e)\<rparr>))"

section \<open>The connection test\<close>

definition known_hosts_option :: "string \<Rightarrow> string option" where
  "known_hosts_option path =
     (if list_ex (\<lambda>c. c \<in> {CHR 0x00, CHR 0x0A, CHR 0x0D}) path then None
      else if list_ex (\<lambda>c. is_space c \<or> c \<in> {CHR 0x22, CHR 0x27, CHR 0x5C}) path
      then Some (''UserKnownHostsFile='' @ [CHR 0x22]
             @ concat (map (\<lambda>c. if c = CHR 0x5C then [CHR 0x5C, CHR 0x5C] else if c = CHR 0x22 then [CHR 0x5C, CHR 0x22] else [c]) path)
             @ [CHR 0x22])
      else Some (''UserKnownHostsFile='' @ path))"

definition test_options :: "host_registry \<Rightarrow> host_candidate \<Rightarrow> string \<Rightarrow> string list" where
  "test_options r c known_hosts =
     [''ssh'', ''-i'', hr_key_path r, ''-o'', known_hosts, ''-o'', ''StrictHostKeyChecking=yes'', ''-o'', ''BatchMode=yes'',
      ''-o'', ''IdentitiesOnly=yes'', ''-o'', ''PasswordAuthentication=no'', ''-o'', ''KbdInteractiveAuthentication=no'',
      ''-o'', ''PreferredAuthentications=publickey'', ''-o'', ''ControlMaster=no'']
     @ (if hc_trust_mode c = ''legacy'' then [] else [''-o'', ''HostKeyAlias='' @ candidate_key_alias c])
     @ [''-o'', ''ConnectTimeout=10'', ''-p'', int_text (hc_port c), ''--'', hc_user c @ ''@'' @ hc_address c]"

text \<open>The result of a test: \<open>None\<close> for a timeout, else exit code and output.\<close>

definition observed_platform :: "trust_io \<Rightarrow> string \<Rightarrow> string" where
  "observed_platform io output =
     (if starts_with ''odin-host-test '' output then strip (last (split_on CHR '' '' (ti_sanitize io output))) else [])"

definition test_passed :: "trust_io \<Rightarrow> host_candidate \<Rightarrow> int \<Rightarrow> string \<Rightarrow> bool" where
  "test_passed io c code output \<longleftrightarrow>
     code = 0 \<and> starts_with ''odin-host-test '' output \<and> observed_platform io output = hc_os c"

definition test_detail :: "trust_io \<Rightarrow> host_candidate \<Rightarrow> int \<Rightarrow> string \<Rightarrow> string" where
  "test_detail io c code output =
     (if test_passed io c code output then ''authentication and platform verified''
      else if code = 0 \<and> starts_with ''odin-host-test '' output
      then ti_sanitize io (''platform mismatch: observed '' @ observed_platform io output @ ''; selected '' @ hc_os c)
      else if ti_sanitize io output \<noteq> [] then ti_sanitize io output else ''ssh exit '' @ int_text code)"

definition test_outcome :: "trust_io \<Rightarrow> string \<Rightarrow> host_candidate \<Rightarrow> (int \<times> string) option \<Rightarrow> dict" where
  "test_outcome io clock c finished =
     (case finished of
        None \<Rightarrow> [(''ok'', JBool False), (''checked_at'', JFloat clock), (''platform'', JStr []),
                 (''detail'', JStr ''connection test timed out'')]
      | Some (code, output) \<Rightarrow>
          [(''ok'', JBool (test_passed io c code output)), (''checked_at'', JFloat clock),
           (''platform'', JStr (observed_platform io output)), (''detail'', JStr (test_detail io c code output))])"

definition is_host_key_mismatch :: "string \<Rightarrow> bool" where
  "is_host_key_mismatch detail \<longleftrightarrow>
     list_ex (\<lambda>m. occurs_in m (lowered detail))
       [''remote host identification has changed'', ''host key verification failed'', ''offending '']"

text \<open>Up to the SSH call: the test is counted, and its trust file written.\<close>

definition start_test ::
  "trust_io \<Rightarrow> (string \<Rightarrow> bool) \<Rightarrow> host_registry \<Rightarrow> host_candidate \<Rightarrow> enrollment \<Rightarrow> trust_files
     \<Rightarrow> registry_error option \<times> enrollment \<times> trust_files" where
  "start_test io write_fails r c e files =
     (let n = (case jget (hc_token c) (en_testing e) of None \<Rightarrow> 0 | Some n \<Rightarrow> n);
          e1 = e\<lparr>en_testing := jset (hc_token c) (n + 1) (en_testing e)\<rparr>
      in if is_local_address (hc_address c) \<or> hc_trust_mode c = ''legacy'' then (None, e1, files)
         else case materialize_trust (ti_env io) write_fails (hc_host_id c) (candidate_key_alias c) (hc_trust_mode c) (hc_host_keys c) files of
                (Inl err, files') \<Rightarrow> (Some err, e1, files')
              | (Inr path, files') \<Rightarrow>
                  (None,
                   e1\<lparr>en_trust := (if path \<in> set (registry_trust_paths r) then jdel path (en_trust e)
                                  else jset path (trust_identity_of c) (en_trust e))\<rparr>,
                   files'))"

text \<open>The end of a test, however it ends.\<close>

definition leave_test ::
  "(string \<Rightarrow> bool) \<Rightarrow> bool \<Rightarrow> host_registry \<Rightarrow> string \<Rightarrow> enrollment \<Rightarrow> trust_files \<Rightarrow> enrollment \<times> trust_files" where
  "leave_test unlink_fails locked r token e files =
     cleanup_trust unlink_fails locked r
       (e\<lparr>en_testing := (case jget token (en_testing e) of
            Some n \<Rightarrow> if 1 < n then jset token (n - 1) (en_testing e) else jdel token (en_testing e)
          | None \<Rightarrow> en_testing e)\<rparr>) files"

definition tests_active_identity :: "host_candidate \<Rightarrow> host_target \<Rightarrow> bool" where
  "tests_active_identity c t \<longleftrightarrow>
     hc_address c = ht_address t \<and> hc_user c = ht_user t \<and> hc_os c = ht_os t \<and> hc_port c = ht_port t
     \<and> hc_trust_mode c = ht_trust_mode t \<and> hc_host_keys c = ht_host_keys t"

text \<open>Under the publication lock: the published host is marked only if the test was of its identity.\<close>

definition mark_tested :: "host_candidate \<Rightarrow> dict \<Rightarrow> host_registry \<Rightarrow> host_registry" where
  "mark_tested c result r =
     (let ok = (fget ''ok'' result = JBool True);
          mismatch = (\<not> ok \<and> (case fget ''detail'' result of JStr d \<Rightarrow> is_host_key_mismatch d | _ \<Rightarrow> False))
      in case get_target False (hc_alias c) r of
           None \<Rightarrow> r
         | Some t \<Rightarrow> if tests_active_identity c t \<and> (mismatch \<or> ok) then mark_test_result (hc_alias c) result mismatch r else r)"

definition settle_test ::
  "(string \<Rightarrow> bool) \<Rightarrow> host_candidate \<Rightarrow> dict \<Rightarrow> host_registry \<Rightarrow> enrollment \<Rightarrow> trust_files
     \<Rightarrow> host_registry \<times> enrollment \<times> trust_files" where
  "settle_test unlink_fails c result r e files =
     (let r' = mark_tested c result r;
          c' = c\<lparr>hc_tested := (fget ''ok'' result = JBool True), hc_test_result := Some result\<rparr>;
          e' = (if jhas (hc_token c) (en_candidates e) then e\<lparr>en_candidates := jset (hc_token c) c' (en_candidates e)\<rparr> else e)
      in (r', leave_test unlink_fails False r' (hc_token c) e' files))"

end
