(* ===== verification/Host_Manage.thy ===== *)
theory Host_Manage
  imports Host_Enroll Host_Access
begin

text \<open>
  Management of the host inventory (\<^verbatim>\<open>web/api/hosts.py\<close>): every change of the configured hosts is prepared under
  one lock, saved, and then published; a tested candidate is committed, a host is enabled, disabled or
  removed, and the default changes. Saving the configuration is the await at which a change is cut in two;
  a cancelled request before it leaves nothing, one after it is drained.
\<close>

section \<open>References to a host\<close>

lemma enumerated_size [termination_simp]: "(i, v) \<in> set (List.enumerate n vs) \<Longrightarrow> size v < Suc (size_list size vs)"
  by (auto simp: in_set_enumerate_eq intro!: le_imp_less_Suc size_list_estimation')

fun walk_references :: "string \<Rightarrow> string \<Rightarrow> json \<Rightarrow> (string \<times> string) list" where
  "walk_references host path (JObj kvs) =
     concat (map (\<lambda>(k, child).
       let here = (if path = [] then k else path @ ''.'' @ k)
       in (if k \<in> set [''host'', ''default_host''] \<and> child = JStr host then [(''task_reference'', here)] else [])
          @ (if k = ''hosts'' \<and> (case child of JList vs \<Rightarrow> JStr host \<in> set vs | _ \<Rightarrow> False) then [(''task_reference'', here)] else [])
          @ walk_references host here child) kvs)"
| "walk_references host path (JList vs) =
     concat (map (\<lambda>(i, child). walk_references host (path @ ''.'' @ nat_text i) child) (List.enumerate 0 vs))"
| "walk_references host path v = []"

record host_usage =
  hu_access :: "host_manager option"
  hu_dynamic :: "dict list"
  hu_tokens :: "(string list option \<times> string) list"
  hu_overrides :: "string list"
  hu_default :: string
  hu_schedules :: "json list"
  hu_tasks :: "(string \<times> string \<times> json) list"

definition lists_host :: "string \<Rightarrow> json \<Rightarrow> bool" where
  "lists_host host v \<longleftrightarrow> (case v of JList vs \<Rightarrow> JStr host \<in> set vs | _ \<Rightarrow> False)"

definition named_by :: "string \<Rightarrow> string \<Rightarrow> bool \<Rightarrow> bool \<Rightarrow> (string \<times> string) list" where
  "named_by category place allowed chosen =
     (if allowed then [(category, place @ ''.allowed_hosts'')] else []) @ (if chosen then [(category, place @ ''.default_host'')] else [])"

definition dict_names :: "string \<Rightarrow> string \<Rightarrow> string \<Rightarrow> dict \<Rightarrow> (string \<times> string) list" where
  "dict_names host category place d =
     named_by category place (lists_host host (fget ''allowed_hosts'' d)) (fget ''default_host'' d = JStr host)"

definition access_references :: "string \<Rightarrow> host_manager \<Rightarrow> (string \<times> string) list" where
  "access_references host m =
     named_by ''host_access'' ''default_policy''
       (case allowed_hosts (default_policy m) of None \<Rightarrow> False | Some hs \<Rightarrow> host \<in> set hs) (default_host (default_policy m) = host)
     @ concat (map (\<lambda>(user, e). dict_names host ''host_access'' (''users.'' @ user) (entries e)) (list_host_users m))"

definition scan_host_references :: "string \<Rightarrow> host_usage \<Rightarrow> (string \<times> string) list" where
  "scan_host_references host u =
     (case hu_access u of None \<Rightarrow> [] | Some m \<Rightarrow> access_references host m)
     @ concat (map (\<lambda>d. dict_names host ''api_token''
         (''dynamic.'' @ (case get_or ''user_id'' (JStr []) d of JStr s \<Rightarrow> s | _ \<Rightarrow> [])) d) (hu_dynamic u))
     @ concat (map (\<lambda>(i, hosts, d). named_by ''api_token'' (''web.api_tokens.'' @ nat_text i)
         (case hosts of None \<Rightarrow> False | Some hs \<Rightarrow> host \<in> set hs) (d = host)) (List.enumerate 0 (hu_tokens u)))
     @ (if host \<in> set (hu_overrides u) then [(''governor'', ''tools.governor.host_overrides.'' @ host)] else [])
     @ (if hu_default u = host then [(''default_host'', ''tools.default_host'')] else [])
     @ concat (map (\<lambda>(i, v). walk_references host (''schedules.'' @ nat_text i) v) (List.enumerate 0 (hu_schedules u)))
     @ concat (map (\<lambda>(task, status, steps).
         if status \<in> set [''completed'', ''failed'', ''cancelled'', ''done''] then []
         else walk_references host (''background_tasks.'' @ task @ ''.steps'') steps) (hu_tasks u))"

section \<open>The state\<close>

text \<open>A change that holds the lock: staged, and waiting for the configuration to be saved.\<close>

record host_change =
  ch_hosts :: "(string \<times> tool_host) list"
  ch_default :: string
  ch_tofu :: bool
  ch_publication :: host_publication
  ch_result :: "(string \<times> dict) option"
  ch_token :: "string option"

record host_mgmt =
  mg_reg :: host_registry
  mg_files :: trust_files
  mg_enroll :: enrollment
  mg_hosts :: "(string \<times> tool_host) list"
  mg_default :: string
  mg_tofu :: bool
  mg_change :: "host_change option"
  mg_tests :: "host_candidate list"
  mg_commits :: "host_candidate list"

definition mg_locked :: "host_mgmt \<Rightarrow> bool" where
  "mg_locked s \<longleftrightarrow> mg_change s \<noteq> None"

section \<open>Changes\<close>

definition begin_change ::
  "trust_io \<Rightarrow> (string \<Rightarrow> bool) \<Rightarrow> (string \<times> tool_host) list \<Rightarrow> string \<Rightarrow> bool \<Rightarrow> (string \<times> dict) option \<Rightarrow> string option
     \<Rightarrow> host_mgmt \<Rightarrow> host_mgmt" where
  "begin_change io write_fails hosts d tofu result token s =
     (case stage (ti_env io) write_fails False (Some d) hosts (mg_reg s) (mg_files s) of
        (Inl e, files) \<Rightarrow> s\<lparr>mg_files := files\<rparr>
      | (Inr p, files) \<Rightarrow>
          s\<lparr>mg_files := files,
            mg_change := Some \<lparr>ch_hosts = hosts, ch_default = d, ch_tofu = tofu, ch_publication = p, ch_result = result,
                               ch_token = token\<rparr>\<rparr>)"

text \<open>The first half of \<^verbatim>\<open>commit\<close>: only a tested and confirmed candidate goes on to wait for the lock.\<close>

definition approve_commit :: "(string \<Rightarrow> bool) \<Rightarrow> py_time \<Rightarrow> string \<Rightarrow> host_mgmt \<Rightarrow> host_mgmt" where
  "approve_commit unlink_fails now token s =
     (case get_candidate unlink_fails (mg_locked s) (mg_reg s) now token (mg_enroll s) (mg_files s) of
        (res, e, files) \<Rightarrow>
          let s' = s\<lparr>mg_enroll := e, mg_files := files\<rparr>
          in case res of
               Inl err \<Rightarrow> s'
             | Inr c \<Rightarrow> if hc_tested c \<and> \<not> unconfirmed c then s'\<lparr>mg_commits := mg_commits s @ [c]\<rparr> else s')"

definition begin_commit :: "trust_io \<Rightarrow> (string \<Rightarrow> bool) \<Rightarrow> host_candidate \<Rightarrow> host_mgmt \<Rightarrow> host_mgmt" where
  "begin_commit io write_fails c s =
     (if jget (hc_alias c) (mg_hosts s) \<noteq> hc_expected c then s
      else begin_change io write_fails (jset (hc_alias c) (as_tool_host c) (mg_hosts s)) (mg_default s) (mg_tofu s)
             (case hc_test_result c of Some (x # xs) \<Rightarrow> Some (hc_alias c, x # xs) | _ \<Rightarrow> None) (Some (hc_token c)) s)"

definition begin_enable :: "trust_io \<Rightarrow> (string \<Rightarrow> bool) \<Rightarrow> string \<Rightarrow> bool \<Rightarrow> host_mgmt \<Rightarrow> host_mgmt" where
  "begin_enable io write_fails host on s =
     (case jget host (mg_hosts s) of
        None \<Rightarrow> s
      | Some h \<Rightarrow> begin_change io write_fails (jset host (h\<lparr>th_enabled := on\<rparr>) (mg_hosts s)) (mg_default s) (mg_tofu s) None None s)"

definition begin_delete :: "trust_io \<Rightarrow> (string \<Rightarrow> bool) \<Rightarrow> string \<Rightarrow> host_usage \<Rightarrow> host_mgmt \<Rightarrow> host_mgmt" where
  "begin_delete io write_fails host usage s =
     (if jget host (mg_hosts s) = None \<or> scan_host_references host usage \<noteq> [] then s
      else begin_change io write_fails (jdel host (mg_hosts s)) (mg_default s) (mg_tofu s) None None s)"

definition begin_settings :: "trust_io \<Rightarrow> (string \<Rightarrow> bool) \<Rightarrow> string option \<Rightarrow> bool option \<Rightarrow> host_mgmt \<Rightarrow> host_mgmt" where
  "begin_settings io write_fails d tofu s =
     (let d' = (case d of None \<Rightarrow> mg_default s | Some d \<Rightarrow> strip d); tofu' = (case tofu of None \<Rightarrow> mg_tofu s | Some b \<Rightarrow> b)
      in if d' \<noteq> [] \<and> jget d' (mg_hosts s) = None then s
         else begin_change io write_fails (mg_hosts s) d' tofu' None None s)"

text \<open>
  The second half: saved or not. A request that was cancelled while it was saved, or whose audit fails, is
  published all the same, but leaves its candidate behind (\<open>cancelled\<close>). A publication that failed would leave the saved hosts unpublished.
\<close>

definition record_result :: "host_change \<Rightarrow> host_registry \<Rightarrow> host_registry" where
  "record_result ch r =
     (case ch_result ch of
        Some (host, result) \<Rightarrow> if jget host (ch_hosts ch) \<noteq> None then mark_test_result host result False r else r
      | None \<Rightarrow> r)"

definition finish_change :: "(string \<Rightarrow> bool) \<Rightarrow> bool \<Rightarrow> bool \<Rightarrow> host_change \<Rightarrow> host_mgmt \<Rightarrow> host_mgmt" where
  "finish_change unlink_fails saved cancelled ch s =
     (if \<not> saved then s\<lparr>mg_change := None\<rparr>
      else
        let s1 = s\<lparr>mg_change := None, mg_hosts := ch_hosts ch, mg_default := ch_default ch, mg_tofu := ch_tofu ch\<rparr>
        in case publish_staged (ch_publication ch) (mg_reg s) of
             (Some e, r) \<Rightarrow> s1
           | (None, r) \<Rightarrow>
               let s2 = s1\<lparr>mg_reg := record_result ch r\<rparr>
               in case ch_token ch of
                    None \<Rightarrow> s2
                  | Some token \<Rightarrow>
                      if cancelled then s2
                      else (case discard_candidate unlink_fails True (record_result ch r) token (mg_enroll s) (mg_files s) of
                              (e, files) \<Rightarrow> s2\<lparr>mg_enroll := e, mg_files := files\<rparr>))"

section \<open>Steps\<close>

datatype mgmt_action =
  Prepare_candidate py_time string string bool "tool_host option" string dict "(int \<times> string) option" "string \<Rightarrow> bool"
| Import_candidate py_time string string tool_host "string option"
| Discard_candidate string "string \<Rightarrow> bool"
| Start_test py_time string "string \<Rightarrow> bool" "string \<Rightarrow> bool"
| Settle_test nat string "(int \<times> string) option" "string \<Rightarrow> bool"
| Abort_test nat "string \<Rightarrow> bool"
| Approve_commit py_time string "string \<Rightarrow> bool"
| Begin_commit nat "string \<Rightarrow> bool"
| Begin_enable string bool "string \<Rightarrow> bool"
| Begin_delete string host_usage "string \<Rightarrow> bool"
| Begin_settings "string option" "bool option" "string \<Rightarrow> bool"
| Finish_change bool bool "string \<Rightarrow> bool"
| Acquire_lease string
| Nested_lease nat
| Drop_lease nat
| Force_revoke string

definition remove_nth :: "nat \<Rightarrow> 'a list \<Rightarrow> 'a list" where
  "remove_nth i xs = take i xs @ drop (Suc i) xs"

text \<open>What waits for the lock does nothing while it is taken.\<close>

definition unlocked :: "(host_mgmt \<Rightarrow> host_mgmt) \<Rightarrow> host_mgmt \<Rightarrow> host_mgmt" where
  "unlocked f s = (if mg_locked s then s else f s)"

fun mgmt_act :: "trust_io \<Rightarrow> mgmt_action \<Rightarrow> host_mgmt \<Rightarrow> host_mgmt" where
  "mgmt_act io (Prepare_candidate now token uuid tofu existing name body scanned unlink_fails) s =
     (case prepare io unlink_fails (mg_locked s) (mg_reg s) now token uuid tofu existing name body scanned (mg_enroll s) (mg_files s) of
        (res, e, files) \<Rightarrow> s\<lparr>mg_enroll := e, mg_files := files\<rparr>)"
| "mgmt_act io (Import_candidate now token name h found) s =
     s\<lparr>mg_enroll := snd (import_legacy io now token name h found (mg_enroll s))\<rparr>"
| "mgmt_act io (Discard_candidate token unlink_fails) s =
     (case discard_candidate unlink_fails (mg_locked s) (mg_reg s) token (mg_enroll s) (mg_files s) of
        (e, files) \<Rightarrow> s\<lparr>mg_enroll := e, mg_files := files\<rparr>)"
| "mgmt_act io (Start_test now token write_fails unlink_fails) s =
     (case get_candidate unlink_fails (mg_locked s) (mg_reg s) now token (mg_enroll s) (mg_files s) of
        (Inl err, e, files) \<Rightarrow> s\<lparr>mg_enroll := e, mg_files := files\<rparr>
      | (Inr c, e, files) \<Rightarrow>
          (case start_test io write_fails (mg_reg s) c e files of
             (None, e', files') \<Rightarrow> s\<lparr>mg_enroll := e', mg_files := files', mg_tests := mg_tests s @ [c]\<rparr>
           | (Some err, e', files') \<Rightarrow>
               (case leave_test unlink_fails (mg_locked s) (mg_reg s) token e' files' of
                  (e'', files'') \<Rightarrow> s\<lparr>mg_enroll := e'', mg_files := files''\<rparr>)))"
| "mgmt_act io (Settle_test i clock finished unlink_fails) s =
     unlocked (\<lambda>s.
       if i < length (mg_tests s)
       then let c = mg_tests s ! i
            in case settle_test unlink_fails c (test_outcome io clock c finished) (mg_reg s) (mg_enroll s) (mg_files s) of
                 (r, e, files) \<Rightarrow> s\<lparr>mg_reg := r, mg_enroll := e, mg_files := files, mg_tests := remove_nth i (mg_tests s)\<rparr>
       else s) s"
| "mgmt_act io (Abort_test i unlink_fails) s =
     (if i < length (mg_tests s)
      then case leave_test unlink_fails (mg_locked s) (mg_reg s) (hc_token (mg_tests s ! i)) (mg_enroll s) (mg_files s) of
             (e, files) \<Rightarrow> s\<lparr>mg_enroll := e, mg_files := files, mg_tests := remove_nth i (mg_tests s)\<rparr>
      else s)"
| "mgmt_act io (Approve_commit now token unlink_fails) s = approve_commit unlink_fails now token s"
| "mgmt_act io (Begin_commit i write_fails) s =
     unlocked (\<lambda>s.
       if i < length (mg_commits s)
       then begin_commit io write_fails (mg_commits s ! i) (s\<lparr>mg_commits := remove_nth i (mg_commits s)\<rparr>) else s) s"
| "mgmt_act io (Begin_enable host on write_fails) s = unlocked (begin_enable io write_fails host on) s"
| "mgmt_act io (Begin_delete host usage write_fails) s = unlocked (begin_delete io write_fails host usage) s"
| "mgmt_act io (Begin_settings d tofu write_fails) s = unlocked (begin_settings io write_fails d tofu) s"
| "mgmt_act io (Finish_change saved cancelled unlink_fails) s =
     (case mg_change s of None \<Rightarrow> s | Some ch \<Rightarrow> finish_change unlink_fails saved cancelled ch s)"
| "mgmt_act io (Acquire_lease host) s = s\<lparr>mg_reg := snd (acquire host (mg_reg s))\<rparr>"
| "mgmt_act io (Nested_lease i) s = s\<lparr>mg_reg := borrow i (mg_reg s)\<rparr>"
| "mgmt_act io (Drop_lease i) s = s\<lparr>mg_reg := release_lease i (mg_reg s)\<rparr>"
| "mgmt_act io (Force_revoke host) s = s\<lparr>mg_reg := snd (force_revoke_keys host (mg_reg s))\<rparr>"

definition mgmt_run :: "trust_io \<Rightarrow> mgmt_action list \<Rightarrow> host_mgmt \<Rightarrow> host_mgmt" where
  "mgmt_run io acts s = fold (mgmt_act io) acts s"

definition start_mgmt ::
  "trust_io \<Rightarrow> (string \<Rightarrow> bool) \<Rightarrow> string \<Rightarrow> string \<Rightarrow> string \<Rightarrow> bool \<Rightarrow> (string \<times> tool_host) list \<Rightarrow> trust_files
     \<Rightarrow> registry_error + host_mgmt" where
  "start_mgmt io write_fails key_path legacy d tofu hosts files =
     (case new_host_registry (ti_env io) write_fails key_path legacy d hosts files of
        (Inl e, files') \<Rightarrow> Inl e
      | (Inr r, files') \<Rightarrow>
          Inr \<lparr>mg_reg = r, mg_files = files', mg_enroll = \<lparr>en_candidates = [], en_trust = [], en_testing = []\<rparr>,
               mg_hosts = hosts, mg_default = d, mg_tofu = tofu, mg_change = None, mg_tests = [], mg_commits = []\<rparr>)"

end
