(* ===== verification/Host_Evidence.thy ===== *)
theory Host_Evidence
  imports Host_Manage Host_Registry_Props
begin

text \<open>
  What staging and enrollment say of keys: normalised keys are stable, a staged target has its trust file and
  shows its configured host, and the keys of a candidate are the ones its evidence names.
\<close>

section \<open>Normalised keys\<close>

lemma split_words_plain:
  "list_all (\<lambda>c. \<not> is_space c) v \<Longrightarrow> split_words_from w v = (if w @ v = [] then [] else [w @ v])"
  by (induction v arbitrary: w) auto

lemma split_words_two:
  assumes "list_all (\<lambda>c. \<not> is_space c) u" "list_all (\<lambda>c. \<not> is_space c) v" "w @ u \<noteq> []" "v \<noteq> []"
  shows "split_words_from w (u @ '' '' @ v) = [w @ u, v]"
  using assms
proof (induction u arbitrary: w)
  case Nil
  have "is_space CHR '' ''" by (simp add: is_space_def)
  then show ?case using Nil split_words_plain [of v "[]"] by simp
next
  case (Cons c cs)
  then show ?case by simp
qed

lemma split_words_parts:
  "list_all (\<lambda>c. \<not> is_space c) w \<Longrightarrow>
     list_all (\<lambda>v. v \<noteq> [] \<and> list_all (\<lambda>c. \<not> is_space c) v \<and> set v \<subseteq> set w \<union> set s) (split_words_from w s)"
proof (induction s arbitrary: w)
  case (Cons c s)
  show ?case
  proof (cases "is_space c")
    case True
    have "list_all (\<lambda>v. v \<noteq> [] \<and> list_all (\<lambda>c. \<not> is_space c) v \<and> set v \<subseteq> set s) (split_words_from [] s)"
      using Cons.IH [of "[]"] by simp
    then show ?thesis using True Cons.prems by (auto simp: list_all_iff)
  next
    case False
    have "list_all (\<lambda>v. v \<noteq> [] \<and> list_all (\<lambda>c. \<not> is_space c) v \<and> set v \<subseteq> set (w @ [c]) \<union> set s) (split_words_from (w @ [c]) s)"
      by (rule Cons.IH) (use Cons.prems False in simp)
    then show ?thesis using False by (auto simp: list_all_iff)
  qed
qed auto

lemma key_type_plain: "k \<in> set KEY_TYPES \<Longrightarrow> k \<noteq> [] \<and> list_all (\<lambda>c. \<not> is_space c \<and> \<not> key_control_char c) k"
proof -
  have "list_all (\<lambda>k. k \<noteq> [] \<and> list_all (\<lambda>c. \<not> is_space c \<and> \<not> key_control_char c) k) KEY_TYPES" by code_simp
  then show "k \<in> set KEY_TYPES \<Longrightarrow> k \<noteq> [] \<and> list_all (\<lambda>c. \<not> is_space c \<and> \<not> key_control_char c) k" by (simp add: list_all_iff)
qed

lemma strip_plain_ends: "s \<noteq> [] \<Longrightarrow> \<not> is_space (hd s) \<Longrightarrow> \<not> is_space (last s) \<Longrightarrow> strip s = s"
proof -
  assume s: "s \<noteq> []" "\<not> is_space (hd s)" "\<not> is_space (last s)"
  have "dropWhile is_space s = s" using s(1,2) by (cases s) simp_all
  moreover have "dropWhile is_space (rev s) = rev s" using s(1,3) by (cases s rule: rev_cases) simp_all
  ultimately show "strip s = s" by (simp add: strip_def)
qed

text \<open>A normalised key is normalised to itself.\<close>

lemma normalize_idempotent:
  assumes "normalize_public_key b64 line = Some k"
  shows "normalize_public_key b64 k = Some k"
proof -
  let ?t = "strip line"
  have clear: "\<not> list_ex key_control_char ?t" using assms by (auto simp: normalize_public_key_def Let_def split: if_splits)
  obtain kt enc ws where ws: "dropWhile (\<lambda>w. w \<notin> set KEY_TYPES) (split_words ?t) = kt # enc # ws"
    using assms clear by (auto simp: normalize_public_key_def Let_def split: list.splits)
  have enc: "\<not> list_ex (\<lambda>c. 128 \<le> (of_char c :: nat)) enc" and k: "k = kt @ '' '' @ enc"
    and raw: "\<exists>raw. b64 enc = Some raw \<and> raw \<noteq> [] \<and> \<not> 16384 < length raw"
    using assms clear ws by (auto simp: normalize_public_key_def Let_def split: if_splits option.splits)
  have kt: "kt \<in> set KEY_TYPES" using hd_dropWhile [of "\<lambda>w. w \<notin> set KEY_TYPES" "split_words ?t"] ws by simp
  have "enc \<in> set (split_words ?t)" using set_dropWhileD [of enc "\<lambda>w. w \<notin> set KEY_TYPES" "split_words ?t"] ws by simp
  then have e: "enc \<noteq> []" "list_all (\<lambda>c. \<not> is_space c) enc" "set enc \<subseteq> set ?t"
    using split_words_parts [of "[]" ?t] by (auto simp: split_words_def list_all_iff)
  have ktp: "kt \<noteq> []" "list_all (\<lambda>c. \<not> is_space c) kt" "list_all (\<lambda>c. \<not> key_control_char c) kt"
    using key_type_plain [OF kt] by (auto simp: list_all_iff)
  have "strip k = k"
  proof (rule strip_plain_ends)
    show "k \<noteq> []" using ktp(1) by (simp add: k)
    show "\<not> is_space (hd k)" using ktp(1,2) by (cases kt) (simp_all add: k)
    show "\<not> is_space (last k)" using e(1,2) by (cases enc rule: rev_cases) (simp_all add: k)
  qed
  moreover have "\<not> list_ex key_control_char k"
    using clear ktp(3) e(3) by (auto simp: k list_ex_iff list_all_iff key_control_char_def)
  moreover have "split_words k = [kt, enc]"
    using split_words_two [OF ktp(2) e(2), of "[]"] ktp(1) e(1) by (simp add: k split_words_def)
  ultimately show ?thesis using kt enc raw k by (auto simp: normalize_public_key_def Let_def)
qed

lemma collect_normalized:
  "collect_all (normalize_public_key b64) xs = Some ks \<Longrightarrow> collect_all (normalize_public_key b64) ks = Some ks"
proof (induction xs arbitrary: ks)
  case (Cons x xs)
  then show ?case by (auto dest: normalize_idempotent split: option.splits)
qed simp

section \<open>Trust files\<close>

text \<open>Whose keys a file may hold: host, key alias, trust mode and keys; \<open>W\<close> is a set of them.\<close>

type_synonym trust_owner = "string \<times> string \<times> string \<times> string list"

definition path_filled :: "trust_owner set \<Rightarrow> host_env \<Rightarrow> string \<Rightarrow> trust_files \<Rightarrow> bool" where
  "path_filled W env path files \<longleftrightarrow>
     (\<exists>(h, a, m, ks)\<in>W. path = trust_path env h a m ks \<and> jget path files = Some (trust_lines a m ks))"

text \<open>A target with keys has a file named after its identity, with the keys of an owner of that digest.\<close>

definition owner_of :: "host_target \<Rightarrow> trust_owner" where
  "owner_of t = (ht_host_id t, ht_key_alias t, ht_trust_mode t, ht_host_keys t)"

definition trust_kept :: "trust_owner set \<Rightarrow> host_env \<Rightarrow> host_target \<Rightarrow> trust_files \<Rightarrow> bool" where
  "trust_kept W env t files \<longleftrightarrow>
     (ht_host_keys t \<noteq> [] \<longrightarrow>
        ht_known_hosts t = trust_path env (ht_host_id t) (ht_key_alias t) (ht_trust_mode t) (ht_host_keys t)
        \<and> owner_of t \<in> W \<and> path_filled W env (ht_known_hosts t) files)"

text \<open>The owners a configured host and a candidate under test write a file for.\<close>

definition config_owners :: "host_env \<Rightarrow> string \<Rightarrow> tool_host \<Rightarrow> trust_owner set" where
  "config_owners env a c =
     {(i, if th_trust_mode c = ''ca'' then th_address c else ''odin-'' @ i, th_trust_mode c, ks) | i ks.
        host_identity env a c = Some i \<and> collect_all (normalize_public_key (he_b64 env)) (th_host_keys c) = Some ks}"

definition test_owners :: "host_env \<Rightarrow> host_candidate \<Rightarrow> trust_owner set" where
  "test_owners env c =
     {(hc_host_id c, candidate_key_alias c, hc_trust_mode c, ks) | ks.
        collect_all (normalize_public_key (he_b64 env)) (hc_host_keys c) = Some ks}"

lemma materialized:
  assumes "materialize_trust env write_fails h a m keys files = (res, files')"
    and "\<And>ks. collect_all (normalize_public_key (he_b64 env)) keys = Some ks \<Longrightarrow> (h, a, m, ks) \<in> W"
  shows "path_filled W env p files \<Longrightarrow> path_filled W env p files'"
    and "res = Inr path \<Longrightarrow> collect_all (normalize_public_key (he_b64 env)) keys = Some ks \<Longrightarrow>
      path = trust_path env h a m ks \<and> path_filled W env path files'"
proof -
  have cases: "files' = files \<or> (\<exists>ks. (h, a, m, ks) \<in> W \<and> collect_all (normalize_public_key (he_b64 env)) keys = Some ks
      \<and> files' = jset (trust_path env h a m ks) (trust_lines a m ks) files)"
    using assms(1,2) by (auto simp: materialize_trust_def Let_def split: option.splits if_splits)
  then show "path_filled W env p files'" if "path_filled W env p files"
  proof
    assume "\<exists>ks. (h, a, m, ks) \<in> W \<and> collect_all (normalize_public_key (he_b64 env)) keys = Some ks
      \<and> files' = jset (trust_path env h a m ks) (trust_lines a m ks) files"
    then obtain ks where f: "(h, a, m, ks) \<in> W" "files' = jset (trust_path env h a m ks) (trust_lines a m ks) files" by blast
    show ?thesis
    proof (cases "p = trust_path env h a m ks")
      case True
      then have "jget p files' = Some (trust_lines a m ks)" by (simp add: f(2) jget_jset)
      then show ?thesis using True f(1) unfolding path_filled_def by blast
    next
      case False
      then show ?thesis using that unfolding path_filled_def f(2) by (simp add: jget_jset)
    qed
  qed (use that in simp)
  show "path = trust_path env h a m ks \<and> path_filled W env path files'"
    if "res = Inr path" "collect_all (normalize_public_key (he_b64 env)) keys = Some ks"
  proof -
    have path: "path = trust_path env h a m ks" "files' = jset path (trust_lines a m ks) files"
      using assms(1) that by (auto simp: materialize_trust_def Let_def split: if_splits)
    then have "jget path files' = Some (trust_lines a m ks)" by (simp add: jget_jset)
    then show ?thesis using path(1) assms(2) [OF that(2)] unfolding path_filled_def by blast
  qed
qed

lemma trust_kept_mono:
  assumes "\<And>p. path_filled W env p files \<Longrightarrow> path_filled W env p files'" "trust_kept W env t files"
  shows "trust_kept W env t files'"
  using assms by (auto simp: trust_kept_def)

lemma made_trust:
  assumes "path = trust_path env i ka (th_trust_mode c) keys \<and> path_filled W env path files" "(i, ka, th_trust_mode c, keys) \<in> W"
  shows "trust_kept W env (target_of a i c g kp keys path ka tg ts) files"
proof -
  have "trust_kept W env t files" if "ht_known_hosts t = path" "ht_host_id t = i" "ht_key_alias t = ka"
      "ht_trust_mode t = th_trust_mode c" "ht_host_keys t = keys" for t
    using assms that unfolding trust_kept_def owner_of_def by metis
  then show ?thesis by (simp add: target_of_def)
qed

lemma target_trust:
  assumes "target_from_config env write_fails r a c g files = (res, files')" "config_owners env a c \<subseteq> W"
  shows "path_filled W env p files \<Longrightarrow> path_filled W env p files'" "res = Inr t \<Longrightarrow> trust_kept W env t files'"
proof -
  have "(path_filled W env p files \<longrightarrow> path_filled W env p files') \<and> (\<forall>t. res = Inr t \<longrightarrow> trust_kept W env t files')"
  proof (cases "host_identity env a c")
    case None
    then show ?thesis using assms(1) by (auto simp: target_from_config_def)
  next
    case (Some i)
    note i = Some
    have plain: "trust_kept W env (target_of a i c g kp [] kh ka tg ts) files'" for kp kh ka tg ts
      by (simp add: trust_kept_def target_of_def)
    show ?thesis
    proof (cases "is_local_address (th_address c) \<or> th_trust_mode c \<notin> set [''pinned'', ''tofu'', ''ca'']
        \<or> collect_all (normalize_public_key (he_b64 env)) (th_host_keys c) \<in> {None, Some []}")
      case True
      then have "files' = files \<and> (\<forall>t. res = Inr t \<longrightarrow> ht_host_keys t = [])"
        using assms(1) i by (auto simp: target_from_config_def Let_def target_of_def split: if_splits option.splits list.splits)
      then show ?thesis by (simp add: trust_kept_def)
    next
      case False
      then have near: "\<not> is_local_address (th_address c)" and mode: "th_trust_mode c \<in> set [''pinned'', ''tofu'', ''ca'']" by blast+
      obtain k ks where keys: "collect_all (normalize_public_key (he_b64 env)) (th_host_keys c) = Some (k # ks)"
        using False by (cases "collect_all (normalize_public_key (he_b64 env)) (th_host_keys c)") (auto simp: neq_Nil_conv)
      let ?ka = "if th_trust_mode c = ''ca'' then th_address c else ''odin-'' @ i"
      obtain made f where m: "materialize_trust env write_fails i ?ka (th_trust_mode c) (k # ks) files = (made, f)" by fastforce
      have eq: "(case (made, f) of (Inl e, files') \<Rightarrow> (Inl e, files')
          | (Inr path, files') \<Rightarrow> (Inr (target_of a i c g (hr_key_path r) (k # ks) path ?ka (th_enabled c) (th_trust_mode c)), files'))
        = (res, files')"
        using assms(1) unfolding target_from_config_def i Let_def option.case if_not_P [OF near] if_P [OF mode] keys list.case m .
      then have f: "files' = f" by (cases made) auto
      have norm: "collect_all (normalize_public_key (he_b64 env)) (k # ks) = Some (k # ks)" by (rule collect_normalized [OF keys])
      have own: "(i, ?ka, th_trust_mode c, k # ks) \<in> W" using assms(2) i keys by (auto simp: config_owners_def)
      have mine: "(i, ?ka, th_trust_mode c, ls) \<in> W" if "collect_all (normalize_public_key (he_b64 env)) (k # ks) = Some ls" for ls
        using own that unfolding norm by simp
      have "trust_kept W env t files'" if "res = Inr t" for t
      proof -
        obtain path where path: "made = Inr path" "t = target_of a i c g (hr_key_path r) (k # ks) path ?ka (th_enabled c) (th_trust_mode c)"
          using eq \<open>res = Inr t\<close> by (cases made) auto
        show ?thesis
          unfolding path(2) f by (rule made_trust [OF materialized(2) [OF m mine path(1) norm] own])
      qed
      then show ?thesis using materialized(1) [OF m mine] f by blast
    qed
  qed
  then show "path_filled W env p files \<Longrightarrow> path_filled W env p files'" "res = Inr t \<Longrightarrow> trust_kept W env t files'" by blast+
qed

lemma same_trust:
  assumes "ht_known_hosts u = ht_known_hosts t" "ht_host_id u = ht_host_id t" "ht_key_alias u = ht_key_alias t"
    "ht_trust_mode u = ht_trust_mode t" "ht_host_keys u = ht_host_keys t"
  shows "trust_kept W env u files = trust_kept W env t files"
  by (simp only: trust_kept_def owner_of_def assms)

lemma fenced_trust:
  assumes "trust_kept W env t files"
  shows "trust_kept W env (fenced_target cs old t) files"
proof -
  have same: "trust_kept W env u files" if "same_identity u v" "trust_kept W env v files" for u v
    using that same_trust [of u v W env files] by (simp add: same_identity_def)
  have "trust_kept W env (collision_fenced cs t) files"
    using assms same_trust [of "collision_fenced cs t" t W env files] by (simp add: collision_fenced_def)
  then have "trust_kept W env (mismatch_kept u (collision_fenced cs t)) files" for u
    using same_trust [of "mismatch_kept u (collision_fenced cs t)" "collision_fenced cs t" W env files] by (simp add: mismatch_kept_def)
  then show ?thesis
    using same \<open>trust_kept W env (collision_fenced cs t) files\<close>
    by (cases old) (auto simp: fenced_target_def Let_def same_definition_def)
qed

lemma staged_trust:
  assumes "stage_hosts env write_fails r cs g hosts files = (res, files')" "\<And>a c. (a, c) \<in> set hosts \<Longrightarrow> config_owners env a c \<subseteq> W"
  shows "(path_filled W env p files \<longrightarrow> path_filled W env p files') \<and> (\<forall>ts. res = Inr ts \<longrightarrow> (\<forall>t\<in>snd ` set ts. trust_kept W env t files'))"
  using assms
proof (induction hosts arbitrary: files res files' p)
  case (Cons h hosts)
  obtain a c where h: "h = (a, c)" by (cases h)
  obtain made f1 where t: "target_from_config env write_fails r a c g files = (made, f1)" by fastforce
  have mine: "config_owners env a c \<subseteq> W" using Cons.prems(2) by (simp add: h)
  note t_trust = target_trust [OF t mine]
  show ?case
  proof (cases made)
    case (Inl e)
    then show ?thesis using Cons.prems(1) t t_trust(1) by (auto simp: h)
  next
    case (Inr t0)
    obtain rest f2 where rs: "stage_hosts env write_fails r cs g hosts f1 = (rest, f2)" by fastforce
    have later: "config_owners env b d \<subseteq> W" if "(b, d) \<in> set hosts" for b d using Cons.prems(2) that by simp
    note IH = Cons.IH [OF rs later]
    have f: "files' = f2" and ts: "\<And>ts. res = Inr ts \<Longrightarrow> \<exists>us. rest = Inr us \<and> ts = (a, fenced_target cs (jget a (hr_snapshot r)) t0) # us"
      using Cons.prems(1) Inr t rs by (cases rest; auto simp: h)+
    have "trust_kept W env (fenced_target cs (jget a (hr_snapshot r)) t0) f2"
      by (rule trust_kept_mono [OF _ fenced_trust [OF t_trust(2) [OF Inr]]]) (use IH in blast)
    then show ?thesis using IH t_trust(1) ts unfolding f by fastforce
  qed
qed simp

section \<open>Published as configured\<close>

definition strict_mode :: "string \<Rightarrow> bool" where
  "strict_mode mode \<longleftrightarrow> mode \<in> {''pinned'', ''tofu'', ''ca''}"

definition configured_keys :: "host_env \<Rightarrow> tool_host \<Rightarrow> string list" where
  "configured_keys env c =
     (if is_local_address (th_address c) \<or> \<not> strict_mode (th_trust_mode c) then []
      else case collect_all (normalize_public_key (he_b64 env)) (th_host_keys c) of None \<Rightarrow> [] | Some ks \<Rightarrow> ks)"

text \<open>
  A published target shows the configured host with the configured keys. It is targetable if the host is
  enabled, has keys where it is remote and its trust mode is strict, and is not blocked.
\<close>

definition blocked_state :: "string \<Rightarrow> bool" where
  "blocked_state state \<longleftrightarrow> state \<in> {''mismatch'', ''identity_collision''}"

definition described :: "host_env \<Rightarrow> tool_host \<Rightarrow> host_target \<Rightarrow> bool" where
  "described env c t \<longleftrightarrow>
     ht_address t = th_address c \<and> ht_user t = th_user c \<and> ht_os t = th_os c \<and> ht_port t = th_port c
     \<and> ht_description t = th_description c \<and> ht_enabled t = th_enabled c \<and> ht_trust_mode t = th_trust_mode c
     \<and> ht_host_keys t = configured_keys env c
     \<and> (ht_targetable t \<longleftrightarrow> th_enabled c \<and> \<not> blocked_state (ht_trust_state t)
          \<and> (\<not> is_local_address (th_address c) \<and> strict_mode (th_trust_mode c) \<longrightarrow> configured_keys env c \<noteq> []))"

definition inventory_matches :: "host_env \<Rightarrow> (string \<times> host_target) list \<Rightarrow> (string \<times> tool_host) list \<Rightarrow> bool" where
  "inventory_matches env ts hosts \<longleftrightarrow>
     map fst ts = map fst hosts
     \<and> (\<forall>a t c. jget a ts = Some t \<and> jget a hosts = Some c \<longrightarrow>
          described env c t \<and> ht_alias t = a \<and> host_identity env a c = Some (ht_host_id t))"

lemma target_described:
  assumes "target_from_config env write_fails r a c g files = (Inr t, files')"
    and "th_trust_mode c \<in> set [''legacy'', ''pinned'', ''ca'', ''tofu'']"
  shows "described env c t"
proof -
  have clear: "\<not> blocked_state (th_trust_mode c)" using assms(2) by (auto simp: blocked_state_def)
  obtain i where i: "host_identity env a c = Some i"
    using assms by (cases "host_identity env a c") (simp_all add: target_from_config_def)
  have made: "described env c (target_of a i c g kp keys kh ka tg ts)"
    if "keys = configured_keys env c" "\<not> blocked_state ts"
      "tg \<longleftrightarrow> th_enabled c \<and> (\<not> is_local_address (th_address c) \<and> strict_mode (th_trust_mode c) \<longrightarrow> keys \<noteq> [])" for kp keys kh ka tg ts
    using that by (simp add: described_def target_of_def)
  show ?thesis
  proof (cases "is_local_address (th_address c)")
    case True
    then have "t = target_of a i c g (hr_key_path r) [] (hr_legacy_known_hosts r) [] (th_enabled c) ''local''"
      using assms(1) unfolding target_from_config_def i Let_def option.case if_P [OF True] by simp
    then show ?thesis using made [of "[]" "''local''" "th_enabled c"] True by (simp add: configured_keys_def blocked_state_def)
  next
    case near: False
    show ?thesis
    proof (cases "th_trust_mode c \<in> set [''pinned'', ''tofu'', ''ca'']")
      case mode: False
      then have "\<not> strict_mode (th_trust_mode c)" by (simp add: strict_mode_def)
      moreover have "t = target_of a i c g (hr_key_path r) [] (hr_legacy_known_hosts r) [] (th_enabled c) (th_trust_mode c)"
        using assms(1) unfolding target_from_config_def i Let_def option.case if_not_P [OF near] if_not_P [OF mode] by simp
      ultimately show ?thesis using made [of "[]" "th_trust_mode c" "th_enabled c"] clear by (simp add: configured_keys_def)
    next
      case mode: True
      then have strict: "strict_mode (th_trust_mode c)" by (auto simp: strict_mode_def)
      note unfold = assms(1) [unfolded target_from_config_def i Let_def option.case if_not_P [OF near] if_P [OF mode]]
      show ?thesis
      proof (cases "collect_all (normalize_public_key (he_b64 env)) (th_host_keys c)")
        case None
        then have "t = target_of a i c g (hr_key_path r) [] (hr_legacy_known_hosts r) [] False ''invalid''" using unfold by simp
        then show ?thesis using made [of "[]" "''invalid''" False] None near strict by (simp add: configured_keys_def blocked_state_def)
      next
        case (Some keys)
        show ?thesis
        proof (cases keys)
          case Nil
          then have "t = target_of a i c g (hr_key_path r) [] (hr_legacy_known_hosts r) [] False ''invalid''" using unfold Some by simp
          then show ?thesis using made [of "[]" "''invalid''" False] Some Nil near strict by (simp add: configured_keys_def blocked_state_def)
        next
          case (Cons k ks)
          let ?ka = "if th_trust_mode c = ''ca'' then th_address c else ''odin-'' @ i"
          obtain res f where m: "materialize_trust env write_fails i ?ka (th_trust_mode c) (k # ks) files = (res, f)" by fastforce
          have "(case (res, f) of (Inl e, files') \<Rightarrow> (Inl e, files')
              | (Inr path, files') \<Rightarrow> (Inr (target_of a i c g (hr_key_path r) (k # ks) path ?ka (th_enabled c) (th_trust_mode c)), files'))
            = (Inr t, files')"
            using unfold unfolding Some Cons option.case list.case m .
          then obtain path where "t = target_of a i c g (hr_key_path r) (k # ks) path ?ka (th_enabled c) (th_trust_mode c)"
            by (cases res) auto
          then show ?thesis using made [of "k # ks" "th_trust_mode c" "th_enabled c"] near strict Some Cons clear by (simp add: configured_keys_def)
        qed
      qed
    qed
  qed
qed

lemma described_cong:
  assumes "described env c t" "ht_address u = ht_address t" "ht_user u = ht_user t" "ht_os u = ht_os t" "ht_port u = ht_port t"
    "ht_description u = ht_description t" "ht_enabled u = ht_enabled t" "ht_trust_mode u = ht_trust_mode t"
    "ht_host_keys u = ht_host_keys t"
    "ht_targetable u = ht_targetable t \<and> ht_trust_state u = ht_trust_state t \<or> \<not> ht_targetable u \<and> blocked_state (ht_trust_state u)"
  shows "described env c u"
  using assms(1,10) unfolding described_def assms(2-9) by metis

lemma fenced_described:
  assumes "described env c t"
  shows "described env c (fenced_target cs old t)"
proof -
  have c: "described env c (collision_fenced cs t)"
    by (rule described_cong [OF assms]) (simp_all add: collision_fenced_def blocked_state_def)
  have m: "described env c (mismatch_kept u (collision_fenced cs t))" for u
    by (rule described_cong [OF c]) (simp_all add: mismatch_kept_def blocked_state_def)
  have s: "described env c u" if "same_definition u v" "described env c v" for u v
    by (rule described_cong [OF that(2)]) (use that(1) in \<open>simp_all add: same_definition_def same_identity_def\<close>)
  show ?thesis using c m s by (cases old) (auto simp: fenced_target_def Let_def)
qed

lemma fenced_alias [simp]: "ht_alias (fenced_target cs old t) = ht_alias t"
  by (cases old) (simp_all add: fenced_target_def Let_def same_definition_def same_identity_def)

lemma fenced_host_id [simp]: "ht_host_id (fenced_target cs old t) = ht_host_id t"
  by (cases old) (simp_all add: fenced_target_def Let_def same_definition_def same_identity_def)

lemma distinct_count: "distinct xs \<longleftrightarrow> (\<forall>x\<in>set xs. count_list xs x \<le> 1)"
proof (induction xs)
  case (Cons y ys)
  have "count_list ys y = 0 \<longleftrightarrow> y \<notin> set ys" by (rule count_list_0_iff)
  then show ?case using Cons by (auto split: if_splits)
qed simp

lemma collisions_none: "collisions_of ids = [] \<longleftrightarrow> distinct ids"
  by (auto simp: collisions_of_def filter_empty_conv distinct_count not_less)

definition shows_host :: "host_env \<Rightarrow> string \<times> tool_host \<Rightarrow> string \<times> host_target \<Rightarrow> bool" where
  "shows_host env p q \<longleftrightarrow>
     fst q = fst p \<and> described env (snd p) (snd q) \<and> ht_alias (snd q) = fst p
     \<and> host_identity env (fst p) (snd p) = Some (ht_host_id (snd q))"

lemma staged_one:
  assumes "\<exists>t f f'. target_from_config env write_fails r (fst p) (snd p) g f = (Inr t, f')
     \<and> q = (fst p, fenced_target cs (jget (fst p) (hr_snapshot r)) t)"
    and "th_trust_mode (snd p) \<in> set [''legacy'', ''pinned'', ''ca'', ''tofu'']"
  shows "shows_host env p q"
proof -
  obtain t f f' where t: "target_from_config env write_fails r (fst p) (snd p) g f = (Inr t, f')"
      "q = (fst p, fenced_target cs (jget (fst p) (hr_snapshot r)) t)" using assms(1) by blast
  show ?thesis
    using target_fields [OF t(1)] fenced_described [OF target_described [OF t(1) assms(2)]] by (simp add: t(2) shows_host_def)
qed

lemma staged_shape:
  assumes "stage_hosts env write_fails r cs g hosts files = (Inr ts, files')" "inventory_ok hosts"
  shows "map fst ts = map fst hosts \<and> list_all2 (shows_host env) hosts ts"
proof
  show "map fst ts = map fst hosts" using staged_hosts [OF assms(1)] by (rule conjunct1)
  note made = conjunct2 [OF staged_hosts [OF assms(1)], unfolded list_all2_conv_all_nth]
  have mode: "th_trust_mode (snd (hosts ! i)) \<in> set [''legacy'', ''pinned'', ''ca'', ''tofu'']" if "i < length hosts" for i
    using assms(2) that unfolding inventory_ok_def list_all_length by blast
  show "list_all2 (shows_host env) hosts ts"
    unfolding list_all2_conv_all_nth
  proof (intro conjI allI impI)
    show "length hosts = length ts" using made by (rule conjunct1)
    fix i assume i: "i < length hosts"
    show "shows_host env (hosts ! i) (ts ! i)"
      by (rule staged_one [OF _ mode [OF i]]) (use conjunct2 [OF made] i in blast)
  qed
qed

lemma shape_matches:
  assumes "list_all2 (shows_host env) hosts ts" "map fst ts = map fst hosts" "distinct (map fst hosts)"
  shows "inventory_matches env ts hosts"
    and "map (\<lambda>p. host_identity env (fst p) (snd p)) hosts = map (\<lambda>q. Some (ht_host_id (snd q))) ts"
proof -
  have nth: "length hosts = length ts" "\<And>i. i < length hosts \<Longrightarrow> shows_host env (hosts ! i) (ts ! i)"
    using assms(1) by (auto simp: list_all2_conv_all_nth)
  show "map (\<lambda>p. host_identity env (fst p) (snd p)) hosts = map (\<lambda>q. Some (ht_host_id (snd q))) ts"
    using nth by (intro nth_equalityI) (simp_all add: shows_host_def)
  have "shows_host env (a, c) (a, t)" if m: "jget a ts = Some t" "jget a hosts = Some c" for a t c
  proof -
    obtain i where i: "i < length ts" "ts ! i = (a, t)" using jget_in [OF m(1)] unfolding in_set_conv_nth by blast
    then have sh: "shows_host env (hosts ! i) (a, t)" using nth(1) nth(2) [of i] by simp
    have "hosts ! i \<in> set hosts" using i(1) nth(1) by simp
    then have "jget (fst (hosts ! i)) hosts = Some (snd (hosts ! i))" by (intro in_jget [OF assms(3)]) simp
    then have "hosts ! i = (a, c)" using sh m(2) by (simp add: shows_host_def prod_eq_iff)
    then show ?thesis using sh by simp
  qed
  then have "described env c t \<and> ht_alias t = a \<and> host_identity env a c = Some (ht_host_id t)"
    if "jget a ts = Some t" "jget a hosts = Some c" for a t c
    using that by (simp add: shows_host_def)
  then show "inventory_matches env ts hosts" using assms(2) unfolding inventory_matches_def by blast
qed

lemma stage_matches:
  assumes "stage env write_fails boot d hosts r files = (Inr p, files')" "inventory_ok hosts"
  shows "inventory_matches env (pb_snapshot p) hosts"
    and "(boot \<Longrightarrow> distinct (map (\<lambda>p. host_identity env (fst p) (snd p)) hosts)) \<Longrightarrow> distinct (map (ht_host_id \<circ> snd) (pb_snapshot p))"
    and "pb_expected p = hr_generation r" "pb_generation p = hr_generation r + 1"
    and "pb_default p = (case d of None \<Rightarrow> hr_default r | Some d \<Rightarrow> d)"
    and "(\<And>a c. (a, c) \<in> set hosts \<Longrightarrow> config_owners env a c \<subseteq> W) \<Longrightarrow> \<forall>t\<in>snd ` set (pb_snapshot p). trust_kept W env t files'"
proof -
  obtain ids where ids: "collect_all (\<lambda>p. host_identity env (fst p) (snd p)) hosts = Some ids"
    using assms(1) by (cases "collect_all (\<lambda>p. host_identity env (fst p) (snd p)) hosts") (simp_all add: stage_def)
  let ?cs = "collisions_of ids" and ?g = "hr_generation r + 1"
  have free: "\<not> (?cs \<noteq> [] \<and> \<not> boot)"
  proof
    assume "?cs \<noteq> [] \<and> \<not> boot"
    then show False using assms(1) ids by (simp add: stage_def Let_def)
  qed
  obtain res f where st: "stage_hosts env write_fails r ?cs ?g hosts files = (res, f)" by fastforce
  obtain ts where ts: "res = Inr ts" "files' = f" "p = \<lparr>pb_expected = hr_generation r, pb_generation = ?g,
      pb_default = (case d of None \<Rightarrow> hr_default r | Some d \<Rightarrow> d), pb_snapshot = ts\<rparr>"
    using assms(1) ids free st by (cases res) (auto simp: stage_def Let_def)
  have dist: "distinct (map fst hosts)" using assms(2) by (simp add: inventory_ok_def)
  note shape = staged_shape [OF st [unfolded ts(1)] assms(2)]
  note m = shape_matches [OF conjunct2 [OF shape] conjunct1 [OF shape] dist]
  show "inventory_matches env (pb_snapshot p) hosts" using m(1) by (simp add: ts(3))
  have same: "ids = map (ht_host_id \<circ> snd) ts"
  proof -
    have "ids = map (\<lambda>x. the (host_identity env (fst x) (snd x))) hosts" using collected [OF ids] by simp
    also have "\<dots> = map the (map (\<lambda>x. host_identity env (fst x) (snd x)) hosts)" by simp
    also have "\<dots> = map (ht_host_id \<circ> snd) ts" unfolding m(2) by simp
    finally show ?thesis .
  qed
  show "distinct (map (ht_host_id \<circ> snd) (pb_snapshot p))"
    if differ: "boot \<Longrightarrow> distinct (map (\<lambda>p. host_identity env (fst p) (snd p)) hosts)"
  proof -
    have "distinct ids"
    proof (cases boot)
      case True
      have "map (\<lambda>p. host_identity env (fst p) (snd p)) hosts = map Some ids" unfolding m(2) same by simp
      then show ?thesis using differ [OF True] by (simp add: distinct_map)
    qed (use free collisions_none in blast)
    then show ?thesis by (simp add: ts(3) same)
  qed
  show "pb_expected p = hr_generation r" "pb_generation p = hr_generation r + 1"
    "pb_default p = (case d of None \<Rightarrow> hr_default r | Some d \<Rightarrow> d)" by (simp_all add: ts(3))
  show "\<forall>t\<in>snd ` set (pb_snapshot p). trust_kept W env t files'"
    if own: "\<And>a c. (a, c) \<in> set hosts \<Longrightarrow> config_owners env a c \<subseteq> W"
    using staged_trust [OF st own, THEN conjunct2] ts by simp
qed

section \<open>Candidates\<close>

definition keyed :: "host_env \<Rightarrow> string \<Rightarrow> string list \<Rightarrow> bool" where
  "keyed env mode keys \<longleftrightarrow> (strict_mode mode \<longrightarrow> keys \<noteq> [] \<and> collect_all (normalize_public_key (he_b64 env)) keys \<noteq> None)"

definition candidate_ok :: "host_env \<Rightarrow> host_candidate \<Rightarrow> bool" where
  "candidate_ok env c \<longleftrightarrow>
     hc_trust_mode c \<in> set [''legacy'', ''pinned'', ''ca'', ''tofu''] \<and> keyed env (hc_trust_mode c) (hc_host_keys c)"

lemma collect_all_iff: "collect_all f xs \<noteq> None \<longleftrightarrow> (\<forall>x\<in>set xs. f x \<noteq> None)"
  by (induction xs) (auto split: option.split)

lemma collect_all_Nil: "collect_all f xs = Some [] \<longleftrightarrow> xs = []"
  by (cases xs) (auto split: option.splits)

lemma fingerprint_key: "fingerprint_public_key io k = Some f \<Longrightarrow> normalize_public_key (ti_b64 io) k \<noteq> None"
  by (auto simp: fingerprint_public_key_def split: option.splits)

lemma fingerprints_keyed: "fingerprints_of io keys = Inr fs \<Longrightarrow> keys \<noteq> [] \<Longrightarrow> keyed (ti_env io) mode keys"
proof -
  assume fs: "fingerprints_of io keys = Inr fs" "keys \<noteq> []"
  then have "\<forall>k\<in>set keys. fingerprint_public_key io k \<noteq> None"
    using collect_all_iff [of "fingerprint_public_key io" keys] by (auto simp: fingerprints_of_def split: option.splits)
  then have "\<forall>k\<in>set keys. normalize_public_key (ti_b64 io) k \<noteq> None" using fingerprint_key by blast
  then show ?thesis using fs(2) collect_all_iff unfolding keyed_def by blast
qed

text \<open>What the operator's fingerprints say of the keys that are kept.\<close>

lemma attempt_all_set: "attempt_all f xs = Inr ys \<Longrightarrow> (\<forall>y\<in>set ys. \<exists>x\<in>set xs. f x = Inr y)"
proof (induction xs arbitrary: ys)
  case (Cons x xs)
  then obtain y zs where y: "f x = Inr y" "attempt_all f xs = Inr zs" "ys = y # zs" by auto
  then show ?case using Cons.IH [OF y(2)] by auto
qed simp

lemma pinned_evidence:
  assumes "pinned_keys io expected keys fs = Inr (ks, fs')" "fingerprints_of io keys = Inr fs"
  shows "ks \<noteq> [] \<and> fingerprints_of io ks = Inr fs' \<and> set ks \<subseteq> set keys
    \<and> (\<forall>k\<in>set ks. \<exists>f v. fingerprint_public_key io k = Some f \<and> fingerprint_pattern f \<and> v \<in> set (items expected)
         \<and> clean_line v ''fingerprint'' 80 True = Inr f)"
proof -
  obtain v vs where e: "expected = JList (v # vs)"
    using assms(1) by (auto simp: pinned_keys_def split: json.splits list.splits)
  obtain named where n: "attempt_all (\<lambda>v. clean_line v ''fingerprint'' 80 True) (v # vs) = Inr named" "list_all fingerprint_pattern named"
      "list_ex (\<lambda>f. f \<in> set fs) named"
      "ks = filter (\<lambda>k. \<exists>f\<in>set named. fingerprint_public_key io k = Some f) keys" "fingerprints_of io ks = Inr fs'"
    using assms(1) unfolding pinned_keys_def e by (auto simp: Let_def)
  have "fs = map (\<lambda>k. the (fingerprint_public_key io k)) keys" "\<forall>k\<in>set keys. fingerprint_public_key io k \<noteq> None"
    using assms(2) collect_all_iff [of "fingerprint_public_key io" keys]
    by (auto simp: fingerprints_of_def dest: collected split: option.splits)
  then obtain k where "k \<in> set ks" using n(3) by (force simp: n(4) list_ex_iff)
  moreover have "\<exists>x\<in>set (v # vs). clean_line x ''fingerprint'' 80 True = Inr f" if "f \<in> set named" for f
    using attempt_all_set [OF n(1)] that by blast
  ultimately show ?thesis using n(2,4,5) by (fastforce simp: e items_def list_all_iff)
qed

lemma scan_nonempty: "scan_result io ca finished = Inr keys \<Longrightarrow> keys \<noteq> []"
  by (auto simp: scan_result_def Let_def split: option.splits)

lemma validated_mode:
  "validate_host_details scrub name body = Inr d \<Longrightarrow> hd_trust_mode d \<in> set [''legacy'', ''pinned'', ''ca'', ''tofu'']"
  by (auto simp: validate_host_details_def)

lemma judged_ok:
  assumes "judge_evidence io tofu existing body scanned d = Inr ev" "hd_trust_mode d \<in> set [''legacy'', ''pinned'', ''ca'', ''tofu'']"
  shows "ev_trust_mode ev \<in> set [''legacy'', ''pinned'', ''ca'', ''tofu''] \<and> keyed (ti_env io) (ev_trust_mode ev) (ev_keys ev)"
proof (cases "is_local_address (hd_address d) \<or> hd_trust_mode d = ''legacy''")
  case True
  then have "ev_trust_mode ev = ''legacy''" using assms(1) by (auto simp: judge_evidence_def Let_def split: if_splits)
  then show ?thesis by (simp add: keyed_def strict_mode_def)
next
  case False
  then obtain keys fs where k: "scan_result io (hd_trust_mode d = ''ca'') scanned = Inr keys" "fingerprints_of io keys = Inr fs"
    using assms(1) by (auto simp: judge_evidence_def Let_def)
  show ?thesis
  proof (cases "hd_trust_mode d \<in> set [''pinned'', ''ca'']")
    case mode: True
    then obtain ks fs' where p: "pinned_keys io (as_list (fget ''expected_fingerprints'' body)) keys fs = Inr (ks, fs')"
        "ev_trust_mode ev = hd_trust_mode d" "ev_keys ev = ks"
      using assms(1) False k by (auto simp: judge_evidence_def Let_def)
    then show ?thesis using pinned_evidence [OF p(1) k(2)] fingerprints_keyed mode by auto
  next
    case mode: False
    then have "ev_trust_mode ev = hd_trust_mode d" "ev_keys ev = keys"
      using assms(1) False k by (auto simp: judge_evidence_def Let_def)
    then show ?thesis using fingerprints_keyed [OF k(2) scan_nonempty [OF k(1)]] assms(2) by simp
  qed
qed

lemma prepared_ok:
  assumes "prepare_candidate io now token uuid tofu existing name body scanned = Inr c"
  shows "candidate_ok (ti_env io) c"
proof -
  obtain d ev where d: "validate_host_details (ti_scrub io) (JStr name) body = Inr d"
      "judge_evidence io tofu existing body scanned d = Inr ev" "hc_trust_mode c = ev_trust_mode ev" "hc_host_keys c = ev_keys ev"
    using assms by (auto simp: prepare_candidate_def)
  then show ?thesis using judged_ok [OF d(2) validated_mode [OF d(1)]] by (simp add: candidate_ok_def)
qed

lemma imported_ok:
  assumes "import_candidate io now token name h found = Inr c"
  shows "candidate_ok (ti_env io) c"
proof -
  obtain fs where "fingerprints_of io (hc_host_keys c) = Inr fs" "hc_host_keys c \<noteq> []" "hc_trust_mode c = ''pinned''"
    using assms by (auto simp: import_candidate_def Let_def split: option.splits)
  then show ?thesis using fingerprints_keyed by (simp add: candidate_ok_def)
qed

lemma keyed_configured:
  assumes "candidate_ok env c" "strict_mode (hc_trust_mode c)" "\<not> is_local_address (hc_address c)"
  shows "configured_keys env (as_tool_host c) \<noteq> []"
  using assms collect_all_Nil [of "normalize_public_key (he_b64 env)" "hc_host_keys c"]
  by (auto simp: candidate_ok_def keyed_def configured_keys_def as_tool_host_def)

end
