(* ===== verification/Host_Manage_Inv.thy ===== *)
theory Host_Manage_Inv
  imports Host_Evidence
begin

text \<open>
  The invariant of host management: what is published is what is configured, generations are told apart by
  their runtime key, and every published, draining or staged generation has its trust file.
\<close>

section \<open>Generations in use\<close>

definition in_use :: "host_registry \<Rightarrow> host_target set" where
  "in_use r = published r \<union> draining r"

definition keys_apart :: "host_registry \<Rightarrow> bool" where
  "keys_apart r \<longleftrightarrow> inj_on runtime_key (in_use r)"

lemma in_use_known: "in_use r \<subseteq> known [] r"
  by (auto simp: in_use_def known_def)

lemma referenced:
  assumes "placed [] r" "keys_apart r" "t \<in> in_use r"
  shows "ht_known_hosts t \<in> set (registry_trust_paths r)"
proof -
  have "jhas (runtime_key t) (all_runtime_targets r)" using runtime_targets(2) [OF assms(1)] assms(3) by (simp add: in_use_def)
  then obtain u where u: "(runtime_key t, u) \<in> set (all_runtime_targets r)" by (auto simp: jhas_iff dest: jget_in)
  then have "u \<in> in_use r" "runtime_key u = runtime_key t"
    using runtime_targets(1) [OF assms(1)] by (auto simp: in_use_def)
  then have "u = t" using assms(2,3) by (auto simp: keys_apart_def inj_on_def)
  then show ?thesis using u by (force simp: registry_trust_paths_def)
qed

lemma apart_renewed:
  assumes "told_apart [] r" "keys_apart r" "in_use r' \<subseteq> in_use r \<union> new"
    and "\<And>t. t \<in> new \<Longrightarrow> hr_generation r < ht_generation t"
    and "\<And>t u. t \<in> new \<Longrightarrow> u \<in> new \<Longrightarrow> runtime_key t = runtime_key u \<Longrightarrow> t = u"
  shows "keys_apart r'"
  unfolding keys_apart_def
proof (rule inj_onI)
  fix t u assume m: "t \<in> in_use r'" "u \<in> in_use r'" "runtime_key t = runtime_key u"
  have gen: "ht_generation t = ht_generation u" using m(3) by (simp add: runtime_key_def runtime_key_inj)
  have old: "ht_generation v \<le> hr_generation r" if "v \<in> in_use r" for v
    using assms(1) in_use_known [of r] that by (auto simp: told_apart_def)
  have "t \<in> in_use r \<and> u \<in> in_use r \<or> t \<in> new \<and> u \<in> new"
    using m(1,2) assms(3) old [of t] old [of u] assms(4) [of t] assms(4) [of u] gen by fastforce
  then show "t = u" using assms(2,5) m(3) by (auto simp: keys_apart_def inj_on_def)
qed

lemma retires_use:
  "in_use (fold retire_target ts r) \<subseteq> in_use r \<union> set ts"
proof (induction ts arbitrary: r)
  case (Cons t ts)
  have "in_use (retire_target t r) \<subseteq> in_use r \<union> {t}"
    using jset_subset [of "runtime_key t" t "hr_retired r"]
    by (auto simp: retire_target_def Let_def in_use_def published_def draining_def finish_simps set_jdel)
  then show ?case using Cons.IH [of "retire_target t r"] by auto
qed simp

lemma release_use: "in_use (release_lease i r) \<subseteq> in_use r"
proof -
  have "in_use (release_key k r') \<subseteq> in_use r'" for k r'
    by (auto simp: release_key_def Let_def in_use_def published_def draining_def finish_simps set_jdel)
  from this [of _ "r\<lparr>hr_leases := ls\<rparr>" for ls] show ?thesis
    by (auto simp: release_lease_def Let_def in_use_def published_def draining_def)
qed

lemma places_use: "same_places r r' \<Longrightarrow> in_use r' = in_use r"
  by (simp add: in_use_def same_places_sets)

lemma mark_use:
  assumes "reg_ok [] r" "jget a (hr_snapshot r) = Some old"
  shows "in_use (mark_test_result a result mismatch r) \<subseteq> in_use r \<union> {tested_target result mismatch (hr_generation r + 1) old}"
    and "hr_snapshot (mark_test_result a result mismatch r) = jset a (tested_target result mismatch (hr_generation r + 1) old) (hr_snapshot r)"
    and "hr_generation (mark_test_result a result mismatch r) = hr_generation r + 1"
proof -
  let ?new = "tested_target result mismatch (hr_generation r + 1) old"
  let ?r = "r\<lparr>hr_generation := hr_generation r + 1, hr_snapshot := jset a ?new (hr_snapshot r)\<rparr>"
  have m: "mark_test_result a result mismatch r = retire_target old ?r" using assms(2) by (simp add: mark_test_result_def Let_def)
  have "old \<in> in_use r" using jget_in [OF assms(2)] by (force simp: in_use_def published_def)
  moreover have "in_use ?r \<subseteq> in_use r \<union> {?new}"
    using jset_subset [of a ?new "hr_snapshot r"] by (auto simp: in_use_def published_def draining_def)
  ultimately show "in_use (mark_test_result a result mismatch r) \<subseteq> in_use r \<union> {?new}"
    using retires_use [of "[old]" ?r] unfolding m by auto
  show "hr_snapshot (mark_test_result a result mismatch r) = jset a ?new (hr_snapshot r)"
    "hr_generation (mark_test_result a result mismatch r) = hr_generation r + 1"
    using retire_inventory [of ?r old] unfolding m by (simp_all add: same_inventory_def)
qed

lemma publish_use:
  assumes "placed [] r" "staged_ok p r" "fst (publish_staged p r) = None"
  shows "in_use (snd (publish_staged p r)) \<subseteq> in_use r \<union> snd ` set (pb_snapshot p)"
    and "t \<in> snd ` set (pb_snapshot p) \<Longrightarrow> t \<in> in_use r \<or> hr_generation r < ht_generation t"
proof -
  have p: "hr_generation r = pb_expected p" "distinct (map (ht_host_id \<circ> snd) (pb_snapshot p))"
      "snd (publish_staged p r) = fold retire_target (replaced (pb_snapshot p) r) (published_as p r)"
    using publish_cases [of p r] assms(3) by auto
  have "set (replaced (pb_snapshot p) r) \<subseteq> published r"
    using replaced_set(1) [OF assms(1) staged_renews [OF assms(2) p(1,2)]] by blast
  then show "in_use (snd (publish_staged p r)) \<subseteq> in_use r \<union> snd ` set (pb_snapshot p)"
    using retires_use [of "replaced (pb_snapshot p) r" "published_as p r"] unfolding p(3)
    by (auto simp: in_use_def published_def draining_def published_as_def)
  show "t \<in> in_use r \<or> hr_generation r < ht_generation t" if t: "t \<in> snd ` set (pb_snapshot p)"
  proof -
    obtain a where "(a, t) \<in> set (pb_snapshot p)" using t by auto
    then have "ht_generation t = pb_generation p \<or> jget a (hr_snapshot r) = Some t"
      using assms(2) p(1) by (auto simp: staged_ok_def)
    then show ?thesis using assms(2) p(1) by (auto simp: staged_ok_def in_use_def published_def dest!: jget_in) force
  qed
qed

lemma publish_apart:
  assumes "reg_ok [] r" "staged_ok p r" "keys_apart r"
  shows "keys_apart (snd (publish_staged p r))"
proof (cases "fst (publish_staged p r)")
  case None
  note use = publish_use [OF reg_okD(1) [OF assms(1)] assms(2) None]
  have p: "distinct (map (ht_host_id \<circ> snd) (pb_snapshot p))" using publish_cases [of p r] None by auto
  show ?thesis
  proof (rule apart_renewed [OF reg_okD(2) [OF assms(1)] assms(3)])
    show "in_use (snd (publish_staged p r)) \<subseteq> in_use r \<union> (snd ` set (pb_snapshot p) - in_use r)" using use(1) by blast
    show "hr_generation r < ht_generation t" if "t \<in> snd ` set (pb_snapshot p) - in_use r" for t using use(2) that by blast
    fix t u assume "t \<in> snd ` set (pb_snapshot p) - in_use r" "u \<in> snd ` set (pb_snapshot p) - in_use r" "runtime_key t = runtime_key u"
    then obtain a b where "(a, t) \<in> set (pb_snapshot p)" "(b, u) \<in> set (pb_snapshot p)" "ht_host_id t = ht_host_id u"
      by (auto simp: runtime_key_def runtime_key_inj)
    then show "t = u" using distinct_map_key_unique [OF p] by fastforce
  qed
next
  case (Some e)
  then have "snd (publish_staged p r) = r" using publish_cases [of p r] by auto
  then show ?thesis using assms(3) by simp
qed

lemma mark_apart:
  assumes "reg_ok [] r" "keys_apart r"
  shows "keys_apart (mark_test_result a result mismatch r)"
proof (cases "jget a (hr_snapshot r)")
  case None
  then show ?thesis using assms(2) by (simp add: mark_test_result_def)
next
  case (Some old)
  show ?thesis
    by (rule apart_renewed [OF reg_okD(2) [OF assms(1)] assms(2) mark_use(1) [OF assms(1) Some]]) (auto simp: tested_fields)
qed

text \<open>Only a publication changes the default host.\<close>

lemma default_kept [simp]:
  "hr_default (finish_retirement k r) = hr_default r" "hr_default (retire_target t r) = hr_default r"
  "hr_default (release_key k r) = hr_default r" "hr_default (trip k r) = hr_default r"
  "hr_default (borrow i r) = hr_default r" "hr_default (snd (acquire a r)) = hr_default r"
  by (simp_all add: finish_retirement_def retire_target_def release_key_def trip_def ensure_event_def borrow_def acquire_def Let_def
      split: option.splits)

lemma default_kept_runs [simp]:
  "hr_default (release_lease i r) = hr_default r" "hr_default (mark_test_result a result mismatch r) = hr_default r"
  "hr_default (fold retire_target ts r) = hr_default r" "hr_default (snd (force_revoke_keys a r)) = hr_default r"
proof -
  show "hr_default (release_lease i r) = hr_default r" by (simp add: release_lease_def Let_def)
  show "hr_default (mark_test_result a result mismatch r) = hr_default r"
    by (simp add: mark_test_result_def Let_def split: option.split)
  show "hr_default (fold retire_target ts r) = hr_default r" by (induction ts arbitrary: r) simp_all
  have "hr_default (fold trip ks r) = hr_default r" for ks by (induction ks arbitrary: r) simp_all
  then show "hr_default (snd (force_revoke_keys a r)) = hr_default r" by (simp add: force_revoke_keys_def Let_def)
qed

section \<open>Housekeeping\<close>

text \<open>What a clean-up may not touch.\<close>

lemma cleanup_keeps:
  assumes "cleanup_trust unlink_fails locked r e files = (e', files')"
  shows "en_candidates e' = en_candidates e"
    and "locked \<or> p \<in> set (registry_trust_paths r) \<Longrightarrow> path_filled W env p files \<Longrightarrow> path_filled W env p files'"
proof -
  let ?owned = "filter (\<lambda>p. fst p \<notin> set (registry_trust_paths r)) (en_trust e)"
  show "en_candidates e' = en_candidates e" using assms by (auto simp: cleanup_trust_def Let_def split: if_splits)
  assume p: "locked \<or> p \<in> set (registry_trust_paths r)" "path_filled W env p files"
  show "path_filled W env p files'"
  proof (cases "locked \<or> en_testing e \<noteq> []")
    case True
    then have "files' = files" using assms by (auto simp: cleanup_trust_def Let_def)
    then show ?thesis using p(2) by simp
  next
    case False
    let ?gone = "orphaned unlink_fails e ?owned"
    have "p \<notin> set ?gone" using p(1) False by (auto simp: orphaned_def)
    moreover have "files' = filter (\<lambda>p. fst p \<notin> set ?gone) files" using assms False by (auto simp: cleanup_trust_def Let_def)
    ultimately have "jget p files' = jget p files" by (induction files arbitrary: files') (auto simp: jget_Cons)
    then show ?thesis using p(2) by (simp add: path_filled_def)
  qed
qed

section \<open>The invariant\<close>

definition sys_of :: "host_mgmt \<Rightarrow> host_sys" where
  "sys_of s = \<lparr>hs_reg = mg_reg s, hs_staged = (case mg_change s of None \<Rightarrow> [] | Some ch \<Rightarrow> [ch_publication ch]), hs_files = mg_files s\<rparr>"

definition files_ok :: "bool \<Rightarrow> trust_owner set \<Rightarrow> host_env \<Rightarrow> host_mgmt \<Rightarrow> bool" where
  "files_ok u W env s \<longleftrightarrow> (u \<longrightarrow> keys_apart (mg_reg s) \<and> (\<forall>t\<in>in_use (mg_reg s). trust_kept W env t (mg_files s)))"

definition change_ok :: "trust_owner set \<Rightarrow> host_env \<Rightarrow> host_mgmt \<Rightarrow> host_change \<Rightarrow> bool" where
  "change_ok W env s ch \<longleftrightarrow>
     (let p = ch_publication ch
      in inventory_ok (ch_hosts ch) \<and> inventory_matches env (pb_snapshot p) (ch_hosts ch)
         \<and> pb_expected p = hr_generation (mg_reg s) \<and> pb_default p = ch_default ch \<and> distinct (map (ht_host_id \<circ> snd) (pb_snapshot p))
         \<and> (\<forall>t\<in>snd ` set (pb_snapshot p). trust_kept W env t (mg_files s))
         \<and> (\<forall>a d. ch_result ch = Some (a, d) \<longrightarrow> (\<exists>h. jget a (ch_hosts ch) = Some h
              \<and> (strict_mode (th_trust_mode h) \<and> \<not> is_local_address (th_address h) \<longrightarrow> configured_keys env h \<noteq> []))))"

definition candidates_ok :: "host_env \<Rightarrow> host_mgmt \<Rightarrow> bool" where
  "candidates_ok env s \<longleftrightarrow>
     (\<forall>c\<in>snd ` set (en_candidates (mg_enroll s)) \<union> set (mg_tests s) \<union> set (mg_commits s). candidate_ok env c)"

definition mgmt_ok :: "bool \<Rightarrow> trust_owner set \<Rightarrow> host_env \<Rightarrow> host_mgmt \<Rightarrow> bool" where
  "mgmt_ok u W env s \<longleftrightarrow>
     sys_ok (sys_of s) \<and> hr_default (mg_reg s) = mg_default s \<and> inventory_ok (mg_hosts s)
     \<and> inventory_matches env (hr_snapshot (mg_reg s)) (mg_hosts s) \<and> files_ok u W env s
     \<and> (\<forall>ch. mg_change s = Some ch \<longrightarrow> change_ok W env s ch) \<and> candidates_ok env s"

text \<open>The owners that the configured hosts and the candidates of a state have files written for.\<close>

definition trust_owners :: "host_env \<Rightarrow> host_mgmt \<Rightarrow> trust_owner set" where
  "trust_owners env s =
     (\<Union>(a, h)\<in>set (mg_hosts s). config_owners env a h)
     \<union> (\<Union>c\<in>snd ` set (en_candidates (mg_enroll s)) \<union> set (mg_tests s) \<union> set (mg_commits s).
          config_owners env (hc_alias c) (as_tool_host c) \<union> test_owners env c)"

lemma trust_ownersD:
  assumes "trust_owners env s \<subseteq> W"
  shows "(a, h) \<in> set (mg_hosts s) \<Longrightarrow> config_owners env a h \<subseteq> W"
    and "c \<in> snd ` set (en_candidates (mg_enroll s)) \<union> set (mg_tests s) \<union> set (mg_commits s) \<Longrightarrow>
      config_owners env (hc_alias c) (as_tool_host c) \<subseteq> W \<and> test_owners env c \<subseteq> W"
proof -
  have parts: "(\<Union>(a, h)\<in>set (mg_hosts s). config_owners env a h) \<subseteq> W"
      "(\<Union>c\<in>snd ` set (en_candidates (mg_enroll s)) \<union> set (mg_tests s) \<union> set (mg_commits s).
          config_owners env (hc_alias c) (as_tool_host c) \<union> test_owners env c) \<subseteq> W"
    using assms unfolding trust_owners_def by (simp_all only: Un_subset_iff)
  show "(a, h) \<in> set (mg_hosts s) \<Longrightarrow> config_owners env a h \<subseteq> W"
    using parts(1) unfolding UN_subset_iff by blast
  show "c \<in> snd ` set (en_candidates (mg_enroll s)) \<union> set (mg_tests s) \<union> set (mg_commits s) \<Longrightarrow>
      config_owners env (hc_alias c) (as_tool_host c) \<subseteq> W \<and> test_owners env c \<subseteq> W"
    using parts(2) unfolding UN_subset_iff Un_subset_iff by blast
qed

lemma mgmt_okD:
  assumes "mgmt_ok u W env s"
  shows "sys_ok (sys_of s)" "hr_default (mg_reg s) = mg_default s" "inventory_ok (mg_hosts s)"
    "inventory_matches env (hr_snapshot (mg_reg s)) (mg_hosts s)" "files_ok u W env s" "candidates_ok env s"
    "mg_change s = Some ch \<Longrightarrow> change_ok W env s ch" "reg_ok [] (mg_reg s)"
  using assms by (simp_all add: mgmt_ok_def sys_ok_def sys_of_def)

text \<open>Work that leaves the registry and the configuration alone, and the files that are referred to.\<close>

definition spares :: "trust_owner set \<Rightarrow> host_env \<Rightarrow> host_mgmt \<Rightarrow> trust_files \<Rightarrow> bool" where
  "spares W env s files' \<longleftrightarrow>
     (\<forall>p. (mg_locked s \<or> p \<in> set (registry_trust_paths (mg_reg s))) \<and> path_filled W env p (mg_files s) \<longrightarrow> path_filled W env p files')"

lemma kept_file:
  assumes "trust_kept W env t files" "ht_host_keys t \<noteq> [] \<Longrightarrow> path_filled W env (ht_known_hosts t) files \<Longrightarrow> path_filled W env (ht_known_hosts t) files'"
  shows "trust_kept W env t files'"
  using assms unfolding trust_kept_def by blast

lemma quiet_ok:
  assumes "mgmt_ok u W env s" "spares W env s (mg_files s')" "candidates_ok env s'"
    and "mg_reg s' = mg_reg s" "mg_hosts s' = mg_hosts s" "mg_change s' = mg_change s"
    and "mg_default s' = mg_default s"
  shows "mgmt_ok u W env s'"
proof -
  note ok = mgmt_okD [OF assms(1)]
  have "sys_ok (sys_of s')" using ok(1) by (simp add: sys_ok_def sys_of_def assms(4,6))
  moreover have "files_ok u W env s'"
    unfolding files_ok_def assms(4)
  proof (intro impI conjI ballI)
    assume u
    then show apart: "keys_apart (mg_reg s)" using ok(5) by (simp add: files_ok_def)
    fix t assume t: "t \<in> in_use (mg_reg s)"
    then have "trust_kept W env t (mg_files s)" using ok(5) \<open>u\<close> by (simp add: files_ok_def)
    then show "trust_kept W env t (mg_files s')"
      by (rule kept_file)
         (use assms(2) referenced [OF reg_okD(1) [OF ok(8)] apart t] in \<open>auto simp: spares_def\<close>)
  qed
  moreover have "change_ok W env s' ch" if ch: "mg_change s' = Some ch" for ch
  proof -
    have "mg_change s = Some ch" using ch assms(6) by simp
    then have c: "change_ok W env s ch" "mg_locked s" using ok(7) by (simp_all add: mg_locked_def)
    have "trust_kept W env t (mg_files s')" if t: "trust_kept W env t (mg_files s)" for t
      by (rule kept_file [OF t]) (use assms(2) c(2) in \<open>auto simp: spares_def\<close>)
    then show ?thesis using c(1) unfolding change_ok_def Let_def assms(4) by blast
  qed
  ultimately show ?thesis using ok(2-4) assms(3) unfolding mgmt_ok_def assms(4,5,7) by blast
qed

lemma spares_refl [simp]: "spares W env s (mg_files s)"
  by (simp add: spares_def)

lemma cleanup_spares:
  assumes "cleanup_trust unlink_fails (mg_locked s) (mg_reg s) e files = (e', files')" "spares W env s files"
  shows "spares W env s files' \<and> en_candidates e' = en_candidates e"
  using assms(2) cleanup_keeps [OF assms(1)] unfolding spares_def by blast

lemma discard_spares:
  assumes "discard_candidate unlink_fails (mg_locked s) (mg_reg s) token e files = (e', files')" "spares W env s files"
  shows "spares W env s files' \<and> en_candidates e' = jdel token (en_candidates e)"
  using cleanup_spares [OF assms(1) [unfolded discard_candidate_def] assms(2)] by simp

lemma get_spares:
  assumes "get_candidate unlink_fails (mg_locked s) (mg_reg s) now token e (mg_files s) = (res, e', files')"
  shows "spares W env s files' \<and> set (en_candidates e') \<subseteq> set (en_candidates e)
    \<and> (\<forall>c. res = Inr c \<longrightarrow> (token, c) \<in> set (en_candidates e) \<and> e' = e \<and> files' = mg_files s \<and> \<not> CANDIDATE_TTL < now - hc_created c)"
proof -
  have drop: "spares W env s files' \<and> set (en_candidates e') \<subseteq> set (en_candidates e)"
    if "discard_candidate unlink_fails (mg_locked s) (mg_reg s) token e (mg_files s) = (e', files')"
    using discard_spares [OF that spares_refl] by (auto simp: set_jdel)
  show ?thesis
  proof (cases "jget token (en_candidates e)")
    case None
    then show ?thesis using assms drop by (auto simp: get_candidate_def)
  next
    case (Some c)
    then show ?thesis using assms drop jget_in [OF Some] by (auto simp: get_candidate_def split: if_splits)
  qed
qed

lemma leave_spares:
  assumes "leave_test unlink_fails (mg_locked s) (mg_reg s) token e files = (e', files')" "spares W env s files"
  shows "spares W env s files' \<and> en_candidates e' = en_candidates e"
  using cleanup_spares [OF assms(1) [unfolded leave_test_def] assms(2)] by simp

lemma start_spares:
  assumes "start_test io write_fails r c e files = (res, e', files')" "spares W (ti_env io) s files"
    and "test_owners (ti_env io) c \<subseteq> W"
  shows "spares W (ti_env io) s files' \<and> en_candidates e' = en_candidates e"
proof (cases "is_local_address (hc_address c) \<or> hc_trust_mode c = ''legacy''")
  case True
  then show ?thesis using assms(1,2) by (auto simp: start_test_def Let_def)
next
  case False
  obtain made f where m: "materialize_trust (ti_env io) write_fails (hc_host_id c) (candidate_key_alias c) (hc_trust_mode c) (hc_host_keys c) files
      = (made, f)" by fastforce
  then have "files' = f" "en_candidates e' = en_candidates e"
    using assms(1) False by (auto simp: start_test_def Let_def split: sum.splits)
  moreover have "(hc_host_id c, candidate_key_alias c, hc_trust_mode c, ks) \<in> W"
    if "collect_all (normalize_public_key (he_b64 (ti_env io))) (hc_host_keys c) = Some ks" for ks
    using assms(3) that by (auto simp: test_owners_def)
  ultimately show ?thesis using assms(2) materialized(1) [OF m] unfolding spares_def by blast
qed

section \<open>Changes of the registry\<close>

lemma regs_ok:
  assumes "mgmt_ok u W env s" "sys_ok (sys_of (s\<lparr>mg_reg := r\<rparr>))" "u \<Longrightarrow> keys_apart r" "in_use r \<subseteq> in_use (mg_reg s) \<union> new"
    and "\<And>t. u \<Longrightarrow> t \<in> new \<Longrightarrow> trust_kept W env t (mg_files s)" "inventory_matches env (hr_snapshot r) (mg_hosts s)"
    and "mg_locked s \<Longrightarrow> hr_generation r = hr_generation (mg_reg s)" "hr_default r = mg_default s"
  shows "mgmt_ok u W env (s\<lparr>mg_reg := r\<rparr>)"
proof -
  note ok = mgmt_okD [OF assms(1)]
  have "files_ok u W env (s\<lparr>mg_reg := r\<rparr>)" using ok(5) assms(3-5) unfolding files_ok_def by auto
  moreover have "change_ok W env (s\<lparr>mg_reg := r\<rparr>) ch" if "mg_change s = Some ch" for ch
    using ok(7) [OF that] assms(7) that by (simp add: change_ok_def mg_locked_def Let_def)
  ultimately show ?thesis using assms(2,6,8) ok(3,6) by (simp add: mgmt_ok_def candidates_ok_def)
qed

lemma lease_ok:
  assumes "mgmt_ok u W env s" "same_inventory (mg_reg s) r" "in_use r \<subseteq> in_use (mg_reg s)"
    and "hs_reg (host_act env a (sys_of s)) = r \<and> hs_staged (host_act env a (sys_of s)) = hs_staged (sys_of s)" "action_ok a"
    and "hr_default r = hr_default (mg_reg s)"
  shows "mgmt_ok u W env (s\<lparr>mg_reg := r\<rparr>)"
proof (rule regs_ok [OF assms(1), where new = "{}"])
  note ok = mgmt_okD [OF assms(1)]
  show "sys_ok (sys_of (s\<lparr>mg_reg := r\<rparr>))"
    using act_ok [OF ok(1) assms(5), of env] assms(4) by (simp add: sys_ok_def sys_of_def)
  show "keys_apart r" if u using ok(5) that assms(3) by (auto simp: files_ok_def keys_apart_def intro: inj_on_subset)
  show "hr_default r = mg_default s" using ok(2) assms(6) by simp
  show "inventory_matches env (hr_snapshot r) (mg_hosts s)" using ok(4) assms(2) by (simp add: same_inventory_def)
qed (use assms(2,3) in \<open>auto simp: same_inventory_def\<close>)

text \<open>A marked host keeps its description; a lifted mismatch needs keys where the mode asks for them.\<close>

lemma mark_matches:
  assumes "inventory_matches env (hr_snapshot r) hosts" "jget a (hr_snapshot r) = Some old" "inventory_ok hosts"
    and "\<And>h. jget a hosts = Some h \<Longrightarrow> strict_mode (th_trust_mode h) \<Longrightarrow> \<not> is_local_address (th_address h) \<Longrightarrow> configured_keys env h \<noteq> []"
  shows "inventory_matches env (jset a (tested_target result mismatch g old) (hr_snapshot r)) hosts"
proof -
  let ?new = "tested_target result mismatch g old"
  have keys: "map fst (jset a ?new (hr_snapshot r)) = map fst hosts"
    using assms(1,2) by (simp add: keys_jset inventory_matches_def)
  have "described env c ?new \<and> ht_alias ?new = a \<and> host_identity env a c = Some (ht_host_id ?new)" if c: "jget a hosts = Some c" for c
  proof -
    have d: "described env c old" "ht_alias old = a" "host_identity env a c = Some (ht_host_id old)"
      using assms(1,2) c by (simp_all add: inventory_matches_def)
    have "th_trust_mode c \<in> set [''legacy'', ''pinned'', ''ca'', ''tofu'']"
      using assms(3) jget_in [OF c] by (auto simp: inventory_ok_def list_all_iff)
    then have clear: "\<not> blocked_state (ht_trust_mode old)" using d(1) by (auto simp: blocked_state_def described_def)
    have same: "ht_address ?new = ht_address old" "ht_user ?new = ht_user old" "ht_os ?new = ht_os old" "ht_port ?new = ht_port old"
      "ht_description ?new = ht_description old" "ht_enabled ?new = ht_enabled old" "ht_trust_mode ?new = ht_trust_mode old"
      "ht_host_keys ?new = ht_host_keys old" "ht_alias ?new = ht_alias old" "ht_host_id ?new = ht_host_id old"
      by (simp_all add: tested_target_def Let_def)
    have "ht_targetable ?new = ht_targetable old \<and> ht_trust_state ?new = ht_trust_state old
        \<or> \<not> ht_targetable ?new \<and> blocked_state (ht_trust_state ?new)
        \<or> ht_targetable ?new = ht_enabled old \<and> ht_trust_state ?new = ht_trust_mode old"
      by (simp add: tested_target_def Let_def blocked_state_def)
    then have "described env c ?new"
    proof (elim disjE)
      assume "ht_targetable ?new = ht_enabled old \<and> ht_trust_state ?new = ht_trust_mode old"
      then show ?thesis using d(1) clear assms(4) [OF c] unfolding described_def same by metis
    qed (use described_cong [OF d(1) same(1-8)] in blast)+
    then show ?thesis using d(2,3) same(9,10) by simp
  qed
  then show ?thesis using assms(1) keys by (auto simp: inventory_matches_def jget_jset)
qed

lemma tested_trust: "trust_kept W env (tested_target result mismatch g old) files = trust_kept W env old files"
  by (rule same_trust) (simp_all add: tested_target_def Let_def)

lemma mark_step:
  assumes "mgmt_ok u W env s" "\<not> mg_locked s" "jget a (hr_snapshot (mg_reg s)) = Some old"
    and "\<And>h. jget a (mg_hosts s) = Some h \<Longrightarrow> strict_mode (th_trust_mode h) \<Longrightarrow> \<not> is_local_address (th_address h) \<Longrightarrow> configured_keys env h \<noteq> []"
  shows "mgmt_ok u W env (s\<lparr>mg_reg := mark_test_result a result mismatch (mg_reg s)\<rparr>)"
proof (rule regs_ok [OF assms(1)])
  note ok = mgmt_okD [OF assms(1)]
  let ?r = "mg_reg s"
  note use = mark_use [OF ok(8) assms(3), of result mismatch]
  show "sys_ok (sys_of (s\<lparr>mg_reg := mark_test_result a result mismatch ?r\<rparr>))"
    using act_ok [OF ok(1), of "Test_result a result mismatch" env] by (simp add: sys_ok_def sys_of_def)
  show "keys_apart (mark_test_result a result mismatch ?r)" if u
    by (rule mark_apart [OF ok(8)]) (use ok(5) that in \<open>simp add: files_ok_def\<close>)
  show "in_use (mark_test_result a result mismatch ?r) \<subseteq> in_use ?r \<union> {tested_target result mismatch (hr_generation ?r + 1) old}"
    by (rule use(1))
  have "old \<in> in_use ?r" using jget_in [OF assms(3)] by (force simp: in_use_def published_def)
  then show "trust_kept W env t (mg_files s)" if u "t \<in> {tested_target result mismatch (hr_generation ?r + 1) old}" for t
    using that ok(5) by (simp add: tested_trust files_ok_def)
  show "inventory_matches env (hr_snapshot (mark_test_result a result mismatch ?r)) (mg_hosts s)"
    unfolding use(2) by (rule mark_matches [OF ok(4) assms(3) ok(3) assms(4)])
  show "hr_default (mark_test_result a result mismatch ?r) = mg_default s" using ok(2) by simp
qed (use assms(2) in blast)

section \<open>Changes of the configuration\<close>

lemma begin_ok:
  assumes "mgmt_ok u W (ti_env io) s" "\<not> mg_locked s" "inventory_ok hosts"
    and own: "\<And>a c. (a, c) \<in> set hosts \<Longrightarrow> config_owners (ti_env io) a c \<subseteq> W"
    and "\<And>a d. result = Some (a, d) \<Longrightarrow> \<exists>h. jget a hosts = Some h
        \<and> (strict_mode (th_trust_mode h) \<and> \<not> is_local_address (th_address h) \<longrightarrow> configured_keys (ti_env io) h \<noteq> [])"
  shows "mgmt_ok u W (ti_env io) (begin_change io write_fails hosts d tofu result token s)"
proof -
  let ?env = "ti_env io"
  note ok = mgmt_okD [OF assms(1)]
  obtain res files where st: "stage ?env write_fails False (Some d) hosts (mg_reg s) (mg_files s) = (res, files)" by fastforce
  have mono: "path_filled W ?env p (mg_files s) \<longrightarrow> path_filled W ?env p files" for p
  proof (cases "collect_all (\<lambda>p. host_identity ?env (fst p) (snd p)) hosts")
    case None
    then show ?thesis using st by (simp add: stage_def)
  next
    case (Some ids)
    show ?thesis
    proof (cases "collisions_of ids \<noteq> []")
      case True
      then show ?thesis using st Some by (simp add: stage_def Let_def)
    next
      case False
      obtain x f where x: "stage_hosts ?env write_fails (mg_reg s) (collisions_of ids) (hr_generation (mg_reg s) + 1) hosts (mg_files s) = (x, f)"
        by fastforce
      then have "files = f" using st Some False by (cases x) (auto simp: stage_def Let_def)
      then show ?thesis using staged_trust [OF x own] by blast
    qed
  qed
  have kept: "mgmt_ok u W ?env (s\<lparr>mg_files := files\<rparr>)"
    by (rule quiet_ok [OF assms(1)]) (use mono ok(6) in \<open>simp_all add: spares_def candidates_ok_def\<close>)
  show ?thesis
  proof (cases res)
    case (Inl e)
    then show ?thesis using kept st by (simp add: begin_change_def)
  next
    case (Inr p)
    note m = stage_matches [OF st [unfolded Inr] assms(3)]
    have differ: "distinct (map (ht_host_id \<circ> snd) (pb_snapshot p))" by (rule m(2)) simp
    have held: "\<forall>t\<in>snd ` set (pb_snapshot p). trust_kept W ?env t files" by (rule m(6) [OF own])
    have none: "mg_change s = None" using assms(2) by (simp add: mg_locked_def)
    let ?ch = "\<lparr>ch_hosts = hosts, ch_default = d, ch_tofu = tofu, ch_publication = p, ch_result = result, ch_token = token\<rparr>"
    let ?s = "s\<lparr>mg_files := files, mg_change := Some ?ch\<rparr>"
    have eq: "begin_change io write_fails hosts d tofu result token s = ?s" using st Inr by (simp add: begin_change_def)
    have "sys_ok (sys_of ?s)"
      using act_ok [OF ok(1), of "Stage_inventory (Some d) hosts write_fails" ?env] assms(3) none st Inr
      by (simp add: sys_ok_def sys_of_def)
    moreover have "change_ok W ?env ?s ?ch" using m(1,3,5) differ held assms(3,5) by (auto simp: change_ok_def)
    ultimately show ?thesis
      using mgmt_okD [OF kept] by (simp add: eq mgmt_ok_def files_ok_def candidates_ok_def)
  qed
qed

lemma begin_plain:
  assumes "mgmt_ok u W (ti_env io) s" "\<not> mg_locked s" "inventory_ok hosts"
    "\<And>a c. (a, c) \<in> set hosts \<Longrightarrow> config_owners (ti_env io) a c \<subseteq> W"
  shows "mgmt_ok u W (ti_env io) (begin_change io write_fails hosts d tofu None token s)"
  by (rule begin_ok [OF assms(1-3)]) (use assms(4) in auto)

lemma drop_change_ok:
  assumes "mgmt_ok u W env s"
  shows "mgmt_ok u W env (s\<lparr>mg_change := None\<rparr>)"
  using mgmt_okD [OF assms] by (simp add: mgmt_ok_def sys_ok_def sys_of_def files_ok_def candidates_ok_def)

lemma publish_step:
  assumes "mgmt_ok u W env s" "mg_change s = Some ch"
  shows "fst (publish_staged (ch_publication ch) (mg_reg s)) = None"
    and "mgmt_ok u W env (s\<lparr>mg_change := None, mg_hosts := ch_hosts ch, mg_default := ch_default ch, mg_tofu := tofu,
        mg_reg := snd (publish_staged (ch_publication ch) (mg_reg s))\<rparr>)"
    and "hr_snapshot (snd (publish_staged (ch_publication ch) (mg_reg s))) = pb_snapshot (ch_publication ch)"
proof -
  let ?p = "ch_publication ch" and ?r = "mg_reg s"
  let ?r' = "snd (publish_staged ?p ?r)"
  note ok = mgmt_okD [OF assms(1)] and ch = mgmt_okD(7) [OF assms]
  have c: "inventory_ok (ch_hosts ch)" "inventory_matches env (pb_snapshot ?p) (ch_hosts ch)" "pb_expected ?p = hr_generation ?r"
    "distinct (map (ht_host_id \<circ> snd) (pb_snapshot ?p))" "\<forall>t\<in>snd ` set (pb_snapshot ?p). trust_kept W env t (mg_files s)"
      "pb_default ?p = ch_default ch"
    using ch by (simp_all add: change_ok_def Let_def)
  have staged: "staged_ok ?p ?r" using ok(1) assms(2) by (simp add: sys_ok_def sys_of_def)
  show none: "fst (publish_staged ?p ?r) = None" using c(3,4) by (simp add: publish_staged_def Let_def)
  then show snap: "hr_snapshot ?r' = pb_snapshot ?p" using publish_effect [OF staged] by auto
  have "sys_ok (host_act env (Publish_inventory 0) (sys_of s))" by (rule act_ok [OF ok(1)]) simp
  then have "sys_ok \<lparr>hs_reg = ?r', hs_staged = [], hs_files = mg_files s\<rparr>" using assms(2) by (simp add: sys_ok_def sys_of_def)
  moreover have "keys_apart ?r'" if u
    by (rule publish_apart [OF ok(8) staged]) (use ok(5) that in \<open>simp add: files_ok_def\<close>)
  moreover have "trust_kept W env t (mg_files s)" if u and t: "t \<in> in_use ?r'" for t
    using \<open>u\<close> publish_use(1) [OF reg_okD(1) [OF ok(8)] staged none] t c(5) ok(5) by (auto simp: files_ok_def)
  moreover have "hr_default ?r' = ch_default ch"
    by (cases rule: publish_cases [of ?p ?r]) (simp_all add: none c(6) published_as_def)
  ultimately show "mgmt_ok u W env (s\<lparr>mg_change := None, mg_hosts := ch_hosts ch, mg_default := ch_default ch, mg_tofu := tofu, mg_reg := ?r'\<rparr>)"
    using c(1,2) ok(6) snap by (simp add: mgmt_ok_def sys_of_def files_ok_def candidates_ok_def)
qed

lemma finish_ok:
  assumes "mgmt_ok u W env s" "mg_change s = Some ch"
  shows "mgmt_ok u W env (finish_change unlink_fails saved cancelled ch s)"
proof (cases saved)
  case False
  then show ?thesis using drop_change_ok [OF assms(1)] by (simp add: finish_change_def)
next
  case True
  obtain r where pubeq: "publish_staged (ch_publication ch) (mg_reg s) = (None, r)"
    using publish_step(1) [OF assms] by (cases "publish_staged (ch_publication ch) (mg_reg s)") simp
  note pub = publish_step(2,3) [OF assms, unfolded pubeq snd_conv]
  let ?s1 = "s\<lparr>mg_change := None, mg_hosts := ch_hosts ch, mg_default := ch_default ch, mg_tofu := ch_tofu ch, mg_reg := r\<rparr>"
  have s1: "mgmt_ok u W env ?s1" by (rule pub(1))
  have s2: "mgmt_ok u W env (?s1\<lparr>mg_reg := record_result ch r\<rparr>)"
  proof (cases "ch_result ch")
    case None
    then show ?thesis using s1 by (simp add: record_result_def)
  next
    case (Some res)
    obtain a d where res: "res = (a, d)" by (cases res)
    have c: "change_ok W env s ch" by (rule mgmt_okD(7) [OF assms])
    obtain h where h: "jget a (ch_hosts ch) = Some h"
        "strict_mode (th_trust_mode h) \<and> \<not> is_local_address (th_address h) \<longrightarrow> configured_keys env h \<noteq> []"
      using c Some res by (auto simp: change_ok_def Let_def)
    have "map fst (hr_snapshot r) = map fst (ch_hosts ch)"
      using c unfolding pub(2) by (simp add: change_ok_def inventory_matches_def Let_def)
    then have "set (map fst (hr_snapshot r)) = set (map fst (ch_hosts ch))" by simp
    moreover have "a \<in> set (map fst (ch_hosts ch))" using jget_in [OF h(1)] by force
    ultimately obtain old where old: "jget a (hr_snapshot r) = Some old"
      by (cases "jget a (hr_snapshot r)") (auto simp: jget_def map_of_eq_None_iff)
    have "mgmt_ok u W env (?s1\<lparr>mg_reg := mark_test_result a d False (mg_reg ?s1)\<rparr>)"
      by (rule mark_step [OF s1, where old = old]) (use old h in \<open>simp_all add: mg_locked_def\<close>)
    then show ?thesis using Some res h(1) by (simp add: record_result_def)
  qed
  show ?thesis
  proof (cases "ch_token ch = None \<or> cancelled")
    case True
    then have "finish_change unlink_fails saved cancelled ch s = ?s1\<lparr>mg_reg := record_result ch r\<rparr>"
      using \<open>saved\<close> by (cases "ch_token ch") (simp_all add: finish_change_def pubeq)
    then show ?thesis using s2 by simp
  next
    case False
    then obtain token where token: "ch_token ch = Some token" "\<not> cancelled" by auto
    let ?e = "mg_enroll s"
    obtain e files where dis: "discard_candidate unlink_fails True (record_result ch r) token ?e (mg_files s) = (e, files)" by fastforce
    have eq: "finish_change unlink_fails saved cancelled ch s = ?s1\<lparr>mg_reg := record_result ch r, mg_enroll := e, mg_files := files\<rparr>"
      using \<open>saved\<close> token dis by (simp add: finish_change_def pubeq)
    have f: "files = mg_files s" "en_candidates e = jdel token (en_candidates ?e)"
      using dis by (auto simp: discard_candidate_def cleanup_trust_def Let_def)
    show ?thesis unfolding eq
      by (rule quiet_ok [OF s2]) (use f mgmt_okD(6) [OF s2] in \<open>auto simp: spares_def candidates_ok_def set_jdel\<close>)
  qed
qed

section \<open>Every step\<close>

lemma some_candidates:
  assumes "mgmt_ok u W env s" "mg_reg s' = mg_reg s" "mg_hosts s' = mg_hosts s" "mg_change s' = mg_change s" "spares W env s (mg_files s')"
    and "\<And>c. c \<in> snd ` set (en_candidates (mg_enroll s')) \<Longrightarrow> c \<in> snd ` set (en_candidates (mg_enroll s)) \<or> candidate_ok env c"
    and "set (mg_tests s') \<subseteq> set (mg_tests s) \<union> snd ` set (en_candidates (mg_enroll s))"
    and "set (mg_commits s') \<subseteq> set (mg_commits s) \<union> snd ` set (en_candidates (mg_enroll s))" "mg_default s' = mg_default s"
  shows "mgmt_ok u W env s'"
proof (rule quiet_ok [OF assms(1,5) _ assms(2-4,9)])
  show "candidates_ok env s'"
    unfolding candidates_ok_def
  proof
    fix c assume "c \<in> snd ` set (en_candidates (mg_enroll s')) \<union> set (mg_tests s') \<union> set (mg_commits s')"
    then have "c \<in> snd ` set (en_candidates (mg_enroll s)) \<union> set (mg_tests s) \<union> set (mg_commits s) \<or> candidate_ok env c"
      using assms(6) [of c] assms(7,8) by blast
    then show "candidate_ok env c" using mgmt_okD(6) [OF assms(1)] unfolding candidates_ok_def by blast
  qed
qed

lemma remove_nth_set: "set (remove_nth i xs) \<subseteq> set xs"
  by (auto simp: remove_nth_def dest: in_set_takeD in_set_dropD)

lemma prepare_ok:
  assumes "mgmt_ok u W (ti_env io) s"
  shows "mgmt_ok u W (ti_env io) (mgmt_act io (Prepare_candidate now token uuid tofu existing name body scanned unlink_fails) s)"
proof (cases "prepare_candidate io now token uuid tofu existing name body scanned")
  case (Inl err)
  then show ?thesis using assms by (simp add: prepare_def)
next
  case (Inr c)
  let ?e = "(mg_enroll s)\<lparr>en_candidates := jset token c (en_candidates (mg_enroll s))\<rparr>"
  obtain e files where p: "prune_candidates unlink_fails (mg_locked s) (mg_reg s) now ?e (mg_files s) = (e, files)" by fastforce
  have "spares W (ti_env io) s files \<and> set (en_candidates e) \<subseteq> set (en_candidates ?e)"
    using cleanup_spares [OF p [unfolded prune_candidates_def] spares_refl] by auto
  then show ?thesis
    using p jset_subset [of token c "en_candidates (mg_enroll s)"] prepared_ok [OF Inr]
    by (simp add: prepare_def Inr) (rule some_candidates [OF assms]; force)
qed

lemma settle_ok:
  assumes "mgmt_ok u W (ti_env io) s" "\<not> mg_locked s" "c \<in> set (mg_tests s)"
    and "settle_test unlink_fails c result (mg_reg s) (mg_enroll s) (mg_files s) = (r, e, files)"
  shows "mgmt_ok u W (ti_env io) (s\<lparr>mg_reg := r, mg_enroll := e, mg_files := files, mg_tests := remove_nth i (mg_tests s)\<rparr>)"
proof -
  let ?env = "ti_env io"
  note ok = mgmt_okD [OF assms(1)]
  have cok: "candidate_ok ?env c" using ok(6) assms(3) by (simp add: candidates_ok_def)
  have r: "r = mark_tested c result (mg_reg s)" using assms(4) by (auto simp: settle_test_def Let_def)
  have marked: "mgmt_ok u W ?env (s\<lparr>mg_reg := r\<rparr>)"
  proof (cases "r = mg_reg s")
    case True
    then show ?thesis using assms(1) by simp
  next
    case False
    then obtain t mismatch where t: "jget (hc_alias c) (hr_snapshot (mg_reg s)) = Some t" "tests_active_identity c t"
        "r = mark_test_result (hc_alias c) result mismatch (mg_reg s)"
      unfolding r by (auto simp: mark_tested_def get_target_def Let_def split: option.splits if_splits)
    show ?thesis unfolding t(3)
    proof (rule mark_step [OF assms(1,2) t(1)])
      fix h assume h: "jget (hc_alias c) (mg_hosts s) = Some h" "strict_mode (th_trust_mode h)" "\<not> is_local_address (th_address h)"
      have d: "described ?env h t" using ok(4) t(1) h(1) by (simp add: inventory_matches_def)
      then have "hc_host_keys c \<noteq> []" using cok h(2) t(2) by (simp add: candidate_ok_def keyed_def tests_active_identity_def described_def)
      then show "configured_keys ?env h \<noteq> []" using d t(2) by (simp add: tests_active_identity_def described_def)
    qed
  qed
  let ?s = "s\<lparr>mg_reg := r\<rparr>"
  let ?c = "c\<lparr>hc_tested := (fget ''ok'' result = JBool True), hc_test_result := Some result\<rparr>"
  let ?e = "if jhas (hc_token c) (en_candidates (mg_enroll s))
    then (mg_enroll s)\<lparr>en_candidates := jset (hc_token c) ?c (en_candidates (mg_enroll s))\<rparr> else mg_enroll s"
  have "leave_test unlink_fails (mg_locked ?s) (mg_reg ?s) (hc_token c) ?e (mg_files ?s) = (e, files)"
    using assms(2,4) r by (simp add: settle_test_def mg_locked_def Let_def)
  from leave_spares [OF this spares_refl [of W ?env]] have f: "spares W ?env ?s files" "en_candidates e = en_candidates ?e" by simp_all
  have sub: "snd ` set (en_candidates ?e) \<subseteq> insert ?c (snd ` set (en_candidates (mg_enroll s)))"
    using jset_subset [of "hc_token c" ?c "en_candidates (mg_enroll s)"] by (simp only: split: if_split) fastforce
  have "candidate_ok ?env ?c" using cok by (simp add: candidate_ok_def)
  then show ?thesis
    using f sub remove_nth_set [of i "mg_tests s"] by (intro some_candidates [OF marked]) auto
qed

lemma start_ok:
  assumes "mgmt_ok u W (ti_env io) s" "trust_owners (ti_env io) s \<subseteq> W"
  shows "mgmt_ok u W (ti_env io) (mgmt_act io (Start_test now token write_fails unlink_fails) s)"
proof -
  let ?env = "ti_env io"
  obtain res e files where g: "get_candidate unlink_fails (mg_locked s) (mg_reg s) now token (mg_enroll s) (mg_files s) = (res, e, files)"
    by (metis prod_cases3)
  note gs = get_spares [OF g, of W ?env]
  show ?thesis
  proof (cases res)
    case (Inl err)
    then show ?thesis using gs by (simp add: g) (rule some_candidates [OF assms(1)]; force)
  next
    case (Inr c)
    obtain x e' files' where st: "start_test io write_fails (mg_reg s) c e files = (x, e', files')" by (metis prod_cases3)
    have spare: "spares W ?env s files' \<and> en_candidates e' = en_candidates e"
      by (rule start_spares [OF st]) (use gs Inr trust_ownersD(2) [OF assms(2), of c] in force)+
    have c: "c \<in> snd ` set (en_candidates (mg_enroll s))" "en_candidates e = en_candidates (mg_enroll s)" using gs Inr by force+
    show ?thesis
    proof (cases x)
      case None
      then show ?thesis using spare c by (simp add: g Inr st) (rule some_candidates [OF assms(1)]; auto)
    next
      case (Some err)
      obtain e'' files'' where l: "leave_test unlink_fails (mg_locked s) (mg_reg s) token e' files' = (e'', files'')" by fastforce
      have "spares W ?env s files'' \<and> en_candidates e'' = en_candidates e'" by (rule leave_spares [OF l]) (use spare in blast)
      then show ?thesis using spare c Some by (simp add: g Inr st l) (rule some_candidates [OF assms(1)]; auto)
    qed
  qed
qed

lemma commit_ok:
  assumes "mgmt_ok u W (ti_env io) s" "\<not> mg_locked s" "candidate_ok (ti_env io) c"
    and "trust_owners (ti_env io) s \<subseteq> W" "config_owners (ti_env io) (hc_alias c) (as_tool_host c) \<subseteq> W"
  shows "mgmt_ok u W (ti_env io) (begin_commit io write_fails c s)"
proof -
  have "inventory_ok (jset (hc_alias c) (as_tool_host c) (mg_hosts s))"
    using mgmt_okD(3) [OF assms(1)] assms(3) jset_subset [of "hc_alias c" "as_tool_host c" "mg_hosts s"]
    by (fastforce simp: inventory_ok_def keys_jset list_all_iff jget_def map_of_eq_None_iff candidate_ok_def as_tool_host_def)
  then have "mgmt_ok u W (ti_env io) (begin_change io write_fails (jset (hc_alias c) (as_tool_host c) (mg_hosts s)) (mg_default s) (mg_tofu s)
             (case hc_test_result c of Some (x # xs) \<Rightarrow> Some (hc_alias c, x # xs) | _ \<Rightarrow> None) (Some (hc_token c)) s)"
  proof (rule begin_ok [OF assms(1,2)])
    fix a h assume "(a, h) \<in> set (jset (hc_alias c) (as_tool_host c) (mg_hosts s))"
    then have "(a, h) = (hc_alias c, as_tool_host c) \<or> (a, h) \<in> set (mg_hosts s)" using jset_subset by fastforce
    then show "config_owners (ti_env io) a h \<subseteq> W" using assms(5) trust_ownersD(1) [OF assms(4)] by auto
  qed (use keyed_configured [OF assms(3)] in \<open>auto simp: jget_jset as_tool_host_def split: option.splits list.splits\<close>)
  then show ?thesis using assms(1) by (simp add: begin_commit_def)
qed

lemma enable_ok:
  assumes "mgmt_ok u W (ti_env io) s" "\<not> mg_locked s" "trust_owners (ti_env io) s \<subseteq> W"
  shows "mgmt_ok u W (ti_env io) (begin_enable io write_fails host on s)"
proof (cases "jget host (mg_hosts s)")
  case None
  then show ?thesis using assms(1) by (simp add: begin_enable_def)
next
  case (Some h)
  have "inventory_ok (jset host (h\<lparr>th_enabled := on\<rparr>) (mg_hosts s))"
    using mgmt_okD(3) [OF assms(1)] jget_in [OF Some] jset_subset [of host "h\<lparr>th_enabled := on\<rparr>" "mg_hosts s"] Some
    by (fastforce simp: inventory_ok_def keys_jset list_all_iff)
  moreover have "config_owners (ti_env io) a c \<subseteq> W" if "(a, c) \<in> set (jset host (h\<lparr>th_enabled := on\<rparr>) (mg_hosts s))" for a c
  proof -
    have "config_owners (ti_env io) host (h\<lparr>th_enabled := on\<rparr>) = config_owners (ti_env io) host h"
      by (simp add: config_owners_def host_identity_def)
    moreover have "(a, c) = (host, h\<lparr>th_enabled := on\<rparr>) \<or> (a, c) \<in> set (mg_hosts s)" using that jset_subset by fastforce
    ultimately show ?thesis using trust_ownersD(1) [OF assms(3)] jget_in [OF Some] by auto
  qed
  ultimately show ?thesis using begin_plain [OF assms(1,2)] Some by (simp add: begin_enable_def)
qed

lemma delete_ok:
  assumes "mgmt_ok u W (ti_env io) s" "\<not> mg_locked s" "trust_owners (ti_env io) s \<subseteq> W"
  shows "mgmt_ok u W (ti_env io) (begin_delete io write_fails host usage s)"
proof -
  have "inventory_ok (jdel host (mg_hosts s))"
    using mgmt_okD(3) [OF assms(1)] by (auto simp: inventory_ok_def list_all_iff set_jdel keys_jdel_distinct)
  moreover have "config_owners (ti_env io) a c \<subseteq> W" if "(a, c) \<in> set (jdel host (mg_hosts s))" for a c
    using that trust_ownersD(1) [OF assms(3)] by (auto simp: set_jdel)
  ultimately show ?thesis using begin_plain [OF assms(1,2)] assms(1) by (simp add: begin_delete_def)
qed

lemma settings_ok:
  assumes "mgmt_ok u W (ti_env io) s" "\<not> mg_locked s" "trust_owners (ti_env io) s \<subseteq> W"
  shows "mgmt_ok u W (ti_env io) (begin_settings io write_fails d tofu s)"
  using begin_plain [OF assms(1,2) mgmt_okD(3) [OF assms(1)] trust_ownersD(1) [OF assms(3)]] assms(1)
  by (simp add: begin_settings_def Let_def)

lemma mgmt_act_ok:
  assumes "mgmt_ok u W (ti_env io) s" "trust_owners (ti_env io) s \<subseteq> W"
  shows "mgmt_ok u W (ti_env io) (mgmt_act io a s)"
proof -
  note ok = mgmt_okD [OF assms(1)]
  show ?thesis
  proof (cases a)
    case (Prepare_candidate now token uuid tofu existing name body scanned unlink_fails)
    then show ?thesis using prepare_ok [OF assms(1)] by simp
  next
    case (Import_candidate now token name h found)
    show ?thesis
    proof (cases "import_candidate io now token name h found")
      case (Inl err)
      then show ?thesis using assms(1) by (simp add: Import_candidate import_legacy_def)
    next
      case (Inr c)
      have "mgmt_ok u W (ti_env io) (s\<lparr>mg_enroll := (mg_enroll s)\<lparr>en_candidates := jset token c (en_candidates (mg_enroll s))\<rparr>\<rparr>)"
        by (rule some_candidates [OF assms(1)])
           (use jset_subset [of token c "en_candidates (mg_enroll s)"] imported_ok [OF Inr] in force)+
      then show ?thesis by (simp add: Import_candidate import_legacy_def Inr)
    qed
  next
    case (Discard_candidate token unlink_fails)
    obtain e files where d: "discard_candidate unlink_fails (mg_locked s) (mg_reg s) token (mg_enroll s) (mg_files s) = (e, files)" by fastforce
    have "spares W (ti_env io) s files \<and> en_candidates e = jdel token (en_candidates (mg_enroll s))"
      by (rule discard_spares [OF d spares_refl])
    then show ?thesis by (simp add: Discard_candidate d) (rule some_candidates [OF assms(1)]; auto simp: set_jdel)
  next
    case (Start_test now token write_fails unlink_fails)
    then show ?thesis using start_ok [OF assms] by simp
  next
    case (Settle_test i clock finished unlink_fails)
    show ?thesis
    proof (cases "mg_locked s \<or> length (mg_tests s) \<le> i")
      case True
      then show ?thesis using assms(1) by (auto simp: Settle_test unlocked_def)
    next
      case False
      let ?c = "mg_tests s ! i"
      obtain r e files where st: "settle_test unlink_fails ?c (test_outcome io clock ?c finished) (mg_reg s) (mg_enroll s) (mg_files s) = (r, e, files)"
        by (metis prod_cases3)
      show ?thesis using settle_ok [OF assms(1) _ _ st, of i] False by (simp add: Settle_test unlocked_def Let_def st)
    qed
  next
    case (Abort_test i unlink_fails)
    obtain e files where l: "leave_test unlink_fails (mg_locked s) (mg_reg s) (hc_token (mg_tests s ! i)) (mg_enroll s) (mg_files s) = (e, files)"
      by fastforce
    have "spares W (ti_env io) s files \<and> en_candidates e = en_candidates (mg_enroll s)" by (rule leave_spares [OF l spares_refl])
    then show ?thesis
      using remove_nth_set [of i "mg_tests s"]
      by (simp add: Abort_test l assms(1)) (intro impI; rule some_candidates [OF assms(1)]; auto)
  next
    case (Approve_commit now token unlink_fails)
    obtain res e files where g: "get_candidate unlink_fails (mg_locked s) (mg_reg s) now token (mg_enroll s) (mg_files s) = (res, e, files)"
      by (metis prod_cases3)
    note gs = get_spares [OF g, of W "ti_env io"]
    have "mgmt_ok u W (ti_env io) (s\<lparr>mg_enroll := e, mg_files := files\<rparr>)" by (rule some_candidates [OF assms(1)]) (use gs in force)+
    moreover have "mgmt_ok u W (ti_env io) (s\<lparr>mg_enroll := e, mg_files := files, mg_commits := mg_commits s @ [c]\<rparr>)" if "res = Inr c" for c
      by (rule some_candidates [OF assms(1)]) (use gs that in force)+
    ultimately show ?thesis by (auto simp: Approve_commit approve_commit_def g Let_def split: sum.split)
  next
    case (Begin_commit i write_fails)
    show ?thesis
    proof (cases "mg_locked s \<or> length (mg_commits s) \<le> i")
      case True
      then show ?thesis using assms(1) by (auto simp: Begin_commit unlocked_def)
    next
      case False
      let ?s = "s\<lparr>mg_commits := remove_nth i (mg_commits s)\<rparr>"
      have s: "mgmt_ok u W (ti_env io) ?s" by (rule some_candidates [OF assms(1)]) (use remove_nth_set [of i "mg_commits s"] in auto)
      have "candidate_ok (ti_env io) (mg_commits s ! i)" using ok(6) False by (simp add: candidates_ok_def)
      have own: "trust_owners (ti_env io) ?s \<subseteq> W"
      proof (rule subset_trans [OF _ assms(2)])
        show "trust_owners (ti_env io) ?s \<subseteq> trust_owners (ti_env io) s"
          unfolding trust_owners_def by (rule Un_mono, simp, rule UN_mono) (use remove_nth_set [of i "mg_commits s"] in auto)
      qed
      have "config_owners (ti_env io) (hc_alias (mg_commits s ! i)) (as_tool_host (mg_commits s ! i)) \<subseteq> W"
        using trust_ownersD(2) [OF assms(2), of "mg_commits s ! i"] False by simp
      from commit_ok [OF s _ \<open>candidate_ok (ti_env io) (mg_commits s ! i)\<close> own this] show ?thesis using False by (simp add: Begin_commit unlocked_def mg_locked_def)
    qed
  next
    case (Begin_enable host on write_fails)
    then show ?thesis using enable_ok [OF assms(1) _ assms(2)] assms(1) by (simp add: unlocked_def)
  next
    case (Begin_delete host usage write_fails)
    then show ?thesis using delete_ok [OF assms(1) _ assms(2)] assms(1) by (simp add: unlocked_def)
  next
    case (Begin_settings d tofu write_fails)
    then show ?thesis using settings_ok [OF assms(1) _ assms(2)] assms(1) by (simp add: unlocked_def)
  next
    case (Finish_change saved cancelled unlink_fails)
    then show ?thesis using finish_ok [OF assms(1)] assms(1) by (cases "mg_change s") simp_all
  next
    case (Acquire_lease host)
    have "mgmt_ok u W (ti_env io) (s\<lparr>mg_reg := snd (acquire host (mg_reg s))\<rparr>)"
      by (rule lease_ok [OF assms(1), where a = "Take_lease host"])
         (use lease_inventory(1) places_use [OF acquire_places [of "mg_reg s" host]] in \<open>simp_all add: sys_of_def\<close>)
    then show ?thesis by (simp add: Acquire_lease)
  next
    case (Nested_lease i)
    have "in_use (borrow i (mg_reg s)) = in_use (mg_reg s)" by (simp add: borrow_def in_use_def published_def draining_def)
    then have "mgmt_ok u W (ti_env io) (s\<lparr>mg_reg := borrow i (mg_reg s)\<rparr>)"
      by (intro lease_ok [OF assms(1), where a = "Borrow_lease i"]) (use lease_inventory(2) in \<open>simp_all add: sys_of_def\<close>)
    then show ?thesis by (simp add: Nested_lease)
  next
    case (Drop_lease i)
    have "mgmt_ok u W (ti_env io) (s\<lparr>mg_reg := release_lease i (mg_reg s)\<rparr>)"
      by (rule lease_ok [OF assms(1), where a = "Release_lease i"]) (use release_inventory release_use in \<open>simp_all add: sys_of_def\<close>)
    then show ?thesis by (simp add: Drop_lease)
  next
    case (Force_revoke host)
    have "mgmt_ok u W (ti_env io) (s\<lparr>mg_reg := snd (force_revoke_keys host (mg_reg s))\<rparr>)"
      by (rule lease_ok [OF assms(1), where a = "Revoke_host host"])
         (use revoke_frame(3) [OF ok(8)] places_use [OF revoke_frame(1) [OF ok(8), of host]] in \<open>simp_all add: sys_of_def\<close>)
    then show ?thesis by (simp add: Force_revoke)
  qed
qed

text \<open>
  At start-up. Hosts that share an identity are admitted then, and fenced; generations are told apart by
  their runtime key only where the identities differ.
\<close>

definition identities_differ :: "host_env \<Rightarrow> (string \<times> tool_host) list \<Rightarrow> bool" where
  "identities_differ env hosts \<longleftrightarrow> distinct (map (\<lambda>p. host_identity env (fst p) (snd p)) hosts)"

lemma started_ok:
  assumes "start_mgmt io write_fails key_path legacy d tofu hosts files = Inr s" "inventory_ok hosts"
    and "u \<Longrightarrow> identities_differ (ti_env io) hosts" "trust_owners (ti_env io) s \<subseteq> W"
  shows "mgmt_ok u W (ti_env io) s"
proof -
  let ?env = "ti_env io"
  let ?r0 = "\<lparr>hr_generation = 0, hr_key_path = key_path, hr_legacy_known_hosts = legacy, hr_default = d,
      hr_snapshot = [], hr_counts = [], hr_events = [], hr_retired = [], hr_flags = [], hr_leases = [], hr_finished = []\<rparr>"
  obtain r files' where n: "new_host_registry ?env write_fails key_path legacy d hosts files = (Inr r, files')"
      "s = \<lparr>mg_reg = r, mg_files = files', mg_enroll = \<lparr>en_candidates = [], en_trust = [], en_testing = []\<rparr>,
            mg_hosts = hosts, mg_default = d, mg_tofu = tofu, mg_change = None, mg_tests = [], mg_commits = []\<rparr>"
    using assms(1) by (auto simp: start_mgmt_def split: prod.splits sum.splits)
  obtain p where p: "stage ?env write_fails True (Some d) hosts ?r0 files = (Inr p, files')"
      "r = ?r0\<lparr>hr_snapshot := pb_snapshot p, hr_generation := pb_generation p\<rparr>"
    using n(1) by (auto simp: new_host_registry_def Let_def split: prod.splits sum.splits)
  note m = stage_matches [OF p(1) assms(2)]
  have own: "config_owners ?env a c \<subseteq> W" if "(a, c) \<in> set hosts" for a c
    using trust_ownersD(1) [OF assms(4)] that by (simp add: n(2))
  have held: "\<forall>t\<in>snd ` set (pb_snapshot p). trust_kept W ?env t files'" by (rule m(6) [OF own])
  have sys: "sys_ok \<lparr>hs_reg = r, hs_staged = [], hs_files = files'\<rparr>" by (rule boot_ok [OF host_boot.intros [OF assms(2) n(1)]])
  have use: "in_use r = snd ` set (pb_snapshot p)" by (simp add: p(2) in_use_def published_def draining_def)
  have "keys_apart r" if u
    unfolding keys_apart_def use
  proof (rule inj_onI)
    have differ: "distinct (map (ht_host_id \<circ> snd) (pb_snapshot p))"
      by (rule m(2)) (use assms(3) [OF \<open>u\<close>] in \<open>simp add: identities_differ_def\<close>)
    fix t u assume "t \<in> snd ` set (pb_snapshot p)" "u \<in> snd ` set (pb_snapshot p)" "runtime_key t = runtime_key u"
    then obtain a b where "(a, t) \<in> set (pb_snapshot p)" "(b, u) \<in> set (pb_snapshot p)" "ht_host_id t = ht_host_id u"
      by (auto simp: runtime_key_def runtime_key_inj)
    then show "t = u" using distinct_map_key_unique [OF differ] by fastforce
  qed
  moreover have "inventory_matches ?env (hr_snapshot r) hosts" "hr_default r = d" using m(1) by (simp_all add: p(2))
  ultimately show ?thesis
    using sys held assms(2) unfolding use [symmetric]
    by (simp add: n(2) mgmt_ok_def sys_of_def files_ok_def candidates_ok_def)
qed

definition mgmt_reachable :: "trust_io \<Rightarrow> host_mgmt \<Rightarrow> bool" where
  "mgmt_reachable io s \<longleftrightarrow>
     (\<exists>write_fails key_path legacy d tofu hosts files s0 acts.
        inventory_ok hosts \<and> start_mgmt io write_fails key_path legacy d tofu hosts files = Inr s0 \<and> s = mgmt_run io acts s0)"

text \<open>The owners of a whole run, up to and with its end.\<close>

definition run_owners :: "trust_io \<Rightarrow> mgmt_action list \<Rightarrow> host_mgmt \<Rightarrow> trust_owner set" where
  "run_owners io acts s0 = (\<Union>n\<le>length acts. trust_owners (ti_env io) (mgmt_run io (take n acts) s0))"

lemma mgmt_run_ok: "mgmt_ok u W (ti_env io) s \<Longrightarrow> run_owners io acts s \<subseteq> W \<Longrightarrow> mgmt_ok u W (ti_env io) (mgmt_run io acts s)"
proof (induction acts rule: rev_induct)
  case (snoc a acts)
  have "run_owners io acts s \<subseteq> run_owners io (acts @ [a]) s"
  proof -
    have "mgmt_run io (take n (acts @ [a])) s = mgmt_run io (take n acts) s" if "n \<le> length acts" for n using that by simp
    then have "run_owners io acts s = (\<Union>n\<le>length acts. trust_owners (ti_env io) (mgmt_run io (take n (acts @ [a])) s))"
      unfolding run_owners_def by (intro SUP_cong refl) (simp only: atMost_iff)
    also have "\<dots> \<subseteq> run_owners io (acts @ [a]) s" unfolding run_owners_def by (rule UN_mono) (simp_all add: atMost_subset_iff)
    finally show ?thesis .
  qed
  then have "mgmt_ok u W (ti_env io) (mgmt_run io acts s)" by (intro snoc.IH [OF snoc.prems(1)] subset_trans [OF _ snoc.prems(2)])
  moreover have "trust_owners (ti_env io) (mgmt_run io (take (length acts) (acts @ [a])) s) \<subseteq> run_owners io (acts @ [a]) s"
    unfolding run_owners_def by (rule UN_upper) simp
  then have "trust_owners (ti_env io) (mgmt_run io acts s) \<subseteq> W" using snoc.prems(2) by simp
  ultimately show ?case using mgmt_act_ok by (simp add: mgmt_run_def)
qed (simp add: mgmt_run_def)

lemma mgmt_reachable_ok: "mgmt_reachable io s \<Longrightarrow> mgmt_ok False UNIV (ti_env io) s"
  unfolding mgmt_reachable_def by (elim exE conjE) (simp add: mgmt_run_ok started_ok)

end
