(* ===== verification/Host_History.thy ===== *)
theory Host_History
  imports Host_Manage_Inv
begin

text \<open>
  Where the candidates of a run come from: each was made by a request or an import, became tested by a
  connection test of its own, and is in a change only after the checks of a commit.
\<close>

section \<open>Where a candidate comes from\<close>

text \<open>The test aside, a candidate is what a request or an import made it.\<close>

definition untested :: "host_candidate \<Rightarrow> host_candidate" where
  "untested c = c\<lparr>hc_tested := False, hc_test_result := None\<rparr>"

fun made_by :: "trust_io \<Rightarrow> mgmt_action \<Rightarrow> host_candidate \<Rightarrow> bool" where
  "made_by io (Prepare_candidate now token uuid tofu existing name body scanned unlink_fails) c
     = (prepare_candidate io now token uuid tofu existing name body scanned = Inr (untested c))"
| "made_by io (Import_candidate now token name h found) c = (import_candidate io now token name h found = Inr (untested c))"
| "made_by io a c = False"

text \<open>A candidate's test in a run: the one of exactly this candidate, with its login and platform.\<close>

definition passed_in :: "trust_io \<Rightarrow> host_mgmt \<Rightarrow> mgmt_action list \<Rightarrow> host_candidate \<Rightarrow> bool" where
  "passed_in io s0 acts c \<longleftrightarrow>
     (\<exists>before i clock code printed unlink_fails after. acts = before @ Settle_test i clock (Some (code, printed)) unlink_fails # after
        \<and> i < length (mg_tests (mgmt_run io before s0)) \<and> \<not> mg_locked (mgmt_run io before s0)
        \<and> untested (mg_tests (mgmt_run io before s0) ! i) = untested c \<and> test_passed io c code printed)"

lemma passed_inI:
  assumes "acts = before @ Settle_test i clock (Some (code, printed)) unlink_fails # after"
    and "i < length (mg_tests (mgmt_run io before s0))" "\<not> mg_locked (mgmt_run io before s0)"
    and "untested (mg_tests (mgmt_run io before s0) ! i) = untested c" "test_passed io c code printed"
  shows "passed_in io s0 acts c"
  unfolding passed_in_def using assms by blast

definition vouched :: "trust_io \<Rightarrow> host_mgmt \<Rightarrow> mgmt_action list \<Rightarrow> host_candidate \<Rightarrow> bool" where
  "vouched io s0 acts c \<longleftrightarrow> list_ex (\<lambda>a. made_by io a c) acts \<and> (hc_tested c \<longrightarrow> passed_in io s0 acts c)"

definition candidates_of :: "host_mgmt \<Rightarrow> host_candidate set" where
  "candidates_of s = snd ` set (en_candidates (mg_enroll s)) \<union> set (mg_tests s) \<union> set (mg_commits s)"

lemma passed_more: "passed_in io s0 acts c \<Longrightarrow> passed_in io s0 (acts @ [a]) c"
  unfolding passed_in_def by (metis append.assoc append_Cons)

lemma vouched_more: "vouched io s0 acts c \<Longrightarrow> vouched io s0 (acts @ [a]) c"
  using passed_more by (auto simp: vouched_def)

lemma made_untested: "prepare_candidate io now token uuid tofu existing name body scanned = Inr c \<Longrightarrow> untested c = c"
  "import_candidate io now token name h found = Inr c \<Longrightarrow> untested c = c"
  by (auto simp: prepare_candidate_def import_candidate_def untested_def Let_def split: option.splits)

lemma cleanup_candidates: "en_candidates (fst (cleanup_trust unlink_fails locked r e files)) = en_candidates e"
  by (simp add: cleanup_trust_def Let_def)

lemma discard_candidates:
  "snd ` set (en_candidates (fst (discard_candidate unlink_fails locked r token e files))) \<subseteq> snd ` set (en_candidates e)"
  by (auto simp: discard_candidate_def cleanup_candidates set_jdel)

lemma get_candidates:
  assumes "get_candidate unlink_fails locked r now token e files = (res, e', files')"
  shows "snd ` set (en_candidates e') \<subseteq> snd ` set (en_candidates e)" "res = Inr c \<Longrightarrow> c \<in> snd ` set (en_candidates e)"
proof -
  have "e' = e \<or> e' = fst (discard_candidate unlink_fails locked r token e files)"
    using assms by (auto simp: get_candidate_def prod_eq_iff split: option.splits if_splits)
  then show "snd ` set (en_candidates e') \<subseteq> snd ` set (en_candidates e)" using discard_candidates by blast
  show "c \<in> snd ` set (en_candidates e)" if "res = Inr c"
    using assms that by (force simp: get_candidate_def dest: jget_in split: option.splits if_splits)
qed

lemma start_candidates: "en_candidates (fst (snd (start_test io write_fails r c e files))) = en_candidates e"
  by (auto simp: start_test_def Let_def split: prod.splits sum.splits)

lemma leave_candidates: "en_candidates (fst (leave_test unlink_fails locked r token e files)) = en_candidates e"
  by (simp add: leave_test_def cleanup_candidates)

lemma change_keeps_candidates:
  "mg_enroll (begin_change io write_fails hosts d tofu result token s) = mg_enroll s"
  "mg_tests (begin_change io write_fails hosts d tofu result token s) = mg_tests s"
  "mg_commits (begin_change io write_fails hosts d tofu result token s) = mg_commits s"
  "mg_hosts (begin_change io write_fails hosts d tofu result token s) = mg_hosts s"
  by (auto simp: begin_change_def split: prod.splits sum.splits)

lemma begun_change:
  "mg_change (begin_change io write_fails hosts d tofu result token s) = Some ch \<Longrightarrow>
     mg_change s = Some ch \<or> ch_hosts ch = hosts \<and> ch_token ch = token"
  by (auto simp: begin_change_def split: prod.splits sum.splits)

text \<open>One step: where its candidates, its approved commits and its change come from.\<close>

lemma own_candidates:
  "snd ` set (en_candidates (mg_enroll s)) \<subseteq> candidates_of s" "set (mg_tests s) \<subseteq> candidates_of s"
  "set (mg_commits s) \<subseteq> candidates_of s"
  by (auto simp: candidates_of_def)

lemma no_new_candidate:
  assumes "c \<in> candidates_of s'" "snd ` set (en_candidates (mg_enroll s')) \<subseteq> snd ` set (en_candidates (mg_enroll s))"
    and "set (mg_tests s') \<subseteq> candidates_of s" "set (mg_commits s') \<subseteq> candidates_of s"
  shows "c \<in> candidates_of s"
  using assms by (auto simp: candidates_of_def)

lemma prepared_candidates:
  assumes "c \<in> candidates_of (mgmt_act io (Prepare_candidate now token uuid tofu existing name body scanned unlink_fails) s)"
  shows "c \<in> candidates_of s \<or> prepare_candidate io now token uuid tofu existing name body scanned = Inr (untested c) \<and> \<not> hc_tested c"
proof (cases "prepare_candidate io now token uuid tofu existing name body scanned")
  case (Inl err)
  then show ?thesis using assms by (simp add: prepare_def)
next
  case (Inr c0)
  have sub: "snd ` set (jset token c0 (en_candidates (mg_enroll s))) \<subseteq> insert c0 (snd ` set (en_candidates (mg_enroll s)))"
    using jset_subset [of token c0 "en_candidates (mg_enroll s)"] by fastforce
  have "c \<in> candidates_of s \<or> c = c0"
    using assms sub
    by (auto simp: prepare_def Inr prune_candidates_def cleanup_trust_def candidates_of_def Let_def split: if_splits)
  moreover have "\<not> hc_tested c0" using Inr by (auto simp: prepare_candidate_def)
  ultimately show ?thesis using Inr made_untested(1) [OF Inr] by auto
qed

lemma imported_candidates:
  assumes "c \<in> candidates_of (mgmt_act io (Import_candidate now token name h found) s)"
  shows "c \<in> candidates_of s \<or> import_candidate io now token name h found = Inr (untested c) \<and> \<not> hc_tested c"
proof (cases "import_candidate io now token name h found")
  case (Inl err)
  then show ?thesis using assms by (simp add: import_legacy_def)
next
  case (Inr c0)
  have "c \<in> candidates_of s \<or> c = c0"
    using assms jset_subset [of token c0 "en_candidates (mg_enroll s)"]
    by (fastforce simp: import_legacy_def Inr candidates_of_def)
  moreover have "\<not> hc_tested c0" using Inr by (auto simp: import_candidate_def Let_def split: option.splits)
  ultimately show ?thesis using Inr made_untested(2) [OF Inr] by auto
qed

lemma started_candidates:
  assumes "c \<in> candidates_of (mgmt_act io (Start_test now token write_fails unlink_fails) s)"
  shows "c \<in> candidates_of s"
proof -
  obtain res e files where g: "get_candidate unlink_fails (mg_locked s) (mg_reg s) now token (mg_enroll s) (mg_files s) = (res, e, files)"
    by (metis prod_cases3)
  note gc = get_candidates [OF g]
  show ?thesis
  proof (cases res)
    case (Inl err)
    then show ?thesis using own_candidates [of s] gc(1) by (intro no_new_candidate [OF assms]) (simp_all add: g)
  next
    case (Inr c0)
    obtain x e' files' where st: "start_test io write_fails (mg_reg s) c0 e files = (x, e', files')" by (metis prod_cases3)
    obtain e'' files'' where l: "leave_test unlink_fails (mg_locked s) (mg_reg s) token e' files' = (e'', files'')" by fastforce
    have "en_candidates e' = en_candidates e" "en_candidates e'' = en_candidates e'"
      using start_candidates [of io write_fails "mg_reg s" c0 e files] leave_candidates [of unlink_fails "mg_locked s" "mg_reg s" token e' files']
      by (simp_all add: st l)
    then show ?thesis
      using own_candidates [of s] gc Inr by (intro no_new_candidate [OF assms]; cases x) (auto simp: g st l)
  qed
qed

text \<open>The outcome of a test on the candidate it was of.\<close>

definition with_outcome :: "trust_io \<Rightarrow> string \<Rightarrow> (int \<times> string) option \<Rightarrow> host_candidate \<Rightarrow> host_candidate" where
  "with_outcome io clock finished c =
     c\<lparr>hc_tested := (fget ''ok'' (test_outcome io clock c finished) = JBool True),
       hc_test_result := Some (test_outcome io clock c finished)\<rparr>"

lemma settled_candidates:
  assumes "c \<in> candidates_of (mgmt_act io (Settle_test i clock finished unlink_fails) s)"
  shows "c \<in> candidates_of s \<or> \<not> mg_locked s \<and> i < length (mg_tests s) \<and> c = with_outcome io clock finished (mg_tests s ! i)"
proof (cases "mg_locked s \<or> length (mg_tests s) \<le> i")
  case True
  then have "mgmt_act io (Settle_test i clock finished unlink_fails) s = s" by (auto simp: unlocked_def)
  then show ?thesis using assms by simp
next
  case False
  let ?c = "mg_tests s ! i"
  let ?new = "with_outcome io clock finished ?c"
  have "snd ` set (jset (hc_token ?c) ?new (en_candidates (mg_enroll s))) \<subseteq> insert ?new (snd ` set (en_candidates (mg_enroll s)))"
    using jset_subset [of "hc_token ?c" ?new "en_candidates (mg_enroll s)"] by fastforce
  then have "c \<in> candidates_of s \<or> c = ?new"
    using assms False remove_nth_set [of i "mg_tests s"]
    by (auto simp: unlocked_def settle_test_def with_outcome_def Let_def leave_test_def cleanup_trust_def candidates_of_def split: if_splits)
  then show ?thesis using False by auto
qed

lemma finished_candidates:
  assumes "c \<in> candidates_of (finish_change unlink_fails saved cancelled ch s)"
  shows "c \<in> candidates_of s"
proof (rule no_new_candidate [OF assms])
  have "snd ` set (en_candidates (mg_enroll (finish_change unlink_fails saved cancelled ch s))) \<subseteq> snd ` set (en_candidates (mg_enroll s))
      \<and> mg_tests (finish_change unlink_fails saved cancelled ch s) = mg_tests s
      \<and> mg_commits (finish_change unlink_fails saved cancelled ch s) = mg_commits s"
    using discard_candidates by (auto simp: finish_change_def Let_def case_prod_beta split: option.splits prod.splits)
  then show "snd ` set (en_candidates (mg_enroll (finish_change unlink_fails saved cancelled ch s))) \<subseteq> snd ` set (en_candidates (mg_enroll s))"
    "set (mg_tests (finish_change unlink_fails saved cancelled ch s)) \<subseteq> candidates_of s"
    "set (mg_commits (finish_change unlink_fails saved cancelled ch s)) \<subseteq> candidates_of s"
    using own_candidates [of s] by simp_all
qed

lemma approved_candidates:
  assumes "c \<in> candidates_of (approve_commit unlink_fails now token s)"
  shows "c \<in> candidates_of s"
proof -
  obtain res e files where g: "get_candidate unlink_fails (mg_locked s) (mg_reg s) now token (mg_enroll s) (mg_files s) = (res, e, files)"
    by (metis prod_cases3)
  show ?thesis
    using own_candidates [of s] get_candidates [OF g]
    by (intro no_new_candidate [OF assms]; cases res) (auto simp: approve_commit_def g Let_def)
qed

lemma act_candidates:
  assumes "c \<in> candidates_of (mgmt_act io a s)"
  shows "c \<in> candidates_of s \<or> made_by io a c \<and> \<not> hc_tested c
    \<or> (\<exists>i clock finished unlink_fails. a = Settle_test i clock finished unlink_fails \<and> \<not> mg_locked s \<and> i < length (mg_tests s)
         \<and> c = with_outcome io clock finished (mg_tests s ! i))"
proof (cases a)
  case (Prepare_candidate now token uuid tofu existing name body scanned unlink_fails)
  then show ?thesis using prepared_candidates [OF assms [unfolded Prepare_candidate]] by (simp del: mgmt_act.simps)
next
  case (Import_candidate now token name h found)
  then show ?thesis using imported_candidates [OF assms [unfolded Import_candidate]] by (simp del: mgmt_act.simps)
next
  case (Discard_candidate token unlink_fails)
  then show ?thesis
    using discard_candidates own_candidates [of s] by (intro disjI1 no_new_candidate [OF assms]) (auto simp: case_prod_beta)
next
  case (Start_test now token write_fails unlink_fails)
  then show ?thesis using started_candidates [OF assms [unfolded Start_test]] by blast
next
  case (Settle_test i clock finished unlink_fails)
  then show ?thesis using settled_candidates [OF assms [unfolded Settle_test]] by blast
next
  case (Abort_test i unlink_fails)
  then show ?thesis
    using leave_candidates own_candidates [of s] remove_nth_set [of i "mg_tests s"]
    by (intro disjI1 no_new_candidate [OF assms]) (auto simp: case_prod_beta)
next
  case (Approve_commit now token unlink_fails)
  then show ?thesis using approved_candidates assms by simp
next
  case (Begin_commit i write_fails)
  then show ?thesis
    using own_candidates [of s] remove_nth_set [of i "mg_commits s"]
    by (intro disjI1 no_new_candidate [OF assms]) (auto simp: unlocked_def begin_commit_def change_keeps_candidates)
next
  case (Finish_change saved cancelled unlink_fails)
  then show ?thesis using finished_candidates assms by (cases "mg_change s") auto
next
  case (Begin_enable host on write_fails)
  then show ?thesis using own_candidates [of s]
    by (intro disjI1 no_new_candidate [OF assms]) (auto simp: unlocked_def begin_enable_def change_keeps_candidates split: option.split)
next
  case (Begin_delete host usage write_fails)
  then show ?thesis using own_candidates [of s]
    by (intro disjI1 no_new_candidate [OF assms]) (auto simp: unlocked_def begin_delete_def change_keeps_candidates)
next
  case (Begin_settings d tofu write_fails)
  then show ?thesis using own_candidates [of s]
    by (intro disjI1 no_new_candidate [OF assms]) (auto simp: unlocked_def begin_settings_def change_keeps_candidates Let_def)
qed (use assms in \<open>simp_all add: candidates_of_def\<close>)

lemma settled_vouched:
  assumes "vouched io s0 acts c" "i < length (mg_tests (mgmt_run io acts s0))" "\<not> mg_locked (mgmt_run io acts s0)"
    and "c = mg_tests (mgmt_run io acts s0) ! i"
  shows "vouched io s0 (acts @ [Settle_test i clock finished unlink_fails]) (with_outcome io clock finished c)"
proof -
  let ?c = "with_outcome io clock finished c"
  have u: "untested ?c = untested c" by (simp add: with_outcome_def untested_def)
  have "made_by io a ?c = made_by io a c" for a by (cases a) (simp_all add: u)
  moreover have "passed_in io s0 (acts @ [Settle_test i clock finished unlink_fails]) ?c" if t: "hc_tested ?c"
  proof -
    obtain code printed where f: "finished = Some (code, printed)"
      using t by (cases finished) (auto simp: with_outcome_def test_outcome_def fget_def jget_Cons)
    have "test_passed io c code printed" using t by (simp add: with_outcome_def f test_outcome_def fget_def jget_Cons)
    then have "test_passed io ?c code printed" by (simp add: with_outcome_def test_passed_def)
    then show ?thesis using assms(2-4) u by (intro passed_inI [where before = acts and after = "[]"]) (simp_all add: f)
  qed
  ultimately show ?thesis using assms(1) by (auto simp: vouched_def)
qed

lemma act_commits:
  assumes "c \<in> set (mg_commits (mgmt_act io a s))"
  shows "c \<in> set (mg_commits s) \<or> c \<in> candidates_of s \<and> hc_tested c \<and> \<not> unconfirmed c"
proof (cases a)
  case (Approve_commit now token unlink_fails)
  obtain res e files where g: "get_candidate unlink_fails (mg_locked s) (mg_reg s) now token (mg_enroll s) (mg_files s) = (res, e, files)"
    by (metis prod_cases3)
  then show ?thesis
    using assms get_candidates(2) [OF g]
    by (cases res) (auto simp: Approve_commit approve_commit_def g Let_def candidates_of_def split: if_splits)
next
  case (Begin_commit i write_fails)
  then show ?thesis
    using assms remove_nth_set [of i "mg_commits s"]
    by (auto simp: unlocked_def begin_commit_def change_keeps_candidates split: if_splits)
qed (use assms in \<open>auto simp: unlocked_def begin_enable_def begin_delete_def begin_settings_def change_keeps_candidates Let_def
       finish_change_def case_prod_beta split: option.splits prod.splits sum.splits if_splits\<close>)

text \<open>A change under way is an older one on the same configuration, or one that starts with this step.\<close>

lemma act_change:
  assumes "mg_change (mgmt_act io a s) = Some ch" "ch_token ch = Some token"
  shows "mg_change s = Some ch \<and> mg_hosts (mgmt_act io a s) = mg_hosts s
    \<or> (\<exists>c\<in>set (mg_commits s). ch_token ch = Some (hc_token c) \<and> mg_hosts (mgmt_act io a s) = mg_hosts s
         \<and> ch_hosts ch = jset (hc_alias c) (as_tool_host c) (mg_hosts s) \<and> jget (hc_alias c) (mg_hosts s) = hc_expected c)"
proof (cases a)
  case (Begin_commit i write_fails)
  show ?thesis
  proof (cases "mg_locked s \<or> length (mg_commits s) \<le> i")
    case True
    then have "mgmt_act io a s = s" by (auto simp: Begin_commit unlocked_def)
    then show ?thesis using assms(1) by simp
  next
    case False
    let ?s = "s\<lparr>mg_commits := remove_nth i (mg_commits s)\<rparr>" and ?c = "mg_commits s ! i"
    have eq: "mgmt_act io a s = begin_commit io write_fails ?c ?s" using False by (simp add: Begin_commit unlocked_def)
    show ?thesis
    proof (cases "jget (hc_alias ?c) (mg_hosts s) = hc_expected ?c")
      case True
      have b: "begin_commit io write_fails ?c ?s = begin_change io write_fails (jset (hc_alias ?c) (as_tool_host ?c) (mg_hosts s))
          (mg_default s) (mg_tofu s) (case hc_test_result ?c of Some (x # xs) \<Rightarrow> Some (hc_alias ?c, x # xs) | _ \<Rightarrow> None) (Some (hc_token ?c)) ?s"
        using True by (simp add: begin_commit_def)
      have "mg_change s = None" using False by (simp add: mg_locked_def)
      then have "ch_hosts ch = jset (hc_alias ?c) (as_tool_host ?c) (mg_hosts s) \<and> ch_token ch = Some (hc_token ?c)"
        using begun_change [OF assms(1) [unfolded eq b]] by simp
      moreover have "mg_hosts (mgmt_act io a s) = mg_hosts s" unfolding eq b by (simp add: change_keeps_candidates)
      moreover have "?c \<in> set (mg_commits s)" using False by simp
      ultimately show ?thesis using True by blast
    next
      case stale: False
      then show ?thesis using assms(1) unfolding eq by (simp add: begin_commit_def)
    qed
  qed
next
  case (Begin_enable host on write_fails)
  then show ?thesis
    using assms begun_change by (fastforce simp: unlocked_def begin_enable_def change_keeps_candidates split: if_splits option.splits)
next
  case (Begin_delete host usage write_fails)
  then show ?thesis
    using assms begun_change by (fastforce simp: unlocked_def begin_delete_def change_keeps_candidates split: if_splits)
next
  case (Begin_settings d tofu write_fails)
  then show ?thesis
    using assms begun_change by (fastforce simp: unlocked_def begin_settings_def change_keeps_candidates Let_def split: if_splits)
qed (use assms in \<open>auto simp: unlocked_def finish_change_def case_prod_beta approve_commit_def Let_def
       split: option.splits prod.splits sum.splits if_splits\<close>)

end
