(* ===== verification/Host_Example.thy ===== *)
theory Host_Example
  imports Host_History
begin

text \<open>
  A concrete run of host management, for the witnesses: a host is prepared with its expected fingerprint, tested,
  committed and published. Base64 and SHA-256 are instantiated by simple functions.
\<close>

section \<open>A candidate\<close>

definition ex_host_key :: string where
  "ex_host_key = ''ssh-ed25519 AAAA''"

definition ex_print :: string where
  "ex_print = ''SHA256:abcdefghijklmnopqrstuv''"

definition ex_trust_io :: trust_io where
  "ex_trust_io = \<lparr>ti_env = ex_host_env, ti_b64_text = (\<lambda>raw. raw), ti_sha256 = (\<lambda>raw. ''abcdefghijklmnopqrstuv''), ti_scrub = (\<lambda>t. t),
     ti_sanitize = (\<lambda>t. t)\<rparr>"

lemma ex_io [simp]:
  "ti_env ex_trust_io = ex_host_env" "ti_b64_text ex_trust_io raw = raw" "ti_sha256 ex_trust_io raw = ''abcdefghijklmnopqrstuv''"
  "ti_scrub ex_trust_io = (\<lambda>t. t)" "ti_sanitize ex_trust_io t = t" "he_b64 ex_host_env = Some" "he_uuid ex_host_env = Some"
  by (simp_all add: ex_trust_io_def ex_host_env_def)

lemma ex_split: "split_words ''h2 ssh-ed25519 AAAA'' = [''h2'', ''ssh-ed25519'', ''AAAA'']" "split_words ex_host_key = [''ssh-ed25519'', ''AAAA'']"
  "strip ''h2 ssh-ed25519 AAAA'' = ''h2 ssh-ed25519 AAAA''" "strip ex_host_key = ex_host_key"
  by code_simp+

lemma ex_normal: "normalize_public_key Some ''h2 ssh-ed25519 AAAA'' = Some ex_host_key" "normalize_public_key Some ex_host_key = Some ex_host_key"
  by (simp_all add: normalize_public_key_def ex_split KEY_TYPES_def key_control_char_def) (simp_all add: ex_host_key_def key_control_char_def)

lemma ex_fingerprint: "fingerprint_public_key ex_trust_io ex_host_key = Some ex_print"
  by (simp add: fingerprint_public_key_def ex_normal ex_split strip_equals_def ex_print_def)

definition ex_body :: dict where
  "ex_body = [(''address'', JStr ''h2''), (''expected_fingerprints'', JStr ex_print)]"

definition ex_candidate :: host_candidate where
  "ex_candidate = \<lparr>hc_token = ''t'', hc_alias = ''web'', hc_host_id = ''w'', hc_address = ''h2'', hc_user = ''root'', hc_os = ''linux'',
     hc_port = 22, hc_description = [], hc_enabled = True, hc_trust_mode = ''pinned'', hc_host_keys = [ex_host_key],
     hc_fingerprints = [ex_print], hc_local_confirmed = False, hc_tofu_confirmed = False, hc_created = 0, hc_expected = None,
     hc_tested = False, hc_test_result = None\<rparr>"

lemma ex_scan: "scan_result ex_trust_io False (Some (0, ''h2 ssh-ed25519 AAAA'')) = Inr [ex_host_key]"
proof -
  have "scan_lines ''h2 ssh-ed25519 AAAA'' = [''h2 ssh-ed25519 AAAA'']" by code_simp
  then have "scanned_keys (normalize_public_key Some) ''h2 ssh-ed25519 AAAA'' = [ex_host_key]"
    by (simp add: scanned_keys_def map_filter_simps ex_normal first_occurrences_def)
  then show ?thesis by (simp add: scan_result_def insist_def)
qed

lemma ex_pinned: "pinned_keys ex_trust_io (JList [JStr ex_print]) [ex_host_key] [ex_print] = Inr ([ex_host_key], [ex_print])"
proof -
  have "clean_line (JStr ex_print) ''fingerprint'' 80 True = Inr ex_print" "fingerprint_pattern ex_print" by code_simp+
  then show ?thesis by (simp add: pinned_keys_def attempt_def insist_def fingerprints_of_def ex_fingerprint)
qed

lemma ex_prepared:
  "prepare_candidate ex_trust_io 0 ''t'' ''w'' False None ''web'' ex_body (Some (0, ''h2 ssh-ed25519 AAAA'')) = Inr ex_candidate"
proof -
  have d: "validate_host_details (\<lambda>t. t) (JStr ''web'') ex_body = Inr \<lparr>hd_alias = ''web'', hd_address = ''h2'', hd_user = ''root'', hd_os = ''linux'',
     hd_port = 22, hd_description = [], hd_enabled = True, hd_trust_mode = ''pinned''\<rparr>" by code_simp
  have "fget ''confirm_tofu'' ex_body = JNull" "as_list (fget ''expected_fingerprints'' ex_body) = JList [JStr ex_print]"
      "fget ''confirm_local'' ex_body = JNull"
    by (simp_all add: ex_body_def fget_def jget_Cons as_list_def)
  then show ?thesis
    by (simp add: prepare_candidate_def d attempt_def judge_evidence_def insist_def is_local_address_def ex_scan fingerprints_of_def
        ex_fingerprint ex_pinned ex_candidate_def)
qed

section \<open>The run\<close>

definition ex_run_0 :: host_mgmt where
  "ex_run_0 = \<lparr>mg_reg = \<lparr>hr_generation = 1, hr_key_path = ''key'', hr_legacy_known_hosts = ''known'', hr_default = [], hr_snapshot = [],
       hr_counts = [], hr_events = [], hr_retired = [], hr_flags = [], hr_leases = [], hr_finished = []\<rparr>,
     mg_files = [], mg_enroll = \<lparr>en_candidates = [], en_trust = [], en_testing = []\<rparr>, mg_hosts = [], mg_default = [], mg_tofu = False,
     mg_change = None, mg_tests = [], mg_commits = []\<rparr>"

lemma ex_started: "start_mgmt ex_trust_io (\<lambda>path. False) ''key'' ''known'' [] False [] [] = Inr ex_run_0"
  by (simp add: start_mgmt_def new_host_registry_def stage_def collisions_of_def ex_run_0_def)

definition ex_path :: string where
  "ex_path = trust_path ex_host_env ''w'' ''odin-w'' ''pinned'' [ex_host_key]"

definition ex_lines :: string where
  "ex_lines = trust_lines ''odin-w'' ''pinned'' [ex_host_key]"

lemma ex_fields [simp]:
  "hc_token ex_candidate = ''t''" "hc_alias ex_candidate = ''web''" "hc_address ex_candidate = ''h2''" "hc_host_id ex_candidate = ''w''"
  "hc_trust_mode ex_candidate = ''pinned''" "hc_host_keys ex_candidate = [ex_host_key]" "hc_os ex_candidate = ''linux''"
  "hc_expected ex_candidate = None" "hc_created ex_candidate = 0"
  by (simp_all add: ex_candidate_def)

lemma ex_identity: "trust_identity_of ex_candidate = (''w'', ''odin-w'', ''pinned'', [ex_host_key])" "candidate_key_alias ex_candidate = ''odin-w''"
  by (simp_all add: trust_identity_of_def candidate_key_alias_def ex_candidate_def)

definition ex_tested :: host_candidate where
  "ex_tested = with_outcome ex_trust_io ''now'' (Some (0, ''odin-host-test linux'')) ex_candidate"

definition ex_act :: "nat \<Rightarrow> mgmt_action" where
  "ex_act i = [Prepare_candidate 0 ''t'' ''w'' False None ''web'' ex_body (Some (0, ''h2 ssh-ed25519 AAAA'')) (\<lambda>path. False),
     Start_test 0 ''t'' (\<lambda>path. False) (\<lambda>path. False), Settle_test 0 ''now'' (Some (0, ''odin-host-test linux'')) (\<lambda>path. False),
     Approve_commit 0 ''t'' (\<lambda>path. False), Begin_commit 0 (\<lambda>path. False), Finish_change True False (\<lambda>path. False)] ! i"

definition ex_run_1 :: host_mgmt where
  "ex_run_1 = ex_run_0\<lparr>mg_enroll := \<lparr>en_candidates = [(''t'', ex_candidate)], en_trust = [], en_testing = []\<rparr>\<rparr>"

lemma ex_fresh: "\<not> CANDIDATE_TTL < 0 - hc_created ex_candidate" "\<not> CANDIDATE_TTL < 0 - hc_created ex_tested"
  by (simp_all add: CANDIDATE_TTL_def ex_tested_def with_outcome_def ex_candidate_def)

lemma ex_step_0: "mgmt_act ex_trust_io (ex_act 0) ex_run_0 = ex_run_1"
  by (simp add: ex_act_def prepare_def ex_prepared prune_candidates_def cleanup_trust_def orphaned_def ex_fresh [simplified]
      ex_run_0_def ex_run_1_def mg_locked_def jset_def jhas_def)

definition ex_run_2 :: host_mgmt where
  "ex_run_2 = ex_run_1\<lparr>mg_enroll := \<lparr>en_candidates = [(''t'', ex_candidate)], en_trust = [(ex_path, trust_identity_of ex_candidate)],
       en_testing = [(''t'', 1)]\<rparr>, mg_files := [(ex_path, ex_lines)], mg_tests := [ex_candidate]\<rparr>"

lemma ex_material: "materialize_trust ex_host_env (\<lambda>path. False) ''w'' ''odin-w'' ''pinned'' [ex_host_key] files = (Inr ex_path, jset ex_path ex_lines files)"
  by (simp add: materialize_trust_def ex_normal Let_def ex_path_def ex_lines_def)

lemma ex_step_1: "mgmt_act ex_trust_io (ex_act 1) ex_run_1 = ex_run_2"
proof -
  have "start_test ex_trust_io (\<lambda>path. False) (mg_reg ex_run_1) ex_candidate (mg_enroll ex_run_1) [] =
      (None, mg_enroll ex_run_2, [(ex_path, ex_lines)])"
    by (simp add: start_test_def Let_def ex_identity ex_material is_local_address_def ex_run_0_def ex_run_1_def ex_run_2_def
      registry_trust_paths_def all_runtime_targets_def jset_def jhas_def)
  then show ?thesis
    by (simp add: ex_act_def get_candidate_def ex_run_1_def ex_fresh [simplified] jget_Cons)
       (simp add: ex_run_0_def ex_run_2_def ex_run_1_def)
qed

definition ex_result :: dict where
  "ex_result = [(''ok'', JBool True), (''checked_at'', JFloat ''now''), (''platform'', JStr ''linux''),
     (''detail'', JStr ''authentication and platform verified'')]"

lemma ex_passed: "test_passed ex_trust_io ex_candidate 0 ''odin-host-test linux''"
  by code_simp

lemma ex_outcome: "test_outcome ex_trust_io ''now'' ex_candidate (Some (0, ''odin-host-test linux'')) = ex_result"
proof -
  have "observed_platform ex_trust_io ''odin-host-test linux'' = ''linux''" by code_simp
  then show ?thesis using ex_passed by (simp add: test_outcome_def test_detail_def ex_result_def)
qed

lemma ex_tested_eq: "ex_tested = ex_candidate\<lparr>hc_tested := True, hc_test_result := Some ex_result\<rparr>"
  by (simp add: ex_tested_def with_outcome_def ex_outcome) (simp add: ex_result_def fget_def jget_Cons)

definition ex_run_3 :: host_mgmt where
  "ex_run_3 = ex_run_2\<lparr>mg_enroll := \<lparr>en_candidates = [(''t'', ex_tested)], en_trust = [(ex_path, trust_identity_of ex_candidate)],
       en_testing = []\<rparr>, mg_tests := []\<rparr>"

lemma ex_step_2: "mgmt_act ex_trust_io (ex_act 2) ex_run_2 = ex_run_3"
proof -
  have "trust_identity_of ex_tested = trust_identity_of ex_candidate"
    by (simp add: ex_tested_eq trust_identity_of_def candidate_key_alias_def)
  then have "orphaned (\<lambda>path. False) e [(ex_path, trust_identity_of ex_candidate)] = []" if "en_candidates e = [(''t'', ex_tested)]" for e
    using that by (simp add: orphaned_def)
  moreover have "settle_test (\<lambda>path. False) ex_candidate ex_result (mg_reg ex_run_2) (mg_enroll ex_run_2) (mg_files ex_run_2) =
      (mg_reg ex_run_2, leave_test (\<lambda>path. False) False (mg_reg ex_run_2) ''t''
         ((mg_enroll ex_run_2)\<lparr>en_candidates := [(''t'', ex_tested)]\<rparr>) (mg_files ex_run_2))"
    by (simp add: settle_test_def mark_tested_def get_target_def ex_run_0_def ex_run_1_def ex_run_2_def jset_def jhas_def Let_def)
       (simp add: ex_result_def ex_tested_eq fget_def jget_Cons)
  ultimately show ?thesis
    by (simp add: ex_act_def unlocked_def ex_outcome leave_test_def cleanup_trust_def ex_run_0_def ex_run_1_def
      ex_run_2_def ex_run_3_def mg_locked_def registry_trust_paths_def all_runtime_targets_def remove_nth_def jget_Cons jdel_def)
qed

definition ex_run_4 :: host_mgmt where
  "ex_run_4 = ex_run_3\<lparr>mg_commits := [ex_tested]\<rparr>"

lemma ex_step_3: "mgmt_act ex_trust_io (ex_act 3) ex_run_3 = ex_run_4"
proof -
  have "hc_tested ex_tested" "\<not> unconfirmed ex_tested" by (simp_all add: ex_tested_eq unconfirmed_def)
  then show ?thesis
    by (simp add: ex_act_def approve_commit_def get_candidate_def ex_run_3_def ex_fresh [simplified] jget_Cons)
       (simp add: ex_run_0_def ex_run_1_def ex_run_2_def ex_run_4_def ex_run_3_def)
qed

definition ex_target :: host_target where
  "ex_target = target_of ''web'' ''w'' (as_tool_host ex_tested) 2 ''key'' [ex_host_key] ex_path ''odin-w'' True ''pinned''"

definition ex_change :: host_change where
  "ex_change = \<lparr>ch_hosts = [(''web'', as_tool_host ex_tested)], ch_default = [], ch_tofu = False,
     ch_publication = \<lparr>pb_expected = 1, pb_generation = 2, pb_default = [], pb_snapshot = [(''web'', ex_target)]\<rparr>,
     ch_result = Some (''web'', ex_result), ch_token = Some ''t''\<rparr>"

definition ex_run_5 :: host_mgmt where
  "ex_run_5 = ex_run_4\<lparr>mg_change := Some ex_change, mg_commits := []\<rparr>"

lemma ex_staged:
  "stage ex_host_env (\<lambda>path. False) False (Some []) [(''web'', as_tool_host ex_tested)] (mg_reg ex_run_0) [(ex_path, ex_lines)] =
     (Inr (ch_publication ex_change), [(ex_path, ex_lines)])"
proof -
  have "target_from_config ex_host_env (\<lambda>path. False) (mg_reg ex_run_0) ''web'' (as_tool_host ex_tested) 2 [(ex_path, ex_lines)] =
      (Inr ex_target, [(ex_path, ex_lines)])"
    by (simp add: target_from_config_def host_identity_def as_tool_host_def ex_tested_eq is_local_address_def ex_normal ex_material
        ex_run_0_def ex_target_def target_of_def jset_def jhas_def Let_def)
       (simp add: ex_candidate_def)
  moreover have "host_identity ex_host_env ''web'' (as_tool_host ex_tested) = Some ''w''"
    by (simp add: host_identity_def as_tool_host_def ex_tested_eq)
  moreover have "hr_generation (mg_reg ex_run_0) = 1" "hr_snapshot (mg_reg ex_run_0) = []" by (simp_all add: ex_run_0_def)
  ultimately show ?thesis
    by (simp add: stage_def collisions_of_def fenced_target_def collision_fenced_def ex_change_def flip: numeral_2_eq_2)
qed

lemma ex_step_4: "mgmt_act ex_trust_io (ex_act 4) ex_run_4 = ex_run_5"
proof -
  have reg: "mg_reg ex_run_4 = mg_reg ex_run_0" "mg_files ex_run_4 = [(ex_path, ex_lines)]" "mg_hosts ex_run_4 = []" "mg_default ex_run_4 = []"
      "mg_tofu ex_run_4 = False" "mg_change ex_run_4 = None" "mg_commits ex_run_4 = [ex_tested]"
    by (simp_all add: ex_run_0_def ex_run_1_def ex_run_2_def ex_run_3_def ex_run_4_def)
  have "hc_test_result ex_tested = Some ex_result" "hc_alias ex_tested = ''web''" "hc_expected ex_tested = None" "hc_token ex_tested = ''t''"
    by (simp_all add: ex_tested_eq)
  then show ?thesis
    using reg by (simp add: ex_act_def unlocked_def mg_locked_def begin_commit_def begin_change_def jset_def jhas_def ex_staged remove_nth_def)
      (simp add: ex_result_def ex_run_5_def ex_change_def reg)
qed

abbreviation ex_acts :: "mgmt_action list" where
  "ex_acts \<equiv> [ex_act 0, ex_act 1, ex_act 2, ex_act 3, ex_act 4]"

lemma ex_begun: "mgmt_run ex_trust_io ex_acts ex_run_0 = ex_run_5"
  unfolding mgmt_run_def fold.simps comp_def id_def ex_step_0 ex_step_1 ex_step_2 ex_step_3 ex_step_4 ..

lemma ex_mgmt_reachable: "mgmt_reachable ex_trust_io (mgmt_run ex_trust_io acts ex_run_0)"
proof -
  have "inventory_ok []" by (simp add: inventory_ok_def)
  then show ?thesis using ex_started unfolding mgmt_reachable_def by blast
qed

definition ex_published :: host_target where
  "ex_published = tested_target ex_result False 3 ex_target"

lemma ex_finished:
  "hr_snapshot (mg_reg (mgmt_run ex_trust_io (ex_acts @ [ex_act 5]) ex_run_0)) = [(''web'', ex_published)]"
  "mg_hosts (mgmt_run ex_trust_io (ex_acts @ [ex_act 5]) ex_run_0) = [(''web'', as_tool_host ex_tested)]"
proof -
  let ?r = "(mg_reg ex_run_0)\<lparr>hr_generation := 2, hr_snapshot := [(''web'', ex_target)]\<rparr>"
  have "publish_staged (ch_publication ex_change) (mg_reg ex_run_0) = (None, ?r)"
    by (simp add: publish_staged_def ex_change_def ex_run_0_def)
  moreover have "hr_snapshot (record_result ex_change ?r) = [(''web'', ex_published)]"
    by (simp add: record_result_def ex_change_def mark_test_result_def retire_target_def finish_retirement_def Let_def ex_published_def ex_run_0_def
        jget_Cons jset_def jhas_def split: option.split)
  moreover have "mgmt_run ex_trust_io (ex_acts @ [ex_act 5]) ex_run_0 = mgmt_act ex_trust_io (ex_act 5) ex_run_5"
    using ex_begun by (simp add: mgmt_run_def)
  moreover have "mg_reg ex_run_5 = mg_reg ex_run_0"
    by (simp add: ex_run_0_def ex_run_1_def ex_run_2_def ex_run_3_def ex_run_4_def ex_run_5_def)
  ultimately show "hr_snapshot (mg_reg (mgmt_run ex_trust_io (ex_acts @ [ex_act 5]) ex_run_0)) = [(''web'', ex_published)]"
      "mg_hosts (mgmt_run ex_trust_io (ex_acts @ [ex_act 5]) ex_run_0) = [(''web'', as_tool_host ex_tested)]"
    by (simp_all add: ex_act_def ex_run_5_def ex_change_def finish_change_def Let_def split: prod.split option.split)
qed

text \<open>Every file of the run is written for one owner.\<close>

definition ex_owner :: "trust_owner set" where
  "ex_owner = {(''w'', ''odin-w'', ''pinned'', [ex_host_key])}"

lemma ex_one_owner:
  assumes "mg_hosts s \<in> {[], [(''web'', as_tool_host ex_tested)]}" "candidates_of s \<subseteq> {ex_candidate, ex_tested}"
  shows "trust_owners ex_host_env s \<subseteq> ex_owner"
proof -
  have own: "config_owners ex_host_env ''web'' (as_tool_host c) \<union> test_owners ex_host_env c \<subseteq> ex_owner"
    if "c \<in> {ex_candidate, ex_tested}" for c
    using that
    by (auto simp: ex_owner_def config_owners_def test_owners_def host_identity_def as_tool_host_def candidate_key_alias_def ex_tested_eq ex_normal)
  have web: "hc_alias c = ''web''" if "c \<in> {ex_candidate, ex_tested}" for c
    using that by (auto simp: ex_tested_eq)
  have "config_owners ex_host_env (hc_alias c) (as_tool_host c) \<union> test_owners ex_host_env c \<subseteq> ex_owner" if "c \<in> candidates_of s" for c
    using own [of c] web [of c] that assms(2) by (metis subsetD)
  then have "(\<Union>c\<in>candidates_of s. config_owners ex_host_env (hc_alias c) (as_tool_host c) \<union> test_owners ex_host_env c) \<subseteq> ex_owner"
    by (rule UN_least)
  moreover have "(\<Union>(a, h)\<in>set (mg_hosts s). config_owners ex_host_env a h) \<subseteq> ex_owner"
    using assms(1) own [of ex_tested] by (elim insertE emptyE) simp_all
  ultimately show ?thesis unfolding trust_owners_def candidates_of_def [symmetric] by (rule Un_least [rotated])
qed

lemma ex_owners: "run_owners ex_trust_io (ex_acts @ [ex_act 5]) ex_run_0 \<subseteq> ex_owner"
proof -
  have six: "{..length (ex_acts @ [ex_act 5])} = {0, 1, 2, 3, 4, 5, 6}" by auto
  have steps: "mgmt_run ex_trust_io (take 0 (ex_acts @ [ex_act 5])) ex_run_0 = ex_run_0"
      "mgmt_run ex_trust_io (take 1 (ex_acts @ [ex_act 5])) ex_run_0 = ex_run_1"
      "mgmt_run ex_trust_io (take 2 (ex_acts @ [ex_act 5])) ex_run_0 = ex_run_2"
      "mgmt_run ex_trust_io (take 3 (ex_acts @ [ex_act 5])) ex_run_0 = ex_run_3"
      "mgmt_run ex_trust_io (take 4 (ex_acts @ [ex_act 5])) ex_run_0 = ex_run_4"
      "mgmt_run ex_trust_io (take 5 (ex_acts @ [ex_act 5])) ex_run_0 = ex_run_5"
    unfolding mgmt_run_def by (simp_all add: ex_step_0 ex_step_1 [simplified] ex_step_2 ex_step_3 ex_step_4)
  have early: "mg_hosts r \<in> {[], [(''web'', as_tool_host ex_tested)]}" "candidates_of r \<subseteq> {ex_candidate, ex_tested}"
    if "r \<in> {ex_run_0, ex_run_1, ex_run_2, ex_run_3, ex_run_4, ex_run_5}" for r
    using that by (auto simp: candidates_of_def ex_run_0_def ex_run_1_def ex_run_2_def ex_run_3_def ex_run_4_def ex_run_5_def)
  have last: "mgmt_run ex_trust_io (ex_acts @ [ex_act 5]) ex_run_0 = mgmt_act ex_trust_io (ex_act 5) ex_run_5"
    using ex_begun by (simp add: mgmt_run_def)
  have "candidates_of (mgmt_act ex_trust_io (ex_act 5) ex_run_5) \<subseteq> candidates_of ex_run_5"
    using act_candidates [of _ ex_trust_io "ex_act 5" ex_run_5] by (auto simp: ex_act_def)
  then have "candidates_of (mgmt_run ex_trust_io (ex_acts @ [ex_act 5]) ex_run_0) \<subseteq> {ex_candidate, ex_tested}"
    using early(2) [of ex_run_5] unfolding last by auto
  then have "trust_owners ex_host_env (mgmt_run ex_trust_io (take 6 (ex_acts @ [ex_act 5])) ex_run_0) \<subseteq> ex_owner"
    using ex_finished(2) by (intro ex_one_owner) simp_all
  moreover have "trust_owners ex_host_env r \<subseteq> ex_owner"
    if "r \<in> {ex_run_0, ex_run_1, ex_run_2, ex_run_3, ex_run_4, ex_run_5}" for r
    by (rule ex_one_owner [OF early [OF that]])
  ultimately show ?thesis
    unfolding run_owners_def six ex_io UN_subset_iff ball_simps steps by (intro conjI TrueI) (assumption | simp)+
qed

end
