(* ===== verification/Host_Manage_Props.thy ===== *)
theory Host_Manage_Props
  imports Host_Example
begin

text \<open>
  Host management in operation: the published inventory is the saved one, trust files outlive every use of
  them, and a host becomes active only with the evidence its trust mode asks for and a passed test.
\<close>

section \<open>The published inventory\<close>

text \<open>
  C13: What is published is what is saved: in every state that management reaches from any start, one whose hosts
  share identities included, the registry has the saved default host and the configured hosts in their
  order, each with its identity and its configured endpoint, description, trust mode and keys; a host is
  targetable exactly if it is enabled, neither in mismatch nor fenced as an identity collision, and, where
  it is remote and its trust mode strict, has keys; and a change that has been saved is always published,
  because nothing can overtake it.
\<close>

theorem published_inventory_is_saved:
  assumes "mgmt_reachable io s"
  shows "inventory_matches (ti_env io) (hr_snapshot (mg_reg s)) (mg_hosts s) \<and> hr_default (mg_reg s) = mg_default s
    \<and> (\<forall>ch. mg_change s = Some ch \<longrightarrow> fst (publish_staged (ch_publication ch) (mg_reg s)) = None)"
  using mgmt_okD(2,4) [OF mgmt_reachable_ok [OF assms]] publish_step(1) [OF mgmt_reachable_ok [OF assms]] by blast

text \<open>
  The names of trust files are truncated digests; two owners of one run have different ones, as far as SHA-256
  separates them. The digest is taken of the host, the key alias, the mode and the keys.
\<close>

definition digests_apart :: "host_env \<Rightarrow> trust_owner set \<Rightarrow> bool" where
  "digests_apart env W \<longleftrightarrow>
     (\<forall>(h, a, m, ks)\<in>W. \<forall>(h', a', m', ks')\<in>W.
        take 32 (he_sha256 env (join [CHR 0x00] ([h, a, m] @ ks))) = take 32 (he_sha256 env (join [CHR 0x00] ([h', a', m'] @ ks')))
          \<longrightarrow> (h, a, m, ks) = (h', a', m', ks'))"

lemma one_digest: "W \<subseteq> {w} \<Longrightarrow> digests_apart env W"
proof -
  assume one: "W \<subseteq> {w}"
  have "x = y" if "x \<in> W" "y \<in> W" for x y using one that by blast
  then show ?thesis unfolding digests_apart_def by (intro ballI) (clarify, blast)
qed

lemma trust_path_digest:
  "trust_path env h a m ks = trust_path env h' a' m' ks' \<longleftrightarrow>
     take 32 (he_sha256 env (join [CHR 0x00] ([h, a, m] @ ks))) = take 32 (he_sha256 env (join [CHR 0x00] ([h', a', m'] @ ks')))"
  by (simp add: trust_path_def trust_identity_text_def)

text \<open>
  C12: As long as a generation of a host with pinned, first-use or authority keys is published or draining, its
  trust file is there, named after its identity, and holds exactly the keys of that host in its trust mode:
  no test of another candidate, staging, clean-up after an enrollment, expiry or failed test removes or
  rewrites it. The hosts configured at the start have different identities, and the digests of the owners
  that occur in the run do not collide.
\<close>

theorem trust_file_outlives_use:
  assumes "start_mgmt io write_fails key_path legacy d tofu hosts files = Inr s0" "inventory_ok hosts"
    and "identities_differ (ti_env io) hosts" "digests_apart (ti_env io) (run_owners io acts s0)"
    and "t \<in> published (mg_reg (mgmt_run io acts s0)) \<union> draining (mg_reg (mgmt_run io acts s0))" "ht_host_keys t \<noteq> []"
  shows "ht_known_hosts t = trust_path (ti_env io) (ht_host_id t) (ht_key_alias t) (ht_trust_mode t) (ht_host_keys t)
    \<and> jget (ht_known_hosts t) (mg_files (mgmt_run io acts s0))
        = Some (trust_lines (ht_key_alias t) (ht_trust_mode t) (ht_host_keys t))"
proof -
  let ?W = "run_owners io acts s0" and ?s = "mgmt_run io acts s0"
  have "trust_owners (ti_env io) (mgmt_run io (take 0 acts) s0) \<subseteq> ?W" unfolding run_owners_def by (rule UN_upper) simp
  then have "trust_owners (ti_env io) s0 \<subseteq> ?W" by (simp add: mgmt_run_def)
  then have "mgmt_ok True ?W (ti_env io) ?s" using started_ok [OF assms(1,2,3)] by (intro mgmt_run_ok) simp_all
  then have "trust_kept ?W (ti_env io) t (mg_files ?s)" using mgmt_okD(5) assms(5) by (simp add: files_ok_def in_use_def)
  then obtain h a m ks where own: "owner_of t \<in> ?W" "(h, a, m, ks) \<in> ?W"
      "ht_known_hosts t = trust_path (ti_env io) (ht_host_id t) (ht_key_alias t) (ht_trust_mode t) (ht_host_keys t)"
      "ht_known_hosts t = trust_path (ti_env io) h a m ks" "jget (ht_known_hosts t) (mg_files ?s) = Some (trust_lines a m ks)"
    using assms(6) by (auto simp: trust_kept_def path_filled_def)
  have "owner_of t = (h, a, m, ks)"
    using assms(4) own(1,2) own(3) [unfolded own(4) trust_path_digest] unfolding digests_apart_def owner_of_def by fastforce
  then show ?thesis using own(3,5) by (simp add: owner_of_def)
qed

section \<open>Activation\<close>

definition history_ok :: "trust_io \<Rightarrow> host_mgmt \<Rightarrow> mgmt_action list \<Rightarrow> host_mgmt \<Rightarrow> bool" where
  "history_ok io s0 acts s \<longleftrightarrow>
     (\<forall>c\<in>candidates_of s. vouched io s0 acts c) \<and> (\<forall>c\<in>set (mg_commits s). hc_tested c \<and> \<not> unconfirmed c)
     \<and> (\<forall>ch token. mg_change s = Some ch \<and> ch_token ch = Some token \<longrightarrow>
          (\<exists>c. vouched io s0 acts c \<and> hc_tested c \<and> \<not> unconfirmed c \<and> token = hc_token c
             \<and> ch_hosts ch = jset (hc_alias c) (as_tool_host c) (mg_hosts s) \<and> jget (hc_alias c) (mg_hosts s) = hc_expected c))"

lemma history_step:
  assumes "history_ok io s0 acts s" "s = mgmt_run io acts s0"
  shows "history_ok io s0 (acts @ [a]) (mgmt_act io a s)"
  unfolding history_ok_def
proof (intro conjI ballI allI impI)
  fix c assume "c \<in> candidates_of (mgmt_act io a s)"
  from act_candidates [OF this] show "vouched io s0 (acts @ [a]) c"
  proof (elim disjE exE conjE)
    assume "c \<in> candidates_of s"
    then show ?thesis using assms(1) vouched_more by (auto simp: history_ok_def)
  next
    assume "made_by io a c" "\<not> hc_tested c"
    then show ?thesis by (simp add: vouched_def)
  next
    fix i clock finished unlink_fails
    assume a: "a = Settle_test i clock finished unlink_fails" and i: "i < length (mg_tests s)" "\<not> mg_locked s"
      and c: "c = with_outcome io clock finished (mg_tests s ! i)"
    have "mg_tests s ! i \<in> candidates_of s" using i(1) own_candidates(2) [of s] nth_mem by blast
    then have "vouched io s0 acts (mg_tests s ! i)" using assms(1) unfolding history_ok_def by blast
    then show ?thesis using settled_vouched i unfolding a c assms(2) by blast
  qed
next
  fix c assume "c \<in> set (mg_commits (mgmt_act io a s))"
  from act_commits [OF this] show "hc_tested c" "\<not> unconfirmed c" using assms by (auto simp: history_ok_def)
next
  fix ch token assume ch: "mg_change (mgmt_act io a s) = Some ch \<and> ch_token ch = Some token"
  let ?from = "\<lambda>acts s c. vouched io s0 acts c \<and> hc_tested c \<and> \<not> unconfirmed c \<and> token = hc_token c
      \<and> ch_hosts ch = jset (hc_alias c) (as_tool_host c) (mg_hosts s) \<and> jget (hc_alias c) (mg_hosts s) = hc_expected c"
  from act_change [OF conjunct1 [OF ch] conjunct2 [OF ch]] show "\<exists>c. ?from (acts @ [a]) (mgmt_act io a s) c"
  proof (elim disjE conjE bexE)
    assume "mg_change s = Some ch" and same: "mg_hosts (mgmt_act io a s) = mg_hosts s"
    then obtain c where "?from acts s c" using assms ch unfolding history_ok_def by blast
    then show ?thesis using vouched_more unfolding same by blast
  next
    fix c assume c: "c \<in> set (mg_commits s)" "ch_token ch = Some (hc_token c)" and same: "mg_hosts (mgmt_act io a s) = mg_hosts s"
      and new: "ch_hosts ch = jset (hc_alias c) (as_tool_host c) (mg_hosts s)" "jget (hc_alias c) (mg_hosts s) = hc_expected c"
    have "vouched io s0 acts c" "hc_tested c" "\<not> unconfirmed c" using assms c(1) by (auto simp: history_ok_def candidates_of_def)
    then show ?thesis using vouched_more new ch c(2) unfolding same by (intro exI [of _ c]) simp
  qed
qed

lemma history_run:
  assumes "start_mgmt io write_fails key_path legacy d tofu hosts files = Inr s0"
  shows "history_ok io s0 acts (mgmt_run io acts s0)"
proof (induction acts rule: rev_induct)
  case Nil
  have "mg_enroll s0 = \<lparr>en_candidates = [], en_trust = [], en_testing = []\<rparr>" "mg_tests s0 = []" "mg_commits s0 = []" "mg_change s0 = None"
    using assms by (auto simp: start_mgmt_def split: prod.splits sum.splits)
  then show ?case by (simp add: mgmt_run_def history_ok_def candidates_of_def)
next
  case (snoc a acts)
  then show ?case using history_step [OF snoc refl] by (simp add: mgmt_run_def)
qed

text \<open>
  The evidence a request gave for a candidate: local execution confirmed; legacy trust only for an unchanged
  legacy host; pinned and authority keys only those whose fingerprint the operator named; first-use keys only
  where that is allowed and, once confirmed, exactly the keys the operator was shown.
\<close>

definition evidence :: "trust_io \<Rightarrow> bool \<Rightarrow> tool_host option \<Rightarrow> dict \<Rightarrow> host_candidate \<Rightarrow> bool" where
  "evidence io allow_tofu existing body c \<longleftrightarrow>
     hc_expected c = existing \<and> hc_trust_mode c \<in> {''legacy'', ''pinned'', ''ca'', ''tofu''}
     \<and> (is_local_address (hc_address c) \<longrightarrow> fget ''confirm_local'' body = JBool True)
     \<and> (\<not> is_local_address (hc_address c) \<and> hc_trust_mode c = ''legacy'' \<longrightarrow>
          (\<exists>h. existing = Some h \<and> th_trust_mode h = ''legacy'' \<and> hc_address c = th_address h \<and> hc_user c = th_user h
             \<and> hc_port c = th_port h \<and> hc_os c = th_os h))
     \<and> (hc_trust_mode c \<in> {''pinned'', ''ca''} \<longrightarrow> hc_host_keys c \<noteq> []
          \<and> (\<forall>k\<in>set (hc_host_keys c). \<exists>f v. fingerprint_public_key io k = Some f \<and> fingerprint_pattern f
               \<and> v \<in> set (items (as_list (fget ''expected_fingerprints'' body))) \<and> clean_line v ''fingerprint'' 80 True = Inr f))
     \<and> (hc_trust_mode c = ''tofu'' \<longrightarrow> allow_tofu \<and> hc_host_keys c \<noteq> [] \<and> fingerprints_of io (hc_host_keys c) = Inr (hc_fingerprints c)
          \<and> (hc_tofu_confirmed c \<longrightarrow> fget ''confirm_tofu'' body = JBool True
               \<and> iterated (as_list (fget ''candidate_fingerprints'' body)) = Some (map JStr (hc_fingerprints c))))"

lemma judged_evidence:
  assumes "judge_evidence io tofu existing body scanned d = Inr ev" "hd_trust_mode d \<in> set [''legacy'', ''pinned'', ''ca'', ''tofu'']"
    and "hc_address c = hd_address d" "hc_user c = hd_user d" "hc_port c = hd_port d" "hc_os c = hd_os d" "hc_expected c = existing"
    and "hc_trust_mode c = ev_trust_mode ev" "hc_host_keys c = ev_keys ev" "hc_fingerprints c = ev_fingerprints ev"
    and "hc_tofu_confirmed c = ev_tofu_confirmed ev"
  shows "evidence io tofu existing body c"
proof (cases "is_local_address (hd_address d) \<or> hd_trust_mode d = ''legacy''")
  case True
  then have "hc_trust_mode c = ''legacy''" using assms(1,8) by (auto simp: judge_evidence_def Let_def split: if_splits)
  moreover have "is_local_address (hd_address d) \<longrightarrow> fget ''confirm_local'' body = JBool True"
    using assms(1) by (auto simp: judge_evidence_def Let_def)
  moreover have "\<exists>h. existing = Some h \<and> th_trust_mode h = ''legacy'' \<and> \<not> changed_endpoint d h" if "\<not> is_local_address (hd_address d)"
    using assms(1) that True by (cases existing) (auto simp: judge_evidence_def Let_def)
  ultimately show ?thesis using assms(3-7) by (auto simp: evidence_def changed_endpoint_def)
next
  case False
  then obtain keys fs where k: "scan_result io (hd_trust_mode d = ''ca'') scanned = Inr keys" "fingerprints_of io keys = Inr fs"
    using assms(1) by (auto simp: judge_evidence_def Let_def)
  show ?thesis
  proof (cases "hd_trust_mode d \<in> set [''pinned'', ''ca'']")
    case mode: True
    then obtain ks fs' where p: "pinned_keys io (as_list (fget ''expected_fingerprints'' body)) keys fs = Inr (ks, fs')"
        "ev_trust_mode ev = hd_trust_mode d" "ev_keys ev = ks"
      using assms(1) False k by (auto simp: judge_evidence_def Let_def)
    then show ?thesis using pinned_evidence [OF p(1) k(2)] mode False assms(3,7-9) by (auto simp: evidence_def)
  next
    case mode: False
    then have m: "hd_trust_mode d = ''tofu''" using assms(2) False by auto
    obtain t where t: "tofu" "tofu_confirmation (as_list (fget ''candidate_fingerprints'' body)) (fget ''confirm_tofu'' body = JBool True) fs = Inr t"
        "ev = \<lparr>ev_trust_mode = ''tofu'', ev_keys = keys, ev_fingerprints = fs, ev_tofu_confirmed = t\<rparr>"
      using assms(1) False k m by (auto simp: judge_evidence_def Let_def)
    have "t \<longrightarrow> fget ''confirm_tofu'' body = JBool True \<and> iterated (as_list (fget ''candidate_fingerprints'' body)) = Some (map JStr fs)"
      using t(2) by (auto simp: tofu_confirmation_def split: if_splits option.splits)
    then show ?thesis using t(1,3) k(2) scan_nonempty [OF k(1)] False assms(3,7-11) by (auto simp: evidence_def)
  qed
qed

lemma prepared_evidence:
  assumes "prepare_candidate io now token uuid tofu existing name body scanned = Inr c"
  shows "evidence io tofu existing body c"
proof -
  obtain d ev where d: "validate_host_details (ti_scrub io) (JStr name) body = Inr d" "judge_evidence io tofu existing body scanned d = Inr ev"
    using assms by (auto simp: prepare_candidate_def)
  show ?thesis
    by (rule judged_evidence [OF d(2) validated_mode [OF d(1)]]) (use assms d in \<open>auto simp: prepare_candidate_def\<close>)
qed

lemma evidence_untested: "evidence io tofu existing body (untested c) = evidence io tofu existing body c"
  by (simp add: evidence_def untested_def)

lemma imported_keys:
  assumes "import_candidate io now token name h found = Inr c"
  shows "\<exists>printed. found = Some printed \<and> hc_expected c = Some h
    \<and> hc_host_keys c = scanned_keys (normalize_public_key (ti_b64 io)) printed"
  using assms by (auto simp: import_candidate_def Let_def split: option.splits)

text \<open>
  C11: A candidate's host is activated only on evidence and after a test: when a commit has staged it, the
  configuration is still the one the candidate was prepared against; in the run before, a connection test of
  exactly this candidate ended with a login to the selected platform; the operator confirmed it if it was met for
  the first time; and it came from the request whose evidence names its keys or from the import of a legacy host's keys.
\<close>

theorem activated_host_was_proved:
  assumes "start_mgmt io write_fails key_path legacy d tofu hosts files = Inr s0"
    and "mg_change (mgmt_run io acts s0) = Some ch" "ch_token ch = Some token"
  shows "\<exists>c. ch_hosts ch = jset (hc_alias c) (as_tool_host c) (mg_hosts (mgmt_run io acts s0))
    \<and> jget (hc_alias c) (mg_hosts (mgmt_run io acts s0)) = hc_expected c \<and> token = hc_token c
    \<and> (hc_trust_mode c = ''tofu'' \<longrightarrow> hc_tofu_confirmed c) \<and> passed_in io s0 acts c
    \<and> ((\<exists>now token uuid allow existing name body scanned unlink_fails.
           Prepare_candidate now token uuid allow existing name body scanned unlink_fails \<in> set acts \<and> evidence io allow existing body c)
       \<or> (\<exists>now token name h found. Import_candidate now token name h (Some found) \<in> set acts \<and> hc_expected c = Some h
             \<and> hc_host_keys c = scanned_keys (normalize_public_key (ti_b64 io)) found))"
proof -
  have "history_ok io s0 acts (mgmt_run io acts s0)" by (rule history_run [OF assms(1)])
  then obtain c where c: "vouched io s0 acts c" "hc_tested c" "\<not> unconfirmed c" "token = hc_token c"
      "ch_hosts ch = jset (hc_alias c) (as_tool_host c) (mg_hosts (mgmt_run io acts s0))"
      "jget (hc_alias c) (mg_hosts (mgmt_run io acts s0)) = hc_expected c"
    using assms(2,3) unfolding history_ok_def by blast
  obtain m where m: "m \<in> set acts" "made_by io m c" "passed_in io s0 acts c" using c(1,2) by (auto simp: vouched_def list_ex_iff)
  have "(\<exists>now token uuid allow existing name body scanned unlink_fails.
           Prepare_candidate now token uuid allow existing name body scanned unlink_fails \<in> set acts \<and> evidence io allow existing body c)
       \<or> (\<exists>now token name h found. Import_candidate now token name h (Some found) \<in> set acts \<and> hc_expected c = Some h
             \<and> hc_host_keys c = scanned_keys (normalize_public_key (ti_b64 io)) found)"
  proof (cases m)
    case (Prepare_candidate now token uuid allow existing name body scanned unlink_fails)
    then have "evidence io allow existing body c"
      using m(2) prepared_evidence [of io now token uuid allow existing name body scanned "untested c"] by (simp add: evidence_untested)
    then show ?thesis using m(1) Prepare_candidate by blast
  next
    case (Import_candidate now token name h found)
    then obtain printed where "found = Some printed" "hc_expected (untested c) = Some h"
        "hc_host_keys (untested c) = scanned_keys (normalize_public_key (ti_b64 io)) printed"
      using m(2) imported_keys [of io now token name h found "untested c"] by auto
    then have "found = Some printed" "hc_expected c = Some h" "hc_host_keys c = scanned_keys (normalize_public_key (ti_b64 io)) printed"
      by (simp_all add: untested_def)
    then show ?thesis using m(1) Import_candidate by blast
  qed (use m(2) in simp_all)
  then show ?thesis using c m(3) by (intro exI [of _ c]) (simp add: unconfirmed_def)
qed

theorem activated_host_was_proved_witness:
  "\<exists>c. mg_change (mgmt_run ex_trust_io ex_acts ex_run_0) = Some ex_change \<and> ch_hosts ex_change = jset (hc_alias c) (as_tool_host c) []
     \<and> passed_in ex_trust_io ex_run_0 ex_acts c"
proof -
  have c: "mg_change (mgmt_run ex_trust_io ex_acts ex_run_0) = Some ex_change" "ch_token ex_change = Some ''t''"
    unfolding ex_begun by (simp_all add: ex_run_5_def ex_change_def)
  have "mg_hosts (mgmt_run ex_trust_io ex_acts ex_run_0) = []"
    unfolding ex_begun by (simp add: ex_run_0_def ex_run_1_def ex_run_2_def ex_run_3_def ex_run_4_def ex_run_5_def)
  then show ?thesis using activated_host_was_proved [OF ex_started c] c(1) by fastforce
qed

theorem trust_file_outlives_use_witness:
  "ht_known_hosts ex_published = trust_path ex_host_env ''w'' ''odin-w'' ''pinned'' [ex_host_key]
   \<and> jget (ht_known_hosts ex_published) (mg_files (mgmt_run ex_trust_io (ex_acts @ [ex_act 5]) ex_run_0))
       = Some (trust_lines ''odin-w'' ''pinned'' [ex_host_key])"
proof -
  have started: "inventory_ok []" "identities_differ (ti_env ex_trust_io) []" by (simp_all add: inventory_ok_def identities_differ_def)
  have apart: "digests_apart (ti_env ex_trust_io) (run_owners ex_trust_io (ex_acts @ [ex_act 5]) ex_run_0)"
    by (rule one_digest [OF ex_owners [unfolded ex_owner_def]])
  have "ex_published \<in> published (mg_reg (mgmt_run ex_trust_io (ex_acts @ [ex_act 5]) ex_run_0))"
    unfolding published_def ex_finished by simp
  moreover have p: "ht_host_keys ex_published = [ex_host_key]" "ht_host_id ex_published = ''w''" "ht_key_alias ex_published = ''odin-w''"
      "ht_trust_mode ex_published = ''pinned''"
    by (simp_all add: ex_published_def tested_target_def ex_target_def target_of_def as_tool_host_def ex_tested_eq)
  ultimately show ?thesis
    using trust_file_outlives_use [OF ex_started started apart, of ex_published] unfolding p ex_io by blast
qed

theorem published_inventory_is_saved_witness:
  "inventory_matches ex_host_env [(''web'', ex_published)] [(''web'', as_tool_host ex_tested)]
   \<and> fst (publish_staged (ch_publication ex_change) (mg_reg ex_run_5)) = None \<and> hr_default (mg_reg ex_run_5) = mg_default ex_run_5"
proof -
  have "inventory_matches ex_host_env [(''web'', ex_published)] [(''web'', as_tool_host ex_tested)]"
    using published_inventory_is_saved [OF ex_mgmt_reachable, of "ex_acts @ [ex_act 5]"] unfolding ex_finished ex_io by blast
  moreover have "mg_change ex_run_5 = Some ex_change" by (simp add: ex_run_5_def)
  ultimately show ?thesis using published_inventory_is_saved [OF ex_mgmt_reachable, of ex_acts] unfolding ex_begun by blast
qed

end
