(* ===== verification/Host_Candidate.thy ===== *)
theory Host_Candidate
  imports Host_Example
begin

text \<open>
  What an enrollment request can become (\<^verbatim>\<open>HostEnrollmentManager.prepare\<close>): the fields of a candidate are
  within the bounds the rest of the program relies on, above all the SSH command line of its test.
\<close>

lemma split_on_joined:
  assumes "c \<notin> set xs" "c \<notin> set ys"
  shows "split_on c (xs @ c # ys) = [xs, ys]"
proof -
  have "split_on c ys = [ys]" using assms(2) by (induction ys) auto
  then show ?thesis using assms(1) by (induction xs) auto
qed

lemma name_chars_plain: "is_letter c \<or> c = CHR ''_'' \<or> name_char c \<Longrightarrow> c \<noteq> CHR ''@''"
  by (auto simp: is_letter_def name_char_def is_digit_def)

lemma user_plain:
  assumes "user_pattern u"
  shows "CHR ''@'' \<notin> set u" "u \<noteq> []" "hd u \<noteq> CHR ''-''"
proof -
  show u: "u \<noteq> []" using assms by (simp add: user_pattern_def)
  then have "set u = insert (hd u) (set (tl u))" by (cases u) auto
  then show "CHR ''@'' \<notin> set u"
    using assms name_chars_plain unfolding user_pattern_def list_all_iff by (metis insert_iff)
  have "\<not> is_letter (CHR ''-'')" by code_simp
  then show "hd u \<noteq> CHR ''-''" using assms unfolding user_pattern_def by auto
qed

lemma cleaned_line:
  assumes "clean_line v place limit required = Inr t"
  shows "length t \<le> limit" "list_all (\<lambda>c. \<not> key_control_char c) t" "required \<Longrightarrow> t \<noteq> []"
proof -
  obtain raw where "v = JStr raw" using assms by (cases v) (simp_all add: clean_line_def)
  then have "insist (\<not> (required \<and> strip raw = [])) (place @ '' is required'')
      (insist (length (strip raw) \<le> limit) (place @ '' exceeds '' @ nat_text limit @ '' characters'')
        (insist (\<not> list_ex key_control_char (strip raw)) (place @ '' contains control characters'') (Inr (strip raw)))) = Inr t"
    using assms unfolding clean_line_def by (simp only: json.case Let_def)
  then have "\<not> (required \<and> t = [])" "length t \<le> limit" "\<not> list_ex key_control_char t"
    unfolding insist_Inr by blast+
  then show "length t \<le> limit" "list_all (\<lambda>c. \<not> key_control_char c) t" "required \<Longrightarrow> t \<noteq> []"
    by (simp_all add: list_ex_iff list_all_iff)
qed

definition plain_address :: "string \<Rightarrow> bool" where
  "plain_address a \<longleftrightarrow>
     a \<noteq> [] \<and> length a \<le> 253 \<and> list_all (\<lambda>c. \<not> key_control_char c) a \<and> (ip_address a \<or> hostname_pattern a)
     \<and> CHR ''@'' \<notin> set a \<and> hd a \<noteq> CHR ''-''"

lemma validated_address:
  assumes "validate_address v = Inr a"
  shows "plain_address a"
proof -
  have a: "clean_line v ''address'' 253 True = Inr a" "take 1 a \<noteq> ''-''" "\<not> list_ex (\<lambda>c. c \<in> set ''[]/@ '') a"
      "ip_address a \<or> hostname_pattern a"
    using assms unfolding validate_address_def attempt_Inr insist_Inr by blast+
  note line = cleaned_line [OF a(1)]
  have "CHR ''@'' \<notin> set a" using a(3) by (auto simp: list_ex_iff)
  moreover have "hd a \<noteq> CHR ''-''" using a(2) line(3) by (cases a) simp_all
  ultimately show ?thesis using line a(4) by (simp add: plain_address_def)
qed

lemma validated_port: "validate_port v = Inr p \<Longrightarrow> 1 \<le> p \<and> p \<le> 65535"
  by (auto simp: validate_port_def split: json.splits)

lemma validated_details:
  assumes "validate_host_details scrub name body = Inr d"
  shows "alias_pattern (hd_alias d)" "user_pattern (hd_user d)" "hd_os d \<in> {''linux'', ''macos''}"
    and "validate_port (get_or ''port'' (JInt 22) body) = Inr (hd_port d)"
    and "validate_address (get_or ''address'' (JStr []) body) = Inr (hd_address d)"
  using assms by (auto simp: validate_host_details_def)

section \<open>Well-formed candidates\<close>

text \<open>
  C29: Every candidate a request can become is well formed, whatever the request says: an alias and a user of plain
  characters, a known platform, a port number, an address of the accepted forms, and keys that parse wherever the
  trust mode checks them; so the last argument of its connection test is no option, and can only be read as this user at this address.
\<close>

theorem candidate_wellformed:
  assumes "prepare_candidate io now token uuid allow_tofu existing name body scanned = Inr c"
  shows "alias_pattern (hc_alias c) \<and> user_pattern (hc_user c) \<and> hc_os c \<in> {''linux'', ''macos''}
    \<and> 1 \<le> hc_port c \<and> hc_port c \<le> 65535 \<and> plain_address (hc_address c) \<and> candidate_ok (ti_env io) c
    \<and> (let target = last (test_options r c known_hosts)
       in hd target \<noteq> CHR ''-'' \<and> split_on CHR ''@'' target = [hc_user c, hc_address c])"
proof -
  obtain d ev where d: "validate_host_details (ti_scrub io) (JStr name) body = Inr d" and c: "hc_alias c = hd_alias d"
      "hc_user c = hd_user d" "hc_os c = hd_os d" "hc_port c = hd_port d" "hc_address c = hd_address d"
    using assms by (auto simp: prepare_candidate_def)
  note v = validated_details [OF d]
  have a: "plain_address (hc_address c)" using validated_address [OF v(5)] by (simp add: c)
  have "last (test_options r c known_hosts) = hc_user c @ CHR ''@'' # hc_address c" by (simp add: test_options_def)
  moreover have "split_on CHR ''@'' (hc_user c @ CHR ''@'' # hc_address c) = [hc_user c, hc_address c]"
    using user_plain(1) [OF v(2)] a by (intro split_on_joined) (simp_all add: c plain_address_def)
  moreover have "hd (hc_user c @ CHR ''@'' # hc_address c) \<noteq> CHR ''-''" using user_plain(2,3) [OF v(2)] by (simp add: c)
  ultimately show ?thesis using v(1-3) validated_port [OF v(4)] a prepared_ok [OF assms] by (simp add: c)
qed

theorem candidate_wellformed_witness:
  "split_on CHR ''@'' (last (test_options (mg_reg ex_run_0) ex_candidate ''UserKnownHostsFile=known'')) = [''root'', ''h2'']"
  using candidate_wellformed [OF ex_prepared, of "mg_reg ex_run_0" "''UserKnownHostsFile=known''"] by (simp add: Let_def) (simp add: ex_candidate_def)

end
