(* ===== verification/Host_Certificate.thy ===== *)
theory Host_Certificate
  imports Host_Trust
begin

text \<open>
  The parser of host certificates (\<^verbatim>\<open>certificate_authority_key\<close>) against the format: it accepts exactly the
  encodings of host certificates and finds their signing authority.
\<close>

section \<open>Length-prefixed fields\<close>

definition be4 :: "nat \<Rightarrow> bytes" where
  "be4 n = [char_of (n div 16777216), char_of (n div 65536), char_of (n div 256), char_of n]"

definition field :: "bytes \<Rightarrow> bytes" where
  "field s = be4 (length s) @ s"

lemma be32_four: "be32 [a, b, c, d] = ((of_char a * 256 + of_char b) * 256 + of_char c) * 256 + (of_char d :: nat)"
  by (simp add: be32_def)

lemma byte_bound: "(of_char c :: nat) < 256"
  by simp

lemma be32_be4:
  assumes "n < 4294967296"
  shows "be32 (be4 n) = n"
proof -
  have "n div 16777216 < 256" using assms by simp
  then have m: "of_char (char_of (n div 16777216)) = n div 16777216" by simp
  have "be32 (be4 n) = ((n div 16777216 * 256 + n div 65536 mod 256) * 256 + n div 256 mod 256) * 256 + n mod 256"
    unfolding be4_def be32_four m by simp
  also have "n div 16777216 * 256 + n div 65536 mod 256 = n div 65536"
    using div_mult_mod_eq [of "n div 65536" 256] by (simp add: div_mult2_eq [symmetric] mult.commute)
  also have "n div 65536 * 256 + n div 256 mod 256 = n div 256"
    using div_mult_mod_eq [of "n div 256" 256] by (simp add: div_mult2_eq [symmetric] mult.commute)
  also have "n div 256 * 256 + n mod 256 = n" by simp
  finally show ?thesis .
qed

lemma digit_256:
  fixes x d :: nat
  assumes "d < 256"
  shows "(x * 256 + d) mod 256 = d" "(x * 256 + d) div 256 = x"
  using assms by simp_all

lemma be4_digits: "be4 n = [char_of (n div 256 div 256 div 256), char_of (n div 256 div 256), char_of (n div 256), char_of n]"
  by (simp add: be4_def div_mult2_eq [symmetric])

lemma char_of_digit: "char_of (x * 256 + (of_char d :: nat)) = d"
  by (metis byte_bound char_of_char char_of_mod_256 digit_256(1))

lemma be4_be32:
  assumes "length bs = 4"
  shows "be4 (be32 bs) = bs"
proof -
  obtain a b c d where bs: "bs = [a, b, c, d]" using assms by (auto simp: numeral_eq_Suc length_Suc_conv)
  show ?thesis unfolding bs be32_four be4_digits digit_256(2) [OF byte_bound] char_of_digit by simp
qed

lemma length_be4 [simp]: "length (be4 n) = 4"
  by (simp add: be4_def)

lemma length_field [simp]: "length (field s) = length s + 4"
  by (simp add: field_def)

section \<open>Reading is the inverse of writing\<close>

lemma take_bytes_Some: "take_bytes n raw = Some (s, rest) \<longleftrightarrow> length s = n \<and> raw = s @ rest"
  by (auto simp: take_bytes_def)

lemma take_string_Some:
  assumes "length raw \<le> 65536"
  shows "take_string raw = Some (s, rest) \<longleftrightarrow> raw = field s @ rest"
proof
  assume "take_string raw = Some (s, rest)"
  then obtain n r where n: "length n = 4" "raw = n @ r" "length s = be32 n" "r = s @ rest"
    by (auto simp: take_string_def take_bytes_Some split: option.splits)
  then show "raw = field s @ rest" using be4_be32 [OF n(1)] by (simp add: field_def)
next
  assume raw: "raw = field s @ rest"
  then have "be32 (be4 (length s)) = length s" using assms by (intro be32_be4) simp
  then show "take_string raw = Some (s, rest)"
    unfolding raw by (simp add: take_string_def take_bytes_def field_def)
qed

lemma skip_strings_Some:
  assumes "length raw \<le> 65536"
  shows "skip_strings n raw = Some rest \<longleftrightarrow> (\<exists>fs. length fs = n \<and> raw = concat (map field fs) @ rest)"
  using assms
proof (induction n arbitrary: raw)
  case (Suc n)
  have tail: "skip_strings n r = Some rest \<longleftrightarrow> (\<exists>fs. length fs = n \<and> r = concat (map field fs) @ rest)"
    if "raw = field s @ r" for s r
    using Suc.IH [of r] Suc.prems that by simp
  have "skip_strings (Suc n) raw = Some rest \<longleftrightarrow> (\<exists>s r. raw = field s @ r \<and> skip_strings n r = Some rest)"
    by (auto simp: take_string_Some [OF Suc.prems, symmetric] split: option.splits)
  also have "\<dots> \<longleftrightarrow> (\<exists>s r fs. raw = field s @ r \<and> length fs = n \<and> r = concat (map field fs) @ rest)"
    using tail by blast
  also have "\<dots> \<longleftrightarrow> (\<exists>fs. length fs = Suc n \<and> raw = concat (map field fs) @ rest)"
    (is "?l \<longleftrightarrow> ?r")
  proof
    assume ?l
    then obtain s r fs where "raw = field s @ r" "length fs = n" "r = concat (map field fs) @ rest" by blast
    then show ?r by (intro exI [of _ "s # fs"]) simp
  next
    assume ?r
    then obtain fs where "length fs = Suc n" "raw = concat (map field fs) @ rest" by blast
    then show ?l by (cases fs) auto
  qed
  finally show ?case .
qed auto

section \<open>The format\<close>

text \<open>The key of a certificate has one to three fields, by its type; the reserved field is not looked at.\<close>

record host_certificate =
  ce_type :: string
  ce_nonce :: bytes
  ce_key :: "bytes list"
  ce_serial :: bytes
  ce_key_id :: bytes
  ce_principals :: bytes
  ce_validity :: bytes
  ce_options :: "bytes list"
  ce_authority :: bytes
  ce_signature :: bytes

definition encode_certificate :: "nat \<Rightarrow> host_certificate \<Rightarrow> bytes" where
  "encode_certificate role c =
     field (ce_type c) @ field (ce_nonce c) @ concat (map field (ce_key c)) @ ce_serial c @ be4 role
     @ field (ce_key_id c) @ field (ce_principals c) @ ce_validity c @ concat (map field (ce_options c))
     @ field (ce_authority c) @ field (ce_signature c)"

definition certificate_ok :: "host_certificate \<Rightarrow> bool" where
  "certificate_ok c \<longleftrightarrow>
     ascii_only (ce_type c) \<and> key_fields (ce_type c) = Some (length (ce_key c)) \<and> length (ce_serial c) = 8
     \<and> length (ce_validity c) = 16 \<and> length (ce_options c) = 3 \<and> length (encode_certificate 2 c) \<le> 65536"

lemma accepted_encoding:
  assumes "length raw \<le> 65536" "certificate_authority type_name raw = Some authority"
  shows "\<exists>c. certificate_ok c \<and> raw = encode_certificate 2 c \<and> ce_type c = type_name \<and> ce_authority c = authority"
proof -
  obtain r1 r2 n r3 r4 role r5 r6 r7 r8 signature serial validity where
      t: "take_string raw = Some (type_name, r1)" "ascii_only type_name" and "skip_strings 1 r1 = Some r2"
    and n: "key_fields type_name = Some n" "skip_strings n r2 = Some r3"
    and w: "r3 = serial @ r4" "length serial = 8" "r4 = role @ r5" "length role = 4" "be32 role = 2"
    and "skip_strings 2 r5 = Some r6" and v: "r6 = validity @ r7" "length validity = 16"
    and "skip_strings 3 r7 = Some r8" and a: "take_string r8 = Some (authority, signature)"
    and e: "\<exists>sig. take_string signature = Some (sig, [])"
    using assms(2) by (auto simp: certificate_authority_def only_if_def bind_eq_Some_conv take_bytes_Some simp del: skip_strings.simps One_nat_def split: if_splits)
  have r1: "raw = field type_name @ r1" using t(1) take_string_Some [OF assms(1)] by simp
  then have l1: "length r1 \<le> 65536" using assms(1) by simp
  obtain nonce where r2: "r1 = field nonce @ r2"
    using \<open>skip_strings 1 r1 = Some r2\<close> unfolding skip_strings_Some [OF l1] by (auto simp: length_Suc_conv)
  then have l2: "length r2 \<le> 65536" using l1 by simp
  obtain key where r3: "r2 = concat (map field key) @ r3" "length key = n" using n(2) skip_strings_Some [OF l2] by auto
  then have l5: "length r5 \<le> 65536" using l2 w(1,3) by simp
  obtain key_id principals where r6: "r5 = field key_id @ field principals @ r6"
    using \<open>skip_strings 2 r5 = Some r6\<close> unfolding skip_strings_Some [OF l5] by (auto simp: length_Suc_conv numeral_2_eq_2)
  then have l7: "length r7 \<le> 65536" using l5 v(1) by simp
  obtain options where r8: "r7 = concat (map field options) @ r8" "length options = 3"
    using \<open>skip_strings 3 r7 = Some r8\<close> skip_strings_Some [OF l7] by auto
  then have l8: "length r8 \<le> 65536" using l7 by simp
  have r9: "r8 = field authority @ signature" using a take_string_Some [OF l8] by simp
  then have l9: "length signature \<le> 65536" using l8 by simp
  obtain sig where r10: "signature = field sig" using e take_string_Some [OF l9] by auto
  have role: "role = be4 2" using be4_be32 [OF w(4)] w(5) by simp
  let ?c = "\<lparr>ce_type = type_name, ce_nonce = nonce, ce_key = key, ce_serial = serial, ce_key_id = key_id, ce_principals = principals,
    ce_validity = validity, ce_options = options, ce_authority = authority, ce_signature = sig\<rparr>"
  have raw: "raw = encode_certificate 2 ?c"
    unfolding encode_certificate_def r1 r2 r3(1) w(1,3) r6 v(1) r8(1) r9 r10 role by simp
  have "certificate_ok ?c" unfolding certificate_ok_def raw [symmetric] using assms(1) t(2) n(1) r3(2) w(2) v(2) r8(2) by simp
  then show ?thesis using raw by (intro exI [of _ ?c]) simp
qed

lemma encoding_accepted:
  assumes "certificate_ok c"
  shows "certificate_authority (ce_type c) (encode_certificate 2 c) = Some (ce_authority c)"
proof -
  define r9 where "r9 = field (ce_signature c)"
  define r8 where "r8 = field (ce_authority c) @ r9"
  define r7 where "r7 = concat (map field (ce_options c)) @ r8"
  define r6 where "r6 = ce_validity c @ r7"
  define r5 where "r5 = field (ce_key_id c) @ field (ce_principals c) @ r6"
  define r4 where "r4 = be4 2 @ r5"
  define r3 where "r3 = ce_serial c @ r4"
  define r2 where "r2 = concat (map field (ce_key c)) @ r3"
  define r1 where "r1 = field (ce_nonce c) @ r2"
  define raw where "raw = field (ce_type c) @ r1"
  note parts = raw_def r1_def r2_def r3_def r4_def r5_def r6_def r7_def r8_def r9_def
  have raw: "encode_certificate 2 c = raw" by (simp add: encode_certificate_def parts)
  have ok: "ascii_only (ce_type c)" "key_fields (ce_type c) = Some (length (ce_key c))" "length (ce_serial c) = 8"
      "length (ce_validity c) = 16" "length (ce_options c) = 3" "length raw \<le> 65536"
    using assms unfolding certificate_ok_def raw by simp_all
  have "take_string raw = Some (ce_type c, r1)" using take_string_Some [OF ok(6)] by (simp add: raw_def)
  moreover have "skip_strings 1 r1 = Some r2"
    using ok(6) by (subst skip_strings_Some) (auto simp: raw_def r1_def intro!: exI [of _ "[ce_nonce c]"])
  moreover have "skip_strings (length (ce_key c)) r2 = Some r3"
    using ok(6) skip_strings_Some [of r2 "length (ce_key c)" r3] by (auto simp: raw_def r1_def r2_def)
  moreover have "take_bytes 8 r3 = Some (ce_serial c, r4)" "take_bytes 4 r4 = Some (be4 2, r5)"
    using ok(3) by (simp_all add: take_bytes_Some r3_def r4_def)
  moreover have "be32 (be4 2) = 2" by (rule be32_be4) simp
  moreover have "skip_strings 2 r5 = Some r6"
    using ok(6) by (subst skip_strings_Some) (auto simp: raw_def r1_def r2_def r3_def r4_def r5_def intro!: exI [of _ "[ce_key_id c, ce_principals c]"])
  moreover have "take_bytes 16 r6 = Some (ce_validity c, r7)" using ok(4) by (simp add: take_bytes_Some r6_def)
  moreover have "skip_strings 3 r7 = Some r8"
    using ok(5,6) skip_strings_Some [of r7 3 r8] by (auto simp: raw_def r1_def r2_def r3_def r4_def r5_def r6_def r7_def)
  moreover have "take_string r8 = Some (ce_authority c, r9)"
    using ok(6) take_string_Some [of r8] by (simp add: parts)
  moreover have "take_string r9 = Some (ce_signature c, [])"
    using ok(6) take_string_Some [of r9] by (simp add: parts)
  ultimately show ?thesis using ok(1,2,6) unfolding raw certificate_authority_def by (simp add: only_if_def del: skip_strings.simps One_nat_def)
qed

text \<open>
  C28: The parser of a host certificate accepts exactly the encodings of host certificates: it finds an authority
  in some bytes if and only if they are at most 64 KiB and, byte for byte, a certificate of the announced type and
  of the host role (a user certificate is refused) with this signing authority. (That the authority is a key
  Odin accepts is asked afterwards, by \<^verbatim>\<open>certificate_authority_key\<close>.)
\<close>

theorem certificate_accepted_exactly:
  "certificate_authority type_name raw = Some authority \<longleftrightarrow>
     (\<exists>c. certificate_ok c \<and> raw = encode_certificate 2 c \<and> ce_type c = type_name \<and> ce_authority c = authority)"
proof (cases "length raw \<le> 65536")
  case False
  then show ?thesis by (auto simp: certificate_authority_def only_if_def certificate_ok_def)
next
  case True
  then show ?thesis using accepted_encoding [OF True] encoding_accepted by blast
qed

end
