(* ===== verification/Spec2Isabelle.thy ===== *)
theory Spec2Isabelle
  imports Turn_Resume_Props Turn_Validate_Order Patch_Plan_Props Patch_Apply_Props LLM_Recovery_Props Permissions Host_Access
    Geometry Audit_Integrity Audit_Text Scheduler_Props Output_Access_Props Host_Manage_Props Host_Candidate Host_Certificate
begin

text \<open>
  Odin is a self-hosted agent: a person writes to it on Discord, a language model answers with tool calls,
  and Odin runs the tools on the operator's hosts. This library models the parts that decide whether an
  action happens, happens once, is authorised, and can be accounted for afterwards.

  How the parts interact. A message becomes a turn: the tool loop asks the model through the
  \<^bold>\<open>generation recovery\<close> and the \<^bold>\<open>breakers\<close>, takes the tool calls of the answer, and runs each behind
  the \<^bold>\<open>durability hooks\<close>, which write every step to the \<^bold>\<open>durable turn store\<close>; the state of the
  loop is saved by the \<^bold>\<open>checkpoint codec\<close>. The \<^bold>\<open>stuck-loop detector\<close> ends repetitions. After a
  restart, \<^bold>\<open>turn resume\<close> reads the store and the checkpoint and decides whether the turn goes on.
  Which tools and hosts a user reaches is decided by the \<^bold>\<open>permission tiers\<close> and the \<^bold>\<open>host access
  policy\<close>; what a tool did is written to the \<^bold>\<open>audit log\<close>, whose entries form a signed chain.
  \<^bold>\<open>apply_patch\<close> edits files; \<^bold>\<open>source geometry\<close> maps what the model sees of a screen to input
  coordinates. The \<^bold>\<open>host registry\<close> publishes the inventory, leases hosts to operations and revokes them;
  long results are kept by the \<^bold>\<open>output store\<close> and read back page by page, each time after asking the tiers,
  the host policy and the registry again. \<^bold>\<open>Host enrollment\<close> proves who a new host is before \<^bold>\<open>host
  management\<close> saves the inventory and publishes it to the registry. The \<^bold>\<open>scheduler\<close> starts actions at their time, by hand and on incoming webhooks.

  Theories, in the order the code builds on them (paths under \<^verbatim>\<open>src/src\<close>):
  \<^item> \<open>Odin_Prelude\<close>: lists, and the locales of a step invariant and of an event that happens once.
  \<^item> \<open>Json_Text\<close>, \<open>Json_Inject\<close>: values, dictionaries in insertion order, \<^verbatim>\<open>json.dumps\<close> with sorted keys,
    and that its output determines the value.
  \<^item> \<open>Sql_Table\<close>: the locale of keyed rows behind SQL updates; \<open>Effect_Classifier\<close> (\<^verbatim>\<open>tools/effect_classifier.py\<close>).
  \<^item> \<open>Turn_Store\<close>, \<open>Turn_Store_Integrity\<close>, \<open>Turn_Store_Props\<close>, \<open>Turn_Store_Spec\<close> (\<^verbatim>\<open>turn_state/store.py\<close>):
    tables as lists of records, one function per method, leases as fencing generations; the specification
    is a ledger of operations that the store refines.
  \<^item> \<open>Turn_Codec\<close>, \<open>Turn_Images\<close>, \<open>Turn_Validate\<close>, \<open>Turn_Validate_Props\<close>, \<open>Turn_Validate_Order\<close>
    (\<^verbatim>\<open>turn_state/codec.py\<close>): snapshot, redaction, image externalisation, validation, restore.
  \<^item> \<open>Turn_Durability\<close>, \<open>Turn_Durability_Props\<close> (\<^verbatim>\<open>turn_state/durability.py\<close>): the handle and its hooks.
  \<^item> \<open>Turn_Resume\<close>, \<open>Turn_Resume_Props\<close> (\<^verbatim>\<open>discord/turn_resume.py\<close>): command, halt, admission, repair.
  \<^item> \<open>Stuck_Loop\<close> (\<^verbatim>\<open>discord/response_guards.py\<close>): fingerprints and the bounded tracker.
  \<^item> \<open>Breakers\<close>, \<open>Breakers_Props\<close> (\<^verbatim>\<open>llm/circuit_breaker.py\<close>, \<^verbatim>\<open>llm/model_breaker.py\<close>, \<^verbatim>\<open>llm/backoff.py\<close>);
    \<open>LLM_Recovery\<close>, \<open>LLM_Recovery_Props\<close> (\<^verbatim>\<open>llm/recovery.py\<close>).
  \<^item> \<open>Policy_File\<close> (\<^verbatim>\<open>json_store.py\<close>, \<^verbatim>\<open>permissions/persistence.py\<close>), \<open>Permissions\<close> and \<open>Host_Access\<close>
    (\<^verbatim>\<open>permissions/manager.py\<close>, \<^verbatim>\<open>permissions/host_access.py\<close>).
  \<^item> \<open>Patch_Plan\<close>, \<open>Patch_Plan_Props\<close>, \<open>Patch_Match\<close>, \<open>Patch_Apply\<close>, \<open>Patch_Apply_Props\<close>
    (\<^verbatim>\<open>tools/apply_patch.py\<close>): parser, validator, matcher and line editor.
  \<^item> \<open>Geometry\<close> (\<^verbatim>\<open>computer/geometry.py\<close>).
  \<^item> \<open>Audit_Signer\<close> (\<^verbatim>\<open>audit/signer.py\<close>), \<open>Audit_Log\<close>, \<open>Audit_Log_Props\<close>, \<open>Audit_Text\<close>, \<open>Audit_Integrity\<close>
    (\<^verbatim>\<open>audit/logger.py\<close>): chain, append with its failures, caps and readers, the integrity report.
  \<^item> \<open>Schedule_Record\<close>, \<open>Scheduler\<close>, \<open>Schedule_Control\<close>, \<open>Scheduler_Inv\<close>, \<open>Scheduler_Steps\<close>,
    \<open>Scheduler_Exclusion\<close>, \<open>Scheduler_Tick\<close>, \<open>Scheduler_Props\<close> (\<^verbatim>\<open>scheduler/scheduler.py\<close>): records and
    checks, the sections of an execution, the operators' calls, and the invariant of their interleavings.
  \<^item> \<open>Output_Store\<close>, \<open>Output_Store_Props\<close> (\<^verbatim>\<open>tools/output_retention.py\<close>), \<open>Output_Page\<close>, \<open>Output_Page_Props\<close>
    (\<^verbatim>\<open>tools/output_delivery.py\<close>, \<^verbatim>\<open>tools/handlers/output.py\<close>): retained tool output under its quota, the
    delivery within a budget, the pages and the reader that follows their cursors.
  \<^item> \<open>Host_Registry\<close>, \<open>Host_Registry_Inv\<close>, \<open>Host_Registry_Props\<close> (\<^verbatim>\<open>tools/hosts/registry.py\<close>,
    \<^verbatim>\<open>tools/hosts/trust.py\<close>): generations, staged publication, leases and revocation, with the invariant of
    any sequence of these; \<open>Output_Access\<close>, \<open>Output_Access_Props\<close> (\<^verbatim>\<open>tools/output_authorization.py\<close> and the
    lease and output sections of \<^verbatim>\<open>tools/executor.py\<close>): who may lease a host and read retained output.

  \<^item> \<open>Host_Trust\<close>, \<open>Host_Enroll\<close> (\<^verbatim>\<open>tools/hosts/trust.py\<close>, \<^verbatim>\<open>tools/hosts/control.py\<close>): checks of requests, keys
    and certificates, candidates, their test and their trust files; \<open>Host_Manage\<close> (\<^verbatim>\<open>web/api/hosts.py\<close>): the
    changes of the inventory. \<open>Host_Certificate\<close> compares the certificate parser with the format, \<open>Host_Candidate\<close>
    shows what a request can become; \<open>Host_Evidence\<close>, \<open>Host_Manage_Inv\<close> and \<open>Host_History\<close> hold the invariants and
    the history of a run, \<open>Host_Example\<close> a concrete one, \<open>Host_Manage_Props\<close> the properties.

  What the lemmas show. Safety: a tool call runs at most once, an unrecorded effect is not repeated, a
  stale owner of a turn changes nothing, a lane and a schedule run one execution at a time, a host is
  activated only with the evidence its trust mode asks for. Durability:
  what must be on disk before an effect is. Integrity: the audit chain stays verifiable through every
  failure, and its last digest binds the history. Refinement: the store implements the ledger, hunks
  implement line edits, the published inventory is the saved one. Termination: recovery and retries end. Errors: a failed save changes nothing, a
  damaged policy file refuses everybody.

  Abstractions. An operation under a lock or a transaction is one step; asynchronous code is cut at the
  points where it gives up control, and the pieces interleave freely. A failed system call or save
  is a Boolean argument at the place where the code meets it. Clock readings are rationals, bytes
  and characters are below 256, long dashes in messages are hyphens. Digests, the keyed digest, \<^verbatim>\<open>json.loads\<close>,
  the secret scrubbers, \<^verbatim>\<open>croniter\<close>, time zones, ISO time texts and the executed tools are arguments, and what a
  property needs of them is a hypothesis. Loops that may not end take fuel: where every
  attempt takes some minimal time, the recovery loop of a generation needs at most two rounds more than the
  number of these times that fit its budget. A restart of Odin is an event of the turn store, the audit log
  and the scheduler; the host registry and the enrollment are states of one process, and what retained output
  means to a later one is stated of any other run. The trust files of hosts that share an identity at the
  start are outside the trust file property, which also asks that the digests in a run do not collide.

  Not modelled: the tool loop and its prompts, the computer-use subsystem but for its geometry, process
  management, agents, sessions, knowledge and search, the web interface but for the hosts, configuration, the
  model clients, and parts of the modelled files named in the manifest, among them the file transaction of
  \<^verbatim>\<open>apply_patch\<close>. They are mostly orchestration of external systems (Discord, HTTP, X11, Docker, SSH, SQLite), whose
  behaviour would be hypotheses.
\<close>

end
